(* ===== verification/Prelude.thy ===== *)
theory Prelude
  imports Main "HOL-Library.List_Lexorder" "HOL-Library.Char_ord"
begin

text \<open>
  What every component shares: the exceptions of \<open>src/src/shared/exceptions/app.exception.ts\<close>
  as a datatype, the result type of an operation that may throw, and the pieces of the
  JavaScript standard library the code calls (rounding, stable sorting with a comparator,
  string trimming and case folding, decimal printing and parsing), with the lemmas on them
  the components use.

  Conventions of the whole development. A number the code keeps integral is an \<open>int\<close>
  (instants are epoch milliseconds, durations seconds or minutes, as the source has them; all
  of them stay far below \<open>2 ^ 53\<close>, where a double is exact). \<open>null\<close> and
  \<open>undefined\<close> are \<open>None\<close> wherever the code treats them alike, so \<open>a ?? b\<close>
  is \<^const>\<open>case_option\<close> written \<open>coalesce\<close>. A string is a list of characters, one
  per UTF-16 code unit below 256; comparing two strings with \<open><\<close> is the lexicographic
  order on them. The wording of an error message is not modelled; its class and its code are.
\<close>

named_theorems guard_defs "definitions of the code's boolean guards"

section \<open>Exceptions and results\<close>

text \<open>Each constructor is a class of \<open>app.exception.ts\<close> and carries the error's code.\<close>

datatype app_exception =
    ValidationError string
  | UnauthorizedError string
  | InvalidCredentialsError
  | ForbiddenError string
  | AccountDisabledError
  | NotFoundError string
  | ConflictError string
  | GoneError string
  | TooManyAttemptsError string
  | UnprocessableError string

fun exception_status :: "app_exception \<Rightarrow> nat" where
  "exception_status (ValidationError _) = 400"
| "exception_status (UnauthorizedError _) = 401"
| "exception_status InvalidCredentialsError = 401"
| "exception_status (ForbiddenError _) = 403"
| "exception_status AccountDisabledError = 403"
| "exception_status (NotFoundError _) = 404"
| "exception_status (ConflictError _) = 409"
| "exception_status (GoneError _) = 410"
| "exception_status (TooManyAttemptsError _) = 429"
| "exception_status (UnprocessableError _) = 422"

fun exception_code :: "app_exception \<Rightarrow> string" where
  "exception_code (ValidationError c) = c"
| "exception_code (UnauthorizedError c) = c"
| "exception_code InvalidCredentialsError = ''INVALID_CREDENTIALS''"
| "exception_code (ForbiddenError c) = c"
| "exception_code AccountDisabledError = ''ACCOUNT_DISABLED''"
| "exception_code (NotFoundError c) = c"
| "exception_code (ConflictError c) = c"
| "exception_code (GoneError c) = c"
| "exception_code (TooManyAttemptsError c) = c"
| "exception_code (UnprocessableError c) = c"

type_synonym 'a result = "app_exception + 'a"

abbreviation throw :: "app_exception \<Rightarrow> 'a result" where
  "throw e \<equiv> Inl e"

abbreviation return :: "'a \<Rightarrow> 'a result" where
  "return x \<equiv> Inr x"

fun and_then :: "'a result \<Rightarrow> ('a \<Rightarrow> 'b result) \<Rightarrow> 'b result" where
  "and_then (Inl e) f = Inl e"
| "and_then (Inr x) f = f x"

lemma and_then_Inr [simp]: "and_then r f = Inr y \<longleftrightarrow> (\<exists>x. r = Inr x \<and> f x = Inr y)"
  by (cases r) auto

lemma and_then_Inl: "and_then r f = Inl e \<longleftrightarrow> r = Inl e \<or> (\<exists>x. r = Inr x \<and> f x = Inl e)"
  by (cases r) auto

section \<open>Nullish values\<close>

definition coalesce :: "'a option \<Rightarrow> 'a \<Rightarrow> 'a" where
  "coalesce x d = (case x of None \<Rightarrow> d | Some v \<Rightarrow> v)"

lemma coalesce_simps [simp]: "coalesce None d = d" "coalesce (Some v) d = v"
  by (simp_all add: coalesce_def)

definition or_else :: "'a option \<Rightarrow> 'a option \<Rightarrow> 'a option" where
  "or_else x y = (case x of None \<Rightarrow> y | Some v \<Rightarrow> Some v)"

lemma or_else_simps [simp]: "or_else None y = y" "or_else (Some v) y = Some v"
  by (simp_all add: or_else_def)

lemma coalesce_or_else [simp]: "coalesce (or_else x y) d = coalesce x (coalesce y d)"
  by (cases x) auto

section \<open>Rounding\<close>

text \<open>
  \<open>Math.round(a / b)\<close>, \<open>Math.ceil(a / b)\<close> and \<open>Math.floor(a / b)\<close> of two
  integers with \<open>0 < b\<close>: rounding takes halves up, towards plus infinity.
\<close>

definition round_div :: "int \<Rightarrow> int \<Rightarrow> int" where
  "round_div a b = (2 * a + b) div (2 * b)"

definition ceil_div :: "int \<Rightarrow> int \<Rightarrow> int" where
  "ceil_div a b = - ((- a) div b)"

lemma round_div_exact: "0 < b \<Longrightarrow> round_div (b * q) b = q"
proof -
  assume b: "0 < b"
  have "2 * (b * q) + b = b + q * (2 * b)" by simp
  then have "(2 * (b * q) + b) div (2 * b) = (b + q * (2 * b)) div (2 * b)" by (rule arg_cong)
  also have "\<dots> = q + b div (2 * b)" using b by (intro div_mult_self1) simp
  also have "b div (2 * b) = 0" using b by simp
  finally show ?thesis by (simp add: round_div_def)
qed

lemma round_div_bounds:
  assumes "0 < b"
  shows "2 * b * round_div a b \<le> 2 * a + b" and "2 * a + b < 2 * b * round_div a b + 2 * b"
proof -
  let ?n = "2 * a + b" and ?d = "2 * b"
  have eq: "?d * (?n div ?d) + ?n mod ?d = ?n" by (rule mult_div_mod_eq)
  have r: "0 \<le> ?n mod ?d" "?n mod ?d < ?d" using assms by simp_all
  show "2 * b * round_div a b \<le> 2 * a + b"
    using eq r(1) unfolding round_div_def by linarith
  show "2 * a + b < 2 * b * round_div a b + 2 * b"
    using eq r(2) unfolding round_div_def by linarith
qed

lemma round_div_nonneg: "0 < b \<Longrightarrow> 0 \<le> a \<Longrightarrow> 0 \<le> round_div a b"
  unfolding round_div_def by (rule pos_imp_zdiv_nonneg_iff [THEN iffD2]) auto

lemma round_div_mono: "0 < b \<Longrightarrow> a \<le> a' \<Longrightarrow> round_div a b \<le> round_div a' b"
  by (simp add: round_div_def zdiv_mono1)

lemma round_div_0 [simp]: "0 < b \<Longrightarrow> round_div 0 b = 0"
  using round_div_exact [of b 0] by simp

lemma ceil_div_bounds:
  assumes "0 < b"
  shows "a \<le> b * ceil_div a b" and "b * ceil_div a b < a + b"
proof -
  have eq: "b * ((- a) div b) + (- a) mod b = - a" by (rule mult_div_mod_eq)
  have r: "0 \<le> (- a) mod b" "(- a) mod b < b" using assms by simp_all
  have "b * ceil_div a b = - (b * ((- a) div b))" by (simp add: ceil_div_def)
  then show "a \<le> b * ceil_div a b" and "b * ceil_div a b < a + b" using eq r by linarith+
qed

section \<open>Lists\<close>

text \<open>
  \<open>Array.prototype.sort\<close> with a comparator is stable; insertion from the right gives
  the stable order of any consistent comparator.
\<close>

fun js_insert :: "('a \<Rightarrow> 'a \<Rightarrow> int) \<Rightarrow> 'a \<Rightarrow> 'a list \<Rightarrow> 'a list" where
  "js_insert cmp x [] = [x]"
| "js_insert cmp x (y # ys) = (if cmp x y \<le> 0 then x # y # ys else y # js_insert cmp x ys)"

fun js_sort :: "('a \<Rightarrow> 'a \<Rightarrow> int) \<Rightarrow> 'a list \<Rightarrow> 'a list" where
  "js_sort cmp [] = []"
| "js_sort cmp (x # xs) = js_insert cmp x (js_sort cmp xs)"

lemma set_js_insert [simp]: "set (js_insert cmp x xs) = insert x (set xs)"
  by (induction xs) auto

lemma set_js_sort [simp]: "set (js_sort cmp xs) = set xs"
  by (induction xs) auto

lemma length_js_insert [simp]: "length (js_insert cmp x xs) = Suc (length xs)"
  by (induction xs) auto

lemma length_js_sort [simp]: "length (js_sort cmp xs) = length xs"
  by (induction xs) auto

lemma js_sort_eq_Nil [simp]: "js_sort cmp xs = [] \<longleftrightarrow> xs = []"
  by (metis length_0_conv length_js_sort)

text \<open>A comparator is consistent when it is the sign of a total preorder.\<close>

definition comparator_ok :: "('a \<Rightarrow> 'a \<Rightarrow> int) \<Rightarrow> bool" where
  "comparator_ok cmp \<longleftrightarrow>
     (\<forall>x y. cmp x y \<le> 0 \<or> cmp y x \<le> 0) \<and>
     (\<forall>x y z. cmp x y \<le> 0 \<longrightarrow> cmp y z \<le> 0 \<longrightarrow> cmp x z \<le> 0)"

lemma sorted_js_insert:
  assumes "comparator_ok cmp" "sorted_wrt (\<lambda>a b. cmp a b \<le> 0) xs"
  shows "sorted_wrt (\<lambda>a b. cmp a b \<le> 0) (js_insert cmp x xs)"
  using assms(2)
proof (induction xs)
  case Nil
  then show ?case by simp
next
  case (Cons y ys)
  show ?case
  proof (cases "cmp x y \<le> 0")
    case True
    then show ?thesis using Cons.prems assms(1) unfolding comparator_ok_def by fastforce
  next
    case False
    then have "cmp y x \<le> 0" using assms(1) unfolding comparator_ok_def by blast
    then show ?thesis using False Cons by auto
  qed
qed

lemma sorted_js_sort:
  "comparator_ok cmp \<Longrightarrow> sorted_wrt (\<lambda>a b. cmp a b \<le> 0) (js_sort cmp xs)"
  by (induction xs) (auto intro: sorted_js_insert)

lemma js_sort_sorted_id:
  "sorted_wrt (\<lambda>a b. cmp a b \<le> 0) xs \<Longrightarrow> js_sort cmp xs = xs"
proof (induction xs)
  case Nil
  then show ?case by simp
next
  case (Cons x xs)
  then have "js_sort cmp xs = xs" by simp
  with Cons.prems show ?case by (cases xs) auto
qed

lemma find_Some_set: "List.find P xs = Some x \<Longrightarrow> x \<in> set xs \<and> P x"
  by (auto simp: find_Some_iff)

lemma find_key:
  assumes "distinct (map key xs)"
  shows "List.find (\<lambda>x. key x = i) xs = Some x \<longleftrightarrow> x \<in> set xs \<and> key x = i"
proof
  show "x \<in> set xs \<and> key x = i" if "List.find (\<lambda>x. key x = i) xs = Some x"
    using that by (auto simp: find_Some_iff)
next
  assume x: "x \<in> set xs \<and> key x = i"
  then obtain y where y: "List.find (\<lambda>x. key x = i) xs = Some y"
    by (cases "List.find (\<lambda>x. key x = i) xs") (auto simp: find_None_iff)
  then have "y \<in> set xs \<and> key y = i" by (rule find_Some_set)
  with x assms have "y = x" by (auto simp: distinct_map dest: inj_onD)
  with y show "List.find (\<lambda>x. key x = i) xs = Some x" by simp
qed

lemma find_key_None: "List.find (\<lambda>x. key x = i) xs = None \<longleftrightarrow> i \<notin> key ` set xs"
  by (auto simp: find_None_iff)

lemma js_sort_Cons_set: "js_sort cmp xs = x # ys \<Longrightarrow> x \<in> set xs"
  using set_js_sort [of cmp xs] by auto

lemma js_sort_top:
  assumes "comparator_ok cmp" "js_sort cmp xs = x # ys"
  shows "x \<in> set xs \<and> (\<forall>y \<in> set xs. cmp x y \<le> 0)"
proof -
  have "set xs = insert x (set ys)" using set_js_sort [of cmp xs] assms(2) by simp
  moreover have "sorted_wrt (\<lambda>a b. cmp a b \<le> 0) (x # ys)"
    using sorted_js_sort [OF assms(1), of xs] assms(2) by simp
  moreover have "cmp x x \<le> 0" using assms(1) by (auto simp: comparator_ok_def)
  ultimately show ?thesis by auto
qed

lemma sum_list_filter_partition:
  fixes f :: "'a \<Rightarrow> int"
  shows "sum_list (map f xs) = sum_list (map f (filter P xs)) + sum_list (map f (filter (\<lambda>x. \<not> P x) xs))"
  by (induction xs) auto

section \<open>Strings\<close>

text \<open>\<open>String.prototype.trim\<close>, \<open>replace(/\s+/g, ' ')\<close>, \<open>toLowerCase\<close>.\<close>

definition is_space :: "char \<Rightarrow> bool" where
  "is_space c = (let n = of_char c :: nat in (9 \<le> n \<and> n \<le> 13) \<or> n = 32 \<or> n = 160)"

definition trim :: "string \<Rightarrow> string" where
  "trim s = rev (dropWhile is_space (rev (dropWhile is_space s)))"

fun collapse_from :: "bool \<Rightarrow> string \<Rightarrow> string" where
  "collapse_from _ [] = []"
| "collapse_from in_run (c # cs) =
     (if is_space c then (if in_run then collapse_from True cs else CHR '' '' # collapse_from True cs)
      else c # collapse_from False cs)"

definition collapse_spaces :: "string \<Rightarrow> string" where
  "collapse_spaces s = collapse_from False s"

definition lower_char :: "char \<Rightarrow> char" where
  "lower_char c = (let n = of_char c :: nat in
     if (65 \<le> n \<and> n \<le> 90) \<or> (192 \<le> n \<and> n \<le> 222 \<and> n \<noteq> 215) then char_of (n + 32) else c)"

definition to_lower :: "string \<Rightarrow> string" where
  "to_lower s = map lower_char s"

lemma length_to_lower [simp]: "length (to_lower s) = length s"
  by (simp add: to_lower_def)

lemma dropWhile_space_idem: "dropWhile P (dropWhile P xs) = dropWhile P xs"
  by (induction xs) auto

lemma length_collapse_from: "length (collapse_from b s) \<le> length s"
  by (induction b s rule: collapse_from.induct) auto

text \<open>Decimal digits: \<open>String(n)\<close> of a natural number, \<open>Number(s)\<close> of digits.\<close>

definition digit_char :: "nat \<Rightarrow> char" where
  "digit_char d = char_of (48 + d)"

definition is_digit :: "char \<Rightarrow> bool" where
  "is_digit c = (48 \<le> (of_char c :: nat) \<and> (of_char c :: nat) \<le> 57)"

definition digit_val :: "char \<Rightarrow> nat" where
  "digit_val c = of_char c - 48"

fun show_nat :: "nat \<Rightarrow> string" where
  "show_nat n = (if n < 10 then [digit_char n] else show_nat (n div 10) @ [digit_char (n mod 10)])"

declare show_nat.simps [simp del]

definition show_int :: "int \<Rightarrow> string" where
  "show_int i = (if i < 0 then CHR ''-'' # show_nat (nat (- i)) else show_nat (nat i))"

definition parse_digits :: "string \<Rightarrow> nat" where
  "parse_digits s = foldl (\<lambda>acc c. 10 * acc + digit_val c) 0 s"

lemma digit_val_char [simp]: "d < 10 \<Longrightarrow> digit_val (digit_char d) = d"
  by (simp add: digit_val_def digit_char_def)

lemma is_digit_char [simp]: "d < 10 \<Longrightarrow> is_digit (digit_char d)"
  by (simp add: is_digit_def digit_char_def)

lemma digit_char_0: "digit_char 0 = CHR ''0''"
  by code_simp

lemma digit_char_inj: "a < 10 \<Longrightarrow> b < 10 \<Longrightarrow> digit_char a = digit_char b \<Longrightarrow> a = b"
  by (metis digit_val_char)

lemma digits_show_nat: "\<forall>c \<in> set (show_nat n). is_digit c"
proof (induction n rule: show_nat.induct)
  case (1 n)
  then show ?case by (subst show_nat.simps) auto
qed

lemma show_nat_nonempty [simp]: "show_nat n \<noteq> []"
  by (subst show_nat.simps) simp

lemma parse_digits_snoc [simp]: "parse_digits (s @ [c]) = 10 * parse_digits s + digit_val c"
  by (simp add: parse_digits_def)

lemma parse_show_nat [simp]: "parse_digits (show_nat n) = n"
proof (induction n rule: show_nat.induct)
  case (1 n)
  show ?case
  proof (cases "n < 10")
    case True
    then show ?thesis by (subst show_nat.simps) (simp add: parse_digits_def)
  next
    case False
    then have "parse_digits (show_nat (n div 10)) = n div 10" by (rule "1.IH")
    with False show ?thesis by (subst show_nat.simps) simp
  qed
qed

lemma show_nat_inj: "show_nat a = show_nat b \<longleftrightarrow> a = b"
  by (metis parse_show_nat)

text \<open>\<open>String(n).padStart(2, '0')\<close>.\<close>

definition pad2 :: "nat \<Rightarrow> string" where
  "pad2 n = (if n < 10 then CHR ''0'' # show_nat n else show_nat n)"

lemma show_nat_lt10: "n < 10 \<Longrightarrow> show_nat n = [digit_char n]"
  by (subst show_nat.simps) simp

lemma show_nat_lt100: "10 \<le> n \<Longrightarrow> n < 100 \<Longrightarrow> show_nat n = [digit_char (n div 10), digit_char (n mod 10)]"
  by (subst show_nat.simps) (simp add: show_nat_lt10)

lemma show_nat_ge10: "10 \<le> n \<Longrightarrow> show_nat n = show_nat (n div 10) @ [digit_char (n mod 10)]"
  by (subst show_nat.simps) simp

lemma digit_chars:
  "digit_char 0 = CHR ''0''" "digit_char (Suc 0) = CHR ''1''" "digit_char 2 = CHR ''2''"
  "digit_char 3 = CHR ''3''" "digit_char 4 = CHR ''4''" "digit_char 5 = CHR ''5''"
  "digit_char 6 = CHR ''6''" "digit_char 7 = CHR ''7''" "digit_char 8 = CHR ''8''"
  "digit_char 9 = CHR ''9''"
  by code_simp+

text \<open>Printing of concrete numbers.\<close>

lemmas show_num = show_int_def pad2_def show_nat_lt10 show_nat_ge10 digit_chars

lemma pad2_two_digits: "n < 100 \<Longrightarrow> pad2 n = [digit_char (n div 10), digit_char (n mod 10)]"
  by (cases "n < 10") (simp_all add: pad2_def show_nat_lt10 show_nat_lt100 digit_char_0)

lemma parse_pad2 [simp]: "parse_digits (pad2 n) = n"
proof (cases "n < 10")
  case True
  then show ?thesis
    by (simp add: pad2_def show_nat_lt10 parse_digits_def digit_val_def digit_char_def)
next
  case False
  then show ?thesis by (simp add: pad2_def)
qed

text \<open>\<open>String.prototype.split\<close> with a one-character separator.\<close>

fun split_on :: "char \<Rightarrow> string \<Rightarrow> string list" where
  "split_on sep [] = [[]]"
| "split_on sep (c # cs) =
     (if c = sep then [] # split_on sep cs
      else (case split_on sep cs of [] \<Rightarrow> [[c]] | p # ps \<Rightarrow> (c # p) # ps))"

lemma split_on_no_sep: "sep \<notin> set s \<Longrightarrow> split_on sep s = [s]"
  by (induction s) auto

lemma split_on_append_sep: "sep \<notin> set s \<Longrightarrow> split_on sep (s @ sep # t) = s # split_on sep t"
  by (induction s) auto

lemma digits_no_dash: "\<forall>c \<in> set s. is_digit c \<Longrightarrow> CHR ''-'' \<notin> set s"
  by (auto simp: is_digit_def)

lemma digits_pad2: "\<forall>c \<in> set (pad2 n). is_digit c"
  using digits_show_nat [of n] by (auto simp: pad2_def is_digit_def)

section \<open>Bounded caches\<close>

text \<open>
  The pattern of the module-level caches: look the key up, else compute, empty the map when it is
  full, and set. An entry is added only after a miss, so the association list has one entry per
  key and its length is the map's \<open>size\<close>.
\<close>

type_synonym 'b memo = "(string \<times> 'b) list"

definition memo_call :: "('a \<Rightarrow> string) \<Rightarrow> ('a \<Rightarrow> 'b) \<Rightarrow> nat \<Rightarrow> 'b memo \<Rightarrow> 'a \<Rightarrow> 'b memo \<times> 'b" where
  "memo_call key compute limit cache x =
     (case map_of cache (key x) of
        Some hit \<Rightarrow> (cache, hit)
      | None \<Rightarrow>
          (let y = compute x; kept = (if length cache \<ge> limit then [] else cache)
           in ((key x, y) # kept, y)))"

text \<open>What a cache relies on: on the arguments it is called with, the key tells them apart.\<close>

locale bounded_memo =
  fixes key :: "'a \<Rightarrow> string" and compute :: "'a \<Rightarrow> 'b" and limit :: nat and valid :: "'a \<Rightarrow> bool"
  assumes key_inj: "valid x \<Longrightarrow> valid y \<Longrightarrow> key x = key y \<Longrightarrow> x = y"
    and limit_pos: "0 < limit"
begin

definition memo_ok :: "'b memo \<Rightarrow> bool" where
  "memo_ok cache \<longleftrightarrow> length cache \<le> limit \<and> (\<forall>(k, y) \<in> set cache. \<exists>x. valid x \<and> k = key x \<and> y = compute x)"

lemma memo_empty: "memo_ok []"
  by (simp add: memo_ok_def)

lemma memo_call_ok:
  assumes "memo_ok cache" "valid x"
  shows "memo_ok (fst (memo_call key compute limit cache x))
    \<and> snd (memo_call key compute limit cache x) = compute x"
proof (cases "map_of cache (key x)")
  case None
  then show ?thesis using assms limit_pos by (auto simp: memo_call_def memo_ok_def Let_def)
next
  case (Some hit)
  then have "(key x, hit) \<in> set cache" by (rule map_of_SomeD)
  then obtain y where "valid y" "key x = key y" "hit = compute y"
    using assms(1) by (auto simp: memo_ok_def)
  then show ?thesis using Some assms key_inj [of x y] by (simp add: memo_call_def)
qed

end

section \<open>Sets of a list\<close>

text \<open>\<open>[...new Set(ids)]\<close> keeps first occurrences in order.\<close>

fun js_unique :: "'a list \<Rightarrow> 'a list" where
  "js_unique [] = []"
| "js_unique (x # xs) = x # js_unique (filter (\<lambda>y. y \<noteq> x) xs)"

lemma set_js_unique [simp]: "set (js_unique xs) = set xs"
  by (induction xs rule: js_unique.induct) auto

lemma distinct_js_unique [simp]: "distinct (js_unique xs)"
  by (induction xs rule: js_unique.induct) auto

end
