(* ===== verification/Settings.thy ===== *)
theory Settings
  imports Prelude "HOL-Library.AList"
begin

text \<open>
  Organisation settings: the table of \<open>src/src/modules/settings/domain/settings.rules.ts\<close> (defaults,
  bounds, partial updates, reading what is stored) and the service over the stored JSON rows with its
  cache, \<open>application/app-settings.service.ts\<close> on \<open>infrastructure/prisma-settings.store.ts\<close>.

  A stored JSON value is a \<open>json\<close>; a number the code finds integral is a \<open>JInt\<close>, every other one
  a \<open>JFraction\<close> (the code only refuses those). An object is the list of its keys and values, in
  order. The settings object is its value at each key, as the loops of the code index it.
  Who updated a row and the log line are left out.
\<close>

section \<open>JSON\<close>

datatype json = JNull | JBool bool | JInt int | JFraction | JString string | JArray "json list" | JObject "(string \<times> json) list"

type_synonym raw = "(string \<times> json) list"

fun asObject :: "json option \<Rightarrow> raw" where
  "asObject (Some (JObject obj)) = obj"
| "asObject _ = []"

text \<open>\<open>stored == null\<close>.\<close>

fun is_null :: "json option \<Rightarrow> bool" where
  "is_null None = True"
| "is_null (Some v) = (v = JNull)"

text \<open>\<open>{ ...base, ...patch }\<close>: a key of the base keeps its place, a new one is added at the end.\<close>

fun spread :: "raw \<Rightarrow> raw \<Rightarrow> raw" where
  "spread base [] = base"
| "spread base ((k, v) # patch) = spread (AList.update k v base) patch"

section \<open>The settings table\<close>

datatype setting_key =
    ApprovalSlaHours | BlockManagerEndDayWhenOverdue | FullDayPct | HalfDayPct | LateStartGraceMin
  | QuietHourActiveMin | QuietHoursFlag | AutoCloseAfterShiftEndMin | BreakBufferMin | FocusAdjustmentsEnabled

type_synonym app_settings = "setting_key \<Rightarrow> json"

fun setting_name :: "setting_key \<Rightarrow> string" where
  "setting_name ApprovalSlaHours = ''approvalSlaHours''"
| "setting_name BlockManagerEndDayWhenOverdue = ''blockManagerEndDayWhenOverdue''"
| "setting_name FullDayPct = ''fullDayPct''"
| "setting_name HalfDayPct = ''halfDayPct''"
| "setting_name LateStartGraceMin = ''lateStartGraceMin''"
| "setting_name QuietHourActiveMin = ''quietHourActiveMin''"
| "setting_name QuietHoursFlag = ''quietHoursFlag''"
| "setting_name AutoCloseAfterShiftEndMin = ''autoCloseAfterShiftEndMin''"
| "setting_name BreakBufferMin = ''breakBufferMin''"
| "setting_name FocusAdjustmentsEnabled = ''focusAdjustmentsEnabled''"

definition SETTINGS_KEY :: string where
  "SETTINGS_KEY = ''org''"

definition orgSettingsKey :: "string \<Rightarrow> string" where
  "orgSettingsKey companyId = ''org:'' @ companyId"

fun DEFAULT_SETTINGS :: app_settings where
  "DEFAULT_SETTINGS ApprovalSlaHours = JInt 48"
| "DEFAULT_SETTINGS BlockManagerEndDayWhenOverdue = JBool True"
| "DEFAULT_SETTINGS FullDayPct = JInt 80"
| "DEFAULT_SETTINGS HalfDayPct = JInt 40"
| "DEFAULT_SETTINGS LateStartGraceMin = JInt 10"
| "DEFAULT_SETTINGS QuietHourActiveMin = JInt 20"
| "DEFAULT_SETTINGS QuietHoursFlag = JInt 4"
| "DEFAULT_SETTINGS AutoCloseAfterShiftEndMin = JInt 240"
| "DEFAULT_SETTINGS BreakBufferMin = JInt 10"
| "DEFAULT_SETTINGS FocusAdjustmentsEnabled = JBool True"

definition BOOLEAN_KEYS :: "setting_key list" where
  "BOOLEAN_KEYS = [BlockManagerEndDayWhenOverdue, FocusAdjustmentsEnabled]"

text \<open>\<open>SETTING_BOUNDS\<close>; the on/off settings have none.\<close>

fun SETTING_BOUNDS :: "setting_key \<Rightarrow> int \<times> int" where
  "SETTING_BOUNDS ApprovalSlaHours = (12, 168)"
| "SETTING_BOUNDS FullDayPct = (1, 100)"
| "SETTING_BOUNDS HalfDayPct = (1, 99)"
| "SETTING_BOUNDS LateStartGraceMin = (0, 120)"
| "SETTING_BOUNDS QuietHourActiveMin = (1, 59)"
| "SETTING_BOUNDS QuietHoursFlag = (1, 100)"
| "SETTING_BOUNDS AutoCloseAfterShiftEndMin = (30, 720)"
| "SETTING_BOUNDS BreakBufferMin = (0, 60)"
| "SETTING_BOUNDS _ = (0, 0)"

definition SETTING_KEYS :: "setting_key list" where
  "SETTING_KEYS =
     [ApprovalSlaHours, BlockManagerEndDayWhenOverdue, FullDayPct, HalfDayPct, LateStartGraceMin,
      QuietHourActiveMin, QuietHoursFlag, AutoCloseAfterShiftEndMin, BreakBufferMin, FocusAdjustmentsEnabled]"

definition isIntKey :: "setting_key \<Rightarrow> bool" where
  "isIntKey k = (k \<notin> set BOOLEAN_KEYS)"

fun within :: "int \<times> int \<Rightarrow> json \<Rightarrow> bool" where
  "within (lo, hi) (JInt n) = (lo \<le> n \<and> n \<le> hi)"
| "within _ _ = False"

text \<open>True where the code answers a message, False where it answers null.\<close>

definition problemWith :: "setting_key \<Rightarrow> json \<Rightarrow> bool" where
  "problemWith k v =
     (if \<not> isIntKey k then (case v of JBool _ \<Rightarrow> False | _ \<Rightarrow> True)
      else \<not> within (SETTING_BOUNDS k) v)"

fun int_of :: "json \<Rightarrow> int" where
  "int_of (JInt n) = n"
| "int_of _ = 0"

definition full_above_half :: "app_settings \<Rightarrow> bool" where
  "full_above_half s = (\<not> int_of (s FullDayPct) \<le> int_of (s HalfDayPct))"

type_synonym settings_patch = "setting_key \<Rightarrow> json option"

fun patch_keys :: "setting_key list \<Rightarrow> settings_patch \<Rightarrow> app_settings \<Rightarrow> setting_key list
   \<Rightarrow> setting_key + (app_settings \<times> setting_key list)" where
  "patch_keys [] patch nxt changed = Inr (nxt, changed)"
| "patch_keys (k # ks) patch nxt changed =
     (case patch k of
        None \<Rightarrow> patch_keys ks patch nxt changed
      | Some v \<Rightarrow>
          if problemWith k v then Inl k
          else patch_keys ks patch (nxt(k := v)) (if nxt k \<noteq> v then changed @ [k] else changed))"

text \<open>\<open>Inl\<close> the field of the first problem, else the new settings and the keys that changed.\<close>

definition applySettingsPatch :: "app_settings \<Rightarrow> settings_patch \<Rightarrow> setting_key + (app_settings \<times> setting_key list)" where
  "applySettingsPatch current patch =
     (case patch_keys SETTING_KEYS patch current [] of
        Inl field \<Rightarrow> Inl field
      | Inr (nxt, changed) \<Rightarrow>
          if \<not> full_above_half nxt
          then Inl (if patch FullDayPct \<noteq> None \<or> patch HalfDayPct = None then FullDayPct else HalfDayPct)
          else Inr (nxt, changed))"

definition read_key :: "raw \<Rightarrow> app_settings \<Rightarrow> setting_key \<Rightarrow> app_settings" where
  "read_key obj out k =
     (case map_of obj (setting_name k) of
        Some v \<Rightarrow> if problemWith k v then out else out(k := v)
      | None \<Rightarrow> out)"

definition settingsFromStored :: "json option \<Rightarrow> app_settings" where
  "settingsFromStored stored =
     (case stored of
        Some (JObject obj) \<Rightarrow>
          (let out = foldl (read_key obj) DEFAULT_SETTINGS SETTING_KEYS in
           if \<not> full_above_half out
           then out(FullDayPct := DEFAULT_SETTINGS FullDayPct, HalfDayPct := DEFAULT_SETTINGS HalfDayPct)
           else out)
      | _ \<Rightarrow> DEFAULT_SETTINGS)"

section \<open>The service\<close>

definition CACHE_MS :: int where "CACHE_MS = 15000"

definition USER_ORG_MS :: int where "USER_ORG_MS = 60000"

record settings_state =
  set_rows :: "string \<Rightarrow> json option"
  set_cache :: "(string \<times> raw \<times> int) list"
  set_companyOf :: "string \<Rightarrow> string option"
  set_userOrg :: "(string \<times> string option \<times> int) list"

definition row_key :: "string option \<Rightarrow> string" where
  "row_key companyId = (case companyId of Some c \<Rightarrow> if c \<noteq> [] then orgSettingsKey c else SETTINGS_KEY | None \<Rightarrow> SETTINGS_KEY)"

text \<open>What a read finds in the rows: the organisation's own, else the old shared one.\<close>

definition stored_raw :: "(string \<Rightarrow> json option) \<Rightarrow> string \<Rightarrow> raw" where
  "stored_raw rows key = asObject (if is_null (rows key) then rows SETTINGS_KEY else rows key)"

definition keep_raw :: "string \<Rightarrow> raw \<Rightarrow> int \<Rightarrow> settings_state \<Rightarrow> settings_state" where
  "keep_raw key v now s =
     s\<lparr>set_cache := AList.update key (v, now) (if length (set_cache s) > 500 then [] else set_cache s)\<rparr>"

definition readRaw :: "string option \<Rightarrow> int \<Rightarrow> settings_state \<Rightarrow> raw \<times> settings_state" where
  "readRaw companyId now s =
     (let key = row_key companyId; v = stored_raw (set_rows s) key in
      case map_of (set_cache s) key of
        Some (hit, t) \<Rightarrow> if now - t < CACHE_MS then (hit, s) else (v, keep_raw key v now s)
      | None \<Rightarrow> (v, keep_raw key v now s))"

definition write_row :: "string \<Rightarrow> raw \<Rightarrow> int \<Rightarrow> settings_state \<Rightarrow> settings_state" where
  "write_row key v now s =
     s\<lparr>set_rows := (set_rows s)(key := Some (JObject v)), set_cache := AList.update key (v, now) (set_cache s)\<rparr>"

definition writeRaw :: "string \<Rightarrow> raw \<Rightarrow> int \<Rightarrow> settings_state \<Rightarrow> raw \<times> settings_state" where
  "writeRaw companyId patch now s =
     (let key = orgSettingsKey companyId; nxt = spread (stored_raw (set_rows s) key) patch
      in (nxt, write_row key nxt now s))"

definition getSettings :: "string option \<Rightarrow> int \<Rightarrow> settings_state \<Rightarrow> app_settings \<times> settings_state" where
  "getSettings companyId now s = (case readRaw companyId now s of (v, s') \<Rightarrow> (settingsFromStored (Some (JObject v)), s'))"

text \<open>A user id is asked for only in the shape of a uuid.\<close>

definition is_hex_or_dash :: "char \<Rightarrow> bool" where
  "is_hex_or_dash c = (is_digit c \<or> c = CHR ''-'' \<or> c \<in> set ''abcdefABCDEF'')"

definition companyOfUser_row :: "settings_state \<Rightarrow> string \<Rightarrow> string option" where
  "companyOfUser_row s u = (if length u = 36 \<and> list_all is_hex_or_dash u then set_companyOf s u else None)"

definition companyOfUser :: "string \<Rightarrow> int \<Rightarrow> settings_state \<Rightarrow> string option \<times> settings_state" where
  "companyOfUser u now s =
     (let c = companyOfUser_row s u;
          kept = s\<lparr>set_userOrg := AList.update u (c, now) (if length (set_userOrg s) > 5000 then [] else set_userOrg s)\<rparr>
      in case map_of (set_userOrg s) u of
           Some (hit, t) \<Rightarrow> if now - t < USER_ORG_MS then (hit, s) else (c, kept)
         | None \<Rightarrow> (c, kept))"

definition forUser :: "string \<Rightarrow> int \<Rightarrow> settings_state \<Rightarrow> app_settings \<times> settings_state" where
  "forUser u now s = (case companyOfUser u now s of (c, s') \<Rightarrow> getSettings c now s')"

definition forgetUser :: "string \<Rightarrow> settings_state \<Rightarrow> settings_state" where
  "forgetUser u s = s\<lparr>set_userOrg := AList.delete u (set_userOrg s)\<rparr>"

definition settings_object :: "app_settings \<Rightarrow> raw" where
  "settings_object v = map (\<lambda>k. (setting_name k, v k)) SETTING_KEYS"

definition updateSettings :: "string \<Rightarrow> settings_patch \<Rightarrow> int \<Rightarrow> settings_state \<Rightarrow> app_settings result \<times> settings_state" where
  "updateSettings companyId patch now s =
     (case getSettings (Some companyId) now s of
        (current, s1) \<Rightarrow>
          (case applySettingsPatch current patch of
             Inl field \<Rightarrow> (throw (ValidationError ''VALIDATION_ERROR''), s1)
           | Inr (v, changed) \<Rightarrow> (return v, snd (writeRaw companyId (settings_object v) now s1))))"

section \<open>Lemmas\<close>

lemma setting_keys_all [simp]: "k \<in> set SETTING_KEYS"
  by (cases k) (simp_all add: SETTING_KEYS_def)

lemma setting_keys_distinct [simp]: "distinct SETTING_KEYS"
  by (simp add: SETTING_KEYS_def)

lemma setting_name_inj [simp]: "setting_name a = setting_name b \<longleftrightarrow> a = b"
  by (cases a; cases b) simp_all

definition settings_ok :: "app_settings \<Rightarrow> bool" where
  "settings_ok v \<longleftrightarrow> (\<forall>k. \<not> problemWith k (v k)) \<and> full_above_half v"

lemma default_settings_ok: "settings_ok DEFAULT_SETTINGS"
proof -
  have "\<not> problemWith k (DEFAULT_SETTINGS k)" for k
    by (cases k) (simp_all add: problemWith_def isIntKey_def BOOLEAN_KEYS_def)
  then show ?thesis by (simp add: settings_ok_def full_above_half_def)
qed

definition merged :: "app_settings \<Rightarrow> settings_patch \<Rightarrow> app_settings" where
  "merged cur patch = (\<lambda>k. coalesce (patch k) (cur k))"

lemma patch_keys_Inr:
  assumes "distinct ks"
  shows "patch_keys ks patch nxt ch = Inr (v, ch') \<longleftrightarrow>
    (\<forall>k \<in> set ks. \<forall>x. patch k = Some x \<longrightarrow> \<not> problemWith k x)
    \<and> v = (\<lambda>k. if k \<in> set ks then coalesce (patch k) (nxt k) else nxt k)
    \<and> ch' = ch @ filter (\<lambda>k. coalesce (patch k) (nxt k) \<noteq> nxt k) ks"
  using assms
proof (induction ks arbitrary: nxt ch)
  case Nil
  then show ?case by auto
next
  case (Cons k ks)
  show ?case
  proof (cases "patch k")
    case None
    then show ?thesis using Cons by (auto intro!: ext)
  next
    case (Some x)
    have f: "filter (\<lambda>j. coalesce (patch j) ((nxt(k := x)) j) \<noteq> (nxt(k := x)) j) ks
        = filter (\<lambda>j. coalesce (patch j) (nxt j) \<noteq> nxt j) ks"
      using Cons.prems by (intro filter_cong) auto
    have g: "(\<lambda>j. if j \<in> set ks then coalesce (patch j) ((nxt(k := x)) j) else (nxt(k := x)) j)
        = (\<lambda>j. if j \<in> set (k # ks) then coalesce (patch j) (nxt j) else nxt j)"
      using Cons.prems Some by (auto intro!: ext)
    show ?thesis
    proof (cases "problemWith k x")
      case True
      then show ?thesis using Some by simp
    next
      case False
      have d: "distinct ks" using Cons.prems by simp
      have step: "patch_keys (k # ks) patch nxt ch = patch_keys ks patch (nxt(k := x)) (if nxt k \<noteq> x then ch @ [k] else ch)"
        using Some False by simp
      have "patch_keys (k # ks) patch nxt ch = Inr (v, ch') \<longleftrightarrow>
          (\<forall>j \<in> set ks. \<forall>y. patch j = Some y \<longrightarrow> \<not> problemWith j y)
          \<and> v = (\<lambda>j. if j \<in> set (k # ks) then coalesce (patch j) (nxt j) else nxt j)
          \<and> ch' = (if nxt k \<noteq> x then ch @ [k] else ch) @ filter (\<lambda>j. coalesce (patch j) (nxt j) \<noteq> nxt j) ks"
        unfolding step Cons.IH [OF d] f g ..
      then show ?thesis using Some False by auto
    qed
  qed
qed

lemma applySettingsPatch_Inr:
  "applySettingsPatch cur patch = Inr (v, ch) \<longleftrightarrow>
    (\<forall>k x. patch k = Some x \<longrightarrow> \<not> problemWith k x) \<and> v = merged cur patch \<and> full_above_half v
    \<and> ch = filter (\<lambda>k. v k \<noteq> cur k) SETTING_KEYS"
proof (cases "patch_keys SETTING_KEYS patch cur []")
  case (Inl k)
  have "\<not> (\<forall>k x. patch k = Some x \<longrightarrow> \<not> problemWith k x)"
    using patch_keys_Inr [OF setting_keys_distinct, of patch cur "[]" "merged cur patch"
        "filter (\<lambda>k. coalesce (patch k) (cur k) \<noteq> cur k) SETTING_KEYS"] Inl
    by (auto simp: merged_def)
  then show ?thesis using Inl by (auto simp: applySettingsPatch_def)
next
  case (Inr r)
  obtain v' ch' where r: "r = (v', ch')" by (cases r)
  show ?thesis
    using Inr patch_keys_Inr [OF setting_keys_distinct, of patch cur "[]" v' ch']
    by (auto simp: applySettingsPatch_def r merged_def)
qed

lemma read_keys:
  assumes "distinct ks"
  shows "foldl (read_key obj) out ks k =
    (if k \<in> set ks then (case map_of obj (setting_name k) of Some v \<Rightarrow> if problemWith k v then out k else v | None \<Rightarrow> out k)
     else out k)"
  using assms
proof (induction ks arbitrary: out)
  case Nil
  then show ?case by simp
next
  case (Cons j ks)
  then show ?case by (auto simp: read_key_def split: option.split)
qed

lemma full_half_update:
  "full_above_half (out(FullDayPct := DEFAULT_SETTINGS FullDayPct, HalfDayPct := DEFAULT_SETTINGS HalfDayPct))"
  by (simp add: full_above_half_def)

lemma settingsFromStored_ok: "settings_ok (settingsFromStored j)"
proof (cases "\<exists>o'. j = Some (JObject o')")
  case True
  then obtain obj where j: "j = Some (JObject obj)" by blast
  have "\<not> problemWith k (foldl (read_key obj) DEFAULT_SETTINGS SETTING_KEYS k)" for k
    using default_settings_ok by (auto simp: read_keys settings_ok_def split: option.split)
  then show ?thesis
    using full_half_update [of "foldl (read_key obj) DEFAULT_SETTINGS SETTING_KEYS"] default_settings_ok
    unfolding settings_ok_def settingsFromStored_def j Let_def
    by (simp del: DEFAULT_SETTINGS.simps)
next
  case False
  then have "settingsFromStored j = DEFAULT_SETTINGS"
    by (cases "the j"; cases j) (auto simp: settingsFromStored_def)
  then show ?thesis by (simp add: default_settings_ok)
qed

lemma map_of_spread: "map_of (spread base patch) k = (case map_of (rev patch) k of Some v \<Rightarrow> Some v | None \<Rightarrow> map_of base k)"
  by (induction base patch rule: spread.induct)
     (auto simp: update_conv' map_add_def split: option.split)

lemma map_of_settings_object [simp]: "map_of (rev (settings_object v)) (setting_name k) = Some (v k)"
proof -
  have "distinct (map fst (rev (settings_object v)))"
    by (simp add: settings_object_def distinct_map rev_map [symmetric] o_def inj_on_def)
  moreover have "(setting_name k, v k) \<in> set (rev (settings_object v))"
    by (auto simp: settings_object_def)
  ultimately show ?thesis by (simp only: map_of_is_SomeI)
qed

lemma settings_object_None: "k \<notin> range setting_name \<Longrightarrow> map_of (rev (settings_object v)) k = None"
  by (auto simp: settings_object_def map_of_eq_None_iff)

lemma stored_settings_read_back:
  assumes "settings_ok v"
  shows "settingsFromStored (Some (JObject (spread base (settings_object v)))) = v"
proof -
  have "foldl (read_key (spread base (settings_object v))) DEFAULT_SETTINGS SETTING_KEYS = v"
    using assms by (auto intro!: ext simp: read_keys map_of_spread settings_ok_def)
  then show ?thesis using assms by (simp add: settingsFromStored_def settings_ok_def Let_def)
qed

section \<open>What the service promises\<close>

text \<open>The cache holds only what the rows say; the old shared row is never written.\<close>

definition cache_ok :: "settings_state \<Rightarrow> bool" where
  "cache_ok s \<longleftrightarrow> (\<forall>key v t. map_of (set_cache s) key = Some (v, t) \<longrightarrow> v = stored_raw (set_rows s) key)"

lemma orgSettingsKey_inj [simp]: "orgSettingsKey a = orgSettingsKey b \<longleftrightarrow> a = b"
  by (simp add: orgSettingsKey_def)

lemma orgSettingsKey_own [simp]: "orgSettingsKey c \<noteq> SETTINGS_KEY" "SETTINGS_KEY \<noteq> orgSettingsKey c"
  by (simp_all add: orgSettingsKey_def SETTINGS_KEY_def)

lemma row_key_own [simp]: "c \<noteq> [] \<Longrightarrow> row_key (Some c) = orgSettingsKey c"
  by (simp add: row_key_def)

lemma keep_raw_ok: "cache_ok s \<Longrightarrow> cache_ok (keep_raw key (stored_raw (set_rows s) key) now s)"
  by (auto simp: cache_ok_def keep_raw_def update_conv' split: if_splits)

lemma readRaw_value: "cache_ok s \<Longrightarrow> fst (readRaw c now s) = stored_raw (set_rows s) (row_key c)"
  by (auto simp: readRaw_def cache_ok_def Let_def split: option.split)

lemma readRaw_keeps:
  shows "set_rows (snd (readRaw c now s)) = set_rows s"
    and "cache_ok s \<Longrightarrow> cache_ok (snd (readRaw c now s))"
  using keep_raw_ok by (auto simp: readRaw_def keep_raw_def Let_def split: option.split)

lemma stored_raw_write:
  "stored_raw ((set_rows s)(orgSettingsKey c := Some (JObject v))) key =
     (if key = orgSettingsKey c then v else stored_raw (set_rows s) key)"
  by (simp add: stored_raw_def)

lemma write_row_ok: "cache_ok s \<Longrightarrow> cache_ok (write_row (orgSettingsKey c) v now s)"
  by (auto simp: cache_ok_def write_row_def stored_raw_write update_conv' split: if_splits)

lemma write_row_rows: "stored_raw (set_rows (write_row (orgSettingsKey c) v now s)) key =
     (if key = orgSettingsKey c then v else stored_raw (set_rows s) key)"
  by (simp add: write_row_def stored_raw_write)

lemma companyOfUser_keeps:
  "set_rows (snd (companyOfUser u now s)) = set_rows s" "set_cache (snd (companyOfUser u now s)) = set_cache s"
  by (auto simp: companyOfUser_def Let_def split: option.split)

datatype settings_op =
    ReadSettings "string option" | ReadForUser string | ForgetUser string
  | WriteSection string raw | UpdateSettings string settings_patch

fun settings_step :: "int \<Rightarrow> settings_op \<Rightarrow> settings_state \<Rightarrow> settings_state" where
  "settings_step now (ReadSettings c) s = snd (readRaw c now s)"
| "settings_step now (ReadForUser u) s = snd (forUser u now s)"
| "settings_step now (ForgetUser u) s = forgetUser u s"
| "settings_step now (WriteSection c patch) s = snd (writeRaw c patch now s)"
| "settings_step now (UpdateSettings c patch) s = snd (updateSettings c patch now s)"

fun settings_run :: "(int \<times> settings_op) list \<Rightarrow> settings_state \<Rightarrow> settings_state" where
  "settings_run [] s = s"
| "settings_run ((now, x) # ops) s = settings_run ops (settings_step now x s)"

fun writes_for :: "settings_op \<Rightarrow> string option" where
  "writes_for (WriteSection c patch) = Some c"
| "writes_for (UpdateSettings c patch) = Some c"
| "writes_for _ = None"

definition fresh_service :: "(string \<Rightarrow> json option) \<Rightarrow> (string \<Rightarrow> string option) \<Rightarrow> settings_state" where
  "fresh_service rows people = \<lparr>set_rows = rows, set_cache = [], set_companyOf = people, set_userOrg = []\<rparr>"

lemma getSettings_value: "cache_ok s \<Longrightarrow> fst (getSettings c now s) = settingsFromStored (Some (JObject (stored_raw (set_rows s) (row_key c))))"
  using readRaw_value [of s c now] by (cases "readRaw c now s") (simp add: getSettings_def)

lemma getSettings_keeps:
  "set_rows (snd (getSettings c now s)) = set_rows s" "cache_ok s \<Longrightarrow> cache_ok (snd (getSettings c now s))"
  using readRaw_keeps [where c = c and now = now and s = s] by (cases "readRaw c now s"; simp add: getSettings_def)+

lemma updateSettings_cases:
  "snd (updateSettings c patch now s) = snd (getSettings (Some c) now s)
   \<or> (\<exists>v. fst (updateSettings c patch now s) = return v
        \<and> snd (updateSettings c patch now s) = snd (writeRaw c (settings_object v) now (snd (getSettings (Some c) now s))))"
  by (cases "getSettings (Some c) now s") (auto simp: updateSettings_def split: sum.split)

lemma forUser_keeps:
  assumes "cache_ok s"
  shows "cache_ok (snd (forUser v now s))" "set_rows (snd (forUser v now s)) = set_rows s"
proof -
  have u: "cache_ok (snd (companyOfUser v now s))"
    using assms by (simp add: cache_ok_def companyOfUser_keeps)
  have e: "forUser v now s = getSettings (fst (companyOfUser v now s)) now (snd (companyOfUser v now s))"
    by (simp add: forUser_def case_prod_beta)
  show "cache_ok (snd (forUser v now s))" unfolding e using getSettings_keeps(2) [OF u] .
  show "set_rows (snd (forUser v now s)) = set_rows s" unfolding e getSettings_keeps(1) companyOfUser_keeps(1) ..
qed

lemma writeRaw_keeps:
  "cache_ok s \<Longrightarrow> cache_ok (snd (writeRaw d patch now s))"
  "d \<noteq> c \<Longrightarrow> stored_raw (set_rows (snd (writeRaw d patch now s))) (orgSettingsKey c) = stored_raw (set_rows s) (orgSettingsKey c)"
  by (simp_all add: writeRaw_def Let_def write_row_ok write_row_rows)

lemma settings_step_keeps:
  assumes "cache_ok s"
  shows "cache_ok (settings_step now x s)
    \<and> (writes_for x \<noteq> Some c
         \<longrightarrow> stored_raw (set_rows (settings_step now x s)) (orgSettingsKey c) = stored_raw (set_rows s) (orgSettingsKey c))"
proof (cases x)
  case (ReadSettings d)
  then show ?thesis using readRaw_keeps(1) [of d now s] readRaw_keeps(2) [OF assms, of d now] by simp
next
  case (ReadForUser u)
  then show ?thesis using forUser_keeps [OF assms, of u now] by simp
next
  case (ForgetUser u)
  then show ?thesis using assms by (simp add: forgetUser_def cache_ok_def)
next
  case (WriteSection d patch)
  then show ?thesis using writeRaw_keeps(1) [OF assms, of d patch now] writeRaw_keeps(2) [of d c patch now s] by simp
next
  case (UpdateSettings d patch)
  have g: "cache_ok (snd (getSettings (Some d) now s))" by (rule getSettings_keeps(2) [OF assms])
  show ?thesis
    using updateSettings_cases [of d patch now s]
  proof
    assume "snd (updateSettings d patch now s) = snd (getSettings (Some d) now s)"
    then show ?thesis using g getSettings_keeps(1) [of "Some d" now s] UpdateSettings by simp
  next
    assume "\<exists>v. fst (updateSettings d patch now s) = return v
        \<and> snd (updateSettings d patch now s) = snd (writeRaw d (settings_object v) now (snd (getSettings (Some d) now s)))"
    then obtain v where "snd (updateSettings d patch now s) = snd (writeRaw d (settings_object v) now (snd (getSettings (Some d) now s)))"
      by blast
    then show ?thesis
      using writeRaw_keeps(1) [OF g, of d "settings_object v" now] getSettings_keeps(1) [of "Some d" now s]
        writeRaw_keeps(2) [of d c "settings_object v" now "snd (getSettings (Some d) now s)"] UpdateSettings
      by simp
  qed
qed

lemma settings_run_keeps:
  assumes "cache_ok s"
  shows "cache_ok (settings_run ops s)
    \<and> ((\<forall>(t, x) \<in> set ops. writes_for x \<noteq> Some c) \<longrightarrow>
         stored_raw (set_rows (settings_run ops s)) (orgSettingsKey c) = stored_raw (set_rows s) (orgSettingsKey c))"
  using assms
proof (induction ops arbitrary: s)
  case Nil
  then show ?case by simp
next
  case (Cons tx ops)
  then show ?case
    using settings_step_keeps [OF Cons.prems, of "fst tx" "snd tx" c] by (cases tx) simp
qed

lemma fresh_service_ok: "cache_ok (fresh_service rows people)"
  by (simp add: cache_ok_def fresh_service_def)

text \<open>Saved settings are valid and read back. After any history of the service, an update that is
  accepted answers settings inside their bounds with a full day above a half day: what was given where it
  was given, else what was in force. Whatever is read, saved for other organisations or forgotten afterwards, the
  organisation's settings are exactly those until its row is written again; other organisations'
  settings and the other sections of the row are unchanged.\<close>

theorem saved_settings_are_read_back:
  assumes "s = settings_run before (fresh_service rows people)" "c \<noteq> []"
    and "updateSettings c patch now s = (return v, s')"
    and "\<forall>(t, x) \<in> set after. writes_for x \<noteq> Some c"
  shows "settings_ok v
    \<and> v = merged (fst (getSettings (Some c) now s)) patch
    \<and> fst (getSettings (Some c) later (settings_run after s')) = v
    \<and> (\<forall>d. d \<noteq> Some c \<longrightarrow> fst (getSettings d later s') = fst (getSettings d later s))
    \<and> (\<forall>k. k \<notin> range setting_name \<longrightarrow>
         map_of (fst (readRaw (Some c) later s')) k = map_of (fst (readRaw (Some c) later s)) k)"
proof -
  have ok: "cache_ok s" using settings_run_keeps [OF fresh_service_ok] assms(1) by simp
  let ?cur = "fst (getSettings (Some c) now s)" and ?s1 = "snd (getSettings (Some c) now s)"
  obtain ch where p: "applySettingsPatch ?cur patch = Inr (v, ch)"
    and s': "s' = snd (writeRaw c (settings_object v) now ?s1)"
    using assms(3) by (cases "getSettings (Some c) now s") (auto simp: updateSettings_def split: sum.splits)
  have cur: "settings_ok ?cur" using getSettings_value [OF ok] settingsFromStored_ok by simp
  have v: "v = merged ?cur patch" and vok: "settings_ok v"
    using p cur by (auto simp: applySettingsPatch_Inr settings_ok_def merged_def split: option.split)
      (metis coalesce_simps option.exhaust)
  have ok': "cache_ok s'" using getSettings_keeps(2) [OF ok] write_row_ok by (simp add: s' writeRaw_def Let_def)
  have rows: "stored_raw (set_rows s') key =
      (if key = orgSettingsKey c then spread (stored_raw (set_rows s) key) (settings_object v) else stored_raw (set_rows s) key)" for key
    by (simp add: s' writeRaw_def Let_def write_row_rows getSettings_keeps)
  have "fst (getSettings (Some c) later (settings_run after s')) = v"
    using settings_run_keeps [OF ok', of after c] assms(2,4) vok
    by (simp add: getSettings_value rows stored_settings_read_back)
  moreover have "d \<noteq> Some c \<Longrightarrow> row_key d \<noteq> orgSettingsKey c" for d
    using assms(2) by (auto simp: row_key_def split: option.split)
  ultimately show ?thesis
    using v vok ok ok' assms(2)
    by (simp add: getSettings_value readRaw_value rows map_of_spread settings_object_None)
qed

definition ninety :: settings_patch where
  "ninety = (\<lambda>_. None)(FullDayPct := Some (JInt 90))"

abbreviation empty_settings :: settings_state where
  "empty_settings \<equiv> fresh_service (\<lambda>_. None) (\<lambda>_. None)"

lemma ninety_applies: "applySettingsPatch DEFAULT_SETTINGS ninety = Inr (merged DEFAULT_SETTINGS ninety, [FullDayPct])"
proof -
  have f: "filter (\<lambda>k. merged DEFAULT_SETTINGS ninety k \<noteq> DEFAULT_SETTINGS k) SETTING_KEYS = [FullDayPct]"
    by (simp add: SETTING_KEYS_def merged_def ninety_def)
  show ?thesis unfolding applySettingsPatch_Inr f
    by (simp add: merged_def ninety_def full_above_half_def problemWith_def isIntKey_def BOOLEAN_KEYS_def)
qed

lemma nothing_stored: "settingsFromStored (Some (JObject [])) = DEFAULT_SETTINGS"
proof -
  have "foldl (read_key []) DEFAULT_SETTINGS SETTING_KEYS = DEFAULT_SETTINGS"
    by (rule ext) (simp add: read_keys)
  then show ?thesis using default_settings_ok by (simp add: settingsFromStored_def settings_ok_def Let_def)
qed

theorem saved_settings_are_read_back_witness:
  "fst (getSettings (Some ''a'') 5 (settings_run [(1, UpdateSettings ''b'' ninety)]
     (snd (updateSettings ''a'' ninety 0 (settings_run [] empty_settings))))) = merged DEFAULT_SETTINGS ninety"
proof -
  have ok: "cache_ok empty_settings" by (rule fresh_service_ok)
  have "fst (getSettings (Some ''a'') 0 empty_settings) = DEFAULT_SETTINGS"
    unfolding getSettings_value [OF ok] using nothing_stored by (simp add: stored_raw_def fresh_service_def)
  then have "\<exists>s'. updateSettings ''a'' ninety 0 empty_settings = (return (merged DEFAULT_SETTINGS ninety), s')"
    by (cases "getSettings (Some ''a'') 0 empty_settings") (simp add: updateSettings_def ninety_applies)
  then obtain s' where s': "updateSettings ''a'' ninety 0 empty_settings = (return (merged DEFAULT_SETTINGS ninety), s')" ..
  have "fst (getSettings (Some ''a'') 5 (settings_run [(1, UpdateSettings ''b'' ninety)] s')) = merged DEFAULT_SETTINGS ninety"
    using saved_settings_are_read_back [where before = "[]" and rows = "\<lambda>_. None" and people = "\<lambda>_. None" and c = "''a''"
        and patch = ninety and now = 0 and v = "merged DEFAULT_SETTINGS ninety" and s' = s'
        and after = "[(1, UpdateSettings ''b'' ninety)]" and later = 5] s'
    by simp
  then show ?thesis by (simp add: s')
qed

section \<open>What overlapping requests do\<close>

text \<open>\<open>writeRaw\<close> reads the row, then writes it: of two writers that read the same row, the later one
  undoes the earlier one's section although each changes only its own keys.\<close>

lemma parallel_writes_lose:
  assumes "base = stored_raw (set_rows s) (orgSettingsKey c)" "map_of (rev theirs) k = None"
  shows "map_of (stored_raw (set_rows (write_row (orgSettingsKey c) (spread base theirs) t2
      (write_row (orgSettingsKey c) (spread base mine) t1 s))) (orgSettingsKey c)) k = map_of base k"
  using assms by (simp add: write_row_rows map_of_spread)

text \<open>A read that was on its way while a write finished keeps the old value in the cache: for up to 15
  seconds the organisation's settings are the ones before the write.\<close>

lemma late_read_hides_a_write:
  assumes "old = stored_raw (set_rows s) (orgSettingsKey c)" "c \<noteq> []" "now - t0 < CACHE_MS"
  shows "fst (readRaw (Some c) now (keep_raw (orgSettingsKey c) old t0 (write_row (orgSettingsKey c) v t1 s))) = old"
  using assms by (simp add: readRaw_def keep_raw_def write_row_def update_conv' Let_def)

end
