(* ===== verification/Time_Zone.thy ===== *)
theory Time_Zone
  imports Prelude
begin

text \<open>
  The business-timezone helpers of \<open>src/src/shared/utils/timezone.ts\<close>: calendar days as
  "YYYY-MM-DD" keys, clock times as "HH:MM", and the instant at which the wall clock of a zone
  reads a given day and minute. The first section is the part of JavaScript's \<open>Date\<close> they
  rest on (\<open>Date.UTC\<close> and the UTC getters, proleptic Gregorian). A zone is the function
  from a UTC instant to its offset (local minus UTC, in milliseconds), which is what
  \<open>Intl.DateTimeFormat\<close> knows of it: the zone database is a parameter everywhere.

  An instant is an \<open>int\<close> of epoch milliseconds. A malformed day key gives Invalid Date in
  the code; no caller passes one, and the functions that return an instant read it as the
  parts 0, 0, 0.
\<close>

section \<open>JavaScript's UTC calendar\<close>

definition msPerDay :: int where
  "msPerDay = 86400000"

definition leap :: "int \<Rightarrow> bool" where
  "leap y \<longleftrightarrow> y mod 4 = 0 \<and> (y mod 100 \<noteq> 0 \<or> y mod 400 = 0)"

definition day_from_year :: "int \<Rightarrow> int" where
  "day_from_year y =
     365 * (y - 1970) + (y - 1969) div 4 - (y - 1901) div 100 + (y - 1601) div 400"

definition year_from_day :: "int \<Rightarrow> int" where
  "year_from_day d =
     (let y = 1970 + (400 * d) div 146097
      in if d < day_from_year y then y - 1
         else if d \<ge> day_from_year (y + 1) then y + 1 else y)"

definition month_offset :: "bool \<Rightarrow> int \<Rightarrow> int" where
  "month_offset lp m =
     (let l = (if lp then 1 else 0) in
      if m \<le> 1 then 0 else if m = 2 then 31 else if m = 3 then 59 + l else if m = 4 then 90 + l
      else if m = 5 then 120 + l else if m = 6 then 151 + l else if m = 7 then 181 + l
      else if m = 8 then 212 + l else if m = 9 then 243 + l else if m = 10 then 273 + l
      else if m = 11 then 304 + l else if m = 12 then 334 + l else 365 + l)"

definition month_from :: "bool \<Rightarrow> int \<Rightarrow> int" where
  "month_from lp doy =
     (let l = (if lp then 1 else 0) in
      if doy < 31 then 1 else if doy < 59 + l then 2 else if doy < 90 + l then 3
      else if doy < 120 + l then 4 else if doy < 151 + l then 5 else if doy < 181 + l then 6
      else if doy < 212 + l then 7 else if doy < 243 + l then 8 else if doy < 273 + l then 9
      else if doy < 304 + l then 10 else if doy < 334 + l then 11 else 12)"

text \<open>\<open>MakeDay\<close>: the day number of a year, a month index (0 is January, any integer) and a date.\<close>

definition make_day :: "int \<Rightarrow> int \<Rightarrow> int \<Rightarrow> int" where
  "make_day y m0 dt =
     (let ym = y + m0 div 12; mn = m0 mod 12
      in day_from_year ym + month_offset (leap ym) (mn + 1) + dt - 1)"

text \<open>\<open>Date.UTC\<close> reads a year from 0 to 99 as 1900 and something.\<close>

definition full_year :: "int \<Rightarrow> int" where
  "full_year y = (if 0 \<le> y \<and> y \<le> 99 then 1900 + y else y)"

definition date_UTC :: "int \<Rightarrow> int \<Rightarrow> int \<Rightarrow> int \<Rightarrow> int \<Rightarrow> int \<Rightarrow> int" where
  "date_UTC y m0 dt h mi s =
     make_day (full_year y) m0 dt * msPerDay + h * 3600000 + mi * 60000 + s * 1000"

text \<open>The UTC getters, on day numbers.\<close>

definition utc_year :: "int \<Rightarrow> int" where
  "utc_year d = year_from_day d"

definition utc_month :: "int \<Rightarrow> int" where
  "utc_month d = month_from (leap (utc_year d)) (d - day_from_year (utc_year d))"

definition utc_date :: "int \<Rightarrow> int" where
  "utc_date d =
     d - day_from_year (utc_year d) - month_offset (leap (utc_year d)) (utc_month d) + 1"

definition utc_weekday :: "int \<Rightarrow> int" where
  "utc_weekday d = (d + 4) mod 7"

subsection \<open>The calendar is a bijection\<close>

definition real_date :: "int \<Rightarrow> int \<Rightarrow> int \<Rightarrow> bool" where
  "real_date y m dt \<longleftrightarrow>
     1 \<le> m \<and> m \<le> 12 \<and> 1 \<le> dt \<and> dt \<le> month_offset (leap y) (m + 1) - month_offset (leap y) m"

lemma div_step:
  fixes x k :: int
  assumes "0 < k"
  shows "(x + 1) div k = x div k + (if (x + 1) mod k = 0 then 1 else 0)"
proof -
  have a: "k * ((x + 1) div k) + (x + 1) mod k = x + 1" "k * (x div k) + x mod k = x" by simp_all
  have b: "0 \<le> (x + 1) mod k" "(x + 1) mod k < k" "0 \<le> x mod k" "x mod k < k" using assms by simp_all
  let ?q = "(x + 1) div k" and ?p = "x div k" and ?r = "(x + 1) mod k" and ?s = "x mod k"
  have "k * (?q - ?p) = 1 + ?s - ?r" using a by (simp add: algebra_simps)
  moreover have "1 + ?s - ?r \<le> k" "1 + ?s - ?r > - k" using b by linarith+
  ultimately have "k * (?q - ?p) \<le> k * 1" "k * (?q - ?p) > k * (-1)" by linarith+
  then have q: "?q - ?p \<le> 1" "?q - ?p > -1"
    using mult_le_cancel_left_pos [OF assms] mult_less_cancel_left_pos [OF assms] by blast+
  show ?thesis
  proof (cases "?r = 0")
    case True
    have "k * (?q - ?p) = 1 + ?s" using \<open>k * (?q - ?p) = 1 + ?s - ?r\<close> True by simp
    then have "?q - ?p \<noteq> 0" using b by auto
    then show ?thesis using q True by simp
  next
    case False
    have "k * (?q - ?p) < k * 1" using \<open>k * (?q - ?p) = 1 + ?s - ?r\<close> False b by linarith
    then have "?q - ?p < 1" using mult_less_cancel_left_pos [OF assms] by blast
    then show ?thesis using q False by simp
  qed
qed

lemma div_next:
  fixes y k c :: int
  assumes "0 < k" "(y + 1 - c) mod k = y mod k"
  shows "(y + 1 - c) div k = (y - c) div k + (if y mod k = 0 then 1 else 0)"
proof -
  have "y - c + 1 = y + 1 - c" by simp
  then show ?thesis using div_step [OF assms(1), of "y - c"] assms(2) by (simp only:)
qed

lemma year_length: "day_from_year (y + 1) = day_from_year y + (if leap y then 366 else 365)"
proof -
  have "y + 1 - 1969 = y + (-492) * 4" "y + 1 - 1901 = y + (-19) * 100"
    "y + 1 - 1601 = y + (-4) * 400" by simp_all
  then have m: "(y + 1 - 1969) mod 4 = y mod 4" "(y + 1 - 1901) mod 100 = y mod 100"
    "(y + 1 - 1601) mod 400 = y mod 400"
    by (simp_all only: mod_mult_self1)
  have n: "y mod 100 = 0" if "y mod 400 = 0"
    using mod_mod_cancel [of 100 400 y] that by simp
  have n': "y mod 4 = 0" if "y mod 100 = 0"
    using mod_mod_cancel [of 4 100 y] that by simp
  define i4 :: int where "i4 = (if y mod 4 = 0 then 1 else 0)"
  define i100 :: int where "i100 = (if y mod 100 = 0 then 1 else 0)"
  define i400 :: int where "i400 = (if y mod 400 = 0 then 1 else 0)"
  have "day_from_year (y + 1) = day_from_year y + 365 + i4 - i100 + i400"
  proof -
    define a a' b b' c c' where "a = (y - 1969) div 4" and "a' = (y + 1 - 1969) div 4"
      and "b = (y - 1901) div 100" and "b' = (y + 1 - 1901) div 100"
      and "c = (y - 1601) div 400" and "c' = (y + 1 - 1601) div 400"
    note d = this
    have "a' = a + i4" unfolding d i4_def by (rule div_next [OF zero_less_numeral m(1)])
    moreover have "b' = b + i100" unfolding d i100_def by (rule div_next [OF zero_less_numeral m(2)])
    moreover have "c' = c + i400" unfolding d i400_def by (rule div_next [OF zero_less_numeral m(3)])
    ultimately show ?thesis unfolding day_from_year_def d [symmetric] by simp
  qed
  moreover have "i4 - i100 + i400 = (if leap y then 1 else 0)"
    unfolding i4_def i100_def i400_def leap_def using n n'
    by (cases "y mod 4 = 0"; cases "y mod 100 = 0"; cases "y mod 400 = 0") simp_all
  ultimately have "day_from_year (y + 1) = day_from_year y + 365 + (if leap y then 1 else 0)" by linarith
  then show ?thesis by simp
qed

lemma day_from_year_mono: "y \<le> z \<Longrightarrow> day_from_year y \<le> day_from_year z"
proof (induction z rule: int_ge_induct)
  case (step i)
  then show ?case by (auto simp: year_length)
qed simp

lemma div_times_bounds:
  fixes a k :: int
  assumes "0 < k"
  shows "k * (a div k) \<le> a" "a < k * (a div k) + k"
  using mult_div_mod_eq [of k a] pos_mod_bound [OF assms, of a] pos_mod_sign [OF assms, of a]
  by linarith+

lemma day_from_year_bounds:
  "400 * day_from_year y \<le> 146097 * y - 287810498"
  "146097 * y - 287811598 \<le> 400 * day_from_year y"
proof -
  define a b c where "a = (y - 1969) div 4" and "b = (y - 1901) div 100"
    and "c = (y - 1601) div 400"
  note d = this
  have "4 * a \<le> y - 1969" "y - 1969 < 4 * a + 4" "100 * b \<le> y - 1901"
    "y - 1901 < 100 * b + 100" "400 * c \<le> y - 1601" "y - 1601 < 400 * c + 400"
    unfolding d by (simp_all only: div_times_bounds zero_less_numeral)
  then show "400 * day_from_year y \<le> 146097 * y - 287810498"
    "146097 * y - 287811598 \<le> 400 * day_from_year y"
    unfolding day_from_year_def d [symmetric] distrib_left right_diff_distrib by linarith+
qed

lemma year_bounds:
  "day_from_year (year_from_day d) \<le> d" "d < day_from_year (year_from_day d + 1)"
proof -
  define n where "n = (400 * d) div 146097"
  have n: "146097 * n \<le> 400 * d" "400 * d < 146097 * n + 146097"
    unfolding n_def by (simp_all only: div_times_bounds zero_less_numeral)
  note lo = day_from_year_bounds(1) and hi = day_from_year_bounds(2)
  have "day_from_year y \<le> d" if "y = 1970 + n - 1" for y using lo [of y] n that by linarith
  moreover have "d < day_from_year y" if "y = 1970 + n + 1 + 1" for y using hi [of y] n that by linarith
  ultimately show "day_from_year (year_from_day d) \<le> d" "d < day_from_year (year_from_day d + 1)"
    unfolding year_from_day_def Let_def n_def [symmetric] by (auto simp: add.commute)
qed

lemma year_unique:
  assumes "day_from_year y \<le> d" "d < day_from_year (y + 1)"
  shows "year_from_day d = y"
proof (rule ccontr)
  assume "year_from_day d \<noteq> y"
  then consider "year_from_day d + 1 \<le> y" | "y + 1 \<le> year_from_day d" by linarith
  then show False
    using assms year_bounds [of d] day_from_year_mono [of "year_from_day d + 1" y]
      day_from_year_mono [of "y + 1" "year_from_day d"] by cases linarith+
qed

lemma months_cases:
  fixes m :: int
  assumes "1 \<le> m" "m \<le> 12"
  obtains "m = 1" | "m = 2" | "m = 3" | "m = 4" | "m = 5" | "m = 6" | "m = 7" | "m = 8"
    | "m = 9" | "m = 10" | "m = 11" | "m = 12"
proof -
  have "m = 1 \<or> m = 2 \<or> m = 3 \<or> m = 4 \<or> m = 5 \<or> m = 6 \<or> m = 7 \<or> m = 8 \<or> m = 9
    \<or> m = 10 \<or> m = 11 \<or> m = 12"
    using assms by presburger
  then show thesis using that by blast
qed

lemma month_from_unique:
  assumes "1 \<le> m" "m \<le> 12" "month_offset lp m \<le> doy" "doy < month_offset lp (m + 1)"
  shows "month_from lp doy = m"
  using assms(1,2)
  by (rule months_cases) (use assms(3,4) in \<open>auto simp: month_from_def month_offset_def Let_def split: if_splits\<close>)

lemma step_between:
  fixes f :: "int \<Rightarrow> int"
  assumes "f 1 \<le> x" "x < f (1 + int n)"
  shows "\<exists>m. 1 \<le> m \<and> m \<le> int n \<and> f m \<le> x \<and> x < f (m + 1)"
  using assms(2)
proof (induction n)
  case (Suc n)
  show ?case
  proof (cases "x < f (1 + int n)")
    case True
    then show ?thesis using Suc.IH by force
  next
    case False
    then show ?thesis using Suc.prems by (intro exI [of _ "1 + int n"]) (simp add: add.commute)
  qed
qed (use assms(1) in simp)

lemma month_from_offset:
  assumes "0 \<le> doy" "doy < (if lp then 366 else 365)"
  shows "1 \<le> month_from lp doy" "month_from lp doy \<le> 12"
    "month_offset lp (month_from lp doy) \<le> doy" "doy < month_offset lp (month_from lp doy + 1)"
proof -
  have "month_offset lp 1 \<le> doy" "doy < month_offset lp (1 + int 12)"
    using assms by (cases lp; simp add: month_offset_def)+
  then obtain m where m: "1 \<le> m" "m \<le> int 12" "month_offset lp m \<le> doy" "doy < month_offset lp (m + 1)"
    using step_between [of "month_offset lp" doy 12] by blast
  then have "month_from lp doy = m" by (intro month_from_unique) simp_all
  then show "1 \<le> month_from lp doy" "month_from lp doy \<le> 12"
    "month_offset lp (month_from lp doy) \<le> doy" "doy < month_offset lp (month_from lp doy + 1)"
    using m by simp_all
qed

lemma month_offset_mono: "m \<le> m' \<Longrightarrow> month_offset lp m \<le> month_offset lp m'"
proof (induction m' rule: int_ge_induct)
  case (step i)
  have "month_offset lp i \<le> month_offset lp (i + 1)"
  proof (cases "1 \<le> i \<and> i \<le> 12")
    case True
    then have "1 \<le> i" "i \<le> 12" by simp_all
    then show ?thesis by (rule months_cases) (simp_all add: month_offset_def)
  next
    case False
    then consider "i \<le> 0" | "13 \<le> i" by linarith
    then show ?thesis by cases (simp_all add: month_offset_def)
  qed
  then show ?case using step.IH by simp
qed simp

lemma month_from_mono:
  assumes "0 \<le> a" "a \<le> b" "b < (if lp then 366 else 365)"
  shows "month_from lp a \<le> month_from lp b"
proof (rule ccontr)
  assume "\<not> month_from lp a \<le> month_from lp b"
  then have "month_offset lp (month_from lp b + 1) \<le> month_offset lp (month_from lp a)"
    by (intro month_offset_mono) simp
  then show False
    using assms month_from_offset [of a lp] month_from_offset [of b lp] by simp
qed

lemma month_offset_bounds:
  assumes "1 \<le> m" "m \<le> 12"
  shows "0 \<le> month_offset lp m" "month_offset lp (m + 1) \<le> (if lp then 366 else 365)"
  using assms by (auto simp: month_offset_def Let_def)

lemma year_of_day_range:
  "0 \<le> d - day_from_year (utc_year d)"
  "d - day_from_year (utc_year d) < (if leap (utc_year d) then 366 else 365)"
  using year_bounds [of d] year_length [of "utc_year d"] by (auto simp: utc_year_def)

lemma real_date_of_day: "real_date (utc_year d) (utc_month d) (utc_date d)"
  using month_from_offset [OF year_of_day_range, of d] by (auto simp: real_date_def utc_date_def utc_month_def)

lemma make_day_of_day: "make_day (utc_year d) (utc_month d - 1) (utc_date d) = d"
proof -
  have "(utc_month d - 1) div 12 = 0" "(utc_month d - 1) mod 12 = utc_month d - 1"
    using real_date_of_day [of d] by (auto simp: real_date_def)
  then show ?thesis by (simp add: make_day_def Let_def utc_date_def)
qed

lemma day_of_make_day:
  assumes "real_date y m dt"
  shows "utc_year (make_day y (m - 1) dt) = y" "utc_month (make_day y (m - 1) dt) = m"
    "utc_date (make_day y (m - 1) dt) = dt"
proof -
  let ?d = "make_day y (m - 1) dt"
  have m: "1 \<le> m" "m \<le> 12" "1 \<le> dt" "dt \<le> month_offset (leap y) (m + 1) - month_offset (leap y) m"
    using assms by (auto simp: real_date_def)
  then have "(m - 1) div 12 = 0" "(m - 1) mod 12 = m - 1" by auto
  then have d: "?d = day_from_year y + month_offset (leap y) m + dt - 1"
    by (simp add: make_day_def Let_def)
  show y: "utc_year ?d = y" unfolding utc_year_def
    by (rule year_unique) (use d m month_offset_bounds [of m "leap y"] in \<open>auto simp: year_length\<close>)
  show mo: "utc_month ?d = m" unfolding utc_month_def y
    by (rule month_from_unique) (use d m in auto)
  show "utc_date ?d = dt" unfolding utc_date_def y mo using d by simp
qed

end
