(* ===== verification/Day_Keys.thy ===== *)
theory Day_Keys
  imports Time_Zone
begin

text \<open>
  Day keys, clock times and the zone conversions of \<open>src/src/shared/utils/timezone.ts\<close>, with
  \<open>validation/date-key.ts\<close>, \<open>utils/duration.ts\<close> and \<open>utils/pagination.ts\<close>.
  A zone is the function from a UTC instant to its offset in milliseconds; the formatter's
  answers for instants before the year 1 are not covered.
\<close>

section \<open>Day keys\<close>

text \<open>
  \<open>Number(part)\<close> of the parts a day key is made of: digits, or empty (which is 0). The other
  spellings \<open>Number\<close> accepts (signs, blanks, exponents) are read as NaN.
\<close>

definition num_of :: "string \<Rightarrow> int option" where
  "num_of s = (if list_all is_digit s then Some (int (parse_digits s)) else None)"

text \<open>\<open>const [y, m, d] = key.split('-').map(Number)\<close>, None when one of the three is NaN.\<close>

definition key_parts :: "string \<Rightarrow> (int \<times> int \<times> int) option" where
  "key_parts k =
     (case split_on CHR ''-'' k of
        ys # ms # ds # _ \<Rightarrow>
          (case (num_of ys, num_of ms, num_of ds) of
             (Some y, Some m, Some d) \<Rightarrow> Some (y, m, d)
           | _ \<Rightarrow> None)
      | _ \<Rightarrow> None)"

text \<open>\<open>`${y}-${pad2(m)}-${pad2(d)}`\<close> of a day number.\<close>

definition pad2i :: "int \<Rightarrow> string" where
  "pad2i n = (if n < 0 then show_int n else pad2 (nat n))"

definition make_key :: "int \<Rightarrow> int \<Rightarrow> int \<Rightarrow> string" where
  "make_key y m d = show_int y @ ''-'' @ pad2i m @ ''-'' @ pad2i d"

definition key_of_day :: "int \<Rightarrow> string" where
  "key_of_day n = make_key (utc_year n) (utc_month n) (utc_date n)"

text \<open>A \<open>Date\<close> holds at most \<open>10 ^ 8\<close> days either side of the epoch.\<close>

definition valid_day :: "int \<Rightarrow> bool" where
  "valid_day n \<longleftrightarrow> \<bar>n\<bar> \<le> 100000000"

definition is_four_two_two :: "string \<Rightarrow> bool" where
  "is_four_two_two s =
     (length s = 10 \<and> list_all is_digit (take 4 s) \<and> s ! 4 = CHR ''-''
      \<and> list_all is_digit (take 2 (drop 5 s)) \<and> s ! 7 = CHR ''-'' \<and> list_all is_digit (drop 8 s))"

definition isValidDateKey :: "string \<Rightarrow> bool" where
  "isValidDateKey value =
     (if \<not> is_four_two_two value then False
      else (case key_parts value of
              None \<Rightarrow> False
            | Some (y, m, d) \<Rightarrow>
                (let dt = make_day (full_year y) (m - 1) d
                 in utc_year dt = y \<and> utc_month dt - 1 = m - 1 \<and> utc_date dt = d)))"

definition addDaysToKey :: "string \<Rightarrow> int \<Rightarrow> string" where
  "addDaysToKey dateKey days =
     (case key_parts dateKey of
        None \<Rightarrow> ''NaN-NaN-NaN''
      | Some (y, m, d) \<Rightarrow>
          (let n = make_day (full_year y) (m - 1) (d + days)
           in if valid_day n then key_of_day n else ''NaN-NaN-NaN''))"

definition isoWeekdayOfKey :: "string \<Rightarrow> int option" where
  "isoWeekdayOfKey dateKey =
     (case key_parts dateKey of
        None \<Rightarrow> None
      | Some (y, m, d) \<Rightarrow>
          (let n = make_day (full_year y) (m - 1) d; day = utc_weekday n
           in if valid_day n then Some (if day = 0 then 7 else day) else None))"

text \<open>\<open>/^(\d{4})-(0[1-9]|1[0-2])$/\<close>\<close>

definition isValidMonthKey :: "string \<Rightarrow> bool" where
  "isValidMonthKey s =
     (length s = 7 \<and> list_all is_digit (take 4 s) \<and> s ! 4 = CHR ''-''
      \<and> (s ! 5 = CHR ''0'' \<and> is_digit (s ! 6) \<and> s ! 6 \<noteq> CHR ''0''
         \<or> s ! 5 = CHR ''1'' \<and> s ! 6 \<in> {CHR ''0'', CHR ''1'', CHR ''2''}))"

section \<open>Clock times\<close>

text \<open>JavaScript's remainder takes the sign of the dividend.\<close>

definition js_rem :: "int \<Rightarrow> int \<Rightarrow> int" where
  "js_rem a b = sgn a * (\<bar>a\<bar> mod \<bar>b\<bar>)"

text \<open>\<open>/^([01]\d|2[0-3]):([0-5]\d)$/\<close>: the two numbers it captures.\<close>

fun hm_match :: "string \<Rightarrow> (int \<times> int) option" where
  "hm_match [a, b, c, d, e] =
     (if (a \<in> {CHR ''0'', CHR ''1''} \<and> is_digit b
          \<or> a = CHR ''2'' \<and> b \<in> {CHR ''0'', CHR ''1'', CHR ''2'', CHR ''3''})
         \<and> c = CHR '':'' \<and> is_digit d \<and> digit_val d \<le> 5 \<and> is_digit e
      then Some (int (parse_digits [a, b]), int (parse_digits [d, e])) else None)"
| "hm_match _ = None"

definition isValidHm :: "string \<Rightarrow> bool" where
  "isValidHm value = (hm_match value \<noteq> None)"

text \<open>None is the thrown error.\<close>

definition hmToMinutes :: "string \<Rightarrow> int option" where
  "hmToMinutes value = map_option (\<lambda>(h, m). h * 60 + m) (hm_match value)"

definition minutesToHm :: "int \<Rightarrow> string" where
  "minutesToHm tot =
     (let m = js_rem (js_rem tot 1440 + 1440) 1440
      in pad2i (m div 60) @ '':'' @ pad2i (js_rem m 60))"

text \<open>\<open>/^(\d{1,2}):(\d{2})/\<close>: the hour's digits and the minute's digits.\<close>

fun hm12_match :: "string \<Rightarrow> (string \<times> string) option" where
  "hm12_match (a # b # c # d # e # _) =
     (if is_digit a \<and> is_digit b \<and> c = CHR '':'' \<and> is_digit d \<and> is_digit e then Some ([a, b], [d, e])
      else if is_digit a \<and> b = CHR '':'' \<and> is_digit c \<and> is_digit d then Some ([a], [c, d])
      else None)"
| "hm12_match [a, b, c, d] =
     (if is_digit a \<and> b = CHR '':'' \<and> is_digit c \<and> is_digit d then Some ([a], [c, d]) else None)"
| "hm12_match _ = None"

definition hm12 :: "string \<Rightarrow> string" where
  "hm12 hm =
     (case hm12_match hm of
        None \<Rightarrow> hm
      | Some (hh, mm) \<Rightarrow>
          (let h = int (parse_digits hh) mod 24;
               suffix = (if h < 12 then ''AM'' else ''PM'');
               h12 = (if h mod 12 = 0 then 12 else h mod 12)
           in show_int h12 @ '':'' @ mm @ '' '' @ suffix))"

section \<open>Zones\<close>

type_synonym zone = "int \<Rightarrow> int"

record zoned_parts =
  zp_year :: int
  zp_month :: int
  zp_day :: int
  zp_hour :: int
  zp_minute :: int
  zp_second :: int

definition zonedParts :: "int \<Rightarrow> zone \<Rightarrow> zoned_parts" where
  "zonedParts date tz =
     (let l = date + tz date; d = l div msPerDay; ms = l mod msPerDay
      in \<lparr>zp_year = utc_year d, zp_month = utc_month d, zp_day = utc_date d,
          zp_hour = ms div 3600000, zp_minute = ms div 60000 mod 60, zp_second = ms div 1000 mod 60\<rparr>)"

definition offsetMs :: "int \<Rightarrow> zone \<Rightarrow> int" where
  "offsetMs utcMs tz =
     (let p = zonedParts utcMs tz;
          asUtc = date_UTC (zp_year p) (zp_month p - 1) (zp_day p) (zp_hour p) (zp_minute p) (zp_second p)
      in asUtc - (utcMs div 1000) * 1000)"

definition dateKeyInZone :: "int \<Rightarrow> zone \<Rightarrow> string" where
  "dateKeyInZone date tz =
     (let p = zonedParts date tz in make_key (zp_year p) (zp_month p) (zp_day p))"

definition hmInZone :: "int \<Rightarrow> zone \<Rightarrow> string" where
  "hmInZone date tz = (let p = zonedParts date tz in pad2i (zp_hour p) @ '':'' @ pad2i (zp_minute p))"

definition time12InZone :: "int \<Rightarrow> zone \<Rightarrow> string" where
  "time12InZone date tz = hm12 (hmInZone date tz)"

definition hourInZone :: "int \<Rightarrow> zone \<Rightarrow> int" where
  "hourInZone date tz = zp_hour (zonedParts date tz)"

text \<open>The computation of \<open>zonedMinutesToUtc\<close> on a cache miss.\<close>

definition zonedMinutesToUtc :: "string \<Rightarrow> int \<Rightarrow> zone \<Rightarrow> int" where
  "zonedMinutesToUtc dateKey minutes tz =
     (let (y, mo, d) = coalesce (key_parts dateKey) (0, 0, 0);
          guess = date_UTC y (mo - 1) d 0 0 0 + minutes * 60000;
          first = offsetMs guess tz;
          utc = guess - first;
          second = offsetMs utc tz
      in if second \<noteq> first then guess - second else utc)"

text \<open>None is the error \<open>hmToMinutes\<close> throws.\<close>

definition zonedTimeToUtc :: "string \<Rightarrow> string \<Rightarrow> zone \<Rightarrow> int option" where
  "zonedTimeToUtc dateKey hm tz = map_option (\<lambda>m. zonedMinutesToUtc dateKey m tz) (hmToMinutes hm)"

definition startOfDayInZone :: "string \<Rightarrow> zone \<Rightarrow> int" where
  "startOfDayInZone dateKey tz = zonedMinutesToUtc dateKey 0 tz"

subsection \<open>The cache\<close>

text \<open>\<open>zonedCache\<close>, from the cache key to the instant; \<open>zones\<close> is the zone database.\<close>

definition ZONED_CACHE_MAX :: nat where
  "ZONED_CACHE_MAX = 50000"

definition zoned_cache_key :: "string \<Rightarrow> string \<Rightarrow> int \<Rightarrow> string" where
  "zoned_cache_key tz dateKey minutes = tz @ ''|'' @ dateKey @ ''|'' @ show_int minutes"

fun zoned_call_key :: "string \<times> string \<times> int \<Rightarrow> string" where
  "zoned_call_key (tz, dateKey, minutes) = zoned_cache_key tz dateKey minutes"

fun zoned_call_value :: "(string \<Rightarrow> zone) \<Rightarrow> string \<times> string \<times> int \<Rightarrow> int" where
  "zoned_call_value zones (tz, dateKey, minutes) = zonedMinutesToUtc dateKey minutes (zones tz)"

definition zoned_cached ::
  "(string \<Rightarrow> zone) \<Rightarrow> int memo \<Rightarrow> string \<Rightarrow> int \<Rightarrow> string \<Rightarrow> int memo \<times> int" where
  "zoned_cached zones cache dateKey minutes tz =
     memo_call zoned_call_key (zoned_call_value zones) ZONED_CACHE_MAX cache (tz, dateKey, minutes)"

fun zoned_calls ::
  "(string \<Rightarrow> zone) \<Rightarrow> int memo \<Rightarrow> (string \<times> int \<times> string) list \<Rightarrow> int memo \<times> int list" where
  "zoned_calls zones cache [] = (cache, [])"
| "zoned_calls zones cache ((k, m, tz) # calls) =
     (let (cache', u) = zoned_cached zones cache k m tz;
          (cache'', us) = zoned_calls zones cache' calls
      in (cache'', u # us))"

section \<open>Query strings\<close>

text \<open>\<open>/^(\d+)\s*([smhd])$/\<close> on the trimmed input; None is the thrown error.\<close>

definition unit_ms :: "char \<Rightarrow> int option" where
  "unit_ms c =
     (if c = CHR ''s'' then Some 1000 else if c = CHR ''m'' then Some 60000
      else if c = CHR ''h'' then Some 3600000 else if c = CHR ''d'' then Some 86400000 else None)"

definition parseDurationMs :: "string \<Rightarrow> int option" where
  "parseDurationMs input =
     (let s = trim input; ds = takeWhile is_digit s; r = dropWhile is_space (dropWhile is_digit s)
      in if ds = [] then None
         else (case r of
                 [u] \<Rightarrow> map_option (\<lambda>k. int (parse_digits ds) * k) (unit_ms u)
               | _ \<Rightarrow> None))"

text \<open>\<open>splitList\<close> of a string (None is undefined or null) or of an array of strings.\<close>

datatype list_value = Absent | Text string | Items "string list"

definition splitList :: "list_value \<Rightarrow> string list option" where
  "splitList v =
     (let clean = (\<lambda>parts. filter (\<lambda>s. length s > 0) (map trim parts)) in
      case v of
        Absent \<Rightarrow> None
      | Text s \<Rightarrow> if s = [] then None else Some (clean (split_on CHR '','' s))
      | Items parts \<Rightarrow> Some (clean parts))"

text \<open>
  \<open>parsePagination\<close>: each argument is the number \<open>parseInt\<close> reads (None is absent or
  NaN, both of which take the default).
\<close>

record pagination_slice =
  ps_page :: int
  ps_limit :: int
  ps_skip :: int
  ps_take :: int

definition or_num :: "int option \<Rightarrow> int \<Rightarrow> int" where
  "or_num x d = (case x of None \<Rightarrow> d | Some v \<Rightarrow> if v = 0 then d else v)"

definition parsePagination :: "int option \<Rightarrow> int option \<Rightarrow> pagination_slice" where
  "parsePagination qpage qlimit =
     (let page = max 1 (or_num qpage 1);
          rawLimit = or_num qlimit 20;
          limit = min 100 (max 1 rawLimit)
      in \<lparr>ps_page = page, ps_limit = limit, ps_skip = (page - 1) * limit, ps_take = limit\<rparr>)"

definition totalPages :: "int \<Rightarrow> int \<Rightarrow> int" where
  "totalPages tot limit = (let n = ceil_div tot limit in if n = 0 then 1 else n)"

section \<open>Day keys are days\<close>

lemma list_all_digits_show_nat [simp]: "list_all is_digit (show_nat n)"
  using digits_show_nat by (simp add: list_all_iff)

lemma list_all_digits_pad2 [simp]: "list_all is_digit (pad2 n)"
  using digits_pad2 by (simp add: list_all_iff)

lemma num_of_show_nat [simp]: "num_of (show_nat n) = Some (int n)"
  and num_of_pad2 [simp]: "num_of (pad2 n) = Some (int n)"
  by (simp_all add: num_of_def)

lemma key_parts_dashes:
  assumes "CHR ''-'' \<notin> set a" "CHR ''-'' \<notin> set b" "CHR ''-'' \<notin> set c"
  shows "key_parts (a @ ''-'' @ b @ ''-'' @ c) =
    (case (num_of a, num_of b, num_of c) of (Some y, Some m, Some d) \<Rightarrow> Some (y, m, d) | _ \<Rightarrow> None)"
  using assms split_on_append_sep [of "CHR ''-''" a "b @ ''-'' @ c"]
    split_on_append_sep [of "CHR ''-''" b c] split_on_no_sep [of "CHR ''-''" c]
  by (simp add: key_parts_def)

lemma no_dash_show_nat [simp]: "CHR ''-'' \<notin> set (show_nat n)"
  and no_dash_pad2 [simp]: "CHR ''-'' \<notin> set (pad2 n)"
  by (simp_all add: digits_no_dash digits_show_nat digits_pad2)

lemma key_parts_make_key [simp]:
  assumes "0 \<le> y" "0 \<le> m" "0 \<le> d"
  shows "key_parts (make_key y m d) = Some (y, m, d)"
  using assms key_parts_dashes [of "show_nat (nat y)" "pad2 (nat m)" "pad2 (nat d)"]
  by (simp add: make_key_def show_int_def pad2i_def)

lemma utc_parts_range:
  "1 \<le> utc_month n" "utc_month n \<le> 12" "1 \<le> utc_date n" "utc_date n \<le> 31"
proof -
  show m: "1 \<le> utc_month n" "utc_month n \<le> 12" "1 \<le> utc_date n"
    using real_date_of_day [of n] by (auto simp: real_date_def)
  have "utc_date n \<le> month_offset l (utc_month n + 1) - month_offset l (utc_month n)"
    if "l = leap (utc_year n)" for l
    using real_date_of_day [of n] that by (auto simp: real_date_def)
  moreover have "month_offset l (utc_month n + 1) - month_offset l (utc_month n) \<le> 31" for l
    using m(1,2) by (rule months_cases) (simp_all add: month_offset_def Let_def)
  ultimately show "utc_date n \<le> 31" by (meson order_trans)
qed

lemma key_parts_key_of_day [simp]:
  "0 \<le> utc_year n \<Longrightarrow> key_parts (key_of_day n) = Some (utc_year n, utc_month n, utc_date n)"
  using utc_parts_range [of n] by (simp add: key_of_day_def)

lemma make_day_add: "make_day y m (d + k) = make_day y m d + k"
  by (simp add: make_day_def Let_def)

lemma full_year_id [simp]: "100 \<le> y \<Longrightarrow> full_year y = y"
  by (simp add: full_year_def)

lemma addDaysToKey_day:
  assumes "100 \<le> utc_year n" "valid_day (n + k)"
  shows "addDaysToKey (key_of_day n) k = key_of_day (n + k)"
  using assms by (simp add: addDaysToKey_def make_day_add make_day_of_day Let_def)

lemma mod_step7: "(x + 1) mod 7 = (if x mod 7 = 6 then 0 else x mod 7 + 1)" for x :: int
proof -
  have "(x + 1) mod 7 = (x mod 7 + 1) mod 7" by (simp add: mod_simps)
  moreover have "0 \<le> x mod 7" "x mod 7 < 7" by simp_all
  ultimately show ?thesis by (auto intro: mod_pos_pos_trivial)
qed

lemma isoWeekdayOfKey_day:
  assumes "100 \<le> utc_year n" "valid_day n"
  shows "isoWeekdayOfKey (key_of_day n) = Some ((n + 3) mod 7 + 1)"
proof -
  have "(n + 4) mod 7 = (if (n + 3) mod 7 = 6 then 0 else (n + 3) mod 7 + 1)"
    using mod_step7 [of "n + 3"] by (simp add: add.assoc)
  then show ?thesis
    using assms by (auto simp: isoWeekdayOfKey_def make_day_of_day Let_def utc_weekday_def)
qed

lemma year_day_bounds:
  "146097 * utc_year n - 287811598 \<le> 400 * n" "400 * n < 146097 * (utc_year n + 1) - 287810498"
  using year_bounds [of n] day_from_year_bounds(1) [of "utc_year n + 1"]
    day_from_year_bounds(2) [of "utc_year n"] by (auto simp: utc_year_def)

lemma valid_day_of_year: "0 \<le> utc_year n \<Longrightarrow> utc_year n \<le> 9999 \<Longrightarrow> valid_day n"
  using year_day_bounds [of n] by (simp add: valid_day_def)

subsection \<open>The order of keys\<close>

lemma utc_year_mono: "n \<le> n' \<Longrightarrow> utc_year n \<le> utc_year n'"
proof (rule ccontr)
  assume a: "n \<le> n'" "\<not> utc_year n \<le> utc_year n'"
  then have "day_from_year (utc_year n' + 1) \<le> day_from_year (utc_year n)"
    by (intro day_from_year_mono) simp
  then show False using a(1) year_bounds [of n] year_bounds [of n'] by (simp add: utc_year_def)
qed

lemma day_parts_mono:
  assumes "n < n'"
  shows "utc_year n < utc_year n' \<or> utc_year n = utc_year n' \<and>
    (utc_month n < utc_month n' \<or> utc_month n = utc_month n' \<and> utc_date n < utc_date n')"
proof (cases "utc_year n = utc_year n'")
  case True
  then have "utc_month n \<le> utc_month n'"
    unfolding utc_month_def using assms year_of_day_range [of n] year_of_day_range [of n']
    by (auto intro!: month_from_mono)
  moreover have "utc_month n = utc_month n' \<Longrightarrow> utc_date n < utc_date n'"
    using True assms by (simp add: utc_date_def)
  ultimately show ?thesis using True by auto
next
  case False
  then show ?thesis using utc_year_mono [of n n'] assms by simp
qed

lemma append_less_iff:
  fixes a b x y :: string
  assumes "length a = length b"
  shows "a @ x < b @ y \<longleftrightarrow> a < b \<or> a = b \<and> x < y"
  using assms by (induction a b rule: list_induct2) auto

lemma append_less_iff2:
  fixes a b x y :: string
  assumes "length a = length b"
  shows "a @ c # x < b @ c # y \<longleftrightarrow> a < b \<or> a = b \<and> x < y"
  using append_less_iff [OF assms, of "c # x" "c # y"] by simp

lemma of_char_less_iff: "c < c' \<longleftrightarrow> (of_char c :: nat) < of_char c'"
  by (simp add: less_char_def)

lemma digits_foldl:
  "foldl (\<lambda>acc c. 10 * acc + digit_val c) a s = a * 10 ^ length s + parse_digits s"
proof (induction s arbitrary: a)
  case (Cons c s)
  show ?case using Cons [of "10 * a + digit_val c"] Cons [of "digit_val c"]
    by (simp add: parse_digits_def algebra_simps)
qed (simp add: parse_digits_def)

lemma parse_digits_Cons: "parse_digits (c # s) = digit_val c * 10 ^ length s + parse_digits s"
  using digits_foldl [of "digit_val c" s] by (simp add: parse_digits_def)

lemma digit_val_le: "is_digit c \<Longrightarrow> digit_val c \<le> 9"
  unfolding is_digit_def digit_val_def by linarith

lemma digit_val_less_iff: "is_digit x \<Longrightarrow> is_digit y \<Longrightarrow> x < y \<longleftrightarrow> digit_val x < digit_val y"
  unfolding is_digit_def digit_val_def of_char_less_iff by linarith

lemma digit_val_eq_iff: "is_digit x \<Longrightarrow> is_digit y \<Longrightarrow> x = y \<longleftrightarrow> digit_val x = digit_val y"
  by (metis digit_val_less_iff less_irrefl linorder_neqE)

lemma parse_digits_less: "list_all is_digit s \<Longrightarrow> parse_digits s < 10 ^ length s"
proof (induction s)
  case (Cons c s)
  then have "digit_val c \<le> 9" by (simp add: digit_val_le)
  then have "digit_val c * 10 ^ length s \<le> 9 * 10 ^ length s" by simp
  moreover have "parse_digits s < 10 ^ length s" using Cons by simp
  ultimately have "digit_val c * 10 ^ length s + parse_digits s < 10 * 10 ^ length s" by linarith
  then show ?case by (simp add: parse_digits_Cons)
qed (simp add: parse_digits_def)

lemma digits_less_iff:
  assumes "length s = length t" "list_all is_digit s" "list_all is_digit t"
  shows "s < t \<longleftrightarrow> parse_digits s < parse_digits t"
  using assms
proof (induction s t rule: list_induct2)
  case (Cons x xs y ys)
  let ?b = "10 ^ length ys"
  have d: "x < y \<longleftrightarrow> digit_val x < digit_val y" "x = y \<longleftrightarrow> digit_val x = digit_val y"
    using Cons.prems by (simp_all add: digit_val_less_iff digit_val_eq_iff)
  have b: "parse_digits xs < ?b" "parse_digits ys < ?b"
    using Cons.prems Cons.hyps parse_digits_less [of xs] parse_digits_less [of ys] by auto
  have "digit_val x < digit_val y \<Longrightarrow> Suc (digit_val x) * ?b \<le> digit_val y * ?b"
    and "digit_val y < digit_val x \<Longrightarrow> Suc (digit_val y) * ?b \<le> digit_val x * ?b"
    by (intro mult_le_mono1; simp)+
  then show ?case using d b Cons
    by (cases "digit_val x" "digit_val y" rule: linorder_cases) (auto simp: parse_digits_Cons)
qed (simp add: parse_digits_def)

lemma utc_year_range_digits:
  assumes "1000 \<le> y" "y \<le> 9999"
  shows "length (show_int y) = 4" "list_all is_digit (show_int y)" "parse_digits (show_int y) = nat y"
proof -
  let ?n = "nat y"
  have n: "1000 \<le> ?n" "?n \<le> 9999" using assms by auto
  then have "\<not> ?n < 10" "\<not> ?n div 10 < 10" "\<not> ?n div 10 div 10 < 10" "?n div 10 div 10 div 10 < 10"
    by linarith+
  then have "length (show_nat ?n) = 4"
    by (subst show_nat.simps, simp only: if_False length_append)
       (subst show_nat.simps, simp only: if_False length_append,
        subst show_nat.simps, simp only: if_False length_append, simp add: show_nat_lt10)
  then show "length (show_int y) = 4" "list_all is_digit (show_int y)" "parse_digits (show_int y) = nat y"
    using assms by (simp_all add: show_int_def)
qed

lemma pad2i_digits:
  assumes "0 \<le> m" "m < 100"
  shows "length (pad2i m) = 2" "list_all is_digit (pad2i m)" "parse_digits (pad2i m) = nat m"
proof -
  show "length (pad2i m) = 2" "list_all is_digit (pad2i m)"
    using assms by (simp_all add: pad2i_def pad2_two_digits)
  show "parse_digits (pad2i m) = nat m"
    using assms by (simp add: pad2i_def)
qed

lemma key_of_day_mono:
  assumes "n < n'" "1000 \<le> utc_year n" "utc_year n' \<le> 9999"
  shows "key_of_day n < key_of_day n'"
proof -
  have y: "1000 \<le> utc_year n'" "utc_year n \<le> 9999"
    using assms utc_year_mono [of n n'] by linarith+
  note dy = utc_year_range_digits [OF assms(2) y(2)] utc_year_range_digits [OF y(1) assms(3)]
  have lt: "0 \<le> utc_month k" "utc_month k < 100" "0 \<le> utc_date k" "utc_date k < 100" for k
    using utc_parts_range [of k] by linarith+
  note dm = pad2i_digits [OF lt(1,2)] and dd = pad2i_digits [OF lt(3,4)]
  have "show_int (utc_year n) < show_int (utc_year n') \<longleftrightarrow> utc_year n < utc_year n'"
    using dy y assms by (subst digits_less_iff) auto
  moreover have "pad2i (utc_month n) < pad2i (utc_month n') \<longleftrightarrow> utc_month n < utc_month n'"
    using dm [of n] dm [of n'] lt [of n] lt [of n'] by (subst digits_less_iff) auto
  moreover have "pad2i (utc_date n) < pad2i (utc_date n') \<longleftrightarrow> utc_date n < utc_date n'"
    using dd [of n] dd [of n'] lt [of n] lt [of n'] by (subst digits_less_iff) auto
  ultimately show ?thesis
    using day_parts_mono [OF assms(1)] dy dm [of n] dm [of n']
    by (auto simp: key_of_day_def make_key_def append_less_iff append_less_iff2)
qed

lemma key_of_day_less_iff:
  assumes "1000 \<le> utc_year n" "utc_year n \<le> 9999" "1000 \<le> utc_year n'" "utc_year n' \<le> 9999"
  shows "key_of_day n < key_of_day n' \<longleftrightarrow> n < n'"
  using key_of_day_mono [of n n'] key_of_day_mono [of n' n] assms
  by (metis less_asym less_irrefl linorder_neqE)

lemma isValidDateKey_day:
  assumes "1000 \<le> utc_year n" "utc_year n \<le> 9999"
  shows "isValidDateKey (key_of_day n)"
proof -
  have lt: "0 \<le> utc_month n" "utc_month n < 100" "0 \<le> utc_date n" "utc_date n < 100"
    using utc_parts_range [of n] by linarith+
  note d = utc_year_range_digits [OF assms] pad2i_digits [OF lt(1,2)] pad2i_digits [OF lt(3,4)]
  obtain a b c e where y: "show_int (utc_year n) = [a, b, c, e]"
    using d(1) by (auto simp: length_Suc_conv eval_nat_numeral)
  obtain f g where m: "pad2i (utc_month n) = [f, g]"
    using d(4) by (auto simp: length_Suc_conv eval_nat_numeral)
  obtain h i where t: "pad2i (utc_date n) = [h, i]"
    using d(7) by (auto simp: length_Suc_conv eval_nat_numeral)
  have "is_four_two_two (key_of_day n)"
    using d y m t by (simp add: key_of_day_def make_key_def is_four_two_two_def)
  then show ?thesis
    using assms by (simp add: isValidDateKey_def make_day_of_day Let_def)
qed

text \<open>A valid key names a real date, and every real date of the years 100 to 9999 has one.\<close>

lemma isValidDateKey_real:
  assumes "isValidDateKey s"
  shows "\<exists>n. key_parts s = Some (utc_year n, utc_month n, utc_date n) \<and> 100 \<le> utc_year n
    \<and> utc_year n \<le> 9999"
proof -
  obtain y m d where p: "key_parts s = Some (y, m, d)" and f: "is_four_two_two s"
    using assms by (auto simp: isValidDateKey_def split: if_splits option.splits)
  let ?n = "make_day (full_year y) (m - 1) d"
  have n: "utc_year ?n = y" "utc_month ?n = m" "utc_date ?n = d"
    using assms p f by (auto simp: isValidDateKey_def Let_def)
  have len: "length s = 10" "CHR ''-'' \<notin> set (take 4 s)" "s ! 4 = CHR ''-''"
    "list_all is_digit (take 4 s)"
    using f digits_no_dash [of "take 4 s"] by (auto simp: is_four_two_two_def list_all_iff)
  then have "s = take 4 s @ CHR ''-'' # drop 5 s"
    using id_take_nth_drop [of 4 s] by simp
  then have "split_on CHR ''-'' s = take 4 s # split_on CHR ''-'' (drop 5 s)"
    using split_on_append_sep [OF len(2), of "drop 5 s"] by simp
  then have "num_of (take 4 s) = Some y"
    using p by (auto simp: key_parts_def split: list.splits option.splits)
  then have y: "0 \<le> y" "y \<le> 9999"
    using len parse_digits_less [of "take 4 s"] by (auto simp: num_of_def split: if_splits)
  have "100 \<le> y"
  proof (rule ccontr)
    assume "\<not> 100 \<le> y"
    then have "full_year y = 1900 + y" using y by (simp add: full_year_def)
    have "real_date y m d"
      using real_date_of_day [of ?n] n by simp
    then have mm: "1 \<le> m" "m \<le> 12" "1 \<le> d" by (auto simp: real_date_def)
    then have "(m - 1) div 12 = 0" "(m - 1) mod 12 = m - 1" by auto
    then have "day_from_year (1900 + y) \<le> ?n"
      using mm month_offset_bounds [of m "leap (1900 + y)"] \<open>full_year y = 1900 + y\<close>
      by (simp add: make_day_def Let_def)
    moreover have "?n < day_from_year (y + 1)" using year_bounds [of ?n] n by (simp add: utc_year_def)
    moreover have "day_from_year (y + 1) \<le> day_from_year (1900 + y)"
      by (rule day_from_year_mono) simp
    ultimately show False by simp
  qed
  then show ?thesis using p n y by metis
qed

section \<open>Clock times are minutes of a day\<close>

lemma js_rem_mod: "0 < b \<Longrightarrow> js_rem (js_rem a b + b) b = a mod b"
proof -
  assume b: "0 < b"
  have "js_rem (js_rem a b + b) b = (js_rem a b + b) mod b"
  proof -
    have "js_rem a b + b > 0"
      using b pos_mod_bound [OF b, of "\<bar>a\<bar>"] pos_mod_sign [OF b, of "\<bar>a\<bar>"]
      by (cases a "0 :: int" rule: linorder_cases) (auto simp: js_rem_def)
    then show ?thesis using b by (simp add: js_rem_def)
  qed
  also have "\<dots> = js_rem a b mod b" by simp
  also have "\<dots> = a mod b"
    using b by (cases a "0 :: int" rule: linorder_cases) (simp_all add: js_rem_def mod_minus_eq)
  finally show ?thesis .
qed

lemma js_rem_nonneg: "0 \<le> a \<Longrightarrow> 0 < b \<Longrightarrow> js_rem a b = a mod b"
  by (cases "a = 0") (simp_all add: js_rem_def)

lemma minutesToHm_mod:
  "minutesToHm t = pad2i (t mod 1440 div 60) @ '':'' @ pad2i (t mod 60)"
proof -
  have "t mod 1440 mod 60 = t mod 60" by (rule mod_mod_cancel) simp
  then show ?thesis
    by (simp only: minutesToHm_def Let_def js_rem_mod js_rem_nonneg pos_mod_sign zero_less_numeral)
qed

lemma pad2i_two: "0 \<le> n \<Longrightarrow> n < 100 \<Longrightarrow> pad2i n = [digit_char (nat n div 10), digit_char (nat n mod 10)]"
  by (simp add: pad2i_def pad2_two_digits)

lemma parse_two: "a < 10 \<Longrightarrow> b < 10 \<Longrightarrow> parse_digits [digit_char a, digit_char b] = 10 * a + b"
  by (simp add: parse_digits_def)

lemma hm_match_pad:
  assumes "0 \<le> h" "h < 24" "0 \<le> m" "m < 60"
  shows "hm_match (pad2i h @ '':'' @ pad2i m) = Some (h, m)"
proof -
  define a b c e where "a = nat h div 10" and "b = nat h mod 10" and "c = nat m div 10"
    and "e = nat m mod 10"
  have r: "a < 3" "b < 10" "c < 6" "e < 10" "a = 2 \<Longrightarrow> b < 4" "10 * a + b = nat h" "10 * c + e = nat m"
  proof -
    have eq: "10 * a + b = nat h" "10 * c + e = nat m"
      unfolding a_def b_def c_def e_def by simp_all
    have lt: "nat h < 24" "nat m < 60" "b < 10" "e < 10"
      using assms by (simp_all add: b_def e_def)
    show "10 * a + b = nat h" "10 * c + e = nat m" "b < 10" "e < 10" by (fact eq lt)+
    show "a < 3" "c < 6" "a = 2 \<Longrightarrow> b < 4" using eq lt by linarith+
  qed
  have "a = 0 \<or> a = 1 \<or> a = 2" using r by linarith
  moreover have "a = 2 \<Longrightarrow> b = 0 \<or> b = 1 \<or> b = 2 \<or> b = 3" using r by linarith
  ultimately have "digit_char a \<in> {CHR ''0'', CHR ''1''}
     \<or> digit_char a = CHR ''2'' \<and> digit_char b \<in> {CHR ''0'', CHR ''1'', CHR ''2'', CHR ''3''}"
    by (auto simp: digit_chars)
  moreover have "pad2i h = [digit_char a, digit_char b]" "pad2i m = [digit_char c, digit_char e]"
    using assms by (simp_all add: pad2i_two a_def b_def c_def e_def)
  moreover have "digit_val (digit_char c) \<le> 5" using r by simp
  ultimately show ?thesis using r assms by (auto simp: parse_two)
qed

lemma hmToMinutes_minutesToHm: "hmToMinutes (minutesToHm t) = Some (t mod 1440)"
proof -
  have "0 \<le> t mod 1440" "t mod 1440 < 1440" by simp_all
  then have "0 \<le> t mod 1440 div 60" "t mod 1440 div 60 < 24" by linarith+
  moreover have "t mod 1440 div 60 * 60 + t mod 60 = t mod 1440"
  proof -
    have "t mod 60 = t mod 1440 mod 60" by (rule mod_mod_cancel [symmetric]) simp
    then show ?thesis by simp
  qed
  moreover have "0 \<le> t mod 60" "t mod 60 < 60" by simp_all
  ultimately show ?thesis
    using hm_match_pad [of "t mod 1440 div 60" "t mod 60"]
    by (simp only: hmToMinutes_def minutesToHm_mod option.map prod.case)
qed

lemma digit_char_val: "is_digit c \<Longrightarrow> digit_char (digit_val c) = c"
  by (simp add: is_digit_def digit_val_def digit_char_def)

lemma digit_val_chars:
  "digit_val CHR ''0'' = 0" "digit_val CHR ''1'' = 1" "digit_val CHR ''2'' = 2" "digit_val CHR ''3'' = 3"
  "is_digit CHR ''0''" "is_digit CHR ''1''" "is_digit CHR ''2''" "is_digit CHR ''3''"
  by code_simp+

lemma hm_match_cases:
  assumes "hm_match s = Some (h, m)"
  shows "0 \<le> h \<and> h < 24 \<and> 0 \<le> m \<and> m < 60 \<and> s = pad2i h @ '':'' @ pad2i m"
  using assms
proof (cases s rule: hm_match.cases)
  case (1 a b c d e)
  have dg: "is_digit a" "is_digit b" "is_digit d" "is_digit e" "c = CHR '':''" "digit_val d \<le> 5"
    "digit_val a = 0 \<or> digit_val a = 1 \<or> digit_val a = 2 \<and> digit_val b \<le> 3"
    using assms 1 by (auto split: if_splits simp: digit_val_chars)
  have hm: "h = int (10 * digit_val a + digit_val b)" "m = int (10 * digit_val d + digit_val e)"
    using assms 1 by (auto simp: parse_digits_def split: if_splits)
  have le: "digit_val b \<le> 9" "digit_val e \<le> 9" using dg digit_val_le by auto
  have "h < 24" "m < 60" using hm dg le by auto
  moreover have "pad2i h = [a, b]"
  proof -
    have "nat h = 10 * digit_val a + digit_val b" using hm by simp
    then have "nat h div 10 = digit_val a" "nat h mod 10 = digit_val b" using le by simp_all
    then show ?thesis using hm \<open>h < 24\<close> dg by (simp add: pad2i_two digit_char_val)
  qed
  moreover have "pad2i m = [d, e]"
  proof -
    have "nat m = 10 * digit_val d + digit_val e" using hm by simp
    then have "nat m div 10 = digit_val d" "nat m mod 10 = digit_val e" using le by simp_all
    then show ?thesis using hm \<open>m < 60\<close> dg by (simp add: pad2i_two digit_char_val)
  qed
  ultimately show ?thesis using hm dg 1 by simp
qed simp_all

lemma hmToMinutes_Some:
  assumes "hmToMinutes s = Some t"
  shows "0 \<le> t \<and> t < 1440 \<and> minutesToHm t = s"
proof -
  obtain h m where hm: "hm_match s = Some (h, m)" "t = h * 60 + m"
    using assms by (auto simp: hmToMinutes_def)
  note c = hm_match_cases [OF hm(1)]
  then have "t mod 1440 = t" "t div 60 = h" "t mod 60 = m" using hm by auto
  then show ?thesis using c hm by (simp add: minutesToHm_mod)
qed

section \<open>Zones and their wall clocks\<close>

lemma sec_split: "s div 3600 * 3600 + s div 60 mod 60 * 60 + s mod 60 = (s :: int)"
proof -
  have "s div 3600 = s div 60 div 60" by (simp add: zdiv_zmult2_eq)
  moreover have "s div 60 div 60 * 60 + s div 60 mod 60 = s div 60" "s div 60 * 60 + s mod 60 = s"
    by simp_all
  ultimately show ?thesis by linarith
qed

lemma offsetMs_zone:
  assumes "1000 dvd tz u" "100 \<le> utc_year ((u + tz u) div msPerDay)"
  shows "offsetMs u tz = tz u"
proof -
  define l where "l = u + tz u"
  define d where "d = l div msPerDay"
  define s where "s = l mod msPerDay div 1000"
  have y: "100 \<le> utc_year d" using assms(2) by (simp add: d_def l_def)
  have "l mod msPerDay div 3600000 = s div 3600" "l mod msPerDay div 60000 = s div 60"
    by (simp_all add: s_def zdiv_zmult2_eq [symmetric])
  then have p: "zonedParts u tz = \<lparr>zp_year = utc_year d, zp_month = utc_month d, zp_day = utc_date d,
      zp_hour = s div 3600, zp_minute = s div 60 mod 60, zp_second = s mod 60\<rparr>"
    by (simp only: zonedParts_def Let_def l_def [symmetric] d_def [symmetric] s_def [symmetric])
  have "date_UTC (zp_year (zonedParts u tz)) (zp_month (zonedParts u tz) - 1)
      (zp_day (zonedParts u tz)) (zp_hour (zonedParts u tz)) (zp_minute (zonedParts u tz))
      (zp_second (zonedParts u tz))
    = d * msPerDay + (s div 3600 * 3600 + s div 60 mod 60 * 60 + s mod 60) * 1000"
  proof -
    have "date_UTC (utc_year d) (utc_month d - 1) (utc_date d) h mi sc
        = d * msPerDay + (h * 3600 + mi * 60 + sc) * 1000" for h mi sc
      using y by (simp add: date_UTC_def make_day_of_day)
    then show ?thesis by (simp only: p zoned_parts.simps)
  qed
  also have "\<dots> = d * msPerDay + s * 1000" by (simp only: sec_split)
  also have "\<dots> = l div 1000 * 1000"
  proof -
    have "l = l mod msPerDay + d * 86400 * 1000"
      using div_mult_mod_eq [of l msPerDay] by (simp add: d_def msPerDay_def)
    then have "l div 1000 = (l mod msPerDay + d * 86400 * 1000) div 1000" by (rule arg_cong)
    also have "\<dots> = d * 86400 + s" unfolding s_def by (rule div_mult_self1) simp
    finally show ?thesis by (simp add: msPerDay_def)
  qed
  also have "\<dots> = (u div 1000) * 1000 + tz u"
    using assms(1) by (auto simp: l_def dvd_def)
  finally show ?thesis by (simp add: offsetMs_def Let_def)
qed

lemma wall_clock:
  assumes "u + tz u = n * msPerDay + minutes * 60000" "0 \<le> minutes" "minutes < 1440"
  shows "dateKeyInZone u tz = key_of_day n" "hmInZone u tz = minutesToHm minutes"
    "hourInZone u tz = minutes div 60"
proof -
  have r: "0 \<le> minutes * 60000" "minutes * 60000 < msPerDay" using assms by (simp_all add: msPerDay_def)
  have d: "(u + tz u) div msPerDay = n" and m: "(u + tz u) mod msPerDay = minutes * 60000"
    unfolding assms(1) using r by (simp_all add: msPerDay_def)
  have "minutes * 60000 div 3600000 = minutes div 60"
    using zdiv_zmult2_eq [of 60 "minutes * 60000" 60000] by simp
  then show "dateKeyInZone u tz = key_of_day n" "hourInZone u tz = minutes div 60"
    "hmInZone u tz = minutesToHm minutes"
    using assms(2,3)
    by (simp_all add: dateKeyInZone_def hourInZone_def hmInZone_def zonedParts_def Let_def d m
        key_of_day_def minutesToHm_mod)
qed

text \<open>At most one change of offset near the wall-clock time asked for.\<close>

definition one_change :: "zone \<Rightarrow> int \<Rightarrow> int \<Rightarrow> int \<Rightarrow> int \<Rightarrow> bool" where
  "one_change tz w t a b \<longleftrightarrow>
     (\<forall>v. \<bar>v - w\<bar> \<le> msPerDay \<longrightarrow> tz v = (if v < t then a else b)) \<and>
     1000 dvd a \<and> 1000 dvd b \<and> \<bar>a\<bar> \<le> msPerDay \<and> \<bar>b\<bar> \<le> msPerDay"

lemma late_year:
  assumes "1000 \<le> utc_year n" "n - 4 \<le> d"
  shows "100 \<le> utc_year d"
  using year_day_bounds(1) [of n] year_day_bounds(2) [of d] assms unfolding distrib_left by linarith

lemma zonedMinutesToUtc_wall:
  assumes n: "1000 \<le> utc_year n" and m: "- 1440 \<le> minutes"
    and w: "w = n * msPerDay + minutes * 60000"
    and z: "one_change tz w t a b"
    and u: "\<bar>u - w\<bar> \<le> msPerDay" "u + tz u = w"
  shows "zonedMinutesToUtc (key_of_day n) minutes tz + tz (zonedMinutesToUtc (key_of_day n) minutes tz) = w"
proof -
  have tz: "tz v = (if v < t then a else b)" if "\<bar>v - w\<bar> \<le> msPerDay" for v
    using z that by (simp add: one_change_def)
  have ab: "1000 dvd a" "1000 dvd b" "\<bar>a\<bar> \<le> msPerDay" "\<bar>b\<bar> \<le> msPerDay"
    using z by (simp_all add: one_change_def)
  have off: "offsetMs v tz = tz v" if v: "\<bar>v - w\<bar> \<le> msPerDay" for v
  proof (rule offsetMs_zone)
    show "1000 dvd tz v" using tz [OF v] ab by simp
    have "\<bar>tz v\<bar> \<le> msPerDay" using tz [OF v] ab by simp
    moreover have "- msPerDay \<le> minutes * 60000" using m by (simp add: msPerDay_def)
    ultimately have "(n - 4) * msPerDay \<le> v + tz v" using v w by (simp add: left_diff_distrib)
    then have "(n - 4) * msPerDay div msPerDay \<le> (v + tz v) div msPerDay"
      by (rule zdiv_mono1) (simp add: msPerDay_def)
    then have "n - 4 \<le> (v + tz v) div msPerDay" by (simp add: msPerDay_def)
    then show "100 \<le> utc_year ((v + tz v) div msPerDay)" by (rule late_year [OF n])
  qed
  have guess: "date_UTC (utc_year n) (utc_month n - 1) (utc_date n) 0 0 0 + minutes * 60000 = w"
    using n by (simp add: date_UTC_def make_day_of_day w)
  define f s where "f = offsetMs w tz" and "s = offsetMs (w - f) tz"
  have r: "zonedMinutesToUtc (key_of_day n) minutes tz = (if s \<noteq> f then w - s else w - f)"
    using n by (simp add: zonedMinutesToUtc_def guess Let_def f_def s_def)
  have f: "f = (if w < t then a else b)" using tz [of w] off [of w] by (simp add: f_def msPerDay_def)
  have fb: "\<bar>w - f - w\<bar> \<le> msPerDay" using f ab by (simp split: if_splits)
  have s: "s = (if w - f < t then a else b)" using tz [OF fb] off [OF fb] by (simp add: s_def)
  have sb: "\<bar>w - s - w\<bar> \<le> msPerDay" using s ab by (simp split: if_splits)
  have "tz u = (if u < t then a else b)" by (rule tz [OF u(1)])
  then show ?thesis
    unfolding r using u(2) f s tz [OF fb] tz [OF sb] by (auto split: if_splits)
qed

text \<open>A zone with one offset all year, like the default Asia/Kolkata.\<close>

lemma zonedMinutesToUtc_fixed:
  assumes "1000 \<le> utc_year n" "- 1440 \<le> m" "1000 dvd c" "\<bar>c\<bar> \<le> msPerDay"
  shows "zonedMinutesToUtc (key_of_day n) m (\<lambda>_. c) = n * msPerDay + m * 60000 - c"
  using zonedMinutesToUtc_wall [OF assms(1,2) refl, of "\<lambda>_. c" 0 c c
      "n * msPerDay + m * 60000 - c"] assms by (simp add: one_change_def)

section \<open>The cache answers what the computation answers\<close>

lemma no_bar_show_int: "CHR ''|'' \<notin> set (show_int m)"
proof -
  have "\<not> is_digit CHR ''|''" by (simp add: is_digit_def)
  then show ?thesis using digits_show_nat by (auto simp: show_int_def)
qed

lemma show_nat_not_minus: "show_nat a \<noteq> CHR ''-'' # s"
proof
  assume "show_nat a = CHR ''-'' # s"
  then have "is_digit CHR ''-''" using digits_show_nat [of a] by simp
  then show False by (simp add: is_digit_def)
qed

lemma show_int_inj: "show_int a = show_int b \<longleftrightarrow> a = b"
  by (auto simp: show_int_def show_nat_inj show_nat_not_minus show_nat_not_minus [symmetric]
      split: if_splits)

lemma split_bar_eq:
  "CHR ''|'' \<notin> set a \<Longrightarrow> CHR ''|'' \<notin> set b \<Longrightarrow> a @ CHR ''|'' # x = b @ CHR ''|'' # y \<Longrightarrow> a = b \<and> x = y"
  by (induction a arbitrary: b) (auto simp: Cons_eq_append_conv append_eq_Cons_conv)

lemma split_bar_eq_rev:
  assumes "CHR ''|'' \<notin> set a" "CHR ''|'' \<notin> set b" "x @ CHR ''|'' # a = y @ CHR ''|'' # b"
  shows "x = y \<and> a = b"
proof -
  have "rev a @ CHR ''|'' # rev x = rev b @ CHR ''|'' # rev y"
    using arg_cong [OF assms(3), of rev] by simp
  then show ?thesis using split_bar_eq [of "rev a" "rev b" "rev x" "rev y"] assms by simp
qed

lemma zoned_cache_key_inj:
  assumes "CHR ''|'' \<notin> set tz" "CHR ''|'' \<notin> set tz'"
    and "zoned_cache_key tz k m = zoned_cache_key tz' k' m'"
  shows "tz = tz' \<and> k = k' \<and> m = m'"
proof -
  have "tz @ CHR ''|'' # (k @ CHR ''|'' # show_int m) = tz' @ CHR ''|'' # (k' @ CHR ''|'' # show_int m')"
    using assms(3) by (simp add: zoned_cache_key_def)
  from split_bar_eq [OF assms(1,2) this]
  have t: "tz = tz'" and r: "k @ CHR ''|'' # show_int m = k' @ CHR ''|'' # show_int m'" by auto
  show ?thesis
    using t split_bar_eq_rev [OF no_bar_show_int no_bar_show_int r] by (simp add: show_int_inj)
qed

text \<open>A zone name has no bar.\<close>

definition bar_free :: "string \<times> string \<times> int \<Rightarrow> bool" where
  "bar_free call \<longleftrightarrow> CHR ''|'' \<notin> set (fst call)"

interpretation zoned_memo: bounded_memo zoned_call_key "zoned_call_value zones" ZONED_CACHE_MAX bar_free
  for zones
proof unfold_locales
  show "x = y" if "bar_free x" "bar_free y" "zoned_call_key x = zoned_call_key y" for x y
  proof -
    obtain tz k m tz' k' m' where xy: "x = (tz, k, m)" "y = (tz', k', m')" by (metis prod_cases3)
    have "CHR ''|'' \<notin> set tz" "CHR ''|'' \<notin> set tz'" using that(1,2) by (simp_all add: xy bar_free_def)
    moreover have "zoned_cache_key tz k m = zoned_cache_key tz' k' m'" using that(3) by (simp add: xy)
    ultimately show ?thesis unfolding xy using zoned_cache_key_inj by blast
  qed
  show "0 < ZONED_CACHE_MAX" by (simp add: ZONED_CACHE_MAX_def)
qed

lemma zoned_calls_ok:
  assumes "zoned_memo.memo_ok zones cache" "\<forall>(k, m, tz) \<in> set calls. CHR ''|'' \<notin> set tz"
  shows "zoned_memo.memo_ok zones (fst (zoned_calls zones cache calls))
    \<and> snd (zoned_calls zones cache calls) = map (\<lambda>(k, m, tz). zonedMinutesToUtc k m (zones tz)) calls"
  using assms
proof (induction calls arbitrary: cache)
  case (Cons c calls)
  obtain k m tz where c: "c = (k, m, tz)" by (rule prod_cases3)
  have "bar_free (tz, k, m)" using Cons.prems(2) by (simp add: c bar_free_def)
  from zoned_memo.memo_call_ok [OF Cons.prems(1) this]
  have "zoned_memo.memo_ok zones (fst (zoned_cached zones cache k m tz))"
    "snd (zoned_cached zones cache k m tz) = zonedMinutesToUtc k m (zones tz)"
    by (simp_all add: zoned_cached_def)
  then show ?case
    using Cons.IH [of "fst (zoned_cached zones cache k m tz)"] Cons.prems(2)
    by (simp add: c Let_def case_prod_beta)
qed simp

section \<open>Properties\<close>

lemma sample_days:
  "utc_year 20512 = 2026" "utc_year 20513 = 2026" "utc_year 20520 = 2026"
  "key_of_day 20512 = ''2026-02-28''" "key_of_day 20513 = ''2026-03-01''"
proof -
  show y: "utc_year 20512 = 2026" "utc_year 20513 = 2026" "utc_year 20520 = 2026"
    by (simp_all add: utc_year_def year_from_day_def day_from_year_def)
  have m: "utc_month 20512 = 2" "utc_date 20512 = 28" "utc_month 20513 = 3" "utc_date 20513 = 1"
    by (simp_all add: y utc_month_def utc_date_def day_from_year_def leap_def month_from_def month_offset_def)
  have "make_key 2026 2 28 = ''2026-02-28''" "make_key 2026 3 1 = ''2026-03-01''"
    by (simp_all add: make_key_def pad2i_def show_num)
  then show "key_of_day 20512 = ''2026-02-28''" "key_of_day 20513 = ''2026-03-01''"
    by (simp_all add: key_of_day_def y m)
qed

lemma digits_eq:
  "length s = length t \<Longrightarrow> list_all is_digit s \<Longrightarrow> list_all is_digit t \<Longrightarrow> parse_digits s = parse_digits t \<Longrightarrow> s = t"
  using digits_less_iff [of s t] digits_less_iff [of t s] by (metis less_irrefl linorder_neqE)

text \<open>The three parts of a date of the shape \<open>isValidDateKey\<close> asks for.\<close>

lemma four_two_two_parts:
  assumes "is_four_two_two s"
  shows "s = take 4 s @ ''-'' @ take 2 (drop 5 s) @ ''-'' @ drop 8 s"
    and "key_parts s = Some (int (parse_digits (take 4 s)), int (parse_digits (take 2 (drop 5 s))), int (parse_digits (drop 8 s)))"
proof -
  have f: "length s = 10" "s ! 4 = CHR ''-''" "s ! 7 = CHR ''-''" "list_all is_digit (take 4 s)"
    "list_all is_digit (take 2 (drop 5 s))" "list_all is_digit (drop 8 s)"
    using assms by (auto simp: is_four_two_two_def)
  have "drop 4 s = CHR ''-'' # drop 5 s" using f Cons_nth_drop_Suc [of 4 s] by simp
  moreover have "drop 5 s = take 2 (drop 5 s) @ drop 7 s" using append_take_drop_id [of 2 "drop 5 s"] by simp
  moreover have "drop 7 s = CHR ''-'' # drop 8 s" using f Cons_nth_drop_Suc [of 7 s] by simp
  ultimately show s: "s = take 4 s @ ''-'' @ take 2 (drop 5 s) @ ''-'' @ drop 8 s"
    using append_take_drop_id [of 4 s] by simp
  have nd: "CHR ''-'' \<notin> set (take 4 s)" "CHR ''-'' \<notin> set (take 2 (drop 5 s))" "CHR ''-'' \<notin> set (drop 8 s)"
    using f(4-6) by (simp_all add: digits_no_dash list_all_iff)
  have n: "num_of (take 4 s) = Some (int (parse_digits (take 4 s)))"
    "num_of (take 2 (drop 5 s)) = Some (int (parse_digits (take 2 (drop 5 s))))"
    "num_of (drop 8 s) = Some (int (parse_digits (drop 8 s)))"
    using f by (simp_all add: num_of_def)
  show "key_parts s = Some (int (parse_digits (take 4 s)), int (parse_digits (take 2 (drop 5 s))), int (parse_digits (drop 8 s)))"
    by (subst s) (simp only: key_parts_dashes [OF nd] n option.case prod.case)
qed

lemma valid_key_parts:
  assumes "isValidDateKey s"
  obtains n where "is_four_two_two s" "100 \<le> utc_year n" "utc_year n \<le> 9999"
    "int (parse_digits (take 4 s)) = utc_year n" "int (parse_digits (take 2 (drop 5 s))) = utc_month n"
    "int (parse_digits (drop 8 s)) = utc_date n"
proof -
  have f: "is_four_two_two s" using assms by (auto simp: isValidDateKey_def split: if_splits)
  obtain n where "key_parts s = Some (utc_year n, utc_month n, utc_date n)" "100 \<le> utc_year n" "utc_year n \<le> 9999"
    using isValidDateKey_real [OF assms] by blast
  then show thesis using that [OF f, of n] four_two_two_parts(2) [OF f] by simp
qed

text \<open>From the year 1000 on a valid date is the key of its day.\<close>

lemma valid_key_of_day:
  assumes "isValidDateKey s" "''1000'' \<le> take 4 s"
  obtains n where "s = key_of_day n" "1000 \<le> utc_year n" "utc_year n \<le> 9999"
proof -
  obtain n where n: "is_four_two_two s" "utc_year n \<le> 9999"
    "int (parse_digits (take 4 s)) = utc_year n" "int (parse_digits (take 2 (drop 5 s))) = utc_month n"
    "int (parse_digits (drop 8 s)) = utc_date n"
    using assms(1) by (rule valid_key_parts)
  have f: "length s = 10" "list_all is_digit (take 4 s)" "list_all is_digit (take 2 (drop 5 s))" "list_all is_digit (drop 8 s)"
    using n(1) by (auto simp: is_four_two_two_def)
  have "\<not> take 4 s < ''1000''" using assms(2) by simp
  then have "\<not> parse_digits (take 4 s) < parse_digits ''1000''"
    using f by (subst (asm) digits_less_iff) (auto simp: is_digit_def)
  then have y: "1000 \<le> utc_year n" using n(3) by (simp add: parse_digits_def digit_val_def)
  have lt: "0 \<le> utc_month n" "utc_month n < 100" "0 \<le> utc_date n" "utc_date n < 100"
    using utc_parts_range [of n] by linarith+
  note d = utc_year_range_digits [OF y n(2)] pad2i_digits [OF lt(1,2)] pad2i_digits [OF lt(3,4)]
  have "take 4 s = show_int (utc_year n)" "take 2 (drop 5 s) = pad2i (utc_month n)" "drop 8 s = pad2i (utc_date n)"
    using d f n(3-5) by (auto intro!: digits_eq)
  then have "s = key_of_day n"
    using four_two_two_parts(1) [OF n(1)] by (simp add: key_of_day_def make_key_def)
  then show thesis using that y n(2) by blast
qed

text \<open>So the valid keys from the year 1000 on are exactly the keys of the days.\<close>

lemma valid_keys:
  "{s. isValidDateKey s \<and> ''1000'' \<le> take 4 s} = key_of_day ` {m. 1000 \<le> utc_year m \<and> utc_year m \<le> 9999}"
proof (intro equalityI subsetI)
  fix s assume "s \<in> {s. isValidDateKey s \<and> ''1000'' \<le> take 4 s}"
  then obtain n where "s = key_of_day n" "1000 \<le> utc_year n" "utc_year n \<le> 9999" using valid_key_of_day by blast
  then show "s \<in> key_of_day ` {m. 1000 \<le> utc_year m \<and> utc_year m \<le> 9999}" by blast
next
  fix s assume "s \<in> key_of_day ` {m. 1000 \<le> utc_year m \<and> utc_year m \<le> 9999}"
  then obtain n where n: "s = key_of_day n" "1000 \<le> utc_year n" "utc_year n \<le> 9999" by auto
  note d = utc_year_range_digits [OF n(2,3)]
  have t: "take 4 s = show_int (utc_year n)" using d(1) by (simp add: n(1) key_of_day_def make_key_def)
  have "\<not> parse_digits (show_int (utc_year n)) < parse_digits ''1000''"
    using d n(2) by (simp add: parse_digits_def [of "''1000''"] digit_val_def)
  then have "\<not> show_int (utc_year n) < ''1000''" using d digits_less_iff [of "show_int (utc_year n)" "''1000''"] by (simp add: is_digit_def)
  then have "''1000'' \<le> take 4 s" unfolding t by simp
  then show "s \<in> {s. isValidDateKey s \<and> ''1000'' \<le> take 4 s}" using isValidDateKey_day [OF n(2,3)] n(1) by simp
qed

text \<open>C39: day keys are the days of the calendar. From the year 1000 on the strings
  \<open>isValidDateKey\<close> accepts are exactly the keys of the days of the years 1000 to 9999 (so 2026-02-30
  is none); for those days, \<open>addDaysToKey\<close> moves it by that many days (so adding and taking away cancel),
  \<open>isoWeekdayOfKey\<close> is its weekday from 1 (Monday, day 4 of the epoch) to 7, and comparing two
  keys as strings, which the whole backend does, compares the days.\<close>

theorem day_keys_are_days:
  assumes "1000 \<le> utc_year n" "utc_year n \<le> 9999" "1000 \<le> utc_year (n + k)" "utc_year (n + k) \<le> 9999"
  shows "{s. isValidDateKey s \<and> ''1000'' \<le> take 4 s} = key_of_day ` {m. 1000 \<le> utc_year m \<and> utc_year m \<le> 9999}
    \<and> isValidDateKey (key_of_day n)
    \<and> addDaysToKey (key_of_day n) k = key_of_day (n + k)
    \<and> addDaysToKey (addDaysToKey (key_of_day n) k) (- k) = key_of_day n
    \<and> isoWeekdayOfKey (key_of_day n) = Some ((n + 3) mod 7 + 1)
    \<and> (key_of_day n < key_of_day (n + k) \<longleftrightarrow> 0 < k)"
proof -
  have v: "valid_day n" "valid_day (n + k)" using assms by (auto intro: valid_day_of_year)
  have "addDaysToKey (key_of_day n) k = key_of_day (n + k)"
    using assms v by (intro addDaysToKey_day) simp_all
  moreover have "addDaysToKey (key_of_day (n + k)) (- k) = key_of_day n"
    using assms v addDaysToKey_day [of "n + k" "- k"] by simp
  moreover have "isoWeekdayOfKey (key_of_day n) = Some ((n + 3) mod 7 + 1)"
    using assms v by (intro isoWeekdayOfKey_day) simp_all
  ultimately show ?thesis using assms valid_keys by (simp add: isValidDateKey_day key_of_day_less_iff)
qed

theorem day_keys_are_days_witness:
  "key_of_day 20512 = ''2026-02-28'' \<and> addDaysToKey ''2026-02-28'' 1 = ''2026-03-01''
   \<and> isoWeekdayOfKey ''2026-02-28'' = Some 6"
  using day_keys_are_days [of 20512 1] sample_days by simp

text \<open>The strings \<open>isValidHm\<close> accepts are exactly the clock times of the 1440 minutes of a
  day, \<open>hmToMinutes\<close> reads each of them back, throws on every other string, and
  \<open>minutesToHm\<close> wraps any number of minutes, negative ones too, into the day.\<close>

theorem clock_times_are_minutes:
  "hmToMinutes (minutesToHm t) = Some (t mod 1440)
   \<and> {s. isValidHm s} = minutesToHm ` {0 ..< 1440}
   \<and> {s. hmToMinutes s = None} = {s. \<not> isValidHm s}"
proof -
  have "isValidHm s \<longleftrightarrow> hmToMinutes s \<noteq> None" for s
    by (auto simp: isValidHm_def hmToMinutes_def)
  moreover have "s \<in> minutesToHm ` {0 ..< 1440}" if "hmToMinutes s = Some u" for s u
    using hmToMinutes_Some [OF that] by (intro image_eqI [of _ _ u]) auto
  ultimately show ?thesis by (auto simp: hmToMinutes_minutesToHm)
qed

text \<open>\<open>zonedMinutesToUtc\<close> is right across a change of offset. When the zone changes its
  offset at most once within a day of the wall-clock time asked for, and some instant shows that
  time, the instant computed shows it: its day key is the key asked for (the day before or after when
  the minutes are negative or past 24 hours) and its "HH:MM" is the minute asked for.\<close>

theorem zonedMinutesToUtc_reads_back:
  assumes "1000 \<le> utc_year n" "- 1440 \<le> minutes"
    and "one_change tz (n * msPerDay + minutes * 60000) t a b"
    and "\<bar>u - (n * msPerDay + minutes * 60000)\<bar> \<le> msPerDay"
    and "u + tz u = n * msPerDay + minutes * 60000"
  shows "dateKeyInZone (zonedMinutesToUtc (key_of_day n) minutes tz) tz = key_of_day (n + minutes div 1440)
    \<and> hmInZone (zonedMinutesToUtc (key_of_day n) minutes tz) tz = minutesToHm minutes"
proof -
  let ?r = "zonedMinutesToUtc (key_of_day n) minutes tz"
  have "?r + tz ?r = n * msPerDay + minutes * 60000"
    using zonedMinutesToUtc_wall [OF assms(1,2) refl assms(3-5)] .
  also have "\<dots> = (n + minutes div 1440) * msPerDay + minutes mod 1440 * 60000"
  proof -
    define q r where "q = minutes div 1440" and "r = minutes mod 1440"
    then have "minutes = q * 1440 + r" by simp
    then show ?thesis unfolding q_def [symmetric] r_def [symmetric]
      by (simp add: msPerDay_def distrib_right)
  qed
  finally have "dateKeyInZone ?r tz = key_of_day (n + minutes div 1440)"
    "hmInZone ?r tz = minutesToHm (minutes mod 1440)"
    by (simp_all add: wall_clock)
  moreover have "minutesToHm (minutes mod 1440) = minutesToHm minutes"
    by (simp add: minutesToHm_mod mod_mod_cancel)
  ultimately show ?thesis by simp
qed

text \<open>New York on 2026-03-08 (day 20520), when clocks go from 02:00 to 03:00: 04:30 exists.\<close>

theorem zonedMinutesToUtc_reads_back_witness:
  "let ny = (\<lambda>u. if u < 1772953200000 then - 18000000 else - 14400000)
   in dateKeyInZone (zonedMinutesToUtc (key_of_day 20520) 270 ny) ny = key_of_day 20520
      \<and> hmInZone (zonedMinutesToUtc (key_of_day 20520) 270 ny) ny = ''04:30''"
proof -
  define ny :: zone where "ny = (\<lambda>u. if u < 1772953200000 then - 18000000 else - 14400000)"
  have "utc_year 20520 = 2026" "minutesToHm 270 = ''04:30''" by (simp_all add: sample_days minutesToHm_mod pad2i_def show_num)
  moreover have "one_change ny (20520 * msPerDay + 270 * 60000) 1772953200000 (- 18000000) (- 14400000)"
    by (simp add: one_change_def ny_def msPerDay_def)
  ultimately have "dateKeyInZone (zonedMinutesToUtc (key_of_day 20520) 270 ny) ny = key_of_day (20520 + 270 div 1440)
      \<and> hmInZone (zonedMinutesToUtc (key_of_day 20520) 270 ny) ny = ''04:30''"
    using zonedMinutesToUtc_reads_back [of 20520 270 ny 1772953200000 "- 18000000" "- 14400000" 1772958600000]
    by (simp add: ny_def msPerDay_def)
  then show ?thesis by (simp add: ny_def Let_def)
qed

text \<open>The cache of \<open>zonedMinutesToUtc\<close> is invisible and bounded. Starting from the empty
  cache, any sequence of calls (zone names have no \<open>|\<close>) returns what the computation without
  a cache returns, and the cache never holds more than \<open>ZONED_CACHE_MAX\<close> entries.\<close>

theorem zoned_cache_transparent:
  assumes "\<forall>(k, m, tz) \<in> set calls. CHR ''|'' \<notin> set tz"
  shows "snd (zoned_calls zones [] calls) = map (\<lambda>(k, m, tz). zonedMinutesToUtc k m (zones tz)) calls
    \<and> length (fst (zoned_calls zones [] calls)) \<le> ZONED_CACHE_MAX"
proof -
  from zoned_calls_ok [OF zoned_memo.memo_empty assms] show ?thesis by (simp add: zoned_memo.memo_ok_def)
qed

theorem zoned_cache_transparent_witness:
  "snd (zoned_calls (\<lambda>_ _. 19800000) [] [(''2026-02-28'', 540, ''Asia/Kolkata''), (''2026-02-28'', 540, ''Asia/Kolkata'')])
   = [1772249400000, 1772249400000]"
proof -
  have "zonedMinutesToUtc ''2026-02-28'' 540 (\<lambda>_. 19800000) = 1772249400000"
    using zonedMinutesToUtc_fixed [of 20512 540 19800000] sample_days by (simp add: msPerDay_def)
  then show ?thesis
    using zoned_cache_transparent [of "[(''2026-02-28'', 540, ''Asia/Kolkata''), (''2026-02-28'', 540, ''Asia/Kolkata'')]"
        "\<lambda>_ _. 19800000"] by simp
qed

end
