(* ===== verification/Calendar.thy ===== *)
theory Calendar
  imports Settings Day_Keys
begin

text \<open>
  Working days and holidays of an organisation: the rules of
  \<open>src/src/modules/calendar/domain/calendar.rules.ts\<close> and the service
  \<open>application/calendar.service.ts\<close> over the settings row, the calendar days and the month locks.

  Months and dates are their strings, compared as the code compares them. A value that comes in as
  \<open>unknown\<close> is a \<open>json option\<close> (None for undefined). The calendar days and the month locks are the
  tables' rows; who changed a row is left out, and the event an edit publishes is the organisation's
  name in \<open>cal_told\<close>. Every \<open>Date.now()\<close> of one call is the same instant.
\<close>

section \<open>The rules\<close>

definition DEFAULT_WEEK_PATTERN :: "int list" where
  "DEFAULT_WEEK_PATTERN = [1, 2, 3, 4, 5, 6]"

definition LABEL_MAX :: nat where
  "LABEL_MAX = 60"

definition PATTERN_SINCE_ALWAYS :: string where
  "PATTERN_SINCE_ALWAYS = ''0000-01-01''"

record day_override =
  ov_isWorking :: bool
  ov_label :: "string option"

record week_pattern_entry =
  pt_from :: string
  pt_days :: "int list"

record org_calendar =
  oc_weekPattern :: "int list"
  oc_patterns :: "week_pattern_entry list option"
  oc_overrides :: "(string \<times> day_override) list"

fun last_pattern :: "week_pattern_entry list \<Rightarrow> string \<Rightarrow> int list option \<Rightarrow> int list option" where
  "last_pattern [] date days = days"
| "last_pattern (e # es) date days = (if pt_from e \<le> date then last_pattern es date (Some (pt_days e)) else days)"

definition patternOn :: "org_calendar \<Rightarrow> string \<Rightarrow> int list" where
  "patternOn cal date =
     (case oc_patterns cal of
        Some (h # hs) \<Rightarrow> coalesce (last_pattern (h # hs) date None) (pt_days h)
      | _ \<Rightarrow> oc_weekPattern cal)"

fun weekday_number :: "json \<Rightarrow> bool" where
  "weekday_number (JInt d) = (1 \<le> d \<and> d \<le> 7)"
| "weekday_number _ = False"

fun weekPatternFromStored :: "json option \<Rightarrow> int list" where
  "weekPatternFromStored (Some (JArray stored)) = js_sort (-) (js_unique (map int_of (filter weekday_number stored)))"
| "weekPatternFromStored _ = DEFAULT_WEEK_PATTERN"

fun byFrom_set :: "(string \<times> int list) list \<Rightarrow> json \<Rightarrow> (string \<times> int list) list" where
  "byFrom_set byFrom (JObject raw) =
     (case (map_of raw ''from'', map_of raw ''days'') of
        (Some (JString from), Some (JArray days)) \<Rightarrow>
          if from \<noteq> PATTERN_SINCE_ALWAYS \<and> \<not> isValidDateKey from then byFrom
          else AList.update from (weekPatternFromStored (Some (JArray days))) byFrom
      | _ \<Rightarrow> byFrom)"
| "byFrom_set byFrom _ = byFrom"

text \<open>\<open>localeCompare\<close> of two dates of the same shape.\<close>

fun compare_keys :: "string \<times> 'a \<Rightarrow> string \<times> 'a \<Rightarrow> int" where
  "compare_keys (a, _) (b, _) = (if a < b then - 1 else if a = b then 0 else 1)"

definition patternHistoryFromStored :: "json option \<Rightarrow> json option \<Rightarrow> week_pattern_entry list" where
  "patternHistoryFromStored history legacy =
     (let base = \<lparr>pt_from = PATTERN_SINCE_ALWAYS, pt_days = weekPatternFromStored legacy\<rparr>
      in case history of
           Some (JArray xs) \<Rightarrow>
             (let entries = map (\<lambda>(from, days). \<lparr>pt_from = from, pt_days = days\<rparr>)
                              (js_sort compare_keys (foldl byFrom_set [] xs))
              in case entries of
                   [] \<Rightarrow> [base]
                 | e # _ \<Rightarrow> if pt_from e \<noteq> PATTERN_SINCE_ALWAYS then base # entries else entries)
         | _ \<Rightarrow> [base])"

definition withPatternFrom :: "week_pattern_entry list \<Rightarrow> string \<Rightarrow> int list \<Rightarrow> week_pattern_entry list" where
  "withPatternFrom history from days =
     (let kept = filter (\<lambda>e. pt_from e < from) history
      in if kept \<noteq> [] \<and> pt_days (List.last kept) = days then kept
         else kept @ [\<lparr>pt_from = from, pt_days = days\<rparr>])"

text \<open>None is the refusal, with its message for people.\<close>

fun checkWeekPattern :: "json option \<Rightarrow> int list option" where
  "checkWeekPattern (Some (JArray days)) =
     (if list_ex (\<lambda>d. \<not> weekday_number d) days then None
      else Some (js_sort (-) (js_unique (map int_of days))))"
| "checkWeekPattern _ = None"

fun cleanDayLabel :: "json option \<Rightarrow> string option" where
  "cleanDayLabel (Some (JString label)) =
     (let t = collapse_spaces (trim label) in if t \<noteq> [] then Some (take LABEL_MAX t) else None)"
| "cleanDayLabel _ = None"

text \<open>\<open>patternOn(cal, date).includes(isoWeekdayOfKey(date))\<close>\<close>

definition in_pattern :: "org_calendar \<Rightarrow> string \<Rightarrow> bool" where
  "in_pattern cal date =
     (case isoWeekdayOfKey date of Some d \<Rightarrow> d \<in> set (patternOn cal date) | None \<Rightarrow> False)"

definition isWorkingDay :: "org_calendar \<Rightarrow> string \<Rightarrow> bool" where
  "isWorkingDay cal date =
     (case map_of (oc_overrides cal) date of Some ov \<Rightarrow> ov_isWorking ov | None \<Rightarrow> in_pattern cal date)"

definition dayLabel :: "org_calendar \<Rightarrow> string \<Rightarrow> string option" where
  "dayLabel cal date = (case map_of (oc_overrides cal) date of Some ov \<Rightarrow> ov_label ov | None \<Rightarrow> None)"

text \<open>The loop ends only when a date no longer starts with the month: None is a loop that does not.\<close>

partial_function (option) dates_loop :: "string \<Rightarrow> string list \<Rightarrow> string \<Rightarrow> string list option" where
  "dates_loop month out d =
     (if take (length month) d = month then dates_loop month (out @ [d]) (addDaysToKey d 1) else Some out)"

definition datesOfMonth :: "string \<Rightarrow> string list option" where
  "datesOfMonth month = dates_loop month [] (month @ ''-01'')"

record month_summary =
  ms_month :: string
  ms_workingDays :: nat
  ms_holidays :: "(string \<times> string option) list"

definition is_holiday :: "org_calendar \<Rightarrow> string \<Rightarrow> day_override \<Rightarrow> bool" where
  "is_holiday cal date ov =
     (\<not> ov_isWorking ov \<and> ((case ov_label ov of Some l \<Rightarrow> l \<noteq> [] | None \<Rightarrow> False) \<or> in_pattern cal date))"

fun summary_loop :: "org_calendar \<Rightarrow> string list \<Rightarrow> nat \<Rightarrow> (string \<times> string option) list \<Rightarrow> nat \<times> (string \<times> string option) list" where
  "summary_loop cal [] workingDays holidays = (workingDays, holidays)"
| "summary_loop cal (date # ds) workingDays holidays =
     summary_loop cal ds (if isWorkingDay cal date then workingDays + 1 else workingDays)
       (case map_of (oc_overrides cal) date of
          Some ov \<Rightarrow> if is_holiday cal date ov then holidays @ [(date, ov_label ov)] else holidays
        | None \<Rightarrow> holidays)"

definition monthSummary :: "org_calendar \<Rightarrow> string \<Rightarrow> month_summary option" where
  "monthSummary cal month =
     map_option
       (\<lambda>dates. (case summary_loop cal dates 0 [] of
          (n, hs) \<Rightarrow> \<lparr>ms_month = month, ms_workingDays = n, ms_holidays = hs\<rparr>))
       (datesOfMonth month)"

section \<open>The service\<close>

definition CALENDAR_CACHE_MS :: int where
  "CALENDAR_CACHE_MS = 30000"

record calendar_state =
  cal_settings :: settings_state
  cal_days :: "((string \<times> string) \<times> day_override) list"
  cal_locks :: "(string \<times> string) list"
  cal_cache :: "(string \<times> org_calendar \<times> int) list"
  cal_told :: "string list"

definition today_key :: "zone \<Rightarrow> int \<Rightarrow> string" where
  "today_key tz now = dateKeyInZone now tz"

definition days_of :: "string \<Rightarrow> calendar_state \<Rightarrow> (string \<times> day_override) list" where
  "days_of companyId s = map (\<lambda>((_, date), ov). (date, ov)) (filter (\<lambda>((c, _), _). c = companyId) (cal_days s))"

definition calendar_from :: "raw \<Rightarrow> (string \<times> day_override) list \<Rightarrow> string \<Rightarrow> org_calendar" where
  "calendar_from raw overrides today =
     (let patterns = patternHistoryFromStored (map_of raw ''weekPatternHistory'') (map_of raw ''weekPattern'')
      in \<lparr>oc_weekPattern = patternOn \<lparr>oc_weekPattern = [], oc_patterns = Some patterns, oc_overrides = overrides\<rparr> today,
          oc_patterns = Some patterns, oc_overrides = overrides\<rparr>)"

definition keep_calendar :: "string \<Rightarrow> org_calendar \<Rightarrow> int \<Rightarrow> calendar_state \<Rightarrow> calendar_state" where
  "keep_calendar companyId cal now s =
     s\<lparr>cal_cache := AList.update companyId (cal, now) (if length (cal_cache s) > 500 then [] else cal_cache s)\<rparr>"

definition load_calendar :: "string \<Rightarrow> zone \<Rightarrow> int \<Rightarrow> calendar_state \<Rightarrow> org_calendar \<times> calendar_state" where
  "load_calendar companyId tz now s =
     (case readRaw (Some companyId) now (cal_settings s) of
        (raw, st) \<Rightarrow>
          (let cal = calendar_from raw (days_of companyId s) (today_key tz now)
           in (cal, keep_calendar companyId cal now (s\<lparr>cal_settings := st\<rparr>))))"

definition forOrg :: "string option \<Rightarrow> zone \<Rightarrow> int \<Rightarrow> calendar_state \<Rightarrow> org_calendar \<times> calendar_state" where
  "forOrg companyId tz now s =
     (case companyId of
        None \<Rightarrow> (\<lparr>oc_weekPattern = DEFAULT_WEEK_PATTERN, oc_patterns = None, oc_overrides = []\<rparr>, s)
      | Some c \<Rightarrow>
          if c = [] then (\<lparr>oc_weekPattern = DEFAULT_WEEK_PATTERN, oc_patterns = None, oc_overrides = []\<rparr>, s)
          else (case map_of (cal_cache s) c of
                  Some (cal, t) \<Rightarrow> if now - t < CALENDAR_CACHE_MS then (cal, s) else load_calendar c tz now s
                | None \<Rightarrow> load_calendar c tz now s))"

definition isWorkingDay_service :: "string option \<Rightarrow> string \<Rightarrow> zone \<Rightarrow> int \<Rightarrow> calendar_state \<Rightarrow> bool \<times> calendar_state" where
  "isWorkingDay_service companyId date tz now s =
     (case forOrg companyId tz now s of (cal, s') \<Rightarrow> (isWorkingDay cal date, s'))"

definition dayInfo :: "string option \<Rightarrow> string \<Rightarrow> zone \<Rightarrow> int \<Rightarrow> calendar_state \<Rightarrow> (bool \<times> string option) \<times> calendar_state" where
  "dayInfo companyId date tz now s =
     (case forOrg companyId tz now s of (cal, s') \<Rightarrow> ((isWorkingDay cal date, dayLabel cal date), s'))"

record calendar_view =
  cv_year :: int
  cv_weekPattern :: "int list"
  cv_weekPatternHistory :: "week_pattern_entry list"
  cv_overrides :: "(string \<times> day_override) list"
  cv_months :: "month_summary list"

text \<open>None when a month's dates do not end.\<close>

definition calendar_view_of :: "string \<Rightarrow> int \<Rightarrow> zone \<Rightarrow> int \<Rightarrow> calendar_state \<Rightarrow> calendar_view option \<times> calendar_state" where
  "calendar_view_of companyId year tz now s =
     (case forOrg (Some companyId) tz now s of
        (cal, s') \<Rightarrow>
          (let prefix = show_int year;
               overrides = js_sort compare_keys (filter (\<lambda>(d, _). take (length prefix) d = prefix) (oc_overrides cal));
               months = map (\<lambda>i. monthSummary cal (prefix @ ''-'' @ pad2 (i + 1))) [0 ..< 12]
           in (if None \<in> set months then None
               else Some \<lparr>cv_year = year, cv_weekPattern = patternOn cal (today_key tz now),
                          cv_weekPatternHistory =
                            coalesce (oc_patterns cal) [\<lparr>pt_from = PATTERN_SINCE_ALWAYS, pt_days = oc_weekPattern cal\<rparr>],
                          cv_overrides = overrides, cv_months = map the months\<rparr>, s')))"

definition assertDate :: "string \<Rightarrow> unit result" where
  "assertDate date =
     (if \<not> isValidDateKey date then throw (ValidationError ''VALIDATION_ERROR'')
      else (case num_of (take 4 date) of
              Some year \<Rightarrow> if year < 2000 \<or> year > 2100 then throw (ValidationError ''VALIDATION_ERROR'') else return ()
            | None \<Rightarrow> return ()))"

definition changed_calendar :: "string \<Rightarrow> calendar_state \<Rightarrow> calendar_state" where
  "changed_calendar companyId s =
     s\<lparr>cal_cache := AList.delete companyId (cal_cache s), cal_told := cal_told s @ [companyId]\<rparr>"

definition entry_json :: "week_pattern_entry \<Rightarrow> json" where
  "entry_json e = JObject [(''from'', JString (pt_from e)), (''days'', JArray (map JInt (pt_days e)))]"

definition save_pattern :: "string \<Rightarrow> int list \<Rightarrow> string \<Rightarrow> int \<Rightarrow> calendar_state \<Rightarrow> calendar_state" where
  "save_pattern companyId days effective now s =
     (case readRaw (Some companyId) now (cal_settings s) of
        (raw, st) \<Rightarrow>
          (let history = withPatternFrom
                 (patternHistoryFromStored (map_of raw ''weekPatternHistory'') (map_of raw ''weekPattern'')) effective days
           in changed_calendar companyId
                (s\<lparr>cal_settings := snd (writeRaw companyId [(''weekPatternHistory'', JArray (map entry_json history))] now st)\<rparr>)))"

definition setWeekPattern ::
  "string \<Rightarrow> json option \<Rightarrow> string option \<Rightarrow> zone \<Rightarrow> int \<Rightarrow> calendar_state \<Rightarrow> week_pattern_entry result \<times> calendar_state" where
  "setWeekPattern companyId days from tz now s =
     (case checkWeekPattern days of
        None \<Rightarrow> (throw (ValidationError ''VALIDATION_ERROR''), s)
      | Some checked \<Rightarrow>
          (let effective = coalesce from (today_key tz now) in
           case (case from of Some f \<Rightarrow> assertDate f | None \<Rightarrow> return ()) of
             Inl e \<Rightarrow> (throw e, s)
           | Inr _ \<Rightarrow>
               if list_ex (\<lambda>(c, m). c = companyId \<and> take 7 effective \<le> m) (cal_locks s)
               then (throw (ConflictError ''MONTH_LOCKED''), s)
               else (return \<lparr>pt_from = effective, pt_days = checked\<rparr>,
                     save_pattern companyId checked effective now s)))"

definition assertCalendarOpen :: "string \<Rightarrow> string \<Rightarrow> calendar_state \<Rightarrow> unit result" where
  "assertCalendarOpen companyId date s =
     (if (companyId, take 7 date) \<in> set (cal_locks s) then throw (ConflictError ''MONTH_LOCKED'') else return ())"

definition setDay ::
  "string \<Rightarrow> string \<Rightarrow> bool \<Rightarrow> json option \<Rightarrow> calendar_state \<Rightarrow> (string \<times> day_override) result \<times> calendar_state" where
  "setDay companyId date working label s =
     (case and_then (assertDate date) (\<lambda>_. assertCalendarOpen companyId date s) of
        Inl e \<Rightarrow> (throw e, s)
      | Inr _ \<Rightarrow>
          (let ov = \<lparr>ov_isWorking = working, ov_label = cleanDayLabel label\<rparr>
           in (return (date, ov),
               changed_calendar companyId (s\<lparr>cal_days := AList.update (companyId, date) ov (cal_days s)\<rparr>))))"

definition clearDay ::
  "string \<Rightarrow> string \<Rightarrow> zone \<Rightarrow> int \<Rightarrow> calendar_state \<Rightarrow> (string \<times> bool) result \<times> calendar_state" where
  "clearDay companyId date tz now s =
     (case and_then (assertDate date) (\<lambda>_. assertCalendarOpen companyId date s) of
        Inl e \<Rightarrow> (throw e, s)
      | Inr _ \<Rightarrow>
          (case isWorkingDay_service (Some companyId) date tz now
                  (changed_calendar companyId (s\<lparr>cal_days := AList.delete (companyId, date) (cal_days s)\<rparr>)) of
             (working, s') \<Rightarrow> (return (date, working), s')))"


section \<open>Dates as strings\<close>

lemma take_less:
  fixes a b :: string
  shows "take n a < take n b \<Longrightarrow> a < b"
proof (induction n arbitrary: a b)
  case (Suc n)
  then show ?case by (cases a; cases b) auto
qed simp

lemma append_le: "a \<le> a @ (x :: string)"
  by (induction a) auto

lemma valid_key_after_always: "isValidDateKey s \<Longrightarrow> PATTERN_SINCE_ALWAYS < s"
proof -
  assume "isValidDateKey s"
  then obtain n where n: "is_four_two_two s" "100 \<le> utc_year n" "int (parse_digits (take 4 s)) = utc_year n"
    by (rule valid_key_parts)
  have "''0000'' < take 4 s"
    using n by (subst digits_less_iff) (auto simp: is_four_two_two_def is_digit_def parse_digits_def digit_val_def)
  then have "take 4 PATTERN_SINCE_ALWAYS < take 4 s" by (simp add: PATTERN_SINCE_ALWAYS_def)
  then show ?thesis by (rule take_less)
qed

section \<open>Week patterns and their history\<close>

definition days_ok :: "int list \<Rightarrow> bool" where
  "days_ok ds \<longleftrightarrow> sorted ds \<and> distinct ds \<and> set ds \<subseteq> {1..7}"

lemma minus_comparator: "comparator_ok ((-) :: int \<Rightarrow> int \<Rightarrow> int)"
  unfolding comparator_ok_def by linarith

lemma distinct_js_sort_days: "distinct xs \<Longrightarrow> distinct (js_sort cmp xs)"
  by (metis card_distinct distinct_card length_js_sort set_js_sort)

lemma js_unique_distinct: "distinct xs \<Longrightarrow> js_unique xs = xs"
proof (induction xs)
  case (Cons x xs)
  then have "filter (\<lambda>y. y \<noteq> x) xs = xs" by (auto intro!: filter_True)
  then show ?case using Cons by simp
qed simp

lemma sorted_days: "sorted (js_sort (-) (xs :: int list))"
  using sorted_js_sort [OF minus_comparator, of xs] by (simp add: sorted_wrt_iff_nth_less)

lemma days_ok_sort: "set xs \<subseteq> {1..7} \<Longrightarrow> days_ok (js_sort (-) (js_unique xs))"
  using sorted_days by (simp add: days_ok_def distinct_js_sort_days)

lemma weekday_number_int: "weekday_number j \<Longrightarrow> int_of j \<in> {1..7}"
  by (cases j) auto

lemma weekPatternFromStored_ok: "days_ok (weekPatternFromStored stored)"
proof (cases stored rule: weekPatternFromStored.cases)
  case (1 xs)
  then show ?thesis using weekday_number_int by (auto intro!: days_ok_sort simp del: atLeastAtMost_iff)
qed (auto simp: DEFAULT_WEEK_PATTERN_def days_ok_def)

lemma checkWeekPattern_Some:
  assumes "checkWeekPattern j = Some ds"
  shows "days_ok ds" "\<exists>xs. j = Some (JArray (map JInt xs)) \<and> set ds = set xs"
proof -
  obtain ys where j: "j = Some (JArray ys)" "list_all weekday_number ys" "ds = js_sort (-) (js_unique (map int_of ys))"
    using assms by (cases j rule: checkWeekPattern.cases) (auto simp: list_ex_iff list_all_iff split: if_splits)
  then show "days_ok ds" using weekday_number_int by (auto intro!: days_ok_sort simp: list_all_iff simp del: atLeastAtMost_iff)
  have "map JInt (map int_of ys) = ys"
  proof (rule map_idI [of ys "\<lambda>y. JInt (int_of y)", unfolded comp_def, THEN trans [rotated]])
    show "JInt (int_of y) = y" if "y \<in> set ys" for y
      using j(2) that by (cases y) (auto simp: list_all_iff)
  qed (simp add: comp_def)
  then show "\<exists>xs. j = Some (JArray (map JInt xs)) \<and> set ds = set xs"
    using j by (intro exI [of _ "map int_of ys"]) simp
qed

lemma stored_days: "days_ok ds \<Longrightarrow> weekPatternFromStored (Some (JArray (map JInt ds))) = ds"
proof -
  assume ds: "days_ok ds"
  then have "filter weekday_number (map JInt ds) = map JInt ds"
    by (intro filter_True) (auto simp: days_ok_def)
  moreover have "js_sort (-) ds = ds"
    using ds by (intro js_sort_sorted_id) (simp add: days_ok_def)
  ultimately show ?thesis using ds by (simp add: comp_def days_ok_def js_unique_distinct)
qed

definition week_history_ok :: "week_pattern_entry list \<Rightarrow> bool" where
  "week_history_ok h \<longleftrightarrow> h \<noteq> [] \<and> pt_from (hd h) = PATTERN_SINCE_ALWAYS \<and> sorted_wrt (<) (map pt_from h)
     \<and> (\<forall>e \<in> set h. days_ok (pt_days e) \<and> (pt_from e = PATTERN_SINCE_ALWAYS \<or> isValidDateKey (pt_from e)))"

definition pairs_ok :: "(string \<times> int list) list \<Rightarrow> bool" where
  "pairs_ok ps \<longleftrightarrow> distinct (map fst ps)
     \<and> (\<forall>(f, ds) \<in> set ps. days_ok ds \<and> (f = PATTERN_SINCE_ALWAYS \<or> isValidDateKey f))"

lemma set_alist_update: "set (AList.update k v al) \<subseteq> insert (k, v) (set al)"
  by (induction al) auto

lemma pairs_ok_update:
  assumes "pairs_ok ps" "days_ok ds" "f = PATTERN_SINCE_ALWAYS \<or> isValidDateKey f"
  shows "pairs_ok (AList.update f ds ps)"
  using assms set_alist_update [of f ds ps] by (auto simp: pairs_ok_def distinct_update)

lemma byFrom_set_ok: "pairs_ok ps \<Longrightarrow> pairs_ok (byFrom_set ps j)"
  using weekPatternFromStored_ok
  by (induction ps j rule: byFrom_set.induct)
     (auto intro: pairs_ok_update simp del: weekPatternFromStored.simps split: option.split json.split)

lemma byFrom_all_ok: "pairs_ok ps \<Longrightarrow> pairs_ok (foldl byFrom_set ps js)"
  by (induction js arbitrary: ps) (simp_all add: byFrom_set_ok)

lemma keys_comparator: "comparator_ok (compare_keys :: string \<times> 'a \<Rightarrow> _)"
proof -
  have "compare_keys x y \<le> 0 \<longleftrightarrow> fst x \<le> fst y" for x y :: "string \<times> 'a"
    by (cases x; cases y) auto
  then show ?thesis by (simp add: comparator_ok_def linear) (meson order_trans)
qed

lemma strictly_sorted_keys:
  assumes "distinct (map fst (xs :: (string \<times> 'a) list))"
  shows "sorted_wrt (<) (map fst (js_sort compare_keys xs))"
proof -
  have le: "compare_keys x y \<le> 0 \<longleftrightarrow> fst x \<le> fst y" for x y :: "string \<times> 'a"
    by (cases x; cases y) auto
  have "sorted (map fst (js_sort compare_keys xs))"
    using sorted_js_sort [OF keys_comparator, of xs] by (simp add: le sorted_wrt_map)
  moreover have "distinct (map fst (js_sort compare_keys xs))"
    using assms by (simp add: distinct_map distinct_js_sort_days)
  ultimately show ?thesis by (simp add: strict_sorted_iff)
qed

lemma patternHistoryFromStored_ok: "week_history_ok (patternHistoryFromStored history legacy)"
proof -
  let ?base = "\<lparr>pt_from = PATTERN_SINCE_ALWAYS, pt_days = weekPatternFromStored legacy\<rparr>"
  have base: "week_history_ok [?base]" by (simp add: week_history_ok_def weekPatternFromStored_ok)
  show ?thesis
  proof (cases "\<exists>xs. history = Some (JArray xs)")
    case False
    then have "patternHistoryFromStored history legacy = [?base]"
      by (auto simp: patternHistoryFromStored_def Let_def split: option.split json.split)
    then show ?thesis using base by simp
  next
    case True
    then obtain xs where xs: "history = Some (JArray xs)" by blast
    let ?ps = "foldl byFrom_set [] xs"
    let ?es = "map (\<lambda>(f, ds). \<lparr>pt_from = f, pt_days = ds\<rparr>) (js_sort compare_keys ?ps)"
    have ps: "pairs_ok ?ps" by (rule byFrom_all_ok) (simp add: pairs_ok_def)
    have m: "map pt_from ?es = map fst (js_sort compare_keys ?ps)" by (simp add: case_prod_beta)
    have sorted: "sorted_wrt (<) (map pt_from ?es)"
      unfolding m using ps by (intro strictly_sorted_keys) (simp add: pairs_ok_def)
    have each: "days_ok (pt_days e) \<and> (pt_from e = PATTERN_SINCE_ALWAYS \<or> isValidDateKey (pt_from e))" if "e \<in> set ?es" for e
      using ps that by (auto simp: pairs_ok_def)
    have p: "patternHistoryFromStored history legacy =
        (case ?es of [] \<Rightarrow> [?base] | e # _ \<Rightarrow> if pt_from e \<noteq> PATTERN_SINCE_ALWAYS then ?base # ?es else ?es)"
      by (simp add: patternHistoryFromStored_def xs Let_def)
    show ?thesis
    proof (cases ?es)
      case Nil
      then show ?thesis unfolding p using base by (simp only: list.case)
    next
      case (Cons e es)
      show ?thesis
      proof (cases "pt_from e = PATTERN_SINCE_ALWAYS")
        case True
        then show ?thesis using sorted each unfolding p Cons by (simp add: week_history_ok_def)
      next
        case False
        then have "PATTERN_SINCE_ALWAYS < pt_from e" using each Cons valid_key_after_always by auto
        then have "\<forall>x \<in> set (e # es). PATTERN_SINCE_ALWAYS < pt_from x"
          using sorted unfolding Cons by (auto intro: less_trans)
        then show ?thesis using False sorted each unfolding p Cons
          by (simp add: week_history_ok_def weekPatternFromStored_ok)
      qed
    qed
  qed
qed


text \<open>What is written is what is read.\<close>

definition entry_pair :: "week_pattern_entry \<Rightarrow> string \<times> int list" where
  "entry_pair e = (pt_from e, pt_days e)"

lemma byFrom_entry:
  assumes "days_ok (pt_days e)" "pt_from e = PATTERN_SINCE_ALWAYS \<or> isValidDateKey (pt_from e)"
  shows "byFrom_set ps (entry_json e) = AList.update (pt_from e) (pt_days e) ps"
  using assms stored_days [OF assms(1)] by (auto simp: entry_json_def simp del: weekPatternFromStored.simps)

lemma update_fresh_key: "k \<notin> fst ` set al \<Longrightarrow> AList.update k v al = al @ [(k, v)]"
  by (induction al) auto

lemma byFrom_entries:
  assumes "\<forall>e \<in> set h. days_ok (pt_days e) \<and> (pt_from e = PATTERN_SINCE_ALWAYS \<or> isValidDateKey (pt_from e))"
    "distinct (map fst ps @ map pt_from h)"
  shows "foldl byFrom_set ps (map entry_json h) = ps @ map entry_pair h"
  using assms
proof (induction h arbitrary: ps)
  case (Cons e h)
  have "byFrom_set ps (entry_json e) = ps @ [entry_pair e]"
    using Cons.prems byFrom_entry [of e ps] update_fresh_key [of "pt_from e" ps "pt_days e"]
    by (auto simp: entry_pair_def)
  then show ?case using Cons by (simp add: entry_pair_def)
qed simp

lemma stored_history_read_back:
  assumes "week_history_ok h"
  shows "patternHistoryFromStored (Some (JArray (map entry_json h))) legacy = h"
proof -
  have d: "sorted_wrt (<) (map pt_from h)" "h \<noteq> []" "pt_from (hd h) = PATTERN_SINCE_ALWAYS"
    using assms by (simp_all add: week_history_ok_def)
  have "foldl byFrom_set [] (map entry_json h) = map entry_pair h"
    using assms byFrom_entries [of h "[]"] by (simp add: week_history_ok_def strict_sorted_iff)
  moreover have "js_sort compare_keys (map entry_pair h) = map entry_pair h"
  proof (rule js_sort_sorted_id)
    show "sorted_wrt (\<lambda>a b. compare_keys a b \<le> 0) (map entry_pair h)"
      using d(1) by (auto simp: sorted_wrt_map entry_pair_def elim!: sorted_wrt_mono_rel [rotated])
  qed
  moreover have "map (\<lambda>(f, ds). \<lparr>pt_from = f, pt_days = ds\<rparr>) (map entry_pair h) = h"
    by (simp add: entry_pair_def comp_def map_idI)
  ultimately have p: "map (\<lambda>(f, ds). \<lparr>pt_from = f, pt_days = ds\<rparr>) (js_sort compare_keys (foldl byFrom_set [] (map entry_json h))) = h"
    by simp
  show ?thesis
    using d unfolding patternHistoryFromStored_def Let_def option.case json.case p by (cases h) auto
qed

section \<open>Which pattern holds on a date\<close>

definition entries_until :: "string \<Rightarrow> week_pattern_entry list \<Rightarrow> week_pattern_entry list" where
  "entries_until d h = takeWhile (\<lambda>e. pt_from e \<le> d) h"

lemma last_pattern_until:
  "last_pattern h d acc = (if entries_until d h = [] then acc else Some (pt_days (List.last (entries_until d h))))"
  by (induction h d acc rule: last_pattern.induct) (auto simp: entries_until_def)

definition days_on :: "week_pattern_entry list \<Rightarrow> string \<Rightarrow> int list" where
  "days_on h d = (if entries_until d h = [] then pt_days (hd h) else pt_days (List.last (entries_until d h)))"

lemma patternOn_history: "oc_patterns cal = Some h \<Longrightarrow> h \<noteq> [] \<Longrightarrow> patternOn cal d = days_on h d"
  by (cases h) (simp_all add: patternOn_def days_on_def last_pattern_until del: last_pattern.simps)

lemma days_on_cong: "entries_until d h = entries_until d h' \<Longrightarrow> hd h = hd h' \<Longrightarrow> days_on h d = days_on h' d"
  by (simp add: days_on_def)

lemma filter_sorted_takeWhile:
  "sorted_wrt (<) (map pt_from h) \<Longrightarrow> filter (\<lambda>e. pt_from e < f) h = takeWhile (\<lambda>e. pt_from e < f) h"
proof (induction h)
  case (Cons e h)
  show ?case
  proof (cases "pt_from e < f")
    case False
    then have "filter (\<lambda>x. pt_from x < f) h = []"
      using Cons.prems by (auto simp: filter_empty_conv intro: less_trans)
    then show ?thesis using False by simp
  qed (use Cons in simp)
qed simp

lemma kept_hd:
  assumes h: "week_history_ok h" and f: "PATTERN_SINCE_ALWAYS < f"
  shows "filter (\<lambda>e. pt_from e < f) h \<noteq> []" "hd (filter (\<lambda>e. pt_from e < f) h) = hd h"
  using h f by (cases h; simp add: week_history_ok_def)+

lemma withPatternFrom_hd:
  assumes "week_history_ok h" "PATTERN_SINCE_ALWAYS < f"
  shows "hd (withPatternFrom h f ds) = hd h"
  using kept_hd [OF assms] by (simp add: withPatternFrom_def Let_def)

lemma withPatternFrom_ok:
  assumes h: "week_history_ok h" and f: "PATTERN_SINCE_ALWAYS < f" "isValidDateKey f" and ds: "days_ok ds"
  shows "week_history_ok (withPatternFrom h f ds)"
proof -
  have "sorted_wrt (<) (map pt_from h)" using h by (simp add: week_history_ok_def)
  then have "sorted_wrt (<) (map pt_from (filter (\<lambda>e. pt_from e < f) h))"
    by (simp add: sorted_wrt_map sorted_wrt_filter)
  then have "sorted_wrt (<) (map pt_from (withPatternFrom h f ds))"
    by (auto simp: withPatternFrom_def Let_def sorted_wrt_append)
  moreover have "withPatternFrom h f ds \<noteq> []" using kept_hd [OF h f(1)] by (simp add: withPatternFrom_def Let_def)
  ultimately show ?thesis
    using h f ds withPatternFrom_hd [OF h f(1), of ds] by (auto simp: week_history_ok_def withPatternFrom_def Let_def)
qed

lemma days_before:
  assumes h: "week_history_ok h" and f: "PATTERN_SINCE_ALWAYS < f" and d: "d < f"
  shows "days_on (withPatternFrom h f ds) d = days_on h d"
proof (rule days_on_cong [OF _ withPatternFrom_hd [OF h f]])
  have s: "sorted_wrt (<) (map pt_from h)" using h by (simp add: week_history_ok_def)
  have less: "pt_from e < f \<and> pt_from e \<le> d \<longleftrightarrow> pt_from e \<le> d" for e using d by auto
  have "entries_until d (filter (\<lambda>e. pt_from e < f) h) = entries_until d h"
    unfolding entries_until_def filter_sorted_takeWhile [OF s] takeWhile_takeWhile less ..
  moreover have "entries_until d (k @ [\<lparr>pt_from = f, pt_days = ds\<rparr>]) = entries_until d k" for k
    using d by (induction k) (auto simp: entries_until_def)
  ultimately show "entries_until d (withPatternFrom h f ds) = entries_until d h"
    by (simp add: withPatternFrom_def Let_def)
qed

lemma days_from:
  assumes h: "week_history_ok h" and f: "PATTERN_SINCE_ALWAYS < f" and d: "f \<le> d"
  shows "days_on (withPatternFrom h f ds) d = ds"
proof -
  have "entries_until d (withPatternFrom h f ds) = withPatternFrom h f ds"
    using d by (auto simp: entries_until_def takeWhile_eq_all_conv withPatternFrom_def Let_def)
  then show ?thesis using kept_hd [OF h f] by (simp add: days_on_def withPatternFrom_def Let_def)
qed


section \<open>What the rows say\<close>

definition stored_history :: "calendar_state \<Rightarrow> string \<Rightarrow> week_pattern_entry list" where
  "stored_history s c =
     (let raw = stored_raw (set_rows (cal_settings s)) (orgSettingsKey c)
      in patternHistoryFromStored (map_of raw ''weekPatternHistory'') (map_of raw ''weekPattern''))"

text \<open>The caches hold what the rows say.\<close>

definition calendar_ok :: "calendar_state \<Rightarrow> bool" where
  "calendar_ok s \<longleftrightarrow> cache_ok (cal_settings s)
     \<and> (\<forall>c cal t. map_of (cal_cache s) c = Some (cal, t) \<longrightarrow>
           oc_patterns cal = Some (stored_history s c)
           \<and> (\<forall>d. map_of (oc_overrides cal) d = map_of (cal_days s) (c, d)))"

lemma stored_history_ok: "week_history_ok (stored_history s c)"
  by (simp add: stored_history_def Let_def patternHistoryFromStored_ok)

lemma days_of_lookup: "map_of (days_of c s) d = map_of (cal_days s) (c, d)"
  by (induction "cal_days s" arbitrary: s) (auto simp: days_of_def intro: list.induct)

lemma calendar_from_parts [simp]:
  "oc_patterns (calendar_from raw ovs today) = Some (patternHistoryFromStored (map_of raw ''weekPatternHistory'') (map_of raw ''weekPattern''))"
  "oc_overrides (calendar_from raw ovs today) = ovs"
  by (simp_all add: calendar_from_def Let_def)

definition shows_rows :: "org_calendar \<Rightarrow> calendar_state \<Rightarrow> string \<Rightarrow> bool" where
  "shows_rows cal s c \<longleftrightarrow> oc_patterns cal = Some (stored_history s c)
     \<and> (\<forall>d. map_of (oc_overrides cal) d = map_of (cal_days s) (c, d))"

definition same_rows :: "calendar_state \<Rightarrow> calendar_state \<Rightarrow> bool" where
  "same_rows s s' \<longleftrightarrow> set_rows (cal_settings s') = set_rows (cal_settings s) \<and> cal_days s' = cal_days s
     \<and> cal_locks s' = cal_locks s"

lemma same_rows_history: "same_rows s s' \<Longrightarrow> stored_history s' c = stored_history s c"
  by (simp add: same_rows_def stored_history_def)

lemma load_calendar_rows:
  assumes "calendar_ok s" "c \<noteq> []" "load_calendar c tz now s = (cal, s')"
  shows "shows_rows cal s c \<and> calendar_ok s' \<and> same_rows s s'"
proof -
  obtain raw st where r: "readRaw (Some c) now (cal_settings s) = (raw, st)" by (cases "readRaw (Some c) now (cal_settings s)")
  have ok: "cache_ok (cal_settings s)" using assms(1) by (simp add: calendar_ok_def)
  have raw: "raw = stored_raw (set_rows (cal_settings s)) (orgSettingsKey c)"
    using readRaw_value [OF ok, of "Some c" now] r assms(2) by simp
  have st: "set_rows st = set_rows (cal_settings s)" "cache_ok st"
    using readRaw_keeps(1) [of "Some c" now "cal_settings s"] readRaw_keeps(2) [OF ok, of "Some c" now] r by simp_all
  have cal: "cal = calendar_from raw (days_of c s) (today_key tz now)"
    and s': "s' = keep_calendar c cal now (s\<lparr>cal_settings := st\<rparr>)"
    using assms(3) r by (auto simp: load_calendar_def Let_def)
  have sh: "shows_rows cal s c"
    by (simp add: shows_rows_def cal raw stored_history_def Let_def days_of_lookup)
  have same: "same_rows s s'" using st by (simp add: s' same_rows_def keep_calendar_def)
  have "calendar_ok s'"
    using assms(1) sh st same_rows_history [OF same]
    by (auto simp: calendar_ok_def shows_rows_def s' keep_calendar_def update_conv' split: if_splits)
  then show ?thesis using sh same by blast
qed

lemma forOrg_rows:
  assumes "calendar_ok s" "c \<noteq> []" "forOrg (Some c) tz now s = (cal, s')"
  shows "shows_rows cal s c \<and> calendar_ok s' \<and> same_rows s s'"
proof (cases "map_of (cal_cache s) c")
  case None
  then show ?thesis using assms by (simp add: forOrg_def load_calendar_rows)
next
  case (Some hit)
  then show ?thesis
    using assms load_calendar_rows [OF assms(1,2)]
    by (cases hit) (auto simp: forOrg_def calendar_ok_def shows_rows_def same_rows_def split: if_splits)
qed

lemma forOrg_keeps: "calendar_ok s \<Longrightarrow> forOrg c tz now s = (cal, s') \<Longrightarrow> calendar_ok s' \<and> same_rows s s'"
proof (cases c)
  case None
  then show "calendar_ok s \<Longrightarrow> forOrg c tz now s = (cal, s') \<Longrightarrow> calendar_ok s' \<and> same_rows s s'"
    by (auto simp: forOrg_def same_rows_def)
next
  case (Some x)
  then show "calendar_ok s \<Longrightarrow> forOrg c tz now s = (cal, s') \<Longrightarrow> calendar_ok s' \<and> same_rows s s'"
    using forOrg_rows [of s x tz now cal s'] by (cases "x = []") (auto simp: forOrg_def same_rows_def)
qed

lemma shows_rows_days:
  assumes "shows_rows cal s c"
  shows "isWorkingDay cal d = (case map_of (cal_days s) (c, d) of
           Some ov \<Rightarrow> ov_isWorking ov
         | None \<Rightarrow> (case isoWeekdayOfKey d of Some w \<Rightarrow> w \<in> set (days_on (stored_history s c) d) | None \<Rightarrow> False))"
    and "dayLabel cal d = (case map_of (cal_days s) (c, d) of Some ov \<Rightarrow> ov_label ov | None \<Rightarrow> None)"
    and "patternOn cal d = days_on (stored_history s c) d"
proof -
  show p: "patternOn cal d = days_on (stored_history s c) d"
    using assms stored_history_ok [of s c] by (auto simp: shows_rows_def week_history_ok_def intro: patternOn_history)
  show "isWorkingDay cal d = (case map_of (cal_days s) (c, d) of
           Some ov \<Rightarrow> ov_isWorking ov
         | None \<Rightarrow> (case isoWeekdayOfKey d of Some w \<Rightarrow> w \<in> set (days_on (stored_history s c) d) | None \<Rightarrow> False))"
    using assms by (simp add: isWorkingDay_def in_pattern_def p shows_rows_def split: option.split)
  show "dayLabel cal d = (case map_of (cal_days s) (c, d) of Some ov \<Rightarrow> ov_label ov | None \<Rightarrow> None)"
    using assms by (simp add: dayLabel_def shows_rows_def)
qed

text \<open>A saved week.\<close>

lemma save_pattern_frame:
  assumes ok: "calendar_ok s" and s': "s' = save_pattern c ds f now s"
  shows "calendar_ok s' \<and> cal_days s' = cal_days s \<and> cal_locks s' = cal_locks s
    \<and> (\<forall>c'. c' \<noteq> c \<longrightarrow> stored_history s' c' = stored_history s c')"
proof -
  obtain raw st where r: "readRaw (Some c) now (cal_settings s) = (raw, st)" by (cases "readRaw (Some c) now (cal_settings s)")
  have cok: "cache_ok (cal_settings s)" using ok by (simp add: calendar_ok_def)
  have st: "set_rows st = set_rows (cal_settings s)" "cache_ok st"
    using readRaw_keeps(1) [of "Some c" now "cal_settings s"] readRaw_keeps(2) [OF cok, of "Some c" now] r by simp_all
  obtain v where e: "s' = changed_calendar c (s\<lparr>cal_settings := snd (writeRaw c v now st)\<rparr>)"
    using r by (simp add: s' save_pattern_def Let_def)
  have others: "stored_history s' c' = stored_history s c'" if "c' \<noteq> c" for c'
    using that st by (simp add: stored_history_def e changed_calendar_def writeRaw_keeps(2))
  have rows: "cal_days s' = cal_days s" "cal_locks s' = cal_locks s" by (simp_all add: e changed_calendar_def)
  have cc: "map_of (cal_cache s') k = (if k = c then None else map_of (cal_cache s) k)" for k
    by (simp add: e changed_calendar_def delete_conv')
  have "cache_ok (cal_settings s')" using writeRaw_keeps(1) [OF st(2)] by (simp add: e changed_calendar_def)
  then have "calendar_ok s'"
    using ok others by (auto simp: calendar_ok_def rows cc split: if_splits)
  then show ?thesis using rows others by auto
qed

lemma save_pattern_history:
  assumes ok: "calendar_ok s" and c: "c \<noteq> []"
    and f: "isValidDateKey f" and ds: "days_ok ds" and s': "s' = save_pattern c ds f now s"
  shows "stored_history s' c = withPatternFrom (stored_history s c) f ds"
proof -
  obtain raw st where r: "readRaw (Some c) now (cal_settings s) = (raw, st)" by (cases "readRaw (Some c) now (cal_settings s)")
  have cok: "cache_ok (cal_settings s)" using ok by (simp add: calendar_ok_def)
  have raw: "raw = stored_raw (set_rows (cal_settings s)) (orgSettingsKey c)"
    using readRaw_value [OF cok, of "Some c" now] r c by simp
  have st: "set_rows st = set_rows (cal_settings s)"
    using readRaw_keeps(1) [of "Some c" now "cal_settings s"] r by simp
  let ?h = "withPatternFrom (stored_history s c) f ds"
  have h: "week_history_ok ?h"
    by (rule withPatternFrom_ok [OF stored_history_ok valid_key_after_always [OF f] f ds])
  have e: "s' = changed_calendar c (s\<lparr>cal_settings :=
      snd (writeRaw c [(''weekPatternHistory'', JArray (map entry_json ?h))] now st)\<rparr>)"
    using r by (simp add: s' save_pattern_def stored_history_def raw Let_def)
  have own: "stored_raw (set_rows (cal_settings s')) (orgSettingsKey c)
      = spread raw [(''weekPatternHistory'', JArray (map entry_json ?h))]"
    by (simp add: e changed_calendar_def writeRaw_def Let_def write_row_rows st raw)
  show ?thesis
    using stored_history_read_back [OF h] by (simp add: stored_history_def [of s'] own Let_def map_of_spread del: spread.simps)
qed

text \<open>What each edit does to the rows.\<close>

lemma assertDate_valid: "assertDate d = return () \<Longrightarrow> isValidDateKey d"
  by (simp add: assertDate_def split: if_splits)

lemma setWeekPattern_cases:
  assumes "setWeekPattern c days start tz now s = (r, s')" "isValidDateKey (today_key tz now)"
  obtains "s' = s" "\<exists>e. r = throw e"
  | ds f where "checkWeekPattern days = Some ds" "f = coalesce start (today_key tz now)" "isValidDateKey f"
      "\<forall>m. (c, m) \<in> set (cal_locks s) \<longrightarrow> m < take 7 f"
      "r = return \<lparr>pt_from = f, pt_days = ds\<rparr>" "s' = save_pattern c ds f now s"
proof (cases "\<exists>e. r = throw e")
  case True
  then show thesis using that(1) assms(1)
    by (auto simp: setWeekPattern_def Let_def split: option.splits sum.splits if_splits)
next
  case False
  then obtain ds where ds: "checkWeekPattern days = Some ds"
    using assms(1) by (auto simp: setWeekPattern_def split: option.splits)
  let ?f = "coalesce start (today_key tz now)"
  have ok: "(case start of Some f \<Rightarrow> assertDate f | None \<Rightarrow> return ()) = return ()"
    using assms(1) False ds by (cases "case start of Some f \<Rightarrow> assertDate f | None \<Rightarrow> return ()") (auto simp: setWeekPattern_def Let_def)
  then have f: "isValidDateKey ?f" using assms(2) by (cases start) (simp_all add: assertDate_valid)
  have l: "\<not> list_ex (\<lambda>(c', m). c' = c \<and> take 7 ?f \<le> m) (cal_locks s)"
    using assms(1) False ds ok by (auto simp: setWeekPattern_def Let_def split: if_splits)
  then have "\<forall>m. (c, m) \<in> set (cal_locks s) \<longrightarrow> m < take 7 ?f" by (auto simp: list_ex_iff not_le)
  then show thesis using that(2) [OF ds refl f] assms(1) ds ok l by (simp add: setWeekPattern_def Let_def)
qed

lemma changed_days_ok:
  assumes "calendar_ok s" "\<forall>c' d. c' \<noteq> c \<longrightarrow> map_of ds (c', d) = map_of (cal_days s) (c', d)"
  shows "calendar_ok (changed_calendar c (s\<lparr>cal_days := ds\<rparr>))"
    "stored_history (changed_calendar c (s\<lparr>cal_days := ds\<rparr>)) c'' = stored_history s c''"
  using assms by (auto simp: calendar_ok_def changed_calendar_def delete_conv' stored_history_def)

lemma setDay_cases:
  assumes "setDay c d w l s = (r, s')"
  obtains "s' = s" "\<exists>e. r = throw e"
  | ov where "isValidDateKey d" "(c, take 7 d) \<notin> set (cal_locks s)" "r = return (d, ov)"
      "s' = changed_calendar c (s\<lparr>cal_days := AList.update (c, d) ov (cal_days s)\<rparr>)"
proof (cases "and_then (assertDate d) (\<lambda>_. assertCalendarOpen c d s)")
  case (Inl e)
  then show thesis using assms that(1) by (auto simp: setDay_def)
next
  case (Inr u)
  then have "assertDate d = return ()" "(c, take 7 d) \<notin> set (cal_locks s)"
    by (auto simp: assertCalendarOpen_def split: if_splits)
  then show thesis using that(2) assms Inr by (auto simp: setDay_def Let_def assertDate_valid)
qed

lemma clearDay_cases:
  assumes "clearDay c d tz now s = (r, s')" "calendar_ok s"
  obtains "s' = s" "\<exists>e. r = throw e"
  | s1 where "(c, take 7 d) \<notin> set (cal_locks s)"
      "s1 = changed_calendar c (s\<lparr>cal_days := AList.delete (c, d) (cal_days s)\<rparr>)"
      "calendar_ok s1" "calendar_ok s'" "same_rows s1 s'"
proof (cases "and_then (assertDate d) (\<lambda>_. assertCalendarOpen c d s)")
  case (Inl e)
  then show thesis using assms that(1) by (auto simp: clearDay_def)
next
  case (Inr u)
  then have open_month: "(c, take 7 d) \<notin> set (cal_locks s)"
    by (auto simp: assertCalendarOpen_def split: if_splits)
  let ?s = "changed_calendar c (s\<lparr>cal_days := AList.delete (c, d) (cal_days s)\<rparr>)"
  have ok: "calendar_ok ?s" using assms(2) by (intro changed_days_ok) (simp_all add: delete_conv')
  obtain cal s'' where f: "forOrg (Some c) tz now ?s = (cal, s'')" by (cases "forOrg (Some c) tz now ?s")
  have "s' = s''" using assms(1) Inr f by (auto simp: clearDay_def isWorkingDay_service_def split: prod.splits)
  then show thesis using that(2) [OF open_month refl ok] forOrg_keeps [OF ok f] by simp
qed

datatype calendar_op =
    ReadDay "string option" string | SetWeek string "json option" "string option"
  | SetDay string string bool "json option" | ClearDay string string | LockMonth string string

fun calendar_step :: "zone \<Rightarrow> int \<Rightarrow> calendar_op \<Rightarrow> calendar_state \<Rightarrow> calendar_state" where
  "calendar_step tz now (ReadDay c d) s = snd (dayInfo c d tz now s)"
| "calendar_step tz now (SetWeek c days from) s = snd (setWeekPattern c days from tz now s)"
| "calendar_step tz now (SetDay c d w l) s = snd (setDay c d w l s)"
| "calendar_step tz now (ClearDay c d) s = snd (clearDay c d tz now s)"
| "calendar_step tz now (LockMonth c m) s = s\<lparr>cal_locks := (c, m) # cal_locks s\<rparr>"

fun calendar_run :: "zone \<Rightarrow> (int \<times> calendar_op) list \<Rightarrow> calendar_state \<Rightarrow> calendar_state" where
  "calendar_run tz [] s = s"
| "calendar_run tz ((now, x) # ops) s = calendar_run tz ops (calendar_step tz now x s)"

definition fresh_calendar ::
  "(string \<Rightarrow> json option) \<Rightarrow> ((string \<times> string) \<times> day_override) list \<Rightarrow> (string \<times> string) list \<Rightarrow> calendar_state" where
  "fresh_calendar rows days locks =
     \<lparr>cal_settings = fresh_service rows (\<lambda>_. None), cal_days = days, cal_locks = locks, cal_cache = [], cal_told = []\<rparr>"

lemma fresh_calendar_ok: "calendar_ok (fresh_calendar rows days locks)"
  by (simp add: fresh_calendar_def calendar_ok_def fresh_service_def cache_ok_def)


section \<open>Locked months\<close>

definition day_value :: "calendar_state \<Rightarrow> string \<Rightarrow> string \<Rightarrow> day_override option \<times> int list" where
  "day_value s c d = (map_of (cal_days s) (c, d), days_on (stored_history s c) d)"

lemma dayInfo_value:
  assumes "calendar_ok s" "c \<noteq> []"
  shows "fst (dayInfo (Some c) d tz now s) =
    (case day_value s c d of (ov, days) \<Rightarrow>
       ((case ov of Some ov \<Rightarrow> ov_isWorking ov
         | None \<Rightarrow> (case isoWeekdayOfKey d of Some w \<Rightarrow> w \<in> set days | None \<Rightarrow> False)),
        (case ov of Some ov \<Rightarrow> ov_label ov | None \<Rightarrow> None)))"
proof -
  obtain cal s' where f: "forOrg (Some c) tz now s = (cal, s')" by (cases "forOrg (Some c) tz now s")
  then have "shows_rows cal s c" using forOrg_rows [OF assms f] by simp
  then show ?thesis using f shows_rows_days [of cal s c d] by (simp add: dayInfo_def day_value_def)
qed

lemma same_rows_value: "same_rows s s' \<Longrightarrow> day_value s' c d = day_value s c d"
  by (simp add: day_value_def same_rows_history) (simp add: same_rows_def)

lemma other_day_value:
  assumes "calendar_ok s" "\<forall>k. k \<noteq> (c', d') \<longrightarrow> map_of ds k = map_of (cal_days s) k" "(c, d) \<noteq> (c', d')"
  shows "day_value (changed_calendar c' (s\<lparr>cal_days := ds\<rparr>)) c d = day_value s c d"
proof -
  have "\<forall>c'' d. c'' \<noteq> c' \<longrightarrow> map_of ds (c'', d) = map_of (cal_days s) (c'', d)" using assms(2) by simp
  from changed_days_ok(2) [OF assms(1) this] show ?thesis
    using assms(2,3) by (auto simp: day_value_def changed_calendar_def)
qed

lemma locked_step:
  assumes ok: "calendar_ok s" and lock: "(c, take 7 d) \<in> set (cal_locks s)" and c: "c \<noteq> []"
    and today: "isValidDateKey (today_key tz now)" and s': "s' = calendar_step tz now x s"
  shows "calendar_ok s' \<and> (c, take 7 d) \<in> set (cal_locks s') \<and> day_value s' c d = day_value s c d"
proof (cases x)
  case (ReadDay c' d')
  obtain cal s1 where f: "forOrg c' tz now s = (cal, s1)" by (cases "forOrg c' tz now s")
  have "s' = s1" using f by (simp add: s' ReadDay dayInfo_def)
  then show ?thesis using forOrg_keeps [OF ok f] same_rows_value [of s s1] lock by (simp add: same_rows_def)
next
  case (SetWeek c' days start)
  obtain r s1 where w: "setWeekPattern c' days start tz now s = (r, s1)" by (cases "setWeekPattern c' days start tz now s")
  then have e: "s' = s1" by (simp add: s' SetWeek)
  from w today show ?thesis
  proof (cases rule: setWeekPattern_cases)
    case 1
    then show ?thesis using ok lock e by simp
  next
    case (2 ds f)
    note fr = save_pattern_frame [OF ok 2(6)]
    have "days_on (stored_history s1 c) d = days_on (stored_history s c) d"
    proof (cases "c' = c")
      case True
      then have "take 7 d < take 7 f" using 2(4) lock by blast
      then have "d < f" by (rule take_less)
      moreover have "stored_history s1 c' = withPatternFrom (stored_history s c') f ds"
        using 2 c True checkWeekPattern_Some(1) by (intro save_pattern_history [OF ok]) auto
      ultimately show ?thesis
        using days_before [OF stored_history_ok valid_key_after_always [OF 2(3)]] True by simp
    next
      case False
      then show ?thesis using fr by simp
    qed
    then show ?thesis using fr lock by (simp add: e day_value_def)
  qed
next
  case (SetDay c' d' w l)
  obtain r s1 where w: "setDay c' d' w l s = (r, s1)" by (cases "setDay c' d' w l s")
  then have e: "s' = s1" by (simp add: s' SetDay)
  from w show ?thesis
  proof (cases rule: setDay_cases)
    case 1
    then show ?thesis using ok lock e by simp
  next
    case (2 ov)
    then have "(c, d) \<noteq> (c', d')" using lock by auto
    then have "day_value s1 c d = day_value s c d"
      unfolding 2(4) by (intro other_day_value [OF ok]) (simp_all add: update_conv')
    moreover have "calendar_ok s1" unfolding 2(4) by (rule changed_days_ok(1) [OF ok]) (simp add: update_conv')
    moreover have "cal_locks s1 = cal_locks s" by (simp add: 2(4) changed_calendar_def)
    ultimately show ?thesis using lock by (simp add: e)
  qed
next
  case (ClearDay c' d')
  obtain r s1 where w: "clearDay c' d' tz now s = (r, s1)" by (cases "clearDay c' d' tz now s")
  then have e: "s' = s1" by (simp add: s' ClearDay)
  from w ok show ?thesis
  proof (cases rule: clearDay_cases)
    case 1
    then show ?thesis using ok lock e by simp
  next
    case (2 s2)
    then have "(c, d) \<noteq> (c', d')" using lock by auto
    then have "day_value s2 c d = day_value s c d"
      unfolding 2(2) by (intro other_day_value [OF ok]) (simp_all add: delete_conv')
    moreover have "cal_locks s2 = cal_locks s" by (simp add: 2(2) changed_calendar_def)
    ultimately show ?thesis using 2(4,5) same_rows_value [OF 2(5)] lock by (simp add: e same_rows_def)
  qed
next
  case (LockMonth c' m')
  then show ?thesis using ok lock by (auto simp: s' calendar_ok_def day_value_def stored_history_def)
qed

lemma locked_run:
  assumes "calendar_ok s" "(c, take 7 d) \<in> set (cal_locks s)" "c \<noteq> []"
    "list_all (\<lambda>(now, _). isValidDateKey (today_key tz now)) ops"
  shows "calendar_ok (calendar_run tz ops s) \<and> day_value (calendar_run tz ops s) c d = day_value s c d"
  using assms
proof (induction ops arbitrary: s)
  case (Cons p ops)
  obtain now x where p: "p = (now, x)" by (cases p)
  have "calendar_ok (calendar_step tz now x s) \<and> (c, take 7 d) \<in> set (cal_locks (calendar_step tz now x s))
      \<and> day_value (calendar_step tz now x s) c d = day_value s c d"
    using Cons.prems p by (intro locked_step [OF _ _ _ _ refl]) auto
  then show ?case using Cons p by simp
qed simp

lemma calendar_step_ok:
  assumes ok: "calendar_ok s" and today: "isValidDateKey (today_key tz now)"
  shows "calendar_ok (calendar_step tz now x s)"
proof (cases x)
  case (ReadDay c d)
  then show ?thesis using forOrg_keeps [OF ok] by (cases "forOrg c tz now s") (simp add: dayInfo_def)
next
  case (SetWeek c days start)
  obtain r s1 where w: "setWeekPattern c days start tz now s = (r, s1)" by (cases "setWeekPattern c days start tz now s")
  from w today have "calendar_ok s1"
  proof (cases rule: setWeekPattern_cases)
    case (2 ds f)
    then show ?thesis using save_pattern_frame [OF ok 2(6)] by simp
  qed (use ok in simp)
  then show ?thesis using w SetWeek by simp
next
  case (SetDay c d w l)
  obtain r s1 where w: "setDay c d w l s = (r, s1)" by (cases "setDay c d w l s")
  from w have "calendar_ok s1"
  proof (cases rule: setDay_cases)
    case (2 ov)
    show ?thesis unfolding 2(4) by (rule changed_days_ok(1) [OF ok]) (simp add: update_conv')
  qed (use ok in simp)
  then show ?thesis using w SetDay by simp
next
  case (ClearDay c d)
  obtain r s1 where w: "clearDay c d tz now s = (r, s1)" by (cases "clearDay c d tz now s")
  from w ok have "calendar_ok s1" by (cases rule: clearDay_cases) (use ok in simp_all)
  then show ?thesis using w ClearDay by simp
next
  case (LockMonth c m)
  then show ?thesis using ok by (simp add: calendar_ok_def stored_history_def)
qed

lemma calendar_run_ok:
  "calendar_ok s \<Longrightarrow> list_all (\<lambda>(now, _). isValidDateKey (today_key tz now)) ops \<Longrightarrow> calendar_ok (calendar_run tz ops s)"
  by (induction tz ops s rule: calendar_run.induct) (auto intro: calendar_step_ok)

text \<open>C14: a month locked for payroll keeps its calendar. Whatever is read, whatever weeks are set from
  whatever dates, whatever days are marked or cleared in any organisation, and whatever other months
  are locked, \<open>dayInfo\<close> answers for every date of a locked month of the organisation what it
  answered before: the same working day and the same label, with the caches of the settings and of
  the calendar in play.\<close>

theorem locked_months_keep_their_days:
  assumes "(c, m) \<in> set locks" "c \<noteq> []" "take 7 d = m"
    and "list_all (\<lambda>(now, _). isValidDateKey (today_key tz now)) ops"
    and "s = fresh_calendar rows days locks"
  shows "fst (dayInfo (Some c) d tz t' (calendar_run tz ops s)) = fst (dayInfo (Some c) d tz t s)"
proof -
  have ok: "calendar_ok s" by (simp add: assms(5) fresh_calendar_ok)
  have "(c, take 7 d) \<in> set (cal_locks s)" using assms(1,3,5) by (simp add: fresh_calendar_def)
  from locked_run [OF ok this assms(2,4)] show ?thesis
    using dayInfo_value [OF ok assms(2)] dayInfo_value [of "calendar_run tz ops s" c] assms(2) by simp
qed


theorem locked_months_keep_their_days_witness:
  "fst (dayInfo (Some ''a'') ''2026-08-14'' (\<lambda>_. 0) 0
     (calendar_run (\<lambda>_. 0)
        [(0, SetWeek ''a'' (Some (JArray [JInt 1])) (Some ''2026-09-01'')),
         (0, SetDay ''a'' ''2026-08-14'' False (Some (JString ''Closed''))), (0, ClearDay ''a'' ''2026-08-14'')]
        (fresh_calendar (\<lambda>_. None) [] [(''a'', ''2026-08'')])))
   = (True, None)"
proof -
  let ?s = "fresh_calendar (\<lambda>_. None) [] [(''a'', ''2026-08'')]"
  have y: "utc_year 0 = 1970" by (simp add: utc_year_def year_from_day_def day_from_year_def)
  have "today_key (\<lambda>_. 0) 0 = key_of_day 0"
    by (simp add: today_key_def dateKeyInZone_def zonedParts_def key_of_day_def Let_def)
  then have today: "isValidDateKey (today_key (\<lambda>_. 0) 0)" using isValidDateKey_day [of 0] y by simp
  have "stored_history ?s ''a'' = [\<lparr>pt_from = PATTERN_SINCE_ALWAYS, pt_days = DEFAULT_WEEK_PATTERN\<rparr>]"
    by (simp add: stored_history_def fresh_calendar_def fresh_service_def stored_raw_def patternHistoryFromStored_def)
  then have v: "day_value ?s ''a'' ''2026-08-14'' = (None, DEFAULT_WEEK_PATTERN)"
    by (simp add: day_value_def days_on_def entries_until_def fresh_calendar_def)
  have w: "isoWeekdayOfKey ''2026-08-14'' = Some 5" by code_simp
  show ?thesis
    using dayInfo_value [OF fresh_calendar_ok, of "''a''" "''2026-08-14''" "\<lambda>_. 0" 0 "\<lambda>_. None" "[]" "[(''a'', ''2026-08'')]"]
      locked_months_keep_their_days [of "''a''" "''2026-08''" "[(''a'', ''2026-08'')]" "''2026-08-14''" "\<lambda>_. 0"
        "[(0, SetWeek ''a'' (Some (JArray [JInt 1])) (Some ''2026-09-01'')),
         (0, SetDay ''a'' ''2026-08-14'' False (Some (JString ''Closed''))), (0, ClearDay ''a'' ''2026-08-14'')]"
        ?s "\<lambda>_. None" "[]" 0 0] today
    by (simp add: v w DEFAULT_WEEK_PATTERN_def del: calendar_run.simps)
qed

section \<open>A new week\<close>

text \<open>C23: a new week holds from its date on and nowhere else. When \<open>setWeekPattern\<close> is accepted the
  answer carries the weekdays that were asked, each once and in order, and the date asked (today when
  none); whatever is read from then on, at any time, the organisation's calendar has that week on every
  date from that date on and, on every earlier date, the week it had before; the marked days and every
  other organisation's weeks are as they were. The history goes through the stored JSON and back.\<close>

theorem new_week_holds_from_its_date:
  assumes "s = calendar_run tz ops (fresh_calendar rows days locks)"
    and "list_all (\<lambda>(now, _). isValidDateKey (today_key tz now)) ops" "isValidDateKey (today_key tz now)"
    and "c \<noteq> []" "c' \<noteq> []" "setWeekPattern c asked start tz now s = (return e, s')"
  shows "pt_from e = coalesce start (today_key tz now)
    \<and> (\<exists>xs. asked = Some (JArray (map JInt xs)) \<and> set (pt_days e) = set xs) \<and> sorted (pt_days e) \<and> distinct (pt_days e)
    \<and> patternOn (fst (forOrg (Some c') tz t' s')) d
        = (if c' = c \<and> pt_from e \<le> d then pt_days e else patternOn (fst (forOrg (Some c') tz t s)) d)
    \<and> map_of (oc_overrides (fst (forOrg (Some c') tz t' s'))) d = map_of (oc_overrides (fst (forOrg (Some c') tz t s))) d"
proof -
  have ok: "calendar_ok s"
    using assms(1,2) calendar_run_ok [OF fresh_calendar_ok] by simp
  from assms(6,3) obtain f where ds: "checkWeekPattern asked = Some (pt_days e)" and f: "f = coalesce start (today_key tz now)"
    "isValidDateKey f" "pt_from e = f" and s': "s' = save_pattern c (pt_days e) f now s"
    by (cases rule: setWeekPattern_cases) auto
  note fr = save_pattern_frame [OF ok s'] and h = save_pattern_history [OF ok assms(4) f(2) checkWeekPattern_Some(1) [OF ds] s']
  have ok': "calendar_ok s'" using fr by simp
  have b: "shows_rows (fst (forOrg (Some c') tz t s)) s c'" "shows_rows (fst (forOrg (Some c') tz t' s')) s' c'"
    using forOrg_rows [OF ok assms(5), of tz t] forOrg_rows [OF ok' assms(5), of tz t']
    by (metis prod.collapse)+
  have "days_on (stored_history s' c') d = (if c' = c \<and> f \<le> d then pt_days e else days_on (stored_history s c') d)"
    using fr h days_before [OF stored_history_ok valid_key_after_always [OF f(2)], of d s c "pt_days e"]
      days_from [OF stored_history_ok valid_key_after_always [OF f(2)], of d s c "pt_days e"]
    by (cases "c' = c"; cases "f \<le> d") auto
  then have "patternOn (fst (forOrg (Some c') tz t' s')) d
      = (if c' = c \<and> pt_from e \<le> d then pt_days e else patternOn (fst (forOrg (Some c') tz t s)) d)"
    using shows_rows_days(3) [OF b(1)] shows_rows_days(3) [OF b(2)] f(3) by simp
  moreover have "map_of (oc_overrides (fst (forOrg (Some c') tz t' s'))) d = map_of (oc_overrides (fst (forOrg (Some c') tz t s))) d"
    using b fr by (simp add: shows_rows_def)
  ultimately show ?thesis
    using f checkWeekPattern_Some [OF ds] by (simp add: days_ok_def)
qed


theorem new_week_holds_from_its_date_witness:
  "patternOn (fst (forOrg (Some ''a'') (\<lambda>_. 0) 0
     (snd (setWeekPattern ''a'' (Some (JArray [JInt 5, JInt 1, JInt 5])) (Some ''2026-09-01'') (\<lambda>_. 0) 0
        (fresh_calendar (\<lambda>_. None) [] []))))) ''2026-09-05'' = [1, 5]"
proof -
  let ?s = "fresh_calendar (\<lambda>_. None) [] []" and ?asked = "Some (JArray [JInt 5, JInt 1, JInt 5])"
  let ?r = "setWeekPattern ''a'' ?asked (Some ''2026-09-01'') (\<lambda>_. 0) 0 ?s"
  have y: "utc_year 0 = 1970" by (simp add: utc_year_def year_from_day_def day_from_year_def)
  have "today_key (\<lambda>_. 0) 0 = key_of_day 0"
    by (simp add: today_key_def dateKeyInZone_def zonedParts_def key_of_day_def Let_def)
  then have today: "isValidDateKey (today_key (\<lambda>_. 0) 0)" using isValidDateKey_day [of 0] y by simp
  have "assertDate ''2026-09-01'' = return ()" by code_simp
  then have r: "?r = (return \<lparr>pt_from = ''2026-09-01'', pt_days = [1, 5]\<rparr>, snd ?r)"
    by (simp add: setWeekPattern_def fresh_calendar_def Let_def)
  have le: "''2026-09-01'' \<le> ''2026-09-05''" by code_simp
  show ?thesis
    using new_week_holds_from_its_date [of ?s "\<lambda>_. 0" "[]" "\<lambda>_. None" "[]" "[]" 0 "''a''" "''a''" ?asked
        "Some ''2026-09-01''" _ "snd ?r" 0 "''2026-09-05''" 0] today r le
    by simp
qed

section \<open>The dates of a month\<close>

definition month_key :: "int \<Rightarrow> int \<Rightarrow> string" where
  "month_key y m = show_int y @ ''-'' @ pad2i m"

definition month_length :: "int \<Rightarrow> int \<Rightarrow> int" where
  "month_length y m = month_offset (leap y) (m + 1) - month_offset (leap y) m"

definition month_start :: "int \<Rightarrow> int \<Rightarrow> int" where
  "month_start y m = make_day y (m - 1) 1"

lemma month_length_pos: "1 \<le> m \<Longrightarrow> m \<le> 12 \<Longrightarrow> 1 \<le> month_length y m"
  unfolding month_length_def by (erule months_cases, assumption) (simp_all add: month_offset_def Let_def)

lemma day_in_month:
  assumes "1 \<le> m" "m \<le> 12"
  shows "utc_year n = y \<and> utc_month n = m \<longleftrightarrow> month_start y m \<le> n \<and> n < month_start y m + month_length y m"
proof
  assume a: "utc_year n = y \<and> utc_month n = m"
  then have "n = make_day y (m - 1) (1 + (utc_date n - 1))" using make_day_of_day [of n] by simp
  then have "n = month_start y m + (utc_date n - 1)" by (simp only: make_day_add month_start_def)
  then show "month_start y m \<le> n \<and> n < month_start y m + month_length y m"
    using real_date_of_day [of n] a by (auto simp: real_date_def month_length_def)
next
  assume a: "month_start y m \<le> n \<and> n < month_start y m + month_length y m"
  let ?dt = "1 + (n - month_start y m)"
  have "real_date y m ?dt" using a assms by (simp add: real_date_def month_length_def)
  moreover have "make_day y (m - 1) ?dt = n" by (simp add: make_day_add month_start_def)
  ultimately show "utc_year n = y \<and> utc_month n = m" using day_of_make_day [of y m ?dt] by simp
qed

lemma take7_key:
  assumes "1000 \<le> utc_year n" "utc_year n \<le> 9999"
  shows "take 7 (key_of_day n) = month_key (utc_year n) (utc_month n)" "take 4 (key_of_day n) = show_int (utc_year n)"
  using utc_year_range_digits [OF assms] pad2i_digits [of "utc_month n"] utc_parts_range [of n]
  by (simp_all add: key_of_day_def make_key_def month_key_def)

lemma month_key_inj:
  assumes "1 \<le> m" "m \<le> 12" "1 \<le> m'" "m' \<le> 12" "1000 \<le> y" "y \<le> 9999" "1000 \<le> y'" "y' \<le> 9999"
  shows "month_key y m = month_key y' m' \<longleftrightarrow> y = y' \<and> m = m'"
proof
  assume a: "month_key y m = month_key y' m'"
  have "length (show_int y) = length (show_int y')"
    using utc_year_range_digits(1) [of y] utc_year_range_digits(1) [of y'] assms by simp
  then have e: "show_int y = show_int y'" "pad2i m = pad2i m'" using a by (auto simp: month_key_def)
  have "nat m = nat m'"
    using arg_cong [OF e(2), of parse_digits] assms pad2i_digits(3) [of m] pad2i_digits(3) [of m'] by simp
  then show "y = y' \<and> m = m'" using e(1) assms by (simp add: show_int_inj)
qed simp

lemma month_key_first: "month_key y m @ ''-01'' = make_key y m 1"
  by (simp add: month_key_def make_key_def pad2i_def pad2_def show_num)

lemma month_start_parts:
  assumes "1 \<le> m" "m \<le> 12"
  shows "utc_year (month_start y m) = y" "utc_month (month_start y m) = m" "utc_date (month_start y m) = 1"
proof -
  have "real_date y m 1" using assms month_length_pos [OF assms, of y] by (simp add: real_date_def month_length_def)
  then show "utc_year (month_start y m) = y" "utc_month (month_start y m) = m" "utc_date (month_start y m) = 1"
    using day_of_make_day [of y m 1] by (simp_all add: month_start_def)
qed

lemma next_year_day: "utc_year (n + 1) \<le> utc_year n + 1"
proof (rule ccontr)
  assume "\<not> utc_year (n + 1) \<le> utc_year n + 1"
  then have "day_from_year (utc_year n + 2) \<le> day_from_year (utc_year (n + 1))" by (intro day_from_year_mono) simp
  also have "\<dots> \<le> n + 1" using year_bounds(1) [of "n + 1"] by (simp add: utc_year_def)
  also have "\<dots> \<le> day_from_year (utc_year n + 1)" using year_bounds(2) [of n] by (simp add: utc_year_def)
  finally show False using year_length [of "utc_year n + 1"] by (simp add: add.commute split: if_splits)
qed

lemma dates_loop_from:
  assumes m: "1 \<le> m" "m \<le> 12" "1000 \<le> y" "y < 9999" and k: "k \<le> nat (month_length y m)"
  shows "dates_loop (month_key y m) out (key_of_day (month_start y m + month_length y m - int k))
    = Some (out @ map key_of_day [month_start y m + month_length y m - int k .. month_start y m + month_length y m - 1])"
  using k
proof (induction k arbitrary: out)
  case 0
  let ?e = "month_start y m + month_length y m"
  have l: "utc_year (?e - 1) = y" using day_in_month [OF m(1,2), of "?e - 1" y] month_length_pos [OF m(1,2), of y] by simp
  then have ye: "1000 \<le> utc_year ?e" "utc_year ?e \<le> 9999"
    using next_year_day [of "?e - 1"] utc_year_mono [of "?e - 1" ?e] m by simp_all
  have "\<not> (utc_year ?e = y \<and> utc_month ?e = m)" using day_in_month [OF m(1,2), of ?e y] by simp
  then have "take 7 (key_of_day ?e) \<noteq> month_key y m"
    using take7_key [OF ye] month_key_inj [of "utc_month ?e" m "utc_year ?e" y] utc_parts_range [of ?e] ye m by simp
  moreover have "length (month_key y m) = 7"
    using utc_year_range_digits(1) [of y] pad2i_digits(1) [of m] m by (simp add: month_key_def)
  ultimately show ?case by (simp add: dates_loop.simps)
next
  case (Suc k)
  let ?e = "month_start y m + month_length y m" and ?n = "month_start y m + month_length y m - int (Suc k)"
  have n: "utc_year ?n = y" "utc_month ?n = m"
    using day_in_month [OF m(1,2), of ?n y] Suc.prems nat_le_iff [of "month_length y m" "Suc k"] by auto
  then have "take 7 (key_of_day ?n) = month_key y m" using take7_key(1) [of ?n] m by simp
  moreover have "length (month_key y m) = 7"
    using utc_year_range_digits(1) [of y] pad2i_digits(1) [of m] m by (simp add: month_key_def)
  moreover have "addDaysToKey (key_of_day ?n) 1 = key_of_day (?e - int k)"
  proof -
    have "utc_year (?n + 1) \<le> 9999" "0 \<le> utc_year (?n + 1)"
      using next_year_day [of ?n] utc_year_mono [of ?n "?n + 1"] n m by simp_all
    then have "valid_day (?n + 1)" by (intro valid_day_of_year)
    then show ?thesis using addDaysToKey_day [of ?n 1] n m by (simp add: algebra_simps)
  qed
  moreover have "[?n .. ?e - 1] = ?n # [?e - int k .. ?e - 1]"
    by (subst upto_rec1) (simp_all add: algebra_simps)
  ultimately show ?case using Suc by (subst dates_loop.simps) simp
qed

lemma month_days_set:
  assumes "1 \<le> m" "m \<le> 12" "1000 \<le> y" "y < 9999"
  shows "set (map key_of_day [month_start y m .. month_start y m + month_length y m - 1])
    = {d. isValidDateKey d \<and> take 7 d = month_key y m}" (is "set (map key_of_day ?ds) = _")
proof (intro equalityI subsetI)
  fix d assume "d \<in> set (map key_of_day ?ds)"
  then obtain n where "d = key_of_day n" "n \<in> set ?ds" by auto
  then show "d \<in> {d. isValidDateKey d \<and> take 7 d = month_key y m}"
    using day_in_month [OF assms(1,2), of n y] assms take7_key(1) [of n] by (simp add: isValidDateKey_day)
next
  fix d assume a: "d \<in> {d. isValidDateKey d \<and> take 7 d = month_key y m}"
  have y: "length (show_int y) = 4" "list_all is_digit (show_int y)" "parse_digits (show_int y) = nat y"
    using utc_year_range_digits [of y] assms by simp_all
  have "take 4 d = take 4 (take 7 d)" by simp
  also have "\<dots> = show_int y" using a y by (simp add: month_key_def)
  finally have t: "take 4 d = show_int y" .
  have "\<not> show_int y < ''1000''"
    using y assms by (subst digits_less_iff) (auto simp: is_digit_def parse_digits_def digit_val_def)
  then obtain n where n: "d = key_of_day n" "1000 \<le> utc_year n" "utc_year n \<le> 9999"
    using a t by (auto elim: valid_key_of_day)
  then have "utc_year n = y \<and> utc_month n = m"
    using a take7_key(1) [OF n(2,3)] month_key_inj [of "utc_month n" m "utc_year n" y] utc_parts_range [of n] assms by simp
  then show "d \<in> set (map key_of_day ?ds)" using day_in_month [OF assms(1,2), of n y] n(1) by auto
qed

text \<open>C35: \<open>datesOfMonth\<close> ends for every month of the years 1000 to 9998, and lists every valid date of
  the month, once and in order: its loop stops at the first date that no longer starts with the month.
  So \<open>monthSummary\<close> always answers, and its working days are the number of the month's valid dates
  that are working days.\<close>

theorem month_loop_lists_the_month:
  assumes "1 \<le> m" "m \<le> 12" "1000 \<le> y" "y < 9999"
  shows "\<exists>dates. datesOfMonth (month_key y m) = Some dates \<and> sorted_wrt (<) dates
    \<and> set dates = {d. isValidDateKey d \<and> take 7 d = month_key y m}
    \<and> (\<exists>ms. monthSummary cal (month_key y m) = Some ms
         \<and> ms_workingDays ms = card {d. isValidDateKey d \<and> take 7 d = month_key y m \<and> isWorkingDay cal d})"
proof -
  let ?ds = "[month_start y m .. month_start y m + month_length y m - 1]"
  have p: "utc_year n = y" "utc_month n = m" if "n \<in> set ?ds" for n
    using that day_in_month [OF assms(1,2), of n y] by auto
  have "month_key y m @ ''-01'' = key_of_day (month_start y m)"
    using month_start_parts [OF assms(1,2), of y] by (simp add: month_key_first key_of_day_def)
  then have d: "datesOfMonth (month_key y m) = Some (map key_of_day ?ds)"
    using dates_loop_from [OF assms, of "nat (month_length y m)" "[]"] month_length_pos [OF assms(1,2), of y]
    by (simp add: datesOfMonth_def)
  have sorted: "sorted_wrt (<) (map key_of_day ?ds)"
    unfolding sorted_wrt_map
    by (rule sorted_wrt_mono_rel [OF _ sorted_wrt_upto]) (use p assms in \<open>auto intro!: key_of_day_mono\<close>)
  note set = month_days_set [OF assms]
  have loop: "fst (summary_loop cal ds n hs) = n + length (filter (isWorkingDay cal) ds)" for ds n hs
    by (induction cal ds n hs rule: summary_loop.induct) simp_all
  have "length (filter (isWorkingDay cal) (map key_of_day ?ds)) = card (set (filter (isWorkingDay cal) (map key_of_day ?ds)))"
    using sorted by (intro distinct_card [symmetric] distinct_filter) (simp add: strict_sorted_iff)
  also have "set (filter (isWorkingDay cal) (map key_of_day ?ds)) = {d. isValidDateKey d \<and> take 7 d = month_key y m \<and> isWorkingDay cal d}"
    using set by auto
  finally have n: "fst (summary_loop cal (map key_of_day ?ds) 0 []) = card {d. isValidDateKey d \<and> take 7 d = month_key y m \<and> isWorkingDay cal d}"
    by (simp add: loop)
  show ?thesis
    by (intro exI [of _ "map key_of_day ?ds"] conjI d sorted set)
       (simp add: monthSummary_def d case_prod_beta n)
qed


theorem month_loop_lists_the_month_witness:
  "\<exists>dates. datesOfMonth ''2026-02'' = Some dates \<and> ''2026-02-28'' \<in> set dates \<and> ''2026-02-29'' \<notin> set dates"
proof -
  have k: "month_key 2026 2 = ''2026-02''" by (simp add: month_key_def pad2i_def show_num)
  have v: "isValidDateKey ''2026-02-28''" "\<not> isValidDateKey ''2026-02-29''" by code_simp+
  obtain dates where "datesOfMonth ''2026-02'' = Some dates" "set dates = {d. isValidDateKey d \<and> take 7 d = ''2026-02''}"
    using month_loop_lists_the_month [of 2 2026] unfolding k by auto
  then show ?thesis using v by auto
qed

end
