(* ===== verification/Intervals.thy ===== *)
theory Intervals
  imports Prelude
begin

text \<open>
  The half-open intervals of \<open>src/src/modules/worktime/domain/intervals.ts\<close> and the set
  operations the focus engine, the hourly view and the reports are built from. A list of
  intervals stands for the set \<open>pts\<close> of milliseconds it covers; the lemmas relate each
  list operation to the operation on that set, and the locale \<open>measured_union\<close> at the end
  collects what the components that measure time use of it.
\<close>

record interval =
  i_start :: int
  i_end :: int

abbreviation ivl :: "int \<Rightarrow> int \<Rightarrow> interval" where
  "ivl s e \<equiv> \<lparr>i_start = s, i_end = e\<rparr>"

text \<open>\<open>end ?? now\<close>, never before the start.\<close>

definition span :: "int \<Rightarrow> int option \<Rightarrow> int \<Rightarrow> interval" where
  "span s e now = ivl s (max s (coalesce e now))"

text \<open>
  The merging loop of \<open>normalize\<close> and \<open>joinGaps\<close>: \<open>out\<close> is kept in reverse, so
  that \<open>out[out.length - 1]\<close> is its head, which the loop extends in place.
\<close>

fun merge_loop :: "(interval \<Rightarrow> interval \<Rightarrow> bool) \<Rightarrow> interval list \<Rightarrow> interval list \<Rightarrow> interval list" where
  "merge_loop joins out [] = rev out"
| "merge_loop joins [] (i # is) = merge_loop joins [ivl (i_start i) (i_end i)] is"
| "merge_loop joins (prev # out) (i # is) =
     (if joins prev i
      then merge_loop joins (prev\<lparr>i_end := max (i_end prev) (i_end i)\<rparr> # out) is
      else merge_loop joins (ivl (i_start i) (i_end i) # prev # out) is)"

definition normalize :: "interval list \<Rightarrow> interval list" where
  "normalize list =
     merge_loop (\<lambda>prev i. i_start i \<le> i_end prev) []
       (js_sort (\<lambda>a b. i_start a - i_start b) (filter (\<lambda>i. i_end i > i_start i) list))"

definition joinGaps :: "interval list \<Rightarrow> int \<Rightarrow> interval list" where
  "joinGaps list gapMs =
     merge_loop (\<lambda>prev i. i_start i - i_end prev \<le> gapMs) []
       (js_sort (\<lambda>a b. if i_start a - i_start b \<noteq> 0 then i_start a - i_start b else i_end a - i_end b)
         (filter (\<lambda>i. i_end i \<ge> i_start i) list))"

definition lengthMs :: "interval list \<Rightarrow> int" where
  "lengthMs list = foldl (\<lambda>sum i. sum + (i_end i - i_start i)) 0 (normalize list)"

fun intersect_loop :: "interval list \<Rightarrow> interval list \<Rightarrow> interval list" where
  "intersect_loop (x # xs) (y # ys) =
     (let s = max (i_start x) (i_start y); e = min (i_end x) (i_end y)
      in (if e > s then [ivl s e] else [])
         @ (if i_end x < i_end y then intersect_loop xs (y # ys) else intersect_loop (x # xs) ys))"
| "intersect_loop _ _ = []"

definition intersect :: "interval list \<Rightarrow> interval list \<Rightarrow> interval list" where
  "intersect a b = intersect_loop (normalize a) (normalize b)"

text \<open>
  The inner loop of \<open>subtract\<close> over the cuts, for one piece ending at \<open>pend\<close>: it pushes
  the stretch before each cut that meets the rest of the piece, and stops once the cursor has
  reached the piece's end.
\<close>

fun cut_loop :: "int \<Rightarrow> int \<Rightarrow> interval list \<Rightarrow> interval list" where
  "cut_loop pend cursor [] = (if cursor < pend then [ivl cursor pend] else [])"
| "cut_loop pend cursor (c # cs) =
     (if i_end c \<le> cursor \<or> i_start c \<ge> pend then cut_loop pend cursor cs
      else (if i_start c > cursor then [ivl cursor (i_start c)] else [])
           @ (let cursor' = max cursor (i_end c)
              in if cursor' \<ge> pend then [] else cut_loop pend cursor' cs))"

definition subtract :: "interval list \<Rightarrow> interval list \<Rightarrow> interval list" where
  "subtract a b =
     (let cuts = normalize b
      in concat (map (\<lambda>piece. cut_loop (i_end piece) (i_start piece) cuts) (normalize a)))"

definition overlapMs :: "interval \<Rightarrow> interval list \<Rightarrow> int" where
  "overlapMs one un = lengthMs (intersect [one] un)"

definition overlaps :: "interval \<Rightarrow> interval \<Rightarrow> bool" where
  "overlaps a b \<longleftrightarrow> i_start a < i_end b \<and> i_start b < i_end a"

definition toSec :: "int \<Rightarrow> int" where
  "toSec ms = round_div ms 1000"

section \<open>The set a list of intervals covers\<close>

definition pts :: "interval list \<Rightarrow> int set" where
  "pts xs = (\<Union>i \<in> set xs. {i_start i ..< i_end i})"

text \<open>A canonical list: non-empty pieces, in order, with a gap between any two.\<close>

definition canonical :: "interval list \<Rightarrow> bool" where
  "canonical xs \<longleftrightarrow>
     (\<forall>i \<in> set xs. i_start i < i_end i) \<and> sorted_wrt (\<lambda>a b. i_end a < i_start b) xs"

lemma pts_simps [simp]:
  "pts [] = {}" "pts (i # is) = {i_start i ..< i_end i} \<union> pts is"
  "pts (xs @ ys) = pts xs \<union> pts ys" "pts (rev xs) = pts xs"
  by (auto simp: pts_def)

lemma finite_pts [simp]: "finite (pts xs)"
  by (simp add: pts_def)

lemma canonical_simps [simp]:
  "canonical []"
  "canonical (i # is) \<longleftrightarrow> i_start i < i_end i \<and> (\<forall>j \<in> set is. i_end i < i_start j) \<and> canonical is"
  by (auto simp: canonical_def)

lemma canonical_append:
  "canonical (xs @ ys) \<longleftrightarrow>
     canonical xs \<and> canonical ys \<and> (\<forall>a \<in> set xs. \<forall>b \<in> set ys. i_end a < i_start b)"
  by (auto simp: canonical_def sorted_wrt_append)

lemma pts_after: "\<forall>j \<in> set is. e < i_start j \<Longrightarrow> p \<in> pts is \<Longrightarrow> e < p"
  by (fastforce simp: pts_def)

lemma start_comparator [simp]: "comparator_ok (\<lambda>a b. i_start a - i_start b)"
  by (auto simp: comparator_ok_def)

lemma start_end_comparator [simp]:
  "comparator_ok (\<lambda>a b. if i_start a - i_start b \<noteq> 0 then i_start a - i_start b else i_end a - i_end b)"
  unfolding comparator_ok_def by auto

lemma starts_sorted:
  "sorted_wrt (\<lambda>a b. i_start a \<le> i_start b)
     (js_sort (\<lambda>a b. i_start a - i_start b) xs)"
  by (rule sorted_wrt_mono_rel [OF _ sorted_js_sort [OF start_comparator]]) auto

lemma starts_sorted':
  "sorted_wrt (\<lambda>a b. i_start a \<le> i_start b)
     (js_sort (\<lambda>a b. if i_start a - i_start b \<noteq> 0 then i_start a - i_start b else i_end a - i_end b) xs)"
  by (rule sorted_wrt_mono_rel [OF _ sorted_js_sort [OF start_end_comparator]])
    (auto split: if_splits)

lemma pts_filter_nonempty: "pts (filter (\<lambda>i. i_end i > i_start i) xs) = pts xs"
  by (induction xs) auto

lemma pts_js_sort [simp]: "pts (js_sort cmp xs) = pts xs"
  by (simp add: pts_def)

subsection \<open>normalize\<close>

lemma merge_loop_spec:
  assumes "canonical (rev (l # out))"
    and "sorted_wrt (\<lambda>a b. i_start a \<le> i_start b) is"
    and "\<forall>i \<in> set is. i_start l \<le> i_start i \<and> i_start i < i_end i"
  shows "canonical (merge_loop (\<lambda>prev i. i_start i \<le> i_end prev) (l # out) is) \<and>
         pts (merge_loop (\<lambda>prev i. i_start i \<le> i_end prev) (l # out) is) = pts (l # out) \<union> pts is"
  using assms
proof (induction "is" arbitrary: l out)
  case Nil
  then show ?case by auto
next
  case (Cons i "is")
  show ?case
  proof (cases "i_start i \<le> i_end l")
    case True
    let ?l = "l\<lparr>i_end := max (i_end l) (i_end i)\<rparr>"
    have "canonical (rev (?l # out))"
      using Cons.prems(1) by (auto simp: canonical_append)
    moreover have "\<forall>j \<in> set is. i_start ?l \<le> i_start j \<and> i_start j < i_end j"
      using Cons.prems(3) by auto
    ultimately have "canonical (merge_loop (\<lambda>prev i. i_start i \<le> i_end prev) (?l # out) is) \<and>
        pts (merge_loop (\<lambda>prev i. i_start i \<le> i_end prev) (?l # out) is) = pts (?l # out) \<union> pts is"
      using Cons.prems(2) by (intro Cons.IH) auto
    moreover have "{i_start l ..< max (i_end l) (i_end i)} =
        {i_start l ..< i_end l} \<union> {i_start i ..< i_end i}"
      using True Cons.prems(3) by auto
    ultimately show ?thesis using True by auto
  next
    case False
    let ?i = "ivl (i_start i) (i_end i)"
    have "canonical (rev (?i # l # out))"
      using Cons.prems(1,3) False by (auto simp: canonical_append)
    then have "canonical (merge_loop (\<lambda>prev i. i_start i \<le> i_end prev) (?i # l # out) is) \<and>
        pts (merge_loop (\<lambda>prev i. i_start i \<le> i_end prev) (?i # l # out) is) =
          pts (?i # l # out) \<union> pts is"
      using Cons.prems(2,3) by (intro Cons.IH) auto
    then show ?thesis using False by auto
  qed
qed

lemma merge_loop_start:
  assumes "sorted_wrt (\<lambda>a b. i_start a \<le> i_start b) is" and "\<forall>i \<in> set is. i_start i < i_end i"
  shows "canonical (merge_loop (\<lambda>prev i. i_start i \<le> i_end prev) [] is) \<and>
         pts (merge_loop (\<lambda>prev i. i_start i \<le> i_end prev) [] is) = pts is"
proof (cases "is")
  case Nil
  then show ?thesis by simp
next
  case (Cons i js)
  then show ?thesis
    using merge_loop_spec [of "ivl (i_start i) (i_end i)" "[]" js] assms by auto
qed

lemma canonical_normalize [simp]: "canonical (normalize xs)"
  and pts_normalize [simp]: "pts (normalize xs) = pts xs"
  using merge_loop_start [OF starts_sorted, of "filter (\<lambda>i. i_end i > i_start i) xs"]
  by (auto simp: normalize_def pts_filter_nonempty)

lemma canonical_head:
  assumes "canonical (x # xs)"
  shows "i_start x \<in> pts (x # xs)" "\<And>p. p \<in> pts (x # xs) \<Longrightarrow> i_start x \<le> p"
    "i_end x \<notin> pts (x # xs)"
  using assms pts_after [of xs "i_end x"] by (auto; force)+

lemma canonical_unique:
  assumes "canonical xs" "canonical ys" "pts xs = pts ys"
  shows "xs = ys"
  using assms
proof (induction xs arbitrary: ys)
  case Nil
  then show ?case by (cases ys) auto
next
  case (Cons x xs)
  then obtain y ys' where ys: "ys = y # ys'" by (cases ys) auto
  have st: "i_start x = i_start y"
    using canonical_head [OF Cons.prems(1)] canonical_head [of y ys'] Cons.prems(2,3) ys
    by (metis order_antisym)
  have en: "i_end x = i_end y"
  proof (rule ccontr)
    assume "i_end x \<noteq> i_end y"
    then consider "i_end x < i_end y" | "i_end y < i_end x" by linarith
    then show False
    proof cases
      case 1
      then have "i_end x \<in> pts ys" using st ys Cons.prems(1) by auto
      then show False using canonical_head(3) [OF Cons.prems(1)] Cons.prems(3) by metis
    next
      case 2
      then have "i_end y \<in> pts (x # xs)" using st ys Cons.prems(2) by auto
      then show False using canonical_head(3) [of y ys'] Cons.prems(2,3) ys by metis
    qed
  qed
  have "pts xs = pts (x # xs) - {..< i_end x}"
    using Cons.prems(1) pts_after [of xs "i_end x"] by fastforce
  moreover have "pts ys' = pts ys - {..< i_end y}"
    using Cons.prems(2) ys pts_after [of ys' "i_end y"] by fastforce
  ultimately have "xs = ys'" using Cons.prems en ys by (intro Cons.IH) auto
  then show ?case using st en ys by simp
qed

lemma normalize_canonical_id: "canonical xs \<Longrightarrow> normalize xs = xs"
  by (rule canonical_unique) auto

subsection \<open>lengthMs\<close>

lemma foldl_length:
  "foldl (\<lambda>sum i. sum + (i_end i - i_start i)) a xs = a + sum_list (map (\<lambda>i. i_end i - i_start i) xs)"
  by (induction xs arbitrary: a) auto

lemma canonical_card:
  "canonical xs \<Longrightarrow> int (card (pts xs)) = sum_list (map (\<lambda>i. i_end i - i_start i) xs)"
proof (induction xs)
  case Nil
  then show ?case by simp
next
  case (Cons x xs)
  have "{i_start x ..< i_end x} \<inter> pts xs = {}"
    using Cons.prems pts_after [of xs "i_end x"] by fastforce
  then have "card (pts (x # xs)) = card {i_start x ..< i_end x} + card (pts xs)"
    by (simp add: card_Un_disjoint)
  then show ?case using Cons by simp
qed

lemma lengthMs_card: "lengthMs xs = int (card (pts xs))"
  by (simp add: lengthMs_def foldl_length canonical_card [symmetric])

subsection \<open>intersect\<close>

lemma intersect_loop_elem:
  "r \<in> set (intersect_loop xs ys) \<Longrightarrow>
     (\<exists>x \<in> set xs. \<exists>y \<in> set ys. i_start r = max (i_start x) (i_start y)) \<and> i_start r < i_end r"
  by (induction xs ys rule: intersect_loop.induct) (auto simp: Let_def split: if_splits)

lemma intersect_loop_spec:
  assumes "canonical xs" "canonical ys"
  shows "canonical (intersect_loop xs ys) \<and> pts (intersect_loop xs ys) = pts xs \<inter> pts ys"
  using assms
proof (induction xs ys rule: intersect_loop.induct)
  case (1 x xs y ys)
  let ?s = "max (i_start x) (i_start y)" and ?e = "min (i_end x) (i_end y)"
  let ?rest = "if i_end x < i_end y then intersect_loop xs (y # ys) else intersect_loop (x # xs) ys"
  have rest: "canonical ?rest \<and> pts ?rest =
      (if i_end x < i_end y then pts xs \<inter> pts (y # ys) else pts (x # xs) \<inter> pts ys)"
    using 1 by (cases "i_end x < i_end y") auto
  have after: "\<forall>r \<in> set ?rest. ?e < i_start r"
    using "1.prems" by (force dest!: intersect_loop_elem split: if_splits)
  have gone: "p \<in> pts xs \<Longrightarrow> i_end x < p" "p \<in> pts ys \<Longrightarrow> i_end y < p" for p
    using "1.prems" by (auto intro: pts_after)
  have "pts (x # xs) \<inter> pts (y # ys) = {?s ..< ?e} \<union> pts ?rest"
    unfolding rest [THEN conjunct2] using gone by (force split: if_splits)
  moreover have "canonical ((if ?e > ?s then [ivl ?s ?e] else []) @ ?rest)"
    using rest after by auto
  ultimately show ?case using rest by (auto simp: Let_def)
qed auto

lemma canonical_intersect [simp]: "canonical (intersect a b)"
  and pts_intersect [simp]: "pts (intersect a b) = pts a \<inter> pts b"
  using intersect_loop_spec [of "normalize a" "normalize b"] by (simp_all add: intersect_def)

subsection \<open>subtract\<close>

lemma cut_loop_elem:
  "r \<in> set (cut_loop pend cursor cs) \<Longrightarrow> cursor \<le> i_start r \<and> i_start r < i_end r \<and> i_end r \<le> pend"
  by (induction pend cursor cs rule: cut_loop.induct) (auto simp: Let_def split: if_splits)

lemma pts_before: "\<forall>j \<in> set is. e \<le> i_start j \<Longrightarrow> {a ..< e} \<inter> pts is = {}"
  by (force simp: pts_def)

lemma cut_loop_spec:
  assumes "canonical cs"
  shows "canonical (cut_loop pend cursor cs) \<and>
         pts (cut_loop pend cursor cs) = {cursor ..< pend} - pts cs"
  using assms
proof (induction pend cursor cs rule: cut_loop.induct)
  case (1 pend cursor)
  then show ?case by auto
next
  case (2 pend cursor c cs)
  let ?cur = "max cursor (i_end c)"
  show ?case
  proof (cases "i_end c \<le> cursor \<or> i_start c \<ge> pend")
    case True
    then show ?thesis using 2 by auto
  next
    case False
    have gone: "p \<in> pts cs \<Longrightarrow> i_end c < p" for p
      using "2.prems" by (auto intro: pts_after)
    let ?rest = "if ?cur \<ge> pend then [] else cut_loop pend ?cur cs"
    have rest: "canonical ?rest \<and> pts ?rest = {?cur ..< pend} - pts cs"
      using 2 False by (cases "?cur \<ge> pend") (auto simp: Let_def)
    have "\<forall>r \<in> set ?rest. i_end c \<le> i_start r"
      by (auto dest!: cut_loop_elem)
    then have "\<forall>r \<in> set ?rest. i_start c < i_start r"
      using "2.prems" by fastforce
    then have "canonical ((if i_start c > cursor then [ivl cursor (i_start c)] else []) @ ?rest)"
      using rest by auto
    moreover have "{cursor ..< pend} - pts (c # cs) =
        {cursor ..< i_start c} \<union> ({?cur ..< pend} - pts cs)"
    proof (rule set_eqI)
      fix p
      show "p \<in> {cursor ..< pend} - pts (c # cs) \<longleftrightarrow>
          p \<in> {cursor ..< i_start c} \<union> ({?cur ..< pend} - pts cs)"
        using False gone [of p] "2.prems" by (auto simp: not_le)
    qed
    ultimately show ?thesis using False rest by (auto simp: Let_def)
  qed
qed

lemma subtract_concat:
  assumes "canonical xs" "canonical cuts"
  shows "canonical (concat (map (\<lambda>piece. cut_loop (i_end piece) (i_start piece) cuts) xs)) \<and>
         pts (concat (map (\<lambda>piece. cut_loop (i_end piece) (i_start piece) cuts) xs)) = pts xs - pts cuts"
  using assms(1)
proof (induction xs)
  case Nil
  then show ?case by simp
next
  case (Cons x xs)
  let ?tail = "concat (map (\<lambda>piece. cut_loop (i_end piece) (i_start piece) cuts) xs)"
  have x: "canonical (cut_loop (i_end x) (i_start x) cuts) \<and>
      pts (cut_loop (i_end x) (i_start x) cuts) = {i_start x ..< i_end x} - pts cuts"
    by (rule cut_loop_spec [OF assms(2)])
  have "\<forall>a \<in> set (cut_loop (i_end x) (i_start x) cuts). \<forall>b \<in> set ?tail. i_end a < i_start b"
    using Cons.prems by (force dest!: cut_loop_elem)
  then show ?case using x Cons by (auto simp: canonical_append)
qed

lemma canonical_subtract [simp]: "canonical (subtract a b)"
  and pts_subtract [simp]: "pts (subtract a b) = pts a - pts b"
  using subtract_concat [of "normalize a" "normalize b"] by (simp_all add: subtract_def Let_def)

subsection \<open>Single intervals\<close>

lemma pts_span [simp]: "pts [span s e now] = {s ..< coalesce e now}"
  by (auto simp: span_def)

lemma overlaps_iff:
  assumes "i_start a < i_end a" "i_start b < i_end b"
  shows "overlaps a b \<longleftrightarrow> pts [a] \<inter> pts [b] \<noteq> {}"
proof
  assume "overlaps a b"
  then have "max (i_start a) (i_start b) \<in> pts [a] \<inter> pts [b]"
    using assms by (auto simp: overlaps_def)
  then show "pts [a] \<inter> pts [b] \<noteq> {}" by blast
qed (auto simp: overlaps_def)

lemma overlapMs_card: "overlapMs one un = int (card (pts [one] \<inter> pts un))"
  by (simp add: overlapMs_def lengthMs_card)

subsection \<open>joinGaps\<close>

abbreviation separated :: "int \<Rightarrow> interval list \<Rightarrow> bool" where
  "separated g xs \<equiv> sorted_wrt (\<lambda>a b. i_start b - i_end a > g) xs"

lemma join_loop_covers:
  assumes "sorted_wrt (\<lambda>a b. i_start a \<le> i_start b) is" "\<forall>i \<in> set is. i_start l \<le> i_start i"
  shows "pts (l # out) \<union> pts is \<subseteq>
    pts (merge_loop (\<lambda>prev i. i_start i - i_end prev \<le> g) (l # out) is)"
  using assms
proof (induction "is" arbitrary: l out)
  case Nil
  then show ?case by auto
next
  case (Cons i "is")
  let ?l = "if i_start i - i_end l \<le> g then l\<lparr>i_end := max (i_end l) (i_end i)\<rparr>
            else ivl (i_start i) (i_end i)"
  let ?out = "if i_start i - i_end l \<le> g then out else l # out"
  have "pts (?l # ?out) \<union> pts is \<subseteq>
      pts (merge_loop (\<lambda>prev i. i_start i - i_end prev \<le> g) (?l # ?out) is)"
    using Cons.prems by (intro Cons.IH) auto
  moreover have "pts (l # out) \<union> pts (i # is) \<subseteq> pts (?l # ?out) \<union> pts is"
    using Cons.prems(2) by auto
  ultimately show ?case by (auto split: if_splits)
qed

lemma join_loop_separated:
  assumes "sorted_wrt (\<lambda>a b. i_start a \<le> i_start b) is" "\<forall>i \<in> set is. i_start l \<le> i_start i"
    and "separated g (rev (l # out))"
  shows "separated g (merge_loop (\<lambda>prev i. i_start i - i_end prev \<le> g) (l # out) is)"
  using assms
proof (induction "is" arbitrary: l out)
  case Nil
  then show ?case by simp
next
  case (Cons i "is")
  show ?case
  proof (cases "i_start i - i_end l \<le> g")
    case True
    have "separated g (rev (l\<lparr>i_end := max (i_end l) (i_end i)\<rparr> # out))"
      using Cons.prems(3) by (simp add: sorted_wrt_append)
    then show ?thesis using True Cons.prems by (auto intro!: Cons.IH)
  next
    case False
    have "separated g (rev (ivl (i_start i) (i_end i) # l # out))"
      using Cons.prems(2,3) False by (fastforce simp: sorted_wrt_append)
    then show ?thesis using False Cons.prems by (auto intro!: Cons.IH simp del: rev.simps)
  qed
qed

text \<open>A bridged point lies in a gap of at most \<open>g\<close> between an end and a later start.\<close>

definition bridged :: "int set \<Rightarrow> interval list \<Rightarrow> int \<Rightarrow> int \<Rightarrow> bool" where
  "bridged ends is g p \<longleftrightarrow>
     (\<exists>e \<in> ends \<union> i_end ` set is. \<exists>j \<in> set is. e \<le> p \<and> p < i_start j \<and> i_start j - e \<le> g)"

lemma join_loop_bridges:
  assumes "p \<in> pts (merge_loop (\<lambda>prev i. i_start i - i_end prev \<le> g) (l # out) is)"
    and "\<forall>i \<in> set is. i_start l \<le> i_start i"
    and "sorted_wrt (\<lambda>a b. i_start a \<le> i_start b) is"
  shows "p \<in> pts (l # out) \<union> pts is \<or> bridged {i_end l} is g p"
  using assms
proof (induction "is" arbitrary: l out)
  case Nil
  then show ?case by auto
next
  case (Cons i "is")
  show ?case
  proof (cases "i_start i - i_end l \<le> g")
    case True
    let ?l = "l\<lparr>i_end := max (i_end l) (i_end i)\<rparr>"
    have "p \<in> pts (?l # out) \<union> pts is \<or> bridged {i_end ?l} is g p"
      using True Cons.prems by (intro Cons.IH) auto
    moreover have "bridged {i_end ?l} is g p \<Longrightarrow> bridged {i_end l} (i # is) g p"
      unfolding bridged_def by (auto simp: max_def split: if_splits)
    moreover have "p \<in> {i_start ?l ..< i_end ?l} \<Longrightarrow>
        p \<in> pts (l # out) \<union> pts (i # is) \<or> bridged {i_end l} (i # is) g p"
      using True Cons.prems(2) unfolding bridged_def by (auto simp: max_def not_less split: if_splits)
    ultimately show ?thesis by auto
  next
    case False
    then have "p \<in> pts (ivl (i_start i) (i_end i) # l # out) \<union> pts is \<or> bridged {i_end i} is g p"
      using Cons.prems Cons.IH [of "ivl (i_start i) (i_end i)" "l # out"] by auto
    moreover have "bridged {i_end i} is g p \<Longrightarrow> bridged {i_end l} (i # is) g p"
      unfolding bridged_def by auto
    ultimately show ?thesis by auto
  qed
qed

lemma joinGaps_separated: "separated g (joinGaps xs g)"
  and joinGaps_covers: "pts xs \<subseteq> pts (joinGaps xs g)"
  and joinGaps_bridges: "p \<in> pts (joinGaps xs g) \<Longrightarrow> p \<in> pts xs \<or> bridged {} xs g p"
proof -
  define ys where "ys = js_sort (\<lambda>a b. if i_start a - i_start b \<noteq> 0 then i_start a - i_start b
    else i_end a - i_end b) (filter (\<lambda>i. i_end i \<ge> i_start i) xs)"
  have ys: "sorted_wrt (\<lambda>a b. i_start a \<le> i_start b) ys" "set ys \<subseteq> set xs"
    unfolding ys_def by (rule starts_sorted') auto
  have pts_ys: "pts ys = pts xs" by (auto simp: ys_def pts_def)
  have eq: "joinGaps xs g = merge_loop (\<lambda>prev i. i_start i - i_end prev \<le> g) [] ys"
    by (simp add: joinGaps_def ys_def)
  show "separated g (joinGaps xs g)"
    using ys by (cases ys) (auto simp: eq intro: join_loop_separated)
  show "pts xs \<subseteq> pts (joinGaps xs g)"
  proof (cases ys)
    case (Cons y zs)
    then show ?thesis
      using ys join_loop_covers [of zs "ivl (i_start y) (i_end y)" "[]" g] by (auto simp: eq pts_ys [symmetric])
  qed (use pts_ys in auto)
  show "p \<in> pts xs \<or> bridged {} xs g p" if p: "p \<in> pts (joinGaps xs g)"
  proof (cases ys)
    case (Cons y zs)
    then have "p \<in> pts ys \<or> bridged {i_end y} zs g p"
      using ys p join_loop_bridges [of p g "ivl (i_start y) (i_end y)" "[]" zs] by (auto simp: eq)
    moreover have "bridged {i_end y} zs g p \<Longrightarrow> bridged {} xs g p"
      using ys(2) Cons unfolding bridged_def by force
    ultimately show ?thesis using pts_ys by auto
  qed (use p eq in auto)
qed

section \<open>Whole seconds\<close>

definition whole :: "interval list \<Rightarrow> bool" where
  "whole xs \<longleftrightarrow> (\<forall>i \<in> set xs. 1000 dvd i_start i \<and> 1000 dvd i_end i)"

lemma whole_simps [simp]:
  "whole []" "whole (i # is) \<longleftrightarrow> 1000 dvd i_start i \<and> 1000 dvd i_end i \<and> whole is"
  "whole (xs @ ys) \<longleftrightarrow> whole xs \<and> whole ys" "whole (rev xs) = whole xs"
  by (auto simp: whole_def)

lemma dvd_max_min: "(k::int) dvd a \<Longrightarrow> k dvd b \<Longrightarrow> k dvd max a b \<and> k dvd min a b"
  by (auto simp: max_def min_def)

lemma whole_merge_loop: "whole out \<Longrightarrow> whole is \<Longrightarrow> whole (merge_loop j out is)"
  by (induction j out "is" rule: merge_loop.induct) (auto simp: dvd_max_min)

lemma whole_sorted_filter: "whole xs \<Longrightarrow> whole (js_sort c (filter P xs))"
  by (auto simp: whole_def)

lemma whole_normalize [simp]: "whole xs \<Longrightarrow> whole (normalize xs)"
  by (simp add: normalize_def whole_merge_loop whole_sorted_filter)

lemma whole_joinGaps [simp]: "whole xs \<Longrightarrow> whole (joinGaps xs g)"
  by (simp add: joinGaps_def whole_merge_loop whole_sorted_filter)

lemma whole_intersect_loop: "whole xs \<Longrightarrow> whole ys \<Longrightarrow> whole (intersect_loop xs ys)"
  by (induction xs ys rule: intersect_loop.induct) (auto simp: Let_def dvd_max_min)

lemma whole_intersect [simp]: "whole a \<Longrightarrow> whole b \<Longrightarrow> whole (intersect a b)"
  by (simp add: intersect_def whole_intersect_loop)

lemma whole_cut_loop:
  "1000 dvd pend \<Longrightarrow> 1000 dvd cursor \<Longrightarrow> whole cs \<Longrightarrow> whole (cut_loop pend cursor cs)"
  by (induction pend cursor cs rule: cut_loop.induct) (auto simp: Let_def dvd_max_min)

lemma whole_concat: "(\<And>x. x \<in> set xs \<Longrightarrow> whole (f x)) \<Longrightarrow> whole (concat (map f xs))"
  by (induction xs) auto

lemma whole_elem: "whole xs \<Longrightarrow> x \<in> set xs \<Longrightarrow> 1000 dvd i_start x \<and> 1000 dvd i_end x"
  by (auto simp: whole_def)

lemma whole_subtract [simp]: "whole a \<Longrightarrow> whole b \<Longrightarrow> whole (subtract a b)"
  unfolding subtract_def Let_def
  by (intro whole_concat whole_cut_loop) (auto dest: whole_elem [OF whole_normalize])

lemma whole_sum: "whole xs \<Longrightarrow> 1000 dvd sum_list (map (\<lambda>i. i_end i - i_start i) xs)"
  by (induction xs) auto

lemma whole_length: "whole xs \<Longrightarrow> 1000 dvd lengthMs xs"
  by (simp add: lengthMs_def foldl_length whole_sum)

lemma toSec_exact: "1000 dvd ms \<Longrightarrow> 1000 * toSec ms = ms"
  unfolding toSec_def by (auto elim!: dvdE simp: round_div_exact)

section \<open>The contract the time-measuring components use\<close>

text \<open>
  A measured union: a representation of finite sets of instants with intersection and
  difference and a measure. Everything the focus engine, the hourly view and the reports need
  to know about interval lists follows from these laws.
\<close>

locale measured_union =
  fixes points :: "'u \<Rightarrow> int set"
    and measure_of :: "'u \<Rightarrow> int"
    and inter :: "'u \<Rightarrow> 'u \<Rightarrow> 'u"
    and diff :: "'u \<Rightarrow> 'u \<Rightarrow> 'u"
  assumes finite_points: "finite (points a)"
    and measure_card: "measure_of a = int (card (points a))"
    and points_inter: "points (inter a b) = points a \<inter> points b"
    and points_diff: "points (diff a b) = points a - points b"
begin

lemma measure_nonneg: "0 \<le> measure_of a"
  by (simp add: measure_card)

lemma measure_mono: "points a \<subseteq> points b \<Longrightarrow> measure_of a \<le> measure_of b"
  by (simp add: measure_card card_mono finite_points)

lemma measure_cong: "points a = points b \<Longrightarrow> measure_of a = measure_of b"
  by (simp add: measure_card)

lemma measure_inter_le: "measure_of (inter a b) \<le> measure_of a" "measure_of (inter a b) \<le> measure_of b"
  by (auto intro!: measure_mono simp: points_inter)

lemma measure_diff_le: "measure_of (diff a b) \<le> measure_of a"
  by (auto intro!: measure_mono simp: points_diff)

lemma measure_split: "measure_of (inter a b) + measure_of (diff a b) = measure_of a"
proof -
  have "card (points a) = card (points a \<inter> points b) + card (points a - points b)"
    by (subst card_Un_disjoint [symmetric]) (auto simp: finite_points Int_Diff_Un)
  then show ?thesis by (simp add: measure_card points_inter points_diff)
qed

lemma measure_disjoint_le:
  assumes "points a \<inter> points b = {}" "points a \<subseteq> points c" "points b \<subseteq> points c"
  shows "measure_of a + measure_of b \<le> measure_of c"
proof -
  have "card (points a) + card (points b) = card (points a \<union> points b)"
    using assms(1) by (simp add: card_Un_disjoint finite_points)
  also have "\<dots> \<le> card (points c)"
    using assms(2,3) by (intro card_mono finite_points) auto
  finally show ?thesis by (simp add: measure_card)
qed

lemma measure_disjoint3_le:
  assumes "points a \<inter> points b = {}" "points a \<inter> points c = {}" "points b \<inter> points c = {}"
    and "points a \<subseteq> points w" "points b \<subseteq> points w" "points c \<subseteq> points w"
  shows "measure_of a + measure_of b + measure_of c \<le> measure_of w"
proof -
  have "measure_of b + measure_of c \<le> measure_of (diff w a)"
    using assms by (intro measure_disjoint_le) (auto simp: points_diff)
  moreover have "measure_of a \<le> measure_of (inter w a)"
    using assms by (intro measure_mono) (auto simp: points_inter)
  ultimately show ?thesis using measure_split [of w a] by linarith
qed

end

interpretation iu: measured_union pts lengthMs intersect subtract
  by unfold_locales (simp_all add: lengthMs_card)

section \<open>Properties\<close>

text \<open>C38: the interval algebra. \<open>normalize\<close>, \<open>intersect\<close> and \<open>subtract\<close> compute a
  canonical list (non-empty pieces, in order, no two touching) of exactly the points, the common
  points and the points less the cut, \<open>lengthMs\<close> counts those points once however the pieces
  overlap, and \<open>normalize\<close> is a normal form: two lists have the same result exactly when they
  cover the same time.\<close>

theorem interval_algebra:
  "canonical (normalize xs) \<and> pts (normalize xs) = pts xs
   \<and> canonical (intersect xs ys) \<and> pts (intersect xs ys) = pts xs \<inter> pts ys
   \<and> canonical (subtract xs ys) \<and> pts (subtract xs ys) = pts xs - pts ys
   \<and> lengthMs xs = int (card (pts xs))
   \<and> (normalize xs = normalize ys \<longleftrightarrow> pts xs = pts ys)"
proof -
  have "pts xs = pts ys \<Longrightarrow> normalize xs = normalize ys"
    by (rule canonical_unique) simp_all
  moreover have "normalize xs = normalize ys \<Longrightarrow> pts xs = pts ys"
    by (metis pts_normalize)
  ultimately show ?thesis by (auto simp: lengthMs_card)
qed

text \<open>\<open>joinGaps\<close> bridges exactly the short gaps. Its result keeps every covered point, has a
  gap of more than \<open>g\<close> between any two of its pieces, and adds only points that lie between the
  end of one given interval and the start of another, at most \<open>g\<close> apart.\<close>

theorem joinGaps_bridges_short_gaps:
  "pts xs \<subseteq> pts (joinGaps xs g)
   \<and> sorted_wrt (\<lambda>a b. i_start b - i_end a > g) (joinGaps xs g)
   \<and> pts (joinGaps xs g) \<subseteq> pts xs \<union> {p. bridged {} xs g p}"
  using joinGaps_covers joinGaps_separated joinGaps_bridges by blast

end
