(* ===== verification/Focus.thy ===== *)
theory Focus
  imports Intervals
begin

text \<open>
  Focus time, \<open>src/src/modules/worktime/domain/focus.ts\<close>: one person's day (work sessions,
  presence, break and meeting records, away stretches, activity coverage) to the numbers the
  portal and payroll show. \<open>computeFocus\<close> is translated stage by stage: the intervals, the
  loop over the break records, the loop over the meeting records, the away time, the offline
  evidence (\<open>unverifiedIntervals\<close>) and the final sums. Durations are whole minutes and
  seconds, so the code's \<open>Math.round\<close> on them is the identity.
\<close>

section \<open>Data\<close>

datatype approval_status = NotRequired | Pending | Approved | Rejected

datatype presence_type = PBreak | PLunch | PMeeting

datatype break_kind = Morning | Lunch | Evening | Quick

datatype break_outcome = Taken | Skipped | AutoSkipped

datatype away_status = AwUnexplained | AwPending | AwApproved | AwRejected | AwNotRequired

datatype meeting_mode = LiveMeeting | PastMeeting

record focus_session =
  fs_startedAt :: int
  fs_endedAt :: "int option"
  fs_replay :: bool

record focus_coverage =
  fc_startedAt :: int
  fc_endedAt :: int

record focus_presence =
  fp_type :: presence_type
  fp_startedAt :: int
  fp_endedAt :: "int option"

record focus_segment =
  sg_startedAt :: int
  sg_endedAt :: "int option"

record focus_break_record =
  fb_outcome :: break_outcome
  fb_approvalStatus :: approval_status
  fb_overrunAsked :: bool
  fb_overrunSec :: "int option"
  fb_durationMin :: "int option"
  fb_kind :: "break_kind option"
  fb_segments :: "focus_segment list"

record focus_away =
  fa_status :: away_status
  fa_startedAt :: int
  fa_endedAt :: "int option"

record focus_meeting_record =
  fm_mode :: meeting_mode
  fm_approvalStatus :: approval_status
  fm_startedAt :: int
  fm_endedAt :: "int option"

record focus_input =
  fi_sessions :: "focus_session list"
  fi_presence :: "focus_presence list"
  fi_breakRecords :: "focus_break_record list"
  fi_meetingRecords :: "focus_meeting_record list"
  fi_away :: "focus_away list"
  fi_bufferMin :: int
  fi_coverage :: "focus_coverage list"
  fi_adjustedSec :: int
  fi_now :: int

record focus_breakdown =
  focusSec :: int
  running :: bool
  spanSec :: int
  breakSec :: int
  meetingSec :: int
  approvedPlusSec :: int
  pendingPlusSec :: int
  rejectedMinusSec :: int
  pendingMinusSec :: int
  scheduledTakenSec :: int
  paidScheduledSec :: int
  overrunSec :: int
  quickBreakSec :: int
  otherBreakSec :: int
  bufferUsedSec :: int
  paidBreakSec :: int
  unpaidBreakSec :: int
  awayPendingSec :: int
  awayApprovedSec :: int
  awayRejectedSec :: int
  awayUnexplainedSec :: int
  unverifiedSec :: int
  paidSec :: int
  adjustedSec :: int

definition EMPTY_FOCUS :: focus_breakdown where
  "EMPTY_FOCUS =
     \<lparr>focusSec = 0, running = False, spanSec = 0, breakSec = 0, meetingSec = 0, approvedPlusSec = 0,
      pendingPlusSec = 0, rejectedMinusSec = 0, pendingMinusSec = 0, scheduledTakenSec = 0,
      paidScheduledSec = 0, overrunSec = 0, quickBreakSec = 0, otherBreakSec = 0, bufferUsedSec = 0,
      paidBreakSec = 0, unpaidBreakSec = 0, awayPendingSec = 0, awayApprovedSec = 0,
      awayRejectedSec = 0, awayUnexplainedSec = 0, unverifiedSec = 0, paidSec = 0, adjustedSec = 0\<rparr>"

section \<open>Intervals on whole seconds\<close>

definition wholeSecond :: "int \<Rightarrow> int" where
  "wholeSecond ms = ms div 1000 * 1000"

definition wholeSpan :: "int \<Rightarrow> int option \<Rightarrow> int \<Rightarrow> interval" where
  "wholeSpan s e now =
     (let s' = wholeSecond s; e' = wholeSecond (coalesce e now) in ivl s' (max s' e'))"

definition is_break_presence :: "focus_presence \<Rightarrow> bool" where
  "is_break_presence p = (fp_type p = PBreak \<or> fp_type p = PLunch)"

definition session_span :: "int \<Rightarrow> focus_session \<Rightarrow> interval" where
  "session_span now s = wholeSpan (fs_startedAt s) (fs_endedAt s) now"

definition presence_span :: "int \<Rightarrow> focus_presence \<Rightarrow> interval" where
  "presence_span now p = wholeSpan (fp_startedAt p) (fp_endedAt p) now"

definition away_span :: "int \<Rightarrow> focus_away \<Rightarrow> interval" where
  "away_span now a = wholeSpan (fa_startedAt a) (fa_endedAt a) now"

definition meeting_span :: "int \<Rightarrow> focus_meeting_record \<Rightarrow> interval" where
  "meeting_span now m = wholeSpan (fm_startedAt m) (fm_endedAt m) now"

definition focus_work :: "focus_input \<Rightarrow> interval list" where
  "focus_work i = normalize (map (session_span (fi_now i)) (fi_sessions i))"

definition focus_breaks :: "focus_input \<Rightarrow> interval list" where
  "focus_breaks i = map (presence_span (fi_now i)) (filter is_break_presence (fi_presence i))"

definition focus_meetings :: "focus_input \<Rightarrow> interval list" where
  "focus_meetings i =
     map (presence_span (fi_now i)) (filter (\<lambda>p. fp_type p = PMeeting) (fi_presence i))
     @ map (meeting_span (fi_now i)) (filter (\<lambda>m. fm_mode m = PastMeeting) (fi_meetingRecords i))"

definition break_in_work :: "focus_input \<Rightarrow> interval list" where
  "break_in_work i = intersect (focus_work i) (focus_breaks i)"

section \<open>The loop over the break records\<close>

record break_tally =
  t_approvedPlus :: int
  t_pendingPlus :: int
  t_rejectedMinus :: int
  t_pendingMinus :: int
  t_scheduledTaken :: int
  t_paidScheduled :: int
  t_overrun :: int
  t_quick :: int

definition no_tally :: break_tally where
  "no_tally = \<lparr>t_approvedPlus = 0, t_pendingPlus = 0, t_rejectedMinus = 0, t_pendingMinus = 0,
     t_scheduledTaken = 0, t_paidScheduled = 0, t_overrun = 0, t_quick = 0\<rparr>"

definition isSkip :: "focus_break_record \<Rightarrow> bool" where
  "isSkip r = (fb_outcome r = Skipped \<or> fb_outcome r = AutoSkipped)"

definition SCHEDULED_KINDS :: "break_kind set" where
  "SCHEDULED_KINDS = {Morning, Lunch, Evening}"

text \<open>The first half of the loop body: asks and skips by approval status.\<close>

definition tally_approval :: "focus_break_record \<Rightarrow> break_tally \<Rightarrow> break_tally" where
  "tally_approval r t =
     (if fb_outcome r = Taken \<and> fb_overrunAsked r then
        (let plus = max 0 (coalesce (fb_overrunSec r) 0) in
         if fb_approvalStatus r = Approved then t\<lparr>t_approvedPlus := t_approvedPlus t + plus\<rparr>
         else if fb_approvalStatus r = Pending then t\<lparr>t_pendingPlus := t_pendingPlus t + plus\<rparr>
         else t)
      else if isSkip r then
        (let minus = max 0 (coalesce (fb_durationMin r) 0 * 60) in
         if fb_approvalStatus r = Rejected then t\<lparr>t_rejectedMinus := t_rejectedMinus t + minus\<rparr>
         else if fb_approvalStatus r = Pending then t\<lparr>t_pendingMinus := t_pendingMinus t + minus\<rparr>
         else t)
      else t)"

text \<open>The second half: the time of a taken break, as quick or scheduled.\<close>

definition tally_taken :: "interval list \<Rightarrow> int \<Rightarrow> focus_break_record \<Rightarrow> break_tally \<Rightarrow> break_tally" where
  "tally_taken work now r t =
     (if fb_outcome r \<noteq> Taken \<or> fb_segments r = [] then t
      else
        (let segs = map (\<lambda>g. wholeSpan (sg_startedAt g) (sg_endedAt g) now) (fb_segments r);
             taken = toSec (lengthMs (intersect work segs)) in
         case fb_kind r of
           None \<Rightarrow> t
         | Some Quick \<Rightarrow> t\<lparr>t_quick := t_quick t + taken\<rparr>
         | Some _ \<Rightarrow>
             (let lengthSec = max 0 (coalesce (fb_durationMin r) 0 * 60) in
              t\<lparr>t_scheduledTaken := t_scheduledTaken t + taken,
                t_paidScheduled := t_paidScheduled t + min taken lengthSec,
                t_overrun := t_overrun t + max 0 (taken - lengthSec)\<rparr>)))"

fun tally_breaks :: "interval list \<Rightarrow> int \<Rightarrow> focus_break_record list \<Rightarrow> break_tally \<Rightarrow> break_tally" where
  "tally_breaks work now [] t = t"
| "tally_breaks work now (r # rs) t =
     tally_breaks work now rs (tally_taken work now r (tally_approval r t))"

section \<open>The loop over the meeting records\<close>

text \<open>\<open>rejectedMinusSec\<close>, \<open>pendingMinusSec\<close> and the list of rejected meetings.\<close>

fun tally_meetings ::
  "interval list \<Rightarrow> int \<Rightarrow> focus_meeting_record list \<Rightarrow> int \<times> int \<times> interval list \<Rightarrow> int \<times> int \<times> interval list"
where
  "tally_meetings work now [] acc = acc"
| "tally_meetings work now (m # ms) (rej, pen, spans) =
     (if fm_approvalStatus m \<noteq> Rejected \<and> fm_approvalStatus m \<noteq> Pending
      then tally_meetings work now ms (rej, pen, spans)
      else
        (let inWork = intersect [meeting_span now m] work; minus = toSec (lengthMs inWork) in
         if fm_approvalStatus m = Rejected
         then tally_meetings work now ms (rej + minus, pen, spans @ inWork)
         else tally_meetings work now ms (rej, pen + minus, spans)))"

section \<open>Offline evidence\<close>

definition COVERAGE_JOIN_SEC :: int where
  "COVERAGE_JOIN_SEC = 120"

text \<open>The stretch from a session's edge to a piece of evidence near it, for one session and piece.\<close>

definition edges_of :: "int \<Rightarrow> interval \<Rightarrow> interval \<Rightarrow> interval list" where
  "edges_of join r c =
     (if i_end c < i_start r \<or> i_start c > i_end r then []
      else (if i_start c > i_start r \<and> i_start c - i_start r \<le> join
            then [ivl (i_start r) (i_start c)] else [])
           @ (if i_end c < i_end r \<and> i_end r - i_end c \<le> join
              then [ivl (i_end c) (i_end r)] else []))"

definition replay_spans :: "focus_input \<Rightarrow> interval list" where
  "replay_spans i = map (session_span (fi_now i)) (filter fs_replay (fi_sessions i))"

text \<open>\<open>covered\<close>: the joined pieces of evidence with the stretched edges.\<close>

definition evidence :: "focus_input \<Rightarrow> interval list \<Rightarrow> interval list" where
  "evidence i approved =
     (let join = COVERAGE_JOIN_SEC * 1000;
          pieces = joinGaps
            (map (\<lambda>c. wholeSpan (fc_startedAt c) (Some (fc_endedAt c)) (fi_now i)) (fi_coverage i) @ approved)
            join
      in normalize (pieces @ concat (map (\<lambda>r. concat (map (edges_of join r) pieces)) (replay_spans i))))"

definition unverifiedIntervals ::
  "focus_input \<Rightarrow> interval list \<Rightarrow> interval list \<Rightarrow> interval list \<Rightarrow> interval list" where
  "unverifiedIntervals i work explained approved =
     (let replay = replay_spans i in
      if replay = [] then []
      else
        (let replayWork = intersect work replay in
         if replayWork = [] then []
         else subtract (subtract replayWork (evidence i approved)) explained))"

section \<open>computeFocus\<close>

definition not_break :: "focus_input \<Rightarrow> interval list" where
  "not_break i = subtract (focus_work i) (break_in_work i)"

definition away_spans :: "focus_input \<Rightarrow> (away_status \<Rightarrow> bool) \<Rightarrow> interval list" where
  "away_spans i P = map (away_span (fi_now i)) (filter (\<lambda>a. P (fa_status a)) (fi_away i))"

definition awaySec :: "focus_input \<Rightarrow> away_status \<Rightarrow> int" where
  "awaySec i st = toSec (lengthMs (intersect (not_break i) (away_spans i (\<lambda>s. s = st))))"

definition approved_evidence :: "focus_input \<Rightarrow> interval list" where
  "approved_evidence i =
     away_spans i (\<lambda>s. s = AwApproved)
     @ map (meeting_span (fi_now i)) (filter (\<lambda>m. fm_approvalStatus m = Approved) (fi_meetingRecords i))"

text \<open>The sums of \<open>computeFocus\<close>, over the lengths and tallies measured before them.\<close>

definition focus_totals ::
  "int \<Rightarrow> int \<Rightarrow> int \<Rightarrow> int \<Rightarrow> int \<Rightarrow> break_tally \<Rightarrow> int \<times> int \<Rightarrow> (away_status \<Rightarrow> int) \<Rightarrow> int \<Rightarrow> int
   \<Rightarrow> bool \<Rightarrow> focus_breakdown" where
  "focus_totals adj bufferMin sp brk meet t mins away unverifiedAll unverifiedBreak runs =
     (let scheduledTaken = min (t_scheduledTaken t) brk;
          paidScheduled = min (t_paidScheduled t) scheduledTaken;
          quick = min (t_quick t) (max 0 (brk - scheduledTaken));
          other = max 0 (brk - scheduledTaken - quick);
          bufferSec = max 0 (bufferMin * 60);
          bufferUsed = min bufferSec (t_overrun t + quick + other);
          unverifiedWork = unverifiedAll - unverifiedBreak;
          paidBreak = max 0 (min (brk - unverifiedBreak) (paidScheduled + bufferUsed));
          unpaidBreak = max 0 (brk - paidBreak);
          paidScheduledShown = min paidScheduled paidBreak;
          bufferUsedShown = paidBreak - paidScheduledShown;
          focus = max 0 (adj + sp - brk - away AwPending - away AwRejected - away AwUnexplained
                         + t_approvedPlus t - fst mins - unverifiedWork)
      in \<lparr>focusSec = focus, running = runs, spanSec = sp, breakSec = brk, meetingSec = meet,
          approvedPlusSec = t_approvedPlus t, pendingPlusSec = t_pendingPlus t + away AwPending,
          rejectedMinusSec = fst mins, pendingMinusSec = snd mins,
          scheduledTakenSec = scheduledTaken, paidScheduledSec = paidScheduledShown,
          overrunSec = t_overrun t, quickBreakSec = quick, otherBreakSec = other,
          bufferUsedSec = bufferUsedShown, paidBreakSec = paidBreak, unpaidBreakSec = unpaidBreak,
          awayPendingSec = away AwPending, awayApprovedSec = away AwApproved,
          awayRejectedSec = away AwRejected, awayUnexplainedSec = away AwUnexplained,
          unverifiedSec = unverifiedWork, paidSec = focus + paidBreak, adjustedSec = adj\<rparr>)"

definition computeFocus :: "focus_input \<Rightarrow> focus_breakdown" where
  "computeFocus i =
     (let now = fi_now i; work = focus_work i; breakInW = break_in_work i;
          t = tally_breaks work now (fi_breakRecords i) no_tally;
          (rejMinus, penMinus, rejectedMeetings) =
            tally_meetings work now (fi_meetingRecords i) (t_rejectedMinus t, t_pendingMinus t, []);
          unverified = unverifiedIntervals i work
            (away_spans i (\<lambda>s. s \<noteq> AwApproved) @ rejectedMeetings) (approved_evidence i);
          isOpen = (\<exists>s \<in> set (fi_sessions i). fs_endedAt s = None);
          onBreak = (\<exists>p \<in> set (fi_presence i). fp_endedAt p = None \<and> is_break_presence p)
      in focus_totals (fi_adjustedSec i) (fi_bufferMin i) (toSec (lengthMs work))
           (toSec (lengthMs breakInW)) (toSec (lengthMs (intersect work (focus_meetings i))))
           t (rejMinus, penMinus) (awaySec i) (toSec (lengthMs unverified))
           (toSec (lengthMs (intersect unverified breakInW))) (isOpen \<and> \<not> onBreak))"

section \<open>Everything is a whole number of seconds\<close>

abbreviation secs :: "interval list \<Rightarrow> int" where
  "secs xs \<equiv> toSec (lengthMs xs)"

lemma whole_append [simp]: "whole (xs @ ys) \<longleftrightarrow> whole xs \<and> whole ys"
  by (auto simp: whole_def)

lemma whole_map: "(\<And>x. x \<in> set xs \<Longrightarrow> whole [f x]) \<Longrightarrow> whole (map f xs)"
  by (auto simp: whole_def)

lemma wholeSpan_dvd [simp]: "1000 dvd i_start (wholeSpan s e now)" "1000 dvd i_end (wholeSpan s e now)"
  by (auto simp: wholeSpan_def wholeSecond_def Let_def max_def)

lemma whole_maps [simp]:
  "whole (map (session_span now) ss)" "whole (map (presence_span now) ps)"
  "whole (map (away_span now) as)" "whole (map (meeting_span now) ms)"
  by (rule whole_map; simp add: session_span_def presence_span_def away_span_def meeting_span_def)+

lemma whole_stages [simp]:
  "whole (focus_work i)" "whole (focus_breaks i)" "whole (focus_meetings i)" "whole (break_in_work i)"
  "whole (not_break i)" "whole (away_spans i P)" "whole (approved_evidence i)" "whole (replay_spans i)"
  by (simp_all add: focus_work_def focus_breaks_def focus_meetings_def break_in_work_def not_break_def
      away_spans_def approved_evidence_def replay_spans_def)

lemma secs_exact: "whole xs \<Longrightarrow> 1000 * secs xs = int (card (pts xs))"
  by (metis toSec_exact whole_length lengthMs_card)

lemma toSec_mono: "a \<le> b \<Longrightarrow> toSec a \<le> toSec b"
  by (simp add: toSec_def round_div_mono)

lemma secs_nonneg [simp]: "0 \<le> secs xs"
  unfolding toSec_def by (rule round_div_nonneg) (simp_all add: iu.measure_nonneg)

lemma secs_mono: "pts a \<subseteq> pts b \<Longrightarrow> secs a \<le> secs b"
  by (rule toSec_mono [OF iu.measure_mono])

lemma secs_empty [simp]: "pts xs = {} \<Longrightarrow> secs xs = 0"
  by (simp add: lengthMs_card toSec_def)

lemma secs_split:
  assumes "whole a" "whole b"
  shows "secs (intersect a b) + secs (subtract a b) = secs a"
proof -
  have "1000 * (secs (intersect a b) + secs (subtract a b)) = 1000 * secs a"
    using assms iu.measure_split [of a b]
    by (simp add: distrib_left toSec_exact whole_length)
  then show ?thesis by simp
qed

lemma secs_disjoint:
  assumes "whole a" "whole b" "pts a \<inter> pts b = {}"
  shows "secs a + secs b = secs (a @ b)"
proof -
  have "1000 * (secs a + secs b) = 1000 * secs (a @ b)"
    using assms secs_exact [of "a @ b"]
    by (simp add: distrib_left secs_exact card_Un_disjoint del: secs_empty)
  then show ?thesis by simp
qed

section \<open>The evidence and what it leaves\<close>

lemma pts_unverified:
  "pts (unverifiedIntervals i w ex ap) = pts w \<inter> pts (replay_spans i) - pts (evidence i ap) - pts ex"
proof (cases "intersect w (replay_spans i) = []")
  case True
  then have "pts w \<inter> pts (replay_spans i) = {}" by (metis pts_intersect pts_simps(1))
  then show ?thesis using True by (simp add: unverifiedIntervals_def Let_def)
next
  case False
  have "intersect w [] = []" by (simp add: canonical_unique)
  then have "replay_spans i \<noteq> []" using False by auto
  then show ?thesis using False by (simp add: unverifiedIntervals_def Let_def)
qed

lemma whole_edges: "1000 dvd i_start r \<Longrightarrow> 1000 dvd i_end r \<Longrightarrow> 1000 dvd i_start c \<Longrightarrow> 1000 dvd i_end c
  \<Longrightarrow> whole (edges_of g r c)"
  by (simp add: edges_of_def)

lemma whole_evidence:
  assumes "whole ap"
  shows "whole (evidence i ap)"
proof -
  define join where "join = COVERAGE_JOIN_SEC * 1000"
  define pieces where "pieces = joinGaps
    (map (\<lambda>c. wholeSpan (fc_startedAt c) (Some (fc_endedAt c)) (fi_now i)) (fi_coverage i) @ ap) join"
  have p: "whole pieces" unfolding pieces_def
    by (intro whole_joinGaps) (simp add: assms, rule whole_map, simp)
  have "whole (concat (map (edges_of join r) pieces))" if "r \<in> set (replay_spans i)" for r
    using whole_elem [OF p] whole_elem [OF whole_stages(8) that] by (intro whole_concat whole_edges) auto
  then have "whole (concat (map (\<lambda>r. concat (map (edges_of join r) pieces)) (replay_spans i)))"
    by (rule whole_concat)
  then show ?thesis using p by (simp add: evidence_def Let_def join_def pieces_def)
qed

lemma whole_unverified: "whole w \<Longrightarrow> whole ex \<Longrightarrow> whole ap \<Longrightarrow> whole (unverifiedIntervals i w ex ap)"
  by (simp add: unverifiedIntervals_def Let_def whole_evidence)

lemma unverified_no_replay:
  "\<forall>s \<in> set (fi_sessions i). \<not> fs_replay s \<Longrightarrow> unverifiedIntervals i w ex ap = []"
  by (simp add: unverifiedIntervals_def replay_spans_def filter_empty_conv)

lemma concat_map_Nil [simp]: "concat (map (\<lambda>x. []) xs) = []"
  by (induction xs) simp_all

lemma evidence_none: "fi_coverage i = [] \<Longrightarrow> evidence i [] = []"
  by (simp add: evidence_def Let_def joinGaps_def normalize_def)

section \<open>The loops as sums\<close>

definition rejected_meeting_spans :: "interval list \<Rightarrow> int \<Rightarrow> focus_meeting_record list \<Rightarrow> interval list" where
  "rejected_meeting_spans work now ms =
     concat (map (\<lambda>m. intersect [meeting_span now m] work) (filter (\<lambda>m. fm_approvalStatus m = Rejected) ms))"

definition meeting_minus :: "approval_status \<Rightarrow> interval list \<Rightarrow> int \<Rightarrow> focus_meeting_record list \<Rightarrow> int" where
  "meeting_minus st work now ms =
     (\<Sum>m\<leftarrow>filter (\<lambda>m. fm_approvalStatus m = st) ms. secs (intersect [meeting_span now m] work))"

lemma tally_meetings_sums:
  "tally_meetings work now ms (r, p, s) =
     (r + meeting_minus Rejected work now ms, p + meeting_minus Pending work now ms,
      s @ rejected_meeting_spans work now ms)"
  by (induction ms arbitrary: r p s)
    (auto simp: meeting_minus_def rejected_meeting_spans_def Let_def)

lemma whole_meeting_span [simp]:
  "1000 dvd i_start (meeting_span now m)" "1000 dvd i_end (meeting_span now m)"
  by (simp_all add: meeting_span_def)

lemma whole_rejected_meetings: "whole work \<Longrightarrow> whole (rejected_meeting_spans work now ms)"
  unfolding rejected_meeting_spans_def by (rule whole_concat) (rule whole_intersect; simp)

lemma meeting_minus_nonneg: "0 \<le> meeting_minus st work now ms"
  unfolding meeting_minus_def by (rule sum_list_nonneg) auto

text \<open>What a break record's approval adds to each of the four sums.\<close>

definition ask_plus :: "approval_status \<Rightarrow> focus_break_record \<Rightarrow> int" where
  "ask_plus st r =
     (if fb_outcome r = Taken \<and> fb_overrunAsked r \<and> fb_approvalStatus r = st
      then max 0 (coalesce (fb_overrunSec r) 0) else 0)"

definition skip_minus :: "approval_status \<Rightarrow> focus_break_record \<Rightarrow> int" where
  "skip_minus st r =
     (if isSkip r \<and> fb_approvalStatus r = st then max 0 (coalesce (fb_durationMin r) 0 * 60) else 0)"

lemma tally_approval_sums [simp]:
  "t_approvedPlus (tally_approval r t) = t_approvedPlus t + ask_plus Approved r"
  "t_pendingPlus (tally_approval r t) = t_pendingPlus t + ask_plus Pending r"
  "t_rejectedMinus (tally_approval r t) = t_rejectedMinus t + skip_minus Rejected r"
  "t_pendingMinus (tally_approval r t) = t_pendingMinus t + skip_minus Pending r"
  "t_scheduledTaken (tally_approval r t) = t_scheduledTaken t"
  "t_paidScheduled (tally_approval r t) = t_paidScheduled t"
  "t_overrun (tally_approval r t) = t_overrun t"
  "t_quick (tally_approval r t) = t_quick t"
  by (auto simp: tally_approval_def ask_plus_def skip_minus_def isSkip_def Let_def)

lemma tally_taken_sums [simp]:
  "t_approvedPlus (tally_taken work now r t) = t_approvedPlus t"
  "t_pendingPlus (tally_taken work now r t) = t_pendingPlus t"
  "t_rejectedMinus (tally_taken work now r t) = t_rejectedMinus t"
  "t_pendingMinus (tally_taken work now r t) = t_pendingMinus t"
  by (auto simp: tally_taken_def Let_def split: option.splits break_kind.splits)

lemma tally_taken_mono:
  "t_scheduledTaken t \<le> t_scheduledTaken (tally_taken work now r t)"
  "t_paidScheduled t \<le> t_paidScheduled (tally_taken work now r t)"
  "t_overrun t \<le> t_overrun (tally_taken work now r t)"
  "t_quick t \<le> t_quick (tally_taken work now r t)"
  by (auto simp: tally_taken_def Let_def split: option.splits break_kind.splits)

lemma tally_breaks_sums:
  "t_approvedPlus (tally_breaks work now rs t) = t_approvedPlus t + sum_list (map (ask_plus Approved) rs)"
  "t_pendingPlus (tally_breaks work now rs t) = t_pendingPlus t + sum_list (map (ask_plus Pending) rs)"
  "t_rejectedMinus (tally_breaks work now rs t) = t_rejectedMinus t + sum_list (map (skip_minus Rejected) rs)"
  "t_pendingMinus (tally_breaks work now rs t) = t_pendingMinus t + sum_list (map (skip_minus Pending) rs)"
  by (induction rs arbitrary: t) simp_all

lemma tally_breaks_mono:
  "t_scheduledTaken t \<le> t_scheduledTaken (tally_breaks work now rs t)
   \<and> t_paidScheduled t \<le> t_paidScheduled (tally_breaks work now rs t)
   \<and> t_overrun t \<le> t_overrun (tally_breaks work now rs t)
   \<and> t_quick t \<le> t_quick (tally_breaks work now rs t)"
proof (induction rs arbitrary: t)
  case (Cons r rs)
  show ?case
    using Cons [of "tally_taken work now r (tally_approval r t)"]
      tally_taken_mono [of "tally_approval r t" work now r] by simp
qed simp

lemma ask_plus_nonneg: "0 \<le> ask_plus st r" and skip_minus_nonneg: "0 \<le> skip_minus st r"
  by (simp_all add: ask_plus_def skip_minus_def)

section \<open>The fields of the breakdown\<close>

abbreviation tally :: "focus_input \<Rightarrow> break_tally" where
  "tally i \<equiv> tally_breaks (focus_work i) (fi_now i) (fi_breakRecords i) no_tally"

definition explained :: "focus_input \<Rightarrow> interval list" where
  "explained i = away_spans i (\<lambda>s. s \<noteq> AwApproved)
     @ rejected_meeting_spans (focus_work i) (fi_now i) (fi_meetingRecords i)"

definition unverified :: "focus_input \<Rightarrow> interval list" where
  "unverified i = unverifiedIntervals i (focus_work i) (explained i) (approved_evidence i)"

lemma whole_unverified' [simp]: "whole (unverified i)"
  by (simp add: unverified_def explained_def whole_unverified whole_rejected_meetings)

definition rejected_minus :: "focus_input \<Rightarrow> int" where
  "rejected_minus i = sum_list (map (skip_minus Rejected) (fi_breakRecords i))
     + meeting_minus Rejected (focus_work i) (fi_now i) (fi_meetingRecords i)"

definition pending_minus :: "focus_input \<Rightarrow> int" where
  "pending_minus i = sum_list (map (skip_minus Pending) (fi_breakRecords i))
     + meeting_minus Pending (focus_work i) (fi_now i) (fi_meetingRecords i)"

definition approved_plus :: "focus_input \<Rightarrow> int" where
  "approved_plus i = sum_list (map (ask_plus Approved) (fi_breakRecords i))"

definition pending_plus :: "focus_input \<Rightarrow> int" where
  "pending_plus i = sum_list (map (ask_plus Pending) (fi_breakRecords i))"

lemma no_tally_zero [simp]:
  "t_approvedPlus no_tally = 0" "t_pendingPlus no_tally = 0" "t_rejectedMinus no_tally = 0"
  "t_pendingMinus no_tally = 0" "t_scheduledTaken no_tally = 0" "t_paidScheduled no_tally = 0"
  "t_overrun no_tally = 0" "t_quick no_tally = 0"
  by (simp_all add: no_tally_def)

lemma computeFocus_totals:
  "computeFocus i = focus_totals (fi_adjustedSec i) (fi_bufferMin i) (secs (focus_work i))
     (secs (break_in_work i)) (secs (intersect (focus_work i) (focus_meetings i))) (tally i)
     (rejected_minus i, pending_minus i) (awaySec i) (secs (unverified i))
     (secs (intersect (unverified i) (break_in_work i)))
     ((\<exists>s \<in> set (fi_sessions i). fs_endedAt s = None)
      \<and> \<not> (\<exists>p \<in> set (fi_presence i). fp_endedAt p = None \<and> is_break_presence p))"
  by (simp only: computeFocus_def Let_def tally_meetings_sums tally_breaks_sums prod.case
      rejected_minus_def pending_minus_def unverified_def explained_def append_Nil no_tally_zero add_0_left)

lemma focus_totals_fields:
  fixes adj bufferMin sp brk meet t mins away ua ub runs
  defines "F \<equiv> focus_totals adj bufferMin sp brk meet t mins away ua ub runs"
  shows "spanSec F = sp" "breakSec F = brk" "meetingSec F = meet" "approvedPlusSec F = t_approvedPlus t"
    "pendingPlusSec F = t_pendingPlus t + away AwPending" "rejectedMinusSec F = fst mins"
    "pendingMinusSec F = snd mins" "awayPendingSec F = away AwPending"
    "awayApprovedSec F = away AwApproved" "awayRejectedSec F = away AwRejected"
    "awayUnexplainedSec F = away AwUnexplained" "unverifiedSec F = ua - ub" "adjustedSec F = adj"
    "overrunSec F = t_overrun t" "paidSec F = focusSec F + paidBreakSec F" "running F = runs"
    "focusSec F = max 0 (adj + sp - brk - away AwPending - away AwRejected - away AwUnexplained
       + t_approvedPlus t - fst mins - (ua - ub))"
  by (simp_all only: F_def focus_totals_def Let_def focus_breakdown.select_convs)

lemma approved_plus_tally: "t_approvedPlus (tally i) = approved_plus i"
  "t_pendingPlus (tally i) = pending_plus i"
  by (simp_all add: tally_breaks_sums approved_plus_def pending_plus_def)

lemma computeFocus_sums:
  "spanSec (computeFocus i) = secs (focus_work i)"
  "breakSec (computeFocus i) = secs (break_in_work i)"
  "approvedPlusSec (computeFocus i) = approved_plus i"
  "pendingPlusSec (computeFocus i) = pending_plus i + awaySec i AwPending"
  "rejectedMinusSec (computeFocus i) = rejected_minus i"
  "pendingMinusSec (computeFocus i) = pending_minus i"
  "awayPendingSec (computeFocus i) = awaySec i AwPending"
  "awayApprovedSec (computeFocus i) = awaySec i AwApproved"
  "awayRejectedSec (computeFocus i) = awaySec i AwRejected"
  "awayUnexplainedSec (computeFocus i) = awaySec i AwUnexplained"
  "unverifiedSec (computeFocus i) = secs (unverified i) - secs (intersect (unverified i) (break_in_work i))"
  "meetingSec (computeFocus i) = secs (intersect (focus_work i) (focus_meetings i))"
  "adjustedSec (computeFocus i) = fi_adjustedSec i"
  "paidSec (computeFocus i) = focusSec (computeFocus i) + paidBreakSec (computeFocus i)"
  by (simp_all only: computeFocus_totals focus_totals_fields approved_plus_tally fst_conv snd_conv)

lemma focusSec_formula:
  "focusSec (computeFocus i) = max 0 (fi_adjustedSec i + spanSec (computeFocus i) - breakSec (computeFocus i)
     - awayPendingSec (computeFocus i) - awayRejectedSec (computeFocus i) - awayUnexplainedSec (computeFocus i)
     + approvedPlusSec (computeFocus i) - rejectedMinusSec (computeFocus i) - unverifiedSec (computeFocus i))"
  by (simp only: computeFocus_totals focus_totals_fields)

lemma focus_totals_breaks:
  fixes adj bufferMin sp brk meet t mins away ua ub runs
  defines "F \<equiv> focus_totals adj bufferMin sp brk meet t mins away ua ub runs"
  shows "scheduledTakenSec F = min (t_scheduledTaken t) brk"
    "quickBreakSec F = min (t_quick t) (max 0 (brk - scheduledTakenSec F))"
    "otherBreakSec F = max 0 (brk - scheduledTakenSec F - quickBreakSec F)"
    "paidBreakSec F = max 0 (min (brk - ub) (min (t_paidScheduled t) (scheduledTakenSec F)
       + min (max 0 (bufferMin * 60)) (t_overrun t + quickBreakSec F + otherBreakSec F)))"
    "unpaidBreakSec F = max 0 (brk - paidBreakSec F)"
    "paidScheduledSec F = min (min (t_paidScheduled t) (scheduledTakenSec F)) (paidBreakSec F)"
    "bufferUsedSec F = paidBreakSec F - paidScheduledSec F"
  by (simp_all only: F_def focus_totals_def Let_def focus_breakdown.select_convs)

lemma computeFocus_breaks:
  fixes i :: focus_input
  defines "f \<equiv> computeFocus i"
  shows "scheduledTakenSec f = min (t_scheduledTaken (tally i)) (breakSec f)"
    "quickBreakSec f = min (t_quick (tally i)) (max 0 (breakSec f - scheduledTakenSec f))"
    "otherBreakSec f = max 0 (breakSec f - scheduledTakenSec f - quickBreakSec f)"
    "paidBreakSec f = max 0 (min (breakSec f - secs (intersect (unverified i) (break_in_work i)))
       (min (t_paidScheduled (tally i)) (scheduledTakenSec f)
        + min (max 0 (fi_bufferMin i * 60)) (t_overrun (tally i) + quickBreakSec f + otherBreakSec f)))"
    "unpaidBreakSec f = max 0 (breakSec f - paidBreakSec f)"
    "paidScheduledSec f = min (min (t_paidScheduled (tally i)) (scheduledTakenSec f)) (paidBreakSec f)"
    "bufferUsedSec f = paidBreakSec f - paidScheduledSec f"
  unfolding f_def computeFocus_totals
  by (simp_all only: focus_totals_breaks focus_totals_fields)

lemma tally_nonneg:
  "0 \<le> t_scheduledTaken (tally i)" "0 \<le> t_paidScheduled (tally i)" "0 \<le> t_overrun (tally i)"
  "0 \<le> t_quick (tally i)"
  using tally_breaks_mono [of no_tally "focus_work i" "fi_now i" "fi_breakRecords i"] by simp_all

lemma awaySec_nonneg [simp]: "0 \<le> awaySec i st"
  by (simp add: awaySec_def)

lemma unverified_break_le:
  "0 \<le> secs (intersect (unverified i) (break_in_work i))"
  "secs (intersect (unverified i) (break_in_work i)) \<le> secs (unverified i)"
  "secs (intersect (unverified i) (break_in_work i)) \<le> secs (break_in_work i)"
  by (auto intro!: secs_mono)

lemma break_le_span: "secs (break_in_work i) \<le> secs (focus_work i)"
  by (rule secs_mono) (simp add: break_in_work_def)

lemma unverifiedSec_measure:
  "unverifiedSec (computeFocus i) = secs (subtract (unverified i) (break_in_work i))"
  using secs_split [of "unverified i" "break_in_work i"] by (simp add: computeFocus_sums)

lemma paid_break_le: "paidBreakSec (computeFocus i) \<le> breakSec (computeFocus i)"
  and paid_break_nonneg: "0 \<le> paidBreakSec (computeFocus i)"
proof -
  let ?b = "secs (break_in_work i)" and ?u = "secs (intersect (unverified i) (break_in_work i))"
  obtain x where x: "paidBreakSec (computeFocus i) = max 0 (min (?b - ?u) x)"
    unfolding computeFocus_totals focus_totals_breaks(4) by blast
  show "paidBreakSec (computeFocus i) \<le> breakSec (computeFocus i)" "0 \<le> paidBreakSec (computeFocus i)"
    using unverified_break_le [of i] secs_nonneg [of "break_in_work i"]
    unfolding x computeFocus_sums by linarith+
qed

lemma away_disjoint_unverified:
  assumes "st \<noteq> AwApproved"
  shows "pts (subtract (unverified i) b) \<inter> pts (away_spans i (\<lambda>s. s = st)) = {}"
proof -
  have "pts (away_spans i (\<lambda>s. s = st)) \<subseteq> pts (explained i)"
    using assms by (auto simp: explained_def away_spans_def pts_def)
  then show ?thesis by (auto simp: unverified_def pts_unverified)
qed

lemma focus_parts_fit:
  assumes "\<And>st st'. st \<noteq> st' \<Longrightarrow> pts (away_spans i (\<lambda>s. s = st)) \<inter> pts (away_spans i (\<lambda>s. s = st')) = {}"
  shows "secs (break_in_work i) + awaySec i AwPending + awaySec i AwRejected + awaySec i AwUnexplained
    + secs (subtract (unverified i) (break_in_work i)) \<le> secs (focus_work i)"
proof -
  let ?A = "\<lambda>st. intersect (not_break i) (away_spans i (\<lambda>s. s = st))"
  let ?U = "subtract (unverified i) (break_in_work i)" and ?B = "break_in_work i"
  have U: "pts ?U \<subseteq> pts (focus_work i)" "pts ?U \<inter> pts ?B = {}"
    by (auto simp: unverified_def pts_unverified)
  have N: "pts (not_break i) = pts (focus_work i) - pts ?B" by (simp add: not_break_def)
  have "secs ?B + secs (?A AwPending) = secs (?B @ ?A AwPending)"
    by (rule secs_disjoint) (auto simp: N)
  moreover have "secs (?B @ ?A AwPending) + secs (?A AwRejected) = secs ((?B @ ?A AwPending) @ ?A AwRejected)"
    using assms [of AwPending AwRejected] by (intro secs_disjoint) (auto simp: N)
  moreover have "secs ((?B @ ?A AwPending) @ ?A AwRejected) + secs (?A AwUnexplained)
      = secs (((?B @ ?A AwPending) @ ?A AwRejected) @ ?A AwUnexplained)"
    using assms [of AwPending AwUnexplained] assms [of AwRejected AwUnexplained]
    by (intro secs_disjoint) (auto simp: N)
  moreover have "secs (((?B @ ?A AwPending) @ ?A AwRejected) @ ?A AwUnexplained) + secs ?U
      = secs ((((?B @ ?A AwPending) @ ?A AwRejected) @ ?A AwUnexplained) @ ?U)"
    using U away_disjoint_unverified [of AwPending i ?B] away_disjoint_unverified [of AwRejected i ?B]
      away_disjoint_unverified [of AwUnexplained i ?B]
    by (intro secs_disjoint) (auto simp: N)
  moreover have "secs ((((?B @ ?A AwPending) @ ?A AwRejected) @ ?A AwUnexplained) @ ?U) \<le> secs (focus_work i)"
    using U by (intro secs_mono) (auto simp: N break_in_work_def)
  ultimately show ?thesis unfolding awaySec_def by linarith
qed

lemma paidSec_le_span:
  "paidSec (computeFocus i) \<le> spanSec (computeFocus i) + max 0 (fi_adjustedSec i + approvedPlusSec (computeFocus i))"
proof -
  have "0 \<le> unverifiedSec (computeFocus i)" unfolding unverifiedSec_measure by (rule secs_nonneg)
  moreover have "0 \<le> rejectedMinusSec (computeFocus i)"
    unfolding computeFocus_sums rejected_minus_def
    by (intro add_nonneg_nonneg meeting_minus_nonneg sum_list_nonneg) (auto simp: skip_minus_nonneg)
  moreover have "breakSec (computeFocus i) \<le> spanSec (computeFocus i)"
    unfolding computeFocus_sums by (rule break_le_span)
  moreover have "0 \<le> awayPendingSec (computeFocus i)" "0 \<le> awayRejectedSec (computeFocus i)"
    "0 \<le> awayUnexplainedSec (computeFocus i)" unfolding computeFocus_sums by simp_all
  ultimately show ?thesis
    unfolding computeFocus_sums(14) using paid_break_le [of i] focusSec_formula [of i] by linarith
qed

section \<open>How far evidence reaches\<close>

lemma merge_loop_ends:
  assumes "c \<in> set (merge_loop J out is)"
  shows "i_start c \<in> i_start ` set (out @ is) \<and> i_end c \<in> i_end ` set (out @ is)"
  using assms
proof (induction J out "is" rule: merge_loop.induct)
  case (3 J prev out i "is")
  let ?p = "prev\<lparr>i_end := max (i_end prev) (i_end i)\<rparr>"
  have "i_start ` set ((?p # out) @ is) \<subseteq> i_start ` set ((prev # out) @ i # is)"
    "i_end ` set ((?p # out) @ is) \<subseteq> i_end ` set ((prev # out) @ i # is)"
    by (auto simp: max_def)
  moreover have "i_start ` set ((ivl (i_start i) (i_end i) # prev # out) @ is) \<subseteq> i_start ` set ((prev # out) @ i # is)"
    "i_end ` set ((ivl (i_start i) (i_end i) # prev # out) @ is) \<subseteq> i_end ` set ((prev # out) @ i # is)"
    by auto
  ultimately show ?case using 3 by (auto split: if_splits)
qed auto

lemma joinGaps_ends:
  assumes "c \<in> set (joinGaps xs g)"
  shows "i_start c \<in> i_start ` set xs" "i_end c \<in> i_end ` set xs"
  using merge_loop_ends [OF assms [unfolded joinGaps_def]] by auto

definition raw_evidence :: "focus_input \<Rightarrow> interval list" where
  "raw_evidence i =
     map (\<lambda>c. wholeSpan (fc_startedAt c) (Some (fc_endedAt c)) (fi_now i)) (fi_coverage i)
     @ approved_evidence i"

definition near_evidence :: "focus_input \<Rightarrow> int set" where
  "near_evidence i = (\<Union>c \<in> set (raw_evidence i). {i_start c - 120000 .. i_end c + 120000})"

lemma wholeSpan_ordered [simp]: "i_start (wholeSpan s e now) \<le> i_end (wholeSpan s e now)"
  by (simp add: wholeSpan_def Let_def)

lemma raw_evidence_ordered: "c \<in> set (raw_evidence i) \<Longrightarrow> i_start c \<le> i_end c"
  by (auto simp: raw_evidence_def approved_evidence_def away_spans_def away_span_def meeting_span_def)

lemma evidence_raw:
  "evidence i (approved_evidence i) =
     (let pieces = joinGaps (raw_evidence i) 120000
      in normalize (pieces @ concat (map (\<lambda>r. concat (map (edges_of 120000 r) pieces)) (replay_spans i))))"
  by (simp add: evidence_def raw_evidence_def COVERAGE_JOIN_SEC_def)

lemma evidence_covers_raw: "pts (raw_evidence i) \<subseteq> pts (evidence i (approved_evidence i))"
  using joinGaps_covers [of "raw_evidence i" 120000] by (auto simp: evidence_raw Let_def)

lemma joined_near:
  assumes "p \<in> pts (joinGaps (raw_evidence i) 120000)"
  shows "p \<in> near_evidence i"
  using joinGaps_bridges [OF assms]
proof
  assume "p \<in> pts (raw_evidence i)"
  then show ?thesis by (force simp: near_evidence_def pts_def)
next
  assume "bridged {} (raw_evidence i) 120000 p"
  then obtain e j where "j \<in> set (raw_evidence i)" "e \<le> p" "p < i_start j" "i_start j - e \<le> 120000"
    by (auto simp: bridged_def)
  then show ?thesis using raw_evidence_ordered [of j i] by (force simp: near_evidence_def)
qed

lemma edge_near:
  assumes "c \<in> set (joinGaps (raw_evidence i) 120000)" "p \<in> pts (edges_of 120000 r c)"
  shows "p \<in> near_evidence i"
proof -
  obtain a b where a: "a \<in> set (raw_evidence i)" "i_start c = i_start a"
    and b: "b \<in> set (raw_evidence i)" "i_end c = i_end b"
    using joinGaps_ends [OF assms(1)] by auto
  have "i_start a \<le> i_end a" "i_start b \<le> i_end b" using a b raw_evidence_ordered by auto
  then have "p \<in> {i_start a - 120000 .. i_end a + 120000} \<or> p \<in> {i_start b - 120000 .. i_end b + 120000}"
    using assms(2) a b by (auto simp: edges_of_def split: if_splits)
  then show ?thesis using a b by (auto simp: near_evidence_def)
qed

lemma pts_concat_map: "p \<in> pts (concat (map f xs)) \<longleftrightarrow> (\<exists>x \<in> set xs. p \<in> pts (f x))"
  by (auto simp: pts_def)

lemma evidence_near: "pts (evidence i (approved_evidence i)) \<subseteq> near_evidence i"
proof
  fix p
  assume "p \<in> pts (evidence i (approved_evidence i))"
  then have "p \<in> pts (joinGaps (raw_evidence i) 120000) \<or>
      (\<exists>r. \<exists>c \<in> set (joinGaps (raw_evidence i) 120000). p \<in> pts (edges_of 120000 r c))"
    by (auto simp: evidence_raw Let_def pts_concat_map)
  then show "p \<in> near_evidence i" using joined_near edge_near by blast
qed

section \<open>Decisions\<close>

text \<open>Approving every pending away stretch and overrun ask; rejecting every pending skip and meeting.\<close>

definition approve_away :: "focus_away \<Rightarrow> focus_away" where
  "approve_away a = (if fa_status a = AwPending then a\<lparr>fa_status := AwApproved\<rparr> else a)"

definition approve_ask :: "focus_break_record \<Rightarrow> focus_break_record" where
  "approve_ask r = (if fb_outcome r = Taken \<and> fb_overrunAsked r \<and> fb_approvalStatus r = Pending
     then r\<lparr>fb_approvalStatus := Approved\<rparr> else r)"

definition approve_all :: "focus_input \<Rightarrow> focus_input" where
  "approve_all i = i\<lparr>fi_away := map approve_away (fi_away i),
     fi_breakRecords := map approve_ask (fi_breakRecords i)\<rparr>"

definition reject_skip :: "focus_break_record \<Rightarrow> focus_break_record" where
  "reject_skip r = (if isSkip r \<and> fb_approvalStatus r = Pending
     then r\<lparr>fb_approvalStatus := Rejected\<rparr> else r)"

definition reject_meeting :: "focus_meeting_record \<Rightarrow> focus_meeting_record" where
  "reject_meeting m = (if fm_approvalStatus m = Pending then m\<lparr>fm_approvalStatus := Rejected\<rparr> else m)"

definition reject_all :: "focus_input \<Rightarrow> focus_input" where
  "reject_all i = i\<lparr>fi_meetingRecords := map reject_meeting (fi_meetingRecords i),
     fi_breakRecords := map reject_skip (fi_breakRecords i)\<rparr>"

lemma sum_list_add: "sum_list (map (\<lambda>x. f x + g x) xs) = sum_list (map f xs) + sum_list (map g xs)"
  for f g :: "'a \<Rightarrow> int"
  by (induction xs) simp_all

lemma approve_ask_sums:
  "ask_plus Approved (approve_ask r) = ask_plus Approved r + ask_plus Pending r"
  "skip_minus st (approve_ask r) = skip_minus st r"
  by (auto simp: approve_ask_def ask_plus_def skip_minus_def isSkip_def)

lemma reject_skip_sums:
  "skip_minus Rejected (reject_skip r) = skip_minus Rejected r + skip_minus Pending r"
  "ask_plus st (reject_skip r) = ask_plus st r"
  by (auto simp: reject_skip_def ask_plus_def skip_minus_def isSkip_def)

lemma reject_meeting_minus:
  "meeting_minus Rejected work now (map reject_meeting ms)
     = meeting_minus Rejected work now ms + meeting_minus Pending work now ms"
  by (induction ms) (auto simp: meeting_minus_def reject_meeting_def meeting_span_def)

lemma approve_away_filter:
  "away_spans (approve_all i) (\<lambda>s. s = AwPending) = []"
  "st \<noteq> AwPending \<Longrightarrow> st \<noteq> AwApproved \<Longrightarrow> away_spans (approve_all i) (\<lambda>s. s = st) = away_spans i (\<lambda>s. s = st)"
proof -
  have "filter (\<lambda>a. fa_status a = AwPending) (map approve_away as) = []" for as
    by (induction as) (auto simp: approve_away_def)
  then show "away_spans (approve_all i) (\<lambda>s. s = AwPending) = []"
    by (simp add: away_spans_def approve_all_def)
  assume st: "st \<noteq> AwPending" "st \<noteq> AwApproved"
  have "map (away_span now) (filter (\<lambda>a. fa_status a = st) (map approve_away as))
      = map (away_span now) (filter (\<lambda>a. fa_status a = st) as)" for now as
    using st by (induction as) (auto simp: approve_away_def away_span_def)
  then show "away_spans (approve_all i) (\<lambda>s. s = st) = away_spans i (\<lambda>s. s = st)"
    by (simp add: away_spans_def approve_all_def)
qed

lemma decisions_keep_work [simp]:
  "focus_work (approve_all i) = focus_work i" "break_in_work (approve_all i) = break_in_work i"
  "not_break (approve_all i) = not_break i"
  "focus_work (reject_all i) = focus_work i" "break_in_work (reject_all i) = break_in_work i"
  "not_break (reject_all i) = not_break i" "awaySec (reject_all i) st = awaySec i st"
  by (simp_all add: approve_all_def reject_all_def focus_work_def break_in_work_def focus_breaks_def
      not_break_def awaySec_def away_spans_def)

lemma no_replay_unverified:
  "\<forall>s \<in> set (fi_sessions i). \<not> fs_replay s \<Longrightarrow> unverifiedSec (computeFocus i) = 0"
  by (simp add: unverifiedSec_measure unverified_def unverified_no_replay)

lemma approve_all_focus:
  assumes "\<forall>s \<in> set (fi_sessions i). \<not> fs_replay s" "0 < focusSec (computeFocus i)"
  shows "focusSec (computeFocus (approve_all i)) = focusSec (computeFocus i) + pendingPlusSec (computeFocus i)"
proof -
  have s: "fi_sessions (approve_all i) = fi_sessions i" "fi_adjustedSec (approve_all i) = fi_adjustedSec i"
    "fi_now (approve_all i) = fi_now i" "fi_meetingRecords (approve_all i) = fi_meetingRecords i"
    by (simp_all add: approve_all_def)
  have u: "unverifiedSec (computeFocus i) = 0" "unverifiedSec (computeFocus (approve_all i)) = 0"
    using assms(1) s by (simp_all add: no_replay_unverified)
  have "approved_plus (approve_all i) = approved_plus i + pending_plus i"
    by (simp add: approved_plus_def pending_plus_def approve_all_def o_def approve_ask_sums sum_list_add)
  moreover have "rejected_minus (approve_all i) = rejected_minus i"
    by (simp add: rejected_minus_def s) (simp add: approve_all_def o_def approve_ask_sums)
  moreover have "awaySec (approve_all i) AwPending = 0"
    "awaySec (approve_all i) AwRejected = awaySec i AwRejected"
    "awaySec (approve_all i) AwUnexplained = awaySec i AwUnexplained"
    by (simp_all add: awaySec_def approve_away_filter)
  moreover have "0 \<le> pending_plus i" "0 \<le> awaySec i AwPending"
    unfolding pending_plus_def by (intro sum_list_nonneg) (auto simp: ask_plus_nonneg)
  ultimately show ?thesis
    using assms(2) u s focusSec_formula [of i] focusSec_formula [of "approve_all i"]
    unfolding computeFocus_sums decisions_keep_work by linarith
qed

lemma reject_all_focus:
  assumes "\<forall>s \<in> set (fi_sessions i). \<not> fs_replay s" "0 < focusSec (computeFocus i)"
  shows "focusSec (computeFocus (reject_all i)) = max 0 (focusSec (computeFocus i) - pendingMinusSec (computeFocus i))"
proof -
  have s: "fi_sessions (reject_all i) = fi_sessions i" "fi_adjustedSec (reject_all i) = fi_adjustedSec i"
    "fi_now (reject_all i) = fi_now i"
    by (simp_all add: reject_all_def)
  have u: "unverifiedSec (computeFocus i) = 0" "unverifiedSec (computeFocus (reject_all i)) = 0"
    using assms(1) s by (simp_all add: no_replay_unverified)
  have "approved_plus (reject_all i) = approved_plus i"
    by (simp add: approved_plus_def reject_all_def o_def reject_skip_sums)
  moreover have "rejected_minus (reject_all i) = rejected_minus i + pending_minus i"
    by (simp add: rejected_minus_def pending_minus_def s)
       (simp add: reject_all_def o_def reject_skip_sums sum_list_add reject_meeting_minus)
  ultimately show ?thesis
    using assms(2) u s focusSec_formula [of i] focusSec_formula [of "reject_all i"]
    unfolding computeFocus_sums decisions_keep_work by linarith
qed

section \<open>Properties\<close>

text \<open>The seconds of the working day a break record took, by kind; what of it lies beyond its length.\<close>

definition break_taken :: "focus_input \<Rightarrow> break_kind set \<Rightarrow> focus_break_record \<Rightarrow> int" where
  "break_taken i kinds r =
     (if fb_outcome r = Taken \<and> fb_kind r \<in> Some ` kinds
      then int (card (pts (map (session_span (fi_now i)) (fi_sessions i))
             \<inter> pts (map (\<lambda>g. wholeSpan (sg_startedAt g) (sg_endedAt g) (fi_now i)) (fb_segments r)))) div 1000
      else 0)"

definition break_length :: "focus_break_record \<Rightarrow> int" where
  "break_length r = max 0 (coalesce (fb_durationMin r) 0 * 60)"

lemma tally_taken_break:
  "t_scheduledTaken (tally_taken (focus_work i) (fi_now i) r t) = t_scheduledTaken t + break_taken i SCHEDULED_KINDS r"
  "t_paidScheduled (tally_taken (focus_work i) (fi_now i) r t) = t_paidScheduled t + min (break_taken i SCHEDULED_KINDS r) (break_length r)"
  "t_overrun (tally_taken (focus_work i) (fi_now i) r t) = t_overrun t + max 0 (break_taken i SCHEDULED_KINDS r - break_length r)"
  "t_quick (tally_taken (focus_work i) (fi_now i) r t) = t_quick t + break_taken i {Quick} r"
proof -
  let ?segs = "map (\<lambda>g. wholeSpan (sg_startedAt g) (sg_endedAt g) (fi_now i)) (fb_segments r)"
  have w: "whole ?segs" by (rule whole_map) simp
  have "1000 * secs (intersect (focus_work i) ?segs) = int (card (pts (intersect (focus_work i) ?segs)))"
    by (intro secs_exact whole_intersect w) simp
  then have c: "int (card (pts (map (session_span (fi_now i)) (fi_sessions i)) \<inter> pts ?segs)) div 1000 = secs (intersect (focus_work i) ?segs)"
    by (simp add: focus_work_def)
  have z: "secs (intersect (focus_work i) ?segs) = 0" if "fb_segments r = []" using that by (intro secs_empty) simp
  note d = tally_taken_def break_taken_def break_length_def SCHEDULED_KINDS_def c
  show "t_scheduledTaken (tally_taken (focus_work i) (fi_now i) r t) = t_scheduledTaken t + break_taken i SCHEDULED_KINDS r"
    "t_paidScheduled (tally_taken (focus_work i) (fi_now i) r t) = t_paidScheduled t + min (break_taken i SCHEDULED_KINDS r) (break_length r)"
    "t_overrun (tally_taken (focus_work i) (fi_now i) r t) = t_overrun t + max 0 (break_taken i SCHEDULED_KINDS r - break_length r)"
    "t_quick (tally_taken (focus_work i) (fi_now i) r t) = t_quick t + break_taken i {Quick} r"
    using z unfolding d by (auto simp: Let_def split: option.splits break_kind.splits)
qed

lemma tally_breaks_taken:
  "t_scheduledTaken (tally_breaks (focus_work i) (fi_now i) rs t) = t_scheduledTaken t + (\<Sum>r\<leftarrow>rs. break_taken i SCHEDULED_KINDS r)"
  "t_paidScheduled (tally_breaks (focus_work i) (fi_now i) rs t)
     = t_paidScheduled t + (\<Sum>r\<leftarrow>rs. min (break_taken i SCHEDULED_KINDS r) (break_length r))"
  "t_overrun (tally_breaks (focus_work i) (fi_now i) rs t)
     = t_overrun t + (\<Sum>r\<leftarrow>rs. max 0 (break_taken i SCHEDULED_KINDS r - break_length r))"
  "t_quick (tally_breaks (focus_work i) (fi_now i) rs t) = t_quick t + (\<Sum>r\<leftarrow>rs. break_taken i {Quick} r)"
  by (induction rs arbitrary: t) (simp_all add: tally_taken_break)

definition scheduled_taken :: "focus_input \<Rightarrow> int" where
  "scheduled_taken i = (\<Sum>r\<leftarrow>fi_breakRecords i. break_taken i SCHEDULED_KINDS r)"

definition within_length :: "focus_input \<Rightarrow> int" where
  "within_length i = (\<Sum>r\<leftarrow>fi_breakRecords i. min (break_taken i SCHEDULED_KINDS r) (break_length r))"

definition beyond_length :: "focus_input \<Rightarrow> int" where
  "beyond_length i = (\<Sum>r\<leftarrow>fi_breakRecords i. max 0 (break_taken i SCHEDULED_KINDS r - break_length r))"

definition quick_taken :: "focus_input \<Rightarrow> int" where
  "quick_taken i = (\<Sum>r\<leftarrow>fi_breakRecords i. break_taken i {Quick} r)"

lemma tally_taken_sums_of:
  "t_scheduledTaken (tally i) = scheduled_taken i" "t_paidScheduled (tally i) = within_length i"
  "t_overrun (tally i) = beyond_length i" "t_quick (tally i) = quick_taken i"
  by (simp_all add: tally_breaks_taken scheduled_taken_def within_length_def beyond_length_def quick_taken_def)

text \<open>The seconds by which the approvals of the day's records with one status change it: asks, skips, meetings.\<close>

definition asks_of :: "approval_status \<Rightarrow> focus_input \<Rightarrow> int" where
  "asks_of st i = (\<Sum>r\<leftarrow>fi_breakRecords i. ask_plus st r)"

definition skips_of :: "approval_status \<Rightarrow> focus_input \<Rightarrow> int" where
  "skips_of st i = (\<Sum>r\<leftarrow>fi_breakRecords i. skip_minus st r)"

definition meetings_of :: "approval_status \<Rightarrow> focus_input \<Rightarrow> int" where
  "meetings_of st i = (\<Sum>m\<leftarrow>filter (\<lambda>m. fm_approvalStatus m = st) (fi_meetingRecords i).
     int (card (pts (map (session_span (fi_now i)) (fi_sessions i)) \<inter> pts [meeting_span (fi_now i) m])) div 1000)"

lemma meeting_minus_of: "meeting_minus st (focus_work i) (fi_now i) (fi_meetingRecords i) = meetings_of st i"
proof -
  have "int (card (pts (map (session_span (fi_now i)) (fi_sessions i)) \<inter> pts [meeting_span (fi_now i) m])) div 1000
      = secs (intersect [meeting_span (fi_now i) m] (focus_work i))" for m
  proof -
    have "1000 * secs (intersect [meeting_span (fi_now i) m] (focus_work i)) = int (card (pts (intersect [meeting_span (fi_now i) m] (focus_work i))))"
      by (intro secs_exact whole_intersect) simp_all
    then show ?thesis by (simp add: focus_work_def Int_commute)
  qed
  then show ?thesis by (simp add: meeting_minus_def meetings_of_def)
qed

lemma focus_record_fields:
  "approvedPlusSec (computeFocus i) = asks_of Approved i"
  "pendingPlusSec (computeFocus i) = asks_of Pending i + awayPendingSec (computeFocus i)"
  "rejectedMinusSec (computeFocus i) = skips_of Rejected i + meetings_of Rejected i"
  "pendingMinusSec (computeFocus i) = skips_of Pending i + meetings_of Pending i"
  "overrunSec (computeFocus i) = beyond_length i"
  unfolding computeFocus_sums approved_plus_def pending_plus_def rejected_minus_def pending_minus_def asks_of_def skips_of_def
    meeting_minus_of
  by (simp_all only: computeFocus_totals focus_totals_fields tally_taken_sums_of)

lemma focus_time_fields:
  fixes i :: focus_input
  defines "W \<equiv> pts (map (session_span (fi_now i)) (fi_sessions i))"
    and "B \<equiv> pts (focus_breaks i)"
  defines "U \<equiv> W \<inter> pts (replay_spans i) - pts (evidence i (approved_evidence i)) - pts (explained i)"
  shows "1000 * spanSec (computeFocus i) = int (card W)"
    "1000 * breakSec (computeFocus i) = int (card (W \<inter> B))"
    "1000 * meetingSec (computeFocus i) = int (card (W \<inter> pts (focus_meetings i)))"
    "1000 * awayPendingSec (computeFocus i) = int (card ((W - B) \<inter> pts (away_spans i (\<lambda>s. s = AwPending))))"
    "1000 * awayApprovedSec (computeFocus i) = int (card ((W - B) \<inter> pts (away_spans i (\<lambda>s. s = AwApproved))))"
    "1000 * awayRejectedSec (computeFocus i) = int (card ((W - B) \<inter> pts (away_spans i (\<lambda>s. s = AwRejected))))"
    "1000 * awayUnexplainedSec (computeFocus i) = int (card ((W - B) \<inter> pts (away_spans i (\<lambda>s. s = AwUnexplained))))"
    "1000 * unverifiedSec (computeFocus i) = int (card (U - B))"
    "1000 * secs (intersect (unverified i) (break_in_work i)) = int (card (U \<inter> B))"
proof -
  have W: "pts (focus_work i) = W" by (simp add: focus_work_def W_def)
  have B: "pts (break_in_work i) = W \<inter> B" by (simp add: break_in_work_def W B_def)
  have N: "pts (not_break i) = W - B" by (auto simp: not_break_def W B)
  have U: "pts (unverified i) = U" by (simp add: U_def unverified_def pts_unverified W)
  have UW: "U \<subseteq> W" by (auto simp: U_def)
  have "1000 * unverifiedSec (computeFocus i) = int (card (pts (subtract (unverified i) (break_in_work i))))"
    unfolding unverifiedSec_measure by (rule secs_exact) simp
  moreover have "pts (subtract (unverified i) (break_in_work i)) = U - B" using UW by (auto simp: B U)
  ultimately show "1000 * unverifiedSec (computeFocus i) = int (card (U - B))" by simp
  have "pts (intersect (unverified i) (break_in_work i)) = U \<inter> B" using UW by (auto simp: B U)
  moreover have "1000 * secs (intersect (unverified i) (break_in_work i)) = int (card (pts (intersect (unverified i) (break_in_work i))))"
    by (rule secs_exact) simp
  ultimately show "1000 * secs (intersect (unverified i) (break_in_work i)) = int (card (U \<inter> B))" by simp
  show "1000 * spanSec (computeFocus i) = int (card W)"
    "1000 * breakSec (computeFocus i) = int (card (W \<inter> B))"
    "1000 * meetingSec (computeFocus i) = int (card (W \<inter> pts (focus_meetings i)))"
    "1000 * awayPendingSec (computeFocus i) = int (card ((W - B) \<inter> pts (away_spans i (\<lambda>s. s = AwPending))))"
    "1000 * awayApprovedSec (computeFocus i) = int (card ((W - B) \<inter> pts (away_spans i (\<lambda>s. s = AwApproved))))"
    "1000 * awayRejectedSec (computeFocus i) = int (card ((W - B) \<inter> pts (away_spans i (\<lambda>s. s = AwRejected))))"
    "1000 * awayUnexplainedSec (computeFocus i) = int (card ((W - B) \<inter> pts (away_spans i (\<lambda>s. s = AwUnexplained))))"
    unfolding computeFocus_sums(1,2,7,8,9,10,12) awaySec_def
    by (simp_all only: secs_exact whole_stages whole_intersect pts_intersect W B N Int_assoc simp_thms)
qed

text \<open>C21: every duration of the breakdown is what the comments of \<open>focus.ts\<close> define, exactly. With W the instants of the
  work sessions, B those of the breaks and U the part of W in REPLAY sessions that neither evidence, nor undecided or refused
  away time, nor a rejected meeting explains: \<open>spanSec\<close> is |W|, \<open>breakSec\<close> is |W and B|, \<open>meetingSec\<close> is |W and
  meetings|, each away number is |W less B, in the away stretches of that status|, and \<open>unverifiedSec\<close> is |U less B|;
  nothing is lost to rounding. The decisions add or take the asked overruns, the lengths of
  skips and the meeting time of their status; focus is span less break, less what is not approved away, plus
  approved, less rejected, less unverified, plus the manual adjustment, and never negative. A break is scheduled first, then
  quick, then other; its paid part is the scheduled time within the lengths plus at most the organisation's buffer, and never
  what U holds of it; paid time is focus plus the paid break.\<close>

theorem focus_measures_time:
  fixes i :: focus_input
  defines "W \<equiv> pts (map (session_span (fi_now i)) (fi_sessions i))"
    and "B \<equiv> pts (focus_breaks i)"
    and "f \<equiv> computeFocus i"
  defines "U \<equiv> W \<inter> pts (replay_spans i) - pts (evidence i (approved_evidence i)) - pts (explained i)"
  shows "1000 * spanSec f = int (card W)
    \<and> 1000 * breakSec f = int (card (W \<inter> B))
    \<and> 1000 * meetingSec f = int (card (W \<inter> pts (focus_meetings i)))
    \<and> 1000 * awayPendingSec f = int (card ((W - B) \<inter> pts (away_spans i (\<lambda>s. s = AwPending))))
    \<and> 1000 * awayApprovedSec f = int (card ((W - B) \<inter> pts (away_spans i (\<lambda>s. s = AwApproved))))
    \<and> 1000 * awayRejectedSec f = int (card ((W - B) \<inter> pts (away_spans i (\<lambda>s. s = AwRejected))))
    \<and> 1000 * awayUnexplainedSec f = int (card ((W - B) \<inter> pts (away_spans i (\<lambda>s. s = AwUnexplained))))
    \<and> 1000 * unverifiedSec f = int (card (U - B))
    \<and> approvedPlusSec f = asks_of Approved i \<and> pendingPlusSec f = asks_of Pending i + awayPendingSec f
    \<and> rejectedMinusSec f = skips_of Rejected i + meetings_of Rejected i
    \<and> pendingMinusSec f = skips_of Pending i + meetings_of Pending i
    \<and> adjustedSec f = fi_adjustedSec i
    \<and> focusSec f = max 0 (adjustedSec f + spanSec f - breakSec f - awayPendingSec f - awayRejectedSec f - awayUnexplainedSec f
         + approvedPlusSec f - rejectedMinusSec f - unverifiedSec f)
    \<and> scheduledTakenSec f = min (scheduled_taken i) (breakSec f)
    \<and> quickBreakSec f = min (quick_taken i) (breakSec f - scheduledTakenSec f)
    \<and> otherBreakSec f = breakSec f - scheduledTakenSec f - quickBreakSec f
    \<and> overrunSec f = beyond_length i
    \<and> paidBreakSec f = max 0 (min (breakSec f - int (card (U \<inter> B)) div 1000) (min (within_length i) (scheduledTakenSec f)
         + min (max 0 (fi_bufferMin i * 60)) (overrunSec f + quickBreakSec f + otherBreakSec f)))
    \<and> paidScheduledSec f = min (min (within_length i) (scheduledTakenSec f)) (paidBreakSec f)
    \<and> bufferUsedSec f = paidBreakSec f - paidScheduledSec f
    \<and> unpaidBreakSec f = breakSec f - paidBreakSec f
    \<and> paidSec f = focusSec f + paidBreakSec f"
proof -
  note t = focus_time_fields [of i, folded W_def B_def f_def, folded U_def] and r = focus_record_fields [of i, folded f_def]
    and k = computeFocus_breaks [of i, folded f_def, unfolded tally_taken_sums_of] and s = computeFocus_sums [of i, folded f_def]
    and q = tally_nonneg [of i, unfolded tally_taken_sums_of]
  have b: "0 \<le> breakSec f" unfolding s(2) by simp
  have st: "scheduledTakenSec f \<le> breakSec f" using k(1) by simp
  have "quickBreakSec f = min (quick_taken i) (breakSec f - scheduledTakenSec f)" using k(2) st by simp
  moreover from this have "otherBreakSec f = breakSec f - scheduledTakenSec f - quickBreakSec f" using k(3) by simp
  moreover have "unpaidBreakSec f = breakSec f - paidBreakSec f" using k(5) paid_break_le [of i, folded f_def] by simp
  moreover have "secs (intersect (unverified i) (break_in_work i)) = int (card (U \<inter> B)) div 1000" using t(9) by simp
  ultimately show ?thesis
    using t(1-8) r k(1,4,6,7) s(13,14) focusSec_formula [of i, folded f_def] by (simp only: simp_thms)
qed

text \<open>The break split adds up. Break time is scheduled plus quick plus other; it is paid plus
  unpaid, both non-negative; the paid part is scheduled minutes first, then at most the
  organisation's buffer; and paid time is focus plus paid break.\<close>

theorem focus_break_split:
  fixes i :: focus_input
  defines "f \<equiv> computeFocus i"
  shows "scheduledTakenSec f + quickBreakSec f + otherBreakSec f = breakSec f
    \<and> 0 \<le> paidBreakSec f \<and> 0 \<le> unpaidBreakSec f \<and> paidBreakSec f + unpaidBreakSec f = breakSec f
    \<and> paidScheduledSec f + bufferUsedSec f = paidBreakSec f
    \<and> 0 \<le> paidScheduledSec f \<and> paidScheduledSec f \<le> scheduledTakenSec f
    \<and> 0 \<le> bufferUsedSec f \<and> bufferUsedSec f \<le> max 0 (fi_bufferMin i * 60)
    \<and> 0 \<le> focusSec f \<and> paidSec f = focusSec f + paidBreakSec f"
proof -
  note eq = computeFocus_breaks [of i, folded f_def]
  have b: "0 \<le> breakSec f" by (simp add: f_def computeFocus_sums)
  have s: "0 \<le> scheduledTakenSec f" "scheduledTakenSec f \<le> breakSec f"
    using eq(1) b tally_nonneg(1) [of i] by linarith+
  have q: "0 \<le> quickBreakSec f" "scheduledTakenSec f + quickBreakSec f + otherBreakSec f = breakSec f"
    using eq(2,3) s tally_nonneg(4) [of i] by linarith+
  have p: "0 \<le> paidBreakSec f" "paidBreakSec f \<le> breakSec f"
    unfolding f_def by (rule paid_break_nonneg paid_break_le)+
  have u: "0 \<le> unpaidBreakSec f" "paidBreakSec f + unpaidBreakSec f = breakSec f"
    using eq(5) p by linarith+
  have h: "paidScheduledSec f + bufferUsedSec f = paidBreakSec f" using eq(7) by simp
  have k: "0 \<le> paidScheduledSec f" "paidScheduledSec f \<le> scheduledTakenSec f" "0 \<le> bufferUsedSec f"
    using eq(6) h p s tally_nonneg(2) [of i] by linarith+
  have "bufferUsedSec f \<le> max 0 (fi_bufferMin i * 60)"
  proof -
    define m where "m = min (t_paidScheduled (tally i)) (scheduledTakenSec f)"
    define bu where "bu = min (max 0 (fi_bufferMin i * 60)) (t_overrun (tally i) + quickBreakSec f + otherBreakSec f)"
    have "paidBreakSec f = max 0 (min (breakSec f - secs (intersect (unverified i) (break_in_work i))) (m + bu))"
      using eq(4) unfolding m_def bu_def .
    moreover have "paidScheduledSec f = min m (paidBreakSec f)" using eq(6) unfolding m_def .
    moreover have "0 \<le> m" unfolding m_def using s tally_nonneg(2) [of i] by simp
    moreover have "bu \<le> max 0 (fi_bufferMin i * 60)" unfolding bu_def by simp
    ultimately show ?thesis using eq(7) by linarith
  qed
  moreover have "0 \<le> focusSec f" unfolding f_def focusSec_formula by simp
  moreover have "paidSec f = focusSec f + paidBreakSec f" unfolding f_def by (rule computeFocus_sums(14))
  ultimately show ?thesis using p q u h k by blast
qed

text \<open>No second is taken off twice and none is paid twice. When away stretches of different
  status do not overlap, break time, the away time that does not count and unverified time are
  disjoint parts of the span, so together they never exceed it; and whatever the day, paid time is
  at most the time in sessions plus what a manager added by hand or by approval.\<close>

theorem focus_no_double_count:
  assumes "\<And>a b. a \<in> set (fi_away i) \<Longrightarrow> b \<in> set (fi_away i) \<Longrightarrow> fa_status a \<noteq> fa_status b
      \<Longrightarrow> pts [away_span (fi_now i) a] \<inter> pts [away_span (fi_now i) b] = {}"
  shows "breakSec (computeFocus i) + awayPendingSec (computeFocus i) + awayRejectedSec (computeFocus i)
      + awayUnexplainedSec (computeFocus i) + unverifiedSec (computeFocus i) \<le> spanSec (computeFocus i)
    \<and> paidSec (computeFocus i)
        \<le> spanSec (computeFocus i) + max 0 (fi_adjustedSec i + approvedPlusSec (computeFocus i))"
proof -
  have "pts (away_spans i (\<lambda>s. s = st)) \<inter> pts (away_spans i (\<lambda>s. s = st')) = {}" if "st \<noteq> st'" for st st'
    using assms that by (fastforce simp: away_spans_def pts_def)
  from focus_parts_fit [OF this] show ?thesis
    unfolding unverifiedSec_measure computeFocus_sums(1,2,7,9,10) using paidSec_le_span [of i]
    by (simp only: computeFocus_sums(1,2,7,9,10) simp_thms)
qed

text \<open>A day from 09:00 to 17:00 (in seconds 0 to 28800) with one away stretch still pending.\<close>

definition sample_day :: focus_input where
  "sample_day = \<lparr>fi_sessions = [\<lparr>fs_startedAt = 0, fs_endedAt = Some 28800000, fs_replay = False\<rparr>],
     fi_presence = [\<lparr>fp_type = PLunch, fp_startedAt = 10800000, fp_endedAt = Some 13500000\<rparr>],
     fi_breakRecords = [\<lparr>fb_outcome = Taken, fb_approvalStatus = Pending, fb_overrunAsked = True,
        fb_overrunSec = Some 300, fb_durationMin = Some 40, fb_kind = Some Lunch,
        fb_segments = [\<lparr>sg_startedAt = 10800000, sg_endedAt = Some 13500000\<rparr>]\<rparr>],
     fi_meetingRecords = [], fi_away = [\<lparr>fa_status = AwPending, fa_startedAt = 3600000, fa_endedAt = Some 4200000\<rparr>],
     fi_bufferMin = 10, fi_coverage = [], fi_adjustedSec = 0, fi_now = 30000000\<rparr>"

lemma sample_day_focus:
  "focusSec (computeFocus sample_day) = 25500" "pendingPlusSec (computeFocus sample_day) = 900"
  "paidSec (computeFocus sample_day) = 28200" "spanSec (computeFocus sample_day) = 28800"
  by code_simp+

theorem focus_no_double_count_witness:
  "paidSec (computeFocus sample_day) \<le> 28800"
proof -
  have "set (fi_away sample_day) = {\<lparr>fa_status = AwPending, fa_startedAt = 3600000, fa_endedAt = Some 4200000\<rparr>}"
    "fi_adjustedSec sample_day = 0"
    by (simp_all add: sample_day_def)
  moreover have "approvedPlusSec (computeFocus sample_day) = 0"
    by (simp add: computeFocus_sums approved_plus_def ask_plus_def sample_day_def)
  ultimately show ?thesis
    using focus_no_double_count [of sample_day] sample_day_focus by simp
qed

text \<open>Replayed offline time counts only near evidence. In the REPLAY sessions, outside explained
  time and breaks, every instant more than two minutes from all evidence (activity samples, approved
  away time, approved meetings) is unverified, and an instant inside a piece of evidence never is:
  the unverified total lies between the two measures.\<close>

theorem offline_counts_only_near_evidence:
  fixes i :: focus_input
  defines "R \<equiv> pts (focus_work i) \<inter> pts (replay_spans i) - pts (explained i) - pts (focus_breaks i)"
  shows "int (card (R - near_evidence i)) \<le> 1000 * unverifiedSec (computeFocus i)
    \<and> 1000 * unverifiedSec (computeFocus i) \<le> int (card (R - pts (raw_evidence i)))"
proof -
  let ?E = "pts (evidence i (approved_evidence i))"
  have f: "finite R" by (simp add: R_def)
  have "pts (subtract (unverified i) (break_in_work i)) = R - ?E"
    by (auto simp: R_def unverified_def pts_unverified break_in_work_def)
  then have u: "1000 * unverifiedSec (computeFocus i) = int (card (R - ?E))"
    unfolding unverifiedSec_measure by (subst secs_exact) simp_all
  have "card (R - near_evidence i) \<le> card (R - ?E)" "card (R - ?E) \<le> card (R - pts (raw_evidence i))"
    using evidence_near [of i] evidence_covers_raw [of i] f by (auto intro!: card_mono)
  then show ?thesis unfolding u by simp
qed

text \<open>The "+N min if approved" the portal shows is what an approval pays. On a day without
  replayed sessions whose focus time is positive, approving every pending away stretch and overrun
  ask raises focus time by exactly \<open>pendingPlusSec\<close>, and rejecting every pending skip and
  meeting lowers it by exactly \<open>pendingMinusSec\<close>, never below zero.\<close>

theorem decisions_pay_what_was_shown:
  assumes "\<forall>s \<in> set (fi_sessions i). \<not> fs_replay s" "0 < focusSec (computeFocus i)"
  shows "focusSec (computeFocus (approve_all i)) = focusSec (computeFocus i) + pendingPlusSec (computeFocus i)
    \<and> focusSec (computeFocus (reject_all i)) = max 0 (focusSec (computeFocus i) - pendingMinusSec (computeFocus i))"
  using approve_all_focus [OF assms] reject_all_focus [OF assms] by blast

theorem decisions_pay_what_was_shown_witness:
  "focusSec (computeFocus (approve_all sample_day)) = 26400"
proof -
  have "\<forall>s \<in> set (fi_sessions sample_day). \<not> fs_replay s" by (simp add: sample_day_def)
  then show ?thesis using decisions_pay_what_was_shown [of sample_day] sample_day_focus by simp
qed

end
