(* ===== verification/Break_Schedule.thy ===== *)
theory Break_Schedule
  imports Focus Day_Keys
begin

text \<open>
  Shifts and their breaks: the types of \<open>src/src/modules/shifts/domain/shift.types.ts\<close> and the
  rules of \<open>break-schedule.ts\<close> (validation of a shift definition, the shift-day of an instant,
  the bounds and break slots of a day, the phases of a slot and how a start is classified).
  Numbers are whole; a problem is a constructor where the code has a sentence.
\<close>

section \<open>Types\<close>

definition BREAK_KINDS :: "break_kind list" where
  "BREAK_KINDS = [Morning, Lunch, Evening]"

definition isScheduledKind :: "break_kind option \<Rightarrow> bool" where
  "isScheduledKind k = (k = Some Morning \<or> k = Some Lunch \<or> k = Some Evening)"

definition QUICK_BREAK_MAX_MIN :: int where
  "QUICK_BREAK_MAX_MIN = 60"

definition BREAK_PRESENCE_TYPE :: "break_kind \<Rightarrow> presence_type" where
  "BREAK_PRESENCE_TYPE k = (if k = Lunch then PLunch else PBreak)"

datatype break_timing = OnTime | Early | Late | OutsideWindow | Unscheduled

definition DEFAULT_REASON_MIN_CHARS :: int where
  "DEFAULT_REASON_MIN_CHARS = 10"

definition DEFAULT_OVERRUN_GRACE_MIN :: int where
  "DEFAULT_OVERRUN_GRACE_MIN = 3"

definition defaultAllowSkip :: "break_kind \<Rightarrow> bool" where
  "defaultAllowSkip kind = (kind \<noteq> Lunch)"

record shift_break_def =
  bd_kind :: break_kind
  bd_enabled :: bool
  bd_startTime :: string
  bd_durationMin :: int
  bd_windowBeforeMin :: int
  bd_windowAfterMin :: int
  bd_allowSkip :: "bool option"

definition breakAllowsSkip :: "shift_break_def \<Rightarrow> bool" where
  "breakAllowsSkip b = coalesce (bd_allowSkip b) (defaultAllowSkip (bd_kind b))"

record shift_rules =
  ringLeadMin :: int
  ringDurationMin :: int
  ringSound :: bool
  reasonOnEarly :: bool
  reasonOnLate :: bool
  reasonMinChars :: int
  overrunReason :: bool
  overrunGraceMin :: int

record shift_definition = shift_rules +
  sd_name :: string
  sd_start :: string
  sd_end :: string
  sd_workDays :: "int list"
  sd_breaks :: "shift_break_def list"

record break_slot =
  sl_kind :: break_kind
  sl_presenceType :: presence_type
  sl_durationMin :: int
  sl_scheduledStart :: int
  sl_scheduledEnd :: int
  sl_windowOpen :: int
  sl_windowClose :: int
  sl_ringStart :: int
  sl_ringEnd :: int
  sl_allowSkip :: bool

definition departmentKey :: "string option \<Rightarrow> string option" where
  "departmentKey department =
     (let key = to_lower (collapse_spaces (trim (coalesce department '''')))
      in if length key > 0 then Some key else None)"

section \<open>The clock of a shift\<close>

record shift_clock =
  ck_startMin :: int
  ck_endMin :: int
  ck_overnight :: bool

text \<open>None is the error \<open>hmToMinutes\<close> throws.\<close>

definition clockOf :: "string \<Rightarrow> string \<Rightarrow> shift_clock option" where
  "clockOf startHm endHm =
     (case (hmToMinutes startHm, hmToMinutes endHm) of
        (Some startMin, Some endMin) \<Rightarrow>
          (let overnight = endMin \<le> startMin
           in Some \<lparr>ck_startMin = startMin, ck_endMin = (if overnight then endMin + 1440 else endMin),
                    ck_overnight = overnight\<rparr>)
      | _ \<Rightarrow> None)"

definition shiftMinutes :: "shift_clock \<Rightarrow> string \<Rightarrow> int option" where
  "shiftMinutes clock hm =
     map_option (\<lambda>m. if ck_overnight clock \<and> m < ck_startMin clock then m + 1440 else m) (hmToMinutes hm)"

section \<open>Validation\<close>

datatype shift_problem =
    NameMissing | NameTooLong | TimesInvalid | SameTimes | NoWorkDay | BadWorkDay | DuplicateWorkDay
  | BadRingLead | BadRingLength | BadReasonLength | BadOverrunGrace
  | DuplicateBreak | UnknownBreak
  | BadStartTime break_kind | BadLength break_kind | BadWindowBefore break_kind | BadWindowAfter break_kind
  | OutsideShift break_kind | RingBeforeWindow break_kind | RingPastWindow break_kind
  | BreaksOutOfOrder | WindowsOverlap break_kind break_kind

definition when_bad :: "bool \<Rightarrow> shift_problem \<Rightarrow> shift_problem list" where
  "when_bad c p = (if c then [p] else [])"

definition out_of_range :: "int \<Rightarrow> int \<Rightarrow> int \<Rightarrow> bool" where
  "out_of_range v lo hi = (v < lo \<or> v > hi)"

text \<open>The first enabled definition of each kind, in the order of \<open>BREAK_KINDS\<close>.\<close>

definition enabled_break :: "shift_break_def list \<Rightarrow> break_kind \<Rightarrow> shift_break_def option" where
  "enabled_break bs k = List.find (\<lambda>b. bd_kind b = k \<and> bd_enabled b) bs"

definition enabled_breaks :: "shift_break_def list \<Rightarrow> shift_break_def list" where
  "enabled_breaks bs = List.map_filter (enabled_break bs) BREAK_KINDS"

definition break_problems ::
  "('a shift_rules_scheme) \<Rightarrow> shift_clock \<Rightarrow> shift_break_def \<Rightarrow> shift_problem list" where
  "break_problems def clock b =
     (case shiftMinutes clock (bd_startTime b) of
        None \<Rightarrow> [BadStartTime (bd_kind b)]
      | Some s \<Rightarrow>
          when_bad (out_of_range (bd_durationMin b) 1 240) (BadLength (bd_kind b))
          @ when_bad (out_of_range (bd_windowBeforeMin b) 0 240) (BadWindowBefore (bd_kind b))
          @ when_bad (out_of_range (bd_windowAfterMin b) 0 480) (BadWindowAfter (bd_kind b))
          @ when_bad (s < ck_startMin clock \<or> s + bd_durationMin b > ck_endMin clock) (OutsideShift (bd_kind b))
          @ when_bad (ringLeadMin def > bd_windowBeforeMin b) (RingBeforeWindow (bd_kind b))
          @ when_bad (bd_windowAfterMin b < ringDurationMin def - ringLeadMin def) (RingPastWindow (bd_kind b)))"

definition pair_problems :: "shift_clock \<Rightarrow> shift_break_def \<Rightarrow> shift_break_def \<Rightarrow> shift_problem list" where
  "pair_problems clock a z =
     (case (shiftMinutes clock (bd_startTime a), shiftMinutes clock (bd_startTime z)) of
        (Some aStart, Some zStart) \<Rightarrow>
          if zStart \<le> aStart then [BreaksOutOfOrder]
          else when_bad (aStart + bd_windowAfterMin a > zStart - bd_windowBeforeMin z)
                 (WindowsOverlap (bd_kind a) (bd_kind z))
      | _ \<Rightarrow> [])"

fun adjacent_problems :: "shift_clock \<Rightarrow> shift_break_def list \<Rightarrow> shift_problem list" where
  "adjacent_problems clock (a # z # bs) = pair_problems clock a z @ adjacent_problems clock (z # bs)"
| "adjacent_problems clock _ = []"

definition validateShiftDefinition :: "shift_definition \<Rightarrow> shift_problem list" where
  "validateShiftDefinition def =
     (let name = trim (sd_name def);
          named = when_bad (name = '''') NameMissing @ when_bad (length name > 60) NameTooLong
      in if \<not> isValidHm (sd_start def) \<or> \<not> isValidHm (sd_end def) then named @ [TimesInvalid]
         else
           (let days = sd_workDays def; kinds = map bd_kind (sd_breaks def);
                enabled = enabled_breaks (sd_breaks def)
            in named
               @ when_bad (sd_start def = sd_end def) SameTimes
               @ when_bad (days = []) NoWorkDay
               @ when_bad (\<exists>d \<in> set days. d < 1 \<or> d > 7) BadWorkDay
               @ when_bad (\<not> distinct days) DuplicateWorkDay
               @ when_bad (out_of_range (ringLeadMin def) 0 30) BadRingLead
               @ when_bad (out_of_range (ringDurationMin def) 1 30) BadRingLength
               @ when_bad (out_of_range (reasonMinChars def) 1 200) BadReasonLength
               @ when_bad (out_of_range (overrunGraceMin def) 0 60) BadOverrunGrace
               @ when_bad (\<not> distinct kinds) DuplicateBreak
               @ when_bad (\<exists>k \<in> set kinds. k \<notin> set BREAK_KINDS) UnknownBreak
               @ (case clockOf (sd_start def) (sd_end def) of
                    None \<Rightarrow> []
                  | Some clock \<Rightarrow>
                      concat (map (break_problems def clock) enabled) @ adjacent_problems clock enabled)))"

section \<open>Shift days, bounds and slots\<close>

definition shiftDayKey :: "string \<Rightarrow> string \<Rightarrow> int \<Rightarrow> zone \<Rightarrow> string option" where
  "shiftDayKey startHm endHm now tz =
     (let p = zonedParts now tz; today = make_key (zp_year p) (zp_month p) (zp_day p) in
      case clockOf startHm endHm of
        None \<Rightarrow> None
      | Some clock \<Rightarrow>
          if \<not> ck_overnight clock then Some today
          else (let nowMin = zp_hour p * 60 + zp_minute p
                in Some (if nowMin < ck_endMin clock - 1440 then addDaysToKey today (- 1) else today)))"

definition isWorkDay :: "int list \<Rightarrow> string \<Rightarrow> bool" where
  "isWorkDay workDays dateKey =
     (case isoWeekdayOfKey dateKey of None \<Rightarrow> False | Some d \<Rightarrow> d \<in> set workDays)"

definition shiftBounds :: "string \<Rightarrow> string \<Rightarrow> string \<Rightarrow> zone \<Rightarrow> (int \<times> int) option" where
  "shiftBounds startHm endHm dateKey tz =
     map_option (\<lambda>clock. (zonedMinutesToUtc dateKey (ck_startMin clock) tz,
                          zonedMinutesToUtc dateKey (ck_endMin clock) tz)) (clockOf startHm endHm)"

definition slot_of ::
  "('a shift_rules_scheme) \<Rightarrow> shift_clock \<Rightarrow> string \<Rightarrow> zone \<Rightarrow> break_kind \<Rightarrow> shift_break_def \<Rightarrow> break_slot option"
where
  "slot_of def clock dateKey tz kind b =
     map_option (\<lambda>startMin. let at = (\<lambda>m. zonedMinutesToUtc dateKey m tz) in
        \<lparr>sl_kind = kind, sl_presenceType = BREAK_PRESENCE_TYPE kind, sl_durationMin = bd_durationMin b,
         sl_scheduledStart = at startMin, sl_scheduledEnd = at (startMin + bd_durationMin b),
         sl_windowOpen = at (startMin - bd_windowBeforeMin b),
         sl_windowClose = at (startMin + bd_windowAfterMin b),
         sl_ringStart = at (startMin - ringLeadMin def),
         sl_ringEnd = at (startMin - ringLeadMin def + ringDurationMin def),
         sl_allowSkip = breakAllowsSkip b\<rparr>) (shiftMinutes clock (bd_startTime b))"

definition breakSlots :: "shift_definition \<Rightarrow> string \<Rightarrow> zone \<Rightarrow> break_slot list" where
  "breakSlots def dateKey tz =
     (case clockOf (sd_start def) (sd_end def) of
        None \<Rightarrow> []
      | Some clock \<Rightarrow>
          List.map_filter (\<lambda>kind. case enabled_break (sd_breaks def) kind of
             None \<Rightarrow> None
           | Some b \<Rightarrow> slot_of def clock dateKey tz kind b) BREAK_KINDS)"

section \<open>Phases and the classification of a start\<close>

datatype slot_phase = PhUpcoming | PhEarly | PhDue | PhLate | PhClosed

definition phaseAt :: "break_slot \<Rightarrow> int \<Rightarrow> slot_phase" where
  "phaseAt slot now =
     (if now < sl_windowOpen slot then PhUpcoming
      else if now \<ge> sl_windowClose slot then PhClosed
      else if now < sl_ringStart slot then PhEarly
      else if now < sl_ringEnd slot then PhDue
      else PhLate)"

record start_classification =
  sc_timing :: break_timing
  sc_minutesOff :: int
  sc_reasonRequired :: bool

definition classifyStart :: "break_slot \<Rightarrow> int \<Rightarrow> ('a shift_rules_scheme) \<Rightarrow> start_classification" where
  "classifyStart slot now rules =
     (let delta = now - sl_scheduledStart slot in
      case phaseAt slot now of
        PhDue \<Rightarrow> \<lparr>sc_timing = OnTime, sc_minutesOff = 0, sc_reasonRequired = False\<rparr>
      | PhEarly \<Rightarrow> \<lparr>sc_timing = Early, sc_minutesOff = max 1 (ceil_div (- delta) 60000),
                   sc_reasonRequired = reasonOnEarly rules\<rparr>
      | PhLate \<Rightarrow> \<lparr>sc_timing = Late, sc_minutesOff = max 1 (delta div 60000),
                  sc_reasonRequired = reasonOnLate rules\<rparr>
      | _ \<Rightarrow> \<lparr>sc_timing = OutsideWindow, sc_minutesOff = max 0 (round_div \<bar>delta\<bar> 60000),
              sc_reasonRequired = False\<rparr>)"

definition overrunSeconds :: "int option \<Rightarrow> int \<Rightarrow> int option \<Rightarrow> int \<Rightarrow> int" where
  "overrunSeconds durationMin startedAt endedAt now =
     (if coalesce durationMin 0 = 0 then 0
      else
        (let e = coalesce endedAt now;
             took = max 0 (round_div (e - startedAt) 1000)
         in max 0 (took - coalesce durationMin 0 * 60)))"

section \<open>Lemmas\<close>

lemma when_bad_Nil [simp]: "when_bad c p = [] \<longleftrightarrow> \<not> c"
  by (simp add: when_bad_def)

lemma clockOf_Some:
  assumes "clockOf s e = Some clock"
  shows "0 \<le> ck_startMin clock" "ck_startMin clock < 1440" "ck_startMin clock < ck_endMin clock"
    "ck_endMin clock \<le> ck_startMin clock + 1440" "ck_overnight clock \<longleftrightarrow> 1440 \<le> ck_endMin clock"
    "hmToMinutes s = Some (ck_startMin clock)"
proof -
  obtain a b where ab: "hmToMinutes s = Some a" "hmToMinutes e = Some b"
    and c: "clock = \<lparr>ck_startMin = a, ck_endMin = (if b \<le> a then b + 1440 else b), ck_overnight = (b \<le> a)\<rparr>"
    using assms by (auto simp: clockOf_def Let_def split: option.splits)
  have "0 \<le> a" "a < 1440" "0 \<le> b" "b < 1440"
    using hmToMinutes_Some [OF ab(1)] hmToMinutes_Some [OF ab(2)] by auto
  then show "0 \<le> ck_startMin clock" "ck_startMin clock < 1440" "ck_startMin clock < ck_endMin clock"
    "ck_endMin clock \<le> ck_startMin clock + 1440" "ck_overnight clock \<longleftrightarrow> 1440 \<le> ck_endMin clock"
    "hmToMinutes s = Some (ck_startMin clock)"
    using ab c by auto
qed

lemma enabled_break_Some: "enabled_break bs k = Some b \<Longrightarrow> b \<in> set bs \<and> bd_kind b = k \<and> bd_enabled b"
  by (auto simp: enabled_break_def dest: find_Some_set)

lemma map_filter_map_filter:
  "List.map_filter g (List.map_filter f xs) = List.map_filter (\<lambda>x. case f x of None \<Rightarrow> None | Some y \<Rightarrow> g y) xs"
  by (induction xs) (auto simp: List.map_filter_simps split: option.splits)

lemma map_filter_cong': "(\<And>x. x \<in> set xs \<Longrightarrow> f x = g x) \<Longrightarrow> List.map_filter f xs = List.map_filter g xs"
  by (induction xs) (auto simp: List.map_filter_simps split: option.splits)

lemma map_filter_all_Some: "(\<And>x. x \<in> set xs \<Longrightarrow> f x = Some (g x)) \<Longrightarrow> List.map_filter f xs = map g xs"
  by (induction xs) (auto simp: List.map_filter_simps)

lemma breakSlots_enabled:
  assumes "clockOf (sd_start def) (sd_end def) = Some clock"
  shows "breakSlots def k tz =
    List.map_filter (\<lambda>b. slot_of def clock k tz (bd_kind b) b) (enabled_breaks (sd_breaks def))"
  unfolding enabled_breaks_def map_filter_map_filter
  using assms by (auto simp: breakSlots_def intro!: map_filter_cong' split: option.splits dest!: enabled_break_Some)

lemma valid_parts:
  assumes "validateShiftDefinition def = []"
  shows "\<exists>clock. clockOf (sd_start def) (sd_end def) = Some clock
    \<and> concat (map (break_problems def clock) (enabled_breaks (sd_breaks def))) = []
    \<and> adjacent_problems clock (enabled_breaks (sd_breaks def)) = []
    \<and> 0 \<le> ringLeadMin def \<and> ringLeadMin def \<le> 30 \<and> 1 \<le> ringDurationMin def"
proof -
  have v: "isValidHm (sd_start def)" "isValidHm (sd_end def)"
    using assms by (auto simp: validateShiftDefinition_def Let_def split: if_splits)
  then obtain clock where c: "clockOf (sd_start def) (sd_end def) = Some clock"
    by (auto simp: clockOf_def isValidHm_def hmToMinutes_def Let_def)
  show ?thesis
    using assms v c by (auto simp: validateShiftDefinition_def Let_def out_of_range_def)
qed

definition valid_break :: "('a shift_rules_scheme) \<Rightarrow> shift_clock \<Rightarrow> int \<Rightarrow> shift_break_def \<Rightarrow> bool" where
  "valid_break def clock s b \<longleftrightarrow>
     shiftMinutes clock (bd_startTime b) = Some s \<and> 1 \<le> bd_durationMin b \<and>
     0 \<le> bd_windowBeforeMin b \<and> bd_windowBeforeMin b \<le> 240 \<and> 0 \<le> bd_windowAfterMin b \<and>
     ck_startMin clock \<le> s \<and> s + bd_durationMin b \<le> ck_endMin clock \<and>
     ringLeadMin def \<le> bd_windowBeforeMin b \<and> ringDurationMin def - ringLeadMin def \<le> bd_windowAfterMin b"

lemma break_problems_Nil:
  "break_problems def clock b = [] \<Longrightarrow> \<exists>s. valid_break def clock s b"
  by (auto simp: break_problems_def valid_break_def out_of_range_def split: option.splits)

lemma adjacent_sorted:
  assumes "\<And>b. b \<in> set bs \<Longrightarrow> valid_break def clock (m b) b" "adjacent_problems clock bs = []"
  shows "sorted_wrt (\<lambda>a b. m a + bd_windowAfterMin a \<le> m b - bd_windowBeforeMin b) bs"
  using assms
proof (induction clock bs rule: adjacent_problems.induct)
  case (1 clock a z bs)
  have v: "valid_break def clock (m a) a" "valid_break def clock (m z) z" using 1 by auto
  then have "m a + bd_windowAfterMin a \<le> m z - bd_windowBeforeMin z"
    using 1(3) by (auto simp: pair_problems_def valid_break_def split: if_splits)
  moreover have "m z - bd_windowBeforeMin z \<le> m z + bd_windowAfterMin z"
    using v(2) by (simp add: valid_break_def)
  moreover have "sorted_wrt (\<lambda>a b. m a + bd_windowAfterMin a \<le> m b - bd_windowBeforeMin b) (z # bs)"
    using 1 by auto
  ultimately show ?case by fastforce
qed auto

text \<open>A zone with one offset, in minutes: the default Asia/Kolkata is \<open>fixed_zone 330\<close>.\<close>

definition fixed_zone :: "int \<Rightarrow> zone" where
  "fixed_zone m = (\<lambda>_. if \<bar>m\<bar> \<le> 1440 then m * 60000 else 0)"

lemma at_fixed:
  assumes "1000 \<le> utc_year n" "- 1440 \<le> m"
  shows "zonedMinutesToUtc (key_of_day n) m (fixed_zone c) = n * msPerDay + m * 60000 - fixed_zone c 0"
proof -
  define off where "off = (if \<bar>c\<bar> \<le> 1440 then c * 60000 else 0)"
  have off: "1000 dvd off" "\<bar>off\<bar> \<le> msPerDay" by (auto simp: off_def msPerDay_def dvd_def)
  have "fixed_zone c = (\<lambda>_. off)" by (rule ext) (simp add: fixed_zone_def off_def)
  then show ?thesis using zonedMinutesToUtc_fixed [OF assms off] by simp
qed

text \<open>The order in which the instants of a well-made slot come, inside the shift's bounds.\<close>

definition slot_ordered :: "int \<Rightarrow> int \<Rightarrow> break_slot \<Rightarrow> bool" where
  "slot_ordered lo hi s \<longleftrightarrow>
     sl_windowOpen s \<le> sl_ringStart s \<and> sl_ringStart s < sl_ringEnd s \<and> sl_ringEnd s \<le> sl_windowClose s \<and>
     sl_ringStart s \<le> sl_scheduledStart s \<and> sl_scheduledStart s < sl_scheduledEnd s \<and>
     sl_scheduledStart s \<le> sl_windowClose s \<and> lo \<le> sl_scheduledStart s \<and> sl_scheduledEnd s \<le> hi"

lemma slots_of_valid_shift:
  assumes "validateShiftDefinition def = []" "1000 \<le> utc_year n"
    and "shiftBounds (sd_start def) (sd_end def) (key_of_day n) (fixed_zone c) = Some (lo, hi)"
  shows "sorted_wrt (\<lambda>a b. sl_windowClose a \<le> sl_windowOpen b) (breakSlots def (key_of_day n) (fixed_zone c))
    \<and> (\<forall>s \<in> set (breakSlots def (key_of_day n) (fixed_zone c)). slot_ordered lo hi s)"
proof -
  let ?bs = "enabled_breaks (sd_breaks def)"
  obtain clock where c: "clockOf (sd_start def) (sd_end def) = Some clock"
    and p: "concat (map (break_problems def clock) ?bs) = []" "adjacent_problems clock ?bs = []"
    and r: "0 \<le> ringLeadMin def" "ringLeadMin def \<le> 30" "1 \<le> ringDurationMin def"
    using valid_parts [OF assms(1)] by blast
  define m where "m b = (SOME s. valid_break def clock s b)" for b
  have vb: "valid_break def clock (m b) b" if "b \<in> set ?bs" for b
    using that p(1) break_problems_Nil [of def clock b] unfolding m_def by (auto intro: someI_ex)
  define at where "at mm = zonedMinutesToUtc (key_of_day n) mm (fixed_zone c)" for mm
  have at: "at mm = n * msPerDay + mm * 60000 - fixed_zone c 0" if "- 1440 \<le> mm" for mm
    unfolding at_def by (rule at_fixed [OF assms(2) that])
  have lohi: "lo = at (ck_startMin clock)" "hi = at (ck_endMin clock)"
    using assms(3) c by (auto simp: shiftBounds_def at_def)
  define sl where "sl b = the (slot_of def clock (key_of_day n) (fixed_zone c) (bd_kind b) b)" for b
  have slot: "slot_of def clock (key_of_day n) (fixed_zone c) (bd_kind b) b = Some (sl b)"
    "sl_windowOpen (sl b) = at (m b - bd_windowBeforeMin b)"
    "sl_windowClose (sl b) = at (m b + bd_windowAfterMin b)"
    "sl_ringStart (sl b) = at (m b - ringLeadMin def)"
    "sl_ringEnd (sl b) = at (m b - ringLeadMin def + ringDurationMin def)"
    "sl_scheduledStart (sl b) = at (m b)" "sl_scheduledEnd (sl b) = at (m b + bd_durationMin b)"
    if "b \<in> set ?bs" for b
    using vb [OF that] by (auto simp: sl_def slot_of_def valid_break_def at_def Let_def)
  have eq: "breakSlots def (key_of_day n) (fixed_zone c) = map sl ?bs"
    unfolding breakSlots_enabled [OF c] by (rule map_filter_all_Some) (rule slot(1))
  have "slot_ordered lo hi (sl b)" if b: "b \<in> set ?bs" for b
    using vb [OF b] r clockOf_Some [OF c] unfolding slot_ordered_def slot(2-) [OF b] lohi valid_break_def
    by (simp add: at)
  moreover have "sorted_wrt (\<lambda>a b. sl_windowClose (sl a) \<le> sl_windowOpen (sl b)) ?bs"
  proof (rule sorted_wrt_mono_rel [OF _ adjacent_sorted [OF vb p(2)]])
    fix a b assume ab: "a \<in> set ?bs" "b \<in> set ?bs"
      "m a + bd_windowAfterMin a \<le> m b - bd_windowBeforeMin b"
    then show "sl_windowClose (sl a) \<le> sl_windowOpen (sl b)"
      using vb [OF ab(1)] vb [OF ab(2)] clockOf_Some [OF c]
      unfolding slot(3) [OF ab(1)] slot(2) [OF ab(2)] valid_break_def by (simp add: at)
  qed
  ultimately show ?thesis unfolding eq by (simp add: sorted_wrt_map)
qed

lemma sorted_at_most_one:
  assumes "sorted_wrt R xs" "\<And>a b. R a b \<Longrightarrow> \<not> (P a \<and> P b)"
  shows "length (filter P xs) \<le> 1"
  using assms(1)
proof (induction xs)
  case (Cons x xs)
  then show ?case using assms(2) by (cases "P x") (auto simp: filter_empty_conv)
qed simp

lemma phase_open: "phaseAt s now \<notin> {PhUpcoming, PhClosed} \<longleftrightarrow> sl_windowOpen s \<le> now \<and> now < sl_windowClose s"
  by (auto simp: phaseAt_def)

lemma classify_cases:
  assumes "slot_ordered lo hi s"
  shows "sc_timing (classifyStart s now rules) =
    (if now < sl_windowOpen s \<or> sl_windowClose s \<le> now then OutsideWindow
     else if now < sl_ringStart s then Early else if now < sl_ringEnd s then OnTime else Late)"
  using assms by (auto simp: classifyStart_def phaseAt_def slot_ordered_def Let_def)

lemma early_minutes:
  assumes "slot_ordered lo hi s" "sc_timing (classifyStart s now rules) = Early"
  shows "sl_scheduledStart s \<le> now + 60000 * sc_minutesOff (classifyStart s now rules)
    \<and> now + 60000 * sc_minutesOff (classifyStart s now rules) < sl_scheduledStart s + 60000"
proof -
  have n: "sl_windowOpen s \<le> now" "now < sl_ringStart s" "now < sl_windowClose s"
    using assms classify_cases [OF assms(1), of now rules] by (auto split: if_splits)
  have d: "0 < sl_scheduledStart s - now" using n assms(1) by (simp add: slot_ordered_def)
  have m: "sc_minutesOff (classifyStart s now rules) = max 1 (ceil_div (sl_scheduledStart s - now) 60000)"
    using n by (simp add: classifyStart_def phaseAt_def Let_def)
  show ?thesis
    unfolding m using ceil_div_bounds [of 60000 "sl_scheduledStart s - now"] d by (simp add: max_def)
qed

text \<open>
  The validation lets a ring end before the scheduled start (\<open>ringDurationMin < ringLeadMin\<close>),
  and then a start before that time is LATE by one minute.
\<close>

definition short_ring_slot :: break_slot where
  "short_ring_slot = \<lparr>sl_kind = Morning, sl_presenceType = PBreak, sl_durationMin = 15,
     sl_scheduledStart = 3600000, sl_scheduledEnd = 4500000, sl_windowOpen = 1800000,
     sl_windowClose = 7200000, sl_ringStart = 3000000, sl_ringEnd = 3120000, sl_allowSkip = True\<rparr>"

lemma late_before_scheduled_start:
  "slot_ordered 0 36000000 short_ring_slot
   \<and> 3300000 < sl_scheduledStart short_ring_slot
   \<and> sc_timing (classifyStart short_ring_slot 3300000 rules) = Late
   \<and> sc_minutesOff (classifyStart short_ring_slot 3300000 rules) = 1"
  by (simp add: short_ring_slot_def slot_ordered_def classifyStart_def phaseAt_def)

lemma shift_day_minutes:
  assumes "u + tz u = n * msPerDay + x" "0 \<le> x" "x < msPerDay"
  shows "zonedParts u tz = \<lparr>zp_year = utc_year n, zp_month = utc_month n, zp_day = utc_date n,
    zp_hour = x div 3600000, zp_minute = x div 60000 mod 60, zp_second = x div 1000 mod 60\<rparr>"
proof -
  have "(n * msPerDay + x) div msPerDay = n" "(n * msPerDay + x) mod msPerDay = x"
    using assms(2,3) by (simp_all add: msPerDay_def)
  then show ?thesis by (simp add: zonedParts_def assms(1) Let_def)
qed

lemma hour_minute_split: "x div 3600000 * 60 + x div 60000 mod 60 = x div (60000 :: int)"
proof -
  have "x div 3600000 = x div 60000 div 60" by (simp add: zdiv_zmult2_eq [symmetric])
  then show ?thesis by (simp only: div_mult_mod_eq)
qed

section \<open>Properties\<close>

text \<open>C33: a shift that passes validation has breaks that cannot collide. In a zone with one offset,
  every slot of every day has its instants in order (window opens, ring, scheduled start, window
  closes), its scheduled times lie inside the shift (its window may reach outside), the windows follow
  each other without overlap, and so at any instant at most one break may be started: an earlier
  break can never be taken after a later one.\<close>

theorem valid_shift_windows_disjoint:
  assumes "validateShiftDefinition def = []" "1000 \<le> utc_year n"
    and "shiftBounds (sd_start def) (sd_end def) (key_of_day n) (fixed_zone c) = Some (lo, hi)"
  shows "sorted_wrt (\<lambda>a b. sl_windowClose a \<le> sl_windowOpen b) (breakSlots def (key_of_day n) (fixed_zone c))
    \<and> set (breakSlots def (key_of_day n) (fixed_zone c)) \<subseteq> {s. slot_ordered lo hi s}
    \<and> length (filter (\<lambda>s. phaseAt s now \<notin> {PhUpcoming, PhClosed}) (breakSlots def (key_of_day n) (fixed_zone c))) \<le> 1"
proof -
  note s = slots_of_valid_shift [OF assms]
  have "length (filter (\<lambda>s. phaseAt s now \<notin> {PhUpcoming, PhClosed}) (breakSlots def (key_of_day n) (fixed_zone c))) \<le> 1"
    by (rule sorted_at_most_one [OF conjunct1 [OF s]]) (unfold phase_open, linarith)
  then show ?thesis using s by blast
qed

definition sample_shift :: shift_definition where
  "sample_shift = \<lparr>ringLeadMin = 1, ringDurationMin = 5, ringSound = True, reasonOnEarly = True,
     reasonOnLate = True, reasonMinChars = 10, overrunReason = True, overrunGraceMin = 3,
     sd_name = ''General'', sd_start = ''09:30'', sd_end = ''18:30'', sd_workDays = [1, 2, 3, 4, 5],
     sd_breaks = [\<lparr>bd_kind = Morning, bd_enabled = True, bd_startTime = ''11:00'', bd_durationMin = 20,
        bd_windowBeforeMin = 30, bd_windowAfterMin = 60, bd_allowSkip = None\<rparr>,
       \<lparr>bd_kind = Lunch, bd_enabled = True, bd_startTime = ''13:30'', bd_durationMin = 40,
        bd_windowBeforeMin = 30, bd_windowAfterMin = 60, bd_allowSkip = None\<rparr>]\<rparr>"

theorem valid_shift_windows_disjoint_witness:
  "length (filter (\<lambda>s. phaseAt s 1772265600000 \<notin> {PhUpcoming, PhClosed})
     (breakSlots sample_shift ''2026-02-28'' (fixed_zone 330))) \<le> 1"
proof -
  have v: "validateShiftDefinition sample_shift = []" by code_simp
  obtain lo hi where "shiftBounds (sd_start sample_shift) (sd_end sample_shift) (key_of_day 20512) (fixed_zone 330) = Some (lo, hi)"
    using valid_parts [OF v] by (auto simp: shiftBounds_def)
  then show ?thesis
    using valid_shift_windows_disjoint [OF v, of 20512 330 lo hi 1772265600000] sample_days by simp
qed

text \<open>Every instant of a shift belongs to that shift's day. In a zone with one offset, for any
  shift (also one that runs past midnight) and any instant from its start to its end on a day,
  \<open>shiftDayKey\<close> answers that day, so the hours after midnight are filed on the evening before.\<close>

theorem shift_instants_have_their_day:
  assumes "1000 \<le> utc_year n" "utc_year (n + 1) \<le> 9999"
    and "shiftBounds startHm endHm (key_of_day n) (fixed_zone c) = Some (lo, hi)" "lo \<le> now" "now < hi"
  shows "shiftDayKey startHm endHm now (fixed_zone c) = Some (key_of_day n)"
proof -
  obtain clock where c: "clockOf startHm endHm = Some clock"
    and lohi: "lo = zonedMinutesToUtc (key_of_day n) (ck_startMin clock) (fixed_zone c)"
      "hi = zonedMinutesToUtc (key_of_day n) (ck_endMin clock) (fixed_zone c)"
    using assms(3) by (auto simp: shiftBounds_def)
  note ck = clockOf_Some [OF c]
  define x where "x = now + fixed_zone c now - n * msPerDay"
  have z: "fixed_zone c now = fixed_zone c 0" by (simp add: fixed_zone_def)
  have x: "ck_startMin clock * 60000 \<le> x" "x < ck_endMin clock * 60000"
    using assms(4,5) ck unfolding lohi x_def z by (simp_all add: at_fixed [OF assms(1)])
  have u: "now + fixed_zone c now = n * msPerDay + x" by (simp add: x_def)
  show ?thesis
  proof (cases "x < msPerDay")
    case True
    have x0: "0 \<le> x" using x(1) ck(1) by simp
    have p: "zonedParts now (fixed_zone c) = \<lparr>zp_year = utc_year n, zp_month = utc_month n, zp_day = utc_date n,
        zp_hour = x div 3600000, zp_minute = x div 60000 mod 60, zp_second = x div 1000 mod 60\<rparr>"
      by (rule shift_day_minutes [of now "fixed_zone c", OF u x0 True])
    have "ck_startMin clock \<le> x div 60000" using x(1) by (intro zdiv_mono1 [of "ck_startMin clock * 60000" x 60000, simplified])
    then show ?thesis
      using ck by (simp add: shiftDayKey_def p c Let_def hour_minute_split key_of_day_def)
  next
    case False
    define y where "y = x - msPerDay"
    have y: "0 \<le> y" "y < (ck_endMin clock - 1440) * 60000" using False x(2) by (simp_all add: y_def msPerDay_def)
    have o: "ck_overnight clock" "y < msPerDay" using y ck by (simp_all add: msPerDay_def)
    have "now + fixed_zone c now = (n + 1) * msPerDay + y" by (simp add: x_def y_def distrib_right)
    note p = shift_day_minutes [of now "fixed_zone c", OF this y(1) o(2)]
    have yr: "1000 \<le> utc_year (n + 1)" using utc_year_mono [of n "n + 1"] assms(1) by simp
    have "valid_day n" using assms(1,2) utc_year_mono [of n "n + 1"] by (intro valid_day_of_year) simp_all
    then have "addDaysToKey (key_of_day (n + 1)) (- 1) = key_of_day n"
      using addDaysToKey_day [of "n + 1" "- 1"] yr by simp
    moreover have "y div 60000 < ck_endMin clock - 1440"
      using y div_times_bounds(1) [of 60000 y] by simp
    ultimately show ?thesis
      using o by (simp add: shiftDayKey_def p c Let_def hour_minute_split key_of_day_def)
  qed
qed

theorem shift_instants_have_their_day_witness:
  "shiftDayKey ''22:00'' ''06:00'' 1772316000000 (fixed_zone 330) = Some ''2026-02-28''"
proof -
  have "clockOf ''22:00'' ''06:00'' = Some \<lparr>ck_startMin = 1320, ck_endMin = 1800, ck_overnight = True\<rparr>" by code_simp
  then have "shiftBounds ''22:00'' ''06:00'' (key_of_day 20512) (fixed_zone 330)
      = Some (1772296200000, 1772325000000)"
    using at_fixed [of 20512 1320 330] at_fixed [of 20512 1800 330] sample_days
    by (simp add: shiftBounds_def msPerDay_def fixed_zone_def)
  then show ?thesis using shift_instants_have_their_day [of 20512 "''22:00''" "''06:00''" 330] sample_days by simp
qed

text \<open>A start is classified as the rules say. For a slot in order the timing is OUTSIDE_WINDOW
  exactly outside the window, ON_TIME exactly while the agent rings, EARLY before and LATE after it,
  and the minutes of an EARLY start are its minutes before the scheduled start, rounded up.\<close>

theorem start_classification:
  assumes "slot_ordered lo hi s"
  shows "sc_timing (classifyStart s now rules) =
      (if now < sl_windowOpen s \<or> sl_windowClose s \<le> now then OutsideWindow
       else if now < sl_ringStart s then Early else if now < sl_ringEnd s then OnTime else Late)
    \<and> (sc_timing (classifyStart s now rules) = Early \<longrightarrow>
        sl_scheduledStart s \<le> now + 60000 * sc_minutesOff (classifyStart s now rules)
        \<and> now + 60000 * sc_minutesOff (classifyStart s now rules) < sl_scheduledStart s + 60000)
    \<and> (sc_timing (classifyStart s now rules) \<in> {Early, Late} \<longrightarrow> 1 \<le> sc_minutesOff (classifyStart s now rules))"
proof -
  have "sc_timing (classifyStart s now rules) \<in> {Early, Late} \<longrightarrow> 1 \<le> sc_minutesOff (classifyStart s now rules)"
    by (auto simp: classifyStart_def Let_def split: slot_phase.splits)
  then show ?thesis using classify_cases [OF assms] early_minutes [OF assms] by blast
qed

theorem start_classification_witness:
  "sc_timing (classifyStart short_ring_slot 3000000 sample_shift) = OnTime"
proof -
  have "slot_ordered 0 36000000 short_ring_slot" by (simp add: late_before_scheduled_start)
  then show ?thesis using start_classification [of 0 36000000 short_ring_slot 3000000 sample_shift]
    by (simp add: short_ring_slot_def)
qed

end
