(* ===== verification/Tenancy.thy ===== *)
theory Tenancy
  imports Focus
begin

text \<open>
  Who may see, change and decide what: roles (\<open>src/src/shared/rbac\<close>), the tenancy and scope
  rules (\<open>src/src/shared/tenancy/scope.ts\<close>, \<open>combined.ts\<close>), the roles guard, and the
  approval routing and list scope of \<open>src/src/modules/shifts/application\<close>
  (\<open>break-approval.policy.ts\<close>, \<open>approval-scope.ts\<close>). Identifiers are UUIDs, never empty,
  so an identifier is truthy exactly when it is present.
\<close>

section \<open>Roles\<close>

datatype role = SUPER_ADMIN | SUPER_MANAGER | ADMIN | MANAGER | USER

fun ROLE_RANK :: "role \<Rightarrow> nat" where
  "ROLE_RANK SUPER_ADMIN = 5"
| "ROLE_RANK SUPER_MANAGER = 4"
| "ROLE_RANK ADMIN = 3"
| "ROLE_RANK MANAGER = 2"
| "ROLE_RANK USER = 1"

definition outranks :: "role \<Rightarrow> role \<Rightarrow> bool" where
  "outranks actor target = (ROLE_RANK actor > ROLE_RANK target)"

fun assignableRoles :: "role \<Rightarrow> role list" where
  "assignableRoles SUPER_ADMIN = [SUPER_MANAGER, MANAGER, USER]"
| "assignableRoles ADMIN = [MANAGER, USER]"
| "assignableRoles SUPER_MANAGER = [USER]"
| "assignableRoles _ = []"

definition isOrgAdmin :: "role \<Rightarrow> bool" where
  "isOrgAdmin r = (r = ADMIN \<or> r = SUPER_ADMIN)"

definition seesEveryOrg :: "role \<Rightarrow> bool" where
  "seesEveryOrg r = (r = SUPER_ADMIN \<or> r = SUPER_MANAGER)"

definition OVERSEER_ROLES :: "role list" where
  "OVERSEER_ROLES = [SUPER_ADMIN, SUPER_MANAGER, ADMIN, MANAGER]"

definition ORG_ADMIN_ROLES :: "role list" where
  "ORG_ADMIN_ROLES = [SUPER_ADMIN, ADMIN]"

instantiation role :: linorder
begin

definition less_eq_role :: "role \<Rightarrow> role \<Rightarrow> bool" where
  "less_eq_role a b \<longleftrightarrow> ROLE_RANK a \<le> ROLE_RANK b"

definition less_role :: "role \<Rightarrow> role \<Rightarrow> bool" where
  "less_role a b \<longleftrightarrow> ROLE_RANK a < ROLE_RANK b"

lemma ROLE_RANK_inj: "ROLE_RANK a = ROLE_RANK b \<longleftrightarrow> a = b"
  by (cases a; cases b) simp_all

instance
  by standard (auto simp: less_eq_role_def less_role_def ROLE_RANK_inj [symmetric])

end

lemma outranks_less: "outranks a b \<longleftrightarrow> b < a"
  by (simp add: outranks_def less_role_def)

datatype permission =
    CREATE_USER | UPDATE_USER | DELETE_USER | VIEW_TEAM | VIEW_REPORT | MANAGE_COMPANY | MANAGE_SHIFT
  | ASSIGN_MEMBER | VIEW_SCREENSHOTS | SEND_CHAT

section \<open>The caller\<close>

type_synonym uid = nat

record view_grants =
  vg_screenshots :: bool
  vg_timeline :: bool
  vg_activity :: bool

definition NO_GRANTS :: view_grants where
  "NO_GRANTS = \<lparr>vg_screenshots = False, vg_timeline = False, vg_activity = False\<rparr>"

record auth_user =
  u_id :: uid
  u_role :: role
  u_permissions :: "permission list"
  u_companyId :: "uid option"
  u_orgId :: "uid option"
  u_orgHeaderInvalid :: bool
  u_orgDeleted :: bool
  u_departmentId :: "uid option"
  u_managedDepartmentIds :: "uid list"
  u_grants :: "view_grants option"

text \<open>\<open>RolesGuard.canActivate\<close> over the roles and permissions a route requires.\<close>

definition roles_guard :: "role list \<Rightarrow> permission list \<Rightarrow> auth_user option \<Rightarrow> bool result" where
  "roles_guard requiredRoles requiredPerms user =
     (if requiredRoles = [] \<and> requiredPerms = [] then return True
      else (case user of
              None \<Rightarrow> throw (UnauthorizedError ''UNAUTHORIZED'')
            | Some u \<Rightarrow>
                if requiredRoles \<noteq> [] \<and> u_role u \<notin> set requiredRoles
                then throw (ForbiddenError ''FORBIDDEN'')
                else if filter (\<lambda>p. p \<notin> set (u_permissions u)) requiredPerms \<noteq> []
                then throw (ForbiddenError ''FORBIDDEN'')
                else return True))"

section \<open>Scope\<close>

datatype view_section = Screenshots | Timeline | ActivitySection

record person_facts =
  pf_id :: uid
  pf_role :: role
  pf_companyId :: "uid option"
  pf_departmentId :: "uid option"

definition orgOf :: "auth_user \<Rightarrow> uid option" where
  "orgOf me =
     (if u_orgDeleted me then None
      else if seesEveryOrg (u_role me) then u_orgId me
      else or_else (u_orgId me) (u_companyId me))"

definition requireOrg :: "auth_user \<Rightarrow> uid result" where
  "requireOrg me =
     (if u_orgHeaderInvalid me \<or> u_orgDeleted me then throw (NotFoundError ''ORG_NOT_FOUND'')
      else (case orgOf me of
              Some org \<Rightarrow> return org
            | None \<Rightarrow> if seesEveryOrg (u_role me) then throw (ValidationError ''ORG_REQUIRED'')
                      else throw (ForbiddenError ''NO_ORGANISATION'')))"

definition isAdminLike :: "auth_user \<Rightarrow> bool" where
  "isAdminLike me = (u_role me = ADMIN \<or> u_role me = SUPER_ADMIN)"

definition isSuperManager :: "auth_user \<Rightarrow> bool" where
  "isSuperManager me = (u_role me = SUPER_MANAGER)"

definition seesWholeOrg :: "auth_user \<Rightarrow> bool" where
  "seesWholeOrg me = (isAdminLike me \<or> isSuperManager me)"

definition grantsOf :: "auth_user \<Rightarrow> view_grants" where
  "grantsOf me =
     (if seesWholeOrg me then \<lparr>vg_screenshots = True, vg_timeline = True, vg_activity = True\<rparr>
      else if u_role me = MANAGER then coalesce (u_grants me) NO_GRANTS
      else NO_GRANTS)"

definition hasAnyGrant :: "auth_user \<Rightarrow> bool" where
  "hasAnyGrant me = (let g = grantsOf me in vg_screenshots g \<or> vg_timeline g \<or> vg_activity g)"

definition assertAnyGrant :: "auth_user \<Rightarrow> unit result" where
  "assertAnyGrant me = (if \<not> hasAnyGrant me then throw (ForbiddenError ''GRANT_REQUIRED'') else return ())"

definition managedDeptIds :: "auth_user \<Rightarrow> uid list" where
  "managedDeptIds me = (if u_role me = MANAGER then u_managedDepartmentIds me else [])"

definition in_managed_dept :: "auth_user \<Rightarrow> uid option \<Rightarrow> bool" where
  "in_managed_dept me d = (case d of None \<Rightarrow> False | Some x \<Rightarrow> x \<in> set (managedDeptIds me))"

definition inMyOrg :: "auth_user \<Rightarrow> person_facts \<Rightarrow> bool" where
  "inMyOrg me t = (case orgOf me of None \<Rightarrow> False | Some org \<Rightarrow> pf_companyId t = Some org)"

definition canSeePerson :: "auth_user \<Rightarrow> person_facts \<Rightarrow> bool" where
  "canSeePerson me t =
     (if pf_id t = u_id me then True
      else if pf_role t = SUPER_ADMIN then False
      else if \<not> inMyOrg me t then False
      else if seesWholeOrg me then True
      else if u_role me = MANAGER then pf_role t = USER \<and> in_managed_dept me (pf_departmentId t)
      else False)"

definition canEditPerson :: "auth_user \<Rightarrow> person_facts \<Rightarrow> bool" where
  "canEditPerson me t =
     (if pf_id t = u_id me then False
      else if pf_role t = SUPER_ADMIN then False
      else if pf_role t = SUPER_MANAGER then u_role me = SUPER_ADMIN
      else if \<not> inMyOrg me t then False
      else if u_role me = SUPER_ADMIN then True
      else if u_role me = ADMIN then pf_role t = MANAGER \<or> pf_role t = USER
      else if u_role me = SUPER_MANAGER then pf_role t = USER
      else False)"

definition canViewSection :: "auth_user \<Rightarrow> person_facts \<Rightarrow> view_section \<Rightarrow> bool" where
  "canViewSection me t sec =
     (if pf_id t = u_id me then True
      else if \<not> canSeePerson me t then False
      else (case sec of Screenshots \<Rightarrow> vg_screenshots (grantsOf me)
                      | Timeline \<Rightarrow> vg_timeline (grantsOf me)
                      | ActivitySection \<Rightarrow> vg_activity (grantsOf me)))"

definition assertCanSee :: "auth_user \<Rightarrow> person_facts option \<Rightarrow> person_facts result" where
  "assertCanSee me t =
     (case t of
        None \<Rightarrow> throw (NotFoundError ''NOT_FOUND'')
      | Some p \<Rightarrow> if \<not> canSeePerson me p then throw (NotFoundError ''NOT_FOUND'') else return p)"

definition assertCanEdit :: "auth_user \<Rightarrow> person_facts option \<Rightarrow> person_facts result" where
  "assertCanEdit me t =
     (case t of
        None \<Rightarrow> throw (NotFoundError ''NOT_FOUND'')
      | Some p \<Rightarrow>
          if \<not> canSeePerson me p \<and> \<not> canEditPerson me p then throw (NotFoundError ''NOT_FOUND'')
          else if \<not> canEditPerson me p then throw (ForbiddenError ''FORBIDDEN'')
          else return p)"

definition assertCanViewSection ::
  "auth_user \<Rightarrow> person_facts option \<Rightarrow> view_section \<Rightarrow> person_facts result" where
  "assertCanViewSection me t sec =
     (case t of
        None \<Rightarrow> throw (NotFoundError ''NOT_FOUND'')
      | Some p \<Rightarrow>
          if \<not> canSeePerson me p then throw (NotFoundError ''NOT_FOUND'')
          else if \<not> canViewSection me p sec then throw (ForbiddenError ''GRANT_REQUIRED'')
          else return p)"

subsection \<open>List filters\<close>

text \<open>
  A Prisma \<open>where\<close> on users, as the code builds it: the company (one, or any live one), never a
  Super Admin, live people only unless asked, and either everyone or a union of alternatives
  (Staff of some departments, one person; no alternative matches nobody).
\<close>

datatype company_filter = OneCompany uid | AnyLiveCompany

datatype visible_alt = StaffOf "uid list" | OnePerson uid

record people_where =
  pw_company :: company_filter
  pw_liveOnly :: bool
  pw_visible :: "visible_alt list option"

record person_row = person_facts +
  pr_deleted :: bool
  pr_companyDeleted :: bool

fun alt_matches :: "person_row \<Rightarrow> visible_alt \<Rightarrow> bool" where
  "alt_matches t (StaffOf depts) =
     (pf_role t = USER \<and> (case pf_departmentId t of None \<Rightarrow> False | Some d \<Rightarrow> d \<in> set depts))"
| "alt_matches t (OnePerson i) = (pf_id t = i)"

definition where_matches :: "people_where \<Rightarrow> person_row \<Rightarrow> bool" where
  "where_matches w t =
     ((case pw_company w of
         OneCompany c \<Rightarrow> pf_companyId t = Some c
       | AnyLiveCompany \<Rightarrow> pf_companyId t \<noteq> None \<and> \<not> pr_companyDeleted t)
      \<and> pf_role t \<noteq> SUPER_ADMIN
      \<and> (pw_liveOnly w \<longrightarrow> \<not> pr_deleted t)
      \<and> (case pw_visible w of None \<Rightarrow> True | Some alts \<Rightarrow> \<exists>a \<in> set alts. alt_matches t a))"

definition peopleWhere :: "auth_user \<Rightarrow> bool \<Rightarrow> bool \<Rightarrow> people_where result" where
  "peopleWhere me includeDeleted includeSelf =
     and_then (requireOrg me) (\<lambda>org.
       let base = \<lparr>pw_company = OneCompany org, pw_liveOnly = (\<not> includeDeleted), pw_visible = None\<rparr> in
       if seesWholeOrg me then return base
       else
         (let depts = managedDeptIds me;
              visible = (if u_role me = MANAGER \<and> depts \<noteq> [] then [StaffOf depts] else [])
                        @ (if includeSelf then [OnePerson (u_id me)] else [])
          in return (base\<lparr>pw_visible := Some visible\<rparr>)))"

definition visibleDeptIds :: "auth_user \<Rightarrow> uid list option" where
  "visibleDeptIds me = (if seesWholeOrg me then None else Some (managedDeptIds me))"

definition orgInView :: "auth_user \<Rightarrow> uid option result" where
  "orgInView me =
     (if u_orgHeaderInvalid me then throw (NotFoundError ''ORG_NOT_FOUND'')
      else if seesEveryOrg (u_role me) then return (u_orgId me)
      else and_then (requireOrg me) (\<lambda>org. return (Some org)))"

definition peopleWhereAnyOrg :: "auth_user \<Rightarrow> bool \<Rightarrow> bool \<Rightarrow> people_where result" where
  "peopleWhereAnyOrg me includeDeleted includeSelf =
     (if \<not> seesEveryOrg (u_role me) then peopleWhere me includeDeleted includeSelf
      else and_then (orgInView me) (\<lambda>view.
        if view \<noteq> None then peopleWhere me includeDeleted includeSelf
        else return \<lparr>pw_company = AnyLiveCompany, pw_liveOnly = (\<not> includeDeleted), pw_visible = None\<rparr>))"

section \<open>Combined views\<close>

definition allOrgsInView :: "auth_user \<Rightarrow> bool" where
  "allOrgsInView me = (seesEveryOrg (u_role me) \<and> \<not> u_orgHeaderInvalid me \<and> u_orgId me = None)"

definition actingIn :: "auth_user \<Rightarrow> uid \<Rightarrow> auth_user" where
  "actingIn me companyId =
     (if \<not> seesEveryOrg (u_role me) then me
      else me\<lparr>u_orgId := Some companyId, u_orgHeaderInvalid := False, u_orgDeleted := False\<rparr>)"

section \<open>Approvals: routing, deciding, listing\<close>

text \<open>The stored approver role; None is null.\<close>

record route_decision =
  rd_status :: approval_status
  rd_approverRole :: "role option"
  rd_approverId :: "uid option"

definition route :: "role \<Rightarrow> uid option \<Rightarrow> route_decision" where
  "route r departmentId =
     (if r = SUPER_ADMIN \<or> r = SUPER_MANAGER \<or> r = ADMIN
      then \<lparr>rd_status = NotRequired, rd_approverRole = None, rd_approverId = None\<rparr>
      else if r = USER \<and> departmentId \<noteq> None
      then \<lparr>rd_status = Pending, rd_approverRole = Some MANAGER, rd_approverId = None\<rparr>
      else \<lparr>rd_status = Pending, rd_approverRole = Some ADMIN, rd_approverId = None\<rparr>)"

definition actorFor :: "auth_user \<Rightarrow> person_row \<Rightarrow> auth_user option" where
  "actorFor actor subject =
     (if \<not> allOrgsInView actor then Some actor
      else (case pf_companyId subject of
              None \<Rightarrow> None
            | Some c \<Rightarrow> if pr_companyDeleted subject then None else Some (actingIn actor c)))"

definition facts_of :: "person_row \<Rightarrow> person_facts" where
  "facts_of t = \<lparr>pf_id = pf_id t, pf_role = pf_role t, pf_companyId = pf_companyId t,
     pf_departmentId = pf_departmentId t\<rparr>"

definition canDecide :: "auth_user \<Rightarrow> uid \<Rightarrow> person_row option \<Rightarrow> bool" where
  "canDecide actor userId subject =
     (if userId = u_id actor then False
      else (case subject of
              None \<Rightarrow> False
            | Some s \<Rightarrow>
                (case actorFor actor s of
                   None \<Rightarrow> False
                 | Some a \<Rightarrow>
                     if \<not> canSeePerson a (facts_of s) then False
                     else if seesWholeOrg a then pf_role s = USER \<or> pf_role s = MANAGER
                     else if u_role a = MANAGER then pf_role s = USER \<and> in_managed_dept a (pf_departmentId s)
                     else False)))"

definition canView :: "auth_user \<Rightarrow> uid \<Rightarrow> person_row option \<Rightarrow> bool" where
  "canView actor userId subject =
     (if userId = u_id actor then True
      else (case subject of
              None \<Rightarrow> False
            | Some s \<Rightarrow>
                (case actorFor actor s of None \<Rightarrow> False | Some a \<Rightarrow> canSeePerson a (facts_of s))))"

definition assertApprover :: "auth_user \<Rightarrow> unit result" where
  "assertApprover me =
     (if \<not> seesWholeOrg me \<and> u_role me \<noteq> MANAGER then throw (ForbiddenError ''FORBIDDEN'')
      else if \<not> allOrgsInView me then and_then (requireOrg me) (\<lambda>_. return ())
      else return ())"

text \<open>The subjects part of an \<open>ApprovalFilter\<close>; \<open>sf_roles\<close> and \<open>sf_departmentIds\<close> None are absent.\<close>

record subject_filter =
  sf_companyId :: "uid option"
  sf_departmentIds :: "uid list option"
  sf_roles :: "role list option"
  sf_liveOrgsOnly :: bool
  sf_adminPool :: bool
  sf_excludeUserId :: uid

datatype approval_scope = Mine | AllItems

definition approvalFilterFor :: "auth_user \<Rightarrow> approval_scope \<Rightarrow> uid option \<Rightarrow> subject_filter result" where
  "approvalFilterFor me scope companyId =
     (if allOrgsInView me then
        return \<lparr>sf_companyId = companyId, sf_departmentIds = None, sf_roles = None, sf_liveOrgsOnly = True,
                sf_adminPool = (isAdminLike me \<and> scope \<noteq> AllItems), sf_excludeUserId = u_id me\<rparr>
      else and_then (requireOrg me) (\<lambda>org.
        if companyId \<noteq> None \<and> companyId \<noteq> Some org then throw (NotFoundError ''ORG_NOT_FOUND'')
        else if u_role me = MANAGER then
          return \<lparr>sf_companyId = Some org, sf_departmentIds = Some (managedDeptIds me), sf_roles = Some [USER],
                  sf_liveOrgsOnly = False, sf_adminPool = False, sf_excludeUserId = u_id me\<rparr>
        else
          return \<lparr>sf_companyId = Some org, sf_departmentIds = None, sf_roles = None, sf_liveOrgsOnly = False,
                  sf_adminPool = (scope \<noteq> AllItems \<and> u_role me \<noteq> SUPER_MANAGER),
                  sf_excludeUserId = u_id me\<rparr>))"

text \<open>
  The person part of \<open>approvalWhere\<close> (the rest of it is on the record): a filter with neither an
  organisation nor \<open>liveOrgsOnly\<close> matches nobody.
\<close>

definition subject_part :: "subject_filter \<Rightarrow> person_row \<Rightarrow> bool" where
  "subject_part f t =
     ((case sf_companyId f of
         Some c \<Rightarrow> pf_companyId t = Some c
       | None \<Rightarrow> sf_liveOrgsOnly f \<and> pf_companyId t \<noteq> None)
      \<and> (sf_liveOrgsOnly f \<longrightarrow> pf_companyId t \<noteq> None \<and> \<not> pr_companyDeleted t)
      \<and> (case sf_departmentIds f of
           None \<Rightarrow> True
         | Some ds \<Rightarrow> (case pf_departmentId t of None \<Rightarrow> False | Some d \<Rightarrow> d \<in> set ds))
      \<and> (case sf_roles f of None \<Rightarrow> True | Some rs \<Rightarrow> pf_role t \<in> set rs))"

definition subject_matches :: "subject_filter \<Rightarrow> person_row \<Rightarrow> bool" where
  "subject_matches f t = (subject_part f t \<and> pf_id t \<noteq> sf_excludeUserId f)"

definition mayAdjustFocus :: "auth_user \<Rightarrow> bool" where
  "mayAdjustFocus me = (u_role me = SUPER_MANAGER)"

section \<open>Lemmas\<close>

lemma facts_of_simps [simp]:
  "pf_id (facts_of t) = pf_id t" "pf_role (facts_of t) = pf_role t"
  "pf_companyId (facts_of t) = pf_companyId t" "pf_departmentId (facts_of t) = pf_departmentId t"
  by (simp_all add: facts_of_def)

lemma requireOrg_Inr: "requireOrg me = Inr org \<Longrightarrow> orgOf me = Some org \<and> \<not> u_orgHeaderInvalid me"
  by (auto simp: requireOrg_def split: if_splits option.splits)

lemma seesWholeOrg_roles: "seesWholeOrg me \<longleftrightarrow> u_role me \<in> {SUPER_ADMIN, SUPER_MANAGER, ADMIN}"
  by (auto simp: seesWholeOrg_def isAdminLike_def isSuperManager_def)

lemma canSee_org:
  "canSeePerson me t \<Longrightarrow> pf_id t \<noteq> u_id me \<Longrightarrow> orgOf me \<noteq> None \<and> pf_companyId t = orgOf me \<and> pf_role t \<noteq> SUPER_ADMIN"
  by (auto simp: canSeePerson_def inMyOrg_def split: if_splits option.splits)

lemma canEdit_outranks: "canEditPerson me t \<Longrightarrow> outranks (u_role me) (pf_role t)"
  by (cases "pf_role t"; cases "u_role me")
    (auto simp: canEditPerson_def outranks_def split: if_splits)

lemma acting_simps [simp]:
  "u_id (actingIn me c) = u_id me" "u_role (actingIn me c) = u_role me"
  "u_managedDepartmentIds (actingIn me c) = u_managedDepartmentIds me"
  by (simp_all add: actingIn_def)

lemma acting_org: "seesEveryOrg (u_role me) \<Longrightarrow> orgOf (actingIn me c) = Some c"
  by (simp add: actingIn_def orgOf_def)

lemma actorFor_role: "actorFor actor s = Some a \<Longrightarrow> u_role a = u_role actor \<and> u_id a = u_id actor"
  by (auto simp: actorFor_def split: if_splits option.splits)

lemma canDecide_cases:
  assumes "canDecide actor userId (Some s)"
  shows "userId \<noteq> u_id actor \<and> outranks (u_role actor) (pf_role s) \<and> pf_role s \<in> {USER, MANAGER}"
proof -
  obtain a where a: "actorFor actor s = Some a" "userId \<noteq> u_id actor"
    using assms by (auto simp: canDecide_def split: if_splits option.splits)
  then have d: "if seesWholeOrg a then pf_role s = USER \<or> pf_role s = MANAGER
      else u_role a = MANAGER \<and> pf_role s = USER"
    using assms by (auto simp: canDecide_def split: if_splits)
  then show ?thesis using a(2) actorFor_role [OF a(1)]
    by (auto simp: seesWholeOrg_roles outranks_def split: if_splits)
qed

lemma assignable_below: "set (assignableRoles r) \<subseteq> {t. outranks r t}"
  by (cases r) (auto simp: outranks_def)

lemma where_visible_matches:
  "(\<exists>a \<in> set ((if c then [StaffOf ds] else []) @ (if d then [OnePerson i] else [])). alt_matches t a)
     \<longleftrightarrow> c \<and> alt_matches t (StaffOf ds) \<or> d \<and> pf_id t = i"
  by auto

lemma peopleWhere_matches:
  assumes "peopleWhere me includeDeleted includeSelf = Inr w" "pf_id t \<noteq> u_id me" "includeDeleted \<or> \<not> pr_deleted t"
  shows "where_matches w t \<longleftrightarrow> canSeePerson me (facts_of t)"
proof -
  obtain org where org: "requireOrg me = Inr org" using assms(1) by (auto simp: peopleWhere_def)
  note o = requireOrg_Inr [OF org]
  show ?thesis
  proof (cases "seesWholeOrg me")
    case True
    then show ?thesis
      using assms org o by (auto simp: peopleWhere_def where_matches_def canSeePerson_def inMyOrg_def Let_def)
  next
    case False
    then have w: "where_matches w t \<longleftrightarrow> pf_companyId t = Some org \<and> pf_role t \<noteq> SUPER_ADMIN
        \<and> (u_role me = MANAGER \<and> managedDeptIds me \<noteq> [] \<and> alt_matches t (StaffOf (managedDeptIds me)))"
      using assms org where_visible_matches [of _ "managedDeptIds me" includeSelf "u_id me" t]
      by (auto simp: peopleWhere_def where_matches_def Let_def split: if_splits)
    show ?thesis
      unfolding w using False assms(2) o
      by (auto simp: canSeePerson_def inMyOrg_def in_managed_dept_def split: option.splits)
  qed
qed

lemma approvals_match:
  assumes "assertApprover me = Inr ()" "approvalFilterFor me AllItems None = Inr f"
    and "pf_role s \<in> {USER, MANAGER}"
  shows "subject_matches f s \<longleftrightarrow> canDecide me (pf_id s) (Some s)"
proof (cases "allOrgsInView me")
  case True
  then have me: "seesEveryOrg (u_role me)" by (simp add: allOrgsInView_def)
  then have w: "seesWholeOrg (actingIn me c)" for c
    by (auto simp: seesWholeOrg_roles seesEveryOrg_def)
  have f: "f = \<lparr>sf_companyId = None, sf_departmentIds = None, sf_roles = None, sf_liveOrgsOnly = True,
      sf_adminPool = False, sf_excludeUserId = u_id me\<rparr>"
    using assms(2) True by (simp add: approvalFilterFor_def)
  show ?thesis
  proof (cases "pf_companyId s")
    case None
    then show ?thesis by (simp add: f subject_matches_def subject_part_def canDecide_def actorFor_def True)
  next
    case (Some c)
    then show ?thesis using assms(3) acting_org [OF me, of c] w [of c]
      by (auto simp: f subject_matches_def subject_part_def canDecide_def actorFor_def True canSeePerson_def inMyOrg_def)
  qed
next
  case False
  then obtain org where org: "requireOrg me = Inr org"
    using assms(2) by (auto simp: approvalFilterFor_def)
  note o = requireOrg_Inr [OF org]
  have actor: "actorFor me s = Some me" using False by (simp add: actorFor_def)
  show ?thesis
  proof (cases "u_role me = MANAGER")
    case True
    then have nw: "\<not> seesWholeOrg me" by (simp add: seesWholeOrg_roles)
    have f: "f = \<lparr>sf_companyId = Some org, sf_departmentIds = Some (managedDeptIds me), sf_roles = Some [USER],
        sf_liveOrgsOnly = False, sf_adminPool = False, sf_excludeUserId = u_id me\<rparr>"
      using assms(2) False True org by (simp add: approvalFilterFor_def)
    show ?thesis
      using o by (simp add: f subject_matches_def subject_part_def canDecide_def actor nw True canSeePerson_def inMyOrg_def
          in_managed_dept_def split: option.splits) auto
  next
    case nm: False
    then have w: "seesWholeOrg me" using assms(1) by (auto simp: assertApprover_def split: if_splits)
    have f: "f = \<lparr>sf_companyId = Some org, sf_departmentIds = None, sf_roles = None, sf_liveOrgsOnly = False,
        sf_adminPool = False, sf_excludeUserId = u_id me\<rparr>"
      using assms(2) False nm org by (simp add: approvalFilterFor_def)
    show ?thesis
      using o assms(3) by (auto simp: f subject_matches_def subject_part_def canDecide_def actor w canSeePerson_def inMyOrg_def)
  qed
qed

section \<open>Properties\<close>

text \<open>C18: organisations are isolated and authority only flows down. Anyone else the caller can see is
  in the organisation the caller acts in and is not a Super Admin; whoever the caller may edit, may
  give a role to, or whose items the caller may decide ranks strictly below the caller; and nobody
  decides an item of their own.\<close>

theorem scope_is_isolated:
  "{t. canSeePerson me t} \<subseteq> {t. pf_id t = u_id me} \<union> {t. orgOf me \<noteq> None \<and> pf_companyId t = orgOf me \<and> pf_role t \<noteq> SUPER_ADMIN}
   \<and> {t. canEditPerson me t} \<subseteq> {t. pf_id t \<noteq> u_id me \<and> outranks (u_role me) (pf_role t)}
   \<and> {t. canEditPerson me t} \<subseteq> {t. inMyOrg me t} \<union> {t. u_role me = SUPER_ADMIN \<and> pf_role t = SUPER_MANAGER}
   \<and> set (assignableRoles (u_role me)) \<subseteq> {r. outranks (u_role me) r}
   \<and> {s. canDecide me (pf_id s) (Some s)} \<subseteq> {s. pf_id s \<noteq> u_id me \<and> outranks (u_role me) (pf_role s)}"
proof -
  have "{t. canEditPerson me t} \<subseteq> {t. inMyOrg me t} \<union> {t. u_role me = SUPER_ADMIN \<and> pf_role t = SUPER_MANAGER}"
    "{t. canEditPerson me t} \<subseteq> {t. pf_id t \<noteq> u_id me}"
    by (auto simp: canEditPerson_def split: if_splits)
  then show ?thesis
    using canSee_org [of me] canEdit_outranks [of me] assignable_below canDecide_cases [of me] by blast
qed

text \<open>The lists show exactly who may be seen. The filter \<open>peopleWhere\<close> hands to the database
  selects, of everyone but the caller, the people \<open>canSeePerson\<close> admits one by one (deleted ones
  only when asked): a list neither leaks a person nor hides one.\<close>

theorem lists_show_who_may_be_seen:
  assumes "peopleWhere me includeDeleted includeSelf = Inr w" "pf_id t \<noteq> u_id me"
    and "includeDeleted \<or> \<not> pr_deleted t"
  shows "where_matches w t \<longleftrightarrow> canSeePerson me (facts_of t)"
  by (rule peopleWhere_matches [OF assms])

definition sample_manager :: auth_user where
  "sample_manager = \<lparr>u_id = 1, u_role = MANAGER, u_permissions = [], u_companyId = Some 7, u_orgId = None,
     u_orgHeaderInvalid = False, u_orgDeleted = False, u_departmentId = None,
     u_managedDepartmentIds = [3], u_grants = None\<rparr>"

definition sample_staff :: person_row where
  "sample_staff = \<lparr>pf_id = 2, pf_role = USER, pf_companyId = Some 7, pf_departmentId = Some 3,
     pr_deleted = False, pr_companyDeleted = False\<rparr>"

theorem lists_show_who_may_be_seen_witness:
  "where_matches \<lparr>pw_company = OneCompany 7, pw_liveOnly = True, pw_visible = Some [StaffOf [3]]\<rparr> sample_staff"
proof -
  have "peopleWhere sample_manager False False =
      Inr \<lparr>pw_company = OneCompany 7, pw_liveOnly = True, pw_visible = Some [StaffOf [3]]\<rparr>"
    and "canSeePerson sample_manager (facts_of sample_staff)"
    by code_simp+
  then show ?thesis
    using lists_show_who_may_be_seen [of sample_manager False False _ sample_staff]
    by (simp add: sample_manager_def sample_staff_def)
qed

text \<open>The approvals inbox and the right to decide agree. For an approver, the item of a person
  whose items are routed for approval is in the "all" list exactly when the approver may decide it,
  for Managers, Admins, and Super Admins and Super Managers with one or all organisations in view.\<close>

theorem inbox_is_what_may_be_decided:
  assumes "assertApprover me = Inr ()" "approvalFilterFor me AllItems None = Inr f"
    and "rd_status (route (pf_role s) (pf_departmentId s)) = Pending"
  shows "subject_matches f s \<longleftrightarrow> canDecide me (pf_id s) (Some s)"
proof -
  have "pf_role s \<in> {USER, MANAGER}" using assms(3) by (cases "pf_role s") (auto simp: route_def)
  then show ?thesis by (rule approvals_match [OF assms(1,2)])
qed

theorem inbox_is_what_may_be_decided_witness:
  "canDecide sample_manager 2 (Some sample_staff)"
proof -
  have a: "assertApprover sample_manager = Inr ()"
    and f: "approvalFilterFor sample_manager AllItems None = Inr \<lparr>sf_companyId = Some 7, sf_departmentIds = Some [3],
      sf_roles = Some [USER], sf_liveOrgsOnly = False, sf_adminPool = False, sf_excludeUserId = 1\<rparr>"
    and r: "rd_status (route (pf_role sample_staff) (pf_departmentId sample_staff)) = Pending"
    by code_simp+
  show ?thesis
    using inbox_is_what_may_be_decided [OF a f r] by (simp add: subject_matches_def subject_part_def sample_staff_def)
qed

end
