(* ===== verification/Break_Store.thy ===== *)
theory Break_Store
  imports Break_Schedule Tenancy
begin

text \<open>
  The stored breaks and their operations: \<open>src/src/modules/shifts/infrastructure/
  prisma-break-record.repository.ts\<close> with the row types and helpers of
  \<open>domain/break-record.repository.ts\<close>, the month locks of \<open>shared/database/month-lock.ts\<close>
  and the request clock of \<open>shared/tenancy/request-clock.ts\<close>.

  The tables the repository reads and writes are a record (\<open>break_db\<close>); a row's segments are kept
  in it (they are deleted with it). A transaction is a function from the tables to a result and the
  tables afterwards; one that throws leaves them unchanged. Transactions run one after the other. Starting, pausing, resuming and the quick break
  serialise on a row lock of the user (\<open>lockUser\<close>) or of the record; \<open>createForSession\<close>, \<open>markEnded\<close> and
  \<open>endPausedTx\<close> take none, so for them one step stands for a transaction no other one of the person cuts
  into (the unique indexes of the tables, which hold in any case, are part of \<open>create_break\<close>).
  \<open>createdAt\<close> and \<open>updatedAt\<close> are left out.
\<close>

section \<open>Rows\<close>

datatype break_state = BActive | BPaused | BEnded

datatype break_source = SourceAgent | SourceLegacy | SourceSystem

text \<open>The columns a new record is given (\<open>nb_outcome\<close> is TAKEN unless given).\<close>

record new_break_record =
  nb_userId :: uid
  nb_date :: string
  nb_kind :: "break_kind option"
  nb_presenceType :: presence_type
  nb_shiftId :: "uid option"
  nb_shiftName :: "string option"
  nb_scheduledStart :: "int option"
  nb_durationMin :: "int option"
  nb_windowOpen :: "int option"
  nb_windowClose :: "int option"
  nb_ringStart :: "int option"
  nb_ringEnd :: "int option"
  nb_startedAt :: int
  nb_timing :: break_timing
  nb_minutesOff :: int
  nb_reason :: "string option"
  nb_source :: break_source
  nb_approvalStatus :: approval_status
  nb_approverRole :: "role option"
  nb_approverId :: "uid option"
  nb_outcome :: break_outcome

record segment_row =
  sg_presenceSessionId :: "uid option"
  sg_startedAt :: int
  sg_endedAt :: "int option"

text \<open>The decision and clock columns, and the others the repository writes itself.\<close>

record pending_clock =
  pc_dueAt :: "int option"
  pc_escalatedAt :: "int option"
  pc_remindedAt :: "int option"

record break_row =
  br_id :: uid
  br_data :: new_break_record
  br_seq :: nat
  br_presenceSessionId :: "uid option"
  br_overrunReason :: "string option"
  br_decidedById :: "uid option"
  br_decidedAt :: "int option"
  br_decisionNote :: "string option"
  br_overrunSec :: "int option"
  br_overrunAsked :: bool
  br_commentedAt :: "int option"
  br_clock :: pending_clock
  br_state :: break_state
  br_plannedMin :: "int option"
  br_endedAt :: "int option"
  br_takenSec :: "int option"
  br_segments :: "segment_row list"

abbreviation br_userId :: "break_row \<Rightarrow> uid" where "br_userId b \<equiv> nb_userId (br_data b)"
abbreviation br_date :: "break_row \<Rightarrow> string" where "br_date b \<equiv> nb_date (br_data b)"
abbreviation br_kind :: "break_row \<Rightarrow> break_kind option" where "br_kind b \<equiv> nb_kind (br_data b)"
abbreviation br_approvalStatus :: "break_row \<Rightarrow> approval_status" where
  "br_approvalStatus b \<equiv> nb_approvalStatus (br_data b)"

record presence_session =
  ss_id :: uid
  ss_userId :: uid
  ss_type :: presence_type
  ss_date :: string
  ss_startedAt :: int
  ss_endedAt :: "int option"
  ss_durationSec :: "int option"

text \<open>
  The tables. \<open>db_dayEnds\<close> maps a person and day to the row's \<open>endedAt\<close>; \<open>db_openWork\<close> holds
  the people with an open work session; \<open>db_sla\<close> is the approval time limit of a person's
  organisation (the settings service).
\<close>

record break_db =
  db_presence :: "presence_session list"
  db_breaks :: "break_row list"
  db_dayEnds :: "uid \<times> string \<Rightarrow> int option option"
  db_openWork :: "uid set"
  db_companyOf :: "uid \<Rightarrow> uid option"
  db_monthLocks :: "(uid \<times> string) set"
  db_sla :: "uid \<Rightarrow> int"
  db_nextId :: uid

text \<open>What a query may throw: the code's own errors, a violated unique key (P2002) and a reference to a
  missing row (P2003).\<close>

datatype db_error = App app_exception | P2002 | P2003

type_synonym 'a tx = "break_db \<Rightarrow> (db_error + 'a) \<times> break_db"

definition transaction :: "'a tx \<Rightarrow> 'a tx" where
  "transaction f db = (case f db of (Inl e, _) \<Rightarrow> (Inl e, db) | (Inr x, db') \<Rightarrow> (Inr x, db'))"

section \<open>The request clock\<close>

record clock_frame =
  cf_eventAt :: "int option"
  cf_wall :: int

definition clock_now :: "clock_frame \<Rightarrow> int" where
  "clock_now c = coalesce (cf_eventAt c) (cf_wall c)"

definition isReplay :: "clock_frame \<Rightarrow> bool" where
  "isReplay c = (cf_eventAt c \<noteq> None)"

section \<open>Month locks\<close>

definition monthOf :: "string \<Rightarrow> string" where
  "monthOf dateKey = take 7 dateKey"

definition isMonthLocked :: "break_db \<Rightarrow> string \<Rightarrow> uid \<Rightarrow> bool" where
  "isMonthLocked db dateKey userId =
     (case db_companyOf db userId of
        None \<Rightarrow> False
      | Some c \<Rightarrow> (c, monthOf dateKey) \<in> db_monthLocks db)"

definition assertMonthOpen :: "break_db \<Rightarrow> string \<Rightarrow> uid \<Rightarrow> unit result" where
  "assertMonthOpen db dateKey userId =
     (if isMonthLocked db dateKey userId then throw (ConflictError ''MONTH_LOCKED'') else return ())"

section \<open>Reading\<close>

record segment_span =
  gs_startedAt :: int
  gs_endedAt :: "int option"

record break_record_row =
  bv_row :: break_row
  bv_endedAt :: "int option"
  bv_segments :: "segment_span list"

definition session_of :: "break_db \<Rightarrow> uid option \<Rightarrow> presence_session option" where
  "session_of db i =
     (case i of None \<Rightarrow> None | Some k \<Rightarrow> List.find (\<lambda>s. ss_id s = k) (db_presence db))"

definition segment_of :: "break_db \<Rightarrow> segment_row \<Rightarrow> segment_span" where
  "segment_of db g =
     (case session_of db (sg_presenceSessionId g) of
        None \<Rightarrow> \<lparr>gs_startedAt = sg_startedAt g, gs_endedAt = sg_endedAt g\<rparr>
      | Some s \<Rightarrow> \<lparr>gs_startedAt = ss_startedAt s, gs_endedAt = ss_endedAt s\<rparr>)"

definition breakRowFromPrisma :: "break_db \<Rightarrow> break_row \<Rightarrow> break_record_row" where
  "breakRowFromPrisma db r =
     \<lparr>bv_row = r,
      bv_endedAt = (case session_of db (br_presenceSessionId r) of
                      Some s \<Rightarrow> ss_endedAt s
                    | None \<Rightarrow> Some (nb_startedAt (br_data r))),
      bv_segments = map (segment_of db) (js_sort (\<lambda>a b. sg_startedAt a - sg_startedAt b) (br_segments r))\<rparr>"

definition find_break :: "break_db \<Rightarrow> uid \<Rightarrow> break_row option" where
  "find_break db i = List.find (\<lambda>b. br_id b = i) (db_breaks db)"

definition findById :: "break_db \<Rightarrow> uid \<Rightarrow> break_record_row option" where
  "findById db i = map_option (breakRowFromPrisma db) (find_break db i)"

definition elapsedSec :: "int \<Rightarrow> int \<Rightarrow> int" where
  "elapsedSec t0 t1 = max 0 (round_div (t1 - t0) 1000)"

definition segmentsOf :: "break_record_row \<Rightarrow> segment_span list" where
  "segmentsOf r =
     (if bv_segments r \<noteq> [] then bv_segments r
      else if nb_outcome (br_data (bv_row r)) \<noteq> Taken then []
      else [\<lparr>gs_startedAt = nb_startedAt (br_data (bv_row r)), gs_endedAt = bv_endedAt r\<rparr>])"

definition segment_ms :: "int \<Rightarrow> segment_span \<Rightarrow> int" where
  "segment_ms now g = max 0 (coalesce (gs_endedAt g) now - gs_startedAt g)"

definition takenSecOf :: "break_record_row \<Rightarrow> int \<Rightarrow> int" where
  "takenSecOf r now = sum_list (map (segment_ms now) (segmentsOf r)) div 1000"

definition isSkipRecord :: "new_break_record \<Rightarrow> bool" where
  "isSkipRecord r = (nb_outcome r = Skipped \<or> nb_outcome r = AutoSkipped)"

definition isReplaceableAutoSkip :: "new_break_record \<Rightarrow> int \<Rightarrow> bool" where
  "isReplaceableAutoSkip r now =
     (nb_outcome r = AutoSkipped \<and> nb_reason r = None
      \<and> (case nb_windowClose r of
           None \<Rightarrow> False
         | Some close \<Rightarrow> nb_startedAt r < close \<and> now < close))"

definition needsComment :: "new_break_record \<Rightarrow> bool" where
  "needsComment r =
     (isSkipRecord r \<and> (nb_reason r = None \<or> nb_reason r = Some '''') \<and> nb_approvalStatus r = Pending)"

definition pendingClock :: "clock_frame \<Rightarrow> int \<Rightarrow> int \<Rightarrow> pending_clock" where
  "pendingClock clk now slaHours =
     (let start = (if isReplay clk then cf_wall clk else now)
      in \<lparr>pc_dueAt = Some (start + slaHours * 3600000), pc_escalatedAt = None, pc_remindedAt = None\<rparr>)"

definition no_clock :: pending_clock where
  "no_clock = \<lparr>pc_dueAt = None, pc_escalatedAt = None, pc_remindedAt = None\<rparr>"

section \<open>Statements\<close>

definition update_break :: "uid \<Rightarrow> (break_row \<Rightarrow> break_row) \<Rightarrow> break_db \<Rightarrow> break_db" where
  "update_break i f db = db\<lparr>db_breaks := map (\<lambda>b. if br_id b = i then f b else b) (db_breaks db)\<rparr>"

definition delete_break :: "uid \<Rightarrow> break_db \<Rightarrow> break_db" where
  "delete_break i db = db\<lparr>db_breaks := filter (\<lambda>b. br_id b \<noteq> i) (db_breaks db)\<rparr>"

definition closed_at :: "int \<Rightarrow> presence_session \<Rightarrow> presence_session" where
  "closed_at t s = s\<lparr>ss_endedAt := Some t, ss_durationSec := Some (elapsedSec (ss_startedAt s) t)\<rparr>"

definition close_session :: "uid \<Rightarrow> int \<Rightarrow> break_db \<Rightarrow> break_db" where
  "close_session i t db = db\<lparr>db_presence := map (\<lambda>s. if ss_id s = i then closed_at t s else s) (db_presence db)\<rparr>"

definition create_session :: "uid \<Rightarrow> presence_type \<Rightarrow> string \<Rightarrow> int \<Rightarrow> break_db \<Rightarrow> uid \<times> break_db" where
  "create_session userId type day at db =
     (db_nextId db,
      db\<lparr>db_presence := db_presence db @ [\<lparr>ss_id = db_nextId db, ss_userId = userId, ss_type = type, ss_date = day,
           ss_startedAt = at, ss_endedAt = None, ss_durationSec = None\<rparr>],
         db_nextId := Suc (db_nextId db)\<rparr>)"

definition session_ids :: "break_row \<Rightarrow> uid set" where
  "session_ids b = set (List.map_filter sg_presenceSessionId (br_segments b))"

text \<open>The unique keys: person, day, kind and number; the current session; a segment's session.\<close>

definition clashes :: "break_row \<Rightarrow> break_row \<Rightarrow> bool" where
  "clashes a b =
     ((br_kind a \<noteq> None \<and> br_kind a = br_kind b \<and> br_userId a = br_userId b \<and> br_date a = br_date b
        \<and> br_seq a = br_seq b)
      \<or> (br_presenceSessionId a \<noteq> None \<and> br_presenceSessionId a = br_presenceSessionId b)
      \<or> session_ids a \<inter> session_ids b \<noteq> {})"

definition create_break :: "(uid \<Rightarrow> break_row) \<Rightarrow> break_row tx" where
  "create_break mk db =
     (let row = mk (db_nextId db) in
      if \<exists>b \<in> set (db_breaks db). clashes row b then (Inl P2002, db)
      else if \<not> session_ids row \<subseteq> ss_id ` set (db_presence db) then (Inl P2003, db)
      else (Inr row, db\<lparr>db_breaks := db_breaks db @ [row], db_nextId := Suc (db_nextId db)\<rparr>))"

text \<open>The columns the database fills in by default.\<close>

definition fresh_row :: "new_break_record \<Rightarrow> pending_clock \<Rightarrow> uid \<Rightarrow> break_row" where
  "fresh_row r clock i =
     \<lparr>br_id = i, br_data = r, br_seq = 0, br_presenceSessionId = None, br_overrunReason = None,
      br_decidedById = None, br_decidedAt = None, br_decisionNote = None, br_overrunSec = None,
      br_overrunAsked = False, br_commentedAt = None, br_clock = clock, br_state = BEnded,
      br_plannedMin = None, br_endedAt = None, br_takenSec = None, br_segments = []\<rparr>"

definition dayEnded :: "break_db \<Rightarrow> uid \<Rightarrow> string \<Rightarrow> bool" where
  "dayEnded db userId day = (case db_dayEnds db (userId, day) of Some (Some _) \<Rightarrow> True | _ \<Rightarrow> False)"

definition dayOpen :: "break_db \<Rightarrow> uid \<Rightarrow> bool" where
  "dayOpen db userId = (userId \<in> db_openWork db)"

definition openPresence :: "break_db \<Rightarrow> uid \<Rightarrow> presence_session option" where
  "openPresence db userId =
     (case js_sort (\<lambda>a b. ss_startedAt b - ss_startedAt a)
             (filter (\<lambda>s. ss_userId s = userId \<and> ss_endedAt s = None) (db_presence db)) of
        [] \<Rightarrow> None
      | s # _ \<Rightarrow> Some s)"

definition on_break :: "presence_session option \<Rightarrow> bool" where
  "on_break s = (case s of None \<Rightarrow> False | Some p \<Rightarrow> ss_type p = PBreak \<or> ss_type p = PLunch)"

definition in_meeting :: "presence_session option \<Rightarrow> bool" where
  "in_meeting s = (case s of None \<Rightarrow> False | Some p \<Rightarrow> ss_type p = PMeeting)"

section \<open>Lemmas on rows and tables\<close>

lemma update_break_sel [simp]:
  "db_presence (update_break i f db) = db_presence db" "db_dayEnds (update_break i f db) = db_dayEnds db"
  "db_openWork (update_break i f db) = db_openWork db" "db_companyOf (update_break i f db) = db_companyOf db"
  "db_monthLocks (update_break i f db) = db_monthLocks db" "db_sla (update_break i f db) = db_sla db"
  "db_nextId (update_break i f db) = db_nextId db"
  "db_breaks (update_break i f db) = map (\<lambda>b. if br_id b = i then f b else b) (db_breaks db)"
  by (simp_all add: update_break_def)

lemma delete_break_sel [simp]:
  "db_presence (delete_break i db) = db_presence db" "db_nextId (delete_break i db) = db_nextId db"
  "db_breaks (delete_break i db) = filter (\<lambda>b. br_id b \<noteq> i) (db_breaks db)"
  "db_companyOf (delete_break i db) = db_companyOf db" "db_monthLocks (delete_break i db) = db_monthLocks db"
  "db_dayEnds (delete_break i db) = db_dayEnds db" "db_openWork (delete_break i db) = db_openWork db"
  by (simp_all add: delete_break_def)

lemma close_session_sel [simp]:
  "db_breaks (close_session i t db) = db_breaks db" "db_nextId (close_session i t db) = db_nextId db"
  "db_presence (close_session i t db) = map (\<lambda>s. if ss_id s = i then closed_at t s else s) (db_presence db)"
  "db_companyOf (close_session i t db) = db_companyOf db" "db_monthLocks (close_session i t db) = db_monthLocks db"
  by (simp_all add: close_session_def)

lemma closed_at_sel [simp]:
  "ss_id (closed_at t s) = ss_id s" "ss_userId (closed_at t s) = ss_userId s" "ss_type (closed_at t s) = ss_type s"
  "ss_startedAt (closed_at t s) = ss_startedAt s" "ss_endedAt (closed_at t s) = Some t"
  by (simp_all add: closed_at_def)

lemma create_session_sel [simp]:
  "fst (create_session u ty d t db) = db_nextId db"
  "db_breaks (snd (create_session u ty d t db)) = db_breaks db"
  "db_nextId (snd (create_session u ty d t db)) = Suc (db_nextId db)"
  "db_presence (snd (create_session u ty d t db)) = db_presence db @ [\<lparr>ss_id = db_nextId db, ss_userId = u,
     ss_type = ty, ss_date = d, ss_startedAt = t, ss_endedAt = None, ss_durationSec = None\<rparr>]"
  "db_companyOf (snd (create_session u ty d t db)) = db_companyOf db"
  "db_monthLocks (snd (create_session u ty d t db)) = db_monthLocks db"
  by (simp_all add: create_session_def)

lemma fresh_row_sel [simp]:
  "br_id (fresh_row r c i) = i" "br_data (fresh_row r c i) = r" "br_seq (fresh_row r c i) = 0"
  by (simp_all add: fresh_row_def)

lemma map_filter_append [simp]: "List.map_filter f (xs @ ys) = List.map_filter f xs @ List.map_filter f ys"
  by (simp add: List.map_filter_def)

lemma session_ids_simps [simp]:
  "session_ids (b\<lparr>br_segments := []\<rparr>) = {}"
  "session_ids (b\<lparr>br_segments := [\<lparr>sg_presenceSessionId = Some i, sg_startedAt = t, sg_endedAt = e\<rparr>]\<rparr>) = {i}"
  by (simp_all add: session_ids_def List.map_filter_def)

lemma openPresence_Some:
  assumes "openPresence db u = Some s"
  shows "s \<in> set (db_presence db) \<and> ss_userId s = u \<and> ss_endedAt s = None"
  using assms js_sort_Cons_set [of _ "filter (\<lambda>s. ss_userId s = u \<and> ss_endedAt s = None) (db_presence db)" s]
  by (auto simp: openPresence_def split: list.splits)

lemma openPresence_None:
  "openPresence db u = None \<longleftrightarrow> (\<forall>s \<in> set (db_presence db). ss_userId s = u \<longrightarrow> ss_endedAt s \<noteq> None)"
proof -
  have "openPresence db u = None \<longleftrightarrow> filter (\<lambda>s. ss_userId s = u \<and> ss_endedAt s = None) (db_presence db) = []"
    unfolding openPresence_def by (cases "filter (\<lambda>s. ss_userId s = u \<and> ss_endedAt s = None) (db_presence db) = []")
      (simp, metis (no_types, lifting) js_sort_eq_Nil list.case(2) list.exhaust option.distinct(1))
  then show ?thesis by (simp add: filter_empty_conv)
qed

end
