(* ===== verification/Break_Records.thy ===== *)
theory Break_Records
  imports Break_Store
begin

text \<open>
  The operations of \<open>PrismaBreakRecordRepository\<close>: starting, pausing, resuming and ending breaks,
  comments on skips and decisions, each a transaction on the tables of \<open>Break_Store\<close>; the
  invariant of the tables over every sequence of them, and what each promises.
\<close>

section \<open>Starting\<close>

datatype start_refusal = AlreadyTaken | AlreadyOnBreak | DayHasEnded

datatype start_outcome = Started break_record_row uid bool | StartRefused start_refusal

text \<open>The rest of \<open>startScheduled\<close> once the earlier record of the kind is out of the way.\<close>

definition start_now :: "new_break_record \<Rightarrow> pending_clock \<Rightarrow> string \<Rightarrow> int \<Rightarrow> start_outcome tx" where
  "start_now r clock calendarDay now db =
     (if nb_approvalStatus r = Pending \<and> isMonthLocked db (nb_date r) (nb_userId r)
      then (Inl (App (ConflictError ''MONTH_LOCKED'')), db)
      else
        (let opened = openPresence db (nb_userId r) in
         if on_break opened then (Inr (StartRefused AlreadyOnBreak), db)
         else
           (let db1 = (case opened of None \<Rightarrow> db | Some s \<Rightarrow> close_session (ss_id s) now db);
                (sid, db2) = create_session (nb_userId r) (nb_presenceType r) calendarDay now db1
            in case create_break (\<lambda>i. (fresh_row r clock i)\<lparr>br_presenceSessionId := Some sid, br_state := BActive,
                   br_segments := [\<lparr>sg_presenceSessionId = Some sid, sg_startedAt = now, sg_endedAt = None\<rparr>]\<rparr>) db2 of
                 (Inl e, _) \<Rightarrow> (Inl e, db)
               | (Inr row, db3) \<Rightarrow>
                   (Inr (Started (breakRowFromPrisma db3 row) sid (opened \<noteq> None)), db3))))"

definition taken_record :: "break_db \<Rightarrow> new_break_record \<Rightarrow> break_row option" where
  "taken_record db r =
     (if nb_kind r = None then None
      else List.find (\<lambda>b. br_userId b = nb_userId r \<and> br_date b = nb_date r \<and> br_kind b = nb_kind r) (db_breaks db))"

definition startScheduled_tx :: "new_break_record \<Rightarrow> pending_clock \<Rightarrow> string \<Rightarrow> int \<Rightarrow> start_outcome tx" where
  "startScheduled_tx r clock calendarDay now db =
     (if dayEnded db (nb_userId r) calendarDay then (Inr (StartRefused DayHasEnded), db)
      else
        (case taken_record db r of
           None \<Rightarrow> start_now r clock calendarDay now db
         | Some t \<Rightarrow>
             if \<not> isReplaceableAutoSkip (br_data t) now then (Inr (StartRefused AlreadyTaken), db)
             else start_now r clock calendarDay now (delete_break (br_id t) db)))"

definition startScheduled :: "new_break_record \<Rightarrow> string \<Rightarrow> int \<Rightarrow> clock_frame \<Rightarrow> start_outcome tx" where
  "startScheduled r calendarDay now clk db =
     (let clock = (if nb_approvalStatus r = Pending then pendingClock clk now (db_sla db (nb_userId r)) else no_clock)
      in case transaction (startScheduled_tx r clock calendarDay now) db of
           (Inl P2002, db') \<Rightarrow> (Inr (StartRefused AlreadyTaken), db')
         | res \<Rightarrow> res)"

definition createForSession_tx :: "new_break_record \<Rightarrow> pending_clock \<Rightarrow> uid \<Rightarrow> break_row tx" where
  "createForSession_tx r clock sid db =
     (if nb_approvalStatus r = Pending \<and> isMonthLocked db (nb_date r) (nb_userId r)
      then (Inl (App (ConflictError ''MONTH_LOCKED'')), db)
      else
        (let session = session_of db (Some sid);
             running = (case session of None \<Rightarrow> False | Some s \<Rightarrow> ss_endedAt s = None)
         in create_break (\<lambda>i. (fresh_row r clock i)\<lparr>br_presenceSessionId := Some sid,
                br_state := (if running then BActive else BEnded),
                br_segments := [\<lparr>sg_presenceSessionId = Some sid,
                  sg_startedAt = (case session of None \<Rightarrow> nb_startedAt r | Some s \<Rightarrow> ss_startedAt s),
                  sg_endedAt = (case session of None \<Rightarrow> None | Some s \<Rightarrow> ss_endedAt s)\<rparr>]\<rparr>) db))"

definition createForSession :: "new_break_record \<Rightarrow> uid \<Rightarrow> clock_frame \<Rightarrow> break_record_row option tx" where
  "createForSession r sid clk db =
     (let clock = (if nb_approvalStatus r = Pending then pendingClock clk (clock_now clk) (db_sla db (nb_userId r))
                   else no_clock)
      in case transaction (createForSession_tx r clock sid) db of
           (Inl P2002, db') \<Rightarrow> (Inr None, db')
         | (Inl e, db') \<Rightarrow> (Inl e, db')
         | (Inr row, db') \<Rightarrow> (Inr (Some (breakRowFromPrisma db' row)), db'))"

section \<open>Approvals\<close>

record break_ask =
  ak_reason :: "string option"
  ak_routing :: "(role option \<times> uid option) option"

record finish_break =
  fb_overrunSec :: int
  fb_ask :: "break_ask option"

text \<open>A change of the approval columns of a record.\<close>

definition with_status :: "approval_status \<Rightarrow> break_row \<Rightarrow> break_row" where
  "with_status st b = b\<lparr>br_data := (br_data b)\<lparr>nb_approvalStatus := st\<rparr>\<rparr>"

definition with_routing :: "role option \<times> uid option \<Rightarrow> break_row \<Rightarrow> break_row" where
  "with_routing rt b = b\<lparr>br_data := (br_data b)\<lparr>nb_approverRole := fst rt, nb_approverId := snd rt\<rparr>\<rparr>"

definition finish_data :: "finish_break \<Rightarrow> pending_clock \<Rightarrow> break_row \<Rightarrow> break_row" where
  "finish_data input clock b =
     (let b1 = b\<lparr>br_overrunSec := Some (max 0 (fb_overrunSec input))\<rparr> in
      case fb_ask input of
        None \<Rightarrow> b1
      | Some ask \<Rightarrow>
          (let b2 = b1\<lparr>br_overrunAsked := True, br_overrunReason := ak_reason ask\<rparr> in
           case ak_routing ask of
             None \<Rightarrow> b2
           | Some rt \<Rightarrow>
               (let b3 = with_routing rt b2 in
                if br_approvalStatus b = Pending then b3
                else with_status Pending (b3\<lparr>br_clock := clock, br_decidedById := None, br_decidedAt := None,
                       br_decisionNote := None\<rparr>))))"

definition ask_routing :: "finish_break \<Rightarrow> (role option \<times> uid option) option" where
  "ask_routing input = (case fb_ask input of None \<Rightarrow> None | Some ask \<Rightarrow> ak_routing ask)"

definition finishBreak :: "uid \<Rightarrow> finish_break \<Rightarrow> int \<Rightarrow> clock_frame \<Rightarrow> (break_record_row \<times> bool) option tx" where
  "finishBreak i input now clk db =
     (case find_break db i of
        None \<Rightarrow> (Inr None, db)
      | Some b \<Rightarrow>
          if (ask_routing input \<noteq> None \<or> br_approvalStatus b = Pending) \<and> isMonthLocked db (br_date b) (br_userId b)
          then (Inl (App (ConflictError ''MONTH_LOCKED'')), db)
          else
            (let db' = update_break i (finish_data input (pendingClock clk now (db_sla db (br_userId b)))) db
             in (Inr (map_option (\<lambda>v. (v, ask_routing input \<noteq> None \<and> br_approvalStatus b \<noteq> Pending)) (findById db' i)),
                 db')))"

definition addComment :: "uid \<Rightarrow> string \<Rightarrow> int \<Rightarrow> break_record_row option tx" where
  "addComment i comment now db =
     (case find_break db i of
        None \<Rightarrow> (Inr None, db)
      | Some b \<Rightarrow>
          if br_approvalStatus b = Pending \<and> isMonthLocked db (br_date b) (br_userId b)
          then (Inl (App (ConflictError ''MONTH_LOCKED'')), db)
          else if nb_reason (br_data b) = None \<and> isSkipRecord (br_data b)
          then (let db' = update_break i (\<lambda>b. b\<lparr>br_data := (br_data b)\<lparr>nb_reason := Some comment\<rparr>,
                                               br_commentedAt := Some now\<rparr>) db
                in (Inr (findById db' i), db'))
          else (Inr None, db))"

record decision =
  dc_status :: approval_status
  dc_decidedById :: "uid option"
  dc_decidedAt :: "int option"
  dc_note :: "string option"

definition decide :: "uid \<Rightarrow> approval_status list \<Rightarrow> decision \<Rightarrow> clock_frame \<Rightarrow> break_record_row option tx" where
  "decide i expected d clk db =
     (case find_break db i of
        None \<Rightarrow> (Inr None, db)
      | Some b \<Rightarrow>
          if isMonthLocked db (br_date b) (br_userId b) then (Inl (App (ConflictError ''MONTH_LOCKED'')), db)
          else if br_approvalStatus b \<notin> set expected then (Inr None, db)
          else
            (let db' = update_break i (\<lambda>b. with_status (dc_status d)
                   (b\<lparr>br_decidedById := dc_decidedById d, br_decidedAt := dc_decidedAt d, br_decisionNote := dc_note d,
                      br_clock := (if dc_status d = Pending
                                   then pendingClock clk (clock_now clk) (db_sla db (br_userId b))
                                   else br_clock b)\<rparr>)) db
             in (Inr (findById db' i), db')))"

definition reroute :: "uid \<Rightarrow> role option \<times> uid option \<Rightarrow> bool tx" where
  "reroute i rt db =
     (case find_break db i of
        None \<Rightarrow> (Inr False, db)
      | Some b \<Rightarrow>
          if br_approvalStatus b = Pending then (Inr True, update_break i (with_routing rt) db)
          else (Inr False, db))"

section \<open>Quick breaks, pause and resume\<close>

datatype move_code =
    MvNotFound | MvNotActive | MvNotPaused | MvNotPausable | MvResumeWindowClosed | MvOnBreak | MvInMeeting
  | MvDayNotStarted | MvDayEnded

datatype move_result = Moved break_record_row "uid option" | MoveRefused move_code "break_record_row option"

record new_quick_break =
  nq_userId :: uid
  nq_date :: string
  nq_plannedMin :: int
  nq_startedAt :: int
  nq_calendarDay :: string
  nq_shiftId :: "uid option"
  nq_shiftName :: "string option"

definition quick_record :: "new_quick_break \<Rightarrow> new_break_record" where
  "quick_record q =
     \<lparr>nb_userId = nq_userId q, nb_date = nq_date q, nb_kind = Some Quick, nb_presenceType = PBreak,
      nb_shiftId = nq_shiftId q, nb_shiftName = nq_shiftName q, nb_scheduledStart = None, nb_durationMin = None,
      nb_windowOpen = None, nb_windowClose = None, nb_ringStart = None, nb_ringEnd = None,
      nb_startedAt = nq_startedAt q, nb_timing = Unscheduled, nb_minutesOff = 0, nb_reason = None,
      nb_source = SourceAgent, nb_approvalStatus = NotRequired, nb_approverRole = None, nb_approverId = None,
      nb_outcome = Taken\<rparr>"

definition quick_count :: "break_db \<Rightarrow> uid \<Rightarrow> string \<Rightarrow> nat" where
  "quick_count db userId date =
     length (filter (\<lambda>b. br_userId b = userId \<and> br_date b = date \<and> br_kind b = Some Quick) (db_breaks db))"

definition startQuick_tx :: "new_quick_break \<Rightarrow> move_result tx" where
  "startQuick_tx q db =
     (if dayEnded db (nq_userId q) (nq_calendarDay q) then (Inr (MoveRefused MvDayEnded None), db)
      else if \<not> dayOpen db (nq_userId q) then (Inr (MoveRefused MvDayNotStarted None), db)
      else
        (let opened = openPresence db (nq_userId q) in
         if on_break opened then (Inr (MoveRefused MvOnBreak None), db)
         else if in_meeting opened then (Inr (MoveRefused MvInMeeting None), db)
         else
           (let sequence = quick_count db (nq_userId q) (nq_date q) + 1;
                (sid, db1) = create_session (nq_userId q) PBreak (nq_calendarDay q) (nq_startedAt q) db
            in case create_break (\<lambda>i. (fresh_row (quick_record q) no_clock i)\<lparr>br_seq := sequence,
                   br_presenceSessionId := Some sid, br_state := BActive, br_plannedMin := Some (nq_plannedMin q),
                   br_segments := [\<lparr>sg_presenceSessionId = Some sid, sg_startedAt = nq_startedAt q, sg_endedAt = None\<rparr>]\<rparr>)
                   db1 of
                 (Inl e, _) \<Rightarrow> (Inl e, db)
               | (Inr row, db2) \<Rightarrow> (Inr (Moved (breakRowFromPrisma db2 row) (Some sid)), db2))))"

definition startQuick :: "new_quick_break \<Rightarrow> move_result tx" where
  "startQuick q = transaction (startQuick_tx q)"

definition close_segments :: "int \<Rightarrow> break_row \<Rightarrow> break_row" where
  "close_segments t b =
     b\<lparr>br_segments := map (\<lambda>g. if sg_endedAt g = None then g\<lparr>sg_endedAt := Some t\<rparr> else g) (br_segments b)\<rparr>"

definition close_current :: "break_row \<Rightarrow> int \<Rightarrow> break_db \<Rightarrow> break_db" where
  "close_current b t db =
     (case session_of db (br_presenceSessionId b) of
        None \<Rightarrow> db
      | Some s \<Rightarrow> if ss_endedAt s = None then close_session (ss_id s) t db else db)"

definition own_break :: "break_db \<Rightarrow> uid \<Rightarrow> uid \<Rightarrow> break_row option" where
  "own_break db i userId = List.find (\<lambda>b. br_id b = i \<and> br_userId b = userId) (db_breaks db)"

definition moved :: "break_db \<Rightarrow> uid \<Rightarrow> uid option \<Rightarrow> move_result" where
  "moved db i sid =
     (case findById db i of None \<Rightarrow> MoveRefused MvNotFound None | Some v \<Rightarrow> Moved v sid)"

definition pause :: "uid \<Rightarrow> uid \<Rightarrow> int \<Rightarrow> move_result tx" where
  "pause i userId now db =
     (case own_break db i userId of
        None \<Rightarrow> (Inr (MoveRefused MvNotFound None), db)
      | Some row \<Rightarrow>
          (let current = Some (breakRowFromPrisma db row);
               session_ended = (case session_of db (br_presenceSessionId row) of
                                  None \<Rightarrow> False | Some s \<Rightarrow> ss_endedAt s \<noteq> None) in
           if br_kind row = Some Quick \<or> br_kind row = None then (Inr (MoveRefused MvNotPausable current), db)
           else if br_state row = BPaused \<or> br_presenceSessionId row = None \<or> session_ended
           then (Inr (MoveRefused MvNotActive current), db)
           else
             (let db1 = close_current row now db;
                  db2 = update_break i (\<lambda>b. (close_segments now b)\<lparr>br_state := BPaused\<rparr>) db1
              in (Inr (moved db2 i None), db2))))"

definition last_end :: "segment_span list \<Rightarrow> int option" where
  "last_end segs =
     fold (\<lambda>g latest. case gs_endedAt g of
                        None \<Rightarrow> latest
                      | Some e \<Rightarrow> (case latest of None \<Rightarrow> Some e | Some m \<Rightarrow> if e > m then Some e else Some m))
       segs None"

definition endPausedTx :: "uid \<Rightarrow> int \<Rightarrow> break_db \<Rightarrow> break_record_row option \<times> break_db" where
  "endPausedTx i now db =
     (case find_break db i of
        None \<Rightarrow> (None, db)
      | Some row \<Rightarrow>
          if br_state row \<noteq> BPaused then (Some (breakRowFromPrisma db row), db)
          else
            (let current = breakRowFromPrisma db row;
                 db' = update_break i (\<lambda>b. b\<lparr>br_state := BEnded,
                         br_endedAt := Some (coalesce (last_end (bv_segments current)) (nb_startedAt (br_data row))),
                         br_takenSec := Some (takenSecOf current now)\<rparr>) db
             in (findById db' i, db')))"

definition resume :: "uid \<Rightarrow> uid \<Rightarrow> int \<Rightarrow> string \<Rightarrow> move_result tx" where
  "resume i userId now calendarDay db =
     (case own_break db i userId of
        None \<Rightarrow> (Inr (MoveRefused MvNotFound None), db)
      | Some row \<Rightarrow>
          (let current = breakRowFromPrisma db row;
               window_closed = (case nb_windowClose (br_data row) of None \<Rightarrow> False | Some close \<Rightarrow> now > close);
               opened = openPresence db userId in
           if br_state row \<noteq> BPaused then (Inr (MoveRefused MvNotPaused (Some current)), db)
           else if window_closed
           then (let (ended, db') = endPausedTx i now db
                 in (Inr (MoveRefused MvResumeWindowClosed (Some (coalesce ended current))), db'))
           else if dayEnded db userId calendarDay then (Inr (MoveRefused MvDayEnded (Some current)), db)
           else if \<not> dayOpen db userId then (Inr (MoveRefused MvDayNotStarted (Some current)), db)
           else if on_break opened then (Inr (MoveRefused MvOnBreak (Some current)), db)
           else if in_meeting opened then (Inr (MoveRefused MvInMeeting (Some current)), db)
           else
             (let (sid, db1) = create_session userId (nb_presenceType (br_data row)) calendarDay now db;
                  db2 = update_break i (\<lambda>b. b\<lparr>br_state := BActive, br_presenceSessionId := Some sid,
                    br_segments := br_segments b
                      @ [\<lparr>sg_presenceSessionId = Some sid, sg_startedAt = now, sg_endedAt = None\<rparr>]\<rparr>) db1
              in (Inr (moved db2 i (Some sid)), db2))))"

definition latest_row :: "break_row list \<Rightarrow> break_row option" where
  "latest_row rows =
     (case js_sort (\<lambda>a b. nb_startedAt (br_data b) - nb_startedAt (br_data a)) rows of
        [] \<Rightarrow> None | b # _ \<Rightarrow> Some b)"

definition findPausedForUser :: "break_db \<Rightarrow> uid \<Rightarrow> break_record_row option" where
  "findPausedForUser db userId =
     map_option (breakRowFromPrisma db)
       (latest_row (filter (\<lambda>b. br_userId b = userId \<and> br_state b = BPaused) (db_breaks db)))"

definition findOpenForUser :: "break_db \<Rightarrow> uid \<Rightarrow> break_record_row option" where
  "findOpenForUser db userId =
     map_option (breakRowFromPrisma db)
       (latest_row (filter (\<lambda>b. br_userId b = userId
            \<and> (case session_of db (br_presenceSessionId b) of None \<Rightarrow> False | Some s \<Rightarrow> ss_endedAt s = None))
          (db_breaks db)))"

definition markEnded :: "uid \<Rightarrow> int \<Rightarrow> break_db \<Rightarrow> break_record_row option \<times> break_db" where
  "markEnded i at db =
     (case find_break db i of
        None \<Rightarrow> (None, db)
      | Some row \<Rightarrow>
          if br_state row = BPaused then endPausedTx i at db
          else if br_state row = BEnded \<and> br_endedAt row \<noteq> None then (Some (breakRowFromPrisma db row), db)
          else
            (let db1 = update_break i (close_segments at) (close_current row at db)
             in case findById db1 i of
                  None \<Rightarrow> (None, db)
                | Some current \<Rightarrow>
                    (let db2 = update_break i (\<lambda>b. b\<lparr>br_state := BEnded,
                           br_endedAt := Some (coalesce (bv_endedAt current) at),
                           br_takenSec := Some (takenSecOf current at)\<rparr>) db1
                     in (findById db2 i, db2))))"

fun end_all :: "uid list \<Rightarrow> int \<Rightarrow> break_db \<Rightarrow> nat \<times> break_db" where
  "end_all [] now db = (0, db)"
| "end_all (i # is) now db =
     (let (done, db1) = endPausedTx i now db;
          (n, db2) = end_all is now db1
      in ((if done \<noteq> None then 1 else 0) + n, db2))"

definition endExpiredPaused :: "int \<Rightarrow> uid option \<Rightarrow> break_db \<Rightarrow> nat \<times> break_db" where
  "endExpiredPaused now userId db =
     end_all (map br_id (take 1000 (filter (\<lambda>b. br_state b = BPaused
         \<and> (case nb_windowClose (br_data b) of None \<Rightarrow> False | Some c \<Rightarrow> c < now)
         \<and> (userId = None \<or> userId = Some (br_userId b))) (db_breaks db)))) now db"

definition endPaused :: "uid \<Rightarrow> clock_frame \<Rightarrow> break_db \<Rightarrow> nat \<times> break_db" where
  "endPaused userId clk db =
     end_all (map br_id (filter (\<lambda>b. br_state b = BPaused \<and> br_userId b = userId) (db_breaks db))) (clock_now clk) db"

end
