(* ===== verification/Break_Invariant.thy ===== *)
theory Break_Invariant
  imports Break_Records
begin

text \<open>
  The invariant of the break tables and that every operation of \<open>Break_Records\<close> keeps it, for every
  sequence of the operations interleaved with what the other modules do to the tables they share
  (meetings and older agents opening a presence session, End Day closing one, months being locked,
  days ending): a step relation, the reachable tables and rule induction over them.
\<close>

section \<open>The invariant\<close>

definition open_sessions :: "break_db \<Rightarrow> presence_session set" where
  "open_sessions db = {s \<in> set (db_presence db). ss_endedAt s = None}"

definition presence_ok :: "break_db \<Rightarrow> bool" where
  "presence_ok db \<longleftrightarrow>
     distinct (map ss_id (db_presence db)) \<and> (\<forall>s \<in> set (db_presence db). ss_id s < db_nextId db)
     \<and> inj_on ss_userId (open_sessions db)"

text \<open>One row: its sessions exist, only the current one can be open and it is the person's own, at most
  only a record with nothing to run
  (a skip) has no segments, at most one segment is open, and a paused break has none open.\<close>

definition open_segments :: "break_row \<Rightarrow> segment_row list" where
  "open_segments b = filter (\<lambda>g. sg_endedAt g = None) (br_segments b)"

definition row_ok :: "break_db \<Rightarrow> break_row \<Rightarrow> bool" where
  "row_ok db b \<longleftrightarrow>
     br_id b < db_nextId db
     \<and> session_ids b \<subseteq> ss_id ` set (db_presence db)
     \<and> set_option (br_presenceSessionId b) \<subseteq> session_ids b
     \<and> (\<forall>s \<in> open_sessions db. ss_id s \<in> session_ids b \<longrightarrow>
          br_presenceSessionId b = Some (ss_id s) \<and> ss_userId s = br_userId b \<and> br_state b \<noteq> BPaused)
     \<and> (br_segments b = [] \<longrightarrow> br_presenceSessionId b = None \<and> br_state b = BEnded)
     \<and> length (open_segments b) \<le> 1
     \<and> (br_state b = BPaused \<longrightarrow> open_segments b = [])"

definition quick_ok :: "break_db \<Rightarrow> break_row \<Rightarrow> bool" where
  "quick_ok db b \<longleftrightarrow>
     (br_kind b = Some Quick \<longrightarrow> br_seq b \<le> quick_count db (br_userId b) (br_date b))
     \<and> (br_kind b \<noteq> Some Quick \<longrightarrow> br_seq b = 0)"

definition breaks_ok :: "break_db \<Rightarrow> bool" where
  "breaks_ok db \<longleftrightarrow>
     distinct (map br_id (db_breaks db))
     \<and> (\<forall>b \<in> set (db_breaks db). row_ok db b \<and> quick_ok db b)
     \<and> (\<forall>a \<in> set (db_breaks db). \<forall>b \<in> set (db_breaks db). br_id a \<noteq> br_id b \<longrightarrow> \<not> clashes a b)"

definition db_ok :: "break_db \<Rightarrow> bool" where
  "db_ok db \<longleftrightarrow> presence_ok db \<and> breaks_ok db"

section \<open>Statements keep it\<close>

lemma find_break_Some:
  "db_ok db \<Longrightarrow> find_break db i = Some b \<longleftrightarrow> b \<in> set (db_breaks db) \<and> br_id b = i"
  by (simp add: db_ok_def breaks_ok_def find_break_def find_key)

lemma own_break_Some: "own_break db i u = Some b \<Longrightarrow> b \<in> set (db_breaks db) \<and> br_id b = i \<and> br_userId b = u"
  unfolding own_break_def by (auto dest: find_Some_set)

lemma session_of_Some:
  "db_ok db \<Longrightarrow> session_of db (Some i) = Some s \<longleftrightarrow> s \<in> set (db_presence db) \<and> ss_id s = i"
  by (simp add: db_ok_def presence_ok_def session_of_def find_key)

lemma open_close_session:
  "open_sessions (close_session i t db) = {s \<in> open_sessions db. ss_id s \<noteq> i}"
  by (auto simp: open_sessions_def image_iff)

lemma close_session_ok:
  assumes "db_ok db"
  shows "db_ok (close_session i t db)"
proof -
  have ids: "map ss_id (db_presence (close_session i t db)) = map ss_id (db_presence db)" by simp
  then have set_ids: "ss_id ` set (db_presence (close_session i t db)) = ss_id ` set (db_presence db)"
    by (metis set_map)
  have p: "presence_ok db" using assms by (simp add: db_ok_def)
  have "distinct (map ss_id (db_presence (close_session i t db)))"
    using p unfolding ids by (simp add: presence_ok_def)
  then have "presence_ok (close_session i t db)"
    using p unfolding presence_ok_def open_close_session by (auto simp: inj_on_def)
  moreover have "row_ok (close_session i t db) b" if "row_ok db b" for b
    using that unfolding row_ok_def open_close_session set_ids by auto
  ultimately show ?thesis
    using assms by (auto simp: db_ok_def breaks_ok_def quick_ok_def quick_count_def)
qed

lemma create_session_ok:
  assumes "db_ok db" "openPresence db u = None"
  shows "db_ok (snd (create_session u ty d t db))"
proof -
  let ?s = "\<lparr>ss_id = db_nextId db, ss_userId = u, ss_type = ty, ss_date = d, ss_startedAt = t, ss_endedAt = None,
    ss_durationSec = None\<rparr>"
  let ?db = "snd (create_session u ty d t db)"
  have p: "presence_ok db" using assms(1) by (simp add: db_ok_def)
  have op: "open_sessions ?db = insert ?s (open_sessions db)" by (auto simp: open_sessions_def)
  have no: "\<forall>s \<in> open_sessions db. ss_userId s \<noteq> u"
    using assms(2) by (auto simp: open_sessions_def openPresence_None)
  have fresh: "\<forall>s \<in> set (db_presence db). ss_id s < db_nextId db" using p by (simp add: presence_ok_def)
  have "presence_ok ?db"
    using p no fresh unfolding presence_ok_def op by (auto simp: less_Suc_eq inj_on_insert)
  moreover have "row_ok ?db b" if "row_ok db b" for b
  proof -
    have "db_nextId db \<notin> ss_id ` set (db_presence db)" using fresh by auto
    then have "db_nextId db \<notin> session_ids b" using that unfolding row_ok_def by blast
    then show ?thesis using that unfolding row_ok_def op by auto
  qed
  ultimately show ?thesis
    using assms(1) by (auto simp: db_ok_def breaks_ok_def quick_ok_def quick_count_def)
qed

lemma clashes_sym: "clashes a b \<Longrightarrow> clashes b a"
  by (auto simp: clashes_def)

text \<open>An update that touches neither the keys nor the sessions of the row.\<close>

definition keeps_keys :: "(break_row \<Rightarrow> break_row) \<Rightarrow> bool" where
  "keeps_keys f \<longleftrightarrow> (\<forall>b. br_id (f b) = br_id b \<and> br_userId (f b) = br_userId b \<and> br_date (f b) = br_date b
     \<and> br_kind (f b) = br_kind b \<and> br_seq (f b) = br_seq b \<and> br_presenceSessionId (f b) = br_presenceSessionId b
     \<and> session_ids (f b) = session_ids b)"

lemma quick_count_update:
  assumes "\<forall>b. br_userId (f b) = br_userId b \<and> br_date (f b) = br_date b \<and> br_kind (f b) = br_kind b"
  shows "quick_count (update_break i f db) u d = quick_count db u d"
proof -
  have "length (filter P (map g xs)) = length (filter P xs)" if "\<forall>b. P (g b) = P b" for P and g :: "break_row \<Rightarrow> break_row" and xs
    using that by (induction xs) auto
  then show ?thesis using assms unfolding quick_count_def update_break_sel by simp
qed

lemma update_break_general:
  assumes ok: "db_ok db"
    and f: "\<And>b. br_id (f b) = br_id b \<and> br_userId (f b) = br_userId b \<and> br_date (f b) = br_date b
      \<and> br_kind (f b) = br_kind b \<and> br_seq (f b) = br_seq b"
    and row: "\<And>b. b \<in> set (db_breaks db) \<Longrightarrow> br_id b = i \<Longrightarrow> row_ok db b \<Longrightarrow> row_ok db (f b)"
    and apart: "\<And>a b. a \<in> set (db_breaks db) \<Longrightarrow> b \<in> set (db_breaks db) \<Longrightarrow> br_id a = i \<Longrightarrow> br_id b \<noteq> i \<Longrightarrow>
      \<not> clashes a b \<Longrightarrow> \<not> clashes (f a) b"
  shows "db_ok (update_break i f db)"
proof -
  let ?g = "\<lambda>b. if br_id b = i then f b else b"
  have keys: "br_id (?g b) = br_id b" "br_userId (?g b) = br_userId b" "br_date (?g b) = br_date b"
    "br_kind (?g b) = br_kind b" "br_seq (?g b) = br_seq b" for b
    using f by auto
  have ids: "map br_id (map ?g (db_breaks db)) = map br_id (db_breaks db)" using keys(1) by simp
  have q: "quick_count (update_break i f db) u d = quick_count db u d" for u d
    by (rule quick_count_update) (use f in auto)
  have ro: "row_ok (update_break i f db) b = row_ok db b" for b
    by (simp add: row_ok_def open_sessions_def)
  have rows: "\<forall>b \<in> set (db_breaks db). row_ok db (?g b) \<and> quick_ok db (?g b)"
  proof -
    have "quick_ok db (?g b) = quick_ok db b" for b unfolding quick_ok_def keys ..
    then show ?thesis using ok row by (auto simp: db_ok_def breaks_ok_def)
  qed
  show ?thesis
    unfolding db_ok_def
  proof
    show "presence_ok (update_break i f db)" using ok by (simp add: db_ok_def presence_ok_def open_sessions_def)
    show "breaks_ok (update_break i f db)"
      unfolding breaks_ok_def
    proof (intro conjI)
      show "distinct (map br_id (db_breaks (update_break i f db)))"
        using ok ids by (simp only: update_break_sel db_ok_def breaks_ok_def)
      show "\<forall>b \<in> set (db_breaks (update_break i f db)). row_ok (update_break i f db) b \<and> quick_ok (update_break i f db) b"
      proof
        fix b assume "b \<in> set (db_breaks (update_break i f db))"
        then obtain c where "c \<in> set (db_breaks db)" "b = ?g c"
          unfolding update_break_sel set_map by (elim imageE)
        moreover have "quick_ok (update_break i f db) b = quick_ok db b" unfolding quick_ok_def q ..
        ultimately show "row_ok (update_break i f db) b \<and> quick_ok (update_break i f db) b"
          using rows unfolding ro by blast
      qed
      show "\<forall>a \<in> set (db_breaks (update_break i f db)). \<forall>b \<in> set (db_breaks (update_break i f db)).
          br_id a \<noteq> br_id b \<longrightarrow> \<not> clashes a b"
      proof (intro ballI impI)
        fix a b assume "a \<in> set (db_breaks (update_break i f db))" "b \<in> set (db_breaks (update_break i f db))"
          and ne: "br_id a \<noteq> br_id b"
        then obtain c d where c: "c \<in> set (db_breaks db)" "a = ?g c" and d: "d \<in> set (db_breaks db)" "b = ?g d"
          unfolding update_break_sel set_map by (elim imageE)
        have cd: "br_id c \<noteq> br_id d" using ne unfolding c(2) d(2) keys(1) .
        then have "\<not> clashes c d" "\<not> clashes d c" using ok c(1) d(1) unfolding db_ok_def breaks_ok_def by metis+
        then show "\<not> clashes a b"
          using apart [OF c(1) d(1)] apart [OF d(1) c(1)] cd clashes_sym unfolding c(2) d(2) by metis
      qed
    qed
  qed
qed

lemma update_break_ok:
  assumes "db_ok db" "keeps_keys f"
    and "\<And>b. b \<in> set (db_breaks db) \<Longrightarrow> br_id b = i \<Longrightarrow> row_ok db b \<Longrightarrow> row_ok db (f b)"
  shows "db_ok (update_break i f db)"
  by (rule update_break_general [OF assms(1) _ assms(3)])
    (use assms(2) in \<open>auto simp: keeps_keys_def clashes_def\<close>)

text \<open>An update of the other columns only.\<close>

definition keeps_row :: "(break_row \<Rightarrow> break_row) \<Rightarrow> bool" where
  "keeps_row f \<longleftrightarrow> (\<forall>b. br_id (f b) = br_id b \<and> br_userId (f b) = br_userId b \<and> br_date (f b) = br_date b
     \<and> br_kind (f b) = br_kind b \<and> br_seq (f b) = br_seq b \<and> br_presenceSessionId (f b) = br_presenceSessionId b
     \<and> br_segments (f b) = br_segments b \<and> br_state (f b) = br_state b)"

lemma keeps_row_ok:
  assumes "db_ok db" "keeps_row f"
  shows "db_ok (update_break i f db)"
proof (rule update_break_ok [OF assms(1)])
  have f: "session_ids (f b) = session_ids b" "open_segments (f b) = open_segments b" for b
    using assms(2) by (simp_all add: keeps_row_def session_ids_def open_segments_def)
  show "keeps_keys f" using assms(2) f by (simp add: keeps_row_def keeps_keys_def)
  show "row_ok db (f b)" if "row_ok db b" for b
    using that assms(2) f unfolding row_ok_def keeps_row_def by simp
qed

lemma delete_break_ok:
  assumes ok: "db_ok db" and sched: "\<forall>b \<in> set (db_breaks db). br_id b = i \<longrightarrow> br_kind b \<noteq> Some Quick"
  shows "db_ok (delete_break i db)"
proof -
  have q: "quick_count (delete_break i db) u d = quick_count db u d" for u d
    using sched unfolding quick_count_def delete_break_sel filter_filter
    by (intro arg_cong [where f = length] filter_cong) auto
  have "row_ok (delete_break i db) b = row_ok db b" for b by (simp add: row_ok_def open_sessions_def)
  then show ?thesis
    using ok q by (auto simp: db_ok_def presence_ok_def breaks_ok_def quick_ok_def open_sessions_def distinct_map
        intro: inj_on_subset)
qed

lemma create_break_ok:
  assumes ok: "db_ok db" and mk: "create_break mk db = (Inr row, db')"
    and local: "br_id (mk (db_nextId db)) = db_nextId db" "br_segments (mk (db_nextId db)) = [] \<longrightarrow> br_presenceSessionId (mk (db_nextId db)) = None \<and> br_state (mk (db_nextId db)) = BEnded"
      "length (open_segments (mk (db_nextId db))) \<le> 1"
      "set_option (br_presenceSessionId (mk (db_nextId db))) \<subseteq> session_ids (mk (db_nextId db))"
      "br_state (mk (db_nextId db)) \<noteq> BPaused"
      "\<forall>s \<in> open_sessions db. ss_id s \<in> session_ids (mk (db_nextId db)) \<longrightarrow>
          br_presenceSessionId (mk (db_nextId db)) = Some (ss_id s) \<and> ss_userId s = br_userId (mk (db_nextId db))"
      "(br_kind (mk (db_nextId db)) = Some Quick \<longrightarrow>
         br_seq (mk (db_nextId db)) \<le> Suc (quick_count db (br_userId (mk (db_nextId db))) (br_date (mk (db_nextId db)))))
       \<and> (br_kind (mk (db_nextId db)) \<noteq> Some Quick \<longrightarrow> br_seq (mk (db_nextId db)) = 0)"
  shows "db_ok db' \<and> row = mk (db_nextId db) \<and> db_breaks db' = db_breaks db @ [row] \<and> db_presence db' = db_presence db"
proof -
  have nc: "\<forall>b \<in> set (db_breaks db). \<not> clashes (mk (db_nextId db)) b"
    and refs: "session_ids (mk (db_nextId db)) \<subseteq> ss_id ` set (db_presence db)"
    and row: "row = mk (db_nextId db)"
    and db': "db' = db\<lparr>db_breaks := db_breaks db @ [row], db_nextId := Suc (db_nextId db)\<rparr>"
    using mk by (auto simp: create_break_def Let_def split: if_splits)
  have op: "open_sessions db' = open_sessions db" by (simp add: db' open_sessions_def)
  have lt: "br_id b < db_nextId db" if "b \<in> set (db_breaks db)" for b
    using ok that by (simp add: db_ok_def breaks_ok_def row_ok_def)
  have old: "row_ok db' b" if "row_ok db b" for b
    using that unfolding row_ok_def op by (simp add: db')
  have new: "row_ok db' row"
    using local refs unfolding row row_ok_def op by (simp add: db' row)
  have quick: "quick_ok db' b" if "quick_ok db b" for b
    using that by (auto simp: quick_ok_def quick_count_def db')
  have quick_new: "quick_ok db' row"
    using local(7) by (auto simp: quick_ok_def quick_count_def db' row)
  have "breaks_ok db'"
    unfolding breaks_ok_def
  proof (intro conjI)
    show "distinct (map br_id (db_breaks db'))"
    proof -
      have "db_nextId db \<notin> br_id ` set (db_breaks db)" using lt less_irrefl by (metis imageE)
      then show ?thesis using ok local(1) by (simp add: db' row db_ok_def breaks_ok_def)
    qed
    show "\<forall>b \<in> set (db_breaks db'). row_ok db' b \<and> quick_ok db' b"
      using ok old new quick quick_new by (auto simp: db' db_ok_def breaks_ok_def)
    show "\<forall>a \<in> set (db_breaks db'). \<forall>b \<in> set (db_breaks db'). br_id a \<noteq> br_id b \<longrightarrow> \<not> clashes a b"
      using ok nc clashes_sym unfolding db' row db_ok_def breaks_ok_def by auto
  qed
  moreover have "presence_ok db'"
    using ok unfolding db_ok_def presence_ok_def op by (auto simp: db' less_Suc_eq)
  ultimately show ?thesis by (simp add: db_ok_def row db')
qed

lemma session_ids_append:
  "session_ids (b\<lparr>br_segments := br_segments b @ [\<lparr>sg_presenceSessionId = Some i, sg_startedAt = t, sg_endedAt = e\<rparr>]\<rparr>)
     = insert i (session_ids b)"
  by (auto simp: session_ids_def List.map_filter_def)


section \<open>Operations keep it\<close>

lemma new_session_owner:
  assumes "db_ok db" "s \<in> open_sessions (snd (create_session u ty d t db))" "ss_id s = db_nextId db"
  shows "ss_userId s = u"
proof -
  have "\<forall>s \<in> set (db_presence db). ss_id s \<noteq> db_nextId db"
    using assms(1) unfolding db_ok_def presence_ok_def by (metis less_irrefl)
  then show ?thesis using assms(2,3) by (auto simp: open_sessions_def)
qed

text \<open>A new break with one running segment on a session just opened.\<close>

definition running_row :: "new_break_record \<Rightarrow> pending_clock \<Rightarrow> nat \<Rightarrow> int option \<Rightarrow> uid \<Rightarrow> int \<Rightarrow> uid \<Rightarrow> break_row" where
  "running_row r clock sequence planned sid t i =
     (fresh_row r clock i)\<lparr>br_seq := sequence, br_presenceSessionId := Some sid, br_state := BActive,
       br_plannedMin := planned,
       br_segments := [\<lparr>sg_presenceSessionId = Some sid, sg_startedAt = t, sg_endedAt = None\<rparr>]\<rparr>"

lemma running_row_sel [simp]:
  "br_id (running_row r c q p sid t i) = i" "br_data (running_row r c q p sid t i) = r"
  "br_seq (running_row r c q p sid t i) = q" "br_state (running_row r c q p sid t i) = BActive"
  "br_presenceSessionId (running_row r c q p sid t i) = Some sid"
  "session_ids (running_row r c q p sid t i) = {sid}" "length (open_segments (running_row r c q p sid t i)) = 1"
  "br_segments (running_row r c q p sid t i) = [\<lparr>sg_presenceSessionId = Some sid, sg_startedAt = t, sg_endedAt = None\<rparr>]"
  by (simp_all add: running_row_def open_segments_def)

lemma start_row_running:
  "(fresh_row r c i)\<lparr>br_presenceSessionId := Some sid, br_state := BActive,
     br_segments := [\<lparr>sg_presenceSessionId = Some sid, sg_startedAt = t, sg_endedAt = None\<rparr>]\<rparr>
   = running_row r c 0 None sid t i"
  "(fresh_row r c i)\<lparr>br_seq := q, br_presenceSessionId := Some sid, br_state := BActive, br_plannedMin := p,
     br_segments := [\<lparr>sg_presenceSessionId = Some sid, sg_startedAt = t, sg_endedAt = None\<rparr>]\<rparr>
   = running_row r c q p sid t i"
  by (simp_all add: running_row_def fresh_row_def)

lemma session_of_running [simp]: "br_presenceSessionId (running_row r c q p sid t i) = Some sid"
  by simp

lemma open_running_ok:
  assumes ok: "db_ok db" "openPresence db (nb_userId r) = None"
    and s: "create_session (nb_userId r) ty d t db = (sid, db2)"
    and c: "create_break (running_row r clock q p sid t') db2 = (Inr row, db3)"
    and quick: "(nb_kind r = Some Quick \<longrightarrow> q \<le> Suc (quick_count db (nb_userId r) (nb_date r)))
      \<and> (nb_kind r \<noteq> Some Quick \<longrightarrow> q = 0)"
  shows "db_ok db3 \<and> row = running_row r clock q p sid t' (db_nextId db2) \<and> db_breaks db3 = db_breaks db2 @ [row]
    \<and> db_presence db3 = db_presence db2"
proof -
  have db2: "db2 = snd (create_session (nb_userId r) ty d t db)" and sid: "sid = db_nextId db"
    using s create_session_sel(1) [of "nb_userId r" ty d t db] by simp_all
  have ok2: "db_ok db2" unfolding db2 by (rule create_session_ok [OF ok])
  have owner: "\<forall>s \<in> open_sessions db2. ss_id s = sid \<longrightarrow> ss_userId s = nb_userId r"
    using new_session_owner [OF ok(1)] unfolding db2 sid by blast
  have "quick_count db2 u dt = quick_count db u dt" for u dt by (simp add: db2 quick_count_def)
  with create_break_ok [OF ok2 c] owner quick show ?thesis by simp
qed

lemma create_break_Inl: "create_break mk db = (Inl e, db') \<Longrightarrow> db' = db"
  by (auto simp: create_break_def Let_def split: if_splits)

lemma close_own_presence:
  assumes "db_ok db" "openPresence db u = Some s"
  shows "openPresence (close_session (ss_id s) t db) u = None"
proof -
  have s: "s \<in> open_sessions db" "ss_userId s = u"
    using openPresence_Some [OF assms(2)] by (auto simp: open_sessions_def)
  have "x = s" if "x \<in> open_sessions db" "ss_userId x = u" for x
    using assms(1) that s by (auto simp: db_ok_def presence_ok_def dest: inj_onD)
  then have "\<forall>x \<in> open_sessions (close_session (ss_id s) t db). ss_userId x \<noteq> u"
    unfolding open_close_session by blast
  then show ?thesis unfolding openPresence_None open_sessions_def by (metis (mono_tags, lifting) mem_Collect_eq)
qed

definition freed :: "break_db \<Rightarrow> uid \<Rightarrow> int \<Rightarrow> break_db" where
  "freed db u now = (case openPresence db u of None \<Rightarrow> db | Some s \<Rightarrow> close_session (ss_id s) now db)"

lemma freed_ok: "db_ok db \<Longrightarrow> db_ok (freed db u now) \<and> openPresence (freed db u now) u = None"
  by (auto simp: freed_def close_own_presence close_session_ok split: option.splits)

lemma freed_sel [simp]:
  "db_breaks (freed db u now) = db_breaks db" "db_nextId (freed db u now) = db_nextId db"
  "quick_count (freed db u now) v d = quick_count db v d"
  by (auto simp: freed_def quick_count_def split: option.splits)

text \<open>What \<open>start_now\<close> does, in one equation.\<close>

lemma start_now_cases:
  assumes "start_now r clock day now db = (res, db')"
  shows "(db' = db \<and> (\<forall>v sid c. res \<noteq> Inr (Started v sid c)))
    \<or> (\<exists>sid db2 row. \<not> on_break (openPresence db (nb_userId r))
        \<and> create_session (nb_userId r) (nb_presenceType r) day now (freed db (nb_userId r) now) = (sid, db2)
        \<and> create_break (running_row r clock 0 None sid now) db2 = (Inr row, db')
        \<and> \<not> (nb_approvalStatus r = Pending \<and> isMonthLocked db (nb_date r) (nb_userId r))
        \<and> res = Inr (Started (breakRowFromPrisma db' row) sid (openPresence db (nb_userId r) \<noteq> None)))"
proof (cases "(nb_approvalStatus r = Pending \<and> isMonthLocked db (nb_date r) (nb_userId r))
    \<or> on_break (openPresence db (nb_userId r))")
  case True
  then show ?thesis using assms by (auto simp: start_now_def Let_def split: if_splits)
next
  case False
  obtain sid db2 where s: "create_session (nb_userId r) (nb_presenceType r) day now (freed db (nb_userId r) now) = (sid, db2)"
    by fastforce
  obtain x db3 where c: "create_break (running_row r clock 0 None sid now) db2 = (x, db3)" by fastforce
  have "start_now r clock day now db =
      (case create_break (running_row r clock 0 None sid now) db2 of
         (Inl e, _) \<Rightarrow> (Inl e, db)
       | (Inr row, db3) \<Rightarrow> (Inr (Started (breakRowFromPrisma db3 row) sid (openPresence db (nb_userId r) \<noteq> None)), db3))"
    using False s unfolding start_now_def Let_def start_row_running freed_def by (auto split: option.splits)
  then show ?thesis using assms s c False by (cases x) auto
qed

lemma start_now_ok:
  assumes "db_ok db" "nb_kind r \<noteq> Some Quick" "start_now r clock day now db = (res, db')"
  shows "db_ok db'"
  using start_now_cases [OF assms(3)]
proof (elim disjE exE conjE)
  assume "db' = db"
  then show ?thesis using assms(1) by simp
next
  fix sid db2 row
  assume "create_session (nb_userId r) (nb_presenceType r) day now (freed db (nb_userId r) now) = (sid, db2)"
    and "create_break (running_row r clock 0 None sid now) db2 = (Inr row, db')"
  from open_running_ok [OF _ _ this] freed_ok [OF assms(1)] assms(2) show ?thesis by simp
qed

lemma transaction_db:
  "snd (transaction f db) = (if isl (fst (f db)) then db else snd (f db))"
  by (auto simp: transaction_def split: prod.splits sum.splits)

lemma startScheduled_db:
  "snd (startScheduled r day now clk db) \<in> {db} \<union>
     {snd (start_now r clock day now db) | clock. True} \<union>
     {snd (start_now r clock day now (delete_break (br_id t) db)) | clock t. taken_record db r = Some t
        \<and> isReplaceableAutoSkip (br_data t) now}"
proof -
  have tx: "snd (startScheduled_tx r clock day now db) \<in> {db, snd (start_now r clock day now db)} \<union>
      {snd (start_now r clock day now (delete_break (br_id t) db)) | t. taken_record db r = Some t
        \<and> isReplaceableAutoSkip (br_data t) now}" for clock
    by (auto simp: startScheduled_tx_def split: option.splits)
  have "snd (case p of (Inl P2002, d) \<Rightarrow> (Inr (StartRefused AlreadyTaken), d) | res \<Rightarrow> res) = snd p"
    for p :: "(db_error + start_outcome) \<times> break_db"
    by (auto split: prod.splits sum.splits db_error.splits)
  then obtain clock where "snd (startScheduled r day now clk db) = snd (transaction (startScheduled_tx r clock day now) db)"
    unfolding startScheduled_def Let_def by blast
  then have "snd (startScheduled r day now clk db) = db
      \<or> snd (startScheduled r day now clk db) = snd (startScheduled_tx r clock day now db)"
    by (simp add: transaction_db)
  then show ?thesis using tx [of clock] by auto
qed

lemma taken_record_set:
  "taken_record db r = Some t \<Longrightarrow> t \<in> set (db_breaks db) \<and> br_userId t = nb_userId r \<and> br_date t = nb_date r
     \<and> br_kind t = nb_kind r \<and> nb_kind r \<noteq> None"
  by (auto simp: taken_record_def split: if_splits dest: find_Some_set)

lemma taken_deleted_ok:
  assumes ok: "db_ok db" and k: "nb_kind r \<noteq> Some Quick" and t: "taken_record db r = Some t"
  shows "db_ok (delete_break (br_id t) db)"
proof (rule delete_break_ok [OF ok], intro ballI impI)
  fix b assume b: "b \<in> set (db_breaks db)" "br_id b = br_id t"
  moreover have "distinct (map br_id (db_breaks db))" using ok by (simp add: db_ok_def breaks_ok_def)
  ultimately have "b = t" using taken_record_set [OF t] by (auto simp: distinct_map dest: inj_onD)
  then show "br_kind b \<noteq> Some Quick" using taken_record_set [OF t] k by simp
qed

lemma startScheduled_ok:
  assumes ok: "db_ok db" and k: "nb_kind r \<noteq> Some Quick"
  shows "db_ok (snd (startScheduled r day now clk db))"
proof -
  have "db_ok (snd (start_now r clock day now d))" if "db_ok d" for clock d
    using start_now_ok [OF that k] by (cases "start_now r clock day now d") simp
  then show ?thesis using startScheduled_db [of r day now clk db] ok taken_deleted_ok [OF ok k] by auto
qed

lemma startQuick_cases:
  assumes "startQuick q db = (res, db')"
  shows "(db' = db \<and> (\<forall>v sid. res \<noteq> Inr (Moved v sid)))
    \<or> (\<exists>sid db2 row. openPresence db (nq_userId q) = None
        \<and> create_session (nq_userId q) PBreak (nq_calendarDay q) (nq_startedAt q) db = (sid, db2)
        \<and> create_break (running_row (quick_record q) no_clock (quick_count db (nq_userId q) (nq_date q) + 1)
             (Some (nq_plannedMin q)) sid (nq_startedAt q)) db2 = (Inr row, db')
        \<and> res = Inr (Moved (breakRowFromPrisma db' row) (Some sid)))"
proof (cases "dayEnded db (nq_userId q) (nq_calendarDay q) \<or> \<not> dayOpen db (nq_userId q)
    \<or> on_break (openPresence db (nq_userId q)) \<or> in_meeting (openPresence db (nq_userId q))")
  case True
  then show ?thesis using assms by (auto simp: startQuick_def transaction_def startQuick_tx_def Let_def split: if_splits)
next
  case False
  then have none: "openPresence db (nq_userId q) = None"
    by (cases "openPresence db (nq_userId q)") (auto simp: on_break_def in_meeting_def intro: presence_type.exhaust)
  obtain sid db2 where s: "create_session (nq_userId q) PBreak (nq_calendarDay q) (nq_startedAt q) db = (sid, db2)"
    by fastforce
  obtain x db3 where c: "create_break (running_row (quick_record q) no_clock
      (quick_count db (nq_userId q) (nq_date q) + 1) (Some (nq_plannedMin q)) sid (nq_startedAt q)) db2 = (x, db3)"
    by fastforce
  have "startQuick_tx q db =
      (case create_break (running_row (quick_record q) no_clock (quick_count db (nq_userId q) (nq_date q) + 1)
             (Some (nq_plannedMin q)) sid (nq_startedAt q)) db2 of
         (Inl e, _) \<Rightarrow> (Inl e, db)
       | (Inr row, db2) \<Rightarrow> (Inr (Moved (breakRowFromPrisma db2 row) (Some sid)), db2))"
    using False s unfolding startQuick_tx_def Let_def start_row_running by simp
  then show ?thesis using assms s c none by (cases x) (auto simp: startQuick_def transaction_def)
qed

lemma startQuick_ok:
  assumes "db_ok db"
  shows "db_ok (snd (startQuick q db))"
proof -
  obtain res db' where e: "startQuick q db = (res, db')" by fastforce
  from startQuick_cases [OF e] show ?thesis
  proof (elim disjE exE conjE)
    fix sid db2 row
    assume n: "openPresence db (nq_userId q) = None"
      and s: "create_session (nq_userId q) PBreak (nq_calendarDay q) (nq_startedAt q) db = (sid, db2)"
      and c: "create_break (running_row (quick_record q) no_clock (quick_count db (nq_userId q) (nq_date q) + 1)
             (Some (nq_plannedMin q)) sid (nq_startedAt q)) db2 = (Inr row, db')"
    have u: "nb_userId (quick_record q) = nq_userId q" "nb_date (quick_record q) = nq_date q"
      "nb_kind (quick_record q) = Some Quick"
      by (simp_all add: quick_record_def)
    from open_running_ok [OF assms, of "quick_record q"] n s c show ?thesis unfolding u e by simp
  qed (use assms e in simp)
qed

lemma with_sel [simp]:
  "br_id (with_status st b) = br_id b" "br_seq (with_status st b) = br_seq b"
  "br_presenceSessionId (with_status st b) = br_presenceSessionId b" "br_segments (with_status st b) = br_segments b"
  "br_state (with_status st b) = br_state b" "br_userId (with_status st b) = br_userId b"
  "br_date (with_status st b) = br_date b" "br_kind (with_status st b) = br_kind b"
  "br_approvalStatus (with_status st b) = st"
  "br_id (with_routing rt b) = br_id b" "br_seq (with_routing rt b) = br_seq b"
  "br_presenceSessionId (with_routing rt b) = br_presenceSessionId b" "br_segments (with_routing rt b) = br_segments b"
  "br_state (with_routing rt b) = br_state b" "br_userId (with_routing rt b) = br_userId b"
  "br_date (with_routing rt b) = br_date b" "br_kind (with_routing rt b) = br_kind b"
  "br_approvalStatus (with_routing rt b) = br_approvalStatus b"
  by (simp_all add: with_status_def with_routing_def)

lemma keeps_row_finish: "keeps_row (finish_data input clock)"
  by (simp add: keeps_row_def finish_data_def Let_def split: option.splits)

lemma finishBreak_ok: "db_ok db \<Longrightarrow> db_ok (snd (finishBreak i input now clk db))"
  by (auto simp: finishBreak_def Let_def keeps_row_ok keeps_row_finish split: option.splits)

lemma addComment_ok: "db_ok db \<Longrightarrow> db_ok (snd (addComment i comment now db))"
  unfolding addComment_def Let_def
  by (auto intro!: keeps_row_ok simp: keeps_row_def split: option.splits)

lemma decide_ok: "db_ok db \<Longrightarrow> db_ok (snd (decide i expected d clk db))"
  unfolding decide_def Let_def
  by (auto intro!: keeps_row_ok simp: keeps_row_def split: option.splits)

lemma reroute_ok: "db_ok db \<Longrightarrow> db_ok (snd (reroute i rt db))"
  unfolding reroute_def
  by (auto intro!: keeps_row_ok simp: keeps_row_def split: option.splits)

lemma createForSession_ok:
  assumes ok: "db_ok db" and k: "nb_kind r \<noteq> Some Quick"
    and own: "\<forall>s \<in> set (db_presence db). ss_id s = sid \<longrightarrow> ss_userId s = nb_userId r"
  shows "db_ok (snd (createForSession r sid clk db))"
proof -
  have step: "db_ok (snd (createForSession_tx r clock sid db))" for clock
  proof (cases "nb_approvalStatus r = Pending \<and> isMonthLocked db (nb_date r) (nb_userId r)")
    case True
    then show ?thesis using ok by (simp add: createForSession_tx_def)
  next
    case False
    let ?running = "case session_of db (Some sid) of None \<Rightarrow> False | Some s \<Rightarrow> ss_endedAt s = None"
    let ?mk = "\<lambda>i. (fresh_row r clock i)\<lparr>br_presenceSessionId := Some sid, br_state := (if ?running then BActive else BEnded),
        br_segments := [\<lparr>sg_presenceSessionId = Some sid,
          sg_startedAt = (case session_of db (Some sid) of None \<Rightarrow> nb_startedAt r | Some s \<Rightarrow> ss_startedAt s),
          sg_endedAt = (case session_of db (Some sid) of None \<Rightarrow> None | Some s \<Rightarrow> ss_endedAt s)\<rparr>]\<rparr>"
    have e: "createForSession_tx r clock sid db = create_break ?mk db"
      unfolding createForSession_tx_def Let_def by (rule if_not_P [OF False])
    obtain x db' where c: "create_break ?mk db = (x, db')" by fastforce
    show ?thesis
    proof (cases x)
      case (Inl err)
      then show ?thesis using create_break_Inl ok c e by auto
    next
      case (Inr row)
      have "db_ok db'"
        using create_break_ok [OF ok c [unfolded Inr]] own k
        by (auto simp: open_segments_def open_sessions_def)
      then show ?thesis by (simp add: e c)
    qed
  qed
  have "snd (createForSession r sid clk db) \<in> {db} \<union> range (\<lambda>clock. snd (createForSession_tx r clock sid db))"
  proof -
    have "snd (case p of (Inl P2002, d) \<Rightarrow> (Inr None, d) | (Inl e, d) \<Rightarrow> (Inl e, d)
        | (Inr row, d) \<Rightarrow> (Inr (Some (breakRowFromPrisma d row)), d)) = snd p"
      for p :: "(db_error + break_row) \<times> break_db"
      by (auto split: prod.splits sum.splits db_error.splits)
    then obtain clock where "snd (createForSession r sid clk db) = snd (transaction (createForSession_tx r clock sid) db)"
      unfolding createForSession_def Let_def by blast
    then show ?thesis by (auto simp: transaction_db)
  qed
  then show ?thesis using ok step by auto
qed

lemma close_current_ok: "db_ok db \<Longrightarrow> db_ok (close_current b t db)"
  by (simp add: close_current_def close_session_ok split: option.split)

lemma close_current_sel [simp]:
  "db_breaks (close_current b t db) = db_breaks db" "db_nextId (close_current b t db) = db_nextId db"
  by (simp_all add: close_current_def split: option.split)

lemma close_current_closes:
  assumes "db_ok db" "s \<in> open_sessions (close_current b t db)"
  shows "s \<in> open_sessions db \<and> br_presenceSessionId b \<noteq> Some (ss_id s)"
proof (cases "session_of db (br_presenceSessionId b)")
  case None
  have "br_presenceSessionId b \<noteq> Some (ss_id s)" if "s \<in> open_sessions db"
    using None that session_of_Some [OF assms(1), of "ss_id s" s] by (auto simp: open_sessions_def)
  then show ?thesis using None assms(2) by (auto simp: close_current_def)
next
  case (Some x)
  then obtain i where i: "br_presenceSessionId b = Some i" by (cases "br_presenceSessionId b") (auto simp: session_of_def)
  with Some have x: "x \<in> set (db_presence db)" "ss_id x = i" using session_of_Some [OF assms(1)] by auto
  show ?thesis
  proof (cases "ss_endedAt x = None")
    case True
    then show ?thesis using assms(2) Some i x open_close_session [of i t db] by (auto simp: close_current_def)
  next
    case False
    then have "s \<in> open_sessions db" using assms(2) Some by (auto simp: close_current_def)
    moreover have "ss_id s \<noteq> i"
    proof
      assume "ss_id s = i"
      then have "session_of db (Some i) = Some s"
        using session_of_Some [OF assms(1)] \<open>s \<in> open_sessions db\<close> by (auto simp: open_sessions_def)
      then show False using Some i False \<open>s \<in> open_sessions db\<close> by (simp add: open_sessions_def)
    qed
    ultimately show ?thesis using i by simp
  qed
qed

lemma close_segments_sel [simp]:
  "br_id (close_segments t b) = br_id b" "br_data (close_segments t b) = br_data b" "br_seq (close_segments t b) = br_seq b"
  "br_presenceSessionId (close_segments t b) = br_presenceSessionId b" "br_state (close_segments t b) = br_state b"
  "br_segments (close_segments t b) = [] \<longleftrightarrow> br_segments b = []"
  "open_segments (close_segments t b) = []" "session_ids (close_segments t b) = session_ids b"
proof -
  have "List.map_filter sg_presenceSessionId (map (\<lambda>g. if sg_endedAt g = None then g\<lparr>sg_endedAt := Some t\<rparr> else g) xs)
      = List.map_filter sg_presenceSessionId xs" for xs :: "segment_row list"
    by (induction xs) (auto simp: List.map_filter_def)
  then show "session_ids (close_segments t b) = session_ids b" by (simp add: session_ids_def close_segments_def)
  have "filter (\<lambda>g. sg_endedAt g = None) (map (\<lambda>g. if sg_endedAt g = None then g\<lparr>sg_endedAt := Some t\<rparr> else g) xs) = []"
    for xs :: "segment_row list"
    by (induction xs) auto
  then show "open_segments (close_segments t b) = []" by (simp add: open_segments_def close_segments_def)
qed (simp_all add: close_segments_def)

lemma open_session_ids: "session_ids (b\<lparr>br_state := st\<rparr>) = session_ids b"
  "open_segments (b\<lparr>br_state := st\<rparr>) = open_segments b"
  by (simp_all add: session_ids_def open_segments_def)

text \<open>Closing a break's running part: the current session and every open segment.\<close>

lemma close_part_ok:
  assumes ok: "db_ok db" and row: "find_break db i = Some row"
    and g: "g = (\<lambda>b. (close_segments t b)\<lparr>br_state := st b\<rparr>)" and st: "st row = br_state row \<or> br_segments row \<noteq> []"
  shows "db_ok (update_break i g (close_current row t db))"
proof (rule update_break_ok)
  let ?db = "close_current row t db"
  show ok1: "db_ok ?db" by (rule close_current_ok [OF ok])
  show "keeps_keys g" by (simp add: g keeps_keys_def open_session_ids)
  fix b assume b: "b \<in> set (db_breaks ?db)" "br_id b = i" and r: "row_ok ?db b"
  have "find_break db i = Some b" using b find_break_Some [OF ok] by simp
  then have "b = row" using row by simp
  then have "\<forall>s \<in> open_sessions ?db. ss_id s \<notin> session_ids b"
    using r close_current_closes [OF ok, of _ row t] unfolding row_ok_def by blast
  then show "row_ok ?db (g b)" using r st \<open>b = row\<close> unfolding row_ok_def g by (auto simp: open_session_ids)
qed

lemma own_find_break:
  assumes "db_ok db" "own_break db i u = Some row"
  shows "find_break db i = Some row \<and> br_userId row = u"
  using own_break_Some [OF assms(2)] find_break_Some [OF assms(1)] by auto

lemma pause_cases:
  assumes "pause i u now db = (res, db')"
  shows "(db' = db \<and> (\<forall>v s. res \<noteq> Inr (Moved v s)))
    \<or> (\<exists>row. own_break db i u = Some row \<and> br_kind row \<noteq> Some Quick \<and> br_kind row \<noteq> None \<and> br_state row \<noteq> BPaused
        \<and> br_presenceSessionId row \<noteq> None
        \<and> (\<forall>s. session_of db (br_presenceSessionId row) = Some s \<longrightarrow> ss_endedAt s = None)
        \<and> db' = update_break i (\<lambda>b. (close_segments now b)\<lparr>br_state := BPaused\<rparr>) (close_current row now db)
        \<and> res = Inr (moved db' i None))"
  using assms unfolding pause_def Let_def by (auto split: option.splits if_splits)

lemma pause_ok:
  assumes "db_ok db"
  shows "db_ok (snd (pause i u now db))"
proof -
  obtain res db' where e: "pause i u now db = (res, db')" by fastforce
  have "br_segments row \<noteq> []" if "find_break db i = Some row" "br_presenceSessionId row \<noteq> None" for row
    using that assms find_break_Some [OF assms, of i row] by (auto simp: db_ok_def breaks_ok_def row_ok_def)
  with pause_cases [OF e] show ?thesis
    using close_part_ok [OF assms] own_find_break [OF assms] e assms by auto
qed

lemma endPausedTx_ok: "db_ok db \<Longrightarrow> db_ok (snd (endPausedTx i now db))"
  unfolding endPausedTx_def Let_def
proof (split option.split, intro conjI impI allI)
  fix row assume ok: "db_ok db" and row: "find_break db i = Some row"
  let ?cur = "breakRowFromPrisma db row"
  let ?f = "\<lambda>b. b\<lparr>br_state := BEnded, br_endedAt := Some (coalesce (last_end (bv_segments ?cur)) (nb_startedAt (br_data row))),
      br_takenSec := Some (takenSecOf ?cur now)\<rparr>"
  have "db_ok (update_break i ?f db)"
  proof (rule update_break_ok [OF ok])
    show "keeps_keys ?f" by (simp add: keeps_keys_def session_ids_def)
    show "row_ok db (?f b)" if "row_ok db b" for b
      using that by (simp add: row_ok_def session_ids_def open_segments_def)
  qed
  then show "db_ok (snd (if br_state row \<noteq> BPaused then (Some ?cur, db)
      else (findById (update_break i ?f db) i, update_break i ?f db)))"
    using ok by simp
qed simp

lemma markEnded_ok:
  assumes ok: "db_ok db"
  shows "db_ok (snd (markEnded i t db))"
proof (cases "find_break db i")
  case None
  then show ?thesis using ok by (simp add: markEnded_def)
next
  case (Some row)
  let ?db1 = "update_break i (close_segments t) (close_current row t db)"
  have same: "close_segments t = (\<lambda>b. (close_segments t b)\<lparr>br_state := br_state b\<rparr>)"
    by (auto simp: close_segments_def)
  have ok1: "db_ok ?db1" using close_part_ok [OF ok Some same] by simp
  have "db_ok (update_break i (\<lambda>b. b\<lparr>br_state := BEnded, br_endedAt := e, br_takenSec := k\<rparr>) ?db1)" for e k
  proof (rule update_break_ok [OF ok1])
    show "keeps_keys (\<lambda>b. b\<lparr>br_state := BEnded, br_endedAt := e, br_takenSec := k\<rparr>)"
      by (simp add: keeps_keys_def session_ids_def)
    show "row_ok ?db1 (b\<lparr>br_state := BEnded, br_endedAt := e, br_takenSec := k\<rparr>)" if "row_ok ?db1 b" for b
      using that by (simp add: row_ok_def session_ids_def open_segments_def)
  qed
  then show ?thesis
    using ok ok1 endPausedTx_ok [OF ok] Some by (simp add: markEnded_def Let_def split: option.split)
qed

lemma end_all_ok: "db_ok db \<Longrightarrow> db_ok (snd (end_all is now db))"
proof (induction "is" now db rule: end_all.induct)
  case (2 i "is" now db)
  obtain d db1 n db2 where e: "endPausedTx i now db = (d, db1)" "end_all is now db1 = (n, db2)" by fastforce
  have "db_ok db1" using endPausedTx_ok [OF 2(2), of i now] e by simp
  then show ?case using 2(1) [OF e(1) [symmetric] refl] e by simp
qed simp

definition resumed_row :: "uid \<Rightarrow> int \<Rightarrow> break_row \<Rightarrow> break_row" where
  "resumed_row sid now b = b\<lparr>br_state := BActive, br_presenceSessionId := Some sid,
     br_segments := br_segments b @ [\<lparr>sg_presenceSessionId = Some sid, sg_startedAt = now, sg_endedAt = None\<rparr>]\<rparr>"

lemma resumed_row_sel [simp]:
  "br_id (resumed_row sid now b) = br_id b" "br_data (resumed_row sid now b) = br_data b"
  "br_seq (resumed_row sid now b) = br_seq b" "br_state (resumed_row sid now b) = BActive"
  "br_presenceSessionId (resumed_row sid now b) = Some sid"
  "session_ids (resumed_row sid now b) = insert sid (session_ids b)" "br_segments (resumed_row sid now b) \<noteq> []"
  "length (open_segments (resumed_row sid now b)) = Suc (length (open_segments b))"
  by (auto simp: resumed_row_def session_ids_def open_segments_def List.map_filter_def)

lemma resume_cases:
  assumes "resume i u now day db = (res, db')"
  shows "(db' = db \<or> db' = snd (endPausedTx i now db)) \<and> (\<forall>v s. res \<noteq> Inr (Moved v s))
    \<or> (\<exists>row sid db1. own_break db i u = Some row \<and> br_state row = BPaused \<and> openPresence db u = None
        \<and> create_session u (nb_presenceType (br_data row)) day now db = (sid, db1)
        \<and> db' = update_break i (resumed_row sid now) db1 \<and> res = Inr (moved db' i (Some sid)))"
proof (cases "own_break db i u")
  case None
  then show ?thesis using assms by (auto simp: resume_def)
next
  case (Some row)
  obtain sid db1 where s: "create_session u (nb_presenceType (br_data row)) day now db = (sid, db1)" by fastforce
  obtain x d where x: "endPausedTx i now db = (x, d)" by fastforce
  have f: "(\<lambda>b. b\<lparr>br_state := BActive, br_presenceSessionId := Some sid,
      br_segments := br_segments b @ [\<lparr>sg_presenceSessionId = Some sid, sg_startedAt = now, sg_endedAt = None\<rparr>]\<rparr>)
      = resumed_row sid now"
    by (simp add: resumed_row_def fun_eq_iff)
  have none: "openPresence db u = None" if "\<not> on_break (openPresence db u)" "\<not> in_meeting (openPresence db u)"
    using that by (cases "openPresence db u") (auto simp: on_break_def in_meeting_def intro: presence_type.exhaust)
  show ?thesis
    using assms Some s x none unfolding resume_def Let_def by (auto simp: f split: if_splits option.splits)
qed

lemma resumed_ok:
  assumes ok: "db_ok db" and row: "find_break db i = Some row" "br_userId row = u" "br_state row = BPaused"
    and none: "openPresence db u = None" and s: "create_session u ty day now db = (sid, db1)"
  shows "db_ok (update_break i (resumed_row sid now) db1)"
proof (rule update_break_general)
  have db1: "db1 = snd (create_session u ty day now db)" and sid: "sid = db_nextId db"
    using s create_session_sel(1) [of u ty day now db] by simp_all
  show ok1: "db_ok db1" unfolding db1 by (rule create_session_ok [OF ok none])
  have fresh: "sid \<notin> ss_id ` set (db_presence db)"
    using ok less_irrefl unfolding sid db_ok_def presence_ok_def by (metis imageE)
  have refs: "session_ids b \<subseteq> ss_id ` set (db_presence db) \<and> set_option (br_presenceSessionId b) \<subseteq> session_ids b"
    if "b \<in> set (db_breaks db)" for b
    using ok that unfolding db_ok_def breaks_ok_def row_ok_def by blast
  have same: "db_breaks db1 = db_breaks db" by (simp add: db1)
  show "\<not> clashes (resumed_row sid now a) b" if "a \<in> set (db_breaks db1)" "b \<in> set (db_breaks db1)" "\<not> clashes a b" for a b
  proof -
    have "sid \<notin> session_ids b" "br_presenceSessionId b \<noteq> Some sid" using refs [of b] fresh that same by auto
    then show ?thesis using that(3) by (auto simp: clashes_def)
  qed
  show "row_ok db1 (resumed_row sid now b)" if b: "b \<in> set (db_breaks db1)" "br_id b = i" and r: "row_ok db1 b" for b
  proof -
    have "find_break db i = Some b" using b same find_break_Some [OF ok] by simp
    then have "b = row" using row by simp
    then have closed: "br_state b = BPaused" "br_userId b = u" using row by simp_all
    have new: "ss_userId s = u" if "s \<in> open_sessions db1" "ss_id s = sid" for s
      using new_session_owner [OF ok] that unfolding db1 sid by blast
    have "sid \<in> ss_id ` set (db_presence db1)" by (simp add: db1 sid)
    then show ?thesis
      using r closed new by (auto simp: row_ok_def)
  qed
qed simp

lemma resume_ok:
  assumes ok: "db_ok db"
  shows "db_ok (snd (resume i u now day db))"
proof -
  obtain res db' where e: "resume i u now day db = (res, db')" by fastforce
  from resume_cases [OF e] show ?thesis
    using ok endPausedTx_ok [OF ok] resumed_ok [OF ok] own_find_break [OF ok] e by auto
qed

lemmas operations_ok =
  startScheduled_ok createForSession_ok finishBreak_ok addComment_ok decide_ok reroute_ok startQuick_ok pause_ok resume_ok
  markEnded_ok end_all_ok

section \<open>The step relation\<close>

text \<open>
  One step: an operation of the repository with any arguments (\<open>startScheduled\<close> and
  \<open>createForSession\<close> are never called for a quick break, and the legacy subscriber links a session of the
  person's own), or a change other modules make: a skip recorded (waiting only in an open month), an
  auto-skip dropped by the missed End Day, a presence session opened for someone who has none
  open, a session closed, and any change of the day ends, work sessions, month locks, organisations and
  settings.
\<close>

inductive break_step :: "break_db \<Rightarrow> break_db \<Rightarrow> bool" where
  start: "nb_kind r \<noteq> Some Quick \<Longrightarrow> break_step db (snd (startScheduled r day now clk db))"
| recorded: "nb_kind r \<noteq> Some Quick \<Longrightarrow> \<forall>s \<in> set (db_presence db). ss_id s = sid \<longrightarrow> ss_userId s = nb_userId r \<Longrightarrow>
    break_step db (snd (createForSession r sid clk db))"
| finish: "break_step db (snd (finishBreak i input now clk db))"
| comment: "break_step db (snd (addComment i c now db))"
| decided: "break_step db (snd (decide i expected d clk db))"
| rerouted: "break_step db (snd (reroute i rt db))"
| quick: "break_step db (snd (startQuick q db))"
| paused: "break_step db (snd (pause i u now db))"
| resumed: "break_step db (snd (resume i u now day db))"
| ended: "break_step db (snd (markEnded i now db))"
| expired: "break_step db (snd (endExpiredPaused now u db))"
| day_end: "break_step db (snd (endPaused u' clk db))"
| skipped: "nb_kind r \<noteq> Some Quick \<Longrightarrow> nb_approvalStatus r = Pending \<Longrightarrow> \<not> isMonthLocked db (nb_date r) (nb_userId r) \<Longrightarrow>
    break_step db (snd (create_break (fresh_row r clock) db))"
| skipped_free: "nb_kind r \<noteq> Some Quick \<Longrightarrow> nb_approvalStatus r \<noteq> Pending \<Longrightarrow>
    break_step db (snd (create_break (fresh_row r clock) db))"
| skip_dropped: "\<forall>b \<in> set (db_breaks db). br_id b = i \<longrightarrow> br_kind b \<noteq> Some Quick \<Longrightarrow> break_step db (delete_break i db)"
| presence_opened: "openPresence db u = None \<Longrightarrow> break_step db (snd (create_session u type day now db))"
| presence_closed: "break_step db (close_session sid now db)"
| others: "break_step db (db\<lparr>db_dayEnds := de, db_openWork := ow, db_companyOf := co, db_monthLocks := ml, db_sla := sla\<rparr>)"

definition empty_db :: "(uid \<Rightarrow> uid option) \<Rightarrow> (uid \<Rightarrow> int) \<Rightarrow> break_db" where
  "empty_db companies sla =
     \<lparr>db_presence = [], db_breaks = [], db_dayEnds = (\<lambda>_. None), db_openWork = {}, db_companyOf = companies,
      db_monthLocks = {}, db_sla = sla, db_nextId = 0\<rparr>"

inductive reachable :: "break_db \<Rightarrow> bool" where
  initial: "reachable (empty_db companies sla)"
| step: "reachable db \<Longrightarrow> break_step db db' \<Longrightarrow> reachable db'"

lemma empty_db_ok: "db_ok (empty_db companies sla)"
  by (simp add: db_ok_def presence_ok_def breaks_ok_def open_sessions_def empty_db_def)

lemma others_ok:
  assumes "db_ok db" "db_presence db' = db_presence db" "db_breaks db' = db_breaks db" "db_nextId db' = db_nextId db"
  shows "db_ok db'"
  using assms unfolding db_ok_def presence_ok_def breaks_ok_def row_ok_def quick_ok_def quick_count_def open_sessions_def
  by simp

lemma create_skip_ok:
  assumes ok: "db_ok db" and k: "nb_kind r \<noteq> Some Quick"
  shows "db_ok (snd (create_break (fresh_row r clock) db))"
proof -
  obtain x db' where c: "create_break (fresh_row r clock) db = (x, db')" by fastforce
  have row: "br_segments (fresh_row r clock i) = []" "br_presenceSessionId (fresh_row r clock i) = None"
    "br_state (fresh_row r clock i) = BEnded" "session_ids (fresh_row r clock i) = {}" "open_segments (fresh_row r clock i) = []" for i
    by (simp_all add: fresh_row_def session_ids_def open_segments_def List.map_filter_def)
  show ?thesis
  proof (cases x)
    case (Inl e)
    then show ?thesis using create_break_Inl c ok by (metis snd_conv)
  next
    case (Inr b)
    have "db_ok db'" using create_break_ok [OF ok c [unfolded Inr]] k by (simp add: row)
    then show ?thesis by (simp add: c)
  qed
qed

lemma step_ok: "break_step db db' \<Longrightarrow> db_ok db \<Longrightarrow> db_ok db'"
proof (induction rule: break_step.induct)
  case (others db)
  then show ?case by (rule others_ok) simp_all
qed (simp_all add: operations_ok create_skip_ok delete_break_ok create_session_ok close_session_ok endExpiredPaused_def endPaused_def)

lemma reachable_ok: "reachable db \<Longrightarrow> db_ok db"
  by (induction rule: reachable.induct) (auto simp: empty_db_ok dest: step_ok)

end
