(* ===== verification/Break_Guarantees.thy ===== *)
theory Break_Guarantees
  imports Break_Invariant
begin

text \<open>
  What the break tables guarantee: at most one running break per person over every history, payroll
  months that stay as they were decided, exact accounting of pauses, and an overrun nobody approves
  without seeing it.
\<close>

section \<open>One break at a time\<close>

definition running :: "break_db \<Rightarrow> break_row \<Rightarrow> bool" where
  "running db b = (case session_of db (br_presenceSessionId b) of None \<Rightarrow> False | Some s \<Rightarrow> ss_endedAt s = None)"

lemma running_session:
  assumes "db_ok db" "b \<in> set (db_breaks db)" "running db b"
  shows "\<exists>s \<in> open_sessions db. br_presenceSessionId b = Some (ss_id s) \<and> ss_userId s = br_userId b \<and> br_state b \<noteq> BPaused"
proof -
  obtain i s where i: "br_presenceSessionId b = Some i" and s: "session_of db (Some i) = Some s" "ss_endedAt s = None"
    using assms(3) by (cases "br_presenceSessionId b") (auto simp: running_def session_of_def split: option.splits)
  then have so: "s \<in> open_sessions db" "ss_id s = i"
    using session_of_Some [OF assms(1)] by (auto simp: open_sessions_def)
  have r: "row_ok db b" using assms(1,2) by (simp add: db_ok_def breaks_ok_def)
  then have "i \<in> session_ids b" using i by (simp add: row_ok_def)
  with r so show ?thesis unfolding row_ok_def by blast
qed

lemma one_running_break:
  assumes ok: "db_ok db" and a: "a \<in> set (db_breaks db)" "running db a" and b: "b \<in> set (db_breaks db)" "running db b"
    and u: "br_userId a = br_userId b"
  shows "a = b"
proof -
  obtain s where s: "s \<in> open_sessions db" "br_presenceSessionId a = Some (ss_id s)" "ss_userId s = br_userId a"
    using running_session [OF ok a] by blast
  obtain t where t: "t \<in> open_sessions db" "br_presenceSessionId b = Some (ss_id t)" "ss_userId t = br_userId b"
    using running_session [OF ok b] by blast
  have "s = t" using ok s t u inj_onD [of ss_userId "open_sessions db" s t] by (simp add: db_ok_def presence_ok_def)
  then have "clashes a b" using s t by (simp add: clashes_def)
  then have "br_id a = br_id b" using ok a(1) b(1) unfolding db_ok_def breaks_ok_def by blast
  then show "a = b" using ok a(1) b(1) by (auto simp: db_ok_def breaks_ok_def distinct_map dest: inj_onD)
qed

lemma unique_kind:
  assumes "db_ok db" "a \<in> set (db_breaks db)" "b \<in> set (db_breaks db)"
    and "br_userId a = br_userId b" "br_date a = br_date b" "br_kind a = br_kind b" "br_kind a \<noteq> None" "br_seq a = br_seq b"
  shows "a = b"
proof -
  have "clashes a b" using assms by (simp add: clashes_def)
  then have "br_id a = br_id b" using assms(1-3) unfolding db_ok_def breaks_ok_def by blast
  then show ?thesis using assms(1-3) by (auto simp: db_ok_def breaks_ok_def distinct_map dest: inj_onD)
qed

lemma scheduled_number:
  "db_ok db \<Longrightarrow> b \<in> set (db_breaks db) \<Longrightarrow> br_kind b \<noteq> Some Quick \<Longrightarrow> br_seq b = 0"
  by (simp add: db_ok_def breaks_ok_def quick_ok_def)

text \<open>C1: over every history of the break operations, interleaved with what the other modules do, a
  person has at most one presence session open and at most one break running; a paused break has
  nothing running; a person has at most one record of each scheduled break (morning, lunch, evening) a day,
  and the quick breaks of a day carry different numbers.\<close>

theorem one_break_at_a_time:
  assumes "reachable db"
  shows "inj_on ss_userId {s \<in> set (db_presence db). ss_endedAt s = None}
    \<and> inj_on br_userId {b \<in> set (db_breaks db). running db b}
    \<and> {b \<in> set (db_breaks db). running db b} \<subseteq> {b. br_state b \<noteq> BPaused}
    \<and> inj_on (\<lambda>b. (br_userId b, br_date b, br_kind b)) {b \<in> set (db_breaks db). isScheduledKind (br_kind b)}
    \<and> inj_on (\<lambda>b. (br_userId b, br_date b, br_seq b)) {b \<in> set (db_breaks db). br_kind b = Some Quick}"
proof -
  have ok: "db_ok db" by (rule reachable_ok [OF assms])
  have "inj_on ss_userId {s \<in> set (db_presence db). ss_endedAt s = None}"
    using ok by (simp add: db_ok_def presence_ok_def open_sessions_def)
  moreover have "inj_on br_userId {b \<in> set (db_breaks db). running db b}"
    using one_running_break [OF ok] by (intro inj_onI) auto
  moreover have "{b \<in> set (db_breaks db). running db b} \<subseteq> {b. br_state b \<noteq> BPaused}"
    using running_session [OF ok] by blast
  moreover have "inj_on (\<lambda>b. (br_userId b, br_date b, br_kind b)) {b \<in> set (db_breaks db). isScheduledKind (br_kind b)}"
  proof (rule inj_onI)
    fix a b assume ab: "a \<in> {b \<in> set (db_breaks db). isScheduledKind (br_kind b)}" "b \<in> {b \<in> set (db_breaks db). isScheduledKind (br_kind b)}"
      and key: "(br_userId a, br_date a, br_kind a) = (br_userId b, br_date b, br_kind b)"
    then have "br_seq a = 0" "br_seq b = 0" "br_kind a \<noteq> None"
      using ok scheduled_number by (auto simp: isScheduledKind_def)
    then show "a = b" using unique_kind [OF ok] ab key by simp
  qed
  moreover have "inj_on (\<lambda>b. (br_userId b, br_date b, br_seq b)) {b \<in> set (db_breaks db). br_kind b = Some Quick}"
    using unique_kind [OF ok] by (intro inj_onI) auto
  ultimately show ?thesis by blast
qed

definition sample_quick :: new_quick_break where
  "sample_quick = \<lparr>nq_userId = 1, nq_date = ''d'', nq_plannedMin = 5, nq_startedAt = 1000, nq_calendarDay = ''d'',
     nq_shiftId = None, nq_shiftName = None\<rparr>"

definition working_db :: break_db where
  "working_db = (empty_db (\<lambda>_. Some 7) (\<lambda>_. 48))\<lparr>db_openWork := {1}\<rparr>"

lemma working_db_reachable: "reachable working_db"
proof -
  have "working_db = (empty_db (\<lambda>_. Some 7) (\<lambda>_. 48))\<lparr>db_dayEnds := (\<lambda>_. None), db_openWork := {1},
      db_companyOf := (\<lambda>_. Some 7), db_monthLocks := {}, db_sla := (\<lambda>_. 48)\<rparr>"
    by (simp add: working_db_def empty_db_def)
  then show ?thesis by (metis reachable.initial reachable.step break_step.others)
qed

theorem one_break_at_a_time_witness:
  "inj_on br_userId {b \<in> set (db_breaks (snd (startQuick sample_quick working_db))).
      running (snd (startQuick sample_quick working_db)) b}
   \<and> length (db_breaks (snd (startQuick sample_quick working_db))) = 1"
proof -
  have "reachable (snd (startQuick sample_quick working_db))"
    by (rule reachable.step [OF working_db_reachable break_step.quick])
  moreover have "length (db_breaks (snd (startQuick sample_quick working_db))) = 1"
    by code_simp
  ultimately show ?thesis using one_break_at_a_time by blast
qed

section \<open>Locked months\<close>

text \<open>Every record of a locked month keeps its approval status, and none is added waiting.\<close>

definition month_kept :: "break_db \<Rightarrow> break_row list \<Rightarrow> bool" where
  "month_kept db rows \<longleftrightarrow>
     (\<forall>b' \<in> set rows. isMonthLocked db (br_date b') (br_userId b') \<longrightarrow>
        (\<exists>b \<in> set (db_breaks db). br_id b = br_id b' \<and> br_approvalStatus b = br_approvalStatus b')
        \<or> (br_id b' \<notin> br_id ` set (db_breaks db) \<and> br_approvalStatus b' \<noteq> Pending))"

text \<open>A record that waits keeps its deadline and its marks, and a new record has an id of its own.\<close>

definition clock_kept :: "break_db \<Rightarrow> break_row list \<Rightarrow> bool" where
  "clock_kept db rows \<longleftrightarrow>
     (\<forall>b' \<in> set rows.
        (\<exists>b \<in> set (db_breaks db). br_id b = br_id b' \<and> (br_approvalStatus b = Pending \<longrightarrow> br_clock b' = br_clock b))
        \<or> br_id b' \<notin> br_id ` set (db_breaks db))"

definition rows_kept :: "break_db \<Rightarrow> break_row list \<Rightarrow> bool" where
  "rows_kept db rows \<longleftrightarrow> month_kept db rows \<and> clock_kept db rows"

lemma month_kept_self [simp]: "month_kept db (db_breaks db)"
  by (auto simp: month_kept_def)

lemma clock_kept_self [simp]: "clock_kept db (db_breaks db)"
  by (auto simp: clock_kept_def)

lemma rows_kept_refl: "set rows \<subseteq> set (db_breaks db) \<Longrightarrow> rows_kept db rows"
  by (auto simp: rows_kept_def month_kept_def clock_kept_def)

lemma rows_kept_self [simp]: "rows_kept db (db_breaks db)"
  by (simp add: rows_kept_refl)

lemma clock_sel [simp]:
  "br_clock (with_routing rt b) = br_clock b" "br_clock (with_status st b) = br_clock b"
  "br_clock (close_segments t b) = br_clock b" "br_clock (resumed_row sid now b) = br_clock b"
  by (simp_all add: with_routing_def with_status_def close_segments_def resumed_row_def)

text \<open>An update that may set a status only where the month is open.\<close>

lemma month_kept_update:
  assumes "\<And>b. br_id (f b) = br_id b \<and> br_userId (f b) = br_userId b \<and> br_date (f b) = br_date b"
    and "\<And>b. b \<in> set (db_breaks db) \<Longrightarrow> br_id b = i \<Longrightarrow> isMonthLocked db (br_date b) (br_userId b) \<Longrightarrow>
      br_approvalStatus (f b) = br_approvalStatus b"
    and "db_breaks db1 = db_breaks db"
  shows "month_kept db (db_breaks (update_break i f db1))"
  unfolding month_kept_def
proof (intro ballI impI disjI1)
  fix b' assume b': "b' \<in> set (db_breaks (update_break i f db1))" and l: "isMonthLocked db (br_date b') (br_userId b')"
  then obtain b where b: "b \<in> set (db_breaks db)" "b' = (if br_id b = i then f b else b)"
    unfolding update_break_sel set_map assms(3) by (elim imageE)
  have "br_id b = br_id b' \<and> br_approvalStatus b = br_approvalStatus b'"
    using assms(1) [of b] assms(2) [OF b(1)] l unfolding b(2) by (cases "br_id b = i") auto
  with b(1) show "\<exists>b \<in> set (db_breaks db). br_id b = br_id b' \<and> br_approvalStatus b = br_approvalStatus b'" by blast
qed

lemma clock_kept_update:
  assumes "\<And>b. br_id (f b) = br_id b"
    and "\<And>b. b \<in> set (db_breaks db) \<Longrightarrow> br_id b = i \<Longrightarrow> br_approvalStatus b = Pending \<Longrightarrow> br_clock (f b) = br_clock b"
    and "db_breaks db1 = db_breaks db"
  shows "clock_kept db (db_breaks (update_break i f db1))"
  unfolding clock_kept_def
proof (intro ballI impI disjI1)
  fix b' assume b': "b' \<in> set (db_breaks (update_break i f db1))"
  then obtain b where b: "b \<in> set (db_breaks db)" "b' = (if br_id b = i then f b else b)"
    unfolding update_break_sel set_map assms(3) by (elim imageE)
  have "br_id b = br_id b' \<and> (br_approvalStatus b = Pending \<longrightarrow> br_clock b' = br_clock b)"
    using assms(1) [of b] assms(2) [OF b(1)] unfolding b(2) by (cases "br_id b = i") auto
  with b(1) show "\<exists>b \<in> set (db_breaks db). br_id b = br_id b' \<and> (br_approvalStatus b = Pending \<longrightarrow> br_clock b' = br_clock b)" by blast
qed

lemma rows_kept_update:
  assumes "\<And>b. br_id (f b) = br_id b \<and> br_userId (f b) = br_userId b \<and> br_date (f b) = br_date b"
    and "\<And>b. b \<in> set (db_breaks db) \<Longrightarrow> br_id b = i \<Longrightarrow> isMonthLocked db (br_date b) (br_userId b) \<Longrightarrow>
      br_approvalStatus (f b) = br_approvalStatus b"
    and "\<And>b. b \<in> set (db_breaks db) \<Longrightarrow> br_id b = i \<Longrightarrow> br_approvalStatus b = Pending \<Longrightarrow> br_clock (f b) = br_clock b"
    and "db_breaks db1 = db_breaks db"
  shows "rows_kept db (db_breaks (update_break i f db1))"
  unfolding rows_kept_def
  by (intro conjI month_kept_update [OF assms(1,2,4)] clock_kept_update [OF _ assms(3,4)]) (use assms(1) in auto)

lemma rows_kept_append:
  assumes "set rows \<subseteq> set (db_breaks db)" "br_id row \<notin> br_id ` set (db_breaks db)"
    and "br_approvalStatus row = Pending \<Longrightarrow> \<not> isMonthLocked db (br_date row) (br_userId row)"
  shows "rows_kept db (rows @ [row])"
  using assms unfolding rows_kept_def month_kept_def clock_kept_def by auto

lemma locked_sel [simp]:
  "isMonthLocked (update_break i f db) d u = isMonthLocked db d u"
  "isMonthLocked (delete_break i db) d u = isMonthLocked db d u"
  "isMonthLocked (close_session i t db) d u = isMonthLocked db d u"
  "isMonthLocked (snd (create_session v ty day t db)) d u = isMonthLocked db d u"
  by (simp_all add: isMonthLocked_def split: option.split)

lemma create_break_appends:
  "create_break mk db = (Inr row, db') \<Longrightarrow> row = mk (db_nextId db) \<and> db_breaks db' = db_breaks db @ [row]"
  by (auto simp: create_break_def Let_def split: if_splits)

lemma fresh_id: "db_ok db \<Longrightarrow> db_nextId db \<le> i \<Longrightarrow> i \<notin> br_id ` set (db_breaks db)"
  unfolding db_ok_def breaks_ok_def row_ok_def by (metis imageE leD)

lemma start_now_kept:
  assumes ok: "db_ok db" and d: "db_breaks d = rows" "set rows \<subseteq> set (db_breaks db)" "db_nextId d = db_nextId db"
    "\<And>u day. isMonthLocked d day u = isMonthLocked db day u"
  shows "rows_kept db (db_breaks (snd (start_now r clock day now d)))"
proof -
  obtain res d' where e: "start_now r clock day now d = (res, d')" by fastforce
  from start_now_cases [OF e] show ?thesis
  proof (elim disjE exE conjE)
    assume "d' = d"
    then show ?thesis using e d(1,2) rows_kept_refl by simp
  next
    fix sid d2 row
    assume c: "create_session (nb_userId r) (nb_presenceType r) day now (freed d (nb_userId r) now) = (sid, d2)"
      and k: "create_break (running_row r clock 0 None sid now) d2 = (Inr row, d')"
      and l: "\<not> (nb_approvalStatus r = Pending \<and> isMonthLocked d (nb_date r) (nb_userId r))"
    have d2: "d2 = snd (create_session (nb_userId r) (nb_presenceType r) day now (freed d (nb_userId r) now))"
      using c by simp
    have row: "row = running_row r clock 0 None sid now (db_nextId d2)" "db_breaks d' = rows @ [row]"
      using create_break_appends [OF k] d(1) by (simp_all add: d2)
    have "br_id row \<notin> br_id ` set (db_breaks db)"
      using fresh_id [OF ok, of "db_nextId d2"] d(3) by (simp add: row d2)
    then have "rows_kept db (rows @ [row])"
      using l d(2,4) by (intro rows_kept_append) (auto simp: row)
    then show ?thesis using e row by simp
  qed
qed

lemma create_skip_kept:
  assumes ok: "db_ok db" and m: "nb_approvalStatus r \<noteq> Pending \<or> \<not> isMonthLocked db (nb_date r) (nb_userId r)"
  shows "rows_kept db (db_breaks (snd (create_break (fresh_row r clock) db)))"
proof -
  obtain x db' where c: "create_break (fresh_row r clock) db = (x, db')" by fastforce
  show ?thesis
  proof (cases x)
    case (Inl e)
    then show ?thesis using create_break_Inl c by (metis rows_kept_self snd_conv)
  next
    case (Inr row)
    from create_break_appends [OF c [unfolded Inr]]
    have row: "row = fresh_row r clock (db_nextId db)" "db_breaks db' = db_breaks db @ [row]" by simp_all
    have "rows_kept db (db_breaks db @ [row])"
      using m fresh_id [OF ok] by (intro rows_kept_append) (auto simp: row(1))
    then show ?thesis by (simp add: c row)
  qed
qed

lemma startScheduled_kept:
  assumes ok: "db_ok db"
  shows "rows_kept db (db_breaks (snd (startScheduled r day now clk db)))"
proof -
  have "rows_kept db (db_breaks (snd (start_now r clock day now db)))" for clock
    by (rule start_now_kept [OF ok]) auto
  moreover have "rows_kept db (db_breaks (snd (start_now r clock day now (delete_break i db))))" for clock i
    by (rule start_now_kept [OF ok]) auto
  ultimately show ?thesis
    using startScheduled_db [of r day now clk db] by auto
qed

lemma createForSession_kept:
  assumes ok: "db_ok db"
  shows "rows_kept db (db_breaks (snd (createForSession r sid clk db)))"
proof -
  have tx: "rows_kept db (db_breaks (snd (createForSession_tx r clock sid db)))" for clock
  proof (cases "nb_approvalStatus r = Pending \<and> isMonthLocked db (nb_date r) (nb_userId r)")
    case True
    then show ?thesis by (simp add: createForSession_tx_def rows_kept_refl)
  next
    case False
    obtain mk where e: "createForSession_tx r clock sid db = create_break mk db"
      and mk: "\<And>i. br_id (mk i) = i \<and> br_data (mk i) = r"
      using False unfolding createForSession_tx_def Let_def by (auto simp: fresh_row_def)
    obtain x db' where c: "create_break mk db = (x, db')" by fastforce
    show ?thesis
    proof (cases x)
      case (Inl err)
      then show ?thesis using create_break_Inl [of mk db err db'] c e by simp
    next
      case (Inr row)
      from create_break_appends [OF c [unfolded Inr]] have row: "row = mk (db_nextId db)" "db_breaks db' = db_breaks db @ [row]"
        by simp_all
      have "rows_kept db (db_breaks db @ [row])"
        using False fresh_id [OF ok] by (intro rows_kept_append) (auto simp: row(1) mk)
      then show ?thesis by (simp add: e c row)
    qed
  qed
  have "snd (case p of (Inl P2002, d) \<Rightarrow> (Inr None, d) | (Inl e, d) \<Rightarrow> (Inl e, d)
      | (Inr row, d) \<Rightarrow> (Inr (Some (breakRowFromPrisma d row)), d)) = snd p"
    for p :: "(db_error + break_row) \<times> break_db"
    by (auto split: prod.splits sum.splits db_error.splits)
  then obtain clock where "snd (createForSession r sid clk db) = snd (transaction (createForSession_tx r clock sid) db)"
    unfolding createForSession_def Let_def by blast
  then show ?thesis using tx [of clock] by (auto simp: transaction_db)
qed

lemma finish_data_sel [simp]:
  "br_id (finish_data input c b) = br_id b" "br_userId (finish_data input c b) = br_userId b"
  "br_date (finish_data input c b) = br_date b"
  "br_approvalStatus (finish_data input c b) =
     (if ask_routing input = None then br_approvalStatus b else Pending)"
  "br_approvalStatus b = Pending \<Longrightarrow> br_clock (finish_data input c b) = br_clock b"
  by (auto simp: finish_data_def ask_routing_def Let_def split: option.splits)

lemma finishBreak_kept:
  assumes "db_ok db"
  shows "rows_kept db (db_breaks (snd (finishBreak i input now clk db)))"
proof (cases "find_break db i")
  case None
  then show ?thesis by (simp add: finishBreak_def rows_kept_refl)
next
  case (Some row)
  let ?c = "pendingClock clk now (db_sla db (br_userId row))"
  have same: "b = row" if "b \<in> set (db_breaks db)" "br_id b = i" for b
    using Some that find_break_Some [OF assms, of i b] by simp
  show ?thesis
  proof (cases "(ask_routing input \<noteq> None \<or> br_approvalStatus row = Pending) \<and> isMonthLocked db (br_date row) (br_userId row)")
    case True
    then show ?thesis using Some by (simp add: finishBreak_def rows_kept_refl)
  next
    case False
    have "rows_kept db (db_breaks (update_break i (finish_data input ?c) db))"
      by (rule rows_kept_update) (use same False in auto)
    then show ?thesis using Some False by (auto simp: finishBreak_def Let_def simp del: update_break_sel)
  qed
qed

lemma addComment_kept: "rows_kept db (db_breaks (snd (addComment i c now db)))"
proof (cases "find_break db i")
  case (Some row)
  have "rows_kept db (db_breaks (update_break i (\<lambda>b. b\<lparr>br_data := (br_data b)\<lparr>nb_reason := Some c\<rparr>, br_commentedAt := Some now\<rparr>) db))"
    by (rule rows_kept_update) auto
  then show ?thesis using Some by (simp add: addComment_def Let_def rows_kept_refl del: update_break_sel)
qed (simp add: addComment_def rows_kept_refl)

lemma decide_kept:
  assumes "db_ok db"
  shows "month_kept db (db_breaks (snd (decide i expected d clk db)))"
proof (cases "find_break db i")
  case (Some row)
  have same: "b = row" if "b \<in> set (db_breaks db)" "br_id b = i" for b
    using Some that find_break_Some [OF assms, of i b] by simp
  let ?f = "\<lambda>b. with_status (dc_status d)
                   (b\<lparr>br_decidedById := dc_decidedById d, br_decidedAt := dc_decidedAt d, br_decisionNote := dc_note d,
                      br_clock := (if dc_status d = Pending
                                   then pendingClock clk (clock_now clk) (db_sla db (br_userId b))
                                   else br_clock b)\<rparr>)"
  have "month_kept db (db_breaks (update_break i ?f db))" if "\<not> isMonthLocked db (br_date row) (br_userId row)"
    by (rule month_kept_update) (use same that in auto)
  then show ?thesis using Some
    by (auto simp: decide_def Let_def simp del: update_break_sel)
qed (simp add: decide_def)

text \<open>A decision restarts the clock only when it puts a record back to wait.\<close>

lemma decide_clock:
  assumes ok: "db_ok db" and d: "dc_status d = Pending \<Longrightarrow> Pending \<notin> set expected"
  shows "clock_kept db (db_breaks (snd (decide i expected d clk db)))"
proof (cases "find_break db i")
  case (Some row)
  have same: "b = row" if "b \<in> set (db_breaks db)" "br_id b = i" for b
    using Some that find_break_Some [OF ok, of i b] by simp
  let ?f = "\<lambda>b. with_status (dc_status d)
                   (b\<lparr>br_decidedById := dc_decidedById d, br_decidedAt := dc_decidedAt d, br_decisionNote := dc_note d,
                      br_clock := (if dc_status d = Pending
                                   then pendingClock clk (clock_now clk) (db_sla db (br_userId b))
                                   else br_clock b)\<rparr>)"
  have "clock_kept db (db_breaks (update_break i ?f db))" if "br_approvalStatus row \<in> set expected"
    by (rule clock_kept_update) (use same that d in auto)
  then show ?thesis using Some
    by (auto simp: decide_def Let_def simp del: update_break_sel)
qed (simp add: decide_def)

lemma reroute_kept: "rows_kept db (db_breaks (snd (reroute i rt db)))"
proof (cases "find_break db i")
  case (Some row)
  have "rows_kept db (db_breaks (update_break i (with_routing rt) db))"
    by (rule rows_kept_update) auto
  then show ?thesis using Some by (simp add: reroute_def del: update_break_sel)
qed (simp add: reroute_def)

lemma startQuick_kept:
  assumes ok: "db_ok db"
  shows "rows_kept db (db_breaks (snd (startQuick q db)))"
proof -
  obtain res db' where e: "startQuick q db = (res, db')" by fastforce
  from startQuick_cases [OF e] show ?thesis
  proof (elim disjE exE conjE)
    fix sid db2 row
    assume s: "create_session (nq_userId q) PBreak (nq_calendarDay q) (nq_startedAt q) db = (sid, db2)"
      and c: "create_break (running_row (quick_record q) no_clock (quick_count db (nq_userId q) (nq_date q) + 1)
             (Some (nq_plannedMin q)) sid (nq_startedAt q)) db2 = (Inr row, db')"
    have db2: "db2 = snd (create_session (nq_userId q) PBreak (nq_calendarDay q) (nq_startedAt q) db)"
      using s by simp
    note row = create_break_appends [OF c]
    have "rows_kept db (db_breaks db @ [row])"
      using fresh_id [OF ok, of "db_nextId db2"] row
      by (intro rows_kept_append) (auto simp: db2 quick_record_def)
    then show ?thesis using e row by (simp add: db2)
  qed (use e in simp)
qed

lemma close_part_kept:
  "rows_kept db (db_breaks (update_break i (\<lambda>b. (close_segments t b)\<lparr>br_state := st b\<rparr>) (close_current row t db)))"
  by (rule rows_kept_update) auto

lemma pause_kept: "rows_kept db (db_breaks (snd (pause i u now db)))"
proof -
  obtain res db' where e: "pause i u now db = (res, db')" by fastforce
  from pause_cases [OF e] show ?thesis using e close_part_kept by (auto simp del: update_break_sel)
qed

text \<open>Ending changes no key and no status of any record.\<close>

definition same_statuses :: "break_row list \<Rightarrow> break_row list \<Rightarrow> bool" where
  "same_statuses xs ys \<longleftrightarrow>
     map (\<lambda>b. (br_id b, br_userId b, br_date b, br_approvalStatus b, br_clock b)) xs
     = map (\<lambda>b. (br_id b, br_userId b, br_date b, br_approvalStatus b, br_clock b)) ys"

lemma same_statuses_kept:
  assumes "same_statuses (db_breaks db) rows"
  shows "rows_kept db rows"
proof -
  have "\<exists>b \<in> set (db_breaks db). br_id b = br_id b' \<and> br_approvalStatus b = br_approvalStatus b' \<and> br_clock b' = br_clock b"
    if "b' \<in> set rows" for b'
  proof -
    have "(br_id b', br_userId b', br_date b', br_approvalStatus b', br_clock b')
        \<in> set (map (\<lambda>b. (br_id b, br_userId b, br_date b, br_approvalStatus b, br_clock b)) (db_breaks db))"
      using that assms unfolding same_statuses_def by auto
    then show ?thesis by auto
  qed
  then show ?thesis unfolding rows_kept_def month_kept_def clock_kept_def by blast
qed

lemma same_statuses_update:
  assumes "\<And>b. br_id (f b) = br_id b \<and> br_data (f b) = br_data b \<and> br_clock (f b) = br_clock b"
  shows "same_statuses (db_breaks db) (db_breaks (update_break i f db))"
  unfolding same_statuses_def update_break_sel using assms by simp

lemma endPausedTx_statuses: "same_statuses (db_breaks db) (db_breaks (snd (endPausedTx i now db)))"
  unfolding endPausedTx_def Let_def
  by (auto simp del: update_break_sel intro!: same_statuses_update split: option.split) (simp_all add: same_statuses_def)

lemma markEnded_kept: "rows_kept db (db_breaks (snd (markEnded i t db)))"
proof (rule same_statuses_kept)
  have trans: "same_statuses xs ys \<Longrightarrow> same_statuses ys zs \<Longrightarrow> same_statuses xs zs" for xs ys zs
    by (simp add: same_statuses_def)
  have refl: "same_statuses xs xs" for xs by (simp add: same_statuses_def)
  have "same_statuses (db_breaks db) (db_breaks (update_break i (close_segments t) (close_current row t db)))" for row
    using same_statuses_update [of "close_segments t" "close_current row t db" i] by (simp del: update_break_sel)
  moreover have "same_statuses (db_breaks d) (db_breaks (update_break i
      (\<lambda>b. b\<lparr>br_state := BEnded, br_endedAt := e, br_takenSec := k\<rparr>) d))" for d e k
    by (rule same_statuses_update) simp
  ultimately have step: "same_statuses (db_breaks db) (db_breaks (update_break i
      (\<lambda>b. b\<lparr>br_state := BEnded, br_endedAt := e, br_takenSec := k\<rparr>)
      (update_break i (close_segments t) (close_current row t db))))" for row e k
    by (rule trans)
  have one: "same_statuses (db_breaks db) (db_breaks (update_break i (close_segments t) (close_current row t db)))" for row
    using same_statuses_update [of "close_segments t" "close_current row t db" i] by (simp del: update_break_sel)
  show "same_statuses (db_breaks db) (db_breaks (snd (markEnded i t db)))"
    using endPausedTx_statuses refl one step unfolding markEnded_def Let_def
    by (auto simp del: update_break_sel split: option.split)
qed

lemma end_all_statuses: "same_statuses (db_breaks db) (db_breaks (snd (end_all is now db)))"
proof (induction "is" now db rule: end_all.induct)
  case (2 i "is" now db)
  obtain d db1 n db2 where e: "endPausedTx i now db = (d, db1)" "end_all is now db1 = (n, db2)" by fastforce
  have "same_statuses (db_breaks db) (db_breaks db1)" using endPausedTx_statuses [of db i now] e by simp
  moreover have "same_statuses (db_breaks db1) (db_breaks db2)" using 2 [OF e(1) [symmetric] refl] e by simp
  ultimately show ?case using e by (simp add: same_statuses_def)
qed (simp add: same_statuses_def)

lemma resume_kept: "rows_kept db (db_breaks (snd (resume i u now day db)))"
proof -
  obtain res db' where e: "resume i u now day db = (res, db')" by fastforce
  have "rows_kept db (db_breaks (update_break i (resumed_row sid now) (snd (create_session v ty day now db))))" for sid v ty
    by (rule rows_kept_update) auto
  then have "rows_kept db (db_breaks (update_break i (resumed_row sid now) db1))"
    if "create_session v ty day now db = (sid, db1)" for sid v ty db1
    using that by (metis snd_conv)
  then show ?thesis
    using resume_cases [OF e] same_statuses_kept [OF endPausedTx_statuses] e by (auto simp del: update_break_sel)
qed

lemma break_step_rows:
  assumes "db_ok db" "break_step db db'"
  obtains "rows_kept db (db_breaks db')" | i expected d clk where "db' = snd (decide i expected d clk db)"
  using assms(2)
proof (cases rule: break_step.cases)
  case (decided i expected d clk)
  then show ?thesis using that(2) by blast
qed (use that(1) assms(1) in \<open>simp_all add: create_skip_kept rows_kept_refl startScheduled_kept createForSession_kept finishBreak_kept
    addComment_kept reroute_kept startQuick_kept pause_kept resume_kept markEnded_kept same_statuses_kept end_all_statuses
    endExpiredPaused_def endPaused_def\<close>)

lemma break_step_clock:
  assumes "db_ok db" "break_step db db'"
    and "\<And>i expected d clk. db' = snd (decide i expected d clk db) \<Longrightarrow> dc_status d = Pending \<Longrightarrow> Pending \<notin> set expected"
  shows "clock_kept db (db_breaks db')"
  using assms by (cases rule: break_step_rows [OF assms(1,2)]) (auto simp: rows_kept_def intro: decide_clock)

text \<open>C17: payroll locks hold. In every step of every history, a record of a person's locked month keeps
  the approval status it had, and no new record of that month is waiting for approval: only a decision
  taken while the month is open changes what payroll reads.\<close>

theorem locked_months_keep_their_decisions:
  assumes "reachable db" "break_step db db'"
    and "b' \<in> set (db_breaks db')" "isMonthLocked db (br_date b') (br_userId b')"
  shows "(\<exists>b \<in> set (db_breaks db). br_id b = br_id b' \<and> br_approvalStatus b = br_approvalStatus b')
    \<or> (br_id b' \<notin> br_id ` set (db_breaks db) \<and> br_approvalStatus b' \<noteq> Pending)"
proof -
  have ok: "db_ok db" by (rule reachable_ok [OF assms(1)])
  have "month_kept db (db_breaks db')"
    by (cases rule: break_step_rows [OF ok assms(2)]) (auto simp: rows_kept_def decide_kept [OF ok])
  then show ?thesis using assms(3,4) unfolding month_kept_def by blast
qed


definition locked_db :: break_db where
  "locked_db = (snd (startQuick sample_quick working_db))\<lparr>db_monthLocks := {(7, ''d'')}\<rparr>"

lemma locked_db_reachable: "reachable locked_db"
proof -
  have "reachable (snd (startQuick sample_quick working_db))"
    by (rule reachable.step [OF working_db_reachable break_step.quick])
  moreover have "locked_db = (snd (startQuick sample_quick working_db))\<lparr>db_dayEnds := db_dayEnds (snd (startQuick sample_quick working_db)),
      db_openWork := db_openWork (snd (startQuick sample_quick working_db)),
      db_companyOf := db_companyOf (snd (startQuick sample_quick working_db)), db_monthLocks := {(7, ''d'')},
      db_sla := db_sla (snd (startQuick sample_quick working_db))\<rparr>"
    by (simp add: locked_db_def)
  ultimately show ?thesis by (metis reachable.step break_step.others)
qed

theorem locked_months_keep_their_decisions_witness:
  "(\<exists>b \<in> set (db_breaks locked_db). br_id b = 1 \<and> br_approvalStatus b = NotRequired)
   \<and> br_state (hd (db_breaks (snd (markEnded 1 2000 locked_db)))) = BEnded"
proof -
  let ?b = "hd (db_breaks (snd (markEnded 1 2000 locked_db)))"
  have b: "?b \<in> set (db_breaks (snd (markEnded 1 2000 locked_db)))" by code_simp
  have l: "isMonthLocked locked_db (br_date ?b) (br_userId ?b)" by code_simp
  have id: "br_id ?b = 1" "br_approvalStatus ?b = NotRequired" "br_state ?b = BEnded"
    "br_id ?b \<in> br_id ` set (db_breaks locked_db)" by code_simp+
  show ?thesis
    using locked_months_keep_their_decisions [OF locked_db_reachable break_step.ended b l] id by auto
qed

section \<open>Pausing and resuming\<close>

definition takenMs :: "break_db \<Rightarrow> uid \<Rightarrow> int \<Rightarrow> int" where
  "takenMs db i now =
     (case findById db i of None \<Rightarrow> 0 | Some v \<Rightarrow> sum_list (map (segment_ms now) (segmentsOf v)))"

lemma sum_list_js_sort:
  fixes g :: "'a \<Rightarrow> int"
  shows "sum_list (map g (js_sort cmp xs)) = sum_list (map g xs)"
proof -
  have "sum_list (map g (js_insert cmp x ys)) = g x + sum_list (map g ys)" for x ys
    by (induction ys) auto
  then show ?thesis by (induction xs) auto
qed

lemma takenMs_segments:
  assumes "find_break db i = Some b" "br_segments b \<noteq> []"
  shows "takenMs db i now = sum_list (map (\<lambda>g. segment_ms now (segment_of db g)) (br_segments b))"
  using assms sum_list_js_sort [of "\<lambda>g. segment_ms now (segment_of db g)"]
  by (simp add: takenMs_def findById_def segmentsOf_def breakRowFromPrisma_def o_def)

lemma find_update:
  assumes "find_break d i = Some b" "\<And>b. br_id (f b) = br_id b"
  shows "find_break (update_break i f d) i = Some (f b)"
proof -
  have "List.find (\<lambda>b. br_id b = i) (map (\<lambda>b. if br_id b = i then f b else b) xs)
      = map_option f (List.find (\<lambda>b. br_id b = i) xs)" for xs
    by (induction xs) (auto simp: assms(2))
  then show ?thesis using assms(1) by (simp add: find_break_def)
qed

lemma session_of_close:
  "session_of (close_session j t db) k = map_option (\<lambda>s. if ss_id s = j then closed_at t s else s) (session_of db k)"
proof -
  have "List.find (\<lambda>s. ss_id s = i) (map (\<lambda>s. if ss_id s = j then closed_at t s else s) xs)
      = map_option (\<lambda>s. if ss_id s = j then closed_at t s else s) (List.find (\<lambda>s. ss_id s = i) xs)" for i xs
    by (induction xs) auto
  then show ?thesis by (simp add: session_of_def split: option.split)
qed

lemma session_of_update [simp]: "session_of (update_break i f db) = session_of db"
  by (simp add: session_of_def fun_eq_iff split: option.split)

lemma segment_of_update [simp]: "segment_of (update_break i f db) = segment_of db"
  by (simp add: segment_of_def fun_eq_iff)

lemma segment_session: "g \<in> set (br_segments b) \<Longrightarrow> sg_presenceSessionId g = Some k \<Longrightarrow> k \<in> session_ids b"
  by (force simp: session_ids_def List.map_filter_def)

text \<open>After a pause at \<open>t\<close> every segment that ran has ended at \<open>t\<close>, and the others are as they were.\<close>

lemma paused_segment:
  assumes ok: "db_ok db" and row: "row \<in> set (db_breaks db)" and g: "g \<in> set (br_segments row)"
  shows "segment_of (close_current row t db) (if sg_endedAt g = None then g\<lparr>sg_endedAt := Some t\<rparr> else g)
      = (segment_of db g)\<lparr>gs_endedAt := Some (coalesce (gs_endedAt (segment_of db g)) t)\<rparr>"
    (is "segment_of ?d ?g = _")
proof -
  have same: "sg_presenceSessionId ?g = sg_presenceSessionId g" by simp
  show ?thesis
  proof (cases "session_of db (sg_presenceSessionId g)")
    case None
    then have "session_of ?d (sg_presenceSessionId ?g) = None"
      by (simp add: same close_current_def session_of_close split: option.split)
    then show ?thesis using None by (auto simp: segment_of_def same split: option.split)
  next
    case (Some s)
    then obtain k where k: "sg_presenceSessionId g = Some k"
      by (cases "sg_presenceSessionId g") (auto simp: session_of_def)
    have s: "s \<in> set (db_presence db)" "ss_id s = k" using Some k session_of_Some [OF ok] by auto
    have r: "row_ok db row" using ok row by (simp add: db_ok_def breaks_ok_def)
    show ?thesis
    proof (cases "ss_endedAt s")
      case None
      then have "s \<in> open_sessions db" using s by (simp add: open_sessions_def)
      then have "br_presenceSessionId row = Some k"
        using r segment_session [OF g k] s unfolding row_ok_def by blast
      then have "?d = close_session k t db" using Some k s None by (simp add: close_current_def)
      then have "session_of ?d (sg_presenceSessionId ?g) = Some (closed_at t s)"
        using Some k s by (simp add: session_of_close)
      then show ?thesis using Some None by (simp add: segment_of_def same)
    next
      case (Some e)
      note fin = this
      have "session_of ?d (sg_presenceSessionId ?g) = Some s"
      proof (cases "session_of db (br_presenceSessionId row)")
        case None
        then show ?thesis using \<open>session_of db (sg_presenceSessionId g) = Some s\<close> by (simp add: close_current_def same)
      next
        case (Some c)
        then obtain j where "br_presenceSessionId row = Some j" "c \<in> set (db_presence db)" "ss_id c = j"
          using session_of_Some [OF ok] by (cases "br_presenceSessionId row") (auto simp: session_of_def)
        then have "ss_endedAt c = None \<Longrightarrow> ss_id s \<noteq> ss_id c"
          using ok s fin by (auto simp: db_ok_def presence_ok_def distinct_map dest: inj_onD)
        then show ?thesis using \<open>session_of db (sg_presenceSessionId g) = Some s\<close> Some
          by (simp add: close_current_def session_of_close same)
      qed
      then show ?thesis using fin \<open>session_of db (sg_presenceSessionId g) = Some s\<close> by (simp add: segment_of_def same)
    qed
  qed
qed


lemma segments_close_state: "br_segments ((close_segments t b)\<lparr>br_state := st\<rparr>) =
    map (\<lambda>g. if sg_endedAt g = None then g\<lparr>sg_endedAt := Some t\<rparr> else g) (br_segments b)"
  by (simp add: close_segments_def)

lemma closed_part:
  assumes ok: "db_ok db" and row: "find_break db i = Some row" and ne: "br_segments row \<noteq> []"
    and d: "d = update_break i (\<lambda>b. (close_segments t b)\<lparr>br_state := st b\<rparr>) (close_current row t db)"
  shows "takenMs d i now = takenMs db i t"
    and "\<exists>row'. find_break d i = Some row' \<and> br_segments row' \<noteq> []
      \<and> (\<forall>g \<in> set (br_segments row'). gs_endedAt (segment_of d g) \<noteq> None)"
proof -
  have in_db: "row \<in> set (db_breaks db)" using row find_break_Some [OF ok] by blast
  let ?h = "\<lambda>g. if sg_endedAt g = None then g\<lparr>sg_endedAt := Some t\<rparr> else g"
  have seg: "segment_of d (?h g) = (segment_of db g)\<lparr>gs_endedAt := Some (coalesce (gs_endedAt (segment_of db g)) t)\<rparr>"
    if "g \<in> set (br_segments row)" for g
    unfolding d segment_of_update by (rule paused_segment [OF ok in_db that])
  have "find_break (close_current row t db) i = Some row" using row by (simp add: find_break_def)
  then have row': "find_break d i = Some ((close_segments t row)\<lparr>br_state := st row\<rparr>)"
    unfolding d by (rule find_update) simp
  have segs: "br_segments ((close_segments t row)\<lparr>br_state := st row\<rparr>) = map ?h (br_segments row)"
    by (rule segments_close_state)
  show "\<exists>row'. find_break d i = Some row' \<and> br_segments row' \<noteq> []
      \<and> (\<forall>g \<in> set (br_segments row'). gs_endedAt (segment_of d g) \<noteq> None)"
  proof (intro exI conjI, rule row')
    show "br_segments ((close_segments t row)\<lparr>br_state := st row\<rparr>) \<noteq> []" using ne unfolding segs by simp
    show "\<forall>g \<in> set (br_segments ((close_segments t row)\<lparr>br_state := st row\<rparr>)). gs_endedAt (segment_of d g) \<noteq> None"
    proof
      fix g assume "g \<in> set (br_segments ((close_segments t row)\<lparr>br_state := st row\<rparr>))"
      then obtain g' where "g' \<in> set (br_segments row)" "g = ?h g'" unfolding segs set_map by (elim imageE)
      then show "gs_endedAt (segment_of d g) \<noteq> None" using seg [of g'] by simp
    qed
  qed
  have "takenMs d i now = sum_list (map (\<lambda>g. segment_ms now (segment_of d g)) (map ?h (br_segments row)))"
    using takenMs_segments [OF row'] ne unfolding segs by simp
  also have "\<dots> = sum_list (map (\<lambda>g. segment_ms t (segment_of db g)) (br_segments row))"
    unfolding map_map o_def
  proof (intro arg_cong [where f = sum_list] map_cong refl)
    fix g assume "g \<in> set (br_segments row)"
    from seg [OF this] show "segment_ms now (segment_of d (?h g)) = segment_ms t (segment_of db g)"
      by (simp only: segment_ms_def) (simp add: coalesce_def split: option.split)
  qed
  also have "\<dots> = takenMs db i t" by (rule takenMs_segments [OF row ne, symmetric])
  finally show "takenMs d i now = takenMs db i t" .
qed

lemma session_of_create:
  assumes "db_ok db"
  shows "session_of (snd (create_session u ty day t db)) k =
    (if k = Some (db_nextId db) then Some \<lparr>ss_id = db_nextId db, ss_userId = u, ss_type = ty, ss_date = day,
       ss_startedAt = t, ss_endedAt = None, ss_durationSec = None\<rparr> else session_of db k)"
proof -
  have "List.find P (xs @ [s]) = (case List.find P xs of Some x \<Rightarrow> Some x | None \<Rightarrow> if P s then Some s else None)"
    for P and xs :: "presence_session list" and s
    by (induction xs) auto
  moreover have "List.find (\<lambda>s. ss_id s = db_nextId db) (db_presence db) = None"
    using assms less_irrefl unfolding find_None_iff db_ok_def presence_ok_def by metis
  ultimately show ?thesis by (auto simp: session_of_def split: option.splits)
qed

lemma resumed_part:
  assumes ok: "db_ok db" and row: "find_break db i = Some row" "br_segments row \<noteq> []"
    and closed: "\<forall>g \<in> set (br_segments row). gs_endedAt (segment_of db g) \<noteq> None"
    and s: "create_session u ty day t db = (sid, db1)" and d: "d = update_break i (resumed_row sid t) db1"
  shows "takenMs d i now = takenMs db i t0 + max 0 (now - t)"
proof -
  have db1: "db1 = snd (create_session u ty day t db)" and sid: "sid = db_nextId db"
    using s create_session_sel(1) [of u ty day t db] by simp_all
  have in_db: "row \<in> set (db_breaks db)" using row(1) find_break_Some [OF ok] by blast
  have "db_nextId db \<notin> ss_id ` set (db_presence db)"
    using ok less_irrefl unfolding db_ok_def presence_ok_def by (metis imageE)
  then have fresh: "db_nextId db \<notin> session_ids row"
    using ok in_db unfolding db_ok_def breaks_ok_def row_ok_def by blast
  have old: "segment_of d g = segment_of db g" if "g \<in> set (br_segments row)" for g
  proof -
    have "sg_presenceSessionId g \<noteq> Some (db_nextId db)" using segment_session [OF that] fresh by blast
    then show ?thesis by (simp add: d db1 segment_of_def session_of_create [OF ok])
  qed
  have new: "segment_of d \<lparr>sg_presenceSessionId = Some sid, sg_startedAt = t, sg_endedAt = None\<rparr>
      = \<lparr>gs_startedAt = t, gs_endedAt = None\<rparr>"
    by (simp add: d db1 sid segment_of_def session_of_create [OF ok])
  have row': "find_break d i = Some (resumed_row sid t row)"
    unfolding d by (rule find_update) (use row(1) in \<open>simp_all add: db1 find_break_def\<close>)
  have "segment_ms now (segment_of d g) = segment_ms t0 (segment_of db g)" if "g \<in> set (br_segments row)" for g
    using closed that old [OF that] by (auto simp: segment_ms_def)
  then have "sum_list (map (\<lambda>g. segment_ms now (segment_of d g)) (br_segments row))
      = sum_list (map (\<lambda>g. segment_ms t0 (segment_of db g)) (br_segments row))"
    by (intro arg_cong [where f = sum_list] map_cong) auto
  then show ?thesis
    using takenMs_segments [OF row', of now] takenMs_segments [OF row, of t0] new
    by (simp add: resumed_row_def segment_ms_def)
qed

lemma moved_inj: "Inr (moved db' i sid) = (Inr (Moved v sid') :: db_error + move_result) \<Longrightarrow> sid = sid' \<and> findById db' i = Some v"
  by (auto simp: moved_def split: option.splits)

text \<open>Pausing stops the clock exactly. After a pause at \<open>t1\<close> the break has taken what it had taken
  at \<open>t1\<close>, however late it is read; after a resume at \<open>t2\<close> it has taken that much plus the time since
  \<open>t2\<close>; and the break's record, ended at \<open>t3\<close>, stores whole seconds of exactly that.\<close>

theorem pause_stops_the_clock:
  assumes "reachable db" "pause i u t1 db = (Inr (Moved v1 s1), db1)"
    and "resume i u t2 day db1 = (Inr (Moved v2 s2), db2)" "markEnded i t3 db2 = (Some v3, db3)"
  shows "takenMs db1 i now = takenMs db i t1
    \<and> takenMs db2 i now = takenMs db i t1 + max 0 (now - t2)
    \<and> br_takenSec (bv_row v3) = Some ((takenMs db i t1 + max 0 (t3 - t2)) div 1000)"
proof -
  have ok: "db_ok db" by (rule reachable_ok [OF assms(1)])
  obtain row where own: "own_break db i u = Some row"
    and db1: "db1 = update_break i (\<lambda>b. (close_segments t1 b)\<lparr>br_state := BPaused\<rparr>) (close_current row t1 db)"
    using pause_cases [OF assms(2)] by blast
  have row: "find_break db i = Some row" using own_find_break [OF ok own] by blast
  have "br_presenceSessionId row \<noteq> None" using pause_cases [OF assms(2)] own by auto
  then have "br_segments row \<noteq> []"
    using find_break_Some [OF ok, of i row] row ok by (auto simp: db_ok_def breaks_ok_def row_ok_def)
  note p = closed_part [OF ok row this db1]
  have ok1: "db_ok db1" using pause_ok [OF ok, of i u t1] assms(2) by simp
  obtain sid d row1 where s: "create_session u (nb_presenceType (br_data row1)) day t2 db1 = (sid, d)"
    and db2: "db2 = update_break i (resumed_row sid t2) d" and own1: "own_break db1 i u = Some row1"
    using resume_cases [OF assms(3)] by blast
  have row1: "find_break db1 i = Some row1" using own_find_break [OF ok1 own1] by blast
  have r: "takenMs db2 i now = takenMs db i t1 + max 0 (now - t2)" for now
    using p(2) row1 resumed_part [OF ok1 row1 _ _ s db2, of now t1] p(1) by auto
  have ok2: "db_ok db2" using resume_ok [OF ok1, of i u t2 day] assms(3) by simp
  have d_breaks: "db_breaks d = db_breaks db1" using s by (metis create_session_sel(2) snd_conv)
  have row2: "find_break db2 i = Some (resumed_row sid t2 row1)"
    unfolding db2 by (rule find_update) (use row1 in \<open>simp_all add: find_break_def d_breaks\<close>)
  let ?r = "resumed_row sid t2 row1"
  let ?d = "update_break i (\<lambda>b. (close_segments t3 b)\<lparr>br_state := br_state b\<rparr>) (close_current ?r t3 db2)"
  have same: "close_segments t3 = (\<lambda>b. (close_segments t3 b)\<lparr>br_state := br_state b\<rparr>)"
    by (auto simp: close_segments_def)
  note e = closed_part [where st = br_state and t = t3, OF ok2 row2 resumed_row_sel(7) refl]
  obtain row3 where row3: "find_break ?d i = Some row3" using e(2) by blast
  let ?v = "breakRowFromPrisma ?d row3"
  have "takenSecOf ?v t3 = takenMs ?d i t3 div 1000"
    using row3 by (simp add: takenSecOf_def takenMs_def findById_def)
  then have sec: "takenSecOf ?v t3 = (takenMs db i t1 + max 0 (t3 - t2)) div 1000" using e(1) [of t3] r [of t3] by simp
  have "markEnded i t3 db2 =
      (let f = (\<lambda>b. b\<lparr>br_state := BEnded, br_endedAt := Some (coalesce (bv_endedAt ?v) t3), br_takenSec := Some (takenSecOf ?v t3)\<rparr>)
       in (findById (update_break i f ?d) i, update_break i f ?d))"
    using row2 row3 unfolding markEnded_def by (simp add: same [symmetric] findById_def Let_def)
  then have "Some v3 = findById (update_break i (\<lambda>b. b\<lparr>br_state := BEnded, br_endedAt := Some (coalesce (bv_endedAt ?v) t3),
      br_takenSec := Some (takenSecOf ?v t3)\<rparr>) ?d) i"
    using assms(4) by (simp add: Let_def)
  then have "br_takenSec (bv_row v3) = Some (takenSecOf ?v t3)"
    using find_update [OF row3, of "\<lambda>b. b\<lparr>br_state := BEnded, br_endedAt := Some (coalesce (bv_endedAt ?v) t3),
      br_takenSec := Some (takenSecOf ?v t3)\<rparr>"] by (auto simp: findById_def breakRowFromPrisma_def)
  then show ?thesis using p(1) r sec by simp
qed


definition sample_scheduled :: new_break_record where
  "sample_scheduled =
     \<lparr>nb_userId = 1, nb_date = ''d'', nb_kind = Some Morning, nb_presenceType = PBreak, nb_shiftId = None,
      nb_shiftName = None, nb_scheduledStart = Some 0, nb_durationMin = Some 15, nb_windowOpen = Some 0,
      nb_windowClose = Some 3600000, nb_ringStart = None, nb_ringEnd = None, nb_startedAt = 1000, nb_timing = OnTime,
      nb_minutesOff = 0, nb_reason = None, nb_source = SourceAgent, nb_approvalStatus = NotRequired,
      nb_approverRole = None, nb_approverId = None, nb_outcome = Taken\<rparr>"

definition live_clock :: clock_frame where
  "live_clock = \<lparr>cf_eventAt = None, cf_wall = 1000\<rparr>"

definition on_break_db :: break_db where
  "on_break_db = snd (startScheduled sample_scheduled ''d'' 1000 live_clock working_db)"

lemma on_break_db_reachable: "reachable on_break_db"
  unfolding on_break_db_def
  by (rule reachable.step [OF working_db_reachable break_step.start]) (simp add: sample_scheduled_def)

theorem pause_stops_the_clock_witness:
  "br_takenSec (bv_row (the (fst (markEnded 1 200000 (snd (resume 1 1 100000 ''d'' (snd (pause 1 1 61000 on_break_db)))))))) = Some 160"
proof -
  let ?p = "pause 1 1 61000 on_break_db"
  let ?r = "resume 1 1 100000 ''d'' (snd ?p)"
  let ?e = "markEnded 1 200000 (snd ?r)"
  have "case fst ?p of Inr (Moved v s) \<Rightarrow> True | _ \<Rightarrow> False" by code_simp
  then obtain v1 s1 where p: "?p = (Inr (Moved v1 s1), snd ?p)"
    by (cases ?p) (auto split: sum.splits move_result.splits)
  have "case fst ?r of Inr (Moved v s) \<Rightarrow> True | _ \<Rightarrow> False" by code_simp
  then obtain v2 s2 where r: "?r = (Inr (Moved v2 s2), snd ?r)"
    by (cases ?r) (auto split: sum.splits move_result.splits)
  have "fst ?e \<noteq> None" by code_simp
  then obtain v3 where e: "?e = (Some v3, snd ?e)" by (cases ?e) auto
  have t: "takenMs on_break_db 1 61000 = 60000" by code_simp
  from pause_stops_the_clock [OF on_break_db_reachable p r e] t have "br_takenSec (bv_row v3) = Some 160" by simp
  moreover have "fst ?e = Some v3" using e by (metis fst_conv)
  ultimately show ?thesis by simp
qed

section \<open>Starting a break\<close>

lemma openPresence_unique:
  assumes "db_ok db" "s \<in> open_sessions db" "ss_userId s = u"
  shows "openPresence db u = Some s"
proof -
  have "openPresence db u \<noteq> None" using assms(2,3) unfolding openPresence_None open_sessions_def by blast
  then obtain x where x: "openPresence db u = Some x" by blast
  then have "x \<in> open_sessions db" "ss_userId x = u" using openPresence_Some by (auto simp: open_sessions_def)
  then have "x = s" using assms inj_onD [of ss_userId "open_sessions db" x s] by (simp add: db_ok_def presence_ok_def)
  then show ?thesis using x by simp
qed

lemma start_now_started:
  assumes ok: "db_ok db" and k: "nb_kind r \<noteq> Some Quick"
    and s: "start_now r clock day now db = (Inr (Started v sid c), db')"
  shows "(\<exists>s. openPresence db' (nb_userId r) = Some s \<and> ss_id s = sid \<and> ss_type s = nb_presenceType r \<and> ss_startedAt s = now)
    \<and> bv_row v \<in> set (db_breaks db') \<and> br_data (bv_row v) = r \<and> br_state (bv_row v) = BActive \<and> running db' (bv_row v)
    \<and> c = in_meeting (openPresence db (nb_userId r)) \<and> \<not> on_break (openPresence db (nb_userId r))
    \<and> db_breaks db' = db_breaks db @ [bv_row v]"
proof -
  obtain db2 row where no: "\<not> on_break (openPresence db (nb_userId r))"
    and cs: "create_session (nb_userId r) (nb_presenceType r) day now (freed db (nb_userId r) now) = (sid, db2)"
    and cb: "create_break (running_row r clock 0 None sid now) db2 = (Inr row, db')"
    and v: "v = breakRowFromPrisma db' row" "c = (openPresence db (nb_userId r) \<noteq> None)"
    using start_now_cases [OF s] by auto
  have f: "db_ok (freed db (nb_userId r) now)" "openPresence (freed db (nb_userId r) now) (nb_userId r) = None"
    using freed_ok [OF ok] by blast+
  have o: "db_ok db' \<and> row = running_row r clock 0 None sid now (db_nextId db2) \<and> db_breaks db' = db_breaks db2 @ [row]
      \<and> db_presence db' = db_presence db2"
    using open_running_ok [OF f cs cb] k by simp
  have db2: "db2 = snd (create_session (nb_userId r) (nb_presenceType r) day now (freed db (nb_userId r) now))"
    and sid: "sid = db_nextId db" using cs by (metis snd_conv) (metis cs create_session_sel(1) freed_sel(2) fst_conv)
  let ?s = "\<lparr>ss_id = sid, ss_userId = nb_userId r, ss_type = nb_presenceType r, ss_date = day, ss_startedAt = now,
     ss_endedAt = None, ss_durationSec = None\<rparr>"
  have ms: "?s \<in> open_sessions db'" using o by (simp add: open_sessions_def db2 sid)
  then have op: "openPresence db' (nb_userId r) = Some ?s" using o by (intro openPresence_unique) simp_all
  have "session_of db' (Some sid) = Some ?s" using ms session_of_Some [of db' sid ?s] o by (simp add: open_sessions_def)
  then have run: "running db' row" using o by (simp add: running_def)
  have "in_meeting (openPresence db (nb_userId r)) = (openPresence db (nb_userId r) \<noteq> None)"
    using no by (cases "openPresence db (nb_userId r)") (auto simp: on_break_def in_meeting_def intro: presence_type.exhaust)
  then show ?thesis using o op run no v by (simp add: db2 breakRowFromPrisma_def)
qed

lemma startScheduled_started:
  assumes ok: "db_ok db" and k: "nb_kind r \<noteq> Some Quick"
    and st: "startScheduled r day now clk db = (Inr (Started v sid c), db')"
  shows "map_option ss_id (openPresence db' (nb_userId r)) = Some sid \<and> running db' (bv_row v)
    \<and> bv_row v \<in> set (db_breaks db') \<and> br_data (bv_row v) = r
    \<and> \<not> dayEnded db (nb_userId r) day \<and> \<not> on_break (openPresence db (nb_userId r))
    \<and> c = in_meeting (openPresence db (nb_userId r))
    \<and> {b \<in> set (db_breaks db'). br_userId b = nb_userId r \<and> br_date b = nb_date r \<and> br_kind b = nb_kind r \<and> nb_kind r \<noteq> None
        \<and> br_seq b = 0} \<subseteq> {bv_row v}
    \<and> (case taken_record db r of None \<Rightarrow> True | Some t \<Rightarrow> isReplaceableAutoSkip (br_data t) now)
    \<and> \<not> (nb_approvalStatus r = Pending \<and> isMonthLocked db (nb_date r) (nb_userId r))"
proof -
  obtain clock where "startScheduled_tx r clock day now db = (Inr (Started v sid c), db')"
    using st unfolding startScheduled_def Let_def transaction_def
    by (auto split: prod.splits sum.splits db_error.splits if_splits)
  then obtain d where de: "\<not> dayEnded db (nb_userId r) day"
    and d: "start_now r clock day now d = (Inr (Started v sid c), db')"
    and tr: "(taken_record db r = None \<and> d = db)
      \<or> (\<exists>t. taken_record db r = Some t \<and> isReplaceableAutoSkip (br_data t) now \<and> d = delete_break (br_id t) db)"
    by (auto simp: startScheduled_tx_def split: if_splits option.splits)
  have okd: "db_ok d" using tr ok taken_deleted_ok [OF ok k] by blast
  have same: "openPresence d u = openPresence db u" "isMonthLocked d dt u = isMonthLocked db dt u" for u dt
    using tr by (auto simp: openPresence_def)
  note n = start_now_started [OF okd k d]
  have "\<not> (nb_approvalStatus r = Pending \<and> isMonthLocked db (nb_date r) (nb_userId r))"
    using start_now_cases [OF d] unfolding same by auto
  moreover have "db_ok db'" using start_now_ok [OF okd k d] .
  then have "b = bv_row v" if "b \<in> set (db_breaks db')" "br_userId b = nb_userId r" "br_date b = nb_date r"
      "br_kind b = nb_kind r" "nb_kind r \<noteq> None" "br_seq b = 0" "br_seq (bv_row v) = 0" for b
    using unique_kind [of db' b "bv_row v"] that n by simp
  moreover have "br_seq (bv_row v) = 0"
    using start_now_cases [OF d] create_break_appends by (fastforce simp: breakRowFromPrisma_def)
  ultimately show ?thesis using n de tr unfolding same by auto
qed

text \<open>A scheduled break that starts is the only thing the person is doing and the only record of its
  kind that day. The day was not ended, the person was on no break, a meeting they were in has been
  closed, the new record is running, and a record of that kind that was there was an auto-skip that
  gives way; a record that needs approval never lands in a locked month.\<close>

theorem started_break_is_alone:
  assumes "reachable db" "nb_kind r \<noteq> Some Quick"
    and "startScheduled r day now clk db = (Inr (Started v sid c), db')"
  shows "map_option ss_id (openPresence db' (nb_userId r)) = Some sid \<and> running db' (bv_row v)
    \<and> bv_row v \<in> set (db_breaks db') \<and> br_data (bv_row v) = r
    \<and> \<not> dayEnded db (nb_userId r) day \<and> \<not> on_break (openPresence db (nb_userId r))
    \<and> c = in_meeting (openPresence db (nb_userId r))
    \<and> {b \<in> set (db_breaks db'). br_userId b = nb_userId r \<and> br_date b = nb_date r \<and> br_kind b = nb_kind r \<and> nb_kind r \<noteq> None
        \<and> br_seq b = 0} \<subseteq> {bv_row v}
    \<and> (case taken_record db r of None \<Rightarrow> True | Some t \<Rightarrow> isReplaceableAutoSkip (br_data t) now)
    \<and> \<not> (nb_approvalStatus r = Pending \<and> isMonthLocked db (nb_date r) (nb_userId r))"
  by (rule startScheduled_started [OF reachable_ok [OF assms(1)] assms(2,3)])

theorem started_break_is_alone_witness:
  "map_option ss_id (openPresence on_break_db 1) = Some 0 \<and> \<not> on_break (openPresence working_db 1)"
proof -
  let ?e = "startScheduled sample_scheduled ''d'' 1000 live_clock working_db"
  have "case fst ?e of Inr (Started v sid c) \<Rightarrow> sid = 0 \<and> \<not> c | _ \<Rightarrow> False" by code_simp
  then obtain v where e: "?e = (Inr (Started v 0 False), on_break_db)"
    unfolding on_break_db_def by (cases ?e) (auto split: sum.splits start_outcome.splits)
  have k: "nb_kind sample_scheduled \<noteq> Some Quick" "nb_userId sample_scheduled = 1" by (simp_all add: sample_scheduled_def)
  from started_break_is_alone [OF working_db_reachable k(1) e] k(2) show ?thesis by simp
qed

text \<open>A refused start is not always without effect. When End Day has auto-skipped a break whose window
  is still open, and the person is on another break, starting it answers ALREADY_ON_BREAK, but the
  auto-skip has been deleted and the deletion is committed: the owed break is left without a record.\<close>

theorem refused_start_deletes_the_auto_skip:
  assumes "taken_record db r = Some t" "isReplaceableAutoSkip (br_data t) now"
    and "on_break (openPresence db (nb_userId r))" "\<not> dayEnded db (nb_userId r) day"
    and "nb_approvalStatus r \<noteq> Pending"
  shows "startScheduled r day now clk db = (Inr (StartRefused AlreadyOnBreak), delete_break (br_id t) db)"
proof -
  have "openPresence (delete_break (br_id t) db) u = openPresence db u" for u by (simp add: openPresence_def)
  then show ?thesis
    using assms by (simp add: startScheduled_def startScheduled_tx_def start_now_def transaction_def)
qed

definition skipped_db :: break_db where
  "skipped_db = on_break_db\<lparr>db_breaks := db_breaks on_break_db @
     [fresh_row (sample_scheduled\<lparr>nb_kind := Some Lunch, nb_outcome := AutoSkipped\<rparr>) no_clock 9]\<rparr>"

theorem refused_start_deletes_the_auto_skip_witness:
  "length (db_breaks skipped_db) = 2
   \<and> length (db_breaks (snd (startScheduled (sample_scheduled\<lparr>nb_kind := Some Lunch\<rparr>) ''d'' 2000 live_clock skipped_db))) = 1"
proof -
  let ?r = "sample_scheduled\<lparr>nb_kind := Some Lunch\<rparr>"
  let ?t = "fresh_row (sample_scheduled\<lparr>nb_kind := Some Lunch, nb_outcome := AutoSkipped\<rparr>) no_clock 9"
  have t: "taken_record skipped_db ?r = Some ?t" by code_simp
  have p: "isReplaceableAutoSkip (br_data ?t) 2000" "on_break (openPresence skipped_db (nb_userId ?r))"
    "\<not> dayEnded skipped_db (nb_userId ?r) ''d''" "nb_approvalStatus ?r \<noteq> Pending" by code_simp+
  have l: "length (db_breaks skipped_db) = 2" "length (db_breaks (delete_break (br_id ?t) skipped_db)) = 1" by code_simp+
  from refused_start_deletes_the_auto_skip [OF t p, of live_clock] l show ?thesis by simp
qed

section \<open>Decisions and overruns\<close>

lemma findById_update:
  "find_break db i = Some b \<Longrightarrow> (\<And>b. br_id (f b) = br_id b) \<Longrightarrow>
     map_option bv_row (findById (update_break i f db) i) = Some (f b)"
  using find_update [of db i b f] by (simp add: findById_def breakRowFromPrisma_def)

lemma finishBreak_result:
  assumes "finishBreak i input now clk db = (Inr (Some (v, becamePending)), db')"
  shows "\<exists>b. find_break db i = Some b
    \<and> db' = update_break i (finish_data input (pendingClock clk now (db_sla db (br_userId b)))) db
    \<and> bv_row v = finish_data input (pendingClock clk now (db_sla db (br_userId b))) b
    \<and> (becamePending \<longleftrightarrow> ask_routing input \<noteq> None \<and> br_approvalStatus b \<noteq> Pending)
    \<and> find_break db' i = Some (bv_row v)"
proof (cases "find_break db i")
  case None
  then show ?thesis using assms by (simp add: finishBreak_def)
next
  case (Some b)
  let ?f = "finish_data input (pendingClock clk now (db_sla db (br_userId b)))"
  have f: "find_break (update_break i ?f db) i = Some (?f b)" by (rule find_update [OF Some]) simp
  show ?thesis
    using assms Some f
    by (auto simp: finishBreak_def Let_def findById_def breakRowFromPrisma_def simp del: update_break_sel split: if_splits)
qed

text \<open>An overrun is never approved unseen. Finishing a break with an overrun that someone must review
  leaves the record PENDING, whatever it was before, with no decision on it and, if it was not
  already waiting, a full review period from the start of the clock and no reminder or escalation. A
  decision can only be taken on a record in the status the decider saw, so one taken before the finish
  is reopened by it and none can slip in between.\<close>

theorem overrun_is_reviewed:
  assumes "finishBreak i input now clk db = (Inr (Some (v, becamePending)), db')" "ask_routing input = Some rt"
  shows "br_approvalStatus (bv_row v) = Pending \<and> br_overrunAsked (bv_row v)
    \<and> nb_approverRole (br_data (bv_row v)) = fst rt \<and> nb_approverId (br_data (bv_row v)) = snd rt
    \<and> (becamePending \<longrightarrow> br_decidedById (bv_row v) = None \<and> br_decidedAt (bv_row v) = None
        \<and> br_clock (bv_row v) = pendingClock clk now (db_sla db (br_userId (bv_row v))))
    \<and> (\<forall>expected d. Pending \<notin> set expected \<longrightarrow> snd (decide i expected d clk2 db') = db')"
proof -
  obtain b where b: "bv_row v = finish_data input (pendingClock clk now (db_sla db (br_userId b))) b"
    and p: "becamePending \<longleftrightarrow> ask_routing input \<noteq> None \<and> br_approvalStatus b \<noteq> Pending"
    and f: "find_break db' i = Some (bv_row v)"
    using finishBreak_result [OF assms(1)] by blast
  obtain ask where ask: "fb_ask input = Some ask" "ak_routing ask = Some rt"
    using assms(2) by (auto simp: ask_routing_def split: option.splits)
  have u: "br_userId (bv_row v) = br_userId b" "br_approvalStatus (bv_row v) = Pending"
    using assms(2) by (simp_all add: b)
  have "br_overrunAsked (bv_row v)" "nb_approverRole (br_data (bv_row v)) = fst rt" "nb_approverId (br_data (bv_row v)) = snd rt"
    unfolding b by (simp_all add: finish_data_def ask Let_def with_status_def with_routing_def)
  moreover have "becamePending \<Longrightarrow> br_decidedById (bv_row v) = None \<and> br_decidedAt (bv_row v) = None
      \<and> br_clock (bv_row v) = pendingClock clk now (db_sla db (br_userId b))"
    unfolding b p by (simp add: finish_data_def ask Let_def with_status_def with_routing_def)
  moreover have "snd (decide i expected d clk2 db') = db'" if "Pending \<notin> set expected" for expected d
    using that u(2) by (simp add: decide_def f)
  ultimately show ?thesis using u by simp
qed

theorem overrun_is_reviewed_witness:
  "br_approvalStatus (bv_row (fst (the (projr (fst (finishBreak 1 \<lparr>fb_overrunSec = 300,
      fb_ask = Some \<lparr>ak_reason = None, ak_routing = Some (Some MANAGER, None)\<rparr>\<rparr> 5000 live_clock on_break_db)))))) = Pending"
proof -
  let ?in = "\<lparr>fb_overrunSec = 300, fb_ask = Some \<lparr>ak_reason = None, ak_routing = Some (Some MANAGER, None)\<rparr>\<rparr>"
  let ?e = "finishBreak 1 ?in 5000 live_clock on_break_db"
  have "case fst ?e of Inr (Some (v, p)) \<Rightarrow> p | _ \<Rightarrow> False" by code_simp
  then obtain v p where e: "?e = (Inr (Some (v, p)), snd ?e)"
    by (cases ?e) (auto split: sum.splits option.splits)
  have "br_approvalStatus (bv_row v) = Pending"
    using overrun_is_reviewed [OF e, of "(Some MANAGER, None)"] by (simp add: ask_routing_def)
  then show ?thesis by (subst e) simp
qed

end
