(* ===== verification/Worktime_Rules.thy ===== *)
theory Worktime_Rules
  imports Focus Day_Keys
begin

text \<open>
  The small pure rules of \<open>src/src/modules/worktime/domain\<close>: auto-skip (\<open>owed.ts\<close>), the
  48-hour rule (\<open>sla.ts\<close>), missed End Day (\<open>auto-close.ts\<close>), which client is calling
  (\<open>agent-generation.ts\<close>), meetings and Start Day (\<open>meetings.ts\<close>) and manual adjustments
  (\<open>focus-adjustment.ts\<close>).
\<close>

section \<open>Auto-skip\<close>

record 'k owed_slot =
  os_kind :: 'k
  os_scheduledStart :: int
  os_windowOpen :: int
  os_windowClose :: int

record timed_span =
  ts_startedAt :: int
  ts_endedAt :: "int option"

record 'k auto_skip_plan =
  sp_kind :: 'k
  sp_startedAt :: int
  sp_atEndDay :: bool

definition isOwed :: "'k owed_slot \<Rightarrow> timed_span list \<Rightarrow> int \<Rightarrow> bool" where
  "isOwed slot sessions now =
     (let t = os_scheduledStart slot
      in \<exists>s \<in> set sessions. ts_startedAt s \<le> t \<and> t \<le> coalesce (ts_endedAt s) now)"

fun planAutoSkips ::
  "'k owed_slot list \<Rightarrow> 'k set \<Rightarrow> timed_span list \<Rightarrow> int \<Rightarrow> bool \<Rightarrow> 'k auto_skip_plan list" where
  "planAutoSkips [] recorded sessions now endingDay = []"
| "planAutoSkips (slot # slots) recorded sessions now endingDay =
     (let rest = planAutoSkips slots recorded sessions now endingDay in
      if os_kind slot \<in> recorded then rest
      else if \<not> isOwed slot sessions now then rest
      else if now \<ge> os_windowClose slot then
        \<lparr>sp_kind = os_kind slot, sp_startedAt = os_windowClose slot, sp_atEndDay = False\<rparr> # rest
      else if endingDay \<and> now \<ge> os_windowOpen slot then
        \<lparr>sp_kind = os_kind slot, sp_startedAt = now, sp_atEndDay = True\<rparr> # rest
      else rest)"

section \<open>The 48-hour rule\<close>

definition DUE_SOON_MS :: int where
  "DUE_SOON_MS = 12 * 60 * 60000"

definition dueAtFrom :: "int \<Rightarrow> int \<Rightarrow> int" where
  "dueAtFrom now slaHours = now + slaHours * 60 * 60000"

record sla_state =
  sla_dueInSec :: "int option"
  sla_dueSoon :: bool
  sla_overdue :: bool

definition slaState :: "approval_status \<Rightarrow> int option \<Rightarrow> int \<Rightarrow> sla_state" where
  "slaState status dueAt now =
     (case dueAt of
        None \<Rightarrow> \<lparr>sla_dueInSec = None, sla_dueSoon = False, sla_overdue = False\<rparr>
      | Some due \<Rightarrow>
          (if status \<noteq> Pending then \<lparr>sla_dueInSec = None, sla_dueSoon = False, sla_overdue = False\<rparr>
           else
             (let leftMs = due - now; overdue = leftMs < 0
              in \<lparr>sla_dueInSec = Some (round_div leftMs 1000),
                  sla_dueSoon = (\<not> overdue \<and> leftMs \<le> DUE_SOON_MS), sla_overdue = overdue\<rparr>)))"

definition needsReminder :: "int option \<Rightarrow> int option \<Rightarrow> int \<Rightarrow> bool" where
  "needsReminder dueAt remindedAt now =
     (case dueAt of
        None \<Rightarrow> False
      | Some due \<Rightarrow> if remindedAt \<noteq> None then False
                    else (let left = due - now in left \<ge> 0 \<and> left \<le> DUE_SOON_MS))"

definition needsEscalation :: "int option \<Rightarrow> int option \<Rightarrow> int \<Rightarrow> bool" where
  "needsEscalation dueAt escalatedAt now =
     (case dueAt of None \<Rightarrow> False | Some due \<Rightarrow> escalatedAt = None \<and> now > due)"

section \<open>Missed End Day\<close>

definition NO_SHIFT_SESSION_MS :: int where
  "NO_SHIFT_SESSION_MS = 14 * 60 * 60000"

definition latestEndOf :: "int \<Rightarrow> int option \<Rightarrow> int \<Rightarrow> int" where
  "latestEndOf startedAt shiftEnd autoCloseAfterShiftEndMin =
     (let afterMs = autoCloseAfterShiftEndMin * 60000;
          rule = (case shiftEnd of Some e \<Rightarrow> e + afterMs | None \<Rightarrow> startedAt + NO_SHIFT_SESSION_MS)
      in max rule (startedAt + afterMs))"

definition isStale :: "int \<Rightarrow> int \<Rightarrow> bool" where
  "isStale latestEnd now = (now > latestEnd)"

definition autoCloseAt :: "int \<Rightarrow> int \<Rightarrow> int option \<Rightarrow> int" where
  "autoCloseAt startedAt latestEnd lastInput =
     (case lastInput of
        None \<Rightarrow> startedAt
      | Some t \<Rightarrow> min (max t startedAt) latestEnd)"

section \<open>Which client is calling\<close>

datatype agent_generation = AGENT_31 | LEGACY

text \<open>\<open>/^RXVisionAgent\/(\d+)\.(\d+)/\<close>: the two numbers.\<close>

definition agent_ua :: "string \<Rightarrow> (nat \<times> nat) option" where
  "agent_ua ua =
     (let name = ''RXVisionAgent/'';
          rest = drop (length name) ua;
          major = takeWhile is_digit rest;
          r = dropWhile is_digit rest;
          minor = takeWhile is_digit (tl r)
      in if take (length name) ua = name \<and> major \<noteq> [] \<and> r \<noteq> [] \<and> hd r = CHR ''.'' \<and> minor \<noteq> []
         then Some (parse_digits major, parse_digits minor) else None)"

definition agentGeneration :: "string option \<Rightarrow> agent_generation" where
  "agentGeneration userAgent =
     (case agent_ua (coalesce userAgent '''') of
        None \<Rightarrow> LEGACY
      | Some (major, minor) \<Rightarrow>
          if major > 3 \<or> (major = 3 \<and> minor \<ge> 1) then AGENT_31 else LEGACY)"

definition isAgent31 :: "string option \<Rightarrow> bool" where
  "isAgent31 userAgent = (agentGeneration userAgent = AGENT_31)"

definition isAgent40 :: "string option \<Rightarrow> bool" where
  "isAgent40 userAgent =
     (case agent_ua (coalesce userAgent '''') of None \<Rightarrow> False | Some (major, _) \<Rightarrow> major \<ge> 4)"

section \<open>Meetings and Start Day\<close>

datatype conflict_kind = WithBreak | WithLunch | WithMeeting

datatype past_meeting_conflict =
    MEETING_OUTSIDE_DAY
  | MEETING_IN_FUTURE
  | MEETING_OVERLAPS_BREAK conflict_kind int "int option"
  | MEETING_OVERLAPS_MEETING conflict_kind int "int option"

record past_meeting_input =
  pm_start :: int
  pm_end :: int
  pm_now :: int
  pm_sessions :: "timed_span list"
  pm_breaks :: "(conflict_kind \<times> timed_span) list"
  pm_meetings :: "timed_span list"

definition checkPastMeeting :: "past_meeting_input \<Rightarrow> past_meeting_conflict option" where
  "checkPastMeeting i =
     (if pm_end i > pm_now i then Some MEETING_IN_FUTURE
      else if \<not> (\<exists>s \<in> set (pm_sessions i). ts_startedAt s \<le> pm_start i
                   \<and> pm_end i \<le> coalesce (ts_endedAt s) (pm_now i))
      then Some MEETING_OUTSIDE_DAY
      else
        (let me = span (pm_start i) (Some (pm_end i)) (pm_now i);
             clash = (\<lambda>s. overlaps me (span (ts_startedAt s) (ts_endedAt s) (pm_now i)))
         in case List.find (\<lambda>b. clash (snd b)) (pm_breaks i) of
              Some (kind, brk) \<Rightarrow> Some (MEETING_OVERLAPS_BREAK kind (ts_startedAt brk) (ts_endedAt brk))
            | None \<Rightarrow>
                (case List.find clash (pm_meetings i) of
                   Some other \<Rightarrow> Some (MEETING_OVERLAPS_MEETING WithMeeting (ts_startedAt other) (ts_endedAt other))
                 | None \<Rightarrow> None)))"

definition cleanText :: "string option \<Rightarrow> string" where
  "cleanText txt = trim (collapse_spaces (coalesce txt ''''))"

record participant =
  pt_id :: "string option"
  pt_name :: string

definition participant_key :: "string option \<Rightarrow> string \<Rightarrow> string" where
  "participant_key pid pname =
     (case pid of Some i \<Rightarrow> ''id:'' @ i | None \<Rightarrow> ''name:'' @ to_lower pname)"

text \<open>\<open>seen\<close> is the set of keys, as a list.\<close>

fun clean_participants_loop ::
  "participant list \<Rightarrow> string set \<Rightarrow> string list \<Rightarrow> participant list" where
  "clean_participants_loop [] knownIds seen = []"
| "clean_participants_loop (p # ps) knownIds seen =
     (let pname = take 80 (cleanText (Some (pt_name p)));
          pid = (case pt_id p of Some i \<Rightarrow> if i \<noteq> '''' \<and> i \<in> knownIds then Some i else None | None \<Rightarrow> None);
          key = participant_key pid pname
      in if pname = '''' then clean_participants_loop ps knownIds seen
         else if key \<in> set seen then clean_participants_loop ps knownIds seen
         else \<lparr>pt_id = pid, pt_name = pname\<rparr> # clean_participants_loop ps knownIds (key # seen))"

definition cleanParticipants :: "participant list \<Rightarrow> string set \<Rightarrow> participant list" where
  "cleanParticipants list knownIds = clean_participants_loop list knownIds []"

definition START_DAY_BACKDATE_MS :: int where
  "START_DAY_BACKDATE_MS = 10 * 60000"

text \<open>\<open>Date.parse\<close> is the parameter \<open>parse\<close>; None is NaN.\<close>

definition boundedStartedAt :: "(string \<Rightarrow> int option) \<Rightarrow> string option \<Rightarrow> int \<Rightarrow> int" where
  "boundedStartedAt parse raw now =
     (case raw of
        None \<Rightarrow> now
      | Some s \<Rightarrow>
          if s = '''' then now
          else (case parse s of
                  None \<Rightarrow> now
                | Some t \<Rightarrow> if t > now \<or> now - t > START_DAY_BACKDATE_MS then now else t))"

definition MIN_LIVE_MEETING_SEC :: int where
  "MIN_LIVE_MEETING_SEC = 60"

definition isDiscardedMeeting ::
  "meeting_mode \<Rightarrow> int option \<Rightarrow> approval_status \<Rightarrow> int option \<Rightarrow> bool" where
  "isDiscardedMeeting mode endedAt status durationSec =
     (mode = LiveMeeting \<and> endedAt \<noteq> None \<and> status = NotRequired
      \<and> coalesce durationSec 0 < MIN_LIVE_MEETING_SEC)"

section \<open>Manual adjustments\<close>

record adjustment =
  ad_deltaSec :: int
  ad_voidedAt :: "int option"

definition adjustedSecOf :: "adjustment list \<Rightarrow> int" where
  "adjustedSecOf list =
     foldl (\<lambda>sum a. if ad_voidedAt a \<noteq> None then sum else sum + ad_deltaSec a) 0 list"

text \<open>The request's \<open>minutes\<close>: a whole number, or anything else.\<close>

datatype minutes_value = WholeNumber int | OtherValue

datatype adjustment_field = FMinutes | FReason | FDate

datatype adjustment_problem = AdjOk int string | AdjBad adjustment_field

definition ADJUSTMENT_MAX_MIN :: int where
  "ADJUSTMENT_MAX_MIN = 12 * 60"

text \<open>\<open>reason\<close> is None when it is not a string.\<close>

definition checkAdjustment ::
  "minutes_value \<Rightarrow> string option \<Rightarrow> string \<Rightarrow> string \<Rightarrow> string \<Rightarrow> adjustment_problem" where
  "checkAdjustment mins reason date today earliest =
     (case mins of
        OtherValue \<Rightarrow> AdjBad FMinutes
      | WholeNumber minutes \<Rightarrow>
          (if minutes = 0 then AdjBad FMinutes
           else if \<bar>minutes\<bar> > ADJUSTMENT_MAX_MIN then AdjBad FMinutes
           else
             (let r = (case reason of Some s \<Rightarrow> collapse_spaces (trim s) | None \<Rightarrow> '''') in
              if length r < 5 then AdjBad FReason
              else if length r > 300 then AdjBad FReason
              else if date > today then AdjBad FDate
              else if date < earliest then AdjBad FDate
              else AdjOk (minutes * 60) r)))"

section \<open>Lemmas\<close>

definition due_now :: "'k set \<Rightarrow> timed_span list \<Rightarrow> int \<Rightarrow> bool \<Rightarrow> 'k owed_slot \<Rightarrow> bool" where
  "due_now recorded sessions now endingDay slot \<longleftrightarrow>
     os_kind slot \<notin> recorded \<and> isOwed slot sessions now \<and>
     (now \<ge> os_windowClose slot \<or> endingDay \<and> now \<ge> os_windowOpen slot)"

lemma planAutoSkips_kinds:
  "map sp_kind (planAutoSkips slots recorded sessions now endingDay) =
     map os_kind (filter (due_now recorded sessions now endingDay) slots)"
  by (induction slots) (auto simp: due_now_def Let_def)

lemma planAutoSkips_times:
  "p \<in> set (planAutoSkips slots recorded sessions now endingDay) \<Longrightarrow> sp_startedAt p \<le> now"
  by (induction slots) (auto simp: Let_def split: if_splits)

lemma planAutoSkips_again:
  assumes "recorded \<subseteq> recorded'"
    and "sp_kind ` set (planAutoSkips slots recorded sessions now endingDay) \<subseteq> recorded'"
  shows "planAutoSkips slots recorded' sessions now endingDay = []"
proof -
  have "set (map sp_kind (planAutoSkips slots recorded sessions now endingDay)) \<subseteq> recorded'"
    using assms(2) by simp
  then have "filter (due_now recorded' sessions now endingDay) slots = []"
    unfolding planAutoSkips_kinds using assms(1) by (auto simp: filter_empty_conv due_now_def)
  then have "map sp_kind (planAutoSkips slots recorded' sessions now endingDay) = []"
    unfolding planAutoSkips_kinds by simp
  then show ?thesis by simp
qed

lemma latestEnd_after_start:
  "0 \<le> m \<Longrightarrow> startedAt \<le> latestEndOf startedAt e m"
  by (simp add: latestEndOf_def Let_def)

lemma autoCloseAt_bounds:
  "startedAt \<le> l \<Longrightarrow> startedAt \<le> autoCloseAt startedAt l t \<and> autoCloseAt startedAt l t \<le> l"
  by (auto simp: autoCloseAt_def split: option.splits)

lemma agent40_is_agent31: "isAgent40 ua \<Longrightarrow> isAgent31 ua"
  by (auto simp: isAgent40_def isAgent31_def agentGeneration_def split: option.splits)

text \<open>Overdue by less than half a second, the seconds until due still read 0.\<close>

lemma overdue_with_zero_seconds:
  "sla_overdue (slaState Pending (Some 1000) 1400) \<and> sla_dueInSec (slaState Pending (Some 1000) 1400) = Some 0"
  by code_simp

lemma needs_sla:
  "needsReminder dueAt None now = sla_dueSoon (slaState Pending dueAt now)"
  "needsEscalation dueAt None now = sla_overdue (slaState Pending dueAt now)"
  by (auto simp: needsReminder_def needsEscalation_def slaState_def Let_def split: option.splits)

lemma find_None_iff': "List.find P xs = None \<longleftrightarrow> (\<forall>x \<in> set xs. \<not> P x)"
  by (auto simp: find_None_iff)

lemma pts_map_UN: "pts (map f xs) = (\<Union>x \<in> set xs. pts [f x])"
  by (auto simp: pts_def)

lemma find_disjoint:
  assumes "\<And>x. x \<in> set xs \<Longrightarrow> P x \<longleftrightarrow> X \<inter> pts [f x] \<noteq> {}"
  shows "List.find P xs = None \<longleftrightarrow> X \<inter> pts (map f xs) = {}"
  unfolding find_None_iff' pts_map_UN using assms by blast

definition meeting_fits :: "past_meeting_input \<Rightarrow> bool" where
  "meeting_fits i \<longleftrightarrow>
     pm_end i \<le> pm_now i \<and>
     (\<exists>s \<in> set (pm_sessions i). ts_startedAt s \<le> pm_start i \<and> pm_end i \<le> coalesce (ts_endedAt s) (pm_now i)) \<and>
     {pm_start i ..< pm_end i} \<inter> pts (map (\<lambda>b. span (ts_startedAt (snd b)) (ts_endedAt (snd b)) (pm_now i)) (pm_breaks i)) = {} \<and>
     {pm_start i ..< pm_end i} \<inter> pts (map (\<lambda>m. span (ts_startedAt m) (ts_endedAt m) (pm_now i)) (pm_meetings i)) = {}"

lemma overlaps_pts:
  assumes "a < b" "s < coalesce e now"
  shows "overlaps (span a (Some b) now) (span s e now) \<longleftrightarrow> {a ..< b} \<inter> pts [span s e now] \<noteq> {}"
  using assms overlaps_iff [of "span a (Some b) now" "span s e now"]
  by (simp add: span_def)

lemma adjustedSecOf_live:
  "adjustedSecOf list = sum_list (map ad_deltaSec (filter (\<lambda>a. ad_voidedAt a = None) list))"
proof -
  have "foldl (\<lambda>sum a. if ad_voidedAt a \<noteq> None then sum else sum + ad_deltaSec a) acc list
      = acc + sum_list (map ad_deltaSec (filter (\<lambda>a. ad_voidedAt a = None) list))" for acc
    by (induction list arbitrary: acc) auto
  then show ?thesis by (simp add: adjustedSecOf_def)
qed

abbreviation key_of_participant :: "participant \<Rightarrow> string" where
  "key_of_participant p \<equiv> participant_key (pt_id p) (pt_name p)"

lemma clean_participants_Cons:
  obtains pid pname where "length pname \<le> 80" "\<And>i. pid = Some i \<Longrightarrow> i \<in> ids"
    "clean_participants_loop (p # ps) ids seen =
     (if pname = [] then clean_participants_loop ps ids seen
      else if participant_key pid pname \<in> set seen then clean_participants_loop ps ids seen
      else \<lparr>pt_id = pid, pt_name = pname\<rparr> # clean_participants_loop ps ids (participant_key pid pname # seen))"
proof -
  define pname pid where "pname = take 80 (cleanText (Some (pt_name p)))"
    and "pid = (case pt_id p of Some i \<Rightarrow> if i \<noteq> [] \<and> i \<in> ids then Some i else None | None \<Rightarrow> None)"
  have n: "length pname \<le> 80" by (simp add: pname_def)
  have i: "i \<in> ids" if "pid = Some i" for i
    using that by (simp add: pid_def split: option.splits if_splits)
  have eq: "clean_participants_loop (p # ps) ids seen =
     (if pname = [] then clean_participants_loop ps ids seen
      else if participant_key pid pname \<in> set seen then clean_participants_loop ps ids seen
      else \<lparr>pt_id = pid, pt_name = pname\<rparr> # clean_participants_loop ps ids (participant_key pid pname # seen))"
    by (simp only: clean_participants_loop.simps Let_def pname_def pid_def)
  show thesis by (rule that [OF n i eq])
qed

lemma clean_participants_keys:
  "distinct (map key_of_participant (clean_participants_loop ps ids seen))
   \<and> key_of_participant ` set (clean_participants_loop ps ids seen) \<inter> set seen = {}"
proof (induction ps arbitrary: seen)
  case (Cons p ps)
  obtain pid pname where "clean_participants_loop (p # ps) ids seen =
     (if pname = [] then clean_participants_loop ps ids seen
      else if participant_key pid pname \<in> set seen then clean_participants_loop ps ids seen
      else \<lparr>pt_id = pid, pt_name = pname\<rparr> # clean_participants_loop ps ids (participant_key pid pname # seen))"
    by (rule clean_participants_Cons)
  then show ?case using Cons [of seen] Cons [of "participant_key pid pname # seen"] by auto
qed simp

lemma clean_participants_elems:
  "p \<in> set (clean_participants_loop ps ids seen) \<Longrightarrow>
     pt_name p \<noteq> [] \<and> length (pt_name p) \<le> 80 \<and> (\<forall>i. pt_id p = Some i \<longrightarrow> i \<in> ids)"
proof (induction ps arbitrary: seen)
  case (Cons q ps)
  obtain pid pname where "length pname \<le> 80" "\<And>i. pid = Some i \<Longrightarrow> i \<in> ids"
    "clean_participants_loop (q # ps) ids seen =
     (if pname = [] then clean_participants_loop ps ids seen
      else if participant_key pid pname \<in> set seen then clean_participants_loop ps ids seen
      else \<lparr>pt_id = pid, pt_name = pname\<rparr> # clean_participants_loop ps ids (participant_key pid pname # seen))"
    by (rule clean_participants_Cons [where p = q and ps = ps and ids = ids and seen = seen]) blast
  then show ?case using Cons.IH Cons.prems by (auto split: if_splits)
qed simp

section \<open>Properties\<close>

text \<open>Auto-skip is exact and happens once. The breaks planned are precisely those with no
  record, owed by a session that covers their start, whose window has closed (or is open while the
  day is being ended); none is dated after now; and once the planned breaks are recorded, planning
  again (at any later run with the same inputs) gives nothing.\<close>

theorem auto_skip_exact_and_once:
  "map sp_kind (planAutoSkips slots recorded sessions now endingDay)
     = map os_kind (filter (due_now recorded sessions now endingDay) slots)
   \<and> sp_startedAt ` set (planAutoSkips slots recorded sessions now endingDay) \<subseteq> {.. now}
   \<and> planAutoSkips slots (recorded \<union> sp_kind ` set (planAutoSkips slots recorded sessions now endingDay))
       sessions now endingDay = []"
  using planAutoSkips_times planAutoSkips_kinds planAutoSkips_again [OF Un_upper1 Un_upper2] by blast

text \<open>A session left open is closed inside itself. With a non-negative grace, the session is
  not stale when it starts, and the end written for it lies between its start and its latest end,
  so auto-close never gives a negative session or time past the latest end.\<close>

theorem auto_close_inside_session:
  assumes "0 \<le> graceMin"
  shows "\<not> isStale (latestEndOf startedAt shiftEnd graceMin) startedAt
    \<and> startedAt \<le> autoCloseAt startedAt (latestEndOf startedAt shiftEnd graceMin) lastInput
    \<and> autoCloseAt startedAt (latestEndOf startedAt shiftEnd graceMin) lastInput
        \<le> latestEndOf startedAt shiftEnd graceMin"
  using latestEnd_after_start [OF assms] autoCloseAt_bounds by (auto simp: isStale_def not_less)

theorem auto_close_inside_session_witness:
  "autoCloseAt 0 (latestEndOf 0 (Some (- 1000)) 30) (Some 9000000) \<le> 1800000"
proof -
  have "latestEndOf 0 (Some (- 1000)) 30 = 1800000" by (simp add: latestEndOf_def)
  then show ?thesis using auto_close_inside_session [of 30 0 "Some (- 1000)" "Some 9000000"] by simp
qed

text \<open>An earlier meeting is accepted exactly when it fits. For a meeting and breaks and meetings
  of positive length, \<open>checkPastMeeting\<close> answers null if and only if the meeting ended by now, lies
  inside one session, and shares no instant with any break or other meeting.\<close>

theorem past_meeting_accepted_iff_fits:
  assumes "pm_start i < pm_end i"
    and "\<And>b. b \<in> set (pm_breaks i) \<Longrightarrow> ts_startedAt (snd b) < coalesce (ts_endedAt (snd b)) (pm_now i)"
    and "\<And>m. m \<in> set (pm_meetings i) \<Longrightarrow> ts_startedAt m < coalesce (ts_endedAt m) (pm_now i)"
  shows "checkPastMeeting i = None \<longleftrightarrow> meeting_fits i"
proof -
  let ?me = "span (pm_start i) (Some (pm_end i)) (pm_now i)" and ?X = "{pm_start i ..< pm_end i}"
  let ?sp = "\<lambda>s. span (ts_startedAt s) (ts_endedAt s) (pm_now i)"
  have b: "overlaps ?me (?sp (snd b)) \<longleftrightarrow> ?X \<inter> pts [?sp (snd b)] \<noteq> {}" if "b \<in> set (pm_breaks i)" for b
    using overlaps_pts [OF assms(1) assms(2) [OF that]] .
  have m: "overlaps ?me (?sp m) \<longleftrightarrow> ?X \<inter> pts [?sp m] \<noteq> {}" if "m \<in> set (pm_meetings i)" for m
    using overlaps_pts [OF assms(1) assms(3) [OF that]] .
  have "List.find (\<lambda>b. overlaps ?me (?sp (snd b))) (pm_breaks i) = None
      \<longleftrightarrow> ?X \<inter> pts (map (\<lambda>b. ?sp (snd b)) (pm_breaks i)) = {}"
    by (rule find_disjoint) (rule b)
  moreover have "List.find (\<lambda>s. overlaps ?me (?sp s)) (pm_meetings i) = None
      \<longleftrightarrow> ?X \<inter> pts (map ?sp (pm_meetings i)) = {}"
    by (rule find_disjoint) (rule m)
  ultimately show ?thesis
    by (auto simp: checkPastMeeting_def meeting_fits_def Let_def not_less split: option.splits)
qed

theorem past_meeting_accepted_iff_fits_witness:
  "checkPastMeeting \<lparr>pm_start = 100, pm_end = 200, pm_now = 1000,
     pm_sessions = [\<lparr>ts_startedAt = 0, ts_endedAt = None\<rparr>],
     pm_breaks = [(WithLunch, \<lparr>ts_startedAt = 200, ts_endedAt = Some 300\<rparr>)], pm_meetings = []\<rparr> = None"
  by (subst past_meeting_accepted_iff_fits) (simp_all add: meeting_fits_def span_def)

end
