(* ===== verification/Work_Sessions.thy ===== *)
theory Work_Sessions
  imports Break_Guarantees Worktime_Rules
begin

text \<open>
  The working day: \<open>src/src/modules/worktime/infrastructure/prisma-work-session.repository.ts\<close>
  (Start Day, End Day, the open-day check, the implicit session of an older agent, the missed End Day),
  the row types of \<open>domain/work-session.repository.ts\<close> and the service
  \<open>application/work-sessions.service.ts\<close> over them. The tables are those of \<open>Break_Store\<close>
  with the work sessions added; which people have one open is computed from these
  (\<open>shared_tables\<close>). The person's working day of an instant (\<open>dayOf\<close>), the shift end of a
  session and the last input in a window are parameters. Events and log lines are left out.
\<close>

section \<open>Tables\<close>

datatype end_reason = EndedByUser | AutoClosed

datatype work_source = FromAgent | FromLegacy | FromBackfill | FromReplay

record work_session =
  wk_id :: uid
  wk_userId :: uid
  wk_date :: string
  wk_startedAt :: int
  wk_endedAt :: "int option"
  wk_endReason :: "end_reason option"
  wk_source :: work_source

record work_db =
  wd_sessions :: "work_session list"
  wd_nextId :: uid
  wd_tables :: break_db

definition is_open :: "work_session \<Rightarrow> bool" where
  "is_open s = (wk_endedAt s = None)"

text \<open>The tables as the break operations see them.\<close>

definition shared_tables :: "work_db \<Rightarrow> break_db" where
  "shared_tables w = (wd_tables w)\<lparr>db_openWork := wk_userId ` {s \<in> set (wd_sessions w). is_open s}\<rparr>"

definition findOpen :: "work_db \<Rightarrow> uid \<Rightarrow> work_session option" where
  "findOpen w u = List.find (\<lambda>s. wk_userId s = u \<and> is_open s) (wd_sessions w)"

definition by_end_desc :: "work_session \<Rightarrow> work_session \<Rightarrow> int" where
  "by_end_desc a b = coalesce (wk_endedAt b) 0 - coalesce (wk_endedAt a) 0"

definition by_session_start :: "work_session \<Rightarrow> work_session \<Rightarrow> int" where
  "by_session_start a b = wk_startedAt a - wk_startedAt b"

definition first_of :: "'a list \<Rightarrow> 'a option" where
  "first_of xs = (case xs of [] \<Rightarrow> None | x # _ \<Rightarrow> Some x)"

definition latest_ended :: "(work_session \<Rightarrow> bool) \<Rightarrow> work_db \<Rightarrow> work_session option" where
  "latest_ended P w = first_of (js_sort by_end_desc (filter (\<lambda>s. P s \<and> \<not> is_open s) (wd_sessions w)))"

definition findLastEnded :: "work_db \<Rightarrow> uid \<Rightarrow> work_session option" where
  "findLastEnded w u = latest_ended (\<lambda>s. wk_userId s = u) w"

definition listOpen :: "work_db \<Rightarrow> work_session list" where
  "listOpen w = js_sort by_session_start (filter is_open (wd_sessions w))"

definition sessions_on :: "work_db \<Rightarrow> uid \<Rightarrow> string \<Rightarrow> work_session list" where
  "sessions_on w u date =
     js_sort by_session_start (filter (\<lambda>s. wk_userId s = u \<and> wk_date s = date) (wd_sessions w))"

definition listOverlapping :: "work_db \<Rightarrow> uid list \<Rightarrow> int \<Rightarrow> int \<Rightarrow> work_session list" where
  "listOverlapping w us t0 t1 =
     filter (\<lambda>s. wk_userId s \<in> set us \<and> wk_startedAt s \<le> t1
        \<and> (case wk_endedAt s of None \<Rightarrow> True | Some e \<Rightarrow> t0 \<le> e)) (wd_sessions w)"

definition dayEndedAt :: "work_db \<Rightarrow> uid \<Rightarrow> string \<Rightarrow> int option" where
  "dayEndedAt w u date = (case db_dayEnds (wd_tables w) (u, date) of Some (Some t) \<Rightarrow> Some t | _ \<Rightarrow> None)"

definition lastStartedAtOrBefore :: "work_db \<Rightarrow> uid \<Rightarrow> int \<Rightarrow> work_session option" where
  "lastStartedAtOrBefore w u at =
     first_of (js_sort (\<lambda>a b. wk_startedAt b - wk_startedAt a)
       (filter (\<lambda>s. wk_userId s = u \<and> wk_startedAt s \<le> at) (wd_sessions w)))"

section \<open>Statements\<close>

definition closeOpenPresence :: "uid \<Rightarrow> int \<Rightarrow> break_db \<Rightarrow> break_db" where
  "closeOpenPresence u at db =
     db\<lparr>db_presence := map (\<lambda>s. if ss_userId s = u \<and> ss_endedAt s = None
          then closed_at (if at < ss_startedAt s then ss_startedAt s else at) s else s) (db_presence db)\<rparr>"

definition markDayEnded :: "uid \<Rightarrow> string \<Rightarrow> int \<Rightarrow> break_db \<Rightarrow> bool \<times> break_db" where
  "markDayEnded u date at db =
     (case db_dayEnds db (u, date) of
        Some (Some _) \<Rightarrow> (False, db)
      | _ \<Rightarrow> (True, db\<lparr>db_dayEnds := (db_dayEnds db)((u, date) := Some (Some at))\<rparr>))"

definition clear_day_end :: "uid \<Rightarrow> string \<Rightarrow> break_db \<Rightarrow> break_db" where
  "clear_day_end u date db =
     (case db_dayEnds db (u, date) of
        Some (Some _) \<Rightarrow> db\<lparr>db_dayEnds := (db_dayEnds db)((u, date) := Some None)\<rparr>
      | _ \<Rightarrow> db)"

definition update_session :: "uid \<Rightarrow> (work_session \<Rightarrow> work_session) \<Rightarrow> work_db \<Rightarrow> work_db" where
  "update_session i f w = w\<lparr>wd_sessions := map (\<lambda>s. if wk_id s = i then f s else s) (wd_sessions w)\<rparr>"

definition on_tables :: "(break_db \<Rightarrow> break_db) \<Rightarrow> work_db \<Rightarrow> work_db" where
  "on_tables f w = w\<lparr>wd_tables := f (wd_tables w)\<rparr>"

text \<open>Where a new session starts: not before the end of the last one, and not after now.\<close>

definition session_start :: "work_db \<Rightarrow> uid \<Rightarrow> int \<Rightarrow> int \<Rightarrow> int" where
  "session_start w u startedAt now =
     (let start = (case latest_ended (\<lambda>s. wk_userId s = u) w of
                     None \<Rightarrow> startedAt
                   | Some l \<Rightarrow> (case wk_endedAt l of
                                  None \<Rightarrow> startedAt
                                | Some e \<Rightarrow> if e > startedAt then e else startedAt))
      in if start > now then now else start)"

definition createSessionTx ::
  "uid \<Rightarrow> int \<Rightarrow> int \<Rightarrow> work_source \<Rightarrow> (int \<Rightarrow> string) \<Rightarrow> work_db \<Rightarrow> work_session \<times> work_db" where
  "createSessionTx u startedAt now src dayOf w =
     (let at = session_start w u startedAt now;
          s = \<lparr>wk_id = wd_nextId w, wk_userId = u, wk_date = dayOf at, wk_startedAt = at,
               wk_endedAt = None, wk_endReason = None, wk_source = src\<rparr>
      in (s, w\<lparr>wd_sessions := wd_sessions w @ [s],
               wd_nextId := Suc (wd_nextId w)\<rparr>))"

section \<open>Start Day, End Day, the open-day check\<close>

datatype day_closed = DayNotStarted | DayAlreadyEnded

datatype ensure_result = DayIsOpen work_session bool | DayIsClosed day_closed

definition ensureOpenTx :: "uid \<Rightarrow> agent_generation \<Rightarrow> int \<Rightarrow> string \<Rightarrow> work_db \<Rightarrow> ensure_result \<times> work_db" where
  "ensureOpenTx u generation now today w =
     (case findOpen w u of
        Some s \<Rightarrow> (DayIsOpen s False, w)
      | None \<Rightarrow>
          if generation = LEGACY then
            (if dayEndedAt w u today \<noteq> None then (DayIsClosed DayAlreadyEnded, w)
             else (case createSessionTx u now now FromLegacy (\<lambda>_. today) w of
                     (s, w') \<Rightarrow> (DayIsOpen s True, w')))
          else (DayIsClosed (if sessions_on w u today \<noteq> [] then DayAlreadyEnded else DayNotStarted), w))"

record start_day_result =
  sd_opened :: bool
  sd_resumed :: bool
  sd_session :: work_session

definition startDay ::
  "uid \<Rightarrow> int \<Rightarrow> int \<Rightarrow> work_source \<Rightarrow> (int \<Rightarrow> string) \<Rightarrow> zone \<Rightarrow> work_db \<Rightarrow> start_day_result \<times> work_db" where
  "startDay u startedAt now src dayOf tz w =
     (case findOpen w u of
        Some s \<Rightarrow> (\<lparr>sd_opened = False, sd_resumed = False, sd_session = s\<rparr>, w)
      | None \<Rightarrow>
          (let (s, w1) = createSessionTx u startedAt now src dayOf w;
               earlier = length (filter (\<lambda>x. wk_userId x = u \<and> wk_date x = wk_date s \<and> wk_id x \<noteq> wk_id s) (wd_sessions w1));
               w2 = on_tables (clear_day_end u (dateKeyInZone now tz)) (on_tables (clear_day_end u (wk_date s)) w1)
           in (\<lparr>sd_opened = True, sd_resumed = earlier > 0, sd_session = s\<rparr>, w2)))"

datatype end_day_result =
    DayClosed work_session string int bool
  | AlreadyEnded string int
  | DayMarked string int bool
  | NotStarted string

fun mark_days :: "uid \<Rightarrow> string list \<Rightarrow> int \<Rightarrow> break_db \<Rightarrow> break_db" where
  "mark_days u [] at db = db"
| "mark_days u (d # ds) at db = mark_days u ds at (snd (markDayEnded u d at db))"

definition close_by :: "end_reason \<Rightarrow> int \<Rightarrow> work_session \<Rightarrow> work_session" where
  "close_by reason at s = s\<lparr>wk_endedAt := Some at, wk_endReason := Some reason\<rparr>"

definition endDay :: "uid \<Rightarrow> int \<Rightarrow> string \<Rightarrow> bool \<Rightarrow> int \<Rightarrow> zone \<Rightarrow> work_db \<Rightarrow> end_day_result \<times> work_db" where
  "endDay u now today legacy endedSince tz w =
     (let calendar = dateKeyInZone now tz in
      case findOpen w u of
        Some s \<Rightarrow>
          (let at = (if now < wk_startedAt s then wk_startedAt s else now);
               w1 = update_session (wk_id s) (close_by EndedByUser at) w;
               w2 = on_tables (closeOpenPresence u at) w1;
               (newlyEnded, db) = markDayEnded u (wk_date s) at (wd_tables w2);
               days = filter (\<lambda>d. d \<noteq> wk_date s) (remdups [today, calendar])
           in (DayClosed (close_by EndedByUser at s) (wk_date s) at newlyEnded,
               w2\<lparr>wd_tables := mark_days u days at db\<rparr>))
      | None \<Rightarrow>
          (case dayEndedAt w u today of
             Some t \<Rightarrow> (AlreadyEnded today t, w)
           | None \<Rightarrow>
               (case latest_ended (\<lambda>s. wk_userId s = u \<and> wk_date s = today) w of
                  Some l \<Rightarrow>
                    (let t = coalesce (wk_endedAt l) 0
                     in (AlreadyEnded today t, on_tables (\<lambda>db. snd (markDayEnded u today t db)) w))
                | None \<Rightarrow>
                    if legacy then
                      (let w1 = on_tables (closeOpenPresence u now) w;
                           (newlyEnded, db) = markDayEnded u today now (wd_tables w1);
                           db' = (if calendar \<noteq> today then snd (markDayEnded u calendar now db) else db)
                       in (DayMarked today now newlyEnded, w1\<lparr>wd_tables := db'\<rparr>))
                    else
                      (case latest_ended (\<lambda>s. wk_userId s = u \<and> (case wk_endedAt s of None \<Rightarrow> False | Some e \<Rightarrow> endedSince \<le> e)) w of
                         Some r \<Rightarrow> (AlreadyEnded (wk_date r) (coalesce (wk_endedAt r) 0), w)
                       | None \<Rightarrow> (NotStarted today, w)))))"

definition openImplicit :: "uid \<Rightarrow> int \<Rightarrow> string \<Rightarrow> clock_frame \<Rightarrow> work_db \<Rightarrow> work_session option \<times> work_db" where
  "openImplicit u at today clk w =
     (if findOpen w u \<noteq> None then (None, w)
      else if dayEndedAt w u today \<noteq> None then (None, w)
      else (case createSessionTx u at (cf_wall clk) FromLegacy (\<lambda>_. today) w of (s, w') \<Rightarrow> (Some s, w')))"

section \<open>The missed End Day\<close>

record auto_close_result =
  ac_closed :: bool
  ac_newlyEnded :: bool
  ac_droppedSkips :: nat
  ac_reclosed :: bool

definition never_owed :: "work_session \<Rightarrow> int \<Rightarrow> break_row \<Rightarrow> bool" where
  "never_owed session at b =
     (br_userId b = wk_userId session \<and> br_date b = wk_date session \<and> nb_outcome (br_data b) = AutoSkipped
      \<and> (case nb_scheduledStart (br_data b) of None \<Rightarrow> False | Some t \<Rightarrow> at < t)
      \<and> br_approvalStatus b \<noteq> Approved \<and> br_approvalStatus b \<noteq> Rejected)"

definition autoClose :: "work_session \<Rightarrow> int \<Rightarrow> work_db \<Rightarrow> auto_close_result \<times> work_db" where
  "autoClose session closeAt w =
     (case List.find (\<lambda>s. wk_id s = wk_id session \<and> is_open s) (wd_sessions w) of
        None \<Rightarrow> (\<lparr>ac_closed = False, ac_newlyEnded = False, ac_droppedSkips = 0, ac_reclosed = False\<rparr>, w)
      | Some before \<Rightarrow>
          (let at = (if closeAt < wk_startedAt before then wk_startedAt before else closeAt);
               w1 = update_session (wk_id session) (close_by AutoClosed at) w;
               db1 = closeOpenPresence (wk_userId session) at (wd_tables w1);
               dropped = length (filter (never_owed session at) (db_breaks db1));
               db2 = db1\<lparr>db_breaks := filter (\<lambda>b. \<not> never_owed session at b) (db_breaks db1)\<rparr>;
               (newlyEnded, db3) = markDayEnded (wk_userId session) (wk_date session) at db2
           in (\<lparr>ac_closed = True, ac_newlyEnded = newlyEnded, ac_droppedSkips = dropped,
                ac_reclosed = (wk_endReason before = Some AutoClosed)\<rparr>, w1\<lparr>wd_tables := db3\<rparr>)))"

definition extendAutoClosed_tx :: "work_session \<Rightarrow> int \<Rightarrow> work_db \<Rightarrow> bool \<times> work_db" where
  "extendAutoClosed_tx session to w =
     (case wk_endedAt session of
        None \<Rightarrow> (False, w)
      | Some e \<Rightarrow>
          if \<exists>s \<in> set (wd_sessions w). wk_id s = wk_id session \<and> wk_endReason s = Some AutoClosed \<and> wk_endedAt s = Some e
          then (True, on_tables (\<lambda>db. if db_dayEnds db (wk_userId session, wk_date session) = Some (Some e)
                   then db\<lparr>db_dayEnds := (db_dayEnds db)((wk_userId session, wk_date session) := Some (Some to))\<rparr> else db)
                 (update_session (wk_id session)
                    (\<lambda>s. if wk_endReason s = Some AutoClosed \<and> wk_endedAt s = Some e
                         then s\<lparr>wk_endedAt := Some to, wk_source := FromReplay\<rparr> else s) w))
          else (False, w))"

section \<open>The service\<close>

definition LAST_ENDED_WITHIN_MS :: int where
  "LAST_ENDED_WITHIN_MS = 12 * 3600000"

definition workedAt :: "work_db \<Rightarrow> uid \<Rightarrow> int \<Rightarrow> bool" where
  "workedAt w u at =
     (\<exists>s \<in> set (listOverlapping w [u] at at). wk_startedAt s \<le> at
        \<and> (case wk_endedAt s of None \<Rightarrow> True | Some e \<Rightarrow> e > at))"

text \<open>\<open>latestEndFor\<close>: \<open>shiftEnd\<close> is the end of the person's shift on the session's date when it is
  their workday; \<open>grace\<close> is the organisation's \<open>autoCloseAfterShiftEndMin\<close>.\<close>

definition latestEndFor :: "(work_session \<Rightarrow> int option) \<Rightarrow> (uid \<Rightarrow> int) \<Rightarrow> work_session \<Rightarrow> int" where
  "latestEndFor shiftEnd grace s = latestEndOf (wk_startedAt s) (shiftEnd s) (grace (wk_userId s))"

definition extendAutoClosed :: "(work_session \<Rightarrow> int) \<Rightarrow> uid \<Rightarrow> int \<Rightarrow> work_db \<Rightarrow> bool \<times> work_db" where
  "extendAutoClosed latestEnd u at w =
     (case lastStartedAtOrBefore w u at of
        None \<Rightarrow> (False, w)
      | Some s \<Rightarrow>
          (case wk_endedAt s of
             None \<Rightarrow> (False, w)
           | Some e \<Rightarrow>
               if wk_endReason s \<noteq> Some AutoClosed then (False, w)
               else if at < e then (False, w)
               else if at > latestEnd s then (False, w)
               else if at = e then (True, w)
               else extendAutoClosed_tx s at w))"

text \<open>The loop over the stale sessions; the announcements are left out.\<close>

fun close_stale ::
  "(work_session \<Rightarrow> int) \<Rightarrow> (work_session \<Rightarrow> int option) \<Rightarrow> int \<Rightarrow> work_session list \<Rightarrow> work_db \<Rightarrow> nat \<times> work_db" where
  "close_stale latestEnd lastInput now [] w = (0, w)"
| "close_stale latestEnd lastInput now (s # ss) w =
     (if isStale (latestEnd s) now then
        (let (r, w1) = autoClose s (autoCloseAt (wk_startedAt s) (latestEnd s) (lastInput s)) w;
             (n, w2) = close_stale latestEnd lastInput now ss w1
         in ((if ac_closed r then 1 else 0) + n, w2))
      else close_stale latestEnd lastInput now ss w)"

definition autoCloseAll ::
  "(work_session \<Rightarrow> int) \<Rightarrow> (work_session \<Rightarrow> int option) \<Rightarrow> int \<Rightarrow> work_db \<Rightarrow> nat \<times> work_db" where
  "autoCloseAll latestEnd lastInput now w = close_stale latestEnd lastInput now (listOpen w) w"

text \<open>Without its cache, which only spares a computation of \<open>latestEnd\<close>.\<close>

definition autoCloseIfStale ::
  "(work_session \<Rightarrow> int) \<Rightarrow> (work_session \<Rightarrow> int option) \<Rightarrow> uid \<Rightarrow> int \<Rightarrow> work_db \<Rightarrow> bool \<times> work_db" where
  "autoCloseIfStale latestEnd lastInput u now w =
     (case findOpen w u of
        None \<Rightarrow> (False, w)
      | Some s \<Rightarrow> (case close_stale latestEnd lastInput now [s] w of (n, w') \<Rightarrow> (n > 0, w')))"

definition service_startDay ::
  "(work_session \<Rightarrow> int) \<Rightarrow> (work_session \<Rightarrow> int option) \<Rightarrow> (int \<Rightarrow> string) \<Rightarrow> zone \<Rightarrow> uid \<Rightarrow> int \<Rightarrow> agent_generation
   \<Rightarrow> int \<Rightarrow> clock_frame \<Rightarrow> work_db \<Rightarrow> start_day_result \<times> work_db" where
  "service_startDay latestEnd lastInput dayOf tz u startedAt generation now clk w =
     (let w1 = snd (autoCloseIfStale latestEnd lastInput u now w);
          src = (if isReplay clk then FromReplay else if generation = AGENT_31 then FromAgent else FromLegacy)
      in startDay u startedAt now src dayOf tz w1)"

definition service_endDay ::
  "(int \<Rightarrow> string) \<Rightarrow> zone \<Rightarrow> uid \<Rightarrow> agent_generation \<Rightarrow> int \<Rightarrow> clock_frame \<Rightarrow> work_db \<Rightarrow> end_day_result \<times> work_db" where
  "service_endDay dayOf tz u generation now clk w =
     (let w1 = w\<lparr>wd_tables := snd (endPaused u clk (wd_tables w))\<rparr>
      in endDay u now (dayOf now) (generation = LEGACY) (now - LAST_ENDED_WITHIN_MS) tz w1)"

definition dayClosedError :: "day_closed \<Rightarrow> app_exception" where
  "dayClosedError code = (if code = DayNotStarted then ConflictError ''DAY_NOT_STARTED'' else ConflictError ''DAY_ENDED'')"

definition service_ensureOpen ::
  "(work_session \<Rightarrow> int) \<Rightarrow> (work_session \<Rightarrow> int option) \<Rightarrow> (int \<Rightarrow> string) \<Rightarrow> uid \<Rightarrow> agent_generation \<Rightarrow> int \<Rightarrow> work_db
   \<Rightarrow> work_session result \<times> work_db" where
  "service_ensureOpen latestEnd lastInput dayOf u generation now w =
     (let w1 = snd (autoCloseIfStale latestEnd lastInput u now w) in
      case ensureOpenTx u generation now (dayOf now) w1 of
        (DayIsOpen s _, w2) \<Rightarrow> (return s, w2)
      | (DayIsClosed code, w2) \<Rightarrow> (throw (dayClosedError code), w2))"

definition openImplicitForSample ::
  "(int \<Rightarrow> string) \<Rightarrow> zone \<Rightarrow> (uid \<Rightarrow> string list \<Rightarrow> int list) \<Rightarrow> uid \<Rightarrow> int \<Rightarrow> int \<Rightarrow> clock_frame \<Rightarrow> work_db
   \<Rightarrow> work_session option \<times> work_db" where
  "openImplicitForSample dayOf tz loginTimes u at now clk w =
     (let today = dayOf now in
      if dayOf at \<noteq> today then (None, w)
      else
        (let logins = js_sort (\<lambda>a b. a - b)
               (filter (\<lambda>t. t \<le> now \<and> dayOf t = today) (loginTimes u [today, dateKeyInZone now tz]));
             start = coalesce (first_of logins) (max at (now - START_DAY_BACKDATE_MS))
         in openImplicit u start today clk w))"

end
