(* ===== verification/People.thy ===== *)
theory People
  imports Work_Sessions "HOL-Library.AList"
begin

text \<open>
  Who a caller may see in Team, Overview, hourly activity and reports: the batch reads of
  \<open>src/src/modules/worktime/infrastructure/prisma-worktime.reader.ts\<close> (people, departments,
  sessions by day, activity by hour, the activity coverage of a session) and the scope of
  \<open>application/people-scope.service.ts\<close>.

  The tables the reader asks are a record. A query's \<open>where\<close>, \<open>orderBy\<close>, \<open>distinct\<close> and \<open>GROUP BY\<close> are
  written out; text is ordered by code point. Ids that are not UUIDs (which the reader leaves out) do
  not occur in the model, whose ids are numbers. Instants are milliseconds.
\<close>

section \<open>Rows\<close>

record user_entry =
  ue_facts :: person_facts
  ue_firstName :: string
  ue_lastName :: string
  ue_email :: string
  ue_department :: "string option"
  ue_designation :: "string option"
  ue_managerId :: "uid option"
  ue_statusActive :: bool
  ue_deletedAt :: "int option"
  ue_createdAt :: int

text \<open>\<open>PersonRow\<close>\<close>

record team_person = person_facts +
  tp_firstName :: string
  tp_lastName :: string
  tp_email :: string
  tp_department :: "string option"
  tp_designation :: "string option"
  tp_managerId :: "uid option"
  tp_managerName :: "string option"
  tp_active :: bool
  tp_joinedOn :: string

record department_entry =
  de_id :: uid
  de_companyId :: uid
  de_name :: string
  de_icon :: string
  de_deleted :: bool

record company_entry =
  ce_id :: uid
  ce_name :: string
  ce_deleted :: bool

record activity_sample =
  sa_userId :: uid
  sa_at :: int
  sa_durationSec :: int
  sa_idle :: bool
  sa_locked :: bool
  sa_app :: "string option"

record session_entry = work_session +
  se_updatedAt :: int

record reader_db =
  rd_users :: "user_entry list"
  rd_sessions :: "session_entry list"
  rd_departments :: "department_entry list"
  rd_managed :: "(uid \<times> uid) list"
  rd_companies :: "company_entry list"
  rd_samples :: "activity_sample list"

definition user_of :: "reader_db \<Rightarrow> uid \<Rightarrow> user_entry option" where
  "user_of db i = List.find (\<lambda>u. pf_id (ue_facts u) = i) (rd_users db)"

definition full_name :: "string \<Rightarrow> string \<Rightarrow> string" where
  "full_name first second = trim (first @ '' '' @ second)"

definition personFromPrisma :: "reader_db \<Rightarrow> zone \<Rightarrow> user_entry \<Rightarrow> team_person" where
  "personFromPrisma db tz r =
     \<lparr>pf_id = pf_id (ue_facts r), pf_role = pf_role (ue_facts r), pf_companyId = pf_companyId (ue_facts r),
      pf_departmentId = pf_departmentId (ue_facts r),
      tp_firstName = ue_firstName r, tp_lastName = ue_lastName r, tp_email = ue_email r,
      tp_department = ue_department r, tp_designation = ue_designation r, tp_managerId = ue_managerId r,
      tp_managerName =
        (case ue_managerId r of
           None \<Rightarrow> None
         | Some m \<Rightarrow> map_option (\<lambda>u. full_name (ue_firstName u) (ue_lastName u)) (user_of db m)),
      tp_active = (ue_statusActive r \<and> ue_deletedAt r = None),
      tp_joinedOn = dateKeyInZone (ue_createdAt r) tz\<rparr>"

section \<open>People and departments\<close>

record people_filter =
  fl_managerId :: "uid option"
  fl_ids :: "uid list option"
  fl_companyId :: "uid option"
  fl_departmentIds :: "uid list option"
  fl_roles :: "role list option"
  fl_excludeRoles :: "role list option"

definition no_filter :: people_filter where
  "no_filter = \<lparr>fl_managerId = None, fl_ids = None, fl_companyId = None, fl_departmentIds = None,
     fl_roles = None, fl_excludeRoles = None\<rparr>"

definition in_filter :: "people_filter \<Rightarrow> user_entry \<Rightarrow> bool" where
  "in_filter f u =
     (let p = ue_facts u in
      (case fl_managerId f of None \<Rightarrow> True | Some m \<Rightarrow> ue_managerId u = Some m)
      \<and> (case fl_ids f of None \<Rightarrow> True | Some ids \<Rightarrow> pf_id p \<in> set ids)
      \<and> (case fl_companyId f of None \<Rightarrow> True | Some c \<Rightarrow> pf_companyId p = Some c)
      \<and> (case fl_departmentIds f of None \<Rightarrow> True
         | Some ds \<Rightarrow> (case pf_departmentId p of None \<Rightarrow> False | Some d \<Rightarrow> d \<in> set ds))
      \<and> (case fl_roles f of None \<Rightarrow> True | Some rs \<Rightarrow> pf_role p \<in> set rs)
      \<and> (case fl_excludeRoles f of None \<Rightarrow> True | Some rs \<Rightarrow> pf_role p \<notin> set rs))"

text \<open>\<open>orderBy: [{ firstName: 'asc' }, { lastName: 'asc' }, { id: 'asc' }]\<close>\<close>

definition by_name :: "user_entry \<Rightarrow> user_entry \<Rightarrow> int" where
  "by_name a b =
     (let ka = (ue_firstName a, ue_lastName a, pf_id (ue_facts a)); kb = (ue_firstName b, ue_lastName b, pf_id (ue_facts b))
      in if fst ka < fst kb \<or> fst ka = fst kb \<and> (fst (snd ka) < fst (snd kb)
            \<or> fst (snd ka) = fst (snd kb) \<and> snd (snd ka) \<le> snd (snd kb)) then 0 else 1)"

definition listPeople :: "reader_db \<Rightarrow> zone \<Rightarrow> people_filter \<Rightarrow> team_person list" where
  "listPeople db tz f = map (personFromPrisma db tz) (js_sort by_name (filter (in_filter f) (rd_users db)))"

text \<open>A word occurs in a name, whatever the letters' case (\<open>mode: 'insensitive'\<close>).\<close>

fun occurs_in :: "string \<Rightarrow> string \<Rightarrow> bool" where
  "occurs_in w [] = (w = [])"
| "occurs_in w (c # cs) = (take (length w) (c # cs) = w \<or> occurs_in w cs)"

definition named :: "string \<Rightarrow> user_entry \<Rightarrow> bool" where
  "named w u = (occurs_in (to_lower w) (to_lower (ue_firstName u)) \<or> occurs_in (to_lower w) (to_lower (ue_lastName u)))"

text \<open>\<open>q.split(/\s+/).filter(Boolean)\<close>: the runs of characters that are not blank.\<close>

fun words_of :: "string \<Rightarrow> string \<Rightarrow> string list" where
  "words_of w [] = (if w = [] then [] else [rev w])"
| "words_of w (c # cs) =
     (if is_space c then (if w = [] then [] else [rev w]) @ words_of [] cs else words_of (c # w) cs)"

definition active_entry :: "user_entry \<Rightarrow> bool" where
  "active_entry u = (ue_statusActive u \<and> ue_deletedAt u = None)"

definition searchParticipants :: "reader_db \<Rightarrow> uid option \<Rightarrow> string \<Rightarrow> uid \<Rightarrow> nat \<Rightarrow> user_entry list" where
  "searchParticipants db companyId q excludeId limit =
     (let wds = take 4 (words_of [] q)
      in take limit (js_sort by_name
           (filter (\<lambda>u. active_entry u \<and> pf_companyId (ue_facts u) = companyId \<and> pf_id (ue_facts u) \<noteq> excludeId
                        \<and> list_all (\<lambda>w. named w u) wds)
              (rd_users db))))"

definition knownPeopleIds :: "reader_db \<Rightarrow> uid option \<Rightarrow> uid list \<Rightarrow> uid list" where
  "knownPeopleIds db companyId ids =
     map (pf_id \<circ> ue_facts)
       (filter (\<lambda>u. pf_id (ue_facts u) \<in> set (js_unique ids) \<and> pf_companyId (ue_facts u) = companyId \<and> active_entry u)
          (rd_users db))"

definition orgAdminCount :: "reader_db \<Rightarrow> uid \<Rightarrow> nat" where
  "orgAdminCount db companyId =
     length (filter (\<lambda>u. pf_companyId (ue_facts u) = Some companyId \<and> active_entry u \<and> pf_role (ue_facts u) = ADMIN)
       (rd_users db))"

definition listCompanyIds :: "reader_db \<Rightarrow> uid list" where
  "listCompanyIds db = map ce_id (filter (\<lambda>c. \<not> ce_deleted c) (rd_companies db))"

definition companyName :: "reader_db \<Rightarrow> uid \<Rightarrow> string option" where
  "companyName db companyId = map_option ce_name (List.find (\<lambda>c. ce_id c = companyId) (rd_companies db))"

definition by_department_name :: "department_entry \<Rightarrow> department_entry \<Rightarrow> int" where
  "by_department_name a b = (if de_name a \<le> de_name b then 0 else 1)"

definition departmentsOf :: "reader_db \<Rightarrow> uid \<Rightarrow> department_entry list" where
  "departmentsOf db companyId =
     js_sort by_department_name (filter (\<lambda>d. de_companyId d = companyId \<and> \<not> de_deleted d) (rd_departments db))"

definition department_live :: "reader_db \<Rightarrow> uid \<Rightarrow> bool" where
  "department_live db i = list_ex (\<lambda>d. de_id d = i \<and> \<not> de_deleted d) (rd_departments db)"

fun collect_managed :: "(uid \<times> uid) list \<Rightarrow> (uid \<times> uid list) list \<Rightarrow> (uid \<times> uid list) list" where
  "collect_managed [] out = out"
| "collect_managed ((m, d) # rows) out =
     collect_managed rows (AList.update m (coalesce (map_of out m) [] @ [d]) out)"

definition managedDepartments :: "reader_db \<Rightarrow> uid list \<Rightarrow> (uid \<times> uid list) list" where
  "managedDepartments db managerIds =
     collect_managed (filter (\<lambda>(m, d). m \<in> set managerIds \<and> department_live db d) (rd_managed db)) []"

section \<open>Days with work\<close>

text \<open>None for anyone.\<close>

definition userIdsWithSessionsBetween :: "reader_db \<Rightarrow> uid list option \<Rightarrow> string \<Rightarrow> string \<Rightarrow> uid list" where
  "userIdsWithSessionsBetween db userIds fromDate toDate =
     (if userIds = Some [] then []
      else js_unique (map wk_userId
        (filter (\<lambda>w. fromDate \<le> wk_date w \<and> wk_date w \<le> toDate
                     \<and> (case userIds of None \<Rightarrow> True | Some ids \<Rightarrow> wk_userId w \<in> set ids))
          (rd_sessions db))))"

definition earliest :: "string list \<Rightarrow> string option" where
  "earliest ds = (if ds = [] then None else Some (Min (set ds)))"

definition earliestSessionDate :: "reader_db \<Rightarrow> string option" where
  "earliestSessionDate db = earliest (map wk_date (rd_sessions db))"

record session_day =
  sy_userId :: uid
  sy_date :: string
  sy_settled :: bool
  sy_closed :: bool
  sy_stamp :: "nat \<times> int"

text \<open>One group of the query. \<open>max(ended_at)\<close> leaves out the open sessions.\<close>

definition session_day_of :: "session_entry list \<Rightarrow> int \<Rightarrow> uid \<times> string \<Rightarrow> session_day" where
  "session_day_of rows settledBefore key =
     (let mine = filter (\<lambda>w. (wk_userId w, wk_date w) = key) rows;
          closed = list_all (\<lambda>w. wk_endedAt w \<noteq> None) mine;
          ends = concat (map (\<lambda>w. case wk_endedAt w of None \<Rightarrow> [] | Some e \<Rightarrow> [e]) mine)
      in \<lparr>sy_userId = fst key, sy_date = snd key,
          sy_settled = (closed \<and> ends \<noteq> [] \<and> Max (set ends) < settledBefore), sy_closed = closed,
          sy_stamp = (length mine, Max (set (map se_updatedAt mine)))\<rparr>)"

definition sessionDays :: "reader_db \<Rightarrow> uid list \<Rightarrow> string \<Rightarrow> string \<Rightarrow> int \<Rightarrow> session_day list" where
  "sessionDays db userIds fromDate toDate settledBefore =
     (let rows = filter (\<lambda>w. wk_userId w \<in> set userIds \<and> fromDate \<le> wk_date w \<and> wk_date w \<le> toDate) (rd_sessions db)
      in map (session_day_of rows settledBefore) (js_unique (map (\<lambda>w. (wk_userId w, wk_date w)) rows)))"

section \<open>Activity\<close>

definition MAX_GAP_SEC :: int where
  "MAX_GAP_SEC = 150"

definition LOCK_SCREEN_APP :: string where
  "LOCK_SCREEN_APP = ''LockApp.exe''"

definition capped_sec :: "activity_sample \<Rightarrow> int" where
  "capped_sec s = min (max (sa_durationSec s) 0) MAX_GAP_SEC"

definition active_sample :: "activity_sample \<Rightarrow> bool" where
  "active_sample s = (\<not> sa_idle s \<and> \<not> sa_locked s \<and> sa_app s \<noteq> Some LOCK_SCREEN_APP)"

definition before_end :: "int \<Rightarrow> int option \<Rightarrow> bool" where
  "before_end t e = (case e of None \<Rightarrow> True | Some x \<Rightarrow> t < x)"

definition hour_samples :: "reader_db \<Rightarrow> (uid \<times> string) list \<Rightarrow> zone \<Rightarrow> ((uid \<times> string \<times> int) \<times> int) list" where
  "hour_samples db days tz =
     concat (map (\<lambda>(u, date).
       concat (map (\<lambda>w.
         map (\<lambda>s. ((wk_userId w, wk_date w, hourInZone (sa_at s) tz), capped_sec s))
           (filter (\<lambda>s. sa_userId s = wk_userId w \<and> wk_startedAt w \<le> sa_at s \<and> before_end (sa_at s) (wk_endedAt w)
                        \<and> active_sample s)
             (rd_samples db)))
         (filter (\<lambda>w. wk_userId w = u \<and> wk_date w = date) (rd_sessions db)))) days)"

definition activeSecByHour :: "reader_db \<Rightarrow> (uid \<times> string) list \<Rightarrow> zone \<Rightarrow> ((uid \<times> string \<times> int) \<times> int) list" where
  "activeSecByHour db days tz =
     (let rows = hour_samples db days tz
      in map (\<lambda>key. (key, sum_list (map snd (filter (\<lambda>r. fst r = key) rows)))) (js_unique (map fst rows)))"

text \<open>
  Gaps and islands: the samples of a session in order (\<open>s\<close>), whether each starts a new stretch (\<open>o\<close>,
  from the greatest end before it; the first compares with null), the number of the stretch (\<open>g\<close>).
\<close>

definition coverage_samples :: "reader_db \<Rightarrow> session_entry \<Rightarrow> (int \<times> int) list" where
  "coverage_samples db w =
     map (\<lambda>a. (sa_at a, sa_at a + capped_sec a * 1000))
       (filter (\<lambda>a. sa_userId a = wk_userId w \<and> wk_startedAt w - MAX_GAP_SEC * 1000 \<le> sa_at a
                    \<and> before_end (sa_at a) (wk_endedAt w))
         (rd_samples db))"

definition by_start_end :: "int \<times> int \<Rightarrow> int \<times> int \<Rightarrow> int" where
  "by_start_end a b = (if fst a < fst b \<or> fst a = fst b \<and> snd a \<le> snd b then 0 else 1)"

fun stretch_numbers :: "int option \<Rightarrow> nat \<Rightarrow> (int \<times> int) list \<Rightarrow> (nat \<times> int \<times> int) list" where
  "stretch_numbers before grp [] = []"
| "stretch_numbers before grp ((s, e) # rows) =
     (let brk = (case before of Some m \<Rightarrow> if s \<le> m + COVERAGE_JOIN_SEC * 1000 then 0 else 1 | None \<Rightarrow> 1);
          g = grp + brk
      in (g, s, e) # stretch_numbers (Some (case before of Some m \<Rightarrow> max m e | None \<Rightarrow> e)) g rows)"

definition group_bounds :: "(nat \<times> int \<times> int) list \<Rightarrow> nat \<Rightarrow> int \<times> int" where
  "group_bounds rows g =
     (let mine = map snd (filter (\<lambda>r. fst r = g) rows)
      in (Min (set (map fst mine)), Max (set (map snd mine))))"

definition joined_stretches :: "(int \<times> int) list \<Rightarrow> (int \<times> int) list" where
  "joined_stretches samples =
     (let rows = stretch_numbers None 0 (js_sort by_start_end samples)
      in map (group_bounds rows) (js_unique (map fst rows)))"

record coverage_row =
  cr_userId :: uid
  cr_sessionId :: uid
  cr_startedAt :: int
  cr_endedAt :: int

definition activityCoverage :: "reader_db \<Rightarrow> uid list \<Rightarrow> coverage_row list" where
  "activityCoverage db sessionIds =
     concat (map (\<lambda>i.
       (case List.find (\<lambda>w. wk_id w = i) (rd_sessions db) of
          None \<Rightarrow> []
        | Some w \<Rightarrow>
            map (\<lambda>(s, e). \<lparr>cr_userId = wk_userId w, cr_sessionId = wk_id w, cr_startedAt = s, cr_endedAt = e\<rparr>)
              (joined_stretches (coverage_samples db w))))
       (sort (js_unique sessionIds)))"


section \<open>The scope\<close>

record scope_options =
  so_userIds :: "uid list option"
  so_departmentId :: "uid option"
  so_fromDate :: string
  so_toDate :: string

definition team_facts :: "team_person \<Rightarrow> person_facts" where
  "team_facts p = \<lparr>pf_id = pf_id p, pf_role = pf_role p, pf_companyId = pf_companyId p, pf_departmentId = pf_departmentId p\<rparr>"

definition assertManagerOrAdmin :: "auth_user \<Rightarrow> unit result" where
  "assertManagerOrAdmin me =
     (if \<not> seesWholeOrg me \<and> u_role me \<noteq> MANAGER then throw (ForbiddenError ''FORBIDDEN'')
      else and_then (requireOrg me) (\<lambda>_. return ()))"

text \<open>\<open>return None\<close> is the null of a manager without departments.\<close>

definition filterFor :: "auth_user \<Rightarrow> people_filter option result" where
  "filterFor me =
     and_then (requireOrg me) (\<lambda>companyId.
       if seesWholeOrg me then return (Some (no_filter\<lparr>fl_companyId := Some companyId, fl_excludeRoles := Some [SUPER_ADMIN]\<rparr>))
       else
         (let depts = managedDeptIds me in
          if depts = [] then return None
          else return (Some (no_filter\<lparr>fl_companyId := Some companyId, fl_roles := Some [USER], fl_departmentIds := Some depts\<rparr>))))"

definition narrow_department :: "reader_db \<Rightarrow> people_filter \<Rightarrow> uid option \<Rightarrow> people_filter result" where
  "narrow_department db f departmentId =
     (case departmentId of
        None \<Rightarrow> return f
      | Some d \<Rightarrow>
          (case fl_departmentIds f of
             Some ds \<Rightarrow> if d \<notin> set ds then throw (NotFoundError ''NOT_FOUND'')
                        else return (f\<lparr>fl_departmentIds := Some [d]\<rparr>)
           | None \<Rightarrow>
               if \<not> list_ex (\<lambda>x. de_id x = d) (departmentsOf db (coalesce (fl_companyId f) 0)) then throw (NotFoundError ''NOT_FOUND'')
               else return (f\<lparr>fl_departmentIds := Some [d]\<rparr>)))"

definition only_people :: "uid list option \<Rightarrow> team_person list \<Rightarrow> team_person list result" where
  "only_people userIds base =
     (case userIds of
        None \<Rightarrow> return base
      | Some ids \<Rightarrow>
          if list_ex (\<lambda>i. i \<notin> pf_id ` set base) ids then throw (NotFoundError ''NOT_FOUND'')
          else return (filter (\<lambda>p. pf_id p \<in> set ids) base))"

definition people_scope :: "reader_db \<Rightarrow> zone \<Rightarrow> auth_user \<Rightarrow> scope_options \<Rightarrow> team_person list result" where
  "people_scope db tz me opts =
     and_then (assertManagerOrAdmin me) (\<lambda>_.
     and_then (filterFor me) (\<lambda>f.
       case f of
         None \<Rightarrow> return []
       | Some f \<Rightarrow>
           and_then (narrow_department db f (so_departmentId opts)) (\<lambda>f.
           and_then (only_people (so_userIds opts) (listPeople db tz f)) (\<lambda>base.
             let inactive = map pf_id (filter (\<lambda>p. \<not> tp_active p) base);
                 worked = (if inactive \<noteq> [] then userIdsWithSessionsBetween db (Some inactive) (so_fromDate opts) (so_toDate opts)
                           else [])
             in return (filter (\<lambda>p. tp_active p \<or> pf_id p \<in> set worked) base)))))"

definition scope_person :: "reader_db \<Rightarrow> zone \<Rightarrow> auth_user \<Rightarrow> uid \<Rightarrow> team_person result" where
  "scope_person db tz me userId =
     and_then (assertManagerOrAdmin me) (\<lambda>_.
       case listPeople db tz (no_filter\<lparr>fl_ids := Some [userId]\<rparr>) of
         [] \<Rightarrow> throw (NotFoundError ''NOT_FOUND'')
       | target # _ \<Rightarrow>
           if \<not> canSeePerson me (team_facts target) then throw (NotFoundError ''NOT_FOUND'') else return target)"

definition scope_person_section :: "reader_db \<Rightarrow> zone \<Rightarrow> auth_user \<Rightarrow> uid \<Rightarrow> view_section \<Rightarrow> team_person result" where
  "scope_person_section db tz me userId sec =
     and_then (scope_person db tz me userId) (\<lambda>target.
       if \<not> canViewSection me (team_facts target) sec then throw (ForbiddenError ''GRANT_REQUIRED'') else return target)"

section \<open>Who is in scope\<close>

lemma team_facts_entry [simp]: "team_facts (personFromPrisma db tz u) = ue_facts u"
  by (simp add: team_facts_def personFromPrisma_def)

lemma listPeople_set: "set (listPeople db tz f) = personFromPrisma db tz ` {u \<in> set (rd_users db). in_filter f u}"
  by (auto simp: listPeople_def)

lemma personFromPrisma_simps [simp]:
  "pf_id (personFromPrisma db tz u) = pf_id (ue_facts u)" "pf_role (personFromPrisma db tz u) = pf_role (ue_facts u)"
  "pf_companyId (personFromPrisma db tz u) = pf_companyId (ue_facts u)"
  "pf_departmentId (personFromPrisma db tz u) = pf_departmentId (ue_facts u)"
  "tp_active (personFromPrisma db tz u) = active_entry u"
  by (simp_all add: personFromPrisma_def active_entry_def)

definition worked_between :: "reader_db \<Rightarrow> uid \<Rightarrow> string \<Rightarrow> string \<Rightarrow> bool" where
  "worked_between db u a b \<longleftrightarrow> (\<exists>w \<in> set (rd_sessions db). wk_userId w = u \<and> a \<le> wk_date w \<and> wk_date w \<le> b)"

lemma userIdsWithSessionsBetween_set:
  "i \<in> set (userIdsWithSessionsBetween db (Some ids) a b) \<longleftrightarrow> i \<in> set ids \<and> worked_between db i a b"
  by (auto simp: userIdsWithSessionsBetween_def worked_between_def)

lemma requireOrg_orgOf: "requireOrg me = return c \<Longrightarrow> orgOf me = Some c"
  by (auto simp: requireOrg_def split: if_splits option.splits)

lemma filterFor_visible:
  assumes "filterFor me = return f" "assertManagerOrAdmin me = return ()" "pf_id (ue_facts u) \<noteq> u_id me"
  shows "(case f of None \<Rightarrow> False | Some f \<Rightarrow> in_filter f u) \<longleftrightarrow> canSeePerson me (ue_facts u)"
proof -
  obtain c where c: "requireOrg me = return c" using assms(1) by (auto simp: filterFor_def)
  have org: "inMyOrg me t \<longleftrightarrow> pf_companyId t = Some c" for t using requireOrg_orgOf [OF c] by (simp add: inMyOrg_def)
  show ?thesis
  proof (cases "seesWholeOrg me")
    case True
    then have "f = Some (no_filter\<lparr>fl_companyId := Some c, fl_excludeRoles := Some [SUPER_ADMIN]\<rparr>)"
      using assms(1) c by (simp add: filterFor_def)
    then show ?thesis using True assms(3) by (auto simp: in_filter_def no_filter_def canSeePerson_def org Let_def)
  next
    case False
    then have r: "u_role me = MANAGER" using assms(2) by (auto simp: assertManagerOrAdmin_def split: if_splits)
    show ?thesis
    proof (cases "managedDeptIds me = []")
      case True
      then have "f = None" using assms(1) c False by (simp add: filterFor_def Let_def)
      then show ?thesis using True False assms(3)
        by (simp add: canSeePerson_def in_managed_dept_def split: option.split)
    next
      case n: False
      then have "f = Some (no_filter\<lparr>fl_companyId := Some c, fl_roles := Some [USER], fl_departmentIds := Some (managedDeptIds me)\<rparr>)"
        using assms(1) c False by (simp add: filterFor_def Let_def)
      then show ?thesis using r False assms(3)
        by (auto simp: in_filter_def no_filter_def canSeePerson_def org in_managed_dept_def Let_def split: option.split)
    qed
  qed
qed

text \<open>The people of a scope, whatever its options.\<close>

lemma people_scope_members:
  assumes "people_scope db tz me opts = return ps" "p \<in> set ps"
  shows "\<exists>g g' u. assertManagerOrAdmin me = return () \<and> filterFor me = return (Some g)
    \<and> narrow_department db g (so_departmentId opts) = return g' \<and> u \<in> set (rd_users db) \<and> in_filter g' u
    \<and> p = personFromPrisma db tz u \<and> (active_entry u \<or> worked_between db (pf_id (ue_facts u)) (so_fromDate opts) (so_toDate opts))"
proof -
  obtain f where f: "assertManagerOrAdmin me = return ()" "filterFor me = return f"
    using assms(1) by (auto simp: people_scope_def)
  then obtain g where g: "f = Some g" using assms by (cases f) (auto simp: people_scope_def)
  obtain g' base where g': "narrow_department db g (so_departmentId opts) = return g'"
    and base: "only_people (so_userIds opts) (listPeople db tz g') = return base"
    using assms f g by (auto simp: people_scope_def)
  have sub: "set base \<subseteq> set (listPeople db tz g')"
    using base by (auto simp: only_people_def split: option.splits if_splits)
  have "p \<in> set base \<and> (tp_active p \<or> worked_between db (pf_id p) (so_fromDate opts) (so_toDate opts))"
    using assms f g g' base by (auto simp: people_scope_def userIdsWithSessionsBetween_set Let_def split: if_splits)
  then obtain u where "u \<in> set (rd_users db)" "in_filter g' u" "p = personFromPrisma db tz u"
    "active_entry u \<or> worked_between db (pf_id (ue_facts u)) (so_fromDate opts) (so_toDate opts)"
    using sub unfolding listPeople_set by auto
  then show ?thesis using f g g' by blast
qed

lemma narrow_department_sub:
  "narrow_department db f d = return f' \<Longrightarrow> in_filter f' u \<Longrightarrow> in_filter f u"
proof -
  assume a: "narrow_department db f d = return f'" "in_filter f' u"
  from a(1) consider "f' = f" | x where "f' = f\<lparr>fl_departmentIds := Some [x]\<rparr>" "\<forall>ds. fl_departmentIds f = Some ds \<longrightarrow> x \<in> set ds"
    by (cases d; cases "fl_departmentIds f") (auto simp: narrow_department_def split: if_splits)
  then show "in_filter f u"
  proof cases
    case (2 x)
    then show ?thesis using a(2) by (cases "pf_departmentId (ue_facts u)"; cases "fl_departmentIds f") (simp_all add: in_filter_def Let_def)
  qed (use a in simp)
qed

lemma in_scope_visible:
  assumes "people_scope db tz me opts = return ps" "p \<in> set ps" "pf_id p \<noteq> u_id me"
  shows "canSeePerson me (team_facts p)"
    and "tp_active p \<or> worked_between db (pf_id p) (so_fromDate opts) (so_toDate opts)"
proof -
  obtain g g' u where f: "assertManagerOrAdmin me = return ()" "filterFor me = return (Some g)"
    and u: "narrow_department db g (so_departmentId opts) = return g'" "in_filter g' u" "p = personFromPrisma db tz u"
      "active_entry u \<or> worked_between db (pf_id (ue_facts u)) (so_fromDate opts) (so_toDate opts)"
    using people_scope_members [OF assms(1,2)] by blast
  have "in_filter g u" using narrow_department_sub [OF u(1,2)] .
  then show "canSeePerson me (team_facts p)"
    using filterFor_visible [OF f(2,1), of u] assms(3) u(3) by simp
  show "tp_active p \<or> worked_between db (pf_id p) (so_fromDate opts) (so_toDate opts)" using u(3,4) by simp
qed

definition whole_team :: "string \<Rightarrow> string \<Rightarrow> scope_options" where
  "whole_team a b = \<lparr>so_userIds = None, so_departmentId = None, so_fromDate = a, so_toDate = b\<rparr>"

lemma visible_in_scope:
  assumes "u \<in> set (rd_users db)" "pf_id (ue_facts u) \<noteq> u_id me" "assertManagerOrAdmin me = return ()"
    "canSeePerson me (ue_facts u)" "active_entry u \<or> worked_between db (pf_id (ue_facts u)) a b"
  shows "\<exists>ps. people_scope db tz me (whole_team a b) = return ps \<and> personFromPrisma db tz u \<in> set ps"
proof -
  obtain c where "requireOrg me = return c" using assms(3) by (auto simp: assertManagerOrAdmin_def split: if_splits)
  then have "\<exists>f. filterFor me = return f" by (simp add: filterFor_def Let_def)
  then obtain f where f: "filterFor me = return f" by blast
  then obtain g where g: "f = Some g" "in_filter g u"
    using filterFor_visible [OF f assms(3,2)] assms(4) by (cases f) auto
  have "personFromPrisma db tz u \<in> set (listPeople db tz g)" using g assms(1) by (auto simp: listPeople_set)
  moreover from this have "pf_id (ue_facts u) \<in> pf_id ` {x \<in> set (listPeople db tz g). \<not> tp_active x}" if "\<not> active_entry u"
    using that by (intro image_eqI [of _ _ "personFromPrisma db tz u"]) simp_all
  ultimately show ?thesis
    using f g assms(3,5)
    by (auto simp: filter_empty_conv people_scope_def whole_team_def narrow_department_def only_people_def userIdsWithSessionsBetween_set Let_def)
qed

text \<open>C19: the team a caller is shown is the team the caller may see. With no department or people
  chosen, the scope holds another person exactly when the caller is a manager or an admin of an
  organisation, \<open>canSeePerson\<close> allows it, and the person is active or has a work session dated in the
  period. Whatever is chosen, nobody else comes in; a detail section of a person is answered only
  with the grant for it.\<close>

theorem team_is_who_may_be_seen:
  assumes "u \<in> set (rd_users db)" "pf_id (ue_facts u) \<noteq> u_id me"
  shows "(\<exists>ps. people_scope db tz me (whole_team a b) = return ps \<and> personFromPrisma db tz u \<in> set ps)
      = (assertManagerOrAdmin me = return () \<and> canSeePerson me (ue_facts u)
         \<and> (active_entry u \<or> worked_between db (pf_id (ue_facts u)) a b))
    \<and> (\<forall>opts ps p. people_scope db tz me opts = return ps \<longrightarrow> p \<in> set ps \<longrightarrow> pf_id p \<noteq> u_id me \<longrightarrow>
          canSeePerson me (team_facts p) \<and> (tp_active p \<or> worked_between db (pf_id p) (so_fromDate opts) (so_toDate opts)))
    \<and> (\<forall>i sec q. scope_person_section db tz me i sec = return q \<longrightarrow>
          canSeePerson me (team_facts q) \<and> canViewSection me (team_facts q) sec)"
proof (intro conjI)
  show "(\<exists>ps. people_scope db tz me (whole_team a b) = return ps \<and> personFromPrisma db tz u \<in> set ps)
     = (assertManagerOrAdmin me = return () \<and> canSeePerson me (ue_facts u)
        \<and> (active_entry u \<or> worked_between db (pf_id (ue_facts u)) a b))"
  proof
    assume "\<exists>ps. people_scope db tz me (whole_team a b) = return ps \<and> personFromPrisma db tz u \<in> set ps"
    then obtain ps where ps: "people_scope db tz me (whole_team a b) = return ps" "personFromPrisma db tz u \<in> set ps" by blast
    then have "assertManagerOrAdmin me = return ()" by (auto simp: people_scope_def)
    then show "assertManagerOrAdmin me = return () \<and> canSeePerson me (ue_facts u)
        \<and> (active_entry u \<or> worked_between db (pf_id (ue_facts u)) a b)"
      using in_scope_visible [OF ps] assms(2) by (simp add: whole_team_def)
  qed (use visible_in_scope [OF assms] in blast)
  show "\<forall>opts ps p. people_scope db tz me opts = return ps \<longrightarrow> p \<in> set ps \<longrightarrow> pf_id p \<noteq> u_id me \<longrightarrow>
     canSeePerson me (team_facts p) \<and> (tp_active p \<or> worked_between db (pf_id p) (so_fromDate opts) (so_toDate opts))"
    using in_scope_visible by blast
  show "\<forall>i sec q. scope_person_section db tz me i sec = return q \<longrightarrow>
     canSeePerson me (team_facts q) \<and> canViewSection me (team_facts q) sec"
    by (auto simp: scope_person_section_def scope_person_def split: list.splits if_splits)
qed

text \<open>A manager of department 5 and a person of it who left, with a day in the period.\<close>

definition sample_left :: user_entry where
  "sample_left = \<lparr>ue_facts = \<lparr>pf_id = 2, pf_role = USER, pf_companyId = Some 1, pf_departmentId = Some 5\<rparr>,
     ue_firstName = ''Asha'', ue_lastName = ''Rao'', ue_email = [], ue_department = None, ue_designation = None,
     ue_managerId = None, ue_statusActive = False, ue_deletedAt = None, ue_createdAt = 0\<rparr>"

definition sample_lead :: auth_user where
  "sample_lead = \<lparr>u_id = 9, u_role = MANAGER, u_permissions = [], u_companyId = Some 1, u_orgId = None,
     u_orgHeaderInvalid = False, u_orgDeleted = False, u_departmentId = None, u_managedDepartmentIds = [5], u_grants = None\<rparr>"

definition sample_reader :: reader_db where
  "sample_reader = \<lparr>rd_users = [sample_left],
     rd_sessions = [\<lparr>wk_id = 1, wk_userId = 2, wk_date = ''2026-08-03'', wk_startedAt = 0, wk_endedAt = Some 1,
                      wk_endReason = None, wk_source = FromAgent, se_updatedAt = 1\<rparr>],
     rd_departments = [], rd_managed = [], rd_companies = [], rd_samples = []\<rparr>"

theorem team_is_who_may_be_seen_witness:
  "\<exists>ps. people_scope sample_reader (\<lambda>_. 0) sample_lead (whole_team ''2026-08-01'' ''2026-08-31'') = return ps
     \<and> personFromPrisma sample_reader (\<lambda>_. 0) sample_left \<in> set ps"
  using team_is_who_may_be_seen [of sample_left sample_reader sample_lead "\<lambda>_. 0" "''2026-08-01''" "''2026-08-31''"]
  by (simp add: sample_reader_def sample_lead_def sample_left_def assertManagerOrAdmin_def seesWholeOrg_def isAdminLike_def
      isSuperManager_def requireOrg_def orgOf_def seesEveryOrg_def canSeePerson_def inMyOrg_def in_managed_dept_def
      managedDeptIds_def worked_between_def)

section \<open>Activity coverage\<close>

text \<open>The stretches as a scan that keeps the running one.\<close>

fun scan_stretches :: "int \<Rightarrow> int \<Rightarrow> (int \<times> int) list \<Rightarrow> (int \<times> int) list" where
  "scan_stretches a b [] = [(a, b)]"
| "scan_stretches a b ((s, e) # rows) =
     (if s \<le> b + COVERAGE_JOIN_SEC * 1000 then scan_stretches a (max b e) rows
      else (a, b) # scan_stretches s e rows)"


lemma stretch_numbers_ge: "r \<in> set (stretch_numbers m g rows) \<Longrightarrow> g \<le> fst r"
  by (induction m g rows rule: stretch_numbers.induct) (auto simp: Let_def split: option.splits if_splits; fastforce)+

lemma group_bounds_other: "h \<noteq> g \<Longrightarrow> group_bounds ((g, s, e) # rows) h = group_bounds rows h"
  by (simp add: group_bounds_def)

lemma group_bounds_alone:
  "(\<And>r. r \<in> set rows \<Longrightarrow> fst r \<noteq> g) \<Longrightarrow> group_bounds ((g, s, e) # rows) g = (s, e)"
  by (simp add: group_bounds_def filter_empty_conv)

lemma Min_insert_above: "finite S \<Longrightarrow> a \<le> s \<Longrightarrow> Min (insert a (insert s S)) = Min (insert a S)" for a s :: int
  by (cases "S = {}") (simp_all add: min.left_commute min.absorb1 min.assoc [symmetric] del: Min_insert add: Min_insert)

lemma Max_insert_two: "finite S \<Longrightarrow> Max (insert b (insert e S)) = Max (insert (max b e) S)" for b e :: int
  by (cases "S = {}") (simp_all add: max.assoc)

lemma group_bounds_merge:
  "a \<le> s \<Longrightarrow> group_bounds ((g, a, b) # (g, s, e) # rows) h = group_bounds ((g, a, max b e) # rows) h"
proof (cases "h = g")
  case True
  assume "a \<le> s"
  then show ?thesis
    using True by (simp add: group_bounds_def Min_insert_above Max_insert_two del: Min_insert Max_insert)
qed (simp add: group_bounds_def)

lemma js_unique_again: "js_unique (x # x # xs) = js_unique (x # xs)"
  by simp

lemma js_unique_new: "x \<notin> set xs \<Longrightarrow> js_unique (x # xs) = x # js_unique xs"
proof -
  assume "x \<notin> set xs"
  then have "filter (\<lambda>y. y \<noteq> x) xs = xs" by (auto intro!: filter_True)
  then show ?thesis by simp
qed

lemma groups_scan:
  assumes "sorted (map fst rows)" "\<forall>r \<in> set rows. a \<le> fst r \<and> fst r \<le> snd r" "a \<le> b"
  shows "map (group_bounds ((g, a, b) # stretch_numbers (Some b) g rows)) (js_unique (g # map fst (stretch_numbers (Some b) g rows)))
    = scan_stretches a b rows"
  using assms
proof (induction rows arbitrary: a b g)
  case Nil
  then show ?case by (simp add: group_bounds_def)
next
  case (Cons r rows)
  obtain s e where r: "r = (s, e)" by (cases r)
  have se: "a \<le> s" "s \<le> e" using Cons.prems(2) r by simp_all
  show ?case
  proof (cases "s \<le> b + COVERAGE_JOIN_SEC * 1000")
    case True
    have n: "stretch_numbers (Some b) g (r # rows) = (g, s, e) # stretch_numbers (Some (max b e)) g rows"
      using True by (simp add: r)
    have "map (group_bounds ((g, a, max b e) # stretch_numbers (Some (max b e)) g rows))
        (js_unique (g # map fst (stretch_numbers (Some (max b e)) g rows))) = scan_stretches a (max b e) rows"
      using Cons.prems by (intro Cons.IH) auto
    then show ?thesis
      unfolding n using True se(1) by (simp only: list.map fst_conv js_unique_again group_bounds_merge) (simp add: r)
  next
    case False
    then have m: "max b e = e" using se by (simp add: COVERAGE_JOIN_SEC_def)
    let ?n = "stretch_numbers (Some e) (g + 1) rows"
    have n: "stretch_numbers (Some b) g (r # rows) = (g + 1, s, e) # ?n"
      using False m by (simp add: r)
    have ge: "\<And>x. x \<in> set ((g + 1, s, e) # ?n) \<Longrightarrow> g < fst x" using stretch_numbers_ge [of _ "Some e" "g + 1" rows] by fastforce
    have new: "g \<notin> set (map fst ((g + 1, s, e) # ?n))" using ge by fastforce
    have IH: "map (group_bounds ((g + 1, s, e) # ?n)) (js_unique ((g + 1) # map fst ?n)) = scan_stretches s e rows"
      using Cons.prems r se by (intro Cons.IH) auto
    have "group_bounds ((g, a, b) # (g + 1, s, e) # ?n) g = (a, b)"
      by (rule group_bounds_alone) (use ge in fastforce)
    moreover have "map (group_bounds ((g, a, b) # (g + 1, s, e) # ?n)) (js_unique (map fst ((g + 1, s, e) # ?n)))
        = map (group_bounds ((g + 1, s, e) # ?n)) (js_unique (map fst ((g + 1, s, e) # ?n)))"
      using new by (intro map_cong refl group_bounds_other) (auto simp del: js_unique.simps)
    ultimately have "map (group_bounds ((g, a, b) # (g + 1, s, e) # ?n)) (g # js_unique (map fst ((g + 1, s, e) # ?n)))
        = (a, b) # scan_stretches s e rows"
      using IH by (simp only: list.map fst_conv)
    then show ?thesis
      unfolding n js_unique_new [OF new] using False by (simp only: r scan_stretches.simps if_False)
  qed
qed

lemma joined_stretches_scan:
  assumes "\<forall>x \<in> set samples. fst x \<le> snd x"
  shows "joined_stretches samples = (case js_sort by_start_end samples of [] \<Rightarrow> [] | (s, e) # rows \<Rightarrow> scan_stretches s e rows)"
    and "sorted (map fst (js_sort by_start_end samples))"
proof -
  have le: "by_start_end x y \<le> 0 \<Longrightarrow> fst x \<le> fst y" for x y by (auto simp: by_start_end_def split: if_splits)
  have "comparator_ok by_start_end" by (auto simp: comparator_ok_def by_start_end_def split: if_splits)
  from sorted_js_sort [OF this, of samples] show so: "sorted (map fst (js_sort by_start_end samples))"
    unfolding sorted_wrt_map by (rule sorted_wrt_mono_rel [rotated]) (simp add: le)
  show "joined_stretches samples = (case js_sort by_start_end samples of [] \<Rightarrow> [] | (s, e) # rows \<Rightarrow> scan_stretches s e rows)"
  proof (cases "js_sort by_start_end samples")
    case Nil
    then show ?thesis by (simp add: joined_stretches_def)
  next
    case (Cons r rows)
    obtain s e where r: "r = (s, e)" by (cases r)
    have "set (r # rows) = set samples" using Cons by (metis set_js_sort)
    then have "\<forall>x \<in> set (r # rows). fst x \<le> snd x" using assms by simp
    then have "map (group_bounds ((1, s, e) # stretch_numbers (Some e) 1 rows)) (js_unique (1 # map fst (stretch_numbers (Some e) 1 rows)))
        = scan_stretches s e rows"
      using so Cons r by (intro groups_scan) auto
    then show ?thesis by (simp add: joined_stretches_def Cons r Let_def)
  qed
qed

text \<open>What the scan makes of the samples.\<close>

lemma scan_covers:
  "a \<le> b \<Longrightarrow> \<forall>r \<in> set rows. a \<le> fst r \<and> fst r \<le> snd r \<Longrightarrow> sorted (map fst rows) \<Longrightarrow> (s, e) \<in> set ((a, b) # rows)
   \<Longrightarrow> \<exists>x y. (x, y) \<in> set (scan_stretches a b rows) \<and> x \<le> s \<and> e \<le> y"
proof (induction a b rows arbitrary: s e rule: scan_stretches.induct)
  case (2 a b s' e' rows)
  show ?case
  proof (cases "s' \<le> b + COVERAGE_JOIN_SEC * 1000")
    case True
    obtain s0 e0 where m: "(s0, e0) \<in> set ((a, max b e') # rows)" "s0 \<le> s" "e \<le> e0"
      using 2(4,6) by (auto intro: that)
    have "\<exists>x y. (x, y) \<in> set (scan_stretches a (max b e') rows) \<and> x \<le> s0 \<and> e0 \<le> y"
      using 2(3-5) True m(1) by (intro 2(1)) auto
    then show ?thesis using True m(2,3) by (auto intro: order_trans)
  next
    case False
    show ?thesis
    proof (cases "(s, e) = (a, b)")
      case other: False
      then have "(s, e) \<in> set ((s', e') # rows)" using 2(6) by auto
      then have "\<exists>x y. (x, y) \<in> set (scan_stretches s' e' rows) \<and> x \<le> s \<and> e \<le> y"
        using 2(4,5) False by (intro 2(2)) auto
      then show ?thesis using False by auto
    qed (use False in auto)
  qed
qed auto

lemma scan_bounds:
  "(x, y) \<in> set (scan_stretches a b rows) \<Longrightarrow> x \<in> insert a (fst ` set rows) \<and> y \<in> insert b (snd ` set rows)"
  by (induction a b rows rule: scan_stretches.induct) (auto simp: max_def split: if_splits)

definition apart :: "int \<times> int \<Rightarrow> int \<times> int \<Rightarrow> bool" where
  "apart p q \<longleftrightarrow> snd p + COVERAGE_JOIN_SEC * 1000 < fst q"

lemma scan_apart: "sorted (map fst rows) \<Longrightarrow> sorted_wrt apart (scan_stretches a b rows)"
proof (induction a b rows rule: scan_stretches.induct)
  case (2 a b s e rows)
  show ?case
  proof (cases "s \<le> b + COVERAGE_JOIN_SEC * 1000")
    case False
    have "s \<le> fst q" if "q \<in> set (scan_stretches s e rows)" for q
      using that scan_bounds [of "fst q" "snd q" s e rows] 2(3) by auto
    then have "\<forall>q \<in> set (scan_stretches s e rows). apart (a, b) q" using False by (force simp: apart_def)
    then show ?thesis using 2(2) [OF False] 2(3) False by simp
  qed (use 2 in simp)
qed simp

text \<open>Inside a stretch a sample is never more than the join away.\<close>

lemma scan_dense:
  "a \<le> b \<Longrightarrow> \<forall>r \<in> set rows. fst r \<le> snd r \<Longrightarrow> (\<forall>t. a \<le> t \<longrightarrow> t \<le> b \<longrightarrow> P t)
   \<Longrightarrow> \<forall>r \<in> set rows. \<forall>t. fst r - COVERAGE_JOIN_SEC * 1000 \<le> t \<longrightarrow> t \<le> snd r \<longrightarrow> P t
   \<Longrightarrow> (x, y) \<in> set (scan_stretches a b rows) \<Longrightarrow> x \<le> t \<Longrightarrow> t \<le> y \<Longrightarrow> P t"
proof (induction a b rows rule: scan_stretches.induct)
  case (2 a b s e rows)
  show ?case
  proof (cases "s \<le> b + COVERAGE_JOIN_SEC * 1000")
    case True
    have "\<forall>t. a \<le> t \<longrightarrow> t \<le> max b e \<longrightarrow> P t"
    proof (intro allI impI)
      fix t assume t: "a \<le> t" "t \<le> max b e"
      show "P t"
      proof (cases "t \<le> b")
        case False
        then have "s - COVERAGE_JOIN_SEC * 1000 \<le> t" "t \<le> e" using True t by auto
        then show ?thesis using 2(6) by simp
      qed (use 2(5) t in simp)
    qed
    then show ?thesis using 2(1) [OF True] 2(3-9) True by simp
  next
    case False
    have "\<forall>t. s \<le> t \<longrightarrow> t \<le> e \<longrightarrow> P t" using 2(6) by (simp add: COVERAGE_JOIN_SEC_def)
    then show ?thesis using 2(2) [OF False] 2(3-9) False by auto
  qed
qed auto

text \<open>C22: the coverage query joins a session's samples. The stretches of its window functions are in
  order and more than the join apart; every sample lies in one of them; each begins where a sample
  begins and ends where one ends; and at every instant of a stretch a sample runs or ends at most the
  join earlier or begins at most the join later.\<close>

theorem coverage_joins_the_samples:
  assumes "list_all (\<lambda>x. fst x \<le> snd x) samples"
  shows "sorted_wrt apart (joined_stretches samples)
    \<and> (\<forall>s e. (s, e) \<in> set samples \<longrightarrow> (\<exists>x y. (x, y) \<in> set (joined_stretches samples) \<and> x \<le> s \<and> e \<le> y))
    \<and> (\<forall>x y t. (x, y) \<in> set (joined_stretches samples) \<longrightarrow>
          x \<in> fst ` set samples \<and> y \<in> snd ` set samples
          \<and> (x \<le> t \<longrightarrow> t \<le> y \<longrightarrow> (\<exists>(s, e) \<in> set samples. s - COVERAGE_JOIN_SEC * 1000 \<le> t \<and> t \<le> e)))"
proof -
  let ?P = "\<lambda>t. \<exists>(s, e) \<in> set samples. s - COVERAGE_JOIN_SEC * 1000 \<le> t \<and> t \<le> e"
  have ok: "\<forall>x \<in> set samples. fst x \<le> snd x" using assms by (simp add: list_all_iff)
  note j = joined_stretches_scan [OF ok]
  show ?thesis
  proof (cases "js_sort by_start_end samples")
    case Nil
    then show ?thesis by (simp add: joined_stretches_def)
  next
    case (Cons r rows)
    obtain s e where r: "r = (s, e)" by (cases r)
    have all: "set samples = set (r # rows)" using Cons by (metis set_js_sort)
    have st: "joined_stretches samples = scan_stretches s e rows" using j(1) Cons r by simp
    have so: "sorted (map fst rows)" "\<forall>q \<in> set rows. s \<le> fst q \<and> fst q \<le> snd q" "s \<le> e"
      using j(2) Cons ok all r by auto
    have P: "\<forall>t. s \<le> t \<longrightarrow> t \<le> e \<longrightarrow> ?P t"
      "\<forall>q \<in> set rows. \<forall>t. fst q - COVERAGE_JOIN_SEC * 1000 \<le> t \<longrightarrow> t \<le> snd q \<longrightarrow> ?P t"
      unfolding all r COVERAGE_JOIN_SEC_def by auto
    show ?thesis
      unfolding st
    proof (intro conjI allI impI)
      show "sorted_wrt apart (scan_stretches s e rows)" by (rule scan_apart [OF so(1)])
      show "\<exists>x y. (x, y) \<in> set (scan_stretches s e rows) \<and> x \<le> s' \<and> e' \<le> y" if "(s', e') \<in> set samples" for s' e'
        using scan_covers [OF so(3,2,1)] that unfolding all r by simp
      show "x \<in> fst ` set samples" "y \<in> snd ` set samples" if "(x, y) \<in> set (scan_stretches s e rows)" for x y
        using scan_bounds [OF that] unfolding all r by simp_all
      show "?P t" if "(x, y) \<in> set (scan_stretches s e rows)" "x \<le> t" "t \<le> y" for x y t
        using scan_dense [OF so(3) _ P that] so(2) by simp
    qed
  qed
qed

theorem coverage_joins_the_samples_witness:
  "joined_stretches [(200000, 300000), (0, 100000)] = [(0, 300000)]
   \<and> (\<exists>x y. (x, y) \<in> set (joined_stretches [(200000, 300000), (0, 100000)]) \<and> x \<le> 200000 \<and> 300000 \<le> y)"
  using coverage_joins_the_samples [of "[(200000, 300000), (0, 100000)]"]
  by (simp add: joined_stretches_def by_start_end_def COVERAGE_JOIN_SEC_def group_bounds_def Let_def)

text \<open>The samples of a session have an end no earlier than their start.\<close>

lemma coverage_samples_ok: "list_all (\<lambda>x. fst x \<le> snd x) (coverage_samples db w)"
  by (simp add: coverage_samples_def list_all_iff capped_sec_def MAX_GAP_SEC_def)

end
