(* ===== verification/Shift_People.thy ===== *)
theory Shift_People
  imports People
begin

text \<open>
  The people the break and approval services read: \<open>src/src/modules/shifts/domain/
  shift-people.reader.ts\<close> on \<open>infrastructure/prisma-shift-people.reader.ts\<close>, over the tables of the
  batch reader. A query returns rows in the order it states, else in the order of the table.
\<close>

record shift_entry = person_facts +
  se_firstName :: string
  se_lastName :: string
  se_email :: string
  se_department :: "string option"
  se_designation :: "string option"
  se_companyName :: "string option"
  se_companyDeleted :: bool
  se_managerId :: "uid option"
  se_active :: bool

definition company_entry_of :: "reader_db \<Rightarrow> uid option \<Rightarrow> company_entry option" where
  "company_entry_of db c = (case c of None \<Rightarrow> None | Some i \<Rightarrow> List.find (\<lambda>x. ce_id x = i) (rd_companies db))"

text \<open>With the organisation's name; \<open>listAllActive\<close> leaves it out.\<close>

definition toPerson :: "reader_db \<Rightarrow> user_entry \<Rightarrow> shift_entry" where
  "toPerson db r =
     (let company = company_entry_of db (pf_companyId (ue_facts r)) in
      \<lparr>pf_id = pf_id (ue_facts r), pf_role = pf_role (ue_facts r), pf_companyId = pf_companyId (ue_facts r),
       pf_departmentId = pf_departmentId (ue_facts r), se_firstName = ue_firstName r, se_lastName = ue_lastName r,
       se_email = ue_email r, se_department = ue_department r, se_designation = ue_designation r,
       se_companyName = map_option ce_name company,
       se_companyDeleted = (case company of Some c \<Rightarrow> ce_deleted c | None \<Rightarrow> False),
       se_managerId = ue_managerId r, se_active = (ue_statusActive r \<and> ue_deletedAt r = None)\<rparr>)"

record people_query =
  pq_companyId :: "uid option"
  pq_departmentIds :: "uid list option"
  pq_roles :: "role list option"
  pq_managerId :: "uid option"
  pq_ids :: "uid list option"
  pq_department :: "string option"
  pq_search :: "string option"
  pq_skip :: "nat option"
  pq_take :: "nat option"

definition asked :: "'a option \<Rightarrow> ('a \<Rightarrow> bool) \<Rightarrow> bool" where
  "asked x P = (case x of None \<Rightarrow> True | Some v \<Rightarrow> P v)"

text \<open>An empty text asks for nothing.\<close>

definition asked_text :: "string option \<Rightarrow> (string \<Rightarrow> bool) \<Rightarrow> bool" where
  "asked_text x P = (case x of None \<Rightarrow> True | Some v \<Rightarrow> v = [] \<or> P v)"

definition shift_where :: "people_query \<Rightarrow> user_entry \<Rightarrow> bool" where
  "shift_where q u =
     (let p = ue_facts u in
      active_entry u
      \<and> asked (pq_companyId q) (\<lambda>c. pf_companyId p = Some c)
      \<and> asked (pq_departmentIds q) (\<lambda>ds. \<exists>d \<in> set ds. pf_departmentId p = Some d)
      \<and> asked (pq_roles q) (\<lambda>rs. pf_role p \<in> set rs)
      \<and> asked (pq_managerId q) (\<lambda>m. ue_managerId u = Some m)
      \<and> asked (pq_ids q) (\<lambda>ids. pf_id p \<in> set ids)
      \<and> asked_text (pq_department q) (\<lambda>d. map_option to_lower (ue_department u) = Some (to_lower (trim d)))
      \<and> asked_text (pq_search q) (\<lambda>s. named s u \<or> occurs_in (to_lower s) (to_lower (ue_email u))))"

definition findById_person :: "reader_db \<Rightarrow> uid \<Rightarrow> shift_entry option" where
  "findById_person db i =
     map_option (toPerson db) (List.find (\<lambda>u. pf_id (ue_facts u) = i \<and> ue_deletedAt u = None) (rd_users db))"

definition findMany :: "reader_db \<Rightarrow> people_query \<Rightarrow> shift_entry list" where
  "findMany db q =
     (let rows = drop (coalesce (pq_skip q) 0) (js_sort by_name (filter (shift_where q) (rd_users db)))
      in map (toPerson db) (case pq_take q of None \<Rightarrow> rows | Some n \<Rightarrow> take n rows))"

definition countPeople :: "reader_db \<Rightarrow> people_query \<Rightarrow> nat" where
  "countPeople db q = length (filter (shift_where q) (rd_users db))"

definition findAnyByIds :: "reader_db \<Rightarrow> uid list \<Rightarrow> shift_entry list" where
  "findAnyByIds db ids =
     (if ids = [] then [] else map (toPerson db) (filter (\<lambda>u. pf_id (ue_facts u) \<in> set (js_unique ids)) (rd_users db)))"

definition listAllActive :: "reader_db \<Rightarrow> shift_entry list" where
  "listAllActive db = map (toPerson db) (filter active_entry (rd_users db))"

record department_count =
  dc_department :: string
  dc_departmentKey :: string
  dc_companyId :: "uid option"
  dc_people :: nat

definition department_groups :: "reader_db \<Rightarrow> uid option \<Rightarrow> (string \<times> uid option \<times> nat) list" where
  "department_groups db companyId =
     (let rows = filter (\<lambda>u. active_entry u \<and> ue_department u \<noteq> None
                             \<and> (case companyId of None \<Rightarrow> True | Some c \<Rightarrow> pf_companyId (ue_facts u) = Some c)) (rd_users db);
          keys = map (\<lambda>u. (the (ue_department u), pf_companyId (ue_facts u))) rows
      in map (\<lambda>k. (fst k, snd k, length (filter (\<lambda>x. x = k) keys))) (js_unique keys))"

text \<open>The map keeps the place of a key's first group; its key is the organisation and the department's.\<close>

fun merge_groups :: "(string \<times> uid option \<times> nat) list \<Rightarrow> department_count list \<Rightarrow> department_count list" where
  "merge_groups [] merged = merged"
| "merge_groups ((department, c, n) # rows) merged =
     (case departmentKey (Some department) of
        None \<Rightarrow> merge_groups rows merged
      | Some key \<Rightarrow>
          merge_groups rows
            (if list_ex (\<lambda>x. dc_departmentKey x = key \<and> dc_companyId x = c) merged
             then map (\<lambda>x. if dc_departmentKey x = key \<and> dc_companyId x = c then x\<lparr>dc_people := dc_people x + n\<rparr> else x) merged
             else merged @ [\<lparr>dc_department = trim department, dc_departmentKey = key, dc_companyId = c, dc_people = n\<rparr>]))"

definition listDepartments :: "reader_db \<Rightarrow> uid option \<Rightarrow> department_count list" where
  "listDepartments db companyId =
     js_sort (\<lambda>a b. if dc_department a \<le> dc_department b then 0 else 1) (merge_groups (department_groups db companyId) [])"

definition listSuperAdminIds :: "reader_db \<Rightarrow> uid list" where
  "listSuperAdminIds db =
     map (pf_id \<circ> ue_facts) (filter (\<lambda>u. active_entry u \<and> pf_role (ue_facts u) = SUPER_ADMIN) (rd_users db))"

definition listOrgAdminIds :: "reader_db \<Rightarrow> uid \<Rightarrow> uid list" where
  "listOrgAdminIds db companyId =
     map (pf_id \<circ> ue_facts)
       (filter (\<lambda>u. active_entry u \<and> pf_companyId (ue_facts u) = Some companyId \<and> pf_role (ue_facts u) = ADMIN) (rd_users db))"

definition listDepartmentManagerIds :: "reader_db \<Rightarrow> uid \<Rightarrow> uid list" where
  "listDepartmentManagerIds db departmentId =
     map fst (filter (\<lambda>(m, d). d = departmentId \<and> department_live db d
         \<and> list_ex (\<lambda>u. pf_id (ue_facts u) = m \<and> active_entry u \<and> pf_role (ue_facts u) = MANAGER) (rd_users db))
       (rd_managed db))"

section \<open>Lemmas\<close>

lemma toPerson_simps [simp]:
  "pf_id (toPerson db r) = pf_id (ue_facts r)" "pf_role (toPerson db r) = pf_role (ue_facts r)"
  "pf_companyId (toPerson db r) = pf_companyId (ue_facts r)" "pf_departmentId (toPerson db r) = pf_departmentId (ue_facts r)"
  "se_active (toPerson db r) = active_entry r"
  by (simp_all add: toPerson_def active_entry_def Let_def)

lemma findById_person_Some:
  "findById_person db i = Some p \<Longrightarrow> \<exists>u \<in> set (rd_users db). p = toPerson db u \<and> pf_id (ue_facts u) = i \<and> ue_deletedAt u = None"
  by (auto simp: findById_person_def dest: find_Some_set)

end
