(* ===== verification/Focus_Adjustments.thy ===== *)
theory Focus_Adjustments
  imports Shift_People Settings
begin

text \<open>
  Manual focus adjustments: \<open>src/src/modules/worktime/application/focus-adjustments.service.ts\<close> on
  \<open>infrastructure/prisma-focus-adjustment.repository.ts\<close> (rules of \<open>domain/focus-adjustment.ts\<close>), with
  the notice the person gets (\<open>domain/notice-copy.ts\<close>).

  The adjustments are the rows of the table, newest last; the month locks are those of the break
  tables, the people those of the batch reader, and an organisation's settings are under its id's
  decimal text. A notice that cannot be sent is logged and nothing else changes.
\<close>

section \<open>Rows\<close>

record new_adjustment =
  na_userId :: uid
  na_date :: string
  na_deltaSec :: int
  na_reason :: string
  na_createdById :: uid

record focus_adjustment =
  fa_id :: uid
  fa_data :: new_adjustment
  fa_createdAt :: int
  fa_voidedAt :: "int option"
  fa_voidedById :: "uid option"

record notice =
  nc_userIds :: "uid list"
  nc_title :: string
  nc_body :: string
  nc_byId :: uid

record adjust_db =
  aj_rows :: "focus_adjustment list"
  aj_nextId :: uid
  aj_tables :: break_db
  aj_people :: reader_db
  aj_settings :: settings_state
  aj_notices :: "notice list"

section \<open>The repository\<close>

definition adjustmentsBetween :: "adjust_db \<Rightarrow> uid list \<Rightarrow> string \<Rightarrow> string \<Rightarrow> focus_adjustment list" where
  "adjustmentsBetween d ids fromDate toDate =
     (if ids = [] then []
      else js_sort (\<lambda>a b. fa_createdAt b - fa_createdAt a)
        (filter (\<lambda>a. na_userId (fa_data a) \<in> set ids \<and> fromDate \<le> na_date (fa_data a) \<and> na_date (fa_data a) \<le> toDate) (aj_rows d)))"

record adjustment_filter =
  af_userId :: "uid option"
  af_userIds :: "uid list option"
  af_month :: "string option"
  af_companyId :: "uid option"
  af_includeVoided :: bool
  af_limit :: "int option"

definition adjustment_where :: "adjust_db \<Rightarrow> adjustment_filter \<Rightarrow> focus_adjustment \<Rightarrow> bool" where
  "adjustment_where d f a =
     (let u = na_userId (fa_data a) in
      asked (af_userId f) (\<lambda>i. u = i)
      \<and> asked (af_userIds f) (\<lambda>ids. u \<in> set ids)
      \<and> asked (af_companyId f) (\<lambda>c. list_ex (\<lambda>p. pf_id (ue_facts p) = u \<and> pf_companyId (ue_facts p) = Some c) (rd_users (aj_people d)))
      \<and> asked_text (af_month f) (\<lambda>m. take (length m + 1) (na_date (fa_data a)) = m @ ''-'')
      \<and> (af_includeVoided f \<or> fa_voidedAt a = None))"

definition list_adjustments :: "adjust_db \<Rightarrow> adjustment_filter \<Rightarrow> focus_adjustment list" where
  "list_adjustments d f =
     take (nat (min 500 (max 1 (coalesce (af_limit f) 100))))
       (js_sort (\<lambda>a b. fa_createdAt b - fa_createdAt a) (filter (adjustment_where d f) (aj_rows d)))"

definition find_adjustment :: "adjust_db \<Rightarrow> uid \<Rightarrow> focus_adjustment option" where
  "find_adjustment d i = List.find (\<lambda>a. fa_id a = i) (aj_rows d)"

definition create_adjustment :: "new_adjustment \<Rightarrow> int \<Rightarrow> adjust_db \<Rightarrow> focus_adjustment result \<times> adjust_db" where
  "create_adjustment n now d =
     (case assertMonthOpen (aj_tables d) (na_date n) (na_userId n) of
        Inl e \<Rightarrow> (throw e, d)
      | Inr _ \<Rightarrow>
          (let row = \<lparr>fa_id = aj_nextId d, fa_data = n, fa_createdAt = now, fa_voidedAt = None, fa_voidedById = None\<rparr>
           in (return row, d\<lparr>aj_rows := aj_rows d @ [row], aj_nextId := aj_nextId d + 1\<rparr>)))"

text \<open>\<open>return None\<close> is the null of an adjustment that is unknown or void already.\<close>

definition void_adjustment :: "uid \<Rightarrow> uid \<Rightarrow> int \<Rightarrow> adjust_db \<Rightarrow> focus_adjustment option result \<times> adjust_db" where
  "void_adjustment i byId now d =
     (case find_adjustment d i of
        None \<Rightarrow> (return None, d)
      | Some current \<Rightarrow>
          if fa_voidedAt current \<noteq> None then (return None, d)
          else (case assertMonthOpen (aj_tables d) (na_date (fa_data current)) (na_userId (fa_data current)) of
                  Inl e \<Rightarrow> (throw e, d)
                | Inr _ \<Rightarrow>
                    (let row = current\<lparr>fa_voidedAt := Some now, fa_voidedById := Some byId\<rparr>
                     in (return (Some row), d\<lparr>aj_rows := map (\<lambda>a. if fa_id a = i then row else a) (aj_rows d)\<rparr>))))"

definition namesOf :: "adjust_db \<Rightarrow> uid list \<Rightarrow> (uid \<times> string \<times> string \<times> string option) list" where
  "namesOf d ids =
     (if ids = [] then []
      else map (\<lambda>u. (pf_id (ue_facts u), ue_firstName u, ue_lastName u,
                     map_option ce_name (company_entry_of (aj_people d) (pf_companyId (ue_facts u)))))
             (filter (\<lambda>u. pf_id (ue_facts u) \<in> set (js_unique ids)) (rd_users (aj_people d))))"

section \<open>The notice\<close>

definition SHORT :: "string list" where
  "SHORT = [''Jan'', ''Feb'', ''Mar'', ''Apr'', ''May'', ''Jun'', ''Jul'', ''Aug'', ''Sep'', ''Oct'', ''Nov'', ''Dec'']"

definition shortDay :: "string \<Rightarrow> string" where
  "shortDay dateKey =
     (case key_parts dateKey of
        Some (_, m, d) \<Rightarrow> if 1 \<le> m \<and> m \<le> 12 then show_int d @ '' '' @ SHORT ! nat (m - 1) else dateKey
      | None \<Rightarrow> dateKey)"

text \<open>\<open>Math.round(Math.abs(deltaSec) / 60)\<close>\<close>

definition adjusted_minutes :: "int \<Rightarrow> int" where
  "adjusted_minutes deltaSec = round_div \<bar>deltaSec\<bar> 60"

text \<open>The sign stands before the text: True for the minus sign U+2212, False for a plus.\<close>

definition signedMinutes :: "int \<Rightarrow> bool \<times> string" where
  "signedMinutes deltaSec = (deltaSec < 0, show_int (adjusted_minutes deltaSec) @ '' min'')"

definition focusAdjustedCopy :: "string \<Rightarrow> int \<Rightarrow> string \<Rightarrow> bool \<Rightarrow> string \<times> string" where
  "focusAdjustedCopy date deltaSec reason voided =
     (let mins = show_int (adjusted_minutes deltaSec); day = shortDay date in
      if voided then
        (''Adjustment undone: '' @ day,
         ''The '' @ mins @ '' minutes '' @ (if deltaSec < 0 then ''taken off'' else ''added to'') @ '' your focus time for '' @ day
         @ '' have been undone. That day is back to what the app recorded.'')
      else
        (''Focus time adjusted: '' @ day,
         ''The Super Manager '' @ (if deltaSec < 0 then ''took '' @ mins @ '' minutes off'' else ''added '' @ mins @ '' minutes to'')
         @ '' your focus time for '' @ day @ '': '' @ reason))"

definition tell_adjusted :: "uid \<Rightarrow> focus_adjustment \<Rightarrow> uid \<Rightarrow> adjust_db \<Rightarrow> adjust_db" where
  "tell_adjusted targetId a byId d =
     (let (title, body) = focusAdjustedCopy (na_date (fa_data a)) (na_deltaSec (fa_data a)) (na_reason (fa_data a)) (fa_voidedAt a \<noteq> None)
      in d\<lparr>aj_notices := aj_notices d @ [\<lparr>nc_userIds = [targetId], nc_title = title, nc_body = body, nc_byId = byId\<rparr>]\<rparr>)"

section \<open>The service\<close>

definition assertSuperManager :: "auth_user \<Rightarrow> unit result" where
  "assertSuperManager me = (if \<not> mayAdjustFocus me then throw (ForbiddenError ''FORBIDDEN'') else return ())"

definition shift_facts :: "shift_entry \<Rightarrow> person_facts" where
  "shift_facts p = \<lparr>pf_id = pf_id p, pf_role = pf_role p, pf_companyId = pf_companyId p, pf_departmentId = pf_departmentId p\<rparr>"

definition reachable_subject :: "auth_user \<Rightarrow> uid option \<Rightarrow> shift_entry \<Rightarrow> bool" where
  "reachable_subject me org target =
     (pf_companyId target \<noteq> None \<and> pf_role target \<noteq> SUPER_ADMIN
      \<and> (case org of Some _ \<Rightarrow> canSeePerson me (shift_facts target) | None \<Rightarrow> True))"

definition adjusted_person :: "auth_user \<Rightarrow> uid \<Rightarrow> adjust_db \<Rightarrow> shift_entry result" where
  "adjusted_person me userId d =
     (if userId = u_id me then throw (ForbiddenError ''FORBIDDEN'')
      else and_then (orgInView me) (\<lambda>org.
        case findById_person (aj_people d) userId of
          None \<Rightarrow> throw (NotFoundError ''NOT_FOUND'')
        | Some target \<Rightarrow> if \<not> reachable_subject me org target then throw (NotFoundError ''NOT_FOUND'') else return target))"

definition settings_id :: "uid \<Rightarrow> string" where
  "settings_id c = show_nat c"

definition assertEnabledFor :: "uid option \<Rightarrow> int \<Rightarrow> adjust_db \<Rightarrow> unit result \<times> adjust_db" where
  "assertEnabledFor companyId now d =
     (case getSettings (map_option settings_id companyId) now (aj_settings d) of
        (v, st) \<Rightarrow>
          (if v FocusAdjustmentsEnabled = JBool False then throw (ConflictError ''ADJUSTMENTS_OFF'') else return (),
           d\<lparr>aj_settings := st\<rparr>))"

definition ADJUSTMENT_MAX_AGE_DAYS :: int where
  "ADJUSTMENT_MAX_AGE_DAYS = 62"

record adjust_input =
  ai_userId :: uid
  ai_date :: string
  ai_minutes :: minutes_value
  ai_reason :: "string option"

definition save_adjustment :: "auth_user \<Rightarrow> new_adjustment \<Rightarrow> int \<Rightarrow> adjust_db \<Rightarrow> focus_adjustment result \<times> adjust_db" where
  "save_adjustment me n now d =
     (case create_adjustment n now d of
        (Inl e, d') \<Rightarrow> (throw e, d')
      | (Inr saved, d') \<Rightarrow> (return saved, tell_adjusted (na_userId n) saved (u_id me) d'))"

definition adjust :: "auth_user \<Rightarrow> adjust_input \<Rightarrow> zone \<Rightarrow> int \<Rightarrow> adjust_db \<Rightarrow> focus_adjustment result \<times> adjust_db" where
  "adjust me input tz now d =
     (case and_then (assertSuperManager me) (\<lambda>_. adjusted_person me (ai_userId input) d) of
        Inl e \<Rightarrow> (throw e, d)
      | Inr target \<Rightarrow>
          (case assertEnabledFor (pf_companyId target) now d of
             (Inl e, d1) \<Rightarrow> (throw e, d1)
           | (Inr _, d1) \<Rightarrow>
               (let today = dateKeyInZone now tz in
                case checkAdjustment (ai_minutes input) (ai_reason input) (ai_date input) today
                       (addDaysToKey today (- ADJUSTMENT_MAX_AGE_DAYS)) of
                  AdjBad field \<Rightarrow> (throw (ValidationError ''VALIDATION_ERROR''), d1)
                | AdjOk deltaSec reason \<Rightarrow>
                    save_adjustment me
                      \<lparr>na_userId = pf_id target, na_date = ai_date input, na_deltaSec = deltaSec, na_reason = reason,
                       na_createdById = u_id me\<rparr> now d1)))"

definition undo_adjustment :: "auth_user \<Rightarrow> uid \<Rightarrow> int \<Rightarrow> shift_entry \<Rightarrow> adjust_db \<Rightarrow> focus_adjustment result \<times> adjust_db" where
  "undo_adjustment me i now target d =
     (case assertEnabledFor (pf_companyId target) now d of
        (Inl e, d1) \<Rightarrow> (throw e, d1)
      | (Inr _, d1) \<Rightarrow>
          (case void_adjustment i (u_id me) now d1 of
             (Inl e, d2) \<Rightarrow> (throw e, d2)
           | (Inr None, d2) \<Rightarrow> (throw (ConflictError ''ALREADY_VOID''), d2)
           | (Inr (Some voided), d2) \<Rightarrow> (return voided, tell_adjusted (pf_id target) voided (u_id me) d2)))"

definition undo :: "auth_user \<Rightarrow> uid \<Rightarrow> int \<Rightarrow> adjust_db \<Rightarrow> focus_adjustment result \<times> adjust_db" where
  "undo me i now d =
     (case assertSuperManager me of
        Inl e \<Rightarrow> (throw e, d)
      | Inr _ \<Rightarrow>
          (case find_adjustment d i of
             None \<Rightarrow> (throw (NotFoundError ''NOT_FOUND''), d)
           | Some current \<Rightarrow>
               (case adjusted_person me (na_userId (fa_data current)) d of
                  Inl e \<Rightarrow> (throw e, d)
                | Inr target \<Rightarrow>
                    if fa_voidedAt current \<noteq> None then (throw (ConflictError ''ALREADY_VOID''), d)
                    else undo_adjustment me i now target d)))"

record adjustments_query =
  lq_userId :: "uid option"
  lq_month :: "string option"
  lq_companyId :: "uid option"
  lq_includeVoided :: "bool option"
  lq_limit :: "int option"

definition adjustments_for :: "adjust_db \<Rightarrow> adjustments_query \<Rightarrow> uid list option \<Rightarrow> uid option \<Rightarrow> focus_adjustment list" where
  "adjustments_for d q userIds companyId =
     list_adjustments d \<lparr>af_userId = lq_userId q, af_userIds = userIds, af_month = lq_month q, af_companyId = companyId,
       af_includeVoided = coalesce (lq_includeVoided q) True, af_limit = lq_limit q\<rparr>"

definition list_for :: "auth_user \<Rightarrow> adjustments_query \<Rightarrow> zone \<Rightarrow> int \<Rightarrow> adjust_db \<Rightarrow> focus_adjustment list result" where
  "list_for me q tz now d =
     (if seesEveryOrg (u_role me) then
        and_then (orgInView me) (\<lambda>org. return (adjustments_for d q None (or_else org (lq_companyId q))))
      else if seesWholeOrg me then
        and_then (requireOrg me) (\<lambda>org. return (adjustments_for d q None (Some org)))
      else
        and_then (assertManagerOrAdmin me) (\<lambda>_.
        and_then (people_scope (aj_people d) tz me (whole_team ''0000-01-01'' (dateKeyInZone now tz))) (\<lambda>team.
          let userIds = map pf_id team in
          if (case lq_userId q of Some i \<Rightarrow> i \<notin> set userIds | None \<Rightarrow> False) then return []
          else return (adjustments_for d q (Some userIds) None))))"

definition mine :: "auth_user \<Rightarrow> string option \<Rightarrow> adjust_db \<Rightarrow> focus_adjustment list" where
  "mine me month d =
     list_adjustments d \<lparr>af_userId = Some (u_id me), af_userIds = None, af_month = month, af_companyId = None,
       af_includeVoided = False, af_limit = Some 100\<rparr>"

record adjustment_view =
  av_row :: focus_adjustment
  av_userName :: string
  av_companyName :: "string option"
  av_label :: "bool \<times> string"
  av_createdByName :: string
  av_voidedByName :: "string option"

definition name_in :: "(uid \<times> string \<times> string \<times> string option) list \<Rightarrow> uid \<Rightarrow> string" where
  "name_in people i = (case map_of people i of Some (f, l, _) \<Rightarrow> full_name f l | None \<Rightarrow> ''Former user'')"

definition adjustment_ids :: "focus_adjustment list \<Rightarrow> uid list" where
  "adjustment_ids rows =
     js_unique (concat (map (\<lambda>r. [na_userId (fa_data r), na_createdById (fa_data r)]
       @ (case fa_voidedById r of Some v \<Rightarrow> [v] | None \<Rightarrow> [])) rows))"

definition adjustment_views :: "adjust_db \<Rightarrow> focus_adjustment list \<Rightarrow> adjustment_view list" where
  "adjustment_views d rows =
     (let people = namesOf d (adjustment_ids rows) in
      map (\<lambda>r. \<lparr>av_row = r, av_userName = name_in people (na_userId (fa_data r)),
                av_companyName = (case map_of people (na_userId (fa_data r)) of Some (_, _, c) \<Rightarrow> c | None \<Rightarrow> None),
                av_label = signedMinutes (na_deltaSec (fa_data r)),
                av_createdByName = name_in people (na_createdById (fa_data r)),
                av_voidedByName = map_option (name_in people) (fa_voidedById r)\<rparr>) rows)"


section \<open>What a call changes\<close>

definition adjustment_ok :: "new_adjustment \<Rightarrow> bool" where
  "adjustment_ok n \<longleftrightarrow> na_userId n \<noteq> na_createdById n \<and> na_deltaSec n \<noteq> 0 \<and> \<bar>na_deltaSec n\<bar> \<le> 43200 \<and> na_deltaSec n mod 60 = 0
     \<and> 5 \<le> length (na_reason n) \<and> length (na_reason n) \<le> 300"

definition added_row :: "adjust_db \<Rightarrow> adjust_db \<Rightarrow> bool" where
  "added_row d d' \<longleftrightarrow> (\<exists>n t. adjustment_ok n \<and> \<not> isMonthLocked (aj_tables d) (na_date n) (na_userId n)
     \<and> aj_rows d' = aj_rows d @ [\<lparr>fa_id = aj_nextId d, fa_data = n, fa_createdAt = t, fa_voidedAt = None, fa_voidedById = None\<rparr>]
     \<and> aj_nextId d' = aj_nextId d + 1)"

definition voided_row :: "adjust_db \<Rightarrow> adjust_db \<Rightarrow> bool" where
  "voided_row d d' \<longleftrightarrow> (\<exists>cur t by. find_adjustment d (fa_id cur) = Some cur \<and> fa_voidedAt cur = None
     \<and> \<not> isMonthLocked (aj_tables d) (na_date (fa_data cur)) (na_userId (fa_data cur))
     \<and> aj_rows d' = map (\<lambda>a. if fa_id a = fa_id cur then cur\<lparr>fa_voidedAt := Some t, fa_voidedById := Some by\<rparr> else a) (aj_rows d)
     \<and> aj_nextId d' = aj_nextId d)"

definition same_adjustments :: "adjust_db \<Rightarrow> adjust_db \<Rightarrow> bool" where
  "same_adjustments d d' \<longleftrightarrow> aj_rows d' = aj_rows d \<and> aj_nextId d' = aj_nextId d"

lemma adjusted_person_ok:
  assumes "adjusted_person me i d = return target"
  shows "pf_id target = i" "i \<noteq> u_id me" "pf_role target \<noteq> SUPER_ADMIN" "pf_companyId target \<noteq> None"
    "orgInView me = return (Some org) \<Longrightarrow> canSeePerson me (shift_facts target)"
proof -
  have ne: "i \<noteq> u_id me" using assms by (simp add: adjusted_person_def split: if_splits)
  obtain v where v: "orgInView me = return v" using assms ne by (cases "orgInView me") (simp_all add: adjusted_person_def)
  obtain q where q: "findById_person (aj_people d) i = Some q"
    using assms ne v by (cases "findById_person (aj_people d) i") (simp_all add: adjusted_person_def)
  have t: "reachable_subject me v q" "q = target"
    using assms ne v q by (simp_all add: adjusted_person_def split: if_splits)
  then show "pf_id target = i" "i \<noteq> u_id me" "pf_role target \<noteq> SUPER_ADMIN" "pf_companyId target \<noteq> None"
    using findById_person_Some [OF q] ne by (auto simp: reachable_subject_def)
  show "orgInView me = return (Some org) \<Longrightarrow> canSeePerson me (shift_facts target)"
    using v t by (simp add: reachable_subject_def)
qed

lemma checkAdjustment_ok:
  assumes "checkAdjustment m r date today oldest = AdjOk s t"
  shows "s \<noteq> 0 \<and> \<bar>s\<bar> \<le> 43200 \<and> s mod 60 = 0 \<and> 5 \<le> length t \<and> length t \<le> 300 \<and> date \<le> today \<and> oldest \<le> date"
  using assms by (cases m) (auto simp: checkAdjustment_def ADJUSTMENT_MAX_MIN_def Let_def split: if_splits)

lemma assertEnabledFor_db:
  "assertEnabledFor c now d = (r, d') \<Longrightarrow> same_adjustments d d' \<and> aj_tables d' = aj_tables d \<and> aj_people d' = aj_people d"
  by (auto simp: assertEnabledFor_def same_adjustments_def split: prod.splits)

lemma tell_adjusted_db [simp]:
  "aj_rows (tell_adjusted t a by d) = aj_rows d" "aj_nextId (tell_adjusted t a by d) = aj_nextId d"
  "aj_tables (tell_adjusted t a by d) = aj_tables d"
  by (simp_all add: tell_adjusted_def Let_def case_prod_beta)

lemma create_adjustment_change:
  assumes "create_adjustment n now d = (r, d')" "adjustment_ok n"
  shows "(same_adjustments d d' \<or> added_row d d') \<and> aj_tables d' = aj_tables d"
  using assms by (auto simp: create_adjustment_def assertMonthOpen_def same_adjustments_def added_row_def Let_def split: if_splits)

lemma void_adjustment_change:
  assumes "void_adjustment i by now d = (r, d')"
  shows "(same_adjustments d d' \<or> voided_row d d') \<and> aj_tables d' = aj_tables d"
proof (cases "find_adjustment d i")
  case None
  then show ?thesis using assms by (auto simp: void_adjustment_def same_adjustments_def)
next
  case (Some cur)
  then have i: "fa_id cur = i" by (auto simp: find_adjustment_def find_Some_iff)
  show ?thesis
  proof (cases "fa_voidedAt cur = None \<and> \<not> isMonthLocked (aj_tables d) (na_date (fa_data cur)) (na_userId (fa_data cur))")
    case True
    then have "voided_row d d'" unfolding voided_row_def
      using assms Some i by (intro exI [of _ cur] exI [of _ now] exI [of _ "by"])
        (auto simp: void_adjustment_def assertMonthOpen_def Let_def)
    then show ?thesis using assms Some True by (auto simp: void_adjustment_def assertMonthOpen_def Let_def)
  next
    case False
    then show ?thesis using assms Some
      by (auto simp: void_adjustment_def assertMonthOpen_def same_adjustments_def split: if_splits)
  qed
qed

lemma same_then:
  assumes "same_adjustments d d1" "aj_tables d1 = aj_tables d"
  shows "added_row d1 d' = added_row d d'" "voided_row d1 d' = voided_row d d'" "same_adjustments d1 d' = same_adjustments d d'"
  using assms by (simp_all add: same_adjustments_def added_row_def voided_row_def find_adjustment_def)

lemma then_same:
  assumes "aj_rows d' = aj_rows d2 \<and> aj_nextId d' = aj_nextId d2 \<and> aj_tables d' = aj_tables d2"
  shows "added_row d d' = added_row d d2" "voided_row d d' = voided_row d d2" "same_adjustments d d' = same_adjustments d d2"
  using assms by (simp_all add: same_adjustments_def added_row_def voided_row_def)

lemma adjust_change:
  assumes "adjust me input tz now d = (r, d')"
  shows "(same_adjustments d d' \<or> added_row d d') \<and> aj_tables d' = aj_tables d"
proof (cases "and_then (assertSuperManager me) (\<lambda>_. adjusted_person me (ai_userId input) d)")
  case (Inl e)
  then show ?thesis using assms by (simp add: adjust_def same_adjustments_def)
next
  case (Inr target)
  then have t: "pf_id target \<noteq> u_id me" using adjusted_person_ok [of me "ai_userId input" d target] by auto
  obtain r1 d1 where e: "assertEnabledFor (pf_companyId target) now d = (r1, d1)" by (cases "assertEnabledFor (pf_companyId target) now d")
  note s = assertEnabledFor_db [OF e]
  show ?thesis
  proof (cases r1)
    case (Inl err)
    then show ?thesis using assms Inr e s by (simp add: adjust_def)
  next
    case i: (Inr u)
    show ?thesis
    proof (cases "checkAdjustment (ai_minutes input) (ai_reason input) (ai_date input) (dateKeyInZone now tz)
        (addDaysToKey (dateKeyInZone now tz) (- ADJUSTMENT_MAX_AGE_DAYS))")
      case (AdjBad f)
      then show ?thesis using assms Inr e s i by (simp add: adjust_def Let_def)
    next
      case (AdjOk delta reason)
      let ?n = "\<lparr>na_userId = pf_id target, na_date = ai_date input, na_deltaSec = delta, na_reason = reason, na_createdById = u_id me\<rparr>"
      obtain r2 d2 where c: "create_adjustment ?n now d1 = (r2, d2)" by (cases "create_adjustment ?n now d1")
      have "adjustment_ok ?n" using checkAdjustment_ok [OF AdjOk] t by (simp add: adjustment_ok_def)
      from create_adjustment_change [OF c this] have "(same_adjustments d d2 \<or> added_row d d2) \<and> aj_tables d2 = aj_tables d"
        using s same_then [of d d1 d2] by simp
      moreover have "aj_rows d' = aj_rows d2 \<and> aj_nextId d' = aj_nextId d2 \<and> aj_tables d' = aj_tables d2"
        using assms Inr e i AdjOk c by (auto simp: adjust_def save_adjustment_def Let_def split: sum.splits)
      ultimately show ?thesis using then_same [of d' d2 d] by auto
    qed
  qed
qed

lemma undo_change:
  assumes "undo me i now d = (r, d')"
  shows "(same_adjustments d d' \<or> voided_row d d') \<and> aj_tables d' = aj_tables d"
proof -
  have "d' = d \<or> (\<exists>target r. undo_adjustment me i now target d = (r, d'))"
    using assms by (auto simp: undo_def split: sum.splits option.splits if_splits)
  then show ?thesis
  proof
    assume "\<exists>target r. undo_adjustment me i now target d = (r, d')"
    then obtain target r where u: "undo_adjustment me i now target d = (r, d')" by blast
    obtain r1 d1 where e: "assertEnabledFor (pf_companyId target) now d = (r1, d1)" by (cases "assertEnabledFor (pf_companyId target) now d")
    note s = assertEnabledFor_db [OF e]
    obtain r2 d2 where v: "void_adjustment i (u_id me) now d1 = (r2, d2)" by (cases "void_adjustment i (u_id me) now d1")
    have c: "(same_adjustments d d2 \<or> voided_row d d2) \<and> aj_tables d2 = aj_tables d"
      using void_adjustment_change [OF v] s same_then [of d d1 d2] by simp
    have "d' = d1 \<or> aj_rows d' = aj_rows d2 \<and> aj_nextId d' = aj_nextId d2 \<and> aj_tables d' = aj_tables d2"
      using u e v by (auto simp: undo_adjustment_def split: sum.splits option.splits)
    then show ?thesis using c s then_same [of d' d2 d] by auto
  qed (simp add: same_adjustments_def)
qed


section \<open>Over a history\<close>

text \<open>A month is locked and stays locked, and nobody moves between organisations: unlocking a month and editing an account
  are not steps of these histories.\<close>

datatype adjust_op = Adjust auth_user adjust_input | Undo auth_user uid | LockPayroll uid string | SaveSection string raw

fun adjust_step :: "zone \<Rightarrow> int \<Rightarrow> adjust_op \<Rightarrow> adjust_db \<Rightarrow> adjust_db" where
  "adjust_step tz now (Adjust me input) d = snd (adjust me input tz now d)"
| "adjust_step tz now (Undo me i) d = snd (undo me i now d)"
| "adjust_step tz now (LockPayroll c m) d =
     d\<lparr>aj_tables := (aj_tables d)\<lparr>db_monthLocks := insert (c, m) (db_monthLocks (aj_tables d))\<rparr>\<rparr>"
| "adjust_step tz now (SaveSection c patch) d = d\<lparr>aj_settings := snd (writeRaw c patch now (aj_settings d))\<rparr>"

fun adjust_run :: "zone \<Rightarrow> (int \<times> adjust_op) list \<Rightarrow> adjust_db \<Rightarrow> adjust_db" where
  "adjust_run tz [] d = d"
| "adjust_run tz ((now, x) # ops) d = adjust_run tz ops (adjust_step tz now x d)"

definition rows_ok :: "adjust_db \<Rightarrow> bool" where
  "rows_ok d \<longleftrightarrow> distinct (map fa_id (aj_rows d)) \<and> (\<forall>a \<in> set (aj_rows d). fa_id a < aj_nextId d \<and> adjustment_ok (fa_data a))"

definition kept_as :: "focus_adjustment \<Rightarrow> focus_adjustment \<Rightarrow> bool" where
  "kept_as a a' \<longleftrightarrow> fa_id a' = fa_id a \<and> fa_data a' = fa_data a \<and> fa_createdAt a' = fa_createdAt a
     \<and> (fa_voidedAt a \<noteq> None \<longrightarrow> a' = a)"

definition trail_kept :: "adjust_db \<Rightarrow> adjust_db \<Rightarrow> bool" where
  "trail_kept d d' \<longleftrightarrow> (\<forall>a \<in> set (aj_rows d). \<exists>a' \<in> set (aj_rows d'). kept_as a a')"

definition day_rows :: "adjust_db \<Rightarrow> uid \<Rightarrow> string \<Rightarrow> focus_adjustment list" where
  "day_rows d u date = filter (\<lambda>a. na_userId (fa_data a) = u \<and> na_date (fa_data a) = date) (aj_rows d)"

definition locked_kept :: "adjust_db \<Rightarrow> adjust_db \<Rightarrow> bool" where
  "locked_kept d d' \<longleftrightarrow> (\<forall>u date. isMonthLocked (aj_tables d) date u \<longrightarrow>
     isMonthLocked (aj_tables d') date u \<and> day_rows d' u date = day_rows d u date)"

definition goes_on :: "adjust_db \<Rightarrow> adjust_db \<Rightarrow> bool" where
  "goes_on d d' \<longleftrightarrow> rows_ok d' \<and> trail_kept d d' \<and> locked_kept d d'"

lemma kept_refl [simp]: "kept_as a a"
  by (simp add: kept_as_def)

lemma goes_on_same: "rows_ok d \<Longrightarrow> same_adjustments d d' \<Longrightarrow> aj_tables d' = aj_tables d \<Longrightarrow> goes_on d d'"
  by (auto simp: goes_on_def same_adjustments_def rows_ok_def trail_kept_def locked_kept_def day_rows_def intro: kept_refl)

lemma goes_on_added:
  assumes ok: "rows_ok d" and a: "added_row d d'" and t: "aj_tables d' = aj_tables d"
  shows "goes_on d d'"
proof -
  obtain n w where n: "adjustment_ok n" "\<not> isMonthLocked (aj_tables d) (na_date n) (na_userId n)"
    "aj_rows d' = aj_rows d @ [\<lparr>fa_id = aj_nextId d, fa_data = n, fa_createdAt = w, fa_voidedAt = None, fa_voidedById = None\<rparr>]"
    "aj_nextId d' = aj_nextId d + 1"
    using a by (auto simp: added_row_def)
  have "rows_ok d'" using ok n by (auto simp: rows_ok_def)
  moreover have "trail_kept d d'" using n by (auto simp: trail_kept_def intro: kept_refl)
  moreover have "locked_kept d d'" using n t by (auto simp: locked_kept_def day_rows_def)
  ultimately show ?thesis by (simp add: goes_on_def)
qed

lemma goes_on_voided:
  assumes ok: "rows_ok d" and a: "voided_row d d'" and t: "aj_tables d' = aj_tables d"
  shows "goes_on d d'"
proof -
  obtain cur w b where c: "find_adjustment d (fa_id cur) = Some cur" "fa_voidedAt cur = None"
    "\<not> isMonthLocked (aj_tables d) (na_date (fa_data cur)) (na_userId (fa_data cur))"
    and r: "aj_rows d' = map (\<lambda>a. if fa_id a = fa_id cur then cur\<lparr>fa_voidedAt := Some w, fa_voidedById := Some b\<rparr> else a) (aj_rows d)"
    "aj_nextId d' = aj_nextId d"
    using a by (auto simp: voided_row_def)
  have one: "a = cur" if "a \<in> set (aj_rows d)" "fa_id a = fa_id cur" for a
  proof -
    have "cur \<in> set (aj_rows d)" using c(1) by (auto simp: find_adjustment_def dest: find_Some_set)
    moreover have "inj_on fa_id (set (aj_rows d))" using ok by (simp add: rows_ok_def distinct_map)
    ultimately show ?thesis using that by (auto dest: inj_onD)
  qed
  let ?f = "\<lambda>a. if fa_id a = fa_id cur then cur\<lparr>fa_voidedAt := Some w, fa_voidedById := Some b\<rparr> else a"
  have f: "fa_id (?f a) = fa_id a" "kept_as a (?f a)" if "a \<in> set (aj_rows d)" for a
    using one [OF that] c(2) by (auto simp: kept_as_def)
  have "map fa_id (aj_rows d') = map fa_id (aj_rows d)" using f(1) by (simp add: r)
  moreover have "fa_id (?f a) < aj_nextId d \<and> adjustment_ok (fa_data (?f a))" if "a \<in> set (aj_rows d)" for a
    using ok f [OF that] that by (simp only: rows_ok_def kept_as_def)
  then have "\<forall>a \<in> set (aj_rows d'). fa_id a < aj_nextId d' \<and> adjustment_ok (fa_data a)"
    by (simp only: r set_map ball_simps) blast
  ultimately have "rows_ok d'" using ok by (simp add: rows_ok_def)
  moreover have "trail_kept d d'"
    unfolding trail_kept_def r(1) set_map
  proof
    fix a assume a: "a \<in> set (aj_rows d)"
    show "\<exists>a' \<in> ?f ` set (aj_rows d). kept_as a a'" using f(2) [OF a] a by (intro bexI [of _ "?f a"] imageI)
  qed
  moreover have "day_rows d' u date = day_rows d u date" if l: "isMonthLocked (aj_tables d) date u" for u date
  proof -
    have d: "fa_data (?f a) = fa_data a" if "a \<in> set (aj_rows d)" for a
      using f(2) [OF that] by (simp only: kept_as_def)
    have "day_rows d' u date = map ?f (filter (\<lambda>a. na_userId (fa_data (?f a)) = u \<and> na_date (fa_data (?f a)) = date) (aj_rows d))"
      unfolding day_rows_def r by (simp add: filter_map comp_def)
    also have "filter (\<lambda>a. na_userId (fa_data (?f a)) = u \<and> na_date (fa_data (?f a)) = date) (aj_rows d) = day_rows d u date"
      unfolding day_rows_def using d by (intro filter_cong) auto
    also have "map ?f (day_rows d u date) = day_rows d u date"
      using l c(3) one by (intro map_idI) (auto simp: day_rows_def)
    finally show ?thesis .
  qed
  then have "locked_kept d d'" using t by (simp add: locked_kept_def)
  ultimately show ?thesis by (simp add: goes_on_def)
qed

lemma goes_on_step:
  assumes "rows_ok d"
  shows "goes_on d (adjust_step tz now x d)"
proof (cases x)
  case (Adjust me input)
  obtain r d' where a: "adjust me input tz now d = (r, d')" by (cases "adjust me input tz now d")
  then show ?thesis
    using adjust_change [OF a] goes_on_same [OF assms] goes_on_added [OF assms] by (auto simp: Adjust)
next
  case (Undo me i)
  obtain r d' where a: "undo me i now d = (r, d')" by (cases "undo me i now d")
  then show ?thesis
    using undo_change [OF a] goes_on_same [OF assms] goes_on_voided [OF assms] by (auto simp: Undo)
next
  case (LockPayroll c m)
  then show ?thesis using assms
    by (auto simp: goes_on_def rows_ok_def trail_kept_def locked_kept_def day_rows_def isMonthLocked_def
        intro: kept_refl split: option.splits)
next
  case (SaveSection c patch)
  then show ?thesis using goes_on_same [OF assms, of "adjust_step tz now x d"] by (simp add: same_adjustments_def)
qed

lemma kept_as_trans: "kept_as a b \<Longrightarrow> kept_as b c \<Longrightarrow> kept_as a c"
  by (auto simp: kept_as_def)

lemma goes_on_trans: "goes_on d d1 \<Longrightarrow> goes_on d1 d2 \<Longrightarrow> goes_on d d2"
  unfolding goes_on_def trail_kept_def locked_kept_def by (metis kept_as_trans)

lemma goes_on_run: "rows_ok d \<Longrightarrow> goes_on d (adjust_run tz ops d)"
proof (induction tz ops d rule: adjust_run.induct)
  case (1 tz d)
  then show ?case using goes_on_same by (simp add: same_adjustments_def)
next
  case (2 tz now x ops d)
  have s: "goes_on d (adjust_step tz now x d)" by (rule goes_on_step [OF 2(2)])
  then show ?case using 2(1) goes_on_trans [OF s] by (simp add: goes_on_def)
qed

definition fresh_adjustments :: "break_db \<Rightarrow> reader_db \<Rightarrow> settings_state \<Rightarrow> adjust_db" where
  "fresh_adjustments tables people st =
     \<lparr>aj_rows = [], aj_nextId = 1, aj_tables = tables, aj_people = people, aj_settings = st, aj_notices = []\<rparr>"

text \<open>C15: adjustments leave a trail and never touch a locked month. After any history, whatever is
  adjusted, undone, locked or switched in the settings from then on: every adjustment stored is for
  somebody other than its author, of whole minutes, not zero and at most twelve hours either way, with
  a reason of 5 to 300 characters; every adjustment that was there is still there with its data and
  date, one that was undone exactly as it was; and the adjustments of every person's day in a month
  locked for the person's organisation are the same list.\<close>

theorem adjustments_leave_a_trail:
  assumes "d = adjust_run tz ops (fresh_adjustments tables people st)"
  shows "(\<forall>a \<in> set (aj_rows (adjust_run tz later d)). adjustment_ok (fa_data a))
    \<and> (\<forall>a \<in> set (aj_rows d). \<exists>a' \<in> set (aj_rows (adjust_run tz later d)). kept_as a a')
    \<and> (\<forall>u date. isMonthLocked (aj_tables d) date u \<longrightarrow> day_rows (adjust_run tz later d) u date = day_rows d u date)"
proof -
  have "rows_ok (fresh_adjustments tables people st)" by (simp add: fresh_adjustments_def rows_ok_def)
  then have "rows_ok d" using goes_on_run assms by (simp add: goes_on_def)
  then have "goes_on d (adjust_run tz later d)" by (rule goes_on_run)
  then show ?thesis by (simp add: goes_on_def rows_ok_def trail_kept_def locked_kept_def)
qed

theorem adjustments_leave_a_trail_witness:
  "day_rows (adjust_run (\<lambda>_. 0) [(0, Undo sample_lead 1), (5, LockPayroll 1 ''2026-09'')]
     (adjust_run (\<lambda>_. 0) [(0, LockPayroll 1 ''2026-08'')]
       (fresh_adjustments (empty_db (\<lambda>_. Some 1) (\<lambda>_. 48)) sample_reader empty_settings))) 2 ''2026-08-03'' = []"
proof -
  let ?t = "empty_db (\<lambda>_. Some 1) (\<lambda>_. 48)"
  let ?d = "adjust_run (\<lambda>_. 0) [(0, LockPayroll 1 ''2026-08'')] (fresh_adjustments ?t sample_reader empty_settings)"
  have "isMonthLocked (aj_tables ?d) ''2026-08-03'' 2" "day_rows ?d 2 ''2026-08-03'' = []"
    by (simp_all add: fresh_adjustments_def isMonthLocked_def monthOf_def day_rows_def empty_db_def)
  then show ?thesis
    using adjustments_leave_a_trail [of ?d "\<lambda>_. 0" "[(0, LockPayroll 1 ''2026-08'')]" ?t sample_reader empty_settings
        "[(0, Undo sample_lead 1), (5, LockPayroll 1 ''2026-09'')]", OF refl]
    by (simp del: adjust_run.simps)
qed

text \<open>C16: only the Super Manager adjusts, and only within bounds. An adjustment is stored only for a Super
  Manager, for another person who is in an organisation, is no Super Admin and may be seen in the
  organisation in view, while that organisation allows adjustments, for a day from 62 days ago to
  today whose month is open; and the person is told.\<close>

theorem only_the_super_manager_adjusts:
  assumes "adjust me input tz now d = (return a, d')"
  shows "u_role me = SUPER_MANAGER \<and> ai_userId input \<noteq> u_id me
    \<and> (\<exists>target. findById_person (aj_people d) (ai_userId input) = Some target \<and> pf_companyId target \<noteq> None
         \<and> pf_role target \<noteq> SUPER_ADMIN
         \<and> (\<forall>org. orgInView me = return (Some org) \<longrightarrow> canSeePerson me (shift_facts target))
         \<and> fst (getSettings (map_option settings_id (pf_companyId target)) now (aj_settings d)) FocusAdjustmentsEnabled \<noteq> JBool False)
    \<and> ai_date input \<le> dateKeyInZone now tz \<and> addDaysToKey (dateKeyInZone now tz) (- 62) \<le> ai_date input
    \<and> \<not> isMonthLocked (aj_tables d) (ai_date input) (ai_userId input)
    \<and> nc_userIds (List.last (aj_notices d')) = [ai_userId input]"
proof -
  have role: "u_role me = SUPER_MANAGER"
    using assms by (simp add: adjust_def assertSuperManager_def mayAdjustFocus_def split: if_splits)
  obtain target where t: "adjusted_person me (ai_userId input) d = return target"
    using assms role by (cases "adjusted_person me (ai_userId input) d") (simp_all add: adjust_def assertSuperManager_def mayAdjustFocus_def)
  note s = adjusted_person_ok [OF t]
  obtain q where q: "findById_person (aj_people d) (ai_userId input) = Some q"
    using t s(2) by (cases "findById_person (aj_people d) (ai_userId input)"; cases "orgInView me") (simp_all add: adjusted_person_def)
  have qt: "q = target" using t q s(2) by (cases "orgInView me") (simp_all add: adjusted_person_def split: if_splits)
  obtain r1 d1 where e: "assertEnabledFor (pf_companyId target) now d = (r1, d1)" by (cases "assertEnabledFor (pf_companyId target) now d")
  have r1: "r1 = return ()" using assms role t e by (cases r1) (simp_all add: adjust_def assertSuperManager_def mayAdjustFocus_def)
  then have on: "fst (getSettings (map_option settings_id (pf_companyId target)) now (aj_settings d)) FocusAdjustmentsEnabled \<noteq> JBool False"
    using e by (auto simp: assertEnabledFor_def split: prod.splits if_splits)
  let ?c = "checkAdjustment (ai_minutes input) (ai_reason input) (ai_date input) (dateKeyInZone now tz)
      (addDaysToKey (dateKeyInZone now tz) (- ADJUSTMENT_MAX_AGE_DAYS))"
  obtain delta reason where c: "?c = AdjOk delta reason"
    using assms role t e r1 by (cases ?c) (simp_all add: adjust_def assertSuperManager_def mayAdjustFocus_def Let_def)
  let ?n = "\<lparr>na_userId = pf_id target, na_date = ai_date input, na_deltaSec = delta, na_reason = reason, na_createdById = u_id me\<rparr>"
  have sv: "save_adjustment me ?n now d1 = (return a, d')"
    using assms role t e r1 c by (simp add: adjust_def assertSuperManager_def mayAdjustFocus_def Let_def)
  then have lock: "\<not> isMonthLocked (aj_tables d1) (ai_date input) (pf_id target)"
    by (simp add: save_adjustment_def create_adjustment_def assertMonthOpen_def split: if_splits)
  have told: "nc_userIds (List.last (aj_notices d')) = [pf_id target]"
    using sv lock by (auto simp: save_adjustment_def create_adjustment_def assertMonthOpen_def tell_adjusted_def case_prod_beta Let_def)
  show ?thesis
    using role s q qt on lock told assertEnabledFor_db [OF e] checkAdjustment_ok [OF c] adjusted_person_ok(5) [OF t]
    by (auto simp: ADJUSTMENT_MAX_AGE_DAYS_def)
qed


definition sample_super_manager :: auth_user where
  "sample_super_manager = sample_lead\<lparr>u_role := SUPER_MANAGER, u_companyId := None, u_managedDepartmentIds := []\<rparr>"

theorem only_the_super_manager_adjusts_witness:
  "nc_userIds (List.last (aj_notices (snd (adjust sample_super_manager
     \<lparr>ai_userId = 2, ai_date = ''1970-01-01'', ai_minutes = WholeNumber 30, ai_reason = Some ''Agent crashed''\<rparr> (\<lambda>_. 0) 0
     (fresh_adjustments (empty_db (\<lambda>_. Some 1) (\<lambda>_. 48)) sample_reader empty_settings))))) = [2]"
proof -
  let ?i = "\<lparr>ai_userId = 2, ai_date = ''1970-01-01'', ai_minutes = WholeNumber 30, ai_reason = Some ''Agent crashed''\<rparr>"
  let ?d = "fresh_adjustments (empty_db (\<lambda>_. Some 1) (\<lambda>_. 48)) sample_reader empty_settings"
  have day: "dateKeyInZone 0 (\<lambda>_. 0) = ''1970-01-01''" "addDaysToKey ''1970-01-01'' (- ADJUSTMENT_MAX_AGE_DAYS) = ''1969-10-31''"
    "checkAdjustment (WholeNumber 30) (Some ''Agent crashed'') ''1970-01-01'' ''1970-01-01'' ''1969-10-31'' = AdjOk 1800 ''Agent crashed''"
    by code_simp+
  have t: "adjusted_person sample_super_manager 2 ?d = return (toPerson sample_reader sample_left)"
    by (simp add: adjusted_person_def sample_super_manager_def sample_lead_def orgInView_def seesEveryOrg_def findById_person_def
        fresh_adjustments_def sample_reader_def sample_left_def reachable_subject_def)
  have "settingsFromStored (Some (JObject [])) FocusAdjustmentsEnabled \<noteq> JBool False" by code_simp
  then have e: "fst (assertEnabledFor c 0 ?d) = return ()" for c
    using getSettings_value [of empty_settings "map_option settings_id c" 0]
    by (simp add: assertEnabledFor_def fresh_adjustments_def case_prod_beta fresh_service_def cache_ok_def stored_raw_def)
  have m: "\<not> isMonthLocked (aj_tables (snd (assertEnabledFor c 0 ?d))) date u" for c date u
    using assertEnabledFor_db [of c 0 ?d] by (cases "assertEnabledFor c 0 ?d") (simp add: isMonthLocked_def fresh_adjustments_def empty_db_def)
  obtain st where st: "assertEnabledFor (pf_companyId (toPerson sample_reader sample_left)) 0 ?d = (return (), st)"
    using e by (metis prod.collapse)
  have role: "assertSuperManager sample_super_manager = return ()"
    by (simp add: assertSuperManager_def mayAdjustFocus_def sample_super_manager_def)
  obtain a d' where a: "adjust sample_super_manager ?i (\<lambda>_. 0) 0 ?d = (return a, d')"
    using role t day st m [of "pf_companyId (toPerson sample_reader sample_left)"]
    by (simp add: adjust_def save_adjustment_def create_adjustment_def assertMonthOpen_def Let_def)
  show ?thesis using only_the_super_manager_adjusts [OF a] a by simp
qed

end
