(* ===== verification/Work_Day.thy ===== *)
theory Work_Day
  imports Work_Sessions
begin

text \<open>
  What the working day guarantees: a person's work sessions never overlap over any history, the break
  tables keep their invariant under it, and Start Day and End Day refine a two-state machine.
\<close>

section \<open>Sessions apart\<close>

definition before :: "work_session \<Rightarrow> work_session \<Rightarrow> bool" where
  "before s t = (case wk_endedAt s of None \<Rightarrow> False | Some e \<Rightarrow> e \<le> wk_startedAt t)"

definition sessions_ok :: "work_session list \<Rightarrow> bool" where
  "sessions_ok ss \<longleftrightarrow>
     distinct (map wk_id ss)
     \<and> (\<forall>s \<in> set ss. \<forall>e. wk_endedAt s = Some e \<longrightarrow> wk_startedAt s \<le> e)
     \<and> (\<forall>s \<in> set ss. \<forall>t \<in> set ss. wk_userId s = wk_userId t \<longrightarrow> wk_id s \<noteq> wk_id t \<longrightarrow> before s t \<or> before t s)"

definition work_ok :: "work_db \<Rightarrow> bool" where
  "work_ok w \<longleftrightarrow>
     sessions_ok (wd_sessions w) \<and> (\<forall>s \<in> set (wd_sessions w). wk_id s < wd_nextId w) \<and> db_ok (wd_tables w)"

lemma findOpen_Some:
  "findOpen w u = Some s \<Longrightarrow> s \<in> set (wd_sessions w) \<and> wk_userId s = u \<and> wk_endedAt s = None"
  unfolding findOpen_def is_open_def by (auto dest: find_Some_set)

lemma findOpen_None:
  "findOpen w u = None \<longleftrightarrow> (\<forall>s \<in> set (wd_sessions w). wk_userId s = u \<longrightarrow> wk_endedAt s \<noteq> None)"
  by (auto simp: findOpen_def is_open_def find_None_iff)

lemma one_open:
  assumes "sessions_ok (wd_sessions w)" "s \<in> set (wd_sessions w)" "wk_userId s = u" "wk_endedAt s = None"
  shows "findOpen w u = Some s"
proof -
  obtain t where t: "findOpen w u = Some t" using assms(2-4) findOpen_None [of w u] by (cases "findOpen w u") auto
  note o = findOpen_Some [OF t]
  have "wk_id t = wk_id s"
  proof (rule ccontr)
    assume "wk_id t \<noteq> wk_id s"
    then have "before s t \<or> before t s" using assms o unfolding sessions_ok_def by metis
    then show False using assms(4) o by (auto simp: before_def)
  qed
  then have "t = s" using assms(1,2) o unfolding sessions_ok_def distinct_map by (auto dest: inj_onD)
  then show ?thesis using t by simp
qed

lemma end_desc_comparator: "comparator_ok by_end_desc"
  unfolding comparator_ok_def by_end_desc_def by auto

lemma first_of_sorted:
  assumes "comparator_ok cmp" "first_of (js_sort cmp xs) = Some x"
  shows "x \<in> set xs \<and> (\<forall>y \<in> set xs. cmp x y \<le> 0)"
proof -
  obtain ys where "js_sort cmp xs = x # ys" using assms(2) by (auto simp: first_of_def split: list.splits)
  then show ?thesis using js_sort_top [OF assms(1)] by blast
qed

lemma first_of_None: "first_of (js_sort cmp xs) = None \<longleftrightarrow> xs = []"
  unfolding first_of_def by (cases "js_sort cmp xs") (use js_sort_eq_Nil [of cmp xs] in auto)

lemma latest_ended_Some:
  assumes "latest_ended P w = Some l"
  shows "l \<in> set (wd_sessions w) \<and> P l \<and> (\<exists>e. wk_endedAt l = Some e
    \<and> (\<forall>t \<in> set (wd_sessions w). \<forall>x. P t \<longrightarrow> wk_endedAt t = Some x \<longrightarrow> x \<le> e))"
proof -
  from first_of_sorted [OF end_desc_comparator assms [unfolded latest_ended_def]]
  show ?thesis by (cases "wk_endedAt l") (fastforce simp: is_open_def by_end_desc_def)+
qed

lemma latest_ended_None:
  "latest_ended P w = None \<longleftrightarrow> (\<forall>t \<in> set (wd_sessions w). P t \<longrightarrow> wk_endedAt t = None)"
  by (auto simp: latest_ended_def first_of_None filter_empty_conv is_open_def)

text \<open>The clock is past every end of the person's sessions.\<close>

definition clock_ahead :: "work_db \<Rightarrow> uid \<Rightarrow> int \<Rightarrow> bool" where
  "clock_ahead w u now \<longleftrightarrow>
     (\<forall>s \<in> set (wd_sessions w). wk_userId s = u \<longrightarrow> (case wk_endedAt s of None \<Rightarrow> True | Some e \<Rightarrow> e \<le> now))"

lemma session_start_after_all:
  assumes "clock_ahead w u now" "t \<in> set (wd_sessions w)" "wk_userId t = u" "wk_endedAt t = Some x"
  shows "x \<le> session_start w u startedAt now"
proof (cases "latest_ended (\<lambda>s. wk_userId s = u) w")
  case None
  then show ?thesis using assms by (auto simp: latest_ended_None)
next
  case (Some l)
  from latest_ended_Some [OF Some] obtain e where e: "wk_endedAt l = Some e" "x \<le> e" using assms(2-4) by blast
  have "x \<le> now" using assms by (auto simp: clock_ahead_def)
  then show ?thesis using e Some by (simp add: session_start_def Let_def)
qed

lemma session_start_now: "session_start w u startedAt now \<le> now"
  by (simp add: session_start_def Let_def)

lemma createSession_ok:
  assumes ok: "work_ok w" and none: "findOpen w u = None" and ahead: "clock_ahead w u now"
    and c: "createSessionTx u startedAt now src dayOf w = (s, w')"
  shows "work_ok w' \<and> findOpen w' u = Some s \<and> wk_userId s = u \<and> wd_tables w' = wd_tables w
    \<and> wd_sessions w' = wd_sessions w @ [s] \<and> wk_startedAt s = session_start w u startedAt now \<and> wk_date s = dayOf (wk_startedAt s)"
proof -
  let ?at = "session_start w u startedAt now"
  have s: "s = \<lparr>wk_id = wd_nextId w, wk_userId = u, wk_date = dayOf ?at, wk_startedAt = ?at, wk_endedAt = None,
      wk_endReason = None, wk_source = src\<rparr>"
    and w': "wd_sessions w' = wd_sessions w @ [s]" "wd_nextId w' = Suc (wd_nextId w)" "wd_tables w' = wd_tables w"
    using c by (auto simp: createSessionTx_def Let_def)
  have lt: "wk_id t < wd_nextId w" if "t \<in> set (wd_sessions w)" for t using ok that by (simp add: work_ok_def)
  have so: "sessions_ok (wd_sessions w)" using ok by (simp add: work_ok_def)
  have "before t s" if "t \<in> set (wd_sessions w)" "wk_userId t = u" for t
  proof -
    have "wk_endedAt t \<noteq> None" using none that by (simp add: findOpen_None)
    then obtain x where x: "wk_endedAt t = Some x" by blast
    then show ?thesis using session_start_after_all [OF ahead that x] by (simp add: before_def s)
  qed
  then have "\<forall>t \<in> set (wd_sessions w). wk_userId t = wk_userId s \<longrightarrow> before t s" by (simp add: s)
  moreover have "wk_id s \<notin> wk_id ` set (wd_sessions w)"
  proof
    assume "wk_id s \<in> wk_id ` set (wd_sessions w)"
    then obtain t where "t \<in> set (wd_sessions w)" "wk_id t = wd_nextId w" by (auto simp: s)
    then show False using lt [of t] by simp
  qed
  moreover have "wk_endedAt s = None" by (simp add: s)
  ultimately have so': "sessions_ok (wd_sessions w @ [s])"
    using so unfolding sessions_ok_def by auto
  then have "work_ok w'" using ok w' lt by (auto simp: work_ok_def s less_Suc_eq)
  moreover have "findOpen w' u = Some s" using so' by (intro one_open) (simp_all add: w' s)
  ultimately show ?thesis using w' by (simp add: s)
qed

section \<open>Closing a session\<close>

lemma closed_session_ok:
  assumes so: "sessions_ok ss" and s: "s \<in> set ss" "wk_endedAt s = None" "wk_startedAt s \<le> at"
  shows "sessions_ok (map (\<lambda>x. if wk_id x = wk_id s then close_by reason at x else x) ss)"
proof -
  let ?f = "\<lambda>x. if wk_id x = wk_id s then close_by reason at x else x"
  have f: "wk_id (?f x) = wk_id x" "wk_userId (?f x) = wk_userId x" "wk_startedAt (?f x) = wk_startedAt x" for x
    by (simp_all add: close_by_def)
  have same: "x = s" if "x \<in> set ss" "wk_id x = wk_id s" for x
    using so s(1) that unfolding sessions_ok_def distinct_map by (auto dest: inj_onD)
  have mono: "before x y \<Longrightarrow> before (?f x) (?f y)" if "x \<in> set ss" for x y
    using same [OF that] s(2) by (auto simp: before_def close_by_def split: option.splits if_splits)
  show ?thesis
    unfolding sessions_ok_def
  proof (intro conjI)
    have "map wk_id (map ?f ss) = map wk_id ss" using f(1) by simp
    then show "distinct (map wk_id (map ?f ss))" using so unfolding sessions_ok_def by presburger
    have "\<And>x. x \<in> set ss \<Longrightarrow> wk_id x = wk_id s \<Longrightarrow> wk_startedAt x \<le> at" using same s(3) by blast
    then show "\<forall>x \<in> set (map ?f ss). \<forall>e. wk_endedAt x = Some e \<longrightarrow> wk_startedAt x \<le> e"
      using so unfolding sessions_ok_def by (auto simp: close_by_def)
    show "\<forall>x \<in> set (map ?f ss). \<forall>y \<in> set (map ?f ss). wk_userId x = wk_userId y \<longrightarrow> wk_id x \<noteq> wk_id y \<longrightarrow> before x y \<or> before y x"
    proof (intro ballI impI)
      fix x y assume "x \<in> set (map ?f ss)" "y \<in> set (map ?f ss)" and xy: "wk_userId x = wk_userId y" "wk_id x \<noteq> wk_id y"
      then obtain p q where p: "p \<in> set ss" "x = ?f p" and q: "q \<in> set ss" "y = ?f q" unfolding set_map by (elim imageE)
      have "before p q \<or> before q p"
        using so p(1) q(1) xy unfolding p(2) q(2) f sessions_ok_def by blast
      then show "before x y \<or> before y x" using mono [OF p(1), of q] mono [OF q(1), of p] p(2) q(2) by blast
    qed
  qed
qed

lemma update_session_sel [simp]:
  "wd_sessions (update_session i f w) = map (\<lambda>s. if wk_id s = i then f s else s) (wd_sessions w)"
  "wd_nextId (update_session i f w) = wd_nextId w" "wd_tables (update_session i f w) = wd_tables w"
  by (simp_all add: update_session_def)

lemma on_tables_sel [simp]:
  "wd_sessions (on_tables f w) = wd_sessions w" "wd_nextId (on_tables f w) = wd_nextId w"
  "wd_tables (on_tables f w) = f (wd_tables w)"
  by (simp_all add: on_tables_def)

lemma closed_work_ok:
  assumes "work_ok w" "s \<in> set (wd_sessions w)" "wk_endedAt s = None" "wk_startedAt s \<le> at" "db_ok db"
  shows "work_ok ((update_session (wk_id s) (close_by reason at) w)\<lparr>wd_tables := db\<rparr>)"
  using assms closed_session_ok [of "wd_sessions w" s at reason]
  by (auto simp: work_ok_def close_by_def)

section \<open>The shared tables keep their invariant\<close>

lemma closeOpenPresence_ok:
  assumes "db_ok db"
  shows "db_ok (closeOpenPresence u at db)"
proof (cases "openPresence db u")
  case None
  then have "map (\<lambda>s. if ss_userId s = u \<and> ss_endedAt s = None
      then closed_at (if at < ss_startedAt s then ss_startedAt s else at) s else s) (db_presence db) = db_presence db"
    by (intro map_idI) (auto simp: openPresence_None)
  then have "closeOpenPresence u at db = db" by (simp add: closeOpenPresence_def)
  then show ?thesis using assms by simp
next
  case (Some s)
  note s = openPresence_Some [OF Some]
  have p: "distinct (map ss_id (db_presence db))" "inj_on ss_userId (open_sessions db)"
    using assms by (simp_all add: db_ok_def presence_ok_def)
  have "ss_userId x = u \<and> ss_endedAt x = None \<longleftrightarrow> ss_id x = ss_id s" if x: "x \<in> set (db_presence db)" for x
  proof
    assume "ss_userId x = u \<and> ss_endedAt x = None"
    then show "ss_id x = ss_id s" using inj_onD [OF p(2), of x s] s x by (simp add: open_sessions_def)
  next
    assume "ss_id x = ss_id s"
    then have "x = s" using p(1) s x by (auto simp: distinct_map dest: inj_onD)
    then show "ss_userId x = u \<and> ss_endedAt x = None" using s by simp
  qed
  moreover have "ss_startedAt x = ss_startedAt s" if "x \<in> set (db_presence db)" "ss_id x = ss_id s" for x
    using p(1) s that by (auto simp: distinct_map dest: inj_onD)
  ultimately have "map (\<lambda>x. if ss_userId x = u \<and> ss_endedAt x = None
        then closed_at (if at < ss_startedAt x then ss_startedAt x else at) x else x) (db_presence db)
      = map (\<lambda>x. if ss_id x = ss_id s then closed_at (if at < ss_startedAt s then ss_startedAt s else at) x else x) (db_presence db)"
    by (intro map_cong refl) auto
  then have "closeOpenPresence u at db
      = close_session (ss_id s) (if at < ss_startedAt s then ss_startedAt s else at) db"
    by (simp add: closeOpenPresence_def close_session_def)
  then show ?thesis using close_session_ok [OF assms] by simp
qed

lemma dayEnds_ok: "db_ok db \<Longrightarrow> db_ok (db\<lparr>db_dayEnds := d\<rparr>)"
  by (rule others_ok) simp_all

lemma markDayEnded_ok: "db_ok db \<Longrightarrow> db_ok (snd (markDayEnded u d t db))"
  by (auto simp: markDayEnded_def dayEnds_ok split: option.split)

lemma clear_day_end_ok: "db_ok db \<Longrightarrow> db_ok (clear_day_end u d db)"
  by (auto simp: clear_day_end_def dayEnds_ok split: option.split)

lemma mark_days_ok: "db_ok db \<Longrightarrow> db_ok (mark_days u ds t db)"
  by (induction u ds t db rule: mark_days.induct) (simp_all add: markDayEnded_ok)

lemma filter_breaks_ok:
  assumes ok: "db_ok db" and sched: "\<forall>b \<in> set (db_breaks db). \<not> P b \<longrightarrow> br_kind b \<noteq> Some Quick"
  shows "db_ok (db\<lparr>db_breaks := filter P (db_breaks db)\<rparr>)"
proof -
  let ?db = "db\<lparr>db_breaks := filter P (db_breaks db)\<rparr>"
  have q: "quick_count ?db u d = quick_count db u d" for u d
    using sched unfolding quick_count_def by (auto simp: intro!: arg_cong [where f = length] filter_cong)
  have "row_ok ?db b = row_ok db b" for b by (simp add: row_ok_def open_sessions_def)
  then show ?thesis
    using ok q by (auto simp: db_ok_def presence_ok_def breaks_ok_def quick_ok_def open_sessions_def distinct_map
        intro: inj_on_subset)
qed

section \<open>Every operation of the day keeps it\<close>

lemma startDay_ok:
  assumes "work_ok w" "clock_ahead w u now"
  shows "work_ok (snd (startDay u startedAt now src dayOf tz w))"
proof (cases "findOpen w u")
  case None
  obtain s w1 where c: "createSessionTx u startedAt now src dayOf w = (s, w1)" by fastforce
  have "work_ok w1" using createSession_ok [OF assms(1) None assms(2) c] by simp
  then show ?thesis by (simp add: startDay_def None c Let_def work_ok_def clear_day_end_ok)
qed (simp add: startDay_def assms)

lemma endDay_ok:
  assumes ok: "work_ok w"
  shows "work_ok (snd (endDay u now today legacy since tz w))"
proof (cases "findOpen w u")
  case None
  then show ?thesis
    using ok by (simp add: endDay_def work_ok_def case_prod_unfold Let_def markDayEnded_ok closeOpenPresence_ok split: option.split)
next
  case (Some s)
  have s: "s \<in> set (wd_sessions w)" "wk_endedAt s = None" using findOpen_Some [OF Some] by auto
  have db: "db_ok (wd_tables w)" using ok by (simp add: work_ok_def)
  let ?at = "if now < wk_startedAt s then wk_startedAt s else now"
  let ?db = "mark_days u (filter (\<lambda>d. d \<noteq> wk_date s) (remdups [today, dateKeyInZone now tz])) ?at
    (snd (markDayEnded u (wk_date s) ?at (closeOpenPresence u ?at (wd_tables w))))"
  have e: "snd (endDay u now today legacy since tz w)
      = (update_session (wk_id s) (close_by EndedByUser ?at) w)\<lparr>wd_tables := ?db\<rparr>"
    by (simp only: endDay_def Some Let_def case_prod_unfold snd_conv option.case on_tables_sel update_session_sel)
      (simp add: on_tables_def)
  have "db_ok ?db" using db by (intro mark_days_ok markDayEnded_ok closeOpenPresence_ok)
  then show ?thesis unfolding e by (intro closed_work_ok ok s) auto
qed

lemma ensureOpenTx_ok:
  assumes "work_ok w" "clock_ahead w u now"
  shows "work_ok (snd (ensureOpenTx u generation now today w))"
proof -
  obtain s w1 where c: "createSessionTx u now now FromLegacy (\<lambda>_. today) w = (s, w1)" by fastforce
  have "findOpen w u = None \<Longrightarrow> work_ok w1" using createSession_ok [OF assms(1) _ assms(2) c] by simp
  then show ?thesis using assms(1) by (simp add: ensureOpenTx_def c split: option.split)
qed

lemma openImplicit_ok:
  assumes "work_ok w" "clock_ahead w u (cf_wall clk)"
  shows "work_ok (snd (openImplicit u at today clk w))"
proof -
  obtain s w1 where c: "createSessionTx u at (cf_wall clk) FromLegacy (\<lambda>_. today) w = (s, w1)" by fastforce
  have "findOpen w u = None \<Longrightarrow> work_ok w1" using createSession_ok [OF assms(1) _ assms(2) c] by simp
  then show ?thesis using assms(1) by (simp add: openImplicit_def c)
qed

definition quick_never_skipped :: "work_db \<Rightarrow> bool" where
  "quick_never_skipped w \<longleftrightarrow>
     (\<forall>b \<in> set (db_breaks (wd_tables w)). br_kind b = Some Quick \<longrightarrow> nb_outcome (br_data b) \<noteq> AutoSkipped)"

lemma autoClose_cases:
  assumes "work_ok w" "quick_never_skipped w"
  obtains "\<not> (\<exists>t \<in> set (wd_sessions w). wk_id t = wk_id s \<and> is_open t)" "snd (autoClose s closeAt w) = w"
      "\<not> ac_closed (fst (autoClose s closeAt w))"
  | t at db where "t \<in> set (wd_sessions w)" "wk_id t = wk_id s" "wk_endedAt t = None" "wk_startedAt t \<le> at" "db_ok db"
      "snd (autoClose s closeAt w) = (update_session (wk_id t) (close_by AutoClosed at) w)\<lparr>wd_tables := db\<rparr>"
      "ac_closed (fst (autoClose s closeAt w))"
proof (cases "List.find (\<lambda>t. wk_id t = wk_id s \<and> is_open t) (wd_sessions w)")
  case None
  then have n: "\<not> (\<exists>t \<in> set (wd_sessions w). wk_id t = wk_id s \<and> is_open t)" by (auto simp: find_None_iff)
  show ?thesis by (rule that(1) [OF n]) (simp_all add: autoClose_def None)
next
  case (Some t)
  have t: "t \<in> set (wd_sessions w)" "wk_id t = wk_id s" "wk_endedAt t = None"
    using find_Some_set [OF Some] by (auto simp: is_open_def)
  let ?at = "if closeAt < wk_startedAt t then wk_startedAt t else closeAt"
  let ?db = "closeOpenPresence (wk_userId s) ?at (wd_tables w)"
  have "db_ok ?db" using assms(1) by (simp add: work_ok_def closeOpenPresence_ok)
  moreover have "db_breaks ?db = db_breaks (wd_tables w)" by (simp add: closeOpenPresence_def)
  ultimately have f: "db_ok (?db\<lparr>db_breaks := filter (\<lambda>b. \<not> never_owed s ?at b) (db_breaks ?db)\<rparr>)"
    using assms(2) by (intro filter_breaks_ok) (auto simp: quick_never_skipped_def never_owed_def)
  show ?thesis
    by (rule that(2) [of t ?at "snd (markDayEnded (wk_userId s) (wk_date s) ?at
          (?db\<lparr>db_breaks := filter (\<lambda>b. \<not> never_owed s ?at b) (db_breaks ?db)\<rparr>))"])
      (use t f in \<open>simp_all add: autoClose_def Some Let_def case_prod_unfold markDayEnded_ok\<close>)
qed

lemma autoClose_ok:
  assumes "work_ok w" "quick_never_skipped w"
  shows "work_ok (snd (autoClose s closeAt w))"
  using assms(1) by (cases rule: autoClose_cases [OF assms, of s closeAt]) (metis, metis closed_work_ok)

text \<open>Which sessions start at the same instant: the extension of an auto-closed one looks for the last started.\<close>

definition starts_apart :: "work_db \<Rightarrow> uid \<Rightarrow> bool" where
  "starts_apart w u \<longleftrightarrow>
     (\<forall>s \<in> set (wd_sessions w). \<forall>t \<in> set (wd_sessions w).
        wk_userId s = u \<longrightarrow> wk_userId t = u \<longrightarrow> wk_startedAt s = wk_startedAt t \<longrightarrow> s = t)"

lemma lastStarted_Some:
  assumes "lastStartedAtOrBefore w u at = Some s"
  shows "s \<in> set (wd_sessions w) \<and> wk_userId s = u \<and> wk_startedAt s \<le> at
    \<and> (\<forall>t \<in> set (wd_sessions w). wk_userId t = u \<longrightarrow> wk_startedAt t \<le> at \<longrightarrow> wk_startedAt t \<le> wk_startedAt s)"
proof -
  have "comparator_ok (\<lambda>a b. wk_startedAt b - wk_startedAt a)" unfolding comparator_ok_def by auto
  from first_of_sorted [OF this assms [unfolded lastStartedAtOrBefore_def]] show ?thesis by auto
qed

lemma extended_session_ok:
  assumes so: "sessions_ok ss" and s: "s \<in> set ss" "wk_endedAt s = Some e" "e \<le> to"
    and later: "\<forall>t \<in> set ss. wk_userId t = wk_userId s \<longrightarrow> t \<noteq> s \<longrightarrow> e \<le> wk_startedAt t \<longrightarrow> to \<le> wk_startedAt t"
    and f: "\<forall>t. wk_id (f t) = wk_id t \<and> wk_userId (f t) = wk_userId t \<and> wk_startedAt (f t) = wk_startedAt t"
      "wk_endedAt (f s) = Some to" "\<forall>t. wk_id t \<noteq> wk_id s \<longrightarrow> f t = t"
  shows "sessions_ok (map f ss)"
proof -
  have same: "x = s" if "x \<in> set ss" "wk_id x = wk_id s" for x
    using so s(1) that unfolding sessions_ok_def distinct_map by (auto dest: inj_onD)
  have st: "wk_startedAt s \<le> e" using so s unfolding sessions_ok_def by blast
  have keep: "before (f x) (f y) \<or> before (f y) (f x)"
    if x: "x \<in> set ss" and y: "y \<in> set ss" and u: "wk_userId x = wk_userId y" "wk_id x \<noteq> wk_id y" and b: "before x y" for x y
  proof (cases "wk_id x = wk_id s")
    case True
    then have "x = s" using same x by blast
    moreover have "to \<le> wk_startedAt y" using later b u y s(2) unfolding before_def \<open>x = s\<close> by auto
    ultimately show ?thesis using f by (simp add: before_def)
  next
    case False
    then have "f x = x" "wk_startedAt (f y) = wk_startedAt y" using f(1,3) by auto
    then have "before (f x) (f y)" using b by (simp add: before_def split: option.splits)
    then show ?thesis ..
  qed
  show ?thesis
    unfolding sessions_ok_def
  proof (intro conjI)
    have "map wk_id (map f ss) = map wk_id ss" using f(1) by simp
    then show "distinct (map wk_id (map f ss))" using so unfolding sessions_ok_def by presburger
    have "wk_endedAt (f x) = Some t \<Longrightarrow> wk_startedAt x \<le> t" if "x \<in> set ss" for x t
      using same [OF that] so that f(2,3) st s(3) unfolding sessions_ok_def by (cases "wk_id x = wk_id s") auto
    then show "\<forall>x \<in> set (map f ss). \<forall>t. wk_endedAt x = Some t \<longrightarrow> wk_startedAt x \<le> t" using f(1) by auto
    show "\<forall>x \<in> set (map f ss). \<forall>y \<in> set (map f ss). wk_userId x = wk_userId y \<longrightarrow> wk_id x \<noteq> wk_id y \<longrightarrow> before x y \<or> before y x"
    proof (intro ballI impI)
      fix x y assume "x \<in> set (map f ss)" "y \<in> set (map f ss)" and xy: "wk_userId x = wk_userId y" "wk_id x \<noteq> wk_id y"
      then obtain p q where p: "p \<in> set ss" "x = f p" and q: "q \<in> set ss" "y = f q" unfolding set_map by (elim imageE)
      have u: "wk_userId p = wk_userId q" "wk_id p \<noteq> wk_id q" using xy f(1) p(2) q(2) by auto
      then have "before p q \<or> before q p" using so p(1) q(1) unfolding sessions_ok_def by blast
      then show "before x y \<or> before y x" using keep p q u by metis
    qed
  qed
qed

lemma extendAutoClosed_ok:
  assumes ok: "work_ok w" and apart: "starts_apart w u"
  shows "work_ok (snd (extendAutoClosed latestEnd u at w))"
proof (cases "snd (extendAutoClosed latestEnd u at w) = w")
  case False
  then obtain s e where l: "lastStartedAtOrBefore w u at = Some s" and e: "wk_endedAt s = Some e" and at: "e < at"
    and c: "snd (extendAutoClosed latestEnd u at w) = snd (extendAutoClosed_tx s at w)" "wk_endReason s = Some AutoClosed"
    by (auto simp: extendAutoClosed_def split: option.splits if_splits)
  note s = lastStarted_Some [OF l]
  let ?f = "\<lambda>t. if wk_id t = wk_id s
    then (if wk_endReason t = Some AutoClosed \<and> wk_endedAt t = Some e then t\<lparr>wk_endedAt := Some at, wk_source := FromReplay\<rparr> else t) else t"
  have so: "sessions_ok (wd_sessions w)" using ok by (simp add: work_ok_def)
  have st: "wk_startedAt s \<le> e" using so s e unfolding sessions_ok_def by blast
  have "sessions_ok (map ?f (wd_sessions w))"
  proof (rule extended_session_ok [OF so _ e])
    show "\<forall>t \<in> set (wd_sessions w). wk_userId t = wk_userId s \<longrightarrow> t \<noteq> s \<longrightarrow> e \<le> wk_startedAt t \<longrightarrow> at \<le> wk_startedAt t"
    proof (intro ballI impI)
      fix t assume t: "t \<in> set (wd_sessions w)" "wk_userId t = wk_userId s" "t \<noteq> s" "e \<le> wk_startedAt t"
      have "wk_startedAt t \<noteq> wk_startedAt s" using apart s t unfolding starts_apart_def by metis
      then have "wk_startedAt s < wk_startedAt t" using t(4) st by simp
      then show "at \<le> wk_startedAt t" using s t(1,2) by (meson linorder_not_le nle_le)
    qed
  qed (use s e c(2) at in auto)
  moreover have "\<forall>t \<in> set (wd_sessions w). wk_id (?f t) < wd_nextId w" using ok s by (auto simp: work_ok_def)
  ultimately show ?thesis
    using ok unfolding c(1) by (auto simp: extendAutoClosed_tx_def e work_ok_def dayEnds_ok)
qed (use ok in simp)

section \<open>Every history\<close>

text \<open>
  One transaction of the working day or of the breaks. A session is opened by a clock that is past every
  end of the person's sessions, a quick break is never a planned skip, and an auto-closed session is extended
  only where no two sessions of the person start at the same instant.
\<close>

inductive work_step :: "work_db \<Rightarrow> work_db \<Rightarrow> bool" where
  day_started: "clock_ahead w u now \<Longrightarrow> work_step w (snd (startDay u startedAt now src dayOf tz w))"
| day_ended: "work_step w (snd (endDay u now today legacy since tz w))"
| day_checked: "clock_ahead w u now \<Longrightarrow> work_step w (snd (ensureOpenTx u generation now today w))"
| day_implied: "clock_ahead w u (cf_wall clk) \<Longrightarrow> work_step w (snd (openImplicit u at today clk w))"
| day_missed: "quick_never_skipped w \<Longrightarrow> work_step w (snd (autoClose s closeAt w))"
| day_extended: "starts_apart w u \<Longrightarrow> work_step w (snd (extendAutoClosed latestEnd u at w))"
| on_break: "break_step (shared_tables w) db \<Longrightarrow> work_step w (w\<lparr>wd_tables := db\<rparr>)"

definition empty_work_db :: "(uid \<Rightarrow> uid option) \<Rightarrow> (uid \<Rightarrow> int) \<Rightarrow> work_db" where
  "empty_work_db companies sla = \<lparr>wd_sessions = [], wd_nextId = 0, wd_tables = empty_db companies sla\<rparr>"

inductive work_reachable :: "work_db \<Rightarrow> bool" where
  no_work: "work_reachable (empty_work_db companies sla)"
| work: "work_reachable w \<Longrightarrow> work_step w w' \<Longrightarrow> work_reachable w'"

lemma shared_tables_ok: "work_ok w \<Longrightarrow> db_ok (shared_tables w)"
  unfolding work_ok_def shared_tables_def by (rule others_ok [of "wd_tables w"]) simp_all

lemma work_step_ok: "work_step w w' \<Longrightarrow> work_ok w \<Longrightarrow> work_ok w'"
proof (induction rule: work_step.induct)
  case (on_break w db)
  then have "db_ok db" using step_ok shared_tables_ok by blast
  then show ?case using on_break.prems by (simp add: work_ok_def)
qed (simp_all add: startDay_ok endDay_ok ensureOpenTx_ok openImplicit_ok autoClose_ok extendAutoClosed_ok)

lemma work_reachable_ok: "work_reachable w \<Longrightarrow> work_ok w"
proof (induction rule: work_reachable.induct)
  case (no_work companies sla)
  show ?case by (simp add: empty_work_db_def work_ok_def sessions_ok_def empty_db_ok)
qed (use work_step_ok in blast)

text \<open>The instants a session holds; an open one has no end.\<close>

definition session_time :: "work_session \<Rightarrow> int set" where
  "session_time s = (case wk_endedAt s of None \<Rightarrow> {wk_startedAt s ..} | Some e \<Rightarrow> {wk_startedAt s ..< e})"

lemma before_disjoint: "before s t \<Longrightarrow> session_time s \<inter> session_time t = {}"
  by (auto simp: before_def session_time_def split: option.splits)

text \<open>C3: Over every history of Start Day, End Day, the open-day check, the implicit session of an older agent, the
  missed End Day and its extension, interleaved with every break operation, two different work sessions of a
  person share no instant, a person has at most one open session, and no session ends before it starts.
  The histories (\<open>work_step\<close>) open a session only by a clock that is past every end of the person's sessions, and
  extend an auto-closed one only where no two sessions of the person start at the same instant. A session opened by a clock that
  is behind the last end does overlap it: \<open>session_start_behind_last_end\<close> below.
\<close>

theorem work_sessions_never_overlap:
  assumes "work_reachable w"
    and "s \<in> set (wd_sessions w)" "t \<in> set (wd_sessions w)" "wk_userId s = wk_userId t" "s \<noteq> t"
  shows "session_time s \<inter> session_time t = {} \<and> \<not> (is_open s \<and> is_open t)
    \<and> (\<forall>e. wk_endedAt s = Some e \<longrightarrow> wk_startedAt s \<le> e)"
proof -
  have so: "sessions_ok (wd_sessions w)" using work_reachable_ok [OF assms(1)] by (simp add: work_ok_def)
  then have "wk_id s \<noteq> wk_id t" using assms(2,3,5) by (auto simp: sessions_ok_def distinct_map dest: inj_onD)
  then have b: "before s t \<or> before t s" using so assms(2-4) unfolding sessions_ok_def by blast
  then have "session_time s \<inter> session_time t = {}" using before_disjoint [of s t] before_disjoint [of t s] by blast
  moreover have "\<not> (is_open s \<and> is_open t)" using b by (auto simp: before_def is_open_def)
  ultimately show ?thesis using so assms(2) unfolding sessions_ok_def by blast
qed

definition two_days :: work_db where
  "two_days =
     (let w0 = empty_work_db (\<lambda>_. None) (\<lambda>_. 60);
          w1 = snd (startDay 1 1000 1000 FromAgent (\<lambda>_. ''2026-01-05'') (\<lambda>_. 0) w0);
          w2 = snd (endDay 1 5000 ''2026-01-05'' False 0 (\<lambda>_. 0) w1)
      in snd (startDay 1 4000 9000 FromReplay (\<lambda>_. ''2026-01-05'') (\<lambda>_. 0) w2))"

lemma started_sessions:
  "wd_sessions (snd (startDay u startedAt now src dayOf tz w))
    = wd_sessions w @ (if findOpen w u = None then [fst (createSessionTx u startedAt now src dayOf w)] else [])"
  "wd_nextId (snd (startDay u startedAt now src dayOf tz w)) = (if findOpen w u = None then Suc (wd_nextId w) else wd_nextId w)"
  by (simp_all add: startDay_def createSessionTx_def Let_def split: option.split)

lemma ended_sessions:
  "wd_sessions (snd (endDay u now today legacy since tz w))
    = (case findOpen w u of None \<Rightarrow> wd_sessions w
       | Some s \<Rightarrow> map (\<lambda>x. if wk_id x = wk_id s then close_by EndedByUser (max now (wk_startedAt s)) x else x) (wd_sessions w))"
  "wd_nextId (snd (endDay u now today legacy since tz w)) = wd_nextId w"
  by (simp_all add: endDay_def Let_def case_prod_unfold max_def split: option.split)

lemma two_days_sessions:
  "wd_sessions two_days =
     [\<lparr>wk_id = 0, wk_userId = 1, wk_date = ''2026-01-05'', wk_startedAt = 1000,
       wk_endedAt = Some 5000, wk_endReason = Some EndedByUser, wk_source = FromAgent\<rparr>,
      \<lparr>wk_id = 1, wk_userId = 1, wk_date = ''2026-01-05'', wk_startedAt = 5000,
       wk_endedAt = None, wk_endReason = None, wk_source = FromReplay\<rparr>]"
  unfolding two_days_def Let_def
  by (simp add: started_sessions ended_sessions empty_work_db_def findOpen_def is_open_def
      createSessionTx_def session_start_def latest_ended_def first_of_def Let_def close_by_def)

lemma two_days_reachable: "work_reachable two_days"
  unfolding two_days_def Let_def
  by (rule work_reachable.work [OF work_reachable.work [OF work_reachable.work [OF work_reachable.no_work
          work_step.day_started] work_step.day_ended] work_step.day_started])
   (simp_all add: clock_ahead_def started_sessions ended_sessions empty_work_db_def findOpen_def is_open_def
      createSessionTx_def session_start_def latest_ended_def first_of_def Let_def close_by_def)

theorem work_sessions_never_overlap_witness:
  "map session_time (wd_sessions two_days) = [{1000 ..< 5000}, {5000 ..}] \<and> {1000 ..< 5000} \<inter> {5000 :: int ..} = {}"
proof -
  obtain a b where w: "wd_sessions two_days = [a, b]" and v: "wk_startedAt a = 1000" "wk_endedAt a = Some 5000"
    "wk_startedAt b = 5000" "wk_endedAt b = None" and u: "wk_userId a = 1" "wk_userId b = 1"
    using two_days_sessions by simp
  have "a \<noteq> b" using v by auto
  then have "session_time a \<inter> session_time b = {}"
    using work_sessions_never_overlap [OF two_days_reachable, of a b] u w by simp
  then show ?thesis using v w by (simp add: session_time_def)
qed

section \<open>The day as a two-state machine\<close>

text \<open>What the rest of the program sees of the sessions: the working day a person is in, if any.\<close>

definition workday :: "work_db \<Rightarrow> uid \<Rightarrow> string option" where
  "workday w u = map_option wk_date (findOpen w u)"

lemma find_map_keep:
  "(\<And>x. x \<in> set xs \<Longrightarrow> P (f x) = P x \<and> (P x \<longrightarrow> f x = x)) \<Longrightarrow> List.find P (map f xs) = List.find P xs"
  by (induction xs) auto

lemma find_append: "List.find P (xs @ ys) = (case List.find P xs of None \<Rightarrow> List.find P ys | Some x \<Rightarrow> Some x)"
  by (induction xs) auto

lemma workday_tables [simp]: "workday (on_tables f w) = workday w" "workday (w\<lparr>wd_tables := db\<rparr>) = workday w"
  by (simp_all add: workday_def findOpen_def fun_eq_iff)

lemma workday_created:
  assumes "findOpen w u = None" "createSessionTx u startedAt now src dayOf w = (s, w')"
  shows "workday w' = (workday w)(u := Some (dayOf (session_start w u startedAt now)))"
  using assms by (auto simp: fun_eq_iff workday_def findOpen_def createSessionTx_def Let_def find_append is_open_def split: option.split)

lemma workday_closed:
  assumes so: "sessions_ok (wd_sessions w)" and f: "findOpen w u = Some s"
  shows "workday (update_session (wk_id s) (close_by reason at) w) = (workday w)(u := None)"
proof
  fix v
  let ?w = "update_session (wk_id s) (close_by reason at) w"
  note s = findOpen_Some [OF f]
  have same: "x = s" if "x \<in> set (wd_sessions w)" "wk_id x = wk_id s" for x
    using so s that unfolding sessions_ok_def distinct_map by (auto dest: inj_onD)
  show "workday ?w v = ((workday w)(u := None)) v"
  proof (cases "v = u")
    case True
    have "findOpen ?w u = None"
      unfolding findOpen_None
    proof (intro ballI impI)
      fix x assume "x \<in> set (wd_sessions ?w)" and xu: "wk_userId x = u"
      then obtain y where y: "y \<in> set (wd_sessions w)" "x = (if wk_id y = wk_id s then close_by reason at y else y)" by auto
      have "y = s" if "wk_endedAt y = None" using one_open [OF so y(1) _ that] f y(2) xu by (auto simp: close_by_def split: if_splits)
      then show "wk_endedAt x \<noteq> None" using y(2) by (auto simp: close_by_def split: if_splits)
    qed
    then show ?thesis using True by (simp add: workday_def)
  next
    case False
    have "findOpen ?w v = findOpen w v"
      unfolding findOpen_def update_session_sel
      by (rule find_map_keep) (use same s False in \<open>auto simp: close_by_def is_open_def\<close>)
    then show ?thesis using False by (simp add: workday_def)
  qed
qed

text \<open>C25: Seen through the open working day of each person, the transactions are a two-state machine. Start Day
  opens the day of the session's start for a person who has none and otherwise keeps the one they are in; End
  Day always leaves the person with none; the open-day check and the implicit session open today only for an
  agent that sends no Start Day, and only while today is not ended; a missed End Day closes its own session
  only; every other person keeps their day throughout.
\<close>

theorem working_day_refines_two_states:
  assumes "work_reachable w"
  shows "workday (snd (startDay u startedAt now src dayOf tz w))
      = (workday w)(u := Some (case workday w u of None \<Rightarrow> dayOf (session_start w u startedAt now) | Some d \<Rightarrow> d))
    \<and> workday (snd (endDay u now today legacy since tz w)) = (workday w)(u := None)
    \<and> workday (snd (ensureOpenTx u generation now today w))
      = (if workday w u = None \<and> generation = LEGACY \<and> dayEndedAt w u today = None then (workday w)(u \<mapsto> today) else workday w)
    \<and> workday (snd (openImplicit u at today clk w))
      = (if workday w u = None \<and> dayEndedAt w u today = None then (workday w)(u \<mapsto> today) else workday w)
    \<and> (findOpen w u = Some s \<longrightarrow> workday (snd (autoClose s closeAt w)) = (workday w)(u := None))"
proof -
  have so: "sessions_ok (wd_sessions w)" using work_reachable_ok [OF assms] by (simp add: work_ok_def)
  show ?thesis
  proof (intro conjI)
    show "workday (snd (startDay u startedAt now src dayOf tz w))
      = (workday w)(u := Some (case workday w u of None \<Rightarrow> dayOf (session_start w u startedAt now) | Some d \<Rightarrow> d))"
    proof (cases "findOpen w u")
      case None
      obtain s w' where c: "createSessionTx u startedAt now src dayOf w = (s, w')" by fastforce
      show ?thesis using workday_created [OF None c] None by (simp add: startDay_def c Let_def) (simp add: workday_def)
    qed (auto simp: startDay_def workday_def fun_upd_idem)
    show "workday (snd (endDay u now today legacy since tz w)) = (workday w)(u := None)"
    proof (cases "findOpen w u")
      case None
      then show ?thesis by (simp add: endDay_def Let_def case_prod_unfold split: option.split) (simp add: workday_def fun_upd_idem)
    next
      case (Some s)
      show ?thesis using workday_closed [OF so Some] by (simp add: endDay_def Some Let_def case_prod_unfold)
    qed
    obtain s w' where c: "createSessionTx u now now FromLegacy (\<lambda>_. today) w = (s, w')" by fastforce
    show "workday (snd (ensureOpenTx u generation now today w))
      = (if workday w u = None \<and> generation = LEGACY \<and> dayEndedAt w u today = None then (workday w)(u \<mapsto> today) else workday w)"
      using workday_created [OF _ c] by (cases "findOpen w u") (simp_all add: ensureOpenTx_def c workday_def)
    obtain s' w'' where c': "createSessionTx u at (cf_wall clk) FromLegacy (\<lambda>_. today) w = (s', w'')" by fastforce
    show "workday (snd (openImplicit u at today clk w))
      = (if workday w u = None \<and> dayEndedAt w u today = None then (workday w)(u \<mapsto> today) else workday w)"
      using workday_created [OF _ c'] by (cases "findOpen w u") (simp_all add: openImplicit_def c' workday_def)
    show "findOpen w u = Some s \<longrightarrow> workday (snd (autoClose s closeAt w)) = (workday w)(u := None)" for s
    proof
      assume f: "findOpen w u = Some s"
      note s = findOpen_Some [OF f]
      obtain t where t: "List.find (\<lambda>x. wk_id x = wk_id s \<and> is_open x) (wd_sessions w) = Some t"
        using s by (cases "List.find (\<lambda>x. wk_id x = wk_id s \<and> is_open x) (wd_sessions w)") (auto simp: find_None_iff is_open_def)
      show "workday (snd (autoClose s closeAt w)) = (workday w)(u := None)"
        using workday_closed [OF so f] by (simp add: autoClose_def t Let_def case_prod_unfold)
    qed
  qed
qed

theorem working_day_refines_two_states_witness:
  "workday two_days 1 = Some ''2026-01-05'' \<and> workday (snd (endDay 1 20000 ''2026-01-05'' False 0 (\<lambda>_. 0) two_days)) 1 = None"
proof -
  have "workday two_days 1 = Some ''2026-01-05''" by (simp add: workday_def findOpen_def is_open_def two_days_sessions)
  then show ?thesis using working_day_refines_two_states [OF two_days_reachable, of 1] by simp
qed

section \<open>The missed End Day, for everyone\<close>

definition missed_close :: "(work_session \<Rightarrow> int) \<Rightarrow> (work_session \<Rightarrow> int option) \<Rightarrow> work_session \<Rightarrow> work_session" where
  "missed_close latestEnd lastInput s =
     (let at = autoCloseAt (wk_startedAt s) (latestEnd s) (lastInput s)
      in close_by AutoClosed (if at < wk_startedAt s then wk_startedAt s else at) s)"

lemma length_filter_js_sort: "length (filter P (js_sort cmp xs)) = length (filter P xs)"
proof -
  have "length (filter P (js_insert cmp x ys)) = length (filter P (x # ys))" for x ys
    by (induction ys) auto
  then show ?thesis by (induction xs) auto
qed

lemma distinct_js_sort: "distinct xs \<Longrightarrow> distinct (js_sort cmp xs)"
  by (metis card_distinct distinct_card length_js_sort set_js_sort)

lemma autoClose_of_open:
  assumes "distinct (map wk_id (wd_sessions w))" "s \<in> set (wd_sessions w)" "is_open s"
  shows "ac_closed (fst (autoClose s at w))
    \<and> wd_sessions (snd (autoClose s at w))
      = map (\<lambda>x. if x = s then close_by AutoClosed (if at < wk_startedAt s then wk_startedAt s else at) s else x) (wd_sessions w)"
proof -
  have same: "x = s" if "x \<in> set (wd_sessions w)" "wk_id x = wk_id s" for x
    using assms(1,2) that unfolding distinct_map by (auto dest: inj_onD)
  obtain t where t: "List.find (\<lambda>x. wk_id x = wk_id s \<and> is_open x) (wd_sessions w) = Some t"
    using assms by (cases "List.find (\<lambda>x. wk_id x = wk_id s \<and> is_open x) (wd_sessions w)") (auto simp: find_None_iff)
  then have "t = s" using find_Some_set [OF t] same by auto
  then show ?thesis using same by (auto simp: autoClose_def t Let_def case_prod_unfold)
qed

lemma close_stale_sessions:
  assumes "distinct (map wk_id (wd_sessions w))" "set ss \<subseteq> {s \<in> set (wd_sessions w). is_open s}" "distinct ss"
  shows "wd_sessions (snd (close_stale latestEnd lastInput now ss w))
      = map (\<lambda>x. if x \<in> set ss \<and> isStale (latestEnd x) now then missed_close latestEnd lastInput x else x) (wd_sessions w)
    \<and> fst (close_stale latestEnd lastInput now ss w) = length (filter (\<lambda>s. isStale (latestEnd s) now) ss)"
  using assms
proof (induction ss arbitrary: w)
  case Nil
  then show ?case by simp
next
  case (Cons s ss)
  show ?case
  proof (cases "isStale (latestEnd s) now")
    case False
    have "wd_sessions (snd (close_stale latestEnd lastInput now ss w))
      = map (\<lambda>x. if x \<in> set ss \<and> isStale (latestEnd x) now then missed_close latestEnd lastInput x else x) (wd_sessions w)
      \<and> fst (close_stale latestEnd lastInput now ss w) = length (filter (\<lambda>s. isStale (latestEnd s) now) ss)"
      using Cons by simp
    then show ?thesis using False by auto
  next
    case True
    let ?at = "autoCloseAt (wk_startedAt s) (latestEnd s) (lastInput s)"
    let ?w = "snd (autoClose s ?at w)"
    have s: "s \<in> set (wd_sessions w)" "is_open s" using Cons.prems by auto
    note c = autoClose_of_open [OF Cons.prems(1) s, of ?at]
    then have w: "wd_sessions ?w = map (\<lambda>x. if x = s then missed_close latestEnd lastInput s else x) (wd_sessions w)"
      by (simp add: missed_close_def Let_def)
    have closed: "\<not> is_open (missed_close latestEnd lastInput s)" "wk_id (missed_close latestEnd lastInput s) = wk_id s"
      by (simp_all add: missed_close_def Let_def close_by_def is_open_def)
    have "map wk_id (wd_sessions ?w) = map wk_id (wd_sessions w)" unfolding w using closed by simp
    moreover have "set ss \<subseteq> {x \<in> set (wd_sessions ?w). is_open x}" using Cons.prems unfolding w by auto
    ultimately have ih: "wd_sessions (snd (close_stale latestEnd lastInput now ss ?w))
      = map (\<lambda>x. if x \<in> set ss \<and> isStale (latestEnd x) now then missed_close latestEnd lastInput x else x) (wd_sessions ?w)
      \<and> fst (close_stale latestEnd lastInput now ss ?w) = length (filter (\<lambda>s. isStale (latestEnd s) now) ss)"
      using Cons.IH [of ?w] Cons.prems by simp
    have "missed_close latestEnd lastInput s \<notin> set ss" using closed Cons.prems(2) by auto
    then show ?thesis using ih c True Cons.prems(3) unfolding w by (auto simp: Let_def case_prod_unfold)
  qed
qed

text \<open>C31: One run over the open sessions ends every missed End Day: each session left open whose latest end is past is
  closed as auto-closed, at the last input within it but never before its start, every other session is left as
  it was, and the run reports how many it closed; so no open session past its latest end remains, and a second
  run at the same instant changes nothing.
\<close>

theorem missed_days_are_closed:
  assumes "work_reachable w"
  shows "let w' = snd (autoCloseAll latestEnd lastInput now w) in
    wd_sessions w' = map (\<lambda>s. if is_open s \<and> isStale (latestEnd s) now then missed_close latestEnd lastInput s else s) (wd_sessions w)
    \<and> fst (autoCloseAll latestEnd lastInput now w) = length (filter (\<lambda>s. is_open s \<and> isStale (latestEnd s) now) (wd_sessions w))
    \<and> (\<forall>s \<in> set (wd_sessions w'). is_open s \<longrightarrow> \<not> isStale (latestEnd s) now)
    \<and> autoCloseAll latestEnd lastInput now w' = (0, w')"
proof -
  let ?P = "\<lambda>s. is_open s \<and> isStale (latestEnd s) now"
  define w' where "w' = snd (autoCloseAll latestEnd lastInput now w)"
  have d: "distinct (map wk_id (wd_sessions w))" using work_reachable_ok [OF assms(1)] by (simp add: work_ok_def sessions_ok_def)
  have "distinct (filter is_open (wd_sessions w))" using d by (simp add: distinct_map)
  then have dl: "distinct (listOpen w)" unfolding listOpen_def by (simp add: distinct_js_sort)
  have set: "set (listOpen w) = {s \<in> set (wd_sessions w). is_open s}" by (auto simp: listOpen_def)
  have "set (listOpen w) \<subseteq> {s \<in> set (wd_sessions w). is_open s}" using set by simp
  note run = close_stale_sessions [OF d this dl, of latestEnd lastInput now, folded autoCloseAll_def, folded w'_def]
  have c: "wd_sessions w' = map (\<lambda>s. if ?P s then missed_close latestEnd lastInput s else s) (wd_sessions w)"
    unfolding conjunct1 [OF run] by (intro map_cong refl) (simp add: set)
  have "length (filter (\<lambda>s. isStale (latestEnd s) now) (listOpen w)) = length (filter ?P (wd_sessions w))"
    by (simp add: listOpen_def length_filter_js_sort conj_commute)
  then have n: "fst (autoCloseAll latestEnd lastInput now w) = length (filter ?P (wd_sessions w))"
    using conjunct2 [OF run] by simp
  have open_left: "\<not> isStale (latestEnd s) now" if s: "s \<in> set (wd_sessions w')" "is_open s" for s
    using s unfolding c by (auto simp: missed_close_def Let_def close_by_def is_open_def split: if_splits)
  have "close_stale latestEnd lastInput now ss w' = (0, w')" if "\<forall>s \<in> set ss. \<not> isStale (latestEnd s) now" for ss
    using that by (induction ss) auto
  then have again: "autoCloseAll latestEnd lastInput now w' = (0, w')"
    using open_left by (simp add: autoCloseAll_def listOpen_def)
  show ?thesis
    unfolding Let_def w'_def [symmetric] by (intro conjI c n again ballI impI open_left)
qed

theorem missed_days_are_closed_witness:
  "fst (autoCloseAll (\<lambda>_. 100000) (\<lambda>_. Some 7000) 200000 two_days) = 1"
proof -
  have "filter (\<lambda>s. is_open s \<and> isStale 100000 200000) (wd_sessions two_days) = [hd (tl (wd_sessions two_days))]"
    by (simp add: two_days_sessions is_open_def isStale_def)
  then show ?thesis
    using missed_days_are_closed [OF two_days_reachable, of "\<lambda>_. 100000" "\<lambda>_. Some 7000" 200000]
    unfolding Let_def by (metis One_nat_def length_Cons list.size(3))
qed

section \<open>Ending the same day again\<close>

lemma dayEnd_kept:
  "db_dayEnds db (u, d) = Some (Some t) \<Longrightarrow> db_dayEnds (mark_days u ds at db) (u, d) = Some (Some t)"
proof (induction u ds at db rule: mark_days.induct)
  case (2 u d' ds at db)
  then show ?case by (cases "d = d'") (auto simp: markDayEnded_def split: option.split)
qed simp

lemma dayEnd_marked: "\<exists>t. db_dayEnds (snd (markDayEnded u d at db)) (u, d) = Some (Some t)"
  by (auto simp: markDayEnded_def split: option.split)

lemma mark_days_marks: "d \<in> set ds \<Longrightarrow> \<exists>t. db_dayEnds (mark_days u ds at db) (u, d) = Some (Some t)"
proof (induction u ds at db rule: mark_days.induct)
  case (2 u d' ds at db)
  show ?case
  proof (cases "d = d'")
    case True
    then show ?thesis using dayEnd_marked [of u d' at db] by (auto dest: dayEnd_kept)
  next
    case False
    then show ?thesis using 2 by simp
  qed
qed simp

lemma endDay_already:
  "findOpen w u = None \<Longrightarrow> dayEndedAt w u today = Some t \<Longrightarrow> endDay u now today legacy since tz w = (AlreadyEnded today t, w)"
  by (simp add: endDay_def Let_def)

lemma dayEndedAt_mark: "db_dayEnds (wd_tables w) (u, d) = Some (Some t) \<Longrightarrow> dayEndedAt w u d = Some t"
  by (simp add: dayEndedAt_def)

text \<open>End Day is idempotent: whatever an End Day that did not answer "not started" did, asking to end the same day
  again at any later or earlier instant answers "already ended", with one and the same end, and changes nothing.
\<close>

theorem end_day_is_idempotent:
  assumes "work_reachable w"
    and e: "endDay u now today legacy since tz w = (r, w')" "\<And>d. r \<noteq> NotStarted d"
  shows "\<exists>d t. \<forall>now'. endDay u now' today legacy since tz w' = (AlreadyEnded d t, w')"
proof -
  have so: "sessions_ok (wd_sessions w)" using work_reachable_ok [OF assms(1)] by (simp add: work_ok_def)
  have again: ?thesis if "findOpen w' u = None" "db_dayEnds (wd_tables w') (u, today) = Some (Some t)" for t
    using endDay_already [OF that(1) dayEndedAt_mark [OF that(2)]] by blast
  show ?thesis
  proof (cases "findOpen w u")
    case (Some s)
    have "workday w' u = None"
      using workday_closed [OF so Some] e(1) by (auto simp: endDay_def Some Let_def case_prod_unfold)
    then have o: "findOpen w' u = None" by (simp add: workday_def)
    let ?at = "if now < wk_startedAt s then wk_startedAt s else now"
    let ?db = "snd (markDayEnded u (wk_date s) ?at (closeOpenPresence u ?at (wd_tables w)))"
    let ?days = "filter (\<lambda>d. d \<noteq> wk_date s) (remdups [today, dateKeyInZone now tz])"
    have t: "wd_tables w' = mark_days u ?days ?at ?db"
      using e(1) by (auto simp: endDay_def Some Let_def case_prod_unfold)
    have "\<exists>t. db_dayEnds (wd_tables w') (u, today) = Some (Some t)"
    proof (cases "today = wk_date s")
      case True
      then show ?thesis unfolding t using dayEnd_marked [of u "wk_date s" ?at] dayEnd_kept by metis
    next
      case False
      then show ?thesis unfolding t by (intro mark_days_marks) simp
    qed
    then show ?thesis using again o by blast
  next
    case None
    show ?thesis
    proof (cases "dayEndedAt w u today")
      case (Some t)
      then show ?thesis using e(1) None endDay_already [OF None Some] by (auto simp: endDay_already)
    next
      case notEnded: None
      show ?thesis
      proof (cases "latest_ended (\<lambda>s. wk_userId s = u \<and> wk_date s = today) w")
        case (Some l)
        have "w' = on_tables (\<lambda>db. snd (markDayEnded u today (coalesce (wk_endedAt l) 0) db)) w"
          using e(1) by (simp add: endDay_def None notEnded Some Let_def)
        then have "findOpen w' u = None" "\<exists>t. db_dayEnds (wd_tables w') (u, today) = Some (Some t)"
          using None dayEnd_marked by (simp_all add: findOpen_def)
        then show ?thesis using again by blast
      next
        case noSession: None
        show ?thesis
        proof (cases legacy)
          case True
          let ?db = "snd (markDayEnded u today now (closeOpenPresence u now (wd_tables w)))"
          have w': "wd_sessions w' = wd_sessions w"
            "wd_tables w' = mark_days u (filter (\<lambda>d. d \<noteq> today) [dateKeyInZone now tz]) now ?db"
            using e(1) True by (auto simp: endDay_def None notEnded noSession Let_def case_prod_unfold)
          then have "\<exists>t. db_dayEnds (wd_tables w') (u, today) = Some (Some t)"
            using dayEnd_marked dayEnd_kept by metis
          moreover have "findOpen w' u = None" using None w'(1) by (simp add: findOpen_def)
          ultimately show ?thesis using again by blast
        next
          case False
          then have w': "w' = w" "\<And>now'. endDay u now' today legacy since tz w = (r, w')"
            using e(1) by (auto simp: endDay_def None notEnded noSession Let_def split: option.splits)
          have "\<exists>d t. r = AlreadyEnded d t"
            using e False by (auto simp: endDay_def None notEnded noSession Let_def split: option.splits)
          then show ?thesis using w' by auto
        qed
      qed
    qed
  qed
qed

theorem end_day_is_idempotent_witness:
  "\<exists>d t. fst (endDay 1 30000 ''2026-01-05'' False 0 (\<lambda>_. 0) (snd (endDay 1 20000 ''2026-01-05'' False 0 (\<lambda>_. 0) two_days))) = AlreadyEnded d t"
proof -
  let ?e = "endDay 1 20000 ''2026-01-05'' False 0 (\<lambda>_. 0) two_days"
  have "fst ?e \<noteq> NotStarted d" for d
    by (simp add: endDay_def findOpen_def is_open_def two_days_sessions Let_def case_prod_unfold)
  then show ?thesis using end_day_is_idempotent [OF two_days_reachable, of 1 20000 "''2026-01-05''" False 0 "\<lambda>_. 0" "fst ?e" "snd ?e"]
    by (metis fst_conv prod.collapse)
qed

section \<open>Where a session starts\<close>

text \<open>The lift to the end of the last session is undone by the clamp to now, so with a clock behind that end the
  new session starts inside the last one.\<close>

lemma session_start_behind_last_end:
  assumes "latest_ended (\<lambda>s. wk_userId s = u) w = Some l" "wk_endedAt l = Some e" "now < e"
  shows "session_start w u startedAt now \<le> now"
    and "now \<le> startedAt \<Longrightarrow> session_start w u startedAt now = now \<and> session_start w u startedAt now < e"
  using assms by (simp_all add: session_start_def Let_def)

end
