(* ===== verification/Presence.thy ===== *)
theory Presence
  imports Work_Day
begin

text \<open>
  The presence module's writes: \<open>src/src/modules/presence/infrastructure/
  prisma-presence-session.repository.ts\<close> (switching to a status and ending the open one), the use cases
  \<open>start-presence\<close> and \<open>end-presence\<close> with their day gate, and the reads of one person. Rows are those
  of \<open>Break_Store\<close>; a session's note and device, the pushes to the live board and the events are left
  out.
\<close>

section \<open>Sessions of one person\<close>

definition newest_presence :: "presence_session \<Rightarrow> presence_session \<Rightarrow> int" where
  "newest_presence a b = ss_startedAt b - ss_startedAt a"

definition endNoEarlierThanStart :: "int \<Rightarrow> int \<Rightarrow> int" where
  "endNoEarlierThanStart startedAt now = (if now < startedAt then startedAt else now)"

definition listForUserByDate :: "break_db \<Rightarrow> uid \<Rightarrow> string \<Rightarrow> presence_session list" where
  "listForUserByDate db u date =
     js_sort newest_presence (filter (\<lambda>s. ss_userId s = u \<and> ss_date s = date) (db_presence db))"

definition listOpenForUsers :: "break_db \<Rightarrow> uid list \<Rightarrow> presence_session list" where
  "listOpenForUsers db us =
     js_sort newest_presence (filter (\<lambda>s. ss_userId s \<in> set us \<and> ss_endedAt s = None) (db_presence db))"

definition end_open :: "uid \<Rightarrow> int \<Rightarrow> break_db \<Rightarrow> break_db" where
  "end_open u now db =
     db\<lparr>db_presence := map (\<lambda>s. if ss_userId s = u \<and> ss_endedAt s = None
          then closed_at (endNoEarlierThanStart (ss_startedAt s) now) s else s) (db_presence db)\<rparr>"

definition closed_newest :: "break_db \<Rightarrow> uid \<Rightarrow> int \<Rightarrow> presence_session option" where
  "closed_newest db u now =
     map_option (\<lambda>s. closed_at (endNoEarlierThanStart (ss_startedAt s) now) s) (openPresence db u)"

definition switchTo ::
  "uid \<Rightarrow> presence_type \<Rightarrow> string \<Rightarrow> int \<Rightarrow> break_db \<Rightarrow> (presence_session option \<times> uid) \<times> break_db" where
  "switchTo u type date now db =
     (case create_session u type date now (end_open u now db) of
        (sid, db') \<Rightarrow> ((closed_newest db u now, sid), db'))"

definition endOpenForUser :: "uid \<Rightarrow> int \<Rightarrow> break_db \<Rightarrow> presence_session option \<times> break_db" where
  "endOpenForUser u now db =
     (case openPresence db u of
        None \<Rightarrow> (None, db)
      | Some _ \<Rightarrow> (closed_newest db u now, end_open u now db))"

text \<open>A work session as a span of time.\<close>

definition work_span :: "work_session \<Rightarrow> timed_span" where
  "work_span s = \<lparr>ts_startedAt = wk_startedAt s, ts_endedAt = wk_endedAt s\<rparr>"

section \<open>The use cases\<close>

text \<open>
  \<open>localDay\<close> is \<open>localDateString\<close> (the server's own zone), \<open>gate\<close> whether the worktime module is
  loaded. \<open>ensure\<close> is \<open>ensureOpen\<close> of the work sessions service.
\<close>

type_synonym 'a work_tx = "work_db \<Rightarrow> (db_error + 'a) \<times> work_db"

definition day_gate ::
  "bool \<Rightarrow> (uid \<Rightarrow> agent_generation \<Rightarrow> int \<Rightarrow> work_db \<Rightarrow> work_session result \<times> work_db)
   \<Rightarrow> uid \<Rightarrow> agent_generation \<Rightarrow> int \<Rightarrow> work_session option work_tx" where
  "day_gate gate ensure u generation now w =
     (if \<not> gate then (Inr None, w)
      else (case ensure u generation now w of
              (Inl e, w') \<Rightarrow> (Inl (App e), w')
            | (Inr s, w') \<Rightarrow> (Inr (Some s), w')))"

definition startPresence ::
  "bool \<Rightarrow> (uid \<Rightarrow> agent_generation \<Rightarrow> int \<Rightarrow> work_db \<Rightarrow> work_session result \<times> work_db) \<Rightarrow> (int \<Rightarrow> string)
   \<Rightarrow> uid \<Rightarrow> presence_type \<Rightarrow> agent_generation \<Rightarrow> int \<Rightarrow> uid work_tx" where
  "startPresence gate ensure localDay u type generation now w =
     (let switched = (\<lambda>date w1. case switchTo u type date now (wd_tables w1) of
            ((_, sid), db) \<Rightarrow> (Inr sid, w1\<lparr>wd_tables := db\<rparr>)) in
      if generation = AGENT_31 then
        (case day_gate gate ensure u generation now w of
           (Inl e, w1) \<Rightarrow> (Inl e, w1)
         | (Inr s, w1) \<Rightarrow> switched (case s of None \<Rightarrow> localDay now | Some x \<Rightarrow> wk_date x) w1)
      else if dayEnded (wd_tables w) u (localDay now) then (Inl (App (ConflictError ''CONFLICT'')), w)
      else switched (localDay now) w)"

definition endPresence ::
  "bool \<Rightarrow> (uid \<Rightarrow> agent_generation \<Rightarrow> int \<Rightarrow> work_db \<Rightarrow> work_session result \<times> work_db)
   \<Rightarrow> uid \<Rightarrow> agent_generation \<Rightarrow> int \<Rightarrow> unit work_tx" where
  "endPresence gate ensure u generation now w =
     (let finished = (\<lambda>w1. (Inr (), w1\<lparr>wd_tables := snd (endOpenForUser u now (wd_tables w1))\<rparr>)) in
      if generation = AGENT_31 then
        (case day_gate gate ensure u generation now w of
           (Inl e, w1) \<Rightarrow> (Inl e, w1)
         | (Inr _, w1) \<Rightarrow> finished w1)
      else finished w)"

section \<open>What they keep\<close>

lemma end_open_close: "end_open u now = closeOpenPresence u now"
  by (simp add: end_open_def closeOpenPresence_def endNoEarlierThanStart_def fun_eq_iff)

lemma end_open_ok: "db_ok db \<Longrightarrow> db_ok (end_open u now db)"
  by (simp add: end_open_close closeOpenPresence_ok)

lemma end_open_presence:
  "db_presence (end_open u now db) = map (\<lambda>s. if ss_userId s = u \<and> ss_endedAt s = None
     then closed_at (endNoEarlierThanStart (ss_startedAt s) now) s else s) (db_presence db)"
  by (simp add: end_open_def)

lemma end_open_none: "openPresence (end_open u now db) u = None"
proof -
  have "ss_userId s = u \<longrightarrow> ss_endedAt s \<noteq> None" if s: "s \<in> set (db_presence (end_open u now db))" for s
  proof -
    obtain t where "s = (if ss_userId t = u \<and> ss_endedAt t = None
        then closed_at (endNoEarlierThanStart (ss_startedAt t) now) t else t)"
      using s unfolding end_open_presence set_map by (elim imageE)
    then show ?thesis by (cases "ss_userId t = u \<and> ss_endedAt t = None") auto
  qed
  then show ?thesis by (simp add: openPresence_None)
qed

lemma endOpenForUser_db: "snd (endOpenForUser u now db) = end_open u now db"
proof (cases "openPresence db u")
  case None
  then have "map (\<lambda>s. if ss_userId s = u \<and> ss_endedAt s = None
      then closed_at (endNoEarlierThanStart (ss_startedAt s) now) s else s) (db_presence db) = db_presence db"
    by (intro map_idI) (auto simp: openPresence_None)
  then show ?thesis using None by (simp add: endOpenForUser_def end_open_def)
qed (simp add: endOpenForUser_def)

lemma end_open_sel [simp]:
  "db_breaks (end_open u now db) = db_breaks db" "db_nextId (end_open u now db) = db_nextId db"
  "db_monthLocks (end_open u now db) = db_monthLocks db" "db_companyOf (end_open u now db) = db_companyOf db"
  "db_dayEnds (end_open u now db) = db_dayEnds db" "db_openWork (end_open u now db) = db_openWork db"
  "db_sla (end_open u now db) = db_sla db"
  by (simp_all add: end_open_def)

lemma switchTo_ok: "db_ok db \<Longrightarrow> db_ok (snd (switchTo u type date now db))"
  unfolding switchTo_def
  by (simp add: case_prod_unfold create_session_ok end_open_ok end_open_none)

text \<open>Whatever was open before, the switched person has exactly the new session open.\<close>

lemma switchTo_opens:
  assumes "db_ok db"
  shows "map_option ss_type (openPresence (snd (switchTo u type date now db)) u) = Some type"
proof -
  let ?db = "snd (switchTo u type date now db)"
  have p: "db_presence ?db = db_presence (end_open u now db) @ [\<lparr>ss_id = db_nextId db, ss_userId = u, ss_type = type,
      ss_date = date, ss_startedAt = now, ss_endedAt = None, ss_durationSec = None\<rparr>]"
    by (simp add: switchTo_def case_prod_unfold)
  obtain s where s: "openPresence ?db u = Some s"
    using p by (cases "openPresence ?db u") (auto simp: openPresence_None)
  note o = openPresence_Some [OF s]
  have "s \<notin> set (db_presence (end_open u now db))" using o end_open_none [of u now db] by (auto simp: openPresence_None)
  then show ?thesis using o p s by simp
qed

lemma presence_steps_ok:
  assumes "work_ok w" "\<And>u g t w. work_ok w \<Longrightarrow> work_ok (snd (ensure u g t w))"
  shows "work_ok (snd (startPresence gate ensure localDay u type generation now w))"
    and "work_ok (snd (endPresence gate ensure u generation now w))"
proof -
  have gate_ok: "work_ok (snd (day_gate gate ensure u g now w))" for g
    using assms by (simp add: day_gate_def split: sum.split prod.split) (metis snd_conv)
  have tables: "work_ok w' \<Longrightarrow> db_ok db \<Longrightarrow> work_ok (w'\<lparr>wd_tables := db\<rparr>)" for w' db by (simp add: work_ok_def)
  have db: "work_ok w' \<Longrightarrow> db_ok (wd_tables w')" for w' by (simp add: work_ok_def)
  show "work_ok (snd (startPresence gate ensure localDay u type generation now w))"
    using gate_ok [of generation] assms(1)
    by (auto simp: startPresence_def Let_def case_prod_unfold split: sum.split intro!: tables switchTo_ok db)
  show "work_ok (snd (endPresence gate ensure u generation now w))"
    using gate_ok [of generation] assms(1)
    by (auto simp: endPresence_def Let_def case_prod_unfold endOpenForUser_db split: sum.split intro!: tables end_open_ok db)
qed

end
