(* ===== verification/Meetings.thy ===== *)
theory Meetings
  imports Presence
begin

text \<open>
  Meetings: \<open>src/src/modules/worktime/infrastructure/prisma-meeting-record.repository.ts\<close> (live meetings, earlier
  meetings logged afterwards, healing, decisions and routing) with the row types of
  \<open>domain/meeting-record.repository.ts\<close>. The rules themselves are those of \<open>Worktime_Rules\<close>
  (\<open>domain/meetings.ts\<close>). The tables are those of \<open>Work_Sessions\<close> with the meeting records added.
  \<open>createdAt\<close> and \<open>updatedAt\<close> are left out.
\<close>

section \<open>Rows\<close>

record meeting_row =
  mr_id :: uid
  mr_userId :: uid
  mr_date :: string
  mr_mode :: meeting_mode
  mr_agenda :: string
  mr_participants :: "participant list"
  mr_momSender :: "string option"
  mr_startedAt :: int
  mr_endedAt :: "int option"
  mr_durationSec :: "int option"
  mr_presenceSessionId :: "uid option"
  mr_approvalStatus :: approval_status
  mr_approverRole :: "role option"
  mr_approverId :: "uid option"
  mr_decidedById :: "uid option"
  mr_decidedAt :: "int option"
  mr_decisionNote :: "string option"
  mr_clock :: pending_clock

record new_meeting =
  nm_userId :: uid
  nm_date :: string
  nm_agenda :: string
  nm_participants :: "participant list"
  nm_momSender :: "string option"
  nm_approvalStatus :: approval_status
  nm_approverRole :: "role option"
  nm_approverId :: "uid option"

record meet_db =
  md_meetings :: "meeting_row list"
  md_nextId :: uid
  md_work :: work_db

abbreviation md_tables :: "meet_db \<Rightarrow> break_db" where "md_tables d \<equiv> wd_tables (md_work d)"

type_synonym 'a meet_tx = "meet_db \<Rightarrow> (db_error + 'a) \<times> meet_db"

definition discarded :: "meeting_row \<Rightarrow> bool" where
  "discarded m = isDiscardedMeeting (mr_mode m) (mr_endedAt m) (mr_approvalStatus m) (mr_durationSec m)"

definition discard :: "meeting_row \<Rightarrow> meeting_row" where
  "discard m = m\<lparr>mr_approvalStatus := NotRequired, mr_approverRole := None, mr_approverId := None, mr_clock := no_clock\<rparr>"

definition find_meeting :: "meet_db \<Rightarrow> uid \<Rightarrow> meeting_row option" where
  "find_meeting d i = List.find (\<lambda>m. mr_id m = i) (md_meetings d)"

definition clockFor :: "approval_status \<Rightarrow> clock_frame \<Rightarrow> int \<Rightarrow> int \<Rightarrow> pending_clock" where
  "clockFor st clk now sla = (if st = Pending then pendingClock clk now sla else no_clock)"

definition by_meeting_start :: "meeting_row \<Rightarrow> meeting_row \<Rightarrow> int" where
  "by_meeting_start a b = mr_startedAt a - mr_startedAt b"

definition meetings_on :: "meet_db \<Rightarrow> uid \<Rightarrow> string \<Rightarrow> meeting_row list" where
  "meetings_on d u date =
     js_sort by_meeting_start (filter (\<lambda>m. mr_userId m = u \<and> mr_date m = date \<and> \<not> discarded m) (md_meetings d))"

definition update_meeting :: "uid \<Rightarrow> (meeting_row \<Rightarrow> meeting_row) \<Rightarrow> meet_db \<Rightarrow> meet_db" where
  "update_meeting i f d = d\<lparr>md_meetings := map (\<lambda>m. if mr_id m = i then f m else m) (md_meetings d)\<rparr>"

definition create_meeting :: "(uid \<Rightarrow> meeting_row) \<Rightarrow> meet_db \<Rightarrow> meeting_row \<times> meet_db" where
  "create_meeting mk d =
     (let m = mk (md_nextId d) in (m, d\<lparr>md_meetings := md_meetings d @ [m], md_nextId := Suc (md_nextId d)\<rparr>))"

definition new_row :: "new_meeting \<Rightarrow> string \<Rightarrow> meeting_mode \<Rightarrow> int \<Rightarrow> int option \<Rightarrow> int option \<Rightarrow> uid option \<Rightarrow> pending_clock
   \<Rightarrow> uid \<Rightarrow> meeting_row" where
  "new_row n date mode startedAt endedAt durationSec sid clock i =
     \<lparr>mr_id = i, mr_userId = nm_userId n, mr_date = date, mr_mode = mode, mr_agenda = nm_agenda n,
      mr_participants = nm_participants n, mr_momSender = nm_momSender n, mr_startedAt = startedAt, mr_endedAt = endedAt,
      mr_durationSec = durationSec, mr_presenceSessionId = sid, mr_approvalStatus = nm_approvalStatus n,
      mr_approverRole = nm_approverRole n, mr_approverId = nm_approverId n, mr_decidedById = None, mr_decidedAt = None,
      mr_decisionNote = None, mr_clock = clock\<rparr>"

section \<open>Live meetings\<close>

datatype live_refusal = LvDayNotStarted | LvDayEnded | LvOnBreak | LvMeetingInProgress

datatype start_live_result = LiveStarted meeting_row uid | LiveRefused live_refusal

fun live_closed :: "day_closed \<Rightarrow> live_refusal" where
  "live_closed DayNotStarted = LvDayNotStarted"
| "live_closed DayAlreadyEnded = LvDayEnded"

definition startLive ::
  "new_meeting \<Rightarrow> agent_generation \<Rightarrow> int \<Rightarrow> string \<Rightarrow> zone \<Rightarrow> clock_frame \<Rightarrow> start_live_result meet_tx" where
  "startLive n generation now today tz clk d =
     (let u = nm_userId n; w = md_work d; opened = findOpen w u; presence = openPresence (wd_tables w) u in
      if opened = None \<and> generation = AGENT_31
      then (Inr (LiveRefused (if sessions_on w u today \<noteq> [] then LvDayEnded else LvDayNotStarted)), d)
      else if on_break presence then (Inr (LiveRefused LvOnBreak), d)
      else if in_meeting presence then (Inr (LiveRefused LvMeetingInProgress), d)
      else
        (case (case opened of None \<Rightarrow> ensureOpenTx u generation now today w | Some s \<Rightarrow> (DayIsOpen s False, w)) of
           (DayIsClosed code, w1) \<Rightarrow> (Inr (LiveRefused (live_closed code)), d\<lparr>md_work := w1\<rparr>)
         | (DayIsOpen s _, w1) \<Rightarrow>
             if nm_approvalStatus n = Pending \<and> isMonthLocked (wd_tables w1) (wk_date s) u
             then (Inl (App (ConflictError ''MONTH_LOCKED'')), d)
             else
               (let (sid, db) = create_session u PMeeting (dateKeyInZone now tz) now (wd_tables w1);
                    clock = clockFor (nm_approvalStatus n) clk now (db_sla (wd_tables w) u);
                    (m, d1) = create_meeting (new_row n (wk_date s) LiveMeeting now None None (Some sid) clock)
                      (d\<lparr>md_work := w1\<lparr>wd_tables := db\<rparr>\<rparr>)
                in (Inr (LiveStarted m sid), d1))))"

datatype end_live_result = LiveEnded meeting_row | LiveDiscarded | LiveUnchanged meeting_row

definition ended_as :: "int \<Rightarrow> meeting_row \<Rightarrow> meeting_row" where
  "ended_as e m =
     (let m' = m\<lparr>mr_endedAt := Some e, mr_durationSec := Some (elapsedSec (mr_startedAt m) e)\<rparr>
      in if elapsedSec (mr_startedAt m) e < MIN_LIVE_MEETING_SEC then discard m' else m')"

definition endLive :: "uid \<Rightarrow> uid \<Rightarrow> int \<Rightarrow> end_live_result option meet_tx" where
  "endLive i u now d =
     (case find_meeting d i of
        None \<Rightarrow> (Inr None, d)
      | Some m \<Rightarrow>
          if mr_userId m \<noteq> u then (Inr None, d)
          else if discarded m then (Inr (Some LiveDiscarded), d)
          else if mr_mode m \<noteq> LiveMeeting \<or> mr_endedAt m \<noteq> None then (Inr (Some (LiveUnchanged m)), d)
          else if mr_approvalStatus m = Pending \<and> isMonthLocked (md_tables d) (mr_date m) (mr_userId m)
          then (Inl (App (ConflictError ''MONTH_LOCKED'')), d)
          else
            (let (endedAt, db) = (case session_of (md_tables d) (mr_presenceSessionId m) of
                    None \<Rightarrow> (now, md_tables d)
                  | Some s \<Rightarrow> (case ss_endedAt s of
                                 None \<Rightarrow> (now, close_session (ss_id s) now (md_tables d))
                               | Some e \<Rightarrow> (e, md_tables d)));
                 d1 = update_meeting i (ended_as endedAt) (d\<lparr>md_work := (md_work d)\<lparr>wd_tables := db\<rparr>\<rparr>)
             in if elapsedSec (mr_startedAt m) endedAt < MIN_LIVE_MEETING_SEC then (Inr (Some LiveDiscarded), d1)
                else (Inr (Some (LiveEnded (ended_as endedAt m))), d1)))"

section \<open>Earlier meetings\<close>

datatype create_past_result = PastCreated meeting_row | PastDayNotStarted | PastConflict past_meeting_conflict

definition around :: "int \<Rightarrow> int \<Rightarrow> int \<Rightarrow> int option \<Rightarrow> bool" where
  "around start stop startedAt endedAt = (startedAt < stop \<and> (case endedAt of None \<Rightarrow> True | Some e \<Rightarrow> e > start))"

definition status_span :: "presence_session \<Rightarrow> timed_span" where
  "status_span s = \<lparr>ts_startedAt = ss_startedAt s, ts_endedAt = ss_endedAt s\<rparr>"

definition record_span :: "meeting_row \<Rightarrow> timed_span" where
  "record_span m = \<lparr>ts_startedAt = mr_startedAt m,
     ts_endedAt = (case mr_endedAt m of Some e \<Rightarrow> Some e | None \<Rightarrow> if mr_mode m = LiveMeeting then None else Some (mr_startedAt m))\<rparr>"

text \<open>The working day's sessions of the person: today's and the open one.\<close>

definition day_sessions :: "work_db \<Rightarrow> uid \<Rightarrow> string \<Rightarrow> work_session list" where
  "day_sessions w u today = filter (\<lambda>s. wk_userId s = u \<and> (wk_date s = today \<or> is_open s)) (wd_sessions w)"

definition presence_around :: "break_db \<Rightarrow> uid \<Rightarrow> int \<Rightarrow> int \<Rightarrow> presence_session list" where
  "presence_around db u start stop =
     filter (\<lambda>s. ss_userId s = u \<and> around start stop (ss_startedAt s) (ss_endedAt s)) (db_presence db)"

definition meetings_around :: "meet_db \<Rightarrow> uid \<Rightarrow> int \<Rightarrow> int \<Rightarrow> meeting_row list" where
  "meetings_around d u start stop =
     filter (\<lambda>m. mr_userId m = u \<and> around start stop (mr_startedAt m) (mr_endedAt m) \<and> \<not> discarded m) (md_meetings d)"

text \<open>A presence meeting under a minute was a discarded live meeting.\<close>

definition long_presence_meeting :: "presence_session \<Rightarrow> bool" where
  "long_presence_meeting s =
     (ss_type s = PMeeting
      \<and> (case ss_endedAt s of None \<Rightarrow> True | Some e \<Rightarrow> e - ss_startedAt s \<ge> MIN_LIVE_MEETING_SEC * 1000))"

definition past_input :: "meet_db \<Rightarrow> uid \<Rightarrow> string \<Rightarrow> int \<Rightarrow> int \<Rightarrow> int \<Rightarrow> past_meeting_input" where
  "past_input d u today start stop now =
     (let presence = presence_around (md_tables d) u start stop in
      \<lparr>pm_start = start, pm_end = stop, pm_now = now, pm_sessions = map work_span (day_sessions (md_work d) u today),
       pm_breaks = map (\<lambda>s. (if ss_type s = PBreak then WithBreak else WithLunch, status_span s))
         (filter (\<lambda>s. ss_type s = PBreak \<or> ss_type s = PLunch) presence),
       pm_meetings = map status_span (filter long_presence_meeting presence)
         @ map record_span (meetings_around d u start stop)\<rparr>)"

definition createPast ::
  "new_meeting \<Rightarrow> int \<Rightarrow> int \<Rightarrow> agent_generation \<Rightarrow> int \<Rightarrow> string \<Rightarrow> clock_frame \<Rightarrow> create_past_result meet_tx" where
  "createPast n start durationSec generation now today clk d =
     (let u = nm_userId n; stop = start + durationSec * 1000; sessions = day_sessions (md_work d) u today in
      if sessions = [] \<and> generation = AGENT_31 then (Inr PastDayNotStarted, d)
      else
        (case checkPastMeeting (past_input d u today start stop now) of
           Some conflict \<Rightarrow> (Inr (PastConflict conflict), d)
         | None \<Rightarrow>
             (let covering = List.find (\<lambda>s. wk_startedAt s \<le> start \<and> stop \<le> coalesce (wk_endedAt s) now) sessions;
                  date = (case covering of None \<Rightarrow> today | Some s \<Rightarrow> wk_date s)
              in if nm_approvalStatus n = Pending \<and> isMonthLocked (md_tables d) date u
                 then (Inl (App (ConflictError ''MONTH_LOCKED'')), d)
                 else
                   (let clock = clockFor (nm_approvalStatus n) clk now (db_sla (md_tables d) u);
                        (m, d1) = create_meeting (new_row n date PastMeeting start (Some stop) (Some durationSec) None clock) d
                    in (Inr (PastCreated m), d1)))))"

section \<open>Healing\<close>

definition for_users :: "uid list option \<Rightarrow> uid \<Rightarrow> bool" where
  "for_users us u = (case us of None \<Rightarrow> True | Some l \<Rightarrow> u \<in> set l)"

text \<open>A record whose presence session has ended without it, or a live one that never had a session left.\<close>

definition session_end :: "break_db \<Rightarrow> meeting_row \<Rightarrow> int option" where
  "session_end db m = (case session_of db (mr_presenceSessionId m) of None \<Rightarrow> None | Some s \<Rightarrow> ss_endedAt s)"

definition to_heal :: "uid list option \<Rightarrow> break_db \<Rightarrow> meeting_row \<Rightarrow> bool" where
  "to_heal us db m = (for_users us (mr_userId m) \<and> mr_endedAt m = None \<and> session_end db m \<noteq> None)"

definition orphan :: "uid list option \<Rightarrow> meeting_row \<Rightarrow> bool" where
  "orphan us m = (for_users us (mr_userId m) \<and> mr_mode m = LiveMeeting \<and> mr_endedAt m = None \<and> mr_presenceSessionId m = None)"

definition heal_row :: "uid list option \<Rightarrow> break_db \<Rightarrow> meeting_row \<Rightarrow> meeting_row" where
  "heal_row us db m =
     (if to_heal us db m then ended_as (coalesce (session_end db m) 0) m
      else if orphan us m then discard (m\<lparr>mr_endedAt := Some (mr_startedAt m), mr_durationSec := Some 0\<rparr>)
      else m)"

definition heal :: "uid list option \<Rightarrow> meet_db \<Rightarrow> (meeting_row list \<times> nat) \<times> meet_db" where
  "heal us d =
     (let db = md_tables d;
          rows = map (heal_row us db) (filter (to_heal us db) (md_meetings d));
          short = (\<lambda>m. coalesce (mr_durationSec m) 0 < MIN_LIVE_MEETING_SEC)
      in ((filter (\<lambda>m. \<not> short m) rows, length (filter short rows) + length (filter (orphan us) (md_meetings d))),
          d\<lparr>md_meetings := map (heal_row us db) (md_meetings d)\<rparr>))"

section \<open>Decisions and routing\<close>

definition decide_meeting ::
  "uid \<Rightarrow> approval_status list \<Rightarrow> decision \<Rightarrow> clock_frame \<Rightarrow> meeting_row option meet_tx" where
  "decide_meeting i expected dc clk d =
     (case find_meeting d i of
        None \<Rightarrow> (Inr None, d)
      | Some m \<Rightarrow>
          if isMonthLocked (md_tables d) (mr_date m) (mr_userId m) then (Inl (App (ConflictError ''MONTH_LOCKED'')), d)
          else if mr_endedAt m = None \<and> dc_status dc \<noteq> Pending then (Inl (App (ConflictError ''MEETING_IN_PROGRESS'')), d)
          else if mr_approvalStatus m \<notin> set expected then (Inr None, d)
          else
            (let decided = (\<lambda>x. x\<lparr>mr_approvalStatus := dc_status dc, mr_decidedById := dc_decidedById dc,
                   mr_decidedAt := dc_decidedAt dc, mr_decisionNote := dc_note dc,
                   mr_clock := (if dc_status dc = Pending then pendingClock clk (clock_now clk) (db_sla (md_tables d) (mr_userId m))
                                else mr_clock x)\<rparr>);
                 d1 = update_meeting i decided d
             in (Inr (find_meeting d1 i), d1)))"

definition reroute_meeting :: "uid \<Rightarrow> role option \<times> uid option \<Rightarrow> meet_db \<Rightarrow> bool \<times> meet_db" where
  "reroute_meeting i rt d =
     (let hit = (\<lambda>m. mr_id m = i \<and> mr_approvalStatus m = Pending)
      in (\<exists>m \<in> set (md_meetings d). hit m,
          d\<lparr>md_meetings := map (\<lambda>m. if hit m then m\<lparr>mr_approverRole := fst rt, mr_approverId := snd rt\<rparr> else m) (md_meetings d)\<rparr>))"

definition pending_meetings :: "meet_db \<Rightarrow> (meeting_row \<Rightarrow> bool) \<Rightarrow> meeting_row list" where
  "pending_meetings d P = take 500 (filter (\<lambda>m. P m \<and> mr_approvalStatus m = Pending) (md_meetings d))"

definition meetings_for_approver :: "meet_db \<Rightarrow> uid \<Rightarrow> meeting_row list" where
  "meetings_for_approver d a = pending_meetings d (\<lambda>m. mr_approverId m = Some a)"

definition meetings_for_user :: "meet_db \<Rightarrow> uid \<Rightarrow> meeting_row list" where
  "meetings_for_user d u = pending_meetings d (\<lambda>m. mr_userId m = u)"

end
