(* ===== verification/Meeting_Guarantees.thy ===== *)
theory Meeting_Guarantees
  imports Meetings
begin

text \<open>
  What the meetings guarantee: over any history a running meeting is the person's only open presence, an
  earlier meeting is filed where nothing else happened, and a live meeting runs from start to end as
  one record.
\<close>

section \<open>Presence sessions stay what they are\<close>

definition presence_kept :: "break_db \<Rightarrow> break_db \<Rightarrow> bool" where
  "presence_kept db db' \<longleftrightarrow> (\<forall>s \<in> set (db_presence db). \<exists>t \<in> set (db_presence db').
     ss_id t = ss_id s \<and> ss_userId t = ss_userId s \<and> ss_type t = ss_type s \<and> ss_startedAt t = ss_startedAt s)"

lemma kept_same: "db_presence db' = db_presence db \<Longrightarrow> presence_kept db db'"
  by (auto simp: presence_kept_def)

lemma kept_trans: "presence_kept a b \<Longrightarrow> presence_kept b c \<Longrightarrow> presence_kept a c"
  unfolding presence_kept_def by metis

lemma kept_close: "presence_kept db (close_session i t db)"
  unfolding presence_kept_def
proof
  fix s assume "s \<in> set (db_presence db)"
  then show "\<exists>x \<in> set (db_presence (close_session i t db)). ss_id x = ss_id s \<and> ss_userId x = ss_userId s
      \<and> ss_type x = ss_type s \<and> ss_startedAt x = ss_startedAt s"
    by (intro bexI [of _ "if ss_id s = i then closed_at t s else s"]) auto
qed

lemma kept_create: "presence_kept db (snd (create_session u ty d t db))"
  by (auto simp: presence_kept_def)

lemma create_break_presence [simp]: "db_presence (snd (create_break mk db)) = db_presence db"
  by (simp add: create_break_def Let_def)

lemma kept_current: "presence_kept db (close_current b t db)"
  by (auto simp: close_current_def kept_close kept_same split: option.split)

lemma kept_freed: "presence_kept db (freed db u t)"
  by (auto simp: freed_def kept_close kept_same split: option.split)

lemma kept_start_now: "presence_kept db (snd (start_now r clock day now db))"
proof -
  obtain res db' where e: "start_now r clock day now db = (res, db')" by fastforce
  show ?thesis using start_now_cases [OF e]
  proof (elim disjE exE conjE)
    fix sid db2 row
    assume c: "create_session (nb_userId r) (nb_presenceType r) day now (freed db (nb_userId r) now) = (sid, db2)"
      and b: "create_break (running_row r clock 0 None sid now) db2 = (Inr row, db')"
    have "presence_kept db db2" using kept_trans [OF kept_freed kept_create] c by (metis snd_conv)
    moreover have "db_presence db' = db_presence db2" using create_break_presence [of "running_row r clock 0 None sid now" db2] b by simp
    ultimately show ?thesis using e by (auto simp: presence_kept_def)
  qed (simp add: e kept_same)
qed

lemma kept_startScheduled: "presence_kept db (snd (startScheduled r day now clk db))"
proof -
  have "presence_kept db (snd (start_now r clock day now (delete_break i db)))" for clock i
    using kept_start_now [of "delete_break i db"] by (simp add: presence_kept_def)
  then show ?thesis using startScheduled_db [of r day now clk db] kept_start_now [of db] by (auto simp: kept_same)
qed

lemma kept_createForSession: "presence_kept db (snd (createForSession r sid clk db))"
  by (auto simp: createForSession_def createForSession_tx_def transaction_def Let_def case_prod_unfold intro!: kept_same
    split: sum.split prod.split db_error.split)

lemma kept_quick: "presence_kept db (snd (startQuick q db))"
  unfolding startQuick_def transaction_db
  using kept_create [of db]
  by (auto simp: startQuick_tx_def Let_def case_prod_unfold kept_same presence_kept_def split: sum.split prod.split)

lemma kept_pause: "presence_kept db (snd (pause i u now db))"
  using kept_current [of db] by (auto simp: pause_def Let_def kept_same presence_kept_def split: option.split)

lemma kept_resume: "presence_kept db (snd (resume i u now day db))"
  using kept_create [of db]
  by (auto simp: resume_def Let_def case_prod_unfold endPausedTx_def kept_same presence_kept_def split: option.split)

lemma kept_markEnded: "presence_kept db (snd (markEnded i now db))"
  using kept_current [of db]
  by (auto simp: markEnded_def endPausedTx_def Let_def case_prod_unfold kept_same presence_kept_def split: option.split)

lemma kept_others:
  "db_presence (snd (finishBreak i input now clk db)) = db_presence db" "db_presence (snd (addComment i c now db)) = db_presence db"
  "db_presence (snd (decide i expected d clk db)) = db_presence db" "db_presence (snd (reroute i rt db)) = db_presence db"
  by (auto simp: finishBreak_def addComment_def decide_def reroute_def Let_def split: option.split)

lemma kept_end_all: "db_presence (snd (end_all is now db)) = db_presence db"
proof (induction "is" now db rule: end_all.induct)
  case (2 i "is" now db)
  obtain d db1 n db2 where e: "endPausedTx i now db = (d, db1)" "end_all is now db1 = (n, db2)" by fastforce
  have "db_presence (snd (endPausedTx i now db)) = db_presence db" by (auto simp: endPausedTx_def Let_def split: option.split)
  then show ?case using 2 [OF e(1) [symmetric] refl] e by simp
qed simp

lemma step_kept: "break_step db db' \<Longrightarrow> presence_kept db db'"
  by (induction rule: break_step.induct)
    (simp_all add: kept_startScheduled kept_createForSession kept_quick kept_pause kept_resume kept_markEnded kept_others
      kept_end_all kept_same kept_close kept_create endExpiredPaused_def endPaused_def)
section \<open>The invariant of the meeting records\<close>

definition linked :: "break_db \<Rightarrow> meeting_row \<Rightarrow> bool" where
  "linked db m \<longleftrightarrow> (\<forall>sid. mr_presenceSessionId m = Some sid \<longrightarrow> (\<exists>s \<in> set (db_presence db).
     ss_id s = sid \<and> ss_userId s = mr_userId m \<and> ss_type s = PMeeting \<and> ss_startedAt s = mr_startedAt m))"

definition meet_ok :: "meet_db \<Rightarrow> bool" where
  "meet_ok d \<longleftrightarrow> work_ok (md_work d) \<and> distinct (map mr_id (md_meetings d)) \<and> (\<forall>m \<in> set (md_meetings d). mr_id m < md_nextId d)
     \<and> (\<forall>m \<in> set (md_meetings d). linked (md_tables d) m)
     \<and> inj_on mr_presenceSessionId {m \<in> set (md_meetings d). mr_presenceSessionId m \<noteq> None}"

lemma linked_kept: "presence_kept db db' \<Longrightarrow> linked db m \<Longrightarrow> linked db' m"
  unfolding linked_def presence_kept_def by metis

text \<open>An update that keeps a record's identity.\<close>

definition same_meeting :: "meeting_row \<Rightarrow> meeting_row \<Rightarrow> bool" where
  "same_meeting m m' \<longleftrightarrow> mr_id m' = mr_id m \<and> mr_userId m' = mr_userId m \<and> mr_startedAt m' = mr_startedAt m
     \<and> mr_presenceSessionId m' = mr_presenceSessionId m"

lemma map_meet_ok:
  assumes "meet_ok d" "\<And>m. same_meeting m (f m)"
  shows "meet_ok (d\<lparr>md_meetings := map f (md_meetings d)\<rparr>)"
proof -
  have f: "mr_id (f m) = mr_id m" "mr_userId (f m) = mr_userId m" "mr_startedAt (f m) = mr_startedAt m"
    "mr_presenceSessionId (f m) = mr_presenceSessionId m" for m
    using assms(2) by (auto simp: same_meeting_def)
  have "map mr_id (map f (md_meetings d)) = map mr_id (md_meetings d)" using f by simp
  then have "distinct (map mr_id (map f (md_meetings d)))" using assms(1) unfolding meet_ok_def by presburger
  moreover have "inj_on mr_presenceSessionId {m \<in> set (map f (md_meetings d)). mr_presenceSessionId m \<noteq> None}"
    using assms(1) f unfolding meet_ok_def inj_on_def by fastforce
  ultimately show ?thesis using assms(1) f by (auto simp: meet_ok_def linked_def)
qed

lemma work_meet_ok:
  assumes "meet_ok d" "work_ok w" "presence_kept (md_tables d) (wd_tables w)"
  shows "meet_ok (d\<lparr>md_work := w\<rparr>)"
  using assms linked_kept by (auto simp: meet_ok_def)

lemma createSession_tables [simp]: "wd_tables (snd (createSessionTx u s now src dayOf w)) = wd_tables w"
  by (simp add: createSessionTx_def Let_def)

lemma day_end_presence [simp]:
  "db_presence (clear_day_end u d db) = db_presence db" "db_presence (snd (markDayEnded u d t db)) = db_presence db"
  by (simp_all add: clear_day_end_def markDayEnded_def split: option.split)

lemma mark_days_presence [simp]: "db_presence (mark_days u ds t db) = db_presence db"
  by (induction u ds t db rule: mark_days.induct) simp_all

lemma kept_day_end [simp]:
  "presence_kept db (clear_day_end u d x) = presence_kept db x" "presence_kept db (snd (markDayEnded u d t x)) = presence_kept db x"
  "presence_kept db (mark_days u ds t x) = presence_kept db x" "presence_kept db (x\<lparr>db_breaks := bs\<rparr>) = presence_kept db x"
  by (simp_all add: presence_kept_def)

lemma kept_closeOpen: "presence_kept db (closeOpenPresence u t db)"
  unfolding presence_kept_def
proof
  fix s assume "s \<in> set (db_presence db)"
  then show "\<exists>x \<in> set (db_presence (closeOpenPresence u t db)). ss_id x = ss_id s \<and> ss_userId x = ss_userId s
      \<and> ss_type x = ss_type s \<and> ss_startedAt x = ss_startedAt s"
    by (intro bexI [of _ "if ss_userId s = u \<and> ss_endedAt s = None
          then closed_at (if t < ss_startedAt s then ss_startedAt s else t) s else s"]) (auto simp: closeOpenPresence_def)
qed

lemma endDay_kept: "presence_kept (wd_tables w) (wd_tables (snd (endDay u now today legacy since tz w)))"
  by (simp add: endDay_def Let_def case_prod_unfold kept_same kept_closeOpen split: option.split)

lemma autoClose_kept: "presence_kept (wd_tables w) (wd_tables (snd (autoClose s t w)))"
  by (simp add: autoClose_def Let_def case_prod_unfold kept_same kept_closeOpen split: option.split)

lemma work_step_kept: "work_step w w' \<Longrightarrow> presence_kept (wd_tables w) (wd_tables w')"
proof (induction rule: work_step.induct)
  case (on_break w db)
  from step_kept [OF on_break] show ?case by (simp add: presence_kept_def shared_tables_def)
next
  case (day_extended w u latestEnd at)
  then show ?case
    by (intro kept_same) (simp add: extendAutoClosed_def extendAutoClosed_tx_def split: option.split)
qed (simp_all add: startDay_def ensureOpenTx_def openImplicit_def endDay_kept autoClose_kept kept_same case_prod_unfold Let_def
    split: option.split)

lemma create_meeting_ok:
  assumes ok: "meet_ok d" and id: "\<And>i. mr_id (mk i) = i" and l: "linked (md_tables d) (mk (md_nextId d))"
    and fresh: "\<And>m. m \<in> set (md_meetings d) \<Longrightarrow> mr_presenceSessionId m \<noteq> None \<Longrightarrow>
      mr_presenceSessionId m \<noteq> mr_presenceSessionId (mk (md_nextId d))"
  shows "meet_ok (snd (create_meeting mk d))"
proof -
  let ?m = "mk (md_nextId d)"
  have n: "mr_id m < md_nextId d" if "m \<in> set (md_meetings d)" for m using ok that by (simp add: meet_ok_def)
  have "distinct (map mr_id (md_meetings d @ [?m]))"
    using ok id n [THEN less_not_refl3] n by (fastforce simp: meet_ok_def)
  moreover have "inj_on mr_presenceSessionId {m \<in> set (md_meetings d @ [?m]). mr_presenceSessionId m \<noteq> None}"
    using ok fresh unfolding meet_ok_def inj_on_def by fastforce
  ultimately show ?thesis
    using ok l id n by (auto simp: create_meeting_def Let_def meet_ok_def less_Suc_eq)
qed

lemma same_ended [simp]: "same_meeting m (ended_as e m)"
  by (simp add: same_meeting_def ended_as_def discard_def Let_def)

lemma startLive_cases:
  assumes "startLive n generation now today tz clk d = (res, d')"
  shows "(d' = d \<and> (\<forall>m sid. res \<noteq> Inr (LiveStarted m sid)))
    \<or> (\<exists>s b w1 m. openPresence (md_tables d) (nm_userId n) = None
        \<and> (case findOpen (md_work d) (nm_userId n) of None \<Rightarrow> ensureOpenTx (nm_userId n) generation now today (md_work d)
           | Some s \<Rightarrow> (DayIsOpen s False, md_work d)) = (DayIsOpen s b, w1)
        \<and> \<not> (nm_approvalStatus n = Pending \<and> isMonthLocked (wd_tables w1) (wk_date s) (nm_userId n))
        \<and> create_meeting (new_row n (wk_date s) LiveMeeting now None None (Some (db_nextId (wd_tables w1)))
            (clockFor (nm_approvalStatus n) clk now (db_sla (md_tables d) (nm_userId n))))
            (d\<lparr>md_work := w1\<lparr>wd_tables := snd (create_session (nm_userId n) PMeeting (dateKeyInZone now tz) now (wd_tables w1))\<rparr>\<rparr>)
          = (m, d')
        \<and> res = Inr (LiveStarted m (db_nextId (wd_tables w1))))"
    (is "?same \<or> ?started")
proof -
  let ?u = "nm_userId n" and ?w = "md_work d"
  let ?presence = "openPresence (wd_tables ?w) ?u"
  show ?thesis
  proof (cases "(findOpen ?w ?u = None \<and> generation = AGENT_31) \<or> on_break ?presence \<or> in_meeting ?presence")
    case True
    then show ?thesis using assms by (auto simp: startLive_def Let_def split: if_splits)
  next
    case False
    then have none: "?presence = None"
      by (cases ?presence) (auto simp: on_break_def in_meeting_def intro: presence_type.exhaust)
    obtain r w1 where g: "(case findOpen ?w ?u of None \<Rightarrow> ensureOpenTx ?u generation now today ?w
        | Some s \<Rightarrow> (DayIsOpen s False, ?w)) = (r, w1)" by fastforce
    show ?thesis
    proof (cases r)
      case (DayIsClosed code)
      then have "w1 = ?w" using g by (auto simp: ensureOpenTx_def split: option.splits if_splits prod.splits)
      then show ?thesis using assms False g DayIsClosed by (auto simp: startLive_def Let_def)
    next
      case (DayIsOpen s b)
      then show ?thesis using assms False g none
        by (auto simp: startLive_def Let_def case_prod_unfold split: if_splits)
    qed
  qed
qed

lemma ensureOpenTx_tables [simp]: "wd_tables (snd (ensureOpenTx u g now today w)) = wd_tables w"
  by (simp add: ensureOpenTx_def case_prod_unfold split: option.split)

lemma new_row_sel [simp]:
  "mr_id (new_row n dt mo st en du sid c i) = i" "mr_userId (new_row n dt mo st en du sid c i) = nm_userId n"
  "mr_presenceSessionId (new_row n dt mo st en du sid c i) = sid" "mr_startedAt (new_row n dt mo st en du sid c i) = st"
  "mr_endedAt (new_row n dt mo st en du sid c i) = en" "mr_mode (new_row n dt mo st en du sid c i) = mo"
  "mr_date (new_row n dt mo st en du sid c i) = dt" "mr_approvalStatus (new_row n dt mo st en du sid c i) = nm_approvalStatus n"
  "mr_durationSec (new_row n dt mo st en du sid c i) = du"
  by (simp_all add: new_row_def)

lemma startLive_started:
  assumes ok: "meet_ok d" and ahead: "clock_ahead (md_work d) (nm_userId n) now"
    and st: "startLive n generation now today tz clk d = (Inr (LiveStarted m sid), d')"
  shows "meet_ok d' \<and> m \<in> set (md_meetings d') \<and> mr_userId m = nm_userId n \<and> mr_startedAt m = now \<and> mr_endedAt m = None
    \<and> mr_mode m = LiveMeeting \<and> mr_presenceSessionId m = Some sid \<and> mr_approvalStatus m = nm_approvalStatus n
    \<and> md_meetings d' = md_meetings d @ [m]
    \<and> (\<exists>s. openPresence (md_tables d') (nm_userId n) = Some s \<and> ss_id s = sid \<and> ss_type s = PMeeting \<and> ss_startedAt s = now)
    \<and> openPresence (md_tables d) (nm_userId n) = None
    \<and> (\<exists>s. findOpen (md_work d') (nm_userId n) = Some s \<and> mr_date m = wk_date s)
    \<and> \<not> (nm_approvalStatus n = Pending \<and> isMonthLocked (md_tables d') (mr_date m) (nm_userId n))"
proof -
  let ?u = "nm_userId n"
  obtain s b w1 where none: "openPresence (md_tables d) ?u = None"
    and g: "(case findOpen (md_work d) ?u of None \<Rightarrow> ensureOpenTx ?u generation now today (md_work d)
           | Some s \<Rightarrow> (DayIsOpen s False, md_work d)) = (DayIsOpen s b, w1)"
    and lock: "\<not> (nm_approvalStatus n = Pending \<and> isMonthLocked (wd_tables w1) (wk_date s) ?u)"
    and cm: "create_meeting (new_row n (wk_date s) LiveMeeting now None None (Some (db_nextId (wd_tables w1)))
            (clockFor (nm_approvalStatus n) clk now (db_sla (md_tables d) ?u)))
            (d\<lparr>md_work := w1\<lparr>wd_tables := snd (create_session ?u PMeeting (dateKeyInZone now tz) now (wd_tables w1))\<rparr>\<rparr>)
          = (m, d')"
    and sid: "sid = db_nextId (wd_tables w1)"
    using startLive_cases [OF st] by auto
  have wok: "work_ok (md_work d)" using ok by (simp add: meet_ok_def)
  have w1: "w1 = (case findOpen (md_work d) ?u of None \<Rightarrow> snd (ensureOpenTx ?u generation now today (md_work d)) | Some s \<Rightarrow> md_work d)"
    using g by (auto split: option.splits)
  have okw1: "work_ok w1" using w1 wok ensureOpenTx_ok [OF wok ahead] by (auto split: option.splits)
  have tab: "wd_tables w1 = md_tables d" using w1 by (auto split: option.splits)
  have opened: "findOpen w1 ?u = Some s"
  proof (cases "findOpen (md_work d) ?u")
    case None
    obtain x wx where c: "createSessionTx ?u now now FromLegacy (\<lambda>_. today) (md_work d) = (x, wx)" by fastforce
    show ?thesis using g None c createSession_ok [OF wok None ahead c] by (auto simp: ensureOpenTx_def split: if_splits)
  qed (use g in auto)
  let ?db = "snd (create_session ?u PMeeting (dateKeyInZone now tz) now (md_tables d))"
  let ?d1 = "d\<lparr>md_work := w1\<lparr>wd_tables := ?db\<rparr>\<rparr>"
  have dbok: "db_ok (md_tables d)" using wok by (simp add: work_ok_def)
  have dbok': "db_ok ?db" using create_session_ok [OF dbok none] by simp
  have "work_ok (w1\<lparr>wd_tables := ?db\<rparr>)" using okw1 dbok' by (simp add: work_ok_def)
  then have ok1: "meet_ok ?d1" using work_meet_ok [OF ok] kept_create by simp
  let ?mk = "new_row n (wk_date s) LiveMeeting now None None (Some (db_nextId (md_tables d)))
    (clockFor (nm_approvalStatus n) clk now (db_sla (md_tables d) ?u))"
  have l: "linked ?db (?mk i)" for i by (auto simp: linked_def)
  have old: "mr_presenceSessionId x \<noteq> Some (db_nextId (md_tables d))" if "x \<in> set (md_meetings d)" for x
    using ok that dbok by (fastforce simp: meet_ok_def linked_def db_ok_def presence_ok_def)
  have "meet_ok (snd (create_meeting ?mk ?d1))"
    by (rule create_meeting_ok [OF ok1]) (use l old in auto)
  moreover have d': "(m, d') = create_meeting ?mk ?d1" using cm tab by simp
  ultimately have "meet_ok d'" by (metis snd_conv)
  moreover have m: "m = ?mk (md_nextId d)" "d' = ?d1\<lparr>md_meetings := md_meetings d @ [m], md_nextId := Suc (md_nextId d)\<rparr>"
    using d' by (simp_all add: create_meeting_def Let_def)
  let ?s = "\<lparr>ss_id = db_nextId (md_tables d), ss_userId = ?u, ss_type = PMeeting, ss_date = dateKeyInZone now tz,
    ss_startedAt = now, ss_endedAt = None, ss_durationSec = None\<rparr>"
  have "openPresence ?db ?u = Some ?s" using dbok' by (intro openPresence_unique) (auto simp: open_sessions_def)
  moreover have "findOpen (md_work d') ?u = Some s" using opened m(2) by (simp add: findOpen_def)
  moreover have "isMonthLocked ?db = isMonthLocked (md_tables d)" by (simp add: isMonthLocked_def fun_eq_iff split: option.split)
  ultimately show ?thesis using m none lock sid tab by simp
qed

lemma startLive_ok:
  assumes "meet_ok d" "clock_ahead (md_work d) (nm_userId n) now"
  shows "meet_ok (snd (startLive n generation now today tz clk d))"
proof -
  obtain res d' where e: "startLive n generation now today tz clk d = (res, d')" by fastforce
  show ?thesis
  proof (cases "\<exists>m sid. res = Inr (LiveStarted m sid)")
    case True
    then show ?thesis using startLive_started [OF assms] e by auto
  next
    case False
    then show ?thesis using startLive_cases [OF e] e assms(1) by auto
  qed
qed

definition live_end :: "meet_db \<Rightarrow> meeting_row \<Rightarrow> int \<Rightarrow> int \<times> break_db" where
  "live_end d m now =
     (case session_of (md_tables d) (mr_presenceSessionId m) of
        None \<Rightarrow> (now, md_tables d)
      | Some s \<Rightarrow> (case ss_endedAt s of None \<Rightarrow> (now, close_session (ss_id s) now (md_tables d)) | Some e \<Rightarrow> (e, md_tables d)))"

lemma endLive_cases:
  "snd (endLive i u now d) = d
   \<or> (\<exists>m. find_meeting d i = Some m \<and> mr_userId m = u \<and> mr_mode m = LiveMeeting \<and> mr_endedAt m = None
       \<and> snd (endLive i u now d) = update_meeting i (ended_as (fst (live_end d m now)))
           (d\<lparr>md_work := (md_work d)\<lparr>wd_tables := snd (live_end d m now)\<rparr>\<rparr>))"
proof (cases "find_meeting d i")
  case (Some m)
  show ?thesis
  proof (cases "mr_userId m = u \<and> \<not> discarded m \<and> mr_mode m = LiveMeeting \<and> mr_endedAt m = None
      \<and> \<not> (mr_approvalStatus m = Pending \<and> isMonthLocked (md_tables d) (mr_date m) (mr_userId m))")
    case True
    obtain e db where l: "live_end d m now = (e, db)" by fastforce
    have "snd (endLive i u now d) = update_meeting i (ended_as e) (d\<lparr>md_work := (md_work d)\<lparr>wd_tables := db\<rparr>\<rparr>)"
      using True Some l by (auto simp: endLive_def live_end_def Let_def split: option.splits)
    then show ?thesis using True Some l by simp
  next
    case False
    then show ?thesis using Some by (auto simp: endLive_def)
  qed
qed (simp add: endLive_def)

lemma live_end_ok: "db_ok (md_tables d) \<Longrightarrow> db_ok (snd (live_end d m now)) \<and> presence_kept (md_tables d) (snd (live_end d m now))"
  by (auto simp: live_end_def close_session_ok kept_close kept_same split: option.split)

lemma update_meeting_map: "update_meeting i f d = d\<lparr>md_meetings := map (\<lambda>m. if mr_id m = i then f m else m) (md_meetings d)\<rparr>"
  by (simp add: update_meeting_def)

lemma same_meeting_if: "(\<And>m. same_meeting m (f m)) \<Longrightarrow> same_meeting m (if P m then f m else m)"
  by (simp add: same_meeting_def)

lemma endLive_ok:
  assumes "meet_ok d"
  shows "meet_ok (snd (endLive i u now d))"
  using endLive_cases [of i u now d]
proof (elim disjE exE conjE)
  fix m assume e: "snd (endLive i u now d) = update_meeting i (ended_as (fst (live_end d m now)))
      (d\<lparr>md_work := (md_work d)\<lparr>wd_tables := snd (live_end d m now)\<rparr>\<rparr>)"
  have wok: "work_ok (md_work d)" using assms by (simp add: meet_ok_def)
  note l = live_end_ok [of d m now]
  have "meet_ok (d\<lparr>md_work := (md_work d)\<lparr>wd_tables := snd (live_end d m now)\<rparr>\<rparr>)"
    using l wok by (intro work_meet_ok assms) (simp_all add: work_ok_def)
  then show ?thesis unfolding e update_meeting_map by (rule map_meet_ok) (rule same_meeting_if, simp)
qed (use assms in simp)

lemma createPast_ok: "meet_ok d \<Longrightarrow> meet_ok (snd (createPast n start du generation now today clk d))"
  by (auto simp: createPast_def Let_def case_prod_unfold linked_def intro!: create_meeting_ok split: option.split)

lemma heal_ok: "meet_ok d \<Longrightarrow> meet_ok (snd (heal us d))"
proof -
  assume "meet_ok d"
  moreover have "same_meeting m (heal_row us db m)" for m db
    using same_ended [of m] by (simp add: heal_row_def same_meeting_def discard_def)
  ultimately show ?thesis unfolding heal_def Let_def snd_conv by (intro map_meet_ok)
qed

lemma decide_meeting_ok: "meet_ok d \<Longrightarrow> meet_ok (snd (decide_meeting i expected dc clk d))"
  by (auto simp: decide_meeting_def Let_def update_meeting_map same_meeting_def intro!: map_meet_ok split: option.split)

lemma reroute_meeting_ok: "meet_ok d \<Longrightarrow> meet_ok (snd (reroute_meeting i rt d))"
  by (auto simp: reroute_meeting_def Let_def same_meeting_def intro!: map_meet_ok)

section \<open>Every history\<close>

inductive meet_step :: "meet_db \<Rightarrow> meet_db \<Rightarrow> bool" where
  live: "clock_ahead (md_work d) (nm_userId n) now \<Longrightarrow> meet_step d (snd (startLive n generation now today tz clk d))"
| live_ended: "meet_step d (snd (endLive i u now d))"
| logged: "meet_step d (snd (createPast n start du generation now today clk d))"
| healed: "meet_step d (snd (heal us d))"
| meeting_decided: "meet_step d (snd (decide_meeting i expected dc clk d))"
| meeting_rerouted: "meet_step d (snd (reroute_meeting i rt d))"
| meanwhile: "work_step (md_work d) w \<Longrightarrow> meet_step d (d\<lparr>md_work := w\<rparr>)"

definition empty_meet_db :: "(uid \<Rightarrow> uid option) \<Rightarrow> (uid \<Rightarrow> int) \<Rightarrow> meet_db" where
  "empty_meet_db companies sla = \<lparr>md_meetings = [], md_nextId = 0, md_work = empty_work_db companies sla\<rparr>"

inductive meet_reachable :: "meet_db \<Rightarrow> bool" where
  no_meetings: "meet_reachable (empty_meet_db companies sla)"
| meet: "meet_reachable d \<Longrightarrow> meet_step d d' \<Longrightarrow> meet_reachable d'"

lemma meet_step_ok: "meet_step d d' \<Longrightarrow> meet_ok d \<Longrightarrow> meet_ok d'"
proof (induction rule: meet_step.induct)
  case (meanwhile d w)
  then show ?case using work_step_ok work_step_kept by (intro work_meet_ok) (auto simp: meet_ok_def)
qed (simp_all add: startLive_ok endLive_ok createPast_ok heal_ok decide_meeting_ok reroute_meeting_ok)

lemma meet_reachable_ok: "meet_reachable d \<Longrightarrow> meet_ok d"
proof (induction rule: meet_reachable.induct)
  case (no_meetings companies sla)
  have "work_ok (empty_work_db companies sla)" by (rule work_reachable_ok) (rule work_reachable.no_work)
  then show ?case by (simp add: meet_ok_def empty_meet_db_def)
qed (use meet_step_ok in blast)

section \<open>A running meeting is all a person does\<close>

definition meeting_running :: "meet_db \<Rightarrow> meeting_row \<Rightarrow> bool" where
  "meeting_running d m =
     (case session_of (md_tables d) (mr_presenceSessionId m) of None \<Rightarrow> False | Some s \<Rightarrow> ss_endedAt s = None)"

lemma running_meeting_session:
  assumes ok: "meet_ok d" and m: "m \<in> set (md_meetings d)" "meeting_running d m"
  shows "\<exists>s. openPresence (md_tables d) (mr_userId m) = Some s \<and> mr_presenceSessionId m = Some (ss_id s)
    \<and> ss_type s = PMeeting \<and> ss_startedAt s = mr_startedAt m"
proof -
  have db: "db_ok (md_tables d)" using ok by (simp add: meet_ok_def work_ok_def)
  obtain sid s where sid: "mr_presenceSessionId m = Some sid" and s: "session_of (md_tables d) (Some sid) = Some s" "ss_endedAt s = None"
    using m(2) by (cases "mr_presenceSessionId m") (auto simp: meeting_running_def session_of_def split: option.splits)
  have so: "s \<in> set (db_presence (md_tables d))" "ss_id s = sid" using session_of_Some [OF db, of sid s] s(1) by auto
  obtain t where t: "t \<in> set (db_presence (md_tables d))" "ss_id t = sid" "ss_userId t = mr_userId m" "ss_type t = PMeeting"
    "ss_startedAt t = mr_startedAt m"
  proof -
    have "linked (md_tables d) m" using ok m(1) by (simp add: meet_ok_def)
    then show ?thesis using sid that unfolding linked_def by blast
  qed
  have "t = s" using db so t by (auto simp: db_ok_def presence_ok_def distinct_map dest: inj_onD)
  then have "s \<in> open_sessions (md_tables d)" "ss_userId s = mr_userId m" using s so t by (auto simp: open_sessions_def)
  then have "openPresence (md_tables d) (mr_userId m) = Some s" by (rule openPresence_unique [OF db])
  then show ?thesis using sid so t \<open>t = s\<close> by simp
qed

text \<open>C7: over any history of meeting, break and day operations a running meeting is all its person does: the one
  open presence session of the person is that meeting's, started with it, so the person is on no break and
  no second meeting of theirs runs.\<close>

theorem running_meeting_is_alone:
  assumes "meet_reachable d" "m \<in> set (md_meetings d)" "meeting_running d m"
  shows "(\<exists>s. openPresence (md_tables d) (mr_userId m) = Some s \<and> mr_presenceSessionId m = Some (ss_id s)
      \<and> ss_type s = PMeeting \<and> ss_startedAt s = mr_startedAt m)
    \<and> \<not> on_break (openPresence (md_tables d) (mr_userId m))
    \<and> {x \<in> set (md_meetings d). meeting_running d x \<and> mr_userId x = mr_userId m} = {m}"
proof -
  have ok: "meet_ok d" by (rule meet_reachable_ok [OF assms(1)])
  note r = running_meeting_session [OF ok assms(2,3)]
  have "x = m" if "x \<in> set (md_meetings d)" "meeting_running d x" "mr_userId x = mr_userId m" for x
  proof -
    have "mr_presenceSessionId x = mr_presenceSessionId m" "mr_presenceSessionId m \<noteq> None"
      using running_meeting_session [OF ok that(1,2)] r that(3) by auto
    then show ?thesis using ok that(1) assms(2) unfolding meet_ok_def inj_on_def by auto
  qed
  then have "{x \<in> set (md_meetings d). meeting_running d x \<and> mr_userId x = mr_userId m} = {m}" using assms by blast
  then show ?thesis using r by (auto simp: on_break_def)
qed

definition sample_meeting :: new_meeting where
  "sample_meeting = \<lparr>nm_userId = 1, nm_date = ''2026-01-05'', nm_agenda = ''Planning'', nm_participants = [], nm_momSender = None,
     nm_approvalStatus = Pending, nm_approverRole = Some MANAGER, nm_approverId = None\<rparr>"

definition day_started :: meet_db where
  "day_started = (empty_meet_db (\<lambda>_. Some 7) (\<lambda>_. 48))\<lparr>md_work :=
     snd (ensureOpenTx 1 LEGACY 1000 ''2026-01-05'' (empty_work_db (\<lambda>_. Some 7) (\<lambda>_. 48)))\<rparr>"

definition meeting_started :: "(db_error + start_live_result) \<times> meet_db" where
  "meeting_started = startLive sample_meeting AGENT_31 5000 ''2026-01-05'' (\<lambda>_. 0) live_clock day_started"

lemma day_started_reachable: "meet_reachable day_started"
proof -
  have "clock_ahead (empty_work_db (\<lambda>_. Some 7) (\<lambda>_. 48)) 1 1000" by (simp add: clock_ahead_def empty_work_db_def)
  from meet_step.meanwhile [of "empty_meet_db (\<lambda>_. Some 7) (\<lambda>_. 48)", OF work_step.day_checked] this
  show ?thesis unfolding day_started_def
    by (intro meet_reachable.meet [OF meet_reachable.no_meetings]) (simp add: empty_meet_db_def)
qed

lemma day_started_open:
  "wd_sessions (md_work day_started) = [\<lparr>wk_id = 0, wk_userId = 1, wk_date = ''2026-01-05'', wk_startedAt = 1000,
     wk_endedAt = None, wk_endReason = None, wk_source = FromLegacy\<rparr>]"
  "md_tables day_started = empty_db (\<lambda>_. Some 7) (\<lambda>_. 48)"
  by (simp_all add: day_started_def ensureOpenTx_def findOpen_def empty_work_db_def dayEndedAt_def empty_db_def createSessionTx_def
      session_start_def latest_ended_def first_of_def Let_def)

lemma meeting_started_row: "\<exists>m d'. meeting_started = (Inr (LiveStarted m 0), d') \<and> meet_reachable d'"
proof -
  have ahead: "clock_ahead (md_work day_started) (nm_userId sample_meeting) 5000"
    by (simp add: clock_ahead_def day_started_open)
  have "\<exists>m d'. meeting_started = (Inr (LiveStarted m 0), d')"
    by (simp add: meeting_started_def startLive_def sample_meeting_def Let_def findOpen_def is_open_def day_started_open
        openPresence_def empty_db_def on_break_def in_meeting_def isMonthLocked_def case_prod_unfold create_session_def)
  moreover have "meet_reachable (snd meeting_started)"
    unfolding meeting_started_def by (rule meet_reachable.meet [OF day_started_reachable meet_step.live [OF ahead]])
  ultimately show ?thesis by (metis snd_conv)
qed

theorem running_meeting_is_alone_witness:
  "\<exists>m d. meet_reachable d \<and> {x \<in> set (md_meetings d). meeting_running d x \<and> mr_userId x = 1} = {m}"
proof -
  have ahead: "clock_ahead (md_work day_started) (nm_userId sample_meeting) 5000"
    by (simp add: clock_ahead_def day_started_open)
  obtain m d' where s: "meeting_started = (Inr (LiveStarted m 0), d')" and r: "meet_reachable d'" using meeting_started_row by blast
  note st = startLive_started [OF meet_reachable_ok [OF day_started_reachable] ahead s [unfolded meeting_started_def]]
  then have u: "m \<in> set (md_meetings d')" "mr_userId m = 1" by (auto simp: sample_meeting_def)
  have db: "db_ok (md_tables d')" using meet_reachable_ok [OF r] by (simp add: meet_ok_def work_ok_def)
  obtain x where x: "openPresence (md_tables d') 1 = Some x" "ss_id x = 0" and i: "mr_presenceSessionId m = Some 0"
    using st by (auto simp: sample_meeting_def)
  have "session_of (md_tables d') (Some 0) = Some x" using openPresence_Some [OF x(1)] x(2) session_of_Some [OF db] by simp
  then have "meeting_running d' m" using openPresence_Some [OF x(1)] i by (simp add: meeting_running_def)
  from running_meeting_is_alone [OF r u(1) this] u(2) r show ?thesis by auto
qed

section \<open>A live meeting from start to end\<close>

lemma find_meeting_row: "meet_ok d \<Longrightarrow> m \<in> set (md_meetings d) \<Longrightarrow> find_meeting d (mr_id m) = Some m"
  by (simp add: meet_ok_def find_meeting_def find_key)

lemma find_updated:
  assumes "find_meeting d i = Some m" "\<And>x. mr_id (f x) = mr_id x"
  shows "find_meeting (update_meeting i f d) i = Some (f m)"
proof -
  have "List.find (\<lambda>m. mr_id m = i) (map (\<lambda>m. if mr_id m = i then f m else m) xs) = map_option f (List.find (\<lambda>m. mr_id m = i) xs)" for xs
    using assms(2) by (induction xs) auto
  then show ?thesis using assms(1) by (simp add: find_meeting_def update_meeting_def)
qed

lemma ended_as_discarded:
  assumes "mr_mode m = LiveMeeting" "mr_endedAt m = None"
  shows "discarded (ended_as e m) \<longleftrightarrow> elapsedSec (mr_startedAt m) e < MIN_LIVE_MEETING_SEC"
  using assms by (simp add: discarded_def isDiscardedMeeting_def ended_as_def discard_def Let_def coalesce_def)

lemma ended_as_sel [simp]:
  "mr_id (ended_as e m) = mr_id m" "mr_userId (ended_as e m) = mr_userId m" "mr_date (ended_as e m) = mr_date m"
  "mr_mode (ended_as e m) = mr_mode m" "mr_endedAt (ended_as e m) = Some e"
  "mr_durationSec (ended_as e m) = Some (elapsedSec (mr_startedAt m) e)"
  by (simp_all add: ended_as_def discard_def Let_def)

lemma endLive_again:
  assumes "find_meeting d i = Some (ended_as e m)" "mr_userId m = u" "mr_mode m = LiveMeeting" "mr_endedAt m = None"
  shows "endLive i u t d = (Inr (Some (if elapsedSec (mr_startedAt m) e < MIN_LIVE_MEETING_SEC then LiveDiscarded
    else LiveUnchanged (ended_as e m))), d)"
  using assms ended_as_discarded [OF assms(3,4), of e] by (simp add: endLive_def)

text \<open>A live meeting is one record from start to end. It starts only for a person with no open presence, is filed
  on the day of their open work session and opens the meeting's presence session. Ending it closes that
  session at the moment it is ended and stores its length; under a minute it is discarded (it needs no approval
  and no list shows it), otherwise it is in the day's list; asked again, at whatever moment, to end it, the
  answer is the same and nothing changes.\<close>

theorem live_meeting_is_one_record:
  assumes "meet_reachable d" "clock_ahead (md_work d) (nm_userId n) now"
    and st: "startLive n generation now today tz clk d = (Inr (LiveStarted m sid), d1)"
  shows "openPresence (md_tables d) (nm_userId n) = None
    \<and> map_option ss_type (openPresence (md_tables d1) (nm_userId n)) = Some PMeeting
    \<and> map_option wk_date (findOpen (md_work d1) (nm_userId n)) = Some (mr_date m)
    \<and> (let (res, d2) = endLive (mr_id m) (nm_userId n) t d1; short = (elapsedSec now t < MIN_LIVE_MEETING_SEC) in
        res = Inr (Some (if short then LiveDiscarded else LiveEnded (ended_as t m)))
        \<and> openPresence (md_tables d2) (nm_userId n) = None
        \<and> find_meeting d2 (mr_id m) = Some (ended_as t m)
        \<and> (ended_as t m \<in> set (meetings_on d2 (nm_userId n) (mr_date m))) = (\<not> short)
        \<and> (short \<longrightarrow> mr_approvalStatus (ended_as t m) = NotRequired)
        \<and> endLive (mr_id m) (nm_userId n) t' d2 = (Inr (Some (if short then LiveDiscarded else LiveUnchanged (ended_as t m))), d2))"
proof -
  let ?u = "nm_userId n"
  note s = startLive_started [OF meet_reachable_ok [OF assms(1)] assms(2) st]
  then have ok: "meet_ok d1" and m: "m \<in> set (md_meetings d1)" "mr_userId m = ?u" "mr_startedAt m = now" "mr_endedAt m = None"
    "mr_mode m = LiveMeeting" "mr_presenceSessionId m = Some sid"
    and lock: "\<not> (mr_approvalStatus m = Pending \<and> isMonthLocked (md_tables d1) (mr_date m) ?u)"
    by auto
  obtain x where x: "openPresence (md_tables d1) ?u = Some x" "ss_id x = sid" "ss_type x = PMeeting" using s by auto
  have db: "db_ok (md_tables d1)" using ok by (simp add: meet_ok_def work_ok_def)
  have so: "session_of (md_tables d1) (Some sid) = Some x" "ss_endedAt x = None"
    using openPresence_Some [OF x(1)] x(2) session_of_Some [OF db] by simp_all
  let ?db = "close_session sid t (md_tables d1)"
  let ?d2 = "update_meeting (mr_id m) (ended_as t) (d1\<lparr>md_work := (md_work d1)\<lparr>wd_tables := ?db\<rparr>\<rparr>)"
  have f: "find_meeting d1 (mr_id m) = Some m" by (rule find_meeting_row [OF ok m(1)])
  have nd: "\<not> discarded m" using m by (simp add: discarded_def isDiscardedMeeting_def)
  have e: "endLive (mr_id m) ?u t d1
      = (Inr (Some (if elapsedSec now t < MIN_LIVE_MEETING_SEC then LiveDiscarded else LiveEnded (ended_as t m))), ?d2)"
    using f nd m lock so x(2) by (simp add: endLive_def Let_def)
  have f2: "find_meeting ?d2 (mr_id m) = Some (ended_as t m)" by (rule find_updated) (simp_all add: f [unfolded find_meeting_def] find_meeting_def)
  then have in2: "ended_as t m \<in> set (md_meetings ?d2)" unfolding find_meeting_def by (blast dest: find_Some_set)
  have listed: "ended_as t m \<in> set (meetings_on ?d2 ?u (mr_date m)) \<longleftrightarrow> \<not> elapsedSec now t < MIN_LIVE_MEETING_SEC"
    using in2 ended_as_discarded [of m t] m by (auto simp: meetings_on_def)
  have closed: "openPresence (md_tables ?d2) ?u = None"
    using close_own_presence [OF db x(1)] x(2) by (simp add: update_meeting_def)
  have short: "elapsedSec now t < MIN_LIVE_MEETING_SEC \<Longrightarrow> mr_approvalStatus (ended_as t m) = NotRequired"
    using m by (simp add: ended_as_def discard_def Let_def)
  show ?thesis
    unfolding e Let_def prod.case
    using s x f2 listed closed short endLive_again [OF f2 m(2,5,4), of t'] m(3) by auto
qed

theorem live_meeting_is_one_record_witness:
  "\<exists>m d1 d2. meeting_started = (Inr (LiveStarted m 0), d1)
    \<and> endLive (mr_id m) 1 65000 d1 = (Inr (Some (LiveEnded (ended_as 65000 m))), d2)
    \<and> endLive (mr_id m) 1 70000 d2 = (Inr (Some (LiveUnchanged (ended_as 65000 m))), d2)"
proof -
  have ahead: "clock_ahead (md_work day_started) (nm_userId sample_meeting) 5000"
    by (simp add: clock_ahead_def day_started_open)
  obtain m d1 where s: "meeting_started = (Inr (LiveStarted m 0), d1)" using meeting_started_row by blast
  have e: "\<not> elapsedSec 5000 65000 < MIN_LIVE_MEETING_SEC" by code_simp
  have u: "nm_userId sample_meeting = 1" by (simp add: sample_meeting_def)
  obtain res d2 where r: "endLive (mr_id m) 1 65000 d1 = (res, d2)" by fastforce
  from live_meeting_is_one_record [OF day_started_reachable ahead s [unfolded meeting_started_def], of 65000 70000] s e r
  show ?thesis unfolding u by (auto simp: Let_def)
qed

section \<open>Where an earlier meeting is filed\<close>

definition presence_time :: "presence_session \<Rightarrow> int \<Rightarrow> int set" where
  "presence_time s now = {ss_startedAt s ..< coalesce (ss_endedAt s) now}"

definition meeting_time :: "meeting_row \<Rightarrow> int \<Rightarrow> int set" where
  "meeting_time m now = {mr_startedAt m ..< coalesce (ts_endedAt (record_span m)) now}"

lemma apart_of_spans:
  assumes "\<not> overlaps (span a (Some b) now) (span s e now)"
  shows "{a ..< b} \<inter> {s ..< coalesce e now} = {}"
  using assms by (auto simp: overlaps_def span_def coalesce_def)

lemma not_around_apart: "\<not> around a b s e \<Longrightarrow> {a ..< b} \<inter> {s ..< coalesce e now} = {}"
  by (auto simp: around_def coalesce_def split: option.splits)

lemma checkPastMeeting_accepts:
  assumes "checkPastMeeting i = None"
  shows "pm_end i \<le> pm_now i
    \<and> (\<exists>s \<in> set (pm_sessions i). ts_startedAt s \<le> pm_start i \<and> pm_end i \<le> coalesce (ts_endedAt s) (pm_now i))
    \<and> (\<forall>b \<in> set (pm_breaks i). {pm_start i ..< pm_end i} \<inter> {ts_startedAt (snd b) ..< coalesce (ts_endedAt (snd b)) (pm_now i)} = {})
    \<and> (\<forall>m \<in> set (pm_meetings i). {pm_start i ..< pm_end i} \<inter> {ts_startedAt m ..< coalesce (ts_endedAt m) (pm_now i)} = {})"
proof -
  have c: "pm_end i \<le> pm_now i"
    "\<exists>s \<in> set (pm_sessions i). ts_startedAt s \<le> pm_start i \<and> pm_end i \<le> coalesce (ts_endedAt s) (pm_now i)"
    using assms by (auto simp: checkPastMeeting_def split: if_splits)
  let ?clash = "\<lambda>s. overlaps (span (pm_start i) (Some (pm_end i)) (pm_now i)) (span (ts_startedAt s) (ts_endedAt s) (pm_now i))"
  have "List.find (\<lambda>b. ?clash (snd b)) (pm_breaks i) = None" "List.find ?clash (pm_meetings i) = None"
    using assms c by (auto simp: checkPastMeeting_def Let_def split: if_splits option.splits)
  then show ?thesis using c apart_of_spans unfolding find_None_iff' by blast
qed

lemma createPast_created:
  assumes "createPast n start durationSec generation now today clk d = (Inr (PastCreated m), d')"
    and "u = nm_userId n" "stop = start + durationSec * 1000"
  shows "checkPastMeeting (past_input d u today start stop now) = None"
    and "List.find (\<lambda>s. wk_startedAt s \<le> start \<and> stop \<le> coalesce (wk_endedAt s) now) (day_sessions (md_work d) u today) = Some s
      \<Longrightarrow> \<not> (nm_approvalStatus n = Pending \<and> isMonthLocked (md_tables d) (wk_date s) u)
        \<and> m = new_row n (wk_date s) PastMeeting start (Some stop) (Some durationSec) None
            (clockFor (nm_approvalStatus n) clk now (db_sla (md_tables d) u)) (md_nextId d)
        \<and> d' = d\<lparr>md_meetings := md_meetings d @ [m], md_nextId := Suc (md_nextId d)\<rparr>"
proof -
  note e = assms(1) [unfolded createPast_def Let_def assms(2,3) [symmetric]]
  have open_day: "\<not> (day_sessions (md_work d) u today = [] \<and> generation = AGENT_31)"
    using e by (cases "day_sessions (md_work d) u today = [] \<and> generation = AGENT_31") simp_all
  note e1 = e [unfolded if_not_P [OF open_day]]
  show none: "checkPastMeeting (past_input d u today start stop now) = None"
    using e1 by (cases "checkPastMeeting (past_input d u today start stop now)") simp_all
  assume s: "List.find (\<lambda>s. wk_startedAt s \<le> start \<and> stop \<le> coalesce (wk_endedAt s) now) (day_sessions (md_work d) u today) = Some s"
  note e2 = e1 [unfolded none s option.case]
  show "\<not> (nm_approvalStatus n = Pending \<and> isMonthLocked (md_tables d) (wk_date s) u)
      \<and> m = new_row n (wk_date s) PastMeeting start (Some stop) (Some durationSec) None
            (clockFor (nm_approvalStatus n) clk now (db_sla (md_tables d) u)) (md_nextId d)
      \<and> d' = d\<lparr>md_meetings := md_meetings d @ [m], md_nextId := Suc (md_nextId d)\<rparr>"
    using e2 by (cases "nm_approvalStatus n = Pending \<and> isMonthLocked (md_tables d) (wk_date s) u")
      (auto simp: create_meeting_def Let_def)
qed

lemma past_input_sel:
  "pm_start (past_input d u today start stop now) = start" "pm_end (past_input d u today start stop now) = stop"
  "pm_now (past_input d u today start stop now) = now"
  "pm_sessions (past_input d u today start stop now) = map work_span (day_sessions (md_work d) u today)"
  by (simp_all add: past_input_def Let_def)

lemma past_input_breaks:
  assumes "p \<in> set (db_presence (md_tables d))" "ss_userId p = u" "ss_type p \<noteq> PMeeting"
    "around start stop (ss_startedAt p) (ss_endedAt p)"
  shows "(if ss_type p = PBreak then WithBreak else WithLunch, status_span p) \<in> set (pm_breaks (past_input d u today start stop now))"
  using assms by (cases "ss_type p") (simp_all add: past_input_def Let_def presence_around_def image_iff, force+)

lemma past_input_meetings:
  assumes "x \<in> set (md_meetings d)" "mr_userId x = u" "\<not> discarded x" "around start stop (mr_startedAt x) (mr_endedAt x)"
  shows "record_span x \<in> set (pm_meetings (past_input d u today start stop now))"
  using assms by (simp add: past_input_def Let_def meetings_around_def)

lemma meeting_time_span: "meeting_time m now = {ts_startedAt (record_span m) ..< coalesce (ts_endedAt (record_span m)) now}"
  by (simp add: meeting_time_def record_span_def)

lemma meeting_apart:
  assumes "\<not> around start stop (mr_startedAt x) (mr_endedAt x)"
  shows "{start ..< stop} \<inter> meeting_time x now = {}"
  using not_around_apart [OF assms, of now]
  by (cases "mr_endedAt x") (simp_all add: meeting_time_def record_span_def coalesce_def)

lemma covering_session:
  assumes "\<exists>s \<in> set (map work_span ss). ts_startedAt s \<le> a \<and> b \<le> coalesce (ts_endedAt s) now"
  shows "\<exists>s. List.find (\<lambda>s. wk_startedAt s \<le> a \<and> b \<le> coalesce (wk_endedAt s) now) ss = Some s
    \<and> s \<in> set ss \<and> wk_startedAt s \<le> a \<and> b \<le> coalesce (wk_endedAt s) now"
  using assms by (induction ss) (auto simp: work_span_def)

text \<open>C29: an earlier meeting is filed only where nothing else happened. When it is accepted it has ended, it lies inside
  one of the day's work sessions and is dated by it, it shares no instant with any break or lunch of the
  person, running ones included, nor with any other meeting of theirs that counts; it adds one record and
  changes nothing else, and a meeting that waits for approval never lands in a locked month.\<close>

theorem past_meeting_is_placed:
  assumes "createPast n start durationSec generation now today clk d = (Inr (PastCreated m), d')"
  shows "let u = nm_userId n; stop = start + durationSec * 1000 in
    d' = d\<lparr>md_meetings := md_meetings d @ [m], md_nextId := Suc (md_nextId d)\<rparr>
    \<and> mr_startedAt m = start \<and> mr_endedAt m = Some stop \<and> stop \<le> now
    \<and> (\<exists>s \<in> set (day_sessions (md_work d) u today). wk_startedAt s \<le> start \<and> stop \<le> coalesce (wk_endedAt s) now
        \<and> mr_date m = wk_date s)
    \<and> (\<forall>p \<in> set (db_presence (md_tables d)). ss_userId p = u \<and> ss_type p \<noteq> PMeeting
        \<longrightarrow> {start ..< stop} \<inter> presence_time p now = {})
    \<and> (\<forall>x \<in> set (md_meetings d). mr_userId x = u \<and> \<not> discarded x \<longrightarrow> {start ..< stop} \<inter> meeting_time x now = {})
    \<and> \<not> (nm_approvalStatus n = Pending \<and> isMonthLocked (md_tables d) (mr_date m) u)"
proof -
  define u and stop where us: "u = nm_userId n" "stop = start + durationSec * 1000"
  note made = createPast_created [OF assms us]
  note acc = checkPastMeeting_accepts [OF made(1), unfolded past_input_sel]
  from acc covering_session obtain s where s:
    "List.find (\<lambda>s. wk_startedAt s \<le> start \<and> stop \<le> coalesce (wk_endedAt s) now) (day_sessions (md_work d) u today) = Some s"
    and in_s: "s \<in> set (day_sessions (md_work d) u today)" "wk_startedAt s \<le> start" "stop \<le> coalesce (wk_endedAt s) now"
    by blast
  from made(2) [OF s] have lock: "\<not> (nm_approvalStatus n = Pending \<and> isMonthLocked (md_tables d) (wk_date s) u)"
    and m: "mr_startedAt m = start" "mr_endedAt m = Some stop" "mr_date m = wk_date s"
    and d': "d' = d\<lparr>md_meetings := md_meetings d @ [m], md_nextId := Suc (md_nextId d)\<rparr>"
    by (simp_all add: new_row_def)
  have breaks: "{start ..< stop} \<inter> presence_time p now = {}"
    if p: "p \<in> set (db_presence (md_tables d))" "ss_userId p = u" "ss_type p \<noteq> PMeeting" for p
  proof (cases "around start stop (ss_startedAt p) (ss_endedAt p)")
    case True
    from acc past_input_breaks [OF p True] show ?thesis unfolding presence_time_def by (fastforce simp: status_span_def)
  qed (auto simp: presence_time_def dest: not_around_apart)
  have meetings: "{start ..< stop} \<inter> meeting_time x now = {}"
    if x: "x \<in> set (md_meetings d)" "mr_userId x = u" "\<not> discarded x" for x
  proof (cases "around start stop (mr_startedAt x) (mr_endedAt x)")
    case True
    from acc past_input_meetings [OF x True] show ?thesis unfolding meeting_time_span by blast
  qed (rule meeting_apart)
  from acc have past: "stop \<le> now" by blast
  show ?thesis
    unfolding Let_def us [symmetric] m
  proof (intro conjI refl d' past)
    show "\<exists>r \<in> set (day_sessions (md_work d) u today).
        wk_startedAt r \<le> start \<and> stop \<le> coalesce (wk_endedAt r) now \<and> wk_date s = wk_date r" using in_s by blast
  qed (use breaks meetings lock in blast)+
qed


lemma past_meeting_created:
  "\<exists>m d'. createPast sample_meeting 20000 60 AGENT_31 100000 ''2026-01-05'' live_clock day_started = (Inr (PastCreated m), d')"
proof -
  have d: "md_meetings day_started = []" by (simp add: day_started_def empty_meet_db_def)
  have u: "nm_userId sample_meeting = 1" by (simp add: sample_meeting_def)
  have ss: "day_sessions (md_work day_started) 1 ''2026-01-05'' =
      [\<lparr>wk_id = 0, wk_userId = 1, wk_date = ''2026-01-05'', wk_startedAt = 1000, wk_endedAt = None, wk_endReason = None,
        wk_source = FromLegacy\<rparr>]"
    unfolding day_sessions_def day_started_open by simp
  have "checkPastMeeting (past_input day_started 1 ''2026-01-05'' 20000 80000 100000) = None"
    unfolding checkPastMeeting_def past_input_def Let_def ss presence_around_def meetings_around_def d day_started_open
    by (simp add: work_span_def coalesce_def empty_db_def)
  then show ?thesis
    unfolding createPast_def Let_def u ss by (simp add: coalesce_def day_started_open empty_db_def isMonthLocked_def create_meeting_def Let_def)
qed

theorem past_meeting_is_placed_witness:
  "\<exists>m d'. createPast sample_meeting 20000 60 AGENT_31 100000 ''2026-01-05'' live_clock day_started = (Inr (PastCreated m), d')
    \<and> mr_startedAt m = 20000 \<and> mr_endedAt m = Some 80000 \<and> d' = day_started\<lparr>md_meetings := md_meetings day_started @ [m],
        md_nextId := Suc (md_nextId day_started)\<rparr>"
  using past_meeting_created past_meeting_is_placed [of sample_meeting 20000 60 AGENT_31 100000 "''2026-01-05''" live_clock day_started]
  unfolding Let_def by fastforce
end
