(* ===== verification/Shift_Resolution.thy ===== *)
theory Shift_Resolution
  imports Break_Schedule Tenancy
begin

text \<open>
  Which shift applies to a person on a day: \<open>src/src/modules/shifts/domain/shift-resolution.ts\<close>
  over the stored shifts and assignments of \<open>shift.types.ts\<close>. \<open>shiftsById\<close> is a map from
  identifiers to the live shifts. Date keys compare as strings.
\<close>

section \<open>Data\<close>

datatype assignment_target = TargetUser | TargetDepartment

datatype shift_source = OVERRIDE | DEPARTMENT | DEFAULT | NONE

record shift_record = shift_definition +
  sr_id :: uid
  sr_companyId :: "uid option"
  sr_isDefault :: bool
  sr_createdAt :: int

record assignment_record =
  as_id :: uid
  as_target :: assignment_target
  as_companyId :: "uid option"
  as_departmentKey :: "string option"
  as_userId :: "uid option"
  as_shiftId :: "uid option"
  as_effectiveFrom :: string
  as_effectiveTo :: "string option"
  as_createdAt :: int

record person_for_shift =
  ps_id :: uid
  ps_companyId :: "uid option"
  ps_department :: "string option"

record resolved_shift =
  rs_shift :: "shift_record option"
  rs_source :: shift_source
  rs_assignment :: "assignment_record option"

section \<open>Resolution\<close>

definition inForce :: "assignment_record \<Rightarrow> string \<Rightarrow> bool" where
  "inForce a dateKey =
     (as_effectiveFrom a \<le> dateKey
      \<and> (case as_effectiveTo a of None \<Rightarrow> True | Some t \<Rightarrow> t = '''' \<or> dateKey \<le> t))"

definition newest :: "assignment_record \<Rightarrow> assignment_record \<Rightarrow> int" where
  "newest a b =
     (if as_effectiveFrom a \<noteq> as_effectiveFrom b
      then (if as_effectiveFrom a < as_effectiveFrom b then 1 else - 1)
      else as_createdAt b - as_createdAt a)"

definition user_row :: "person_for_shift \<Rightarrow> string \<Rightarrow> assignment_record \<Rightarrow> bool" where
  "user_row p dateKey a = (as_target a = TargetUser \<and> as_userId a = Some (ps_id p) \<and> inForce a dateKey)"

definition department_row :: "person_for_shift \<Rightarrow> string \<Rightarrow> string \<Rightarrow> assignment_record \<Rightarrow> bool" where
  "department_row p key dateKey a =
     (as_target a = TargetDepartment \<and> as_departmentKey a = Some key
      \<and> (as_companyId a = None \<or> as_companyId a = ps_companyId p) \<and> inForce a dateKey)"

definition department_order :: "assignment_record \<Rightarrow> assignment_record \<Rightarrow> int" where
  "department_order a b =
     (let sa = (if as_companyId a = None then 1 else 0); sb = (if as_companyId b = None then 1 else 0)
      in if sa \<noteq> sb then sa - sb else newest a b)"

text \<open>The first row's live shift, if it names one.\<close>

definition top_shift ::
  "assignment_record list \<Rightarrow> (uid \<rightharpoonup> shift_record) \<Rightarrow> (assignment_record \<times> shift_record) option" where
  "top_shift rows shiftsById =
     (case rows of
        [] \<Rightarrow> None
      | row # _ \<Rightarrow>
          (case as_shiftId row of
             None \<Rightarrow> None
           | Some i \<Rightarrow> map_option (\<lambda>s. (row, s)) (shiftsById i)))"

definition company_default :: "person_for_shift \<Rightarrow> shift_record list \<Rightarrow> shift_record option" where
  "company_default p defaults =
     or_else (List.find (\<lambda>s. sr_isDefault s \<and> sr_companyId s \<noteq> None \<and> sr_companyId s = ps_companyId p) defaults)
       (List.find (\<lambda>s. sr_isDefault s \<and> sr_companyId s = None) defaults)"

definition resolveShift ::
  "person_for_shift \<Rightarrow> string \<Rightarrow> assignment_record list \<Rightarrow> (uid \<rightharpoonup> shift_record) \<Rightarrow> shift_record list
   \<Rightarrow> resolved_shift" where
  "resolveShift p dateKey assignments shiftsById defaults =
     (case top_shift (js_sort newest (filter (user_row p dateKey) assignments)) shiftsById of
        Some (row, s) \<Rightarrow> \<lparr>rs_shift = Some s, rs_source = OVERRIDE, rs_assignment = Some row\<rparr>
      | None \<Rightarrow>
          (case (case departmentKey (ps_department p) of
                   None \<Rightarrow> None
                 | Some key \<Rightarrow>
                     top_shift (js_sort department_order (filter (department_row p key dateKey) assignments))
                       shiftsById) of
             Some (dept, s) \<Rightarrow> \<lparr>rs_shift = Some s, rs_source = DEPARTMENT, rs_assignment = Some dept\<rparr>
           | None \<Rightarrow>
               (case company_default p defaults of
                  Some s \<Rightarrow> \<lparr>rs_shift = Some s, rs_source = DEFAULT, rs_assignment = None\<rparr>
                | None \<Rightarrow> \<lparr>rs_shift = None, rs_source = NONE, rs_assignment = None\<rparr>)))"

section \<open>Lemmas\<close>

lemma newest_comparator: "comparator_ok newest"
  unfolding comparator_ok_def newest_def by (auto split: if_splits)

lemma department_comparator: "comparator_ok department_order"
  unfolding comparator_ok_def department_order_def newest_def Let_def by (auto split: if_splits)

lemma top_shift_Some:
  assumes "comparator_ok cmp" "top_shift (js_sort cmp (filter P xs)) m = Some (a, s)"
  shows "a \<in> set xs \<and> P a \<and> (\<forall>b \<in> set xs. P b \<longrightarrow> cmp a b \<le> 0) \<and> as_shiftId a \<noteq> None \<and> m (the (as_shiftId a)) = Some s"
proof -
  obtain ys where "js_sort cmp (filter P xs) = a # ys" "as_shiftId a \<noteq> None" "m (the (as_shiftId a)) = Some s"
    using assms(2) by (auto simp: top_shift_def split: list.splits option.splits)
  then show ?thesis using js_sort_top [OF assms(1), of "filter P xs" a ys] by auto
qed

text \<open>The order of the rows is irrelevant when no two carry the same day and creation time.\<close>

lemma sorted_top_unique:
  assumes "comparator_ok cmp" "set xs = set ys"
    and anti: "\<And>a b. a \<in> set xs \<Longrightarrow> b \<in> set xs \<Longrightarrow> cmp a b \<le> 0 \<Longrightarrow> cmp b a \<le> 0 \<Longrightarrow> a = b"
  shows "top_shift (js_sort cmp xs) m = top_shift (js_sort cmp ys) m"
proof (cases "js_sort cmp xs")
  case Nil
  then show ?thesis using assms(2) by (cases ys) simp_all
next
  case x: (Cons x xs')
  then obtain y ys' where y: "js_sort cmp ys = y # ys'"
    using assms(2) by (cases "js_sort cmp ys") auto
  have "x = y"
    using js_sort_top [OF assms(1) x] js_sort_top [OF assms(1) y] assms(2) by (intro anti) auto
  then show ?thesis by (simp add: x y top_shift_def)
qed

lemma newest_antisym:
  "newest a b \<le> 0 \<Longrightarrow> newest b a \<le> 0 \<Longrightarrow>
     as_effectiveFrom a = as_effectiveFrom b \<and> as_createdAt a = as_createdAt b"
  by (auto simp: newest_def split: if_splits)

lemma department_antisym:
  "department_order a b \<le> 0 \<Longrightarrow> department_order b a \<le> 0 \<Longrightarrow>
     as_effectiveFrom a = as_effectiveFrom b \<and> as_createdAt a = as_createdAt b"
  using newest_antisym [of a b] by (auto simp: department_order_def Let_def split: if_splits)

lemma top_filter_unique:
  assumes cmp: "comparator_ok cmp" and s: "set as = set bs"
    and anti: "\<And>a b. cmp a b \<le> 0 \<Longrightarrow> cmp b a \<le> 0 \<Longrightarrow> as_effectiveFrom a = as_effectiveFrom b \<and> as_createdAt a = as_createdAt b"
    and inj: "inj_on (\<lambda>a. (as_effectiveFrom a, as_createdAt a)) (set as)"
  shows "top_shift (js_sort cmp (filter P as)) m = top_shift (js_sort cmp (filter P bs)) m"
proof (rule sorted_top_unique [OF cmp])
  show "set (filter P as) = set (filter P bs)" using s by simp
  fix a b assume "a \<in> set (filter P as)" "b \<in> set (filter P as)" "cmp a b \<le> 0" "cmp b a \<le> 0"
  then show "a = b" using anti [of a b] inj_onD [OF inj, of a b] by simp
qed

lemma resolveShift_order_free:
  assumes "set as = set bs" "inj_on (\<lambda>a. (as_effectiveFrom a, as_createdAt a)) (set as)"
  shows "resolveShift p d as m defaults = resolveShift p d bs m defaults"
proof -
  have "top_shift (js_sort newest (filter P as)) m = top_shift (js_sort newest (filter P bs)) m" for P
    by (rule top_filter_unique [OF newest_comparator assms(1) newest_antisym assms(2)])
  moreover have "top_shift (js_sort department_order (filter P as)) m
      = top_shift (js_sort department_order (filter P bs)) m" for P
    by (rule top_filter_unique [OF department_comparator assms(1) department_antisym assms(2)])
  ultimately show ?thesis by (simp only: resolveShift_def)
qed

lemma company_default_cases:
  "company_default p defaults = Some s \<Longrightarrow>
     s \<in> set defaults \<and> sr_isDefault s \<and> (sr_companyId s = None \<or> sr_companyId s = ps_companyId p)"
  by (auto simp: company_default_def or_else_def split: option.splits dest!: find_Some_set)

lemma company_default_None:
  "company_default p defaults = None \<Longrightarrow>
     (\<forall>s \<in> set defaults. sr_isDefault s \<longrightarrow> sr_companyId s \<noteq> None \<and> sr_companyId s \<noteq> ps_companyId p)"
  by (fastforce simp: company_default_def or_else_def find_None_iff split: option.splits)

section \<open>Properties\<close>

text \<open>A row with a live shift that beats every other candidate.\<close>

definition decides ::
  "(assignment_record \<Rightarrow> assignment_record \<Rightarrow> int) \<Rightarrow> (assignment_record \<Rightarrow> bool) \<Rightarrow> assignment_record list
   \<Rightarrow> (uid \<rightharpoonup> shift_record) \<Rightarrow> assignment_record \<Rightarrow> bool" where
  "decides cmp P as m a =
     (a \<in> set as \<and> P a \<and> (\<forall>b \<in> set as. P b \<longrightarrow> b \<noteq> a \<longrightarrow> 0 < cmp b a)
      \<and> as_shiftId a \<noteq> None \<and> m (the (as_shiftId a)) \<noteq> None)"

lemma top_shift_None:
  assumes "comparator_ok cmp" "top_shift (js_sort cmp (filter P xs)) m = None"
  shows "\<not> decides cmp P xs m a"
proof
  assume d: "decides cmp P xs m a"
  then obtain x ys where x: "js_sort cmp (filter P xs) = x # ys"
    by (cases "js_sort cmp (filter P xs)") (auto simp: decides_def filter_empty_conv)
  from js_sort_top [OF assms(1) x] d have "x = a" by (fastforce simp: decides_def)
  then show False using assms(2) d x by (auto simp: top_shift_def decides_def split: option.splits)
qed

definition no_override where
  "no_override p d as m = (\<forall>a. \<not> decides newest (user_row p d) as m a)"

definition no_department where
  "no_department p d as m =
     (\<forall>key a. departmentKey (ps_department p) = Some key \<longrightarrow> \<not> decides department_order (department_row p key d) as m a)"

definition precedence_ok ::
  "person_for_shift \<Rightarrow> string \<Rightarrow> assignment_record list \<Rightarrow> (uid \<rightharpoonup> shift_record) \<Rightarrow> shift_record list
   \<Rightarrow> resolved_shift \<Rightarrow> bool" where
  "precedence_ok p d as m defaults r =
     (case rs_source r of
        OVERRIDE \<Rightarrow> \<exists>a \<in> set as. rs_assignment r = Some a \<and> user_row p d a
            \<and> (\<forall>b \<in> set as. user_row p d b \<longrightarrow> newest a b \<le> 0)
            \<and> as_shiftId a \<noteq> None \<and> m (the (as_shiftId a)) = rs_shift r \<and> rs_shift r \<noteq> None
      | DEPARTMENT \<Rightarrow> no_override p d as m
            \<and> (\<exists>key. departmentKey (ps_department p) = Some key
                \<and> (\<exists>a \<in> set as. rs_assignment r = Some a \<and> department_row p key d a
                    \<and> (\<forall>b \<in> set as. department_row p key d b \<longrightarrow>
                         (as_companyId a \<noteq> None \<and> as_companyId b = None)
                         \<or> ((as_companyId a = None) = (as_companyId b = None) \<and> newest a b \<le> 0))
                    \<and> as_shiftId a \<noteq> None \<and> m (the (as_shiftId a)) = rs_shift r \<and> rs_shift r \<noteq> None))
      | DEFAULT \<Rightarrow> no_override p d as m \<and> no_department p d as m
            \<and> rs_assignment r = None \<and> (\<exists>s \<in> set defaults. rs_shift r = Some s \<and> sr_isDefault s
            \<and> (sr_companyId s = None \<or> sr_companyId s = ps_companyId p))
      | NONE \<Rightarrow> no_override p d as m \<and> no_department p d as m \<and> rs_assignment r = None \<and> rs_shift r = None
            \<and> (\<forall>s \<in> set defaults. sr_isDefault s \<longrightarrow> sr_companyId s \<noteq> None \<and> sr_companyId s \<noteq> ps_companyId p))"

lemma department_order_le:
  "department_order a b \<le> 0 \<longleftrightarrow>
     (as_companyId a \<noteq> None \<and> as_companyId b = None)
     \<or> ((as_companyId a = None) = (as_companyId b = None) \<and> newest a b \<le> 0)"
  by (auto simp: department_order_def Let_def)

text \<open>The shift of a day is the one the documented precedence picks. A shift from an assignment
  is the live shift of a row in force that day: the newest of the person's own rows, or (when no
  row of the person's decides) the newest row of the department, a row for the person's company
  before one for every company. When neither decides it is a default of the company or of no
  company, and there is no shift at all only if there is no such default.\<close>

theorem resolveShift_precedence:
  "precedence_ok p d as m defaults (resolveShift p d as m defaults)"
proof (cases "top_shift (js_sort newest (filter (user_row p d) as)) m")
  case (Some x)
  then obtain a s where "top_shift (js_sort newest (filter (user_row p d) as)) m = Some (a, s)" by (cases x) auto
  from top_shift_Some [OF newest_comparator this] this show ?thesis
    by (auto simp: precedence_ok_def resolveShift_def)
next
  case no_user: None
  then have no: "no_override p d as m" by (simp add: no_override_def top_shift_None [OF newest_comparator])
  show ?thesis
  proof (cases "case departmentKey (ps_department p) of None \<Rightarrow> None
      | Some key \<Rightarrow> top_shift (js_sort department_order (filter (department_row p key d) as)) m")
    case (Some x)
    then obtain key a s where key: "departmentKey (ps_department p) = Some key"
      and t: "top_shift (js_sort department_order (filter (department_row p key d) as)) m = Some (a, s)"
      by (cases x) (auto split: option.splits)
    from top_shift_Some [OF department_comparator t] show ?thesis
      unfolding department_order_le
      by (simp add: precedence_ok_def resolveShift_def no_user no key t)
  next
    case None
    then have "no_department p d as m"
      by (auto simp: no_department_def top_shift_None [OF department_comparator])
    then show ?thesis
      using None no_user no company_default_cases [of p defaults] company_default_None [of p defaults]
      by (cases "company_default p defaults") (auto simp: precedence_ok_def resolveShift_def)
  qed
qed

end
