(* ===== verification/Break_Approvals.thy ===== *)
theory Break_Approvals
  imports Break_Guarantees
begin

text \<open>
  Reading break records (the list queries and the approvals filter of
  \<open>prisma-break-record.repository.ts\<close>) and deciding them: the approvals use case
  (\<open>application/use-cases/break-approvals.use-case.ts\<close>) and the subscriber that re-routes waiting
  records (\<open>application/approval-reroute.subscriber.ts\<close>). The people are a table of the model:
  \<open>findAnyByIds\<close> reads a person whatever their status, \<open>findById\<close> an active one.
  Notifications and the shaping of views are left out.
\<close>

section \<open>Queries\<close>

text \<open>\<open>orderBy\<close> a list of keys, each ascending or descending.\<close>

definition by_day_desc :: "break_row \<Rightarrow> break_row \<Rightarrow> int" where
  "by_day_desc a b =
     (if br_date a \<noteq> br_date b then (if br_date b < br_date a then - 1 else 1)
      else nb_startedAt (br_data b) - nb_startedAt (br_data a))"

definition by_day_asc :: "break_row \<Rightarrow> break_row \<Rightarrow> int" where
  "by_day_asc a b =
     (if br_date a \<noteq> br_date b then (if br_date a < br_date b then - 1 else 1)
      else nb_startedAt (br_data a) - nb_startedAt (br_data b))"

definition by_start :: "break_row \<Rightarrow> break_row \<Rightarrow> int" where
  "by_start a b = nb_startedAt (br_data a) - nb_startedAt (br_data b)"

definition select_breaks ::
  "(break_row \<Rightarrow> bool) \<Rightarrow> (break_row \<Rightarrow> break_row \<Rightarrow> int) \<Rightarrow> break_db \<Rightarrow> break_record_row list" where
  "select_breaks P cmp db = map (breakRowFromPrisma db) (js_sort cmp (filter P (db_breaks db)))"

definition listByIds :: "break_db \<Rightarrow> uid list \<Rightarrow> break_record_row list" where
  "listByIds db ids = map (breakRowFromPrisma db) (filter (\<lambda>b. br_id b \<in> set ids) (db_breaks db))"

definition listForUserOnDate :: "break_db \<Rightarrow> uid \<Rightarrow> string \<Rightarrow> break_record_row list" where
  "listForUserOnDate db u d = select_breaks (\<lambda>b. br_userId b = u \<and> br_date b = d) by_start db"

definition listForUsersOnDate :: "break_db \<Rightarrow> uid list \<Rightarrow> string \<Rightarrow> break_record_row list" where
  "listForUsersOnDate db us d = select_breaks (\<lambda>b. br_userId b \<in> set us \<and> br_date b = d) by_start db"

definition listForUserBetween :: "break_db \<Rightarrow> uid \<Rightarrow> string \<Rightarrow> string \<Rightarrow> break_record_row list" where
  "listForUserBetween db u d0 d1 =
     select_breaks (\<lambda>b. br_userId b = u \<and> d0 \<le> br_date b \<and> br_date b \<le> d1) by_day_desc db"

definition listForUsersBetween :: "break_db \<Rightarrow> uid list \<Rightarrow> string \<Rightarrow> string \<Rightarrow> break_record_row list" where
  "listForUsersBetween db us d0 d1 =
     select_breaks (\<lambda>b. br_userId b \<in> set us \<and> d0 \<le> br_date b \<and> br_date b \<le> d1) by_day_asc db"

definition listSkipsNeedingComment :: "break_db \<Rightarrow> uid \<Rightarrow> string \<Rightarrow> break_record_row list" where
  "listSkipsNeedingComment db u d0 =
     select_breaks (\<lambda>b. br_userId b = u \<and> d0 \<le> br_date b \<and> isSkipRecord (br_data b)
        \<and> nb_reason (br_data b) = None \<and> br_approvalStatus b = Pending) by_day_desc db"

text \<open>An \<open>ApprovalFilter\<close>; its subjects part, \<open>adminPool\<close> and \<open>excludeUserId\<close> come from
  \<open>approvalFilterFor\<close> and are absent (None) in the filters the re-routing uses.\<close>

record approval_filter =
  af_approverId :: "uid option"
  af_approverRole :: "role option"
  af_approverAny :: "(uid \<times> role) option"
  af_scope :: "subject_filter option"
  af_status :: "approval_status list"
  af_date :: "string option"
  af_beforeDate :: "string option"
  af_userId :: "uid option"

type_synonym people = "uid \<Rightarrow> person_row option"

definition approver_matches :: "approval_filter \<Rightarrow> break_row \<Rightarrow> bool" where
  "approver_matches f b =
     (case af_approverAny f of
        Some (i, r) \<Rightarrow> nb_approverId (br_data b) = Some i
                       \<or> (nb_approverRole (br_data b) = Some r \<and> nb_approverId (br_data b) = None)
      | None \<Rightarrow>
          (case af_approverId f of None \<Rightarrow> True | Some i \<Rightarrow> nb_approverId (br_data b) = Some i)
          \<and> (case af_approverRole f of None \<Rightarrow> True | Some r \<Rightarrow> nb_approverRole (br_data b) = Some r))"

definition approvalWhere :: "people \<Rightarrow> approval_filter \<Rightarrow> break_row \<Rightarrow> bool" where
  "approvalWhere people f b =
     (approver_matches f b
      \<and> (case af_scope f of
           None \<Rightarrow> True
         | Some s \<Rightarrow>
             (case people (br_userId b) of None \<Rightarrow> False | Some p \<Rightarrow> subject_part s p)
             \<and> (sf_adminPool s \<longrightarrow> nb_approverRole (br_data b) \<in> {Some ADMIN, Some SUPER_ADMIN}
                                   \<or> pc_escalatedAt (br_clock b) \<noteq> None))
      \<and> (if af_status f \<noteq> [] then br_approvalStatus b \<in> set (af_status f) else br_approvalStatus b \<noteq> NotRequired)
      \<and> (case af_beforeDate f of
           Some d \<Rightarrow> br_date b < d
         | None \<Rightarrow> (case af_date f of None \<Rightarrow> True | Some d \<Rightarrow> br_date b = d))
      \<and> (case af_userId f of
           Some u \<Rightarrow> br_userId b = u
         | None \<Rightarrow> (case af_scope f of None \<Rightarrow> True | Some s \<Rightarrow> br_userId b \<noteq> sf_excludeUserId s)))"

definition approval_rows :: "people \<Rightarrow> approval_filter \<Rightarrow> break_db \<Rightarrow> break_row list" where
  "approval_rows people f db = js_sort by_day_desc (filter (approvalWhere people f) (db_breaks db))"

definition listApprovals :: "people \<Rightarrow> approval_filter \<Rightarrow> nat \<Rightarrow> nat \<Rightarrow> break_db \<Rightarrow> break_record_row list" where
  "listApprovals people f skip_n take_n db =
     map (breakRowFromPrisma db) (take take_n (drop skip_n (approval_rows people f db)))"

definition countApprovals :: "people \<Rightarrow> approval_filter \<Rightarrow> break_db \<Rightarrow> nat" where
  "countApprovals people f db = length (filter (approvalWhere people f) (db_breaks db))"

section \<open>The approvals use case\<close>

definition scoped :: "subject_filter \<Rightarrow> approval_filter" where
  "scoped s = \<lparr>af_approverId = None, af_approverRole = None, af_approverAny = None, af_scope = Some s, af_status = [],
     af_date = None, af_beforeDate = None, af_userId = None\<rparr>"

datatype status_query = OneStatus approval_status | AllStatuses

record approvals_query =
  aq_page :: "nat option"
  aq_limit :: "nat option"
  aq_scope :: approval_scope
  aq_companyId :: "uid option"
  aq_overdue :: bool
  aq_status :: "status_query option"
  aq_date :: "string option"

definition query_filter :: "approvals_query \<Rightarrow> string \<Rightarrow> subject_filter \<Rightarrow> approval_filter" where
  "query_filter q today s =
     (if aq_overdue q then (scoped s)\<lparr>af_status := [Pending], af_beforeDate := Some today\<rparr>
      else (scoped s)\<lparr>af_status := (case coalesce (aq_status q) (OneStatus Pending) of
                                      AllStatuses \<Rightarrow> [Pending, Approved, Rejected]
                                    | OneStatus st \<Rightarrow> [st]),
                      af_date := aq_date q\<rparr>)"

definition list_approvals ::
  "people \<Rightarrow> string \<Rightarrow> auth_user \<Rightarrow> approvals_query \<Rightarrow> break_db \<Rightarrow> (break_record_row list \<times> nat \<times> int) result" where
  "list_approvals people today me q db =
     and_then (assertApprover me) (\<lambda>_.
       and_then (approvalFilterFor me (aq_scope q) (aq_companyId q)) (\<lambda>s.
         let page = coalesce (aq_page q) 1; limit = coalesce (aq_limit q) 50; f = query_filter q today s;
             count = countApprovals people f db
         in return (listApprovals people f ((page - 1) * limit) limit db, count, totalPages (int count) (int limit))))"

record approvals_summary =
  su_pendingToday :: nat
  su_overdue :: nat
  su_approvedToday :: nat
  su_rejectedToday :: nat

definition approvals_summary ::
  "people \<Rightarrow> string \<Rightarrow> auth_user \<Rightarrow> string option \<Rightarrow> uid option \<Rightarrow> break_db \<Rightarrow> approvals_summary result" where
  "approvals_summary people today me date companyId db =
     and_then (assertApprover me) (\<lambda>_.
       and_then (approvalFilterFor me Mine companyId) (\<lambda>s.
         let day = coalesce date today;
             on_day = (\<lambda>st. countApprovals people ((scoped s)\<lparr>af_status := [st], af_date := Some day\<rparr>) db)
         in return \<lparr>su_pendingToday = on_day Pending,
              su_overdue = countApprovals people ((scoped s)\<lparr>af_status := [Pending], af_beforeDate := Some day\<rparr>) db,
              su_approvedToday = on_day Approved, su_rejectedToday = on_day Rejected\<rparr>))"

definition cleanReason :: "string option \<Rightarrow> string option" where
  "cleanReason txt = (let t = trim (collapse_spaces (coalesce txt '''')) in if length t > 0 then Some t else None)"

definition subject_of :: "people \<Rightarrow> break_record_row option \<Rightarrow> person_row option" where
  "subject_of people rec = (case rec of None \<Rightarrow> None | Some v \<Rightarrow> people (br_userId (bv_row v)))"

definition decideRecord ::
  "people \<Rightarrow> auth_user \<Rightarrow> uid \<Rightarrow> approval_status \<Rightarrow> string option \<Rightarrow> clock_frame \<Rightarrow> break_record_row tx" where
  "decideRecord people me i status note clk db =
     (case assertApprover me of
        Inl e \<Rightarrow> (Inl (App e), db)
      | Inr _ \<Rightarrow>
          (case findById db i of
             None \<Rightarrow> (Inl (App (NotFoundError ''NOT_FOUND'')), db)
           | Some rec \<Rightarrow>
               (let u = br_userId (bv_row rec); subject = people u; st = br_approvalStatus (bv_row rec) in
                if \<not> canView me u subject then (Inl (App (NotFoundError ''NOT_FOUND'')), db)
                else if u = u_id me then (Inl (App (ForbiddenError ''FORBIDDEN'')), db)
                else if \<not> canDecide me u subject then (Inl (App (ForbiddenError ''FORBIDDEN'')), db)
                else if st \<noteq> Pending then (Inl (App (ConflictError ''ALREADY_DECIDED'')), db)
                else
                  (case decide i [Pending] \<lparr>dc_status = status, dc_decidedById = Some (u_id me),
                          dc_decidedAt = Some (clock_now clk), dc_note = note\<rparr> clk db of
                     (Inl e, db') \<Rightarrow> (Inl e, db')
                   | (Inr None, db') \<Rightarrow> (Inl (App (ConflictError ''ALREADY_DECIDED'')), db')
                   | (Inr (Some v), db') \<Rightarrow> (Inr v, db')))))"

definition DECIDED :: "approval_status list" where
  "DECIDED = [Approved, Rejected]"

definition reopenRecord :: "people \<Rightarrow> auth_user \<Rightarrow> uid \<Rightarrow> clock_frame \<Rightarrow> break_record_row tx" where
  "reopenRecord people me i clk db =
     (case assertApprover me of
        Inl e \<Rightarrow> (Inl (App e), db)
      | Inr _ \<Rightarrow>
          (case findById db i of
             None \<Rightarrow> (Inl (App (NotFoundError ''NOT_FOUND'')), db)
           | Some rec \<Rightarrow>
               (let u = br_userId (bv_row rec); subject = people u; st = br_approvalStatus (bv_row rec) in
                if \<not> canView me u subject then (Inl (App (NotFoundError ''NOT_FOUND'')), db)
                else if \<not> canDecide me u subject then (Inl (App (ForbiddenError ''FORBIDDEN'')), db)
                else if st \<notin> set DECIDED then (Inl (App (ConflictError ''NOT_DECIDED'')), db)
                else if \<not> seesWholeOrg me \<and> br_decidedById (bv_row rec) \<noteq> Some (u_id me)
                then (Inl (App (ForbiddenError ''FORBIDDEN'')), db)
                else
                  (case decide i DECIDED \<lparr>dc_status = Pending, dc_decidedById = None, dc_decidedAt = None,
                          dc_note = None\<rparr> clk db of
                     (Inl e, db') \<Rightarrow> (Inl e, db')
                   | (Inr None, db') \<Rightarrow> (Inl (App (ConflictError ''STALE'')), db')
                   | (Inr (Some v), db') \<Rightarrow> (Inr v, db')))))"

definition approve :: "people \<Rightarrow> auth_user \<Rightarrow> uid \<Rightarrow> string option \<Rightarrow> clock_frame \<Rightarrow> break_record_row tx" where
  "approve people me i note clk = decideRecord people me i Approved (cleanReason note) clk"

definition reject :: "people \<Rightarrow> auth_user \<Rightarrow> uid \<Rightarrow> string \<Rightarrow> clock_frame \<Rightarrow> break_record_row tx" where
  "reject people me i note clk db =
     (case cleanReason (Some note) of
        None \<Rightarrow> (Inl (App (ValidationError ''NOTE_REQUIRED'')), db)
      | Some clean \<Rightarrow>
          if length clean < 3 then (Inl (App (ValidationError ''NOTE_REQUIRED'')), db)
          else decideRecord people me i Rejected (Some clean) clk db)"

fun bulk_loop ::
  "people \<Rightarrow> auth_user \<Rightarrow> string option \<Rightarrow> clock_frame \<Rightarrow> uid list \<Rightarrow> break_db
   \<Rightarrow> (uid list \<times> (uid \<times> db_error) list) \<times> break_db" where
  "bulk_loop people me note clk [] db = (([], []), db)"
| "bulk_loop people me note clk (i # ids) db =
     (case decideRecord people me i Approved note clk db of
        (Inr _, db') \<Rightarrow>
          (case bulk_loop people me note clk ids db' of ((ok, bad), db'') \<Rightarrow> ((i # ok, bad), db''))
      | (Inl e, db') \<Rightarrow>
          (case bulk_loop people me note clk ids db' of ((ok, bad), db'') \<Rightarrow> ((ok, (i, e) # bad), db'')))"

definition bulkApprove ::
  "people \<Rightarrow> auth_user \<Rightarrow> uid list \<Rightarrow> string option \<Rightarrow> clock_frame \<Rightarrow> (uid list \<times> (uid \<times> db_error) list) tx" where
  "bulkApprove people me ids note clk db =
     (case assertApprover me of
        Inl e \<Rightarrow> (Inl (App e), db)
      | Inr _ \<Rightarrow> (case bulk_loop people me (cleanReason note) clk (js_unique ids) db of (r, db') \<Rightarrow> (Inr r, db')))"

section \<open>Re-routing\<close>

definition BATCH :: nat where
  "BATCH = 500"

fun rerouteAll :: "people \<Rightarrow> break_record_row list \<Rightarrow> break_db \<Rightarrow> nat \<times> break_db" where
  "rerouteAll found [] db = (0, db)"
| "rerouteAll found (r # rs) db =
     (case found (br_userId (bv_row r)) of
        None \<Rightarrow> rerouteAll found rs db
      | Some subject \<Rightarrow>
          (let rt = route (pf_role subject) (pf_departmentId subject) in
           if rd_status rt \<noteq> Pending then rerouteAll found rs db
           else if rd_approverId rt = nb_approverId (br_data (bv_row r)) \<and> rd_approverRole rt = nb_approverRole (br_data (bv_row r))
           then rerouteAll found rs db
           else
             (case reroute (br_id (bv_row r)) (rd_approverRole rt, rd_approverId rt) db of
                (Inr True, db') \<Rightarrow> (case rerouteAll found rs db' of (n, db'') \<Rightarrow> (n + 1, db''))
              | (_, db') \<Rightarrow> rerouteAll found rs db')))"

record access_changed =
  ev_userId :: uid
  ev_manager :: bool
  ev_role :: bool

text \<open>\<open>found\<close> is \<open>people.findById\<close>, which finds people who are not deleted; \<open>isActive\<close> reads
  the \<open>active\<close> flag.\<close>

definition handle_access_changed :: "people \<Rightarrow> people \<Rightarrow> (uid \<Rightarrow> bool) \<Rightarrow> access_changed \<Rightarrow> break_db \<Rightarrow> nat \<times> break_db" where
  "handle_access_changed people found isActive e db =
     (let person = found (ev_userId e);
          canApprove = (case person of None \<Rightarrow> False | Some p \<Rightarrow> isActive (pf_id p) \<and> pf_role p \<in> {MANAGER, ADMIN, SUPER_ADMIN});
          none = \<lparr>af_approverId = None, af_approverRole = None, af_approverAny = None, af_scope = None, af_status = [Pending],
                  af_date = None, af_beforeDate = None, af_userId = None\<rparr>;
          (n1, db1) = (if \<not> canApprove
                       then rerouteAll found (listApprovals people (none\<lparr>af_approverId := Some (ev_userId e)\<rparr>) 0 BATCH db) db
                       else (0, db));
          (n2, db2) = (if person \<noteq> None \<and> (ev_manager e \<or> ev_role e)
                       then rerouteAll found (listApprovals people (none\<lparr>af_userId := Some (ev_userId e)\<rparr>) 0 BATCH db1) db1
                       else (0, db1))
      in (n1 + n2, db2))"

section \<open>Lemmas\<close>

text \<open>A change of the tables that touches at most the records of some ids.\<close>

definition untouched :: "uid set \<Rightarrow> break_db \<Rightarrow> break_db \<Rightarrow> bool" where
  "untouched ids db db' \<longleftrightarrow>
     filter (\<lambda>b. br_id b \<notin> ids) (db_breaks db') = filter (\<lambda>b. br_id b \<notin> ids) (db_breaks db)
     \<and> db_presence db' = db_presence db"

lemma untouched_refl [simp]: "untouched ids db db"
  by (simp add: untouched_def)

lemma untouched_trans: "untouched A d d' \<Longrightarrow> untouched B d' d'' \<Longrightarrow> untouched (A \<union> B) d d''"
proof -
  assume u: "untouched A d d'" "untouched B d' d''"
  have f: "filter (\<lambda>b. br_id b \<notin> A \<union> B) xs = filter (\<lambda>b. br_id b \<notin> A) (filter (\<lambda>b. br_id b \<notin> B) xs)"
    "filter (\<lambda>b. br_id b \<notin> A \<union> B) xs = filter (\<lambda>b. br_id b \<notin> B) (filter (\<lambda>b. br_id b \<notin> A) xs)" for xs
    by (auto intro: filter_cong)
  show ?thesis using u unfolding untouched_def by (metis f)
qed

lemma untouched_update:
  assumes "\<And>b. br_id (f b) = br_id b"
  shows "untouched {i} db (update_break i f db)"
proof -
  have "filter (\<lambda>b. br_id b \<noteq> i) (map (\<lambda>b. if br_id b = i then f b else b) xs) = filter (\<lambda>b. br_id b \<noteq> i) xs" for xs
    by (induction xs) (auto simp: assms)
  then show ?thesis by (simp add: untouched_def)
qed

lemma untouched_find:
  assumes "untouched ids db db'" "i \<notin> ids"
  shows "find_break db' i = find_break db i"
proof -
  have "List.find (\<lambda>b. br_id b = i) xs = List.find (\<lambda>b. br_id b = i) (filter (\<lambda>b. br_id b \<notin> ids) xs)" for xs
    using assms(2) by (induction xs) auto
  then show ?thesis using assms(1) unfolding find_break_def untouched_def by metis
qed

lemma decide_cases:
  "(fst (decide i expected d clk db) = Inr None \<or> isl (fst (decide i expected d clk db))) \<and> snd (decide i expected d clk db) = db
   \<or> (\<exists>b v. find_break db i = Some b \<and> \<not> isMonthLocked db (br_date b) (br_userId b) \<and> br_approvalStatus b \<in> set expected
       \<and> fst (decide i expected d clk db) = Inr (Some v)
       \<and> find_break (snd (decide i expected d clk db)) i = Some (bv_row v)
       \<and> br_approvalStatus (bv_row v) = dc_status d \<and> br_decidedById (bv_row v) = dc_decidedById d
       \<and> br_userId (bv_row v) = br_userId b \<and> br_date (bv_row v) = br_date b
       \<and> untouched {i} db (snd (decide i expected d clk db)))"
proof (cases "find_break db i")
  case None
  then show ?thesis by (simp add: decide_def)
next
  case (Some b)
  let ?f = "\<lambda>b. with_status (dc_status d)
                   (b\<lparr>br_decidedById := dc_decidedById d, br_decidedAt := dc_decidedAt d, br_decisionNote := dc_note d,
                      br_clock := (if dc_status d = Pending
                                   then pendingClock clk (clock_now clk) (db_sla db (br_userId b))
                                   else br_clock b)\<rparr>)"
  have f: "find_break (update_break i ?f db) i = Some (?f b)" by (rule find_update [OF Some]) simp
  have u: "untouched {i} db (update_break i ?f db)" by (rule untouched_update) simp
  have "br_decidedById (?f b) = dc_decidedById d" by (simp add: with_status_def)
  then show ?thesis
    using Some f u by (auto simp: decide_def Let_def findById_def breakRowFromPrisma_def simp del: update_break_sel)
qed

text \<open>What a decision may do.\<close>

definition decision_ok ::
  "people \<Rightarrow> auth_user \<Rightarrow> uid \<Rightarrow> approval_status \<Rightarrow> break_db \<Rightarrow> (db_error + break_record_row) \<times> break_db \<Rightarrow> bool" where
  "decision_ok people me i status db out =
     (case out of
        (Inl e, db') \<Rightarrow> db' = db
      | (Inr v, db') \<Rightarrow>
          assertApprover me = Inr ()
          \<and> (\<exists>b. find_break db i = Some b \<and> br_approvalStatus b = Pending
               \<and> canDecide me (br_userId b) (people (br_userId b)) \<and> \<not> isMonthLocked db (br_date b) (br_userId b))
          \<and> find_break db' i = Some (bv_row v) \<and> br_approvalStatus (bv_row v) = status
          \<and> br_decidedById (bv_row v) = Some (u_id me) \<and> untouched {i} db db')"

lemma decideRecord_ok: "decision_ok people me i status db (decideRecord people me i status note clk db)"
proof (cases "assertApprover me")
  case (Inl e)
  then show ?thesis by (simp add: decision_ok_def decideRecord_def)
next
  case (Inr x)
  show ?thesis
  proof (cases "find_break db i")
    case None
    then show ?thesis using Inr by (simp add: decision_ok_def decideRecord_def findById_def)
  next
    case (Some b)
    let ?d = "\<lparr>dc_status = status, dc_decidedById = Some (u_id me), dc_decidedAt = Some (clock_now clk), dc_note = note\<rparr>"
    obtain r db' where d: "decide i [Pending] ?d clk db = (r, db')" by fastforce
    have s: "bv_row (breakRowFromPrisma db b) = b" by (simp add: breakRowFromPrisma_def)
    show ?thesis
      using decide_cases [of i "[Pending]" ?d clk db] Inr Some
      unfolding decision_ok_def decideRecord_def findById_def Let_def
      by (auto simp: s d split: sum.split option.split)
  qed
qed

lemma bulk_loop_ok:
  assumes "distinct ids" "bulk_loop people me note clk ids db = ((ok, bad), db')"
  shows "set ok \<union> fst ` set bad = set ids \<and> set ok \<inter> fst ` set bad = {} \<and> distinct ok \<and> untouched (set ok) db db'
    \<and> (\<forall>i \<in> set ok. \<exists>b. find_break db' i = Some b \<and> br_approvalStatus b = Approved \<and> br_decidedById b = Some (u_id me))"
  using assms
proof (induction ids arbitrary: db ok bad db')
  case Nil
  then show ?case by simp
next
  case (Cons i ids)
  obtain r db1 where r: "decideRecord people me i Approved note clk db = (r, db1)" by fastforce
  obtain ok1 bad1 db2 where l: "bulk_loop people me note clk ids db1 = ((ok1, bad1), db2)" by (metis prod.exhaust)
  have dist: "distinct ids" "i \<notin> set ids" using Cons.prems(1) by simp_all
  note IH = Cons.IH [OF dist(1) l]
  have dec: "decision_ok people me i Approved db (r, db1)" using decideRecord_ok r by metis
  show ?case
  proof (cases r)
    case (Inl e)
    then have "db1 = db" "ok = ok1" "bad = (i, e) # bad1" "db' = db2"
      using dec Cons.prems(2) r l by (auto simp: decision_ok_def)
    then show ?thesis using IH dist by auto
  next
    case (Inr v)
    then have e: "ok = i # ok1" "bad = bad1" "db' = db2" using Cons.prems(2) r l by auto
    have i1: "i \<notin> set ok1" using IH dist by auto
    have "find_break db2 i = Some (bv_row v)"
      using untouched_find [OF _ i1, of db1 db2] IH dec Inr by (simp add: decision_ok_def)
    moreover have "untouched (set ok) db db2"
      using untouched_trans [of "{i}" db db1 "set ok1" db2] IH dec Inr by (simp add: decision_ok_def e)
    ultimately show ?thesis using IH dec Inr i1 dist by (auto simp: e decision_ok_def)
  qed
qed


lemma pages_take: "concat (map (\<lambda>p. take l (drop (p * l) xs)) [0..<n]) = take (n * l) xs"
proof (induction n)
  case (Suc n)
  then show ?case using take_add [of "n * l" l xs] by (simp add: add.commute)
qed simp

section \<open>Properties\<close>

text \<open>Every decision is authorised and atomic. A decision that goes through was taken by an
  approver entitled to decide that person's items, on a record that was waiting in an open month; the
  record then has the decided status and names the decider, and no other record and no session has
  changed. A decision that is refused, for whatever reason, changes nothing.\<close>

theorem decisions_are_authorised:
  "case decideRecord people me i status note clk db of
     (Inl e, db') \<Rightarrow> db' = db
   | (Inr v, db') \<Rightarrow>
       assertApprover me = Inr ()
       \<and> (\<exists>b. find_break db i = Some b \<and> br_approvalStatus b = Pending
            \<and> canDecide me (br_userId b) (people (br_userId b)) \<and> \<not> isMonthLocked db (br_date b) (br_userId b))
       \<and> find_break db' i = Some (bv_row v) \<and> br_approvalStatus (bv_row v) = status
       \<and> br_decidedById (bv_row v) = Some (u_id me) \<and> untouched {i} db db'"
  using decideRecord_ok [of people me i status db "note" clk] unfolding decision_ok_def .

text \<open>Bulk approval decides each record on its own. Every id asked for is answered exactly once,
  approved or skipped with its reason; each approved record ends APPROVED by the caller; and every
  record that was skipped or not asked for is as it was.\<close>

theorem bulk_approval_is_per_record:
  "case bulkApprove people me ids note clk db of
     (Inl e, db') \<Rightarrow> db' = db
   | (Inr (ok, bad), db') \<Rightarrow>
       set ok \<union> fst ` set bad = set ids \<and> set ok \<inter> fst ` set bad = {} \<and> distinct ok \<and> untouched (set ok) db db'
       \<and> set ok \<subseteq> {i. \<exists>b. find_break db' i = Some b \<and> br_approvalStatus b = Approved \<and> br_decidedById b = Some (u_id me)}"
proof (cases "assertApprover me")
  case (Inl e)
  then show ?thesis by (simp add: bulkApprove_def)
next
  case (Inr x)
  obtain ok bad db' where l: "bulk_loop people me (cleanReason note) clk (js_unique ids) db = ((ok, bad), db')"
    by (metis prod.exhaust)
  have "bulkApprove people me ids note clk db = (Inr (ok, bad), db')" using Inr l by (simp add: bulkApprove_def)
  then show ?thesis using bulk_loop_ok [OF distinct_js_unique l] by auto
qed

text \<open>The pages of the approvals list tile it. For a caller who may list, the pages 1 to
  \<open>totalPages\<close> of a query hold every matching record once, in one order, and the total each
  page states is their number.\<close>

theorem approval_pages_tile:
  assumes "assertApprover me = Inr ()" "approvalFilterFor me (aq_scope q) (aq_companyId q) = Inr s" "0 < limit"
    and "n = nat (totalPages (int (countApprovals people (query_filter q today s) db)) (int limit))"
  shows "concat (map (\<lambda>p. case list_approvals people today me (q\<lparr>aq_page := Some (p + 1), aq_limit := Some limit\<rparr>) db of
             Inl e \<Rightarrow> [] | Inr (rows, c, t) \<Rightarrow> rows) [0..<n])
      = map (breakRowFromPrisma db) (approval_rows people (query_filter q today s) db)
    \<and> countApprovals people (query_filter q today s) db = length (approval_rows people (query_filter q today s) db)"
proof -
  let ?f = "query_filter q today s"
  have len: "countApprovals people ?f db = length (approval_rows people ?f db)"
    by (simp add: countApprovals_def approval_rows_def)
  have "query_filter (q\<lparr>aq_page := a, aq_limit := b\<rparr>) today s = ?f" for a b
    by (simp add: query_filter_def)
  then have page: "(case list_approvals people today me (q\<lparr>aq_page := Some (p + 1), aq_limit := Some limit\<rparr>) db of
      Inl e \<Rightarrow> [] | Inr (rows, c, t) \<Rightarrow> rows)
      = map (breakRowFromPrisma db) (take limit (drop (p * limit) (approval_rows people ?f db)))" for p
    using assms(1,2) by (simp add: list_approvals_def listApprovals_def Let_def)
  have "int (countApprovals people ?f db) \<le> int limit * ceil_div (int (countApprovals people ?f db)) (int limit)"
    using ceil_div_bounds(1) [of "int limit" "int (countApprovals people ?f db)"] assms(3) by simp
  also have "\<dots> \<le> int limit * int n"
    unfolding assms(4) totalPages_def Let_def by (intro mult_left_mono) auto
  finally have "length (approval_rows people ?f db) \<le> n * limit"
    unfolding len by (metis mult.commute of_nat_le_iff of_nat_mult)
  then have "map (breakRowFromPrisma db) (approval_rows people ?f db)
      = map (breakRowFromPrisma db) (concat (map (\<lambda>p. take limit (drop (p * limit) (approval_rows people ?f db))) [0..<n]))"
    by (simp add: pages_take)
  then show ?thesis unfolding page using len by (simp add: map_concat o_def)
qed

definition sample_query :: approvals_query where
  "sample_query = \<lparr>aq_page = None, aq_limit = None, aq_scope = AllItems, aq_companyId = None, aq_overdue = False,
     aq_status = None, aq_date = None\<rparr>"

theorem approval_pages_tile_witness:
  "countApprovals (\<lambda>_. Some sample_staff) (query_filter sample_query ''e'' \<lparr>sf_companyId = Some 7, sf_departmentIds = Some [3],
      sf_roles = Some [USER], sf_liveOrgsOnly = False, sf_adminPool = False, sf_excludeUserId = 1\<rparr>) working_db = 0"
proof -
  let ?s = "\<lparr>sf_companyId = Some 7, sf_departmentIds = Some [3], sf_roles = Some [USER], sf_liveOrgsOnly = False,
      sf_adminPool = False, sf_excludeUserId = 1\<rparr>"
  have a: "assertApprover sample_manager = Inr ()"
    and f: "approvalFilterFor sample_manager (aq_scope sample_query) (aq_companyId sample_query) = Inr ?s"
    by code_simp+
  have "approval_rows (\<lambda>_. Some sample_staff) (query_filter sample_query ''e'' ?s) working_db = []"
    by (simp add: approval_rows_def working_db_def empty_db_def)
  then show ?thesis
    using approval_pages_tile [OF a f, of 50 _ "\<lambda>_. Some sample_staff" "''e''" working_db] by simp
qed

end
