(* ===== verification/My_Breaks.thy ===== *)
theory My_Breaks
  imports Presence Shift_Resolution Break_Approvals
begin

text \<open>
  The staff side of breaks: \<open>src/src/modules/shifts/application/break-day.service.ts\<close> (which shift and
  which breaks apply to a person at a moment) and \<open>use-cases/my-breaks.use-case.ts\<close> (starting, pausing,
  resuming and ending a break). The use cases judge the request against the day's slots and then run
  the transactions of \<open>Break_Records\<close>. The stored shifts and assignments are an argument
  (the minute's cache in front of them is left out), as are the people; views for the screen, pushes
  and notices are left out.
\<close>

section \<open>The break day\<close>

record break_day =
  bk_dateKey :: string
  bk_resolved :: resolved_shift
  bk_workday :: bool
  bk_slots :: "break_slot list"

record resolution_context =
  rc_shiftsById :: "uid \<Rightarrow> shift_record option"
  rc_defaults :: "shift_record list"
  rc_assignments :: "assignment_record list"

definition resolution_ctx :: "shift_record list \<Rightarrow> assignment_record list \<Rightarrow> uid list \<Rightarrow> resolution_context" where
  "resolution_ctx shifts rows userIds =
     \<lparr>rc_shiftsById = (\<lambda>i. List.find (\<lambda>s. sr_id s = i) (rev shifts)),
      rc_defaults = filter sr_isDefault shifts,
      rc_assignments = filter (\<lambda>a. as_target a = TargetDepartment
         \<or> (case as_userId a of None \<Rightarrow> False | Some u \<Rightarrow> u \<in> set userIds)) rows\<rparr>"

definition resolveWith :: "resolution_context \<Rightarrow> 'a person_for_shift_scheme \<Rightarrow> string \<Rightarrow> resolved_shift" where
  "resolveWith ctx p dateKey =
     resolveShift (person_for_shift.truncate p) dateKey (rc_assignments ctx) (rc_shiftsById ctx) (rc_defaults ctx)"

definition definition_of :: "shift_record \<Rightarrow> shift_definition" where
  "definition_of s = shift_definition.truncate s"

definition forDate :: "resolved_shift \<Rightarrow> string \<Rightarrow> zone \<Rightarrow> break_day" where
  "forDate resolved dateKey tz =
     (case rs_shift resolved of
        None \<Rightarrow> \<lparr>bk_dateKey = dateKey, bk_resolved = resolved, bk_workday = False, bk_slots = []\<rparr>
      | Some s \<Rightarrow>
          (let workday = isWorkDay (sd_workDays s) dateKey
           in \<lparr>bk_dateKey = dateKey, bk_resolved = resolved, bk_workday = workday,
               bk_slots = (if workday then breakSlots (definition_of s) dateKey tz else [])\<rparr>))"

text \<open>None: a stored shift whose times do not parse makes \<open>hmToMinutes\<close> throw.\<close>

definition dayWith :: "resolution_context \<Rightarrow> 'a person_for_shift_scheme \<Rightarrow> int \<Rightarrow> zone \<Rightarrow> break_day option" where
  "dayWith ctx p now tz =
     (let today = dateKeyInZone now tz; resolved = resolveWith ctx p today in
      case rs_shift resolved of
        None \<Rightarrow> Some (forDate resolved today tz)
      | Some s \<Rightarrow>
          (case shiftDayKey (sd_start s) (sd_end s) now tz of
             None \<Rightarrow> None
           | Some candidate \<Rightarrow>
               if candidate = today then Some (forDate resolved today tz)
               else
                 (let yesterday = resolveWith ctx p candidate in
                  case rs_shift yesterday of
                    None \<Rightarrow> Some (forDate resolved today tz)
                  | Some y \<Rightarrow>
                      (case shiftDayKey (sd_start y) (sd_end y) now tz of
                         None \<Rightarrow> None
                       | Some k \<Rightarrow> if k = candidate then Some (forDate yesterday candidate tz)
                                  else Some (forDate resolved today tz)))))"

definition dayFor ::
  "shift_record list \<Rightarrow> assignment_record list \<Rightarrow> 'a person_for_shift_scheme \<Rightarrow> int \<Rightarrow> zone \<Rightarrow> break_day option" where
  "dayFor shifts rows p now tz = dayWith (resolution_ctx shifts rows [ps_id p]) p now tz"

section \<open>Starting a break\<close>

record shift_person = person_for_shift +
  sp_role :: role
  sp_departmentId :: "uid option"
  sp_active :: bool

definition hasReviewer :: "role \<Rightarrow> bool" where
  "hasReviewer r = (r \<noteq> SUPER_ADMIN \<and> r \<noteq> SUPER_MANAGER \<and> r \<noteq> ADMIN)"

fun kind_index :: "break_kind \<Rightarrow> break_kind list \<Rightarrow> int" where
  "kind_index k [] = -1"
| "kind_index k (x # xs) = (if x = k then 0 else (let i = kind_index k xs in if i < 0 then -1 else i + 1))"

text \<open>A record of a scheduled break that comes after the kind.\<close>

definition is_later :: "break_kind \<Rightarrow> new_break_record \<Rightarrow> bool" where
  "is_later kind r =
     (isScheduledKind (nb_kind r)
      \<and> (case nb_kind r of None \<Rightarrow> False | Some k \<Rightarrow> kind_index k BREAK_KINDS > kind_index kind BREAK_KINDS))"

definition text_length :: "string option \<Rightarrow> int" where
  "text_length t = (case t of None \<Rightarrow> 0 | Some s \<Rightarrow> int (length s))"

definition base_record :: "uid \<Rightarrow> break_day \<Rightarrow> shift_record \<Rightarrow> break_slot \<Rightarrow> int \<Rightarrow> start_classification \<Rightarrow> string option
   \<Rightarrow> break_source \<Rightarrow> route_decision \<Rightarrow> break_outcome \<Rightarrow> new_break_record" where
  "base_record userId day shift slot at judged reason src rt outcome =
     \<lparr>nb_userId = userId, nb_date = bk_dateKey day, nb_kind = Some (sl_kind slot), nb_presenceType = sl_presenceType slot,
      nb_shiftId = Some (sr_id shift), nb_shiftName = Some (sd_name shift),
      nb_scheduledStart = Some (sl_scheduledStart slot), nb_durationMin = Some (sl_durationMin slot),
      nb_windowOpen = Some (sl_windowOpen slot), nb_windowClose = Some (sl_windowClose slot),
      nb_ringStart = Some (sl_ringStart slot), nb_ringEnd = Some (sl_ringEnd slot), nb_startedAt = at,
      nb_timing = sc_timing judged, nb_minutesOff = sc_minutesOff judged, nb_reason = reason, nb_source = src,
      nb_approvalStatus = rd_status rt, nb_approverRole = rd_approverRole rt, nb_approverId = rd_approverId rt,
      nb_outcome = outcome\<rparr>"

definition no_approval :: route_decision where
  "no_approval = \<lparr>rd_status = NotRequired, rd_approverRole = None, rd_approverId = None\<rparr>"

text \<open>The checks of a start against the day, its slots and the records of the day (\<open>taken\<close>).\<close>

definition judge_start ::
  "shift_person \<Rightarrow> break_day \<Rightarrow> break_kind \<Rightarrow> string option \<Rightarrow> int \<Rightarrow> new_break_record list \<Rightarrow> new_break_record result" where
  "judge_start p day kind reasonText now taken =
     (case (rs_shift (bk_resolved day), List.find (\<lambda>s. sl_kind s = kind) (bk_slots day)) of
        (Some shift, Some slot) \<Rightarrow>
          (if \<exists>r \<in> set taken. nb_kind r = Some kind then throw (ConflictError ''BREAK_ALREADY_TAKEN'')
           else if \<exists>r \<in> set taken. is_later kind r then throw (ConflictError ''BREAK_ORDER'')
           else if phaseAt slot now = PhUpcoming then throw (ConflictError ''BREAK_NOT_OPEN'')
           else if phaseAt slot now = PhClosed then throw (ConflictError ''BREAK_WINDOW_CLOSED'')
           else
             (let judged = classifyStart slot now shift;
                  reasonRequired = sc_reasonRequired judged \<and> hasReviewer (sp_role p);
                  reason = cleanReason reasonText
              in if reasonRequired \<and> text_length reason < reasonMinChars shift
                 then throw (UnprocessableError ''REASON_REQUIRED'')
                 else return (base_record (ps_id p) day shift slot now judged reason SourceAgent
                        (if reasonRequired then route (sp_role p) (sp_departmentId p) else no_approval) Taken)))
      | _ \<Rightarrow> throw (ConflictError ''BREAK_NOT_SCHEDULED''))"

definition day_records :: "break_db \<Rightarrow> uid \<Rightarrow> string \<Rightarrow> new_break_record list" where
  "day_records db u date = map br_data (filter (\<lambda>b. br_userId b = u \<and> br_date b = date) (db_breaks db))"

definition not_replaceable :: "break_kind \<Rightarrow> int \<Rightarrow> new_break_record \<Rightarrow> bool" where
  "not_replaceable kind now r = (\<not> (nb_kind r = Some kind \<and> isReplaceableAutoSkip r now))"

fun start_error :: "start_refusal \<Rightarrow> app_exception" where
  "start_error DayHasEnded = ConflictError ''DAY_ENDED''"
| "start_error AlreadyOnBreak = ConflictError ''ALREADY_ON_BREAK''"
| "start_error AlreadyTaken = ConflictError ''BREAK_ALREADY_TAKEN''"

definition start_break ::
  "shift_person \<Rightarrow> break_day \<Rightarrow> break_kind \<Rightarrow> string option \<Rightarrow> clock_frame \<Rightarrow> zone \<Rightarrow> (break_record_row \<times> uid) tx" where
  "start_break p day kind reason clk tz db =
     (let now = clock_now clk; u = ps_id p;
          taken = filter (not_replaceable kind now) (day_records db u (bk_dateKey day))
      in case judge_start p day kind reason now taken of
           Inl e \<Rightarrow> (Inl (App e), db)
         | Inr r \<Rightarrow>
             (case startScheduled r (dateKeyInZone now tz) now clk (snd (endPaused u clk db)) of
                (Inl e, db') \<Rightarrow> (Inl e, db')
              | (Inr (StartRefused why), db') \<Rightarrow> (Inl (App (start_error why)), db')
              | (Inr (Started v sid _), db') \<Rightarrow> (Inr (v, sid), db')))"

text \<open>The whole request; the outer None is the throw of \<open>dayWith\<close>.\<close>

definition myBreaks_start ::
  "shift_record list \<Rightarrow> assignment_record list \<Rightarrow> (uid \<Rightarrow> shift_person option) \<Rightarrow> uid \<Rightarrow> break_kind \<Rightarrow> string option
   \<Rightarrow> clock_frame \<Rightarrow> zone \<Rightarrow> break_db \<Rightarrow> ((db_error + (break_record_row \<times> uid)) \<times> break_db) option" where
  "myBreaks_start shifts rows persons me kind reason clk tz db =
     (case persons me of
        None \<Rightarrow> Some (Inl (App (NotFoundError ''NOT_FOUND'')), db)
      | Some p \<Rightarrow> map_option (\<lambda>day. start_break p day kind reason clk tz db) (dayFor shifts rows p (clock_now clk) tz))"

section \<open>Quick breaks, pause and resume\<close>

fun refuse :: "move_code \<Rightarrow> app_exception" where
  "refuse MvOnBreak = ConflictError ''ON_BREAK''"
| "refuse MvInMeeting = ConflictError ''IN_MEETING''"
| "refuse MvDayNotStarted = ConflictError ''DAY_NOT_STARTED''"
| "refuse MvDayEnded = ConflictError ''DAY_ENDED''"
| "refuse MvNotActive = ConflictError ''NOT_ACTIVE''"
| "refuse MvNotPausable = ConflictError ''NOT_PAUSABLE''"
| "refuse MvNotPaused = ConflictError ''NOT_PAUSED''"
| "refuse MvResumeWindowClosed = ConflictError ''RESUME_WINDOW_CLOSED''"
| "refuse MvNotFound = NotFoundError ''NOT_FOUND''"

definition moved_or_refused :: "(db_error + move_result) \<times> break_db \<Rightarrow> (db_error + (break_record_row \<times> uid option)) \<times> break_db" where
  "moved_or_refused res =
     (case res of
        (Inl e, db) \<Rightarrow> (Inl e, db)
      | (Inr (MoveRefused code _), db) \<Rightarrow> (Inl (App (refuse code)), db)
      | (Inr (Moved v sid), db) \<Rightarrow> (Inr (v, sid), db))"

text \<open>\<open>day\<close> is the person's break day at \<open>startedAt\<close>.\<close>

definition start_quick_break ::
  "shift_person \<Rightarrow> break_day \<Rightarrow> int \<Rightarrow> int \<Rightarrow> zone \<Rightarrow> (break_record_row \<times> uid option) tx" where
  "start_quick_break p day plannedMin startedAt tz db =
     (if plannedMin < 1 \<or> plannedMin > 60 then (Inl (App (UnprocessableError ''VALIDATION_ERROR'')), db)
      else
        (let shift = rs_shift (bk_resolved day)
         in moved_or_refused (startQuick
              \<lparr>nq_userId = ps_id p, nq_date = bk_dateKey day, nq_plannedMin = plannedMin, nq_startedAt = startedAt,
               nq_calendarDay = dateKeyInZone startedAt tz, nq_shiftId = map_option sr_id shift,
               nq_shiftName = map_option sd_name shift\<rparr> db)))"

definition pause_break :: "uid \<Rightarrow> uid \<Rightarrow> clock_frame \<Rightarrow> (break_record_row \<times> uid option) tx" where
  "pause_break me i clk db = moved_or_refused (pause i me (clock_now clk) db)"

definition resume_break :: "uid \<Rightarrow> uid \<Rightarrow> clock_frame \<Rightarrow> zone \<Rightarrow> (break_record_row \<times> uid option) tx" where
  "resume_break me i clk tz db =
     (let now = clock_now clk in moved_or_refused (resume i me now (dateKeyInZone now tz) db))"

section \<open>Back to work\<close>

record end_request =
  eq_overrunReason :: "string option"
  eq_askToCount :: "bool option"

type_synonym end_result = "bool \<times> break_record_row option"

definition over_time :: "break_record_row \<Rightarrow> int \<Rightarrow> int" where
  "over_time v now =
     (let r = br_data (bv_row v) in
      if nb_kind r = Some Quick \<or> coalesce (nb_durationMin r) 0 = 0 then 0
      else max 0 (takenSecOf v now - coalesce (nb_durationMin r) 0 * 60))"

definition asks_to_count :: "end_request \<Rightarrow> shift_record option \<Rightarrow> int \<Rightarrow> bool" where
  "asks_to_count req shift over =
     (over > coalesce (map_option overrunGraceMin shift) DEFAULT_OVERRUN_GRACE_MIN * 60
      \<and> coalesce (eq_askToCount req) (cleanReason (eq_overrunReason req) \<noteq> None))"

text \<open>The break's record ends once the presence session is closed and the overrun stored.\<close>

definition finish_running :: "break_record_row \<Rightarrow> finish_break \<Rightarrow> clock_frame \<Rightarrow> end_result tx" where
  "finish_running v input clk db =
     (let i = br_id (bv_row v); now = clock_now clk in
      case finishBreak i input now clk db of
        (Inl e, db') \<Rightarrow> (Inl e, db')
      | (Inr None, db') \<Rightarrow> (Inr (True, None), db')
      | (Inr (Some (row, _)), db') \<Rightarrow>
          (case markEnded i now db' of (m, db'') \<Rightarrow> (Inr (True, Some (coalesce m row)), db'')))"

definition finish_plain :: "break_record_row \<Rightarrow> int \<Rightarrow> clock_frame \<Rightarrow> end_result tx" where
  "finish_plain v over clk db =
     (let i = br_id (bv_row v); now = clock_now clk in
      case finishBreak i \<lparr>fb_overrunSec = over, fb_ask = None\<rparr> now clk db of
        (Inl e, db') \<Rightarrow> (Inl e, db')
      | (Inr _, db') \<Rightarrow> (case markEnded i now db' of (m, db'') \<Rightarrow> (Inr (True, m), db'')))"

text \<open>\<open>role\<close> is the caller's, \<open>person\<close> the stored one (\<open>findById\<close>), \<open>shiftOf\<close> the stored shifts.\<close>

definition end_break ::
  "uid \<Rightarrow> role \<Rightarrow> end_request \<Rightarrow> bool \<Rightarrow> (uid \<Rightarrow> shift_record option) \<Rightarrow> shift_person option \<Rightarrow> clock_frame \<Rightarrow> end_result tx" where
  "end_break me role req agent40 shiftOf person clk db =
     (let now = clock_now clk in
      case findOpenForUser db me of
        None \<Rightarrow>
          (case findPausedForUser db me of
             Some paused \<Rightarrow> (case markEnded (br_id (bv_row paused)) now db of (m, db') \<Rightarrow> (Inr (True, m), db'))
           | None \<Rightarrow>
               if on_break (openPresence db me) then (Inr (True, None), snd (endOpenForUser me now db))
               else (Inr (False, None), db))
      | Some v \<Rightarrow>
          (let over = over_time v now; kind = br_kind (bv_row v) in
           if agent40 \<or> kind = Some Quick
           then finish_plain v over clk (snd (endOpenForUser me now db))
           else
             (let reason = cleanReason (eq_overrunReason req);
                  shift = (case nb_shiftId (br_data (bv_row v)) of None \<Rightarrow> None | Some i \<Rightarrow> shiftOf i);
                  minChars = coalesce (map_option reasonMinChars shift) DEFAULT_REASON_MIN_CHARS;
                  asks = asks_to_count req shift over;
                  reviewed = hasReviewer role
              in if asks \<and> eq_askToCount req = Some True \<and> reviewed \<and> text_length reason < minChars
                 then (Inl (App (UnprocessableError ''REASON_REQUIRED'')), db)
                 else
                   (let routing = (if asks \<and> reviewed then
                                     (case person of None \<Rightarrow> None
                                      | Some p \<Rightarrow> (let rt = route (sp_role p) (sp_departmentId p) in
                                          if rd_status rt = Pending then Some (rd_approverRole rt, rd_approverId rt) else None))
                                   else None)
                    in finish_running v \<lparr>fb_overrunSec = over,
                         fb_ask = (if asks then Some \<lparr>ak_reason = reason, ak_routing = routing\<rparr> else None)\<rparr> clk
                         (snd (endOpenForUser me now db))))))"

section \<open>What ending paused breaks leaves alone\<close>

lemma endPausedTx_sel [simp]:
  "db_presence (snd (endPausedTx i now db)) = db_presence db" "db_dayEnds (snd (endPausedTx i now db)) = db_dayEnds db"
  by (auto simp: endPausedTx_def Let_def split: option.split)

lemma end_all_same:
  "db_presence (snd (end_all is now db)) = db_presence db \<and> db_dayEnds (snd (end_all is now db)) = db_dayEnds db"
proof (induction "is" now db rule: end_all.induct)
  case (2 i "is" now db)
  obtain d db1 n db2 where e: "endPausedTx i now db = (d, db1)" "end_all is now db1 = (n, db2)" by fastforce
  have "db_presence db1 = db_presence db" "db_dayEnds db1 = db_dayEnds db" using endPausedTx_sel [of i now db] e by simp_all
  then show ?case using 2 [OF e(1) [symmetric] refl] e by simp
qed simp

lemmas end_all_sel [simp] = end_all_same [THEN conjunct1] end_all_same [THEN conjunct2]

lemma endPaused_sel [simp]:
  "openPresence (snd (endPaused u clk db)) v = openPresence db v" "dayEnded (snd (endPaused u clk db)) v d = dayEnded db v d"
  by (simp_all add: endPaused_def openPresence_def dayEnded_def)

lemma endPaused_ok: "db_ok db \<Longrightarrow> db_ok (snd (endPaused u clk db))"
  by (simp add: endPaused_def end_all_ok)

section \<open>A start follows the schedule\<close>

text \<open>The slot a start is judged against, and what it must satisfy.\<close>

definition may_start :: "shift_person \<Rightarrow> break_day \<Rightarrow> break_kind \<Rightarrow> int \<Rightarrow> new_break_record list \<Rightarrow> shift_record \<Rightarrow> break_slot \<Rightarrow> bool" where
  "may_start p day kind now taken shift slot \<longleftrightarrow>
     rs_shift (bk_resolved day) = Some shift \<and> slot \<in> set (bk_slots day) \<and> sl_kind slot = kind
     \<and> sl_windowOpen slot \<le> now \<and> now < sl_windowClose slot
     \<and> (\<forall>r \<in> set taken. nb_kind r \<noteq> Some kind \<and> \<not> is_later kind r)"

lemma judge_start_accepts:
  assumes "judge_start p day kind reasonText now taken = Inr r"
  shows "\<exists>shift slot. may_start p day kind now taken shift slot
    \<and> (let judged = classifyStart slot now shift; needed = sc_reasonRequired judged \<and> hasReviewer (sp_role p) in
        (needed \<longrightarrow> reasonMinChars shift \<le> text_length (cleanReason reasonText))
        \<and> r = base_record (ps_id p) day shift slot now judged (cleanReason reasonText) SourceAgent
            (if needed then route (sp_role p) (sp_departmentId p) else no_approval) Taken)"
proof -
  obtain shift slot where s: "rs_shift (bk_resolved day) = Some shift" "List.find (\<lambda>s. sl_kind s = kind) (bk_slots day) = Some slot"
    using assms by (auto simp: judge_start_def split: option.splits)
  have "slot \<in> set (bk_slots day) \<and> sl_kind slot = kind" using find_Some_set [OF s(2)] by simp
  moreover have "sl_windowOpen slot \<le> now \<and> now < sl_windowClose slot"
    using assms s by (auto simp: judge_start_def Let_def phaseAt_def split: if_splits)
  ultimately show ?thesis
    using assms s by (intro exI [of _ shift] exI [of _ slot])
      (auto simp: judge_start_def may_start_def Let_def not_less split: if_splits)
qed

lemma base_record_sel [simp]:
  "nb_userId (base_record u day s sl at j re src rt oc) = u" "nb_date (base_record u day s sl at j re src rt oc) = bk_dateKey day"
  "nb_kind (base_record u day s sl at j re src rt oc) = Some (sl_kind sl)"
  "nb_presenceType (base_record u day s sl at j re src rt oc) = sl_presenceType sl"
  "nb_approvalStatus (base_record u day s sl at j re src rt oc) = rd_status rt"
  "nb_reason (base_record u day s sl at j re src rt oc) = re" "nb_timing (base_record u day s sl at j re src rt oc) = sc_timing j"
  "nb_startedAt (base_record u day s sl at j re src rt oc) = at" "nb_outcome (base_record u day s sl at j re src rt oc) = oc"
  "nb_windowClose (base_record u day s sl at j re src rt oc) = Some (sl_windowClose sl)"
  "nb_scheduledStart (base_record u day s sl at j re src rt oc) = Some (sl_scheduledStart sl)"
  by (simp_all add: base_record_def)

text \<open>The slots of a break day are scheduled kinds, of the shift's own breaks.\<close>

definition day_ok :: "break_day \<Rightarrow> bool" where
  "day_ok day \<longleftrightarrow> (\<forall>s \<in> set (bk_slots day). sl_kind s \<noteq> Quick)"

lemma breakSlots_kind: "s \<in> set (breakSlots def k tz) \<Longrightarrow> sl_kind s \<in> set BREAK_KINDS"
  by (auto simp: breakSlots_def slot_of_def map_filter_def Let_def split: option.splits)

lemma forDate_ok: "day_ok (forDate resolved k tz)"
  using breakSlots_kind by (fastforce simp: day_ok_def forDate_def Let_def BREAK_KINDS_def split: option.splits if_splits)

lemma dayWith_ok: "dayWith ctx p now tz = Some day \<Longrightarrow> day_ok day"
  by (auto simp: dayWith_def Let_def forDate_ok split: option.splits if_splits)

text \<open>C2: a break that starts follows its schedule. Its day's shift has an enabled break of that kind whose
  window contains the moment; no other record of the kind and no later scheduled break is on the day
  (only an auto-skip that still gives way); the day was not ended and the person was on no break. When
  the start is off schedule for someone whose breaks are reviewed, the record carries a reason of the
  shift's length and waits for the role the routing names; otherwise it needs no approval. It is then the
  person's only open presence, of the break's type.\<close>

theorem started_break_follows_the_schedule:
  assumes "reachable db" "dayWith ctx p (clock_now clk) tz = Some day"
    and "start_break p day kind reasonText clk tz db = (Inr (v, sid), db')"
  shows "\<exists>shift slot. let now = clock_now clk; u = ps_id p; r = br_data (bv_row v);
        taken = filter (not_replaceable kind now) (day_records db u (bk_dateKey day));
        needed = sc_reasonRequired (classifyStart slot now shift) \<and> hasReviewer (sp_role p) in
      may_start p day kind now taken shift slot
      \<and> r = base_record u day shift slot now (classifyStart slot now shift) (cleanReason reasonText) SourceAgent
          (if needed then route (sp_role p) (sp_departmentId p) else no_approval) Taken
      \<and> (needed \<longrightarrow> nb_approvalStatus r = Pending \<and> reasonMinChars shift \<le> text_length (nb_reason r))
      \<and> (\<not> needed \<longrightarrow> nb_approvalStatus r = NotRequired)
      \<and> \<not> dayEnded db u (dateKeyInZone now tz) \<and> \<not> on_break (openPresence db u)
      \<and> map_option ss_id (openPresence db' u) = Some sid \<and> running db' (bv_row v) \<and> bv_row v \<in> set (db_breaks db')"
proof -
  let ?now = "clock_now clk" and ?u = "ps_id p"
  let ?taken = "filter (not_replaceable kind ?now) (day_records db ?u (bk_dateKey day))"
  let ?db = "snd (endPaused ?u clk db)"
  obtain r where j: "judge_start p day kind reasonText ?now ?taken = Inr r"
    using assms(3) by (auto simp: start_break_def Let_def split: sum.splits)
  obtain c where s: "startScheduled r (dateKeyInZone ?now tz) ?now clk ?db = (Inr (Started v sid c), db')"
    using assms(3) j by (auto simp: start_break_def Let_def split: prod.splits sum.splits start_outcome.splits)
  obtain shift slot where m: "may_start p day kind ?now ?taken shift slot"
    and need: "sc_reasonRequired (classifyStart slot ?now shift) \<and> hasReviewer (sp_role p)
        \<longrightarrow> reasonMinChars shift \<le> text_length (cleanReason reasonText)"
    and r: "r = base_record ?u day shift slot ?now (classifyStart slot ?now shift) (cleanReason reasonText) SourceAgent
        (if sc_reasonRequired (classifyStart slot ?now shift) \<and> hasReviewer (sp_role p)
         then route (sp_role p) (sp_departmentId p) else no_approval) Taken"
    using judge_start_accepts [OF j] unfolding Let_def by blast
  have "sl_kind slot \<noteq> Quick" using m dayWith_ok [OF assms(2)] by (auto simp: may_start_def day_ok_def)
  then have k: "nb_kind r \<noteq> Some Quick" by (simp add: r)
  note st = startScheduled_started [OF endPaused_ok [OF reachable_ok [OF assms(1)]] k s]
  have u: "nb_userId r = ?u" by (simp add: r)
  have status: "rd_status (route (sp_role p) (sp_departmentId p)) = Pending" if "hasReviewer (sp_role p)"
    using that by (auto simp: route_def hasReviewer_def)
  show ?thesis
    unfolding Let_def
  proof (intro exI [of _ shift] exI [of _ slot] conjI)
    show "may_start p day kind ?now ?taken shift slot" by (rule m)
  qed (use st u need status in \<open>auto simp: r no_approval_def\<close>)
qed

section \<open>A Friday at eleven\<close>

definition sample_record :: shift_record where
  "sample_record = shift_definition.extend sample_shift
     \<lparr>sr_id = 5, sr_companyId = None, sr_isDefault = True, sr_createdAt = 0\<rparr>"

definition sample_person :: shift_person where
  "sample_person = \<lparr>ps_id = 1, ps_companyId = None, ps_department = None, sp_role = USER, sp_departmentId = None, sp_active = True\<rparr>"

definition sample_ctx :: resolution_context where
  "sample_ctx = resolution_ctx [sample_record] [] [1]"

definition friday_eleven :: int where
  "friday_eleven = 20511 * msPerDay + 330 * 60000"

definition friday_clock :: clock_frame where
  "friday_clock = \<lparr>cf_eventAt = None, cf_wall = friday_eleven\<rparr>"

lemma friday_year: "1000 \<le> utc_year 20511" "utc_year 20511 \<le> 9999" by code_simp+

lemma key_friday: "key_of_day 20511 = ''2026-02-27''" by code_simp

lemma friday_parts: "zonedParts friday_eleven (fixed_zone 330) = \<lparr>zp_year = utc_year 20511, zp_month = utc_month 20511, zp_day = utc_date 20511,
    zp_hour = 11, zp_minute = 0, zp_second = 0\<rparr>"
  using shift_day_minutes [of friday_eleven "fixed_zone 330" 20511 39600000] by (simp add: friday_eleven_def msPerDay_def fixed_zone_def)

lemma shift_times: "clockOf ''09:30'' ''18:30'' = Some \<lparr>ck_startMin = 570, ck_endMin = 1110, ck_overnight = False\<rparr>"
  "hmToMinutes ''11:00'' = Some 660" "hmToMinutes ''13:30'' = Some 810"
  by code_simp+

lemma friday: "dateKeyInZone friday_eleven (fixed_zone 330) = key_of_day 20511"
  "shiftDayKey ''09:30'' ''18:30'' friday_eleven (fixed_zone 330) = Some (key_of_day 20511)"
  "isWorkDay [1, 2, 3, 4, 5] (key_of_day 20511)"
  using friday_year valid_day_of_year [of 20511] by (simp_all add: dateKeyInZone_def shiftDayKey_def friday_parts shift_times key_of_day_def [symmetric] Let_def isWorkDay_def isoWeekdayOfKey_day)

definition sample_slots :: "break_slot list" where
  "sample_slots =
     [\<lparr>sl_kind = Morning, sl_presenceType = PBreak, sl_durationMin = 20, sl_scheduledStart = friday_eleven,
       sl_scheduledEnd = friday_eleven + 1200000, sl_windowOpen = friday_eleven - 1800000,
       sl_windowClose = friday_eleven + 3600000, sl_ringStart = friday_eleven - 60000,
       sl_ringEnd = friday_eleven + 240000, sl_allowSkip = True\<rparr>,
      \<lparr>sl_kind = Lunch, sl_presenceType = PLunch, sl_durationMin = 40, sl_scheduledStart = friday_eleven + 9000000,
       sl_scheduledEnd = friday_eleven + 11400000, sl_windowOpen = friday_eleven + 7200000,
       sl_windowClose = friday_eleven + 12600000, sl_ringStart = friday_eleven + 8940000,
       sl_ringEnd = friday_eleven + 9240000, sl_allowSkip = False\<rparr>]"

lemma slots_friday: "breakSlots sample_shift (key_of_day 20511) (fixed_zone 330) = sample_slots"
proof -
  have z: "fixed_zone 330 0 = 19800000" by (simp add: fixed_zone_def)
  show ?thesis
    by (simp add: breakSlots_def sample_shift_def BREAK_KINDS_def List.map_filter_def enabled_break_def slot_of_def
        shift_times shiftMinutes_def at_fixed [OF friday_year(1)] Let_def msPerDay_def z sample_slots_def friday_eleven_def
        breakAllowsSkip_def BREAK_PRESENCE_TYPE_def defaultAllowSkip_def)
qed

definition friday_day :: break_day where
  "friday_day = \<lparr>bk_dateKey = ''2026-02-27'',
     bk_resolved = \<lparr>rs_shift = Some sample_record, rs_source = DEFAULT, rs_assignment = None\<rparr>,
     bk_workday = True, bk_slots = sample_slots\<rparr>"

lemma dayWith_friday: "dayWith sample_ctx sample_person (clock_now friday_clock) (fixed_zone 330) = Some friday_day"
proof -
  have now: "clock_now friday_clock = friday_eleven" by (simp add: friday_clock_def clock_now_def coalesce_def)
  have sh: "sd_start sample_record = ''09:30''" "sd_end sample_record = ''18:30''" "sd_workDays sample_record = [1, 2, 3, 4, 5]"
    "definition_of sample_record = sample_shift"
    by (simp_all add: sample_record_def sample_shift_def shift_definition.defs definition_of_def)
  have dk: "departmentKey None = None" by code_simp
  have r: "resolveWith sample_ctx sample_person k = \<lparr>rs_shift = Some sample_record, rs_source = DEFAULT, rs_assignment = None\<rparr>" for k
    by (simp add: resolveWith_def sample_ctx_def resolution_ctx_def resolveShift_def top_shift_def company_default_def
        sample_person_def person_for_shift.defs dk sample_record_def shift_definition.defs sample_shift_def)
  show ?thesis
    by (simp add: dayWith_def now Let_def r sh friday forDate_def slots_friday friday_day_def key_friday [symmetric])
qed

definition started_friday where
  "started_friday = start_break sample_person friday_day Morning None friday_clock (fixed_zone 330) working_db"

lemma started_friday: "\<exists>v db'. started_friday = (Inr (v, 0), db')"
proof -
  let ?r = "base_record 1 friday_day sample_record (hd sample_slots) friday_eleven
    (classifyStart (hd sample_slots) friday_eleven sample_record) None SourceAgent no_approval Taken"
  have now: "clock_now friday_clock = friday_eleven" by (simp add: friday_clock_def clock_now_def coalesce_def)
  have p: "snd (endPaused 1 friday_clock working_db) = working_db" "day_records working_db 1 d = []" for d
    by (simp_all add: endPaused_def working_db_def empty_db_def day_records_def)
  have j: "judge_start sample_person friday_day Morning None friday_eleven [] = Inr ?r" by code_simp
  have "case fst (startScheduled ?r ''2026-02-27'' friday_eleven friday_clock working_db) of
      Inr (Started v sid c) \<Rightarrow> sid = 0 | _ \<Rightarrow> False" by code_simp
  then show ?thesis
    using j p by (auto simp: started_friday_def start_break_def now friday(1) key_friday sample_person_def Let_def
        split: prod.splits sum.splits start_outcome.splits)
qed

theorem started_break_follows_the_schedule_witness:
  "\<exists>v db'. started_friday = (Inr (v, 0), db') \<and> map_option ss_id (openPresence db' 1) = Some 0"
proof -
  obtain v db' where s: "started_friday = (Inr (v, 0), db')" using started_friday by blast
  from started_break_follows_the_schedule [OF working_db_reachable dayWith_friday s [unfolded started_friday_def]]
  have "map_option ss_id (openPresence db' (ps_id sample_person)) = Some 0" by (auto simp: Let_def)
  then show ?thesis using s by (intro exI [of _ v] exI [of _ db']) (simp add: sample_person_def)
qed

section \<open>A refused start\<close>

text \<open>A paused break ends when another one starts, but also when that start is then refused: the end of the
  paused break is committed on its own.\<close>

lemma refused_start_ends_the_paused_break:
  assumes "judge_start p day kind reasonText (clock_now clk)
      (filter (not_replaceable kind (clock_now clk)) (day_records db (ps_id p) (bk_dateKey day))) = Inr r"
    and "startScheduled r (dateKeyInZone (clock_now clk) tz) (clock_now clk) clk (snd (endPaused (ps_id p) clk db))
      = (Inr (StartRefused why), snd (endPaused (ps_id p) clk db))"
  shows "start_break p day kind reasonText clk tz db = (Inl (App (start_error why)), snd (endPaused (ps_id p) clk db))"
  using assms by (simp add: start_break_def Let_def)

section \<open>Back to work\<close>


lemma openPresence_update [simp]: "openPresence (update_break i f db) u = openPresence db u"
  by (simp add: openPresence_def)








lemma finish_error:
  "finish_running v input clk db = (Inl e, db') \<Longrightarrow> e = App (ConflictError ''MONTH_LOCKED'') \<and> db' = db"
  "finish_plain v over clk db = (Inl e, db') \<Longrightarrow> e = App (ConflictError ''MONTH_LOCKED'') \<and> db' = db"
  by (auto simp: finish_running_def finish_plain_def finishBreak_def Let_def split: prod.splits sum.splits option.splits if_splits)

lemma end_break_running:
  assumes "findOpenForUser db me = Some v" "end_break me role req agent40 shiftOf person clk db = (res, db')"
  obtains (refused) "res = Inl (App (UnprocessableError ''REASON_REQUIRED''))" "db' = db" "eq_askToCount req = Some True"
      "\<not> agent40" "hasReviewer role"
    | (plain) over where "finish_plain v over clk (snd (endOpenForUser me (clock_now clk) db)) = (res, db')"
    | (running) input where "finish_running v input clk (snd (endOpenForUser me (clock_now clk) db)) = (res, db')"
proof (cases "agent40 \<or> br_kind (bv_row v) = Some Quick")
  case True
  then have "finish_plain v (over_time v (clock_now clk)) clk (snd (endOpenForUser me (clock_now clk) db)) = (res, db')"
    using assms by (simp add: end_break_def Let_def)
  then show ?thesis by (rule plain)
next
  case False
  let ?shift = "case nb_shiftId (br_data (bv_row v)) of None \<Rightarrow> None | Some i \<Rightarrow> shiftOf i"
  let ?asks = "asks_to_count req ?shift (over_time v (clock_now clk))"
  let ?short = "?asks \<and> eq_askToCount req = Some True \<and> hasReviewer role
    \<and> text_length (cleanReason (eq_overrunReason req)) < coalesce (map_option reasonMinChars ?shift) DEFAULT_REASON_MIN_CHARS"
  show ?thesis
  proof (cases ?short)
    case True
    then show ?thesis using assms False by (intro refused) (simp_all add: end_break_def Let_def)
  next
    case short: False
    show ?thesis
      using assms(2) unfolding end_break_def Let_def assms(1) option.case if_not_P [OF False] if_not_P [OF short]
      by (rule running)
  qed
qed


lemma end_open_locks [simp]: "isMonthLocked (snd (endOpenForUser me t db)) d u = isMonthLocked db d u"
  by (auto simp: endOpenForUser_db end_open_def isMonthLocked_def split: option.split)





text \<open>When a payroll month was locked meanwhile, the answer is the lock's error, but the presence session has been
  closed already and its record is never ended by a retry.\<close>

lemma locked_month_closes_the_session_only:
  assumes "findOpenForUser db me = Some v" "end_break me role req agent40 shiftOf person clk db = (Inl (App (ConflictError ''MONTH_LOCKED'')), db')"
  shows "db' = end_open me (clock_now clk) db"
proof -
  show ?thesis
    by (cases rule: end_break_running [OF assms]) (auto simp: endOpenForUser_db dest: finish_error)
qed

text \<open>A paused break hides a plain one: the first "back to work" ends the paused record and leaves the person on
  the break.\<close>

lemma paused_break_hides_a_plain_one:
  assumes "findOpenForUser db me = None" "findPausedForUser db me = Some v"
  shows "end_break me role req agent40 shiftOf person clk db
    = (Inr (True, fst (markEnded (br_id (bv_row v)) (clock_now clk) db)), snd (markEnded (br_id (bv_row v)) (clock_now clk) db))"
  using assms by (simp add: end_break_def Let_def case_prod_unfold)

end
