(* ===== verification/Idle_Settings.thy ===== *)
theory Idle_Settings
  imports Settings
begin

text \<open>
  Input (away) tracking settings: the rules of \<open>src/src/modules/settings/domain/idle.rules.ts\<close> (what is
  read from the stored row, a person's effective setting, edits of the reasons and of a department's
  override) and the service of \<open>application/idle-settings.service.ts\<close>, whose writes of an organisation
  run one after another. \<open>String.normalize('NFKD')\<close> is a parameter \<open>nfkd\<close>: only the ASCII letters,
  digits, dashes and white space of its result are used. A field of a request that has another type
  than the code asks for is \<open>None\<close>. The event that tells the agents is left out.
\<close>

section \<open>Reasons\<close>

datatype away_kind = BreakReason | Thinking | ShortMeeting | Hardware | OtherWork | CustomReason

fun kind_name :: "away_kind \<Rightarrow> string" where
  "kind_name BreakReason = ''BREAK''"
| "kind_name Thinking = ''THINKING''"
| "kind_name ShortMeeting = ''MEETING''"
| "kind_name Hardware = ''HARDWARE''"
| "kind_name OtherWork = ''OTHER''"
| "kind_name CustomReason = ''CUSTOM''"

record away_reason =
  aw_key :: string
  aw_label :: string
  aw_kind :: away_kind
  aw_builtIn :: bool

record department_idle =
  di_enabled :: "bool option"
  di_minutes :: "int option"
  di_reasonKeys :: "string list option"

record org_idle =
  oi_defaultEnabled :: bool
  oi_defaultMinutes :: int
  oi_reasons :: "away_reason list"
  oi_departments :: "(string \<times> department_idle) list"

fun REASON_FIELDS :: "away_kind \<Rightarrow> string list" where
  "REASON_FIELDS BreakReason = []"
| "REASON_FIELDS Thinking = [''comment'']"
| "REASON_FIELDS ShortMeeting = [''participants'', ''comment'', ''momSender'']"
| "REASON_FIELDS Hardware = [''comment'']"
| "REASON_FIELDS OtherWork = [''comment'']"
| "REASON_FIELDS CustomReason = [''comment'']"

definition built_in :: "string \<Rightarrow> away_kind \<Rightarrow> away_reason" where
  "built_in label kind = \<lparr>aw_key = kind_name kind, aw_label = label, aw_kind = kind, aw_builtIn = True\<rparr>"

definition custom_reason :: "string \<Rightarrow> string \<Rightarrow> away_reason" where
  "custom_reason key label = \<lparr>aw_key = key, aw_label = label, aw_kind = CustomReason, aw_builtIn = False\<rparr>"

definition BUILT_IN_REASONS :: "away_reason list" where
  "BUILT_IN_REASONS =
     [built_in ''Took a break'' BreakReason, built_in ''Thinking'' Thinking, built_in ''Short meeting'' ShortMeeting,
      built_in ''Working on hardware'' Hardware, built_in ''Other work'' OtherWork]"

definition DEFAULT_REASON_KEYS :: "string list" where
  "DEFAULT_REASON_KEYS = [''BREAK'', ''THINKING'', ''MEETING'', ''OTHER'']"

definition IDLE_MINUTES :: "int \<times> int" where "IDLE_MINUTES = (2, 60)"

definition IDLE_DEFAULT_MINUTES :: int where "IDLE_DEFAULT_MINUTES = 5"

definition REASON_LABEL :: "nat \<times> nat" where "REASON_LABEL = (2, 40)"

definition MAX_CUSTOM_REASONS :: nat where "MAX_CUSTOM_REASONS = 20"

definition is_letter :: "char \<Rightarrow> bool" where
  "is_letter c = (let n = of_char c :: nat in (65 \<le> n \<and> n \<le> 90) \<or> (97 \<le> n \<and> n \<le> 122))"

definition is_dash :: "char \<Rightarrow> bool" where
  "is_dash c = (c = CHR ''_'' \<or> c = CHR ''-'')"

definition key_rest :: "string \<Rightarrow> bool" where
  "key_rest r = (1 \<le> length r \<and> length r \<le> 40 \<and> list_all (\<lambda>c. is_letter c \<or> is_digit c \<or> is_dash c) r)"

text \<open>\<open>/^(C|CUSTOM)_[A-Za-z0-9_-]{1,40}$/\<close>.\<close>

definition CUSTOM_KEY :: "string \<Rightarrow> bool" where
  "CUSTOM_KEY k = ((take 2 k = ''C_'' \<and> key_rest (drop 2 k)) \<or> (take 7 k = ''CUSTOM_'' \<and> key_rest (drop 7 k)))"

section \<open>What is stored\<close>

definition validMinutes :: "json \<Rightarrow> bool" where
  "validMinutes v = within IDLE_MINUTES v"

definition minutes_of :: "json option \<Rightarrow> int option" where
  "minutes_of v = (case v of Some (JInt n) \<Rightarrow> if validMinutes (JInt n) then Some n else None | _ \<Rightarrow> None)"

definition bool_of :: "json option \<Rightarrow> bool option" where
  "bool_of v = (case v of Some (JBool b) \<Rightarrow> Some b | _ \<Rightarrow> None)"

text \<open>A label as stored: trimmed, inner white space collapsed.\<close>

definition normaliseReasonLabel :: "string \<Rightarrow> string" where
  "normaliseReasonLabel v = collapse_spaces (trim v)"

definition label_ok :: "string \<Rightarrow> bool" where
  "label_ok t = (fst REASON_LABEL \<le> length t \<and> length t \<le> snd REASON_LABEL)"

definition cleanLabel :: "json option \<Rightarrow> string option" where
  "cleanLabel v =
     (case v of Some (JString t) \<Rightarrow> if label_ok (normaliseReasonLabel t) then Some (normaliseReasonLabel t) else None
      | _ \<Rightarrow> None)"

definition list_of :: "json option \<Rightarrow> json list" where
  "list_of v = (case v of Some (JArray l) \<Rightarrow> l | _ \<Rightarrow> [])"

definition stored_field :: "string \<Rightarrow> json \<Rightarrow> json option" where
  "stored_field name r = (case r of JObject obj \<Rightarrow> map_of obj name | _ \<Rightarrow> None)"

definition stored_key :: "json \<Rightarrow> string option" where
  "stored_key r = (case stored_field ''key'' r of Some (JString k) \<Rightarrow> Some k | _ \<Rightarrow> None)"

text \<open>\<open>byKey.get(key)\<close>: of several entries with one key the last is kept.\<close>

definition by_key :: "json list \<Rightarrow> string \<Rightarrow> json option" where
  "by_key l key = List.find (\<lambda>r. stored_key r = Some key) (rev l)"

definition stored_label :: "json list \<Rightarrow> away_reason \<Rightarrow> away_reason" where
  "stored_label l b =
     b\<lparr>aw_label := coalesce (cleanLabel (case by_key l (aw_key b) of None \<Rightarrow> None | Some r \<Rightarrow> stored_field ''label'' r)) (aw_label b)\<rparr>"

definition is_built_in :: "string \<Rightarrow> bool" where
  "is_built_in k = (k \<in> aw_key ` set BUILT_IN_REASONS)"

fun read_customs :: "json list \<Rightarrow> away_reason list \<Rightarrow> away_reason list" where
  "read_customs [] out = out"
| "read_customs (r # rs) out =
     (case stored_key r of
        None \<Rightarrow> read_customs rs out
      | Some k \<Rightarrow>
          if is_built_in k \<or> \<not> CUSTOM_KEY k then read_customs rs out
          else (case cleanLabel (stored_field ''label'' r) of
                  None \<Rightarrow> read_customs rs out
                | Some label \<Rightarrow>
                    if k \<in> aw_key ` set out then read_customs rs out
                    else (let out' = out @ [custom_reason k label] in
                          if length out' \<ge> length BUILT_IN_REASONS + MAX_CUSTOM_REASONS then out' else read_customs rs out')))"

definition reasonsFromStored :: "json option \<Rightarrow> away_reason list" where
  "reasonsFromStored stored = (let l = list_of stored in read_customs l (map (stored_label l) BUILT_IN_REASONS))"

fun string_in :: "string list \<Rightarrow> json \<Rightarrow> string option" where
  "string_in known (JString k) = (if k \<in> set known then Some k else None)"
| "string_in known _ = None"

definition department_from :: "string list \<Rightarrow> json \<Rightarrow> department_idle" where
  "department_from known v =
     \<lparr>di_enabled = bool_of (stored_field ''enabled'' v), di_minutes = minutes_of (stored_field ''minutes'' v),
      di_reasonKeys = (case stored_field ''reasonKeys'' v of Some (JArray l) \<Rightarrow> Some (List.map_filter (string_in known) l) | _ \<Rightarrow> None)\<rparr>"

fun is_object :: "json \<Rightarrow> bool" where
  "is_object (JObject _) = True"
| "is_object _ = False"

text \<open>An object has one entry per key (\<open>clearjunk\<close>).\<close>

definition idleFromStored :: "raw \<Rightarrow> org_idle" where
  "idleFromStored raw =
     (let reasons = reasonsFromStored (map_of raw ''idleReasons''); known = map aw_key reasons in
      \<lparr>oi_defaultEnabled = coalesce (bool_of (map_of raw ''idleDefaultEnabled'')) False,
       oi_defaultMinutes = coalesce (minutes_of (map_of raw ''idleDefaultMinutes'')) IDLE_DEFAULT_MINUTES,
       oi_reasons = reasons,
       oi_departments = map (\<lambda>(i, v). (i, department_from known v))
         (filter (\<lambda>(i, v). is_object v) (AList.clearjunk (asObject (map_of raw ''departmentIdle''))))\<rparr>)"

section \<open>A person's effective setting\<close>

record offered_reason =
  or_key :: string
  or_label :: string
  or_kind :: away_kind
  or_fields :: "string list"

record effective_idle =
  ei_enabled :: bool
  ei_minutes :: int
  ei_reasons :: "offered_reason list"

definition effectiveIdle :: "org_idle \<Rightarrow> string option \<Rightarrow> bool option \<Rightarrow> int option \<Rightarrow> effective_idle" where
  "effectiveIdle org departmentId idleEnabled idleMinutes =
     (let dept = (case departmentId of None \<Rightarrow> None | Some d \<Rightarrow> if d \<noteq> [] then map_of (oi_departments org) d else None);
          keys = insert ''BREAK'' (set (coalesce (Option.bind dept di_reasonKeys) DEFAULT_REASON_KEYS))
      in \<lparr>ei_enabled = coalesce idleEnabled (coalesce (Option.bind dept di_enabled) (oi_defaultEnabled org)),
          ei_minutes = coalesce idleMinutes (coalesce (Option.bind dept di_minutes) (oi_defaultMinutes org)),
          ei_reasons = map (\<lambda>r. \<lparr>or_key = aw_key r, or_label = aw_label r, or_kind = aw_kind r, or_fields = REASON_FIELDS (aw_kind r)\<rparr>)
            (filter (\<lambda>r. aw_key r \<in> keys) (oi_reasons org))\<rparr>)"

section \<open>New keys\<close>

fun upcase_char :: "char \<Rightarrow> char" where
  "upcase_char c = (let n = of_char c :: nat in if 97 \<le> n \<and> n \<le> 122 then char_of (n - 32) else c)"

definition to_upper :: "string \<Rightarrow> string" where
  "to_upper s = map upcase_char s"

definition is_gap :: "char \<Rightarrow> bool" where
  "is_gap c = (is_space c \<or> is_dash c)"

text \<open>\<open>replace(/[\s_-]+/g, '_')\<close>.\<close>

fun join_gaps :: "bool \<Rightarrow> string \<Rightarrow> string" where
  "join_gaps _ [] = []"
| "join_gaps in_run (c # cs) =
     (if is_gap c then (if in_run then join_gaps True cs else CHR ''_'' # join_gaps True cs)
      else c # join_gaps False cs)"

text \<open>\<open>replace(/^_+|_+$/g, '')\<close>.\<close>

definition strip_underscores :: "string \<Rightarrow> string" where
  "strip_underscores s = rev (dropWhile (\<lambda>c. c = CHR ''_'') (rev (dropWhile (\<lambda>c. c = CHR ''_'') s)))"

definition key_slug :: "(string \<Rightarrow> string) \<Rightarrow> string \<Rightarrow> string" where
  "key_slug nfkd label =
     take 32 (to_upper (strip_underscores (join_gaps False (trim
       (filter (\<lambda>c. is_letter c \<or> is_digit c \<or> is_gap c) (nfkd (normaliseReasonLabel label)))))))"

definition key_base :: "(string \<Rightarrow> string) \<Rightarrow> string \<Rightarrow> string" where
  "key_base nfkd label = ''C_'' @ (if key_slug nfkd label \<noteq> [] then key_slug nfkd label else ''REASON'')"

definition numbered_key :: "string \<Rightarrow> nat \<Rightarrow> string" where
  "numbered_key base n = base @ ''_'' @ show_nat n"

lemma numbered_key_inj [simp]: "numbered_key base m = numbered_key base n \<longleftrightarrow> m = n"
  by (simp add: numbered_key_def show_nat_inj)

text \<open>The loop \<open>for (let n = 2; ; n++)\<close> has no bound of its own: it ends because every number tried is
  a key that is taken.\<close>

function free_key :: "string \<Rightarrow> string list \<Rightarrow> nat \<Rightarrow> string" where
  "free_key base taken n =
     (if numbered_key base n \<notin> set taken then numbered_key base n else free_key base taken (Suc n))"
  by pat_completeness auto

definition tries_left :: "string \<Rightarrow> string list \<Rightarrow> nat \<Rightarrow> nat" where
  "tries_left base taken n = card {k \<in> set taken. \<exists>m \<ge> n. k = numbered_key base m}"

lemma tries_left_Suc:
  assumes "numbered_key base n \<in> set taken"
  shows "tries_left base taken (Suc n) < tries_left base taken n"
proof -
  let ?left = "\<lambda>n. {k \<in> set taken. \<exists>m \<ge> n. k = numbered_key base m}"
  have "?left (Suc n) \<subseteq> ?left n" by (auto dest: Suc_leD)
  moreover have "numbered_key base n \<in> ?left n" using assms by blast
  moreover have "numbered_key base n \<notin> ?left (Suc n)" by auto
  ultimately have "?left (Suc n) \<subset> ?left n" by blast
  then show ?thesis unfolding tries_left_def by (intro psubset_card_mono) simp_all
qed

termination free_key
  by (relation "measure (\<lambda>(base, taken, n). tries_left base taken n)") (simp_all add: tries_left_Suc)

declare free_key.simps [simp del]

definition customReasonKey :: "(string \<Rightarrow> string) \<Rightarrow> string \<Rightarrow> string list \<Rightarrow> string" where
  "customReasonKey nfkd label taken =
     (let base = key_base nfkd label in if base \<notin> set taken then base else free_key base taken 2)"

section \<open>Editing the reasons\<close>

record reason_input =
  ri_key :: "string option"
  ri_label :: "string option"

text \<open>A refusal: its code and field.\<close>

type_synonym idle_problem = "string \<times> string"

record reasons_read =
  ra_keys :: "string list"
  ra_labels :: "string list"
  ra_builtIns :: "(string \<times> away_reason) list"
  ra_customs :: "away_reason list"
  ra_new :: "string list"

definition input_key :: "reason_input \<Rightarrow> string option" where
  "input_key i = (case ri_key i of Some k \<Rightarrow> if trim k \<noteq> [] then Some (trim k) else None | None \<Rightarrow> None)"

definition reason_field :: "nat \<Rightarrow> string \<Rightarrow> string" where
  "reason_field i name = ''reasons['' @ show_nat i @ ''].'' @ name"

text \<open>\<open>known.get(key)\<close>, the last reason of the key.\<close>

definition known_reason :: "away_reason list \<Rightarrow> string \<Rightarrow> away_reason option" where
  "known_reason current k = List.find (\<lambda>r. aw_key r = k) (rev current)"

fun take_reason :: "away_reason list \<Rightarrow> nat \<Rightarrow> reason_input \<Rightarrow> reasons_read \<Rightarrow> idle_problem + reasons_read" where
  "take_reason current i item a =
     (let label = normaliseReasonLabel (coalesce (ri_label item) []) in
      if \<not> label_ok label then Inl (''REASON_LABEL'', reason_field i ''label'')
      else if to_lower label \<in> set (ra_labels a) then Inl (''REASON_DUPLICATE'', reason_field i ''label'')
      else
        (let a = a\<lparr>ra_labels := ra_labels a @ [to_lower label]\<rparr> in
         case input_key item of
           None \<Rightarrow> Inr (a\<lparr>ra_new := ra_new a @ [label]\<rparr>)
         | Some key \<Rightarrow>
             if key \<in> set (ra_keys a) then Inl (''REASON_DUPLICATE'', reason_field i ''key'')
             else
               (let a = a\<lparr>ra_keys := ra_keys a @ [key]\<rparr> in
                case List.find (\<lambda>b. aw_key b = key) BUILT_IN_REASONS of
                  Some b \<Rightarrow> Inr (a\<lparr>ra_builtIns := AList.update key (b\<lparr>aw_label := label\<rparr>) (ra_builtIns a)\<rparr>)
                | None \<Rightarrow>
                    (case known_reason current key of
                       None \<Rightarrow>
                         if \<not> CUSTOM_KEY key then Inl (''REASON_UNKNOWN'', reason_field i ''key'')
                         else Inr (a\<lparr>ra_customs := ra_customs a @ [custom_reason key label]\<rparr>)
                     | Some existing \<Rightarrow>
                         if aw_builtIn existing then Inl (''REASON_UNKNOWN'', reason_field i ''key'')
                         else Inr (a\<lparr>ra_customs := ra_customs a @ [custom_reason key label]\<rparr>)))))"

fun take_reasons :: "away_reason list \<Rightarrow> nat \<Rightarrow> reason_input list \<Rightarrow> reasons_read \<Rightarrow> idle_problem + reasons_read" where
  "take_reasons current i [] a = Inr a"
| "take_reasons current i (item # items) a =
     (case take_reason current i item a of Inl p \<Rightarrow> Inl p | Inr a' \<Rightarrow> take_reasons current (Suc i) items a')"

fun name_new :: "(string \<Rightarrow> string) \<Rightarrow> string list \<Rightarrow> string list \<Rightarrow> away_reason list" where
  "name_new nfkd taken [] = []"
| "name_new nfkd taken (label # labels) =
     (let key = customReasonKey nfkd label taken in custom_reason key label # name_new nfkd (taken @ [key]) labels)"

definition applyReasonsUpdate :: "(string \<Rightarrow> string) \<Rightarrow> away_reason list \<Rightarrow> reason_input list \<Rightarrow> idle_problem + away_reason list" where
  "applyReasonsUpdate nfkd current incoming =
     (case take_reasons current 0 incoming \<lparr>ra_keys = [], ra_labels = [], ra_builtIns = [], ra_customs = [], ra_new = []\<rparr> of
        Inl p \<Rightarrow> Inl p
      | Inr a \<Rightarrow>
          if filter (\<lambda>b. map_of (ra_builtIns a) (aw_key b) = None) BUILT_IN_REASONS \<noteq> []
          then Inl (''REASON_BUILT_IN'', ''reasons'')
          else if length (ra_customs a) + length (ra_new a) > MAX_CUSTOM_REASONS then Inl (''TOO_MANY_REASONS'', ''reasons'')
          else Inr (map (\<lambda>b. the (map_of (ra_builtIns a) (aw_key b))) BUILT_IN_REASONS
                    @ ra_customs a @ name_new nfkd (map aw_key current @ ra_keys a) (ra_new a)))"

section \<open>A department's override\<close>

definition MAX_DEPARTMENT_REASON_KEYS :: nat where "MAX_DEPARTMENT_REASON_KEYS = 25"

record department_input =
  dn_enabled :: "json option"
  dn_minutes :: "json option"
  dn_reasonKeys :: "json option"

text \<open>\<open>v ?? null\<close>.\<close>

definition or_null :: "json option \<Rightarrow> json option" where
  "or_null v = (if is_null v then None else v)"

fun is_string :: "json \<Rightarrow> bool" where
  "is_string (JString _) = True"
| "is_string _ = False"

fun chosen_keys :: "json option \<Rightarrow> away_reason list \<Rightarrow> idle_problem + string list option" where
  "chosen_keys None reasons = Inr None"
| "chosen_keys (Some (JArray l)) reasons =
     (if \<not> list_all is_string l then Inl (''VALIDATION_ERROR'', ''reasonKeys'')
      else if length l > MAX_DEPARTMENT_REASON_KEYS then Inl (''VALIDATION_ERROR'', ''reasonKeys'')
      else if filter (\<lambda>v. v \<notin> JString ` aw_key ` set reasons) l \<noteq> [] then Inl (''REASON_UNKNOWN'', ''reasonKeys'')
      else Inr (Some (filter (\<lambda>k. JString k \<in> set l) (map aw_key reasons))))"
| "chosen_keys (Some _) reasons = Inl (''VALIDATION_ERROR'', ''reasonKeys'')"

definition validateDepartmentIdle :: "department_input \<Rightarrow> away_reason list \<Rightarrow> idle_problem + department_idle" where
  "validateDepartmentIdle input reasons =
     (let enabled = or_null (dn_enabled input); minutes = or_null (dn_minutes input) in
      if enabled \<noteq> None \<and> bool_of enabled = None then Inl (''VALIDATION_ERROR'', ''enabled'')
      else if minutes \<noteq> None \<and> \<not> validMinutes (the minutes) then Inl (''VALIDATION_ERROR'', ''minutes'')
      else (case chosen_keys (or_null (dn_reasonKeys input)) reasons of
              Inl p \<Rightarrow> Inl p
            | Inr keys \<Rightarrow> Inr \<lparr>di_enabled = bool_of enabled, di_minutes = minutes_of minutes, di_reasonKeys = keys\<rparr>))"

definition isDefaultDepartmentIdle :: "department_idle \<Rightarrow> bool" where
  "isDefaultDepartmentIdle d = (di_enabled d = None \<and> di_minutes d = None \<and> di_reasonKeys d = None)"

definition storedReasons :: "away_reason list \<Rightarrow> json" where
  "storedReasons reasons =
     JArray (map (\<lambda>r. JObject [(''key'', JString (aw_key r)), (''label'', JString (aw_label r)),
       (''kind'', JString (kind_name (aw_kind r)))]) reasons)"

section \<open>The service\<close>

fun null_or :: "('a \<Rightarrow> json) \<Rightarrow> 'a option \<Rightarrow> json" where
  "null_or f None = JNull"
| "null_or f (Some x) = f x"

definition stored_department :: "department_idle \<Rightarrow> json" where
  "stored_department d =
     JObject [(''enabled'', null_or JBool (di_enabled d)), (''minutes'', null_or JInt (di_minutes d)),
       (''reasonKeys'', null_or (\<lambda>ks. JArray (map JString ks)) (di_reasonKeys d))]"

definition storedDepartments :: "(department_idle \<Rightarrow> department_idle) \<Rightarrow> (string \<times> department_idle) list \<Rightarrow> json" where
  "storedDepartments f ds =
     JObject (map (\<lambda>(i, d). (i, stored_department d)) (filter (\<lambda>(i, d). \<not> isDefaultDepartmentIdle d) (map (\<lambda>(i, d). (i, f d)) ds)))"

definition known_only :: "string list \<Rightarrow> department_idle \<Rightarrow> department_idle" where
  "known_only known d = d\<lparr>di_reasonKeys := map_option (filter (\<lambda>k. k \<in> set known)) (di_reasonKeys d)\<rparr>"

record idle_update =
  iu_defaultEnabled :: "json option"
  iu_defaultMinutes :: "json option"
  iu_reasons :: "reason_input list option"

definition idle_patch :: "(string \<Rightarrow> string) \<Rightarrow> idle_update \<Rightarrow> org_idle \<Rightarrow> idle_problem + raw" where
  "idle_patch nfkd input current =
     (let base = [(''idleDefaultEnabled'', the (iu_defaultEnabled input)), (''idleDefaultMinutes'', the (iu_defaultMinutes input))] in
      case iu_reasons input of
        None \<Rightarrow> Inr base
      | Some reasons \<Rightarrow>
          (case applyReasonsUpdate nfkd (oi_reasons current) reasons of
             Inl p \<Rightarrow> Inl p
           | Inr nxt \<Rightarrow> Inr (base @ [(''idleReasons'', storedReasons nxt),
               (''departmentIdle'', storedDepartments (known_only (map aw_key nxt)) (oi_departments current))])))"

definition updateIdle :: "(string \<Rightarrow> string) \<Rightarrow> string \<Rightarrow> idle_update \<Rightarrow> int \<Rightarrow> settings_state \<Rightarrow> raw result \<times> settings_state" where
  "updateIdle nfkd companyId input now s =
     (if bool_of (iu_defaultEnabled input) = None then (throw (ValidationError ''VALIDATION_ERROR''), s)
      else if minutes_of (iu_defaultMinutes input) = None then (throw (ValidationError ''VALIDATION_ERROR''), s)
      else
        (case readRaw (Some companyId) now s of
           (raw, s1) \<Rightarrow>
             (case idle_patch nfkd input (idleFromStored raw) of
                Inl p \<Rightarrow> (throw (ValidationError (fst p)), s1)
              | Inr patch \<Rightarrow> (case writeRaw companyId patch now s1 of (nxt, s2) \<Rightarrow> (return nxt, s2)))))"

text \<open>\<open>isLive\<close>: the department exists in the organisation and is not deleted.\<close>

definition updateDepartmentIdle ::
  "(string \<Rightarrow> string \<Rightarrow> bool) \<Rightarrow> string \<Rightarrow> string \<Rightarrow> department_input \<Rightarrow> int \<Rightarrow> settings_state \<Rightarrow> raw result \<times> settings_state" where
  "updateDepartmentIdle isLive companyId departmentId input now s =
     (if \<not> isLive companyId departmentId then (throw (NotFoundError ''DEPARTMENT_NOT_FOUND''), s)
      else
        (case readRaw (Some companyId) now s of
           (raw, s1) \<Rightarrow>
             (let current = idleFromStored raw in
              case validateDepartmentIdle input (oi_reasons current) of
                Inl p \<Rightarrow> (throw (ValidationError (fst p)), s1)
              | Inr d \<Rightarrow>
                  (let ds = (if isDefaultDepartmentIdle d then AList.delete departmentId (oi_departments current)
                             else AList.update departmentId d (oi_departments current))
                   in case writeRaw companyId [(''departmentIdle'', storedDepartments id ds)] now s1 of (nxt, s2) \<Rightarrow> (return nxt, s2)))))"

definition removeDepartmentIdle :: "string \<Rightarrow> string \<Rightarrow> int \<Rightarrow> settings_state \<Rightarrow> settings_state" where
  "removeDepartmentIdle companyId departmentId now s =
     (case readRaw (Some companyId) now s of
        (raw, s1) \<Rightarrow>
          (let current = idleFromStored raw in
           if map_of (oi_departments current) departmentId = None then s1
           else snd (writeRaw companyId
             [(''departmentIdle'', storedDepartments id (AList.delete departmentId (oi_departments current)))] now s1)))"

text \<open>A person's effective setting; \<open>facts\<close> are the columns of the users table, asked for by ids of the
  right shape only.\<close>

record idle_facts =
  if_companyId :: "string option"
  if_departmentId :: "string option"
  if_idleEnabled :: "bool option"
  if_idleMinutes :: "int option"

definition idleFactsOfUser :: "(string \<Rightarrow> idle_facts option) \<Rightarrow> string \<Rightarrow> idle_facts option" where
  "idleFactsOfUser facts u = (if length u = 36 \<and> list_all is_hex_or_dash u then facts u else None)"

definition effectiveIdleFor :: "(string \<Rightarrow> idle_facts option) \<Rightarrow> string \<Rightarrow> int \<Rightarrow> settings_state \<Rightarrow> effective_idle \<times> settings_state" where
  "effectiveIdleFor facts u now s =
     (let f = idleFactsOfUser facts u in
      case readRaw (Option.bind f if_companyId) now s of
        (raw, s') \<Rightarrow> (effectiveIdle (idleFromStored raw) (Option.bind f if_departmentId) (Option.bind f if_idleEnabled)
                        (Option.bind f if_idleMinutes), s'))"

section \<open>Labels\<close>

lemma collapse_idem [simp]: "collapse_from b (collapse_from b s) = collapse_from b s"
  by (induction b s rule: collapse_from.induct) (simp_all add: is_space_def)

lemma hd_collapse: "s \<noteq> [] \<Longrightarrow> \<not> is_space (hd s) \<Longrightarrow> collapse_from b s \<noteq> [] \<and> hd (collapse_from b s) = hd s"
  by (cases s) auto

lemma last_collapse: "s \<noteq> [] \<Longrightarrow> \<not> is_space (last s) \<Longrightarrow> collapse_from b s \<noteq> [] \<and> last (collapse_from b s) = last s"
proof (induction s arbitrary: b)
  case Nil
  then show ?case by simp
next
  case (Cons c cs)
  show ?case
  proof (cases "cs = []")
    case False
    then have "collapse_from b' cs \<noteq> [] \<and> last (collapse_from b' cs) = last cs" for b' using Cons by simp
    then show ?thesis using False by simp
  qed (use Cons in simp)
qed

lemma trim_fixed: "s = [] \<or> (\<not> is_space (hd s) \<and> \<not> is_space (last s)) \<Longrightarrow> trim s = s"
proof -
  assume "s = [] \<or> (\<not> is_space (hd s) \<and> \<not> is_space (last s))"
  then have "dropWhile is_space s = s" "dropWhile is_space (rev s) = rev s"
    by (auto simp: dropWhile_eq_self_iff hd_rev)
  then show "trim s = s" by (simp add: trim_def)
qed

lemma trim_Nil [simp]: "trim [] = []"
  by (simp add: trim_def)

lemma set_stripped: "set (rev (dropWhile P (rev (dropWhile P s)))) \<subseteq> set s"
  by (auto dest!: set_dropWhileD)

lemma trim_ends: "trim s = [] \<or> (\<not> is_space (hd (trim s)) \<and> \<not> is_space (last (trim s)))"
proof (cases "trim s = []")
  case False
  let ?d = "dropWhile is_space s" and ?e = "dropWhile is_space (rev (dropWhile is_space s))"
  have ne: "?e \<noteq> []" using False by (simp add: trim_def)
  have "?d \<noteq> []"
  proof
    assume "?d = []"
    then have "?e = []" by (simp only: rev.simps dropWhile.simps)
    then show False using ne by contradiction
  qed
  then have "\<not> is_space (hd ?d)" by (rule hd_dropWhile)
  moreover obtain pre where "rev ?d = pre @ ?e" by (metis takeWhile_dropWhile_id)
  then have "?d = rev ?e @ rev pre" by (metis rev_append rev_rev_ident)
  then have "hd ?d = hd (rev ?e)" using ne by (metis hd_append2 rev_is_Nil_conv)
  ultimately have "\<not> is_space (hd (trim s))" by (simp add: trim_def)
  moreover have "\<not> is_space (hd ?e)" using ne by (rule hd_dropWhile)
  then have "\<not> is_space (last (trim s))" by (simp add: trim_def last_rev)
  ultimately show ?thesis by simp
qed simp

lemma normalise_idem [simp]: "normaliseReasonLabel (normaliseReasonLabel s) = normaliseReasonLabel s"
proof (cases "trim s = []")
  case False
  then have "\<not> is_space (hd (trim s))" "\<not> is_space (last (trim s))" using trim_ends by auto
  then have "trim (collapse_from False (trim s)) = collapse_from False (trim s)"
    using False hd_collapse [of "trim s" False] last_collapse [of "trim s" False] by (simp add: trim_fixed)
  then show ?thesis by (simp add: normaliseReasonLabel_def collapse_spaces_def)
qed (simp add: normaliseReasonLabel_def collapse_spaces_def)

definition good_label :: "string \<Rightarrow> bool" where
  "good_label l \<longleftrightarrow> label_ok l \<and> normaliseReasonLabel l = l"

lemma clean_good: "good_label l \<Longrightarrow> cleanLabel (Some (JString l)) = Some l"
  by (simp add: cleanLabel_def good_label_def)

lemma cleanLabel_good: "cleanLabel v = Some l \<Longrightarrow> good_label l"
  by (auto simp: cleanLabel_def good_label_def split: option.splits json.splits if_splits)

section \<open>New keys are new\<close>

lemma free_key_spec:
  "\<exists>m \<ge> n. free_key base taken n = numbered_key base m \<and> numbered_key base m \<notin> set taken
     \<and> numbered_key base ` {n..<m} \<subseteq> set taken"
proof (induction base taken n rule: free_key.induct)
  case (1 base taken n)
  show ?case
  proof (cases "numbered_key base n \<in> set taken")
    case True
    then obtain m where m: "m \<ge> Suc n" "free_key base taken (Suc n) = numbered_key base m"
      "numbered_key base m \<notin> set taken" "numbered_key base ` {Suc n..<m} \<subseteq> set taken" using 1 by auto
    have "{n..<m} = insert n {Suc n..<m}" using m(1) by auto
    then have "numbered_key base ` {n..<m} \<subseteq> set taken" using m(4) True by auto
    moreover have "free_key base taken n = numbered_key base m" using True m(2) by (simp add: free_key.simps [of base taken n])
    ultimately show ?thesis using m(1,3) by (metis Suc_leD)
  next
    case False
    then have "free_key base taken n = numbered_key base n" by (simp add: free_key.simps [of base taken n])
    then show ?thesis using False by auto
  qed
qed

lemma base_not_numbered: "base \<noteq> numbered_key base n"
  by (simp add: numbered_key_def)

lemma custom_key_cases:
  "customReasonKey nfkd label taken = key_base nfkd label
   \<or> (\<exists>n. 2 \<le> n \<and> n \<le> length taken + 1 \<and> customReasonKey nfkd label taken = numbered_key (key_base nfkd label) n)"
proof (cases "key_base nfkd label \<in> set taken")
  case True
  let ?base = "key_base nfkd label"
  obtain m where m: "m \<ge> 2" "free_key ?base taken 2 = numbered_key ?base m"
    "numbered_key ?base ` {2..<m} \<subseteq> set taken" using free_key_spec by blast
  have "insert ?base (numbered_key ?base ` {2..<m}) \<subseteq> set taken" using True m(3) by blast
  then have "card (insert ?base (numbered_key ?base ` {2..<m})) \<le> length taken"
    by (meson card_mono card_length finite_set le_trans)
  moreover have "card (insert ?base (numbered_key ?base ` {2..<m})) = Suc (m - 2)"
    by (subst card_insert_disjoint) (auto simp: base_not_numbered card_image inj_on_def)
  ultimately show ?thesis using True m by (auto simp: customReasonKey_def Let_def)
qed (simp add: customReasonKey_def Let_def)

lemma custom_key_new: "customReasonKey nfkd label taken \<notin> set taken"
  using free_key_spec [of 2 "key_base nfkd label" taken] by (auto simp: customReasonKey_def Let_def)

lemma length_show_nat: "n < 10 ^ k \<Longrightarrow> 0 < k \<Longrightarrow> length (show_nat n) \<le> k"
proof (induction k arbitrary: n)
  case (Suc k)
  show ?case
  proof (cases "n < 10")
    case False
    then have "k \<noteq> 0" using Suc.prems by (cases k) auto
    moreover have "n div 10 < 10 ^ k" using Suc.prems(1) by (simp add: less_mult_imp_div_less mult.commute)
    ultimately show ?thesis using Suc.IH [of "n div 10"] False by (simp add: show_nat_ge10)
  qed (simp add: show_nat_lt10)
qed simp

definition key_char :: "char \<Rightarrow> bool" where
  "key_char c \<longleftrightarrow> is_letter c \<or> is_digit c \<or> is_dash c"

lemma upper_key_char: "key_char c \<Longrightarrow> key_char (upcase_char c)"
  by (auto simp: key_char_def is_letter_def is_digit_def is_dash_def Let_def)

lemma join_gaps_chars: "\<forall>c \<in> set s. is_letter c \<or> is_digit c \<or> is_gap c \<Longrightarrow> \<forall>c \<in> set (join_gaps b s). key_char c"
  by (induction b s rule: join_gaps.induct) (auto simp: key_char_def is_dash_def)

lemma set_trim: "set (trim s) \<subseteq> set s"
  unfolding trim_def by (rule set_stripped)

lemma slug_chars: "c \<in> set (key_slug nfkd label) \<Longrightarrow> key_char c"
proof -
  let ?f = "filter (\<lambda>c. is_letter c \<or> is_digit c \<or> is_gap c) (nfkd (normaliseReasonLabel label))"
  have "\<forall>c \<in> set (join_gaps False (trim ?f)). key_char c" by (rule join_gaps_chars) (use set_trim in force)
  moreover have "set (strip_underscores s) \<subseteq> set s" for s
    unfolding strip_underscores_def by (rule set_stripped)
  ultimately have "\<forall>c \<in> set (strip_underscores (join_gaps False (trim ?f))). key_char c" by blast
  moreover assume "c \<in> set (key_slug nfkd label)"
  then obtain x where "x \<in> set (strip_underscores (join_gaps False (trim ?f)))" "c = upcase_char x"
    unfolding key_slug_def to_upper_def by (auto dest!: in_set_takeD simp del: upcase_char.simps)
  ultimately show ?thesis using upper_key_char by blast
qed

lemma custom_key_shape:
  assumes "length taken < 100000"
  shows "CUSTOM_KEY (customReasonKey nfkd label taken)" "\<not> is_built_in (customReasonKey nfkd label taken)"
proof -
  let ?k = "customReasonKey nfkd label taken" and ?rest = "if key_slug nfkd label \<noteq> [] then key_slug nfkd label else ''REASON''"
  have rest: "1 \<le> length ?rest" "length ?rest \<le> 32" "list_all key_char ?rest"
    using slug_chars [of _ nfkd label]
    by (auto simp: key_slug_def list_all_iff Suc_le_eq) (auto simp: key_char_def is_letter_def)
  have "\<exists>r. ?k = ''C_'' @ r \<and> 1 \<le> length r \<and> length r \<le> 40 \<and> list_all key_char r"
    using custom_key_cases [of nfkd label taken]
  proof
    assume "?k = key_base nfkd label"
    then show ?thesis using rest by (auto simp: key_base_def)
  next
    assume "\<exists>n. 2 \<le> n \<and> n \<le> length taken + 1 \<and> ?k = numbered_key (key_base nfkd label) n"
    then obtain n where n: "n \<le> length taken + 1" "?k = numbered_key (key_base nfkd label) n" by blast
    have "length (show_nat n) \<le> 6" using n(1) assms by (intro length_show_nat) auto
    moreover have "list_all key_char (show_nat n)"
      using digits_show_nat [of n] by (auto simp: list_all_iff key_char_def)
    moreover have "?k = ''C_'' @ (?rest @ ''_'' @ show_nat n)" by (simp add: n(2) numbered_key_def key_base_def)
    ultimately show ?thesis using rest by (intro exI [of _ "?rest @ ''_'' @ show_nat n"]) (simp add: key_char_def is_dash_def)
  qed
  then obtain r where r: "?k = ''C_'' @ r" "1 \<le> length r" "length r \<le> 40" "list_all key_char r" by blast
  then show "CUSTOM_KEY ?k" by (simp add: CUSTOM_KEY_def key_rest_def key_char_def list_all_iff)
  show "\<not> is_built_in ?k" by (simp add: r(1) is_built_in_def BUILT_IN_REASONS_def built_in_def)
qed

section \<open>Editing keeps the list well formed\<close>

definition is_custom :: "away_reason \<Rightarrow> bool" where
  "is_custom r \<longleftrightarrow> r = custom_reason (aw_key r) (aw_label r) \<and> CUSTOM_KEY (aw_key r) \<and> \<not> is_built_in (aw_key r) \<and> good_label (aw_label r)"

definition relabelled :: "away_reason \<Rightarrow> away_reason \<Rightarrow> bool" where
  "relabelled b r \<longleftrightarrow> r = b\<lparr>aw_label := aw_label r\<rparr> \<and> good_label (aw_label r)"

text \<open>The built-in reasons in their order, perhaps renamed, then at most twenty custom ones.\<close>

definition reasons_ok :: "away_reason list \<Rightarrow> bool" where
  "reasons_ok rs \<longleftrightarrow>
     (\<exists>bs cs. rs = bs @ cs \<and> list_all2 relabelled BUILT_IN_REASONS bs \<and> list_all is_custom cs
        \<and> length cs \<le> MAX_CUSTOM_REASONS \<and> distinct (map aw_key cs))"

lemma relabelled_key: "relabelled b r \<Longrightarrow> aw_key r = aw_key b"
  unfolding relabelled_def by (metis away_reason.select_convs(1) away_reason.surjective away_reason.update_convs(2))

lemma relabelled_built_in: "relabelled b r \<Longrightarrow> aw_builtIn r = aw_builtIn b"
  unfolding relabelled_def by (metis away_reason.select_convs(4) away_reason.surjective away_reason.update_convs(2))

lemma built_in_keys: "list_all2 relabelled bs0 bs \<Longrightarrow> map aw_key bs = map aw_key bs0"
  by (induction rule: list_all2_induct) (auto simp: relabelled_key)

lemma length_built_ins [simp]: "length BUILT_IN_REASONS = 5"
  by (simp add: BUILT_IN_REASONS_def)

lemma distinct_built_ins [simp]: "distinct (map aw_key BUILT_IN_REASONS)"
  by (simp add: BUILT_IN_REASONS_def built_in_def)

lemma built_in_flag: "b \<in> set BUILT_IN_REASONS \<Longrightarrow> aw_builtIn b"
  by (auto simp: BUILT_IN_REASONS_def built_in_def)

lemma default_labels: "b \<in> set BUILT_IN_REASONS \<Longrightarrow> good_label (aw_label b)"
proof -
  have "list_all good_label (map aw_label BUILT_IN_REASONS)" by code_simp
  then show "b \<in> set BUILT_IN_REASONS \<Longrightarrow> good_label (aw_label b)" by (auto simp: list_all_iff)
qed

lemma reasons_ok_facts:
  assumes "reasons_ok rs"
  shows "length rs \<le> 25" "distinct (map aw_key rs)" "\<forall>r \<in> set rs. aw_builtIn r \<or> CUSTOM_KEY (aw_key r)"
    "\<forall>r \<in> set rs. good_label (aw_label r)" "aw_key ` set BUILT_IN_REASONS \<subseteq> aw_key ` set rs"
proof -
  obtain bs cs where rs: "rs = bs @ cs" "list_all2 relabelled BUILT_IN_REASONS bs" "list_all is_custom cs"
    "length cs \<le> MAX_CUSTOM_REASONS" "distinct (map aw_key cs)" using assms unfolding reasons_ok_def by blast
  have keys: "map aw_key bs = map aw_key BUILT_IN_REASONS" by (rule built_in_keys [OF rs(2)])
  have "length bs = 5" using rs(2) by (simp add: list_all2_lengthD [symmetric])
  then show "length rs \<le> 25" using rs(1,4) by (simp add: MAX_CUSTOM_REASONS_def)
  have sk: "aw_key ` set bs = aw_key ` set BUILT_IN_REASONS" by (metis keys list.set_map)
  have "aw_key ` set bs \<inter> aw_key ` set cs = {}"
    using rs(3) unfolding sk by (auto simp: list_all_iff is_custom_def is_built_in_def) (metis image_eqI)
  then have "aw_key ` set BUILT_IN_REASONS \<inter> aw_key ` set cs = {}" by (simp only: sk)
  then show "distinct (map aw_key rs)" using rs(1,5) keys by simp
  have b: "\<exists>b \<in> set BUILT_IN_REASONS. relabelled b r" if "r \<in> set bs" for r
    using rs(2) that by (metis list_all2_conv_all_nth in_set_conv_nth)
  show "\<forall>r \<in> set rs. aw_builtIn r \<or> CUSTOM_KEY (aw_key r)"
    using rs(1,3) b relabelled_built_in built_in_flag unfolding list_all_iff is_custom_def by (metis Un_iff set_append)
  show "\<forall>r \<in> set rs. good_label (aw_label r)"
    using rs(1,3) b by (auto simp: list_all_iff is_custom_def relabelled_def)
  show "aw_key ` set BUILT_IN_REASONS \<subseteq> aw_key ` set rs" using sk rs(1) by auto
qed

lemma read_customs_step:
  "read_customs (r # rs) out = read_customs rs out
   \<or> (\<exists>c. is_custom c \<and> aw_key c \<notin> aw_key ` set out
         \<and> read_customs (r # rs) out =
             (if length (out @ [c]) \<ge> 5 + MAX_CUSTOM_REASONS then out @ [c] else read_customs rs (out @ [c])))"
proof (cases "stored_key r")
  case (Some k)
  note key = this
  show ?thesis
  proof (cases "is_built_in k \<or> \<not> CUSTOM_KEY k \<or> k \<in> aw_key ` set out")
    case False
    show ?thesis
    proof (cases "cleanLabel (stored_field ''label'' r)")
      case (Some label)
      have "is_custom (custom_reason k label)" "aw_key (custom_reason k label) = k"
        using cleanLabel_good [OF Some] False by (simp_all add: is_custom_def custom_reason_def)
      then show ?thesis using key False Some
        by (intro disjI2 exI [of _ "custom_reason k label"]) (simp add: Let_def)
    qed (use key False in simp)
  qed (use key in \<open>auto split: option.split\<close>)
qed simp

lemma read_customs_extends:
  assumes "length out < 5 + MAX_CUSTOM_REASONS" "distinct (map aw_key out)"
  shows "\<exists>cs. read_customs l out = out @ cs \<and> list_all is_custom cs \<and> length (out @ cs) \<le> 5 + MAX_CUSTOM_REASONS
    \<and> distinct (map aw_key (out @ cs))"
  using assms
proof (induction l arbitrary: out)
  case Nil
  then show ?case by simp
next
  case (Cons r rs)
  show ?case using read_customs_step [of r rs out]
  proof
    assume "read_customs (r # rs) out = read_customs rs out"
    then show ?thesis using Cons.IH [OF Cons.prems] by simp
  next
    assume "\<exists>c. is_custom c \<and> aw_key c \<notin> aw_key ` set out \<and> read_customs (r # rs) out =
      (if length (out @ [c]) \<ge> 5 + MAX_CUSTOM_REASONS then out @ [c] else read_customs rs (out @ [c]))"
    then obtain c where c: "is_custom c" "aw_key c \<notin> aw_key ` set out" "read_customs (r # rs) out =
      (if length (out @ [c]) \<ge> 5 + MAX_CUSTOM_REASONS then out @ [c] else read_customs rs (out @ [c]))" by blast
    have d: "distinct (map aw_key (out @ [c]))" using c(2) Cons.prems(2) by simp
    show ?thesis
    proof (cases "length (out @ [c]) \<ge> 5 + MAX_CUSTOM_REASONS")
      case True
      then show ?thesis using c(1,3) d Cons.prems(1) by (intro exI [of _ "[c]"]) simp
    next
      case False
      then have l: "length (out @ [c]) < 5 + MAX_CUSTOM_REASONS" by simp
      obtain cs where "read_customs rs (out @ [c]) = (out @ [c]) @ cs" "list_all is_custom cs"
        "length ((out @ [c]) @ cs) \<le> 5 + MAX_CUSTOM_REASONS" "distinct (map aw_key ((out @ [c]) @ cs))"
        using Cons.IH [OF l d] by blast
      then show ?thesis using c(1,3) False by (intro exI [of _ "c # cs"]) simp
    qed
  qed
qed

lemma relabelled_stored: "b \<in> set BUILT_IN_REASONS \<Longrightarrow> relabelled b (stored_label l b)"
proof -
  assume b: "b \<in> set BUILT_IN_REASONS"
  have "good_label (aw_label (stored_label l b))"
    using cleanLabel_good default_labels [OF b] by (auto simp: stored_label_def coalesce_def split: option.split)
  then show ?thesis by (simp add: relabelled_def stored_label_def)
qed

lemma reasonsFromStored_ok: "reasons_ok (reasonsFromStored j)"
proof -
  let ?bs = "map (stored_label (list_of j)) BUILT_IN_REASONS"
  have bs: "list_all2 relabelled BUILT_IN_REASONS ?bs"
    by (simp add: list_all2_conv_all_nth relabelled_stored)
  have d: "distinct (map aw_key ?bs)" unfolding built_in_keys [OF bs] by (rule distinct_built_ins)
  have l: "length ?bs < 5 + MAX_CUSTOM_REASONS" by (simp add: MAX_CUSTOM_REASONS_def)
  obtain cs where cs: "reasonsFromStored j = ?bs @ cs" "list_all is_custom cs" "length (?bs @ cs) \<le> 5 + MAX_CUSTOM_REASONS"
    "distinct (map aw_key (?bs @ cs))"
    using read_customs_extends [OF l d, of "list_of j"] unfolding reasonsFromStored_def Let_def by blast
  then show ?thesis using bs unfolding reasons_ok_def
    by (intro exI [of _ ?bs] exI [of _ cs]) simp
qed

text \<open>Reading what was stored.\<close>

definition stored_reason :: "away_reason \<Rightarrow> json" where
  "stored_reason r = JObject [(''key'', JString (aw_key r)), (''label'', JString (aw_label r)), (''kind'', JString (kind_name (aw_kind r)))]"

lemma stored_reason_fields [simp]:
  "stored_key (stored_reason r) = Some (aw_key r)" "stored_field ''label'' (stored_reason r) = Some (JString (aw_label r))"
  by (simp_all add: stored_reason_def stored_key_def stored_field_def)

lemma storedReasons_list: "list_of (Some (storedReasons rs)) = map stored_reason rs"
  by (simp add: list_of_def storedReasons_def stored_reason_def)

lemma by_key_stored:
  assumes "distinct (map aw_key rs)" "r \<in> set rs"
  shows "by_key (map stored_reason rs) (aw_key r) = Some (stored_reason r)"
proof -
  have "\<exists>x. List.find (\<lambda>j. stored_key j = Some (aw_key r)) (rev (map stored_reason rs)) = Some x"
    using assms(2) by (auto simp: find_None_iff not_None_eq [symmetric] simp del: not_None_eq)
  then obtain x where x: "List.find (\<lambda>j. stored_key j = Some (aw_key r)) (rev (map stored_reason rs)) = Some x" by blast
  from find_Some_set [OF x] have "x \<in> set (rev (map stored_reason rs))" "stored_key x = Some (aw_key r)" by auto
  then obtain r' where "r' \<in> set rs" "x = stored_reason r'" "aw_key r' = aw_key r" by auto
  then have "x = stored_reason r" using assms by (metis distinct_map inj_on_eq_iff)
  then show ?thesis using x by (simp add: by_key_def)
qed

lemma read_customs_built_ins:
  "list_all (\<lambda>r. is_built_in (aw_key r)) bs \<Longrightarrow> read_customs (map stored_reason bs @ l) out = read_customs l out"
  by (induction bs) auto

lemma read_customs_customs:
  assumes "list_all is_custom cs" "distinct (map aw_key (out @ cs))" "length (out @ cs) \<le> 5 + MAX_CUSTOM_REASONS"
  shows "read_customs (map stored_reason cs) out = out @ cs"
  using assms
proof (induction cs arbitrary: out)
  case (Cons c cs)
  have c: "custom_reason (aw_key c) (aw_label c) = c" "CUSTOM_KEY (aw_key c)" "\<not> is_built_in (aw_key c)" "good_label (aw_label c)"
    using Cons.prems(1) by (auto simp: is_custom_def)
  have "aw_key c \<notin> aw_key ` set out" using Cons.prems(2) by auto
  then have "read_customs (map stored_reason (c # cs)) out =
      (if length (out @ [c]) \<ge> 5 + MAX_CUSTOM_REASONS then out @ [c] else read_customs (map stored_reason cs) (out @ [c]))"
    using c clean_good [OF c(4)] by (simp add: Let_def)
  then show ?case using Cons.IH [of "out @ [c]"] Cons.prems by (cases cs) auto
qed simp

lemma stored_reasons_read_back:
  assumes "reasons_ok rs"
  shows "reasonsFromStored (Some (storedReasons rs)) = rs"
proof -
  obtain bs cs where rs: "rs = bs @ cs" "list_all2 relabelled BUILT_IN_REASONS bs" "list_all is_custom cs"
    "length cs \<le> MAX_CUSTOM_REASONS" "distinct (map aw_key cs)" using assms unfolding reasons_ok_def by blast
  let ?l = "map stored_reason rs"
  have len: "length bs = 5" using rs(2) by (simp add: list_all2_lengthD [symmetric])
  have "stored_label ?l (BUILT_IN_REASONS ! i) = bs ! i" if "i < 5" for i
  proof -
    have i: "relabelled (BUILT_IN_REASONS ! i) (bs ! i)" using rs(2) that by (simp add: list_all2_conv_all_nth)
    have "bs ! i \<in> set rs" using rs(1) len that by simp
    then have "by_key ?l (aw_key (BUILT_IN_REASONS ! i)) = Some (stored_reason (bs ! i))"
      using by_key_stored [OF reasons_ok_facts(2) [OF assms]] relabelled_key [OF i] by metis
    then show ?thesis using i by (simp add: stored_label_def relabelled_def clean_good)
  qed
  then have "map (stored_label ?l) BUILT_IN_REASONS = bs" using len by (intro nth_equalityI) auto
  moreover have "list_all (\<lambda>r. is_built_in (aw_key r)) bs"
    using built_in_keys [OF rs(2)] by (auto simp: list_all_iff is_built_in_def) (metis image_eqI list.set_map)
  ultimately have "reasonsFromStored (Some (storedReasons rs)) = read_customs (map stored_reason cs) bs"
    by (simp add: reasonsFromStored_def storedReasons_list Let_def rs(1) read_customs_built_ins)
  also have "\<dots> = bs @ cs"
    using rs(3,4) len reasons_ok_facts(2) [OF assms] rs(1) by (intro read_customs_customs) auto
  finally show ?thesis by (simp add: rs(1))
qed

text \<open>What the loop over the request's reasons has gathered.\<close>

definition labels_of :: "reasons_read \<Rightarrow> string list" where
  "labels_of a = map (to_lower \<circ> aw_label \<circ> snd) (ra_builtIns a) @ map (to_lower \<circ> aw_label) (ra_customs a) @ map to_lower (ra_new a)"

definition gathered :: "reasons_read \<Rightarrow> bool" where
  "gathered a \<longleftrightarrow>
     (\<forall>(k, r) \<in> set (ra_builtIns a). k = aw_key r \<and> (\<exists>b \<in> set BUILT_IN_REASONS. relabelled b r))
     \<and> list_all is_custom (ra_customs a) \<and> list_all good_label (ra_new a)
     \<and> distinct (map fst (ra_builtIns a)) \<and> distinct (map aw_key (ra_customs a))
     \<and> set (ra_keys a) = fst ` set (ra_builtIns a) \<union> aw_key ` set (ra_customs a)
     \<and> length (ra_keys a) = length (ra_builtIns a) + length (ra_customs a)
     \<and> distinct (labels_of a) \<and> set (labels_of a) = set (ra_labels a)"

lemma update_new: "k \<notin> fst ` set al \<Longrightarrow> AList.update k v al = al @ [(k, v)]"
  by (induction al) auto

lemma find_built_in: "List.find (\<lambda>b. aw_key b = k) BUILT_IN_REASONS = Some b \<Longrightarrow> b \<in> set BUILT_IN_REASONS \<and> aw_key b = k"
  using find_Some_set by fastforce

lemma find_no_built_in: "List.find (\<lambda>b. aw_key b = k) BUILT_IN_REASONS = None \<Longrightarrow> \<not> is_built_in k"
  by (auto simp: find_None_iff is_built_in_def)

lemma known_custom:
  assumes "reasons_ok current" "known_reason current k = Some r" "\<not> aw_builtIn r"
  shows "CUSTOM_KEY k"
  using assms reasons_ok_facts(3) [OF assms(1)] find_Some_set [of "\<lambda>r. aw_key r = k" "rev current" r]
  by (auto simp: known_reason_def)

lemma take_reason_gathers:
  assumes "reasons_ok current" "take_reason current i item a = Inr a'" "gathered a"
  shows "gathered a' \<and> set (ra_keys a') = set (ra_keys a) \<union> {k. input_key item = Some k}"
proof -
  let ?l = "normaliseReasonLabel (coalesce (ri_label item) [])"
  have l: "label_ok ?l" "to_lower ?l \<notin> set (ra_labels a)"
    using assms(2) by (auto simp: Let_def split: if_splits)
  then have good: "good_label ?l" by (simp add: good_label_def)
  show ?thesis
  proof (cases "input_key item")
    case None
    then have "a' = a\<lparr>ra_labels := ra_labels a @ [to_lower ?l], ra_new := ra_new a @ [?l]\<rparr>"
      using assms(2) l by (simp add: Let_def)
    then show ?thesis using assms(3) l good None by (auto simp: gathered_def labels_of_def)
  next
    case (Some key)
    have new: "key \<notin> set (ra_keys a)" using assms(2) l Some by (auto simp: Let_def split: if_splits)
    show ?thesis
    proof (cases "List.find (\<lambda>b. aw_key b = key) BUILT_IN_REASONS")
      case (Some b)
      have b: "b \<in> set BUILT_IN_REASONS" "aw_key b = key" using find_built_in [OF Some] by auto
      have "key \<notin> fst ` set (ra_builtIns a)" using new assms(3) by (auto simp: gathered_def)
      then have u: "AList.update key r (ra_builtIns a) = ra_builtIns a @ [(key, r)]" for r
        by (rule update_new)
      have "a' = a\<lparr>ra_labels := ra_labels a @ [to_lower ?l], ra_keys := ra_keys a @ [key],
          ra_builtIns := ra_builtIns a @ [(key, b\<lparr>aw_label := ?l\<rparr>)]\<rparr>"
        using assms(2) l \<open>input_key item = Some key\<close> new Some by (simp add: Let_def u)
      moreover have "relabelled b (b\<lparr>aw_label := ?l\<rparr>)" using good by (simp add: relabelled_def)
      ultimately show ?thesis
        using assms(3) l b new \<open>key \<notin> fst ` set (ra_builtIns a)\<close> \<open>input_key item = Some key\<close>
        by (auto simp: gathered_def labels_of_def)
    next
      case None
      have c: "CUSTOM_KEY key \<and> a' = a\<lparr>ra_labels := ra_labels a @ [to_lower ?l], ra_keys := ra_keys a @ [key],
          ra_customs := ra_customs a @ [custom_reason key ?l]\<rparr>"
        using assms(2) l \<open>input_key item = Some key\<close> new None known_custom [OF assms(1)]
        by (auto simp: Let_def split: option.splits if_splits)
      have "is_custom (custom_reason key ?l)"
        using c good find_no_built_in [OF None] by (simp add: is_custom_def custom_reason_def)
      then show ?thesis
        using assms(3) l c new \<open>input_key item = Some key\<close>
        by (auto simp: gathered_def labels_of_def custom_reason_def)
    qed
  qed
qed

lemma take_reasons_gathers:
  assumes "reasons_ok current" "take_reasons current i items a = Inr a'" "gathered a"
  shows "gathered a' \<and> set (ra_keys a') = set (ra_keys a) \<union> {k. Some k \<in> input_key ` set items}"
  using assms(2,3)
proof (induction items arbitrary: i a)
  case (Cons item items)
  then obtain a1 where a1: "take_reason current i item a = Inr a1" "take_reasons current (Suc i) items a1 = Inr a'"
    by (auto split: sum.splits)
  show ?case using take_reason_gathers [OF assms(1) a1(1) Cons.prems(2)] Cons.IH [OF a1(2)] by auto
qed simp

lemma name_new_ok:
  assumes "list_all good_label ls" "length taken + length ls < 100000"
  shows "list_all is_custom (name_new nfkd taken ls) \<and> distinct (map aw_key (name_new nfkd taken ls))
    \<and> aw_key ` set (name_new nfkd taken ls) \<inter> set taken = {} \<and> map aw_label (name_new nfkd taken ls) = ls"
  using assms
proof (induction ls arbitrary: taken)
  case (Cons l ls)
  let ?k = "customReasonKey nfkd l taken"
  have k: "CUSTOM_KEY ?k" "\<not> is_built_in ?k" "?k \<notin> set taken"
    using custom_key_shape [of taken nfkd l] custom_key_new Cons.prems(2) by auto
  have c: "is_custom (custom_reason ?k l)" using k Cons.prems(1) by (simp add: is_custom_def custom_reason_def)
  have "list_all is_custom (name_new nfkd (taken @ [?k]) ls) \<and> distinct (map aw_key (name_new nfkd (taken @ [?k]) ls))
    \<and> aw_key ` set (name_new nfkd (taken @ [?k]) ls) \<inter> set (taken @ [?k]) = {} \<and> map aw_label (name_new nfkd (taken @ [?k]) ls) = ls"
    using Cons.IH [of "taken @ [?k]"] Cons.prems by simp
  moreover have "aw_key (custom_reason ?k l) = ?k" "aw_label (custom_reason ?k l) = l" by (simp_all add: custom_reason_def)
  moreover have "name_new nfkd taken (l # ls) = custom_reason ?k l # name_new nfkd (taken @ [?k]) ls" by (simp add: Let_def)
  ultimately show ?case using c k by auto
qed simp

lemma gathered_entry:
  assumes "gathered a" "(k, r) \<in> set (ra_builtIns a)"
  obtains b where "b \<in> set BUILT_IN_REASONS" "relabelled b r" "k = aw_key r" "aw_key r = aw_key b"
proof -
  have "k = aw_key r \<and> (\<exists>b \<in> set BUILT_IN_REASONS. relabelled b r)"
    using assms unfolding gathered_def by fast
  then show thesis using relabelled_key that by blast
qed

lemma built_in_unique: "b \<in> set BUILT_IN_REASONS \<Longrightarrow> b' \<in> set BUILT_IN_REASONS \<Longrightarrow> aw_key b = aw_key b' \<Longrightarrow> b = b'"
  using distinct_built_ins by (auto simp: distinct_map dest: inj_onD simp del: distinct_built_ins)

lemma gathered_keys_built_in: "gathered a \<Longrightarrow> fst ` set (ra_builtIns a) \<subseteq> aw_key ` set BUILT_IN_REASONS"
proof
  fix k assume g: "gathered a" and "k \<in> fst ` set (ra_builtIns a)"
  then obtain r where "(k, r) \<in> set (ra_builtIns a)" by auto
  then show "k \<in> aw_key ` set BUILT_IN_REASONS" using gathered_entry [OF g] by (metis imageI)
qed

lemma gathered_built_ins:
  assumes "gathered a" "\<forall>b \<in> set BUILT_IN_REASONS. map_of (ra_builtIns a) (aw_key b) \<noteq> None"
  defines "bs \<equiv> map (\<lambda>b. the (map_of (ra_builtIns a) (aw_key b))) BUILT_IN_REASONS"
  shows "list_all2 relabelled BUILT_IN_REASONS bs" "\<forall>r \<in> set bs. (aw_key r, r) \<in> set (ra_builtIns a)"
    "length (ra_builtIns a) \<le> 5"
proof -
  have one: "relabelled b r \<and> (aw_key r, r) \<in> set (ra_builtIns a)"
    if b: "b \<in> set BUILT_IN_REASONS" and r: "r = the (map_of (ra_builtIns a) (aw_key b))" for b r
  proof -
    obtain y where "map_of (ra_builtIns a) (aw_key b) = Some y" using assms(2) b by blast
    then have m: "(aw_key b, r) \<in> set (ra_builtIns a)" using r map_of_SomeD [of "ra_builtIns a" "aw_key b" y] by simp
    from assms(1) m obtain b' where b': "b' \<in> set BUILT_IN_REASONS" "relabelled b' r" "aw_key b = aw_key r" "aw_key r = aw_key b'"
      by (rule gathered_entry)
    then have "b' = b" using b by (intro built_in_unique) simp_all
    then show ?thesis using b' m by simp
  qed
  show "list_all2 relabelled BUILT_IN_REASONS bs" using one by (simp add: bs_def list_all2_conv_all_nth)
  show "\<forall>r \<in> set bs. (aw_key r, r) \<in> set (ra_builtIns a)" using one by (auto simp: bs_def)
  have "distinct (map fst (ra_builtIns a))" using assms(1) by (simp add: gathered_def)
  then have "length (ra_builtIns a) = card (set (map fst (ra_builtIns a)))"
    using distinct_card [of "map fst (ra_builtIns a)"] by simp
  also have "\<dots> \<le> card (set (map aw_key BUILT_IN_REASONS))"
    by (rule card_mono) (use gathered_keys_built_in [OF assms(1)] in auto)
  also have "\<dots> \<le> 5" using card_length [of "map aw_key BUILT_IN_REASONS"] by simp
  finally show "length (ra_builtIns a) \<le> 5" .
qed

lemma distinct_smaller: "distinct (xs @ ys) \<Longrightarrow> distinct zs \<Longrightarrow> set zs \<subseteq> set xs \<Longrightarrow> distinct (zs @ ys)"
  by auto

lemma updated_reasons:
  assumes "reasons_ok current" "applyReasonsUpdate nfkd current incoming = Inr v"
  shows "reasons_ok v" "distinct (map (to_lower \<circ> aw_label) v)"
    "\<forall>x \<in> set incoming. \<forall>k. input_key x = Some k \<longrightarrow> k \<in> aw_key ` set v"
    "\<forall>r \<in> set v. Some (aw_key r) \<notin> input_key ` set incoming \<longrightarrow> aw_key r \<notin> aw_key ` set current \<and> aw_kind r = CustomReason"
proof -
  let ?start = "\<lparr>ra_keys = [], ra_labels = [], ra_builtIns = [], ra_customs = [], ra_new = []\<rparr>"
  obtain a where a: "take_reasons current 0 incoming ?start = Inr a"
    and all: "\<forall>b \<in> set BUILT_IN_REASONS. map_of (ra_builtIns a) (aw_key b) \<noteq> None"
    and few: "length (ra_customs a) + length (ra_new a) \<le> MAX_CUSTOM_REASONS"
    and v: "v = map (\<lambda>b. the (map_of (ra_builtIns a) (aw_key b))) BUILT_IN_REASONS
        @ ra_customs a @ name_new nfkd (map aw_key current @ ra_keys a) (ra_new a)"
    using assms(2) by (auto simp: applyReasonsUpdate_def filter_empty_conv split: sum.splits if_splits)
  have "gathered ?start" by (simp add: gathered_def labels_of_def)
  then have g: "gathered a" and keys: "set (ra_keys a) = {k. Some k \<in> input_key ` set incoming}"
    using take_reasons_gathers [OF assms(1) a] by auto
  define bs where "bs = map (\<lambda>b. the (map_of (ra_builtIns a) (aw_key b))) BUILT_IN_REASONS"
  note b = gathered_built_ins [OF g all, folded bs_def]
  let ?new = "name_new nfkd (map aw_key current @ ra_keys a) (ra_new a)"
  have vs: "v = bs @ ra_customs a @ ?new" by (simp add: v bs_def)
  have g': "list_all is_custom (ra_customs a)" "list_all good_label (ra_new a)" "distinct (map aw_key (ra_customs a))"
    "set (ra_keys a) = fst ` set (ra_builtIns a) \<union> aw_key ` set (ra_customs a)"
    "length (ra_keys a) = length (ra_builtIns a) + length (ra_customs a)" "distinct (labels_of a)"
    using g by (auto simp: gathered_def)
  have new: "list_all is_custom ?new" "distinct (map aw_key ?new)"
    "aw_key ` set ?new \<inter> set (map aw_key current @ ra_keys a) = {}" "map aw_label ?new = ra_new a"
    using name_new_ok [OF g'(2), of "map aw_key current @ ra_keys a" nfkd] reasons_ok_facts(1) [OF assms(1)] b(3) few g'(5)
    by (auto simp: MAX_CUSTOM_REASONS_def)
  have ln: "length ?new = length (ra_new a)" using arg_cong [OF new(4), of length] by simp
  show "reasons_ok v" unfolding reasons_ok_def
    using b(1) g'(1,3,4) new few ln by (intro exI [of _ bs] exI [of _ "ra_customs a @ ?new"]) (auto simp: vs)
  have bkeys: "aw_key ` set bs = aw_key ` set BUILT_IN_REASONS"
    using arg_cong [OF built_in_keys [OF b(1)], of set] by simp
  let ?L = "to_lower \<circ> aw_label"
  have "inj_on ?L (set bs)"
  proof (rule inj_onI)
    fix x y assume xy: "x \<in> set bs" "y \<in> set bs" "?L x = ?L y"
    have "inj_on (?L \<circ> snd) (set (ra_builtIns a))" using g'(6) by (simp add: labels_of_def distinct_map o_assoc)
    then have "(aw_key x, x) = (aw_key y, y)" by (rule inj_onD) (use b(2) xy in auto)
    then show "x = y" by simp
  qed
  moreover have "distinct (map aw_key bs)" unfolding built_in_keys [OF b(1)] by (rule distinct_built_ins)
  ultimately have "distinct (map ?L bs)" using distinct_map [of aw_key bs] distinct_map [of ?L bs] by blast
  moreover have "set (map ?L bs) \<subseteq> set (map (to_lower \<circ> aw_label \<circ> snd) (ra_builtIns a))" using b(2) by force
  moreover have "map ?L ?new = map to_lower (ra_new a)" using arg_cong [OF new(4), of "map to_lower"] by simp
  moreover have "map ?L v = map ?L bs @ map ?L (ra_customs a) @ map ?L ?new" by (simp add: vs)
  ultimately show "distinct (map ?L v)"
    using distinct_smaller [OF g'(6) [unfolded labels_of_def], of "map ?L bs"] by simp
  note bk = gathered_keys_built_in [OF g]
  show "\<forall>x \<in> set incoming. \<forall>k. input_key x = Some k \<longrightarrow> k \<in> aw_key ` set v"
  proof (intro ballI allI impI)
    fix x k assume "x \<in> set incoming" "input_key x = Some k"
    then have "k \<in> set (ra_keys a)" using keys by force
    moreover have "fst ` set (ra_builtIns a) \<subseteq> aw_key ` set bs" using bk bkeys by simp
    ultimately show "k \<in> aw_key ` set v" using g'(4) by (auto simp: vs image_Un)
  qed
  show "\<forall>r \<in> set v. Some (aw_key r) \<notin> input_key ` set incoming \<longrightarrow> aw_key r \<notin> aw_key ` set current \<and> aw_kind r = CustomReason"
  proof (intro ballI impI)
    fix r assume r: "r \<in> set v" "Some (aw_key r) \<notin> input_key ` set incoming"
    then have "aw_key r \<notin> set (ra_keys a)" using keys by simp
    then have "r \<in> set ?new" using r(1) b(2) g'(4) by (force simp: vs)
    then show "aw_key r \<notin> aw_key ` set current \<and> aw_kind r = CustomReason"
      using new(1,3) by (auto simp: list_all_iff is_custom_def custom_reason_def) (metis away_reason.select_convs(3))
  qed
qed

section \<open>What is saved is read back\<close>

definition no_department_override :: department_idle where
  "no_department_override = \<lparr>di_enabled = None, di_minutes = None, di_reasonKeys = None\<rparr>"

text \<open>A department's override, none when it has no entry.\<close>

definition override :: "org_idle \<Rightarrow> string \<Rightarrow> department_idle" where
  "override org d = coalesce (map_of (oi_departments org) d) no_department_override"

text \<open>An override as it can be stored: minutes in range, reasons of the organisation.\<close>

definition override_ok :: "string list \<Rightarrow> department_idle \<Rightarrow> bool" where
  "override_ok known d \<longleftrightarrow>
     (\<forall>n. di_minutes d = Some n \<longrightarrow> validMinutes (JInt n)) \<and> (\<forall>ks. di_reasonKeys d = Some ks \<longrightarrow> set ks \<subseteq> set known)"

definition overrides_ok :: "string list \<Rightarrow> (string \<times> department_idle) list \<Rightarrow> bool" where
  "overrides_ok known ds \<longleftrightarrow> distinct (map fst ds) \<and> (\<forall>(i, d) \<in> set ds. override_ok known d)"

lemma default_override: "isDefaultDepartmentIdle d \<longleftrightarrow> d = no_department_override"
  by (cases d) (auto simp: isDefaultDepartmentIdle_def no_department_override_def)

lemma string_in_set: "string_in known v = Some k \<Longrightarrow> k \<in> set known"
  by (cases v) (auto split: if_splits)

lemma set_map_filter: "x \<in> set (List.map_filter f l) \<longleftrightarrow> (\<exists>y \<in> set l. f y = Some x)"
  by (induction l) (auto simp: map_filter_simps split: option.split)

lemma department_from_ok: "override_ok known (department_from known v)"
  by (auto simp: override_ok_def department_from_def minutes_of_def set_map_filter dest: string_in_set
      split: option.splits json.splits if_splits)

lemma map_of_filter_map:
  "distinct (map fst ds) \<Longrightarrow> map_of (filter (\<lambda>(i, d). P d) (map (\<lambda>(i, d). (i, f d)) ds)) k =
     (case map_of ds k of Some d \<Rightarrow> if P (f d) then Some (f d) else None | None \<Rightarrow> None)"
  by (induction ds) (auto split: option.split simp: map_of_eq_None_iff image_iff)

lemma map_fst_pairs: "map fst (map (\<lambda>(i, v). (i, g v)) xs) = map fst xs"
  by (induction xs) auto

lemma idle_overrides_ok: "overrides_ok (map aw_key (oi_reasons (idleFromStored raw))) (oi_departments (idleFromStored raw))"
proof -
  let ?k = "map aw_key (oi_reasons (idleFromStored raw))" and ?es = "AList.clearjunk (asObject (map_of raw ''departmentIdle''))"
  have e: "oi_departments (idleFromStored raw) = map (\<lambda>(i, v). (i, department_from ?k v)) (filter (\<lambda>(i, v). is_object v) ?es)"
    by (simp add: idleFromStored_def Let_def)
  have "distinct (map fst (map (\<lambda>(i, v). (i, department_from ?k v)) (filter (\<lambda>(i, v). is_object v) ?es)))"
    unfolding map_fst_pairs by (rule distinct_map_filter) simp
  then show ?thesis unfolding overrides_ok_def e by (auto simp: department_from_ok)
qed

lemma map_filter_strings: "set ks \<subseteq> set known \<Longrightarrow> List.map_filter (string_in known) (map JString ks) = ks"
  by (induction ks) (auto simp: map_filter_simps)

lemma stored_department_read:
  "override_ok known d \<Longrightarrow> is_object (stored_department d) \<and> department_from known (stored_department d) = d"
  by (cases d; cases "di_enabled d"; cases "di_minutes d"; cases "di_reasonKeys d")
     (auto simp: stored_department_def department_from_def stored_field_def bool_of_def minutes_of_def override_ok_def map_filter_strings)

lemma stored_departments_read:
  "\<forall>(i, d) \<in> set fs. override_ok known d \<Longrightarrow>
     map (\<lambda>(i, v). (i, department_from known v)) (filter (\<lambda>(i, v). is_object v) (map (\<lambda>(i, v). (i, stored_department v)) fs)) = fs"
  by (induction fs) (auto simp: stored_department_read)

text \<open>Storing overrides and reading them with the same reasons gives every department its own.\<close>

lemma stored_overrides_read:
  assumes "overrides_ok known (map (\<lambda>(i, d). (i, f d)) ds)"
  shows "coalesce (map_of (map (\<lambda>(i, v). (i, department_from known v))
      (filter (\<lambda>(i, v). is_object v) (AList.clearjunk (asObject (Some (storedDepartments f ds)))))) k) no_department_override
    = (case map_of ds k of Some d \<Rightarrow> f d | None \<Rightarrow> no_department_override)"
proof -
  let ?fs = "filter (\<lambda>(i, d). \<not> isDefaultDepartmentIdle d) (map (\<lambda>(i, d). (i, f d)) ds)"
  have d: "distinct (map fst ds)" using assms by (simp add: overrides_ok_def case_prod_beta o_def)
  have df: "distinct (map fst ?fs)" using assms by (intro distinct_map_filter) (simp add: overrides_ok_def)
  have ok: "\<forall>(i, v) \<in> set ?fs. override_ok known v" using assms by (auto simp: overrides_ok_def)
  have "distinct (map fst (map (\<lambda>(i, v). (i, stored_department v)) ?fs))" using df by (simp only: map_fst_pairs)
  then have c: "AList.clearjunk (asObject (Some (storedDepartments f ds))) = map (\<lambda>(i, v). (i, stored_department v)) ?fs"
    unfolding storedDepartments_def asObject.simps by (rule distinct_clearjunk_id)
  show ?thesis unfolding c stored_departments_read [OF ok] using map_of_filter_map [OF d, of "\<lambda>d. \<not> isDefaultDepartmentIdle d" f k]
    by (auto simp: default_override split: option.split)
qed

lemma read_after_write:
  assumes "cache_ok s" "c \<noteq> []" "\<forall>(t, x) \<in> set after. writes_for x \<noteq> Some c"
    "s' = snd (writeRaw c patch now (snd (readRaw (Some c) now s)))"
  shows "fst (readRaw (Some c) later (settings_run after s')) = spread (fst (readRaw (Some c) now s)) patch"
proof -
  let ?s1 = "snd (readRaw (Some c) now s)"
  have s1: "cache_ok ?s1" "set_rows ?s1 = set_rows s" by (rule readRaw_keeps(2) [OF assms(1)], rule readRaw_keeps(1))
  have ok: "cache_ok s'" unfolding assms(4) by (rule writeRaw_keeps(1) [OF s1(1)])
  have "stored_raw (set_rows s') (orgSettingsKey c) = spread (stored_raw (set_rows s) (orgSettingsKey c)) patch"
    by (simp add: assms(4) writeRaw_def Let_def write_row_rows s1(2))
  then show ?thesis
    using settings_run_keeps [OF ok, of after c] assms(2,3) by (simp add: readRaw_value assms(1))
qed

text \<open>\<open>idle_at\<close>: the input-tracking settings an organisation has when read.\<close>

definition idle_at :: "string \<Rightarrow> int \<Rightarrow> settings_state \<Rightarrow> org_idle" where
  "idle_at c now s = idleFromStored (fst (readRaw (Some c) now s))"

lemma idleFromStored_fields:
  "oi_defaultEnabled (idleFromStored raw) = coalesce (bool_of (map_of raw ''idleDefaultEnabled'')) False"
  "oi_defaultMinutes (idleFromStored raw) = coalesce (minutes_of (map_of raw ''idleDefaultMinutes'')) IDLE_DEFAULT_MINUTES"
  "oi_reasons (idleFromStored raw) = reasonsFromStored (map_of raw ''idleReasons'')"
  "oi_departments (idleFromStored raw) = map (\<lambda>(i, v). (i, department_from (map aw_key (oi_reasons (idleFromStored raw))) v))
     (filter (\<lambda>(i, v). is_object v) (AList.clearjunk (asObject (map_of raw ''departmentIdle''))))"
  by (simp_all add: idleFromStored_def Let_def)

lemma known_only_ok:
  assumes "override_ok known d"
  shows "override_ok known' (known_only known' d)"
  using assms by (cases "di_reasonKeys d") (auto simp: override_ok_def known_only_def)

lemma overrides_known_only:
  "overrides_ok known ds \<Longrightarrow> overrides_ok known' (map (\<lambda>(i, d). (i, known_only known' d)) ds)"
  unfolding overrides_ok_def map_fst_pairs by (auto intro: known_only_ok)

lemma known_only_none [simp]: "known_only known no_department_override = no_department_override"
  by (simp add: known_only_def no_department_override_def)

text \<open>Saved input-tracking settings are read back. After any history of the settings service, an
  accepted edit stores the defaults given and, when it gives reasons, a well-formed list (the built-in
  reasons first, at most twenty custom ones, no key twice) whose labels differ even ignoring case, which
  keeps every key the request named and gives a new reason a key no reason had; until the
  organisation's row is written again every read shows exactly those, each department's override having
  lost only the reasons that are gone. Without reasons nothing else changes.\<close>

theorem saved_reasons_are_read_back:
  assumes "s = settings_run before (fresh_service rows people)" "c \<noteq> []"
    and "updateIdle nfkd c input now s = (return raw, s')"
    and "\<forall>(t, x) \<in> set after. writes_for x \<noteq> Some c"
    and "org = idle_at c now s" "org' = idle_at c later (settings_run after s')"
  shows "iu_defaultEnabled input = Some (JBool (oi_defaultEnabled org'))
    \<and> iu_defaultMinutes input = Some (JInt (oi_defaultMinutes org'))
    \<and> reasons_ok (oi_reasons org')
    \<and> (case iu_reasons input of
         None \<Rightarrow> oi_reasons org' = oi_reasons org \<and> oi_departments org' = oi_departments org
       | Some incoming \<Rightarrow>
           distinct (map (to_lower \<circ> aw_label) (oi_reasons org'))
           \<and> (\<forall>x \<in> set incoming. \<forall>k. input_key x = Some k \<longrightarrow> k \<in> aw_key ` set (oi_reasons org'))
           \<and> (\<forall>r \<in> set (oi_reasons org'). Some (aw_key r) \<notin> input_key ` set incoming \<longrightarrow> aw_key r \<notin> aw_key ` set (oi_reasons org))
           \<and> (\<forall>d. override org' d = known_only (map aw_key (oi_reasons org')) (override org d)))"
proof -
  have ok: "cache_ok s" using settings_run_keeps [OF fresh_service_ok] assms(1) by simp
  let ?base = "fst (readRaw (Some c) now s)"
  have org: "org = idleFromStored ?base" by (simp add: assms(5) idle_at_def)
  obtain b n where bn: "iu_defaultEnabled input = Some (JBool b)" "iu_defaultMinutes input = Some (JInt n)" "minutes_of (Some (JInt n)) = Some n"
    using assms(3) by (auto simp: updateIdle_def bool_of_def minutes_of_def split: if_splits option.splits json.splits)
  obtain patch where p: "idle_patch nfkd input org = Inr patch"
    and s': "s' = snd (writeRaw c patch now (snd (readRaw (Some c) now s)))"
    using assms(3) bn
    by (cases "readRaw (Some c) now s") (auto simp: updateIdle_def org bool_of_def split: sum.splits prod.splits)
  have org': "org' = idleFromStored (spread ?base patch)"
    using read_after_write [OF ok assms(2,4) s'] by (simp add: assms(6) idle_at_def)
  show ?thesis
  proof (cases "iu_reasons input")
    case None
    then have patch: "patch = [(''idleDefaultEnabled'', JBool b), (''idleDefaultMinutes'', JInt n)]"
      using p bn by (simp add: idle_patch_def)
    have "map_of (spread ?base patch) ''idleDefaultEnabled'' = Some (JBool b)"
      "map_of (spread ?base patch) ''idleDefaultMinutes'' = Some (JInt n)"
      "map_of (spread ?base patch) ''idleReasons'' = map_of ?base ''idleReasons''"
      "map_of (spread ?base patch) ''departmentIdle'' = map_of ?base ''departmentIdle''"
      unfolding map_of_spread patch by simp_all
    then show ?thesis using None bn
      by (simp add: org org' idleFromStored_fields bool_of_def reasonsFromStored_ok)
  next
    case (Some incoming)
    obtain nxt where nxt: "applyReasonsUpdate nfkd (oi_reasons org) incoming = Inr nxt"
      and patch: "patch = [(''idleDefaultEnabled'', JBool b), (''idleDefaultMinutes'', JInt n), (''idleReasons'', storedReasons nxt),
        (''departmentIdle'', storedDepartments (known_only (map aw_key nxt)) (oi_departments org))]"
      using p bn Some by (auto simp: idle_patch_def split: sum.splits)
    have rok: "reasons_ok (oi_reasons org)" by (simp add: org idleFromStored_fields reasonsFromStored_ok)
    note u = updated_reasons [OF rok nxt]
    have m: "map_of (spread ?base patch) ''idleDefaultEnabled'' = Some (JBool b)"
      "map_of (spread ?base patch) ''idleDefaultMinutes'' = Some (JInt n)"
      "map_of (spread ?base patch) ''idleReasons'' = Some (storedReasons nxt)"
      "map_of (spread ?base patch) ''departmentIdle'' = Some (storedDepartments (known_only (map aw_key nxt)) (oi_departments org))"
      unfolding map_of_spread patch by simp_all
    have r': "oi_reasons org' = nxt"
      by (simp add: org' idleFromStored_fields m stored_reasons_read_back [OF u(1)])
    have "overrides_ok (map aw_key nxt) (map (\<lambda>(i, d). (i, known_only (map aw_key nxt) d)) (oi_departments org))"
      using idle_overrides_ok [of ?base] by (intro overrides_known_only) (simp add: org)
    from stored_overrides_read [OF this]
    have "override org' d = known_only (map aw_key nxt) (override org d)" for d
      using r' by (simp add: override_def org' idleFromStored_fields m split: option.split)
    then show ?thesis using Some bn u r'
      by (simp add: org' idleFromStored_fields(1,2) m(1,2) bool_of_def)
  qed
qed

text \<open>C36: Naming a new reason ends. The search for a free key, a loop without a bound, always ends: the key
  found is new, and it is the label's own or one of the first numbered ones, at most as many as there
  are keys taken.\<close>

theorem naming_a_reason_ends:
  "customReasonKey nfkd label taken \<notin> set taken
   \<and> (customReasonKey nfkd label taken = key_base nfkd label
      \<or> (\<exists>n. 2 \<le> n \<and> n \<le> length taken + 1 \<and> customReasonKey nfkd label taken = numbered_key (key_base nfkd label) n))"
  using custom_key_new custom_key_cases by blast

lemma chosen_keys_known: "chosen_keys v reasons = Inr (Some ks) \<Longrightarrow> set ks \<subseteq> set (map aw_key reasons)"
  by (cases v; cases "the v") (auto split: if_splits)

lemma validated_override_ok:
  assumes "validateDepartmentIdle input reasons = Inr d"
  shows "override_ok (map aw_key reasons) d"
proof -
  obtain keys where k: "chosen_keys (or_null (dn_reasonKeys input)) reasons = Inr keys" "di_reasonKeys d = keys"
    "di_minutes d = minutes_of (or_null (dn_minutes input))"
    using assms by (auto simp: validateDepartmentIdle_def Let_def split: if_splits sum.splits)
  have "validMinutes (JInt n)" if "di_minutes d = Some n" for n
    using that k(3) by (auto simp: minutes_of_def split: option.splits json.splits if_splits)
  then show ?thesis using k chosen_keys_known [of "or_null (dn_reasonKeys input)" reasons] by (auto simp: override_ok_def)
qed

lemma set_update: "set (AList.update i d ds) \<subseteq> insert (i, d) (set ds)"
  by (induction ds) auto

lemma set_delete: "set (AList.delete i ds) \<subseteq> set ds"
  by (induction ds) auto

lemma overrides_update:
  assumes "overrides_ok known ds" "override_ok known d"
  shows "overrides_ok known (AList.update i d ds)" "overrides_ok known (AList.delete i ds)"
proof -
  have all: "\<forall>x \<in> set ds. override_ok known (snd x)" and dist: "distinct (map fst ds)"
    using assms(1) by (auto simp: overrides_ok_def)
  have "\<forall>x \<in> set (AList.update i d ds). override_ok known (snd x)" using all assms(2) set_update [of i d ds] by fastforce
  then show "overrides_ok known (AList.update i d ds)" using distinct_update [OF dist] by (auto simp: overrides_ok_def)
  have "\<forall>x \<in> set (AList.delete i ds). override_ok known (snd x)" using all set_delete [of i ds] by blast
  then show "overrides_ok known (AList.delete i ds)" using distinct_delete [OF dist] by (auto simp: overrides_ok_def)
qed

text \<open>A department's edit touches that department only. After any history of the settings service, an
  accepted edit of a department's override is what every read shows for it until the organisation's row
  is written again, a default one being no entry at all; the organisation's defaults, its
  reasons and every other department's override stay as they were.\<close>

theorem a_department_edit_touches_that_department:
  assumes "s = settings_run before (fresh_service rows people)" "c \<noteq> []"
    and "updateDepartmentIdle isLive c dept input now s = (return raw, s')"
    and "\<forall>(t, x) \<in> set after. writes_for x \<noteq> Some c"
    and "org = idle_at c now s" "org' = idle_at c later (settings_run after s')"
  shows "isLive c dept
    \<and> validateDepartmentIdle input (oi_reasons org) = Inr (override org' dept)
    \<and> (\<forall>d. d \<noteq> dept \<longrightarrow> override org' d = override org d)
    \<and> oi_reasons org' = oi_reasons org
    \<and> oi_defaultEnabled org' = oi_defaultEnabled org \<and> oi_defaultMinutes org' = oi_defaultMinutes org"
proof -
  have ok: "cache_ok s" using settings_run_keeps [OF fresh_service_ok] assms(1) by simp
  let ?base = "fst (readRaw (Some c) now s)"
  have org: "org = idleFromStored ?base" by (simp add: assms(5) idle_at_def)
  obtain d where d: "validateDepartmentIdle input (oi_reasons org) = Inr d" and live: "isLive c dept"
    and s': "s' = snd (writeRaw c [(''departmentIdle'', storedDepartments id
        (if isDefaultDepartmentIdle d then AList.delete dept (oi_departments org) else AList.update dept d (oi_departments org)))]
        now (snd (readRaw (Some c) now s)))"
    using assms(3)
    by (cases "readRaw (Some c) now s") (auto simp: updateDepartmentIdle_def org Let_def split: sum.splits prod.splits if_splits)
  define ds where "ds = (if isDefaultDepartmentIdle d then AList.delete dept (oi_departments org) else AList.update dept d (oi_departments org))"
  let ?known = "map aw_key (oi_reasons org)"
  have "overrides_ok ?known (oi_departments org)" using idle_overrides_ok [of ?base] by (simp add: org)
  moreover have "override_ok ?known d" by (rule validated_override_ok [OF d])
  ultimately have "overrides_ok ?known ds" using overrides_update by (simp add: ds_def)
  then have dsok: "overrides_ok ?known (map (\<lambda>(i, d). (i, id d)) ds)" by simp
  have org': "org' = idleFromStored (spread ?base [(''departmentIdle'', storedDepartments id ds)])"
    using read_after_write [OF ok assms(2,4) s'] by (simp add: assms(6) idle_at_def ds_def)
  have r: "oi_reasons org' = oi_reasons org" by (simp add: org org' idleFromStored_fields update_conv')
  have "override org' k = (case map_of ds k of Some d \<Rightarrow> d | None \<Rightarrow> no_department_override)" for k
    using stored_overrides_read [OF dsok, of k] r
    by (simp add: override_def org' idleFromStored_fields(3,4) update_conv' id_def split: option.split)
  moreover have "map_of ds k = (if k = dept then if d = no_department_override then None else Some d else map_of (oi_departments org) k)" for k
    by (simp add: ds_def default_override update_conv' delete_conv')
  ultimately have "override org' k = (if k = dept then d else override org k)" for k
    by (simp add: override_def coalesce_def split: option.split)
  then show ?thesis using live d r by (simp add: org org' idleFromStored_fields update_conv')
qed

text \<open>Whatever is stored, the agent always offers "Took a break", and its waiting time is in range unless
  the person has their own.\<close>

lemma break_is_always_offered:
  "(\<exists>r \<in> set (ei_reasons (effectiveIdle (idleFromStored raw) dept enabled minutes)). or_key r = ''BREAK'')
   \<and> distinct (map or_key (ei_reasons (effectiveIdle (idleFromStored raw) dept enabled minutes)))
   \<and> validMinutes (JInt (ei_minutes (effectiveIdle (idleFromStored raw) dept enabled None)))"
proof -
  let ?org = "idleFromStored raw"
  have rok: "reasons_ok (oi_reasons ?org)" by (simp add: idleFromStored_fields reasonsFromStored_ok)
  have "''BREAK'' \<in> aw_key ` set BUILT_IN_REASONS" by (simp add: BUILT_IN_REASONS_def built_in_def)
  then have "''BREAK'' \<in> aw_key ` set (oi_reasons ?org)" using reasons_ok_facts(5) [OF rok] by blast
  then have a: "\<exists>r \<in> set (ei_reasons (effectiveIdle ?org dept enabled minutes)). or_key r = ''BREAK''"
    by (force simp: effectiveIdle_def Let_def)
  have b: "distinct (map or_key (ei_reasons (effectiveIdle ?org dept enabled minutes)))"
    using reasons_ok_facts(2) [OF rok] by (simp add: effectiveIdle_def Let_def o_def distinct_map_filter)
  have own: "override_ok (map aw_key (oi_reasons ?org)) (override ?org d)" for d
  proof (cases "map_of (oi_departments ?org) d")
    case (Some x)
    then have "(d, x) \<in> set (oi_departments ?org)" by (rule map_of_SomeD)
    then have "override_ok (map aw_key (oi_reasons ?org)) x" using idle_overrides_ok [of raw] unfolding overrides_ok_def by blast
    then show ?thesis by (simp add: override_def Some)
  qed (simp add: override_def override_ok_def no_department_override_def)
  have dm: "validMinutes (JInt (oi_defaultMinutes ?org))"
    by (auto simp: idleFromStored_fields minutes_of_def coalesce_def IDLE_DEFAULT_MINUTES_def validMinutes_def IDLE_MINUTES_def
        split: option.splits json.splits)
  have "ei_minutes (effectiveIdle ?org dept enabled None) =
      coalesce (case dept of Some d \<Rightarrow> if d \<noteq> [] then di_minutes (override ?org d) else None | None \<Rightarrow> None) (oi_defaultMinutes ?org)"
    by (auto simp: effectiveIdle_def Let_def override_def no_department_override_def coalesce_def split: option.split)
  then have "validMinutes (JInt (ei_minutes (effectiveIdle ?org dept enabled None)))"
    using own dm by (auto simp: override_ok_def coalesce_def split: option.split)
  then show ?thesis using a b by blast
qed

section \<open>Witnesses\<close>

definition rename_and_add :: "reason_input list" where
  "rename_and_add =
     [\<lparr>ri_key = Some ''BREAK'', ri_label = Some ''Tea''\<rparr>, \<lparr>ri_key = Some ''THINKING'', ri_label = Some ''Thinking''\<rparr>,
      \<lparr>ri_key = Some ''MEETING'', ri_label = Some ''Short meeting''\<rparr>, \<lparr>ri_key = Some ''HARDWARE'', ri_label = Some ''Hardware''\<rparr>,
      \<lparr>ri_key = Some ''OTHER'', ri_label = Some ''Other work''\<rparr>, \<lparr>ri_key = None, ri_label = Some ''Lab  bench''\<rparr>]"

definition lab_edit :: idle_update where
  "lab_edit = \<lparr>iu_defaultEnabled = Some (JBool True), iu_defaultMinutes = Some (JInt 7), iu_reasons = Some rename_and_add\<rparr>"

lemma lab_edit_accepted:
  "\<exists>raw s'. updateIdle id ''a'' lab_edit 0 empty_settings = (return raw, s')"
proof -
  have r: "reasonsFromStored None = BUILT_IN_REASONS" by code_simp
  have "\<exists>v. applyReasonsUpdate id BUILT_IN_REASONS rename_and_add = Inr v" 
  proof -
    have "case applyReasonsUpdate id BUILT_IN_REASONS rename_and_add of Inl _ \<Rightarrow> False | Inr _ \<Rightarrow> True" by code_simp
    then show ?thesis by (auto split: sum.splits)
  qed
  then obtain v where "applyReasonsUpdate id BUILT_IN_REASONS rename_and_add = Inr v" ..
  moreover have "oi_reasons (idleFromStored []) = BUILT_IN_REASONS" by (simp add: idleFromStored_fields r)
  ultimately have "\<exists>p. idle_patch id lab_edit (idleFromStored []) = Inr p" by (simp add: idle_patch_def lab_edit_def)
  then obtain p where p: "idle_patch id lab_edit (idleFromStored []) = Inr p" ..
  have "fst (readRaw (Some ''a'') 0 empty_settings) = []"
    unfolding readRaw_value [OF fresh_service_ok] by (simp add: stored_raw_def fresh_service_def)
  then show ?thesis
    by (cases "readRaw (Some ''a'') 0 empty_settings")
       (simp add: updateIdle_def lab_edit_def [THEN arg_cong [of _ _ iu_defaultEnabled]] lab_edit_def [THEN arg_cong [of _ _ iu_defaultMinutes]]
         bool_of_def minutes_of_def validMinutes_def IDLE_MINUTES_def p writeRaw_def Let_def)
qed

theorem saved_reasons_are_read_back_witness:
  "\<exists>s'. oi_defaultMinutes (idle_at ''a'' 9 (settings_run [(3, UpdateSettings ''b'' ninety)] s')) = 7"
proof -
  obtain raw s' where e: "updateIdle id ''a'' lab_edit 0 empty_settings = (return raw, s')" using lab_edit_accepted by blast
  have "iu_defaultMinutes lab_edit = Some (JInt (oi_defaultMinutes (idle_at ''a'' 9 (settings_run [(3, UpdateSettings ''b'' ninety)] s'))))"
    using saved_reasons_are_read_back [where before = "[]" and rows = "\<lambda>_. None" and people = "\<lambda>_. None" and s = empty_settings and c = "''a''"
        and after = "[(3, UpdateSettings ''b'' ninety)]" and later = 9, OF _ _ e _ refl refl]
    by simp
  then show ?thesis by (intro exI [of _ s']) (simp add: lab_edit_def)
qed

definition never_idle :: department_input where
  "never_idle = \<lparr>dn_enabled = Some (JBool False), dn_minutes = None, dn_reasonKeys = None\<rparr>"

theorem a_department_edit_touches_that_department_witness:
  "\<exists>s'. di_enabled (override (idle_at ''a'' 9 (settings_run [(3, ReadSettings (Some ''b''))] s')) ''d'') = Some False"
proof -
  have v: "validateDepartmentIdle never_idle rs = Inr \<lparr>di_enabled = Some False, di_minutes = None, di_reasonKeys = None\<rparr>" for rs
    by (simp add: validateDepartmentIdle_def never_idle_def or_null_def bool_of_def minutes_of_def)
  have "\<exists>raw s'. updateDepartmentIdle (\<lambda>_ _. True) ''a'' ''d'' never_idle 0 empty_settings = (return raw, s')"
    by (cases "readRaw (Some ''a'') 0 empty_settings") (simp add: updateDepartmentIdle_def v writeRaw_def Let_def)
  then obtain raw s' where e: "updateDepartmentIdle (\<lambda>_ _. True) ''a'' ''d'' never_idle 0 empty_settings = (return raw, s')" by blast
  have "validateDepartmentIdle never_idle (oi_reasons (idle_at ''a'' 0 empty_settings))
      = Inr (override (idle_at ''a'' 9 (settings_run [(3, ReadSettings (Some ''b''))] s')) ''d'')"
    using a_department_edit_touches_that_department [where before = "[]" and rows = "\<lambda>_. None" and people = "\<lambda>_. None" and s = empty_settings
        and c = "''a''" and after = "[(3, ReadSettings (Some ''b''))]" and later = 9, OF _ _ e _ refl refl]
    by simp
  then have "override (idle_at ''a'' 9 (settings_run [(3, ReadSettings (Some ''b''))] s')) ''d''
      = \<lparr>di_enabled = Some False, di_minutes = None, di_reasonKeys = None\<rparr>"
    unfolding v by (simp only: sum.inject)
  then show ?thesis by (intro exI [of _ s']) (simp only: department_idle.select_convs)
qed

end
