(* ===== verification/Away.thy ===== *)
theory Away
  imports Meeting_Guarantees My_Breaks Idle_Settings
begin

text \<open>
  Away (input) tracking: \<open>src/src/modules/worktime/infrastructure/prisma-away.repository.ts\<close> with the row
  types of \<open>domain/away.repository.ts\<close>, and the answers to the agent's pop-up,
  \<open>application/away.service.ts\<close>. The tables are those of \<open>Meetings\<close> with the away rows added.
  What other services answer is a parameter: the reasons offered to the person
  (\<open>Idle_Settings.effectiveIdleFor\<close>), the person's own row, which of the named participants are active
  people of the organisation, and for a break the person and their break day at an instant
  (\<open>My_Breaks\<close>). Request bodies have passed their DTO, a \<open>startedAt\<close> that is no date is None.
  \<open>createdAt\<close>, views and notices are left out.
\<close>

section \<open>Rows\<close>

fun away_status_of :: "approval_status \<Rightarrow> away_status" where
  "away_status_of Pending = AwPending"
| "away_status_of Approved = AwApproved"
| "away_status_of Rejected = AwRejected"
| "away_status_of NotRequired = AwNotRequired"

record new_away =
  na_userId :: uid
  na_companyId :: "uid option"
  na_date :: string
  na_startedAt :: int
  na_endedAt :: int
  na_reasonKey :: "string option"
  na_reasonKind :: "away_kind option"
  na_reasonLabel :: "string option"
  na_comment :: "string option"
  na_participants :: "participant list"
  na_momSender :: "string option"
  na_status :: away_status
  na_approverRole :: "role option"
  na_dueAt :: "int option"

record away_row =
  ay_id :: uid
  ay_data :: new_away
  ay_endedAt :: "int option"
  ay_seconds :: "int option"
  ay_decidedById :: "uid option"
  ay_decidedAt :: "int option"
  ay_decisionNote :: "string option"
  ay_clock :: pending_clock

abbreviation ay_userId :: "away_row \<Rightarrow> uid" where "ay_userId r \<equiv> na_userId (ay_data r)"
abbreviation ay_date :: "away_row \<Rightarrow> string" where "ay_date r \<equiv> na_date (ay_data r)"
abbreviation ay_startedAt :: "away_row \<Rightarrow> int" where "ay_startedAt r \<equiv> na_startedAt (ay_data r)"
abbreviation ay_reasonKey :: "away_row \<Rightarrow> string option" where "ay_reasonKey r \<equiv> na_reasonKey (ay_data r)"
abbreviation ay_status :: "away_row \<Rightarrow> away_status" where "ay_status r \<equiv> na_status (ay_data r)"
abbreviation ay_approverRole :: "away_row \<Rightarrow> role option" where "ay_approverRole r \<equiv> na_approverRole (ay_data r)"

record away_decision =
  ad_status :: approval_status
  ad_decidedById :: "uid option"
  ad_decidedAt :: "int option"
  ad_note :: "string option"
  ad_dueAt :: "int option"

record away_db =
  aw_rows :: "away_row list"
  aw_nextId :: uid
  aw_meet :: meet_db

abbreviation aw_tables :: "away_db \<Rightarrow> break_db" where "aw_tables d \<equiv> md_tables (aw_meet d)"

type_synonym 'a away_tx = "away_db \<Rightarrow> (db_error + 'a) \<times> away_db"

section \<open>The repository\<close>

definition by_away_start :: "away_row \<Rightarrow> away_row \<Rightarrow> int" where
  "by_away_start a b = ay_startedAt a - ay_startedAt b"

text \<open>An away stretch of the person that shares time with \<open>[start, stop)\<close>, as the query asks.\<close>

definition away_overlaps :: "uid \<Rightarrow> int \<Rightarrow> int \<Rightarrow> away_row \<Rightarrow> bool" where
  "away_overlaps u start stop r =
     (ay_userId r = u \<and> ay_startedAt r < stop \<and> (case ay_endedAt r of None \<Rightarrow> True | Some e \<Rightarrow> e > start))"

datatype create_away_result = AwayCreated away_row | AwayOverlap away_row

definition fresh_away :: "new_away \<Rightarrow> uid \<Rightarrow> away_row" where
  "fresh_away n i =
     \<lparr>ay_id = i, ay_data = n, ay_endedAt = Some (na_endedAt n),
      ay_seconds = Some (max 0 (round_div (na_endedAt n - na_startedAt n) 1000)), ay_decidedById = None, ay_decidedAt = None,
      ay_decisionNote = None, ay_clock = no_clock\<lparr>pc_dueAt := na_dueAt n\<rparr>\<rparr>"

definition create_away :: "new_away \<Rightarrow> create_away_result away_tx" where
  "create_away n d =
     (case js_sort by_away_start (filter (away_overlaps (na_userId n) (na_startedAt n) (na_endedAt n)) (aw_rows d)) of
        r # _ \<Rightarrow> (Inr (AwayOverlap r), d)
      | [] \<Rightarrow>
          if na_status n = AwPending \<and> isMonthLocked (aw_tables d) (na_date n) (na_userId n)
          then (Inl (App (ConflictError ''MONTH_LOCKED'')), d)
          else
            (let row = fresh_away n (aw_nextId d)
             in (Inr (AwayCreated row), d\<lparr>aw_rows := aw_rows d @ [row], aw_nextId := Suc (aw_nextId d)\<rparr>)))"

definition find_away :: "away_db \<Rightarrow> uid \<Rightarrow> away_row option" where
  "find_away d i = List.find (\<lambda>r. ay_id r = i) (aw_rows d)"

definition away_by_ids :: "away_db \<Rightarrow> uid list \<Rightarrow> away_row list" where
  "away_by_ids d ids = filter (\<lambda>r. ay_id r \<in> set ids) (aw_rows d)"

definition away_for_users :: "away_db \<Rightarrow> uid list \<Rightarrow> string \<Rightarrow> string \<Rightarrow> away_row list" where
  "away_for_users d us d0 d1 =
     js_sort by_away_start (filter (\<lambda>r. ay_userId r \<in> set us \<and> d0 \<le> ay_date r \<and> ay_date r \<le> d1) (aw_rows d))"

definition update_away :: "(away_row \<Rightarrow> bool) \<Rightarrow> (away_row \<Rightarrow> away_row) \<Rightarrow> away_db \<Rightarrow> away_db" where
  "update_away P f d = d\<lparr>aw_rows := map (\<lambda>r. if P r then f r else r) (aw_rows d)\<rparr>"

text \<open>SQL's \<open>NOT (approver_role = x)\<close> does not hold of a row without an approver role.\<close>

definition reroutePending :: "uid \<Rightarrow> role \<Rightarrow> away_db \<Rightarrow> nat \<times> away_db" where
  "reroutePending u approver d =
     (let hit = (\<lambda>r. ay_userId r = u \<and> ay_status r = AwPending \<and> ay_approverRole r \<noteq> None \<and> ay_approverRole r \<noteq> Some approver)
      in (length (filter hit (aw_rows d)),
          update_away hit (\<lambda>r. r\<lparr>ay_data := (ay_data r)\<lparr>na_approverRole := Some approver\<rparr>\<rparr>) d))"

definition decided_away :: "away_decision \<Rightarrow> away_row \<Rightarrow> away_row" where
  "decided_away dc r =
     r\<lparr>ay_data := (ay_data r)\<lparr>na_status := away_status_of (ad_status dc)\<rparr>, ay_decidedById := ad_decidedById dc,
       ay_decidedAt := ad_decidedAt dc, ay_decisionNote := ad_note dc,
       ay_clock := (if ad_status dc = Pending then \<lparr>pc_dueAt = ad_dueAt dc, pc_escalatedAt = None, pc_remindedAt = None\<rparr>
                    else ay_clock r)\<rparr>"

definition decide_away :: "uid \<Rightarrow> away_status list \<Rightarrow> away_decision \<Rightarrow> away_row option away_tx" where
  "decide_away i expected dc d =
     (case find_away d i of
        None \<Rightarrow> (Inr None, d)
      | Some r \<Rightarrow>
          if isMonthLocked (aw_tables d) (ay_date r) (ay_userId r) then (Inl (App (ConflictError ''MONTH_LOCKED'')), d)
          else if ay_status r \<notin> set expected then (Inr None, d)
          else (let d1 = update_away (\<lambda>x. ay_id x = i) (decided_away dc) d in (Inr (find_away d1 i), d1)))"

section \<open>Bounds of an away stretch\<close>

definition MAX_AWAY_MS :: int where "MAX_AWAY_MS = 16 * 3600000"

definition SKEW_MS :: int where "SKEW_MS = 2 * 60000"

text \<open>\<open>presenceOverlapping([userId], from, to)\<close>.\<close>

definition presenceOverlapping :: "break_db \<Rightarrow> uid \<Rightarrow> int \<Rightarrow> int \<Rightarrow> presence_session list" where
  "presenceOverlapping db u t0 t1 =
     filter (\<lambda>p. ss_userId p = u \<and> ss_startedAt p \<le> t1 \<and> (case ss_endedAt p of None \<Rightarrow> True | Some e \<Rightarrow> e \<ge> t0)) (db_presence db)"

definition last_accounted :: "presence_session list \<Rightarrow> int \<Rightarrow> int" where
  "last_accounted ps now = fold max (List.map_filter (\<lambda>p. case ss_endedAt p of Some e \<Rightarrow> if e \<le> now then Some e else None | None \<Rightarrow> None) ps) 0"

text \<open>When an earlier answer ended.\<close>

definition end_of :: "away_row \<Rightarrow> int" where
  "end_of r = coalesce (ay_endedAt r) (ay_startedAt r + coalesce (ay_seconds r) 0 * 1000)"

definition covered_until :: "away_row list \<Rightarrow> int \<Rightarrow> int" where
  "covered_until earlier start = fold max (map end_of (filter (\<lambda>r. ay_startedAt r \<le> start \<and> end_of r > start) earlier)) 0"

definition bounded_start :: "break_db \<Rightarrow> uid \<Rightarrow> work_session \<Rightarrow> int \<Rightarrow> int \<Rightarrow> int" where
  "bounded_start db u opened startedAt now =
     min now (max (max startedAt (wk_startedAt opened)) (last_accounted (presenceOverlapping db u startedAt now) now))"

definition same_answer :: "string \<Rightarrow> int \<Rightarrow> away_row \<Rightarrow> bool" where
  "same_answer key start r = (ay_reasonKey r = Some key \<and> \<bar>ay_startedAt r - start\<bar> < 1000)"

definition away_bounds :: "uid \<Rightarrow> int option \<Rightarrow> int \<Rightarrow> string \<Rightarrow> away_db \<Rightarrow> (work_session \<times> int \<times> away_row option) result" where
  "away_bounds u startedAt now key d =
     (case startedAt of
        None \<Rightarrow> throw (ValidationError ''VALIDATION_ERROR'')
      | Some at \<Rightarrow>
          if at > now + SKEW_MS then throw (UnprocessableError ''AWAY_TIME_INVALID'')
          else if now - at > MAX_AWAY_MS then throw (UnprocessableError ''AWAY_TIME_INVALID'')
          else (case findOpen (md_work (aw_meet d)) u of
            None \<Rightarrow> throw (ConflictError ''DAY_NOT_STARTED'')
          | Some opened \<Rightarrow>
              if \<exists>p \<in> set (presenceOverlapping (aw_tables d) u at now). ss_endedAt p = None then throw (ConflictError ''NOT_AWAY'')
              else
                (let start = bounded_start (aw_tables d) u opened at now;
                     earlier = filter (\<lambda>r. ay_startedAt r < now) (away_for_users d [u] (wk_date opened) (wk_date opened))
                 in case List.find (same_answer key start) earlier of
                      Some r \<Rightarrow> return (opened, start, Some r)
                    | None \<Rightarrow> return (opened, (let c = covered_until earlier start in if c > start then min c now else start), None))))"

section \<open>Answering the pop-up\<close>

record away_answer =
  an_startedAt :: "int option"
  an_reasonKey :: string
  an_comment :: "string option"
  an_participants :: "participant list"
  an_momSender :: "string option"

text \<open>What the request's services answer; \<open>quick\<close> is the person with their break days.\<close>

record away_services =
  as_idle :: effective_idle
  as_subject :: "person_row option"
  as_known :: "string set"
  as_quick :: "shift_person \<times> (int \<Rightarrow> break_day)"
  as_zone :: zone

datatype away_result = AwayAnswered away_row | BreakStarted break_record_row "uid option"

definition planned_min :: "int \<Rightarrow> int \<Rightarrow> int" where
  "planned_min start now = (let awayMin = max 1 (ceil_div (now - start) 60000) in min 60 (max 5 (ceil_div awayMin 5 * 5)))"

definition away_participants :: "away_kind \<Rightarrow> away_answer \<Rightarrow> string set \<Rightarrow> participant list" where
  "away_participants kind a known = (if kind = ShortMeeting then cleanParticipants (an_participants a) known else [])"

definition mom_sender :: "away_kind \<Rightarrow> away_answer \<Rightarrow> string option" where
  "mom_sender kind a =
     (if kind = ShortMeeting then (let m = cleanText (an_momSender a) in if m = [] then None else Some m) else None)"

text \<open>The fields that are missing or too long.\<close>

definition away_problems :: "away_kind \<Rightarrow> away_answer \<Rightarrow> string set \<Rightarrow> string list" where
  "away_problems kind a known =
     (let comment = cleanText (an_comment a); participants = away_participants kind a known; mom = mom_sender kind a in
      (if ''comment'' \<in> set (REASON_FIELDS kind) \<and> (length comment < 3 \<or> length comment > 200) then [''comment''] else [])
      @ (if kind = ShortMeeting
         then (if length participants < 1 \<or> length participants > 30 then [''participants''] else [])
              @ (case mom of None \<Rightarrow> [''momSender''] | Some m \<Rightarrow> if length m < 2 \<or> length m > 80 then [''momSender''] else [])
         else []))"

definition new_away_of :: "auth_user \<Rightarrow> away_answer \<Rightarrow> offered_reason \<Rightarrow> away_services \<Rightarrow> work_session \<Rightarrow> int \<Rightarrow> clock_frame \<Rightarrow> int \<Rightarrow> new_away" where
  "new_away_of me a r sv opened start clk sla =
     (let rt = (case as_subject sv of Some p \<Rightarrow> route (pf_role p) (pf_departmentId p)
                | None \<Rightarrow> \<lparr>rd_status = NotRequired, rd_approverRole = None, rd_approverId = None\<rparr>);
          pending = (rd_status rt = Pending); now = clock_now clk; comment = cleanText (an_comment a)
      in \<lparr>na_userId = u_id me,
          na_companyId = (case Option.bind (as_subject sv) pf_companyId of Some c \<Rightarrow> Some c | None \<Rightarrow> u_companyId me),
          na_date = wk_date opened, na_startedAt = start, na_endedAt = now, na_reasonKey = Some (or_key r),
          na_reasonKind = Some (or_kind r), na_reasonLabel = Some (or_label r),
          na_comment = (if comment = [] then None else Some comment),
          na_participants = away_participants (or_kind r) a (as_known sv), na_momSender = mom_sender (or_kind r) a,
          na_status = (if pending then AwPending else AwNotRequired),
          na_approverRole = (if pending then rd_approverRole rt else None),
          na_dueAt = (if pending then pc_dueAt (pendingClock clk now sla) else None)\<rparr>)"

definition start_away_break :: "away_services \<Rightarrow> int \<Rightarrow> clock_frame \<Rightarrow> away_result away_tx" where
  "start_away_break sv start clk d =
     (let (p, dayAt) = as_quick sv; w = md_work (aw_meet d) in
      case start_quick_break p (dayAt start) (planned_min start (clock_now clk)) start (as_zone sv) (shared_tables w) of
        (Inl e, db) \<Rightarrow> (Inl e, d)
      | (Inr (v, sid), db) \<Rightarrow>
          (Inr (BreakStarted v sid),
           d\<lparr>aw_meet := (aw_meet d)\<lparr>md_work := w\<lparr>wd_tables := db\<rparr>\<rparr>\<rparr>))"

definition submit_away :: "away_services \<Rightarrow> auth_user \<Rightarrow> away_answer \<Rightarrow> clock_frame \<Rightarrow> away_result away_tx" where
  "submit_away sv me a clk d =
     (let now = clock_now clk in
      case List.find (\<lambda>r. or_key r = an_reasonKey a) (ei_reasons (as_idle sv)) of
        None \<Rightarrow> (Inl (App (UnprocessableError ''AWAY_REASON_UNKNOWN'')), d)
      | Some reason \<Rightarrow>
          (case away_bounds (u_id me) (an_startedAt a) now (an_reasonKey a) d of
             Inl e \<Rightarrow> (Inl (App e), d)
           | Inr (opened, start, Some r) \<Rightarrow> (Inr (AwayAnswered r), d)
           | Inr (opened, start, None) \<Rightarrow>
               if or_kind reason = BreakReason then start_away_break sv start clk d
               else if away_problems (or_kind reason) a (as_known sv) \<noteq> [] then (Inl (App (UnprocessableError ''AWAY_FIELDS'')), d)
               else
                 (case create_away (new_away_of me a reason sv opened start clk (db_sla (aw_tables d) (u_id me))) d of
                    (Inl e, d') \<Rightarrow> (Inl e, d')
                  | (Inr (AwayCreated r), d') \<Rightarrow> (Inr (AwayAnswered r), d')
                  | (Inr (AwayOverlap r), d') \<Rightarrow>
                      if same_answer (or_key reason) start r then (Inr (AwayAnswered r), d')
                      else (Inl (App (ConflictError ''AWAY_OVERLAP'')), d'))))"

section \<open>The pop-up nobody answered\<close>

definition unexplained :: "auth_user \<Rightarrow> int \<Rightarrow> int \<Rightarrow> int \<Rightarrow> away_row option away_tx" where
  "unexplained me startedAt endedAt now d =
     (if endedAt \<le> startedAt then (Inl (App (ValidationError ''VALIDATION_ERROR'')), d)
      else if endedAt > now + SKEW_MS then (Inl (App (UnprocessableError ''AWAY_TIME_INVALID'')), d)
      else
        (let w = md_work (aw_meet d) in
         case (case findOpen w (u_id me) of Some s \<Rightarrow> Some s | None \<Rightarrow> findLastEnded w (u_id me)) of
           None \<Rightarrow> (Inl (App (ConflictError ''DAY_NOT_STARTED'')), d)
         | Some latest \<Rightarrow>
             (let start = max startedAt (wk_startedAt latest); stop = min (min endedAt (coalesce (wk_endedAt latest) now)) now in
              if stop - start < 1000 then (Inr None, d)
              else
                (case create_away \<lparr>na_userId = u_id me, na_companyId = u_companyId me, na_date = wk_date latest, na_startedAt = start,
                        na_endedAt = stop, na_reasonKey = None, na_reasonKind = None, na_reasonLabel = None, na_comment = None,
                        na_participants = [], na_momSender = None, na_status = AwUnexplained, na_approverRole = None,
                        na_dueAt = None\<rparr> d of
                   (Inl e, d') \<Rightarrow> (Inl e, d')
                 | (Inr (AwayCreated r), d') \<Rightarrow> (Inr (Some r), d')
                 | (Inr (AwayOverlap r), d') \<Rightarrow> (Inr (Some r), d')))))"

definition my_away :: "auth_user \<Rightarrow> string \<Rightarrow> string \<Rightarrow> away_db \<Rightarrow> away_row list" where
  "my_away me d0 d1 d = away_for_users d [u_id me] d0 d1"

definition find_own_away :: "auth_user \<Rightarrow> uid \<Rightarrow> away_db \<Rightarrow> away_row result" where
  "find_own_away me i d =
     (case find_away d i of
        None \<Rightarrow> throw (NotFoundError ''NOT_FOUND'')
      | Some r \<Rightarrow> if ay_userId r \<noteq> u_id me then throw (NotFoundError ''NOT_FOUND'') else return r)"

end
