(* ===== verification/Away_Guarantees.thy ===== *)
theory Away_Guarantees
  imports Away
begin

text \<open>
  What the away tables promise: away time of one person is never counted twice, an answer only covers time
  of the open working day nothing else accounts for, and when an answer that is sent twice is recognised.
\<close>

section \<open>Rows over a history\<close>

definition stretch :: "away_row \<Rightarrow> int set" where
  "stretch r = {ay_startedAt r ..< coalesce (ay_endedAt r) (ay_startedAt r)}"

definition away_row_ok :: "away_row \<Rightarrow> bool" where
  "away_row_ok r \<longleftrightarrow> (\<exists>e \<ge> ay_startedAt r. ay_endedAt r = Some e \<and> ay_seconds r = Some (round_div (e - ay_startedAt r) 1000))"

definition away_ok :: "away_db \<Rightarrow> bool" where
  "away_ok d \<longleftrightarrow> distinct (map ay_id (aw_rows d)) \<and> (\<forall>r \<in> set (aw_rows d). ay_id r < aw_nextId d \<and> away_row_ok r)
     \<and> (\<forall>r \<in> set (aw_rows d). \<forall>s \<in> set (aw_rows d). ay_id r \<noteq> ay_id s \<longrightarrow> ay_userId r = ay_userId s \<longrightarrow> stretch r \<inter> stretch s = {})"

lemma create_away_cases:
  obtains (refused) e where "create_away n d = (Inl e, d)"
  | (overlap) r where "create_away n d = (Inr (AwayOverlap r), d)" "r \<in> set (aw_rows d)" "ay_userId r = na_userId n"
  | (created) "create_away n d = (Inr (AwayCreated (fresh_away n (aw_nextId d))),
        d\<lparr>aw_rows := aw_rows d @ [fresh_away n (aw_nextId d)], aw_nextId := Suc (aw_nextId d)\<rparr>)"
      "\<forall>r \<in> set (aw_rows d). \<not> away_overlaps (na_userId n) (na_startedAt n) (na_endedAt n) r"
      "na_status n = AwPending \<longrightarrow> \<not> isMonthLocked (aw_tables d) (na_date n) (na_userId n)"
proof (cases "js_sort by_away_start (filter (away_overlaps (na_userId n) (na_startedAt n) (na_endedAt n)) (aw_rows d))")
  case Nil
  then have "\<forall>r \<in> set (aw_rows d). \<not> away_overlaps (na_userId n) (na_startedAt n) (na_endedAt n) r"
    by (simp add: filter_empty_conv)
  then show ?thesis using Nil refused created by (cases "na_status n = AwPending \<and> isMonthLocked (aw_tables d) (na_date n) (na_userId n)")
      (auto simp: create_away_def Let_def)
next
  case (Cons r rs)
  then have "r \<in> set (aw_rows d)" "ay_userId r = na_userId n" using js_sort_Cons_set [OF Cons] by (auto simp: away_overlaps_def)
  then show ?thesis using Cons overlap by (auto simp: create_away_def)
qed

lemma create_away_created:
  assumes "create_away n d = (Inr (AwayCreated r), d')"
  shows "r = fresh_away n (aw_nextId d) \<and> aw_rows d' = aw_rows d @ [r] \<and> aw_meet d' = aw_meet d
    \<and> (\<forall>x \<in> set (aw_rows d). \<not> away_overlaps (na_userId n) (na_startedAt n) (na_endedAt n) x)
    \<and> (na_status n = AwPending \<longrightarrow> \<not> isMonthLocked (aw_tables d) (na_date n) (na_userId n))"
  using assms by (cases rule: create_away_cases [of n d]) auto

lemma create_away_overlap: "create_away n d = (Inr (AwayOverlap r), d') \<Longrightarrow> r \<in> set (aw_rows d) \<and> d' = d"
  by (cases rule: create_away_cases [of n d]) auto

lemma round_div_mono_0: "0 \<le> x \<Longrightarrow> 0 \<le> round_div x 1000"
  by (simp add: round_div_def)

lemma fresh_away_sel [simp]:
  "ay_id (fresh_away n i) = i" "ay_data (fresh_away n i) = n" "ay_endedAt (fresh_away n i) = Some (na_endedAt n)"
  by (simp_all add: fresh_away_def)

lemma fresh_away_ok: "na_startedAt n \<le> na_endedAt n \<Longrightarrow> away_row_ok (fresh_away n i)"
  by (simp add: away_row_ok_def fresh_away_def max_absorb2 round_div_mono_0)

lemma apart_if_no_overlap:
  assumes "\<not> away_overlaps u a b r" "ay_userId r = u" "away_row_ok r"
  shows "stretch r \<inter> {a ..< b} = {}"
  using assms by (auto simp: away_overlaps_def away_row_ok_def stretch_def)

lemma create_away_ok:
  assumes "away_ok d" "na_startedAt n \<le> na_endedAt n"
  shows "away_ok (snd (create_away n d))"
proof (cases rule: create_away_cases [of n d])
  case created
  let ?f = "fresh_away n (aw_nextId d)"
  have "stretch r \<inter> stretch ?f = {}" if "r \<in> set (aw_rows d)" "ay_userId r = na_userId n" for r
  proof -
    have "stretch ?f = {na_startedAt n ..< na_endedAt n}" by (simp add: stretch_def)
    then show ?thesis using apart_if_no_overlap [of "na_userId n" "na_startedAt n" "na_endedAt n" r] created(2) that assms(1)
      by (simp add: away_ok_def)
  qed
  moreover have "ay_id r \<noteq> aw_nextId d" if "r \<in> set (aw_rows d)" for r using assms(1) that by (auto simp: away_ok_def)
  ultimately show ?thesis using assms fresh_away_ok [OF assms(2), of "aw_nextId d"] unfolding created(1)
    by (auto simp: away_ok_def less_Suc_eq Int_commute)
qed (use assms in auto)

text \<open>An update that keeps a row's owner and times.\<close>

definition same_stretch :: "away_row \<Rightarrow> away_row \<Rightarrow> bool" where
  "same_stretch r s \<longleftrightarrow> ay_id s = ay_id r \<and> ay_userId s = ay_userId r \<and> ay_startedAt s = ay_startedAt r
     \<and> ay_endedAt s = ay_endedAt r \<and> ay_seconds s = ay_seconds r"

lemma update_away_ok:
  assumes "away_ok d" "\<And>r. same_stretch r (f r)"
  shows "away_ok (update_away P f d)"
proof -
  let ?g = "\<lambda>r. if P r then f r else r"
  have g: "same_stretch r (?g r)" for r using assms(2) by (simp add: same_stretch_def)
  have ids: "map ay_id (map ?g (aw_rows d)) = map ay_id (aw_rows d)" using g by (auto simp: same_stretch_def)
  have sp: "stretch (?g r) = stretch r" "away_row_ok (?g r) = away_row_ok r" "ay_userId (?g r) = ay_userId r" "ay_id (?g r) = ay_id r" for r
    using g [of r] unfolding stretch_def away_row_ok_def same_stretch_def by metis+
  have set: "set (map ?g (aw_rows d)) = ?g ` set (aw_rows d)" by (simp only: list.set_map)
  have rows: "aw_rows (update_away P f d) = map ?g (aw_rows d)" "aw_nextId (update_away P f d) = aw_nextId d"
    by (simp_all add: update_away_def)
  show ?thesis unfolding away_ok_def rows ids set ball_simps sp using assms(1) unfolding away_ok_def by blast
qed

lemma decide_away_ok: "away_ok d \<Longrightarrow> away_ok (snd (decide_away i expected dc d))"
  by (auto simp: decide_away_def Let_def decided_away_def same_stretch_def intro!: update_away_ok split: option.split)

lemma reroutePending_ok: "away_ok d \<Longrightarrow> away_ok (snd (reroutePending u approver d))"
  by (auto simp: reroutePending_def Let_def same_stretch_def intro!: update_away_ok)


lemma fold_max_ge: "(x :: int) \<in> set xs \<or> x = a \<Longrightarrow> x \<le> fold max xs a"
proof (induction xs arbitrary: x a)
  case (Cons y ys)
  show ?case
  proof (cases "x \<in> set ys")
    case False
    then have "x \<le> max y a" using Cons.prems by auto
    also have "max y a \<le> fold max ys (max y a)" by (rule Cons.IH) simp
    finally show ?thesis by simp
  qed (use Cons.IH in simp)
qed simp

section \<open>Answers\<close>

lemma away_boundsE:
  assumes "away_bounds u at now key d = Inr (opened, start, None)"
  obtains s where "at = Some s" "s \<le> now + SKEW_MS" "now - s \<le> MAX_AWAY_MS" "findOpen (md_work (aw_meet d)) u = Some opened"
    "\<forall>p \<in> set (presenceOverlapping (aw_tables d) u s now). ss_endedAt p \<noteq> None"
    "bounded_start (aw_tables d) u opened s now \<le> start" "start \<le> now"
proof (cases "at")
  case (Some s)
  let ?b = "bounded_start (aw_tables d) u opened s now"
  have b: "?b \<le> now" by (simp add: bounded_start_def)
  have nf: "s \<le> now + SKEW_MS" "now - s \<le> MAX_AWAY_MS" using assms Some by (auto simp: away_bounds_def split: if_splits)
  obtain w where w: "findOpen (md_work (aw_meet d)) u = Some w"
    using assms Some nf by (auto simp: away_bounds_def split: option.splits)
  have ended: "\<forall>p \<in> set (presenceOverlapping (aw_tables d) u s now). ss_endedAt p \<noteq> None"
    using assms Some nf w by (auto simp: away_bounds_def split: if_splits)
  have res: "w = opened \<and> (start = ?b \<or> (\<exists>c > ?b. start = min c now))"
    using assms Some nf w ended by (auto simp: away_bounds_def Let_def split: option.splits if_splits)
  show ?thesis
  proof (rule that [OF Some nf _ ended])
    show "findOpen (md_work (aw_meet d)) u = Some opened" using w res by simp
    show "?b \<le> start" "start \<le> now" using res b by auto
  qed
qed (use assms in \<open>simp add: away_bounds_def\<close>)

lemma fold_max_in: "fold max xs (a :: int) \<in> insert a (set xs)"
proof (induction xs arbitrary: a)
  case (Cons x xs)
  then show ?case using Cons.IH [of "max x a"] by (auto simp: max_def split: if_splits)
qed simp

text \<open>Where a person may be accounted for up to: the start of the claim or of the day, an ended activity, an earlier
  answer. Instants count from the epoch.\<close>

definition accounted_until :: "away_db \<Rightarrow> uid \<Rightarrow> int \<Rightarrow> work_session \<Rightarrow> int \<Rightarrow> bool" where
  "accounted_until d u s w t \<longleftrightarrow>
     t = max 0 (max s (wk_startedAt w))
     \<or> list_ex (\<lambda>p. ss_userId p = u \<and> ss_endedAt p = Some t) (db_presence (aw_tables d))
     \<or> list_ex (\<lambda>x. ay_userId x = u \<and> end_of x = t) (aw_rows d)"

lemma last_accounted_in:
  "last_accounted (presenceOverlapping db u s now) now = 0
   \<or> list_ex (\<lambda>p. ss_userId p = u \<and> ss_endedAt p = Some (last_accounted (presenceOverlapping db u s now) now)) (db_presence db)"
  using fold_max_in [of "List.map_filter (\<lambda>p. case ss_endedAt p of Some e \<Rightarrow> if e \<le> now then Some e else None | None \<Rightarrow> None)
      (presenceOverlapping db u s now)" 0]
  unfolding last_accounted_def
  by (fastforce simp: map_filter_def presenceOverlapping_def list_ex_iff split: option.splits if_splits)

lemma bounded_start_exact:
  "\<exists>t. bounded_start (aw_tables d) u w s now = min now t \<and> 0 \<le> t \<and> accounted_until d u s w t"
proof -
  let ?m = "max s (wk_startedAt w)" and ?L = "last_accounted (presenceOverlapping (aw_tables d) u s now) now"
  have L: "0 \<le> ?L" unfolding last_accounted_def by (rule fold_max_ge) simp
  show ?thesis
  proof (cases "?L \<le> max 0 ?m")
    case True
    then have "max ?m ?L = max 0 ?m" using L by linarith
    then show ?thesis by (intro exI [of _ "max 0 ?m"]) (simp add: bounded_start_def accounted_until_def)
  next
    case False
    then have "max ?m ?L = ?L" "?L \<noteq> 0" by linarith+
    then show ?thesis using last_accounted_in [of "aw_tables d" u s now] L
      by (intro exI [of _ ?L]) (auto simp: bounded_start_def accounted_until_def)
  qed
qed

lemma away_bounds_start:
  assumes "away_bounds u (Some s) now key d = Inr (w, start, None)"
  shows "\<exists>t. start = min now t \<and> accounted_until d u s w t"
proof -
  let ?b = "bounded_start (aw_tables d) u w s now"
    and ?e = "filter (\<lambda>r. ay_startedAt r < now) (away_for_users d [u] (wk_date w) (wk_date w))"
  have st: "start = (let c = covered_until ?e ?b in if c > ?b then min c now else ?b)"
    using assms by (auto simp: away_bounds_def Let_def split: option.splits if_splits)
  obtain t where t: "?b = min now t" "0 \<le> t" "accounted_until d u s w t" using bounded_start_exact by blast
  show ?thesis
  proof (cases "covered_until ?e ?b > ?b")
    case False
    then show ?thesis using st t by (auto simp: Let_def)
  next
    case True
    then have c: "start = min now (covered_until ?e ?b)" using st by (simp add: Let_def min.commute)
    show ?thesis
    proof (cases "covered_until ?e ?b = 0")
      case zero: True
      then have "start = min now t" using True t c by linarith
      then show ?thesis using t by blast
    next
      case False
      then have "covered_until ?e ?b \<in> end_of ` set ?e"
        using fold_max_in [of "map end_of (filter (\<lambda>r. ay_startedAt r \<le> ?b \<and> end_of r > ?b) ?e)" 0]
        unfolding covered_until_def by auto
      then have "accounted_until d u s w (covered_until ?e ?b)"
        by (auto simp: accounted_until_def away_for_users_def list_ex_iff)
      then show ?thesis using c by blast
    qed
  qed
qed

lemma new_away_sel [simp]:
  "na_userId (new_away_of me a r sv w start clk sla) = u_id me" "na_date (new_away_of me a r sv w start clk sla) = wk_date w"
  "na_startedAt (new_away_of me a r sv w start clk sla) = start" "na_endedAt (new_away_of me a r sv w start clk sla) = clock_now clk"
  "na_reasonKey (new_away_of me a r sv w start clk sla) = Some (or_key r)"
  by (simp_all add: new_away_of_def Let_def)

text \<open>Answers either keep the rows or add one with \<open>create\<close>.\<close>

lemma submit_away_cases:
  obtains (kept) "aw_rows (snd (submit_away sv me a clk d)) = aw_rows d" "aw_nextId (snd (submit_away sv me a clk d)) = aw_nextId d"
  | (created) r w start where "away_bounds (u_id me) (an_startedAt a) (clock_now clk) (an_reasonKey a) d = Inr (w, start, None)"
      "snd (submit_away sv me a clk d) = snd (create_away (new_away_of me a r sv w start clk (db_sla (aw_tables d) (u_id me))) d)"
proof (cases "List.find (\<lambda>r. or_key r = an_reasonKey a) (ei_reasons (as_idle sv))")
  case None
  then show ?thesis using kept by (simp add: submit_away_def)
next
  case (Some r)
  show ?thesis
  proof (cases "away_bounds (u_id me) (an_startedAt a) (clock_now clk) (an_reasonKey a) d")
    case (Inl e)
    then show ?thesis using Some kept by (simp add: submit_away_def)
  next
    case (Inr x)
    obtain w start found where x: "x = (w, start, found)" by (metis prod_cases3)
    show ?thesis
    proof (cases "found = None \<and> or_kind r \<noteq> BreakReason \<and> away_problems (or_kind r) a (as_known sv) = []")
      case True
      let ?n = "new_away_of me a r sv w start clk (db_sla (aw_tables d) (u_id me))"
      have "snd (submit_away sv me a clk d) = snd (create_away ?n d)"
        using Some Inr x True by (auto simp: submit_away_def Let_def split: prod.split sum.split create_away_result.split)
      then show ?thesis using created Inr x True by blast
    next
      case False
      then show ?thesis using Some Inr x kept
        by (cases found) (auto simp: submit_away_def Let_def start_away_break_def split: prod.splits sum.splits)
    qed
  qed
qed

lemma submit_away_ok:
  assumes "away_ok d"
  shows "away_ok (snd (submit_away sv me a clk d))"
proof (cases rule: submit_away_cases [of sv me a clk d])
  case kept
  then show ?thesis using assms by (simp add: away_ok_def)
next
  case (created r w start)
  then show ?thesis using assms by (auto elim!: away_boundsE intro!: create_away_ok)
qed

lemma create_long_ok: "away_ok d \<Longrightarrow> \<not> na_endedAt n - na_startedAt n < 1000 \<Longrightarrow> away_ok (snd (create_away n d))"
  by (rule create_away_ok) auto

lemma unexplained_ok: "away_ok d \<Longrightarrow> away_ok (snd (unexplained me startedAt endedAt now d))"
  by (auto simp: unexplained_def Let_def split: option.split prod.split sum.split create_away_result.split
      dest!: arg_cong [where f = snd] intro!: create_long_ok)

section \<open>Away time is counted once\<close>

text \<open>Answers, unanswered pop-ups, decisions and re-routing in any order, and in between anything that happens to
  the other tables.\<close>

inductive away_step :: "away_db \<Rightarrow> away_db \<Rightarrow> bool" where
  answered: "away_step d (snd (submit_away sv me a clk d))"
| unanswered: "away_step d (snd (unexplained me startedAt endedAt now d))"
| away_decided: "away_step d (snd (decide_away i expected dc d))"
| away_rerouted: "away_step d (snd (reroutePending u approver d))"
| elsewhere: "away_step d (d\<lparr>aw_meet := m\<rparr>)"

inductive away_reachable :: "away_db \<Rightarrow> bool" where
  no_away: "away_reachable \<lparr>aw_rows = [], aw_nextId = n, aw_meet = m\<rparr>"
| away: "away_reachable d \<Longrightarrow> away_step d d' \<Longrightarrow> away_reachable d'"

lemma away_step_ok: "away_step d d' \<Longrightarrow> away_ok d \<Longrightarrow> away_ok d'"
  by (induction rule: away_step.induct)
    (simp_all add: submit_away_ok unexplained_ok decide_away_ok reroutePending_ok, simp add: away_ok_def)

lemma away_reachable_ok: "away_reachable d \<Longrightarrow> away_ok d"
  by (induction rule: away_reachable.induct) (simp add: away_ok_def, rule away_step_ok)

text \<open>C9: over any history of answers, unanswered pop-ups, decisions and re-routing, whatever happens to the other
  tables meanwhile, two away rows of one person share no time, every row is ended, and its stored seconds are its
  rounded length, so no moment a person was away is counted twice.\<close>

theorem away_time_is_counted_once:
  assumes "away_reachable d" "r \<in> set (aw_rows d)" "s \<in> set (aw_rows d)" "r \<noteq> s" "ay_userId r = ay_userId s"
  shows "stretch r \<inter> stretch s = {}
    \<and> (\<exists>e \<ge> ay_startedAt r. ay_endedAt r = Some e \<and> ay_seconds r = Some (round_div (e - ay_startedAt r) 1000))"
proof -
  have ok: "away_ok d" by (rule away_reachable_ok [OF assms(1)])
  then have "ay_id r \<noteq> ay_id s" using assms by (auto simp: away_ok_def distinct_map dest: inj_onD)
  then show ?thesis using ok assms unfolding away_ok_def away_row_ok_def by blast
qed

section \<open>An accepted answer\<close>

lemma presence_before_answer:
  assumes "p \<in> set (db_presence db)" "ss_userId p = u" "ss_endedAt p = Some e" "e \<le> now" "bounded_start db u w s now \<le> start"
  shows "{ss_startedAt p ..< e} \<inter> {start ..< now} = {}"
proof (cases "p \<in> set (presenceOverlapping db u s now)")
  case True
  then have "e \<in> set (List.map_filter (\<lambda>p. case ss_endedAt p of Some e \<Rightarrow> if e \<le> now then Some e else None | None \<Rightarrow> None)
      (presenceOverlapping db u s now))"
    using assms(3,4) by (force simp: List.map_filter_def image_iff)
  then have "e \<le> last_accounted (presenceOverlapping db u s now) now" unfolding last_accounted_def by (intro fold_max_ge) simp
  then have "min now e \<le> start" using assms(5) by (auto simp: bounded_start_def)
  then show ?thesis by auto
next
  case False
  then have "now < ss_startedAt p \<or> e < s" using assms(1-3) by (auto simp: presenceOverlapping_def)
  moreover have "min now s \<le> start" using assms(5) by (auto simp: bounded_start_def)
  ultimately show ?thesis by auto
qed

lemma submit_answered:
  assumes "submit_away sv me a clk d = (Inr (AwayAnswered r), d')" "r \<notin> set (aw_rows d)"
  obtains rs w start where "List.find (\<lambda>r. or_key r = an_reasonKey a) (ei_reasons (as_idle sv)) = Some rs"
    "away_bounds (u_id me) (an_startedAt a) (clock_now clk) (an_reasonKey a) d = Inr (w, start, None)"
    "create_away (new_away_of me a rs sv w start clk (db_sla (aw_tables d) (u_id me))) d = (Inr (AwayCreated r), d')"
proof -
  obtain rs where rs: "List.find (\<lambda>r. or_key r = an_reasonKey a) (ei_reasons (as_idle sv)) = Some rs"
    using assms(1) by (auto simp: submit_away_def Let_def split: option.splits)
  obtain w start found where b: "away_bounds (u_id me) (an_startedAt a) (clock_now clk) (an_reasonKey a) d = Inr (w, start, found)"
    using assms(1) rs by (cases "away_bounds (u_id me) (an_startedAt a) (clock_now clk) (an_reasonKey a) d")
      (auto simp: submit_away_def Let_def)
  have "found = None"
  proof (rule ccontr)
    assume "found \<noteq> None"
    then obtain x where x: "found = Some x" by blast
    then have "x \<in> set (away_for_users d [u_id me] (wk_date w) (wk_date w))"
      using b by (auto simp: away_bounds_def Let_def split: option.splits if_splits dest!: find_Some_set)
    then have "x \<in> set (aw_rows d)" by (simp add: away_for_users_def)
    then show False using assms rs b x by (simp add: submit_away_def)
  qed
  then show ?thesis using that [OF rs b [unfolded \<open>found = None\<close>]] assms rs b
    by (auto simp: submit_away_def Let_def start_away_break_def dest!: create_away_overlap split: if_splits prod.splits sum.splits create_away_result.splits)
qed

text \<open>C10: an answer that adds a row adds it to the open working day: at most sixteen hours long as claimed, ending now,
  starting exactly where the person was last accounted for (the claimed start or the start of the day, the end of a
  break or meeting, or the end of earlier away time), never before the claim and the day, sharing no time with a break or meeting that has
  ended nor with away time recorded before, while the person is in none; it waits for an approver exactly when the
  person's role has one, never in a locked month, and its reason is one offered to the person.\<close>

theorem accepted_answer_fills_a_gap:
  assumes "away_reachable d" "submit_away sv me a clk d = (Inr (AwayAnswered r), d')" "r \<notin> set (aw_rows d)"
  shows "\<exists>w s. findOpen (md_work (aw_meet d)) (u_id me) = Some w \<and> an_startedAt a = Some s \<and> aw_rows d' = aw_rows d @ [r]
    \<and> ay_userId r = u_id me \<and> ay_date r = wk_date w \<and> clock_now clk - s \<le> 16 * 3600000
    \<and> ay_endedAt r = Some (clock_now clk) \<and> stretch r = {ay_startedAt r ..< clock_now clk}
    \<and> (\<exists>t. ay_startedAt r = min (clock_now clk) t \<and> accounted_until d (u_id me) s w t)
    \<and> stretch r \<subseteq> {max s (wk_startedAt w) ..< clock_now clk}
    \<and> list_all (\<lambda>p. ss_userId p = u_id me \<longrightarrow> (case ss_endedAt p of None \<Rightarrow> clock_now clk < ss_startedAt p
         | Some e \<Rightarrow> e \<le> clock_now clk \<longrightarrow> {ss_startedAt p ..< e} \<inter> stretch r = {})) (db_presence (aw_tables d))
    \<and> list_all (\<lambda>x. ay_userId x = u_id me \<longrightarrow> stretch x \<inter> stretch r = {}) (aw_rows d)
    \<and> (ay_status r = AwPending \<longleftrightarrow> (\<exists>p. as_subject sv = Some p \<and> rd_status (route (pf_role p) (pf_departmentId p)) = Pending))
    \<and> (ay_status r = AwPending \<longrightarrow> \<not> isMonthLocked (aw_tables d) (ay_date r) (u_id me))
    \<and> ay_reasonKey r \<in> Some ` or_key ` set (ei_reasons (as_idle sv))"
proof -
  let ?now = "clock_now clk" and ?u = "u_id me"
  obtain rs w start where rs: "List.find (\<lambda>r. or_key r = an_reasonKey a) (ei_reasons (as_idle sv)) = Some rs"
    and b: "away_bounds ?u (an_startedAt a) ?now (an_reasonKey a) d = Inr (w, start, None)"
    and c: "create_away (new_away_of me a rs sv w start clk (db_sla (aw_tables d) ?u)) d = (Inr (AwayCreated r), d')"
    using submit_answered [OF assms(2,3)] by blast
  let ?n = "new_away_of me a rs sv w start clk (db_sla (aw_tables d) ?u)"
  obtain s where s: "an_startedAt a = Some s" "?now - s \<le> MAX_AWAY_MS" "findOpen (md_work (aw_meet d)) ?u = Some w"
    and ended: "\<forall>p \<in> set (presenceOverlapping (aw_tables d) ?u s ?now). ss_endedAt p \<noteq> None"
    and lo: "bounded_start (aw_tables d) ?u w s ?now \<le> start" and hi: "start \<le> ?now" by (rule away_boundsE [OF b])
  have row: "r = fresh_away ?n (aw_nextId d)" "aw_rows d' = aw_rows d @ [r]"
    and apart: "\<forall>x \<in> set (aw_rows d). \<not> away_overlaps ?u start ?now x"
    and lock: "na_status ?n = AwPending \<longrightarrow> \<not> isMonthLocked (aw_tables d) (wk_date w) ?u"
    using create_away_created [OF c] by simp_all
  have st: "stretch r = {start ..< ?now}" by (simp add: stretch_def row)
  have ends: "ay_endedAt r = Some ?now" "ay_startedAt r = start" by (simp_all add: row)
  have exact: "\<exists>t. start = min ?now t \<and> accounted_until d ?u s w t" using away_bounds_start b s(1) by simp
  have "min ?now (max s (wk_startedAt w)) \<le> start" using lo by (auto simp: bounded_start_def)
  then have gap: "stretch r \<subseteq> {max s (wk_startedAt w) ..< ?now}" unfolding st by auto
  have open_later: "?now < ss_startedAt p" if "p \<in> set (db_presence (aw_tables d))" "ss_userId p = ?u" "ss_endedAt p = None" for p
    using ended that by (auto simp: presenceOverlapping_def)
  have pres: "list_all (\<lambda>p. ss_userId p = ?u \<longrightarrow> (case ss_endedAt p of None \<Rightarrow> ?now < ss_startedAt p
         | Some e \<Rightarrow> e \<le> ?now \<longrightarrow> {ss_startedAt p ..< e} \<inter> stretch r = {})) (db_presence (aw_tables d))"
    unfolding list_all_iff st using open_later presence_before_answer [OF _ _ _ _ lo] by (auto split: option.split)
  have rows: "list_all (\<lambda>x. ay_userId x = ?u \<longrightarrow> stretch x \<inter> stretch r = {}) (aw_rows d)"
  proof -
    have ok: "away_row_ok x" if "x \<in> set (aw_rows d)" for x using away_reachable_ok [OF assms(1)] that by (simp add: away_ok_def)
    have "stretch x \<inter> {start ..< ?now} = {}" if "x \<in> set (aw_rows d)" "ay_userId x = ?u" for x
      by (rule apart_if_no_overlap [of ?u]) (use apart that ok in auto)
    then show ?thesis by (simp add: list_all_iff st)
  qed
  have status: "ay_status r = AwPending \<longleftrightarrow> (\<exists>p. as_subject sv = Some p \<and> rd_status (route (pf_role p) (pf_departmentId p)) = Pending)"
    by (simp add: row new_away_of_def Let_def split: option.split)
  have "rs \<in> set (ei_reasons (as_idle sv))" using find_Some_set [OF rs] by simp
  then have reason: "ay_reasonKey r \<in> Some ` or_key ` set (ei_reasons (as_idle sv))" by (simp add: row)
  show ?thesis
    using s gap pres rows status reason lock row ends exact st by (intro exI [of _ w] exI [of _ s]) (simp add: MAX_AWAY_MS_def)
qed

section \<open>Two answers\<close>

definition sample_answer :: "int \<Rightarrow> away_answer" where
  "sample_answer t = \<lparr>an_startedAt = Some t, an_reasonKey = ''OTHER'', an_comment = Some ''desk'', an_participants = [], an_momSender = None\<rparr>"

definition sample_services :: away_services where
  "sample_services = \<lparr>as_idle = \<lparr>ei_enabled = True, ei_minutes = 5,
       ei_reasons = [\<lparr>or_key = ''OTHER'', or_label = ''Other work'', or_kind = OtherWork, or_fields = [''comment'']\<rparr>]\<rparr>,
     as_subject = Some (sample_staff\<lparr>pf_id := 1\<rparr>), as_known = {}, as_quick = undefined, as_zone = (\<lambda>_. 0)\<rparr>"

definition away_start :: away_db where
  "away_start = \<lparr>aw_rows = [], aw_nextId = 0, aw_meet = day_started\<rparr>"

abbreviation at_clock :: "int \<Rightarrow> clock_frame" where
  "at_clock t \<equiv> \<lparr>cf_eventAt = None, cf_wall = t\<rparr>"

lemma sample_comment: "cleanText (an_comment (sample_answer t)) = ''desk''"
  by (simp add: sample_answer_def) code_simp

text \<open>The sample person, whose day started at instant 1000 and who is in no break or meeting.\<close>

lemma sample_bounds:
  assumes "aw_meet d = day_started" "s \<le> now + SKEW_MS" "now - s \<le> MAX_AWAY_MS"
    "\<forall>r \<in> set (aw_rows d). ay_endedAt r = Some (na_endedAt (ay_data r)) \<and> na_endedAt (ay_data r) \<le> min now (max s 1000)
       \<and> 1000 \<le> \<bar>ay_startedAt r - min now (max s 1000)\<bar>" "1000 \<le> now"
  shows "\<exists>w. away_bounds 1 (Some s) now key d = Inr (w, min now (max s 1000), None) \<and> wk_date w = ''2026-01-05''"
proof -
  let ?st = "min now (max s 1000)"
  have pres: "presenceOverlapping (aw_tables d) 1 s now = []"
    using assms(1) by (simp add: presenceOverlapping_def day_started_open empty_db_def)
  obtain w where w: "findOpen (md_work (aw_meet d)) 1 = Some w" "wk_date w = ''2026-01-05''" "wk_startedAt w = 1000"
    using assms(1) by (simp add: findOpen_def day_started_open is_open_def)
  have b: "bounded_start (aw_tables d) 1 w s now = ?st"
    using assms(5) by (simp add: bounded_start_def pres last_accounted_def w List.map_filter_def del: One_nat_def)
  let ?e = "filter (\<lambda>r. ay_startedAt r < now) (away_for_users d [1] (wk_date w) (wk_date w))"
  have e: "\<forall>r \<in> set ?e. \<not> same_answer key ?st r \<and> end_of r \<le> ?st"
    using assms(4) by (force simp: away_for_users_def same_answer_def end_of_def coalesce_def)
  then have "List.find (same_answer key ?st) ?e = None" by (simp add: find_None_iff)
  moreover have "filter (\<lambda>r. ay_startedAt r \<le> ?st \<and> end_of r > ?st) ?e = []" using e by (force simp: filter_empty_conv)
  ultimately show ?thesis
    using assms(2,3) by (intro exI [of _ w]) (simp add: away_bounds_def w pres b Let_def covered_until_def del: One_nat_def)
qed

lemma sample_submit:
  assumes "aw_meet d = day_started" "s \<le> now + SKEW_MS" "now - s \<le> MAX_AWAY_MS"
    "\<forall>r \<in> set (aw_rows d). ay_endedAt r = Some (na_endedAt (ay_data r)) \<and> na_endedAt (ay_data r) \<le> min now (max s 1000)
       \<and> 1000 \<le> \<bar>ay_startedAt r - min now (max s 1000)\<bar>" "1000 \<le> now"
  shows "\<exists>r. submit_away sample_services sample_manager (sample_answer s) (at_clock now) d
      = (Inr (AwayAnswered r), d\<lparr>aw_rows := aw_rows d @ [r], aw_nextId := Suc (aw_nextId d)\<rparr>)
    \<and> ay_id r = aw_nextId d \<and> ay_userId r = 1 \<and> ay_startedAt r = min now (max s 1000) \<and> na_endedAt (ay_data r) = now
    \<and> ay_endedAt r = Some now \<and> ay_status r = AwPending"
proof -
  have u: "u_id sample_manager = 1" by (simp add: sample_manager_def)
  obtain w where b: "away_bounds 1 (Some s) now ''OTHER'' d = Inr (w, min now (max s 1000), None)" "wk_date w = ''2026-01-05''"
    using sample_bounds [OF assms] by blast
  let ?rs = "\<lparr>or_key = ''OTHER'', or_label = ''Other work'', or_kind = OtherWork, or_fields = [''comment'']\<rparr>"
  let ?n = "new_away_of sample_manager (sample_answer s) ?rs sample_services w (min now (max s 1000)) (at_clock now)
      (db_sla (aw_tables d) 1)"
  have f: "List.find (\<lambda>r. or_key r = ''OTHER'') (ei_reasons (as_idle sample_services)) = Some ?rs"
    by (simp add: sample_services_def)
  have p: "away_problems OtherWork (sample_answer s) (as_known sample_services) = []"
    unfolding away_problems_def Let_def sample_comment by simp
  have at: "an_startedAt (sample_answer s) = Some s" "an_reasonKey (sample_answer s) = ''OTHER''" by (simp_all add: sample_answer_def)
  have st: "na_status ?n = AwPending"
    by (simp add: new_away_of_def Let_def sample_services_def sample_staff_def route_def)
  have "filter (away_overlaps 1 (min now (max s 1000)) now) (aw_rows d) = []"
    using assms(4) by (auto simp: filter_empty_conv away_overlaps_def)
  moreover have "\<not> isMonthLocked (aw_tables d) (wk_date w) 1" using assms(1) by (simp add: isMonthLocked_def day_started_open empty_db_def)
  ultimately have "create_away ?n d = (Inr (AwayCreated (fresh_away ?n (aw_nextId d))),
      d\<lparr>aw_rows := aw_rows d @ [fresh_away ?n (aw_nextId d)], aw_nextId := Suc (aw_nextId d)\<rparr>)"
    by (simp add: create_away_def u clock_now_def Let_def del: One_nat_def)
  then show ?thesis using st
    by (intro exI [of _ "fresh_away ?n (aw_nextId d)"])
      (simp add: submit_away_def at f u b p clock_now_def Let_def del: One_nat_def)
qed

lemma away_start_reachable: "away_reachable away_start"
  unfolding away_start_def by (rule away_reachable.no_away)

text \<open>Two answers, one after the other.\<close>

lemma two_answers:
  assumes "s1 \<le> n1 + SKEW_MS" "n1 - s1 \<le> MAX_AWAY_MS" "1000 \<le> n1" "s2 \<le> n2 + SKEW_MS" "n2 - s2 \<le> MAX_AWAY_MS"
    "n1 \<le> min n2 (max s2 1000)" "1000 \<le> \<bar>min n1 (max s1 1000) - min n2 (max s2 1000)\<bar>"
  shows "\<exists>r1 r2 d1 d2. submit_away sample_services sample_manager (sample_answer s1) (at_clock n1) away_start = (Inr (AwayAnswered r1), d1)
    \<and> submit_away sample_services sample_manager (sample_answer s2) (at_clock n2) d1 = (Inr (AwayAnswered r2), d2)
    \<and> away_reachable d1 \<and> away_reachable d2 \<and> aw_rows d1 = [r1] \<and> aw_rows d2 = [r1, r2] \<and> r1 \<noteq> r2 \<and> ay_userId r1 = 1 \<and> ay_userId r2 = 1
    \<and> stretch r1 = {min n1 (max s1 1000) ..< n1} \<and> stretch r2 = {min n2 (max s2 1000) ..< n2}
    \<and> ay_status r1 = AwPending \<and> ay_status r2 = AwPending"
proof -
  obtain r1 where r1: "submit_away sample_services sample_manager (sample_answer s1) (at_clock n1) away_start
      = (Inr (AwayAnswered r1), away_start\<lparr>aw_rows := [r1], aw_nextId := 1\<rparr>)" "ay_id r1 = 0" "ay_userId r1 = 1"
    "ay_startedAt r1 = min n1 (max s1 1000)" "na_endedAt (ay_data r1) = n1" "ay_endedAt r1 = Some n1" "ay_status r1 = AwPending"
    using sample_submit [of away_start s1 n1] assms(1-3) by (auto simp: away_start_def)
  let ?d1 = "away_start\<lparr>aw_rows := [r1], aw_nextId := 1\<rparr>"
  obtain r2 where r2: "submit_away sample_services sample_manager (sample_answer s2) (at_clock n2) ?d1
      = (Inr (AwayAnswered r2), ?d1\<lparr>aw_rows := [r1, r2], aw_nextId := Suc 1\<rparr>)" "ay_id r2 = 1" "ay_userId r2 = 1"
    "ay_startedAt r2 = min n2 (max s2 1000)" "ay_endedAt r2 = Some n2" "ay_status r2 = AwPending"
  proof -
    have "aw_meet ?d1 = day_started" by (simp add: away_start_def)
    then have "\<exists>r. submit_away sample_services sample_manager (sample_answer s2) (at_clock n2) ?d1
      = (Inr (AwayAnswered r), ?d1\<lparr>aw_rows := aw_rows ?d1 @ [r], aw_nextId := Suc (aw_nextId ?d1)\<rparr>)
      \<and> ay_id r = aw_nextId ?d1 \<and> ay_userId r = 1 \<and> ay_startedAt r = min n2 (max s2 1000) \<and> na_endedAt (ay_data r) = n2
      \<and> ay_endedAt r = Some n2 \<and> ay_status r = AwPending"
      by (rule sample_submit) (use assms(3-7) r1 in auto)
    then show ?thesis using that by (auto simp del: One_nat_def)
  qed
  have "away_reachable ?d1" "away_reachable (?d1\<lparr>aw_rows := [r1, r2], aw_nextId := Suc 1\<rparr>)"
    using away_reachable.away away_start_reachable away_step.answered r1(1) r2(1) snd_conv by metis+
  moreover have "stretch r1 = {min n1 (max s1 1000) ..< n1}" "stretch r2 = {min n2 (max s2 1000) ..< n2}"
    using r1 r2 by (simp_all add: stretch_def)
  moreover have "r1 \<noteq> r2" using r1(2) r2(2) by auto
  ultimately show ?thesis using r1 r2
    by (intro exI [of _ r1] exI [of _ r2] exI [of _ ?d1] exI [of _ "?d1\<lparr>aw_rows := [r1, r2], aw_nextId := Suc 1\<rparr>"]) simp
qed

text \<open>An agent whose clock runs a minute ahead claims a start that has not come: the start is cut to now, so the answer
  sent a second time is not recognised as the stored one and a second request of no length waits for approval.\<close>

lemma retry_ahead_of_the_clock:
  "\<exists>r1 r2 d1 d2. submit_away sample_services sample_manager (sample_answer 160000) (at_clock 100000) away_start = (Inr (AwayAnswered r1), d1)
    \<and> submit_away sample_services sample_manager (sample_answer 160000) (at_clock 101000) d1 = (Inr (AwayAnswered r2), d2)
    \<and> aw_rows d2 = [r1, r2] \<and> r1 \<noteq> r2 \<and> stretch r1 = {} \<and> stretch r2 = {} \<and> ay_status r2 = AwPending"
  using two_answers [of 160000 100000 160000 101000] by (force simp: SKEW_MS_def MAX_AWAY_MS_def)

text \<open>The witness: two answers in a row.\<close>

theorem away_time_is_counted_once_witness:
  "\<exists>r1 r2 d. away_reachable d \<and> r1 \<noteq> r2 \<and> aw_rows d = [r1, r2] \<and> stretch r1 = {2000 ..< 100000} \<and> stretch r1 \<inter> stretch r2 = {}"
proof -
  obtain r1 r2 d2 where d: "away_reachable d2" "aw_rows d2 = [r1, r2]" "r1 \<noteq> r2" "ay_userId r1 = 1" "ay_userId r2 = 1" "stretch r1 = {2000 ..< 100000}"
    using two_answers [of 2000 100000 150000 200000] by (force simp: SKEW_MS_def MAX_AWAY_MS_def)
  then show ?thesis using away_time_is_counted_once [of d2 r1 r2] by (intro exI [of _ r1] exI [of _ r2] exI [of _ d2]) simp
qed

theorem accepted_answer_fills_a_gap_witness:
  "\<exists>r d1. submit_away sample_services sample_manager (sample_answer 2000) (at_clock 100000) away_start = (Inr (AwayAnswered r), d1)
    \<and> aw_rows d1 = [r] \<and> stretch r \<subseteq> {2000 ..< 100000}"
proof -
  obtain r d1 where r: "submit_away sample_services sample_manager (sample_answer 2000) (at_clock 100000) away_start = (Inr (AwayAnswered r), d1)"
    using two_answers [of 2000 100000 150000 200000] by (force simp: SKEW_MS_def MAX_AWAY_MS_def)
  have "r \<notin> set (aw_rows away_start)" by (simp add: away_start_def)
  from accepted_answer_fills_a_gap [OF away_start_reachable r this]
  have "aw_rows d1 = [r] \<and> stretch r \<subseteq> {2000 ..< 100000}"
    by (auto simp: sample_answer_def clock_now_def away_start_def)
  then show ?thesis using r by blast
qed

end
