(* ===== verification/Approval_Items.thy ===== *)
theory Approval_Items
  imports Away_Guarantees Break_Approvals
begin

text \<open>
  Breaks, meetings and away time as one kind of approval item: what an item is and what deciding it does
  (\<open>src/src/modules/worktime/domain/approval-copy.ts\<close>), and the queries over all three tables as one
  relation (\<open>infrastructure/prisma-approvals.reader.ts\<close>, \<open>domain/approvals.reader.ts\<close>,
  \<open>application/approver-scope.ts\<close>). The tables are those of \<open>Away\<close>; \<open>created_at\<close>, which the
  tables of the model do not hold, is a parameter, as are the people and the active managers of each
  live department. Of the lines of copy, those with a character outside Latin-1 are a datatype
  (the effect) or left out (the meeting title).
\<close>

section \<open>Categories and effects\<close>

datatype approval_kind = BreakItem | MeetingItem | AwayItem

datatype approval_category =
    BREAK_EARLY | BREAK_LATE | BREAK_OUTSIDE | BREAK_UNSCHEDULED | BREAK_OVERRUN | BREAK_SKIP | BREAK_AUTO_SKIP
  | MEETING_LIVE | MEETING_PAST | AWAY_THINKING | AWAY_MEETING | AWAY_HARDWARE | AWAY_OTHER | AWAY_CUSTOM

fun awayCategory :: "away_kind option \<Rightarrow> approval_category" where
  "awayCategory (Some Thinking) = AWAY_THINKING"
| "awayCategory (Some ShortMeeting) = AWAY_MEETING"
| "awayCategory (Some Hardware) = AWAY_HARDWARE"
| "awayCategory (Some CustomReason) = AWAY_CUSTOM"
| "awayCategory _ = AWAY_OTHER"

definition breakCategory :: "break_outcome \<Rightarrow> bool \<Rightarrow> break_timing \<Rightarrow> approval_category" where
  "breakCategory outcome overrunAsked timing =
     (if outcome = Skipped then BREAK_SKIP
      else if outcome = AutoSkipped then BREAK_AUTO_SKIP
      else if overrunAsked \<or> timing = OnTime then BREAK_OVERRUN
      else (case timing of Early \<Rightarrow> BREAK_EARLY | Late \<Rightarrow> BREAK_LATE | OutsideWindow \<Rightarrow> BREAK_OUTSIDE | _ \<Rightarrow> BREAK_UNSCHEDULED))"

fun meetingCategory :: "meeting_mode \<Rightarrow> approval_category" where
  "meetingCategory LiveMeeting = MEETING_LIVE"
| "meetingCategory PastMeeting = MEETING_PAST"

definition wholeMinutes :: "int \<Rightarrow> int" where
  "wholeMinutes sec = (if sec \<le> 0 then 0 else max 1 (round_div sec 60))"

datatype effect_mode = PlusEffect | MinusEffect | NoEffect

datatype effect_text = NoChange | CountedAsFocus | PlusIfApproved | MinusIfRejected | PlusAdded | MinusTakenOff

record approval_effect =
  ae_mode :: effect_mode
  ae_minutes :: int
  ae_text :: effect_text

definition no_effect :: "effect_text \<Rightarrow> approval_effect" where
  "no_effect t = \<lparr>ae_mode = NoEffect, ae_minutes = 0, ae_text = t\<rparr>"

definition plusKind :: "approval_category \<Rightarrow> bool" where
  "plusKind c = (c = BREAK_OVERRUN \<or> c \<in> {AWAY_THINKING, AWAY_MEETING, AWAY_HARDWARE, AWAY_OTHER, AWAY_CUSTOM})"

definition minusKind :: "approval_category \<Rightarrow> bool" where
  "minusKind c = (c = BREAK_SKIP \<or> c = BREAK_AUTO_SKIP \<or> c = MEETING_LIVE \<or> c = MEETING_PAST)"

definition approvalEffect :: "approval_category \<Rightarrow> approval_status \<Rightarrow> int \<Rightarrow> approval_effect" where
  "approvalEffect category status minutes =
     (case status of
        Pending \<Rightarrow>
          if plusKind category then \<lparr>ae_mode = PlusEffect, ae_minutes = minutes, ae_text = PlusIfApproved\<rparr>
          else if minusKind category then \<lparr>ae_mode = MinusEffect, ae_minutes = minutes, ae_text = MinusIfRejected\<rparr>
          else no_effect NoChange
      | Approved \<Rightarrow>
          if plusKind category then \<lparr>ae_mode = PlusEffect, ae_minutes = minutes, ae_text = PlusAdded\<rparr>
          else if minusKind category then no_effect CountedAsFocus
          else no_effect NoChange
      | Rejected \<Rightarrow>
          if minusKind category then \<lparr>ae_mode = MinusEffect, ae_minutes = minutes, ae_text = MinusTakenOff\<rparr>
          else no_effect NoChange
      | NotRequired \<Rightarrow> no_effect NoChange)"

section \<open>Lines of copy\<close>

fun RECORD_LABEL :: "break_kind \<Rightarrow> string" where
  "RECORD_LABEL Morning = ''Morning break''"
| "RECORD_LABEL Lunch = ''Lunch break''"
| "RECORD_LABEL Evening = ''Evening break''"
| "RECORD_LABEL Quick = ''Quick break''"

fun AWAY_KIND_LABEL :: "away_kind option \<Rightarrow> string" where
  "AWAY_KIND_LABEL (Some Thinking) = ''Thinking''"
| "AWAY_KIND_LABEL (Some ShortMeeting) = ''Short meeting''"
| "AWAY_KIND_LABEL (Some Hardware) = ''Working on hardware''"
| "AWAY_KIND_LABEL _ = ''Other work''"

definition awayTitle :: "string option \<Rightarrow> away_kind option \<Rightarrow> int \<Rightarrow> string" where
  "awayTitle label kind seconds =
     (let l = trim (coalesce label ''''); what = (if l \<noteq> [] then l else AWAY_KIND_LABEL kind)
      in ''Away '' @ show_int (wholeMinutes seconds) @ '' min: '' @ what)"

text \<open>The middle dot between two parts of a line.\<close>

definition dot :: string where
  "dot = [CHR '' '', CHR 0xB7, CHR '' '']"

definition people_part :: "int \<Rightarrow> string" where
  "people_part n = (if n > 0 then dot @ (if n = 1 then ''1 person'' else show_int n @ '' people'') else '''')"

definition awayDetail :: "int \<Rightarrow> int option \<Rightarrow> int \<Rightarrow> int \<Rightarrow> string option \<Rightarrow> zone \<Rightarrow> string" where
  "awayDetail startedAt endedAt seconds participants momSender tz =
     (let e = coalesce endedAt (startedAt + seconds * 1000);
          mom = (case momSender of None \<Rightarrow> '''' | Some m \<Rightarrow> if m = [] then '''' else dot @ ''minutes by '' @ m)
      in time12InZone startedAt tz @ '' to '' @ time12InZone e tz @ dot @ show_int (wholeMinutes seconds) @ '' min''
         @ people_part participants @ mom)"

definition lower :: "string \<Rightarrow> string" where
  "lower s = map (\<lambda>c. if CHR ''A'' \<le> c \<and> c \<le> CHR ''Z'' then char_of (of_char c + 32 :: nat) else c) s"

definition breakPhrase :: "break_kind option \<Rightarrow> presence_type \<Rightarrow> string" where
  "breakPhrase kind presenceType =
     (if kind = Some Lunch \<or> (kind = None \<and> presenceType = PLunch) then ''lunch''
      else (case kind of Some k \<Rightarrow> ''the '' @ lower (RECORD_LABEL k) | None \<Rightarrow> ''a break''))"

definition breakTitle :: "approval_category \<Rightarrow> break_record_row \<Rightarrow> int \<Rightarrow> string" where
  "breakTitle category r over =
     (let d = br_data (bv_row r); lunch = (nb_presenceType d = PLunch);
          label = (case nb_kind d of Some k \<Rightarrow> RECORD_LABEL k | None \<Rightarrow> if lunch then ''Lunch'' else ''Break'')
      in case category of
           BREAK_SKIP \<Rightarrow> label @ '' skipped''
         | BREAK_AUTO_SKIP \<Rightarrow> label @ '' auto-skipped''
         | BREAK_OVERRUN \<Rightarrow> ''Back '' @ show_int (wholeMinutes over) @ '' min late from '' @ breakPhrase (nb_kind d) (nb_presenceType d)
         | BREAK_LATE \<Rightarrow> label @ '' started '' @ show_int (nb_minutesOff d) @ '' min late''
         | BREAK_EARLY \<Rightarrow> label @ '' started '' @ show_int (nb_minutesOff d) @ '' min early''
         | BREAK_OUTSIDE \<Rightarrow> (if lunch then ''Lunch'' else ''Break'') @ '' outside the break windows''
         | _ \<Rightarrow> ''Unscheduled '' @ (if lunch then ''lunch'' else ''break''))"

definition windowText :: "new_break_record \<Rightarrow> zone \<Rightarrow> string" where
  "windowText d tz =
     (case (nb_windowOpen d, nb_windowClose d) of
        (Some a, Some b) \<Rightarrow> dot @ ''window '' @ time12InZone a tz @ '' to '' @ time12InZone b tz
      | _ \<Rightarrow> '''')"

text \<open>Minutes between two instants; the quotient by 1000 is rounded only once, to minutes.\<close>

definition minutes_between :: "int \<Rightarrow> int \<Rightarrow> int" where
  "minutes_between a b = (if b - a \<le> 0 then 0 else max 1 (round_div (b - a) 60000))"

definition due_part :: "new_break_record \<Rightarrow> zone \<Rightarrow> string" where
  "due_part d tz = (case nb_scheduledStart d of None \<Rightarrow> '''' | Some t \<Rightarrow> dot @ ''due '' @ time12InZone t tz)"

definition took_part :: "int option \<Rightarrow> string" where
  "took_part m = (case m of None \<Rightarrow> dot @ ''on a break now'' | Some k \<Rightarrow> dot @ show_int k @ '' min'')"

definition breakDetail :: "approval_category \<Rightarrow> break_record_row \<Rightarrow> zone \<Rightarrow> int \<Rightarrow> string" where
  "breakDetail category r tz now =
     (let d = br_data (bv_row r); start = nb_startedAt d;
          tookMin = map_option (minutes_between start) (bv_endedAt r)
      in case category of
           BREAK_SKIP \<Rightarrow> ''Skipped at '' @ time12InZone start tz @ windowText d tz
         | BREAK_AUTO_SKIP \<Rightarrow> ''Auto-skipped at '' @ time12InZone start tz @ windowText d tz
         | BREAK_OVERRUN \<Rightarrow>
             (let e = coalesce (bv_endedAt r) now;
                  of_part = (case nb_durationMin d of None \<Rightarrow> '''' | Some m \<Rightarrow> if m = 0 then '''' else '' of '' @ show_int m)
              in time12InZone start tz @ '' to '' @ time12InZone e tz @ dot @ show_int (minutes_between start e) @ '' min'' @ of_part)
         | BREAK_LATE \<Rightarrow> ''Started '' @ time12InZone start tz @ due_part d tz @ took_part tookMin
         | BREAK_EARLY \<Rightarrow> ''Started '' @ time12InZone start tz @ due_part d tz @ took_part tookMin
         | _ \<Rightarrow>
             (case bv_endedAt r of
                None \<Rightarrow> ''Started '' @ time12InZone start tz @ dot @ ''on a break now''
              | Some e \<Rightarrow> time12InZone start tz @ '' to '' @ time12InZone e tz @ dot @ show_int (minutes_between start e) @ '' min''))"

definition meetingDetail :: "int \<Rightarrow> int option \<Rightarrow> int \<Rightarrow> int \<Rightarrow> zone \<Rightarrow> string" where
  "meetingDetail startedAt endedAt durationSec participants tz =
     (case endedAt of
        None \<Rightarrow> ''Started '' @ time12InZone startedAt tz @ dot @ ''in progress'' @ people_part participants
      | Some e \<Rightarrow> time12InZone startedAt tz @ '' to '' @ time12InZone e tz @ dot @ show_int (wholeMinutes durationSec) @ '' min''
                  @ people_part participants)"

section \<open>Items\<close>

record approval_item =
  it_type :: approval_kind
  it_id :: uid
  it_userId :: uid
  it_date :: string
  it_status :: approval_status
  it_dueAt :: "int option"
  it_decidedAt :: "int option"
  it_createdAt :: int
  it_escalatedAt :: "int option"
  it_remindedAt :: "int option"
  it_approverId :: "uid option"
  it_approverRole :: "role option"
  it_category :: approval_category

type_synonym created_at = "approval_kind \<Rightarrow> uid \<Rightarrow> int"

text \<open>The category as the \<open>CASE\<close> of the query works it out.\<close>

definition sql_break_category :: "break_row \<Rightarrow> approval_category" where
  "sql_break_category b =
     (let d = br_data b in
      if nb_outcome d = Skipped then BREAK_SKIP
      else if nb_outcome d = AutoSkipped then BREAK_AUTO_SKIP
      else if br_overrunAsked b \<or> nb_timing d = OnTime then BREAK_OVERRUN
      else if nb_timing d = Early then BREAK_EARLY
      else if nb_timing d = Late then BREAK_LATE
      else if nb_timing d = OutsideWindow then BREAK_OUTSIDE
      else BREAK_UNSCHEDULED)"

definition sql_away_category :: "away_kind option \<Rightarrow> approval_category" where
  "sql_away_category k =
     (if k = Some Thinking then AWAY_THINKING else if k = Some ShortMeeting then AWAY_MEETING
      else if k = Some Hardware then AWAY_HARDWARE else if k = Some CustomReason then AWAY_CUSTOM else AWAY_OTHER)"

definition break_item :: "created_at \<Rightarrow> break_row \<Rightarrow> approval_item" where
  "break_item created b =
     \<lparr>it_type = BreakItem, it_id = br_id b, it_userId = br_userId b, it_date = br_date b, it_status = br_approvalStatus b,
      it_dueAt = pc_dueAt (br_clock b), it_decidedAt = br_decidedAt b, it_createdAt = created BreakItem (br_id b),
      it_escalatedAt = pc_escalatedAt (br_clock b), it_remindedAt = pc_remindedAt (br_clock b),
      it_approverId = nb_approverId (br_data b), it_approverRole = nb_approverRole (br_data b), it_category = sql_break_category b\<rparr>"

definition meeting_item :: "created_at \<Rightarrow> meeting_row \<Rightarrow> approval_item" where
  "meeting_item created m =
     \<lparr>it_type = MeetingItem, it_id = mr_id m, it_userId = mr_userId m, it_date = mr_date m, it_status = mr_approvalStatus m,
      it_dueAt = pc_dueAt (mr_clock m), it_decidedAt = mr_decidedAt m, it_createdAt = created MeetingItem (mr_id m),
      it_escalatedAt = pc_escalatedAt (mr_clock m), it_remindedAt = pc_remindedAt (mr_clock m),
      it_approverId = mr_approverId m, it_approverRole = mr_approverRole m,
      it_category = (if mr_mode m = LiveMeeting then MEETING_LIVE else MEETING_PAST)\<rparr>"

fun away_decided :: "away_status \<Rightarrow> approval_status option" where
  "away_decided AwPending = Some Pending"
| "away_decided AwApproved = Some Approved"
| "away_decided AwRejected = Some Rejected"
| "away_decided _ = None"

definition away_item :: "created_at \<Rightarrow> away_row \<Rightarrow> approval_item option" where
  "away_item created w =
     (case away_decided (ay_status w) of
        None \<Rightarrow> None
      | Some st \<Rightarrow> Some \<lparr>it_type = AwayItem, it_id = ay_id w, it_userId = ay_userId w, it_date = ay_date w, it_status = st,
          it_dueAt = pc_dueAt (ay_clock w), it_decidedAt = ay_decidedAt w, it_createdAt = created AwayItem (ay_id w),
          it_escalatedAt = pc_escalatedAt (ay_clock w), it_remindedAt = pc_remindedAt (ay_clock w),
          it_approverId = None, it_approverRole = ay_approverRole w,
          it_category = sql_away_category (na_reasonKind (ay_data w))\<rparr>)"

definition ITEMS :: "created_at \<Rightarrow> away_db \<Rightarrow> approval_item list" where
  "ITEMS created d =
     map (break_item created) (filter (\<lambda>b. br_approvalStatus b \<noteq> NotRequired) (db_breaks (aw_tables d)))
     @ map (meeting_item created) (filter (\<lambda>m. mr_approvalStatus m \<noteq> NotRequired) (md_meetings (aw_meet d)))
     @ List.map_filter (away_item created) (aw_rows d)"

section \<open>Scopes\<close>

text \<open>\<open>of_managersOf\<close> of a department: its active accounts with the Manager role, when it is not deleted.\<close>

record org_facts =
  of_people :: people
  of_managersOf :: "uid \<Rightarrow> uid list"

datatype approvals_scope =
    ScAll
  | ScOrg uid uid
  | ScOrgAdminMine uid uid
  | ScAnyOrg "uid option" bool uid
  | ScDepts uid "uid list" uid
  | ScSubject uid

definition inOrg :: "org_facts \<Rightarrow> uid \<Rightarrow> approval_item \<Rightarrow> bool" where
  "inOrg f c a = (case of_people f (it_userId a) of None \<Rightarrow> False | Some su \<Rightarrow> pf_companyId su = Some c)"

definition has_manager :: "org_facts \<Rightarrow> uid \<Rightarrow> bool" where
  "has_manager f u =
     (case of_people f u of
        None \<Rightarrow> False
      | Some su \<Rightarrow> (case pf_departmentId su of None \<Rightarrow> False | Some dep \<Rightarrow> list_ex (\<lambda>m. m \<noteq> u) (of_managersOf f dep)))"

definition ADMIN_POOL :: "org_facts \<Rightarrow> approval_item \<Rightarrow> bool" where
  "ADMIN_POOL f a =
     (it_approverRole a \<in> {Some ADMIN, Some SUPER_ADMIN} \<or> it_escalatedAt a \<noteq> None
      \<or> (it_approverRole a = Some MANAGER \<and> \<not> has_manager f (it_userId a)))"

definition scopeSql :: "org_facts \<Rightarrow> approvals_scope \<Rightarrow> approval_item \<Rightarrow> bool" where
  "scopeSql f s a =
     (case s of
        ScAll \<Rightarrow> True
      | ScSubject u \<Rightarrow> it_userId a = u
      | ScOrg c x \<Rightarrow> inOrg f c a \<and> it_userId a \<noteq> x
      | ScOrgAdminMine c x \<Rightarrow> inOrg f c a \<and> it_userId a \<noteq> x \<and> ADMIN_POOL f a
      | ScAnyOrg c adminMine x \<Rightarrow>
          (case of_people f (it_userId a) of
             None \<Rightarrow> False
           | Some su \<Rightarrow> pf_companyId su \<noteq> None \<and> \<not> pr_companyDeleted su \<and> (case c of None \<Rightarrow> True | Some k \<Rightarrow> pf_companyId su = Some k))
          \<and> it_userId a \<noteq> x \<and> (adminMine \<longrightarrow> ADMIN_POOL f a)
      | ScDepts c deps x \<Rightarrow>
          (case of_people f (it_userId a) of
             None \<Rightarrow> False
           | Some su \<Rightarrow> pf_companyId su = Some c \<and> pf_role su = USER
               \<and> (case pf_departmentId su of None \<Rightarrow> False | Some dep \<Rightarrow> dep \<in> set deps))
          \<and> it_userId a \<noteq> x)"

definition approverScopeOf :: "auth_user \<Rightarrow> approval_scope \<Rightarrow> uid option \<Rightarrow> approvals_scope option" where
  "approverScopeOf me scope companyId =
     (if allOrgsInView me then Some (ScAnyOrg companyId (isAdminLike me \<and> scope \<noteq> AllItems) (u_id me))
      else (case orgOf me of
              None \<Rightarrow> None
            | Some org \<Rightarrow>
                if u_role me = MANAGER then Some (ScDepts org (managedDeptIds me) (u_id me))
                else if \<not> seesWholeOrg me then None
                else if scope = AllItems \<or> u_role me = SUPER_MANAGER then Some (ScOrg org (u_id me))
                else Some (ScOrgAdminMine org (u_id me))))"

section \<open>Queries\<close>

record approval_query =
  qy_scope :: approvals_scope
  qy_statuses :: "approval_status list"
  qy_type :: "approval_kind option"
  qy_category :: "approval_category option"
  qy_overdueAt :: "int option"
  qy_dueWithin :: "(int \<times> int) option"
  qy_escalatedOnly :: bool
  qy_date :: "string option"
  qy_fromDate :: "string option"
  qy_toDate :: "string option"
  qy_userId :: "uid option"
  qy_userIds :: "uid list option"
  qy_skip :: "nat option"
  qy_take :: "nat option"

definition query :: "approvals_scope \<Rightarrow> approval_status list \<Rightarrow> approval_query" where
  "query s statuses = \<lparr>qy_scope = s, qy_statuses = statuses, qy_type = None, qy_category = None, qy_overdueAt = None,
     qy_dueWithin = None, qy_escalatedOnly = False, qy_date = None, qy_fromDate = None, qy_toDate = None, qy_userId = None,
     qy_userIds = None, qy_skip = None, qy_take = None\<rparr>"

text \<open>A condition that is absent, and a column compared with a value: a null column never matches.\<close>

definition if_given :: "'a option \<Rightarrow> ('a \<Rightarrow> bool) \<Rightarrow> bool" where
  "if_given x P = (case x of None \<Rightarrow> True | Some v \<Rightarrow> P v)"

definition holds_of :: "'a option \<Rightarrow> ('a \<Rightarrow> bool) \<Rightarrow> bool" where
  "holds_of x P = (case x of None \<Rightarrow> False | Some v \<Rightarrow> P v)"

definition whereSql :: "org_facts \<Rightarrow> approval_query \<Rightarrow> approval_item \<Rightarrow> bool" where
  "whereSql f q a =
     (scopeSql f (qy_scope q) a
      \<and> (qy_statuses q \<noteq> [] \<longrightarrow> it_status a \<in> set (qy_statuses q))
      \<and> if_given (qy_type q) (\<lambda>t. it_type a = t)
      \<and> if_given (qy_category q) (\<lambda>c. it_category a = c)
      \<and> if_given (qy_overdueAt q) (\<lambda>now. it_status a = Pending \<and> holds_of (it_dueAt a) (\<lambda>due. due < now))
      \<and> if_given (qy_dueWithin q) (\<lambda>(lo, hi). holds_of (it_dueAt a) (\<lambda>due. due \<ge> lo \<and> due \<le> hi))
      \<and> (qy_escalatedOnly q \<longrightarrow> it_escalatedAt a \<noteq> None)
      \<and> if_given (qy_date q) (\<lambda>d. it_date a = d)
      \<and> if_given (qy_fromDate q) (\<lambda>d. it_date a \<ge> d)
      \<and> if_given (qy_toDate q) (\<lambda>d. it_date a \<le> d)
      \<and> if_given (qy_userId q) (\<lambda>u. it_userId a = u)
      \<and> if_given (qy_userIds q) (\<lambda>us. it_userId a \<in> set us))"

text \<open>\<open>ORDER BY\<close>: waiting items first, by due time with those without one last, decided ones by decision
  (else creation) with the newest first, then by id.\<close>

definition nulls_last :: "int option \<Rightarrow> int option \<Rightarrow> int" where
  "nulls_last a b = (case (a, b) of (None, None) \<Rightarrow> 0 | (None, Some _) \<Rightarrow> 1 | (Some _, None) \<Rightarrow> - 1 | (Some x, Some y) \<Rightarrow> sgn (x - y))"

definition inbox_due :: "approval_item \<Rightarrow> int option" where
  "inbox_due a = (if it_status a = Pending then it_dueAt a else None)"

definition inbox_order :: "approval_item \<Rightarrow> approval_item \<Rightarrow> int" where
  "inbox_order a b =
     (let p = of_bool (it_status b = Pending) - of_bool (it_status a = Pending);
          u = nulls_last (inbox_due a) (inbox_due b);
          t = sgn (coalesce (it_decidedAt b) (it_createdAt b) - coalesce (it_decidedAt a) (it_createdAt a))
      in if p \<noteq> 0 then p else if u \<noteq> 0 then u else if t \<noteq> 0 then t else int (it_id a) - int (it_id b))"

type_synonym item_ref = "approval_kind \<times> uid"

definition ref_of :: "approval_item \<Rightarrow> item_ref" where
  "ref_of a = (it_type a, it_id a)"

definition inbox :: "org_facts \<Rightarrow> approval_query \<Rightarrow> approval_item list \<Rightarrow> approval_item list" where
  "inbox f q items = js_sort inbox_order (filter (whereSql f q) items)"

definition list_items :: "org_facts \<Rightarrow> approval_query \<Rightarrow> approval_item list \<Rightarrow> nat \<times> item_ref list" where
  "list_items f q items =
     (length (filter (whereSql f q) items),
      map ref_of (take (coalesce (qy_take q) 50) (drop (coalesce (qy_skip q) 0) (inbox f q items))))"

definition count_items :: "org_facts \<Rightarrow> approval_query \<Rightarrow> approval_item list \<Rightarrow> nat" where
  "count_items f q items = length (filter (whereSql f q) items)"

definition countDecidedBetween :: "org_facts \<Rightarrow> approvals_scope \<Rightarrow> approval_status \<Rightarrow> int \<Rightarrow> int \<Rightarrow> approval_item list \<Rightarrow> nat" where
  "countDecidedBetween f s status t0 t1 items =
     length (filter (\<lambda>a. scopeSql f s a \<and> it_status a = status \<and> holds_of (it_decidedAt a) (\<lambda>t. t \<ge> t0 \<and> t < t1)) items)"

definition overdueIn :: "org_facts \<Rightarrow> approvals_scope \<Rightarrow> int \<Rightarrow> approval_item list \<Rightarrow> nat \<times> int option" where
  "overdueIn f s now items =
     (let hit = filter (\<lambda>a. scopeSql f s a \<and> it_status a = Pending) items; dues = List.map_filter it_dueAt hit
      in (length (filter (\<lambda>a. holds_of (it_dueAt a) (\<lambda>due. due < now)) hit),
          case dues of [] \<Rightarrow> None | t # ts \<Rightarrow> Some (fold min ts t)))"

section \<open>Deadlines\<close>

text \<open>\<open>SlaClaim\<close>; the rows are joined to their people, so an item of nobody is not claimed.\<close>

record sla_claim =
  sc_type :: approval_kind
  sc_id :: uid
  sc_userId :: uid
  sc_approverId :: "uid option"
  sc_approverRole :: "role option"
  sc_companyId :: "uid option"
  sc_departmentId :: "uid option"

datatype sla_column = RemindedAt | EscalatedAt

definition sla_mark :: "sla_column \<Rightarrow> approval_item \<Rightarrow> int option" where
  "sla_mark col a = (case col of RemindedAt \<Rightarrow> it_remindedAt a | EscalatedAt \<Rightarrow> it_escalatedAt a)"

definition sla_window :: "sla_column \<Rightarrow> int \<Rightarrow> int \<Rightarrow> bool" where
  "sla_window col now due = (case col of RemindedAt \<Rightarrow> due \<ge> now \<and> due \<le> now + DUE_SOON_MS | EscalatedAt \<Rightarrow> due < now)"

definition sla_hit :: "sla_column \<Rightarrow> int \<Rightarrow> approval_item \<Rightarrow> bool" where
  "sla_hit col now a = (it_status a = Pending \<and> sla_mark col a = None \<and> holds_of (it_dueAt a) (sla_window col now))"

definition claim_of :: "org_facts \<Rightarrow> approval_item \<Rightarrow> sla_claim option" where
  "claim_of f a =
     map_option (\<lambda>u. \<lparr>sc_type = it_type a, sc_id = it_id a, sc_userId = it_userId a, sc_approverId = it_approverId a,
       sc_approverRole = it_approverRole a, sc_companyId = pf_companyId u, sc_departmentId = pf_departmentId u\<rparr>) (of_people f (it_userId a))"

definition SLA_TABLES :: "approval_kind list" where
  "SLA_TABLES = [BreakItem, MeetingItem, AwayItem]"

definition slaCandidates :: "org_facts \<Rightarrow> int \<Rightarrow> sla_column \<Rightarrow> approval_item list \<Rightarrow> sla_claim list" where
  "slaCandidates f now col items =
     concat (map (\<lambda>table. take 5000 (List.map_filter (claim_of f) (filter (\<lambda>a. it_type a = table \<and> sla_hit col now a) items))) SLA_TABLES)"

text \<open>Setting a column of the rows of some ids where it is null.\<close>

definition marked :: "sla_column \<Rightarrow> int \<Rightarrow> pending_clock \<Rightarrow> pending_clock" where
  "marked col now c =
     (case col of
        RemindedAt \<Rightarrow> if pc_remindedAt c = None then c\<lparr>pc_remindedAt := Some now\<rparr> else c
      | EscalatedAt \<Rightarrow> if pc_escalatedAt c = None then c\<lparr>pc_escalatedAt := Some now\<rparr> else c)"

definition unmarked :: "sla_column \<Rightarrow> pending_clock \<Rightarrow> bool" where
  "unmarked col c = (case col of RemindedAt \<Rightarrow> pc_remindedAt c = None | EscalatedAt \<Rightarrow> pc_escalatedAt c = None)"

definition map_tables :: "(break_row \<Rightarrow> break_row) \<Rightarrow> (meeting_row \<Rightarrow> meeting_row) \<Rightarrow> (away_row \<Rightarrow> away_row) \<Rightarrow> away_db \<Rightarrow> away_db" where
  "map_tables fb fm fw d =
     (let m = aw_meet d; w = md_work m; t = wd_tables w
      in d\<lparr>aw_rows := map fw (aw_rows d),
           aw_meet := m\<lparr>md_meetings := map fm (md_meetings m),
                       md_work := w\<lparr>wd_tables := t\<lparr>db_breaks := map fb (db_breaks t)\<rparr>\<rparr>\<rparr>\<rparr>)"

definition ids_of :: "approval_kind \<Rightarrow> item_ref list \<Rightarrow> uid list" where
  "ids_of ty refs = map snd (filter (\<lambda>r. fst r = ty) refs)"

definition markSla :: "item_ref list \<Rightarrow> int \<Rightarrow> sla_column \<Rightarrow> away_db \<Rightarrow> nat \<times> away_db" where
  "markSla refs now col d =
     (let hit = (\<lambda>ty i c. i \<in> set (ids_of ty refs) \<and> unmarked col c) in
      (length (filter (\<lambda>b. hit BreakItem (br_id b) (br_clock b)) (db_breaks (aw_tables d)))
       + length (filter (\<lambda>m. hit MeetingItem (mr_id m) (mr_clock m)) (md_meetings (aw_meet d)))
       + length (filter (\<lambda>w. hit AwayItem (ay_id w) (ay_clock w)) (aw_rows d)),
       map_tables
         (\<lambda>b. if br_id b \<in> set (ids_of BreakItem refs) then b\<lparr>br_clock := marked col now (br_clock b)\<rparr> else b)
         (\<lambda>m. if mr_id m \<in> set (ids_of MeetingItem refs) then m\<lparr>mr_clock := marked col now (mr_clock m)\<rparr> else m)
         (\<lambda>w. if ay_id w \<in> set (ids_of AwayItem refs) then w\<lparr>ay_clock := marked col now (ay_clock w)\<rparr> else w) d))"

definition remindersDue :: "org_facts \<Rightarrow> int \<Rightarrow> approval_item list \<Rightarrow> sla_claim list" where
  "remindersDue f now = slaCandidates f now RemindedAt"

definition escalationsDue :: "org_facts \<Rightarrow> int \<Rightarrow> approval_item list \<Rightarrow> sla_claim list" where
  "escalationsDue f now = slaCandidates f now EscalatedAt"

definition markReminded :: "item_ref list \<Rightarrow> int \<Rightarrow> away_db \<Rightarrow> nat \<times> away_db" where
  "markReminded refs now = markSla refs now RemindedAt"

definition markEscalated :: "item_ref list \<Rightarrow> int \<Rightarrow> away_db \<Rightarrow> nat \<times> away_db" where
  "markEscalated refs now = markSla refs now EscalatedAt"

definition filled :: "int \<Rightarrow> int \<Rightarrow> pending_clock \<Rightarrow> pending_clock" where
  "filled created slaHours c = (if pc_dueAt c = None then c\<lparr>pc_dueAt := Some (created + slaHours * 3600000)\<rparr> else c)"

definition fillMissingDueAt :: "created_at \<Rightarrow> int \<Rightarrow> away_db \<Rightarrow> nat \<times> away_db" where
  "fillMissingDueAt created slaHours d =
     (length (filter (\<lambda>b. br_approvalStatus b = Pending \<and> pc_dueAt (br_clock b) = None) (db_breaks (aw_tables d)))
      + length (filter (\<lambda>m. mr_approvalStatus m = Pending \<and> pc_dueAt (mr_clock m) = None) (md_meetings (aw_meet d)))
      + length (filter (\<lambda>w. ay_status w = AwPending \<and> pc_dueAt (ay_clock w) = None) (aw_rows d)),
      map_tables
        (\<lambda>b. if br_approvalStatus b = Pending then b\<lparr>br_clock := filled (created BreakItem (br_id b)) slaHours (br_clock b)\<rparr> else b)
        (\<lambda>m. if mr_approvalStatus m = Pending then m\<lparr>mr_clock := filled (created MeetingItem (mr_id m)) slaHours (mr_clock m)\<rparr> else m)
        (\<lambda>w. if ay_status w = AwPending then w\<lparr>ay_clock := filled (created AwayItem (ay_id w)) slaHours (ay_clock w)\<rparr> else w) d)"

section \<open>Counts by group\<close>

definition DIGEST_DUE_MS :: int where
  "DIGEST_DUE_MS = 24 * 60 * 60000"

definition group_by :: "('a \<Rightarrow> 'k) \<Rightarrow> 'a list \<Rightarrow> ('k \<times> 'a list) list" where
  "group_by key xs = map (\<lambda>k. (k, filter (\<lambda>x. key x = k) xs)) (js_unique (map key xs))"

record digest_row =
  dg_approverRole :: "role option"
  dg_companyId :: "uid option"
  dg_departmentId :: "uid option"
  dg_pending :: nat
  dg_dueSoon :: nat
  dg_overdue :: nat

definition due_in :: "int \<Rightarrow> int \<Rightarrow> approval_item \<Rightarrow> bool" where
  "due_in lo hi a = holds_of (it_dueAt a) (\<lambda>due. due \<ge> lo \<and> due \<le> hi)"

definition past_due :: "int \<Rightarrow> approval_item \<Rightarrow> bool" where
  "past_due now a = holds_of (it_dueAt a) (\<lambda>due. due < now)"

definition digestCounts :: "org_facts \<Rightarrow> int \<Rightarrow> approval_item list \<Rightarrow> digest_row list" where
  "digestCounts f now items =
     (let joined = List.map_filter (\<lambda>a. map_option (\<lambda>u. (a, u)) (of_people f (it_userId a))) (filter (\<lambda>a. it_status a = Pending) items)
      in map (\<lambda>((r, c, dep), rows).
               \<lparr>dg_approverRole = r, dg_companyId = c, dg_departmentId = dep, dg_pending = length rows,
                dg_dueSoon = length (filter (due_in now (now + DIGEST_DUE_MS)) rows), dg_overdue = length (filter (past_due now) rows)\<rparr>)
           (map (\<lambda>(k, rows). (k, map fst rows))
             (group_by (\<lambda>(a, u). (it_approverRole a, pf_companyId u, pf_departmentId u)) joined)))"

definition pendingByUserDate :: "uid list \<Rightarrow> string \<Rightarrow> string \<Rightarrow> int \<Rightarrow> approval_item list \<Rightarrow> ((uid \<times> string) \<times> nat \<times> nat) list" where
  "pendingByUserDate us d0 d1 now items =
     (if us = [] then []
      else map (\<lambda>(k, rows). (k, length rows, length (filter (past_due now) rows)))
             (group_by (\<lambda>a. (it_userId a, it_date a))
               (filter (\<lambda>a. it_status a = Pending \<and> it_userId a \<in> set us \<and> it_date a \<ge> d0 \<and> it_date a \<le> d1) items)))"

definition pendingInMonth :: "org_facts \<Rightarrow> uid \<Rightarrow> string \<Rightarrow> uid list option \<Rightarrow> approval_item list \<Rightarrow> nat" where
  "pendingInMonth f c month us items =
     (if us = Some [] then 0
      else length (filter (\<lambda>a. it_status a = Pending \<and> take 7 (it_date a) = month \<and> inOrg f c a
             \<and> if_given us (\<lambda>xs. it_userId a \<in> set xs)) items))"

definition lockedMonths :: "break_db \<Rightarrow> uid list \<Rightarrow> string list \<Rightarrow> (uid \<times> string) set" where
  "lockedMonths db companyIds months =
     (if months = [] \<or> companyIds = [] then {}
      else Set.filter (\<lambda>(c, m). m \<in> set months \<and> c \<in> set companyIds) (db_monthLocks db))"

end
