(* ===== verification/Notices.thy ===== *)
theory Notices
  imports Focus_Adjustments Approval_Items
begin

text \<open>
  Titles and bodies of the working-day notifications, \<open>src/src/modules/worktime/domain/notice-copy.ts\<close>
  (the one on focus adjustments is with them). A copy is its title and its body.
\<close>

definition MONTHS :: "string list" where
  "MONTHS = [''January'', ''February'', ''March'', ''April'', ''May'', ''June'', ''July'', ''August'', ''September'',
     ''October'', ''November'', ''December'']"

text \<open>\<open>const [y, m] = month.split('-').map(Number)\<close>; a month that is not a number is shown as it is.\<close>

definition monthName :: "string \<Rightarrow> string" where
  "monthName month =
     (case split_on CHR ''-'' month of
        ys # ms # _ \<Rightarrow>
          (case (num_of ys, num_of ms) of
             (Some y, Some m) \<Rightarrow> if 1 \<le> m \<and> m \<le> 12 then MONTHS ! nat (m - 1) @ '' '' @ show_int y else month
           | (None, Some m) \<Rightarrow> if 1 \<le> m \<and> m \<le> 12 then MONTHS ! nat (m - 1) @ '' NaN'' else month
           | _ \<Rightarrow> month)
      | _ \<Rightarrow> month)"

definition lowerLabel :: "break_kind option \<Rightarrow> string" where
  "lowerLabel kind = (case kind of Some k \<Rightarrow> to_lower (RECORD_LABEL k) | None \<Rightarrow> ''break'')"

definition approvalsAre :: "nat \<Rightarrow> string" where
  "approvalsAre n = (if n = 1 then ''1 approval is'' else show_nat n @ '' approvals are'')"

definition namesList :: "string list \<Rightarrow> string" where
  "namesList names =
     (let uniq = js_unique (filter (\<lambda>n. trim n \<noteq> []) names) in
      case uniq of
        [] \<Rightarrow> ''the Admin''
      | [a] \<Rightarrow> a
      | [a, b] \<Rightarrow> a @ '' and '' @ b
      | [a, b, c] \<Rightarrow> a @ '', '' @ b @ '' and '' @ c
      | a # b # _ \<Rightarrow> a @ '', '' @ b @ '' and '' @ show_nat (length uniq - 2) @ '' others'')"

definition asSentence :: "string \<Rightarrow> string" where
  "asSentence txt = (let t = trim txt in if t \<noteq> [] \<and> List.last t \<in> {CHR ''.'', CHR ''?''} then t else t @ ''.'')"

type_synonym notice_copy = "string \<times> string"

definition skipRequestedCopy :: "string \<Rightarrow> break_kind option \<Rightarrow> string option \<Rightarrow> notice_copy" where
  "skipRequestedCopy name kind reason =
     (name @ '' skipped the '' @ lowerLabel kind,
      (case reason of
         Some r \<Rightarrow> if r = [] then ''No reason given. Review it in Approvals.''
                   else ''Reason: '' @ asSentence r @ '' Review it in Approvals.''
       | None \<Rightarrow> ''No reason given. Review it in Approvals.''))"

definition autoSkipRequestedCopy :: "string \<Rightarrow> break_kind option \<Rightarrow> string \<Rightarrow> notice_copy" where
  "autoSkipRequestedCopy name kind hm =
     (name @ CHR 0x27 # ''s '' @ lowerLabel kind @ '' was auto-skipped'',
      ''No break was taken by '' @ hm @ ''. Review it in Approvals.'')"

definition skipCommentCopy :: "string \<Rightarrow> break_kind option \<Rightarrow> string \<Rightarrow> string \<Rightarrow> notice_copy" where
  "skipCommentCopy name kind date comment =
     (name @ '' commented on the skipped '' @ lowerLabel kind, shortDay date @ '': '' @ comment)"

definition meetingRequestedCopy :: "string \<Rightarrow> string \<Rightarrow> int \<Rightarrow> string \<Rightarrow> string \<Rightarrow> notice_copy" where
  "meetingRequestedCopy name agenda mins from_hm to_hm =
     (name @ '' logged a meeting: '' @ agenda,
      show_int mins @ '' min, '' @ from_hm @ '' to '' @ to_hm @ ''. Review it in Approvals.'')"

definition meetingDecidedCopy :: "bool \<Rightarrow> string \<Rightarrow> string \<Rightarrow> string option \<Rightarrow> notice_copy" where
  "meetingDecidedCopy approved date deciderName decision_note =
     (''Your meeting on '' @ shortDay date @ '' was '' @ (if approved then ''approved'' else ''rejected''),
      (case decision_note of
         Some n \<Rightarrow> if n = [] then ''By '' @ deciderName @ ''.'' else deciderName @ '': '' @ n
       | None \<Rightarrow> ''By '' @ deciderName @ ''.''))"

definition dueSoonCopy :: "nat \<Rightarrow> notice_copy" where
  "dueSoonCopy count =
     (approvalsAre count @ '' due within 12 hours'',
      ''Decide them in Approvals before they go to your organisation'' @ CHR 0x27 # ''s Admin.'')"

definition overdueCopy :: "nat \<Rightarrow> int \<Rightarrow> notice_copy" where
  "overdueCopy count slaHours =
     (approvalsAre count @ '' past '' @ show_int slaHours @ '' hours'',
      ''Your organisation'' @ CHR 0x27 # ''s Admin has been told. Decide them in Approvals.'')"

definition escalatedCopy :: "nat \<Rightarrow> int \<Rightarrow> string list \<Rightarrow> notice_copy" where
  "escalatedCopy count slaHours approverNames =
     (approvalsAre count @ '' past '' @ show_int slaHours @ '' hours'',
      ''Waiting on '' @ namesList approverNames @ ''. You can decide them in Approvals.'')"

definition monthlyReportCopy :: "string \<Rightarrow> bool \<Rightarrow> notice_copy" where
  "monthlyReportCopy month everyone =
     (monthName month @ '' report is ready'',
      (if everyone then ''Everyone'' @ CHR 0x27 # ''s monthly report is ready in Reports.''
       else ''Your team'' @ CHR 0x27 # ''s monthly report is ready in Reports.''))"

definition dayAutoClosedSelfCopy :: "string \<Rightarrow> notice_copy" where
  "dayAutoClosedSelfCopy closedAt =
     (''Your day was closed at '' @ closedAt,
      ''End Day was not pressed, so the day was closed at your last keyboard or mouse input.'')"

definition dayAutoClosedManagerCopy :: "string \<Rightarrow> string \<Rightarrow> notice_copy" where
  "dayAutoClosedManagerCopy name closedAt =
     (name @ CHR 0x27 # ''s day was closed automatically'',
      ''End Day was not pressed. The day was closed at the last input, '' @ closedAt @ ''.'')"

end
