(* ===== verification/Approvals.thy ===== *)
theory Approvals
  imports Approval_Items
begin

text \<open>
  The approvals inbox of every kind of item: \<open>src/src/modules/worktime/application/approvals.service.ts\<close>,
  with the parts of the record view it reads (\<open>shifts/application/shift.mapper.ts\<close>, \<open>meetingView\<close>
  of \<open>meetings.service.ts\<close>). Lists, decisions, reopening, bulk approval, and the views with what the
  caller may do. Names and e-mails of people, titles, details and notices are left out of the views.
\<close>

section \<open>Acting on one of the tables\<close>

definition with_breaks :: "break_db \<Rightarrow> away_db \<Rightarrow> away_db" where
  "with_breaks db d = d\<lparr>aw_meet := (aw_meet d)\<lparr>md_work := (md_work (aw_meet d))\<lparr>wd_tables := db\<rparr>\<rparr>\<rparr>"

definition on_breaks :: "'a tx \<Rightarrow> 'a away_tx" where
  "on_breaks f d = (case f (aw_tables d) of (r, db) \<Rightarrow> (r, with_breaks db d))"

definition on_meetings :: "'a meet_tx \<Rightarrow> 'a away_tx" where
  "on_meetings f d = (case f (aw_meet d) of (r, m) \<Rightarrow> (r, d\<lparr>aw_meet := m\<rparr>))"

definition heal_all :: "uid list option \<Rightarrow> away_db \<Rightarrow> away_db" where
  "heal_all us d = d\<lparr>aw_meet := snd (heal us (aw_meet d))\<rparr>"

section \<open>Views\<close>

text \<open>The parts of \<open>ShiftMapper.recordView\<close> an item shows.\<close>

definition stateOf :: "break_record_row \<Rightarrow> break_state" where
  "stateOf r =
     (if isSkipRecord (br_data (bv_row r)) then BEnded
      else if br_state (bv_row r) = BPaused then BPaused
      else if br_state (bv_row r) = BEnded \<and> br_endedAt (bv_row r) \<noteq> None then BEnded
      else if bv_endedAt r = None then BActive else BEnded)"

definition view_takenSec :: "break_record_row \<Rightarrow> int \<Rightarrow> int" where
  "view_takenSec r now = (if isSkipRecord (br_data (bv_row r)) then 0 else takenSecOf r now)"

definition view_overrunSec :: "break_record_row \<Rightarrow> int \<Rightarrow> int" where
  "view_overrunSec r now =
     (let d = br_data (bv_row r); taken = view_takenSec r now in
      if nb_kind d = Some Quick
      then (case br_plannedMin (bv_row r) of None \<Rightarrow> 0 | Some p \<Rightarrow> if p = 0 then 0 else max 0 (taken - p * 60))
      else (case br_overrunSec (bv_row r) of
              Some s \<Rightarrow> s
            | None \<Rightarrow> (case nb_durationMin d of
                          None \<Rightarrow> 0
                        | Some m \<Rightarrow> if isSkipRecord d \<or> m = 0 then 0 else max 0 (taken - m * 60))))"

definition meeting_inProgress :: "meeting_row \<Rightarrow> bool" where
  "meeting_inProgress m = (mr_mode m = LiveMeeting \<and> mr_endedAt m = None)"

definition meeting_durationSec :: "meeting_row \<Rightarrow> int \<Rightarrow> int" where
  "meeting_durationSec m now =
     (if meeting_inProgress m then max 0 (round_div (now - mr_startedAt m) 1000) else coalesce (mr_durationSec m) 0)"

record item_view =
  iv_type :: approval_kind
  iv_id :: uid
  iv_category :: approval_category
  iv_userId :: uid
  iv_date :: string
  iv_reason :: "string option"
  iv_needsComment :: bool
  iv_participants :: "participant list"
  iv_startedAt :: int
  iv_endedAt :: "int option"
  iv_inProgress :: bool
  iv_durationSec :: int
  iv_effect :: approval_effect
  iv_status :: approval_status
  iv_dueAt :: "int option"
  iv_sla :: sla_state
  iv_escalated :: bool
  iv_decidedAt :: "int option"
  iv_decidedById :: "uid option"
  iv_decisionNote :: "string option"
  iv_canDecide :: bool
  iv_locked :: bool

definition breakView :: "auth_user \<Rightarrow> break_record_row \<Rightarrow> approval_status \<Rightarrow> people \<Rightarrow> bool \<Rightarrow> int \<Rightarrow> item_view" where
  "breakView me r status people locked now =
     (let b = bv_row r; d = br_data b; over = view_overrunSec r now;
          category = breakCategory (nb_outcome d) (br_overrunAsked b) (nb_timing d);
          minutes = (if category = BREAK_OVERRUN then wholeMinutes over
                     else if category = BREAK_SKIP \<or> category = BREAK_AUTO_SKIP then coalesce (nb_durationMin d) 0 else 0)
      in \<lparr>iv_type = BreakItem, iv_id = br_id b, iv_category = category, iv_userId = br_userId b, iv_date = br_date b,
          iv_reason = (if category = BREAK_OVERRUN then or_else (br_overrunReason b) (nb_reason d) else nb_reason d),
          iv_needsComment = needsComment d, iv_participants = [], iv_startedAt = nb_startedAt d, iv_endedAt = bv_endedAt r,
          iv_inProgress = (stateOf r = BActive), iv_durationSec = view_takenSec r now,
          iv_effect = approvalEffect category (br_approvalStatus b) minutes, iv_status = status,
          iv_dueAt = pc_dueAt (br_clock b), iv_sla = slaState (br_approvalStatus b) (pc_dueAt (br_clock b)) now,
          iv_escalated = (pc_escalatedAt (br_clock b) \<noteq> None), iv_decidedAt = br_decidedAt b, iv_decidedById = br_decidedById b,
          iv_decisionNote = br_decisionNote b,
          iv_canDecide = (br_userId b \<noteq> u_id me \<and> \<not> locked \<and> canDecide me (br_userId b) (people (br_userId b))),
          iv_locked = locked\<rparr>)"

definition meetingViewOf :: "auth_user \<Rightarrow> meeting_row \<Rightarrow> approval_status \<Rightarrow> people \<Rightarrow> bool \<Rightarrow> int \<Rightarrow> item_view" where
  "meetingViewOf me m status people locked now =
     (let category = meetingCategory (mr_mode m); dur = meeting_durationSec m now
      in \<lparr>iv_type = MeetingItem, iv_id = mr_id m, iv_category = category, iv_userId = mr_userId m, iv_date = mr_date m,
          iv_reason = Some (case mr_momSender m of
                        None \<Rightarrow> mr_agenda m
                      | Some s \<Rightarrow> if s = [] then mr_agenda m else mr_agenda m @ dot @ ''minutes by '' @ s),
          iv_needsComment = False, iv_participants = mr_participants m, iv_startedAt = mr_startedAt m, iv_endedAt = mr_endedAt m,
          iv_inProgress = meeting_inProgress m, iv_durationSec = dur,
          iv_effect = approvalEffect category (mr_approvalStatus m) (wholeMinutes dur), iv_status = status,
          iv_dueAt = pc_dueAt (mr_clock m), iv_sla = slaState (mr_approvalStatus m) (pc_dueAt (mr_clock m)) now,
          iv_escalated = (pc_escalatedAt (mr_clock m) \<noteq> None), iv_decidedAt = mr_decidedAt m, iv_decidedById = mr_decidedById m,
          iv_decisionNote = mr_decisionNote m,
          iv_canDecide = (mr_userId m \<noteq> u_id me \<and> \<not> meeting_inProgress m \<and> \<not> locked
                          \<and> canDecide me (mr_userId m) (people (mr_userId m))),
          iv_locked = locked\<rparr>)"

definition awayViewOf :: "auth_user \<Rightarrow> away_row \<Rightarrow> approval_status \<Rightarrow> people \<Rightarrow> bool \<Rightarrow> int \<Rightarrow> item_view" where
  "awayViewOf me a status people locked now =
     (let category = awayCategory (na_reasonKind (ay_data a)); seconds = coalesce (ay_seconds a) 0
      in \<lparr>iv_type = AwayItem, iv_id = ay_id a, iv_category = category, iv_userId = ay_userId a, iv_date = ay_date a,
          iv_reason = na_comment (ay_data a), iv_needsComment = False, iv_participants = na_participants (ay_data a),
          iv_startedAt = ay_startedAt a, iv_endedAt = ay_endedAt a, iv_inProgress = False, iv_durationSec = seconds,
          iv_effect = approvalEffect category status (max 1 (round_div seconds 60)), iv_status = status,
          iv_dueAt = pc_dueAt (ay_clock a), iv_sla = slaState status (pc_dueAt (ay_clock a)) now,
          iv_escalated = (pc_escalatedAt (ay_clock a) \<noteq> None), iv_decidedAt = ay_decidedAt a, iv_decidedById = ay_decidedById a,
          iv_decisionNote = ay_decisionNote a,
          iv_canDecide = (ay_userId a \<noteq> u_id me \<and> \<not> locked \<and> canDecide me (ay_userId a) (people (ay_userId a))),
          iv_locked = locked\<rparr>)"

text \<open>The person and day of the records of a list, and whether a month of one of them is locked.\<close>

definition owners :: "break_record_row list \<Rightarrow> meeting_row list \<Rightarrow> away_row list \<Rightarrow> (uid \<times> string) list" where
  "owners bs ms aws =
     map (\<lambda>r. (br_userId (bv_row r), br_date (bv_row r))) bs @ map (\<lambda>m. (mr_userId m, mr_date m)) ms
     @ map (\<lambda>a. (ay_userId a, ay_date a)) aws"

definition company_of :: "people \<Rightarrow> uid \<Rightarrow> uid option" where
  "company_of people u = Option.bind (people u) pf_companyId"

definition isLocked :: "break_db \<Rightarrow> people \<Rightarrow> (uid \<times> string) list \<Rightarrow> uid \<Rightarrow> string \<Rightarrow> bool" where
  "isLocked db people own u date =
     (case company_of people u of
        None \<Rightarrow> False
      | Some c \<Rightarrow> (c, monthOf date) \<in> lockedMonths db (List.map_filter (\<lambda>(v, _). company_of people v) own) (map (\<lambda>(_, dt). monthOf dt) own))"

definition build_one :: "auth_user \<Rightarrow> break_record_row list \<Rightarrow> meeting_row list \<Rightarrow> away_row list \<Rightarrow> people \<Rightarrow> int \<Rightarrow> break_db
    \<Rightarrow> item_ref \<Rightarrow> item_view option" where
  "build_one me bs ms aws people now db ref =
     (let lock = isLocked db people (owners bs ms aws) in
      case fst ref of
        AwayItem \<Rightarrow>
          (case List.find (\<lambda>a. ay_id a = snd ref) aws of
             None \<Rightarrow> None
           | Some a \<Rightarrow>
               (case away_decided (ay_status a) of
                  None \<Rightarrow> None
                | Some st \<Rightarrow>
                    if \<not> canView me (ay_userId a) (people (ay_userId a)) then None
                    else Some (awayViewOf me a st people (lock (ay_userId a) (ay_date a)) now)))
      | BreakItem \<Rightarrow>
          (case List.find (\<lambda>r. br_id (bv_row r) = snd ref) bs of
             None \<Rightarrow> None
           | Some r \<Rightarrow>
               if br_approvalStatus (bv_row r) = NotRequired then None
               else if \<not> canView me (br_userId (bv_row r)) (people (br_userId (bv_row r))) then None
               else Some (breakView me r (br_approvalStatus (bv_row r)) people (lock (br_userId (bv_row r)) (br_date (bv_row r))) now))
      | MeetingItem \<Rightarrow>
          (case List.find (\<lambda>m. mr_id m = snd ref) ms of
             None \<Rightarrow> None
           | Some m \<Rightarrow>
               if mr_approvalStatus m = NotRequired then None
               else if \<not> canView me (mr_userId m) (people (mr_userId m)) then None
               else Some (meetingViewOf me m (mr_approvalStatus m) people (lock (mr_userId m) (mr_date m)) now)))"

definition build :: "auth_user \<Rightarrow> break_record_row list \<Rightarrow> meeting_row list \<Rightarrow> away_row list \<Rightarrow> people \<Rightarrow> int \<Rightarrow> break_db
    \<Rightarrow> item_ref list \<Rightarrow> item_view list" where
  "build me bs ms aws people now db refs = List.map_filter (build_one me bs ms aws people now db) refs"

definition meetings_by_ids :: "meet_db \<Rightarrow> uid list \<Rightarrow> meeting_row list" where
  "meetings_by_ids d ids = filter (\<lambda>m. mr_id m \<in> set ids) (md_meetings d)"

definition views :: "people \<Rightarrow> auth_user \<Rightarrow> item_ref list \<Rightarrow> int \<Rightarrow> away_db \<Rightarrow> item_view list" where
  "views people me refs now d =
     (if refs = [] then []
      else build me (listByIds (aw_tables d) (ids_of BreakItem refs)) (meetings_by_ids (aw_meet d) (ids_of MeetingItem refs))
             (away_by_ids d (ids_of AwayItem refs)) people now (aw_tables d) refs)"

section \<open>Reading\<close>

record approvals_env =
  en_facts :: org_facts
  en_created :: created_at
  en_zone :: zone
  en_sla :: "uid option \<Rightarrow> int"

abbreviation en_people :: "approvals_env \<Rightarrow> people" where "en_people e \<equiv> of_people (en_facts e)"

definition scopeFor :: "auth_user \<Rightarrow> approval_scope \<Rightarrow> uid option \<Rightarrow> approvals_scope result" where
  "scopeFor me scope companyId =
     and_then
       (if \<not> allOrgsInView me
        then and_then (requireOrg me) (\<lambda>_.
               if companyId \<noteq> None \<and> companyId \<noteq> orgOf me then throw (NotFoundError ''ORG_NOT_FOUND'') else return ())
        else return ())
       (\<lambda>_. case approverScopeOf me scope companyId of
              None \<Rightarrow> throw (ForbiddenError ''FORBIDDEN'')
            | Some s \<Rightarrow> return s)"

datatype status_filter = OneOf approval_status | DecidedOnes | AnyStatus

record list_query =
  lq_page :: "nat option"
  lq_limit :: "nat option"
  lq_status :: "status_filter option"
  lq_overdue :: bool
  lq_scope :: approval_scope
  lq_companyId :: "uid option"
  lq_type :: "approval_kind option"
  lq_category :: "approval_category option"
  lq_date :: "string option"
  lq_userId :: "uid option"

definition statuses_of :: "list_query \<Rightarrow> approval_status list" where
  "statuses_of q =
     (if lq_overdue q then [Pending]
      else (case coalesce (lq_status q) (OneOf Pending) of
              AnyStatus \<Rightarrow> [Pending, Approved, Rejected]
            | DecidedOnes \<Rightarrow> [Approved, Rejected]
            | OneOf st \<Rightarrow> [st]))"

definition query_of :: "list_query \<Rightarrow> approvals_scope \<Rightarrow> int \<Rightarrow> approval_query" where
  "query_of q s now =
     (let page = coalesce (lq_page q) 1; limit = coalesce (lq_limit q) 50
      in (query s (statuses_of q))\<lparr>qy_type := lq_type q, qy_category := lq_category q,
           qy_overdueAt := (if lq_overdue q then Some now else None), qy_date := lq_date q, qy_userId := lq_userId q,
           qy_skip := Some ((page - 1) * limit), qy_take := Some limit\<rparr>)"

type_synonym 'a inbox_reply = "'a result \<times> away_db"

definition list_inbox :: "approvals_env \<Rightarrow> auth_user \<Rightarrow> list_query \<Rightarrow> int \<Rightarrow> away_db \<Rightarrow> (item_view list \<times> nat \<times> int) inbox_reply" where
  "list_inbox env me q now d =
     (case assertApprover me of
        Inl e \<Rightarrow> (throw e, d)
      | Inr _ \<Rightarrow>
          (let d1 = heal_all None d in
           case scopeFor me (lq_scope q) (lq_companyId q) of
             Inl e \<Rightarrow> (throw e, d1)
           | Inr s \<Rightarrow>
               (let (n, refs) = list_items (en_facts env) (query_of q s now) (ITEMS (en_created env) d1)
                in (return (views (en_people env) me refs now d1, n, totalPages (int n) (int (coalesce (lq_limit q) 50))), d1))))"

record inbox_summary =
  is_pending :: nat
  is_dueSoon :: nat
  is_overdue :: nat
  is_escalated :: nat
  is_approvedToday :: nat
  is_rejectedToday :: nat
  is_slaHours :: int

text \<open>\<open>en_sla\<close> is the approval SLA of the organisation's settings, the defaults without one.\<close>

definition inbox_summary_of :: "approvals_env \<Rightarrow> approvals_scope \<Rightarrow> uid option \<Rightarrow> int \<Rightarrow> approval_item list \<Rightarrow> inbox_summary" where
  "inbox_summary_of env s settingsOrg now items =
     (let f = en_facts env; tz = en_zone env; today = dateKeyInZone now tz; pending = query s [Pending];
          dayStart = startOfDayInZone today tz; dayEnd = startOfDayInZone (addDaysToKey today 1) tz
      in \<lparr>is_pending = count_items f pending items,
          is_dueSoon = count_items f (pending\<lparr>qy_dueWithin := Some (now, now + DUE_SOON_MS)\<rparr>) items,
          is_overdue = count_items f (pending\<lparr>qy_overdueAt := Some now\<rparr>) items,
          is_escalated = count_items f (pending\<lparr>qy_escalatedOnly := True\<rparr>) items,
          is_approvedToday = countDecidedBetween f s Approved dayStart dayEnd items,
          is_rejectedToday = countDecidedBetween f s Rejected dayStart dayEnd items,
          is_slaHours = en_sla env settingsOrg\<rparr>)"

definition summary :: "approvals_env \<Rightarrow> auth_user \<Rightarrow> approval_scope \<Rightarrow> uid option \<Rightarrow> int \<Rightarrow> away_db \<Rightarrow> inbox_summary inbox_reply" where
  "summary env me scope companyId now d =
     (case assertApprover me of
        Inl e \<Rightarrow> (throw e, d)
      | Inr _ \<Rightarrow>
          (let d1 = heal_all None d in
           case scopeFor me scope companyId of
             Inl e \<Rightarrow> (throw e, d1)
           | Inr s \<Rightarrow>
               (let settingsOrg = (if allOrgsInView me then companyId else orgOf me)
                in (return (inbox_summary_of env s settingsOrg now (ITEMS (en_created env) d1)), d1))))"

definition my_items :: "approvals_env \<Rightarrow> auth_user \<Rightarrow> int \<Rightarrow> int \<Rightarrow> away_db \<Rightarrow> item_view list \<times> away_db" where
  "my_items env me days now d =
     (let d1 = heal_all (Some [u_id me]) d; span_days = min 31 (max 1 days); today = dateKeyInZone now (en_zone env);
          q = (query (ScSubject (u_id me)) [Pending, Approved, Rejected])\<lparr>qy_fromDate := Some (addDaysToKey today (- (span_days - 1))), qy_take := Some 300\<rparr>
      in (views (en_people env) me (snd (list_items (en_facts env) q (ITEMS (en_created env) d1))) now d1, d1))"

definition itemsFor :: "approvals_env \<Rightarrow> auth_user \<Rightarrow> uid list \<Rightarrow> string \<Rightarrow> string \<Rightarrow> int \<Rightarrow> away_db \<Rightarrow> item_view list" where
  "itemsFor env me us d0 d1 now d =
     (if us = [] then []
      else (let q = (query ScAll [Pending, Approved, Rejected])\<lparr>qy_userIds := Some us, qy_fromDate := Some d0, qy_toDate := Some d1,
                      qy_take := Some 1000\<rparr>
            in views (en_people env) me (snd (list_items (en_facts env) q (ITEMS (en_created env) d))) now d))"

section \<open>Deciding\<close>

datatype decided_row = DecidedBreak break_record_row | DecidedMeeting meeting_row | DecidedAway away_row

text \<open>\<open>subjectOf\<close>: the person of an item, when the caller may see it.\<close>

definition subjectOf :: "people \<Rightarrow> auth_user \<Rightarrow> uid \<Rightarrow> person_row result" where
  "subjectOf people me u =
     (case people u of
        None \<Rightarrow> throw (NotFoundError ''NOT_FOUND'')
      | Some s \<Rightarrow> if \<not> canView me u (Some s) then throw (NotFoundError ''NOT_FOUND'') else return s)"

definition decideAway :: "people \<Rightarrow> auth_user \<Rightarrow> uid \<Rightarrow> approval_status \<Rightarrow> string option \<Rightarrow> int \<Rightarrow> away_row away_tx" where
  "decideAway people me i status note now d =
     (case find_away d i of
        None \<Rightarrow> (Inl (App (NotFoundError ''NOT_FOUND'')), d)
      | Some a \<Rightarrow>
          (case subjectOf people me (ay_userId a) of
             Inl e \<Rightarrow> (Inl (App e), d)
           | Inr subject \<Rightarrow>
               if ay_userId a = u_id me then (Inl (App (ForbiddenError ''FORBIDDEN'')), d)
               else if \<not> canDecide me (ay_userId a) (Some subject) then (Inl (App (ForbiddenError ''FORBIDDEN'')), d)
               else if ay_status a \<noteq> AwPending then (Inl (App (ConflictError ''ALREADY_DECIDED'')), d)
               else
                 (case decide_away i [AwPending] \<lparr>ad_status = status, ad_decidedById = Some (u_id me), ad_decidedAt = Some now,
                         ad_note = note, ad_dueAt = None\<rparr> d of
                    (Inl e, d') \<Rightarrow> (Inl e, d')
                  | (Inr None, d') \<Rightarrow> (Inl (App (ConflictError ''ALREADY_DECIDED'')), d')
                  | (Inr (Some r), d') \<Rightarrow> (Inr r, d'))))"

definition reopenAway :: "people \<Rightarrow> auth_user \<Rightarrow> uid \<Rightarrow> clock_frame \<Rightarrow> away_row away_tx" where
  "reopenAway people me i clk d =
     (case find_away d i of
        None \<Rightarrow> (Inl (App (NotFoundError ''NOT_FOUND'')), d)
      | Some a \<Rightarrow>
          (case subjectOf people me (ay_userId a) of
             Inl e \<Rightarrow> (Inl (App e), d)
           | Inr subject \<Rightarrow>
               if \<not> canDecide me (ay_userId a) (Some subject) then (Inl (App (ForbiddenError ''FORBIDDEN'')), d)
               else if ay_status a \<noteq> AwApproved \<and> ay_status a \<noteq> AwRejected then (Inl (App (ConflictError ''NOT_DECIDED'')), d)
               else if \<not> seesWholeOrg me \<and> ay_decidedById a \<noteq> Some (u_id me) then (Inl (App (ForbiddenError ''FORBIDDEN'')), d)
               else
                 (case decide_away i [AwApproved, AwRejected] \<lparr>ad_status = Pending, ad_decidedById = None, ad_decidedAt = None,
                         ad_note = None, ad_dueAt = pc_dueAt (pendingClock clk (clock_now clk) (db_sla (aw_tables d) (ay_userId a)))\<rparr> d of
                    (Inl e, d') \<Rightarrow> (Inl e, d')
                  | (Inr None, d') \<Rightarrow> (Inl (App (ConflictError ''STALE'')), d')
                  | (Inr (Some r), d') \<Rightarrow> (Inr r, d'))))"

definition decideMeeting :: "people \<Rightarrow> auth_user \<Rightarrow> uid \<Rightarrow> approval_status \<Rightarrow> string option \<Rightarrow> clock_frame \<Rightarrow> meeting_row meet_tx" where
  "decideMeeting people me i status note clk d =
     (case find_meeting d i of
        None \<Rightarrow> (Inl (App (NotFoundError ''NOT_FOUND'')), d)
      | Some found \<Rightarrow>
          (case subjectOf people me (mr_userId found) of
             Inl e \<Rightarrow> (Inl (App e), d)
           | Inr subject \<Rightarrow>
               (let d1 = (if meeting_inProgress found then snd (heal (Some [mr_userId found]) d) else d);
                    m = coalesce (find_meeting d1 i) found
                in if mr_userId m = u_id me then (Inl (App (ForbiddenError ''FORBIDDEN'')), d1)
                   else if \<not> canDecide me (mr_userId m) (Some subject) then (Inl (App (ForbiddenError ''FORBIDDEN'')), d1)
                   else if mr_approvalStatus m \<noteq> Pending then (Inl (App (ConflictError ''ALREADY_DECIDED'')), d1)
                   else if meeting_inProgress m then (Inl (App (ConflictError ''MEETING_IN_PROGRESS'')), d1)
                   else
                     (case decide_meeting i [Pending] \<lparr>dc_status = status, dc_decidedById = Some (u_id me),
                             dc_decidedAt = Some (clock_now clk), dc_note = note\<rparr> clk d1 of
                        (Inl e, d') \<Rightarrow> (Inl e, d')
                      | (Inr None, d') \<Rightarrow> (Inl (App (ConflictError ''ALREADY_DECIDED'')), d')
                      | (Inr (Some r), d') \<Rightarrow> (Inr r, d')))))"

definition reopenMeeting :: "people \<Rightarrow> auth_user \<Rightarrow> uid \<Rightarrow> clock_frame \<Rightarrow> meeting_row meet_tx" where
  "reopenMeeting people me i clk d =
     (case find_meeting d i of
        None \<Rightarrow> (Inl (App (NotFoundError ''NOT_FOUND'')), d)
      | Some m \<Rightarrow>
          (case subjectOf people me (mr_userId m) of
             Inl e \<Rightarrow> (Inl (App e), d)
           | Inr subject \<Rightarrow>
               if \<not> canDecide me (mr_userId m) (Some subject) then (Inl (App (ForbiddenError ''FORBIDDEN'')), d)
               else if mr_approvalStatus m \<notin> set DECIDED then (Inl (App (ConflictError ''NOT_DECIDED'')), d)
               else if \<not> seesWholeOrg me \<and> mr_decidedById m \<noteq> Some (u_id me) then (Inl (App (ForbiddenError ''FORBIDDEN'')), d)
               else
                 (case decide_meeting i DECIDED \<lparr>dc_status = Pending, dc_decidedById = None, dc_decidedAt = None, dc_note = None\<rparr> clk d of
                    (Inl e, d') \<Rightarrow> (Inl e, d')
                  | (Inr None, d') \<Rightarrow> (Inl (App (ConflictError ''STALE'')), d')
                  | (Inr (Some r), d') \<Rightarrow> (Inr r, d'))))"

definition result_map :: "('a \<Rightarrow> 'b) \<Rightarrow> (db_error + 'a) \<times> away_db \<Rightarrow> (db_error + 'b) \<times> away_db" where
  "result_map f x = (map_sum id f (fst x), snd x)"

definition decideRow ::
  "people \<Rightarrow> auth_user \<Rightarrow> item_ref \<Rightarrow> approval_status \<Rightarrow> string option \<Rightarrow> clock_frame \<Rightarrow> decided_row away_tx" where
  "decideRow people me ref status note clk d =
     (case assertApprover me of
        Inl e \<Rightarrow> (Inl (App e), d)
      | Inr _ \<Rightarrow>
          (case fst ref of
             BreakItem \<Rightarrow> result_map DecidedBreak (on_breaks (decideRecord people me (snd ref) status note clk) d)
           | AwayItem \<Rightarrow> result_map DecidedAway (decideAway people me (snd ref) status note (clock_now clk) d)
           | MeetingItem \<Rightarrow> result_map DecidedMeeting (on_meetings (decideMeeting people me (snd ref) status note clk) d)))"

text \<open>The view of one row; None when it is not an item (any more) or not the caller's to see.\<close>

definition item_of :: "people \<Rightarrow> auth_user \<Rightarrow> decided_row \<Rightarrow> int \<Rightarrow> away_db \<Rightarrow> item_view option" where
  "item_of people me row now d =
     (case row of
        DecidedBreak r \<Rightarrow> build_one me [r] [] [] people now (aw_tables d) (BreakItem, br_id (bv_row r))
      | DecidedMeeting m \<Rightarrow> build_one me [] [m] [] people now (aw_tables d) (MeetingItem, mr_id m)
      | DecidedAway a \<Rightarrow> build_one me [] [] [a] people now (aw_tables d) (AwayItem, ay_id a))"

definition decide_item ::
  "people \<Rightarrow> auth_user \<Rightarrow> item_ref \<Rightarrow> approval_status \<Rightarrow> string option \<Rightarrow> clock_frame \<Rightarrow> item_view option away_tx" where
  "decide_item people me ref status note clk d =
     (case decideRow people me ref status note clk d of
        (Inl e, d') \<Rightarrow> (Inl e, d')
      | (Inr row, d') \<Rightarrow> (Inr (item_of people me row (clock_now clk) d'), d'))"

definition approve_item :: "people \<Rightarrow> auth_user \<Rightarrow> item_ref \<Rightarrow> string option \<Rightarrow> clock_frame \<Rightarrow> item_view option away_tx" where
  "approve_item people me ref note clk = decide_item people me ref Approved (cleanReason note) clk"

definition reject_item :: "people \<Rightarrow> auth_user \<Rightarrow> item_ref \<Rightarrow> string option \<Rightarrow> clock_frame \<Rightarrow> item_view option away_tx" where
  "reject_item people me ref note clk d =
     (case cleanReason note of
        None \<Rightarrow> (Inl (App (ValidationError ''NOTE_REQUIRED'')), d)
      | Some clean \<Rightarrow>
          if length clean < 3 then (Inl (App (ValidationError ''NOTE_REQUIRED'')), d)
          else decide_item people me ref Rejected (Some clean) clk d)"

definition reopenRow :: "people \<Rightarrow> auth_user \<Rightarrow> item_ref \<Rightarrow> clock_frame \<Rightarrow> decided_row away_tx" where
  "reopenRow people me ref clk d =
     (case assertApprover me of
        Inl e \<Rightarrow> (Inl (App e), d)
      | Inr _ \<Rightarrow>
          (case fst ref of
             BreakItem \<Rightarrow> result_map DecidedBreak (on_breaks (reopenRecord people me (snd ref) clk) d)
           | AwayItem \<Rightarrow> result_map DecidedAway (reopenAway people me (snd ref) clk d)
           | MeetingItem \<Rightarrow> result_map DecidedMeeting (on_meetings (reopenMeeting people me (snd ref) clk) d)))"

definition reopen_item :: "people \<Rightarrow> auth_user \<Rightarrow> item_ref \<Rightarrow> clock_frame \<Rightarrow> item_view option away_tx" where
  "reopen_item people me ref clk d =
     (case reopenRow people me ref clk d of
        (Inl e, d') \<Rightarrow> (Inl e, d')
      | (Inr row, d') \<Rightarrow> (Inr (item_of people me row (clock_now clk) d'), d'))"

fun bulk_items ::
  "people \<Rightarrow> auth_user \<Rightarrow> string option \<Rightarrow> clock_frame \<Rightarrow> item_ref list \<Rightarrow> away_db
   \<Rightarrow> (item_ref list \<times> (item_ref \<times> db_error) list) \<times> away_db" where
  "bulk_items people me note clk [] d = (([], []), d)"
| "bulk_items people me note clk (r # rs) d =
     (case decideRow people me r Approved note clk d of
        (Inr _, d') \<Rightarrow> (case bulk_items people me note clk rs d' of ((ok, bad), d'') \<Rightarrow> ((r # ok, bad), d''))
      | (Inl e, d') \<Rightarrow> (case bulk_items people me note clk rs d' of ((ok, bad), d'') \<Rightarrow> ((ok, (r, e) # bad), d'')))"

definition bulk_approve_items ::
  "people \<Rightarrow> auth_user \<Rightarrow> item_ref list \<Rightarrow> string option \<Rightarrow> clock_frame \<Rightarrow> (item_ref list \<times> (item_ref \<times> db_error) list) away_tx" where
  "bulk_approve_items people me items note clk d =
     (case assertApprover me of
        Inl e \<Rightarrow> (Inl (App e), d)
      | Inr _ \<Rightarrow> (case bulk_items people me (cleanReason note) clk (js_unique items) d of (r, d') \<Rightarrow> (Inr r, d')))"

end
