(* ===== verification/Approval_Guarantees.thy ===== *)
theory Approval_Guarantees
  imports Approvals
begin

text \<open>
  What the approvals inbox promises: its categories, counters and right to decide agree with the rules of the
  items, a decision of any kind is authorised and touches one item, every waiting item has someone to decide it,
  and the claims of the deadline queries follow the pure rules.
\<close>

section \<open>Categories and order\<close>

lemma sql_categories:
  "sql_break_category b = breakCategory (nb_outcome (br_data b)) (br_overrunAsked b) (nb_timing (br_data b))"
  "sql_away_category k = awayCategory k"
proof -
  show "sql_break_category b = breakCategory (nb_outcome (br_data b)) (br_overrunAsked b) (nb_timing (br_data b))"
    by (simp add: sql_break_category_def breakCategory_def Let_def split: break_timing.split)
  show "sql_away_category k = awayCategory k"
  proof (cases k)
    case (Some x)
    then show ?thesis by (cases x) (simp_all add: sql_away_category_def)
  qed (simp add: sql_away_category_def)
qed

lemma sql_meeting_category: "(if md = LiveMeeting then MEETING_LIVE else MEETING_PAST) = meetingCategory md"
  by (cases md) simp_all

lemma find_in_filter: "P x \<Longrightarrow> List.find (\<lambda>y. key y = key x) (filter P xs) = Some x \<Longrightarrow> x \<in> set xs"
  by (auto dest: find_Some_set)

text \<open>What a view shows is an item of the tables.\<close>

definition view_is_item :: "item_view \<Rightarrow> approval_item \<Rightarrow> bool" where
  "view_is_item v a \<longleftrightarrow> it_type a = iv_type v \<and> it_id a = iv_id v \<and> it_userId a = iv_userId v \<and> it_date a = iv_date v
     \<and> it_status a = iv_status v \<and> it_category a = iv_category v \<and> it_dueAt a = iv_dueAt v"

lemma break_view_item:
  "view_is_item (breakView me (breakRowFromPrisma db b) (br_approvalStatus b) people l now) (break_item created b)"
  by (simp add: view_is_item_def breakView_def break_item_def sql_categories Let_def breakRowFromPrisma_def)

lemma meeting_view_item: "view_is_item (meetingViewOf me m (mr_approvalStatus m) people l now) (meeting_item created m)"
  by (cases "mr_mode m") (simp_all add: view_is_item_def meetingViewOf_def meeting_item_def Let_def)

lemma away_view_item:
  "away_decided (ay_status a) = Some st \<Longrightarrow> away_item created a = Some x \<Longrightarrow> view_is_item (awayViewOf me a st people l now) x"
  by (auto simp: view_is_item_def awayViewOf_def away_item_def sql_categories Let_def)

lemma map_filter_set: "set (List.map_filter f xs) = {y. \<exists>x \<in> set xs. f x = Some y}"
  by (auto simp: List.map_filter_def image_iff) force

lemma in_ITEMS:
  "b \<in> set (db_breaks (aw_tables d)) \<Longrightarrow> br_approvalStatus b \<noteq> NotRequired \<Longrightarrow> break_item created b \<in> set (ITEMS created d)"
  "m \<in> set (md_meetings (aw_meet d)) \<Longrightarrow> mr_approvalStatus m \<noteq> NotRequired \<Longrightarrow> meeting_item created m \<in> set (ITEMS created d)"
  "w \<in> set (aw_rows d) \<Longrightarrow> away_item created w = Some x \<Longrightarrow> x \<in> set (ITEMS created d)"
  by (auto simp: ITEMS_def map_filter_set)

lemma views_are_items:
  assumes "v \<in> set (views people me refs now d)"
  shows "\<exists>a \<in> set (ITEMS created d). view_is_item v a"
proof -
  let ?bs = "listByIds (aw_tables d) (ids_of BreakItem refs)" and ?ms = "meetings_by_ids (aw_meet d) (ids_of MeetingItem refs)"
    and ?ws = "away_by_ids d (ids_of AwayItem refs)"
  obtain ref where r: "build_one me ?bs ?ms ?ws people now (aw_tables d) ref = Some v"
    using assms by (auto simp: views_def build_def map_filter_set split: if_splits)
  show ?thesis
  proof (cases "fst ref")
    case BreakItem
    then obtain r l where f: "List.find (\<lambda>r. br_id (bv_row r) = snd ref) ?bs = Some r" "br_approvalStatus (bv_row r) \<noteq> NotRequired"
      "v = breakView me r (br_approvalStatus (bv_row r)) people l now"
      using r by (auto simp: build_one_def split: option.splits if_splits)
    then obtain b where b: "b \<in> set (db_breaks (aw_tables d))" "r = breakRowFromPrisma (aw_tables d) b"
      by (auto simp: listByIds_def dest!: find_Some_set)
    have "bv_row r = b" using b(2) by (simp add: breakRowFromPrisma_def)
    then show ?thesis using f b in_ITEMS(1) [OF b(1)] break_view_item by metis
  next
    case MeetingItem
    then obtain m l where f: "List.find (\<lambda>r. mr_id r = snd ref) ?ms = Some m" "mr_approvalStatus m \<noteq> NotRequired"
      "v = meetingViewOf me m (mr_approvalStatus m) people l now"
      using r by (auto simp: build_one_def split: option.splits if_splits)
    then have "m \<in> set (md_meetings (aw_meet d))" by (auto simp: meetings_by_ids_def dest!: find_Some_set)
    then show ?thesis using f in_ITEMS(2) meeting_view_item by metis
  next
    case AwayItem
    then obtain a l st where f: "List.find (\<lambda>r. ay_id r = snd ref) ?ws = Some a" "away_decided (ay_status a) = Some st"
      "v = awayViewOf me a st people l now"
      using r by (auto simp: build_one_def split: option.splits if_splits)
    then have "a \<in> set (aw_rows d)" by (auto simp: away_by_ids_def dest!: find_Some_set)
    moreover obtain x where "away_item created a = Some x" using f(2) by (simp add: away_item_def)
    ultimately show ?thesis using f in_ITEMS(3) away_view_item by metis
  qed
qed

text \<open>The category, status, day and due time an item is shown with are those the list was filtered and ordered by:
  the \<open>CASE\<close> of the query and \<open>breakCategory\<close> never disagree, over the items of all three tables.\<close>

theorem views_show_what_was_listed:
  "list_all (\<lambda>v. list_ex (view_is_item v) (ITEMS created d)) (views people me refs now d)"
  using views_are_items by (fastforce simp: list_all_iff list_ex_iff)

section \<open>The inbox\<close>

definition signed :: "('a \<Rightarrow> 'a \<Rightarrow> int) \<Rightarrow> bool" where
  "signed cmp \<longleftrightarrow> comparator_ok cmp \<and> (\<forall>x y. cmp y x = - cmp x y)"

lemma signed_trans: "signed f \<Longrightarrow> f x y \<le> 0 \<Longrightarrow> f y z \<le> 0 \<Longrightarrow> f x z \<le> 0"
  unfolding signed_def comparator_ok_def by blast

lemma signed_flip: "signed f \<Longrightarrow> f y x = - f x y"
  unfolding signed_def by blast

lemma signed_lex:
  assumes f: "signed f" and g: "signed g"
  shows "signed (\<lambda>a b. if f a b \<noteq> 0 then f a b else g a b)"
proof -
  let ?h = "\<lambda>a b. if f a b \<noteq> 0 then f a b else g a b"
  note ff = signed_flip [OF f] and ft = signed_trans [OF f]
  have flip: "?h y x = - ?h x y" for x y using ff [of y x] signed_flip [OF g, of y x] by simp
  have "?h x z \<le> 0" if h: "?h x y \<le> 0" "?h y z \<le> 0" for x y z
  proof -
    have xy: "f x y \<le> 0" and yz: "f y z \<le> 0" using h by (auto split: if_splits)
    have xz: "f x z \<le> 0" by (rule ft [OF xy yz])
    show ?thesis
    proof (cases "f x z = 0")
      case True
      have "f y x \<le> 0" using ft [OF yz, of x] True ff [of z x] by simp
      then have "f x y = 0" using xy ff [of y x] by simp
      moreover have "f z y \<le> 0" using ft [of z x y] True ff [of z x] xy by simp
      then have "f y z = 0" using yz ff [of z y] by simp
      ultimately show ?thesis using h True signed_trans [OF g, of x y z] by simp
    qed (use xz in simp)
  qed
  moreover have "?h x y \<le> 0 \<or> ?h y x \<le> 0" for x y using flip [of y x] by linarith
  ultimately show ?thesis unfolding signed_def comparator_ok_def using flip by blast
qed

lemma signed_key: "signed (\<lambda>a b. key a - key b)" "signed (\<lambda>a b. key b - key a)"
  by (auto simp: signed_def comparator_ok_def)

lemma signed_sgn_key: "signed (\<lambda>a b. sgn (key b - key a :: int))"
  by (auto simp: signed_def comparator_ok_def sgn_if)

lemma signed_nulls: "signed (\<lambda>a b. nulls_last (key a) (key b))"
proof -
  have "nulls_last y x = - nulls_last x y" for x y by (auto simp: nulls_last_def sgn_if split: option.split)
  moreover have "nulls_last x y \<le> 0 \<Longrightarrow> nulls_last y z \<le> 0 \<Longrightarrow> nulls_last x z \<le> 0" for x y z
    by (auto simp: nulls_last_def sgn_if split: option.splits if_splits)
  moreover have "nulls_last x y \<le> 0 \<or> nulls_last y x \<le> 0" for x y by (auto simp: nulls_last_def sgn_if split: option.split)
  ultimately show ?thesis unfolding signed_def comparator_ok_def by blast
qed

lemma inbox_order_ok: "comparator_ok inbox_order"
proof -
  have "inbox_order = (\<lambda>a b. if of_bool (it_status b = Pending) - of_bool (it_status a = Pending) \<noteq> (0 :: int)
      then of_bool (it_status b = Pending) - of_bool (it_status a = Pending)
      else if nulls_last (inbox_due a) (inbox_due b) \<noteq> 0 then nulls_last (inbox_due a) (inbox_due b)
      else if sgn (coalesce (it_decidedAt b) (it_createdAt b) - coalesce (it_decidedAt a) (it_createdAt a)) \<noteq> 0
      then sgn (coalesce (it_decidedAt b) (it_createdAt b) - coalesce (it_decidedAt a) (it_createdAt a))
      else int (it_id a) - int (it_id b))"
    by (intro ext) (simp add: inbox_order_def Let_def)
  moreover have "signed \<dots>"
    by (rule signed_lex signed_key signed_sgn_key signed_nulls)+
  ultimately show ?thesis by (simp add: signed_def)
qed

text \<open>Waiting items come first, the earliest due time first.\<close>

definition inbox_before :: "approval_item \<Rightarrow> approval_item \<Rightarrow> bool" where
  "inbox_before a b \<longleftrightarrow>
     (it_status b = Pending \<longrightarrow> it_status a = Pending
        \<and> (case it_dueAt b of None \<Rightarrow> True | Some t \<Rightarrow> (case it_dueAt a of None \<Rightarrow> False | Some s \<Rightarrow> s \<le> t)))"

lemma inbox_order_before: "inbox_order a b \<le> 0 \<Longrightarrow> inbox_before a b"
  by (auto simp: inbox_order_def inbox_before_def Let_def nulls_last_def inbox_due_def sgn_if split: option.splits if_splits)

lemma inbox_sorted: "sorted_wrt inbox_before (inbox f q items)"
  unfolding inbox_def by (rule sorted_wrt_mono_rel [OF _ sorted_js_sort [OF inbox_order_ok]]) (rule inbox_order_before)

text \<open>The pages of a query, each asked for with its own \<open>page\<close>.\<close>

definition page_refs :: "org_facts \<Rightarrow> list_query \<Rightarrow> approvals_scope \<Rightarrow> int \<Rightarrow> approval_item list \<Rightarrow> nat \<Rightarrow> item_ref list" where
  "page_refs f q s now items p = snd (list_items f (query_of (q\<lparr>lq_page := Some p\<rparr>) s now) items)"

text \<open>The inbox is one list, waiting items first and the earliest due time first among them, and the pages show
  it: page after page lists every item the query selects exactly as often as it is one, and the total counts them.\<close>

theorem pages_show_the_whole_inbox:
  assumes "lq_limit q = Some limit" "0 < limit" "n = fst (list_items f (query_of q s now) items)"
  shows "concat (map (\<lambda>p. page_refs f q s now items (Suc p)) [0 ..< nat (totalPages (int n) (int limit))])
      = map ref_of (inbox f (query_of q s now) items)
    \<and> sorted_wrt inbox_before (inbox f (query_of q s now) items)
    \<and> length (inbox f (query_of q s now) items) = n
    \<and> set (inbox f (query_of q s now) items) = set (filter (whereSql f (query_of q s now)) items)"
proof -
  let ?q = "query_of q s now" and ?k = "nat (totalPages (int n) (int limit))"
  have len: "length (inbox f ?q items) = n" using assms(3) by (simp add: inbox_def list_items_def)
  have same: "whereSql f (query_of (q\<lparr>lq_page := p\<rparr>) s now) = whereSql f ?q" for p
    by (intro ext) (simp add: whereSql_def query_of_def Let_def statuses_of_def)
  have slice: "qy_skip (query_of (q\<lparr>lq_page := Some (Suc p)\<rparr>) s now) = Some (p * limit)"
    "qy_take (query_of (q\<lparr>lq_page := Some (Suc p)\<rparr>) s now) = Some limit" for p
    using assms(1) by (simp_all add: query_of_def Let_def)
  have page: "page_refs f q s now items (Suc p) = take limit (drop (p * limit) (map ref_of (inbox f ?q items)))" for p
    by (simp add: page_refs_def list_items_def inbox_def same slice take_map drop_map)
  have "int n \<le> int limit * ceil_div (int n) (int limit)" using ceil_div_bounds(1) [of "int limit" "int n"] assms(2) by simp
  also have "\<dots> \<le> int limit * int ?k"
    unfolding totalPages_def Let_def by (intro mult_left_mono) auto
  finally have "n \<le> ?k * limit" by (metis mult.commute of_nat_le_iff of_nat_mult)
  then have "concat (map (\<lambda>p. page_refs f q s now items (Suc p)) [0 ..< ?k]) = map ref_of (inbox f ?q items)"
    unfolding page using pages_take [where xs = "map ref_of (inbox f ?q items)" and n = ?k and l = limit] len by simp
  then show ?thesis using inbox_sorted [of f ?q items] len by (simp add: inbox_def)
qed

text \<open>The counters of the summary count the chips of the rows: due soon and overdue are the waiting items of the
  scope whose \<open>slaState\<close> says so, no item is in both, and neither is an item that is not waiting.\<close>

theorem counters_count_the_chips:
  "is_overdue (inbox_summary_of env s settingsOrg now items)
     = length (filter (\<lambda>a. sla_overdue (slaState (it_status a) (it_dueAt a) now)) (filter (scopeSql (en_facts env) s) items))
   \<and> is_dueSoon (inbox_summary_of env s settingsOrg now items)
     = length (filter (\<lambda>a. sla_dueSoon (slaState (it_status a) (it_dueAt a) now)) (filter (scopeSql (en_facts env) s) items))
   \<and> is_overdue (inbox_summary_of env s settingsOrg now items) + is_dueSoon (inbox_summary_of env s settingsOrg now items)
     \<le> is_pending (inbox_summary_of env s settingsOrg now items)"
proof -
  let ?f = "en_facts env" and ?p = "query s [Pending]"
  have over: "whereSql ?f (?p\<lparr>qy_overdueAt := Some now\<rparr>) = (\<lambda>a. scopeSql ?f s a \<and> sla_overdue (slaState (it_status a) (it_dueAt a) now))"
    by (intro ext) (auto simp: whereSql_def query_def if_given_def holds_of_def slaState_def Let_def split: option.splits)
  have soon: "whereSql ?f (?p\<lparr>qy_dueWithin := Some (now, now + DUE_SOON_MS)\<rparr>)
      = (\<lambda>a. scopeSql ?f s a \<and> sla_dueSoon (slaState (it_status a) (it_dueAt a) now))"
    by (intro ext) (auto simp: whereSql_def query_def if_given_def holds_of_def slaState_def Let_def split: option.splits)
  have pend: "whereSql ?f ?p = (\<lambda>a. scopeSql ?f s a \<and> it_status a = Pending)"
    by (intro ext) (simp add: whereSql_def query_def if_given_def)
  have disj: "length (filter P xs) + length (filter Q xs) \<le> length (filter R xs)"
    if "\<And>a. P a \<Longrightarrow> R a \<and> \<not> Q a" "\<And>a. Q a \<Longrightarrow> R a" for P Q R and xs :: "approval_item list"
    using that by (induction xs) auto
  have "length (filter (\<lambda>a. scopeSql ?f s a \<and> sla_overdue (slaState (it_status a) (it_dueAt a) now)) items)
      + length (filter (\<lambda>a. scopeSql ?f s a \<and> sla_dueSoon (slaState (it_status a) (it_dueAt a) now)) items)
      \<le> length (filter (\<lambda>a. scopeSql ?f s a \<and> it_status a = Pending) items)"
    by (rule disj) (auto simp: slaState_def Let_def split: option.splits if_splits)
  then show ?thesis
    by (simp add: inbox_summary_of_def Let_def count_items_def over soon pend)
qed

section \<open>Decisions\<close>

lemma with_breaks_sel [simp]:
  "aw_tables (with_breaks db d) = db" "md_meetings (aw_meet (with_breaks db d)) = md_meetings (aw_meet d)" "aw_rows (with_breaks db d) = aw_rows d"
  by (simp_all add: with_breaks_def)

lemma with_breaks_same [simp]: "with_breaks (aw_tables d) d = d"
  by (simp add: with_breaks_def)

lemma heal_all_sel [simp]:
  "aw_tables (heal_all us d) = aw_tables d" "aw_rows (heal_all us d) = aw_rows d"
  "md_meetings (aw_meet (heal_all us d)) = map (heal_row us (aw_tables d)) (md_meetings (aw_meet d))"
  by (simp_all add: heal_all_def heal_def Let_def)

text \<open>The items other than one.\<close>

definition others_of :: "item_ref \<Rightarrow> approval_item list \<Rightarrow> approval_item list" where
  "others_of ref items = filter (\<lambda>a. ref_of a \<noteq> ref) items"

lemma ref_of_item [simp]:
  "ref_of (break_item created b) = (BreakItem, br_id b)" "ref_of (meeting_item created m) = (MeetingItem, mr_id m)"
  by (simp_all add: ref_of_def break_item_def meeting_item_def)

lemma item_sel [simp]:
  "it_userId (break_item created b) = br_userId b" "it_date (break_item created b) = br_date b"
  "it_status (break_item created b) = br_approvalStatus b"
  "it_userId (meeting_item created m) = mr_userId m" "it_date (meeting_item created m) = mr_date m"
  "it_status (meeting_item created m) = mr_approvalStatus m"
  by (simp_all add: break_item_def meeting_item_def)

lemma ref_of_away_item: "away_item created w = Some a \<Longrightarrow> ref_of a = (AwayItem, ay_id w)"
  by (auto simp: away_item_def ref_of_def split: option.splits)

lemma filter_map_filter:
  "filter (\<lambda>a. ref_of a \<noteq> ref) (List.map_filter (away_item created) ws)
   = List.map_filter (away_item created) (filter (\<lambda>w. (AwayItem, ay_id w) \<noteq> ref) ws)"
  by (induction ws) (auto simp: List.map_filter_simps dest: ref_of_away_item split: option.split)

lemma others_ITEMS:
  "others_of ref (ITEMS created d) =
     map (break_item created) (filter (\<lambda>b. br_approvalStatus b \<noteq> NotRequired) (filter (\<lambda>b. (BreakItem, br_id b) \<noteq> ref) (db_breaks (aw_tables d))))
     @ map (meeting_item created) (filter (\<lambda>m. mr_approvalStatus m \<noteq> NotRequired) (filter (\<lambda>m. (MeetingItem, mr_id m) \<noteq> ref) (md_meetings (aw_meet d))))
     @ List.map_filter (away_item created) (filter (\<lambda>w. (AwayItem, ay_id w) \<noteq> ref) (aw_rows d))"
  unfolding others_of_def ITEMS_def filter_append filter_map filter_map_filter
  by (simp add: o_def conj_commute cong: filter_cong)

lemma filter_update:
  "(\<And>x. key (f x) = key x) \<Longrightarrow> filter (\<lambda>x. key x \<noteq> i) (map (\<lambda>x. if key x = i then f x else x) xs) = filter (\<lambda>x. key x \<noteq> i) xs"
  by (induction xs) auto

lemma decide_meeting_done:
  assumes "decide_meeting i expected dc clk d = (Inr (Some r), d')"
  obtains m f where "find_meeting d i = Some m" "\<not> isMonthLocked (md_tables d) (mr_date m) (mr_userId m)" "mr_approvalStatus m \<in> set expected"
    "d' = update_meeting i f d" "\<And>x. mr_id (f x) = mr_id x" "find_meeting d' i = Some r" "r = f m" "mr_approvalStatus r = dc_status dc"
    "mr_userId r = mr_userId m" "mr_date r = mr_date m"
proof -
  obtain m where m: "find_meeting d i = Some m" using assms by (auto simp: decide_meeting_def split: option.splits)
  let ?f = "\<lambda>x. x\<lparr>mr_approvalStatus := dc_status dc, mr_decidedById := dc_decidedById dc,
                   mr_decidedAt := dc_decidedAt dc, mr_decisionNote := dc_note dc,
                   mr_clock := (if dc_status dc = Pending then pendingClock clk (clock_now clk) (db_sla (md_tables d) (mr_userId m))
                                else mr_clock x)\<rparr>"
  have f: "find_meeting (update_meeting i ?f d) i = Some (?f m)" by (rule find_updated [OF m]) simp
  show ?thesis
    using assms m f by (intro that [of m ?f]) (auto simp: decide_meeting_def Let_def split: if_splits)
qed

lemma decide_away_done:
  assumes "decide_away i expected dc d = (Inr (Some r), d')"
  obtains a where "find_away d i = Some a" "\<not> isMonthLocked (aw_tables d) (ay_date a) (ay_userId a)" "ay_status a \<in> set expected"
    "d' = update_away (\<lambda>x. ay_id x = i) (decided_away dc) d" "r = decided_away dc a" "r \<in> set (aw_rows d')" "ay_id r = i"
proof -
  obtain a where a: "find_away d i = Some a" using assms by (auto simp: decide_away_def split: option.splits)
  have "List.find (\<lambda>x. ay_id x = i) (map (\<lambda>x. if ay_id x = i then decided_away dc x else x) xs)
      = map_option (decided_away dc) (List.find (\<lambda>x. ay_id x = i) xs)" for xs
    by (induction xs) (auto simp: decided_away_def)
  then have f: "find_away (update_away (\<lambda>x. ay_id x = i) (decided_away dc) d) i = Some (decided_away dc a)"
    using a by (simp add: find_away_def update_away_def)
  have "decided_away dc a \<in> set (aw_rows (update_away (\<lambda>x. ay_id x = i) (decided_away dc) d))" "ay_id (decided_away dc a) = i"
    using f by (auto simp: find_away_def dest!: find_Some_set)
  then show ?thesis using assms a f by (intro that [of a]) (auto simp: decide_away_def Let_def split: if_splits)
qed

text \<open>An item that waits and that the caller may decide, in a month that is open.\<close>

definition decidable :: "people \<Rightarrow> auth_user \<Rightarrow> away_db \<Rightarrow> approval_item \<Rightarrow> bool" where
  "decidable people me d a \<longleftrightarrow> it_status a = Pending \<and> it_userId a \<noteq> u_id me \<and> canDecide me (it_userId a) (people (it_userId a))
     \<and> \<not> isMonthLocked (aw_tables d) (it_date a) (it_userId a)"

text \<open>What a decision that went through did, from the tables it decided on.\<close>

definition decided_one :: "people \<Rightarrow> created_at \<Rightarrow> auth_user \<Rightarrow> item_ref \<Rightarrow> approval_status \<Rightarrow> away_db \<Rightarrow> away_db \<Rightarrow> bool" where
  "decided_one people created me ref status d d' \<longleftrightarrow>
     list_ex (\<lambda>a. ref_of a = ref \<and> decidable people me d a
       \<and> list_ex (\<lambda>x. ref_of x = ref \<and> it_status x = status \<and> it_userId x = it_userId a \<and> it_date x = it_date a) (ITEMS created d'))
       (ITEMS created d)
     \<and> others_of ref (ITEMS created d') = others_of ref (ITEMS created d)"

lemma decided_oneI:
  assumes "a \<in> set (ITEMS created d)" "ref_of a = ref" "decidable people me d a" "x \<in> set (ITEMS created d')" "ref_of x = ref"
    "it_status x = status" "it_userId x = it_userId a" "it_date x = it_date a" "others_of ref (ITEMS created d') = others_of ref (ITEMS created d)"
  shows "decided_one people created me ref status d d'"
  using assms unfolding decided_one_def list_ex_iff by blast

lemma canDecide_other: "canDecide me u s \<Longrightarrow> u \<noteq> u_id me"
  by (auto simp: canDecide_def)

lemma find_break_in: "find_break db i = Some b \<Longrightarrow> b \<in> set (db_breaks db) \<and> br_id b = i"
  unfolding find_break_def by (rule find_Some_set)

lemma break_decided:
  assumes "decideRecord people me i status note clk (aw_tables d) = (Inr v, db')" "status \<noteq> NotRequired"
  shows "decided_one people created me (BreakItem, i) status d (with_breaks db' d)"
proof -
  have ok: "decision_ok people me i status (aw_tables d) (Inr v, db')" using decideRecord_ok assms(1) by metis
  then obtain b where b: "find_break (aw_tables d) i = Some b" "br_approvalStatus b = Pending"
      "canDecide me (br_userId b) (people (br_userId b))" "\<not> isMonthLocked (aw_tables d) (br_date b) (br_userId b)"
    and v: "find_break db' i = Some (bv_row v)" "br_approvalStatus (bv_row v) = status" and u: "untouched {i} (aw_tables d) db'"
    by (auto simp: decision_ok_def)
  let ?dc = "\<lparr>dc_status = status, dc_decidedById = Some (u_id me), dc_decidedAt = Some (clock_now clk), dc_note = note\<rparr>"
  have "decide i [Pending] ?dc clk (aw_tables d) = (Inr (Some v), db')"
    using assms(1) by (auto simp: decideRecord_def Let_def split: sum.splits option.splits if_splits prod.splits)
  then have same: "br_userId (bv_row v) = br_userId b \<and> br_date (bv_row v) = br_date b"
    using decide_cases [of i "[Pending]" ?dc clk "aw_tables d"] b(1) by auto
  note m = find_break_in [OF b(1)] find_break_in [OF v(1)]
  show ?thesis
  proof (rule decided_oneI [of "break_item created b" _ _ _ _ _ "break_item created (bv_row v)"])
    show "break_item created b \<in> set (ITEMS created d)" using m b(2) by (intro in_ITEMS) auto
    show "break_item created (bv_row v) \<in> set (ITEMS created (with_breaks db' d))"
      using m v(2) assms(2) by (intro in_ITEMS) auto
    show "decidable people me d (break_item created b)"
      using b canDecide_other by (auto simp: decidable_def)
    show "others_of (BreakItem, i) (ITEMS created (with_breaks db' d)) = others_of (BreakItem, i) (ITEMS created d)"
      using u by (simp add: others_ITEMS untouched_def)
  qed (use m v same in auto)
qed

lemma find_meeting_in: "find_meeting d i = Some m \<Longrightarrow> m \<in> set (md_meetings d) \<and> mr_id m = i"
  unfolding find_meeting_def by (rule find_Some_set)

lemma heal_row_same [simp]:
  "mr_id (heal_row us db m) = mr_id m" "mr_userId (heal_row us db m) = mr_userId m" "mr_date (heal_row us db m) = mr_date m"
  by (auto simp: heal_row_def discard_def ended_as_def Let_def)

lemma find_healed: "find_meeting (snd (heal us d)) i = map_option (heal_row us (md_tables d)) (find_meeting d i)"
proof -
  have "List.find (\<lambda>m. mr_id m = i) (map (heal_row us db) xs) = map_option (heal_row us db) (List.find (\<lambda>m. mr_id m = i) xs)" for db xs
    by (induction xs) auto
  then show ?thesis by (simp add: heal_def find_meeting_def Let_def)
qed

lemma meeting_decided:
  assumes "decideMeeting people me i status note clk (aw_meet d) = (Inr r, m')" "status \<noteq> NotRequired"
  shows "\<exists>dh. (dh = d \<or> (\<exists>u. dh = heal_all (Some [u]) d)) \<and> decided_one people created me (MeetingItem, i) status dh (d\<lparr>aw_meet := m'\<rparr>)"
proof -
  obtain found where found: "find_meeting (aw_meet d) i = Some found"
    using assms(1) by (auto simp: decideMeeting_def split: option.splits)
  let ?dh = "if meeting_inProgress found then heal_all (Some [mr_userId found]) d else d"
  have meet: "aw_meet ?dh = (if meeting_inProgress found then snd (heal (Some [mr_userId found]) (aw_meet d)) else aw_meet d)"
    by (simp add: heal_all_def)
  obtain s where s: "people (mr_userId found) = Some s"
    using assms(1) found by (auto simp: decideMeeting_def subjectOf_def split: option.splits)
  obtain m where m: "coalesce (find_meeting (aw_meet ?dh) i) found = m" by blast
  have m_user: "mr_userId m = mr_userId found" and m_found: "find_meeting (aw_meet ?dh) i = Some m"
    using m found by (auto simp: meet find_healed split: if_splits)
  have facts: "canDecide me (mr_userId m) (Some s)" "mr_approvalStatus m = Pending"
    using assms(1) found s m [unfolded meet]
    by (auto simp: decideMeeting_def subjectOf_def Let_def split: option.splits if_splits prod.splits sum.splits)
  have dec: "decide_meeting i [Pending] \<lparr>dc_status = status, dc_decidedById = Some (u_id me),
        dc_decidedAt = Some (clock_now clk), dc_note = note\<rparr> clk (aw_meet ?dh) = (Inr (Some r), m')"
    using assms(1) found s m [unfolded meet] unfolding meet
    by (auto simp: decideMeeting_def subjectOf_def Let_def split: option.splits if_splits prod.splits sum.splits)
  from decide_meeting_done [OF dec] obtain f where lock: "\<not> isMonthLocked (md_tables (aw_meet ?dh)) (mr_date m) (mr_userId m)"
    and m': "m' = update_meeting i f (aw_meet ?dh)" "\<And>x. mr_id (f x) = mr_id x" "find_meeting m' i = Some r" "mr_approvalStatus r = status"
      "mr_userId r = mr_userId m" "mr_date r = mr_date m"
    using m_found by auto
  note inn = find_meeting_in [OF m_found] find_meeting_in [OF m'(3)]
  have "decided_one people created me (MeetingItem, i) status ?dh (d\<lparr>aw_meet := m'\<rparr>)"
  proof (rule decided_oneI [of "meeting_item created m" _ _ _ _ _ "meeting_item created r"])
    show "meeting_item created m \<in> set (ITEMS created ?dh)" using inn facts(2) by (intro in_ITEMS) auto
    show "meeting_item created r \<in> set (ITEMS created (d\<lparr>aw_meet := m'\<rparr>))" using inn m'(4) assms(2) by (intro in_ITEMS) auto
    show "decidable people me ?dh (meeting_item created m)"
      using facts lock s m_user canDecide_other by (auto simp: decidable_def)
    have "filter (\<lambda>x. mr_id x \<noteq> i) (md_meetings m') = filter (\<lambda>x. mr_id x \<noteq> i) (md_meetings (aw_meet ?dh))"
      unfolding m'(1) update_meeting_map using filter_update [of mr_id f i, OF m'(2)] by simp
    moreover have "aw_rows ?dh = aw_rows d" "db_breaks (md_tables m') = db_breaks (aw_tables ?dh)"
      unfolding m'(1) by (simp_all add: update_meeting_map)
    ultimately show "others_of (MeetingItem, i) (ITEMS created (d\<lparr>aw_meet := m'\<rparr>)) = others_of (MeetingItem, i) (ITEMS created ?dh)"
      by (simp add: others_ITEMS)
  qed (use inn m' in simp_all)
  then show ?thesis by (intro exI [of _ ?dh]) auto
qed

lemma away_decided_one:
  assumes "decideAway people me i status note now d = (Inr r, d')" "status \<noteq> NotRequired"
  shows "decided_one people created me (AwayItem, i) status d d'"
proof -
  obtain a where a: "find_away d i = Some a" using assms(1) by (auto simp: decideAway_def split: option.splits)
  obtain s where s: "people (ay_userId a) = Some s"
    using assms(1) a by (auto simp: decideAway_def subjectOf_def split: option.splits)
  let ?dc = "\<lparr>ad_status = status, ad_decidedById = Some (u_id me), ad_decidedAt = Some now, ad_note = note, ad_dueAt = None\<rparr>"
  have facts: "canDecide me (ay_userId a) (Some s)" "ay_status a = AwPending" "decide_away i [AwPending] ?dc d = (Inr (Some r), d')"
    using assms(1) a s by (auto simp: decideAway_def subjectOf_def split: option.splits if_splits prod.splits sum.splits)
  have lock: "\<not> isMonthLocked (aw_tables d) (ay_date a) (ay_userId a)" and d': "d' = update_away (\<lambda>x. ay_id x = i) (decided_away ?dc) d"
    and r: "r = decided_away ?dc a" "r \<in> set (aw_rows d')" "ay_id r = i"
    using decide_away_done [OF facts(3)] a by (metis option.inject)+
  have ain: "a \<in> set (aw_rows d)" "ay_id a = i" using a by (auto simp: find_away_def dest!: find_Some_set)
  obtain x where x: "away_item created a = Some x" using facts(2) by (simp add: away_item_def)
  have "away_decided (ay_status r) = Some status" using r(1) assms(2) by (cases status) (simp_all add: decided_away_def)
  then obtain y where y: "away_item created r = Some y" "it_status y = status" by (simp add: away_item_def)
  have xy: "it_userId x = ay_userId a" "it_date x = ay_date a" "it_status x = Pending" "it_userId y = ay_userId r" "it_date y = ay_date r"
    using x y facts(2) by (auto simp: away_item_def split: option.splits)
  have "ay_userId r = ay_userId a" "ay_date r = ay_date a" using r(1) by (simp_all add: decided_away_def)
  show ?thesis
  proof (rule decided_oneI [of x _ _ _ _ _ y])
    show "x \<in> set (ITEMS created d)" "y \<in> set (ITEMS created d')" using in_ITEMS(3) ain(1) x y(1) r(2) by blast+
    show "decidable people me d x" using facts lock s xy canDecide_other by (auto simp: decidable_def)
    have "filter (\<lambda>w. ay_id w \<noteq> i) (aw_rows d') = filter (\<lambda>w. ay_id w \<noteq> i) (aw_rows d)"
      unfolding d' update_away_def using filter_update [of ay_id "decided_away ?dc" i] by (simp add: decided_away_def)
    moreover have "aw_meet d' = aw_meet d" unfolding d' by (simp add: update_away_def)
    ultimately show "others_of (AwayItem, i) (ITEMS created d') = others_of (AwayItem, i) (ITEMS created d)" by (simp add: others_ITEMS)
  qed (use ref_of_away_item x y ain(2) r(3) xy \<open>ay_userId r = ay_userId a\<close> \<open>ay_date r = ay_date a\<close> in auto)
qed

lemma meeting_refused:
  assumes "decideMeeting people me i status note clk m = (Inl e, m')"
  shows "m' = m \<or> (\<exists>u. m' = snd (heal (Some [u]) m))"
proof -
  have un: "snd (decide_meeting i ex dc clk x) = x" if "isl (fst (decide_meeting i ex dc clk x)) \<or> fst (decide_meeting i ex dc clk x) = Inr None"
    for ex dc x
  proof (cases "find_meeting x i")
    case None
    then show ?thesis by (simp add: decide_meeting_def)
  next
    case (Some y)
    have "find_meeting (update_meeting i f x) i = Some (f y)" if "\<And>y. mr_id (f y) = mr_id y" for f
      by (rule find_updated [OF Some that])
    then show ?thesis using that Some by (auto simp: decide_meeting_def Let_def split: if_splits)
  qed
  have un': "y = x" if "decide_meeting i ex dc clk x = (z, y)" "isl z \<or> z = Inr None" for ex dc x y z using un [of ex dc x] that by simp
  show ?thesis
  proof (cases "find_meeting m i")
    case None
    then show ?thesis using assms by (simp add: decideMeeting_def)
  next
    case (Some found)
    let ?d1 = "if meeting_inProgress found then snd (heal (Some [mr_userId found]) m) else m"
    have "m' = m \<or> m' = ?d1"
      using assms Some unfolding decideMeeting_def Let_def
      by (auto dest!: un' split: sum.splits if_splits option.splits prod.splits)
    then show ?thesis by (auto split: if_splits)
  qed
qed

lemma away_refused:
  assumes "decideAway people me i status note now d = (Inl e, d')"
  shows "d' = d"
proof -
  have un: "snd (decide_away i ex dc x) = x" if "isl (fst (decide_away i ex dc x)) \<or> fst (decide_away i ex dc x) = Inr None" for ex dc x
  proof (cases "find_away x i")
    case None
    then show ?thesis by (simp add: decide_away_def)
  next
    case (Some y)
    have "List.find (\<lambda>x. ay_id x = i) (map (\<lambda>x. if ay_id x = i then decided_away dc x else x) xs)
      = map_option (decided_away dc) (List.find (\<lambda>x. ay_id x = i) xs)" for xs
      by (induction xs) (auto simp: decided_away_def)
    then have "find_away (update_away (\<lambda>x. ay_id x = i) (decided_away dc) x) i \<noteq> None"
      using Some by (simp add: find_away_def update_away_def)
    then show ?thesis using that Some by (auto simp: decide_away_def Let_def split: if_splits)
  qed
  have un': "y = x" if "decide_away i ex dc x = (z, y)" "isl z \<or> z = Inr None" for ex dc x y z using un [of ex dc x] that by simp
  show ?thesis
    using assms unfolding decideAway_def by (auto dest!: un' split: sum.splits if_splits option.splits prod.splits)
qed

text \<open>C4: whatever the kind of item, a decision goes through only for an approver who may decide for that person, on an
  item that waits, not their own, in an open month; it then stands with that status and no other item of any kind has
  changed. A refused decision changes nothing. In both cases a live meeting whose presence has ended is ended first.\<close>

theorem every_decision_is_authorised:
  "case decideRow people me ref (if ok then Approved else Rejected) note clk d of
     (Inl e, d') \<Rightarrow> d' = d \<or> (\<exists>u. d' = heal_all (Some [u]) d)
   | (Inr row, d') \<Rightarrow> assertApprover me = Inr ()
       \<and> (\<exists>dh. (dh = d \<or> (\<exists>u. dh = heal_all (Some [u]) d)) \<and> decided_one people created me ref (if ok then Approved else Rejected) dh d')"
proof -
  let ?st = "if ok then Approved else Rejected"
  obtain ty i where ref: "ref = (ty, i)" by (cases ref)
  have st: "?st \<noteq> NotRequired" by simp
  show ?thesis
  proof (cases "assertApprover me")
    case (Inl e)
    then show ?thesis by (simp add: decideRow_def)
  next
    case (Inr u)
    show ?thesis
    proof (cases ty)
      case BreakItem
      obtain r db' where r: "decideRecord people me i ?st note clk (aw_tables d) = (r, db')" by fastforce
      have "r = Inl e \<Longrightarrow> db' = aw_tables d" for e
        using decideRecord_ok [of people me i ?st "aw_tables d" "note" clk] r by (auto simp: decision_ok_def)
      then show ?thesis
        using break_decided [OF _ st, of people me i "note" clk d] Inr r
        by (cases r) (auto simp: decideRow_def ref BreakItem result_map_def on_breaks_def)
    next
      case MeetingItem
      obtain r m' where r: "decideMeeting people me i ?st note clk (aw_meet d) = (r, m')" by fastforce
      have refused: "d\<lparr>aw_meet := m'\<rparr> = d \<or> (\<exists>u. d\<lparr>aw_meet := m'\<rparr> = heal_all (Some [u]) d)" if "r = Inl e" for e
        using meeting_refused [of people me i ?st "note" clk "aw_meet d" e m'] r that by (auto simp: heal_all_def)
      show ?thesis
        using meeting_decided [OF _ st, of people me i "note" clk d] refused Inr r
        by (cases r) (auto simp: decideRow_def ref MeetingItem result_map_def on_meetings_def)
    next
      case AwayItem
      obtain r d' where r: "decideAway people me i ?st note (clock_now clk) d = (r, d')" by fastforce
      show ?thesis
        using away_decided_one [OF _ st, of people me i "note" "clock_now clk" d] away_refused Inr r
        by (cases r) (auto simp: decideRow_def ref AwayItem result_map_def)
    qed
  qed
qed

section \<open>The flag in the list\<close>

lemma find_by_ids:
  assumes "\<And>x. key' (g x) = key x"
  shows "List.find (\<lambda>y. key' y = i) (map g (filter (\<lambda>x. key x \<in> set ids) xs)) = (if i \<in> set ids then map_option g (List.find (\<lambda>x. key x = i) xs) else None)"
  by (induction xs) (auto simp: assms)

lemma find_in_ids: "List.find (\<lambda>y. key y = i) (filter (\<lambda>x. key x \<in> set ids) xs) = Some x \<Longrightarrow> List.find (\<lambda>x. key x = i) xs = Some x"
  by (induction xs) (auto split: if_splits dest: find_Some_set)

lemma bv_row_from [simp]: "bv_row (breakRowFromPrisma db b) = b"
  by (simp add: breakRowFromPrisma_def)

text \<open>The organisation the month locks look at is that of the person's row.\<close>

definition same_people :: "people \<Rightarrow> away_db \<Rightarrow> bool" where
  "same_people people d \<longleftrightarrow> db_companyOf (aw_tables d) = company_of people"

lemma isLocked_month:
  assumes "same_people people d" "(u, date) \<in> set own"
  shows "isLocked (aw_tables d) people own u date = isMonthLocked (aw_tables d) date u"
proof (cases "company_of people u")
  case None
  then show ?thesis using assms(1) by (simp add: isLocked_def isMonthLocked_def same_people_def)
next
  case (Some c)
  have "c \<in> set (List.map_filter (\<lambda>(v, _). company_of people v) own)" using assms(2) Some by (force simp: map_filter_set)
  moreover have "monthOf date \<in> set (map (\<lambda>(_, dt). monthOf dt) own)" using assms(2) by force
  ultimately have "(c, monthOf date) \<in> lockedMonths (aw_tables d) (List.map_filter (\<lambda>(v, _). company_of people v) own) (map (\<lambda>(_, dt). monthOf dt) own)
      \<longleftrightarrow> (c, monthOf date) \<in> db_monthLocks (aw_tables d)"
    unfolding lockedMonths_def by auto
  then show ?thesis using assms(1) Some by (simp add: isLocked_def isMonthLocked_def same_people_def)
qed

lemma canDecide_person: "canDecide me u s \<Longrightarrow> s \<noteq> None"
  by (cases s) (simp_all add: canDecide_def split: if_splits)

lemma view_flags:
  "iv_canDecide (breakView me r st people l now)
     = (br_userId (bv_row r) \<noteq> u_id me \<and> \<not> l \<and> canDecide me (br_userId (bv_row r)) (people (br_userId (bv_row r))))"
  "iv_canDecide (meetingViewOf me m st people l now)
     = (mr_userId m \<noteq> u_id me \<and> \<not> meeting_inProgress m \<and> \<not> l \<and> canDecide me (mr_userId m) (people (mr_userId m)))"
  "iv_canDecide (awayViewOf me a st people l now)
     = (ay_userId a \<noteq> u_id me \<and> \<not> l \<and> canDecide me (ay_userId a) (people (ay_userId a)))"
  "iv_type (breakView me r st people l now) = BreakItem" "iv_id (breakView me r st people l now) = br_id (bv_row r)"
  "iv_type (meetingViewOf me m st people l now) = MeetingItem" "iv_id (meetingViewOf me m st people l now) = mr_id m"
  "iv_type (awayViewOf me a st people l now) = AwayItem" "iv_id (awayViewOf me a st people l now) = ay_id a"
  "iv_status (breakView me r st people l now) = st" "iv_status (meetingViewOf me m st people l now) = st"
  "iv_status (awayViewOf me a st people l now) = st"
  by (simp_all add: breakView_def meetingViewOf_def awayViewOf_def Let_def)

lemma decideRow_refused:
  "assertApprover me = Inr () \<Longrightarrow> isl (fst (decideRow people me (BreakItem, i) st nt clk d)) = isl (fst (decideRecord people me i st nt clk (aw_tables d)))"
  "assertApprover me = Inr () \<Longrightarrow> isl (fst (decideRow people me (MeetingItem, i) st nt clk d)) = isl (fst (decideMeeting people me i st nt clk (aw_meet d)))"
  "assertApprover me = Inr () \<Longrightarrow> isl (fst (decideRow people me (AwayItem, i) st nt clk d)) = isl (fst (decideAway people me i st nt (clock_now clk) d))"
  by (simp_all add: decideRow_def result_map_def on_breaks_def on_meetings_def isl_map_sum split: prod.split)

lemma break_decision_goes_through:
  assumes "assertApprover me = Inr ()" "find_break db i = Some b" "canView me (br_userId b) (people (br_userId b))" "br_approvalStatus b = Pending"
  shows "isl (fst (decideRecord people me i status nt clk db))
      = (\<not> (br_userId b \<noteq> u_id me \<and> \<not> isMonthLocked db (br_date b) (br_userId b) \<and> canDecide me (br_userId b) (people (br_userId b))))"
proof -
  have f: "find_break (update_break i g db) i = Some (g b)" if "\<And>b. br_id (g b) = br_id b" for g by (rule find_update [OF assms(2) that])
  show ?thesis
    using assms by (auto simp: decideRecord_def findById_def Let_def decide_def f simp del: update_break_sel)
qed

lemma away_decision_goes_through:
  assumes "find_away d i = Some a" "canView me (ay_userId a) (people (ay_userId a))" "ay_status a = AwPending"
  shows "isl (fst (decideAway people me i status nt now d))
      = (\<not> (ay_userId a \<noteq> u_id me \<and> \<not> isMonthLocked (aw_tables d) (ay_date a) (ay_userId a) \<and> canDecide me (ay_userId a) (people (ay_userId a))))"
proof -
  have "List.find (\<lambda>x. ay_id x = i) (map (\<lambda>x. if ay_id x = i then decided_away dc x else x) xs)
      = map_option (decided_away dc) (List.find (\<lambda>x. ay_id x = i) xs)" for xs dc
    by (induction xs) (auto simp: decided_away_def)
  then have f: "find_away (update_away (\<lambda>x. ay_id x = i) (decided_away dc) d) i = Some (decided_away dc a)" for dc
    using assms(1) by (simp add: find_away_def update_away_def)
  have "people (ay_userId a) = None \<Longrightarrow> \<not> canDecide me (ay_userId a) (people (ay_userId a))" using canDecide_person by blast
  then show ?thesis
    using assms canDecide_other [of me "ay_userId a"] by (cases "people (ay_userId a)")
      (auto simp: decideAway_def subjectOf_def decide_away_def Let_def f)
qed

text \<open>Past meetings have an end.\<close>

definition past_ended :: "meet_db \<Rightarrow> bool" where
  "past_ended d \<longleftrightarrow> (\<forall>m \<in> set (md_meetings d). mr_mode m = PastMeeting \<longrightarrow> mr_endedAt m \<noteq> None)"

lemma meeting_decision_goes_through:
  assumes "find_meeting d i = Some m" "canView me (mr_userId m) (people (mr_userId m))" "mr_approvalStatus m = Pending"
    "snd (heal (Some [mr_userId m]) d) = d" "past_ended d" "status \<noteq> Pending"
  shows "isl (fst (decideMeeting people me i status nt clk d))
      = (\<not> (mr_userId m \<noteq> u_id me \<and> \<not> meeting_inProgress m \<and> \<not> isMonthLocked (md_tables d) (mr_date m) (mr_userId m)
            \<and> canDecide me (mr_userId m) (people (mr_userId m))))"
proof -
  have f: "find_meeting (update_meeting i g d) i = Some (g m)" if "\<And>m. mr_id (g m) = mr_id m" for g by (rule find_updated [OF assms(1) that])
  have n: "people (mr_userId m) = None \<Longrightarrow> \<not> canDecide me (mr_userId m) (people (mr_userId m))" using canDecide_person by blast
  have e: "\<not> meeting_inProgress m \<Longrightarrow> mr_endedAt m \<noteq> None"
    using assms(5) find_meeting_in [OF assms(1)] by (cases "mr_mode m") (auto simp: meeting_inProgress_def past_ended_def)
  show ?thesis
    using assms(1-4,6) n e canDecide_other [of me "mr_userId m"]
    by (cases "people (mr_userId m)") (auto simp: decideMeeting_def subjectOf_def decide_meeting_def Let_def f)
qed

lemma heal_after_heal: "snd (heal us (aw_meet (heal_all None d))) = aw_meet (heal_all None d)"
proof -
  have "heal_row us db (heal_row None db m) = heal_row None db m" for db m
    by (auto simp: heal_row_def to_heal_def orphan_def for_users_def ended_as_def discard_def Let_def)
  then show ?thesis by (simp add: heal_all_def heal_def Let_def o_def)
qed

lemma flag_decides:
  assumes "list_inbox env me q now d = (Inr (vs, n, pages), d1)" "v \<in> set vs" "iv_status v = Pending"
    "same_people (en_people env) d" "past_ended (aw_meet d)"
  shows "iv_canDecide v \<longleftrightarrow> \<not> isl (fst (decideRow (en_people env) me (iv_type v, iv_id v) (if ok then Approved else Rejected) nt clk d1))"
proof -
  let ?P = "en_people env" and ?st = "if ok then Approved else Rejected"
  have appr: "assertApprover me = Inr ()" using assms(1) by (cases "assertApprover me") (auto simp: list_inbox_def)
  have d1: "d1 = heal_all None d" and refs: "\<exists>refs. v \<in> set (views ?P me refs now d1)"
    using assms(1,2) appr by (auto simp: list_inbox_def Let_def split: sum.splits prod.splits)
  obtain refs where v: "v \<in> set (views ?P me refs now d1)" using refs by blast
  have same: "same_people ?P d1" using assms(4) by (simp add: same_people_def d1)
  have ended: "past_ended (aw_meet d1)"
    using assms(5) unfolding d1 by (auto simp: past_ended_def heal_all_def heal_def Let_def heal_row_def ended_as_def discard_def)
  let ?bs = "listByIds (aw_tables d1) (ids_of BreakItem refs)" and ?ms = "meetings_by_ids (aw_meet d1) (ids_of MeetingItem refs)"
    and ?ws = "away_by_ids d1 (ids_of AwayItem refs)"
  obtain ref where r: "build_one me ?bs ?ms ?ws ?P now (aw_tables d1) ref = Some v"
    using v by (auto simp: views_def build_def map_filter_set split: if_splits)
  note lock = isLocked_month [OF same, of _ _ "owners ?bs ?ms ?ws"]
  show ?thesis
  proof (cases "fst ref")
    case BreakItem
    then obtain b where f: "List.find (\<lambda>r. br_id (bv_row r) = snd ref) ?bs = Some b"
      and c: "canView me (br_userId (bv_row b)) (?P (br_userId (bv_row b)))"
      and v: "v = breakView me b (br_approvalStatus (bv_row b)) ?P (isLocked (aw_tables d1) ?P (owners ?bs ?ms ?ws) (br_userId (bv_row b)) (br_date (bv_row b))) now"
      using r by (auto simp: build_one_def split: option.splits if_splits)
    have "find_break (aw_tables d1) (snd ref) = Some (bv_row b)"
      using f find_by_ids [of "\<lambda>r. br_id (bv_row r)" "breakRowFromPrisma (aw_tables d1)" br_id]
      by (auto simp: listByIds_def find_break_def split: if_splits)
    moreover have "(br_userId (bv_row b), br_date (bv_row b)) \<in> set (owners ?bs ?ms ?ws)"
      using find_Some_set [OF f] by (auto simp: owners_def)
    ultimately show ?thesis
      using break_decision_goes_through [where people = ?P and b = "bv_row b" and i = "snd ref" and status = ?st and nt = nt and clk = clk
          and db = "aw_tables d1" and me = me] appr c assms(3) lock find_Some_set [OF f] v
      by (simp add: view_flags decideRow_refused)
  next
    case MeetingItem
    then obtain m where f: "List.find (\<lambda>m. mr_id m = snd ref) ?ms = Some m"
      and c: "canView me (mr_userId m) (?P (mr_userId m))"
      and v: "v = meetingViewOf me m (mr_approvalStatus m) ?P (isLocked (aw_tables d1) ?P (owners ?bs ?ms ?ws) (mr_userId m) (mr_date m)) now"
      using r by (auto simp: build_one_def split: option.splits if_splits)
    have m: "find_meeting (aw_meet d1) (snd ref) = Some m"
      using f unfolding meetings_by_ids_def find_meeting_def by (rule find_in_ids)
    have "(mr_userId m, mr_date m) \<in> set (owners ?bs ?ms ?ws)"
      using find_Some_set [OF f] by (auto simp: owners_def)
    then show ?thesis
      using meeting_decision_goes_through [where people = ?P and status = ?st and nt = nt and clk = clk and me = me, OF m c] appr ended
        heal_after_heal [of "Some [mr_userId m]" d, folded d1] assms(3) lock find_Some_set [OF f] v
      by (simp add: view_flags decideRow_refused)
  next
    case AwayItem
    then obtain a st where f: "List.find (\<lambda>a. ay_id a = snd ref) ?ws = Some a" "away_decided (ay_status a) = Some st"
      and c: "canView me (ay_userId a) (?P (ay_userId a))"
      and v: "v = awayViewOf me a st ?P (isLocked (aw_tables d1) ?P (owners ?bs ?ms ?ws) (ay_userId a) (ay_date a)) now"
      using r by (auto simp: build_one_def split: option.splits if_splits)
    have a: "find_away d1 (snd ref) = Some a"
      using f(1) unfolding away_by_ids_def find_away_def by (rule find_in_ids)
    have "st = Pending" using assms(3) v by (simp add: view_flags)
    then have "ay_status a = AwPending" using f(2) by (cases "ay_status a") auto
    moreover have "(ay_userId a, ay_date a) \<in> set (owners ?bs ?ms ?ws)"
      using find_Some_set [OF f(1)] by (auto simp: owners_def)
    ultimately show ?thesis
      using away_decision_goes_through [where people = ?P and status = ?st and nt = nt and now = "clock_now clk" and me = me, OF a c] appr
        lock find_Some_set [OF f(1)] v
      by (simp add: view_flags decideRow_refused)
  qed
qed

lemma past_ended_map:
  "past_ended d \<Longrightarrow> (\<And>m. mr_mode (f m) = mr_mode m \<and> (mr_endedAt m \<noteq> None \<longrightarrow> mr_endedAt (f m) \<noteq> None)) \<Longrightarrow> past_ended (d\<lparr>md_meetings := map f (md_meetings d)\<rparr>)"
  by (auto simp: past_ended_def)

lemma past_ended_create:
  "past_ended d \<Longrightarrow> mr_mode (mk (md_nextId d)) = PastMeeting \<longrightarrow> mr_endedAt (mk (md_nextId d)) \<noteq> None \<Longrightarrow> past_ended (snd (create_meeting mk d))"
  by (auto simp: past_ended_def create_meeting_def Let_def)

lemma past_ended_work [simp]: "past_ended (d\<lparr>md_work := w\<rparr>) = past_ended d"
  by (simp add: past_ended_def)

lemma new_row_times [simp]:
  "mr_mode (new_row n date md st e du sid c i) = md" "mr_endedAt (new_row n date md st e du sid c i) = e"
  by (simp_all add: new_row_def)

lemma past_ended_live: "past_ended d \<Longrightarrow> past_ended (snd (startLive n generation now today tz clk d))"
  by (auto simp: startLive_def Let_def case_prod_unfold intro!: past_ended_create split: option.split ensure_result.split)

lemma past_ended_step: "meet_step d d' \<Longrightarrow> past_ended d \<Longrightarrow> past_ended d'"
proof (induction rule: meet_step.induct)
  case (live d n now generation today tz clk)
  then show ?case by (intro past_ended_live)
next
  case (live_ended d i u now)
  show ?case using endLive_cases [of i u now d] live_ended
    by (auto simp: past_ended_def update_meeting_map ended_as_def discard_def Let_def split: if_splits)
next
  case (logged d n start du generation now today clk)
  then show ?case by (auto simp: createPast_def Let_def case_prod_unfold intro!: past_ended_create split: option.split)
next
  case (healed d us)
  then show ?case unfolding heal_def Let_def snd_conv
    by (intro past_ended_map) (auto simp: heal_row_def ended_as_def discard_def Let_def)
next
  case (meeting_decided d i expected dc clk)
  then show ?case by (auto simp: decide_meeting_def Let_def update_meeting_map intro!: past_ended_map split: option.split)
next
  case (meeting_rerouted d i rt)
  then show ?case by (auto simp: reroute_meeting_def Let_def intro!: past_ended_map)
qed simp

lemma past_meetings_have_ended: "meet_reachable d \<Longrightarrow> past_ended d"
  by (induction rule: meet_reachable.induct) (simp add: past_ended_def empty_meet_db_def, rule past_ended_step)

text \<open>C8: in the list the inbox answers, a waiting item is shown as the caller's to decide exactly when a decision on it
  would go through then, whatever its kind, the decision and the note.\<close>

theorem flag_says_who_may_decide:
  assumes "list_inbox env me q now d = (Inr (vs, n, pages), d1)" "v \<in> set vs" "iv_status v = Pending"
    "same_people (en_people env) d" "meet_reachable (aw_meet d)"
  shows "iv_canDecide v \<longleftrightarrow> \<not> isl (fst (decideRow (en_people env) me (iv_type v, iv_id v) (if ok then Approved else Rejected) nt clk d1))"
  by (rule flag_decides [OF assms(1-4) past_meetings_have_ended [OF assms(5)]])

text \<open>A waiting away request of a member of department 3, and the manager of that department.\<close>

definition waiting_row :: away_row where
  "waiting_row = \<lparr>ay_id = 0, ay_data = \<lparr>na_userId = 2, na_companyId = Some 7, na_date = ''2026-01-05'', na_startedAt = 2000, na_endedAt = 100000,
       na_reasonKey = Some ''OTHER'', na_reasonKind = Some OtherWork, na_reasonLabel = None, na_comment = None, na_participants = [],
       na_momSender = None, na_status = AwPending, na_approverRole = Some MANAGER, na_dueAt = Some 200000\<rparr>,
     ay_endedAt = Some 100000, ay_seconds = Some 98, ay_decidedById = None, ay_decidedAt = None, ay_decisionNote = None,
     ay_clock = \<lparr>pc_dueAt = Some 200000, pc_escalatedAt = None, pc_remindedAt = None\<rparr>\<rparr>"

definition waiting_db :: away_db where
  "waiting_db = away_start\<lparr>aw_rows := [waiting_row]\<rparr>"

definition sample_env :: approvals_env where
  "sample_env = \<lparr>en_facts = \<lparr>of_people = (\<lambda>u. Some (sample_staff\<lparr>pf_id := u\<rparr>)), of_managersOf = (\<lambda>_. [1])\<rparr>, en_created = (\<lambda>_ _. 0),
     en_zone = (\<lambda>_. 0), en_sla = (\<lambda>_. 48)\<rparr>"

definition first_page :: list_query where
  "first_page = \<lparr>lq_page = None, lq_limit = None, lq_status = None, lq_overdue = False, lq_scope = Mine, lq_companyId = None,
     lq_type = None, lq_category = None, lq_date = None, lq_userId = None\<rparr>"

lemma waiting_tables: "aw_tables waiting_db = empty_db (\<lambda>_. Some 7) (\<lambda>_. 48)" "md_meetings (aw_meet waiting_db) = []" "aw_rows waiting_db = [waiting_row]"
  by (simp_all add: waiting_db_def away_start_def day_started_open) (simp add: day_started_def empty_meet_db_def)

lemma waiting_healed: "heal_all us waiting_db = waiting_db"
proof -
  have "(aw_meet waiting_db)\<lparr>md_meetings := []\<rparr> = aw_meet waiting_db" using waiting_tables(2) by simp
  then show ?thesis by (simp add: heal_all_def heal_def waiting_tables)
qed

lemma sample_manager_decides: "assertApprover sample_manager = Inr ()" "canDecide sample_manager 2 (en_people sample_env 2)"
    "canView sample_manager 2 (en_people sample_env 2)" "scopeFor sample_manager Mine None = Inr (ScDepts 7 [3] 1)"
  unfolding sample_env_def by code_simp+

abbreviation waiting_item :: approval_item where
  "waiting_item \<equiv> \<lparr>it_type = AwayItem, it_id = 0, it_userId = 2, it_date = ''2026-01-05'', it_status = Pending, it_dueAt = Some 200000,
     it_decidedAt = None, it_createdAt = 0, it_escalatedAt = None, it_remindedAt = None, it_approverId = None,
     it_approverRole = Some MANAGER, it_category = AWAY_OTHER\<rparr>"

lemma waiting_items: "ITEMS (en_created sample_env) waiting_db = [waiting_item]"
  by (simp add: ITEMS_def waiting_tables empty_db_def List.map_filter_simps away_item_def waiting_row_def sample_env_def sql_away_category_def)

lemma waiting_inbox: "inbox (en_facts sample_env) (query_of first_page (ScDepts 7 [3] 1) now) [waiting_item] = [waiting_item]"
  by (simp add: inbox_def whereSql_def query_of_def query_def first_page_def statuses_of_def scopeSql_def if_given_def sample_env_def
      sample_staff_def Let_def)

lemma list_items_inbox:
  "list_items f q items = (length (inbox f q items), map ref_of (take (coalesce (qy_take q) 50) (drop (coalesce (qy_skip q) 0) (inbox f q items))))"
  by (simp add: list_items_def inbox_def)

lemma waiting_list:
  "list_inbox sample_env sample_manager first_page now waiting_db
     = (Inr ([awayViewOf sample_manager waiting_row Pending (en_people sample_env) False now], 1, 1), waiting_db)"
proof -
  have q: "qy_skip (query_of first_page s now) = Some 0" "qy_take (query_of first_page s now) = Some 50" "lq_limit first_page = None"
    "lq_scope first_page = Mine" "lq_companyId first_page = None" for s
    by (simp_all add: query_of_def first_page_def Let_def)
  have l: "list_items (en_facts sample_env) (query_of first_page (ScDepts 7 [3] 1) now) [waiting_item] = (1, [(AwayItem, 0)])"
    unfolding list_items_inbox q waiting_inbox by (simp add: ref_of_def coalesce_def)
  have u: "ay_userId waiting_row = 2" "ay_id waiting_row = 0" "ay_status waiting_row = AwPending" by (simp_all add: waiting_row_def)
  have lk: "isLocked (aw_tables waiting_db) (en_people sample_env) own x y = False" for own x y
    by (simp add: isLocked_def lockedMonths_def waiting_tables empty_db_def split: option.split)
  have w: "away_by_ids waiting_db [0] = [waiting_row]" by (simp add: away_by_ids_def waiting_tables u)
  have one: "build_one sample_manager bs ms [waiting_row] (en_people sample_env) now (aw_tables waiting_db) (AwayItem, 0)
      = Some (awayViewOf sample_manager waiting_row Pending (en_people sample_env) False now)" for bs ms
    by (simp add: build_one_def Let_def u sample_manager_decides lk)
  have "views (en_people sample_env) sample_manager [(AwayItem, 0)] now waiting_db
      = [awayViewOf sample_manager waiting_row Pending (en_people sample_env) False now]"
    by (simp add: views_def build_def ids_of_def w one List.map_filter_simps)
  then show ?thesis
    by (simp add: list_inbox_def sample_manager_decides waiting_healed q Let_def waiting_items l totalPages_def ceil_div_def del: One_nat_def)
qed

theorem flag_says_who_may_decide_witness:
  "iv_canDecide (awayViewOf sample_manager waiting_row Pending (en_people sample_env) False 5000)
   \<and> \<not> isl (fst (decideRow (en_people sample_env) sample_manager (AwayItem, 0) Approved None live_clock waiting_db))"
proof -
  let ?v = "awayViewOf sample_manager waiting_row Pending (en_people sample_env) False 5000"
  have s: "same_people (en_people sample_env) waiting_db"
    by (simp add: same_people_def waiting_tables empty_db_def company_of_def sample_env_def sample_staff_def fun_eq_iff)
  have p: "meet_reachable (aw_meet waiting_db)" using day_started_reachable by (simp add: waiting_db_def away_start_def)
  have "?v \<in> set [?v]" "iv_status ?v = Pending" by (simp_all add: view_flags)
  note flag_says_who_may_decide [where ok = True and nt = None and clk = live_clock, OF waiting_list this s p]
  moreover have "iv_canDecide ?v" using sample_manager_decides by (simp add: view_flags waiting_row_def sample_manager_def)
  ultimately show ?thesis by (simp add: view_flags waiting_row_def)
qed

section \<open>Everybody's items reach somebody\<close>

lemma scope_is_filter:
  assumes "of_people f (it_userId a) = Some s" "pf_id s = it_userId a" "approverScopeOf me AllItems None = Some sc"
    "approvalFilterFor me AllItems None = Inr flt" "u_role me = MANAGER \<or> seesWholeOrg me"
  shows "scopeSql f sc a \<longleftrightarrow> subject_matches flt s"
proof (cases "allOrgsInView me")
  case True
  then show ?thesis using assms
    by (auto simp: approverScopeOf_def approvalFilterFor_def scopeSql_def subject_matches_def subject_part_def)
next
  case False
  then obtain org where "requireOrg me = Inr org" "orgOf me = Some org"
    using assms(4) by (auto simp: approvalFilterFor_def requireOrg_def split: sum.splits option.splits if_splits)
  then show ?thesis using False assms
    by (cases "u_role me = MANAGER"; cases "pf_departmentId s")
      (auto simp: approverScopeOf_def approvalFilterFor_def scopeSql_def subject_matches_def subject_part_def inOrg_def)
qed

text \<open>C34: the inbox over all three kinds of item and the right to decide agree: an item of a person whose items are routed
  for approval is in an approver's "all" list exactly when the approver may decide for that person.\<close>

theorem every_kind_reaches_its_approvers:
  assumes "assertApprover me = Inr ()" "approverScopeOf me AllItems None = Some sc" "of_people f (it_userId a) = Some s" "pf_id s = it_userId a"
    "rd_status (route (pf_role s) (pf_departmentId s)) = Pending"
  shows "scopeSql f sc a \<longleftrightarrow> canDecide me (it_userId a) (of_people f (it_userId a))"
proof -
  have role: "u_role me = MANAGER \<or> seesWholeOrg me" using assms(1) by (auto simp: assertApprover_def split: if_splits)
  have "\<exists>flt. approvalFilterFor me AllItems None = Inr flt"
    using assms(1) role by (cases "requireOrg me") (auto simp: assertApprover_def approvalFilterFor_def split: if_splits)
  then obtain flt where flt: "approvalFilterFor me AllItems None = Inr flt" by blast
  have "pf_role s \<in> {USER, MANAGER}" using assms(5) by (cases "pf_role s") (auto simp: route_def)
  then have "subject_matches flt s \<longleftrightarrow> canDecide me (pf_id s) (Some s)" by (rule approvals_match [OF assms(1) flt])
  then show ?thesis using scope_is_filter [OF assms(3,4,2) flt role] assms(3,4) by simp
qed










section \<open>Reminders and escalations\<close>

lemma sla_hit_rule:
  "sla_hit RemindedAt now a \<longleftrightarrow> it_status a = Pending \<and> needsReminder (it_dueAt a) (it_remindedAt a) now"
  "sla_hit EscalatedAt now a \<longleftrightarrow> it_status a = Pending \<and> needsEscalation (it_dueAt a) (it_escalatedAt a) now"
  by (auto simp: sla_hit_def sla_mark_def sla_window_def needsReminder_def needsEscalation_def holds_of_def Let_def split: option.split)

abbreviation claim_ref :: "sla_claim \<Rightarrow> item_ref" where
  "claim_ref c \<equiv> (sc_type c, sc_id c)"

lemma candidate_item:
  assumes "c \<in> set (slaCandidates f now col items)"
  shows "\<exists>a \<in> set items. ref_of a = claim_ref c \<and> sla_hit col now a"
proof -
  have "\<exists>x \<in> set items. sla_hit col now x \<and> claim_of f x = Some c"
    using assms by (auto simp: slaCandidates_def SLA_TABLES_def map_filter_set dest!: in_set_takeD)
  then show ?thesis by (auto simp: claim_of_def ref_of_def)
qed

lemma ids_of_iff: "i \<in> set (ids_of ty refs) \<longleftrightarrow> (ty, i) \<in> set refs"
  by (force simp: ids_of_def)

lemma map_tables_sel [simp]:
  "db_breaks (aw_tables (map_tables fb fm fw d)) = map fb (db_breaks (aw_tables d))"
  "md_meetings (aw_meet (map_tables fb fm fw d)) = map fm (md_meetings (aw_meet d))" "aw_rows (map_tables fb fm fw d) = map fw (aw_rows d)"
  by (simp_all add: map_tables_def Let_def)

section \<open>A waiting request\<close>

theorem every_kind_reaches_its_approvers_witness:
  "scopeSql (en_facts sample_env) (ScDepts 7 [3] 1) waiting_item"
proof -
  have s: "approverScopeOf sample_manager AllItems None = Some (ScDepts 7 [3] 1)" by code_simp
  have p: "en_people sample_env (it_userId waiting_item) = Some (sample_staff\<lparr>pf_id := 2\<rparr>)" by (simp add: sample_env_def)
  have "rd_status (route (pf_role (sample_staff\<lparr>pf_id := 2\<rparr>)) (pf_departmentId (sample_staff\<lparr>pf_id := 2\<rparr>))) = Pending" by code_simp
  from every_kind_reaches_its_approvers [OF sample_manager_decides(1) s p _ this] sample_manager_decides(2)
  show ?thesis by simp
qed



theorem pages_show_the_whole_inbox_witness:
  "concat (map (\<lambda>p. page_refs (en_facts sample_env) (first_page\<lparr>lq_limit := Some 20\<rparr>) (ScDepts 7 [3] 1) 5000 [waiting_item] (Suc p)) [0 ..< 1])
   = [(AwayItem, 0)]"
proof -
  let ?q = "first_page\<lparr>lq_limit := Some 20\<rparr>"
  have i: "inbox (en_facts sample_env) (query_of ?q (ScDepts 7 [3] 1) 5000) [waiting_item] = [waiting_item]"
    by (simp add: inbox_def whereSql_def query_of_def query_def first_page_def statuses_of_def scopeSql_def if_given_def sample_env_def
        sample_staff_def Let_def)
  have n: "1 = fst (list_items (en_facts sample_env) (query_of ?q (ScDepts 7 [3] 1) 5000) [waiting_item])"
    unfolding list_items_inbox i by simp
  have "nat (totalPages (int 1) (int 20)) = 1" by code_simp
  then show ?thesis using pages_show_the_whole_inbox [of ?q 20, OF _ _ n] unfolding i by (simp add: ref_of_def)
qed

end
