(* ===== verification/Jobs.thy ===== *)
theory Jobs
  imports Notices Approval_Guarantees
begin

text \<open>
  The scheduled jobs of the working day, \<open>src/src/modules/worktime/application/jobs/worktime.jobs.ts\<close>: the
  guard that keeps runs apart, who an approval item waits for, the reminder and escalation pass, and
  the daily digest. The auto-close and auto-skip jobs run the operations of the work sessions and of the skips.

  The event bus is a parameter: \<open>sends n\<close> says whether publishing the notice \<open>n\<close> succeeds. The caches of
  one run (recipients, time limits) hold what the tables say; the tables of people do not change
  during a run. A notice's recipients, text and kind are kept; log lines are left out.
\<close>

section \<open>The guard\<close>

text \<open>One run: skipped while another runs; an error is swallowed and the flag is cleared.\<close>

record 's job =
  jb_running :: bool
  jb_state :: 's

definition guarded :: "('s \<Rightarrow> (db_error + unit) \<times> 's) \<Rightarrow> 's job \<Rightarrow> 's job" where
  "guarded work j = (if jb_running j then j else \<lparr>jb_running = False, jb_state = snd (work (jb_state j))\<rparr>)"

section \<open>Recipients\<close>

definition org_admins :: "reader_db \<Rightarrow> uid option \<Rightarrow> uid list" where
  "org_admins db companyId = (case companyId of None \<Rightarrow> [] | Some c \<Rightarrow> listOrgAdminIds db c)"

definition dept_managers :: "reader_db \<Rightarrow> uid option \<Rightarrow> uid list" where
  "dept_managers db departmentId = (case departmentId of None \<Rightarrow> [] | Some d \<Rightarrow> listDepartmentManagerIds db d)"

definition approvers :: "reader_db \<Rightarrow> role option \<Rightarrow> uid option \<Rightarrow> uid option \<Rightarrow> uid option \<Rightarrow> uid list" where
  "approvers db approverRole companyId departmentId userId =
     (let ms = (if approverRole = Some MANAGER then dept_managers db departmentId else []);
          ids = (if ms = [] then org_admins db companyId else ms)
      in filter (\<lambda>i. Some i \<noteq> userId) ids)"

definition claim_approvers :: "reader_db \<Rightarrow> sla_claim \<Rightarrow> uid list" where
  "claim_approvers db c = approvers db (sc_approverRole c) (sc_companyId c) (sc_departmentId c) (Some (sc_userId c))"

text \<open>A map from a key to the values collected under it, in the order the keys first occur.\<close>

definition collect :: "'k \<Rightarrow> 'v \<Rightarrow> ('k \<times> 'v list) list \<Rightarrow> ('k \<times> 'v list) list" where
  "collect k v out = AList.update k (coalesce (map_of out k) [] @ [v]) out"

definition perApprover :: "reader_db \<Rightarrow> sla_claim list \<Rightarrow> (uid \<times> sla_claim list) list" where
  "perApprover db claims = foldl (\<lambda>out c. foldl (\<lambda>out i. collect i c out) out (claim_approvers db c)) [] claims"

section \<open>The reminder and escalation pass\<close>

datatype notice_type = APPROVALS_DUE_SOON | APPROVALS_OVERDUE | APPROVALS_ESCALATED

record job_notice =
  jn_userIds :: "uid list"
  jn_type :: notice_type
  jn_copy :: notice_copy

record job_env =
  je_people :: reader_db
  je_facts :: org_facts
  je_created :: created_at
  je_sla :: "uid option \<Rightarrow> int"
  je_sends :: "job_notice \<Rightarrow> bool"

text \<open>The ids of \<open>findMany({ ids })\<close>; how many got the notice, and what was sent.\<close>

definition notify :: "job_env \<Rightarrow> uid list \<Rightarrow> notice_type \<Rightarrow> notice_copy \<Rightarrow> nat \<times> job_notice list" where
  "notify e ids ty copy =
     (if ids = [] then (0, [])
      else (let active = map pf_id (findMany (je_people e)
                  \<lparr>pq_companyId = None, pq_departmentIds = None, pq_roles = None, pq_managerId = None, pq_ids = Some ids,
                   pq_department = None, pq_search = None, pq_skip = None, pq_take = None\<rparr>);
                n = \<lparr>jn_userIds = active, jn_type = ty, jn_copy = copy\<rparr>
            in if active = [] then (0, []) else if je_sends e n then (length active, [n]) else (0, [])))"

fun remind_all :: "job_env \<Rightarrow> (uid \<times> sla_claim list) list \<Rightarrow> sla_claim list \<times> job_notice list" where
  "remind_all e [] = ([], [])"
| "remind_all e ((approverId, items) # rest) =
     (let (n, out) = notify e [approverId] APPROVALS_DUE_SOON (dueSoonCopy (length items));
          (reminded, outs) = remind_all e rest
      in ((if n > 0 then items @ reminded else reminded), out @ outs))"

text \<open>The managers hear an item is overdue: the items told, and the notices.\<close>

fun tell_managers :: "job_env \<Rightarrow> (uid \<times> sla_claim list) list \<Rightarrow> sla_claim list \<times> job_notice list" where
  "tell_managers e [] = ([], [])"
| "tell_managers e ((approverId, items) # rest) =
     (let (n, out) = notify e [approverId] APPROVALS_OVERDUE
            (overdueCopy (length items) (je_sla e (case items of [] \<Rightarrow> None | i # _ \<Rightarrow> sc_companyId i)));
          (told, outs) = tell_managers e rest
      in ((if n > 0 then items @ told else told), out @ outs))"

definition by_org :: "sla_claim list \<Rightarrow> (uid option \<times> sla_claim list) list" where
  "by_org escalated = foldl (\<lambda>out c. collect (sc_companyId c) c out) [] escalated"

definition waiting_managers :: "reader_db \<Rightarrow> sla_claim list \<Rightarrow> uid list" where
  "waiting_managers db items =
     js_unique (concat (map (\<lambda>i. if sc_approverRole i = Some MANAGER then dept_managers db (sc_departmentId i) else []) items))"

definition escalation_admins :: "reader_db \<Rightarrow> uid option \<Rightarrow> sla_claim list \<Rightarrow> uid list" where
  "escalation_admins db companyId items =
     filter (\<lambda>i. \<not> list_all (\<lambda>c. sc_userId c = i) items) (org_admins db companyId)"

fun escalate_orgs :: "job_env \<Rightarrow> item_ref list \<Rightarrow> (uid option \<times> sla_claim list) list \<Rightarrow> sla_claim list \<times> job_notice list" where
  "escalate_orgs e told [] = ([], [])"
| "escalate_orgs e told ((companyId, items) # rest) =
     (let admins = escalation_admins (je_people e) companyId items;
          managers = findAnyByIds (je_people e) (waiting_managers (je_people e) items);
          (n, out) = notify e admins APPROVALS_ESCALATED
            (escalatedCopy (length items) (je_sla e companyId) (map (\<lambda>p. full_name (se_firstName p) (se_lastName p)) managers));
          (done_items, outs) = escalate_orgs e told rest
      in ((if n > 0 then items @ done_items
           else if admins = [] then filter (\<lambda>i. claim_ref i \<in> set told) items @ done_items
           else done_items),
          out @ outs))"

definition escalate :: "job_env \<Rightarrow> sla_claim list \<Rightarrow> sla_claim list \<times> job_notice list" where
  "escalate e escalated =
     (let (told, out) = tell_managers e (perApprover (je_people e) (filter (\<lambda>c. sc_approverRole c = Some MANAGER) escalated));
          (done_items, outs) = escalate_orgs e (map claim_ref told) (by_org escalated)
      in (done_items, out @ outs))"

definition unique_refs :: "sla_claim list \<Rightarrow> item_ref list" where
  "unique_refs claims = js_unique (map claim_ref claims)"

text \<open>\<open>tk_reminded\<close> and \<open>tk_escalated\<close> are not returned by the code: they name what the pass marks.\<close>

record tick_result =
  tk_sent :: "job_notice list"
  tk_reminded :: "item_ref list"
  tk_escalated :: "item_ref list"

definition tick :: "job_env \<Rightarrow> int \<Rightarrow> away_db \<Rightarrow> tick_result \<times> away_db" where
  "tick e now d =
     (let d1 = snd (fillMissingDueAt (je_created e) (je_sla e None) d);
          (reminded, out1) = remind_all e (perApprover (je_people e) (remindersDue (je_facts e) now (ITEMS (je_created e) d1)));
          d2 = (if reminded = [] then d1 else snd (markReminded (unique_refs reminded) now d1));
          (escalated, out2) = escalate e (escalationsDue (je_facts e) now (ITEMS (je_created e) d2));
          d3 = (if escalated = [] then d2 else snd (markEscalated (unique_refs escalated) now d2))
      in (\<lparr>tk_sent = out1 @ out2, tk_reminded = unique_refs reminded, tk_escalated = unique_refs escalated\<rparr>, d3))"

section \<open>The digest\<close>






section \<open>What a pass tells and marks\<close>

definition under :: "'k \<Rightarrow> ('k \<times> 'v list) list \<Rightarrow> 'v list" where
  "under k out = coalesce (map_of out k) []"

lemma under_Nil [simp]: "under k [] = []"
  by (simp add: under_def)

lemma under_collect: "under k (collect k' v out) = (if k = k' then under k out @ [v] else under k out)"
  by (simp add: under_def collect_def update_conv')

lemma keys_collect: "distinct (map fst out) \<Longrightarrow> distinct (map fst (collect k v out))"
  by (simp add: collect_def distinct_update)

lemma in_under: "distinct (map fst out) \<Longrightarrow> (k, vs) \<in> set out \<Longrightarrow> under k out = vs"
  by (simp add: under_def)

lemma under_in: "v \<in> set (under k out) \<Longrightarrow> \<exists>vs. (k, vs) \<in> set out \<and> v \<in> set vs"
  by (cases "map_of out k") (auto simp: under_def dest: map_of_SomeD)

lemma collect_ids:
  "distinct (map fst out) \<Longrightarrow> distinct (map fst (foldl (\<lambda>out i. collect i c out) out ids))
   \<and> set (under k (foldl (\<lambda>out i. collect i c out) out ids)) = set (under k out) \<union> (if k \<in> set ids then {c} else {})"
  by (induction ids arbitrary: out) (auto simp: keys_collect under_collect)

lemma collect_claims:
  "distinct (map fst out) \<Longrightarrow>
     distinct (map fst (foldl (\<lambda>out c. foldl (\<lambda>out i. collect i c out) out (f c)) out claims))
   \<and> set (under k (foldl (\<lambda>out c. foldl (\<lambda>out i. collect i c out) out (f c)) out claims))
       = set (under k out) \<union> {c \<in> set claims. k \<in> set (f c)}"
proof (induction claims arbitrary: out)
  case (Cons c claims)
  note h = collect_ids [OF Cons.prems, of c "f c"]
  show ?case using Cons.IH [of "foldl (\<lambda>out i. collect i c out) out (f c)"] h [of k] by auto
qed simp

lemma perApprover_items:
  "(i, items) \<in> set (perApprover db claims) \<Longrightarrow> c \<in> set items \<Longrightarrow> c \<in> set claims \<and> i \<in> set (claim_approvers db c)"
  using collect_claims [of "[]" "claim_approvers db" claims i] in_under [of "perApprover db claims" i items]
  by (auto simp: perApprover_def)

lemma perApprover_has:
  "c \<in> set claims \<Longrightarrow> i \<in> set (claim_approvers db c) \<Longrightarrow> \<exists>items. (i, items) \<in> set (perApprover db claims) \<and> c \<in> set items"
  using collect_claims [of "[]" "claim_approvers db" claims i]
  by (intro under_in) (simp add: perApprover_def)

lemma by_org_collect: "by_org cs = foldl (\<lambda>out c. foldl (\<lambda>out i. collect i c out) out [sc_companyId c]) [] cs"
  by (simp add: by_org_def)

lemma by_org_items: "(k, items) \<in> set (by_org cs) \<Longrightarrow> c \<in> set items \<Longrightarrow> c \<in> set cs \<and> sc_companyId c = k"
  using collect_claims [of "[]" "\<lambda>c. [sc_companyId c]" cs k] in_under [of "by_org cs" k items]
  by (auto simp: by_org_collect)

definition active_ids :: "reader_db \<Rightarrow> uid list \<Rightarrow> uid set" where
  "active_ids db ids = {i \<in> set ids. \<exists>u \<in> set (rd_users db). pf_id (ue_facts u) = i \<and> active_entry u}"

lemma findMany_ids:
  "set (map pf_id (findMany db \<lparr>pq_companyId = None, pq_departmentIds = None, pq_roles = None, pq_managerId = None,
     pq_ids = Some ids, pq_department = None, pq_search = None, pq_skip = None, pq_take = None\<rparr>)) = active_ids db ids"
  by (auto simp: findMany_def shift_where_def asked_def asked_text_def active_ids_def Let_def)

lemma notify_sent:
  assumes "notify e ids ty copy = (n, out)" "0 < n"
  shows "\<exists>x. out = [x] \<and> jn_type x = ty \<and> set (jn_userIds x) = active_ids (je_people e) ids \<and> jn_userIds x \<noteq> []"
  using assms findMany_ids [of "je_people e" ids] by (auto simp: notify_def Let_def simp del: set_map split: if_splits)

lemma notify_goes_out:
  assumes "i \<in> active_ids (je_people e) ids" "\<And>x. je_sends e x"
  shows "0 < fst (notify e ids ty copy)"
  using assms findMany_ids [of "je_people e" ids] by (auto simp: notify_def active_ids_def Let_def simp del: set_map)

text \<open>An approver of the item heard of it.\<close>

definition told_of :: "job_env \<Rightarrow> notice_type \<Rightarrow> job_notice list \<Rightarrow> sla_claim \<Rightarrow> bool" where
  "told_of e ty sent c \<longleftrightarrow> (\<exists>x \<in> set sent. jn_type x = ty \<and> (\<exists>i \<in> set (jn_userIds x). i \<in> set (claim_approvers (je_people e) c)))"

definition admin_told :: "job_env \<Rightarrow> job_notice list \<Rightarrow> sla_claim \<Rightarrow> bool" where
  "admin_told e sent c \<longleftrightarrow> (\<exists>x \<in> set sent. jn_type x = APPROVALS_ESCALATED
     \<and> (\<exists>i \<in> set (jn_userIds x). i \<in> set (org_admins (je_people e) (sc_companyId c))))"

lemma told_of_more: "told_of e ty a c \<Longrightarrow> told_of e ty (a @ b) c" "told_of e ty b c \<Longrightarrow> told_of e ty (a @ b) c"
  by (auto simp: told_of_def)

lemma admin_told_more: "admin_told e a c \<Longrightarrow> admin_told e (a @ b) c" "admin_told e b c \<Longrightarrow> admin_told e (a @ b) c"
  by (auto simp: admin_told_def)

text \<open>The two loops over the approvers have one shape.\<close>

fun tell_all :: "job_env \<Rightarrow> notice_type \<Rightarrow> (sla_claim list \<Rightarrow> notice_copy) \<Rightarrow> (uid \<times> sla_claim list) list
   \<Rightarrow> sla_claim list \<times> job_notice list" where
  "tell_all e ty copy [] = ([], [])"
| "tell_all e ty copy ((approverId, items) # rest) =
     (let (n, out) = notify e [approverId] ty (copy items); (told, outs) = tell_all e ty copy rest
      in ((if n > 0 then items @ told else told), out @ outs))"

lemma remind_all_tell: "remind_all e per = tell_all e APPROVALS_DUE_SOON (\<lambda>items. dueSoonCopy (length items)) per"
  by (induction per) (auto simp: case_prod_beta)

lemma tell_managers_tell: "tell_managers e per = tell_all e APPROVALS_OVERDUE
   (\<lambda>items. overdueCopy (length items) (je_sla e (case items of [] \<Rightarrow> None | i # _ \<Rightarrow> sc_companyId i))) per"
  by (induction per) (auto simp: case_prod_beta)

lemma tell_all_told:
  assumes "c \<in> set (fst (tell_all e ty copy per))"
    "\<And>i items. (i, items) \<in> set per \<Longrightarrow> c \<in> set items \<Longrightarrow> i \<in> set (claim_approvers (je_people e) c)"
  shows "told_of e ty (snd (tell_all e ty copy per)) c \<and> (\<exists>i items. (i, items) \<in> set per \<and> c \<in> set items)"
  using assms
proof (induction per)
  case (Cons p rest)
  obtain i items where p: "p = (i, items)" by (cases p)
  obtain n out where n: "notify e [i] ty (copy items) = (n, out)" by (cases "notify e [i] ty (copy items)")
  show ?case
  proof (cases "0 < n \<and> c \<in> set items")
    case True
    then obtain x where x: "out = [x]" "jn_type x = ty" "set (jn_userIds x) = active_ids (je_people e) [i]" "jn_userIds x \<noteq> []"
      using notify_sent [OF n] by blast
    then have "i \<in> set (jn_userIds x)" by (cases "jn_userIds x") (auto simp: active_ids_def)
    moreover have "i \<in> set (claim_approvers (je_people e) c)" using Cons.prems(2) True by (auto simp: p)
    ultimately have "told_of e ty out c" using x by (auto simp: told_of_def)
    then show ?thesis using n True told_of_more(1) by (auto simp: p case_prod_beta)
  next
    case False
    then have "c \<in> set (fst (tell_all e ty copy rest))" using Cons.prems(1) n by (auto simp: p case_prod_beta split: if_splits)
    then have "told_of e ty (snd (tell_all e ty copy rest)) c \<and> (\<exists>i items. (i, items) \<in> set rest \<and> c \<in> set items)"
      using Cons.prems(2) by (intro Cons.IH) (auto simp: p)
    then show ?thesis using n told_of_more(2) by (auto simp: p case_prod_beta)
  qed
qed simp

lemma tell_all_reaches:
  assumes "(i, items) \<in> set per" "c \<in> set items" "i \<in> active_ids (je_people e) [i]" "\<And>x. je_sends e x"
  shows "c \<in> set (fst (tell_all e ty copy per))"
  using assms(1)
proof (induction per)
  case (Cons p rest)
  show ?case
  proof (cases "p = (i, items)")
    case True
    then show ?thesis using notify_goes_out [of i e "[i]" ty "copy items"] assms(2-4) by (auto simp: case_prod_beta)
  next
    case False
    then show ?thesis using Cons by (cases p) (auto simp: case_prod_beta)
  qed
qed simp

lemma escalate_orgs_told:
  assumes "c \<in> set (fst (escalate_orgs e told per))"
    "\<And>k items. (k, items) \<in> set per \<Longrightarrow> c \<in> set items \<Longrightarrow> sc_companyId c = k"
  shows "(admin_told e (snd (escalate_orgs e told per)) c \<or> claim_ref c \<in> set told) \<and> (\<exists>k items. (k, items) \<in> set per \<and> c \<in> set items)"
  using assms
proof (induction per)
  case (Cons p rest)
  obtain k items where p: "p = (k, items)" by (cases p)
  let ?admins = "escalation_admins (je_people e) k items"
  let ?copy = "escalatedCopy (length items) (je_sla e k) (map (\<lambda>p. full_name (se_firstName p) (se_lastName p))
    (findAnyByIds (je_people e) (waiting_managers (je_people e) items)))"
  obtain n out where n: "notify e ?admins APPROVALS_ESCALATED ?copy = (n, out)" by (cases "notify e ?admins APPROVALS_ESCALATED ?copy")
  show ?case
  proof (cases "c \<in> set items \<and> (0 < n \<or> claim_ref c \<in> set told)")
    case True
    have "admin_told e out c" if pos: "0 < n"
    proof -
      obtain x where x: "out = [x]" "jn_type x = APPROVALS_ESCALATED" "set (jn_userIds x) = active_ids (je_people e) ?admins" "jn_userIds x \<noteq> []"
        using notify_sent [OF n pos] by blast
      then obtain i where "i \<in> set (jn_userIds x)" by (cases "jn_userIds x") auto
      moreover from this have "i \<in> set (org_admins (je_people e) (sc_companyId c))"
        using x(3) Cons.prems(2) True by (auto simp: p active_ids_def escalation_admins_def)
      ultimately show ?thesis using x by (auto simp: admin_told_def)
    qed
    then show ?thesis using n True admin_told_more(1) by (auto simp: p case_prod_beta)
  next
    case False
    then have "c \<in> set (fst (escalate_orgs e told rest))" using Cons.prems(1) n by (auto simp: p case_prod_beta split: if_splits)
    then have "(admin_told e (snd (escalate_orgs e told rest)) c \<or> claim_ref c \<in> set told) \<and> (\<exists>k items. (k, items) \<in> set rest \<and> c \<in> set items)"
      using Cons.prems(2) by (intro Cons.IH) (auto simp: p)
    then show ?thesis using n admin_told_more(2) by (auto simp: p case_prod_beta)
  qed
qed simp

text \<open>The pass up to its reminders, and the claims it finds.\<close>

definition filled_tables :: "job_env \<Rightarrow> away_db \<Rightarrow> away_db" where
  "filled_tables e d = snd (fillMissingDueAt (je_created e) (je_sla e None) d)"

definition reminder_claims :: "job_env \<Rightarrow> int \<Rightarrow> away_db \<Rightarrow> sla_claim list" where
  "reminder_claims e now d = remindersDue (je_facts e) now (ITEMS (je_created e) (filled_tables e d))"

text \<open>The tables once the reminders \<open>refs\<close> are marked, and the escalations that are due then.\<close>

definition reminded_tables :: "job_env \<Rightarrow> int \<Rightarrow> item_ref list \<Rightarrow> away_db \<Rightarrow> away_db" where
  "reminded_tables e now refs d = (if refs = [] then filled_tables e d else snd (markReminded refs now (filled_tables e d)))"

definition escalation_claims :: "job_env \<Rightarrow> int \<Rightarrow> item_ref list \<Rightarrow> away_db \<Rightarrow> sla_claim list" where
  "escalation_claims e now refs d = escalationsDue (je_facts e) now (ITEMS (je_created e) (reminded_tables e now refs d))"

lemma unique_refs_set: "set (unique_refs cs) = claim_ref ` set cs"
  by (simp add: unique_refs_def)

lemma reminded_told:
  assumes "c \<in> set (fst (remind_all e (perApprover (je_people e) claims)))"
  shows "c \<in> set claims \<and> told_of e APPROVALS_DUE_SOON (snd (remind_all e (perApprover (je_people e) claims))) c"
  using tell_all_told [of c e APPROVALS_DUE_SOON "\<lambda>items. dueSoonCopy (length items)" "perApprover (je_people e) claims"]
    perApprover_items assms
  unfolding remind_all_tell by blast

lemma escalated_told:
  assumes "c \<in> set (fst (escalate e cs))"
  shows "c \<in> set cs \<and> (admin_told e (snd (escalate e cs)) c
    \<or> (\<exists>c' \<in> set cs. claim_ref c' = claim_ref c \<and> told_of e APPROVALS_OVERDUE (snd (escalate e cs)) c'))"
proof -
  let ?per = "perApprover (je_people e) (filter (\<lambda>c. sc_approverRole c = Some MANAGER) cs)"
  obtain told out where t: "tell_managers e ?per = (told, out)" by (cases "tell_managers e ?per")
  obtain m outs where o: "escalate_orgs e (map claim_ref told) (by_org cs) = (m, outs)"
    by (cases "escalate_orgs e (map claim_ref told) (by_org cs)")
  have e: "escalate e cs = (m, out @ outs)" using t o by (simp add: escalate_def)
  have "(admin_told e outs c \<or> claim_ref c \<in> set (map claim_ref told)) \<and> (\<exists>k items. (k, items) \<in> set (by_org cs) \<and> c \<in> set items)"
    using escalate_orgs_told [of c e "map claim_ref told" "by_org cs"] assms o by_org_items by (auto simp: e)
  moreover have "c' \<in> set cs \<and> told_of e APPROVALS_OVERDUE out c'" if c': "c' \<in> set told" for c'
  proof -
    have m: "c' \<in> set (fst (tell_managers e ?per))" using t c' by simp
    have "told_of e APPROVALS_OVERDUE (snd (tell_managers e ?per)) c' \<and> (\<exists>i items. (i, items) \<in> set ?per \<and> c' \<in> set items)"
      using m unfolding tell_managers_tell by (rule tell_all_told) (blast dest: perApprover_items)
    then show ?thesis using t perApprover_items by fastforce
  qed
  ultimately show ?thesis
    using by_org_items admin_told_more(2) told_of_more(1) unfolding e fst_conv snd_conv set_map
    by (metis (no_types, lifting) imageE)
qed

lemma notify_fails: "\<forall>x. \<not> je_sends e x \<Longrightarrow> notify e ids ty copy = (0, [])"
  by (simp add: notify_def Let_def)

lemma nothing_told:
  assumes "\<forall>x. \<not> je_sends e x"
  shows "tell_all e ty copy per = ([], [])" "escalate_orgs e [] per2 = ([], [])" "escalate e cs = ([], [])"
proof -
  show t: "tell_all e ty copy per = ([], [])" for ty copy per
    by (induction per) (auto simp: notify_fails [OF assms])
  show o: "escalate_orgs e [] per2 = ([], [])" for per2
    by (induction per2) (auto simp: notify_fails [OF assms])
  show "escalate e cs = ([], [])" by (simp add: escalate_def tell_managers_tell t o)
qed

lemma unique_refs_Nil [simp]: "unique_refs cs = [] \<longleftrightarrow> cs = []"
  using unique_refs_set [of cs] by (cases cs) auto

text \<open>C13: the reminder pass marks only what it told, and reaches whoever can be reached. The lists
  \<open>tk_reminded\<close> and \<open>tk_escalated\<close> are outputs of the model, exactly what the tables get marked. An item marked
  reminded is a claim that was due and one of its approvers is among the recipients of a due-soon
  notice that went out; an item marked escalated is a claim that was overdue after the reminders, and an admin of its
  person's organisation got the escalation, or one of its approvers heard it is overdue. When publishing
  succeeds, every due reminder with an active approver is marked; when it fails, nothing is marked but the
  due times filled in, so the next pass tries again.\<close>

theorem pass_marks_what_it_told:
  assumes "tick e now d = (res, d')"
  shows "(\<forall>r \<in> set (tk_reminded res). \<exists>c \<in> set (reminder_claims e now d).
            claim_ref c = r \<and> told_of e APPROVALS_DUE_SOON (tk_sent res) c)
    \<and> (\<forall>r \<in> set (tk_escalated res). \<exists>c \<in> set (escalation_claims e now (tk_reminded res) d). claim_ref c = r
            \<and> (admin_told e (tk_sent res) c \<or> told_of e APPROVALS_OVERDUE (tk_sent res) c))
    \<and> ((\<forall>x. je_sends e x) \<longrightarrow> (\<forall>c \<in> set (reminder_claims e now d). \<forall>i \<in> set (claim_approvers (je_people e) c).
            i \<in> active_ids (je_people e) [i] \<longrightarrow> claim_ref c \<in> set (tk_reminded res)))
    \<and> d' = (if tk_escalated res = [] then reminded_tables e now (tk_reminded res) d
            else snd (markEscalated (tk_escalated res) now (reminded_tables e now (tk_reminded res) d)))
    \<and> ((\<forall>x. \<not> je_sends e x) \<longrightarrow> tk_sent res = [] \<and> tk_reminded res = [] \<and> tk_escalated res = [] \<and> d' = filled_tables e d)"
proof -
  let ?per = "perApprover (je_people e) (reminder_claims e now d)" and ?d1 = "filled_tables e d"
  obtain rem out1 where r: "remind_all e ?per = (rem, out1)" by (cases "remind_all e ?per")
  define d2 where "d2 = (if rem = [] then ?d1 else snd (markReminded (unique_refs rem) now ?d1))"
  define cs where "cs = escalationsDue (je_facts e) now (ITEMS (je_created e) d2)"
  obtain esc out2 where x: "escalate e cs = (esc, out2)" by (cases "escalate e cs")
  have t: "res = \<lparr>tk_sent = out1 @ out2, tk_reminded = unique_refs rem, tk_escalated = unique_refs esc\<rparr>"
    "d' = (if esc = [] then d2 else snd (markEscalated (unique_refs esc) now d2))"
    using assms r x unfolding tick_def d2_def cs_def filled_tables_def reminder_claims_def by (auto simp: Let_def)
  have d2: "d2 = reminded_tables e now (tk_reminded res) d" by (simp add: d2_def t reminded_tables_def)
  have cs: "cs = escalation_claims e now (tk_reminded res) d" by (simp add: cs_def d2 escalation_claims_def)
  show ?thesis
  proof (intro conjI ballI impI)
    show "d' = (if tk_escalated res = [] then reminded_tables e now (tk_reminded res) d
            else snd (markEscalated (tk_escalated res) now (reminded_tables e now (tk_reminded res) d)))"
      by (simp add: t(2) d2 [symmetric]) (simp add: t(1))
  next
    fix q assume "q \<in> set (tk_reminded res)"
    then obtain c where "c \<in> set rem" "claim_ref c = q" by (auto simp: t unique_refs_set)
    then show "\<exists>c \<in> set (reminder_claims e now d). claim_ref c = q \<and> told_of e APPROVALS_DUE_SOON (tk_sent res) c"
      using reminded_told [of c e "reminder_claims e now d"] r told_of_more(1) by (auto simp: t)
  next
    fix q assume "q \<in> set (tk_escalated res)"
    then obtain c where "c \<in> set esc" "claim_ref c = q" by (auto simp: t unique_refs_set)
    then show "\<exists>c \<in> set (escalation_claims e now (tk_reminded res) d). claim_ref c = q
        \<and> (admin_told e (tk_sent res) c \<or> told_of e APPROVALS_OVERDUE (tk_sent res) c)"
      using escalated_told [of c e cs] x told_of_more(2) admin_told_more(2) unfolding cs [symmetric] by (auto simp: t(1))
  next
    fix c i assume "\<forall>x. je_sends e x" "c \<in> set (reminder_claims e now d)" "i \<in> set (claim_approvers (je_people e) c)"
      "i \<in> active_ids (je_people e) [i]"
    then have "c \<in> set (fst (remind_all e ?per))"
      unfolding remind_all_tell using perApprover_has tell_all_reaches by blast
    then show "claim_ref c \<in> set (tk_reminded res)" using r by (simp add: t unique_refs_set)
  next
    assume f: "\<forall>x. \<not> je_sends e x"
    have "rem = []" "out1 = []" "esc = []" "out2 = []"
      using r x nothing_told [OF f] unfolding remind_all_tell by auto
    then show "tk_sent res = []" "tk_reminded res = []" "tk_escalated res = []" "d' = ?d1"
      by (simp_all add: t d2_def unique_refs_def)
  qed
qed

section \<open>The digest counts what waits\<close>

















section \<open>A waiting request and its manager\<close>

definition sample_lead_entry :: user_entry where
  "sample_lead_entry = sample_left\<lparr>ue_facts := \<lparr>pf_id = 1, pf_role = MANAGER, pf_companyId = Some 7, pf_departmentId = None\<rparr>,
     ue_statusActive := True\<rparr>"

definition sample_jobs :: job_env where
  "sample_jobs = \<lparr>je_people = sample_reader\<lparr>rd_users := [sample_lead_entry],
       rd_departments := [\<lparr>de_id = 3, de_companyId = 7, de_name = ''Sales'', de_icon = [], de_deleted = False\<rparr>], rd_managed := [(1, 3)]\<rparr>,
     je_facts = en_facts sample_env, je_created = en_created sample_env, je_sla = (\<lambda>_. 48), je_sends = (\<lambda>_. True)\<rparr>"

lemma sample_jobs_people:
  "dept_managers (je_people sample_jobs) (Some 3) = [1]" "1 \<in> active_ids (je_people sample_jobs) [1]"
  "of_people (je_facts sample_jobs) 2 = Some (sample_staff\<lparr>pf_id := 2\<rparr>)"
  by (simp_all add: sample_jobs_def dept_managers_def listDepartmentManagerIds_def department_live_def active_entry_def
      sample_lead_entry_def sample_left_def active_ids_def sample_env_def)


theorem pass_marks_what_it_told_witness:
  "(AwayItem, 0) \<in> set (tk_reminded (fst (tick sample_jobs 0 waiting_db)))"
proof -
  let ?c = "\<lparr>sc_type = AwayItem, sc_id = 0, sc_userId = 2, sc_approverId = None, sc_approverRole = Some MANAGER,
    sc_companyId = Some 7, sc_departmentId = Some 3\<rparr>"
  have i: "ITEMS (je_created sample_jobs) (filled_tables sample_jobs waiting_db) = [waiting_item]"
    by (simp add: Let_def filled_tables_def fillMissingDueAt_def map_tables_def ITEMS_def waiting_tables empty_db_def List.map_filter_simps
        away_item_def waiting_row_def sample_env_def sample_jobs_def sql_away_category_def filled_def)
  have c: "?c \<in> set (reminder_claims sample_jobs 0 waiting_db)"
    using sample_jobs_people(3)
    by (simp add: DUE_SOON_MS_def reminder_claims_def i remindersDue_def slaCandidates_def SLA_TABLES_def sla_hit_def sla_mark_def sla_window_def holds_of_def
        List.map_filter_simps claim_of_def sample_staff_def)
  have a: "1 \<in> set (claim_approvers (je_people sample_jobs) ?c)"
    using sample_jobs_people(1) by (simp add: claim_approvers_def approvers_def Let_def)
  have s: "\<forall>x. je_sends sample_jobs x" by (simp add: sample_jobs_def)
  have "claim_ref ?c \<in> set (tk_reminded (fst (tick sample_jobs 0 waiting_db)))"
    using pass_marks_what_it_told [OF prod.collapse [symmetric], of sample_jobs 0 waiting_db] c a s sample_jobs_people(2) by blast
  then show ?thesis by simp
qed

end
