(* ===== verification/Reminders.thy ===== *)
theory Reminders
  imports Jobs
begin

text \<open>
  What happens to the marks of the reminder pass (\<open>src/src/modules/worktime/application/jobs/worktime.jobs.ts\<close>) over a
  history: the tables of breaks, meetings and away time change by the operations of the other theories and by
  further passes, and an item that was marked and has waited ever since is not marked, or told of, again.

  No definition here models code: they say what the history is and what it keeps.
\<close>

section \<open>The marks of the rows\<close>

text \<open>Every row that can be an item: its reference, whether it waits, and its clock.\<close>

type_synonym mark_row = "item_ref \<times> bool \<times> pending_clock"

definition break_marks :: "break_row list \<Rightarrow> mark_row list" where
  "break_marks rows = map (\<lambda>b. ((BreakItem, br_id b), br_approvalStatus b = Pending, br_clock b)) rows"

definition meeting_marks :: "meeting_row list \<Rightarrow> mark_row list" where
  "meeting_marks rows = map (\<lambda>m. ((MeetingItem, mr_id m), mr_approvalStatus m = Pending, mr_clock m)) rows"

definition away_marks :: "away_row list \<Rightarrow> mark_row list" where
  "away_marks rows = map (\<lambda>w. ((AwayItem, ay_id w), ay_status w = AwPending, ay_clock w)) rows"

definition marks :: "away_db \<Rightarrow> mark_row list" where
  "marks d = break_marks (db_breaks (aw_tables d)) @ meeting_marks (md_meetings (aw_meet d)) @ away_marks (aw_rows d)"

lemmas marks_defs = break_marks_def meeting_marks_def away_marks_def

definition waits :: "item_ref \<Rightarrow> away_db \<Rightarrow> bool" where
  "waits r d \<longleftrightarrow> (\<exists>c. (r, True, c) \<in> set (marks d))"

definition quiet :: "sla_column \<Rightarrow> item_ref \<Rightarrow> away_db \<Rightarrow> bool" where
  "quiet col r d \<longleftrightarrow> (\<forall>c. (r, True, c) \<in> set (marks d) \<longrightarrow> \<not> unmarked col c)"

definition more_marked :: "pending_clock \<Rightarrow> pending_clock \<Rightarrow> bool" where
  "more_marked c c' \<longleftrightarrow> (\<forall>col. unmarked col c' \<longrightarrow> unmarked col c)"

lemma more_marked_refl [simp]: "more_marked c c"
  by (simp add: more_marked_def)

text \<open>A row that waits afterwards was there, and kept its marks if it waited, or is new.\<close>

definition kept :: "mark_row list \<Rightarrow> mark_row list \<Rightarrow> bool" where
  "kept xs ys \<longleftrightarrow> (\<forall>r c'. (r, True, c') \<in> set ys \<longrightarrow>
     (\<exists>p c. (r, p, c) \<in> set xs \<and> (p \<longrightarrow> more_marked c c')) \<or> r \<notin> fst ` set xs)"

text \<open>A row that waits afterwards waited before.\<close>

definition calm :: "mark_row list \<Rightarrow> mark_row list \<Rightarrow> bool" where
  "calm xs ys \<longleftrightarrow> (\<forall>r c'. (r, True, c') \<in> set ys \<longrightarrow> (\<exists>c. (r, True, c) \<in> set xs \<and> more_marked c c'))"

lemma calm_kept: "calm xs ys \<Longrightarrow> kept xs ys"
  unfolding calm_def kept_def by blast

lemma calm_refl [simp]: "calm xs xs"
  unfolding calm_def using more_marked_refl by blast

lemma calm_trans: "calm xs ys \<Longrightarrow> calm ys zs \<Longrightarrow> calm xs zs"
  unfolding calm_def more_marked_def by meson

lemma kept_calm: "kept xs ys \<Longrightarrow> calm ys zs \<Longrightarrow> kept xs zs"
  unfolding calm_def kept_def more_marked_def by meson

lemma calm_subset: "set ys \<subseteq> set xs \<Longrightarrow> calm xs ys"
  unfolding calm_def using more_marked_refl by blast

lemma calm_map:
  assumes "\<And>x. x \<in> set xs \<Longrightarrow> fst (f x) = fst x \<and> (fst (snd (f x)) \<longrightarrow> fst (snd x) \<and> more_marked (snd (snd x)) (snd (snd (f x))))"
  shows "calm xs (map f xs)"
  unfolding calm_def
proof (intro allI impI)
  fix r c' assume "(r, True, c') \<in> set (map f xs)"
  then obtain x where x: "x \<in> set xs" "f x = (r, True, c')" by auto
  obtain r0 p c where "x = (r0, p, c)" by (cases x)
  then show "\<exists>c. (r, True, c) \<in> set xs \<and> more_marked c c'" using x assms [OF x(1)] by auto
qed

lemma calm_append: "calm a a' \<Longrightarrow> calm b b' \<Longrightarrow> calm (a @ b) (a' @ b')"
  unfolding calm_def set_append by blast

text \<open>The three tables have references of their own.\<close>

lemma kept_tables:
  assumes "kept (break_marks b) (break_marks b')" "kept (meeting_marks m) (meeting_marks m')" "kept (away_marks w) (away_marks w')"
  shows "kept (break_marks b @ meeting_marks m @ away_marks w) (break_marks b' @ meeting_marks m' @ away_marks w')"
  unfolding kept_def
proof (intro allI impI)
  fix r c' assume "(r, True, c') \<in> set (break_marks b' @ meeting_marks m' @ away_marks w')"
  then consider "(r, True, c') \<in> set (break_marks b')" "fst r = BreakItem"
    | "(r, True, c') \<in> set (meeting_marks m')" "fst r = MeetingItem" | "(r, True, c') \<in> set (away_marks w')" "fst r = AwayItem"
    by (auto simp: marks_defs)
  then show "(\<exists>p c. (r, p, c) \<in> set (break_marks b @ meeting_marks m @ away_marks w) \<and> (p \<longrightarrow> more_marked c c'))
      \<or> r \<notin> fst ` set (break_marks b @ meeting_marks m @ away_marks w)"
  proof cases
    case 1
    then have "r \<notin> fst ` set (meeting_marks m @ away_marks w)" by (auto simp: marks_defs)
    then show ?thesis using 1 assms(1) unfolding kept_def set_append image_Un by blast
  next
    case 2
    then have "r \<notin> fst ` set (break_marks b @ away_marks w)" by (auto simp: marks_defs)
    then show ?thesis using 2 assms(2) unfolding kept_def set_append image_Un by blast
  next
    case 3
    then have "r \<notin> fst ` set (break_marks b @ meeting_marks m)" by (auto simp: marks_defs)
    then show ?thesis using 3 assms(3) unfolding kept_def set_append image_Un by blast
  qed
qed

lemma kept_new:
  assumes "r \<notin> fst ` set xs"
  shows "kept xs (xs @ [(r, p, c)])"
  using assms calm_kept [OF calm_refl, of xs] unfolding kept_def by auto

text \<open>What one step does to an item that waits when it is taken.\<close>

lemma quiet_kept:
  assumes "kept (marks d) (marks d')" "distinct (map fst (marks d))" "waits r d" "quiet col r d"
  shows "quiet col r d'"
  unfolding quiet_def
proof (intro allI impI)
  fix c' assume n: "(r, True, c') \<in> set (marks d')"
  obtain c0 where c0: "(r, True, c0) \<in> set (marks d)" using assms(3) by (auto simp: waits_def)
  then have "r \<in> fst ` set (marks d)" by force
  then obtain p c where c: "(r, p, c) \<in> set (marks d)" "p \<longrightarrow> more_marked c c'" using assms(1) n unfolding kept_def by blast
  have "(p, c) = (True, c0)" using eq_key_imp_eq_value [OF assms(2) c(1) c0] .
  then show "\<not> unmarked col c'" using assms(4) c c0 by (auto simp: quiet_def more_marked_def)
qed

section \<open>The passes\<close>

lemma marks_map_tables:
  assumes "\<And>b. br_id (fb b) = br_id b \<and> br_approvalStatus (fb b) = br_approvalStatus b \<and> br_clock (fb b) = g (BreakItem, br_id b) (br_approvalStatus b = Pending) (br_clock b)"
    and "\<And>m. mr_id (fm m) = mr_id m \<and> mr_approvalStatus (fm m) = mr_approvalStatus m \<and> mr_clock (fm m) = g (MeetingItem, mr_id m) (mr_approvalStatus m = Pending) (mr_clock m)"
    and "\<And>w. ay_id (fw w) = ay_id w \<and> ay_status (fw w) = ay_status w \<and> ay_clock (fw w) = g (AwayItem, ay_id w) (ay_status w = AwPending) (ay_clock w)"
  shows "marks (map_tables fb fm fw d) = map (\<lambda>(r, p, c). (r, p, g r p c)) (marks d)"
  using assms by (simp add: marks_def marks_defs comp_def)

lemma marks_markSla:
  "marks (snd (markSla refs now col d)) = map (\<lambda>(r, p, c). (r, p, if r \<in> set refs then marked col now c else c)) (marks d)"
  unfolding markSla_def Let_def snd_conv
  by (rule marks_map_tables [where g = "\<lambda>r p c. if r \<in> set refs then marked col now c else c"]) (auto simp: ids_of_iff)

lemma marks_filled:
  "marks (filled_tables e d) = map (\<lambda>(r, p, c). (r, p, if p then filled (je_created e (fst r) (snd r)) (je_sla e None) c else c)) (marks d)"
  unfolding filled_tables_def fillMissingDueAt_def snd_conv
  by (rule marks_map_tables [where g = "\<lambda>r p c. if p then filled (je_created e (fst r) (snd r)) (je_sla e None) c else c"]) auto

lemma more_marked_sets [simp]: "more_marked c (marked col now c)" "more_marked c (filled t h c)"
  by (auto simp: more_marked_def marked_def unmarked_def filled_def split: sla_column.split)

lemma calm_markSla: "calm (marks d) (marks (snd (markSla refs now col d)))"
  unfolding marks_markSla by (rule calm_map) (auto split: prod.split)

lemma calm_filled: "calm (marks d) (marks (filled_tables e d))"
  unfolding marks_filled by (rule calm_map) (auto split: prod.split)

lemma marked_is_quiet: "r \<in> set refs \<Longrightarrow> quiet col r (snd (markSla refs now col d))"
  by (auto simp: quiet_def marks_markSla marked_def unmarked_def split: sla_column.splits)

text \<open>A claim is a row that waits without the mark.\<close>

lemma item_marks:
  assumes "a \<in> set (ITEMS created d)" "sla_hit col now a"
  shows "\<exists>c. (ref_of a, True, c) \<in> set (marks d) \<and> unmarked col c"
proof -
  have h: "it_status a = Pending" "sla_mark col a = None" using assms(2) by (simp_all add: sla_hit_def)
  have w: "w = AwPending" if "away_decided w = Some Pending" for w using that by (cases w) auto
  consider b where "b \<in> set (db_breaks (aw_tables d))" "a = break_item created b"
    | m where "m \<in> set (md_meetings (aw_meet d))" "a = meeting_item created m"
    | w where "w \<in> set (aw_rows d)" "away_item created w = Some a"
    using assms(1) by (auto simp: ITEMS_def map_filter_set)
  then show ?thesis
  proof cases
    case 1
    then have "(ref_of a, True, br_clock b) \<in> set (marks d)" using h(1) by (force simp: marks_def marks_defs ref_of_def break_item_def)
    then show ?thesis using 1 h(2) by (intro exI conjI) (auto simp: unmarked_def sla_mark_def break_item_def split: sla_column.splits)
  next
    case 2
    then have "(ref_of a, True, mr_clock m) \<in> set (marks d)" using h(1) by (force simp: marks_def marks_defs ref_of_def meeting_item_def)
    then show ?thesis using 2 h(2) by (intro exI conjI) (auto simp: unmarked_def sla_mark_def meeting_item_def split: sla_column.splits)
  next
    case 3
    then have s: "ay_status w = AwPending" "ref_of a = (AwayItem, ay_id w)" using h(1) w by (auto simp: away_item_def ref_of_def split: option.splits)
    then have "(ref_of a, True, ay_clock w) \<in> set (marks d)" using 3(1) by (force simp: marks_def marks_defs)
    then show ?thesis using 3 h(2) by (intro exI conjI) (auto simp: unmarked_def sla_mark_def away_item_def split: sla_column.splits option.splits)
  qed
qed

lemma claim_not_quiet:
  assumes "c \<in> set (slaCandidates f now col (ITEMS created d))"
  shows "\<not> quiet col (claim_ref c) d"
  using candidate_item [OF assms] item_marks by (fastforce simp: quiet_def)

text \<open>The pass in its three parts.\<close>

lemma tick_parts:
  obtains rem esc where
    "unique_refs rem = tk_reminded (fst (tick e now d))" "unique_refs esc = tk_escalated (fst (tick e now d))"
    "set rem \<subseteq> set (reminder_claims e now d)" "set esc \<subseteq> set (escalation_claims e now (unique_refs rem) d)"
    "snd (tick e now d) = (if unique_refs esc = [] then reminded_tables e now (unique_refs rem) d
       else snd (markEscalated (unique_refs esc) now (reminded_tables e now (unique_refs rem) d)))"
proof -
  let ?per = "perApprover (je_people e) (reminder_claims e now d)"
  obtain rem out1 where r: "remind_all e ?per = (rem, out1)" by (cases "remind_all e ?per")
  define cs where "cs = escalation_claims e now (unique_refs rem) d"
  obtain esc out2 where x: "escalate e cs = (esc, out2)" by (cases "escalate e cs")
  have t: "tick e now d = (\<lparr>tk_sent = out1 @ out2, tk_reminded = unique_refs rem, tk_escalated = unique_refs esc\<rparr>,
      if unique_refs esc = [] then reminded_tables e now (unique_refs rem) d
      else snd (markEscalated (unique_refs esc) now (reminded_tables e now (unique_refs rem) d)))"
    using r x unfolding tick_def cs_def escalation_claims_def reminder_claims_def reminded_tables_def
    by (simp add: Let_def filled_tables_def [symmetric])
  show ?thesis
  proof (rule that [of rem esc])
    show "set rem \<subseteq> set (reminder_claims e now d)" using reminded_told [of _ e "reminder_claims e now d"] r by auto
    show "set esc \<subseteq> set (escalation_claims e now (unique_refs rem) d)" using escalated_told [of _ e cs] x by (auto simp: cs_def)
  qed (simp_all add: t)
qed

lemma calm_reminded: "calm (marks d) (marks (reminded_tables e now refs d))"
  using calm_filled calm_trans [OF calm_filled calm_markSla] by (simp add: reminded_tables_def markReminded_def)

lemma tick_calm: "calm (marks d) (marks (snd (tick e now d)))"
proof (cases rule: tick_parts [of e now d])
  case (1 rem esc)
  show ?thesis unfolding 1(5) using calm_reminded calm_trans [OF calm_reminded calm_markSla] by (simp add: markEscalated_def)
qed

lemma quiet_calm: "calm (marks d) (marks d') \<Longrightarrow> quiet col r d \<Longrightarrow> quiet col r d'"
  unfolding calm_def quiet_def more_marked_def by meson

text \<open>A pass leaves what it marked quiet, and marks nothing that is quiet already.\<close>

lemma tick_quiet:
  "(r \<in> set (tk_reminded (fst (tick e now d))) \<longrightarrow> quiet RemindedAt r (snd (tick e now d)))
   \<and> (r \<in> set (tk_escalated (fst (tick e now d))) \<longrightarrow> quiet EscalatedAt r (snd (tick e now d)))"
proof (cases rule: tick_parts [of e now d])
  case (1 rem esc)
  let ?d2 = "reminded_tables e now (unique_refs rem) d"
  have "quiet RemindedAt r ?d2" if "r \<in> set (unique_refs rem)"
    using that marked_is_quiet [of r "unique_refs rem" RemindedAt] by (auto simp: reminded_tables_def markReminded_def simp del: unique_refs_Nil)
  moreover have "quiet EscalatedAt r (snd (tick e now d))" if r: "r \<in> set (unique_refs esc)"
  proof -
    have "unique_refs esc \<noteq> []" using r by force
    then show ?thesis unfolding 1(5) markEscalated_def using marked_is_quiet [OF r] by (simp only: if_False)
  qed
  moreover have "calm (marks ?d2) (marks (snd (tick e now d)))"
    unfolding 1(5) using calm_markSla by (simp add: markEscalated_def)
  ultimately show ?thesis unfolding 1(1,2) [symmetric] using quiet_calm by blast
qed

lemma quiet_not_marked:
  "(quiet RemindedAt r d \<longrightarrow> r \<notin> set (tk_reminded (fst (tick e now d))))
   \<and> (quiet EscalatedAt r d \<longrightarrow> r \<notin> set (tk_escalated (fst (tick e now d))))"
proof (cases rule: tick_parts [of e now d])
  case (1 rem esc)
  have "\<not> quiet RemindedAt (claim_ref c) d" if "c \<in> set rem" for c
  proof -
    have "c \<in> set (slaCandidates (je_facts e) now RemindedAt (ITEMS (je_created e) (filled_tables e d)))"
      using that 1(3) by (auto simp: reminder_claims_def remindersDue_def)
    then show ?thesis using claim_not_quiet quiet_calm [OF calm_filled] by blast
  qed
  moreover have "\<not> quiet EscalatedAt (claim_ref c) d" if "c \<in> set esc" for c
  proof -
    have "c \<in> set (slaCandidates (je_facts e) now EscalatedAt (ITEMS (je_created e) (reminded_tables e now (unique_refs rem) d)))"
      using that 1(4) by (auto simp: escalation_claims_def escalationsDue_def)
    then show ?thesis using claim_not_quiet quiet_calm [OF calm_reminded] by blast
  qed
  ultimately show ?thesis unfolding 1(1,2) [symmetric] unique_refs_set by blast
qed

section \<open>The other operations\<close>

text \<open>No caller decides a waiting item and leaves it waiting: decisions expect it to wait and give a decided status, reopening
  expects a decided one. A decision that did so would restart the clock of a waiting item.\<close>

definition restarts_waiting :: "meet_db \<Rightarrow> meet_db \<Rightarrow> bool" where
  "restarts_waiting m m' \<longleftrightarrow>
     (\<exists>i expected dc clk. dc_status dc = Pending \<and> Pending \<in> set expected
        \<and> (m' = snd (decide_meeting i expected dc clk m)
           \<or> m' = m\<lparr>md_work := (md_work m)\<lparr>wd_tables := snd (decide i expected dc clk (shared_tables (md_work m)))\<rparr>\<rparr>))"

lemma breaks_kept: "clock_kept db rows \<Longrightarrow> kept (break_marks (db_breaks db)) (break_marks rows)"
  unfolding clock_kept_def kept_def
proof (intro allI impI)
  fix r c' assume k: "\<forall>b' \<in> set rows. (\<exists>b \<in> set (db_breaks db). br_id b = br_id b' \<and> (br_approvalStatus b = Pending \<longrightarrow> br_clock b' = br_clock b))
      \<or> br_id b' \<notin> br_id ` set (db_breaks db)" and "(r, True, c') \<in> set (break_marks rows)"
  then obtain b' where b': "b' \<in> set rows" "r = (BreakItem, br_id b')" "c' = br_clock b'" by (auto simp: break_marks_def)
  from k b'(1) show "(\<exists>p c. (r, p, c) \<in> set (break_marks (db_breaks db)) \<and> (p \<longrightarrow> more_marked c c')) \<or> r \<notin> fst ` set (break_marks (db_breaks db))"
  proof (elim ballE disjE bexE conjE)
    fix b assume b: "b \<in> set (db_breaks db)" "br_id b = br_id b'" "br_approvalStatus b = Pending \<longrightarrow> br_clock b' = br_clock b"
    have "((BreakItem, br_id b), br_approvalStatus b = Pending, br_clock b) \<in> set (break_marks (db_breaks db))"
      using b(1) by (simp add: break_marks_def)
    then have "(r, br_approvalStatus b = Pending, br_clock b) \<in> set (break_marks (db_breaks db))" by (simp add: b(2) b'(2))
    moreover have "br_approvalStatus b = Pending \<longrightarrow> more_marked (br_clock b) c'" using b(3) by (simp add: b'(3))
    ultimately show ?thesis by blast
  qed (use b' in \<open>auto simp: break_marks_def\<close>)
qed

lemma mark_days_breaks [simp]: "db_breaks (mark_days u ds t db) = db_breaks db"
  by (induction u ds t db rule: mark_days.induct) (simp_all add: markDayEnded_def split: option.split)

lemma day_breaks [simp]:
  "db_breaks (snd (markDayEnded u d t db)) = db_breaks db" "db_breaks (clear_day_end u d db) = db_breaks db"
  "db_breaks (closeOpenPresence u t db) = db_breaks db"
  by (simp_all add: markDayEnded_def clear_day_end_def closeOpenPresence_def split: option.split)

lemma day_operations_breaks:
  "db_breaks (wd_tables (snd (startDay u startedAt now src dayOf tz w))) = db_breaks (wd_tables w)"
  "db_breaks (wd_tables (snd (endDay u now today legacy since tz w))) = db_breaks (wd_tables w)"
  "db_breaks (wd_tables (snd (openImplicit u at today clk w))) = db_breaks (wd_tables w)"
  "db_breaks (wd_tables (snd (extendAutoClosed latestEnd u at w))) = db_breaks (wd_tables w)"
  "set (db_breaks (wd_tables (snd (autoClose s t w)))) \<subseteq> set (db_breaks (wd_tables w))"
proof -
  show "db_breaks (wd_tables (snd (startDay u startedAt now src dayOf tz w))) = db_breaks (wd_tables w)"
    by (simp add: startDay_def Let_def case_prod_unfold on_tables_def createSession_tables split: option.split)
  show "db_breaks (wd_tables (snd (endDay u now today legacy since tz w))) = db_breaks (wd_tables w)"
    by (simp add: endDay_def Let_def case_prod_unfold on_tables_def update_session_def split: option.split)
  show "db_breaks (wd_tables (snd (openImplicit u at today clk w))) = db_breaks (wd_tables w)"
    by (simp add: openImplicit_def case_prod_unfold)
  show "db_breaks (wd_tables (snd (extendAutoClosed latestEnd u at w))) = db_breaks (wd_tables w)"
    by (simp add: extendAutoClosed_def extendAutoClosed_tx_def on_tables_def update_session_def split: option.split)
  show "set (db_breaks (wd_tables (snd (autoClose s t w)))) \<subseteq> set (db_breaks (wd_tables w))"
    by (auto simp: autoClose_def Let_def case_prod_unfold update_session_def split: option.split)
qed

lemma shared_tables_breaks [simp]: "db_breaks (shared_tables w) = db_breaks (wd_tables w)"
  by (simp add: shared_tables_def)

lemma work_marks_kept:
  assumes "work_step (md_work m) w" "work_ok (md_work m)" "\<not> restarts_waiting m (m\<lparr>md_work := w\<rparr>)"
  shows "kept (break_marks (db_breaks (md_tables m))) (break_marks (db_breaks (wd_tables w)))"
  using assms(1)
proof (cases rule: work_step.cases)
  case (on_break db)
  have "clock_kept (shared_tables (md_work m)) (db_breaks db)"
    by (rule break_step_clock [OF shared_tables_ok [OF assms(2)] on_break(2)]) (use assms(3) on_break(1) in \<open>auto simp: restarts_waiting_def\<close>)
  then show ?thesis using breaks_kept on_break(1) by force
next
  case (day_missed s closeAt)
  have "set (break_marks (db_breaks (wd_tables w))) \<subseteq> set (break_marks (db_breaks (md_tables m)))"
    using day_operations_breaks(5) day_missed(1) unfolding break_marks_def by fastforce
  then show ?thesis by (intro calm_kept calm_subset)
qed (simp_all add: day_operations_breaks calm_kept)

lemma meeting_map_kept:
  assumes "\<And>m. m \<in> set ms \<Longrightarrow> mr_id (f m) = mr_id m \<and> (mr_approvalStatus (f m) = Pending \<longrightarrow> mr_approvalStatus m = Pending \<longrightarrow> mr_clock (f m) = mr_clock m)"
  shows "kept (meeting_marks ms) (meeting_marks (map f ms))"
  unfolding kept_def
proof (intro allI impI disjI1)
  fix r c' assume "(r, True, c') \<in> set (meeting_marks (map f ms))"
  then obtain m where m: "m \<in> set ms" "r = (MeetingItem, mr_id (f m))" "mr_approvalStatus (f m) = Pending" "c' = mr_clock (f m)"
    by (auto simp: meeting_marks_def)
  have "(r, mr_approvalStatus m = Pending, mr_clock m) \<in> set (meeting_marks ms)" using m assms by (auto simp: meeting_marks_def)
  moreover have "mr_approvalStatus m = Pending \<longrightarrow> more_marked (mr_clock m) c'" using m assms [OF m(1)] by simp
  ultimately show "\<exists>p c. (r, p, c) \<in> set (meeting_marks ms) \<and> (p \<longrightarrow> more_marked c c')" by blast
qed

lemma meeting_append_kept:
  assumes "mr_id m \<notin> mr_id ` set ms"
  shows "kept (meeting_marks ms) (meeting_marks (ms @ [m]))"
proof -
  have "(MeetingItem, mr_id m) \<notin> fst ` set (meeting_marks ms)" using assms by (auto simp: meeting_marks_def)
  from kept_new [OF this] show ?thesis by (simp add: meeting_marks_def)
qed

lemma marks_kept_refl [simp]: "kept xs xs"
  by (rule calm_kept) simp

lemma ended_as_kept: "mr_id (ended_as e m) = mr_id m \<and> (mr_approvalStatus (ended_as e m) = Pending \<longrightarrow> mr_clock (ended_as e m) = mr_clock m)"
  by (simp add: ended_as_def discard_def Let_def)

lemma startLive_kept:
  assumes "meet_ok m"
  shows "db_breaks (md_tables (snd (startLive n generation now today tz clk m))) = db_breaks (md_tables m)
    \<and> kept (meeting_marks (md_meetings m)) (meeting_marks (md_meetings (snd (startLive n generation now today tz clk m))))"
proof -
  obtain res m' where e: "startLive n generation now today tz clk m = (res, m')" by fastforce
  have fresh: "md_nextId m \<notin> mr_id ` set (md_meetings m)" using assms by (auto simp: meet_ok_def)
  from startLive_cases [OF e] show ?thesis
  proof (elim disjE exE conjE)
    fix s :: work_session and b :: bool and w1 :: work_db and row :: meeting_row
    let ?u = "nm_userId n"
    let ?mk = "new_row n (wk_date s) LiveMeeting now None None (Some (db_nextId (wd_tables w1)))
      (clockFor (nm_approvalStatus n) clk now (db_sla (md_tables m) ?u))"
    assume w: "(case findOpen (md_work m) ?u of None \<Rightarrow> ensureOpenTx ?u generation now today (md_work m)
        | Some s \<Rightarrow> (DayIsOpen s False, md_work m)) = (DayIsOpen s b, w1)"
      and c: "create_meeting ?mk (m\<lparr>md_work := w1\<lparr>wd_tables := snd (create_session ?u PMeeting (dateKeyInZone now tz) now (wd_tables w1))\<rparr>\<rparr>) = (row, m')"
    have t: "wd_tables w1 = md_tables m"
    proof (cases "findOpen (md_work m) ?u")
      case None
      then show ?thesis using w ensureOpenTx_tables [of ?u generation now today "md_work m"] by simp
    qed (use w in simp)
    have "md_meetings m' = md_meetings m @ [?mk (md_nextId m)]" "db_breaks (md_tables m') = db_breaks (md_tables m)"
      using c by (auto simp: create_meeting_def Let_def t)
    moreover have "kept (meeting_marks (md_meetings m)) (meeting_marks (md_meetings m @ [?mk (md_nextId m)]))"
      by (rule meeting_append_kept) (simp add: new_row_def fresh)
    ultimately show ?thesis by (simp add: e)
  qed (simp add: e)
qed

lemma meeting_operations_kept:
  assumes "meet_ok m"
  shows "kept (meeting_marks (md_meetings m)) (meeting_marks (md_meetings (snd (endLive i u now m))))"
    "kept (meeting_marks (md_meetings m)) (meeting_marks (md_meetings (snd (createPast n start du generation now today clk m))))"
    "kept (meeting_marks (md_meetings m)) (meeting_marks (md_meetings (snd (heal us m))))"
    "kept (meeting_marks (md_meetings m)) (meeting_marks (md_meetings (snd (reroute_meeting i rt m))))"
    "db_breaks (md_tables (snd (endLive i u now m))) = db_breaks (md_tables m)"
    "md_work (snd (createPast n start du generation now today clk m)) = md_work m"
    "md_work (snd (heal us m)) = md_work m" "md_work (snd (reroute_meeting i rt m)) = md_work m"
proof -
  have fresh: "md_nextId m \<notin> mr_id ` set (md_meetings m)" using assms by (auto simp: meet_ok_def)
  show "kept (meeting_marks (md_meetings m)) (meeting_marks (md_meetings (snd (endLive i u now m))))"
    using endLive_cases [of i u now m] ended_as_kept by (auto simp: update_meeting_map intro!: meeting_map_kept)
  show "kept (meeting_marks (md_meetings m)) (meeting_marks (md_meetings (snd (createPast n start du generation now today clk m))))"
    using meeting_append_kept fresh
    by (auto simp: createPast_def Let_def case_prod_unfold create_meeting_def new_row_def split: option.split)
  show "kept (meeting_marks (md_meetings m)) (meeting_marks (md_meetings (snd (heal us m))))"
    using ended_as_kept by (auto simp: heal_def Let_def heal_row_def discard_def intro!: meeting_map_kept)
  show "kept (meeting_marks (md_meetings m)) (meeting_marks (md_meetings (snd (reroute_meeting i rt m))))"
    by (auto simp: reroute_meeting_def Let_def intro!: meeting_map_kept)
  show "db_breaks (md_tables (snd (endLive i u now m))) = db_breaks (md_tables m)"
    using endLive_cases [of i u now m] by (auto simp: update_meeting_map live_end_def split: option.splits)
  show "md_work (snd (createPast n start du generation now today clk m)) = md_work m"
    by (simp add: createPast_def Let_def case_prod_unfold create_meeting_def split: option.split)
  show "md_work (snd (heal us m)) = md_work m" "md_work (snd (reroute_meeting i rt m)) = md_work m"
    by (simp_all add: heal_def reroute_meeting_def Let_def)
qed

lemma decide_meeting_kept:
  assumes "meet_ok m" "dc_status dc = Pending \<Longrightarrow> Pending \<notin> set expected"
  shows "kept (meeting_marks (md_meetings m)) (meeting_marks (md_meetings (snd (decide_meeting i expected dc clk m))))
    \<and> md_work (snd (decide_meeting i expected dc clk m)) = md_work m"
proof (cases "find_meeting m i")
  case (Some x)
  have same: "y = x" if "y \<in> set (md_meetings m)" "mr_id y = i" for y
    using find_meeting_row [OF assms(1) that(1)] that(2) Some by simp
  show ?thesis
    using Some same assms(2) by (auto simp: decide_meeting_def Let_def update_meeting_map intro!: meeting_map_kept)
qed (simp add: decide_meeting_def)

lemma meet_step_kept:
  assumes "meet_step m m'" "meet_ok m" "\<not> restarts_waiting m m'"
  shows "kept (break_marks (db_breaks (md_tables m))) (break_marks (db_breaks (md_tables m')))
    \<and> kept (meeting_marks (md_meetings m)) (meeting_marks (md_meetings m'))"
  using assms(1)
proof (cases rule: meet_step.cases)
  case (meeting_decided i expected dc clk)
  have "dc_status dc = Pending \<Longrightarrow> Pending \<notin> set expected" using assms(3) meeting_decided by (auto simp: restarts_waiting_def)
  then show ?thesis using decide_meeting_kept [OF assms(2)] meeting_decided by simp
next
  case (meanwhile w)
  have "work_ok (md_work m)" using assms(2) by (simp add: meet_ok_def)
  then show ?thesis using work_marks_kept [of m w] meanwhile assms(3) by simp
qed (simp_all add: startLive_kept [OF assms(2)] meeting_operations_kept [OF assms(2)])

section \<open>The desk stays in order\<close>

definition desk_ok :: "away_db \<Rightarrow> bool" where
  "desk_ok d \<longleftrightarrow> meet_ok (aw_meet d) \<and> away_ok d"

lemma desk_distinct: "desk_ok d \<Longrightarrow> distinct (map fst (marks d))"
  by (auto simp: desk_ok_def meet_ok_def work_ok_def db_ok_def breaks_ok_def away_ok_def marks_def marks_defs comp_def distinct_map
      intro: inj_onI dest: inj_onD)

lemma clocks_db_ok:
  assumes "db_ok db" "\<And>b. \<exists>c. f b = b\<lparr>br_clock := c\<rparr>"
  shows "db_ok (db\<lparr>db_breaks := map f (db_breaks db)\<rparr>)"
proof -
  let ?db = "db\<lparr>db_breaks := map f (db_breaks db)\<rparr>"
  have f: "br_id (f b) = br_id b" "br_data (f b) = br_data b" "br_state (f b) = br_state b" "br_segments (f b) = br_segments b"
    "br_presenceSessionId (f b) = br_presenceSessionId b" "br_seq (f b) = br_seq b" for b
    using assms(2) [of b] by auto
  have i: "session_ids (f b) = session_ids b" for b by (simp add: session_ids_def f)
  have r: "row_ok ?db (f b) = row_ok db b" for b by (simp add: row_ok_def open_segments_def open_sessions_def i f)
  have q: "quick_count ?db u d = quick_count db u d" for u d by (simp add: quick_count_def filter_map comp_def f)
  have "quick_ok ?db (f b) = quick_ok db b" for b by (simp add: quick_ok_def q f)
  moreover have "clashes (f a) (f b) = clashes a b" for a b by (simp add: clashes_def i f)
  moreover have "map br_id (map f (db_breaks db)) = map br_id (db_breaks db)" by (simp add: f)
  ultimately show ?thesis
    using assms(1) r by (simp add: db_ok_def breaks_ok_def presence_ok_def open_sessions_def f del: map_map)
qed

lemma map_tables_ok:
  assumes "desk_ok d" "\<And>b. \<exists>c. fb b = b\<lparr>br_clock := c\<rparr>" "\<And>m. \<exists>c. fm m = m\<lparr>mr_clock := c\<rparr>" "\<And>w. \<exists>c. fw w = w\<lparr>ay_clock := c\<rparr>"
  shows "desk_ok (map_tables fb fm fw d)"
proof -
  let ?m = "aw_meet d"
  let ?w = "(md_work ?m)\<lparr>wd_tables := (md_tables ?m)\<lparr>db_breaks := map fb (db_breaks (md_tables ?m))\<rparr>\<rparr>"
  have ok: "meet_ok ?m" "away_ok d" using assms(1) by (simp_all add: desk_ok_def)
  then have "db_ok (md_tables ?m)" "sessions_ok (wd_sessions (md_work ?m))" by (simp_all add: meet_ok_def work_ok_def)
  then have "work_ok ?w" using ok(1) clocks_db_ok [OF _ assms(2)] by (simp add: meet_ok_def work_ok_def)
  then have "meet_ok (?m\<lparr>md_work := ?w\<rparr>)" by (intro work_meet_ok ok(1)) (simp_all add: kept_same)
  moreover have "same_meeting m (fm m)" for m using assms(3) [of m] by (auto simp: same_meeting_def)
  ultimately have "meet_ok ((?m\<lparr>md_work := ?w\<rparr>)\<lparr>md_meetings := map fm (md_meetings (?m\<lparr>md_work := ?w\<rparr>))\<rparr>)" by (rule map_meet_ok)
  moreover have "same_stretch w (fw w)" for w using assms(4) [of w] by (auto simp: same_stretch_def)
  then have "away_ok (update_away (\<lambda>_. True) fw d)" by (rule update_away_ok [OF ok(2)])
  moreover have "aw_meet (map_tables fb fm fw d) = (?m\<lparr>md_work := ?w\<rparr>)\<lparr>md_meetings := map fm (md_meetings (?m\<lparr>md_work := ?w\<rparr>))\<rparr>"
    by (simp add: map_tables_def Let_def)
  moreover have "away_ok (map_tables fb fm fw d) = away_ok (update_away (\<lambda>_. True) fw d)"
    by (simp add: map_tables_def Let_def away_ok_def update_away_def)
  ultimately show ?thesis unfolding desk_ok_def by presburger
qed

lemma own_clock: "\<exists>c. b = b\<lparr>br_clock := c\<rparr>" "\<exists>c. m = m\<lparr>mr_clock := c\<rparr>" "\<exists>c. w = w\<lparr>ay_clock := c\<rparr>"
  by (rule exI [of _ "br_clock b"], simp, rule exI [of _ "mr_clock m"], simp, rule exI [of _ "ay_clock w"], simp)

lemma set_clock: "\<exists>c. (if P then b\<lparr>br_clock := g\<rparr> else b) = b\<lparr>br_clock := c\<rparr>"
  "\<exists>c. (if P then m\<lparr>mr_clock := g\<rparr> else m) = m\<lparr>mr_clock := c\<rparr>" "\<exists>c. (if P then w\<lparr>ay_clock := g\<rparr> else w) = w\<lparr>ay_clock := c\<rparr>"
  by (cases P; simp only: if_True if_False; (rule own_clock | blast))+

lemma markSla_ok: "desk_ok d \<Longrightarrow> desk_ok (snd (markSla refs now col d))"
  unfolding markSla_def Let_def snd_conv by (erule map_tables_ok) (rule set_clock)+

lemma filled_ok: "desk_ok d \<Longrightarrow> desk_ok (filled_tables e d)"
  unfolding filled_tables_def fillMissingDueAt_def snd_conv by (erule map_tables_ok) (rule set_clock)+

lemma tick_ok: "desk_ok d \<Longrightarrow> desk_ok (snd (tick e now d))"
proof (cases rule: tick_parts [of e now d])
  case (1 rem esc)
  assume "desk_ok d"
  then show "desk_ok (snd (tick e now d))"
    unfolding 1(5) by (simp add: reminded_tables_def markReminded_def markEscalated_def markSla_ok filled_ok)
qed

text \<open>Answers: rows of their own, and a break that starts.\<close>

lemma away_append_kept:
  assumes "away_ok d" "aw_rows d' = aw_rows d \<or> (\<exists>r. aw_rows d' = aw_rows d @ [r] \<and> ay_id r = aw_nextId d)"
  shows "kept (away_marks (aw_rows d)) (away_marks (aw_rows d'))"
proof -
  have "(AwayItem, aw_nextId d) \<notin> fst ` set (away_marks (aw_rows d))" using assms(1) by (auto simp: away_ok_def away_marks_def)
  from kept_new [OF this] show ?thesis using assms(2) by (auto simp: away_marks_def)
qed

lemma create_away_rows:
  "aw_rows (snd (create_away n d)) = aw_rows d \<or> (\<exists>r. aw_rows (snd (create_away n d)) = aw_rows d @ [r] \<and> ay_id r = aw_nextId d)"
  "aw_meet (snd (create_away n d)) = aw_meet d"
  by (auto simp: create_away_def Let_def split: list.split)

lemma submit_away_rows:
  "aw_rows (snd (submit_away sv me a clk d)) = aw_rows d
   \<or> (\<exists>r. aw_rows (snd (submit_away sv me a clk d)) = aw_rows d @ [r] \<and> ay_id r = aw_nextId d)"
  by (cases rule: submit_away_cases [of sv me a clk d]) (use create_away_rows(1) in auto)

lemma start_quick_break_db:
  assumes "start_quick_break p day m s tz t = (Inr x, db)"
  shows "\<exists>q. db = snd (startQuick q t)"
proof -
  have r: "snd (moved_or_refused y) = snd y" for y by (auto simp: moved_or_refused_def split: prod.split sum.split move_result.split)
  obtain q where "moved_or_refused (startQuick q t) = (Inr x, db)" using assms by (auto simp: start_quick_break_def Let_def split: if_splits)
  then show ?thesis using r [of "startQuick q t"] by (metis snd_conv)
qed

lemma start_away_break_meet:
  "aw_meet (snd (start_away_break sv start clk d)) = aw_meet d
   \<or> (\<exists>q. aw_meet (snd (start_away_break sv start clk d)) = (aw_meet d)\<lparr>md_work := (md_work (aw_meet d))\<lparr>wd_tables :=
        snd (startQuick q (shared_tables (md_work (aw_meet d))))\<rparr>\<rparr>)"
proof (cases "start_quick_break (fst (as_quick sv)) (snd (as_quick sv) start) (planned_min start (clock_now clk)) start (as_zone sv)
    (shared_tables (md_work (aw_meet d)))")
  case (Pair res db)
  show ?thesis
  proof (cases res)
    case (Inr x)
    then obtain q where "db = snd (startQuick q (shared_tables (md_work (aw_meet d))))" using start_quick_break_db Pair by blast
    then show ?thesis using Pair Inr by (auto simp: start_away_break_def Let_def case_prod_unfold)
  qed (use Pair in \<open>simp add: start_away_break_def Let_def case_prod_unfold\<close>)
qed

lemma submit_away_meet:
  "aw_meet (snd (submit_away sv me a clk d)) = aw_meet d
   \<or> (\<exists>q. aw_meet (snd (submit_away sv me a clk d)) = (aw_meet d)\<lparr>md_work := (md_work (aw_meet d))\<lparr>wd_tables :=
        snd (startQuick q (shared_tables (md_work (aw_meet d))))\<rparr>\<rparr>)"
proof (cases "\<exists>start. snd (submit_away sv me a clk d) = snd (start_away_break sv start clk d)")
  case True
  then show ?thesis using start_away_break_meet by force
next
  case False
  then have "aw_meet (snd (submit_away sv me a clk d)) = aw_meet d"
    using create_away_rows(2)
    by (auto simp: submit_away_def Let_def split: option.splits sum.splits prod.splits create_away_result.splits)
      (metis snd_conv)+
  then show ?thesis ..
qed

lemma quick_meet:
  fixes q :: new_quick_break
  assumes "meet_ok m"
  defines "m' \<equiv> m\<lparr>md_work := (md_work m)\<lparr>wd_tables := snd (startQuick q (shared_tables (md_work m)))\<rparr>\<rparr>"
  shows "meet_ok m'" "kept (break_marks (db_breaks (md_tables m))) (break_marks (db_breaks (md_tables m')))" "md_meetings m' = md_meetings m"
proof -
  have "work_step (md_work m) ((md_work m)\<lparr>wd_tables := snd (startQuick q (shared_tables (md_work m)))\<rparr>)"
    by (intro work_step.on_break break_step.quick)
  then show "meet_ok m'" unfolding m'_def by (rule meet_step_ok [OF meet_step.meanwhile assms(1)])
  have "db_ok (shared_tables (md_work m))" using assms(1) by (simp add: meet_ok_def shared_tables_ok)
  from startQuick_kept [OF this, of q] show "kept (break_marks (db_breaks (md_tables m))) (break_marks (db_breaks (md_tables m')))"
    using breaks_kept by (force simp: rows_kept_def m'_def)
qed (simp add: m'_def)

lemma submit_away_desk:
  assumes "desk_ok d"
  shows "desk_ok (snd (submit_away sv me a clk d)) \<and> kept (marks d) (marks (snd (submit_away sv me a clk d)))"
proof -
  let ?d = "snd (submit_away sv me a clk d)"
  have ok: "meet_ok (aw_meet d)" "away_ok d" using assms by (simp_all add: desk_ok_def)
  have m: "meet_ok (aw_meet ?d) \<and> kept (break_marks (db_breaks (aw_tables d))) (break_marks (db_breaks (aw_tables ?d)))
      \<and> md_meetings (aw_meet ?d) = md_meetings (aw_meet d)"
    using submit_away_meet [of sv me a clk d] quick_meet [OF ok(1)] ok(1) by (elim disjE exE) simp_all
  have "kept (away_marks (aw_rows d)) (away_marks (aw_rows ?d))" by (rule away_append_kept [OF ok(2) submit_away_rows])
  then show ?thesis using m submit_away_ok [OF ok(2)] unfolding desk_ok_def marks_def by (simp add: kept_tables)
qed

lemma unexplained_desk:
  assumes "desk_ok d"
  shows "desk_ok (snd (unexplained me s t now d)) \<and> kept (marks d) (marks (snd (unexplained me s t now d)))"
proof -
  let ?d = "snd (unexplained me s t now d)"
  have ok: "meet_ok (aw_meet d)" "away_ok d" using assms by (simp_all add: desk_ok_def)
  have "?d = d \<or> (\<exists>n. ?d = snd (create_away n d))"
    by (auto simp: unexplained_def Let_def split: option.split prod.split sum.split create_away_result.split) (metis snd_conv)+
  then have r: "(aw_rows ?d = aw_rows d \<or> (\<exists>r. aw_rows ?d = aw_rows d @ [r] \<and> ay_id r = aw_nextId d)) \<and> aw_meet ?d = aw_meet d"
  proof (elim disjE exE)
    fix n assume n: "?d = snd (create_away n d)"
    show ?thesis unfolding n using create_away_rows [of n d] by simp
  qed simp
  then have "kept (away_marks (aw_rows d)) (away_marks (aw_rows ?d))" by (intro away_append_kept ok(2)) simp
  then show ?thesis using r ok unexplained_ok [OF ok(2)] unfolding desk_ok_def marks_def by (simp add: kept_tables)
qed

text \<open>Decisions, reopening and re-routing.\<close>

lemma away_map_kept:
  assumes "\<And>w. w \<in> set ws \<Longrightarrow> ay_id (f w) = ay_id w \<and> (ay_status (f w) = AwPending \<longrightarrow> ay_status w = AwPending \<longrightarrow> ay_clock (f w) = ay_clock w)"
  shows "kept (away_marks ws) (away_marks (map f ws))"
  unfolding kept_def
proof (intro allI impI disjI1)
  fix r c' assume "(r, True, c') \<in> set (away_marks (map f ws))"
  then obtain w where w: "w \<in> set ws" "r = (AwayItem, ay_id (f w))" "ay_status (f w) = AwPending" "c' = ay_clock (f w)"
    by (auto simp: away_marks_def)
  have "(r, ay_status w = AwPending, ay_clock w) \<in> set (away_marks ws)" using w assms by (auto simp: away_marks_def)
  moreover have "ay_status w = AwPending \<longrightarrow> more_marked (ay_clock w) c'" using w assms [OF w(1)] by simp
  ultimately show "\<exists>p c. (r, p, c) \<in> set (away_marks ws) \<and> (p \<longrightarrow> more_marked c c')" by blast
qed

lemma meeting_map_calm:
  assumes "\<And>m. m \<in> set ms \<Longrightarrow> mr_id (f m) = mr_id m \<and> (mr_approvalStatus (f m) = Pending \<longrightarrow> mr_approvalStatus m = Pending \<and> mr_clock (f m) = mr_clock m)"
  shows "calm (meeting_marks ms) (meeting_marks (map f ms))"
  unfolding calm_def
proof (intro allI impI)
  fix r c' assume "(r, True, c') \<in> set (meeting_marks (map f ms))"
  then obtain m where m: "m \<in> set ms" "r = (MeetingItem, mr_id (f m))" "mr_approvalStatus (f m) = Pending" "c' = mr_clock (f m)"
    by (auto simp: meeting_marks_def)
  then have "(r, True, c') \<in> set (meeting_marks ms)" using assms [OF m(1)] by (force simp: meeting_marks_def)
  then show "\<exists>c. (r, True, c) \<in> set (meeting_marks ms) \<and> more_marked c c'" using more_marked_refl by blast
qed

lemma decide_meeting_calm:
  assumes "dc_status dc \<noteq> Pending"
  shows "calm (meeting_marks (md_meetings m)) (meeting_marks (md_meetings (snd (decide_meeting i expected dc clk m))))"
  using assms by (auto simp: decide_meeting_def Let_def update_meeting_map intro!: meeting_map_calm split: option.split if_splits)

lemma decide_away_desk:
  assumes "desk_ok d" "ad_status dc = Pending \<Longrightarrow> AwPending \<notin> set expected"
  shows "desk_ok (snd (decide_away i expected dc d)) \<and> kept (marks d) (marks (snd (decide_away i expected dc d)))"
proof -
  let ?d = "snd (decide_away i expected dc d)"
  have ok: "meet_ok (aw_meet d)" "away_ok d" using assms(1) by (simp_all add: desk_ok_def)
  have st: "ad_status dc = Pending" if "away_status_of (ad_status dc) = AwPending" using that by (cases "ad_status dc") simp_all
  have "kept (away_marks (aw_rows d)) (away_marks (aw_rows ?d)) \<and> aw_meet ?d = aw_meet d"
  proof (cases "find_away d i")
    case (Some r)
    have same: "w = r" if "w \<in> set (aw_rows d)" "ay_id w = i" for w
    proof -
      have "find_away d i = Some w" using ok(2) that by (simp add: away_ok_def find_away_def find_key)
      then show ?thesis using Some by simp
    qed
    show ?thesis
      using Some same assms(2) st
      by (auto simp: decide_away_def Let_def update_away_def decided_away_def intro!: away_map_kept)
  qed (simp add: decide_away_def)
  then show ?thesis using ok decide_away_ok [OF ok(2)] unfolding desk_ok_def marks_def by (simp add: kept_tables)
qed

lemma reroutePending_desk:
  assumes "desk_ok d"
  shows "desk_ok (snd (reroutePending u approver d)) \<and> kept (marks d) (marks (snd (reroutePending u approver d)))"
proof -
  have ok: "meet_ok (aw_meet d)" "away_ok d" using assms by (simp_all add: desk_ok_def)
  have "kept (away_marks (aw_rows d)) (away_marks (aw_rows (snd (reroutePending u approver d)))) \<and> aw_meet (snd (reroutePending u approver d)) = aw_meet d"
    by (auto simp: reroutePending_def Let_def update_away_def intro!: away_map_kept)
  then show ?thesis using ok reroutePending_ok [OF ok(2)] unfolding desk_ok_def marks_def by (simp add: kept_tables)
qed

lemma decide_presence: "db_presence (snd (decide i expected dc clk db)) = db_presence db"
  by (simp add: decide_def Let_def split: option.split)

lemma decide_desk:
  assumes "desk_ok d" "dc_status dc = Pending \<Longrightarrow> Pending \<notin> set expected"
  shows "desk_ok (with_breaks (snd (decide i expected dc clk (aw_tables d))) d)
    \<and> kept (marks d) (marks (with_breaks (snd (decide i expected dc clk (aw_tables d))) d))"
proof -
  let ?db = "snd (decide i expected dc clk (aw_tables d))"
  have ok: "meet_ok (aw_meet d)" "away_ok d" using assms(1) by (simp_all add: desk_ok_def)
  then have w: "work_ok (md_work (aw_meet d))" by (simp add: meet_ok_def)
  then have db: "db_ok (aw_tables d)" by (simp add: work_ok_def)
  have "work_ok ((md_work (aw_meet d))\<lparr>wd_tables := ?db\<rparr>)" using w decide_ok [OF db] by (simp add: work_ok_def)
  then have "meet_ok ((aw_meet d)\<lparr>md_work := (md_work (aw_meet d))\<lparr>wd_tables := ?db\<rparr>\<rparr>)"
    by (rule work_meet_ok [OF ok(1)]) (simp add: kept_same decide_presence)
  moreover have "kept (break_marks (db_breaks (aw_tables d))) (break_marks (db_breaks ?db))"
    by (rule breaks_kept [OF decide_clock [OF db assms(2)]])
  ultimately show ?thesis
    using ok(2) by (simp add: desk_ok_def with_breaks_def marks_def away_ok_def kept_tables)
qed

lemma meetings_desk:
  assumes "desk_ok d" "meet_ok m" "kept (break_marks (db_breaks (aw_tables d))) (break_marks (db_breaks (md_tables m)))"
    "kept (meeting_marks (md_meetings (aw_meet d))) (meeting_marks (md_meetings m))"
  shows "desk_ok (d\<lparr>aw_meet := m\<rparr>) \<and> kept (marks d) (marks (d\<lparr>aw_meet := m\<rparr>))"
  using assms by (simp add: desk_ok_def marks_def away_ok_def kept_tables)

lemma decideRecord_db:
  "snd (decideRecord people me i st note clk db) = db
   \<or> (\<exists>dc. dc_status dc = st \<and> snd (decideRecord people me i st note clk db) = snd (decide i [Pending] dc clk db))"
  "snd (reopenRecord people me i clk db) = db
   \<or> (\<exists>dc. dc_status dc = Pending \<and> snd (reopenRecord people me i clk db) = snd (decide i DECIDED dc clk db))"
proof -
  let ?d = "\<lparr>dc_status = st, dc_decidedById = Some (u_id me), dc_decidedAt = Some (clock_now clk), dc_note = note\<rparr>"
  let ?r = "\<lparr>dc_status = Pending, dc_decidedById = None, dc_decidedAt = None, dc_note = None\<rparr>"
  have "snd (decideRecord people me i st note clk db) \<in> {db, snd (decide i [Pending] ?d clk db)}"
    by (auto simp: decideRecord_def Let_def split: sum.split option.split prod.split)
  moreover have "dc_status ?d = st" by simp
  ultimately show "snd (decideRecord people me i st note clk db) = db
      \<or> (\<exists>dc. dc_status dc = st \<and> snd (decideRecord people me i st note clk db) = snd (decide i [Pending] dc clk db))" by blast
  have "snd (reopenRecord people me i clk db) \<in> {db, snd (decide i DECIDED ?r clk db)}"
    by (auto simp: reopenRecord_def Let_def split: sum.split option.split prod.split)
  moreover have "dc_status ?r = Pending" by simp
  ultimately show "snd (reopenRecord people me i clk db) = db
      \<or> (\<exists>dc. dc_status dc = Pending \<and> snd (reopenRecord people me i clk db) = snd (decide i DECIDED dc clk db))" by blast
qed

lemma decideAway_db:
  "snd (decideAway people me i st note now d) = d
   \<or> (\<exists>dc. ad_status dc = st \<and> snd (decideAway people me i st note now d) = snd (decide_away i [AwPending] dc d))"
  "snd (reopenAway people me i clk d) = d
   \<or> (\<exists>dc. ad_status dc = Pending \<and> snd (reopenAway people me i clk d) = snd (decide_away i [AwApproved, AwRejected] dc d))"
proof -
  let ?d = "\<lparr>ad_status = st, ad_decidedById = Some (u_id me), ad_decidedAt = Some now, ad_note = note, ad_dueAt = None\<rparr>"
  have "snd (decideAway people me i st note now d) \<in> {d, snd (decide_away i [AwPending] ?d d)}"
    by (auto simp: decideAway_def Let_def split: sum.split option.split prod.split)
  moreover have "ad_status ?d = st" by simp
  ultimately show "snd (decideAway people me i st note now d) = d
      \<or> (\<exists>dc. ad_status dc = st \<and> snd (decideAway people me i st note now d) = snd (decide_away i [AwPending] dc d))" by blast
  show "snd (reopenAway people me i clk d) = d
      \<or> (\<exists>dc. ad_status dc = Pending \<and> snd (reopenAway people me i clk d) = snd (decide_away i [AwApproved, AwRejected] dc d))"
  proof (cases "find_away d i")
    case (Some a)
    let ?r = "\<lparr>ad_status = Pending, ad_decidedById = None, ad_decidedAt = None, ad_note = None,
      ad_dueAt = pc_dueAt (pendingClock clk (clock_now clk) (db_sla (aw_tables d) (ay_userId a)))\<rparr>"
    have "snd (reopenAway people me i clk d) \<in> {d, snd (decide_away i [AwApproved, AwRejected] ?r d)}"
      using Some by (auto simp: reopenAway_def Let_def split: sum.split option.split prod.split)
    moreover have "ad_status ?r = Pending" by simp
  ultimately show ?thesis by blast
  qed (simp add: reopenAway_def)
qed

lemma decideMeeting_db:
  "\<exists>us. snd (decideMeeting people me i st note clk m) \<in> {m, snd (heal us m)}
   \<or> (\<exists>dc. dc_status dc = st \<and> (snd (decideMeeting people me i st note clk m) = snd (decide_meeting i [Pending] dc clk m)
        \<or> snd (decideMeeting people me i st note clk m) = snd (decide_meeting i [Pending] dc clk (snd (heal us m)))))"
  "snd (reopenMeeting people me i clk m) = m
   \<or> (\<exists>dc. dc_status dc = Pending \<and> snd (reopenMeeting people me i clk m) = snd (decide_meeting i DECIDED dc clk m))"
proof -
  let ?d = "\<lparr>dc_status = st, dc_decidedById = Some (u_id me), dc_decidedAt = Some (clock_now clk), dc_note = note\<rparr>"
  let ?r = "\<lparr>dc_status = Pending, dc_decidedById = None, dc_decidedAt = None, dc_note = None\<rparr>"
  show "\<exists>us. snd (decideMeeting people me i st note clk m) \<in> {m, snd (heal us m)}
     \<or> (\<exists>dc. dc_status dc = st \<and> (snd (decideMeeting people me i st note clk m) = snd (decide_meeting i [Pending] dc clk m)
          \<or> snd (decideMeeting people me i st note clk m) = snd (decide_meeting i [Pending] dc clk (snd (heal us m)))))"
  proof (cases "find_meeting m i")
    case (Some found)
    let ?us = "Some [mr_userId found]"
    have "snd (decideMeeting people me i st note clk m)
        \<in> {m, snd (heal ?us m), snd (decide_meeting i [Pending] ?d clk m), snd (decide_meeting i [Pending] ?d clk (snd (heal ?us m)))}"
      using Some by (auto simp: decideMeeting_def Let_def split: sum.split option.split prod.split)
    moreover have "dc_status ?d = st" by simp
  ultimately show ?thesis by blast
  qed (simp add: decideMeeting_def)
  have "snd (reopenMeeting people me i clk m) \<in> {m, snd (decide_meeting i DECIDED ?r clk m)}"
    by (auto simp: reopenMeeting_def Let_def split: sum.split option.split prod.split)
  moreover have "dc_status ?r = Pending" by simp
  ultimately show "snd (reopenMeeting people me i clk m) = m
      \<or> (\<exists>dc. dc_status dc = Pending \<and> snd (reopenMeeting people me i clk m) = snd (decide_meeting i DECIDED dc clk m))" by blast
qed

lemma decideRow_desk:
  assumes "desk_ok d" "st \<noteq> Pending"
  shows "desk_ok (snd (decideRow people me ref st note clk d)) \<and> kept (marks d) (marks (snd (decideRow people me ref st note clk d)))"
proof (cases "assertApprover me")
  case (Inr x)
  have ok: "meet_ok (aw_meet d)" "away_ok d" using assms(1) by (simp_all add: desk_ok_def)
  show ?thesis
  proof (cases "fst ref")
    case BreakItem
    then have e: "snd (decideRow people me ref st note clk d) = with_breaks (snd (decideRecord people me (snd ref) st note clk (aw_tables d))) d"
      using Inr by (simp add: decideRow_def result_map_def on_breaks_def case_prod_unfold)
    show ?thesis using decideRecord_db(1) [of people me "snd ref" st "note" clk "aw_tables d"]
    proof (elim disjE exE conjE)
      fix dc assume "dc_status dc = st" "snd (decideRecord people me (snd ref) st note clk (aw_tables d)) = snd (decide (snd ref) [Pending] dc clk (aw_tables d))"
      then show ?thesis unfolding e using decide_desk [OF assms(1), of dc "[Pending]" "snd ref" clk] assms(2) by simp
    qed (simp add: e with_breaks_same assms)
  next
    case AwayItem
    then have e: "snd (decideRow people me ref st note clk d) = snd (decideAway people me (snd ref) st note (clock_now clk) d)"
      using Inr by (simp add: decideRow_def result_map_def)
    show ?thesis using decideAway_db(1) [of people me "snd ref" st "note" "clock_now clk" d]
    proof (elim disjE exE conjE)
      fix dc assume "ad_status dc = st" "snd (decideAway people me (snd ref) st note (clock_now clk) d) = snd (decide_away (snd ref) [AwPending] dc d)"
      then show ?thesis unfolding e using decide_away_desk [OF assms(1), of dc "[AwPending]" "snd ref"] assms(2) by simp
    qed (simp add: e assms)
  next
    case MeetingItem
    let ?m = "snd (decideMeeting people me (snd ref) st note clk (aw_meet d))"
    have e: "snd (decideRow people me ref st note clk d) = d\<lparr>aw_meet := ?m\<rparr>"
      using Inr MeetingItem by (simp add: decideRow_def result_map_def on_meetings_def case_prod_unfold)
    have h: "meet_ok (snd (heal us (aw_meet d)))" "kept (meeting_marks (md_meetings (aw_meet d))) (meeting_marks (md_meetings (snd (heal us (aw_meet d)))))"
      "md_work (snd (heal us (aw_meet d))) = md_work (aw_meet d)" for us
      by (simp_all add: heal_ok ok meeting_operations_kept [OF ok(1)])
    have dm: "meet_ok (snd (decide_meeting i [Pending] dc clk m))
        \<and> calm (meeting_marks (md_meetings m)) (meeting_marks (md_meetings (snd (decide_meeting i [Pending] dc clk m))))
        \<and> md_work (snd (decide_meeting i [Pending] dc clk m)) = md_work m"
      if "dc_status dc = st" "meet_ok m" for m i dc
      using decide_meeting_ok [OF that(2)] decide_meeting_calm [of dc m i "[Pending]" clk] decide_meeting_kept [OF that(2), of dc "[Pending]" i clk]
        that(1) assms(2) by auto
    have "meet_ok ?m \<and> kept (meeting_marks (md_meetings (aw_meet d))) (meeting_marks (md_meetings ?m)) \<and> md_work ?m = md_work (aw_meet d)"
      using decideMeeting_db(1) [of people me "snd ref" st "note" clk "aw_meet d"]
    proof (elim exE disjE conjE)
      fix us dc assume a: "dc_status dc = st" "?m = snd (decide_meeting (snd ref) [Pending] dc clk (snd (heal us (aw_meet d))))"
      note c = dm [OF a(1) h(1) [of us], of "snd ref"]
      show ?thesis unfolding a(2) using c kept_calm [OF h(2) [of us]] h(3) [of us] by simp
    next
      fix us dc assume a: "dc_status dc = st" "?m = snd (decide_meeting (snd ref) [Pending] dc clk (aw_meet d))"
      show ?thesis unfolding a(2) using dm [OF a(1) ok(1), of "snd ref"] calm_kept by blast
    next
      fix us assume "?m \<in> {aw_meet d, snd (heal us (aw_meet d))}"
      then consider "?m = aw_meet d" | "?m = snd (heal us (aw_meet d))" by blast
      then show ?thesis
      proof cases
        case 1
        show ?thesis unfolding 1 using ok by simp
      next
        case 2
        show ?thesis unfolding 2 using h [of us] by simp
      qed
    qed
    then show ?thesis unfolding e using meetings_desk [OF assms(1)] by simp
  qed
qed (simp add: decideRow_def assms)

lemma reopenRow_desk:
  assumes "desk_ok d"
  shows "desk_ok (snd (reopenRow people me ref clk d)) \<and> kept (marks d) (marks (snd (reopenRow people me ref clk d)))"
proof (cases "assertApprover me")
  case (Inr x)
  have ok: "meet_ok (aw_meet d)" "away_ok d" using assms(1) by (simp_all add: desk_ok_def)
  show ?thesis
  proof (cases "fst ref")
    case BreakItem
    then have e: "snd (reopenRow people me ref clk d) = with_breaks (snd (reopenRecord people me (snd ref) clk (aw_tables d))) d"
      using Inr by (simp add: reopenRow_def result_map_def on_breaks_def case_prod_unfold)
    show ?thesis using decideRecord_db(2) [of people me "snd ref" clk "aw_tables d"]
    proof (elim disjE exE conjE)
      fix dc assume "snd (reopenRecord people me (snd ref) clk (aw_tables d)) = snd (decide (snd ref) DECIDED dc clk (aw_tables d))"
      then show ?thesis unfolding e using decide_desk [OF assms(1)] by (simp add: DECIDED_def)
    qed (simp add: e with_breaks_same assms)
  next
    case AwayItem
    then have e: "snd (reopenRow people me ref clk d) = snd (reopenAway people me (snd ref) clk d)"
      using Inr by (simp add: reopenRow_def result_map_def)
    show ?thesis using decideAway_db(2) [of people me "snd ref" clk d]
    proof (elim disjE exE conjE)
      fix dc assume "snd (reopenAway people me (snd ref) clk d) = snd (decide_away (snd ref) [AwApproved, AwRejected] dc d)"
      then show ?thesis unfolding e using decide_away_desk [OF assms(1)] by simp
    qed (simp add: e assms)
  next
    case MeetingItem
    let ?m = "snd (reopenMeeting people me (snd ref) clk (aw_meet d))"
    have e: "snd (reopenRow people me ref clk d) = d\<lparr>aw_meet := ?m\<rparr>"
      using Inr MeetingItem by (simp add: reopenRow_def result_map_def on_meetings_def case_prod_unfold)
    have "Pending \<notin> set DECIDED" by (simp add: DECIDED_def)
    then have "meet_ok ?m \<and> kept (meeting_marks (md_meetings (aw_meet d))) (meeting_marks (md_meetings ?m)) \<and> md_work ?m = md_work (aw_meet d)"
      using decideMeeting_db(2) [of people me "snd ref" clk "aw_meet d"] decide_meeting_ok [OF ok(1)] decide_meeting_kept [OF ok(1)] ok(1)
      by (elim disjE exE conjE) auto
    then show ?thesis unfolding e using meetings_desk [OF assms(1)] by simp
  qed
qed (simp add: reopenRow_def assms)

section \<open>Every history\<close>

text \<open>Passes, each with the people, facts and event bus of its time; answers and unanswered pop-ups; decisions, reopening and re-routing; and
  every operation of the breaks, the meetings and the working day (\<open>meet_step\<close>).\<close>

inductive desk_step :: "away_db \<Rightarrow> away_db \<Rightarrow> bool" where
  passed: "desk_step d (snd (tick e now d))"
| answered: "desk_step d (snd (submit_away sv me a clk d))"
| unanswered: "desk_step d (snd (unexplained me s t now d))"
| decided: "st \<noteq> Pending \<Longrightarrow> desk_step d (snd (decideRow people me ref st nt clk d))"
| reopened: "desk_step d (snd (reopenRow people me ref clk d))"
| away_rerouted: "desk_step d (snd (reroutePending u approver d))"
| worked: "meet_step (aw_meet d) m \<Longrightarrow> \<not> restarts_waiting (aw_meet d) m \<Longrightarrow> desk_step d (d\<lparr>aw_meet := m\<rparr>)"

inductive desk_reachable :: "away_db \<Rightarrow> bool" where
  no_answers: "meet_reachable m \<Longrightarrow> desk_reachable \<lparr>aw_rows = [], aw_nextId = n, aw_meet = m\<rparr>"
| desk: "desk_reachable d \<Longrightarrow> desk_step d d' \<Longrightarrow> desk_reachable d'"

text \<open>A stretch of history through which the item \<open>r\<close> waits.\<close>

inductive waiting_on :: "item_ref \<Rightarrow> away_db \<Rightarrow> away_db \<Rightarrow> bool" for r :: item_ref and d :: away_db where
  waits_there: "waits r d \<Longrightarrow> waiting_on r d d"
| waits_still: "waiting_on r d d1 \<Longrightarrow> desk_step d1 d2 \<Longrightarrow> waits r d2 \<Longrightarrow> waiting_on r d d2"

lemma desk_step_kept: "desk_step d d' \<Longrightarrow> desk_ok d \<Longrightarrow> desk_ok d' \<and> kept (marks d) (marks d')"
proof (induction rule: desk_step.induct)
  case (passed d e now)
  then show ?case using tick_ok tick_calm calm_kept by blast
next
  case (worked d m)
  then have ok: "meet_ok (aw_meet d)" by (simp add: desk_ok_def)
  show ?case
    using meetings_desk [OF worked.prems meet_step_ok [OF worked.hyps(1) ok]] meet_step_kept [OF worked.hyps(1) ok worked.hyps(2)] by blast
qed (simp_all add: submit_away_desk unexplained_desk decideRow_desk reopenRow_desk reroutePending_desk)

lemma desk_reachable_ok: "desk_reachable d \<Longrightarrow> desk_ok d"
proof (induction rule: desk_reachable.induct)
  case (no_answers m n)
  then show ?case by (simp add: desk_ok_def away_ok_def meet_reachable_ok)
qed (use desk_step_kept in blast)

lemma quiet_while_waiting:
  assumes "waiting_on r d d'" "desk_ok d" "quiet col r d"
  shows "desk_ok d' \<and> waits r d' \<and> quiet col r d'"
  using assms(1)
proof (induction rule: waiting_on.induct)
  case waits_there
  then show ?case using assms(2,3) by simp
next
  case (waits_still d1 d2)
  then have ok: "desk_ok d1" "waits r d1" "quiet col r d1" by simp_all
  note s = desk_step_kept [OF waits_still.hyps(2) ok(1)]
  then show ?case using quiet_kept [OF _ desk_distinct [OF ok(1)] ok(2,3)] waits_still.hyps(3) by blast
qed

lemma quiet_not_claimed:
  "(quiet RemindedAt r d \<longrightarrow> r \<notin> claim_ref ` set (reminder_claims e now d))
   \<and> (quiet EscalatedAt r d \<longrightarrow> r \<notin> claim_ref ` set (escalation_claims e now refs d))"
proof -
  have "\<not> quiet RemindedAt (claim_ref c) d" if "c \<in> set (reminder_claims e now d)" for c
    using that claim_not_quiet quiet_calm [OF calm_filled] unfolding reminder_claims_def remindersDue_def by blast
  moreover have "\<not> quiet EscalatedAt (claim_ref c) d" if "c \<in> set (escalation_claims e now refs d)" for c
    using that claim_not_quiet quiet_calm [OF calm_reminded] unfolding escalation_claims_def escalationsDue_def by blast
  ultimately show ?thesis by blast
qed

lemma claim_rule:
  assumes "c \<in> set (slaCandidates f now col (ITEMS created d))"
  shows "\<exists>a \<in> set (ITEMS created d). ref_of a = claim_ref c \<and> it_status a = Pending
    \<and> (case col of RemindedAt \<Rightarrow> needsReminder (it_dueAt a) (it_remindedAt a) now
                 | EscalatedAt \<Rightarrow> needsEscalation (it_dueAt a) (it_escalatedAt a) now)"
  using candidate_item [OF assms] sla_hit_rule by (cases col) auto

text \<open>C12: nobody is reminded twice of one request. In every history, what a pass reminds of or escalates is a waiting
  item that the pure rule of \<open>sla.ts\<close> picks at that instant; and an item it marked, as long as it then waits through whatever is
  done to breaks, meetings, away time and the working day, further passes included, is not claimed by a later pass
  again, so nobody is told of it and it is not marked again. Only an item that was decided and reopened starts afresh.\<close>

theorem nobody_is_reminded_twice:
  assumes "desk_reachable d" "tick e now d = (res, d1)" "waiting_on r d1 d2"
  shows "(r \<in> set (tk_reminded res) \<longrightarrow>
      (\<exists>a \<in> set (ITEMS (je_created e) (filled_tables e d)). ref_of a = r \<and> it_status a = Pending
         \<and> needsReminder (it_dueAt a) (it_remindedAt a) now)
      \<and> r \<notin> claim_ref ` set (reminder_claims e2 later d2) \<and> r \<notin> set (tk_reminded (fst (tick e2 later d2))))
    \<and> (r \<in> set (tk_escalated res) \<longrightarrow>
      (\<exists>a \<in> set (ITEMS (je_created e) (reminded_tables e now (tk_reminded res) d)). ref_of a = r \<and> it_status a = Pending
         \<and> needsEscalation (it_dueAt a) (it_escalatedAt a) now)
      \<and> r \<notin> claim_ref ` set (escalation_claims e2 later (tk_reminded (fst (tick e2 later d2))) d2)
      \<and> r \<notin> set (tk_escalated (fst (tick e2 later d2))))"
proof (cases rule: tick_parts [of e now d])
  case (1 rem esc)
  have t: "res = fst (tick e now d)" "d1 = snd (tick e now d)" using assms(2) by simp_all
  have ok: "desk_ok d1" unfolding t by (rule tick_ok [OF desk_reachable_ok [OF assms(1)]])
  have q: "quiet col r d1 \<Longrightarrow> quiet col r d2" for col using quiet_while_waiting [OF assms(3) ok] by blast
  have "\<exists>a \<in> set (ITEMS (je_created e) (filled_tables e d)). ref_of a = r \<and> it_status a = Pending \<and> needsReminder (it_dueAt a) (it_remindedAt a) now"
    if r: "r \<in> set (tk_reminded res)"
  proof -
    have "r \<in> claim_ref ` set rem" using r unfolding t(1) 1(1) [symmetric] unique_refs_set .
    then obtain c where c: "c \<in> set rem" "claim_ref c = r" by blast
    have "c \<in> set (slaCandidates (je_facts e) now RemindedAt (ITEMS (je_created e) (filled_tables e d)))"
      using c(1) 1(3) by (auto simp: reminder_claims_def remindersDue_def)
    from claim_rule [OF this] show ?thesis unfolding c(2) by simp
  qed
  moreover have "\<exists>a \<in> set (ITEMS (je_created e) (reminded_tables e now (tk_reminded res) d)). ref_of a = r \<and> it_status a = Pending
      \<and> needsEscalation (it_dueAt a) (it_escalatedAt a) now" if r: "r \<in> set (tk_escalated res)"
  proof -
    have "r \<in> claim_ref ` set esc" using r unfolding t(1) 1(2) [symmetric] unique_refs_set .
    then obtain c where c: "c \<in> set esc" "claim_ref c = r" by blast
    have "c \<in> set (slaCandidates (je_facts e) now EscalatedAt (ITEMS (je_created e) (reminded_tables e now (tk_reminded res) d)))"
      using c(1) 1(4) unfolding t(1) 1(1) [symmetric] by (auto simp: escalation_claims_def escalationsDue_def)
    from claim_rule [OF this] show ?thesis unfolding c(2) by simp
  qed
  moreover have "r \<notin> claim_ref ` set (reminder_claims e2 later d2) \<and> r \<notin> set (tk_reminded (fst (tick e2 later d2)))"
    if "r \<in> set (tk_reminded res)"
  proof -
    have "quiet RemindedAt r d2" using that q tick_quiet [of r e now d] by (simp add: t)
    then show ?thesis using quiet_not_claimed [of r d2 e2 later] quiet_not_marked [of r d2 e2 later] by blast
  qed
  moreover have "r \<notin> claim_ref ` set (escalation_claims e2 later (tk_reminded (fst (tick e2 later d2))) d2) \<and> r \<notin> set (tk_escalated (fst (tick e2 later d2)))"
    if "r \<in> set (tk_escalated res)"
  proof -
    have "quiet EscalatedAt r d2" using that q tick_quiet [of r e now d] by (simp add: t)
    then show ?thesis using quiet_not_claimed [of r d2 e2 later] quiet_not_marked [of r d2 e2 later] by blast
  qed
  ultimately show ?thesis by simp
qed

section \<open>A request, its reminder and what follows\<close>

definition answered_db :: away_db where
  "answered_db = snd (submit_away sample_services sample_manager (sample_answer 2000) (at_clock 100000) away_start)"

lemma answered_reachable: "desk_reachable answered_db"
proof -
  have "desk_reachable away_start" unfolding away_start_def by (rule desk_reachable.no_answers [OF day_started_reachable])
  then show ?thesis unfolding answered_db_def by (rule desk_reachable.desk) (rule desk_step.answered)
qed

lemma answered_row:
  "\<exists>r. answered_db = away_start\<lparr>aw_rows := [r], aw_nextId := 1\<rparr> \<and> ay_id r = 0 \<and> ay_userId r = 1 \<and> ay_status r = AwPending
     \<and> ay_approverRole r = Some MANAGER \<and> ay_clock r = \<lparr>pc_dueAt = Some 172900000, pc_escalatedAt = None, pc_remindedAt = None\<rparr>"
proof -
  let ?n = "\<lambda>rs w start. new_away_of sample_manager (sample_answer 2000) rs sample_services w start (at_clock 100000) 48"
  obtain r where r: "answered_db = away_start\<lparr>aw_rows := [r], aw_nextId := 1\<rparr>" "ay_id r = 0" "ay_userId r = 1" "ay_status r = AwPending"
    using sample_submit [of away_start 2000 100000] by (auto simp: answered_db_def away_start_def SKEW_MS_def MAX_AWAY_MS_def)
  have s: "db_sla (aw_tables away_start) (u_id sample_manager) = 48" by (simp add: away_start_def day_started_open empty_db_def)
  have rows: "aw_rows answered_db = [r]" unfolding r(1) by simp
  have "\<exists>rs w start. r = fresh_away (?n rs w start) 0"
  proof (cases rule: submit_away_cases [of sample_services sample_manager "sample_answer 2000" "at_clock 100000" away_start])
    case kept
    show ?thesis using kept(1) rows by (simp add: answered_db_def [symmetric]) (simp add: away_start_def)
  next
    case (created rs w start)
    have "answered_db = snd (create_away (?n rs w start) away_start)" using created(2) by (simp add: answered_db_def s)
    then have "aw_rows (snd (create_away (?n rs w start) away_start)) = [r]" using rows by metis
    then have "r = fresh_away (?n rs w start) 0" by (auto simp: create_away_def away_start_def Let_def split: list.splits if_splits)
    then show ?thesis by blast
  qed
  then obtain rs w start where f: "r = fresh_away (?n rs w start) 0" by blast
  have "na_approverRole (?n rs w start) = Some MANAGER" "na_dueAt (?n rs w start) = Some 172900000"
    by (simp_all add: new_away_of_def Let_def sample_services_def sample_staff_def route_def pendingClock_def clock_now_def isReplay_def)
  then show ?thesis using r f by (intro exI [of _ r]) (simp add: fresh_away_def no_clock_def)
qed

definition reminding_jobs :: job_env where
  "reminding_jobs = sample_jobs\<lparr>je_people := (je_people sample_jobs)\<lparr>rd_users := [sample_lead_entry\<lparr>ue_facts :=
     \<lparr>pf_id = 9, pf_role = MANAGER, pf_companyId = Some 7, pf_departmentId = None\<rparr>\<rparr>], rd_managed := [(9, 3)]\<rparr>\<rparr>"

lemma due_claim_marked:
  assumes "\<And>x. je_sends e x" "c \<in> set (reminder_claims e now d)" "i \<in> set (claim_approvers (je_people e) c)" "i \<in> active_ids (je_people e) [i]"
  shows "claim_ref c \<in> set (tk_reminded (fst (tick e now d)))"
proof -
  have "tk_reminded (fst (tick e now d)) = unique_refs (fst (remind_all e (perApprover (je_people e) (reminder_claims e now d))))"
    by (simp add: tick_def reminder_claims_def filled_tables_def case_prod_unfold Let_def)
  moreover have "c \<in> set (fst (remind_all e (perApprover (je_people e) (reminder_claims e now d))))"
    unfolding remind_all_tell using perApprover_has [OF assms(2,3)] tell_all_reaches [OF _ _ assms(4,1)] by blast
  ultimately show ?thesis by (simp add: unique_refs_set)
qed

lemma answered_marked: "(AwayItem, 0) \<in> set (tk_reminded (fst (tick reminding_jobs 172800000 answered_db)))"
proof -
  obtain r where r: "answered_db = away_start\<lparr>aw_rows := [r], aw_nextId := 1\<rparr>" "ay_id r = 0" "ay_userId r = 1" "ay_status r = AwPending"
    "ay_approverRole r = Some MANAGER" "ay_clock r = \<lparr>pc_dueAt = Some 172900000, pc_escalatedAt = None, pc_remindedAt = None\<rparr>"
    using answered_row by blast
  let ?c = "\<lparr>sc_type = AwayItem, sc_id = 0, sc_userId = 1, sc_approverId = None, sc_approverRole = Some MANAGER,
    sc_companyId = Some 7, sc_departmentId = Some 3\<rparr>"
  have t: "db_breaks (aw_tables answered_db) = []" "md_meetings (aw_meet answered_db) = []" "aw_rows answered_db = [r]"
    by (simp_all add: r(1) away_start_def day_started_open empty_db_def) (simp add: day_started_def empty_meet_db_def)
  let ?i = "the (away_item (je_created reminding_jobs) (r\<lparr>ay_clock := filled (je_created reminding_jobs AwayItem 0) (je_sla reminding_jobs None) (ay_clock r)\<rparr>))"
  have i: "ITEMS (je_created reminding_jobs) (filled_tables reminding_jobs answered_db) = [?i]"
    "it_type ?i = AwayItem" "it_id ?i = 0" "it_userId ?i = 1" "it_status ?i = Pending" "it_dueAt ?i = Some 172900000" "it_remindedAt ?i = None"
    "it_approverId ?i = None" "it_approverRole ?i = Some MANAGER"
    by (simp_all add: Let_def filled_tables_def fillMissingDueAt_def map_tables_def ITEMS_def t List.map_filter_simps away_item_def r(2-) filled_def)
  have p: "of_people (je_facts reminding_jobs) 1 = Some (sample_staff\<lparr>pf_id := 1\<rparr>)"
    by (simp add: reminding_jobs_def sample_jobs_def sample_env_def)
  have c: "?c \<in> set (reminder_claims reminding_jobs 172800000 answered_db)"
    using i p by (simp add: DUE_SOON_MS_def reminder_claims_def remindersDue_def slaCandidates_def SLA_TABLES_def sla_hit_def sla_mark_def
        sla_window_def holds_of_def List.map_filter_simps claim_of_def sample_staff_def del: One_nat_def)
  have a: "9 \<in> set (claim_approvers (je_people reminding_jobs) ?c)" "9 \<in> active_ids (je_people reminding_jobs) [9]"
    by (simp_all add: reminding_jobs_def sample_jobs_def claim_approvers_def approvers_def Let_def dept_managers_def listDepartmentManagerIds_def
        department_live_def active_entry_def sample_lead_entry_def sample_left_def active_ids_def)
  show ?thesis using due_claim_marked [OF _ c a] by (simp add: reminding_jobs_def sample_jobs_def)
qed

theorem nobody_is_reminded_twice_witness:
  "(AwayItem, 0) \<in> set (tk_reminded (fst (tick reminding_jobs 172800000 answered_db)))
   \<and> (AwayItem, 0) \<notin> set (tk_reminded (fst (tick reminding_jobs 172810000 (snd (tick reminding_jobs 172800000 answered_db)))))"
proof -
  let ?d = "snd (tick reminding_jobs 172800000 answered_db)"
  obtain x where x: "answered_db = away_start\<lparr>aw_rows := [x], aw_nextId := 1\<rparr>" "ay_id x = 0" "ay_status x = AwPending"
    using answered_row by blast
  have "aw_rows answered_db = [x]" unfolding x(1) by simp
  then have "((AwayItem, 0), True, ay_clock x) \<in> set (marks answered_db)" using x(2,3) by (simp add: marks_def away_marks_def)
  then have "waits (AwayItem, 0) answered_db" unfolding waits_def by blast
  moreover have "waits r d' \<longleftrightarrow> waits r d" if "map (\<lambda>(r, p, c). (r, p)) (marks d') = map (\<lambda>(r, p, c). (r, p)) (marks d)" for r d d'
  proof -
    have "waits r x \<longleftrightarrow> (r, True) \<in> set (map (\<lambda>(r, p, c). (r, p)) (marks x))" for x by (force simp: waits_def)
    then show ?thesis using that by metis
  qed
  moreover have "map (\<lambda>(r, p, c). (r, p)) (marks ?d) = map (\<lambda>(r, p, c). (r, p)) (marks answered_db)"
  proof (cases rule: tick_parts [of reminding_jobs 172800000 answered_db])
    case (1 rem esc)
    show ?thesis unfolding 1(5)
      by (simp add: reminded_tables_def markReminded_def markEscalated_def marks_markSla marks_filled comp_def case_prod_unfold)
  qed
  ultimately have "waiting_on (AwayItem, 0) ?d ?d" by (metis waiting_on.waits_there)
  from nobody_is_reminded_twice [OF answered_reachable prod.collapse [symmetric] this, of reminding_jobs 172810000] answered_marked
  show ?thesis by simp
qed

end
