(* ===== verification/Attendance.thy ===== *)
theory Attendance
  imports Day_Keys
begin

text \<open>
  Attendance, \<open>src/src/modules/worktime/domain/attendance.ts\<close>: the seconds a shift expects,
  the paid break allowance and the day's focus target, the class of a day and late starts.
\<close>

datatype day_class = FULL | HALF | ABSENT | OFF | EXTRA | IN_PROGRESS | UPCOMING

definition NO_SHIFT_EXPECTED_SEC :: int where
  "NO_SHIFT_EXPECTED_SEC = 8 * 60 * 60"

definition NO_SHIFT_WORK_DAYS :: "int list" where
  "NO_SHIFT_WORK_DAYS = [1, 2, 3, 4, 5, 6]"

record shift_break =
  sb_enabled :: bool
  sb_durationMin :: int

record attendance_shift =
  as_start :: string
  as_end :: string
  as_workDays :: "int list"
  as_breaks :: "shift_break list"

text \<open>\<open>hmToMinutes(end) - hmToMinutes(start)\<close>, past midnight when not positive; None when a time is invalid.\<close>

definition shift_minutes :: "attendance_shift \<Rightarrow> int option" where
  "shift_minutes shift =
     (case (hmToMinutes (as_end shift), hmToMinutes (as_start shift)) of
        (Some e, Some s) \<Rightarrow>
          (let lengthMin = e - s in Some (if lengthMin \<le> 0 then lengthMin + 1440 else lengthMin))
      | _ \<Rightarrow> None)"

definition enabled_break_minutes :: "shift_break list \<Rightarrow> int" where
  "enabled_break_minutes breaks =
     foldl (\<lambda>sum b. sum + max 0 (sb_durationMin b)) 0 (filter sb_enabled breaks)"

definition expectedSecOf :: "attendance_shift option \<Rightarrow> int" where
  "expectedSecOf shift =
     (case shift of
        None \<Rightarrow> NO_SHIFT_EXPECTED_SEC
      | Some s \<Rightarrow>
          if \<not> isValidHm (as_start s) \<or> \<not> isValidHm (as_end s) then NO_SHIFT_EXPECTED_SEC
          else (case shift_minutes s of
                  None \<Rightarrow> NO_SHIFT_EXPECTED_SEC
                | Some lengthMin \<Rightarrow> max 0 ((lengthMin - enabled_break_minutes (as_breaks s)) * 60)))"

definition shiftLengthSecOf :: "attendance_shift option \<Rightarrow> int" where
  "shiftLengthSecOf shift =
     (case shift of
        None \<Rightarrow> NO_SHIFT_EXPECTED_SEC
      | Some s \<Rightarrow>
          if \<not> isValidHm (as_start s) \<or> \<not> isValidHm (as_end s) then NO_SHIFT_EXPECTED_SEC
          else (case shift_minutes s of
                  None \<Rightarrow> NO_SHIFT_EXPECTED_SEC
                | Some lengthMin \<Rightarrow> lengthMin * 60))"

definition scheduledBreakMinOf :: "attendance_shift option \<Rightarrow> int" where
  "scheduledBreakMinOf shift =
     (case shift of None \<Rightarrow> 0 | Some s \<Rightarrow> enabled_break_minutes (as_breaks s))"

record allowance =
  al_scheduledSec :: int
  al_bufferSec :: int
  al_totalSec :: int
  al_shiftLengthSec :: int

definition allowanceOf :: "attendance_shift option \<Rightarrow> int \<Rightarrow> allowance" where
  "allowanceOf shift bufferMin =
     (let scheduledSec = scheduledBreakMinOf shift * 60;
          bufferSec = max 0 (bufferMin * 60)
      in \<lparr>al_scheduledSec = scheduledSec, al_bufferSec = bufferSec,
          al_totalSec = scheduledSec + bufferSec, al_shiftLengthSec = shiftLengthSecOf shift\<rparr>)"

definition targetSecOf :: "attendance_shift option \<Rightarrow> int \<Rightarrow> bool \<Rightarrow> int" where
  "targetSecOf shift bufferMin isWorkingDay =
     (if \<not> isWorkingDay then 0
      else (let a = allowanceOf shift bufferMin in max 0 (al_shiftLengthSec a - al_totalSec a)))"

text \<open>A malformed day has weekday NaN, which no list includes.\<close>

definition isWorkdayFor :: "attendance_shift option \<Rightarrow> string \<Rightarrow> bool" where
  "isWorkdayFor shift dateKey =
     (let days = (case shift of Some s \<Rightarrow> as_workDays s | None \<Rightarrow> NO_SHIFT_WORK_DAYS)
      in case isoWeekdayOfKey dateKey of None \<Rightarrow> False | Some d \<Rightarrow> d \<in> set days)"

record day_class_input =
  dc_date :: string
  dc_today :: string
  dc_workday :: bool
  dc_spanSec :: int
  dc_focusSec :: int
  dc_expectedSec :: int
  dc_fullDayPct :: int
  dc_halfDayPct :: int

definition dayClassOf :: "day_class_input \<Rightarrow> day_class" where
  "dayClassOf i =
     (if dc_date i > dc_today i then UPCOMING
      else if dc_date i = dc_today i then IN_PROGRESS
      else if \<not> dc_workday i then (if dc_spanSec i > 0 then EXTRA else OFF)
      else if dc_expectedSec i \<le> 0 then (if dc_focusSec i > 0 then FULL else ABSENT)
      else if dc_focusSec i * 100 \<ge> dc_expectedSec i * dc_fullDayPct i then FULL
      else if dc_focusSec i * 100 \<ge> dc_expectedSec i * dc_halfDayPct i then HALF
      else ABSENT)"

definition lateStartOf :: "int option \<Rightarrow> int option \<Rightarrow> int \<Rightarrow> int option" where
  "lateStartOf firstStart shiftStart graceMin =
     (case (firstStart, shiftStart) of
        (Some f, Some s) \<Rightarrow>
          (let minutes = (f - s) div 60000 in if minutes > graceMin then Some minutes else None)
      | _ \<Rightarrow> None)"

section \<open>Lemmas\<close>

lemma shift_minutes_valid:
  "isValidHm (as_start s) \<Longrightarrow> isValidHm (as_end s) \<Longrightarrow>
     \<exists>m. shift_minutes s = Some m \<and> 0 < m \<and> m \<le> 1440"
proof -
  assume "isValidHm (as_start s)" "isValidHm (as_end s)"
  then obtain a b where ab: "hmToMinutes (as_start s) = Some a" "hmToMinutes (as_end s) = Some b"
    by (auto simp: isValidHm_def hmToMinutes_def)
  then show ?thesis
    using hmToMinutes_Some [OF ab(1)] hmToMinutes_Some [OF ab(2)] by (auto simp: shift_minutes_def Let_def)
qed

lemma enabled_break_minutes_sum:
  "enabled_break_minutes bs = sum_list (map (\<lambda>b. max 0 (sb_durationMin b)) (filter sb_enabled bs))"
proof -
  have "foldl (\<lambda>sum b. sum + max 0 (sb_durationMin b)) acc bs'
      = acc + sum_list (map (\<lambda>b. max 0 (sb_durationMin b)) bs')" for acc and bs' :: "shift_break list"
    by (induction bs' arbitrary: acc) auto
  then show ?thesis by (simp add: enabled_break_minutes_def)
qed

lemma enabled_break_minutes_nonneg: "0 \<le> enabled_break_minutes bs"
  unfolding enabled_break_minutes_sum by (rule sum_list_nonneg) auto

text \<open>How good a day is, for the classes of past working days.\<close>

fun class_rank :: "day_class \<Rightarrow> nat" where
  "class_rank FULL = 2"
| "class_rank HALF = 1"
| "class_rank _ = 0"

lemma rank_mono:
  assumes "dc_focusSec i \<le> f" "dc_halfDayPct i \<le> dc_fullDayPct i"
  shows "class_rank (dayClassOf i) \<le> class_rank (dayClassOf (i\<lparr>dc_focusSec := f\<rparr>))"
  using assms by (auto simp: dayClassOf_def)

section \<open>Properties\<close>

text \<open>The two ways the backend states a day's goal agree, and both are within the shift. For a
  shift with valid times the length is between one minute and a day; with no buffer the focus
  target of a working day is the attendance expectation; and with any buffer target plus allowance
  covers the shift, exactly when the allowance fits in it.\<close>

theorem target_and_expectation_agree:
  assumes "isValidHm (as_start s)" "isValidHm (as_end s)"
  shows "0 < shiftLengthSecOf (Some s) \<and> shiftLengthSecOf (Some s) \<le> 86400
    \<and> targetSecOf (Some s) 0 True = expectedSecOf (Some s)
    \<and> targetSecOf (Some s) buffer True \<le> expectedSecOf (Some s)
    \<and> targetSecOf (Some s) buffer True + al_totalSec (allowanceOf (Some s) buffer)
        = max (shiftLengthSecOf (Some s)) (al_totalSec (allowanceOf (Some s) buffer))"
proof -
  obtain m where m: "shift_minutes s = Some m" "0 < m" "m \<le> 1440"
    using shift_minutes_valid [OF assms] by blast
  have l: "shiftLengthSecOf (Some s) = m * 60"
    and e: "expectedSecOf (Some s) = max 0 ((m - enabled_break_minutes (as_breaks s)) * 60)"
    using assms m by (simp_all add: shiftLengthSecOf_def expectedSecOf_def)
  have t: "targetSecOf (Some s) b True
      = max 0 (m * 60 - (enabled_break_minutes (as_breaks s) * 60 + max 0 (b * 60)))" for b
    by (simp add: targetSecOf_def allowanceOf_def Let_def l scheduledBreakMinOf_def)
  have al: "al_totalSec (allowanceOf (Some s) b) = enabled_break_minutes (as_breaks s) * 60 + max 0 (b * 60)" for b
    by (simp add: allowanceOf_def Let_def scheduledBreakMinOf_def)
  show ?thesis unfolding l e t al using m(2,3) by (simp add: left_diff_distrib max_def)
qed

theorem target_and_expectation_agree_witness:
  "targetSecOf (Some \<lparr>as_start = ''09:30'', as_end = ''18:30'', as_workDays = [1, 2, 3, 4, 5],
     as_breaks = [\<lparr>sb_enabled = True, sb_durationMin = 80\<rparr>]\<rparr>) 10 True \<le> 27600"
proof -
  define s where "s = \<lparr>as_start = ''09:30'', as_end = ''18:30'', as_workDays = [1, 2, 3, 4, 5 :: int],
     as_breaks = [\<lparr>sb_enabled = True, sb_durationMin = 80 :: int\<rparr>]\<rparr>"
  have v: "isValidHm (as_start s)" "isValidHm (as_end s)" and e: "expectedSecOf (Some s) = 27600"
    unfolding s_def by code_simp+
  show ?thesis using target_and_expectation_agree [OF v, of 10] e unfolding s_def by simp
qed

text \<open>A day's class is the right one. On a past working day with an expectation, the day is FULL
  exactly from \<open>fullDayPct\<close> percent of it on and at least HALF exactly from \<open>halfDayPct\<close>
  percent on (as long as half is not above full), and more focus time never gives a worse class.\<close>

theorem day_class_thresholds:
  assumes "dc_date i < dc_today i" "dc_workday i" "0 < dc_expectedSec i" "dc_halfDayPct i \<le> dc_fullDayPct i"
  shows "(dayClassOf i = FULL \<longleftrightarrow> dc_expectedSec i * dc_fullDayPct i \<le> dc_focusSec i * 100)
    \<and> (dayClassOf i \<in> {FULL, HALF} \<longleftrightarrow> dc_expectedSec i * dc_halfDayPct i \<le> dc_focusSec i * 100)
    \<and> class_rank (dayClassOf i) \<le> class_rank (dayClassOf (i\<lparr>dc_focusSec := max (dc_focusSec i) f\<rparr>))"
proof -
  define full half got where "full = dc_expectedSec i * dc_fullDayPct i"
    and "half = dc_expectedSec i * dc_halfDayPct i" and "got = dc_focusSec i * 100"
  note d = this
  have le: "half \<le> full" unfolding d using assms by (intro mult_left_mono) simp_all
  have "\<not> dc_today i < dc_date i" "dc_date i \<noteq> dc_today i" using assms(1) by auto
  then have D: "dayClassOf i = (if full \<le> got then FULL else if half \<le> got then HALF else ABSENT)"
    unfolding dayClassOf_def d using assms(2,3) by simp
  have "dayClassOf i = FULL \<longleftrightarrow> full \<le> got" "dayClassOf i \<in> {FULL, HALF} \<longleftrightarrow> half \<le> got"
    unfolding D using le by auto
  moreover have "class_rank (dayClassOf i) \<le> class_rank (dayClassOf (i\<lparr>dc_focusSec := max (dc_focusSec i) f\<rparr>))"
    using assms by (intro rank_mono) simp_all
  ultimately show ?thesis unfolding d by blast
qed

theorem day_class_thresholds_witness:
  "dayClassOf \<lparr>dc_date = ''2026-10-13'', dc_today = ''2026-10-14'', dc_workday = True, dc_spanSec = 30000,
     dc_focusSec = 22080, dc_expectedSec = 27600, dc_fullDayPct = 80, dc_halfDayPct = 40\<rparr> = FULL"
proof -
  have "''2026-10-13'' < ''2026-10-14''" by (simp add: less_char_def)
  then show ?thesis
    using day_class_thresholds [of "\<lparr>dc_date = ''2026-10-13'', dc_today = ''2026-10-14'', dc_workday = True, dc_spanSec = 30000,
     dc_focusSec = 22080, dc_expectedSec = 27600, dc_fullDayPct = 80, dc_halfDayPct = 40\<rparr>"] by simp
qed

end
