(* ===== verification/Hourly.thy ===== *)
theory Hourly
  imports Intervals Day_Keys
begin

text \<open>
  Hourly activity for managers, \<open>src/src/modules/worktime/domain/hourly.ts\<close>: the 24 clock
  hours of a business day as UTC windows (cached), the time of each hour spent available, on a
  break or in a meeting, and the quiet hours.
\<close>

record hour_activity =
  ha_hour :: nat
  ha_activeMin :: int
  ha_availableMin :: int
  ha_breakMin :: int
  ha_meetingMin :: int
  ha_quiet :: bool

definition QUIET_MIN_AVAILABLE_MIN :: int where
  "QUIET_MIN_AVAILABLE_MIN = 50"

text \<open>The computation of \<open>hourWindows\<close> on a miss of its cache.\<close>

definition hourWindows :: "string \<Rightarrow> zone \<Rightarrow> interval list" where
  "hourWindows dateKey tz =
     map (\<lambda>h. ivl (zonedMinutesToUtc dateKey (int h * 60) tz) (zonedMinutesToUtc dateKey ((int h + 1) * 60) tz))
       [0 ..< 24]"

definition WINDOW_CACHE_MAX :: nat where
  "WINDOW_CACHE_MAX = 2000"

fun window_key :: "string \<times> string \<Rightarrow> string" where
  "window_key (tz, dateKey) = tz @ ''|'' @ dateKey"

fun window_value :: "(string \<Rightarrow> zone) \<Rightarrow> string \<times> string \<Rightarrow> interval list" where
  "window_value zones (tz, dateKey) = hourWindows dateKey (zones tz)"

definition hour_windows_cached ::
  "(string \<Rightarrow> zone) \<Rightarrow> interval list memo \<Rightarrow> string \<Rightarrow> string \<Rightarrow> interval list memo \<times> interval list" where
  "hour_windows_cached zones cache dateKey tz =
     memo_call window_key (window_value zones) WINDOW_CACHE_MAX cache (tz, dateKey)"

fun overlapIn :: "interval list \<Rightarrow> interval \<Rightarrow> int" where
  "overlapIn [] w = 0"
| "overlapIn (i # is) w =
     (if i_start i \<ge> i_end w then 0
      else (if i_end i > i_start w then min (i_end i) (i_end w) - max (i_start i) (i_start w) else 0)
           + overlapIn is w)"

definition dayHourWindows :: "string \<Rightarrow> zone \<Rightarrow> interval list \<Rightarrow> interval list" where
  "dayHourWindows dateKey tz work =
     (let base = hourWindows dateKey tz; w = normalize work in
      if w = [] \<or> i_end (last w) \<le> i_end (base ! 23) then base
      else
        (let nxt = hourWindows (addDaysToKey dateKey 1) tz
         in map (\<lambda>(h, n). if overlapIn w n > overlapIn w h then n else h) (zip base nxt)))"

record hourly_input =
  hi_dateKey :: string
  hi_tz :: zone
  hi_work :: "interval list"
  hi_breaks :: "interval list"
  hi_meetings :: "interval list"
  hi_activeSecByHour :: "int list"
  hi_quietHourActiveMin :: int

definition active_sec :: "int list \<Rightarrow> nat \<Rightarrow> int" where
  "active_sec xs hour = (if hour < length xs then xs ! hour else 0)"

definition hour_row ::
  "interval list \<Rightarrow> interval list \<Rightarrow> interval list \<Rightarrow> interval list \<Rightarrow> int list \<Rightarrow> int \<Rightarrow> interval \<Rightarrow> nat
   \<Rightarrow> hour_activity" where
  "hour_row work breaks meetings workAway activeSec quietMin h hour =
     (let workMs = overlapIn work h;
          breakMs = overlapIn breaks h;
          meetingMs = overlapIn meetings h;
          availableMs = max 0 (workMs - overlapIn workAway h);
          activeMin = min 60 (max 0 (round_div (active_sec activeSec hour) 60));
          availableMin = round_div availableMs 60000
      in \<lparr>ha_hour = hour, ha_activeMin = activeMin, ha_availableMin = availableMin,
          ha_breakMin = round_div breakMs 60000, ha_meetingMin = round_div meetingMs 60000,
          ha_quiet = (availableMs \<ge> QUIET_MIN_AVAILABLE_MIN * 60000 \<and> breakMs = 0 \<and> meetingMs = 0
                      \<and> activeMin < quietMin)\<rparr>)"

definition buildHourly :: "hourly_input \<Rightarrow> hour_activity list" where
  "buildHourly input =
     (let work = normalize (hi_work input);
          breaks = normalize (hi_breaks input);
          meetings = normalize (hi_meetings input);
          workAway = intersect work (normalize (breaks @ meetings));
          windows = dayHourWindows (hi_dateKey input) (hi_tz input) work
      in map (\<lambda>(h, hour). hour_row work breaks meetings workAway (hi_activeSecByHour input)
                (hi_quietHourActiveMin input) h hour)
           (zip windows [0 ..< length windows]))"

definition quietHoursOf :: "hour_activity list \<Rightarrow> nat" where
  "quietHoursOf hours = length (filter ha_quiet hours)"

definition activeMinOf :: "hour_activity list \<Rightarrow> int" where
  "activeMinOf hours = foldl (\<lambda>sum h. sum + ha_activeMin h) 0 hours"

section \<open>Lemmas\<close>

lemma pts_Cons: "pts (i # is) = {i_start i ..< i_end i} \<union> pts is"
  by (simp add: pts_def)

lemma overlapIn_card:
  assumes "canonical xs" "i_start w \<le> i_end w"
  shows "overlapIn xs w = int (card (pts xs \<inter> {i_start w ..< i_end w}))"
  using assms(1)
proof (induction xs)
  case (Cons i "is")
  let ?w = "{i_start w ..< i_end w}"
  have can: "canonical is" "i_start i < i_end i" "\<forall>j \<in> set is. i_end i < i_start j"
    using Cons.prems by (auto simp: canonical_def)
  show ?case
  proof (cases "i_start i \<ge> i_end w")
    case True
    then have "pts (i # is) \<inter> ?w = {}"
      using can by (fastforce simp: pts_def)
    then show ?thesis using True by simp
  next
    case False
    have "{i_start i ..< i_end i} \<inter> pts is = {}" using can by (fastforce simp: pts_def)
    then have "card (pts (i # is) \<inter> ?w) = card ({i_start i ..< i_end i} \<inter> ?w) + card (pts is \<inter> ?w)"
      unfolding pts_Cons Int_Un_distrib2 by (intro card_Un_disjoint) auto
    moreover have "int (card ({i_start i ..< i_end i} \<inter> ?w)) =
        (if i_end i > i_start w then min (i_end i) (i_end w) - max (i_start i) (i_start w) else 0)"
      using False can assms(2) by (auto simp: Int_atLeastLessThan)
    ultimately show ?thesis using False Cons.IH [OF can(1)] by simp
  qed
qed simp

lemma length_hourWindows [simp]: "length (hourWindows k tz) = 24"
  by (simp add: hourWindows_def)

lemma length_dayHourWindows [simp]: "length (dayHourWindows k tz w) = 24"
  by (simp add: dayHourWindows_def Let_def)

lemma hourWindows_fixed:
  assumes "1000 \<le> utc_year n" "1000 dvd c" "\<bar>c\<bar> \<le> msPerDay"
  shows "hourWindows (key_of_day n) (\<lambda>_. c) =
    map (\<lambda>h. ivl (n * msPerDay - c + int h * 3600000) (n * msPerDay - c + (int h + 1) * 3600000)) [0 ..< 24]"
  unfolding hourWindows_def using zonedMinutesToUtc_fixed [OF assms(1) _ assms(2,3)]
  by (simp add: algebra_simps)

lemma day_window_elem:
  assumes "w \<in> set (dayHourWindows k tz work)"
  shows "w \<in> set (hourWindows k tz) \<or> w \<in> set (hourWindows (addDaysToKey k 1) tz)"
  using assms by (auto simp: dayHourWindows_def Let_def dest: set_zip_leftD set_zip_rightD split: if_splits)

interpretation window_memo: bounded_memo window_key "window_value zones" WINDOW_CACHE_MAX
  "\<lambda>call. CHR ''|'' \<notin> set (fst call)" for zones
proof unfold_locales
  show "x = y" if "CHR ''|'' \<notin> set (fst x)" "CHR ''|'' \<notin> set (fst y)" "window_key x = window_key y" for x y
  proof -
    obtain a b c d where xy: "x = (a, b)" "y = (c, d)" by (metis surj_pair)
    then have "a @ CHR ''|'' # b = c @ CHR ''|'' # d" using that(3) by simp
    then show ?thesis using split_bar_eq [of a c b d] that(1,2) by (simp add: xy)
  qed
  show "0 < WINDOW_CACHE_MAX" by (simp add: WINDOW_CACHE_MAX_def)
qed

text \<open>What an hour's row states, as measures of sets of instants.\<close>

definition hour_spec :: "hourly_input \<Rightarrow> interval \<Rightarrow> nat \<Rightarrow> hour_activity" where
  "hour_spec input h hour =
     (let H = {i_start h ..< i_end h}; W = pts (hi_work input); B = pts (hi_breaks input);
          M = pts (hi_meetings input);
          available = int (card ((W \<inter> H) - B - M));
          active = min 60 (max 0 (round_div (active_sec (hi_activeSecByHour input) hour) 60))
      in \<lparr>ha_hour = hour, ha_activeMin = active, ha_availableMin = round_div available 60000,
          ha_breakMin = round_div (int (card (B \<inter> H))) 60000,
          ha_meetingMin = round_div (int (card (M \<inter> H))) 60000,
          ha_quiet = (available \<ge> 3000000 \<and> B \<inter> H = {} \<and> M \<inter> H = {}
                      \<and> active < hi_quietHourActiveMin input)\<rparr>)"

lemma hour_row_spec:
  fixes input :: hourly_input
  assumes "i_start h \<le> i_end h"
  defines "work \<equiv> normalize (hi_work input)" and "breaks \<equiv> normalize (hi_breaks input)"
    and "meetings \<equiv> normalize (hi_meetings input)"
  shows "hour_row work breaks meetings (intersect work (normalize (breaks @ meetings)))
    (hi_activeSecByHour input) (hi_quietHourActiveMin input) h hour = hour_spec input h hour"
proof -
  define H W B M where "H = {i_start h ..< i_end h}" and "W = pts (hi_work input)"
    and "B = pts (hi_breaks input)" and "M = pts (hi_meetings input)"
  note d = this
  have fin: "finite H" "finite W" "finite B" "finite M" by (simp_all add: d)
  have wk: "overlapIn work h = int (card (W \<inter> H))" and bk: "overlapIn breaks h = int (card (B \<inter> H))"
    and mt: "overlapIn meetings h = int (card (M \<inter> H))"
    using assms(1) by (simp_all add: overlapIn_card work_def breaks_def meetings_def d)
  have aw: "overlapIn (intersect work (normalize (breaks @ meetings))) h = int (card (W \<inter> (B \<union> M) \<inter> H))"
    using assms(1) by (simp add: overlapIn_card work_def breaks_def meetings_def d)
  have "card (W \<inter> H) = card (W \<inter> (B \<union> M) \<inter> H) + card ((W \<inter> H) - B - M)"
    using fin by (subst card_Un_disjoint [symmetric]) (auto intro!: arg_cong [of _ _ card])
  then have av: "max 0 (overlapIn work h - overlapIn (intersect work (normalize (breaks @ meetings))) h)
      = int (card ((W \<inter> H) - B - M))"
    unfolding wk aw by simp
  have z: "overlapIn breaks h = 0 \<longleftrightarrow> B \<inter> H = {}" "overlapIn meetings h = 0 \<longleftrightarrow> M \<inter> H = {}"
    unfolding bk mt using fin by auto
  show ?thesis
    unfolding hour_row_def hour_spec_def Let_def d [symmetric] av z
    by (simp add: bk mt QUIET_MIN_AVAILABLE_MIN_def)
qed

section \<open>Properties\<close>

text \<open>The clock hours tile the day. In a zone with one offset (such as Asia/Kolkata, the
  default), \<open>hourWindows\<close> of a day are 24 consecutive windows of one hour whose union is the day
  from midnight to midnight, and the hours of a day that \<open>dayHourWindows\<close> picks are hours of that
  day or of the next.\<close>

theorem hour_windows_tile_the_day:
  assumes "1000 \<le> utc_year n" "1000 dvd c" "\<bar>c\<bar> \<le> msPerDay"
  shows "pts (hourWindows (key_of_day n) (\<lambda>_. c)) = {n * msPerDay - c ..< (n + 1) * msPerDay - c}
    \<and> sorted_wrt (\<lambda>a b. i_end a \<le> i_start b) (hourWindows (key_of_day n) (\<lambda>_. c))
    \<and> (\<lambda>w. i_end w - i_start w) ` set (hourWindows (key_of_day n) (\<lambda>_. c)) = {3600000}
    \<and> set (dayHourWindows (key_of_day n) (\<lambda>_. c) work)
        \<subseteq> set (hourWindows (key_of_day n) (\<lambda>_. c)) \<union> set (hourWindows (addDaysToKey (key_of_day n) 1) (\<lambda>_. c))"
proof -
  define z where "z = n * msPerDay - c"
  have eq: "hourWindows (key_of_day n) (\<lambda>_. c) =
      map (\<lambda>h. ivl (z + int h * 3600000) (z + (int h + 1) * 3600000)) [0 ..< 24]"
    using hourWindows_fixed [OF assms] by (simp add: z_def)
  have "pts (map (\<lambda>h. ivl (z + int h * 3600000) (z + (int h + 1) * 3600000)) [0 ..< m])
      = {z ..< z + int m * 3600000}" for m
  proof (induction m)
    case (Suc m)
    then show ?case by (auto simp: pts_def)
  qed simp
  then have "pts (hourWindows (key_of_day n) (\<lambda>_. c)) = {z ..< z + int 24 * 3600000}" unfolding eq .
  moreover have "{z ..< z + int 24 * 3600000} = {n * msPerDay - c ..< (n + 1) * msPerDay - c}"
    by (simp add: z_def msPerDay_def algebra_simps)
  moreover have "sorted_wrt (\<lambda>a b. i_end a \<le> i_start b) (hourWindows (key_of_day n) (\<lambda>_. c))"
    unfolding eq sorted_wrt_map by (rule sorted_wrt_mono_rel [OF _ sorted_wrt_upt]) simp
  moreover have "(\<lambda>w. i_end w - i_start w) ` set (hourWindows (key_of_day n) (\<lambda>_. c)) = {3600000}"
    unfolding eq set_map image_image by (auto simp: distrib_right intro!: image_eqI [of _ _ 0])
  moreover have "set (dayHourWindows (key_of_day n) (\<lambda>_. c) work)
      \<subseteq> set (hourWindows (key_of_day n) (\<lambda>_. c)) \<union> set (hourWindows (addDaysToKey (key_of_day n) 1) (\<lambda>_. c))"
    using day_window_elem by fast
  ultimately show ?thesis by (simp only: simp_thms)
qed

theorem hour_windows_tile_the_day_witness:
  "pts (hourWindows ''2026-02-28'' (\<lambda>_. 19800000)) = {1772217000000 ..< 1772303400000}"
  using hour_windows_tile_the_day [of 20512 19800000] sample_days by (simp add: msPerDay_def)

text \<open>C37: each hour states the measure of the right sets. When no window is reversed, the 24 rows of
  \<open>buildHourly\<close> are the hours' specification: available time is the work time of the hour less
  every break and meeting, break and meeting minutes are their time in the hour, active minutes are
  between 0 and 60, and an hour is quiet exactly when at least 50 minutes were available, no break
  or meeting touches it at all, and activity was below the threshold.\<close>

theorem buildHourly_spec:
  assumes "\<And>w. w \<in> set (dayHourWindows (hi_dateKey input) (hi_tz input) (normalize (hi_work input)))
      \<Longrightarrow> i_start w \<le> i_end w"
  shows "buildHourly input =
    map (\<lambda>(h, hour). hour_spec input h hour)
      (zip (dayHourWindows (hi_dateKey input) (hi_tz input) (normalize (hi_work input))) [0 ..< 24])
   \<and> length (buildHourly input) = 24 \<and> ha_activeMin ` set (buildHourly input) \<subseteq> {0 .. 60}"
proof -
  have eq: "buildHourly input = map (\<lambda>(h, hour). hour_spec input h hour)
      (zip (dayHourWindows (hi_dateKey input) (hi_tz input) (normalize (hi_work input))) [0 ..< 24])"
    unfolding buildHourly_def Let_def length_dayHourWindows
    by (rule map_cong) (auto simp: hour_row_spec assms dest: set_zip_leftD)
  have "ha_activeMin (hour_spec input h hour) \<in> {0 .. 60}" for h hour
    by (simp add: hour_spec_def Let_def)
  then show ?thesis unfolding eq by auto
qed

theorem buildHourly_spec_witness:
  "length (buildHourly \<lparr>hi_dateKey = ''2026-02-28'', hi_tz = (\<lambda>_. 19800000),
     hi_work = [ivl 1772249400000 1772281800000], hi_breaks = [], hi_meetings = [],
     hi_activeSecByHour = [], hi_quietHourActiveMin = 5\<rparr>) = 24"
proof -
  define input where "input = \<lparr>hi_dateKey = ''2026-02-28'', hi_tz = (\<lambda>_ :: int. 19800000 :: int),
     hi_work = [ivl 1772249400000 1772281800000], hi_breaks = [], hi_meetings = [],
     hi_activeSecByHour = [], hi_quietHourActiveMin = 5\<rparr>"
  have "addDaysToKey ''2026-02-28'' 1 = ''2026-03-01''" using addDaysToKey_day [of 20512 1] sample_days
      valid_day_of_year [of 20513] by simp
  then have "i_start w \<le> i_end w"
    if "w \<in> set (dayHourWindows (hi_dateKey input) (hi_tz input) (normalize (hi_work input)))" for w
    using day_window_elem [OF that] hourWindows_fixed [of 20512 19800000] hourWindows_fixed [of 20513 19800000]
      sample_days by (auto simp: input_def msPerDay_def)
  then show ?thesis using buildHourly_spec [of input] by (simp add: input_def)
qed

end
