(* ===== verification/Skips.thy ===== *)
theory Skips
  imports My_Breaks
begin

text \<open>
  Skipped breaks: \<open>src/src/modules/worktime/infrastructure/prisma-skip.repository.ts\<close> (the manual skip and
  the creation of auto-skips) and \<open>application/skips.service.ts\<close> (the checks of a manual skip, the plan of a
  person's auto-skips, comments and the comments of End Day). The tables are those of \<open>Work_Sessions\<close>.
  The id an auto-skip is created with is left out: it is a function of the person, day and kind, which
  the unique key of the records compares already. Notices and log lines are left out.
\<close>

section \<open>The repository\<close>

datatype skip_refusal = SkDayNotStarted | SkDayEnded | SkBreakAlreadyTaken | SkAlreadyOnBreak

datatype create_skip_result = SkipCreated break_record_row | SkipRefused skip_refusal

definition skip_clock :: "new_break_record \<Rightarrow> clock_frame \<Rightarrow> int \<Rightarrow> break_db \<Rightarrow> pending_clock" where
  "skip_clock r clk now db =
     (if nb_approvalStatus r = Pending then pendingClock clk now (db_sla db (nb_userId r)) else no_clock)"

text \<open>Why the day is closed for a skip, judged before anything is written.\<close>

definition closed_for_skip :: "uid \<Rightarrow> agent_generation \<Rightarrow> string \<Rightarrow> work_db \<Rightarrow> skip_refusal option" where
  "closed_for_skip u generation today w =
     (if findOpen w u \<noteq> None then None
      else if generation = AGENT_31 then Some (if sessions_on w u today \<noteq> [] then SkDayEnded else SkDayNotStarted)
      else if dayEndedAt w u today \<noteq> None then Some SkDayEnded
      else None)"

definition break_open :: "break_db \<Rightarrow> uid \<Rightarrow> bool" where
  "break_open db u =
     (\<exists>s \<in> set (db_presence db). ss_userId s = u \<and> ss_endedAt s = None \<and> ss_type s \<in> {PBreak, PLunch})"

fun skip_closed :: "day_closed \<Rightarrow> skip_refusal" where
  "skip_closed DayNotStarted = SkDayNotStarted"
| "skip_closed DayAlreadyEnded = SkDayEnded"

definition createSkip_tx ::
  "new_break_record \<Rightarrow> agent_generation \<Rightarrow> int \<Rightarrow> string \<Rightarrow> pending_clock \<Rightarrow> create_skip_result work_tx" where
  "createSkip_tx r generation now today clock w =
     (let u = nb_userId r; db = wd_tables w in
      case closed_for_skip u generation today w of
        Some code \<Rightarrow> (Inr (SkipRefused code), w)
      | None \<Rightarrow>
          if taken_record db r \<noteq> None then (Inr (SkipRefused SkBreakAlreadyTaken), w)
          else if break_open db u then (Inr (SkipRefused SkAlreadyOnBreak), w)
          else if nb_approvalStatus r = Pending \<and> isMonthLocked db (nb_date r) u
          then (Inl (App (ConflictError ''MONTH_LOCKED'')), w)
          else
            (case (if findOpen w u = None then ensureOpenTx u generation now today w
                   else (DayIsOpen (the (findOpen w u)) False, w)) of
               (DayIsClosed code, w1) \<Rightarrow> (Inr (SkipRefused (skip_closed code)), w1)
             | (DayIsOpen _ _, w1) \<Rightarrow>
                 (case create_break (fresh_row (r\<lparr>nb_outcome := Skipped\<rparr>) clock) (wd_tables w1) of
                    (Inl e, _) \<Rightarrow> (Inl e, w)
                  | (Inr b, db2) \<Rightarrow> (Inr (SkipCreated (breakRowFromPrisma db2 b)), w1\<lparr>wd_tables := db2\<rparr>))))"

definition createSkip ::
  "new_break_record \<Rightarrow> agent_generation \<Rightarrow> int \<Rightarrow> string \<Rightarrow> clock_frame \<Rightarrow> create_skip_result work_tx" where
  "createSkip r generation now today clk w =
     (case createSkip_tx r generation now today (skip_clock r clk now (wd_tables w)) w of
        (Inl P2002, _) \<Rightarrow> (Inr (SkipRefused SkBreakAlreadyTaken), w)
      | (Inl e, _) \<Rightarrow> (Inl e, w)
      | res \<Rightarrow> res)"

text \<open>One transaction per record; one that throws stops the loop with the earlier ones kept.\<close>

fun createAutoSkips :: "new_break_record list \<Rightarrow> int \<Rightarrow> clock_frame \<Rightarrow> break_record_row list tx" where
  "createAutoSkips [] now clk db = (Inr [], db)"
| "createAutoSkips (r # rs) now clk db =
     (if nb_approvalStatus r = Pending \<and> isMonthLocked db (nb_date r) (nb_userId r)
      then createAutoSkips rs now clk db
      else
        (case create_break (fresh_row (r\<lparr>nb_outcome := AutoSkipped\<rparr>) (skip_clock r clk now db)) db of
           (Inl P2002, _) \<Rightarrow> createAutoSkips rs now clk db
         | (Inl e, _) \<Rightarrow> (Inl e, db)
         | (Inr b, db1) \<Rightarrow>
             (case createAutoSkips rs now clk db1 of
                (Inl e, db2) \<Rightarrow> (Inl e, db2)
              | (Inr out, db2) \<Rightarrow> (Inr (breakRowFromPrisma db1 b # out), db2))))"

section \<open>A manual skip\<close>

fun skip_error :: "skip_refusal \<Rightarrow> app_exception" where
  "skip_error SkBreakAlreadyTaken = ConflictError ''BREAK_ALREADY_TAKEN''"
| "skip_error SkAlreadyOnBreak = ConflictError ''ALREADY_ON_BREAK''"
| "skip_error SkDayNotStarted = dayClosedError DayNotStarted"
| "skip_error SkDayEnded = dayClosedError DayAlreadyEnded"

definition judge_skip ::
  "shift_person \<Rightarrow> break_day \<Rightarrow> break_kind \<Rightarrow> string option \<Rightarrow> agent_generation \<Rightarrow> int \<Rightarrow> work_db \<Rightarrow> new_break_record result" where
  "judge_skip p day kind reasonText generation now w =
     (let u = ps_id p; taken = day_records (wd_tables w) u (bk_dateKey day) in
      case (rs_shift (bk_resolved day), List.find (\<lambda>s. sl_kind s = kind) (bk_slots day)) of
        (Some shift, Some slot) \<Rightarrow>
          (if \<not> sl_allowSkip slot then throw (ConflictError ''SKIP_NOT_ALLOWED'')
           else if \<exists>r \<in> set taken. nb_kind r = Some kind then throw (ConflictError ''BREAK_ALREADY_TAKEN'')
           else if \<exists>r \<in> set taken. is_later kind r then throw (ConflictError ''BREAK_ORDER'')
           else if phaseAt slot now = PhUpcoming then throw (ConflictError ''BREAK_NOT_OPEN'')
           else if phaseAt slot now = PhClosed then throw (ConflictError ''BREAK_WINDOW_CLOSED'')
           else
             (case closed_for_skip u generation (bk_dateKey day) w of
                Some code \<Rightarrow> throw (skip_error code)
              | None \<Rightarrow>
                  if on_break (openPresence (wd_tables w) u) then throw (ConflictError ''ALREADY_ON_BREAK'')
                  else
                    (let reason = cleanReason reasonText
                     in if hasReviewer (sp_role p) \<and> text_length reason < reasonMinChars shift
                        then throw (UnprocessableError ''REASON_REQUIRED'')
                        else return (base_record u day shift slot now (classifyStart slot now shift) reason SourceAgent
                               (route (sp_role p) (sp_departmentId p)) Skipped))))
      | _ \<Rightarrow> throw (ConflictError ''BREAK_NOT_SCHEDULED''))"

text \<open>\<open>stale\<close> is \<open>autoCloseIfStale\<close> of the work sessions service; \<open>dayOf\<close> finds the person's break day.\<close>

definition skip_break ::
  "(uid \<Rightarrow> int \<Rightarrow> work_db \<Rightarrow> work_db) \<Rightarrow> shift_person option \<Rightarrow> (shift_person \<Rightarrow> break_day) \<Rightarrow> uid \<Rightarrow> break_kind
   \<Rightarrow> string option \<Rightarrow> agent_generation \<Rightarrow> int \<Rightarrow> clock_frame \<Rightarrow> break_record_row work_tx" where
  "skip_break stale person dayOf me kind reason generation now clk w0 =
     (let w = stale me now w0 in
      case person of
        None \<Rightarrow> (Inl (App (NotFoundError ''NOT_FOUND'')), w)
      | Some p \<Rightarrow>
          (case judge_skip p (dayOf p) kind reason generation now w of
             Inl e \<Rightarrow> (Inl (App e), w)
           | Inr r \<Rightarrow>
               (case createSkip r generation now (bk_dateKey (dayOf p)) clk w of
                  (Inl e, w') \<Rightarrow> (Inl e, w')
                | (Inr (SkipRefused code), w') \<Rightarrow> (Inl (App (skip_error code)), w')
                | (Inr (SkipCreated v), w') \<Rightarrow> (Inr v, w'))))"

section \<open>Comments\<close>

definition minCharsFor :: "uid option \<Rightarrow> (uid \<Rightarrow> shift_record option) \<Rightarrow> int" where
  "minCharsFor shiftId shifts =
     (case shiftId of
        None \<Rightarrow> DEFAULT_REASON_MIN_CHARS
      | Some i \<Rightarrow> (case shifts i of None \<Rightarrow> DEFAULT_REASON_MIN_CHARS | Some s \<Rightarrow> reasonMinChars s))"

definition has_reason :: "new_break_record \<Rightarrow> bool" where
  "has_reason r = (nb_reason r \<noteq> None \<and> nb_reason r \<noteq> Some '''')"

definition comment_skip ::
  "uid \<Rightarrow> uid \<Rightarrow> string \<Rightarrow> (uid \<Rightarrow> shift_record option) \<Rightarrow> int \<Rightarrow> break_record_row tx" where
  "comment_skip me i comment shifts now db =
     (case find_break db i of
        None \<Rightarrow> (Inl (App (NotFoundError ''NOT_FOUND'')), db)
      | Some b \<Rightarrow>
          if br_userId b \<noteq> me then (Inl (App (NotFoundError ''NOT_FOUND'')), db)
          else if \<not> isSkipRecord (br_data b) \<or> has_reason (br_data b) then (Inl (App (ConflictError ''COMMENT_NOT_NEEDED'')), db)
          else
            (let txt = cleanReason (Some comment) in
             if text_length txt < minCharsFor (nb_shiftId (br_data b)) shifts
             then (Inl (App (UnprocessableError ''REASON_REQUIRED'')), db)
             else (case addComment i (coalesce txt '''') now db of
                     (Inl e, db') \<Rightarrow> (Inl e, db')
                   | (Inr None, db') \<Rightarrow> (Inl (App (ConflictError ''COMMENT_NOT_NEEDED'')), db')
                   | (Inr (Some v), db') \<Rightarrow> (Inr v, db'))))"

datatype comment_problem = CmNotFound | CmNotASkip | CmTooShort | CmTooLong | CmDuplicate

definition REASON_MAX_CHARS :: int where
  "REASON_MAX_CHARS = 500"

text \<open>The judgement of End Day's comments: the first bad one is named, and nothing is written. \<open>planned\<close> are
  the auto-skips this End Day is about to create, by the ids they will get.\<close>

definition judge_comment ::
  "uid \<Rightarrow> (uid \<times> string) \<Rightarrow> (uid \<Rightarrow> new_break_record option) \<Rightarrow> (uid \<Rightarrow> shift_record option) \<Rightarrow> break_db
   \<Rightarrow> comment_problem + (uid \<times> string) option" where
  "judge_comment me c planned shifts db =
     (let stored = find_break db (fst c);
          judged = (\<lambda>r. if has_reason r then Inr None
            else (let txt = coalesce (cleanReason (Some (snd c))) '''' in
                  if int (length txt) < minCharsFor (nb_shiftId r) shifts then Inl CmTooShort
                  else if int (length txt) > REASON_MAX_CHARS then Inl CmTooLong
                  else Inr (Some (fst c, txt)))) in
      case planned (fst c) of
        Some r \<Rightarrow> judged r
      | None \<Rightarrow>
          (case stored of
             None \<Rightarrow> Inl CmNotFound
           | Some b \<Rightarrow>
               if br_userId b \<noteq> me then Inl CmNotFound
               else if \<not> isSkipRecord (br_data b) then Inl CmNotASkip
               else judged (br_data b)))"

fun checkEndDayComments ::
  "uid \<Rightarrow> (uid \<times> string) list \<Rightarrow> (uid \<Rightarrow> new_break_record option) \<Rightarrow> (uid \<Rightarrow> shift_record option) \<Rightarrow> break_db \<Rightarrow> uid set
   \<Rightarrow> (uid \<times> comment_problem) + (uid \<times> string) list" where
  "checkEndDayComments me [] planned shifts db seen = Inr []"
| "checkEndDayComments me (c # cs) planned shifts db seen =
     (if fst c \<in> seen then Inl (fst c, CmDuplicate)
      else
        (case judge_comment me c planned shifts db of
           Inl p \<Rightarrow> Inl (fst c, p)
         | Inr x \<Rightarrow>
             (case checkEndDayComments me cs planned shifts db (insert (fst c) seen) of
                Inl e \<Rightarrow> Inl e
              | Inr out \<Rightarrow> Inr (case x of None \<Rightarrow> out | Some y \<Rightarrow> y # out))))"

fun writeEndDayComments :: "(uid \<times> string) list \<Rightarrow> int \<Rightarrow> nat tx" where
  "writeEndDayComments [] now db = (Inr 0, db)"
| "writeEndDayComments (c # cs) now db =
     (case addComment (fst c) (snd c) now db of
        (Inl e, db') \<Rightarrow> (Inl e, db')
      | (Inr v, db') \<Rightarrow>
          (case writeEndDayComments cs now db' of
             (Inl e, db'') \<Rightarrow> (Inl e, db'')
           | (Inr n, db'') \<Rightarrow> (Inr ((if v = None then 0 else 1) + n), db'')))"

section \<open>Auto-skips\<close>

definition owed_of :: "break_slot \<Rightarrow> break_kind owed_slot" where
  "owed_of s = \<lparr>os_kind = sl_kind s, os_scheduledStart = sl_scheduledStart s, os_windowOpen = sl_windowOpen s,
     os_windowClose = sl_windowClose s\<rparr>"

definition recorded_kinds :: "break_db \<Rightarrow> uid \<Rightarrow> string \<Rightarrow> break_kind set" where
  "recorded_kinds db u date =
     set (List.map_filter nb_kind (filter (\<lambda>r. isScheduledKind (nb_kind r)) (day_records db u date)))"

definition auto_skip_record :: "shift_person \<Rightarrow> break_day \<Rightarrow> shift_record \<Rightarrow> break_slot \<Rightarrow> int \<Rightarrow> new_break_record" where
  "auto_skip_record p day shift slot at =
     base_record (ps_id p) day shift slot at \<lparr>sc_timing = OutsideWindow, sc_minutesOff = 0, sc_reasonRequired = False\<rparr>
       None SourceSystem (route (sp_role p) (sp_departmentId p)) AutoSkipped"

definition plan_person ::
  "shift_person \<Rightarrow> break_day \<Rightarrow> work_session list \<Rightarrow> break_db \<Rightarrow> int \<Rightarrow> bool \<Rightarrow> new_break_record list" where
  "plan_person p day sessions db now endingDay =
     (case rs_shift (bk_resolved day) of
        None \<Rightarrow> []
      | Some shift \<Rightarrow>
          List.map_filter (\<lambda>plan. map_option (\<lambda>slot. auto_skip_record p day shift slot (sp_startedAt plan))
              (List.find (\<lambda>s. sl_kind s = sp_kind plan) (bk_slots day)))
            (planAutoSkips (map owed_of (bk_slots day)) (recorded_kinds db (ps_id p) (bk_dateKey day))
               (map work_span (filter (\<lambda>s. wk_userId s = ps_id p) sessions)) now endingDay))"

definition planPeople :: "(shift_person \<times> break_day) list \<Rightarrow> work_db \<Rightarrow> int \<Rightarrow> bool \<Rightarrow> new_break_record list" where
  "planPeople people w now endingDay =
     (let days = filter (\<lambda>pd. bk_slots (snd pd) \<noteq> []) people in
      if days = [] then []
      else
        (let earliest = Min (set (concat (map (\<lambda>pd. map sl_windowOpen (bk_slots (snd pd))) days)));
             sessions = listOverlapping w (map (\<lambda>pd. ps_id (fst pd)) days) earliest now
         in concat (map (\<lambda>pd. plan_person (fst pd) (snd pd) sessions (wd_tables w) now endingDay) days)))"

definition planAutoSkipsFor ::
  "shift_person option \<Rightarrow> (shift_person \<Rightarrow> break_day) \<Rightarrow> work_db \<Rightarrow> int \<Rightarrow> bool \<Rightarrow> new_break_record list" where
  "planAutoSkipsFor person dayOf w now endingDay =
     (case person of
        None \<Rightarrow> []
      | Some p \<Rightarrow> if sp_active p then planPeople [(p, dayOf p)] w now endingDay else [])"

definition createPlanned :: "new_break_record list \<Rightarrow> int \<Rightarrow> clock_frame \<Rightarrow> nat work_tx" where
  "createPlanned rs now clk w =
     (case createAutoSkips rs now clk (wd_tables w) of
        (Inl e, db) \<Rightarrow> (Inl e, w\<lparr>wd_tables := db\<rparr>)
      | (Inr out, db) \<Rightarrow> (Inr (length out), w\<lparr>wd_tables := db\<rparr>))"

definition autoSkipFor ::
  "shift_person option \<Rightarrow> (shift_person \<Rightarrow> break_day) \<Rightarrow> int \<Rightarrow> bool \<Rightarrow> clock_frame \<Rightarrow> nat work_tx" where
  "autoSkipFor person dayOf now endingDay clk w =
     createPlanned (planAutoSkipsFor person dayOf w now endingDay) now clk w"

text \<open>The job: \<open>active\<close> are the people with a session today or yesterday or still open, with their days.\<close>

definition autoSkipAll :: "(shift_person \<times> break_day) list \<Rightarrow> int \<Rightarrow> clock_frame \<Rightarrow> nat work_tx" where
  "autoSkipAll active now clk w =
     createPlanned (planPeople (filter (\<lambda>pd. sp_active (fst pd)) active) w now False) now clk w"

section \<open>Writing skips\<close>

lemma fresh_row_keys [simp]:
  "session_ids (fresh_row r c i) = {}" "br_presenceSessionId (fresh_row r c i) = None" "br_segments (fresh_row r c i) = []"
  by (simp_all add: fresh_row_def session_ids_def List.map_filter_def)

lemma outcome_sel [simp]:
  "nb_kind (r\<lparr>nb_outcome := oc\<rparr>) = nb_kind r" "nb_userId (r\<lparr>nb_outcome := oc\<rparr>) = nb_userId r"
  "nb_date (r\<lparr>nb_outcome := oc\<rparr>) = nb_date r" "nb_approvalStatus (r\<lparr>nb_outcome := oc\<rparr>) = nb_approvalStatus r"
  by simp_all

text \<open>A record of the person, day and kind that a new one with the number 0 would clash with.\<close>

definition has_first :: "break_db \<Rightarrow> new_break_record \<Rightarrow> bool" where
  "has_first db r \<longleftrightarrow> nb_kind r \<noteq> None \<and> (\<exists>b \<in> set (db_breaks db). br_kind b = nb_kind r \<and> br_userId b = nb_userId r
     \<and> br_date b = nb_date r \<and> br_seq b = 0)"

lemma create_skip_row:
  "create_break (fresh_row (r\<lparr>nb_outcome := oc\<rparr>) c) db =
     (if has_first db r then (Inl P2002, db)
      else (Inr (fresh_row (r\<lparr>nb_outcome := oc\<rparr>) c (db_nextId db)),
            db\<lparr>db_breaks := db_breaks db @ [fresh_row (r\<lparr>nb_outcome := oc\<rparr>) c (db_nextId db)], db_nextId := Suc (db_nextId db)\<rparr>))"
proof -
  have "(\<exists>b \<in> set (db_breaks db). clashes (fresh_row (r\<lparr>nb_outcome := oc\<rparr>) c i) b) \<longleftrightarrow> has_first db r" for i
    unfolding clashes_def has_first_def by simp metis
  then show ?thesis by (simp add: create_break_def Let_def)
qed

text \<open>An auto-skip that creating again would leave out: its month is locked or it has its record.\<close>

definition left_out :: "break_db \<Rightarrow> new_break_record \<Rightarrow> bool" where
  "left_out db r \<longleftrightarrow> (nb_approvalStatus r = Pending \<and> isMonthLocked db (nb_date r) (nb_userId r)) \<or> has_first db r"

lemma createAutoSkips_settled:
  "\<forall>r \<in> set rs. left_out db r \<Longrightarrow> createAutoSkips rs now clk db = (Inr [], db)"
  by (induction rs) (auto simp: left_out_def create_skip_row)

definition grown :: "break_db \<Rightarrow> break_row list \<Rightarrow> break_db \<Rightarrow> bool" where
  "grown db new db' \<longleftrightarrow> db_breaks db' = db_breaks db @ new \<and> db_companyOf db' = db_companyOf db
     \<and> db_monthLocks db' = db_monthLocks db \<and> db_presence db' = db_presence db"

lemma month_locks_only:
  "db_companyOf db' = db_companyOf db \<Longrightarrow> db_monthLocks db' = db_monthLocks db \<Longrightarrow> isMonthLocked db' = isMonthLocked db"
  by (simp add: isMonthLocked_def fun_eq_iff split: option.split)

lemma grown_left_out: "grown db new db' \<Longrightarrow> left_out db r \<Longrightarrow> left_out db' r"
  using month_locks_only [of db' db] by (auto simp: grown_def left_out_def has_first_def)

lemma createAutoSkips_all:
  assumes "\<forall>r \<in> set rs. nb_kind r \<noteq> None"
  shows "\<exists>out db'. createAutoSkips rs now clk db = (Inr out, db') \<and> grown db (map bv_row out) db'
    \<and> (\<forall>r \<in> set rs. left_out db' r)
    \<and> (\<forall>v \<in> set out. \<exists>r \<in> set rs. br_data (bv_row v) = r\<lparr>nb_outcome := AutoSkipped\<rparr>
        \<and> \<not> (nb_approvalStatus r = Pending \<and> isMonthLocked db (nb_date r) (nb_userId r)))"
  using assms
proof (induction rs arbitrary: db)
  case Nil
  then show ?case by (simp add: grown_def)
next
  case (Cons r rs)
  then have ih: "\<exists>out db'. createAutoSkips rs now clk d = (Inr out, db') \<and> grown d (map bv_row out) db'
      \<and> (\<forall>r \<in> set rs. left_out db' r)
      \<and> (\<forall>v \<in> set out. \<exists>r \<in> set rs. br_data (bv_row v) = r\<lparr>nb_outcome := AutoSkipped\<rparr>
          \<and> \<not> (nb_approvalStatus r = Pending \<and> isMonthLocked d (nb_date r) (nb_userId r)))" for d
    by simp
  show ?case
  proof (cases "left_out db r")
    case True
    obtain out db' where o: "createAutoSkips rs now clk db = (Inr out, db')" "grown db (map bv_row out) db'"
      "\<forall>r \<in> set rs. left_out db' r" "\<forall>v \<in> set out. \<exists>r \<in> set rs. br_data (bv_row v) = r\<lparr>nb_outcome := AutoSkipped\<rparr>
          \<and> \<not> (nb_approvalStatus r = Pending \<and> isMonthLocked db (nb_date r) (nb_userId r))"
      using ih by blast
    have "createAutoSkips (r # rs) now clk db = (Inr out, db')"
      using True o(1) by (auto simp: left_out_def create_skip_row)
    then show ?thesis using o True grown_left_out [OF o(2) True] by auto
  next
    case False
    let ?b = "fresh_row (r\<lparr>nb_outcome := AutoSkipped\<rparr>) (skip_clock r clk now db) (db_nextId db)"
    let ?db = "db\<lparr>db_breaks := db_breaks db @ [?b], db_nextId := Suc (db_nextId db)\<rparr>"
    obtain out db' where o: "createAutoSkips rs now clk ?db = (Inr out, db')" "grown ?db (map bv_row out) db'"
      "\<forall>r \<in> set rs. left_out db' r" "\<forall>v \<in> set out. \<exists>r \<in> set rs. br_data (bv_row v) = r\<lparr>nb_outcome := AutoSkipped\<rparr>
          \<and> \<not> (nb_approvalStatus r = Pending \<and> isMonthLocked ?db (nb_date r) (nb_userId r))"
      using ih by blast
    have c: "createAutoSkips (r # rs) now clk db = (Inr (breakRowFromPrisma ?db ?b # out), db')"
      using False o(1) by (auto simp: left_out_def create_skip_row)
    have v: "bv_row (breakRowFromPrisma ?db ?b) = ?b" by (simp add: breakRowFromPrisma_def)
    have "left_out ?db r" using Cons.prems by (auto simp: left_out_def has_first_def)
    then have l: "left_out db' r" by (rule grown_left_out [OF o(2)])
    have m: "isMonthLocked ?db = isMonthLocked db" by (rule month_locks_only) simp_all
    have g: "grown db (map bv_row (breakRowFromPrisma ?db ?b # out)) db'" using o(2) v by (simp add: grown_def)
    have a: "\<forall>x \<in> set (r # rs). left_out db' x" using o(3) l by simp
    have "\<forall>v \<in> set (breakRowFromPrisma ?db ?b # out). \<exists>x \<in> set (r # rs). br_data (bv_row v) = x\<lparr>nb_outcome := AutoSkipped\<rparr>
        \<and> \<not> (nb_approvalStatus x = Pending \<and> isMonthLocked db (nb_date x) (nb_userId x))"
      using o(4) False v unfolding m by (auto simp: left_out_def)
    then show ?thesis using c g a by blast
  qed
qed

section \<open>The plan against the tables\<close>

lemma planAutoSkips_fewer:
  assumes "recorded \<subseteq> recorded'"
  shows "set (planAutoSkips slots recorded' sessions now endingDay) \<subseteq> set (planAutoSkips slots recorded sessions now endingDay)"
  using assms by (induction slots) (auto simp: Let_def)

lemma recorded_grown: "grown db new db' \<Longrightarrow> recorded_kinds db u d \<subseteq> recorded_kinds db' u d"
  by (auto simp: recorded_kinds_def day_records_def grown_def)

lemma map_filter_mono: "set xs \<subseteq> set ys \<Longrightarrow> set (List.map_filter f xs) \<subseteq> set (List.map_filter f ys)"
  by (auto simp: List.map_filter_def)

lemma planPeople_fewer:
  assumes "grown (wd_tables w) new db"
  shows "set (planPeople people (w\<lparr>wd_tables := db\<rparr>) now endingDay) \<subseteq> set (planPeople people w now endingDay)"
proof -
  have "set (plan_person p d ss db now endingDay) \<subseteq> set (plan_person p d ss (wd_tables w) now endingDay)" for p d ss
    using map_filter_mono [OF planAutoSkips_fewer [OF recorded_grown [OF assms]]]
    by (cases "rs_shift (bk_resolved d)") (simp_all add: plan_person_def)
  moreover have "listOverlapping (w\<lparr>wd_tables := db\<rparr>) us a b = listOverlapping w us a b" for us a b
    by (simp add: listOverlapping_def)
  ultimately show ?thesis by (fastforce simp: planPeople_def Let_def)
qed

lemma planPeople_kinds: "r \<in> set (planPeople people w now endingDay) \<Longrightarrow> nb_kind r \<noteq> None \<and> nb_outcome r = AutoSkipped"
  by (auto simp: planPeople_def plan_person_def auto_skip_record_def List.map_filter_def Let_def
      split: option.splits if_splits)

lemma planFor_kinds: "r \<in> set (planAutoSkipsFor person dayOf w now endingDay) \<Longrightarrow> nb_kind r \<noteq> None \<and> nb_outcome r = AutoSkipped"
  using planPeople_kinds by (fastforce simp: planAutoSkipsFor_def split: option.splits if_splits)

lemma planFor_fewer:
  "grown (wd_tables w) new db \<Longrightarrow>
     set (planAutoSkipsFor person dayOf (w\<lparr>wd_tables := db\<rparr>) now endingDay) \<subseteq> set (planAutoSkipsFor person dayOf w now endingDay)"
  by (cases person) (auto simp: planAutoSkipsFor_def dest: planPeople_fewer [THEN subsetD])

text \<open>Auto-skips are recorded once. Whoever asks (the job, a day view, End Day), recording the owed breaks of a
  person never fails and only adds records, each an auto-skip that was planned and whose month is not locked
  while it waits; afterwards every planned break has its record or lies in a locked month, and asking again at
  that moment adds nothing.\<close>

theorem auto_skips_are_recorded_once:
  "\<exists>new db. autoSkipFor person dayOf now endingDay clk w = (Inr (length new), w\<lparr>wd_tables := db\<rparr>)
     \<and> db_breaks db = db_breaks (wd_tables w) @ new \<and> db_presence db = db_presence (wd_tables w)
     \<and> br_data ` set new \<subseteq> set (planAutoSkipsFor person dayOf w now endingDay)
     \<and> filter (\<lambda>b. br_approvalStatus b = Pending \<and> isMonthLocked (wd_tables w) (br_date b) (br_userId b)) new = []
     \<and> set (planAutoSkipsFor person dayOf w now endingDay) \<subseteq> {r. left_out db r}
     \<and> autoSkipFor person dayOf now endingDay clk' (w\<lparr>wd_tables := db\<rparr>) = (Inr 0, w\<lparr>wd_tables := db\<rparr>)"
proof -
  let ?plan = "planAutoSkipsFor person dayOf w now endingDay"
  have "\<forall>r \<in> set ?plan. nb_kind r \<noteq> None" using planFor_kinds by blast
  from createAutoSkips_all [OF this, of now clk "wd_tables w"] obtain out db where
    c: "createAutoSkips ?plan now clk (wd_tables w) = (Inr out, db)" "grown (wd_tables w) (map bv_row out) db"
    and l: "\<forall>r \<in> set ?plan. left_out db r"
    and n: "\<forall>v \<in> set out. \<exists>r \<in> set ?plan. br_data (bv_row v) = r\<lparr>nb_outcome := AutoSkipped\<rparr>
        \<and> \<not> (nb_approvalStatus r = Pending \<and> isMonthLocked (wd_tables w) (nb_date r) (nb_userId r))"
    by blast
  have keep: "r\<lparr>nb_outcome := AutoSkipped\<rparr> = r" if "r \<in> set ?plan" for r using planFor_kinds [OF that] by (cases r) simp
  have "\<forall>r \<in> set (planAutoSkipsFor person dayOf (w\<lparr>wd_tables := db\<rparr>) now endingDay). left_out db r"
    using l planFor_fewer [OF c(2)] by blast
  then have again: "autoSkipFor person dayOf now endingDay clk' (w\<lparr>wd_tables := db\<rparr>) = (Inr 0, w\<lparr>wd_tables := db\<rparr>)"
    using createAutoSkips_settled by (simp add: autoSkipFor_def createPlanned_def)
  have first: "autoSkipFor person dayOf now endingDay clk w = (Inr (length (map bv_row out)), w\<lparr>wd_tables := db\<rparr>)"
    using c(1) by (simp add: autoSkipFor_def createPlanned_def)
  have "\<forall>b \<in> set (map bv_row out). br_data b \<in> set ?plan
      \<and> \<not> (br_approvalStatus b = Pending \<and> isMonthLocked (wd_tables w) (br_date b) (br_userId b))"
    using n keep by fastforce
  then have "br_data ` set (map bv_row out) \<subseteq> set ?plan"
    "filter (\<lambda>b. br_approvalStatus b = Pending \<and> isMonthLocked (wd_tables w) (br_date b) (br_userId b)) (map bv_row out) = []"
    unfolding filter_empty_conv by blast+
  then show ?thesis using first again l c(2) unfolding grown_def by blast
qed

section \<open>A manual skip is all or nothing\<close>

lemma createSkip_cases:
  fixes r generation now today clk w
  defines "ready \<equiv> closed_for_skip (nb_userId r) generation today w = None \<and> taken_record (wd_tables w) r = None
      \<and> \<not> break_open (wd_tables w) (nb_userId r)
      \<and> \<not> (nb_approvalStatus r = Pending \<and> isMonthLocked (wd_tables w) (nb_date r) (nb_userId r))"
  shows "\<not> ready \<Longrightarrow> snd (createSkip r generation now today clk w) = w
      \<and> (\<forall>v. fst (createSkip r generation now today clk w) \<noteq> Inr (SkipCreated v))
      \<and> (\<forall>e. fst (createSkip r generation now today clk w) = Inl e \<longrightarrow> e = App (ConflictError ''MONTH_LOCKED''))"
    and "ready \<Longrightarrow> \<exists>v w1 db. createSkip r generation now today clk w = (Inr (SkipCreated v), w1\<lparr>wd_tables := db\<rparr>)
      \<and> w1 = (if findOpen w (nb_userId r) = None then snd (createSessionTx (nb_userId r) now now FromLegacy (\<lambda>_. today) w) else w)
      \<and> br_data (bv_row v) = r\<lparr>nb_outcome := Skipped\<rparr> \<and> grown (wd_tables w) [bv_row v] db"
proof -
  assume nr: "\<not> ready"
  have "createSkip r generation now today clk w \<in> {(Inr (SkipRefused code), w) | code. True}
      \<union> {(Inl (App (ConflictError ''MONTH_LOCKED'')), w)}"
    using nr unfolding ready_def
    by (simp add: createSkip_def createSkip_tx_def Let_def split: option.split) auto
  then show "snd (createSkip r generation now today clk w) = w
      \<and> (\<forall>v. fst (createSkip r generation now today clk w) \<noteq> Inr (SkipCreated v))
      \<and> (\<forall>e. fst (createSkip r generation now today clk w) = Inl e \<longrightarrow> e = App (ConflictError ''MONTH_LOCKED''))"
    by auto
next
  assume ready: "ready"
  let ?u = "nb_userId r" and ?c = "skip_clock r clk now (wd_tables w)"
  let ?w1 = "if findOpen w ?u = None then snd (createSessionTx ?u now now FromLegacy (\<lambda>_. today) w) else w"
  have tab: "wd_tables (snd (createSessionTx ?u now now FromLegacy (\<lambda>_. today) w)) = wd_tables w"
    by (simp add: createSessionTx_def Let_def)
  have nf: "\<not> has_first (wd_tables w) r"
    using ready by (auto simp: ready_def has_first_def taken_record_def find_None_iff split: if_splits)
  let ?b = "fresh_row (r\<lparr>nb_outcome := Skipped\<rparr>) ?c (db_nextId (wd_tables w))"
  let ?db = "(wd_tables w)\<lparr>db_breaks := db_breaks (wd_tables w) @ [?b], db_nextId := Suc (db_nextId (wd_tables w))\<rparr>"
  have gate: "\<exists>s i. (if findOpen w ?u = None then ensureOpenTx ?u generation now today w
      else (DayIsOpen (the (findOpen w ?u)) False, w)) = (DayIsOpen s i, ?w1)"
    using ready unfolding ready_def
    by (cases generation) (auto simp: closed_for_skip_def ensureOpenTx_def case_prod_unfold split: if_splits)
  then have e: "createSkip r generation now today clk w = (Inr (SkipCreated (breakRowFromPrisma ?db ?b)), ?w1\<lparr>wd_tables := ?db\<rparr>)"
    using ready nf unfolding ready_def
    by (auto simp: createSkip_def createSkip_tx_def Let_def create_skip_row tab)
  show "\<exists>v w1 db. createSkip r generation now today clk w = (Inr (SkipCreated v), w1\<lparr>wd_tables := db\<rparr>)
      \<and> w1 = ?w1 \<and> br_data (bv_row v) = r\<lparr>nb_outcome := Skipped\<rparr> \<and> grown (wd_tables w) [bv_row v] db"
    by (rule exI [of _ "breakRowFromPrisma ?db ?b"], rule exI [of _ ?w1], rule exI [of _ ?db], intro conjI, rule e)
      (simp_all add: breakRowFromPrisma_def grown_def)
qed

text \<open>A manual skip is all or nothing. It is recorded exactly when the day is open for the caller (or opens for an
  older agent), the break has no record yet, the person is on no break, and a skip that needs approval lies
  in no locked month; then exactly one record is added, skipped, and the day is open. Refused or failed, it
  changes nothing at all: in particular it opens no day.\<close>

theorem manual_skip_is_all_or_nothing:
  "let (res, w') = createSkip r generation now today clk w;
       ready = (closed_for_skip (nb_userId r) generation today w = None \<and> taken_record (wd_tables w) r = None
         \<and> \<not> break_open (wd_tables w) (nb_userId r)
         \<and> \<not> (nb_approvalStatus r = Pending \<and> isMonthLocked (wd_tables w) (nb_date r) (nb_userId r)))
   in case res of
        Inr (SkipCreated v) \<Rightarrow> ready \<and> br_data (bv_row v) = r\<lparr>nb_outcome := Skipped\<rparr>
          \<and> findOpen w' (nb_userId r) \<noteq> None \<and> db_breaks (wd_tables w') = db_breaks (wd_tables w) @ [bv_row v]
      | Inr (SkipRefused _) \<Rightarrow> \<not> ready \<and> w' = w
      | Inl e \<Rightarrow> \<not> ready \<and> w' = w \<and> e = App (ConflictError ''MONTH_LOCKED'')"
proof -
  let ?ready = "closed_for_skip (nb_userId r) generation today w = None \<and> taken_record (wd_tables w) r = None
    \<and> \<not> break_open (wd_tables w) (nb_userId r)
    \<and> \<not> (nb_approvalStatus r = Pending \<and> isMonthLocked (wd_tables w) (nb_date r) (nb_userId r))"
  show ?thesis
  proof (cases "?ready")
    case False
    obtain res w' where e: "createSkip r generation now today clk w = (res, w')" by fastforce
    have "w' = w" "\<And>v. res \<noteq> Inr (SkipCreated v)" "\<And>x. res = Inl x \<Longrightarrow> x = App (ConflictError ''MONTH_LOCKED'')"
      using createSkip_cases(1) [OF False, of now clk] e by simp_all
    then show ?thesis unfolding e Let_def prod.case using False by (auto split: sum.split create_skip_result.split)
  next
    case True
    let ?w1 = "if findOpen w (nb_userId r) = None then snd (createSessionTx (nb_userId r) now now FromLegacy (\<lambda>_. today) w) else w"
    obtain v db where c: "createSkip r generation now today clk w = (Inr (SkipCreated v), ?w1\<lparr>wd_tables := db\<rparr>)"
      and b: "br_data (bv_row v) = r\<lparr>nb_outcome := Skipped\<rparr>" "grown (wd_tables w) [bv_row v] db"
      using createSkip_cases(2) [OF True, of now clk] by blast
    have "findOpen ?w1 (nb_userId r) \<noteq> None"
      by (auto simp: findOpen_def createSessionTx_def Let_def find_append is_open_def)
    then have f: "findOpen (?w1\<lparr>wd_tables := db\<rparr>) (nb_userId r) \<noteq> None" by (simp add: findOpen_def)
    have g: "db_breaks db = db_breaks (wd_tables w) @ [bv_row v]" using b(2) by (simp add: grown_def)
    show ?thesis
      unfolding c Let_def prod.case sum.case create_skip_result.case using True b(1) f g by simp
  qed
qed

end
