(* ===== verification/Legacy_Breaks.thy ===== *)
theory Legacy_Breaks
  imports Skips
begin

text \<open>
  Breaks of agents older than the schedule: \<open>src/src/modules/shifts/application/legacy-break.subscriber.ts\<close>. A
  break or lunch begun with the plain status buttons (\<open>Presence.startPresence\<close>) publishes an event
  with its presence session; the subscriber finds the day's slot for it and records it. The bus runs
  subscribers after the publisher and swallows what they throw, so this is a step of its own. The
  manager the routing is given is not read by it and is left out, as are the notice and the log line.
\<close>

section \<open>The subscriber\<close>

definition sameType :: "break_day \<Rightarrow> presence_type \<Rightarrow> break_slot list" where
  "sameType day tp = filter (\<lambda>s. sl_presenceType s = tp) (bk_slots day)"

definition takenKinds :: "new_break_record list \<Rightarrow> break_kind set" where
  "takenKinds taken = set (List.map_filter nb_kind taken)"

definition open_slot :: "break_day \<Rightarrow> presence_type \<Rightarrow> int \<Rightarrow> new_break_record list \<Rightarrow> break_slot option" where
  "open_slot day tp at taken =
     List.find (\<lambda>s. sl_kind s \<notin> takenKinds taken \<and> phaseAt s at \<noteq> PhUpcoming \<and> phaseAt s at \<noteq> PhClosed) (sameType day tp)"

definition by_distance :: "int \<Rightarrow> break_slot \<Rightarrow> break_slot \<Rightarrow> int" where
  "by_distance at a b = \<bar>sl_scheduledStart a - at\<bar> - \<bar>sl_scheduledStart b - at\<bar>"

definition nearest_slot :: "break_day \<Rightarrow> presence_type \<Rightarrow> int \<Rightarrow> break_slot option" where
  "nearest_slot day tp at = (case js_sort (by_distance at) (sameType day tp) of [] \<Rightarrow> None | s # _ \<Rightarrow> Some s)"

definition legacy_base ::
  "uid \<Rightarrow> string \<Rightarrow> break_slot option \<Rightarrow> shift_record \<Rightarrow> presence_type \<Rightarrow> int \<Rightarrow> new_break_record" where
  "legacy_base userId date slot shift tp at =
     \<lparr>nb_userId = userId, nb_date = date, nb_kind = None, nb_presenceType = (if tp = PLunch then PLunch else PBreak),
      nb_shiftId = Some (sr_id shift), nb_shiftName = Some (sd_name shift),
      nb_scheduledStart = map_option sl_scheduledStart slot, nb_durationMin = map_option sl_durationMin slot,
      nb_windowOpen = map_option sl_windowOpen slot, nb_windowClose = map_option sl_windowClose slot,
      nb_ringStart = map_option sl_ringStart slot, nb_ringEnd = map_option sl_ringEnd slot, nb_startedAt = at,
      nb_timing = Unscheduled, nb_minutesOff = 0, nb_reason = None, nb_source = SourceLegacy,
      nb_approvalStatus = NotRequired, nb_approverRole = None, nb_approverId = None, nb_outcome = Taken\<rparr>"

definition with_route :: "route_decision \<Rightarrow> new_break_record \<Rightarrow> new_break_record" where
  "with_route rt r =
     r\<lparr>nb_approvalStatus := rd_status rt, nb_approverRole := rd_approverRole rt, nb_approverId := rd_approverId rt\<rparr>"

definition legacy_record ::
  "shift_person \<Rightarrow> break_day \<Rightarrow> shift_record \<Rightarrow> presence_type \<Rightarrow> int \<Rightarrow> new_break_record list \<Rightarrow> new_break_record" where
  "legacy_record p day shift tp at taken =
     (let routed = route (sp_role p) (sp_departmentId p) in
      case open_slot day tp at taken of
        Some slot \<Rightarrow>
          (let judged = classifyStart slot at shift
           in with_route (if sc_reasonRequired judged then routed else no_approval)
                ((legacy_base (ps_id p) (bk_dateKey day) (Some slot) shift tp at)
                   \<lparr>nb_kind := Some (sl_kind slot), nb_timing := sc_timing judged, nb_minutesOff := sc_minutesOff judged\<rparr>))
      | None \<Rightarrow>
          (let nearest = nearest_slot day tp at
           in with_route routed
                ((legacy_base (ps_id p) (bk_dateKey day) nearest shift tp at)
                   \<lparr>nb_timing := (if nearest = None then Unscheduled else OutsideWindow),
                    nb_minutesOff := (case nearest of None \<Rightarrow> 0 | Some s \<Rightarrow> round_div \<bar>at - sl_scheduledStart s\<bar> 60000)\<rparr>)))"

text \<open>\<open>day\<close> is the person's break day at the start; the record is answered when one was made.\<close>

definition legacy_handle ::
  "shift_person option \<Rightarrow> break_day \<Rightarrow> presence_type \<Rightarrow> int \<Rightarrow> uid \<Rightarrow> clock_frame \<Rightarrow> break_record_row option tx" where
  "legacy_handle person day tp at sid clk db =
     (if tp \<noteq> PBreak \<and> tp \<noteq> PLunch then (Inr None, db)
      else
        (case (person, rs_shift (bk_resolved day)) of
           (Some p, Some shift) \<Rightarrow>
             (if \<not> bk_workday day \<or> bk_slots day = [] then (Inr None, db)
              else createForSession (legacy_record p day shift tp at (day_records db (ps_id p) (bk_dateKey day))) sid clk db)
         | _ \<Rightarrow> (Inr None, db)))"

section \<open>What it records\<close>

lemma legacy_base_sel [simp]:
  "nb_userId (legacy_base u d sl sh tp at) = u" "nb_date (legacy_base u d sl sh tp at) = d"
  "nb_kind (legacy_base u d sl sh tp at) = None" "nb_outcome (legacy_base u d sl sh tp at) = Taken"
  "nb_startedAt (legacy_base u d sl sh tp at) = at"
  by (simp_all add: legacy_base_def)

lemma with_route_sel [simp]:
  "nb_userId (with_route rt r) = nb_userId r" "nb_date (with_route rt r) = nb_date r" "nb_kind (with_route rt r) = nb_kind r"
  "nb_approvalStatus (with_route rt r) = rd_status rt" "nb_startedAt (with_route rt r) = nb_startedAt r"
  by (simp_all add: with_route_def)

lemma legacy_record_sel [simp]:
  "nb_userId (legacy_record p day sh tp at taken) = ps_id p" "nb_date (legacy_record p day sh tp at taken) = bk_dateKey day"
  "nb_startedAt (legacy_record p day sh tp at taken) = at"
  "nb_kind (legacy_record p day sh tp at taken) = map_option sl_kind (open_slot day tp at taken)"
  by (simp_all add: legacy_record_def Let_def split: option.split)

lemma open_slot_Some:
  assumes "open_slot day tp at taken = Some s"
  shows "s \<in> set (bk_slots day)" "sl_presenceType s = tp" "sl_windowOpen s \<le> at" "at < sl_windowClose s"
    "\<forall>r \<in> set taken. nb_kind r \<noteq> Some (sl_kind s)"
  using find_Some_set [OF assms [unfolded open_slot_def]]
  by (auto simp: sameType_def takenKinds_def map_filter_def phaseAt_def image_iff split: if_splits)

text \<open>The only way not to wait for approval: nobody reviews the person, or a free slot's window was open
  and the moment needs no reason.\<close>

definition on_schedule :: "break_day \<Rightarrow> shift_record \<Rightarrow> presence_type \<Rightarrow> int \<Rightarrow> new_break_record list \<Rightarrow> new_break_record \<Rightarrow> bool" where
  "on_schedule day shift tp at taken r \<longleftrightarrow>
     (\<exists>s \<in> set (bk_slots day). sl_presenceType s = tp \<and> sl_windowOpen s \<le> at \<and> at < sl_windowClose s
        \<and> nb_kind r = Some (sl_kind s) \<and> (\<forall>x \<in> set taken. nb_kind x \<noteq> Some (sl_kind s))
        \<and> \<not> sc_reasonRequired (classifyStart s at shift))"

lemma route_pending: "rd_status (route r d) = (if hasReviewer r then Pending else NotRequired)"
  by (simp add: route_def hasReviewer_def)

lemma legacy_record_status:
  "nb_approvalStatus (legacy_record p day sh tp at taken) = NotRequired
     \<or> nb_approvalStatus (legacy_record p day sh tp at taken) = Pending \<and> hasReviewer (sp_role p)"
  "nb_approvalStatus (legacy_record p day sh tp at taken) = NotRequired
     \<Longrightarrow> hasReviewer (sp_role p) \<Longrightarrow> on_schedule day sh tp at taken (legacy_record p day sh tp at taken)"
proof -
  let ?st = "nb_approvalStatus (legacy_record p day sh tp at taken)"
  show "?st = NotRequired \<or> ?st = Pending \<and> hasReviewer (sp_role p)"
    by (auto simp: legacy_record_def Let_def route_pending no_approval_def split: option.split)
  assume nr: "?st = NotRequired" "hasReviewer (sp_role p)"
  show "on_schedule day sh tp at taken (legacy_record p day sh tp at taken)"
  proof (cases "open_slot day tp at taken")
    case None
    then show ?thesis using nr by (simp add: legacy_record_def Let_def route_pending)
  next
    case (Some s)
    then have "\<not> sc_reasonRequired (classifyStart s at sh)"
      using nr by (auto simp: legacy_record_def Let_def route_pending split: if_splits)
    then show ?thesis using open_slot_Some [OF Some] Some unfolding on_schedule_def by auto
  qed
qed

definition session_free :: "break_db \<Rightarrow> uid \<Rightarrow> bool" where
  "session_free db sid \<longleftrightarrow> sid \<in> ss_id ` set (db_presence db)
     \<and> (\<forall>b \<in> set (db_breaks db). br_presenceSessionId b \<noteq> Some sid \<and> sid \<notin> session_ids b)"

lemma session_ids_single: "session_ids (b\<lparr>br_segments := [\<lparr>sg_presenceSessionId = Some sid, sg_startedAt = a, sg_endedAt = e\<rparr>]\<rparr>) = {sid}"
  by (simp add: session_ids_def List.map_filter_def)

lemma create_linked_row:
  assumes "session_free db sid" "\<not> has_first db r"
    and mk: "\<And>i. br_data (mk i) = r" "\<And>i. br_seq (mk i) = 0" "\<And>i. br_presenceSessionId (mk i) = Some sid"
      "\<And>i. session_ids (mk i) = {sid}"
  shows "create_break mk db = (Inr (mk (db_nextId db)),
      db\<lparr>db_breaks := db_breaks db @ [mk (db_nextId db)], db_nextId := Suc (db_nextId db)\<rparr>)"
proof -
  have "\<not> clashes (mk i) b" if "b \<in> set (db_breaks db)" for b i
    using that assms(1,2) by (auto simp: clashes_def mk session_free_def has_first_def)
  moreover have "session_ids (mk i) \<subseteq> ss_id ` set (db_presence db)" for i
    using assms(1) by (simp add: mk session_free_def)
  ultimately show ?thesis by (simp add: create_break_def Let_def)
qed

lemma createForSession_new:
  assumes free: "session_free db sid" and first: "\<not> has_first db r"
  shows "if nb_approvalStatus r = Pending \<and> isMonthLocked db (nb_date r) (nb_userId r)
    then createForSession r sid clk db = (Inl (App (ConflictError ''MONTH_LOCKED'')), db)
    else \<exists>v db'. createForSession r sid clk db = (Inr (Some v), db') \<and> br_data (bv_row v) = r
        \<and> br_presenceSessionId (bv_row v) = Some sid \<and> db_breaks db' = db_breaks db @ [bv_row v]"
proof (cases "nb_approvalStatus r = Pending \<and> isMonthLocked db (nb_date r) (nb_userId r)")
  case True
  then show ?thesis by (simp add: createForSession_def createForSession_tx_def transaction_def Let_def)
next
  case False
  let ?row = "\<lambda>clock i. (fresh_row r clock i)\<lparr>br_presenceSessionId := Some sid,
      br_state := (if case session_of db (Some sid) of None \<Rightarrow> False | Some s \<Rightarrow> ss_endedAt s = None then BActive else BEnded),
      br_segments := [\<lparr>sg_presenceSessionId = Some sid,
        sg_startedAt = (case session_of db (Some sid) of None \<Rightarrow> nb_startedAt r | Some s \<Rightarrow> ss_startedAt s),
        sg_endedAt = (case session_of db (Some sid) of None \<Rightarrow> None | Some s \<Rightarrow> ss_endedAt s)\<rparr>]\<rparr>"
  have tx: "createForSession_tx r clock sid db = (Inr (?row clock (db_nextId db)),
      db\<lparr>db_breaks := db_breaks db @ [?row clock (db_nextId db)], db_nextId := Suc (db_nextId db)\<rparr>)" for clock
    unfolding createForSession_tx_def if_not_P [OF False] Let_def
    by (rule create_linked_row [OF free first]) (simp_all add: session_ids_single)
  have row: "br_data (?row clock i) = r" "br_presenceSessionId (?row clock i) = Some sid" for clock i by simp_all
  show ?thesis
    unfolding if_not_P [OF False] createForSession_def Let_def transaction_def tx prod.case sum.case
    by (simp add: breakRowFromPrisma_def)
qed

lemma legacy_kind_is_new: "\<not> has_first db (legacy_record p day sh tp at (day_records db (ps_id p) (bk_dateKey day)))"
  using open_slot_Some(5) by (fastforce simp: has_first_def day_records_def)

text \<open>C27: breaks begun with the plain status buttons do not escape the schedule. On a day with breaks, the
  subscriber records every such break or lunch on its session (or, when it would have to wait in a
  locked month, answers MONTH_LOCKED and records nothing), never against a break of the day that is
  already recorded; for someone whose breaks are reviewed the record waits for approval unless an
  unrecorded slot of that type was open and its time needs no reason.\<close>

theorem status_breaks_are_recorded:
  assumes "session_free db sid" "tp \<in> {PBreak, PLunch}"
    and "rs_shift (bk_resolved day) = Some shift" "bk_workday day" "bk_slots day \<noteq> []"
  shows "let taken = day_records db (ps_id p) (bk_dateKey day); r = legacy_record p day shift tp at taken;
      waits = hasReviewer (sp_role p) \<and> \<not> on_schedule day shift tp at taken r in
    (waits \<longrightarrow> nb_approvalStatus r = Pending)
    \<and> (nb_approvalStatus r = Pending \<longrightarrow> hasReviewer (sp_role p))
    \<and> nb_userId r = ps_id p \<and> nb_startedAt r = at \<and> (\<forall>x \<in> set taken. nb_kind r \<noteq> None \<longrightarrow> nb_kind x \<noteq> nb_kind r)
    \<and> (if nb_approvalStatus r = Pending \<and> isMonthLocked db (bk_dateKey day) (ps_id p)
       then legacy_handle (Some p) day tp at sid clk db = (Inl (App (ConflictError ''MONTH_LOCKED'')), db)
       else \<exists>v db'. legacy_handle (Some p) day tp at sid clk db = (Inr (Some v), db') \<and> br_data (bv_row v) = r
         \<and> br_presenceSessionId (bv_row v) = Some sid \<and> db_breaks db' = db_breaks db @ [bv_row v])"
proof -
  let ?taken = "day_records db (ps_id p) (bk_dateKey day)"
  let ?r = "legacy_record p day shift tp at ?taken"
  have e: "legacy_handle (Some p) day tp at sid clk db = createForSession ?r sid clk db"
    using assms(2-5) by (auto simp: legacy_handle_def)
  have kinds: "\<forall>x \<in> set ?taken. nb_kind ?r \<noteq> None \<longrightarrow> nb_kind x \<noteq> nb_kind ?r"
    using open_slot_Some(5) by (fastforce split: option.splits)
  have st: "hasReviewer (sp_role p) \<and> \<not> on_schedule day shift tp at ?taken ?r \<longrightarrow> nb_approvalStatus ?r = Pending"
    "nb_approvalStatus ?r = Pending \<longrightarrow> hasReviewer (sp_role p)"
    using legacy_record_status [of p day shift tp at ?taken] by auto
  note new = createForSession_new [OF assms(1) legacy_kind_is_new, of p day shift tp at clk, unfolded legacy_record_sel]
  show ?thesis
    unfolding Let_def e legacy_record_sel(1,3) by (intro conjI new refl st kinds)
qed

definition status_tables :: break_db where
  "status_tables = (empty_db (\<lambda>_. Some 7) (\<lambda>_. 48))\<lparr>db_presence := [\<lparr>ss_id = 0, ss_userId = 1, ss_type = PBreak,
     ss_date = ''2026-02-27'', ss_startedAt = friday_eleven, ss_endedAt = None, ss_durationSec = None\<rparr>], db_nextId := 1\<rparr>"

theorem status_breaks_are_recorded_witness:
  "\<exists>v db'. legacy_handle (Some sample_person) friday_day PBreak friday_eleven 0 friday_clock status_tables = (Inr (Some v), db')
    \<and> nb_userId (br_data (bv_row v)) = 1 \<and> br_presenceSessionId (bv_row v) = Some 0"
proof -
  have free: "session_free status_tables 0" by (simp add: session_free_def status_tables_def empty_db_def)
  have lock: "\<not> isMonthLocked status_tables k u" for k u
    by (simp add: isMonthLocked_def status_tables_def empty_db_def split: option.split)
  have u: "ps_id sample_person = 1" by (simp add: sample_person_def)
  have day: "rs_shift (bk_resolved friday_day) = Some sample_record" "bk_workday friday_day" "bk_slots friday_day \<noteq> []"
    by (simp_all add: friday_day_def sample_slots_def)
  from status_breaks_are_recorded [OF free _ day, of PBreak sample_person friday_eleven friday_clock] lock
  show ?thesis unfolding Let_def u by auto
qed

end
