(* ===== verification/Replay.thy ===== *)
theory Replay
  imports Work_Day
begin

text \<open>
  Offline replay: \<open>src/src/shared/http/replay.interceptor.ts\<close> with its routes (\<open>replay-routes.ts\<close>) and the
  working days it reopens and puts back. An event row is keyed by the person and the client's event id;
  bodies are JSON texts. The request's handler is an argument (\<open>next\<close>), answering a status and a body (an
  exception as \<open>errorResponse\<close> gives it). \<open>limits\<close> is the worktime module's \<open>latestEndOfSession\<close>, None when
  it is not loaded. A placeholder's \<open>receivedAt\<close>, the database's now, is the request's. Log lines are left
  out.
\<close>

section \<open>Routes\<close>

definition REPLAY_ROUTES :: "(string \<times> string) list" where
  "REPLAY_ROUTES =
     [(''POST'', ''/activity/start-day''), (''POST'', ''/activity/end-day''), (''POST'', ''/breaks/start''),
      (''POST'', ''/breaks/end''), (''POST'', ''/breaks/quick/start''), (''POST'', ''/breaks/:id/pause''),
      (''POST'', ''/breaks/:id/resume''), (''POST'', ''/breaks/skip''), (''POST'', ''/breaks/:id/comment''),
      (''POST'', ''/meetings/start''), (''POST'', ''/meetings/past''), (''POST'', ''/meetings/:id/end''),
      (''POST'', ''/away''), (''POST'', ''/away/unexplained''), (''POST'', ''/presence/start''),
      (''POST'', ''/presence/end'')]"

text \<open>\<open>/^RXVisionAgent\/(\d+)\./\<close> with a major version of at least 4.\<close>

definition isOfflineAgent :: "string option \<Rightarrow> bool" where
  "isOfflineAgent userAgent =
     (let s = coalesce userAgent ''''; rest = drop 14 s; ds = takeWhile is_digit rest; tl = dropWhile is_digit rest
      in take 14 s = ''RXVisionAgent/'' \<and> ds \<noteq> [] \<and> take 1 tl = ''.'' \<and> parse_digits ds \<ge> 4)"

text \<open>\<open>/^\/api\/v\d+(?=\/)/\<close>.\<close>

definition route_prefix :: "string \<Rightarrow> string" where
  "route_prefix p =
     (let ds = takeWhile is_digit (drop 6 p); rest = dropWhile is_digit (drop 6 p)
      in if take 6 p = ''/api/v'' \<and> ds \<noteq> [] \<and> take 1 rest = ''/'' then ''/api/v'' @ ds else '''')"

text \<open>\<open>replace(/\/:[^/]+/g, '/:id')\<close>.\<close>

definition starts_param :: "string \<Rightarrow> bool" where
  "starts_param s = (take 2 s = ''/:'' \<and> drop 2 s \<noteq> [] \<and> take 1 (drop 2 s) \<noteq> ''/'')"

function name_params :: "string \<Rightarrow> string" where
  "name_params [] = []"
| "name_params (c # r) =
     (if starts_param (c # r) then ''/:id'' @ name_params (dropWhile (\<lambda>z. z \<noteq> CHR ''/'') r) else c # name_params r)"
  by pat_completeness auto

termination
  by (relation "measure length") (auto intro: le_less_trans [OF length_dropWhile_le])

definition strip_slashes :: "string \<Rightarrow> string" where
  "strip_slashes s = rev (dropWhile (\<lambda>c. c = CHR ''/'') (rev s))"

definition or_slash :: "string \<Rightarrow> string" where
  "or_slash s = (if s = [] then ''/'' else s)"

definition split_route :: "string \<Rightarrow> string \<times> string" where
  "split_route routePath =
     (let prefix = route_prefix routePath
      in (prefix, or_slash (strip_slashes (name_params (or_slash (drop (length prefix) routePath))))))"

definition upper_char :: "char \<Rightarrow> char" where
  "upper_char c = (if of_char c \<in> {97..122 :: nat} then char_of (of_char c - 32 :: nat) else c)"

definition isReplayRoute :: "string \<Rightarrow> string \<Rightarrow> bool" where
  "isReplayRoute method routePath = ((map upper_char method, snd (split_route routePath)) \<in> set REPLAY_ROUTES)"

definition replayKinds :: "string \<Rightarrow> string list" where
  "replayKinds routePath = map (\<lambda>(method, path). method @ '' '' @ fst (split_route routePath) @ path) REPLAY_ROUTES"

section \<open>Events\<close>

record agent_event =
  ev_userId :: uid
  ev_clientEventId :: string
  ev_kind :: string
  ev_eventAt :: int
  ev_receivedAt :: int
  ev_status :: nat
  ev_body :: string

definition LIVE_WINDOW_MS :: int where "LIVE_WINDOW_MS = 30000"
definition MAX_AHEAD_MS :: int where "MAX_AHEAD_MS = 10 * 60000"
definition MAX_AGE_MS :: int where "MAX_AGE_MS = 7 * 24 * 3600000"
definition ORDER_TOLERANCE_MS :: int where "ORDER_TOLERANCE_MS = 60000"
definition STALE_PLACEHOLDER_MS :: int where "STALE_PLACEHOLDER_MS = 2 * 60000"
definition IN_PROGRESS :: nat where "IN_PROGRESS = 0"

definition IN_PROGRESS_BODY :: string where
  "IN_PROGRESS_BODY = ''EVENT_IN_PROGRESS''"

definition MUTATING :: "string set" where
  "MUTATING = {''POST'', ''PUT'', ''PATCH'', ''DELETE''}"

text \<open>Which requests the interceptor handles; any other passes through.\<close>

definition handled :: "string option \<Rightarrow> string \<Rightarrow> auth_user option \<Rightarrow> bool" where
  "handled eventId method user = (eventId \<noteq> None \<and> eventId \<noteq> Some '''' \<and> method \<in> MUTATING \<and> user \<noteq> None)"

definition is_hex :: "char \<Rightarrow> bool" where
  "is_hex c = (is_digit c \<or> lower_char c \<in> set ''abcdef'')"

definition is_event_uuid :: "string \<Rightarrow> bool" where
  "is_event_uuid s =
     (map length (split_on CHR ''-'' s) = [8, 4, 4, 4, 12] \<and> (\<forall>c \<in> set (concat (split_on CHR ''-'' s)). is_hex c))"

text \<open>The column is a UUID: its value does not keep the letters' case.\<close>

definition of_event :: "uid \<Rightarrow> string \<Rightarrow> agent_event \<Rightarrow> bool" where
  "of_event u e x = (ev_userId x = u \<and> ev_clientEventId x = to_lower e)"

definition find_event :: "uid \<Rightarrow> string \<Rightarrow> agent_event list \<Rightarrow> agent_event option" where
  "find_event u e evs = List.find (of_event u e) evs"

definition drop_event :: "uid \<Rightarrow> string \<Rightarrow> agent_event list \<Rightarrow> agent_event list" where
  "drop_event u e evs = filter (\<lambda>x. \<not> (of_event u e x \<and> ev_status x = IN_PROGRESS)) evs"

definition finish_event :: "uid \<Rightarrow> string \<Rightarrow> nat \<Rightarrow> string \<Rightarrow> agent_event list \<Rightarrow> agent_event list" where
  "finish_event u e status body evs =
     map (\<lambda>x. if of_event u e x then x\<lparr>ev_status := status, ev_body := body\<rparr> else x) evs"

section \<open>Reopening a day\<close>

record reopened =
  ro_userId :: uid
  ro_sessionId :: uid
  ro_date :: string
  ro_endedAt :: int
  ro_endReason :: "end_reason option"
  ro_source :: work_source
  ro_dayEndedAt :: "int option"

definition newest_start :: "work_session \<Rightarrow> work_session \<Rightarrow> int" where
  "newest_start a b = wk_startedAt b - wk_startedAt a"

definition newest_session :: "work_db \<Rightarrow> uid \<Rightarrow> work_session option" where
  "newest_session w u = first_of (js_sort newest_start (filter (\<lambda>s. wk_userId s = u) (wd_sessions w)))"

definition set_day_end :: "uid \<Rightarrow> string \<Rightarrow> int option \<Rightarrow> break_db \<Rightarrow> break_db" where
  "set_day_end u date t db = db\<lparr>db_dayEnds := (db_dayEnds db)((u, date) := Some t)\<rparr>"

text \<open>Whether the person's newest session is reopened for an action at \<open>eventAt\<close>, and which.\<close>

definition to_reopen :: "(work_session \<Rightarrow> int) option \<Rightarrow> uid \<Rightarrow> int \<Rightarrow> work_db \<Rightarrow> (work_session \<times> int) option" where
  "to_reopen limits u eventAt w =
     (case newest_session w u of
        None \<Rightarrow> None
      | Some s \<Rightarrow>
          (case (wk_endedAt s, limits) of
             (Some e, Some latest) \<Rightarrow>
               if wk_endReason s \<noteq> Some AutoClosed then None
               else if eventAt \<le> e then None
               else if eventAt - wk_startedAt s > 20 * 3600000 then None
               else if findOpen w u \<noteq> None then None
               else if eventAt > latest s then None
               else Some (s, e)
           | _ \<Rightarrow> None))"

definition reopenAutoClosed :: "(work_session \<Rightarrow> int) option \<Rightarrow> uid \<Rightarrow> int \<Rightarrow> work_db \<Rightarrow> reopened option \<times> work_db" where
  "reopenAutoClosed limits u eventAt w =
     (case to_reopen limits u eventAt w of
        None \<Rightarrow> (None, w)
      | Some (s, e) \<Rightarrow>
          (let ended = dayEndedAt w u (wk_date s);
               w1 = update_session (wk_id s) (\<lambda>x. x\<lparr>wk_endedAt := None, wk_source := FromReplay\<rparr>) w;
               w2 = (if ended \<noteq> None then on_tables (set_day_end u (wk_date s) None) w1 else w1)
           in (Some \<lparr>ro_userId = u, ro_sessionId = wk_id s, ro_date = wk_date s, ro_endedAt = e,
                     ro_endReason = wk_endReason s, ro_source = wk_source s, ro_dayEndedAt = ended\<rparr>, w2)))"

text \<open>An update of a row that is gone fails the transaction, which is only logged.\<close>

definition restore :: "reopened \<Rightarrow> work_db \<Rightarrow> work_db" where
  "restore r w =
     (if (\<forall>s \<in> set (wd_sessions w). wk_id s \<noteq> ro_sessionId r)
         \<or> ro_dayEndedAt r \<noteq> None \<and> db_dayEnds (wd_tables w) (ro_userId r, ro_date r) = None then w
      else
        (let w1 = update_session (ro_sessionId r)
               (\<lambda>x. x\<lparr>wk_endedAt := Some (ro_endedAt r), wk_endReason := ro_endReason r, wk_source := ro_source r\<rparr>) w
         in case ro_dayEndedAt r of
              None \<Rightarrow> w1
            | Some t \<Rightarrow> on_tables (set_day_end (ro_userId r) (ro_date r) (Some t)) w1))"

section \<open>The interceptor\<close>

record replay_db =
  rp_events :: "agent_event list"
  rp_work :: work_db

record replay_request =
  rq_user :: auth_user
  rq_eventId :: string
  rq_eventAt :: "int option option"
  rq_method :: string
  rq_routePath :: string
  rq_userAgent :: "string option"

text \<open>The header \<open>X-Event-At\<close>: absent, not a time, or an instant. It counts only for a journaled action.\<close>

definition timed :: "replay_request \<Rightarrow> bool" where
  "timed rq = (isReplayRoute (rq_method rq) (rq_routePath rq) \<and> isOfflineAgent (rq_userAgent rq))"

definition event_at :: "replay_request \<Rightarrow> int \<Rightarrow> int option" where
  "event_at rq now =
     (case (if timed rq then rq_eventAt rq else None) of None \<Rightarrow> Some now | Some t \<Rightarrow> t)"

definition event_time_invalid :: app_exception where
  "event_time_invalid = UnprocessableError ''EVENT_TIME_INVALID''"

datatype lookup = Answered nat string | Unknown | Stale

definition look_up :: "uid \<Rightarrow> string \<Rightarrow> int \<Rightarrow> agent_event list \<Rightarrow> lookup" where
  "look_up u e now evs =
     (case find_event u e evs of
        None \<Rightarrow> Unknown
      | Some x \<Rightarrow>
          if ev_status x \<noteq> IN_PROGRESS then Answered (ev_status x) (ev_body x)
          else if now - ev_receivedAt x < STALE_PLACEHOLDER_MS then Answered 409 IN_PROGRESS_BODY
          else Stale)"

definition last_replayed :: "uid \<Rightarrow> string \<Rightarrow> agent_event list \<Rightarrow> agent_event option" where
  "last_replayed u routePath evs =
     first_of (js_sort (\<lambda>a b. ev_eventAt b - ev_eventAt a)
       (filter (\<lambda>x. ev_userId x = u \<and> ev_status x \<noteq> IN_PROGRESS \<and> ev_kind x \<in> set (replayKinds routePath)) evs))"

definition month_of :: "int \<Rightarrow> zone \<Rightarrow> string" where
  "month_of t tz = take 7 (dateKeyInZone t tz)"

text \<open>The time the action gets and whether it is a replay.\<close>

definition judge_time :: "replay_request \<Rightarrow> int \<Rightarrow> int \<Rightarrow> zone \<Rightarrow> replay_db \<Rightarrow> (int \<times> bool) result" where
  "judge_time rq at now tz db =
     (let u = u_id (rq_user rq); ahead = at - now in
      if ahead > MAX_AHEAD_MS then throw event_time_invalid
      else if - ahead > MAX_AGE_MS then throw event_time_invalid
      else
        (let eventAt = (if ahead > 0 then now else at); replay = now - eventAt > LIVE_WINDOW_MS;
             companyId = or_else (u_companyId (rq_user rq)) (u_orgId (rq_user rq))
         in if replay \<and> (case last_replayed u (rq_routePath rq) (rp_events db) of
                           None \<Rightarrow> False | Some x \<Rightarrow> eventAt < ev_eventAt x - ORDER_TOLERANCE_MS)
            then throw event_time_invalid
            else if replay \<and> (case companyId of None \<Rightarrow> False
                   | Some c \<Rightarrow> (c, month_of eventAt tz) \<in> db_monthLocks (wd_tables (rp_work db)))
            then throw (ConflictError ''MONTH_LOCKED'')
            else return (eventAt, replay)))"

definition placeholder :: "replay_request \<Rightarrow> int \<Rightarrow> int \<Rightarrow> agent_event" where
  "placeholder rq eventAt now =
     \<lparr>ev_userId = u_id (rq_user rq), ev_clientEventId = to_lower (rq_eventId rq),
      ev_kind = take 120 (rq_method rq @ '' '' @ rq_routePath rq), ev_eventAt = eventAt, ev_receivedAt = now,
      ev_status = IN_PROGRESS, ev_body = ''{}''\<rparr>"

datatype begun = Repeat nat string | NewEvent int bool "reopened option"

text \<open>The rest of \<open>begin\<close> once the event is unknown or its stale placeholder dropped.\<close>

definition claim_event ::
  "replay_request \<Rightarrow> int \<Rightarrow> int \<Rightarrow> zone \<Rightarrow> (work_session \<Rightarrow> int) option \<Rightarrow> replay_db \<Rightarrow> begun result \<times> replay_db" where
  "claim_event rq at now tz limits db =
     (let u = u_id (rq_user rq) in
      case judge_time rq at now tz db of
        Inl e \<Rightarrow> (throw e, db)
      | Inr (eventAt, replay) \<Rightarrow>
          if find_event u (rq_eventId rq) (rp_events db) \<noteq> None then (return (Repeat 409 IN_PROGRESS_BODY), db)
          else
            (let db1 = db\<lparr>rp_events := rp_events db @ [placeholder rq eventAt now]\<rparr> in
             if replay
             then (case reopenAutoClosed limits u eventAt (rp_work db1) of
                     (r, w) \<Rightarrow> (return (NewEvent eventAt replay r), db1\<lparr>rp_work := w\<rparr>))
             else (return (NewEvent eventAt replay None), db1)))"

definition begin_event ::
  "replay_request \<Rightarrow> int \<Rightarrow> zone \<Rightarrow> (work_session \<Rightarrow> int) option \<Rightarrow> replay_db \<Rightarrow> begun result \<times> replay_db" where
  "begin_event rq now tz limits db =
     (let u = u_id (rq_user rq); e = rq_eventId rq in
      if \<not> is_event_uuid e then (throw (ValidationError ''VALIDATION_ERROR''), db)
      else
        (case event_at rq now of
           None \<Rightarrow> (throw event_time_invalid, db)
         | Some at \<Rightarrow>
             (case look_up u e now (rp_events db) of
                Answered status body \<Rightarrow> (return (Repeat status body), db)
              | Unknown \<Rightarrow> claim_event rq at now tz limits db
              | Stale \<Rightarrow> claim_event rq at now tz limits (db\<lparr>rp_events := drop_event u e (rp_events db)\<rparr>))))"

text \<open>The end of a request that ran: a refused or failed action puts a reopened day back, and only a
  transient failure is forgotten.\<close>

definition settle :: "replay_request \<Rightarrow> reopened option \<Rightarrow> bool \<Rightarrow> nat \<Rightarrow> string \<Rightarrow> replay_db \<Rightarrow> replay_db" where
  "settle rq r failed status body db =
     (let u = u_id (rq_user rq); e = rq_eventId rq;
          db1 = (if failed then (case r of None \<Rightarrow> db | Some x \<Rightarrow> db\<lparr>rp_work := restore x (rp_work db)\<rparr>) else db)
      in if \<not> failed \<or> status < 500 then db1\<lparr>rp_events := finish_event u e status body (rp_events db1)\<rparr>
         else db1\<lparr>rp_events := drop_event u e (rp_events db1)\<rparr>)"

text \<open>\<open>next\<close> runs at the request's clock: it answers a value with the route's status, or fails with a status and
  a body. What is stored of a value is the status 200.\<close>

type_synonym action = "clock_frame \<Rightarrow> work_db \<Rightarrow> ((nat \<times> string) + (nat \<times> string)) \<times> work_db"

datatype answer = Refused app_exception | Response nat string

definition frame_of :: "int \<Rightarrow> bool \<Rightarrow> int \<Rightarrow> clock_frame" where
  "frame_of eventAt replay now = \<lparr>cf_eventAt = (if replay then Some eventAt else None), cf_wall = now\<rparr>"

definition intercept ::
  "replay_request \<Rightarrow> action \<Rightarrow> int \<Rightarrow> zone \<Rightarrow> (work_session \<Rightarrow> int) option \<Rightarrow> replay_db \<Rightarrow> answer \<times> replay_db" where
  "intercept rq next now tz limits db =
     (case begin_event rq now tz limits db of
        (Inl e, db1) \<Rightarrow> (Refused e, db1)
      | (Inr (Repeat status body), db1) \<Rightarrow> (Response status body, db1)
      | (Inr (NewEvent eventAt replay r), db1) \<Rightarrow>
          (case next (frame_of eventAt replay now) (rp_work db1) of
             (Inr (status, body), w) \<Rightarrow> (Response status body, settle rq r False 200 body (db1\<lparr>rp_work := w\<rparr>))
           | (Inl (status, body), w) \<Rightarrow> (Response status body, settle rq r True status body (db1\<lparr>rp_work := w\<rparr>))))"

end
