(* ===== verification/Replay_Guarantees.thy ===== *)
theory Replay_Guarantees
  imports Replay
begin

text \<open>
  What replaying promises: an event id runs its action once and is answered the same afterwards, a refused
  action leaves the day as it was, only journaled actions act at another time than now, and over any
  interleaving of copies of a request at most one runs while no placeholder grows stale.
\<close>

section \<open>A refused action\<close>

lemma newest_session_Some:
  assumes "newest_session w u = Some s"
  shows "s \<in> set (wd_sessions w)" "wk_userId s = u" "\<forall>t \<in> set (wd_sessions w). wk_userId t = u \<longrightarrow> wk_startedAt t \<le> wk_startedAt s"
proof -
  have "comparator_ok newest_start" unfolding comparator_ok_def newest_start_def by auto
  from first_of_sorted [OF this assms [unfolded newest_session_def]]
  show "s \<in> set (wd_sessions w)" "wk_userId s = u" "\<forall>t \<in> set (wd_sessions w). wk_userId t = u \<longrightarrow> wk_startedAt t \<le> wk_startedAt s"
    by (auto simp: newest_start_def)
qed

lemma to_reopen_Some:
  assumes "to_reopen limits u at w = Some (s, e)"
  shows "newest_session w u = Some s" "wk_endedAt s = Some e" "wk_endReason s = Some AutoClosed" "e < at"
    "at - wk_startedAt s \<le> 20 * 3600000" "findOpen w u = None" "\<exists>latest. limits = Some latest \<and> at \<le> latest s"
  using assms by (auto simp: to_reopen_def split: option.splits if_splits)

lemma set_day_end_back: "db_dayEnds db (u, d) = Some (Some t) \<Longrightarrow> set_day_end u d (Some t) (set_day_end u d None db) = db"
  by (simp add: set_day_end_def fun_upd_idem)

lemma update_back:
  assumes "distinct (map wk_id (wd_sessions w))" "s \<in> set (wd_sessions w)" "g (f s) = s" "\<And>x. wk_id (f x) = wk_id x"
  shows "update_session (wk_id s) g (update_session (wk_id s) f w) = w"
proof -
  have same: "x = s" if "x \<in> set (wd_sessions w)" "wk_id x = wk_id s" for x
    using assms(1,2) that by (auto simp: distinct_map dest: inj_onD)
  have "map (\<lambda>x. if wk_id x = wk_id s then g x else x) (map (\<lambda>x. if wk_id x = wk_id s then f x else x) (wd_sessions w)) = wd_sessions w"
    using assms(3,4) by (auto simp: o_def intro!: map_idI dest: same)
  then show ?thesis by (simp add: update_session_def)
qed

lemma restore_reopened:
  assumes ok: "work_ok w" and r: "reopenAutoClosed limits u at w = (Some x, w')"
  shows "restore x w' = w"
proof -
  obtain s e where t: "to_reopen limits u at w = Some (s, e)"
    using r by (cases "to_reopen limits u at w") (auto simp: reopenAutoClosed_def)
  note s = newest_session_Some [OF to_reopen_Some(1) [OF t]] and e = to_reopen_Some [OF t]
  let ?f = "\<lambda>x. x\<lparr>wk_endedAt := None, wk_source := FromReplay\<rparr>"
    and ?g = "\<lambda>x. x\<lparr>wk_endedAt := Some e, wk_endReason := wk_endReason s, wk_source := wk_source s\<rparr>"
  let ?w1 = "update_session (wk_id s) ?f w"
  have x: "x = \<lparr>ro_userId = u, ro_sessionId = wk_id s, ro_date = wk_date s, ro_endedAt = e, ro_endReason = wk_endReason s,
      ro_source = wk_source s, ro_dayEndedAt = dayEndedAt w u (wk_date s)\<rparr>"
    and w': "w' = (if dayEndedAt w u (wk_date s) \<noteq> None then on_tables (set_day_end u (wk_date s) None) ?w1 else ?w1)"
    using r t by (auto simp: reopenAutoClosed_def Let_def)
  have d: "distinct (map wk_id (wd_sessions w))" using ok by (simp add: work_ok_def sessions_ok_def)
  have undone: "update_session (wk_id s) ?g ?w1 = w"
    using update_back [OF d s(1), of ?g ?f] e(2) by simp
  have ids: "map wk_id (wd_sessions w') = map wk_id (wd_sessions w)" unfolding w' by simp
  have "wk_id s \<in> wk_id ` set (wd_sessions w')" unfolding set_map [symmetric] ids using s(1) by simp
  then have there: "\<not> (\<forall>y \<in> set (wd_sessions w'). wk_id y \<noteq> wk_id s)" by auto
  have comm: "update_session i g (on_tables h v) = on_tables h (update_session i g v)" for i g h v
    by (simp add: update_session_def on_tables_def)
  show ?thesis
  proof (cases "dayEndedAt w u (wk_date s)")
    case None
    have "restore x w' = update_session (wk_id s) ?g w'"
      unfolding restore_def x Let_def by (subst if_not_P) (use there None in auto)
    then show ?thesis using undone None w' by simp
  next
    case (Some t)
    then have day: "db_dayEnds (wd_tables w) (u, wk_date s) = Some (Some t)"
      by (auto simp: dayEndedAt_def split: option.splits)
    have w2: "w' = on_tables (set_day_end u (wk_date s) None) ?w1" using w' Some by simp
    have "db_dayEnds (wd_tables w') (u, wk_date s) \<noteq> None" by (simp add: w2 set_day_end_def)
    then have "restore x w' = on_tables (set_day_end u (wk_date s) (Some t)) (update_session (wk_id s) ?g w')"
      unfolding restore_def x Let_def by (subst if_not_P) (use there Some in auto)
    also have "\<dots> = on_tables (set_day_end u (wk_date s) (Some t)) (on_tables (set_day_end u (wk_date s) None) w)"
      unfolding w2 comm undone ..
    also have "\<dots> = w" using set_day_end_back [OF day] by (simp add: on_tables_def)
    finally show ?thesis .
  qed
qed

lemma reopen_None: "reopenAutoClosed limits u at w = (None, w') \<Longrightarrow> w' = w"
  by (auto simp: reopenAutoClosed_def Let_def split: option.splits)

lemma claim_event_work:
  assumes "claim_event rq at now tz limits db = (Inr (NewEvent t replay r), db')" "work_ok (rp_work db)"
  shows "case r of None \<Rightarrow> rp_work db' = rp_work db | Some x \<Rightarrow> restore x (rp_work db') = rp_work db"
  using assms restore_reopened [OF assms(2)] reopen_None
  by (auto simp: claim_event_def Let_def split: sum.splits if_splits prod.splits option.splits)

lemma begin_event_cases:
  assumes "begin_event rq now tz limits db = (Inr b, db')"
  obtains (repeat) status body where "b = Repeat status body" "look_up (u_id (rq_user rq)) (rq_eventId rq) now (rp_events db) = Answered status body"
      "db' = db"
  | (claimed) at evs where "event_at rq now = Some at" "claim_event rq at now tz limits (db\<lparr>rp_events := evs\<rparr>) = (Inr b, db')"
      "look_up (u_id (rq_user rq)) (rq_eventId rq) now (rp_events db) = Unknown \<and> evs = rp_events db
        \<or> look_up (u_id (rq_user rq)) (rq_eventId rq) now (rp_events db) = Stale
          \<and> evs = drop_event (u_id (rq_user rq)) (rq_eventId rq) (rp_events db)"
proof -
  have [simp]: "db\<lparr>rp_events := rp_events db\<rparr> = db" by simp
  show thesis
    using assms that
    by (cases "event_at rq now"; cases "look_up (u_id (rq_user rq)) (rq_eventId rq) now (rp_events db)")
      (auto simp: begin_event_def Let_def split: if_splits)
qed

text \<open>A refused action leaves the working day exactly as it was. When the request's action fails and changes
  nothing, whatever the interceptor did first (a day that was closed automatically is reopened for an action
  replayed into it) is undone: the sessions, the end of the day and every other table are those from before,
  for any status, clock and day limits.\<close>

theorem refused_action_changes_no_day:
  assumes "work_ok (rp_work db)" "\<forall>clk w. \<exists>status body. next clk w = (Inl (status, body), w)"
  shows "rp_work (snd (intercept rq next now tz limits db)) = rp_work db"
proof -
  obtain b db1 where b: "begin_event rq now tz limits db = (b, db1)" by fastforce
  show ?thesis
  proof (cases b)
    case (Inl e)
    then show ?thesis
      using b by (auto simp: intercept_def begin_event_def claim_event_def Let_def split: if_splits option.splits lookup.splits
          sum.splits prod.splits)
  next
    case (Inr x)
    note bb = b [unfolded Inr]
    from bb show ?thesis
    proof (cases rule: begin_event_cases)
      case (repeat status body)
      then show ?thesis using bb by (simp add: intercept_def)
    next
      case (claimed at evs)
      show ?thesis
      proof (cases x)
        case (Repeat status body)
        then show ?thesis
          using bb claimed by (auto simp: intercept_def claim_event_def Let_def split: sum.splits if_splits prod.splits)
      next
        case (NewEvent t replay r)
        from assms(2) obtain status body where n: "next (frame_of t replay now) (rp_work db1) = (Inl (status, body), rp_work db1)"
          by blast
        have "case r of None \<Rightarrow> rp_work db1 = rp_work db | Some y \<Rightarrow> restore y (rp_work db1) = rp_work db"
          using claim_event_work [OF claimed(2) [unfolded NewEvent]] assms(1) by (cases r) simp_all
        then show ?thesis
          using bb NewEvent n by (auto simp: intercept_def settle_def Let_def split: option.splits)
      qed
    qed
  qed
qed

section \<open>An answered action\<close>

lemma find_event_finish:
  assumes "find_event u e evs = Some x"
  shows "find_event u e (finish_event u e status body evs) = Some (x\<lparr>ev_status := status, ev_body := body\<rparr>)"
  using assms by (induction evs) (auto simp: find_event_def finish_event_def of_event_def split: if_splits)

lemma claimed_event:
  assumes "claim_event rq at now tz limits db = (Inr (NewEvent t replay r), db1)"
  shows "judge_time rq at now tz db = Inr (t, replay)" "find_event (u_id (rq_user rq)) (rq_eventId rq) (rp_events db) = None"
    "rp_events db1 = rp_events db @ [placeholder rq t now]"
  using assms by (auto simp: claim_event_def Let_def split: sum.splits if_splits prod.splits)

lemma find_placeholder:
  "find_event (u_id (rq_user rq)) (rq_eventId rq) evs = None
   \<Longrightarrow> find_event (u_id (rq_user rq)) (rq_eventId rq) (evs @ [placeholder rq t now]) = Some (placeholder rq t now)"
  by (induction evs) (auto simp: find_event_def of_event_def placeholder_def split: if_splits)

text \<open>An answered action never runs again. Once a request with an event id has run and was answered with
  anything but a transient failure, every later request of the person with that id, at any time and with any
  content, gets the stored answer (200 and the value, or the refusal) and changes nothing.\<close>

theorem answered_action_never_runs_again:
  assumes "begin_event rq now tz limits db = (Inr (NewEvent t replay r), db1)"
    and "next (frame_of t replay now) (rp_work db1) = (res, w)"
    and "case res of Inr _ \<Rightarrow> True | Inl (status, _) \<Rightarrow> 0 < status \<and> status < 500"
    and "intercept rq next now tz limits db = (a, db2)"
    and "u_id (rq_user rq') = u_id (rq_user rq)" "to_lower (rq_eventId rq') = to_lower (rq_eventId rq)"
    and "is_event_uuid (rq_eventId rq')" "event_at rq' now' \<noteq> None"
  shows "intercept rq' next' now' tz' limits' db2 =
    (case res of Inr (_, body) \<Rightarrow> Response 200 body | Inl (status, body) \<Rightarrow> Response status body, db2)"
proof -
  let ?u = "u_id (rq_user rq)" and ?e = "rq_eventId rq"
  from assms(1) have f: "find_event ?u ?e (rp_events db1) = Some (placeholder rq t now)"
  proof (cases rule: begin_event_cases)
    case (claimed at evs)
    from claimed_event [OF claimed(2)] find_placeholder show ?thesis by simp
  qed simp
  define status body where sb: "status = (case res of Inr _ \<Rightarrow> 200 | Inl (st, _) \<Rightarrow> st)"
    "body = (case res of Inr (_, b) \<Rightarrow> b | Inl (_, b) \<Rightarrow> b)"
  have "rp_events db2 = finish_event ?u ?e status body (rp_events db1)"
    using assms(1-4) by (auto simp: intercept_def settle_def sb Let_def split: sum.splits prod.splits option.splits)
  then have "find_event ?u ?e (rp_events db2) = Some ((placeholder rq t now)\<lparr>ev_status := status, ev_body := body\<rparr>)"
    using find_event_finish [OF f] by simp
  moreover have "find_event (u_id (rq_user rq')) (rq_eventId rq') evs = find_event ?u ?e evs" for evs
    using assms(5,6) by (simp add: find_event_def of_event_def [abs_def])
  moreover have "status \<noteq> IN_PROGRESS" using assms(3) by (auto simp: sb IN_PROGRESS_def split: sum.splits)
  ultimately have "look_up (u_id (rq_user rq')) (rq_eventId rq') now' (rp_events db2) = Answered status body"
    by (simp add: look_up_def)
  then have "intercept rq' next' now' tz' limits' db2 = (Response status body, db2)"
    using assms(7,8) by (auto simp: intercept_def begin_event_def Let_def)
  then show ?thesis by (auto simp: sb split: sum.splits)
qed

section \<open>The time of an action\<close>

lemma judge_time_accepts:
  assumes "judge_time rq at now tz db = Inr (t, replay)"
  shows "t = min at now" "replay = (now - t > LIVE_WINDOW_MS)" "at - now \<le> MAX_AHEAD_MS" "now - t \<le> MAX_AGE_MS"
    "replay \<longrightarrow> (case last_replayed (u_id (rq_user rq)) (rq_routePath rq) (rp_events db) of None \<Rightarrow> True
        | Some x \<Rightarrow> ev_eventAt x - ORDER_TOLERANCE_MS \<le> t)"
    "replay \<longrightarrow> (case or_else (u_companyId (rq_user rq)) (u_orgId (rq_user rq)) of None \<Rightarrow> True
        | Some c \<Rightarrow> (c, month_of t tz) \<notin> db_monthLocks (wd_tables (rp_work db)))"
  using assms by (auto simp: judge_time_def Let_def MAX_AGE_MS_def split: if_splits option.splits)

text \<open>Only journaled actions act in the past. An action runs at another time than the server's now only when
  its route is one the offline agent journals and the client is a 4.0 agent; then that time is at most seven
  days and at least thirty seconds ago, not more than a minute before the person's last replayed action, and
  in no payroll month that is locked. No action ever runs in the future, and no other one reopens a day.\<close>

theorem only_journaled_actions_act_in_the_past:
  assumes "begin_event rq now tz limits db = (Inr (NewEvent t replay r), db1)"
  shows "t \<le> now \<and> now - t \<le> MAX_AGE_MS
    \<and> (\<not> replay \<longrightarrow> clock_now (frame_of t replay now) = now \<and> r = None \<and> rp_work db1 = rp_work db)
    \<and> (replay \<longrightarrow> timed rq \<and> rq_eventAt rq = Some (Some t) \<and> clock_now (frame_of t replay now) = t \<and> t < now - LIVE_WINDOW_MS
        \<and> (case last_replayed (u_id (rq_user rq)) (rq_routePath rq) (rp_events db) of None \<Rightarrow> True
           | Some x \<Rightarrow> ev_eventAt x - ORDER_TOLERANCE_MS \<le> t)
        \<and> (case or_else (u_companyId (rq_user rq)) (u_orgId (rq_user rq)) of None \<Rightarrow> True
           | Some c \<Rightarrow> (c, month_of t tz) \<notin> db_monthLocks (wd_tables (rp_work db))))"
  using assms
proof (cases rule: begin_event_cases)
  case (claimed at evs)
  note j = judge_time_accepts [OF claimed_event(1) [OF claimed(2)]]
  have same: "last_replayed u k (drop_event v e es) = last_replayed u k es" for u k v e es
    unfolding last_replayed_def drop_event_def filter_filter
    by (auto intro!: arg_cong [where f = first_of] arg_cong [where f = "js_sort _"] filter_cong)
  have evs: "last_replayed u k evs = last_replayed u k (rp_events db)" for u k using claimed(3) same by auto
  have at: "timed rq \<and> rq_eventAt rq = Some (Some at)" if "at \<noteq> now"
    using claimed(1) that by (auto simp: event_at_def split: option.splits if_splits)
  have live: "\<not> replay \<longrightarrow> r = None \<and> rp_work db1 = rp_work db"
    using claimed(2) by (auto simp: claim_event_def Let_def split: sum.splits if_splits prod.splits)
  have clk: "clock_now (frame_of t replay now) = (if replay then t else now)"
    by (simp add: clock_now_def frame_of_def coalesce_def)
  show ?thesis
    using j at live clk by (auto simp: evs LIVE_WINDOW_MS_def min_def split: if_splits option.splits)
qed simp

section \<open>Copies of a request\<close>

text \<open>
  A request that passed the header checks reads the event's row, drops a stale placeholder it saw, claims the
  event with a placeholder of its own and runs; these are separate statements of the database, so those of
  several copies (a journal resent, two instances of the server) interleave. A copy may crash anywhere. The
  flag of a step tells that its copy saw a stale placeholder.
\<close>

datatype copy_phase = AtDrop | AtClaim | AtRun

record copy =
  cp_userId :: uid
  cp_eventId :: string
  cp_phase :: copy_phase

record replay_state =
  rs_events :: "agent_event list"
  rs_copies :: "nat \<Rightarrow> copy option"
  rs_done :: "(uid \<times> string) list"

definition copy_key :: "copy \<Rightarrow> uid \<times> string" where
  "copy_key c = (cp_userId c, to_lower (cp_eventId c))"

definition event_key :: "agent_event \<Rightarrow> uid \<times> string" where
  "event_key x = (ev_userId x, ev_clientEventId x)"

definition set_copy :: "nat \<Rightarrow> copy option \<Rightarrow> replay_state \<Rightarrow> replay_state" where
  "set_copy p c st = st\<lparr>rs_copies := (rs_copies st)(p := c)\<rparr>"

inductive copy_step :: "bool \<Rightarrow> replay_state \<Rightarrow> replay_state \<Rightarrow> bool" where
  arrives: "rs_copies st p = None \<Longrightarrow> look_up u e now (rs_events st) = (if stale then Stale else Unknown) \<Longrightarrow>
    copy_step stale st (set_copy p (Some \<lparr>cp_userId = u, cp_eventId = e, cp_phase = (if stale then AtDrop else AtClaim)\<rparr>) st)"
| drops: "rs_copies st p = Some c \<Longrightarrow> cp_phase c = AtDrop \<Longrightarrow>
    copy_step False st (set_copy p (Some (c\<lparr>cp_phase := AtClaim\<rparr>))
      (st\<lparr>rs_events := drop_event (cp_userId c) (cp_eventId c) (rs_events st)\<rparr>))"
| claims: "rs_copies st p = Some c \<Longrightarrow> cp_phase c = AtClaim \<Longrightarrow> find_event (cp_userId c) (cp_eventId c) (rs_events st) = None \<Longrightarrow>
    u_id (rq_user rq) = cp_userId c \<Longrightarrow> rq_eventId rq = cp_eventId c \<Longrightarrow>
    copy_step False st (set_copy p (Some (c\<lparr>cp_phase := AtRun\<rparr>)) (st\<lparr>rs_events := rs_events st @ [placeholder rq t now]\<rparr>))"
| finishes: "rs_copies st p = Some c \<Longrightarrow> cp_phase c = AtRun \<Longrightarrow> 0 < status \<Longrightarrow>
    copy_step False st (set_copy p None
      (st\<lparr>rs_events := finish_event (cp_userId c) (cp_eventId c) status body (rs_events st), rs_done := copy_key c # rs_done st\<rparr>))"
| fails: "rs_copies st p = Some c \<Longrightarrow> cp_phase c = AtRun \<Longrightarrow>
    copy_step False st (set_copy p None (st\<lparr>rs_events := drop_event (cp_userId c) (cp_eventId c) (rs_events st)\<rparr>))"
| gone: "copy_step False st (set_copy p None st)"

inductive copies_reachable :: "bool \<Rightarrow> replay_state \<Rightarrow> bool" where
  no_copies: "copies_reachable stale \<lparr>rs_events = [], rs_copies = (\<lambda>_. None), rs_done = []\<rparr>"
| copy: "copies_reachable stale st \<Longrightarrow> copy_step b st st' \<Longrightarrow> b \<longrightarrow> stale \<Longrightarrow> copies_reachable stale st'"

definition copies_ok :: "replay_state \<Rightarrow> bool" where
  "copies_ok st \<longleftrightarrow>
     distinct (map event_key (rs_events st))
     \<and> (\<forall>p c. rs_copies st p = Some c \<longrightarrow> cp_phase c \<noteq> AtDrop)
     \<and> (\<forall>p c. rs_copies st p = Some c \<longrightarrow> cp_phase c = AtRun \<longrightarrow> (\<exists>x \<in> set (rs_events st). event_key x = copy_key c \<and> ev_status x = IN_PROGRESS))
     \<and> (\<forall>p q c d. rs_copies st p = Some c \<longrightarrow> rs_copies st q = Some d \<longrightarrow> cp_phase c = AtRun \<longrightarrow> cp_phase d = AtRun
          \<longrightarrow> copy_key c = copy_key d \<longrightarrow> p = q)
     \<and> (\<forall>k \<in> set (rs_done st). \<exists>x \<in> set (rs_events st). event_key x = k \<and> ev_status x \<noteq> IN_PROGRESS)
     \<and> distinct (rs_done st)"

lemma of_event_key: "of_event (cp_userId c) (cp_eventId c) x \<longleftrightarrow> event_key x = copy_key c"
  by (auto simp: of_event_def event_key_def copy_key_def)

lemma find_event_None: "find_event (cp_userId c) (cp_eventId c) evs = None \<longleftrightarrow> copy_key c \<notin> event_key ` set evs"
  by (force simp: find_event_def find_None_iff of_event_key)

lemma set_copy_sel [simp]:
  "rs_events (set_copy p c st) = rs_events st" "rs_done (set_copy p c st) = rs_done st"
  "rs_copies (set_copy p c st) = (rs_copies st)(p := c)"
  by (simp_all add: set_copy_def)

lemma set_drop_event:
  "set (drop_event (cp_userId c) (cp_eventId c) evs) = {x \<in> set evs. \<not> (event_key x = copy_key c \<and> ev_status x = IN_PROGRESS)}"
  by (auto simp: drop_event_def of_event_key)

lemma set_finish_event:
  "set (finish_event (cp_userId c) (cp_eventId c) status body evs) =
     (\<lambda>x. if event_key x = copy_key c then x\<lparr>ev_status := status, ev_body := body\<rparr> else x) ` set evs"
  by (auto simp: finish_event_def of_event_key)

lemma finish_event_keys: "map event_key (finish_event u e status body evs) = map event_key evs"
  by (simp add: finish_event_def event_key_def)

lemma one_event:
  assumes "distinct (map event_key evs)" "x \<in> set evs" "y \<in> set evs" "event_key x = event_key y"
  shows "x = y"
  using assms by (auto simp: distinct_map dest: inj_onD)

lemma copies_ok_leave: "copies_ok st \<Longrightarrow> copies_ok (set_copy p None st)"
  unfolding copies_ok_def by (auto split: if_splits)

lemma claimed_ok:
  assumes ok: "copies_ok st" and c: "rs_copies st p = Some c" "copy_key c \<notin> event_key ` set (rs_events st)"
    and x: "event_key x = copy_key c" "ev_status x = IN_PROGRESS"
  shows "copies_ok (set_copy p (Some (c\<lparr>cp_phase := AtRun\<rparr>)) (st\<lparr>rs_events := rs_events st @ [x]\<rparr>))"
proof -
  have k: "copy_key (c\<lparr>cp_phase := ph\<rparr>) = copy_key c" for ph by (simp add: copy_key_def)
  have others: "copy_key d \<noteq> copy_key c" if "rs_copies st q = Some d" "cp_phase d = AtRun" for q d
    using ok that c(2) unfolding copies_ok_def by (metis image_eqI)
  show ?thesis
    using ok c(2) x others unfolding copies_ok_def by (auto simp: k) metis+
qed

lemma finished_ok:
  assumes ok: "copies_ok st" and c: "rs_copies st p = Some c" "cp_phase c = AtRun" and st: "0 < status"
  shows "copies_ok (set_copy p None
      (st\<lparr>rs_events := finish_event (cp_userId c) (cp_eventId c) status body (rs_events st), rs_done := copy_key c # rs_done st\<rparr>))"
proof -
  let ?evs = "rs_events st" and ?new = "finish_event (cp_userId c) (cp_eventId c) status body (rs_events st)"
  obtain x where x: "x \<in> set ?evs" "event_key x = copy_key c" "ev_status x = IN_PROGRESS"
    using ok c unfolding copies_ok_def by blast
  have d: "distinct (map event_key ?evs)" using ok by (simp add: copies_ok_def)
  have kept: "y \<in> set ?new" if "y \<in> set ?evs" "event_key y \<noteq> copy_key c" for y
    using that unfolding set_finish_event by (auto simp: image_iff)
  have final: "\<exists>y \<in> set ?new. event_key y = copy_key c \<and> ev_status y \<noteq> IN_PROGRESS"
    using x st unfolding set_finish_event by (intro bexI [OF _ imageI [OF x(1)]]) (simp add: event_key_def IN_PROGRESS_def)
  have new: "copy_key c \<notin> set (rs_done st)"
    using ok x one_event [OF d] unfolding copies_ok_def by metis
  have others: "copy_key q' \<noteq> copy_key c" if "rs_copies st q = Some q'" "cp_phase q' = AtRun" "q \<noteq> p" for q q'
    using ok that c unfolding copies_ok_def by metis
  show ?thesis
    unfolding copies_ok_def
  proof (intro conjI)
    show "distinct (map event_key (rs_events (set_copy p None (st\<lparr>rs_events := ?new, rs_done := copy_key c # rs_done st\<rparr>))))"
      using d by (simp add: finish_event_keys)
    show "\<forall>k \<in> set (rs_done (set_copy p None (st\<lparr>rs_events := ?new, rs_done := copy_key c # rs_done st\<rparr>))).
        \<exists>y \<in> set (rs_events (set_copy p None (st\<lparr>rs_events := ?new, rs_done := copy_key c # rs_done st\<rparr>))).
          event_key y = k \<and> ev_status y \<noteq> IN_PROGRESS"
      using ok final kept new unfolding copies_ok_def by auto metis
  qed (use ok kept new others in \<open>auto simp: copies_ok_def split: if_splits\<close>, metis+)
qed

lemma failed_ok:
  assumes ok: "copies_ok st" and c: "rs_copies st p = Some c" "cp_phase c = AtRun"
  shows "copies_ok (set_copy p None (st\<lparr>rs_events := drop_event (cp_userId c) (cp_eventId c) (rs_events st)\<rparr>))"
proof -
  have "distinct (map event_key (drop_event u e evs))" if "distinct (map event_key evs)" for u e evs
    using that by (simp add: drop_event_def distinct_map_filter)
  moreover have "copy_key q' \<noteq> copy_key c" if "rs_copies st q = Some q'" "cp_phase q' = AtRun" "q \<noteq> p" for q q'
    using ok that c unfolding copies_ok_def by metis
  ultimately show ?thesis
    using ok unfolding copies_ok_def by (auto simp: set_drop_event split: if_splits) metis+
qed

lemma copy_step_ok: "copy_step b st st' \<Longrightarrow> copies_ok st \<Longrightarrow> \<not> b \<Longrightarrow> copies_ok st'"
proof (induction rule: copy_step.induct)
  case (arrives st p u e now stale)
  then show ?case unfolding copies_ok_def by (auto split: if_splits)
next
  case (drops st p c)
  then show ?case by (auto simp: copies_ok_def)
next
  case (claims st p c rq t now)
  then show ?case
    by (intro claimed_ok) (auto simp: find_event_None placeholder_def event_key_def copy_key_def)
qed (simp_all add: finished_ok failed_ok copies_ok_leave)

lemma count_list_distinct: "distinct xs \<Longrightarrow> count_list xs x \<le> 1"
  by (induction xs) auto

lemma copies_reachable_ok: "copies_reachable stale st \<Longrightarrow> \<not> stale \<Longrightarrow> copies_ok st"
  by (induction rule: copies_reachable.induct) (auto simp: copies_ok_def dest: copy_step_ok)

text \<open>C5: an action runs once, however its copies interleave. As long as no copy finds a placeholder that has grown
  stale, over every interleaving of the statements of any number of copies of any requests, crashes and
  transient failures included, at most one copy of an event runs at a time, an event is answered at most once,
  and none of its copies runs after that.\<close>

theorem event_runs_once:
  assumes "copies_reachable False st"
  shows "card {p. \<exists>c. rs_copies st p = Some c \<and> cp_phase c = AtRun \<and> copy_key c = k} \<le> 1
    \<and> count_list (rs_done st) k \<le> 1
    \<and> (k \<in> set (rs_done st) \<longrightarrow> {p. \<exists>c. rs_copies st p = Some c \<and> cp_phase c = AtRun \<and> copy_key c = k} = {})"
proof -
  let ?run = "{p. \<exists>c. rs_copies st p = Some c \<and> cp_phase c = AtRun \<and> copy_key c = k}"
  have ok: "copies_ok st" using copies_reachable_ok [OF assms] by simp
  have "p = q" if "p \<in> ?run" "q \<in> ?run" for p q using ok that unfolding copies_ok_def by auto
  then have "card ?run \<le> 1" by (metis (no_types, lifting) card_le_Suc0_iff_eq One_nat_def card.infinite zero_le)
  moreover have "count_list (rs_done st) k \<le> 1"
  proof (cases "k \<in> set (rs_done st)")
    case True
    have "distinct (rs_done st)" using ok by (simp add: copies_ok_def)
    then show ?thesis by (rule count_list_distinct)
  next
    case False
    then show ?thesis by (simp add: count_notin)
  qed
  moreover have "?run = {}" if settled: "k \<in> set (rs_done st)"
  proof -
    obtain x where x: "x \<in> set (rs_events st)" "event_key x = k" "ev_status x \<noteq> IN_PROGRESS"
      using ok settled unfolding copies_ok_def by blast
    have d: "distinct (map event_key (rs_events st))" using ok by (simp add: copies_ok_def)
    have False if run: "rs_copies st p = Some c" "cp_phase c = AtRun" "copy_key c = k" for p c
    proof -
      obtain y where "y \<in> set (rs_events st)" "event_key y = k" "ev_status y = IN_PROGRESS"
        using ok run unfolding copies_ok_def by metis
      then show False using one_event [OF d x(1), of y] x by simp
    qed
    then show ?thesis by blast
  qed
  ultimately show ?thesis by blast
qed

section \<open>Concrete runs\<close>

definition agent_user :: auth_user where
  "agent_user = \<lparr>u_id = 1, u_role = USER, u_permissions = [], u_companyId = None, u_orgId = None, u_orgHeaderInvalid = False,
     u_orgDeleted = False, u_departmentId = None, u_managedDepartmentIds = [], u_grants = None\<rparr>"

definition sample_request :: "int option option \<Rightarrow> replay_request" where
  "sample_request at = \<lparr>rq_user = agent_user, rq_eventId = ''0a1b2c3d-0000-4000-8000-00000000000f'', rq_eventAt = at, rq_method = ''POST'',
     rq_routePath = ''/api/v1/breaks/:breakId/pause'', rq_userAgent = Some ''RXVisionAgent/4.0.1''\<rparr>"

lemma sample_request_sel [simp]:
  "u_id (rq_user (sample_request at)) = 1" "rq_eventId (sample_request at) = ''0a1b2c3d-0000-4000-8000-00000000000f''"
  by (simp_all add: sample_request_def agent_user_def)

definition waiting_copy :: "copy_phase \<Rightarrow> copy" where
  "waiting_copy ph = \<lparr>cp_userId = 1, cp_eventId = ''0a1b2c3d-0000-4000-8000-00000000000f'', cp_phase = ph\<rparr>"

lemma waiting_copy_sel [simp]:
  "cp_userId (waiting_copy ph) = 1" "cp_eventId (waiting_copy ph) = ''0a1b2c3d-0000-4000-8000-00000000000f''" "cp_phase (waiting_copy ph) = ph"
  "(waiting_copy ph)\<lparr>cp_phase := ph'\<rparr> = waiting_copy ph'"
  by (simp_all add: waiting_copy_def)

abbreviation copies_at :: "agent_event list \<Rightarrow> (nat \<Rightarrow> copy option) \<Rightarrow> replay_state" where
  "copies_at evs cs \<equiv> \<lparr>rs_events = evs, rs_copies = cs, rs_done = []\<rparr>"

abbreviation sample_placeholder :: "int \<Rightarrow> agent_event" where
  "sample_placeholder now \<equiv> placeholder (sample_request None) now now"

lemma sample_arrives:
  assumes "copies_reachable stale (copies_at evs cs)" "cs p = None"
    "look_up 1 ''0a1b2c3d-0000-4000-8000-00000000000f'' now evs = (if b then Stale else Unknown)" "b \<longrightarrow> stale"
  shows "copies_reachable stale (copies_at evs (cs(p := Some (waiting_copy (if b then AtDrop else AtClaim)))))"
  using copies_reachable.copy [OF assms(1) copy_step.arrives [of "copies_at evs cs" p] assms(4)] assms(2,3)
  by (simp add: set_copy_def waiting_copy_def)

lemma sample_drops:
  assumes "copies_reachable stale (copies_at evs cs)" "cs p = Some (waiting_copy AtDrop)"
  shows "copies_reachable stale (copies_at (drop_event 1 ''0a1b2c3d-0000-4000-8000-00000000000f'' evs) (cs(p := Some (waiting_copy AtClaim))))"
  using copies_reachable.copy [OF assms(1) copy_step.drops [of "copies_at evs cs" p]] assms(2) by (simp add: set_copy_def)

lemma sample_claims:
  assumes "copies_reachable stale (copies_at evs cs)" "cs p = Some (waiting_copy AtClaim)"
    "find_event 1 ''0a1b2c3d-0000-4000-8000-00000000000f'' evs = None"
  shows "copies_reachable stale (copies_at (evs @ [sample_placeholder now]) (cs(p := Some (waiting_copy AtRun))))"
  using copies_reachable.copy [OF assms(1) copy_step.claims [of "copies_at evs cs" p "waiting_copy AtClaim" "sample_request None" now now]] assms(2,3)
  by (simp add: set_copy_def)

lemma sample_running:
  "copies_reachable stale (copies_at [sample_placeholder now] ((\<lambda>_. None)(0 := Some (waiting_copy AtRun))))"
proof -
  have "copies_reachable stale (copies_at [] (\<lambda>_. None))" by (rule copies_reachable.no_copies)
  then have "copies_reachable stale (copies_at [] ((\<lambda>_. None)(0 := Some (waiting_copy AtClaim))))"
    using sample_arrives [of stale "[]" "\<lambda>_. None" 0 now False] by (simp add: look_up_def find_event_def)
  from sample_claims [OF this, where p = 0 and now = now] show ?thesis by (simp add: find_event_def)
qed

theorem event_runs_once_witness:
  "\<exists>st. copies_reachable False st \<and> rs_copies st 0 = Some (waiting_copy AtRun)
    \<and> card {p. \<exists>c. rs_copies st p = Some c \<and> cp_phase c = AtRun \<and> copy_key c = copy_key (waiting_copy AtRun)} \<le> 1"
proof -
  let ?st = "copies_at [sample_placeholder 0] ((\<lambda>_. None)(0 := Some (waiting_copy AtRun)))"
  have r: "copies_reachable False ?st" by (rule sample_running)
  have "rs_copies ?st 0 = Some (waiting_copy AtRun)" by simp
  with r event_runs_once [OF r, of "copy_key (waiting_copy AtRun)"] show ?thesis by blast
qed

text \<open>With a stale placeholder two copies may run together: the second one drops the first one's fresh placeholder, since
  the deletion does not ask how old it is.\<close>

lemma stale_copies_run_together:
  "\<exists>st. copies_reachable True st \<and> rs_copies st 1 = Some (waiting_copy AtRun) \<and> rs_copies st 2 = Some (waiting_copy AtRun)"
proof -
  have look: "look_up 1 ''0a1b2c3d-0000-4000-8000-00000000000f'' 120000 [sample_placeholder 0] = Stale"
    and lower: "to_lower ''0a1b2c3d-0000-4000-8000-00000000000f'' = ''0a1b2c3d-0000-4000-8000-00000000000f''"
    and drop: "drop_event 1 ''0a1b2c3d-0000-4000-8000-00000000000f'' [sample_placeholder t] = []" for t
    by (code_simp, code_simp) (simp add: drop_event_def of_event_def placeholder_def)
  have none: "find_event 1 ''0a1b2c3d-0000-4000-8000-00000000000f'' [] = None" by (simp add: find_event_def)
  have "copies_reachable True (copies_at [sample_placeholder 0] (\<lambda>_. None))"
    using copies_reachable.copy [OF sample_running copy_step.gone [of _ 0]] by (simp add: set_copy_def)
  from sample_arrives [OF this, where p = 1 and now = 120000 and b = True] look
  have "copies_reachable True (copies_at [sample_placeholder 0] ((\<lambda>_. None)(1 := Some (waiting_copy AtDrop))))" by simp
  from sample_arrives [OF this, where p = 2 and now = 120000 and b = True] look
  have "copies_reachable True (copies_at [sample_placeholder 0] ((\<lambda>_. None)(1 := Some (waiting_copy AtDrop), 2 := Some (waiting_copy AtDrop))))"
    by simp
  from sample_claims [OF sample_drops [OF this, where p = 1], where p = 1 and now = 120000] none
  have "copies_reachable True (copies_at [sample_placeholder 120000]
      ((\<lambda>_. None)(1 := Some (waiting_copy AtRun), 2 := Some (waiting_copy AtDrop))))"
    by (simp add: drop [unfolded One_nat_def] fun_upd_twist)
  from sample_claims [OF sample_drops [OF this, where p = 2], where p = 2 and now = 120000] none
  have "copies_reachable True (copies_at [sample_placeholder 120000]
      ((\<lambda>_. None)(1 := Some (waiting_copy AtRun), 2 := Some (waiting_copy AtRun))))"
    by (simp add: drop [unfolded One_nat_def])
  then show ?thesis
    by (intro exI [of _ "copies_at [sample_placeholder 120000] ((\<lambda>_. None)(1 := Some (waiting_copy AtRun), 2 := Some (waiting_copy AtRun)))"])
      simp
qed

definition no_limits :: "(work_session \<Rightarrow> int) option" where
  "no_limits = Some (\<lambda>_. 72000000)"

definition closed_day :: work_session where
  "closed_day = \<lparr>wk_id = 0, wk_userId = 1, wk_date = ''2026-01-05'', wk_startedAt = 1000, wk_endedAt = Some 36000000,
     wk_endReason = Some AutoClosed, wk_source = FromAgent\<rparr>"

definition closed_tables :: replay_db where
  "closed_tables = \<lparr>rp_events = [], rp_work = \<lparr>wd_sessions = [closed_day], wd_nextId = 1,
     wd_tables = (empty_db (\<lambda>_. Some 7) (\<lambda>_. 48))\<lparr>db_dayEnds := (\<lambda>_. None)((1, ''2026-01-05'') := Some (Some 36000000))\<rparr>\<rparr>\<rparr>"

definition late_request :: replay_request where
  "late_request = sample_request (Some (Some 40000000))"

definition refusing :: action where
  "refusing = (\<lambda>_ w. (Inl (409, ''DAY_ENDED''), w))"

definition accepting :: action where
  "accepting = (\<lambda>_ w. (Inr (201, ''{}''), w))"

lemma sample_event_id:
  "is_event_uuid ''0a1b2c3d-0000-4000-8000-00000000000f''"
  by (simp add: is_event_uuid_def is_hex_def is_digit_def lower_char_def Let_def)

lemma sample_timed: "timed (sample_request at)"
proof -
  have "isOfflineAgent (Some ''RXVisionAgent/4.0.1'')"
    by (simp add: isOfflineAgent_def is_digit_def Let_def parse_digits_def digit_val_def)
  moreover have "split_route ''/api/v1/breaks/:breakId/pause'' = (''/api/v1'', ''/breaks/:id/pause'')"
    by (simp add: split_route_def route_prefix_def is_digit_def Let_def or_slash_def strip_slashes_def starts_param_def)
  moreover have "map upper_char ''POST'' = ''POST''" by (simp add: upper_char_def)
  ultimately show ?thesis by (simp add: timed_def sample_request_def isReplayRoute_def REPLAY_ROUTES_def)
qed

lemma late_request_time: "event_at late_request now = Some 40000000"
  using sample_timed by (simp add: late_request_def event_at_def) (simp add: sample_request_def)

lemma late_request_begins:
  "\<exists>r db. begin_event late_request 50000000 (\<lambda>_. 0) no_limits closed_tables = (Inr (NewEvent 40000000 True (Some r)), db)"
proof -
  have u: "u_id (rq_user late_request) = 1" "u_companyId (rq_user late_request) = None" "u_orgId (rq_user late_request) = None"
    "rq_eventId late_request = ''0a1b2c3d-0000-4000-8000-00000000000f''"
    by (simp_all add: late_request_def sample_request_def agent_user_def)
  have j: "judge_time late_request 40000000 50000000 (\<lambda>_. 0) closed_tables = Inr (40000000, True)"
    by (simp add: judge_time_def u MAX_AHEAD_MS_def MAX_AGE_MS_def LIVE_WINDOW_MS_def Let_def last_replayed_def closed_tables_def
        first_of_def or_else_def)
  have r: "to_reopen no_limits 1 40000000 (rp_work closed_tables) = Some (closed_day, 36000000)"
    by (simp add: to_reopen_def newest_session_def first_of_def closed_tables_def closed_day_def no_limits_def findOpen_def is_open_def)
  show ?thesis
    using r by (simp add: begin_event_def u sample_event_id late_request_time look_up_def find_event_def closed_tables_def [THEN arg_cong [of _ _ rp_events]]
        claim_event_def j reopenAutoClosed_def Let_def)
qed

theorem refused_action_changes_no_day_witness:
  "rp_work (snd (intercept late_request refusing 50000000 (\<lambda>_. 0) no_limits closed_tables)) = rp_work closed_tables"
proof (rule refused_action_changes_no_day)
  have "db_ok ((empty_db (\<lambda>_. Some 7) (\<lambda>_. 48))\<lparr>db_dayEnds := d\<rparr>)" for d by (rule dayEnds_ok [OF empty_db_ok])
  then show "work_ok (rp_work closed_tables)"
    by (simp add: closed_tables_def work_ok_def sessions_ok_def closed_day_def)
  show "\<forall>clk w. \<exists>status body. refusing clk w = (Inl (status, body), w)" by (simp add: refusing_def)
qed

theorem only_journaled_actions_act_in_the_past_witness:
  "\<exists>r db. begin_event late_request 50000000 (\<lambda>_. 0) no_limits closed_tables = (Inr (NewEvent 40000000 True (Some r)), db)
    \<and> timed late_request \<and> 40000000 < (50000000 :: int) - LIVE_WINDOW_MS"
  using late_request_begins only_journaled_actions_act_in_the_past [of late_request 50000000 "\<lambda>_. 0" no_limits closed_tables 40000000 True]
  by fastforce

theorem answered_action_never_runs_again_witness:
  "\<exists>db. intercept late_request accepting 50000000 (\<lambda>_. 0) no_limits closed_tables = (Response 201 ''{}'', db)
    \<and> intercept late_request refusing 60000000 (\<lambda>_. 0) None db = (Response 200 ''{}'', db)"
proof -
  obtain r db where b: "begin_event late_request 50000000 (\<lambda>_. 0) no_limits closed_tables = (Inr (NewEvent 40000000 True (Some r)), db)"
    using late_request_begins by blast
  have n: "accepting (frame_of 40000000 True 50000000) (rp_work db) = (Inr (201, ''{}''), rp_work db)" by (simp add: accepting_def)
  obtain a db2 where i: "intercept late_request accepting 50000000 (\<lambda>_. 0) no_limits closed_tables = (a, db2)" by fastforce
  have a: "a = Response 201 ''{}''" using i b n by (simp add: intercept_def)
  have ok: "is_event_uuid (rq_eventId late_request)" "event_at late_request 60000000 \<noteq> None"
    by (simp_all add: sample_event_id late_request_time, simp add: late_request_def sample_event_id)
  from answered_action_never_runs_again [OF b n _ i refl refl ok, of refusing "\<lambda>_. 0" None] show ?thesis using i a by simp
qed

end
