(* ===== verification/Limiters.thy ===== *)
theory Limiters
  imports Tenancy "HOL-Library.AList" "HOL-Library.Multiset"
begin

text \<open>
  Slowing down guessing: the account lock of \<open>src/src/modules/auth/application/login-attempts.service.ts\<close>,
  the limit per client address of \<open>failed-logins-by-address.service.ts\<close> and the limiter of wrong
  sign-out keys, \<open>src/src/modules/signout-keys/domain/attempt-limiter.ts\<close>. Each keeps a JavaScript
  \<open>Map\<close>, here an association list in insertion order; \<open>AList.update\<close> and \<open>AList.delete\<close>
  are \<open>Map.set\<close> and \<open>Map.delete\<close>. The two limiters keep the same contract, the locale
  \<open>window_limiter\<close>, stated over the failures recorded so far.
\<close>

section \<open>Failures within a window\<close>

definition recent :: "int \<Rightarrow> int list \<Rightarrow> int \<Rightarrow> int list" where
  "recent window ts now = filter (\<lambda>t. now - t < window) ts"

definition last_n :: "nat \<Rightarrow> 'a list \<Rightarrow> 'a list" where
  "last_n n xs = drop (length xs - n) xs"

text \<open>At most \<open>limit\<close> failures in every stretch of \<open>window\<close> milliseconds.\<close>

definition spaced :: "nat \<Rightarrow> int \<Rightarrow> int list \<Rightarrow> bool" where
  "spaced limit window ts \<longleftrightarrow> (\<forall>T. length (filter (\<lambda>t. T - window < t \<and> t \<le> T) ts) \<le> limit)"

lemma recent_simps [simp]:
  "recent w [] now = []"
  "recent w (t # ts) now = (if now - t < w then t # recent w ts now else recent w ts now)"
  "recent w (ts @ us) now = recent w ts now @ recent w us now"
  by (simp_all add: recent_def)

lemma set_recent: "set (recent w ts now) = {t \<in> set ts. now - t < w}"
  by (auto simp: recent_def)

lemma recent_recent: "d \<le> now \<Longrightarrow> recent w (recent w ts d) now = recent w ts now"
  unfolding recent_def filter_filter by (rule filter_cong) auto

lemma recent_empty_later: "recent w ts d = [] \<Longrightarrow> d \<le> now \<Longrightarrow> recent w ts now = []"
  by (metis recent_recent recent_simps(1))

lemma sorted_recent: "sorted ts \<Longrightarrow> sorted (recent w ts now)"
  by (simp add: recent_def sorted_wrt_filter)

lemma length_recent_later: "d \<le> now \<Longrightarrow> length (recent w ts now) \<le> length (recent w ts d)"
  by (induction ts) auto

lemma last_n_short: "length xs \<le> n \<Longrightarrow> last_n n xs = xs"
  by (simp add: last_n_def)

lemma length_last_n [simp]: "length (last_n n xs) = min n (length xs)"
  by (simp add: last_n_def)

lemma set_last_n: "set (last_n n xs) \<subseteq> set xs"
  by (simp add: last_n_def set_drop_subset)

lemma sorted_last_n: "sorted xs \<Longrightarrow> sorted (last_n n xs)"
  by (simp add: last_n_def)

lemma last_n_Cons: "last_n n (x # xs) = (if n \<le> length xs then last_n n xs else x # xs)"
  by (simp add: last_n_def Suc_diff_le)

lemma last_n_snoc: "last_n n (last_n n xs @ [x]) = last_n n (xs @ [x])"
  by (cases "n \<le> length xs") (simp_all add: last_n_def Suc_diff_le)

lemma length_recent: "length (recent w ts now) \<le> length ts"
  by (simp add: recent_def)

lemma recent_all: "\<forall>t \<in> set ts. now - t < w \<Longrightarrow> recent w ts now = ts"
  by (simp add: recent_def)

lemma recent_last_n: "sorted ts \<Longrightarrow> recent w (last_n n ts) now = last_n n (recent w ts now)"
proof (induction ts)
  case Nil
  then show ?case by (simp add: last_n_def)
next
  case (Cons t ts)
  then have IH: "recent w (last_n n ts) now = last_n n (recent w ts now)" by simp
  show ?case
  proof (cases "now - t < w")
    case True
    then have all: "\<forall>u \<in> set (t # ts). now - u < w" using Cons.prems by force
    have last: "\<forall>u \<in> set (last_n n (t # ts)). now - u < w"
      by (rule ballI, rule all [THEN bspec], rule set_last_n [THEN subsetD])
    then show ?thesis by (simp only: recent_all [OF all] recent_all [OF last])
  next
    case False
    then have drops: "recent w (t # ts) now = recent w ts now" by simp
    show ?thesis
    proof (cases "n \<le> length ts")
      case True
      then show ?thesis by (simp only: last_n_Cons if_True drops IH)
    next
      case False
      then have "last_n n (recent w ts now) = recent w ts now"
        using length_recent [of w ts now] by (intro last_n_short) simp
      then show ?thesis using False by (simp only: last_n_Cons if_False drops)
    qed
  qed
qed

lemma spaced_Nil [simp]: "spaced limit w []"
  by (simp add: spaced_def)

lemma length_filter_part:
  "mset us \<subseteq># mset ts \<Longrightarrow> length (filter P us) \<le> length (filter P ts)"
  by (metis multiset_filter_mono mset_filter size_mset size_mset_mono)

lemma spaced_snoc:
  assumes "spaced limit w us" "mset us \<subseteq># mset ts" "length (recent w ts now) < limit"
    "\<forall>t \<in> set ts. t \<le> now"
  shows "spaced limit w (us @ [now])"
  unfolding spaced_def
proof
  fix T
  let ?P = "\<lambda>t. T - w < t \<and> t \<le> T"
  show "length (filter ?P (us @ [now])) \<le> limit"
  proof (cases "now \<le> T")
    case True
    have "length (filter ?P us) \<le> length (filter ?P ts)" using assms(2) by (rule length_filter_part)
    also have "\<dots> \<le> length (recent w ts now)"
      using True unfolding recent_def by (induction ts) auto
    finally show ?thesis using assms(3) by auto
  next
    case False
    then show ?thesis using assms(1) by (simp add: spaced_def)
  qed
qed

section \<open>The contract of a limiter\<close>

text \<open>
  \<open>tracks H c s\<close>: the state \<open>s\<close> at clock \<open>c\<close> answers as if it held every failure
  \<open>H k\<close> of every key. \<open>room\<close> says when recording another failure keeps that promise
  (the maps are bounded).
\<close>

locale window_limiter =
  fixes tracks :: "('k \<Rightarrow> int list) \<Rightarrow> int \<Rightarrow> 's \<Rightarrow> bool"
    and room :: "('k \<Rightarrow> int list) \<Rightarrow> 'k \<Rightarrow> int \<Rightarrow> bool"
    and start :: 's
    and look :: "'s \<Rightarrow> 'k \<Rightarrow> int \<Rightarrow> 's"
    and wait :: "'s \<Rightarrow> 'k \<Rightarrow> int \<Rightarrow> int"
    and miss :: "'s \<Rightarrow> 'k \<Rightarrow> int \<Rightarrow> 's"
    and limit :: nat
    and window :: int
    and unit_ms :: int
  assumes tracks_start: "tracks (\<lambda>_. []) c start"
    and tracks_sorted: "tracks H c s \<Longrightarrow> sorted (H k) \<and> (\<forall>t \<in> set (H k). t \<le> c)"
    and tracks_look: "tracks H c s \<Longrightarrow> c \<le> now \<Longrightarrow> tracks H now (look s k now)"
    and tracks_miss:
      "tracks H c s \<Longrightarrow> c \<le> now \<Longrightarrow> room H k now \<Longrightarrow> tracks (H(k := H k @ [now])) now (miss s k now)"
    and wait_nonneg: "0 \<le> wait s k now"
    and wait_iff:
      "tracks H c s \<Longrightarrow> c \<le> now \<Longrightarrow> 0 < wait s k now \<longleftrightarrow> limit \<le> length (recent window (H k) now)"
    and wait_over:
      "tracks H c s \<Longrightarrow> c \<le> now \<Longrightarrow> 0 < wait s k now \<Longrightarrow> now + wait s k now * unit_ms \<le> later
         \<Longrightarrow> length (recent window (H k) later) < limit"
    and unit_pos: "0 < unit_ms"
begin

lemma admitted:
  assumes "tracks H c s" "c \<le> now" "wait s k now = 0"
  shows "length (recent window (H k) now) < limit"
  using wait_iff [OF assms(1,2), of k] assms(3) by simp

lemma admitted_spaced:
  assumes "tracks H c s" "c \<le> now" "wait s k now = 0" "spaced limit window us" "mset us \<subseteq># mset (H k)"
  shows "spaced limit window (us @ [now])"
  using assms(4,5) admitted [OF assms(1-3)]
  by (rule spaced_snoc) (use tracks_sorted [OF assms(1), of k] assms(2) in force)

text \<open>A refused caller who waits the time given is let through again.\<close>

lemma waited:
  assumes "tracks H c s" "c \<le> now" "0 < wait s k now" "now + wait s k now * unit_ms \<le> later"
  shows "wait s k later = 0"
proof -
  have "0 \<le> wait s k now * unit_ms" using assms(3) unit_pos by simp
  then have "c \<le> later" using assms(2,4) by simp
  then have "\<not> 0 < wait s k later"
    using wait_iff [OF assms(1), of later k] wait_over [OF assms] by simp
  then show ?thesis using wait_nonneg [of s k later] by simp
qed

end

section \<open>Failed sign-ins per client address\<close>

text \<open>\<open>Number.parseInt(s, 10)\<close>: an optional sign and the digits after it; None is NaN.\<close>

definition js_parse_int :: "string \<Rightarrow> int option" where
  "js_parse_int s =
     (let t = dropWhile is_space s; neg = (take 1 t = ''-'');
          body = (if neg \<or> take 1 t = ''+'' then drop 1 t else t);
          digits = takeWhile is_digit body
      in if digits = [] then None
         else Some (if neg then - int (parse_digits digits) else int (parse_digits digits)))"

definition FAILED_MAX_FAILURES :: int where
  "FAILED_MAX_FAILURES = 30"

definition FAILED_WINDOW_MS :: int where
  "FAILED_WINDOW_MS = 10 * 60000"

definition FAILED_MAX_TRACKED :: nat where
  "FAILED_MAX_TRACKED = 50000"

text \<open>The two settings of the process environment the limits are read from.\<close>

record login_env =
  LOGIN_FAILED_PER_IP_MAX :: "string option"
  LOGIN_FAILED_PER_IP_WINDOW_MIN :: "string option"

record address_limits =
  maxFailures :: int
  windowMs :: int

definition env_int :: "string option \<Rightarrow> int \<Rightarrow> int \<Rightarrow> int \<Rightarrow> int" where
  "env_int raw lo hi fallback =
     (case js_parse_int (trim (coalesce raw [])) of
        None \<Rightarrow> fallback
      | Some n \<Rightarrow> if n \<ge> lo \<and> n \<le> hi then n else fallback)"

definition failedLoginLimits :: "login_env \<Rightarrow> address_limits" where
  "failedLoginLimits env =
     \<lparr>maxFailures = env_int (LOGIN_FAILED_PER_IP_MAX env) 5 10000 FAILED_MAX_FAILURES,
      windowMs = env_int (LOGIN_FAILED_PER_IP_WINDOW_MIN env) 1 1440 (FAILED_WINDOW_MS div 60000) * 60000\<rparr>"

type_synonym address_failures = "(string \<times> int list) list"

definition failures_of :: "('k \<times> int list) list \<Rightarrow> 'k \<Rightarrow> int list" where
  "failures_of s k = coalesce (map_of s k) []"

definition blockedForMin :: "address_limits \<Rightarrow> address_failures \<Rightarrow> string option \<Rightarrow> int \<Rightarrow> int" where
  "blockedForMin lims s ip now =
     (case ip of
        None \<Rightarrow> 0
      | Some k \<Rightarrow>
          if k = [] then 0
          else (case map_of s k of
                  None \<Rightarrow> 0
                | Some list \<Rightarrow>
                    if int (length list) < maxFailures lims then 0
                    else (let clearsAt = hd list + windowMs lims
                          in if clearsAt > now then max 1 (ceil_div (clearsAt - now) 60000) else 0)))"

definition pruneAddresses :: "address_limits \<Rightarrow> int \<Rightarrow> address_failures \<Rightarrow> address_failures" where
  "pruneAddresses lims now s =
     filter (\<lambda>(ip, list). \<not> (list = [] \<or> now - last list \<ge> windowMs lims)) s"

definition recordAddressFailure ::
  "address_limits \<Rightarrow> address_failures \<Rightarrow> string option \<Rightarrow> int \<Rightarrow> address_failures" where
  "recordAddressFailure lims s ip now =
     (case ip of
        None \<Rightarrow> s
      | Some k \<Rightarrow>
          if k = [] then s
          else (let list = filter (\<lambda>t. now - t < windowMs lims) (failures_of s k) @ [now];
                    kept = last_n (nat (maxFailures lims)) list;
                    s' = AList.update k kept s
                in if length s' > FAILED_MAX_TRACKED then pruneAddresses lims now s' else s'))"

lemma limits_bounds:
  "5 \<le> maxFailures (failedLoginLimits env)" "60000 \<le> windowMs (failedLoginLimits env)"
proof -
  have "lo \<le> fb \<Longrightarrow> lo \<le> env_int raw lo hi fb" for raw lo hi fb
    by (simp add: env_int_def split: option.split)
  from this [of 5 30] this [of 1 10]
  show "5 \<le> maxFailures (failedLoginLimits env)" "60000 \<le> windowMs (failedLoginLimits env)"
    by (simp_all add: failedLoginLimits_def FAILED_MAX_FAILURES_def FAILED_WINDOW_MS_def)
qed

definition address_tracks ::
  "address_limits \<Rightarrow> (string \<Rightarrow> int list) \<Rightarrow> int \<Rightarrow> address_failures \<Rightarrow> bool" where
  "address_tracks lims H c s \<longleftrightarrow>
     distinct (map fst s) \<and> H [] = []
     \<and> (\<forall>k. sorted (H k) \<and> (\<forall>t \<in> set (H k). t \<le> c))
     \<and> (\<forall>k. \<exists>d \<le> c. failures_of s k = last_n (nat (maxFailures lims)) (recent (windowMs lims) (H k) d))"

lemma failures_of_update [simp]:
  "failures_of (AList.update k v s) j = (if j = k then v else failures_of s j)"
  by (simp add: failures_of_def update_conv')

lemma address_kept:
  assumes "address_tracks lims H c s"
  shows "\<exists>d \<le> c. failures_of s k = last_n (nat (maxFailures lims)) (recent (windowMs lims) (H k) d)"
    "sorted (H k)" "\<forall>t \<in> set (H k). t \<le> c"
  using assms by (simp_all add: address_tracks_def)

lemma address_tracked:
  assumes "address_tracks lims H c s" "c \<le> now"
  shows "recent (windowMs lims) (failures_of s k) now
           = last_n (nat (maxFailures lims)) (recent (windowMs lims) (H k) now)"
proof -
  obtain d where d: "d \<le> c"
    "failures_of s k = last_n (nat (maxFailures lims)) (recent (windowMs lims) (H k) d)"
    using address_kept(1) [OF assms(1)] by blast
  have "recent (windowMs lims) (failures_of s k) now
      = last_n (nat (maxFailures lims)) (recent (windowMs lims) (recent (windowMs lims) (H k) d) now)"
    unfolding d(2) by (rule recent_last_n [OF sorted_recent [OF address_kept(2) [OF assms(1)]]])
  then show ?thesis using recent_recent [of d now] d(1) assms(2) by simp
qed

lemma failures_sorted:
  assumes "address_tracks lims H c s"
  shows "sorted (failures_of s k)" "length (failures_of s k) \<le> nat (maxFailures lims)"
    "\<forall>t \<in> set (failures_of s k). t \<le> c"
proof -
  obtain d where d: "failures_of s k = last_n (nat (maxFailures lims)) (recent (windowMs lims) (H k) d)"
    using address_kept(1) [OF assms] by blast
  note H = address_kept(2,3) [OF assms, of k]
  show "sorted (failures_of s k)" "length (failures_of s k) \<le> nat (maxFailures lims)"
    using H(1) by (simp_all add: d sorted_last_n sorted_recent)
  have "set (failures_of s k) \<subseteq> set (H k)"
    unfolding d using set_last_n [of _ "recent (windowMs lims) (H k) d"] by (auto simp: set_recent)
  then show "\<forall>t \<in> set (failures_of s k). t \<le> c" using H(2) by auto
qed

lemma head_in_window:
  assumes "sorted ts" "length ts \<le> n" "0 < n"
  shows "n \<le> length (recent w ts now) \<longleftrightarrow> n \<le> length ts \<and> now < hd ts + w"
proof (cases ts)
  case Nil
  then show ?thesis using assms(3) by simp
next
  case (Cons t us)
  show ?thesis
  proof (cases "now - t < w")
    case True
    then have "\<forall>u \<in> set ts. now - u < w" using assms(1) Cons by force
    then show ?thesis using True Cons by (simp only: recent_all) auto
  next
    case False
    then have "length (recent w ts now) \<le> length us" using Cons length_recent [of w us now] by simp
    then show ?thesis using False Cons assms(2) by auto
  qed
qed

text \<open>An address is refused exactly while it failed as often as allowed within the window.\<close>

lemma blockedForMin_value:
  assumes "address_tracks lims H c s" "5 \<le> maxFailures lims"
  shows "blockedForMin lims s (Some k) now =
    (if nat (maxFailures lims) \<le> length (failures_of s k) \<and> now < hd (failures_of s k) + windowMs lims
     then max 1 (ceil_div (hd (failures_of s k) + windowMs lims - now) 60000) else 0)"
proof (cases "k = []")
  case True
  have "failures_of s [] = []"
    using assms(1) by (auto simp: address_tracks_def last_n_def) (metis drop_Nil recent_simps(1))
  then show ?thesis using True assms(2) by (simp add: blockedForMin_def)
next
  case False
  then show ?thesis using assms(2)
    by (auto simp: blockedForMin_def failures_of_def Let_def nat_le_iff split: option.splits)
qed

lemma blockedForMin_iff:
  assumes "address_tracks lims H c s" "c \<le> now" "5 \<le> maxFailures lims"
  shows "0 < blockedForMin lims s (Some k) now
    \<longleftrightarrow> nat (maxFailures lims) \<le> length (recent (windowMs lims) (H k) now)"
proof -
  have "0 < blockedForMin lims s (Some k) now \<longleftrightarrow>
      nat (maxFailures lims) \<le> length (failures_of s k) \<and> now < hd (failures_of s k) + windowMs lims"
    unfolding blockedForMin_value [OF assms(1,3)] by auto
  also have "\<dots> \<longleftrightarrow> nat (maxFailures lims) \<le> length (recent (windowMs lims) (failures_of s k) now)"
    using head_in_window [OF failures_sorted(1,2) [OF assms(1), of k]] assms(3) by simp
  finally show ?thesis unfolding address_tracked [OF assms(1,2)] by simp
qed

lemma map_of_filter_keys:
  "distinct (map fst s) \<Longrightarrow>
     map_of (filter (\<lambda>(k, l). P k l) s) k = (case map_of s k of None \<Rightarrow> None | Some l \<Rightarrow> if P k l then Some l else None)"
  by (induction s) (auto split: option.splits dest: map_of_SomeD simp: rev_image_eqI)

lemma distinct_filter_keys: "distinct (map fst s) \<Longrightarrow> distinct (map fst (filter P s))"
  by (induction s) auto

text \<open>Forgetting an address whose last failure is older than the window changes no answer.\<close>

lemma prune_tracks:
  assumes "address_tracks lims H c s" "0 < maxFailures lims"
  shows "address_tracks lims H c (pruneAddresses lims c s)"
proof -
  let ?M = "nat (maxFailures lims)" and ?W = "windowMs lims" and ?s = "pruneAddresses lims c s"
  have d: "distinct (map fst s)" using assms(1) by (simp add: address_tracks_def)
  have pruned: "failures_of ?s k =
      (if failures_of s k = [] \<or> c - last (failures_of s k) \<ge> ?W then [] else failures_of s k)" for k
    unfolding failures_of_def pruneAddresses_def map_of_filter_keys [OF d] by (simp split: option.splits)
  have kept: "\<exists>e \<le> c. failures_of ?s k = last_n ?M (recent ?W (H k) e)" for k
  proof (cases "failures_of s k = [] \<or> c - last (failures_of s k) \<ge> ?W")
    case True
    have "t \<le> last (failures_of s k)" if "t \<in> set (failures_of s k)" for t
      using failures_sorted(1) [OF assms(1), of k] that
      by (cases "failures_of s k" rule: rev_cases) (auto simp: sorted_append)
    then have "recent ?W (failures_of s k) c = []"
      using True by (fastforce simp: recent_def filter_empty_conv)
    then have "last_n ?M (recent ?W (H k) c) = []"
      using address_tracked [OF assms(1) order_refl, of k] by simp
    then show ?thesis using True by (auto simp: pruned)
  next
    case False
    then show ?thesis using address_kept(1) [OF assms(1), of k] by (simp add: pruned)
  qed
  show ?thesis
    using assms(1) kept distinct_filter_keys [OF d] by (simp add: address_tracks_def pruneAddresses_def)
qed

lemma address_failure_tracks:
  assumes "address_tracks lims H c s" "c \<le> now" "k \<noteq> []" "0 < maxFailures lims" "0 < windowMs lims"
  shows "address_tracks lims (H(k := H k @ [now])) now (recordAddressFailure lims s (Some k) now)"
proof -
  let ?M = "nat (maxFailures lims)" and ?W = "windowMs lims"
  let ?s = "AList.update k (last_n ?M (recent ?W (failures_of s k) now @ [now])) s"
  let ?H = "H(k := H k @ [now])"
  have "last_n ?M (recent ?W (failures_of s k) now @ [now]) = last_n ?M (recent ?W (H k) now @ [now])"
    unfolding address_tracked [OF assms(1,2)] by (rule last_n_snoc)
  also have "\<dots> = last_n ?M (recent ?W (?H k) now)" using assms(5) by simp
  finally have new: "last_n ?M (recent ?W (failures_of s k) now @ [now]) = last_n ?M (recent ?W (?H k) now)" .
  have kept: "\<exists>e \<le> now. failures_of ?s j = last_n ?M (recent ?W (?H j) e)" for j
  proof (cases "j = k")
    case True
    then show ?thesis using new by (intro exI [of _ now]) simp
  next
    case False
    obtain d where "d \<le> c" "failures_of s j = last_n ?M (recent ?W (H j) d)"
      using address_kept(1) [OF assms(1)] by blast
    then show ?thesis using False assms(2) by (intro exI [of _ d]) simp
  qed
  have sorted: "sorted (?H j) \<and> (\<forall>t \<in> set (?H j). t \<le> now)" for j
    using address_kept(2,3) [OF assms(1), of j] assms(2) by (force simp: sorted_append)
  have "distinct (map fst ?s)" "?H [] = []"
    using assms(1,3) by (simp_all add: address_tracks_def distinct_update)
  then have tracks: "address_tracks lims ?H now ?s"
    using kept sorted by (simp add: address_tracks_def)
  then have "address_tracks lims ?H now (pruneAddresses lims now ?s)"
    using assms(4) by (rule prune_tracks)
  then show ?thesis
    using tracks assms(3) by (simp add: recordAddressFailure_def Let_def recent_def [symmetric])
qed

lemma ceil_div_waits: "0 < b \<Longrightarrow> x \<le> max 1 (ceil_div x b) * b"
  by (rule order_trans [OF ceil_div_bounds(1), of b])
     (simp_all add: mult.commute [of b] mult_right_mono)

lemma blockedForMin_over:
  assumes "address_tracks lims H c s" "c \<le> now" "5 \<le> maxFailures lims"
    "0 < blockedForMin lims s (Some k) now" "now + blockedForMin lims s (Some k) now * 60000 \<le> later"
  shows "length (recent (windowMs lims) (H k) later) < nat (maxFailures lims)"
proof -
  let ?clears = "hd (failures_of s k) + windowMs lims"
  have min: "blockedForMin lims s (Some k) now = max 1 (ceil_div (?clears - now) 60000)"
    using assms(4) unfolding blockedForMin_value [OF assms(1,3)] by (simp split: if_splits)
  have "?clears - now \<le> blockedForMin lims s (Some k) now * 60000"
    unfolding min by (rule ceil_div_waits) simp
  moreover have "c \<le> later" using assms(2,4,5) by linarith
  ultimately show ?thesis
    using assms(3-5) blockedForMin_iff [OF assms(1) _ assms(3), of later k]
      blockedForMin_value [OF assms(1,3), of k later] by fastforce
qed

lemma no_failures_tracked: "address_tracks lims (\<lambda>_. []) c []"
  by (auto simp: address_tracks_def failures_of_def last_n_def)

lemma address_later:
  assumes "address_tracks lims H c s" "c \<le> now"
  shows "address_tracks lims H now s"
proof -
  have "\<exists>d \<le> now. failures_of s k = last_n (nat (maxFailures lims)) (recent (windowMs lims) (H k) d)" for k
    using address_kept(1) [OF assms(1), of k] assms(2) order_trans by blast
  then show ?thesis
    using assms address_kept(3) [OF assms(1)] by (force simp: address_tracks_def)
qed

lemma blockedForMin_nonneg: "0 \<le> blockedForMin lims s ip now"
  by (auto simp: blockedForMin_def Let_def split: option.splits)

interpretation by_address: window_limiter "address_tracks (failedLoginLimits env)" "\<lambda>H k now. k \<noteq> []" "[]"
    "\<lambda>s k now. s" "\<lambda>s k. blockedForMin (failedLoginLimits env) s (Some k)"
    "\<lambda>s k. recordAddressFailure (failedLoginLimits env) s (Some k)"
    "nat (maxFailures (failedLoginLimits env))" "windowMs (failedLoginLimits env)" 60000
proof
  note bounds = limits_bounds [of env]
  fix H :: "string \<Rightarrow> int list" and c now later s k
  assume t: "address_tracks (failedLoginLimits env) H c s"
  show "sorted (H k) \<and> (\<forall>t\<in>set (H k). t \<le> c)" using address_kept(2,3) [OF t] by simp
  assume now: "c \<le> now"
  show "address_tracks (failedLoginLimits env) H now s"
    by (rule address_later [OF t now])
  show "k \<noteq> [] \<Longrightarrow> address_tracks (failedLoginLimits env) (H(k := H k @ [now])) now
      (recordAddressFailure (failedLoginLimits env) s (Some k) now)"
    by (rule address_failure_tracks [OF t now]) (use bounds in simp_all)
  show "(0 < blockedForMin (failedLoginLimits env) s (Some k) now) =
      (nat (maxFailures (failedLoginLimits env)) \<le> length (recent (windowMs (failedLoginLimits env)) (H k) now))"
    by (rule blockedForMin_iff [OF t now bounds(1)])
  show "0 < blockedForMin (failedLoginLimits env) s (Some k) now \<Longrightarrow>
      now + blockedForMin (failedLoginLimits env) s (Some k) now * 60000 \<le> later \<Longrightarrow>
      length (recent (windowMs (failedLoginLimits env)) (H k) later) < nat (maxFailures (failedLoginLimits env))"
    by (rule blockedForMin_over [OF t now bounds(1)])
qed (simp_all add: no_failures_tracked blockedForMin_nonneg)

section \<open>Wrong sign-out keys per person\<close>

text \<open>
  \<open>AttemptLimiter\<close>. \<open>recent\<close> also writes the pruned list back, so asking for the wait
  changes the map. The array it returns is the one stored; \<open>recordFailure\<close> stores it again after
  pushing, so sharing it makes no difference.
\<close>

type_synonym key_attempts = "(uid \<times> int list) list"

definition ATTEMPT_MAX_FAILURES :: nat where
  "ATTEMPT_MAX_FAILURES = 5"

definition ATTEMPT_WINDOW_MS :: int where
  "ATTEMPT_WINDOW_MS = 10 * 60 * 1000"

definition ATTEMPT_MAX_PEOPLE :: nat where
  "ATTEMPT_MAX_PEOPLE = 10000"

definition recentAttempts :: "key_attempts \<Rightarrow> uid \<Rightarrow> int \<Rightarrow> key_attempts \<times> int list" where
  "recentAttempts s personId now =
     (let list = filter (\<lambda>t. now - t < ATTEMPT_WINDOW_MS) (failures_of s personId)
      in (if list \<noteq> [] then AList.update personId list s else AList.delete personId s, list))"

definition retryAfterSec :: "key_attempts \<Rightarrow> uid \<Rightarrow> int \<Rightarrow> int" where
  "retryAfterSec s personId now =
     (let recent = snd (recentAttempts s personId now)
      in if length recent < ATTEMPT_MAX_FAILURES then 0
         else (let oldest = recent ! (length recent - ATTEMPT_MAX_FAILURES)
               in max 1 (ceil_div (oldest + ATTEMPT_WINDOW_MS - now) 1000)))"

definition askedRetry :: "key_attempts \<Rightarrow> uid \<Rightarrow> int \<Rightarrow> key_attempts" where
  "askedRetry s personId now = fst (recentAttempts s personId now)"

definition sweepAttempts :: "key_attempts \<Rightarrow> int \<Rightarrow> key_attempts" where
  "sweepAttempts s now =
     (let s' = fold (\<lambda>id u. fst (recentAttempts u id now)) (map fst s) s
      in if length s' \<ge> ATTEMPT_MAX_PEOPLE then [] else s')"

definition recordKeyFailure :: "key_attempts \<Rightarrow> uid \<Rightarrow> int \<Rightarrow> key_attempts" where
  "recordKeyFailure s personId now =
     (let (s1, recent) = recentAttempts s personId now;
          s2 = (if map_of s1 personId = None \<and> length s1 \<ge> ATTEMPT_MAX_PEOPLE then sweepAttempts s1 now else s1)
      in AList.update personId (recent @ [now]) s2)"

definition resetAttempts :: "key_attempts \<Rightarrow> uid \<Rightarrow> key_attempts" where
  "resetAttempts s personId = AList.delete personId s"

definition attempts_tracks :: "(uid \<Rightarrow> int list) \<Rightarrow> int \<Rightarrow> key_attempts \<Rightarrow> bool" where
  "attempts_tracks H c s \<longleftrightarrow>
     distinct (map fst s)
     \<and> (\<forall>k. sorted (H k) \<and> (\<forall>t \<in> set (H k). t \<le> c))
     \<and> (\<forall>k l. map_of s k = Some l \<longrightarrow> l \<noteq> [])
     \<and> (\<forall>k. \<exists>d \<le> c. failures_of s k = recent ATTEMPT_WINDOW_MS (H k) d)"

text \<open>At most so many people may have failed within the window, the one failing now included.\<close>

definition attempts_room :: "(uid \<Rightarrow> int list) \<Rightarrow> uid \<Rightarrow> int \<Rightarrow> bool" where
  "attempts_room H k now \<longleftrightarrow>
     finite {j. recent ATTEMPT_WINDOW_MS (H j) now \<noteq> []}
     \<and> card (insert k {j. recent ATTEMPT_WINDOW_MS (H j) now \<noteq> []}) \<le> ATTEMPT_MAX_PEOPLE"

lemma failures_of_delete [simp]: "failures_of (AList.delete k s) j = (if j = k then [] else failures_of s j)"
  by (simp add: failures_of_def delete_conv')

lemma attempts_kept:
  assumes "attempts_tracks H c s"
  shows "\<exists>d \<le> c. failures_of s k = recent ATTEMPT_WINDOW_MS (H k) d"
    "sorted (H k)" "\<forall>t \<in> set (H k). t \<le> c" "distinct (map fst s)"
    "map_of s k = Some l \<Longrightarrow> l \<noteq> []"
  using assms by (simp_all add: attempts_tracks_def)

lemma attempts_tracked:
  assumes "attempts_tracks H c s" "c \<le> now"
  shows "recent ATTEMPT_WINDOW_MS (failures_of s k) now = recent ATTEMPT_WINDOW_MS (H k) now"
  using attempts_kept(1) [OF assms(1), of k] recent_recent assms(2) by fastforce

lemma recentAttempts_tracks:
  assumes "attempts_tracks H c s" "c \<le> now"
  shows "attempts_tracks H now (fst (recentAttempts s k now))"
    "snd (recentAttempts s k now) = recent ATTEMPT_WINDOW_MS (H k) now"
    "failures_of (fst (recentAttempts s k now)) j
       = (if j = k then recent ATTEMPT_WINDOW_MS (H k) now else failures_of s j)"
    "set (map fst (fst (recentAttempts s k now))) \<subseteq> insert k (set (map fst s))"
proof -
  let ?s = "fst (recentAttempts s k now)" and ?W = ATTEMPT_WINDOW_MS
  show list: "snd (recentAttempts s k now) = recent ?W (H k) now"
    using attempts_tracked [OF assms, of k] by (simp add: recentAttempts_def Let_def recent_def)
  show failures: "failures_of ?s j = (if j = k then recent ?W (H k) now else failures_of s j)" for j
    using list by (auto simp: recentAttempts_def Let_def)
  show "set (map fst ?s) \<subseteq> insert k (set (map fst s))"
    by (auto simp: recentAttempts_def Let_def dom_map_of_conv_image_fst [symmetric] update_conv' delete_conv'
        split: if_splits)
  have "\<exists>d \<le> now. failures_of ?s j = recent ?W (H j) d" for j
    using attempts_kept(1) [OF assms(1), of j] assms(2) order_trans
    unfolding failures by (cases "j = k") (simp_all, blast+)
  moreover have "distinct (map fst ?s)"
    using attempts_kept(4) [OF assms(1)]
    by (simp add: recentAttempts_def Let_def distinct_update distinct_delete)
  moreover have "map_of ?s j = Some l \<Longrightarrow> l \<noteq> []" for j l
    using attempts_kept(5) [OF assms(1), of j l]
    by (auto simp: recentAttempts_def Let_def update_conv' delete_conv' split: if_splits)
  ultimately show "attempts_tracks H now ?s"
    using attempts_kept(2,3) [OF assms(1)] assms(2) by (force simp: attempts_tracks_def)
qed

lemma attempts_later:
  assumes "attempts_tracks H c s" "c \<le> now"
  shows "attempts_tracks H now s"
proof -
  have "\<exists>d \<le> now. failures_of s k = recent ATTEMPT_WINDOW_MS (H k) d" for k
    using attempts_kept(1) [OF assms(1), of k] assms(2) order_trans by blast
  then show ?thesis
    using assms attempts_kept(3) [OF assms(1)] by (force simp: attempts_tracks_def)
qed

lemma sweep_fold:
  assumes "attempts_tracks H now s"
  shows "attempts_tracks H now (fold (\<lambda>id u. fst (recentAttempts u id now)) ids s)
    \<and> (\<forall>k. failures_of (fold (\<lambda>id u. fst (recentAttempts u id now)) ids s) k
          = (if k \<in> set ids then recent ATTEMPT_WINDOW_MS (H k) now else failures_of s k))
    \<and> set (map fst (fold (\<lambda>id u. fst (recentAttempts u id now)) ids s)) \<subseteq> set ids \<union> set (map fst s)"
  using assms
proof (induction ids arbitrary: s)
  case Nil
  then show ?case by simp
next
  case (Cons i ids)
  note r = recentAttempts_tracks [OF Cons.prems order_refl, where k = i]
  note IH = Cons.IH [OF r(1)]
  have "set (map fst (fold (\<lambda>id u. fst (recentAttempts u id now)) (i # ids) s))
      \<subseteq> set (i # ids) \<union> set (map fst s)"
    using IH [THEN conjunct2, THEN conjunct2] r(4) unfolding fold_simps list.set by blast
  then show ?case using IH r(3) by simp
qed

lemma tracked_size:
  assumes "attempts_tracks H now s" "attempts_room H k now" "recent ATTEMPT_WINDOW_MS (H k) now = []"
    "\<And>j. j \<in> set (map fst s) \<Longrightarrow> failures_of s j = recent ATTEMPT_WINDOW_MS (H j) now"
  shows "length s < ATTEMPT_MAX_PEOPLE"
proof -
  let ?R = "{j. recent ATTEMPT_WINDOW_MS (H j) now \<noteq> []}"
  have "set (map fst s) \<subseteq> ?R"
  proof
    fix j assume j: "j \<in> set (map fst s)"
    then obtain l where l: "map_of s j = Some l" by (cases "map_of s j") (auto simp: map_of_eq_None_iff)
    have "l \<noteq> []" by (rule attempts_kept(5) [OF assms(1) l])
    then show "j \<in> ?R" using assms(4) [OF j] l by (simp add: failures_of_def)
  qed
  then have "card (set (map fst s)) \<le> card ?R"
    using assms(2) by (intro card_mono) (simp_all add: attempts_room_def)
  moreover have "card (set (map fst s)) = length s"
    using distinct_card [OF attempts_kept(4) [OF assms(1)]] by (simp only: length_map)
  moreover have "card (insert k ?R) = Suc (card ?R)"
    using assms(2,3) by (intro card_insert_disjoint) (simp_all add: attempts_room_def)
  then have "card ?R < ATTEMPT_MAX_PEOPLE"
    using assms(2) by (simp add: attempts_room_def)
  ultimately show ?thesis by linarith
qed

lemma sweep_tracks:
  assumes "attempts_tracks H now s" "attempts_room H k now" "recent ATTEMPT_WINDOW_MS (H k) now = []"
  shows "attempts_tracks H now (sweepAttempts s now)"
proof -
  obtain s' where s': "s' = fold (\<lambda>id u. fst (recentAttempts u id now)) (map fst s) s" by blast
  note f = sweep_fold [OF assms(1), of "map fst s", folded s']
  have "length s' < ATTEMPT_MAX_PEOPLE"
  proof (rule tracked_size [OF f [THEN conjunct1] assms(2,3)])
    fix j assume "j \<in> set (map fst s')"
    then have "j \<in> set (map fst s)" using f [THEN conjunct2, THEN conjunct2] by blast
    then show "failures_of s' j = recent ATTEMPT_WINDOW_MS (H j) now"
      by (simp only: f [THEN conjunct2, THEN conjunct1, rule_format] if_True)
  qed
  then show ?thesis using f [THEN conjunct1] by (simp add: sweepAttempts_def s' [symmetric])
qed

lemma attempt_stored_tracks:
  assumes "attempts_tracks H now s"
  shows "attempts_tracks (H(k := H k @ [now])) now
           (AList.update k (recent ATTEMPT_WINDOW_MS (H k) now @ [now]) s)"
proof -
  let ?s = "AList.update k (recent ATTEMPT_WINDOW_MS (H k) now @ [now]) s" and ?H = "H(k := H k @ [now])"
  have "\<exists>d \<le> now. failures_of ?s j = recent ATTEMPT_WINDOW_MS (?H j) d" for j
    using attempts_kept(1) [OF assms, of j]
    by (cases "j = k") (auto simp: ATTEMPT_WINDOW_MS_def)
  moreover have "sorted (?H j) \<and> (\<forall>t \<in> set (?H j). t \<le> now)" for j
    using attempts_kept(2,3) [OF assms, of j] by (auto simp: sorted_append)
  moreover have "distinct (map fst ?s)" using attempts_kept(4) [OF assms] by (simp add: distinct_update)
  moreover have "map_of ?s j = Some l \<Longrightarrow> l \<noteq> []" for j l
    using attempts_kept(5) [OF assms, of j l] by (auto simp: update_conv' split: if_splits)
  ultimately show ?thesis by (simp add: attempts_tracks_def)
qed

lemma key_failure_tracks:
  assumes "attempts_tracks H c s" "c \<le> now" "attempts_room H k now"
  shows "attempts_tracks (H(k := H k @ [now])) now (recordKeyFailure s k now)"
proof -
  obtain s1 where s1: "recentAttempts s k now = (s1, recent ATTEMPT_WINDOW_MS (H k) now)"
    using recentAttempts_tracks(2) [OF assms(1,2)] by (metis prod.collapse)
  have t: "attempts_tracks H now s1" "failures_of s1 k = recent ATTEMPT_WINDOW_MS (H k) now"
    using recentAttempts_tracks(1,3) [OF assms(1,2), of k] s1 by simp_all
  show ?thesis
  proof (cases "map_of s1 k = None \<and> length s1 \<ge> ATTEMPT_MAX_PEOPLE")
    case True
    then have "recent ATTEMPT_WINDOW_MS (H k) now = []" using t(2) by (simp add: failures_of_def)
    from attempt_stored_tracks [OF sweep_tracks [OF t(1) assms(3) this]] True show ?thesis
      by (simp add: recordKeyFailure_def s1)
  next
    case False
    then have "recordKeyFailure s k now = AList.update k (recent ATTEMPT_WINDOW_MS (H k) now @ [now]) s1"
      unfolding recordKeyFailure_def s1 by (simp only: Let_def prod.case if_False)
    then show ?thesis using attempt_stored_tracks [OF t(1)] by simp
  qed
qed

lemma reset_tracks:
  assumes "attempts_tracks H c s"
  shows "attempts_tracks (H(k := [])) c (resetAttempts s k)"
  using assms
  by (auto simp: attempts_tracks_def resetAttempts_def distinct_delete delete_conv' split: if_splits)

lemma retryAfterSec_value:
  assumes "attempts_tracks H c s" "c \<le> now"
  shows "retryAfterSec s k now =
    (let ts = recent ATTEMPT_WINDOW_MS (H k) now
     in if length ts < ATTEMPT_MAX_FAILURES then 0
        else max 1 (ceil_div (ts ! (length ts - ATTEMPT_MAX_FAILURES) + ATTEMPT_WINDOW_MS - now) 1000))"
  by (simp add: retryAfterSec_def recentAttempts_tracks(2) [OF assms] Let_def)

lemma nth_not_recent:
  assumes "sorted ts" "i < length ts" "w \<le> now - ts ! i"
  shows "length (recent w ts now) < length ts - i"
proof -
  have "recent w (take (Suc i) ts) now = []"
  proof -
    have "\<not> now - t < w" if t: "t \<in> set (take (Suc i) ts)" for t
    proof -
      obtain j where "j \<le> i" "t = ts ! j"
        using t assms(2) by (auto simp: in_set_conv_nth less_Suc_eq_le)
      then have "t \<le> ts ! i" using assms(1,2) by (simp add: sorted_nth_mono)
      then show ?thesis using assms(3) by simp
    qed
    then show ?thesis by (simp add: recent_def filter_empty_conv)
  qed
  then have "recent w ts now = recent w (drop (Suc i) ts) now"
    by (metis append_Nil append_take_drop_id recent_simps(3))
  then show ?thesis using length_recent [of w "drop (Suc i) ts" now] assms(2) by simp
qed

lemma retryAfterSec_over:
  assumes "attempts_tracks H c s" "c \<le> now" "0 < retryAfterSec s k now"
    "now + retryAfterSec s k now * 1000 \<le> later"
  shows "length (recent ATTEMPT_WINDOW_MS (H k) later) < ATTEMPT_MAX_FAILURES"
proof -
  let ?W = ATTEMPT_WINDOW_MS and ?n = ATTEMPT_MAX_FAILURES
  let ?ts = "recent ?W (H k) now" let ?i = "length ?ts - ?n"
  have n: "?n \<le> length ?ts" and wait: "retryAfterSec s k now = max 1 (ceil_div (?ts ! ?i + ?W - now) 1000)"
    using assms(3) unfolding retryAfterSec_value [OF assms(1,2)] by (auto simp: Let_def split: if_splits)
  have "?ts ! ?i + ?W - now \<le> retryAfterSec s k now * 1000"
    unfolding wait by (rule ceil_div_waits) simp
  then have old: "?W \<le> later - ?ts ! ?i" using assms(4) by linarith
  have pos: "0 < ?n" by (simp add: ATTEMPT_MAX_FAILURES_def)
  have "length (recent ?W ?ts later) < length ?ts - ?i"
    by (rule nth_not_recent [OF sorted_recent [OF attempts_kept(2) [OF assms(1)]] _ old])
       (use n pos in linarith)
  moreover have "now \<le> later" using assms(3,4) by linarith
  ultimately show ?thesis using n by (simp add: recent_recent)
qed

interpretation by_person: window_limiter attempts_tracks attempts_room "[]" askedRetry retryAfterSec
    "\<lambda>s k. recordKeyFailure s k" ATTEMPT_MAX_FAILURES ATTEMPT_WINDOW_MS 1000
proof
  fix H :: "uid \<Rightarrow> int list" and c now later s k
  show "attempts_tracks (\<lambda>_. []) c []"
    by (auto simp: attempts_tracks_def failures_of_def)
  show "0 \<le> retryAfterSec s k now" by (simp add: retryAfterSec_def Let_def le_max_iff_disj)
  assume t: "attempts_tracks H c s"
  show "sorted (H k) \<and> (\<forall>t\<in>set (H k). t \<le> c)" using attempts_kept(2,3) [OF t] by simp
  assume now: "c \<le> now"
  show "attempts_tracks H now (askedRetry s k now)"
    unfolding askedRetry_def by (rule recentAttempts_tracks(1) [OF t now])
  show "attempts_room H k now \<Longrightarrow> attempts_tracks (H(k := H k @ [now])) now (recordKeyFailure s k now)"
    by (rule key_failure_tracks [OF t now])
  show "(0 < retryAfterSec s k now) = (ATTEMPT_MAX_FAILURES \<le> length (recent ATTEMPT_WINDOW_MS (H k) now))"
    by (auto simp: retryAfterSec_value [OF t now] Let_def)
  show "0 < retryAfterSec s k now \<Longrightarrow> now + retryAfterSec s k now * 1000 \<le> later \<Longrightarrow>
      length (recent ATTEMPT_WINDOW_MS (H k) later) < ATTEMPT_MAX_FAILURES"
    by (rule retryAfterSec_over [OF t now])
qed simp

section \<open>The account lock\<close>

record attempt_entry =
  at_failures :: nat
  at_firstAt :: int
  at_lockedUntil :: int

type_synonym login_attempts = "(string \<times> attempt_entry) list"

definition LOGIN_MAX_FAILURES :: nat where
  "LOGIN_MAX_FAILURES = 10"

definition LOGIN_WINDOW_MS :: int where
  "LOGIN_WINDOW_MS = 15 * 60000"

definition LOGIN_LOCK_MS :: int where
  "LOGIN_LOCK_MS = 15 * 60000"

definition LOGIN_MAX_TRACKED :: nat where
  "LOGIN_MAX_TRACKED = 50000"

definition login_key :: "string option \<Rightarrow> string" where
  "login_key email = trim (to_lower (coalesce email []))"

definition assertAllowed :: "login_attempts \<Rightarrow> string option \<Rightarrow> int \<Rightarrow> unit result" where
  "assertAllowed s email now =
     (case map_of s (login_key email) of
        None \<Rightarrow> return ()
      | Some e \<Rightarrow> if at_lockedUntil e > now then throw (TooManyAttemptsError ''TOO_MANY_ATTEMPTS'') else return ())"

definition prune_attempts :: "int \<Rightarrow> login_attempts \<Rightarrow> login_attempts" where
  "prune_attempts now s =
     filter (\<lambda>(k, e). \<not> (at_lockedUntil e \<le> now \<and> now - at_firstAt e > LOGIN_WINDOW_MS)) s"

text \<open>The entry after one more failure.\<close>

definition failed_entry :: "attempt_entry option \<Rightarrow> int \<Rightarrow> attempt_entry" where
  "failed_entry found now =
     (let fresh = \<lparr>at_failures = 0, at_firstAt = now, at_lockedUntil = 0\<rparr>;
          e0 = (case found of
                  None \<Rightarrow> fresh
                | Some e \<Rightarrow> if now - at_firstAt e > LOGIN_WINDOW_MS then fresh else e);
          e1 = e0\<lparr>at_failures := at_failures e0 + 1\<rparr>
      in if at_failures e1 \<ge> LOGIN_MAX_FAILURES
         then e1\<lparr>at_lockedUntil := now + LOGIN_LOCK_MS, at_failures := 0, at_firstAt := now\<rparr>
         else e1)"

definition recordLoginFailure :: "login_attempts \<Rightarrow> string option \<Rightarrow> int \<Rightarrow> login_attempts" where
  "recordLoginFailure s email now =
     (let k = login_key email
      in if k = [] then s
         else (let s' = AList.update k (failed_entry (map_of s k) now) s
               in if length s' > LOGIN_MAX_TRACKED then prune_attempts now s' else s'))"

definition recordSuccess :: "login_attempts \<Rightarrow> string option \<Rightarrow> login_attempts" where
  "recordSuccess s email = AList.delete (login_key email) s"

text \<open>
  Guessing at accounts, one attempt after another: the failures of an account since its last correct
  password are logged under its key. An attempt is made only when \<open>assertAllowed\<close> lets it.
\<close>

inductive guessing :: "login_attempts \<Rightarrow> (string \<Rightarrow> int list) \<Rightarrow> int \<Rightarrow> bool" where
  guess_start: "guessing [] (\<lambda>_. []) now"
| guess_wrong:
    "guessing s L c \<Longrightarrow> c \<le> now \<Longrightarrow> assertAllowed s email now = return () \<Longrightarrow> k = login_key email
     \<Longrightarrow> k \<noteq> [] \<Longrightarrow> guessing (recordLoginFailure s email now) (L(k := L k @ [now])) now"
| guess_right:
    "guessing s L c \<Longrightarrow> c \<le> now \<Longrightarrow> assertAllowed s email now = return () \<Longrightarrow> k = login_key email
     \<Longrightarrow> guessing (recordSuccess s email) (L(k := [])) now"

definition after :: "int \<Rightarrow> int list \<Rightarrow> nat" where
  "after T ts = length (filter (\<lambda>t. T < t) ts)"

lemma after_simps [simp]:
  "after T [] = 0" "after T (ts @ us) = after T ts + after T us"
  "after T [t] = (if T < t then 1 else 0)"
  by (simp_all add: after_def)

lemma after_mono: "T \<le> T' \<Longrightarrow> after T' ts \<le> after T ts"
  unfolding after_def by (induction ts) auto

lemma after_now: "\<forall>t \<in> set ts. t \<le> T \<Longrightarrow> after T ts = 0"
  by (fastforce simp: after_def filter_empty_conv)

text \<open>
  What one account's entry says of its failures: it counts those after its start; an entry that did
  not begin with a lock has at most nine others in the window before.
\<close>

definition entry_ok :: "attempt_entry option \<Rightarrow> int list \<Rightarrow> int \<Rightarrow> bool" where
  "entry_ok found ts c \<longleftrightarrow>
     (\<forall>t \<in> set ts. t \<le> c) \<and> spaced 19 LOGIN_WINDOW_MS ts
     \<and> (case found of
          None \<Rightarrow> after (c - LOGIN_WINDOW_MS) ts \<le> 9
        | Some e \<Rightarrow>
            at_failures e \<le> 9 \<and> after (at_firstAt e) ts \<le> at_failures e \<and> at_firstAt e \<le> c
            \<and> at_lockedUntil e \<le> max 0 (c + LOGIN_LOCK_MS)
            \<and> (at_lockedUntil e = at_firstAt e + LOGIN_LOCK_MS
               \<or> after (at_firstAt e - LOGIN_WINDOW_MS) ts \<le> 9 + at_failures e))"

lemma recent_after: "length (recent w ts now) = after (now - w) ts"
  unfolding recent_def after_def by (induction ts) auto

lemma entry_later: "entry_ok found ts c \<Longrightarrow> c \<le> now \<Longrightarrow> entry_ok found ts now"
  using after_mono [of "c - LOGIN_WINDOW_MS" "now - LOGIN_WINDOW_MS" ts]
  by (fastforce simp: entry_ok_def split: option.splits)

text \<open>An entry the pruning drops would be started afresh by the next failure anyway.\<close>

lemma entry_pruned:
  assumes "entry_ok (Some e) ts c" "c - at_firstAt e > LOGIN_WINDOW_MS"
  shows "entry_ok None ts c"
  using assms after_mono [of "at_firstAt e" "c - LOGIN_WINDOW_MS" ts]
  by (fastforce simp: entry_ok_def)

lemma failures_before:
  assumes "entry_ok found ts now" "\<And>e. found = Some e \<Longrightarrow> at_lockedUntil e \<le> now"
  shows "after (now - LOGIN_WINDOW_MS) ts \<le> 18"
proof (cases found)
  case None
  then show ?thesis using assms(1) by (simp add: entry_ok_def)
next
  case (Some e)
  note ok = assms(1) [unfolded Some entry_ok_def option.case]
  show ?thesis
  proof (cases "at_lockedUntil e = at_firstAt e + LOGIN_LOCK_MS")
    case True
    then have "at_firstAt e \<le> now - LOGIN_WINDOW_MS"
      using assms(2) [OF Some] by (simp add: LOGIN_LOCK_MS_def LOGIN_WINDOW_MS_def)
    then show ?thesis using ok after_mono [of "at_firstAt e" _ ts] by fastforce
  next
    case False
    then have "after (at_firstAt e - LOGIN_WINDOW_MS) ts \<le> 18" "at_firstAt e \<le> now" using ok by auto
    then show ?thesis
      using after_mono [of "at_firstAt e - LOGIN_WINDOW_MS" "now - LOGIN_WINDOW_MS" ts] by simp
  qed
qed

lemma entry_fresh:
  assumes "entry_ok found ts now"
    "found = None \<or> (\<exists>e. found = Some e \<and> now - at_firstAt e > LOGIN_WINDOW_MS)"
  shows "entry_ok (Some \<lparr>at_failures = 1, at_firstAt = now, at_lockedUntil = 0\<rparr>) (ts @ [now]) now"
proof -
  have none: "entry_ok None ts now" using assms entry_pruned by blast
  then have before: "after (now - LOGIN_WINDOW_MS) ts \<le> 9" and le: "\<forall>t \<in> set ts. t \<le> now"
    by (simp_all add: entry_ok_def)
  have "spaced 19 LOGIN_WINDOW_MS (ts @ [now])"
    by (rule spaced_snoc [of _ _ ts ts])
       (use none before le in \<open>simp_all add: entry_ok_def recent_after\<close>)
  then show ?thesis using before le after_now [OF le] by (simp add: entry_ok_def)
qed

lemma entry_failed:
  assumes "entry_ok found ts now" "\<And>e. found = Some e \<Longrightarrow> at_lockedUntil e \<le> now"
  shows "entry_ok (Some (failed_entry found now)) (ts @ [now]) now"
proof (cases "found = None \<or> (\<exists>e. found = Some e \<and> now - at_firstAt e > LOGIN_WINDOW_MS)")
  case True
  then have "failed_entry found now = \<lparr>at_failures = 1, at_firstAt = now, at_lockedUntil = 0\<rparr>"
    by (auto simp: failed_entry_def LOGIN_MAX_FAILURES_def)
  then show ?thesis using entry_fresh [OF assms(1) True] by simp
next
  case False
  then obtain e where e: "found = Some e" "\<not> now - at_firstAt e > LOGIN_WINDOW_MS" by (cases found) auto
  note ok = assms(1) [unfolded e(1) entry_ok_def option.case]
  have le: "\<forall>t \<in> set ts. t \<le> now" using ok by blast
  have spaced: "spaced 19 LOGIN_WINDOW_MS (ts @ [now])"
    by (rule spaced_snoc [of _ _ ts ts])
       (use ok failures_before [OF assms] le in \<open>simp_all add: recent_after\<close>)
  show ?thesis
  proof (cases "at_failures e + 1 \<ge> LOGIN_MAX_FAILURES")
    case True
    then have "failed_entry found now
        = e\<lparr>at_failures := 0, at_firstAt := now, at_lockedUntil := now + LOGIN_LOCK_MS\<rparr>"
      using e by (simp add: failed_entry_def Let_def)
    then show ?thesis using spaced le after_now [OF le] by (simp add: entry_ok_def)
  next
    case False
    then have "failed_entry found now = e\<lparr>at_failures := at_failures e + 1\<rparr>" "at_failures e < 9"
      using e by (simp_all add: failed_entry_def Let_def LOGIN_MAX_FAILURES_def)
    then show ?thesis using ok spaced by (auto simp: entry_ok_def)
  qed
qed

lemma guessing_keeps:
  "guessing s L c \<Longrightarrow> distinct (map fst s) \<and> (\<forall>k. entry_ok (map_of s k) (L k) c)"
proof (induction rule: guessing.induct)
  case (guess_start now)
  show ?case by (simp add: entry_ok_def)
next
  case (guess_wrong s L c now email k)
  then have d: "distinct (map fst s)" and ok: "entry_ok (map_of s j) (L j) now" for j
    using entry_later by blast+
  have free: "at_lockedUntil e \<le> now" if "map_of s k = Some e" for e
    using guess_wrong.hyps that by (simp add: assertAllowed_def split: if_splits)
  let ?s = "AList.update k (failed_entry (map_of s k) now) s" and ?L = "L(k := L k @ [now])"
  have d': "distinct (map fst ?s)" using d by (simp add: distinct_update)
  have ok': "entry_ok (map_of ?s j) (?L j) now" for j
    using ok entry_failed [OF ok free] by (simp add: update_conv')
  have pruned: "entry_ok (map_of (prune_attempts now ?s) j) (?L j) now" for j
    unfolding prune_attempts_def map_of_filter_keys [OF d'] using ok' [of j] entry_pruned
    by (fastforce split: option.splits)
  show ?case
    using guess_wrong.hyps d' ok' pruned distinct_filter_keys [OF d']
    by (simp add: recordLoginFailure_def Let_def prune_attempts_def)
next
  case (guess_right s L c now email k)
  then have "distinct (map fst s)" "\<And>j. entry_ok (map_of s j) (L j) now" using entry_later by blast+
  moreover have "entry_ok None [] now" by (simp add: entry_ok_def)
  ultimately show ?case using guess_right.hyps
    by (simp add: recordSuccess_def distinct_delete delete_conv')
qed

text \<open>Guessing a password is slow, and a lock never lasts. Over any history of sign-in attempts, one
  after another, an account's wrong passwords since its last right one number at most nineteen in any
  stretch of 15 minutes, whatever other accounts do and however often old entries are pruned; and 15
  minutes after the last attempt every account may try again.\<close>

theorem guessing_is_slow:
  assumes "guessing s L now" "0 \<le> now"
  shows "length (filter (\<lambda>t. T - LOGIN_WINDOW_MS < t \<and> t \<le> T) (L k)) \<le> 19
    \<and> assertAllowed s email (now + LOGIN_LOCK_MS) = return ()"
proof -
  have ok: "entry_ok (map_of s j) (L j) now" for j using guessing_keeps [OF assms(1)] by blast
  have "length (filter (\<lambda>t. T - LOGIN_WINDOW_MS < t \<and> t \<le> T) (L k)) \<le> 19"
    using ok [of k] unfolding entry_ok_def spaced_def by blast
  moreover have "assertAllowed s email (now + LOGIN_LOCK_MS) = return ()"
    using ok [of "login_key email"] assms(2)
    by (auto simp: assertAllowed_def entry_ok_def LOGIN_LOCK_MS_def split: option.splits)
  ultimately show ?thesis by blast
qed

definition two_guesses :: login_attempts where
  "two_guesses = [(''a'', \<lparr>at_failures = 2, at_firstAt = 0, at_lockedUntil = 0\<rparr>)]"

lemma two_guesses_reachable: "guessing two_guesses ((\<lambda>_. []) (''a'' := [0, 1])) 1"
proof -
  have key: "login_key (Some ''a'') = ''a''"
    by (simp add: login_key_def trim_def to_lower_def lower_char_def is_space_def)
  note wrong = guess_wrong [OF _ _ _ refl, of _ _ _ _ "Some ''a''", unfolded key]
  have one: "guessing [(''a'', \<lparr>at_failures = 1, at_firstAt = 0, at_lockedUntil = 0\<rparr>)]
      ((\<lambda>_. []) (''a'' := [0])) 0"
    using wrong [OF guess_start [of 0], of 0]
    by (simp add: assertAllowed_def recordLoginFailure_def key failed_entry_def LOGIN_MAX_FAILURES_def
        LOGIN_MAX_TRACKED_def)
  show ?thesis
    using wrong [OF one, of 1]
    by (simp add: assertAllowed_def recordLoginFailure_def key failed_entry_def LOGIN_MAX_FAILURES_def
        LOGIN_MAX_TRACKED_def LOGIN_WINDOW_MS_def two_guesses_def numeral_2_eq_2)
qed

theorem guessing_is_slow_witness:
  "guessing two_guesses ((\<lambda>_. []) (''a'' := [0, 1])) 1
   \<and> length (filter (\<lambda>t. 1 - LOGIN_WINDOW_MS < t \<and> t \<le> 1) [0, 1::int]) \<le> 19
   \<and> assertAllowed two_guesses (Some ''a'') (1 + LOGIN_LOCK_MS) = return ()"
  using guessing_is_slow [OF two_guesses_reachable, of 1 "''a''" "Some ''a''"] two_guesses_reachable by simp

end
