(* ===== verification/Refresh_Tokens.thy ===== *)
theory Refresh_Tokens
  imports Limiters Day_Keys
begin

text \<open>
  Sessions: \<open>src/src/modules/auth/infrastructure/prisma-refresh-token.repository.ts\<close> (the row types are in
  \<open>domain/refresh-token.repository.ts\<close>) over the \<open>refresh_tokens\<close> table and the in-memory cache
  of \<open>src/src/shared/cache/memory-cache.service.ts\<close>, and the nightly purge of
  \<open>jobs/refresh-token-cleanup.job.ts\<close>. SHA-256 is the parameter \<open>hash\<close>, a raw token from the
  random source an argument of the operation that draws it.
\<close>

section \<open>The table and the cache\<close>

record refresh_meta =
  rm_userAgent :: "string option"
  rm_ip :: "string option"

record refresh_row =
  rt_id :: uid
  rt_userId :: uid
  rt_tokenHash :: string
  rt_expiresAt :: int
  rt_revokedAt :: "int option"
  rt_replacedById :: "uid option"
  rt_userAgent :: "string option"
  rt_ip :: "string option"
  rt_createdAt :: int

text \<open>A cache entry: the token waiting for the losers of a race, until \<open>rh_until\<close>.\<close>

record replay_hold =
  rh_token :: string
  rh_expiresAt :: int
  rh_until :: int

record token_store =
  st_tokens :: "refresh_row list"
  st_holds :: "(string \<times> replay_hold) list"
  st_next :: uid

definition REFRESH_REUSE_GRACE_MS :: int where
  "REFRESH_REUSE_GRACE_MS = 30000"

definition refresh_ttl :: "string option \<Rightarrow> int option" where
  "refresh_ttl configured = parseDurationMs (coalesce configured ''7d'')"

definition replayKey :: "string \<Rightarrow> string" where
  "replayKey oldTokenHash = ''refresh:replay:'' @ oldTokenHash"

definition cache_get :: "token_store \<Rightarrow> string \<Rightarrow> int \<Rightarrow> replay_hold option" where
  "cache_get s key now =
     (case map_of (st_holds s) key of
        None \<Rightarrow> None
      | Some e \<Rightarrow> if rh_until e \<le> now then None else Some e)"

definition cache_set :: "string \<Rightarrow> replay_hold \<Rightarrow> token_store \<Rightarrow> token_store" where
  "cache_set key e s = s\<lparr>st_holds := AList.update key e (st_holds s)\<rparr>"

definition map_tokens :: "(refresh_row \<Rightarrow> bool) \<Rightarrow> (refresh_row \<Rightarrow> refresh_row) \<Rightarrow> token_store \<Rightarrow> token_store" where
  "map_tokens P f s = s\<lparr>st_tokens := map (\<lambda>r. if P r then f r else r) (st_tokens s)\<rparr>"

definition find_hash :: "token_store \<Rightarrow> string \<Rightarrow> refresh_row option" where
  "find_hash s h = find (\<lambda>r. rt_tokenHash r = h) (st_tokens s)"

text \<open>None is the error of the unique index on the hash.\<close>

definition create_token ::
  "uid \<Rightarrow> string \<Rightarrow> int \<Rightarrow> refresh_meta \<Rightarrow> int \<Rightarrow> token_store \<Rightarrow> (token_store \<times> refresh_row) option" where
  "create_token userId h expiresAt meta now s =
     (if find_hash s h \<noteq> None then None
      else (let r = \<lparr>rt_id = st_next s, rt_userId = userId, rt_tokenHash = h, rt_expiresAt = expiresAt,
                     rt_revokedAt = None, rt_replacedById = None, rt_userAgent = rm_userAgent meta,
                     rt_ip = rm_ip meta, rt_createdAt = now\<rparr>
            in Some (s\<lparr>st_tokens := st_tokens s @ [r], st_next := st_next s + 1\<rparr>, r)))"

section \<open>Operations\<close>

definition issueToken ::
  "(string \<Rightarrow> string) \<Rightarrow> int \<Rightarrow> uid \<Rightarrow> refresh_meta \<Rightarrow> string \<Rightarrow> int \<Rightarrow> token_store
     \<Rightarrow> (string \<times> int) option \<times> token_store" where
  "issueToken hash ttl userId meta raw now s =
     (case create_token userId (hash raw) (now + ttl) meta now s of
        None \<Rightarrow> (None, s)
      | Some (s', _) \<Rightarrow> (Some (raw, now + ttl), s'))"

text \<open>The compare-and-set: of several refreshes arriving together one finds the row unrevoked.\<close>

definition claim_token :: "string \<Rightarrow> int \<Rightarrow> token_store \<Rightarrow> token_store \<times> bool" where
  "claim_token h now s =
     (let live = (\<lambda>r. rt_tokenHash r = h \<and> rt_revokedAt r = None \<and> rt_expiresAt r > now)
      in (map_tokens live (\<lambda>r. r\<lparr>rt_revokedAt := Some now\<rparr>) s, list_ex live (st_tokens s)))"

definition unclaim_token :: "uid \<Rightarrow> token_store \<Rightarrow> token_store" where
  "unclaim_token rid = map_tokens (\<lambda>r. rt_id r = rid) (\<lambda>r. r\<lparr>rt_revokedAt := None\<rparr>)"

definition link_token :: "uid \<Rightarrow> uid \<Rightarrow> token_store \<Rightarrow> token_store" where
  "link_token rid next = map_tokens (\<lambda>r. rt_id r = rid) (\<lambda>r. r\<lparr>rt_replacedById := Some next\<rparr>)"

definition hold_token :: "string \<Rightarrow> string \<Rightarrow> int \<Rightarrow> int \<Rightarrow> token_store \<Rightarrow> token_store" where
  "hold_token h token expiresAt now =
     cache_set (replayKey h)
       \<lparr>rh_token = token, rh_expiresAt = expiresAt,
        rh_until = now + ceil_div REFRESH_REUSE_GRACE_MS 1000 * 1000\<rparr>"

text \<open>
  How a refresh ends: a thrown database error, null (refused) or a session. \<open>fault\<close> says which of
  the winner's two writes the database refuses, if any.
\<close>

datatype rotate_outcome = DbFailure | NoSession | NewSession uid string int

datatype db_fault = NoFault | CreateFails | LinkFails

definition tolerateRace ::
  "(string \<Rightarrow> string) \<Rightarrow> int \<Rightarrow> refresh_row \<Rightarrow> string \<Rightarrow> refresh_meta \<Rightarrow> string \<Rightarrow> int \<Rightarrow> token_store
     \<Rightarrow> rotate_outcome \<times> token_store" where
  "tolerateRace hash ttl current h meta fresh now s =
     (case (rt_revokedAt current, rt_replacedById current) of
        (Some revoked, Some _) \<Rightarrow>
          if now - revoked \<le> REFRESH_REUSE_GRACE_MS
          then (case cache_get s (replayKey h) now of
                  Some e \<Rightarrow> (NewSession (rt_userId current) (rh_token e) (rh_expiresAt e), s)
                | None \<Rightarrow>
                    (case issueToken hash ttl (rt_userId current) meta fresh now s of
                       (Some (token, expiresAt), s') \<Rightarrow> (NewSession (rt_userId current) token expiresAt, s')
                     | (None, s') \<Rightarrow> (DbFailure, s')))
          else (NoSession, s)
      | _ \<Rightarrow> (NoSession, s))"

definition mintSuccessor ::
  "(string \<Rightarrow> string) \<Rightarrow> int \<Rightarrow> refresh_row \<Rightarrow> string \<Rightarrow> refresh_meta \<Rightarrow> string \<Rightarrow> db_fault \<Rightarrow> int \<Rightarrow> token_store
     \<Rightarrow> rotate_outcome \<times> token_store" where
  "mintSuccessor hash ttl current h meta fresh fault now s =
     (case (if fault = CreateFails then None
            else create_token (rt_userId current) (hash fresh) (now + ttl) meta now s) of
        None \<Rightarrow> (DbFailure, unclaim_token (rt_id current) s)
      | Some (s2, next) \<Rightarrow>
          if fault = LinkFails then (DbFailure, unclaim_token (rt_id current) s2)
          else (NewSession (rt_userId current) fresh (now + ttl),
                hold_token h fresh (now + ttl) now (link_token (rt_id current) (rt_id next) s2)))"

definition rotateToken ::
  "(string \<Rightarrow> string) \<Rightarrow> int \<Rightarrow> string \<Rightarrow> refresh_meta \<Rightarrow> string \<Rightarrow> db_fault \<Rightarrow> int \<Rightarrow> token_store
     \<Rightarrow> rotate_outcome \<times> token_store" where
  "rotateToken hash ttl raw meta fresh fault now s =
     (let h = hash raw; (s1, claimed) = claim_token h now s
      in case find_hash s1 h of
           None \<Rightarrow> (NoSession, s1)
         | Some current \<Rightarrow>
             if \<not> claimed then tolerateRace hash ttl current h meta fresh now s1
             else mintSuccessor hash ttl current h meta fresh fault now s1)"

definition purgeDead :: "int \<Rightarrow> token_store \<Rightarrow> token_store" where
  "purgeDead cutoff s =
     s\<lparr>st_tokens := filter (\<lambda>r. \<not> (rt_expiresAt r < cutoff
         \<or> (case rt_revokedAt r of None \<Rightarrow> False | Some t \<Rightarrow> t < cutoff))) (st_tokens s)\<rparr>"

definition signedInFrom :: "token_store \<Rightarrow> uid \<Rightarrow> string \<Rightarrow> int \<Rightarrow> bool" where
  "signedInFrom s userId ip since =
     list_ex (\<lambda>r. rt_userId r = userId \<and> rt_ip r = Some ip \<and> rt_createdAt r \<ge> since) (st_tokens s)"

definition revoke_where :: "(refresh_row \<Rightarrow> bool) \<Rightarrow> int \<Rightarrow> token_store \<Rightarrow> token_store" where
  "revoke_where P now = map_tokens (\<lambda>r. P r \<and> rt_revokedAt r = None) (\<lambda>r. r\<lparr>rt_revokedAt := Some now\<rparr>)"

definition revokeAllForUser :: "uid \<Rightarrow> int \<Rightarrow> token_store \<Rightarrow> token_store" where
  "revokeAllForUser userId = revoke_where (\<lambda>r. rt_userId r = userId)"

definition agent_row :: "refresh_row \<Rightarrow> bool" where
  "agent_row r = (case rt_userAgent r of None \<Rightarrow> False | Some a \<Rightarrow> take 14 a = ''RXVisionAgent/'')"

definition revokeAgentSessions :: "uid \<Rightarrow> int \<Rightarrow> token_store \<Rightarrow> token_store" where
  "revokeAgentSessions userId = revoke_where (\<lambda>r. rt_userId r = userId \<and> agent_row r)"

definition revokeToken :: "(string \<Rightarrow> string) \<Rightarrow> string \<Rightarrow> int \<Rightarrow> token_store \<Rightarrow> token_store" where
  "revokeToken hash raw = revoke_where (\<lambda>r. rt_tokenHash r = hash raw)"

definition RETENTION_DAYS :: int where
  "RETENTION_DAYS = 7"

definition sweepTokens :: "int \<Rightarrow> token_store \<Rightarrow> token_store" where
  "sweepTokens now = purgeDead (now - RETENTION_DAYS * 24 * 60 * 60 * 1000)"

text \<open>A restart of the process empties the cache.\<close>

definition restart_cache :: "token_store \<Rightarrow> token_store" where
  "restart_cache s = s\<lparr>st_holds := []\<rparr>"

section \<open>Histories\<close>

datatype token_op =
    Issue uid refresh_meta string
  | Rotate string refresh_meta string db_fault
  | Revoke string
  | RevokeAll uid
  | RevokeAgent uid
  | Sweep
  | Restart

fun token_step :: "(string \<Rightarrow> string) \<Rightarrow> int \<Rightarrow> int \<Rightarrow> token_op \<Rightarrow> token_store \<Rightarrow> token_store" where
  "token_step hash ttl now (Issue u meta raw) s = snd (issueToken hash ttl u meta raw now s)"
| "token_step hash ttl now (Rotate raw meta fresh fault) s = snd (rotateToken hash ttl raw meta fresh fault now s)"
| "token_step hash ttl now (Revoke raw) s = revokeToken hash raw now s"
| "token_step hash ttl now (RevokeAll u) s = revokeAllForUser u now s"
| "token_step hash ttl now (RevokeAgent u) s = revokeAgentSessions u now s"
| "token_step hash ttl now Sweep s = sweepTokens now s"
| "token_step hash ttl now Restart s = restart_cache s"

fun token_run :: "(string \<Rightarrow> string) \<Rightarrow> int \<Rightarrow> (int \<times> token_op) list \<Rightarrow> token_store \<Rightarrow> token_store" where
  "token_run hash ttl [] s = s"
| "token_run hash ttl ((now, op) # h) s = token_run hash ttl h (token_step hash ttl now op s)"

text \<open>The clock never goes back: every time of the history is at least the one before it.\<close>

fun timed_from :: "int \<Rightarrow> (int \<times> 'a) list \<Rightarrow> bool" where
  "timed_from c [] = True"
| "timed_from c ((now, op) # h) = (c \<le> now \<and> timed_from now h)"

definition last_time :: "int \<Rightarrow> (int \<times> 'a) list \<Rightarrow> int" where
  "last_time c h = fold (\<lambda>(t, _) _. t) h c"

section \<open>The table keeps its shape\<close>

definition tokens_ok :: "token_store \<Rightarrow> bool" where
  "tokens_ok s \<longleftrightarrow>
     distinct (map rt_id (st_tokens s)) \<and> distinct (map rt_tokenHash (st_tokens s))
     \<and> (\<forall>r \<in> set (st_tokens s). rt_id r < st_next s \<and> (rt_replacedById r \<noteq> None \<longrightarrow> rt_revokedAt r \<noteq> None))"

definition empty_store :: token_store where
  "empty_store = \<lparr>st_tokens = [], st_holds = [], st_next = 0\<rparr>"

lemma map_tokens_sel [simp]:
  "st_tokens (map_tokens P f s) = map (\<lambda>r. if P r then f r else r) (st_tokens s)"
  "st_holds (map_tokens P f s) = st_holds s" "st_next (map_tokens P f s) = st_next s"
  by (simp_all add: map_tokens_def)

lemma cache_set_sel [simp]:
  "st_tokens (cache_set k e s) = st_tokens s" "st_next (cache_set k e s) = st_next s"
  "st_holds (cache_set k e s) = AList.update k e (st_holds s)"
  by (simp_all add: cache_set_def)

lemma purge_sel [simp]:
  "st_holds (purgeDead cutoff s) = st_holds s" "st_next (purgeDead cutoff s) = st_next s"
  by (simp_all add: purgeDead_def)

lemma map_tokens_none: "\<forall>r \<in> set (st_tokens s). \<not> P r \<Longrightarrow> map_tokens P f s = s"
  by (simp add: map_tokens_def map_idI)

lemma find_hash_Some: "find_hash s h = Some r \<Longrightarrow> r \<in> set (st_tokens s) \<and> rt_tokenHash r = h"
  by (auto simp: find_hash_def find_Some_iff)

lemma find_hash_None: "find_hash s h = None \<longleftrightarrow> h \<notin> rt_tokenHash ` set (st_tokens s)"
  by (auto simp: find_hash_def find_None_iff)

lemma find_hash_eq: "find_hash s h = Some r \<Longrightarrow> tokens_ok s \<Longrightarrow> q \<in> set (st_tokens s) \<Longrightarrow> rt_tokenHash q = h \<Longrightarrow> q = r"
  by (drule find_hash_Some) (auto simp: tokens_ok_def distinct_map inj_on_def)

lemma same_token: "tokens_ok s \<Longrightarrow> q \<in> set (st_tokens s) \<Longrightarrow> r \<in> set (st_tokens s) \<Longrightarrow> rt_id q = rt_id r \<Longrightarrow> q = r"
  by (auto simp: tokens_ok_def distinct_map inj_on_def)

text \<open>A change of some rows that keeps their ids and hashes, and their link only where they are revoked.\<close>

lemma map_tokens_ok:
  assumes "tokens_ok s" "\<And>r. rt_id (f r) = rt_id r" "\<And>r. rt_tokenHash (f r) = rt_tokenHash r"
    "\<And>r. r \<in> set (st_tokens s) \<Longrightarrow> P r \<Longrightarrow> rt_replacedById (f r) \<noteq> None \<Longrightarrow> rt_revokedAt (f r) \<noteq> None"
  shows "tokens_ok (map_tokens P f s)"
proof -
  have "map rt_id (st_tokens (map_tokens P f s)) = map rt_id (st_tokens s)"
    "map rt_tokenHash (st_tokens (map_tokens P f s)) = map rt_tokenHash (st_tokens s)"
    using assms(2,3) by simp_all
  then show ?thesis using assms unfolding tokens_ok_def by (simp del: map_map) (auto simp: assms(2))
qed

lemma purge_ok: "tokens_ok s \<Longrightarrow> tokens_ok (purgeDead cutoff s)"
  by (auto simp: tokens_ok_def purgeDead_def distinct_map inj_on_def)

lemma revoke_where_ok: "tokens_ok s \<Longrightarrow> tokens_ok (revoke_where P now s)"
  unfolding revoke_where_def by (rule map_tokens_ok) simp_all

lemma cache_set_ok [simp]: "tokens_ok (cache_set k e s) = tokens_ok s"
  by (simp add: tokens_ok_def)

lemma create_token_Some:
  assumes "create_token u h e meta now s = Some (s', r)"
  shows "h \<notin> rt_tokenHash ` set (st_tokens s)" "st_tokens s' = st_tokens s @ [r]" "st_next s' = st_next s + 1"
    "st_holds s' = st_holds s" "rt_id r = st_next s" "rt_userId r = u" "rt_tokenHash r = h"
    "rt_replacedById r = None" "rt_revokedAt r = None" "rt_expiresAt r = e"
  using assms by (auto simp: create_token_def find_hash_None Let_def split: if_splits)

lemma create_token_ok:
  assumes "tokens_ok s" "create_token u h e meta now s = Some (s', r)"
  shows "tokens_ok s'"
  using assms(1) create_token_Some [OF assms(2)] by (auto simp: tokens_ok_def less_Suc_eq)

lemma issue_ok: "tokens_ok s \<Longrightarrow> tokens_ok (snd (issueToken hash ttl u meta raw now s))"
  by (auto simp: issueToken_def split: option.splits intro: create_token_ok)

lemma claim_token_ok: "tokens_ok s \<Longrightarrow> tokens_ok (fst (claim_token h now s))"
  unfolding claim_token_def Let_def fst_conv by (rule map_tokens_ok) simp_all

text \<open>After a claim the row is revoked and not yet linked; no other row changes.\<close>

lemma claimed_row:
  assumes "tokens_ok s" "claim_token h now s = (s1, True)" "find_hash s1 h = Some r"
  shows "rt_revokedAt r = Some now" "rt_replacedById r = None" "now < rt_expiresAt r"
proof -
  let ?live = "\<lambda>r. rt_tokenHash r = h \<and> rt_revokedAt r = None \<and> rt_expiresAt r > now"
  have s1: "s1 = map_tokens ?live (\<lambda>r. r\<lparr>rt_revokedAt := Some now\<rparr>) s"
    and ex: "\<exists>q \<in> set (st_tokens s). ?live q"
    using assms(2) by (auto simp: claim_token_def Let_def list_ex_iff)
  then obtain q where q: "q \<in> set (st_tokens s)" "?live q" by blast
  have "tokens_ok s1" using claim_token_ok [OF assms(1), of h now] assms(2) by simp
  moreover have "q\<lparr>rt_revokedAt := Some now\<rparr> \<in> set (st_tokens s1)" using q s1 by force
  ultimately have r: "r = q\<lparr>rt_revokedAt := Some now\<rparr>"
    using find_hash_eq [OF assms(3)] q(2) by fastforce
  show "rt_revokedAt r = Some now" "now < rt_expiresAt r" using r q(2) by simp_all
  show "rt_replacedById r = None" using r q assms(1) by (auto simp: tokens_ok_def)
qed

lemma unclaimed_ok: "tokens_ok s \<Longrightarrow> (\<And>q. q \<in> set (st_tokens s) \<Longrightarrow> rt_id q = rid \<Longrightarrow> rt_replacedById q = None)
    \<Longrightarrow> tokens_ok (unclaim_token rid s)"
  unfolding unclaim_token_def by (rule map_tokens_ok) auto

lemma linked_ok: "tokens_ok s \<Longrightarrow> (\<And>q. q \<in> set (st_tokens s) \<Longrightarrow> rt_id q = rid \<Longrightarrow> rt_revokedAt q \<noteq> None)
    \<Longrightarrow> tokens_ok (link_token rid next s)"
  unfolding link_token_def by (rule map_tokens_ok) auto

lemma not_claimed: "claim_token h now s = (s1, False) \<Longrightarrow> s1 = s"
  by (auto simp: claim_token_def Let_def list_ex_iff intro!: map_tokens_none)

lemma find_hash_map:
  assumes "\<And>r. rt_tokenHash (f r) = rt_tokenHash r"
  shows "find_hash (map_tokens P f s) h = map_option (\<lambda>r. if P r then f r else r) (find_hash s h)"
proof -
  have "find (\<lambda>r. rt_tokenHash r = h) (map (\<lambda>r. if P r then f r else r) rs)
      = map_option (\<lambda>r. if P r then f r else r) (find (\<lambda>r. rt_tokenHash r = h) rs)" for rs
    by (induction rs) (simp_all add: assms)
  then show ?thesis by (simp add: find_hash_def)
qed

lemma claim_found:
  assumes "claim_token h now s = (s1, True)"
  shows "find_hash s1 h \<noteq> None"
proof -
  obtain r where "r \<in> set (st_tokens s)" "rt_tokenHash r = h"
    using assms by (auto simp: claim_token_def Let_def list_ex_iff)
  then have "find_hash s h \<noteq> None" using find_hash_None by fastforce
  moreover have "find_hash s1 h = None \<longleftrightarrow> find_hash s h = None"
    using assms by (auto simp: claim_token_def Let_def find_hash_map)
  ultimately show ?thesis by simp
qed

text \<open>The three ways a refresh goes: no such token, a token it did not claim, a token it claimed.\<close>

lemma rotate_cases:
  obtains (unknown) "find_hash s (hash raw) = None"
      "rotateToken hash ttl raw meta fresh fault now s = (NoSession, s)"
  | (loser) current where "find_hash s (hash raw) = Some current" "claim_token (hash raw) now s = (s, False)"
      "rotateToken hash ttl raw meta fresh fault now s
         = tolerateRace hash ttl current (hash raw) meta fresh now s"
  | (winner) s1 current where "claim_token (hash raw) now s = (s1, True)" "find_hash s1 (hash raw) = Some current"
      "rotateToken hash ttl raw meta fresh fault now s
         = mintSuccessor hash ttl current (hash raw) meta fresh fault now s1"
proof -
  obtain s1 claimed where c: "claim_token (hash raw) now s = (s1, claimed)" by fastforce
  show thesis
  proof (cases claimed)
    case True
    then obtain r where "find_hash s1 (hash raw) = Some r" using claim_found [of _ now s s1] c by auto
    then show thesis using winner c True by (simp add: rotateToken_def)
  next
    case False
    then have "s1 = s" using not_claimed [of _ now s s1] c by simp
    then show thesis using unknown loser c False
      by (cases "find_hash s (hash raw)") (simp_all add: rotateToken_def)
  qed
qed

lemma tolerate_cases:
  "tolerateRace hash ttl current h meta fresh now s = (out, s') \<Longrightarrow>
     s' = s \<or> s' = snd (issueToken hash ttl (rt_userId current) meta fresh now s)"
  by (auto simp: tolerateRace_def split: option.splits if_splits prod.splits)

lemma mint_ok:
  assumes "tokens_ok s1" "find_hash s1 h = Some current" "rt_revokedAt current = Some t"
    "rt_replacedById current = None"
  shows "tokens_ok (snd (mintSuccessor hash ttl current h meta fresh fault now s1))"
proof (cases "if fault = CreateFails then None else create_token (rt_userId current) (hash fresh) (now + ttl) meta now s1")
  case None
  have "tokens_ok (unclaim_token (rt_id current) s1)"
    using assms same_token [OF assms(1) _ _] find_hash_Some [OF assms(2)] by (intro unclaimed_ok) metis+
  then show ?thesis using None by (simp add: mintSuccessor_def)
next
  case (Some p)
  then obtain s2 r where c: "p = (s2, r)"
    "create_token (rt_userId current) (hash fresh) (now + ttl) meta now s1 = Some (s2, r)" "fault \<noteq> CreateFails"
    by (cases p) (auto split: if_splits)
  note new = create_token_Some [OF c(2)]
  have ok: "tokens_ok s2" by (rule create_token_ok [OF assms(1) c(2)])
  have cur: "current \<in> set (st_tokens s2)" using find_hash_Some [OF assms(2)] new(2) by simp
  have only: "q = current" if "q \<in> set (st_tokens s2)" "rt_id q = rt_id current" for q
    using same_token [OF ok that(1) cur that(2)] .
  have "tokens_ok (unclaim_token (rt_id current) s2)" "tokens_ok (link_token (rt_id current) (rt_id r) s2)"
    using only assms(3,4) by (auto intro!: unclaimed_ok linked_ok ok)
  then show ?thesis using c Some by (simp add: mintSuccessor_def hold_token_def)
qed

lemma rotate_ok: "tokens_ok s \<Longrightarrow> tokens_ok (snd (rotateToken hash ttl raw meta fresh fault now s))"
proof (cases rule: rotate_cases [of s hash raw ttl meta fresh fault now])
  case (loser current)
  assume "tokens_ok s"
  then show ?thesis
    using loser(3) tolerate_cases issue_ok by (metis prod.collapse)
next
  case (winner s1 current)
  assume ok: "tokens_ok s"
  have "tokens_ok s1" using claim_token_ok [OF ok, of "hash raw" now] winner(1) by simp
  then show ?thesis
    using mint_ok winner(2,3) claimed_row [OF ok winner(1,2)] by simp
qed simp

lemma token_step_ok: "tokens_ok s \<Longrightarrow> tokens_ok (token_step hash ttl now op s)"
  by (cases op) (simp_all add: issue_ok rotate_ok revokeToken_def revokeAllForUser_def revokeAgentSessions_def
      revoke_where_ok sweepTokens_def purge_ok restart_cache_def tokens_ok_def [of "s\<lparr>st_holds := []\<rparr>"]
      tokens_ok_def [of s])

lemma token_run_ok: "tokens_ok s \<Longrightarrow> tokens_ok (token_run hash ttl h s)"
  by (induction h arbitrary: s) (auto simp: token_step_ok)

lemma empty_store_ok: "tokens_ok empty_store"
  by (simp add: tokens_ok_def empty_store_def)

section \<open>Signing out everywhere\<close>

definition user_rows :: "uid \<Rightarrow> token_store \<Rightarrow> refresh_row set" where
  "user_rows u s = {r \<in> set (st_tokens s). rt_userId r = u}"

text \<open>Every session of the person ended by \<open>T\<close>, and none was exchanged within the grace before it.\<close>

definition signed_out :: "uid \<Rightarrow> int \<Rightarrow> token_store \<Rightarrow> bool" where
  "signed_out u T s \<longleftrightarrow>
     (\<forall>r \<in> user_rows u s. \<exists>t. rt_revokedAt r = Some t
        \<and> (rt_replacedById r \<noteq> None \<longrightarrow> REFRESH_REUSE_GRACE_MS < T - t))"

definition no_recent_exchange :: "uid \<Rightarrow> int \<Rightarrow> token_store \<Rightarrow> bool" where
  "no_recent_exchange u T s \<longleftrightarrow>
     (\<forall>r \<in> user_rows u s. \<forall>t. rt_replacedById r \<noteq> None \<and> rt_revokedAt r = Some t \<longrightarrow> REFRESH_REUSE_GRACE_MS < T - t)"

definition signs_in :: "uid \<Rightarrow> token_op \<Rightarrow> bool" where
  "signs_in u op = (case op of Issue v meta raw \<Rightarrow> v = u | _ \<Rightarrow> False)"

lemma user_rows_map:
  assumes "\<And>r. rt_userId (f r) = rt_userId r"
    "\<And>r. r \<in> set (st_tokens s) \<Longrightarrow> rt_userId r = u \<Longrightarrow> \<not> P r"
  shows "user_rows u (map_tokens P f s) = user_rows u s"
  using assms by (force simp: user_rows_def)

lemma user_rows_created:
  "create_token v h e meta now s = Some (s', r) \<Longrightarrow> v \<noteq> u \<Longrightarrow> user_rows u s' = user_rows u s"
  by (frule create_token_Some(2), frule create_token_Some(6)) (auto simp: user_rows_def)

lemma user_rows_issued: "v \<noteq> u \<Longrightarrow> user_rows u (snd (issueToken hash ttl v meta raw now s)) = user_rows u s"
  by (auto simp: issueToken_def user_rows_created split: option.splits)

lemma user_rows_cached [simp]: "user_rows u (cache_set k e s) = user_rows u s"
  by (simp add: user_rows_def)

lemma no_change_of_other:
  assumes "tokens_ok s" "current \<in> set (st_tokens s)" "rt_userId current \<noteq> u"
  shows "user_rows u (unclaim_token (rt_id current) s) = user_rows u s"
    "user_rows u (link_token (rt_id current) n s) = user_rows u s"
  using assms same_token [OF assms(1) _ assms(2)]
  unfolding unclaim_token_def link_token_def by (auto intro!: user_rows_map)

lemma mint_other:
  assumes "tokens_ok s" "find_hash s h = Some current" "rt_userId current \<noteq> u"
  shows "user_rows u (snd (mintSuccessor hash ttl current h meta fresh fault now s)) = user_rows u s"
proof (cases "if fault = CreateFails then None else create_token (rt_userId current) (hash fresh) (now + ttl) meta now s")
  case None
  then show ?thesis
    using no_change_of_other [OF assms(1) _ assms(3)] find_hash_Some [OF assms(2)]
    by (simp add: mintSuccessor_def)
next
  case (Some p)
  then obtain s2 r where c: "p = (s2, r)"
    "create_token (rt_userId current) (hash fresh) (now + ttl) meta now s = Some (s2, r)" "fault \<noteq> CreateFails"
    by (cases p) (auto split: if_splits)
  have cur: "current \<in> set (st_tokens s2)"
    using find_hash_Some [OF assms(2)] create_token_Some(2) [OF c(2)] by simp
  note same = no_change_of_other [OF create_token_ok [OF assms(1) c(2)] cur assms(3)]
    user_rows_created [OF c(2) assms(3)]
  show ?thesis using Some c same by (simp add: mintSuccessor_def hold_token_def)
qed

text \<open>A refresh with someone else's token leaves the person's sessions alone; with a token of a
  signed-out person it answers nothing and writes nothing.\<close>

lemma rotate_signed_out:
  assumes "tokens_ok s" "signed_out u T s" "T \<le> now"
  shows "user_rows u (snd (rotateToken hash ttl raw meta fresh fault now s)) = user_rows u s
    \<and> fst (rotateToken hash ttl raw meta fresh fault now s) \<noteq> NewSession u tok e"
proof (cases rule: rotate_cases [of s hash raw ttl meta fresh fault now])
  case (loser current)
  show ?thesis
  proof (cases "rt_userId current = u")
    case True
    then have "current \<in> user_rows u s" using find_hash_Some [OF loser(1)] by (simp add: user_rows_def)
    then have "tolerateRace hash ttl current (hash raw) meta fresh now s = (NoSession, s)"
      using assms(2,3) by (fastforce simp: signed_out_def tolerateRace_def split: option.splits)
    then show ?thesis using loser(3) by simp
  next
    case False
    have "user_rows u (snd (tolerateRace hash ttl current (hash raw) meta fresh now s)) = user_rows u s"
      using tolerate_cases [of hash ttl current "hash raw" meta fresh now s, OF prod.collapse [symmetric]]
        user_rows_issued [OF False] by auto
    moreover have "fst (tolerateRace hash ttl current (hash raw) meta fresh now s) \<noteq> NewSession u tok e"
      using False by (auto simp: tolerateRace_def split: option.splits prod.splits)
    ultimately show ?thesis using loser(3) by simp
  qed
next
  case (winner s1 current)
  let ?live = "\<lambda>r. rt_tokenHash r = hash raw \<and> rt_revokedAt r = None \<and> rt_expiresAt r > now"
  have s1: "s1 = map_tokens ?live (\<lambda>r. r\<lparr>rt_revokedAt := Some now\<rparr>) s"
    using winner(1) by (auto simp: claim_token_def Let_def)
  have ok: "tokens_ok s1" using claim_token_ok [OF assms(1), of "hash raw" now] winner(1) by simp
  have rows: "user_rows u s1 = user_rows u s"
    unfolding s1 using assms(2) by (intro user_rows_map) (auto simp: signed_out_def user_rows_def)
  have other: "rt_userId current \<noteq> u"
  proof
    assume u: "rt_userId current = u"
    obtain q where q: "q \<in> set (st_tokens s)" "?live q"
      using winner(1) by (auto simp: claim_token_def Let_def list_ex_iff)
    then have "q\<lparr>rt_revokedAt := Some now\<rparr> \<in> set (st_tokens s1)" unfolding s1 by force
    then have "current = q\<lparr>rt_revokedAt := Some now\<rparr>" using find_hash_eq [OF winner(2) ok] q(2) by fastforce
    then have "q \<in> user_rows u s" using u q(1) by (simp add: user_rows_def)
    then show False using assms(2) q(2) by (auto simp: signed_out_def)
  qed
  then have "fst (mintSuccessor hash ttl current (hash raw) meta fresh fault now s1) \<noteq> NewSession u tok e"
    by (auto simp: mintSuccessor_def split: option.splits)
  then show ?thesis using winner(3) rows mint_other [OF ok winner(2) other] by simp
qed simp

lemma user_rows_revoked:
  assumes "signed_out u T s"
  shows "user_rows u (revoke_where P now s) = user_rows u s"
  unfolding revoke_where_def using assms by (intro user_rows_map) (auto simp: signed_out_def user_rows_def)

lemma signed_out_step:
  assumes "tokens_ok s" "signed_out u T s" "T \<le> now" "\<not> signs_in u op"
  shows "signed_out u T (token_step hash ttl now op s)"
proof -
  have "user_rows u (token_step hash ttl now op s) \<subseteq> user_rows u s"
  proof (cases op)
    case (Issue v meta raw)
    then show ?thesis using assms(4) user_rows_issued [of v u] by (simp add: signs_in_def)
  next
    case (Rotate raw meta fresh fault)
    then show ?thesis using rotate_signed_out [OF assms(1-3)] by simp
  next
    case Sweep
    then show ?thesis by (auto simp: sweepTokens_def purgeDead_def user_rows_def)
  next
    case Restart
    then show ?thesis by (simp add: restart_cache_def user_rows_def)
  qed (use user_rows_revoked [OF assms(2)] in
       \<open>simp_all add: revokeToken_def revokeAllForUser_def revokeAgentSessions_def\<close>)
  then show ?thesis using assms(2) unfolding signed_out_def by blast
qed

lemma signed_out_run:
  assumes "tokens_ok s" "signed_out u T s" "timed_from T h" "\<forall>(t, op) \<in> set h. \<not> signs_in u op"
  shows "signed_out u T (token_run hash ttl h s)"
  using assms
proof (induction h arbitrary: s)
  case Nil
  then show ?case by simp
next
  case (Cons p h)
  obtain now op where p: "p = (now, op)" by fastforce
  have later: "timed_from T h" if "timed_from c h" "T \<le> c" for c using that by (cases h) auto
  show ?case
    unfolding p token_run.simps
    by (rule Cons.IH)
       (use Cons.prems p later signed_out_step [of s u T now op] token_step_ok [of s] in auto)
qed

lemma revoked_all:
  assumes "no_recent_exchange u T s" "tokens_ok s"
  shows "signed_out u T (revokeAllForUser u T s)"
proof -
  have "\<exists>t. rt_revokedAt r = Some t \<and> (rt_replacedById r \<noteq> None \<longrightarrow> REFRESH_REUSE_GRACE_MS < T - t)"
    if r: "r \<in> user_rows u (revokeAllForUser u T s)" for r
  proof -
    have "r \<in> (\<lambda>q. if rt_userId q = u \<and> rt_revokedAt q = None then q\<lparr>rt_revokedAt := Some T\<rparr> else q) ` set (st_tokens s)"
      and u: "rt_userId r = u"
      using r unfolding user_rows_def revokeAllForUser_def revoke_where_def map_tokens_sel set_map mem_Collect_eq
      by blast+
    then obtain q where q: "q \<in> set (st_tokens s)"
      "r = (if rt_userId q = u \<and> rt_revokedAt q = None then q\<lparr>rt_revokedAt := Some T\<rparr> else q)" by blast
    show ?thesis
    proof (cases "rt_revokedAt q")
      case None
      then have "rt_replacedById q = None" using assms(2) q(1) by (auto simp: tokens_ok_def)
      then show ?thesis using None q(2) u by (simp split: if_splits)
    next
      case (Some t)
      then have "r = q" using q(2) by simp
      then show ?thesis using Some assms(1) q(1) u by (simp add: no_recent_exchange_def user_rows_def)
    qed
  qed
  then show ?thesis by (simp add: signed_out_def)
qed

lemma last_time_after: "timed_from c h \<Longrightarrow> c \<le> last_time c h"
  by (induction c h rule: timed_from.induct) (auto simp: last_time_def)

text \<open>Signing out everywhere is final. Take any history of sign-ins, refreshes (racing, failing or
  not), sign-outs, purges and restarts; end every session of a person none of whose tokens was
  exchanged within the 30 seconds of grace before; then, whatever happens next except a new sign-in of
  that person, no refresh token gets them a session again.\<close>

theorem signing_out_everywhere_is_final:
  assumes "no_recent_exchange u T (token_run hash ttl before empty_store)"
    and "timed_from T later" "\<forall>(t, op) \<in> set later. \<not> signs_in u op" "last_time T later \<le> now"
  shows "fst (rotateToken hash ttl raw meta fresh fault now
      (token_run hash ttl later (revokeAllForUser u T (token_run hash ttl before empty_store))))
    \<noteq> NewSession u token expiresAt"
proof -
  let ?s = "revokeAllForUser u T (token_run hash ttl before empty_store)"
  have start: "tokens_ok (token_run hash ttl before empty_store)"
    by (rule token_run_ok [OF empty_store_ok])
  have ok: "tokens_ok ?s" unfolding revokeAllForUser_def by (rule revoke_where_ok [OF start])
  have "T \<le> now" using last_time_after [OF assms(2)] assms(4) by linarith
  from rotate_signed_out [OF token_run_ok [OF ok] signed_out_run [OF ok revoked_all [OF assms(1) start] assms(2,3)] this]
  show ?thesis by (rule conjunct2)
qed

definition browser :: refresh_meta where
  "browser = \<lparr>rm_userAgent = None, rm_ip = Some ''1''\<rparr>"

lemmas token_ops_defs =
  issueToken_def create_token_def rotateToken_def claim_token_def mintSuccessor_def tolerateRace_def
  hold_token_def link_token_def unclaim_token_def cache_get_def find_hash_def Let_def
  revokeAllForUser_def revoke_where_def restart_cache_def REFRESH_REUSE_GRACE_MS_def

text \<open>Signed in, exchanged a minute later, signed out everywhere after another minute.\<close>

definition exchanged_history :: "(int \<times> token_op) list" where
  "exchanged_history = [(0, Issue 1 browser ''a''), (60000, Rotate ''a'' browser ''b'' NoFault)]"

lemma exchanged_rows:
  "user_rows u (token_run id 1000000 exchanged_history empty_store) =
    (if u = 1 then
      {\<lparr>rt_id = 0, rt_userId = 1, rt_tokenHash = ''a'', rt_expiresAt = 1000000, rt_revokedAt = Some 60000,
        rt_replacedById = Some 1, rt_userAgent = None, rt_ip = Some ''1'', rt_createdAt = 0\<rparr>,
       \<lparr>rt_id = 1, rt_userId = 1, rt_tokenHash = ''b'', rt_expiresAt = 1060000, rt_revokedAt = None,
        rt_replacedById = None, rt_userAgent = None, rt_ip = Some ''1'', rt_createdAt = 60000\<rparr>} else {})"
  by (auto simp: exchanged_history_def empty_store_def token_ops_defs browser_def user_rows_def)

lemma not_exchanged_lately: "no_recent_exchange 1 120000 (token_run id 1000000 exchanged_history empty_store)"
  unfolding no_recent_exchange_def exchanged_rows by (simp add: REFRESH_REUSE_GRACE_MS_def)

theorem signing_out_everywhere_is_final_witness:
  "fst (rotateToken id 1000000 ''b'' browser ''c'' NoFault 121000
      (token_run id 1000000 [(120500, Restart)]
        (revokeAllForUser 1 120000 (token_run id 1000000 exchanged_history empty_store))))
    \<noteq> NewSession 1 ''c'' 1121000"
  by (rule signing_out_everywhere_is_final [OF not_exchanged_lately])
     (simp_all add: signs_in_def last_time_def)

text \<open>
  The grace outlives the sign-out. Within 30 seconds of an exchange the exchanged token still buys a
  live session after every session was ended: the refresh does not look at whether the successor was
  revoked, and with the cached successor gone (the process restarted) it issues a new one.
\<close>

lemma grace_outlives_the_sign_out:
  "fst (rotateToken id 1000000 ''a'' browser ''c'' NoFault 62000
      (token_run id 1000000 [(61500, Restart)]
        (revokeAllForUser 1 61000 (token_run id 1000000 exchanged_history empty_store))))
    = NewSession 1 ''c'' 1062000"
  by (simp add: exchanged_history_def empty_store_def token_ops_defs browser_def)

section \<open>Racing refreshes share one session\<close>

text \<open>The exchanged token \<open>h\<close>, and its successor waiting for the losers of the race.\<close>

definition exchanged :: "string \<Rightarrow> uid \<Rightarrow> string \<Rightarrow> int \<Rightarrow> int \<Rightarrow> token_store \<Rightarrow> bool" where
  "exchanged h u token expiresAt T s \<longleftrightarrow>
     (\<exists>r. find_hash s h = Some r \<and> rt_userId r = u \<and> rt_revokedAt r = Some T \<and> rt_replacedById r \<noteq> None
        \<and> T < rt_expiresAt r)
     \<and> map_of (st_holds s) (replayKey h)
         = Some \<lparr>rh_token = token, rh_expiresAt = expiresAt, rh_until = T + REFRESH_REUSE_GRACE_MS\<rparr>"

lemma replayKey_inj [simp]: "replayKey a = replayKey b \<longleftrightarrow> a = b"
  by (simp add: replayKey_def)

lemma find_hash_kept:
  assumes "find_hash s h = Some r" "\<not> P r" "\<And>q. rt_tokenHash (f q) = rt_tokenHash q"
  shows "find_hash (map_tokens P f s) h = Some r"
  using assms by (simp add: find_hash_map)

lemma find_hash_created:
  "find_hash s h = Some r \<Longrightarrow> create_token v h' e meta now s = Some (s', q) \<Longrightarrow> find_hash s' h = Some r"
proof -
  have "find P xs = Some x \<Longrightarrow> find P (xs @ ys) = Some x" for P :: "refresh_row \<Rightarrow> bool" and xs ys x
    by (induction xs) (auto split: if_splits)
  then show "find_hash s h = Some r \<Longrightarrow> create_token v h' e meta now s = Some (s', q) \<Longrightarrow> find_hash s' h = Some r"
    by (auto simp: find_hash_def dest!: create_token_Some(2))
qed

lemma find_filter: "find P xs = Some x \<Longrightarrow> Q x \<Longrightarrow> find P (filter Q xs) = Some x"
  by (induction xs) (auto split: if_splits)

lemma exchanged_map:
  assumes "exchanged h u token e T s" "\<And>r. find_hash s h = Some r \<Longrightarrow> rt_revokedAt r = Some T \<Longrightarrow> \<not> P r"
    "\<And>q. rt_tokenHash (f q) = rt_tokenHash q"
  shows "exchanged h u token e T (map_tokens P f s)"
  using assms find_hash_kept [of s h _ P f] by (auto simp: exchanged_def)

lemma exchanged_created:
  assumes "exchanged h u token e T s" "create_token v h' e' meta now s = Some (s', q)"
  shows "exchanged h u token e T s'"
  using assms(1) find_hash_created [OF _ assms(2), of h] create_token_Some(4) [OF assms(2)]
  by (auto simp: exchanged_def)

lemma exchanged_issue:
  "exchanged h u token e T s \<Longrightarrow> exchanged h u token e T (snd (issueToken hash ttl v meta raw now s))"
  by (auto simp: issueToken_def exchanged_created split: option.splits)

lemma exchanged_revoke: "exchanged h u token e T s \<Longrightarrow> exchanged h u token e T (revoke_where P now s)"
  unfolding revoke_where_def by (rule exchanged_map) auto

lemma exchanged_touched:
  assumes "tokens_ok z" "exchanged h u token e T z" "current \<in> set (st_tokens z)" "rt_tokenHash current \<noteq> h"
  shows "exchanged h u token e T (unclaim_token (rt_id current) z)"
    "exchanged h u token e T (link_token (rt_id current) n z)"
proof -
  have other: "rt_id r \<noteq> rt_id current" if f: "find_hash z h = Some r" for r
  proof
    assume same: "rt_id r = rt_id current"
    have "r \<in> set (st_tokens z)" using find_hash_Some [OF f] by (rule conjunct1)
    then have "r = current" using same_token [OF assms(1) _ assms(3) same] by blast
    then show False using find_hash_Some [OF f] assms(4) by simp
  qed
  show "exchanged h u token e T (unclaim_token (rt_id current) z)"
    "exchanged h u token e T (link_token (rt_id current) n z)"
    unfolding unclaim_token_def link_token_def by (rule exchanged_map [OF assms(2) other]; simp)+
qed

lemma exchanged_mint:
  assumes "tokens_ok s" "exchanged h u token e T s" "find_hash s h' = Some current" "h' \<noteq> h"
  shows "exchanged h u token e T (snd (mintSuccessor hash ttl current h' meta fresh fault now s))"
proof -
  note f = find_hash_Some [OF assms(3)]
  have h: "rt_tokenHash current \<noteq> h" using f assms(4) by simp
  show ?thesis
  proof (cases "if fault = CreateFails then None else create_token (rt_userId current) (hash fresh) (now + ttl) meta now s")
    case None
    then show ?thesis
      using exchanged_touched(1) [OF assms(1,2) conjunct1 [OF f] h] by (simp add: mintSuccessor_def)
  next
    case (Some p)
    then obtain s2 r where c: "p = (s2, r)"
      "create_token (rt_userId current) (hash fresh) (now + ttl) meta now s = Some (s2, r)" "fault \<noteq> CreateFails"
      by (cases p) (auto split: if_splits)
    have cur: "current \<in> set (st_tokens s2)" using f create_token_Some(2) [OF c(2)] by simp
    note both = exchanged_touched [OF create_token_ok [OF assms(1) c(2)] exchanged_created [OF assms(2) c(2)] cur h]
    have "exchanged h u token e T (cache_set (replayKey h') x (link_token (rt_id current) n s2))" for x n
      using both(2) [of n] assms(4) unfolding exchanged_def cache_set_sel find_hash_def
      by (simp add: update_conv')
    then show ?thesis using Some c both(1) by (simp add: mintSuccessor_def hold_token_def)
  qed
qed

lemma exchanged_rotate:
  assumes "tokens_ok s" "exchanged h u token e T s" "now < T + REFRESH_REUSE_GRACE_MS"
  shows "exchanged h u token e T (snd (rotateToken hash ttl raw meta fresh fault now s))"
proof (cases rule: rotate_cases [of s hash raw ttl meta fresh fault now])
  case (loser current)
  show ?thesis
    using loser(3) tolerate_cases [OF prod.collapse [symmetric], of hash ttl current "hash raw" meta fresh now s]
      assms(2) exchanged_issue [OF assms(2)] by metis
next
  case (winner s1 current)
  let ?live = "\<lambda>r. rt_tokenHash r = hash raw \<and> rt_revokedAt r = None \<and> rt_expiresAt r > now"
  have s1: "s1 = map_tokens ?live (\<lambda>r. r\<lparr>rt_revokedAt := Some now\<rparr>) s"
    using winner(1) by (auto simp: claim_token_def Let_def)
  have ok: "tokens_ok s1" using claim_token_ok [OF assms(1), of "hash raw" now] winner(1) by simp
  have kept: "exchanged h u token e T s1" unfolding s1 using assms(2) by (rule exchanged_map) auto
  have "hash raw \<noteq> h"
    using kept winner(2) claimed_row(2) [OF assms(1) winner(1,2)] by (auto simp: exchanged_def)
  from exchanged_mint [OF ok kept winner(2) this] winner(3) show ?thesis by simp
qed (use assms(2) in simp)

lemma exchanged_step:
  assumes "tokens_ok s" "exchanged h u token e T s" "T \<le> now" "now < T + REFRESH_REUSE_GRACE_MS" "op \<noteq> Restart"
  shows "exchanged h u token e T (token_step hash ttl now op s)"
proof (cases op)
  case Sweep
  have "find_hash (sweepTokens now s) h = Some r"
    if r: "find_hash s h = Some r" "rt_revokedAt r = Some T" "T < rt_expiresAt r" for r
    using r assms(3,4) unfolding find_hash_def sweepTokens_def purgeDead_def
    by (simp add: find_filter RETENTION_DAYS_def REFRESH_REUSE_GRACE_MS_def)
  then show ?thesis using Sweep assms(2) by (auto simp: exchanged_def sweepTokens_def)
qed (use assms in \<open>simp_all add: exchanged_issue exchanged_rotate exchanged_revoke
       revokeToken_def revokeAllForUser_def revokeAgentSessions_def\<close>)

lemma exchanged_run:
  assumes "tokens_ok s" "exchanged h u token e T s" "timed_from T later"
    "\<forall>(t, op) \<in> set later. t < T + REFRESH_REUSE_GRACE_MS \<and> op \<noteq> Restart"
  shows "exchanged h u token e T (token_run hash ttl later s)"
  using assms
proof (induction later arbitrary: s)
  case Nil
  then show ?case by simp
next
  case (Cons p later)
  obtain now op where p: "p = (now, op)" by fastforce
  have "timed_from T later" using Cons.prems(3) p by (cases later) auto
  then show ?case
    unfolding p token_run.simps
    by (intro Cons.IH token_step_ok exchanged_step) (use Cons.prems p in auto)
qed

lemma mint_success:
  assumes "mintSuccessor hash ttl current h meta fresh fault now s = (NewSession u token e, s')"
  obtains s2 r where "create_token (rt_userId current) (hash fresh) (now + ttl) meta now s = Some (s2, r)"
    "s' = hold_token h fresh (now + ttl) now (link_token (rt_id current) (rt_id r) s2)"
    "u = rt_userId current" "token = fresh" "e = now + ttl"
proof (cases "create_token (rt_userId current) (hash fresh) (now + ttl) meta now s")
  case None
  then show ?thesis using assms by (cases fault) (simp_all add: mintSuccessor_def)
next
  case (Some p)
  obtain s2 r where p: "p = (s2, r)" by (rule prod.exhaust)
  have out: "fault = NoFault" using assms Some p by (cases fault) (simp_all add: mintSuccessor_def)
  show ?thesis
    by (rule that [of s2 r]) (use assms Some p out in \<open>auto simp: mintSuccessor_def\<close>)
qed

lemma winner_exchanged:
  assumes "tokens_ok s" "snd (claim_token (hash raw) T s)"
    "rotateToken hash ttl raw meta fresh fault T s = (NewSession u token e, s')"
  shows "exchanged (hash raw) u token e T s'"
proof -
  obtain s1 where c: "claim_token (hash raw) T s = (s1, True)" using assms(2) by (cases "claim_token (hash raw) T s") auto
  obtain current where f: "find_hash s1 (hash raw) = Some current" using claim_found [OF c] by blast
  note row = claimed_row [OF assms(1) c f]
  have mint: "mintSuccessor hash ttl current (hash raw) meta fresh fault T s1 = (NewSession u token e, s')"
    using assms(3) c f by (simp add: rotateToken_def)
  obtain s2 r where made: "create_token (rt_userId current) (hash fresh) (T + ttl) meta T s1 = Some (s2, r)"
    and s': "s' = hold_token (hash raw) fresh (T + ttl) T (link_token (rt_id current) (rt_id r) s2)"
    and out: "u = rt_userId current" "token = fresh" "e = T + ttl"
    by (rule mint_success [OF mint])
  have "find_hash (link_token (rt_id current) (rt_id r) s2) (hash raw)
      = Some (current\<lparr>rt_replacedById := Some (rt_id r)\<rparr>)"
    using find_hash_created [OF f made] by (simp add: link_token_def find_hash_map)
  then show ?thesis
    using row out unfolding s' hold_token_def exchanged_def
    by (simp add: find_hash_def update_conv' REFRESH_REUSE_GRACE_MS_def ceil_div_def)
qed

text \<open>Racing refreshes share one session. When a refresh exchanges a token, every other refresh with
  the same token in the next 30 seconds is handed the very session the first one got and writes
  nothing, whatever sign-ins, refreshes, sign-outs and purges happen in between (the process not
  restarting).\<close>

theorem racing_refreshes_share_one_session:
  assumes "s = token_run hash ttl before empty_store" "snd (claim_token (hash raw) T s)"
    and "rotateToken hash ttl raw meta fresh fault T s = (NewSession u token expiresAt, s')"
    and "timed_from T later" "\<forall>(t, op) \<in> set later. t < T + REFRESH_REUSE_GRACE_MS \<and> op \<noteq> Restart"
    and "last_time T later \<le> now" "now < T + REFRESH_REUSE_GRACE_MS"
  shows "rotateToken hash ttl raw meta2 fresh2 fault2 now (token_run hash ttl later s')
    = (NewSession u token expiresAt, token_run hash ttl later s')"
proof -
  let ?z = "token_run hash ttl later s'"
  have ok: "tokens_ok s" unfolding assms(1) by (rule token_run_ok [OF empty_store_ok])
  have ok': "tokens_ok s'" using rotate_ok [OF ok, of hash ttl raw meta fresh fault T] assms(3) by simp
  have kept: "exchanged (hash raw) u token expiresAt T ?z"
    by (rule exchanged_run [OF ok' winner_exchanged [OF ok assms(2,3)] assms(4,5)])
  then obtain r where r: "find_hash ?z (hash raw) = Some r" "rt_userId r = u" "rt_revokedAt r = Some T"
    "rt_replacedById r \<noteq> None"
    and hold: "map_of (st_holds ?z) (replayKey (hash raw))
      = Some \<lparr>rh_token = token, rh_expiresAt = expiresAt, rh_until = T + REFRESH_REUSE_GRACE_MS\<rparr>"
    by (auto simp: exchanged_def)
  have answer: "tolerateRace hash ttl r (hash raw) meta2 fresh2 now ?z = (NewSession u token expiresAt, ?z)"
    using r hold assms(7) by (auto simp: tolerateRace_def cache_get_def)
  show ?thesis
  proof (cases rule: rotate_cases [of ?z hash raw ttl meta2 fresh2 fault2 now])
    case (winner s1 current)
    then obtain q where q: "q \<in> set (st_tokens ?z)" "rt_tokenHash q = hash raw" "rt_revokedAt q = None"
      by (auto simp: claim_token_def Let_def list_ex_iff)
    have "q = r" by (rule find_hash_eq [OF r(1) token_run_ok [OF ok'] q(1,2)])
    then show ?thesis using r(3) q(3) by simp
  qed (use r(1) answer in simp_all)
qed

lemma exchange_example:
  "snd (claim_token ''a'' 60000 (token_run id 1000000 [(0, Issue 1 browser ''a'')] empty_store))"
  "rotateToken id 1000000 ''a'' browser ''b'' NoFault 60000
      (token_run id 1000000 [(0, Issue 1 browser ''a'')] empty_store)
    = (NewSession 1 ''b'' 1060000, token_run id 1000000 exchanged_history empty_store)"
  by (simp_all add: exchanged_history_def empty_store_def token_ops_defs browser_def)

theorem racing_refreshes_share_one_session_witness:
  "rotateToken id 1000000 ''a'' browser ''c'' NoFault 61000
      (token_run id 1000000 [(60500, RevokeAgent 1)] (token_run id 1000000 exchanged_history empty_store))
    = (NewSession 1 ''b'' 1060000,
       token_run id 1000000 [(60500, RevokeAgent 1)] (token_run id 1000000 exchanged_history empty_store))"
  by (rule racing_refreshes_share_one_session [OF refl _ exchange_example(2)])
     (use exchange_example(1) in \<open>simp_all add: last_time_def REFRESH_REUSE_GRACE_MS_def\<close>)

section \<open>Statements of racing refreshes interleaved\<close>

text \<open>
  Requests presenting the same token, each a sequence of statements: claim, read the row, create the
  successor, link it, hold it in the cache (or hand the token back when the database refuses), or
  tolerate the race. \<open>Failing\<close> is a request whose create or link threw and whose catch has not run.
\<close>

datatype refresh_phase =
    Arriving
  | Claimed bool
  | Minting refresh_row
  | Linking refresh_row uid
  | Holding
  | Won
  | Tolerating refresh_row
  | Failing refresh_row
  | Answered rotate_outcome

fun holds_claim :: "refresh_phase \<Rightarrow> bool" where
  "holds_claim (Claimed b) = b"
| "holds_claim (Minting _) = True"
| "holds_claim (Linking _ _) = True"
| "holds_claim Holding = True"
| "holds_claim Won = True"
| "holds_claim (Failing _) = True"
| "holds_claim _ = False"

inductive refresh_race ::
  "(string \<Rightarrow> string) \<Rightarrow> int \<Rightarrow> string \<Rightarrow> token_store \<Rightarrow> (nat \<Rightarrow> refresh_phase) \<Rightarrow> bool"
  for hash :: "string \<Rightarrow> string" and ttl :: int and h :: string where
  race_start: "distinct (map rt_tokenHash (st_tokens s)) \<Longrightarrow> refresh_race hash ttl h s (\<lambda>_. Arriving)"
| race_claim:
    "refresh_race hash ttl h s ph \<Longrightarrow> ph i = Arriving \<Longrightarrow> claim_token h now s = (s', b)
     \<Longrightarrow> refresh_race hash ttl h s' (ph(i := Claimed b))"
| race_unknown:
    "refresh_race hash ttl h s ph \<Longrightarrow> ph i = Claimed b \<Longrightarrow> find_hash s h = None
     \<Longrightarrow> refresh_race hash ttl h s (ph(i := Answered NoSession))"
| race_read:
    "refresh_race hash ttl h s ph \<Longrightarrow> ph i = Claimed b \<Longrightarrow> find_hash s h = Some current
     \<Longrightarrow> refresh_race hash ttl h s (ph(i := if b then Minting current else Tolerating current))"
| race_create:
    "refresh_race hash ttl h s ph \<Longrightarrow> ph i = Minting current \<Longrightarrow> hash fresh \<noteq> h
     \<Longrightarrow> create_token (rt_userId current) (hash fresh) (now + ttl) meta now s = Some (s', r)
     \<Longrightarrow> refresh_race hash ttl h s' (ph(i := Linking current (rt_id r)))"
| race_link:
    "refresh_race hash ttl h s ph \<Longrightarrow> ph i = Linking current next
     \<Longrightarrow> refresh_race hash ttl h (link_token (rt_id current) next s) (ph(i := Holding))"
| race_hold:
    "refresh_race hash ttl h s ph \<Longrightarrow> ph i = Holding
     \<Longrightarrow> refresh_race hash ttl h (hold_token h token e now s) (ph(i := Won))"
| race_refused:
    "refresh_race hash ttl h s ph \<Longrightarrow> ph i = Minting current \<or> (\<exists>n. ph i = Linking current n)
     \<Longrightarrow> refresh_race hash ttl h s (ph(i := Failing current))"
| race_handed_back:
    "refresh_race hash ttl h s ph \<Longrightarrow> ph i = Failing current
     \<Longrightarrow> refresh_race hash ttl h (unclaim_token (rt_id current) s) (ph(i := Answered DbFailure))"
| race_tolerate:
    "refresh_race hash ttl h s ph \<Longrightarrow> ph i = Tolerating current \<Longrightarrow> hash fresh \<noteq> h
     \<Longrightarrow> tolerateRace hash ttl current h meta fresh now s = (out, s')
     \<Longrightarrow> refresh_race hash ttl h s' (ph(i := Answered out))"
| race_other:
    "refresh_race hash ttl h s ph \<Longrightarrow> \<forall>raw meta fresh fault. op \<noteq> Rotate raw meta fresh fault
     \<Longrightarrow> \<forall>u meta raw. op = Issue u meta raw \<longrightarrow> hash raw \<noteq> h
     \<Longrightarrow> refresh_race hash ttl h (token_step hash ttl now op s) ph"

definition revoked_hash :: "string \<Rightarrow> token_store \<Rightarrow> bool" where
  "revoked_hash h s \<longleftrightarrow> (\<forall>r \<in> set (st_tokens s). rt_tokenHash r = h \<longrightarrow> rt_revokedAt r \<noteq> None)"

definition hashes_ok :: "token_store \<Rightarrow> bool" where
  "hashes_ok s \<longleftrightarrow> distinct (map rt_tokenHash (st_tokens s))"

definition race_ok :: "string \<Rightarrow> token_store \<Rightarrow> (nat \<Rightarrow> refresh_phase) \<Rightarrow> bool" where
  "race_ok h s ph \<longleftrightarrow>
     hashes_ok s
     \<and> (\<forall>i j. holds_claim (ph i) \<and> holds_claim (ph j) \<longrightarrow> i = j) \<and> (\<forall>i. holds_claim (ph i) \<longrightarrow> revoked_hash h s)"

lemma hashes_map: "(\<And>r. rt_tokenHash (f r) = rt_tokenHash r) \<Longrightarrow> hashes_ok s \<Longrightarrow> hashes_ok (map_tokens P f s)"
proof -
  assume keep: "\<And>r. rt_tokenHash (f r) = rt_tokenHash r" and ok: "hashes_ok s"
  have "map rt_tokenHash (st_tokens (map_tokens P f s)) = map rt_tokenHash (st_tokens s)" by (simp add: keep)
  then show "hashes_ok (map_tokens P f s)" using ok unfolding hashes_ok_def by metis
qed

lemma hashes_created: "create_token v h e meta now s = Some (s', r) \<Longrightarrow> hashes_ok s \<Longrightarrow> hashes_ok s'"
  using create_token_Some(1,2,7) [of v h e meta now s s' r] by (simp add: hashes_ok_def)

lemma hashes_issued: "hashes_ok s \<Longrightarrow> hashes_ok (snd (issueToken hash ttl v meta raw now s))"
  by (auto simp: issueToken_def hashes_created split: option.splits)

lemma revoked_created:
  assumes "revoked_hash h s" "create_token v h' e meta now s = Some (s', r)" "h' \<noteq> h"
  shows "revoked_hash h s'"
  using assms(1,3) create_token_Some(2,7) [OF assms(2)] by (auto simp: revoked_hash_def)

lemma revoked_issued:
  "revoked_hash h s \<Longrightarrow> hash raw \<noteq> h \<Longrightarrow> revoked_hash h (snd (issueToken hash ttl v meta raw now s))"
  by (auto simp: issueToken_def revoked_created split: option.splits)

lemma revoked_where: "revoked_hash h s \<Longrightarrow> revoked_hash h (revoke_where P now s)"
  by (auto simp: revoked_hash_def revoke_where_def)

lemma other_step:
  assumes "\<forall>raw meta fresh fault. op \<noteq> Rotate raw meta fresh fault" "\<forall>u meta raw. op = Issue u meta raw \<longrightarrow> hash raw \<noteq> h"
  shows "hashes_ok s \<Longrightarrow> hashes_ok (token_step hash ttl now op s)"
    "revoked_hash h s \<Longrightarrow> revoked_hash h (token_step hash ttl now op s)"
proof -
  have sweep: "hashes_ok s \<Longrightarrow> hashes_ok (sweepTokens now s)" "revoked_hash h s \<Longrightarrow> revoked_hash h (sweepTokens now s)"
    by (auto simp: hashes_ok_def revoked_hash_def sweepTokens_def purgeDead_def distinct_map inj_on_def)
  have restart: "hashes_ok s \<Longrightarrow> hashes_ok (restart_cache s)" "revoked_hash h s \<Longrightarrow> revoked_hash h (restart_cache s)"
    by (simp_all add: hashes_ok_def revoked_hash_def restart_cache_def)
  have revoke: "hashes_ok s \<Longrightarrow> hashes_ok (revoke_where P now s)" for P
    unfolding revoke_where_def by (rule hashes_map) simp
  note all = sweep restart revoke hashes_issued revoked_issued revoked_where
  show "hashes_ok s \<Longrightarrow> hashes_ok (token_step hash ttl now op s)"
    using assms all by (cases op) (simp_all add: revokeToken_def revokeAllForUser_def revokeAgentSessions_def)
  show "revoked_hash h s \<Longrightarrow> revoked_hash h (token_step hash ttl now op s)"
    using assms all by (cases op) (simp_all add: revokeToken_def revokeAllForUser_def revokeAgentSessions_def)
qed

text \<open>A request moving on within its claim, and one leaving it.\<close>

lemma race_moved:
  assumes "race_ok h s ph" "holds_claim p \<Longrightarrow> holds_claim (ph i)" "hashes_ok s \<Longrightarrow> hashes_ok s'"
    "revoked_hash h s \<Longrightarrow> revoked_hash h s'"
  shows "race_ok h s' (ph(i := p))"
  using assms unfolding race_ok_def by (metis fun_upd_apply)

lemma race_left:
  assumes "race_ok h s ph" "holds_claim (ph i)" "\<not> holds_claim p" "hashes_ok s \<Longrightarrow> hashes_ok s'"
  shows "race_ok h s' (ph(i := p))"
  using assms unfolding race_ok_def by (metis fun_upd_apply)

lemma claim_race:
  assumes "race_ok h s ph" "\<not> holds_claim (ph i)" "claim_token h now s = (s', b)"
  shows "race_ok h s' (ph(i := Claimed b))"
proof (cases b)
  case False
  then have "s' = s" using assms(3) not_claimed [of h now s s'] by simp
  then show ?thesis using race_moved [OF assms(1), of "Claimed b" i] False by simp
next
  case True
  let ?live = "\<lambda>r. rt_tokenHash r = h \<and> rt_revokedAt r = None \<and> rt_expiresAt r > now"
  have s': "s' = map_tokens ?live (\<lambda>r. r\<lparr>rt_revokedAt := Some now\<rparr>) s"
    and ex: "\<exists>q \<in> set (st_tokens s). ?live q"
    using assms(3) True by (auto simp: claim_token_def Let_def list_ex_iff)
  obtain q where q: "q \<in> set (st_tokens s)" "?live q" using ex by blast
  have none: "\<not> holds_claim (ph j)" for j
    using assms(1) q by (auto simp: race_ok_def revoked_hash_def)
  have ok: "hashes_ok s" using assms(1) by (simp add: race_ok_def)
  then have "r = q" if "r \<in> set (st_tokens s)" "rt_tokenHash r = h" for r
    using that q by (auto simp: hashes_ok_def distinct_map inj_on_def)
  then have "revoked_hash h s'" unfolding s' using q(2) by (auto simp: revoked_hash_def)
  moreover have "hashes_ok s'" unfolding s' by (rule hashes_map [OF _ ok]) simp
  ultimately show ?thesis using none by (simp add: race_ok_def)
qed

lemma hashes_linked: "hashes_ok s \<Longrightarrow> hashes_ok (link_token rid n s)" "hashes_ok s \<Longrightarrow> hashes_ok (unclaim_token rid s)"
  unfolding link_token_def unclaim_token_def by (rule hashes_map; simp)+

lemma revoked_linked: "revoked_hash h s \<Longrightarrow> revoked_hash h (link_token rid n s)"
  by (auto simp: revoked_hash_def link_token_def)

lemma held_same: "hashes_ok (hold_token h t e now s) = hashes_ok s" "revoked_hash h' (hold_token h t e now s) = revoked_hash h' s"
  by (simp_all add: hold_token_def hashes_ok_def revoked_hash_def)

lemma refresh_race_ok: "refresh_race hash ttl h s ph \<Longrightarrow> race_ok h s ph"
proof (induction rule: refresh_race.induct)
  case (race_start s)
  then show ?case by (simp add: race_ok_def hashes_ok_def)
next
  case (race_claim s ph i now s' b)
  then show ?case by (intro claim_race) simp_all
next
  case (race_unknown s ph i b)
  then show ?case by (intro race_moved [where s = s]) simp_all
next
  case (race_read s ph i b current)
  then show ?case by (cases b; intro race_moved [where s = s]) simp_all
next
  case (race_create s ph i current fresh now meta s' r)
  then show ?case using hashes_created revoked_created by (intro race_moved [where s = s]) auto
next
  case (race_link s ph i current n)
  then show ?case by (intro race_moved [where s = s] hashes_linked revoked_linked) simp_all
next
  case (race_hold s ph i token e now)
  then show ?case by (intro race_moved [where s = s]) (simp_all add: held_same)
next
  case (race_refused s ph i current)
  then show ?case by (intro race_moved [where s = s]) auto
next
  case (race_handed_back s ph i current)
  then show ?case by (intro race_left [where s = s] hashes_linked) simp_all
next
  case (race_tolerate s ph i current fresh meta now out s')
  have "s' = s \<or> s' = snd (issueToken hash ttl (rt_userId current) meta fresh now s)"
    by (rule tolerate_cases [OF race_tolerate.hyps(4)])
  then have "hashes_ok s \<Longrightarrow> hashes_ok s'" "revoked_hash h s \<Longrightarrow> revoked_hash h s'"
    using hashes_issued revoked_issued race_tolerate.hyps(3) by auto
  then show ?case using race_tolerate.IH by (intro race_moved [where s = s]) simp_all
next
  case (race_other s ph op now)
  note keep = other_step [OF race_other.hyps(2,3)]
  show ?case using race_other.IH keep unfolding race_ok_def by blast
qed

text \<open>C26: A refresh token is exchanged once. Over any interleaving of the statements of any number of
  requests presenting the same token, with sign-ins, sign-outs, purges and restarts in between, and any
  of their writes failing, at most one request ever holds the claim or has made the successor, and
  while one does nobody else can claim the token.\<close>

theorem a_token_is_exchanged_once:
  assumes "refresh_race hash ttl h s ph" "holds_claim (ph i)"
  shows "(holds_claim (ph j) \<longleftrightarrow> j = i) \<and> snd (claim_token h now s) = False"
proof -
  note ok = refresh_race_ok [OF assms(1), unfolded race_ok_def]
  have "revoked_hash h s" using ok assms(2) by blast
  then have "snd (claim_token h now s) = False"
    by (auto simp: revoked_hash_def claim_token_def Let_def list_ex_iff)
  then show ?thesis using ok assms(2) by blast
qed

definition signed_in_once :: token_store where
  "signed_in_once = token_run id 1000000 [(0, Issue 1 browser ''a'')] empty_store"

lemma two_requests_race:
  "refresh_race id 1000000 ''a'' (fst (claim_token ''a'' 60000 signed_in_once))
     ((\<lambda>_. Arriving) (0 := Claimed True, 1 := Claimed False))"
proof -
  have start: "refresh_race id 1000000 ''a'' signed_in_once (\<lambda>_. Arriving)"
    by (rule race_start) (simp add: signed_in_once_def empty_store_def token_ops_defs browser_def)
  have first: "claim_token ''a'' 60000 signed_in_once = (fst (claim_token ''a'' 60000 signed_in_once), True)"
    and second: "claim_token ''a'' 60001 (fst (claim_token ''a'' 60000 signed_in_once))
      = (fst (claim_token ''a'' 60000 signed_in_once), False)"
    by (simp_all add: signed_in_once_def empty_store_def token_ops_defs browser_def map_tokens_def)
  show ?thesis
    using race_claim [OF race_claim [OF start _ first, of 0] _ second, of 1] by simp
qed

theorem a_token_is_exchanged_once_witness:
  "(holds_claim (((\<lambda>_. Arriving) (0 := Claimed True, 1 := Claimed False)) (1::nat)) \<longleftrightarrow> (1::nat) = 0)
   \<and> snd (claim_token ''a'' 60002 (fst (claim_token ''a'' 60000 signed_in_once))) = False"
  by (rule a_token_is_exchanged_once [OF two_requests_race]) simp

end
