(* ===== verification/Sign_In.thy ===== *)
theory Sign_In
  imports Refresh_Tokens
begin

text \<open>
  Signing in and being shut out: the use cases of \<open>src/src/modules/auth/application/use-cases\<close> (sign in,
  refresh, sign out, change password, enrol an agent), the subscriber that ends the sessions of people
  who were blocked, deleted or signed out, and the administrator's side in
  \<open>src/src/modules/users/application/use-cases\<close> (block, delete, set a password). bcrypt, JWT signing and
  SHA-256 are the fields of \<open>auth_services\<close>.
\<close>

section \<open>Accounts and services\<close>

record account =
  ac_id :: uid
  ac_email :: string
  ac_passwordHash :: string
  ac_role :: role
  ac_companyId :: "uid option"
  ac_departmentId :: "uid option"
  ac_managerId :: "uid option"
  ac_active :: bool
  ac_deleted :: bool
  ac_enrollVersion :: int
  ac_agentActivatedAt :: "int option"

datatype access_change =
    ChangedStatus | ChangedRole | ChangedManager | ChangedDeleted | ChangedPassword | ChangedSignOut

record access_event =
  ev_userId :: uid
  ev_changes :: "access_change list"
  ev_active :: "bool option"

record auth_state =
  as_users :: "account list"
  as_tokens :: token_store
  as_attempts :: login_attempts
  as_addresses :: address_failures
  as_activations :: "uid list"

text \<open>The claims of a verified enrolment JWT: subject, type and version.\<close>

record enroll_claims =
  cl_sub :: "uid option"
  cl_typ :: string
  cl_ev :: "int option"

record auth_services =
  sv_compare :: "string \<Rightarrow> string \<Rightarrow> bool"
  sv_hashPassword :: "string \<Rightarrow> string"
  sv_sign :: "uid \<Rightarrow> string \<Rightarrow> role \<Rightarrow> string"
  sv_verify :: "string \<Rightarrow> enroll_claims option"
  sv_hash :: "string \<Rightarrow> string"
  sv_ttl :: int
  sv_env :: login_env

text \<open>A request ends with an exception of the application, a database error, or its answer.\<close>

datatype 'a outcome = Refused app_exception | ServerError | Success 'a

record session_tokens =
  se_user :: uid
  se_access :: string
  se_refresh :: string

definition findByEmail :: "auth_state \<Rightarrow> string \<Rightarrow> account option" where
  "findByEmail s email = find (\<lambda>a. ac_email a = trim (to_lower email) \<and> \<not> ac_deleted a) (as_users s)"

definition findAccount :: "auth_state \<Rightarrow> uid \<Rightarrow> account option" where
  "findAccount s i = find (\<lambda>a. ac_id a = i \<and> \<not> ac_deleted a) (as_users s)"

definition update_account :: "uid \<Rightarrow> (account \<Rightarrow> account) \<Rightarrow> auth_state \<Rightarrow> auth_state" where
  "update_account i f s = s\<lparr>as_users := map (\<lambda>a. if ac_id a = i then f a else a) (as_users s)\<rparr>"

definition markAgentActivatedIfFirst :: "uid \<Rightarrow> int \<Rightarrow> auth_state \<Rightarrow> auth_state \<times> bool" where
  "markAgentActivatedIfFirst i now s =
     (let untouched = (\<lambda>a. ac_id a = i \<and> ac_agentActivatedAt a = None)
      in (s\<lparr>as_users := map (\<lambda>a. if untouched a then a\<lparr>ac_agentActivatedAt := Some now\<rparr> else a) (as_users s)\<rparr>,
          list_ex untouched (as_users s)))"

text \<open>Marks the first activation and tells whoever oversees the person, once.\<close>

definition agentActivated :: "uid \<Rightarrow> int \<Rightarrow> auth_state \<Rightarrow> auth_state" where
  "agentActivated i now s =
     (let (s', first) = markAgentActivatedIfFirst i now s
      in if first then s'\<lparr>as_activations := as_activations s' @ [i]\<rparr> else s')"

text \<open>A new session for the account, in the two steps every sign-in ends with.\<close>

definition open_session :: "auth_services \<Rightarrow> account \<Rightarrow> refresh_meta \<Rightarrow> string \<Rightarrow> int \<Rightarrow> auth_state
    \<Rightarrow> session_tokens option \<times> auth_state" where
  "open_session sv u meta fresh now s =
     (let (issued, t) = issueToken (sv_hash sv) (sv_ttl sv) (ac_id u) meta fresh now (as_tokens s)
      in (map_option (\<lambda>(token, _). \<lparr>se_user = ac_id u, se_access = sv_sign sv (ac_id u) (ac_email u) (ac_role u),
                                    se_refresh = token\<rparr>) issued,
          s\<lparr>as_tokens := t\<rparr>))"

section \<open>Signing in with a password\<close>

definition KNOWN_ADDRESS_MS :: int where
  "KNOWN_ADDRESS_MS = 30 * 24 * 3600000"

definition agent_meta :: "refresh_meta \<Rightarrow> bool" where
  "agent_meta meta = (case rm_userAgent meta of None \<Rightarrow> False | Some a \<Rightarrow> take 14 a = ''RXVisionAgent/'')"

definition limits_of :: "auth_services \<Rightarrow> address_limits" where
  "limits_of sv = failedLoginLimits (sv_env sv)"

text \<open>A wrong password counts against the account and against the client address.\<close>

definition login_failed :: "auth_services \<Rightarrow> string \<Rightarrow> string option \<Rightarrow> int \<Rightarrow> auth_state \<Rightarrow> auth_state" where
  "login_failed sv address ip now s =
     s\<lparr>as_attempts := recordLoginFailure (as_attempts s) (Some address) now,
       as_addresses := recordAddressFailure (limits_of sv) (as_addresses s) ip now\<rparr>"

definition known_from :: "auth_state \<Rightarrow> account option \<Rightarrow> string option \<Rightarrow> int \<Rightarrow> bool" where
  "known_from s user ip now =
     (case (user, ip) of
        (Some u, Some i) \<Rightarrow> i \<noteq> [] \<and> signedInFrom (as_tokens s) (ac_id u) i (now - KNOWN_ADDRESS_MS)
      | _ \<Rightarrow> False)"

definition TOO_MANY :: app_exception where
  "TOO_MANY = TooManyAttemptsError ''TOO_MANY_ATTEMPTS''"

text \<open>
  The sign-in as one step. The code awaits between looking at the counters and adding to them, so two sign-ins can
  overlap: \<open>login_check\<close> and \<open>login_finish\<close> below are its two halves, and \<open>loginUser\<close> is a sign-in with
  no other one in between.
\<close>

definition loginUser ::
  "auth_services \<Rightarrow> string option \<Rightarrow> string option \<Rightarrow> refresh_meta \<Rightarrow> string \<Rightarrow> int \<Rightarrow> auth_state
     \<Rightarrow> session_tokens outcome \<times> auth_state" where
  "loginUser sv email password meta fresh now s =
     (let address = trim (to_lower (coalesce email [])); ip = rm_ip meta in
      case assertAllowed (as_attempts s) (Some address) now of
        Inl e \<Rightarrow> (Refused e, s)
      | Inr _ \<Rightarrow>
          (let user = findByEmail s address;
               blockedMin = blockedForMin (limits_of sv) (as_addresses s) ip now
           in if blockedMin > 0 \<and> \<not> known_from s user ip now then (Refused TOO_MANY, s)
              else (case user of
                 None \<Rightarrow> (Refused InvalidCredentialsError, login_failed sv address ip now s)
               | Some u \<Rightarrow>
                   if \<not> sv_compare sv (coalesce password []) (ac_passwordHash u)
                   then (let s' = login_failed sv address ip now s;
                             minutes = blockedForMin (limits_of sv) (as_addresses s') ip now
                         in (Refused (if blockedMin > 0 \<and> minutes > 0 then TOO_MANY else InvalidCredentialsError), s'))
                   else (let s1 = s\<lparr>as_attempts := recordSuccess (as_attempts s) (Some address)\<rparr>
                         in if \<not> ac_active u then (Refused AccountDisabledError, s1)
                            else (case open_session sv u meta fresh now s1 of
                                    (None, s2) \<Rightarrow> (ServerError, s2)
                                  | (Some tokens, s2) \<Rightarrow>
                                      (Success tokens, if agent_meta meta then agentActivated (ac_id u) now s2 else s2))))))"

text \<open>The half before the password is compared: the account found and the minutes its client address is blocked for.\<close>

definition login_check ::
  "auth_services \<Rightarrow> string option \<Rightarrow> refresh_meta \<Rightarrow> int \<Rightarrow> auth_state \<Rightarrow> (account option \<times> int) result" where
  "login_check sv email meta now s =
     (let address = trim (to_lower (coalesce email [])); ip = rm_ip meta in
      case assertAllowed (as_attempts s) (Some address) now of
        Inl e \<Rightarrow> throw e
      | Inr _ \<Rightarrow>
          (let user = findByEmail s address; blockedMin = blockedForMin (limits_of sv) (as_addresses s) ip now
           in if blockedMin > 0 \<and> \<not> known_from s user ip now then throw TOO_MANY else return (user, blockedMin)))"

text \<open>The half after it, on the counters as they are by then.\<close>

definition login_finish ::
  "auth_services \<Rightarrow> string option \<Rightarrow> string option \<Rightarrow> refresh_meta \<Rightarrow> string \<Rightarrow> int \<Rightarrow> account option \<times> int \<Rightarrow> auth_state
     \<Rightarrow> session_tokens outcome \<times> auth_state" where
  "login_finish sv email password meta fresh now found s =
     (let address = trim (to_lower (coalesce email [])); ip = rm_ip meta; (user, blockedMin) = found in
      case user of
        None \<Rightarrow> (Refused InvalidCredentialsError, login_failed sv address ip now s)
      | Some u \<Rightarrow>
          if \<not> sv_compare sv (coalesce password []) (ac_passwordHash u)
          then (let s' = login_failed sv address ip now s; minutes = blockedForMin (limits_of sv) (as_addresses s') ip now
                in (Refused (if blockedMin > 0 \<and> minutes > 0 then TOO_MANY else InvalidCredentialsError), s'))
          else (let s1 = s\<lparr>as_attempts := recordSuccess (as_attempts s) (Some address)\<rparr>
                in if \<not> ac_active u then (Refused AccountDisabledError, s1)
                   else (case open_session sv u meta fresh now s1 of
                           (None, s2) \<Rightarrow> (ServerError, s2)
                         | (Some tokens, s2) \<Rightarrow> (Success tokens, if agent_meta meta then agentActivated (ac_id u) now s2 else s2))))"

lemma loginUser_halves:
  "loginUser sv email password meta fresh now s =
     (case login_check sv email meta now s of
        Inl e \<Rightarrow> (Refused e, s)
      | Inr found \<Rightarrow> login_finish sv email password meta fresh now found s)"
  by (simp add: loginUser_def login_check_def login_finish_def Let_def split: sum.split)

text \<open>Sign-ins that overlap all pass the check: from a state with no failures recorded, the wrong password is compared
  and answered as such whatever the others have recorded meanwhile, however many there are.\<close>

lemma overlapping_guesses_pass:
  assumes "as_attempts s = []" "as_addresses s = []" "findByEmail s (trim (to_lower (coalesce email []))) = Some u"
    and "\<not> sv_compare sv (coalesce password []) (ac_passwordHash u)"
  shows "\<exists>found. login_check sv email meta now s = Inr found
    \<and> (\<forall>s'. fst (login_finish sv email password meta fresh now found s') = Refused InvalidCredentialsError)"
proof -
  have "blockedForMin (limits_of sv) [] ip now = 0" for ip by (simp add: blockedForMin_def split: option.split)
  then show ?thesis using assms by (simp add: login_check_def login_finish_def Let_def assertAllowed_def)
qed

section \<open>Refreshing, signing out, enrolling, changing the password\<close>

definition refreshSession ::
  "auth_services \<Rightarrow> string option \<Rightarrow> refresh_meta \<Rightarrow> string \<Rightarrow> db_fault \<Rightarrow> int \<Rightarrow> auth_state
     \<Rightarrow> session_tokens outcome \<times> auth_state" where
  "refreshSession sv raw meta fresh fault now s =
     (if raw = None \<or> raw = Some [] then (Refused (UnauthorizedError ''UNAUTHORIZED''), s)
      else (let (out, t) = rotateToken (sv_hash sv) (sv_ttl sv) (the raw) meta fresh fault now (as_tokens s);
                s' = s\<lparr>as_tokens := t\<rparr>
            in case out of
                 DbFailure \<Rightarrow> (ServerError, s')
               | NoSession \<Rightarrow> (Refused (UnauthorizedError ''UNAUTHORIZED''), s')
               | NewSession userId token _ \<Rightarrow>
                   (case findAccount s' userId of
                      None \<Rightarrow> (Refused (UnauthorizedError ''UNAUTHORIZED''), s')
                    | Some u \<Rightarrow>
                        if \<not> ac_active u then (Refused (UnauthorizedError ''UNAUTHORIZED''), s')
                        else (Success \<lparr>se_user = ac_id u, se_access = sv_sign sv (ac_id u) (ac_email u) (ac_role u),
                                       se_refresh = token\<rparr>, s'))))"

definition logoutUser :: "auth_services \<Rightarrow> string option \<Rightarrow> int \<Rightarrow> auth_state \<Rightarrow> auth_state" where
  "logoutUser sv raw now s =
     (if raw = None \<or> raw = Some [] then s
      else s\<lparr>as_tokens := revokeToken (sv_hash sv) (the raw) now (as_tokens s)\<rparr>)"

text \<open>\<open>verifyEnrollmentToken\<close>: any failure to verify, a token of another type or without a
  subject is None; a version that is missing or not positive counts as 1.\<close>

definition verifyEnrollmentToken :: "auth_services \<Rightarrow> string \<Rightarrow> (uid \<times> int) option" where
  "verifyEnrollmentToken sv token =
     (case sv_verify sv token of
        None \<Rightarrow> None
      | Some c \<Rightarrow>
          (case cl_sub c of
             None \<Rightarrow> None
           | Some i \<Rightarrow>
               if cl_typ c \<noteq> ''enroll'' then None
               else Some (i, case cl_ev c of None \<Rightarrow> 1 | Some ev \<Rightarrow> if ev > 0 then ev else 1)))"

definition enrollAgent ::
  "auth_services \<Rightarrow> string \<Rightarrow> refresh_meta \<Rightarrow> string \<Rightarrow> int \<Rightarrow> auth_state \<Rightarrow> session_tokens outcome \<times> auth_state" where
  "enrollAgent sv token meta fresh now s =
     (case verifyEnrollmentToken sv token of
        None \<Rightarrow> (Refused InvalidCredentialsError, s)
      | Some (userId, enrollVersion) \<Rightarrow>
          (case findAccount s userId of
             None \<Rightarrow> (Refused InvalidCredentialsError, s)
           | Some u \<Rightarrow>
               if enrollVersion \<noteq> ac_enrollVersion u then (Refused InvalidCredentialsError, s)
               else if \<not> ac_active u then (Refused AccountDisabledError, s)
               else (case open_session sv u meta fresh now s of
                       (None, s') \<Rightarrow> (ServerError, s')
                     | (Some tokens, s') \<Rightarrow> (Success tokens, agentActivated (ac_id u) now s'))))"

definition MIN_PASSWORD_LENGTH :: nat where
  "MIN_PASSWORD_LENGTH = 8"

definition changePassword ::
  "auth_services \<Rightarrow> uid \<Rightarrow> string option \<Rightarrow> string option \<Rightarrow> bool \<Rightarrow> refresh_meta \<Rightarrow> string \<Rightarrow> int \<Rightarrow> auth_state
     \<Rightarrow> session_tokens outcome \<times> auth_state" where
  "changePassword sv me currentPassword newPassword signOutOtherDevices meta fresh now s =
     (case findAccount s me of
        None \<Rightarrow> (Refused (UnauthorizedError ''UNAUTHORIZED''), s)
      | Some u \<Rightarrow>
          if \<not> ac_active u then (Refused (UnauthorizedError ''UNAUTHORIZED''), s)
          else if \<not> sv_compare sv (coalesce currentPassword []) (ac_passwordHash u)
          then (Refused (ValidationError ''WRONG_PASSWORD''), s)
          else (let new = coalesce newPassword [] in
            if length new < MIN_PASSWORD_LENGTH then (Refused (ValidationError ''WEAK_PASSWORD''), s)
            else if Some new = currentPassword then (Refused (ValidationError ''SAME_PASSWORD''), s)
            else (let s1 = update_account (ac_id u) (\<lambda>a. a\<lparr>ac_passwordHash := sv_hashPassword sv new\<rparr>) s;
                      s2 = (if signOutOtherDevices
                            then s1\<lparr>as_tokens := revokeAllForUser (ac_id u) now (as_tokens s1)\<rparr> else s1)
                  in case open_session sv u meta fresh now s2 of
                       (None, s3) \<Rightarrow> (ServerError, s3)
                     | (Some tokens, s3) \<Rightarrow> (Success tokens, s3))))"

section \<open>Blocking, deleting, resetting\<close>

text \<open>The subscriber: the sessions of people who were blocked, deleted or signed out end.\<close>

definition onAccessChanged :: "access_event \<Rightarrow> int \<Rightarrow> auth_state \<Rightarrow> auth_state" where
  "onAccessChanged e now s =
     (if \<not> list_ex (\<lambda>c. c = ChangedDeleted \<or> c = ChangedSignOut \<or> (c = ChangedStatus \<and> ev_active e = Some False))
            (ev_changes e)
      then s
      else s\<lparr>as_tokens := revokeAllForUser (ev_userId e) now (as_tokens s)\<rparr>)"

definition account_facts :: "account \<Rightarrow> person_facts" where
  "account_facts u = \<lparr>pf_id = ac_id u, pf_role = ac_role u, pf_companyId = ac_companyId u, pf_departmentId = ac_departmentId u\<rparr>"

definition editable_account :: "auth_user \<Rightarrow> auth_state \<Rightarrow> uid \<Rightarrow> account result" where
  "editable_account me s targetId =
     (case findAccount s targetId of
        None \<Rightarrow> (case assertCanEdit me None of Inl e \<Rightarrow> throw e | Inr _ \<Rightarrow> throw (NotFoundError ''NOT_FOUND''))
      | Some u \<Rightarrow> (case assertCanEdit me (Some (account_facts u)) of Inl e \<Rightarrow> throw e | Inr _ \<Rightarrow> return u))"

definition active_super_admins :: "auth_state \<Rightarrow> nat" where
  "active_super_admins s =
     length (filter (\<lambda>a. ac_role a = SUPER_ADMIN \<and> ac_active a \<and> \<not> ac_deleted a) (as_users s))"

definition setUserStatus ::
  "auth_user \<Rightarrow> uid \<Rightarrow> bool \<Rightarrow> int \<Rightarrow> auth_state \<Rightarrow> uid outcome \<times> auth_state" where
  "setUserStatus me targetId active now s =
     (if u_role me = USER then (Refused (ForbiddenError ''FORBIDDEN''), s)
      else if targetId = u_id me then (Refused (ValidationError ''VALIDATION_ERROR''), s)
      else (case editable_account me s targetId of
              Inl e \<Rightarrow> (Refused e, s)
            | Inr target \<Rightarrow>
                if \<not> active \<and> ac_active target \<and> ac_role target = SUPER_ADMIN \<and> active_super_admins s \<le> 1
                then (Refused (ValidationError ''VALIDATION_ERROR''), s)
                else (let s1 = update_account targetId (\<lambda>a. a\<lparr>ac_active := active\<rparr>) s
                      in (Success targetId,
                          if ac_active target \<noteq> active
                          then onAccessChanged \<lparr>ev_userId = targetId, ev_changes = [ChangedStatus], ev_active = Some active\<rparr> now s1
                          else s1))))"

definition bumpEnrollVersion :: "uid \<Rightarrow> auth_state \<Rightarrow> auth_state" where
  "bumpEnrollVersion i = update_account i (\<lambda>a. a\<lparr>ac_enrollVersion := ac_enrollVersion a + 1\<rparr>)"

definition setUserPassword ::
  "auth_services \<Rightarrow> auth_user \<Rightarrow> uid \<Rightarrow> string option \<Rightarrow> bool \<Rightarrow> int \<Rightarrow> auth_state \<Rightarrow> uid outcome \<times> auth_state" where
  "setUserPassword sv me targetId newPassword signOutEverywhere now s =
     (if targetId = u_id me then (Refused (ValidationError ''USE_CHANGE_PASSWORD''), s)
      else (case editable_account me s targetId of
              Inl e \<Rightarrow> (Refused e, s)
            | Inr target \<Rightarrow>
                if length (coalesce newPassword []) < MIN_PASSWORD_LENGTH
                then (Refused (ValidationError ''WEAK_PASSWORD''), s)
                else (let s1 = update_account targetId
                             (\<lambda>a. a\<lparr>ac_passwordHash := sv_hashPassword sv (coalesce newPassword [])\<rparr>) s;
                          s2 = (if signOutEverywhere then bumpEnrollVersion targetId s1 else s1)
                      in (Success targetId,
                          onAccessChanged \<lparr>ev_userId = targetId,
                            ev_changes = (if signOutEverywhere then [ChangedPassword, ChangedSignOut] else [ChangedPassword]),
                            ev_active = Some (ac_active target)\<rparr> now s2))))"

definition deleteUser :: "auth_user \<Rightarrow> uid \<Rightarrow> int \<Rightarrow> auth_state \<Rightarrow> uid outcome \<times> auth_state" where
  "deleteUser me targetId now s =
     (if u_role me = USER then (Refused (ForbiddenError ''FORBIDDEN''), s)
      else if targetId = u_id me then (Refused (ValidationError ''VALIDATION_ERROR''), s)
      else (case editable_account me s targetId of
              Inl e \<Rightarrow> (Refused e, s)
            | Inr target \<Rightarrow>
                if ac_role target = SUPER_ADMIN \<and> ac_active target \<and> active_super_admins s \<le> 1
                then (Refused (ValidationError ''VALIDATION_ERROR''), s)
                else (Success targetId,
                      onAccessChanged \<lparr>ev_userId = targetId, ev_changes = [ChangedDeleted], ev_active = Some False\<rparr> now
                        (update_account targetId (\<lambda>a. a\<lparr>ac_deleted := True\<rparr>) s))))"

text \<open>Everything that changes the accounts and their sessions, as requests at a time.\<close>

datatype access_op =
    Login "string option" "string option" refresh_meta string
  | Refresh "string option" refresh_meta string db_fault
  | Logout "string option"
  | Enroll string refresh_meta string
  | ChangePassword uid "string option" "string option" bool refresh_meta string
  | SetStatus auth_user uid bool
  | SetPassword auth_user uid "string option" bool
  | DeleteUser auth_user uid
  | SignOutAgent uid
  | SweepTokens
  | ProcessRestart

text \<open>What a request hands out: the tokens of a session, or nothing.\<close>

fun handed :: "session_tokens outcome \<times> auth_state \<Rightarrow> session_tokens option \<times> auth_state" where
  "handed (Success t, s) = (Some t, s)"
| "handed (_, s) = (None, s)"

fun access_step ::
  "auth_services \<Rightarrow> int \<Rightarrow> access_op \<Rightarrow> auth_state \<Rightarrow> session_tokens option \<times> auth_state" where
  "access_step sv now (Login email password meta fresh) s = handed (loginUser sv email password meta fresh now s)"
| "access_step sv now (Refresh raw meta fresh fault) s = handed (refreshSession sv raw meta fresh fault now s)"
| "access_step sv now (Logout raw) s = (None, logoutUser sv raw now s)"
| "access_step sv now (Enroll token meta fresh) s = handed (enrollAgent sv token meta fresh now s)"
| "access_step sv now (ChangePassword me cur new out meta fresh) s =
     handed (changePassword sv me cur new out meta fresh now s)"
| "access_step sv now (SetStatus me i active) s = (None, snd (setUserStatus me i active now s))"
| "access_step sv now (SetPassword me i new out) s = (None, snd (setUserPassword sv me i new out now s))"
| "access_step sv now (DeleteUser me i) s = (None, snd (deleteUser me i now s))"
| "access_step sv now (SignOutAgent i) s =
     (None, bumpEnrollVersion i (s\<lparr>as_tokens := revokeAgentSessions i now (as_tokens s)\<rparr>))"
| "access_step sv now SweepTokens s = (None, s\<lparr>as_tokens := sweepTokens now (as_tokens s)\<rparr>)"
| "access_step sv now ProcessRestart s =
     (None, s\<lparr>as_tokens := restart_cache (as_tokens s), as_attempts := [], as_addresses := []\<rparr>)"

fun access_run :: "auth_services \<Rightarrow> (int \<times> access_op) list \<Rightarrow> auth_state \<Rightarrow> auth_state" where
  "access_run sv [] s = s"
| "access_run sv ((now, op) # h) s = access_run sv h (snd (access_step sv now op s))"

text \<open>The sessions handed out along a history, with the requests that got them.\<close>

fun access_log :: "auth_services \<Rightarrow> (int \<times> access_op) list \<Rightarrow> auth_state \<Rightarrow> (access_op \<times> uid) list" where
  "access_log sv [] s = []"
| "access_log sv ((now, op) # h) s =
     (case access_step sv now op s of
        (None, s') \<Rightarrow> access_log sv h s'
      | (Some t, s') \<Rightarrow> (op, se_user t) # access_log sv h s')"

section \<open>Who gets a session\<close>

text \<open>What each request must show for the account whose session it opens.\<close>

fun entitled :: "auth_services \<Rightarrow> access_op \<Rightarrow> account \<Rightarrow> auth_state \<Rightarrow> bool" where
  "entitled sv (Login email password meta fresh) a s =
     (ac_email a = trim (to_lower (trim (to_lower (coalesce email [])))) \<and> sv_compare sv (coalesce password []) (ac_passwordHash a))"
| "entitled sv (Refresh raw meta fresh fault) a s =
     (\<exists>r \<in> set (st_tokens (as_tokens s)). rt_tokenHash r = sv_hash sv (the raw) \<and> rt_userId r = ac_id a)"
| "entitled sv (Enroll token meta fresh) a s = (verifyEnrollmentToken sv token = Some (ac_id a, ac_enrollVersion a))"
| "entitled sv (ChangePassword me cur new out meta fresh) a s =
     (ac_id a = me \<and> sv_compare sv (coalesce cur []) (ac_passwordHash a))"
| "entitled sv _ a s = False"

lemma open_session_Some:
  "open_session sv u meta fresh now s = (Some t, s') \<Longrightarrow> se_user t = ac_id u \<and> as_users s' = as_users s"
  by (auto simp: open_session_def split: prod.splits)

lemma findByEmail_Some:
  "findByEmail s email = Some a \<Longrightarrow> a \<in> set (as_users s) \<and> ac_email a = trim (to_lower email) \<and> \<not> ac_deleted a"
  by (auto simp: findByEmail_def find_Some_iff)

lemma findAccount_Some:
  "findAccount s i = Some a \<Longrightarrow> a \<in> set (as_users s) \<and> ac_id a = i \<and> \<not> ac_deleted a"
  by (auto simp: findAccount_def find_Some_iff)

lemma handed_Some: "handed r = (Some t, s') \<longleftrightarrow> r = (Success t, s')"
  by (cases r; cases "fst r") auto

lemma mapped_owner:
  assumes "r \<in> set (st_tokens (map_tokens P f s))"
    "\<And>q. rt_tokenHash (f q) = rt_tokenHash q \<and> rt_userId (f q) = rt_userId q"
  shows "\<exists>q \<in> set (st_tokens s). rt_tokenHash q = rt_tokenHash r \<and> rt_userId q = rt_userId r"
proof -
  obtain q where "q \<in> set (st_tokens s)" "r = (if P q then f q else q)"
    using assms(1) unfolding map_tokens_sel set_map by blast
  then show ?thesis using assms(2) by (intro bexI [of _ q]) simp_all
qed

lemma rotate_owner:
  assumes "tokens_ok t" "rotateToken hash ttl raw meta fresh fault now t = (NewSession u token e, t')"
  shows "\<exists>r \<in> set (st_tokens t). rt_tokenHash r = hash raw \<and> rt_userId r = u"
proof (cases rule: rotate_cases [of t hash raw ttl meta fresh fault now])
  case unknown
  then show ?thesis using assms(2) by simp
next
  case (loser current)
  then have "tolerateRace hash ttl current (hash raw) meta fresh now t = (NewSession u token e, t')"
    using assms(2) by simp
  then have "rt_userId current = u"
    by (simp add: tolerateRace_def split: option.splits if_splits prod.splits)
  then show ?thesis using find_hash_Some [OF loser(1)] by blast
next
  case (winner s1 current)
  have "u = rt_userId current"
    by (rule mint_success [OF trans [OF winner(3) [symmetric] assms(2)]])
  moreover have "\<exists>r \<in> set (st_tokens t). rt_tokenHash r = rt_tokenHash current \<and> rt_userId r = rt_userId current"
  proof (rule mapped_owner)
    have "s1 = map_tokens (\<lambda>r. rt_tokenHash r = hash raw \<and> rt_revokedAt r = None \<and> rt_expiresAt r > now)
        (\<lambda>r. r\<lparr>rt_revokedAt := Some now\<rparr>) t"
      using winner(1) by (simp add: claim_token_def Let_def)
    then show "current \<in> set (st_tokens (map_tokens
        (\<lambda>r. rt_tokenHash r = hash raw \<and> rt_revokedAt r = None \<and> rt_expiresAt r > now)
        (\<lambda>r. r\<lparr>rt_revokedAt := Some now\<rparr>) t))"
      using find_hash_Some [OF winner(2)] by (simp only:)
  qed simp
  ultimately show ?thesis using find_hash_Some [OF winner(2)] by auto
qed

text \<open>An account as a session needs it: present, active, not deleted, and shown by the request.\<close>

definition admitted_by :: "auth_services \<Rightarrow> access_op \<Rightarrow> uid \<Rightarrow> auth_state \<Rightarrow> bool" where
  "admitted_by sv op i s =
     list_ex (\<lambda>a. ac_id a = i \<and> ac_active a \<and> \<not> ac_deleted a \<and> entitled sv op a s) (as_users s)"

lemma admitted_byI:
  "a \<in> set (as_users s) \<Longrightarrow> ac_id a = i \<Longrightarrow> ac_active a \<Longrightarrow> \<not> ac_deleted a \<Longrightarrow> entitled sv op a s \<Longrightarrow> admitted_by sv op i s"
  by (auto simp: admitted_by_def list_ex_iff)

lemma login_success:
  assumes "loginUser sv email password meta fresh now s = (Success t, s')"
  shows "admitted_by sv (Login email password meta fresh) (se_user t) s"
proof -
  obtain a where "findByEmail s (trim (to_lower (coalesce email []))) = Some a" "ac_active a" "se_user t = ac_id a"
    "sv_compare sv (coalesce password []) (ac_passwordHash a)"
    using assms
    by (auto simp: loginUser_def Let_def dest: open_session_Some split: sum.splits option.splits if_splits prod.splits)
  then show ?thesis using findByEmail_Some [of s _ a] by (intro admitted_byI [of a]) simp_all
qed

lemma enroll_success:
  assumes "enrollAgent sv token meta fresh now s = (Success t, s')"
  shows "admitted_by sv (Enroll token meta fresh) (se_user t) s"
proof -
  obtain i a where a: "findAccount s i = Some a" "verifyEnrollmentToken sv token = Some (i, ac_enrollVersion a)"
    "ac_active a" "se_user t = ac_id a"
    using assms
    by (auto simp: enrollAgent_def dest: open_session_Some split: option.splits if_splits prod.splits)
  then show ?thesis using findAccount_Some [OF a(1)] by (intro admitted_byI [of a]) simp_all
qed

lemma refresh_rotates:
  assumes "refreshSession sv raw meta fresh fault now s = (Success t, s')"
  obtains a e z where "findAccount s (ac_id a) = Some a" "ac_active a" "se_user t = ac_id a"
    "rotateToken (sv_hash sv) (sv_ttl sv) (the raw) meta fresh fault now (as_tokens s)
       = (NewSession (ac_id a) (se_refresh t) e, z)"
proof -
  obtain out z where r: "rotateToken (sv_hash sv) (sv_ttl sv) (the raw) meta fresh fault now (as_tokens s) = (out, z)"
    by (rule prod.exhaust)
  have same: "findAccount (s\<lparr>as_tokens := z\<rparr>) i = findAccount s i" for i by (simp add: findAccount_def)
  obtain u token e where out: "out = NewSession u token e"
    using assms r by (cases out) (auto simp: refreshSession_def Let_def split: if_splits)
  then obtain a where a: "findAccount s u = Some a" "ac_active a" "se_user t = ac_id a" "se_refresh t = token"
    using assms r same by (auto simp: refreshSession_def Let_def split: if_splits option.splits)
  have "ac_id a = u" using findAccount_Some [OF a(1)] by simp
  then show thesis using that [of a e z] a r out by simp
qed

lemma refresh_success:
  assumes "refreshSession sv raw meta fresh fault now s = (Success t, s')" "tokens_ok (as_tokens s)"
  shows "admitted_by sv (Refresh raw meta fresh fault) (se_user t) s"
proof (rule refresh_rotates [OF assms(1)])
  fix a e z
  assume a: "findAccount s (ac_id a) = Some a" "ac_active a" "se_user t = ac_id a"
    and r: "rotateToken (sv_hash sv) (sv_ttl sv) (the raw) meta fresh fault now (as_tokens s)
       = (NewSession (ac_id a) (se_refresh t) e, z)"
  show ?thesis
    using a findAccount_Some [OF a(1)] rotate_owner [OF assms(2) r] by (intro admitted_byI [of a]) simp_all
qed

lemma change_success:
  assumes "changePassword sv me cur new out meta fresh now s = (Success t, s')"
  shows "admitted_by sv (ChangePassword me cur new out meta fresh) (se_user t) s"
proof -
  obtain a where a: "findAccount s me = Some a" "ac_active a" "se_user t = ac_id a"
    "sv_compare sv (coalesce cur []) (ac_passwordHash a)"
    using assms
    by (auto simp: changePassword_def Let_def dest: open_session_Some split: option.splits if_splits prod.splits)
  then show ?thesis using findAccount_Some [OF a(1)] by (intro admitted_byI [of a]) simp_all
qed

text \<open>C24: Only entitled people get in. Whatever the request, a session is handed out only to an account
  that exists, is active and not deleted at that moment, and that the request is entitled to: the
  right password, the enrolment token of its current version, or a refresh token it owns.\<close>

theorem only_entitled_people_get_in:
  assumes "access_step sv now op s = (Some t, s')" "tokens_ok (as_tokens s)"
  shows "\<exists>a \<in> set (as_users s). ac_id a = se_user t \<and> ac_active a \<and> \<not> ac_deleted a \<and> entitled sv op a s"
proof -
  have "admitted_by sv op (se_user t) s"
    using assms by (cases op) (simp_all add: handed_Some login_success refresh_success enroll_success change_success)
  then show ?thesis by (simp add: admitted_by_def list_ex_iff)
qed

section \<open>Blocking ends every session\<close>

lemma agentActivated_tokens [simp]: "as_tokens (agentActivated i now s) = as_tokens s"
  by (simp add: agentActivated_def markAgentActivatedIfFirst_def split: prod.splits)

lemma update_account_tokens [simp]: "as_tokens (update_account i f s) = as_tokens s"
  by (simp add: update_account_def)

lemma bump_tokens [simp]: "as_tokens (bumpEnrollVersion i s) = as_tokens s"
  by (simp add: bumpEnrollVersion_def)

lemma login_failed_tokens [simp]: "as_tokens (login_failed sv address ip now s) = as_tokens s"
  by (simp add: login_failed_def)

lemma open_session_tokens:
  "as_tokens (snd (open_session sv u meta fresh now s))
     = snd (issueToken (sv_hash sv) (sv_ttl sv) (ac_id u) meta fresh now (as_tokens s))"
  "fst (open_session sv u meta fresh now s) = None \<Longrightarrow> as_tokens (snd (open_session sv u meta fresh now s)) = as_tokens s"
  by (auto simp: open_session_def issueToken_def split: prod.splits option.splits)

text \<open>\<open>opens v z z'\<close>: the tokens are unchanged but for at most one new session of \<open>v\<close>.\<close>

definition opens :: "uid \<Rightarrow> token_store \<Rightarrow> token_store \<Rightarrow> bool" where
  "opens v z z' \<longleftrightarrow> (\<exists>hash ttl meta raw now. z' = snd (issueToken hash ttl v meta raw now z))"

lemma opened:
  "open_session sv u meta fresh now s = (Some t, s') \<Longrightarrow> se_user t = ac_id u \<and> opens (ac_id u) (as_tokens s) (as_tokens s')"
  using open_session_tokens(1) [of sv u meta fresh now s] open_session_Some [of sv u meta fresh now s t s']
  unfolding opens_def snd_conv by (simp only: snd_conv) blast

lemma not_opened: "open_session sv u meta fresh now s = (None, s') \<Longrightarrow> as_tokens s' = as_tokens s"
  using open_session_tokens(2) [of sv u meta fresh now s] by simp

lemma login_tokens:
  "loginUser sv email password meta fresh now s = (out, s') \<Longrightarrow>
     as_tokens s' = as_tokens s \<or> (\<exists>t. out = Success t \<and> opens (se_user t) (as_tokens s) (as_tokens s'))"
  by (auto simp: loginUser_def Let_def dest!: opened not_opened split: sum.splits option.splits if_splits prod.splits)

lemma enroll_tokens:
  "enrollAgent sv token meta fresh now s = (out, s') \<Longrightarrow>
     as_tokens s' = as_tokens s \<or> (\<exists>t. out = Success t \<and> opens (se_user t) (as_tokens s) (as_tokens s'))"
  by (auto simp: enrollAgent_def dest!: opened not_opened split: option.splits if_splits prod.splits)

lemma change_tokens:
  assumes "changePassword sv me cur new out meta fresh now s = (res, s')"
  shows "\<exists>z. (z = as_tokens s \<or> (\<exists>v. z = revokeAllForUser v now (as_tokens s)))
    \<and> (as_tokens s' = z \<or> (\<exists>t. res = Success t \<and> opens (se_user t) z (as_tokens s')))"
  using assms
  by (auto simp: changePassword_def Let_def dest!: opened not_opened split: option.splits if_splits prod.splits)

lemma refresh_tokens:
  "refreshSession sv raw meta fresh fault now s = (out, s') \<Longrightarrow>
     as_tokens s' = as_tokens s
     \<or> as_tokens s' = snd (rotateToken (sv_hash sv) (sv_ttl sv) (the raw) meta fresh fault now (as_tokens s))"
  by (auto simp: refreshSession_def Let_def split: if_splits prod.splits rotate_outcome.splits option.splits)

lemma access_changed_tokens:
  "as_tokens (onAccessChanged e now s) = as_tokens s
   \<or> as_tokens (onAccessChanged e now s) = revokeAllForUser (ev_userId e) now (as_tokens s)"
  by (simp add: onAccessChanged_def)

lemma admin_tokens:
  "as_tokens (snd (setUserStatus me i active now s)) \<in> {as_tokens s, revokeAllForUser i now (as_tokens s)}"
  "as_tokens (snd (setUserPassword sv me i new out now s)) \<in> {as_tokens s, revokeAllForUser i now (as_tokens s)}"
  "as_tokens (snd (deleteUser me i now s)) \<in> {as_tokens s, revokeAllForUser i now (as_tokens s)}"
  by (auto simp: setUserStatus_def setUserPassword_def deleteUser_def onAccessChanged_def Let_def
      split: sum.splits)

text \<open>Kept by every operation on the tokens but a new session of \<open>u\<close>.\<close>

definition shut_out :: "uid \<Rightarrow> int \<Rightarrow> token_store \<Rightarrow> bool" where
  "shut_out u T z \<longleftrightarrow> tokens_ok z \<and> signed_out u T z"

lemma shut_out_same: "shut_out u T z \<Longrightarrow> tokens_ok z' \<Longrightarrow> user_rows u z' = user_rows u z \<Longrightarrow> shut_out u T z'"
  by (simp add: shut_out_def signed_out_def)

lemma shut_out_where: "shut_out u T z \<Longrightarrow> shut_out u T (revoke_where P now z)"
  by (rule shut_out_same [of u T z]) (simp_all add: shut_out_def revoke_where_ok user_rows_revoked [of u T])

lemma shut_out_revoked: "shut_out u T z \<Longrightarrow> shut_out u T (revokeAllForUser v now z)"
  "shut_out u T z \<Longrightarrow> shut_out u T (revokeToken hash raw now z)"
  "shut_out u T z \<Longrightarrow> shut_out u T (revokeAgentSessions v now z)"
  by (simp_all add: revokeAllForUser_def revokeToken_def revokeAgentSessions_def shut_out_where)

lemma shut_out_opens: "shut_out u T z \<Longrightarrow> opens v z z' \<Longrightarrow> v \<noteq> u \<Longrightarrow> shut_out u T z'"
  unfolding opens_def by (elim exE, rule shut_out_same [of u T z]) (auto simp: shut_out_def user_rows_issued issue_ok)

lemma shut_out_step:
  "shut_out u T z \<Longrightarrow> T \<le> now \<Longrightarrow> \<not> signs_in u op \<Longrightarrow> shut_out u T (token_step hash ttl now op z)"
  by (simp add: shut_out_def signed_out_step token_step_ok)

lemma admin_shut_out:
  assumes "shut_out u T (as_tokens s)" "as_tokens s' \<in> {as_tokens s, revokeAllForUser i now (as_tokens s)}"
  shows "shut_out u T (as_tokens s')"
  using assms shut_out_revoked(1) by auto

text \<open>Only a sign-in of the person themselves lifts the ban; refreshing does not.\<close>

definition is_refresh :: "access_op \<Rightarrow> bool" where
  "is_refresh op = (case op of Refresh raw meta fresh fault \<Rightarrow> True | _ \<Rightarrow> False)"

lemma refresh_shut_out:
  assumes "shut_out u T (as_tokens s)" "T \<le> now" "refreshSession sv raw meta fresh fault now s = (out, s')"
  shows "shut_out u T (as_tokens s') \<and> (out = Success t \<longrightarrow> se_user t \<noteq> u)"
proof
  have step: "shut_out u T (snd (rotateToken (sv_hash sv) (sv_ttl sv) (the raw) meta fresh fault now (as_tokens s)))"
    using shut_out_step [OF assms(1,2), of "Rotate (the raw) meta fresh fault"] by (simp add: signs_in_def)
  from refresh_tokens [OF assms(3)] show "shut_out u T (as_tokens s')"
  proof
    assume "as_tokens s' = as_tokens s"
    then show ?thesis using assms(1) by (simp only:)
  next
    assume "as_tokens s' = snd (rotateToken (sv_hash sv) (sv_ttl sv) (the raw) meta fresh fault now (as_tokens s))"
    then show ?thesis using step by (simp only:)
  qed
  show "out = Success t \<longrightarrow> se_user t \<noteq> u"
  proof
    assume "out = Success t"
    then have got: "refreshSession sv raw meta fresh fault now s = (Success t, s')" using assms(3) by (simp only:)
    show "se_user t \<noteq> u"
    proof (rule refresh_rotates [OF got])
      fix a e z
      assume a: "se_user t = ac_id a"
        and r: "rotateToken (sv_hash sv) (sv_ttl sv) (the raw) meta fresh fault now (as_tokens s)
          = (NewSession (ac_id a) (se_refresh t) e, z)"
      show "se_user t \<noteq> u"
      proof
        assume "se_user t = u"
        then show False
          using rotate_signed_out [of "as_tokens s" u T now, of "sv_hash sv" "sv_ttl sv" "the raw" meta fresh fault]
            assms(1,2) a r by (auto simp: shut_out_def)
      qed
    qed
  qed
qed

lemma opened_shut_out:
  assumes "shut_out u T z" "z' = z \<or> (\<exists>t. out = Success t \<and> opens (se_user t) z z')"
    "\<And>t. out = Success t \<Longrightarrow> se_user t \<noteq> u"
  shows "shut_out u T z'"
  using assms shut_out_opens by blast

lemma access_shut_out:
  assumes "shut_out u T (as_tokens s)" "T \<le> now" "access_step sv now op s = (got, s')"
    "\<And>t. got = Some t \<Longrightarrow> \<not> is_refresh op \<Longrightarrow> se_user t \<noteq> u"
  shows "shut_out u T (as_tokens s') \<and> (\<forall>t. got = Some t \<longrightarrow> se_user t \<noteq> u)"
proof (cases op)
  case (Login email password meta fresh)
  obtain out where l: "loginUser sv email password meta fresh now s = (out, s')"
    using assms(3) Login by (cases "loginUser sv email password meta fresh now s"; cases "fst (loginUser sv email password meta fresh now s)") auto
  have "out = Success t \<Longrightarrow> se_user t \<noteq> u" for t
    using assms(3,4) Login l by (simp add: is_refresh_def)
  then show ?thesis
    using opened_shut_out [OF assms(1) login_tokens [OF l]] assms(4) Login by (auto simp: is_refresh_def)
next
  case (Enroll token meta fresh)
  obtain out where l: "enrollAgent sv token meta fresh now s = (out, s')"
    using assms(3) Enroll by (cases "enrollAgent sv token meta fresh now s"; cases "fst (enrollAgent sv token meta fresh now s)") auto
  have "out = Success t \<Longrightarrow> se_user t \<noteq> u" for t
    using assms(3,4) Enroll l by (simp add: is_refresh_def)
  then show ?thesis
    using opened_shut_out [OF assms(1) enroll_tokens [OF l]] assms(4) Enroll by (auto simp: is_refresh_def)
next
  case (ChangePassword me cur new out meta fresh)
  obtain res where l: "changePassword sv me cur new out meta fresh now s = (res, s')"
    using assms(3) ChangePassword
    by (cases "changePassword sv me cur new out meta fresh now s"; cases "fst (changePassword sv me cur new out meta fresh now s)") auto
  have ok: "res = Success t \<Longrightarrow> se_user t \<noteq> u" for t
    using assms(3,4) ChangePassword l by (simp add: is_refresh_def)
  obtain z where "shut_out u T z" "as_tokens s' = z \<or> (\<exists>t. res = Success t \<and> opens (se_user t) z (as_tokens s'))"
    using change_tokens [OF l] assms(1) shut_out_revoked(1) by blast
  then show ?thesis
    using opened_shut_out [of u T z _ res] ok assms(4) ChangePassword by (auto simp: is_refresh_def)
next
  case (Refresh raw meta fresh fault)
  obtain out where l: "refreshSession sv raw meta fresh fault now s = (out, s')"
    using assms(3) Refresh by (cases "refreshSession sv raw meta fresh fault now s"; cases "fst (refreshSession sv raw meta fresh fault now s)") auto
  have "got = Some t \<Longrightarrow> out = Success t" for t
    using assms(3) Refresh l by (cases out) auto
  then show ?thesis using refresh_shut_out [OF assms(1,2) l] by blast
next
  case (Logout raw)
  then show ?thesis using assms(1,3) shut_out_revoked(2) by (auto simp: logoutUser_def)
next
  case (SetStatus me i active)
  then show ?thesis using assms(3) admin_shut_out [OF assms(1) admin_tokens(1)] by auto
next
  case (SetPassword me i new out)
  then show ?thesis using assms(3) admin_shut_out [OF assms(1) admin_tokens(2)] by auto
next
  case (DeleteUser me i)
  then show ?thesis using assms(3) admin_shut_out [OF assms(1) admin_tokens(3)] by auto
next
  case (SignOutAgent i)
  then show ?thesis using assms(1,3) shut_out_revoked(3) by auto
next
  case SweepTokens
  then show ?thesis using assms(1-3) shut_out_step [OF assms(1,2), of Sweep] by (auto simp: signs_in_def)
next
  case ProcessRestart
  then show ?thesis using assms(1-3) shut_out_step [OF assms(1,2), of Restart] by (auto simp: signs_in_def)
qed

lemma snd_handed [simp]: "snd (handed r) = snd r"
  by (cases r; cases "fst r") auto

lemma opens_ok: "opens v z z' \<Longrightarrow> tokens_ok z \<Longrightarrow> tokens_ok z'"
  by (auto simp: opens_def issue_ok)

lemma revoked_ok:
  "tokens_ok z \<Longrightarrow> tokens_ok (revokeAllForUser v now z)"
  "tokens_ok z \<Longrightarrow> tokens_ok (revokeToken hash raw now z)"
  "tokens_ok z \<Longrightarrow> tokens_ok (revokeAgentSessions v now z)"
  by (simp_all add: revokeAllForUser_def revokeToken_def revokeAgentSessions_def revoke_where_ok)

lemma access_step_ok:
  assumes "tokens_ok (as_tokens s)"
  shows "tokens_ok (as_tokens (snd (access_step sv now op s)))"
proof (cases op)
  case (Login email password meta fresh)
  obtain res s1 where l: "loginUser sv email password meta fresh now s = (res, s1)" by (rule prod.exhaust)
  show ?thesis
    using Login assms opens_ok login_tokens [OF l] l by auto
next
  case (Enroll token meta fresh)
  obtain res s1 where l: "enrollAgent sv token meta fresh now s = (res, s1)" by (rule prod.exhaust)
  show ?thesis
    using Enroll assms opens_ok enroll_tokens [OF l] l by auto
next
  case (ChangePassword me cur new out meta fresh)
  obtain res s1 where l: "changePassword sv me cur new out meta fresh now s = (res, s1)" by (rule prod.exhaust)
  show ?thesis
    using ChangePassword assms opens_ok revoked_ok(1) change_tokens [OF l] l
    by auto
next
  case (Refresh raw meta fresh fault)
  obtain res s1 where l: "refreshSession sv raw meta fresh fault now s = (res, s1)" by (rule prod.exhaust)
  show ?thesis
    using Refresh assms rotate_ok refresh_tokens [OF l] l by auto
next
  case (SetStatus me i active)
  then show ?thesis using assms revoked_ok(1) admin_tokens(1) [where s = s and me = me and i = i and active = active and now = now] by auto
next
  case (SetPassword me i new out)
  then show ?thesis using assms revoked_ok(1) admin_tokens(2) [where s = s and sv = sv and me = me and i = i and new = new and out = out and now = now] by auto
next
  case (DeleteUser me i)
  then show ?thesis using assms revoked_ok(1) admin_tokens(3) [where s = s and me = me and i = i and now = now] by auto
qed (use assms revoked_ok token_step_ok [of _ _ _ now Sweep] token_step_ok [of _ _ _ now Restart] in
     \<open>auto simp: logoutUser_def\<close>)

lemma access_run_ok: "tokens_ok (as_tokens s) \<Longrightarrow> tokens_ok (as_tokens (access_run sv h s))"
  by (induction sv h s rule: access_run.induct) (simp_all add: access_step_ok)

lemma shut_out_log:
  assumes "shut_out u T (as_tokens s)" "timed_from T h"
    "\<forall>(op, v) \<in> set (access_log sv h s). v = u \<longrightarrow> is_refresh op"
  shows "\<forall>(op, v) \<in> set (access_log sv h s). v \<noteq> u"
  using assms
proof (induction h arbitrary: s)
  case Nil
  then show ?case by simp
next
  case (Cons p h)
  obtain now op where p: "p = (now, op)" by fastforce
  obtain got s' where step: "access_step sv now op s = (got, s')" by fastforce
  have time: "T \<le> now" "timed_from T h" using Cons.prems(2) p by (auto, cases h, auto)
  have "got = Some t \<Longrightarrow> \<not> is_refresh op \<Longrightarrow> se_user t \<noteq> u" for t
    using Cons.prems(3) p step by auto
  note kept = access_shut_out [OF Cons.prems(1) time(1) step this]
  have "\<forall>(op, v) \<in> set (access_log sv h s'). v = u \<longrightarrow> is_refresh op"
    using Cons.prems(3) p step by (cases got) auto
  then have "\<forall>(op, v) \<in> set (access_log sv h s'). v \<noteq> u"
    using Cons.IH [of s'] kept time(2) by blast
  then show ?case using p step kept by (cases got) auto
qed

text \<open>The requests of an administrator that shut a person out: blocking them, deleting them, or
  setting their password with "sign out everywhere".\<close>

fun shuts :: "auth_services \<Rightarrow> int \<Rightarrow> access_op \<Rightarrow> uid \<Rightarrow> auth_state \<Rightarrow> bool" where
  "shuts sv now (SetStatus me i active) u s =
     (i = u \<and> \<not> active \<and> fst (setUserStatus me i active now s) = Success u
      \<and> (case findAccount s u of None \<Rightarrow> False | Some a \<Rightarrow> ac_active a))"
| "shuts sv now (SetPassword me i new out) u s = (i = u \<and> out \<and> fst (setUserPassword sv me i new out now s) = Success u)"
| "shuts sv now (DeleteUser me i) u s = (i = u \<and> fst (deleteUser me i now s) = Success u)"
| "shuts sv now _ u s = False"

lemma editable_Inr: "editable_account me s i = Inr a \<Longrightarrow> findAccount s i = Some a"
  by (auto simp: editable_account_def split: option.splits sum.splits)

lemma shuts_revokes: "shuts sv now op u s \<Longrightarrow> as_tokens (snd (access_step sv now op s)) = revokeAllForUser u now (as_tokens s)"
  by (cases op)
     (auto simp: setUserStatus_def setUserPassword_def deleteUser_def onAccessChanged_def Let_def
       dest: editable_Inr split: sum.splits if_splits option.splits)

text \<open>C6: Shutting someone out ends every session they have. After any history of sign-ins, refreshes,
  enrolments, password changes and administration, let an administrator block or delete a person, or
  reset their password signing them out everywhere, none of their tokens having been exchanged in the
  30 seconds before; then, whatever happens next (unblocking included), none of their refresh tokens
  gets them a session again until they sign in, enrol or change their password.\<close>

theorem shutting_out_ends_every_session:
  assumes "as_tokens s0 = empty_store" "s = access_run sv before s0" "shuts sv T op u s"
    and "no_recent_exchange u T (as_tokens s)" "timed_from T later"
    and "\<forall>(r, v) \<in> set (access_log sv later (snd (access_step sv T op s))). v = u \<longrightarrow> is_refresh r"
  shows "\<forall>(r, v) \<in> set (access_log sv later (snd (access_step sv T op s))). v \<noteq> u"
proof (rule shut_out_log [OF _ assms(5,6)])
  have "tokens_ok (as_tokens s)" unfolding assms(2) by (rule access_run_ok) (simp add: assms(1) empty_store_ok)
  then show "shut_out u T (as_tokens (snd (access_step sv T op s)))"
    unfolding shuts_revokes [OF assms(3)] shut_out_def
    by (simp add: revoked_ok(1) revoked_all [OF assms(4)])
qed

definition plain_services :: auth_services where
  "plain_services = \<lparr>sv_compare = (\<lambda>p h. p = h), sv_hashPassword = id, sv_sign = (\<lambda>i e r. e), sv_verify = (\<lambda>t. None),
     sv_hash = id, sv_ttl = 1000000,
     sv_env = \<lparr>LOGIN_FAILED_PER_IP_MAX = None, LOGIN_FAILED_PER_IP_WINDOW_MIN = None\<rparr>\<rparr>"

definition one_account :: auth_state where
  "one_account = \<lparr>as_users = [\<lparr>ac_id = 7, ac_email = ''p'', ac_passwordHash = ''s'', ac_role = USER, ac_companyId = Some 1,
       ac_departmentId = None, ac_managerId = None, ac_active = True, ac_deleted = False, ac_enrollVersion = 1,
       ac_agentActivatedAt = None\<rparr>],
     as_tokens = empty_store, as_attempts = [], as_addresses = [], as_activations = []\<rparr>"

definition org_admin :: auth_user where
  "org_admin = \<lparr>u_id = 2, u_role = ADMIN, u_permissions = [], u_companyId = Some 1, u_orgId = Some 1,
     u_orgHeaderInvalid = False, u_orgDeleted = False, u_departmentId = None, u_managedDepartmentIds = [], u_grants = None\<rparr>"

lemma plain_address: "trim (to_lower ''p'') = ''p''"
  by (simp add: trim_def to_lower_def lower_char_def is_space_def)

definition signed_in_state :: auth_state where
  "signed_in_state = access_run plain_services [(0, Login (Some ''p'') (Some ''s'') browser ''a'')] one_account"

lemma signed_in_rows:
  "as_tokens signed_in_state = \<lparr>st_tokens = [\<lparr>rt_id = 0, rt_userId = 7, rt_tokenHash = ''a'', rt_expiresAt = 1000000,
     rt_revokedAt = None, rt_replacedById = None, rt_userAgent = None, rt_ip = Some ''1'', rt_createdAt = 0\<rparr>],
     st_holds = [], st_next = 1\<rparr>"
  "as_users signed_in_state = as_users one_account"
  by (simp_all add: signed_in_state_def loginUser_def one_account_def plain_address assertAllowed_def findByEmail_def
      blockedForMin_def plain_services_def open_session_def issueToken_def create_token_def find_hash_def
      empty_store_def browser_def agent_meta_def Let_def)

lemma blocked_example:
  "shuts plain_services 60000 (SetStatus org_admin 7 False) 7 signed_in_state"
  "no_recent_exchange 7 60000 (as_tokens signed_in_state)"
  by (simp_all add: setUserStatus_def editable_account_def findAccount_def signed_in_rows one_account_def
      assertCanEdit_def canSeePerson_def canEditPerson_def account_facts_def org_admin_def inMyOrg_def orgOf_def
      no_recent_exchange_def user_rows_def seesEveryOrg_def seesWholeOrg_def isAdminLike_def)

lemma blocked_refresh:
  "access_log plain_services [(61000, Refresh (Some ''a'') browser ''b'' NoFault)]
     (snd (access_step plain_services 60000 (SetStatus org_admin 7 False) signed_in_state)) = []"
  using shuts_revokes [OF blocked_example(1)]
  by (simp add: refreshSession_def signed_in_rows plain_services_def token_ops_defs Let_def
      split: option.splits prod.splits)

theorem shutting_out_ends_every_session_witness:
  "shuts plain_services 60000 (SetStatus org_admin 7 False) 7 signed_in_state
   \<and> list_all (\<lambda>(r, v). v \<noteq> 7) (access_log plain_services [(61000, Refresh (Some ''a'') browser ''b'' NoFault)]
        (snd (access_step plain_services 60000 (SetStatus org_admin 7 False) signed_in_state)))"
proof (rule conjI [OF blocked_example(1)])
  have "\<forall>(r, v) \<in> set (access_log plain_services [(61000, Refresh (Some ''a'') browser ''b'' NoFault)]
      (snd (access_step plain_services 60000 (SetStatus org_admin 7 False) signed_in_state))). v \<noteq> 7"
    by (rule shutting_out_ends_every_session [OF _ signed_in_state_def blocked_example])
       (unfold blocked_refresh, simp_all add: one_account_def)
  then show "list_all (\<lambda>(r, v). v \<noteq> 7) (access_log plain_services [(61000, Refresh (Some ''a'') browser ''b'' NoFault)]
      (snd (access_step plain_services 60000 (SetStatus org_admin 7 False) signed_in_state)))"
    by (simp only: list_all_iff)
qed

theorem only_entitled_people_get_in_witness:
  "\<exists>a \<in> set (as_users one_account). ac_id a = 7 \<and> ac_active a \<and> \<not> ac_deleted a
     \<and> entitled plain_services (Login (Some ''p'') (Some ''s'') browser ''a'') a one_account"
proof -
  have "access_step plain_services 0 (Login (Some ''p'') (Some ''s'') browser ''a'') one_account
      = (Some \<lparr>se_user = 7, se_access = ''p'', se_refresh = ''a''\<rparr>, signed_in_state)"
    by (simp add: signed_in_state_def loginUser_def one_account_def plain_address assertAllowed_def findByEmail_def
        blockedForMin_def plain_services_def open_session_def issueToken_def create_token_def find_hash_def
        empty_store_def browser_def agent_meta_def Let_def)
  from only_entitled_people_get_in [OF this] show ?thesis by (simp add: one_account_def empty_store_ok)
qed

section \<open>Spraying\<close>

text \<open>A sign-in whose password was checked and found wrong, or whose address has no account.\<close>

definition wrong_guess :: "auth_services \<Rightarrow> string option \<Rightarrow> string option \<Rightarrow> refresh_meta \<Rightarrow> int \<Rightarrow> auth_state \<Rightarrow> bool" where
  "wrong_guess sv email password meta now s =
     (let address = trim (to_lower (coalesce email [])); user = findByEmail s address
      in assertAllowed (as_attempts s) (Some address) now = return ()
         \<and> (blockedForMin (limits_of sv) (as_addresses s) (rm_ip meta) now = 0 \<or> known_from s user (rm_ip meta) now)
         \<and> (case user of None \<Rightarrow> True | Some u \<Rightarrow> \<not> sv_compare sv (coalesce password []) (ac_passwordHash u)))"

text \<open>... of an account that did not sign in from the client address in the last 30 days.\<close>

definition stranger_guess :: "auth_services \<Rightarrow> string option \<Rightarrow> string option \<Rightarrow> refresh_meta \<Rightarrow> int \<Rightarrow> auth_state \<Rightarrow> bool" where
  "stranger_guess sv email password meta now s =
     (wrong_guess sv email password meta now s
      \<and> \<not> known_from s (findByEmail s (trim (to_lower (coalesce email [])))) (rm_ip meta) now)"

fun log_guess :: "auth_services \<Rightarrow> int \<Rightarrow> access_op \<Rightarrow> auth_state \<Rightarrow> (string \<Rightarrow> int list) \<Rightarrow> string \<Rightarrow> int list" where
  "log_guess sv now (Login email password meta fresh) s G =
     (case rm_ip meta of
        None \<Rightarrow> G
      | Some ip \<Rightarrow> if ip \<noteq> [] \<and> stranger_guess sv email password meta now s then G(ip := G ip @ [now]) else G)"
| "log_guess sv now _ s G = G"

inductive sign_in_history :: "auth_services \<Rightarrow> auth_state \<Rightarrow> (string \<Rightarrow> int list) \<Rightarrow> int \<Rightarrow> bool"
  for sv :: auth_services where
  history_start: "as_addresses s = [] \<Longrightarrow> sign_in_history sv s (\<lambda>_. []) now"
| history_step:
    "sign_in_history sv s G c \<Longrightarrow> c \<le> now \<Longrightarrow> op \<noteq> ProcessRestart \<Longrightarrow> s' = snd (access_step sv now op s)
     \<Longrightarrow> sign_in_history sv s' (log_guess sv now op s G) now"

lemma unit_result: "(r :: unit result) = return () \<longleftrightarrow> (\<exists>x. r = Inr x)"
  by auto

lemma blocked_nonneg: "0 < blockedForMin lims a ip now \<longleftrightarrow> blockedForMin lims a ip now \<noteq> 0"
  using blockedForMin_nonneg [of lims a ip now] by auto

lemma agentActivated_addresses [simp]: "as_addresses (agentActivated i now s) = as_addresses s"
  by (simp add: agentActivated_def markAgentActivatedIfFirst_def split: prod.splits)

lemma open_session_addresses: "open_session sv u meta fresh now s = (o', s') \<Longrightarrow> as_addresses s' = as_addresses s"
  by (auto simp: open_session_def split: prod.splits)

lemma login_addresses:
  "as_addresses (snd (loginUser sv email password meta fresh now s)) =
     (if wrong_guess sv email password meta now s
      then recordAddressFailure (limits_of sv) (as_addresses s) (rm_ip meta) now else as_addresses s)"
proof (cases "assertAllowed (as_attempts s) (Some (trim (to_lower (coalesce email [])))) now")
  case (Inl e)
  then show ?thesis by (simp add: loginUser_def wrong_guess_def)
next
  case (Inr x)
  let ?user = "findByEmail s (trim (to_lower (coalesce email [])))"
  let ?b = "blockedForMin (limits_of sv) (as_addresses s) (rm_ip meta) now"
  have zero: "?b = 0 \<longleftrightarrow> \<not> 0 < ?b" using blocked_nonneg by blast
  show ?thesis
  proof (cases "0 < ?b \<and> \<not> known_from s ?user (rm_ip meta) now")
    case True
    then show ?thesis using Inr by (simp add: loginUser_def wrong_guess_def Let_def)
  next
    case False
    then have tried: "?b = 0 \<or> known_from s ?user (rm_ip meta) now" using zero by blast
    show ?thesis
    proof (cases ?user)
      case None
      then show ?thesis using Inr tried by (simp add: loginUser_def wrong_guess_def login_failed_def Let_def known_from_def)
    next
      case (Some u)
      show ?thesis
      proof (cases "sv_compare sv (coalesce password []) (ac_passwordHash u)")
        case True
        obtain got s2 where o: "open_session sv u meta fresh now
            (s\<lparr>as_attempts := recordSuccess (as_attempts s) (Some (trim (to_lower (coalesce email []))))\<rparr>) = (got, s2)"
          by (rule prod.exhaust)
        from open_session_addresses [OF o] show ?thesis
          using Inr Some True False o by (cases got) (simp_all add: loginUser_def wrong_guess_def Let_def)
      next
        case wrong: False
        then show ?thesis
          using Inr Some False tried by (auto simp: loginUser_def wrong_guess_def login_failed_def Let_def)
      qed
    qed
  qed
qed

lemma other_addresses:
  "as_addresses (snd (refreshSession sv raw meta fresh fault now s)) = as_addresses s"
  "as_addresses (snd (enrollAgent sv token meta fresh now s)) = as_addresses s"
  "as_addresses (snd (changePassword sv me cur new out meta fresh now s)) = as_addresses s"
  "as_addresses (logoutUser sv raw now s) = as_addresses s"
  by (auto simp: refreshSession_def enrollAgent_def changePassword_def logoutUser_def update_account_def Let_def
      dest: open_session_addresses split: option.splits prod.splits if_splits rotate_outcome.splits)

lemma admin_addresses:
  "as_addresses (snd (setUserStatus me i active now s)) = as_addresses s"
  "as_addresses (snd (setUserPassword sv me i new out now s)) = as_addresses s"
  "as_addresses (snd (deleteUser me i now s)) = as_addresses s"
  "as_addresses (bumpEnrollVersion i s) = as_addresses s"
  by (auto simp: setUserStatus_def setUserPassword_def deleteUser_def onAccessChanged_def update_account_def
      bumpEnrollVersion_def Let_def split: sum.splits)

lemma access_addresses:
  assumes "op \<noteq> ProcessRestart"
  shows "as_addresses (snd (access_step sv now op s)) =
    (case op of
       Login email password meta fresh \<Rightarrow>
         (if wrong_guess sv email password meta now s
          then recordAddressFailure (limits_of sv) (as_addresses s) (rm_ip meta) now else as_addresses s)
     | _ \<Rightarrow> as_addresses s)"
  using assms
  by (cases op) (simp_all add: login_addresses other_addresses admin_addresses)

definition failed_guesses_ok :: "auth_services \<Rightarrow> (string \<Rightarrow> int list) \<Rightarrow> int \<Rightarrow> address_failures \<Rightarrow> bool" where
  "failed_guesses_ok sv G c a \<longleftrightarrow>
     (\<exists>H. address_tracks (limits_of sv) H c a
        \<and> (\<forall>ip. mset (G ip) \<subseteq># mset (H ip)
             \<and> spaced (nat (maxFailures (limits_of sv))) (windowMs (limits_of sv)) (G ip)))"

lemma failed_guess_step:
  assumes "failed_guesses_ok sv G c a" "c \<le> now" "ip \<noteq> []"
    "stranger \<Longrightarrow> blockedForMin (limits_of sv) a (Some ip) now = 0"
  shows "failed_guesses_ok sv (if stranger then G(ip := G ip @ [now]) else G) now
           (recordAddressFailure (limits_of sv) a (Some ip) now)"
proof -
  obtain H where H: "address_tracks (limits_of sv) H c a"
    and G: "\<And>ip. mset (G ip) \<subseteq># mset (H ip)"
      "\<And>ip. spaced (nat (maxFailures (limits_of sv))) (windowMs (limits_of sv)) (G ip)"
    using assms(1) by (auto simp: failed_guesses_ok_def)
  let ?H = "H(ip := H ip @ [now])"
  have tracks: "address_tracks (limits_of sv) ?H now (recordAddressFailure (limits_of sv) a (Some ip) now)"
    using by_address.tracks_miss [of "sv_env sv" H c a now ip] H assms(2,3) by (simp add: limits_of_def)
  have grown: "mset (G ip) \<subseteq># add_mset now (mset (H ip))"
    by (rule subset_mset.order_trans [OF G(1)]) simp
  have snoc: "stranger \<Longrightarrow> spaced (nat (maxFailures (limits_of sv))) (windowMs (limits_of sv)) (G ip @ [now])"
    using by_address.admitted_spaced [of "sv_env sv" H c a now ip "G ip"] H G assms(2,4) by (simp add: limits_of_def)
  show ?thesis
    unfolding failed_guesses_ok_def
    by (rule exI [of _ ?H]) (use tracks grown snoc G in auto)
qed

lemma failed_guesses_later: "failed_guesses_ok sv G c a \<Longrightarrow> c \<le> now \<Longrightarrow> failed_guesses_ok sv G now a"
  unfolding failed_guesses_ok_def by (meson address_later)

lemma history_ok: "sign_in_history sv s G c \<Longrightarrow> failed_guesses_ok sv G c (as_addresses s)"
proof (induction rule: sign_in_history.induct)
  case (history_start s now)
  then show ?case using no_failures_tracked by (fastforce simp: failed_guesses_ok_def)
next
  case (history_step s G c now op s')
  note kept = failed_guesses_later [OF history_step.IH history_step.hyps(2)]
  show ?case
  proof (cases op)
    case (Login email password meta fresh)
    show ?thesis
    proof (cases "wrong_guess sv email password meta now s \<and> rm_ip meta \<noteq> None \<and> rm_ip meta \<noteq> Some []")
      case True
      then obtain ip where ip: "rm_ip meta = Some ip" "ip \<noteq> []" by auto
      have "stranger_guess sv email password meta now s \<Longrightarrow> blockedForMin (limits_of sv) (as_addresses s) (Some ip) now = 0"
        using ip by (auto simp: stranger_guess_def wrong_guess_def Let_def)
      from failed_guess_step [OF history_step.IH history_step.hyps(2) ip(2) this] show ?thesis
        using True ip Login history_step.hyps(4) by (simp add: login_addresses)
    next
      case False
      then have "as_addresses s' = as_addresses s" "log_guess sv now op s G = G"
        using Login history_step.hyps(4)
        by (auto simp: login_addresses recordAddressFailure_def stranger_guess_def split: option.splits)
      then show ?thesis using kept by simp
    qed
  qed (use kept history_step.hyps(4) access_addresses [OF history_step.hyps(3), of sv now s] in simp_all)
qed

text \<open>C28: Spraying stops. Over any history between two restarts of administration and of sign-ins that run one after the
  other (none starts before the one ahead of it is answered), the wrong
  passwords tried from one client address at accounts that had not signed in from it number at most
  the configured limit in every stretch of the configured window, however the guesses are spread over
  the accounts. Sign-ins that overlap are not covered: \<open>overlapping_guesses_pass\<close> shows them pass the limit.\<close>

theorem spraying_stops:
  assumes "sign_in_history sv s G now"
  shows "int (length (filter (\<lambda>t. T - windowMs (failedLoginLimits (sv_env sv)) < t \<and> t \<le> T) (G ip)))
    \<le> maxFailures (failedLoginLimits (sv_env sv))"
proof -
  have "spaced (nat (maxFailures (limits_of sv))) (windowMs (limits_of sv)) (G ip)"
    using history_ok [OF assms] by (auto simp: failed_guesses_ok_def)
  then have "length (filter (\<lambda>t. T - windowMs (limits_of sv) < t \<and> t \<le> T) (G ip)) \<le> nat (maxFailures (limits_of sv))"
    by (simp add: spaced_def)
  then show ?thesis using limits_bounds(1) [of "sv_env sv"] by (simp add: limits_of_def le_nat_iff)
qed

lemma still_blocked:
  assumes "address_tracks (failedLoginLimits env) H c a" "c \<le> now"
    "0 < blockedForMin (failedLoginLimits env) a ip now"
  shows "0 < blockedForMin (failedLoginLimits env) (recordAddressFailure (failedLoginLimits env) a ip now) ip now"
proof -
  obtain k where k: "ip = Some k" "k \<noteq> []"
    using assms(3) by (cases ip) (auto simp: blockedForMin_def split: if_splits)
  let ?H = "H(k := H k @ [now])"
  have "address_tracks (failedLoginLimits env) ?H now (recordAddressFailure (failedLoginLimits env) a ip now)"
    using by_address.tracks_miss [OF assms(1,2) k(2)] k(1) by simp
  moreover have "nat (maxFailures (failedLoginLimits env)) \<le> length (recent (windowMs (failedLoginLimits env)) (?H k) now)"
    using by_address.wait_iff [OF assms(1,2), of k] assms(3) k(1) by simp
  ultimately show ?thesis using by_address.wait_iff [of env ?H now _ now k] k(1) by blast
qed

text \<open>A sign-in does not tell addresses apart. For the same attempt against two states with the same
  counters, one where the address has no account and one where it has an account whose password is
  wrong, the answer is the same; and unless the client address is over its limit, so are the counters
  after it.\<close>

theorem sign_in_does_not_tell_addresses_apart:
  assumes "sign_in_history sv s G c" "c \<le> now"
    and "as_attempts s' = as_attempts s" "as_addresses s' = as_addresses s"
    and "findByEmail s (trim (to_lower (coalesce email []))) = None"
    and "findByEmail s' (trim (to_lower (coalesce email []))) = Some u"
    and "\<not> sv_compare sv (coalesce password []) (ac_passwordHash u)"
  shows "fst (loginUser sv email password meta fresh now s) = fst (loginUser sv email password meta fresh now s')
    \<and> (blockedForMin (failedLoginLimits (sv_env sv)) (as_addresses s) (rm_ip meta) now = 0 \<longrightarrow>
        as_attempts (snd (loginUser sv email password meta fresh now s))
          = as_attempts (snd (loginUser sv email password meta fresh now s'))
        \<and> as_addresses (snd (loginUser sv email password meta fresh now s))
          = as_addresses (snd (loginUser sv email password meta fresh now s')))"
proof -
  let ?lims = "failedLoginLimits (sv_env sv)"
  let ?b = "blockedForMin ?lims (as_addresses s) (rm_ip meta) now"
  obtain H where H: "address_tracks ?lims H c (as_addresses s)"
    using history_ok [OF assms(1)] by (auto simp: failed_guesses_ok_def limits_of_def)
  have known: "\<not> known_from s None ip now" for ip by (simp add: known_from_def)
  have still: "0 < ?b \<Longrightarrow> 0 < blockedForMin ?lims (recordAddressFailure ?lims (as_addresses s) (rm_ip meta) now) (rm_ip meta) now"
    by (rule still_blocked [OF H assms(2)])
  show ?thesis
  proof (cases "assertAllowed (as_attempts s) (Some (trim (to_lower (coalesce email [])))) now")
    case (Inl e)
    then show ?thesis using assms(3,4) by (simp add: loginUser_def)
  next
    case (Inr x)
    then show ?thesis
      using assms(3-7) known still
      by (cases "0 < ?b") (simp_all add: loginUser_def Let_def limits_of_def login_failed_def)
  qed
qed

lemma one_guess:
  "sign_in_history plain_services (snd (access_step plain_services 5 (Login (Some ''p'') (Some ''x'') browser ''a'') one_account))
     ((\<lambda>_. []) (''1'' := [5])) 5"
proof -
  have "sign_in_history plain_services one_account (\<lambda>_. []) 0"
    by (rule history_start) (simp add: one_account_def)
  from history_step [OF this, of 5 "Login (Some ''p'') (Some ''x'') browser ''a''", OF _ _ refl]
  show ?thesis
    by (simp add: browser_def stranger_guess_def wrong_guess_def plain_address one_account_def assertAllowed_def
        blockedForMin_def findByEmail_def plain_services_def known_from_def signedInFrom_def empty_store_def)
qed

theorem spraying_stops_witness:
  "sign_in_history plain_services (snd (access_step plain_services 5 (Login (Some ''p'') (Some ''x'') browser ''a'') one_account))
     ((\<lambda>_. []) (''1'' := [5])) 5
   \<and> int (length (filter (\<lambda>t. 5 - windowMs (failedLoginLimits (sv_env plain_services)) < t \<and> t \<le> 5) [5]))
     \<le> maxFailures (failedLoginLimits (sv_env plain_services))"
  using one_guess spraying_stops [OF one_guess, of 5 "''1''"] by simp

theorem sign_in_does_not_tell_addresses_apart_witness:
  "fst (loginUser plain_services (Some ''p'') (Some ''x'') browser ''a'' 5 (one_account\<lparr>as_users := []\<rparr>))
     = fst (loginUser plain_services (Some ''p'') (Some ''x'') browser ''a'' 5 one_account)"
proof -
  have "sign_in_history plain_services (one_account\<lparr>as_users := []\<rparr>) (\<lambda>_. []) 5"
    by (rule history_start) (simp add: one_account_def)
  from sign_in_does_not_tell_addresses_apart [OF this order_refl, of one_account, THEN conjunct1]
  show ?thesis
    by (simp add: one_account_def plain_address findByEmail_def plain_services_def)
qed

end
