(* ===== verification/Wordlist.thy ===== *)
theory Wordlist
  imports Prelude
begin

text \<open>
  The 2048 words sign-out key phrases are made of, \<open>src/src/modules/signout-keys/domain/wordlist.ts\<close>, in
  blocks of the file's lines, and that they are what the file's comment says: distinct words of three
  to eight lowercase letters.
\<close>

definition lower_letter :: "char \<Rightarrow> bool" where
  "lower_letter c = (let n = of_char c :: nat in 97 \<le> n \<and> n \<le> 122)"

definition plain_word :: "string \<Rightarrow> bool" where
  "plain_word w = (3 \<le> length w \<and> length w \<le> 8 \<and> list_all lower_letter w)"

text \<open>
  One pass over a block: its words are plain and in strictly ascending order, the first after \<open>p\<close>;
  the answer is how many words there are so far, and the last of them.
\<close>

fun scan_words :: "string \<Rightarrow> int \<Rightarrow> string list \<Rightarrow> (int \<times> string) option" where
  "scan_words p n [] = Some (n, p)"
| "scan_words p n (w # ws) = (if p < w \<and> plain_word w then scan_words w (n + 1) ws else None)"

lemma scan_append:
  "scan_words p n (ws @ vs) = (case scan_words p n ws of None \<Rightarrow> None | Some (m, q) \<Rightarrow> scan_words q m vs)"
  by (induction p n ws rule: scan_words.induct) auto

lemma scan_length: "scan_words p n ws = Some (m, q) \<Longrightarrow> m = n + int (length ws)"
  by (induction p n ws rule: scan_words.induct) (auto split: if_splits)

lemma scan_above: "scan_words p n ws = Some r \<Longrightarrow> w \<in> set ws \<Longrightarrow> p < w \<and> plain_word w"
  by (induction p n ws rule: scan_words.induct) (auto dest: less_trans split: if_splits)

lemma scan_distinct: "scan_words p n ws = Some r \<Longrightarrow> distinct ws"
  by (induction p n ws rule: scan_words.induct) (auto dest: scan_above split: if_splits)

section \<open>The words\<close>

definition WORDS_1 :: "string list" where
  "WORDS_1 =
    [''abandon'', ''ability'', ''able'', ''about'', ''above'', ''absent'', ''absorb'', ''abstract'',
     ''absurd'', ''access'', ''accident'', ''account'', ''accuse'', ''achieve'', ''acid'', ''acorn'',
     ''acoustic'', ''acquire'', ''across'', ''act'', ''action'', ''actor'', ''actress'', ''actual'',
     ''adapt'', ''add'', ''address'', ''adjust'', ''admit'', ''adult'', ''advance'', ''advice'', ''aerobic'',
     ''affair'', ''afford'', ''afraid'', ''again'', ''age'', ''agent'', ''agree'', ''ahead'', ''aim'',
     ''air'', ''airport'', ''aisle'', ''alarm'', ''album'', ''alert'', ''alien'', ''all'', ''alley'',
     ''allow'', ''almond'', ''almost'', ''alone'', ''alpha'', ''already'', ''also'', ''alter'', ''always'',
     ''amateur'', ''amazing'', ''amber'', ''among'', ''amount'', ''amused'', ''analyst'', ''anchor'',
     ''ancient'', ''anger'', ''angle'', ''animal'', ''ankle'', ''announce'', ''annual'', ''another'',
     ''answer'', ''antenna'', ''antique'', ''anxiety'', ''any'', ''apart'', ''apology'', ''appear'',
     ''apple'', ''approve'', ''apricot'', ''april'', ''arch'', ''arctic'', ''area'', ''arena'', ''argue'',
     ''arm'', ''armed'', ''armor'', ''around'', ''arrange'', ''arrive'', ''arrow'', ''art'', ''artefact'',
     ''artist'', ''artwork'', ''ask'', ''aspect'', ''assault'', ''asset'', ''assist'', ''assume'', ''asthma'',
     ''athlete'', ''atom'', ''attend'', ''attitude'', ''attract'', ''auction'', ''audit'', ''august'',
     ''aunt'', ''aurora'', ''author'', ''auto'', ''autumn'', ''average'', ''avocado'', ''avoid'', ''awake'',
     ''aware'', ''away'', ''awesome'', ''awful'', ''awkward'', ''axis'', ''baby'', ''bachelor'', ''bacon'',
     ''badge'', ''badger'', ''bag'', ''balance'', ''balcony'', ''ball'', ''bamboo'', ''banana'', ''banner'',
     ''bar'']"

definition WORDS_2 :: "string list" where
  "WORDS_2 =
    [''barely'', ''bargain'', ''barrel'', ''base'', ''basic'', ''basil'', ''basket'', ''battle'', ''beach'',
     ''beacon'', ''bean'', ''beauty'', ''because'', ''become'', ''beef'', ''before'', ''begin'', ''behave'',
     ''behind'', ''believe'', ''below'', ''belt'', ''bench'', ''benefit'', ''beryl'', ''best'', ''better'',
     ''between'', ''beyond'', ''bicycle'', ''bid'', ''bike'', ''bind'', ''biology'', ''birch'', ''bird'',
     ''birth'', ''black'', ''blame'', ''blanket'', ''blast'', ''bleak'', ''bless'', ''blind'', ''bloom'',
     ''blossom'', ''blouse'', ''blue'', ''bluebell'', ''blur'', ''blush'', ''board'', ''boat'', ''body'',
     ''boil'', ''bone'', ''bonus'', ''book'', ''boost'', ''border'', ''boring'', ''borrow'', ''boss'',
     ''bottom'', ''bounce'', ''box'', ''boy'', ''bracket'', ''brain'', ''brand'', ''brass'', ''brave'',
     ''bread'', ''breeze'', ''brick'', ''bridge'', ''brief'', ''bright'', ''bring'', ''brisk'', ''broccoli'',
     ''broken'', ''bronze'', ''brook'', ''broom'', ''brother'', ''brown'', ''brush'', ''bubble'', ''buddy'',
     ''budget'', ''buffalo'', ''build'', ''bulb'', ''bulk'', ''bundle'', ''bunker'', ''burden'', ''burger'',
     ''burst'', ''bus'', ''business'', ''busy'', ''butter'', ''buyer'', ''buzz'', ''cabbage'', ''cabin'',
     ''cable'', ''cactus'', ''cage'', ''cake'', ''call'', ''calm'', ''camera'', ''camp'', ''can'', ''canal'',
     ''cancel'', ''candy'', ''cannon'', ''canoe'', ''canvas'', ''canyon'', ''capable'', ''capital'',
     ''captain'', ''car'', ''carbon'', ''card'', ''cargo'', ''carpet'', ''carry'', ''cart'', ''cascade'',
     ''case'', ''cash'', ''castle'', ''casual'', ''cat'', ''catalog'', ''catch'', ''category'', ''cattle'',
     ''caught'', ''cause'', ''caution'']"

definition WORDS_3 :: "string list" where
  "WORDS_3 =
    [''cave'', ''cedar'', ''ceiling'', ''celery'', ''cement'', ''census'', ''century'', ''cereal'',
     ''certain'', ''chair'', ''chalk'', ''champion'', ''change'', ''chaos'', ''chapter'', ''charge'',
     ''chase'', ''chat'', ''cheap'', ''check'', ''cheese'', ''chef'', ''cherry'', ''chest'', ''chestnut'',
     ''chicken'', ''chief'', ''child'', ''chimney'', ''choice'', ''choose'', ''chronic'', ''chuckle'',
     ''chunk'', ''churn'', ''cinnamon'', ''circle'', ''citizen'', ''city'', ''civil'', ''claim'', ''clap'',
     ''clarify'', ''claw'', ''clay'', ''clean'', ''clerk'', ''clever'', ''click'', ''client'', ''cliff'',
     ''climb'', ''clinic'', ''clip'', ''clock'', ''clog'', ''close'', ''cloth'', ''cloud'', ''clover'',
     ''clown'', ''club'', ''clump'', ''cluster'', ''clutch'', ''coach'', ''coast'', ''cobalt'', ''cocoa'',
     ''coconut'', ''code'', ''coffee'', ''coil'', ''coin'', ''collect'', ''color'', ''column'', ''combine'',
     ''come'', ''comet'', ''comfort'', ''comic'', ''common'', ''company'', ''compass'', ''concert'',
     ''conduct'', ''confirm'', ''congress'', ''connect'', ''consider'', ''control'', ''convince'', ''cook'',
     ''cool'', ''copper'', ''copy'', ''coral'', ''core'', ''corn'', ''correct'', ''cost'', ''cotton'',
     ''couch'', ''country'', ''couple'', ''course'', ''cousin'', ''cover'', ''coyote'', ''crack'', ''cradle'',
     ''craft'', ''cram'', ''crane'', ''crater'', ''crawl'', ''cream'', ''credit'', ''creek'', ''crew'',
     ''cricket'', ''crisp'', ''critic'', ''crop'', ''cross'', ''crouch'', ''crowd'', ''crucial'', ''cruise'',
     ''crumble'', ''crunch'', ''crush'', ''crystal'', ''cube'', ''culture'', ''cup'', ''cupboard'',
     ''curious'', ''current'', ''curtain'', ''curve'', ''cushion'', ''custom'', ''cute'', ''cycle'', ''dad'']"

definition WORDS_4 :: "string list" where
  "WORDS_4 =
    [''daisy'', ''damage'', ''damp'', ''dance'', ''danger'', ''daring'', ''dash'', ''daughter'', ''dawn'',
     ''day'', ''deal'', ''debate'', ''debris'', ''decade'', ''december'', ''decide'', ''decline'',
     ''decorate'', ''decrease'', ''deer'', ''defense'', ''define'', ''defy'', ''degree'', ''delay'',
     ''deliver'', ''delta'', ''demand'', ''demise'', ''denial'', ''dentist'', ''deny'', ''depart'',
     ''depend'', ''deposit'', ''depth'', ''deputy'', ''derive'', ''describe'', ''desert'', ''design'',
     ''desk'', ''despair'', ''destroy'', ''detail'', ''detect'', ''develop'', ''device'', ''devote'',
     ''diagram'', ''dial'', ''diamond'', ''diary'', ''dice'', ''diesel'', ''diet'', ''differ'', ''digital'',
     ''dignity'', ''dilemma'', ''dinner'', ''dinosaur'', ''direct'', ''dirt'', ''disagree'', ''discover'',
     ''dish'', ''dismiss'', ''disorder'', ''display'', ''distance'', ''divert'', ''divide'', ''dizzy'',
     ''doctor'', ''document'', ''dog'', ''doll'', ''dolphin'', ''domain'', ''donate'', ''donkey'', ''donor'',
     ''door'', ''dose'', ''double'', ''dove'', ''draft'', ''dragon'', ''drama'', ''drastic'', ''draw'',
     ''dream'', ''dress'', ''drift'', ''drill'', ''drink'', ''drip'', ''drive'', ''drop'', ''drum'', ''dry'',
     ''duck'', ''dune'', ''during'', ''dust'', ''dutch'', ''duty'', ''dwarf'', ''dynamic'', ''eager'',
     ''eagle'', ''early'', ''earn'', ''earth'', ''easily'', ''east'', ''easy'', ''echo'', ''ecology'',
     ''economy'', ''edge'', ''edit'', ''educate'', ''effort'', ''egg'', ''eight'', ''either'', ''elbow'',
     ''elder'', ''electric'', ''elegant'', ''element'', ''elephant'', ''elevator'', ''elite'', ''else'',
     ''embark'', ''ember'', ''embody'', ''embrace'', ''emerge'', ''emotion'', ''employ'', ''empower'',
     ''empty'', ''enable'']"

definition WORDS_5 :: "string list" where
  "WORDS_5 =
    [''enact'', ''end'', ''endless'', ''endorse'', ''energy'', ''enforce'', ''engage'', ''engine'',
     ''enhance'', ''enjoy'', ''enlist'', ''enough'', ''enrich'', ''enroll'', ''ensure'', ''enter'',
     ''entire'', ''entry'', ''envelope'', ''episode'', ''equal'', ''equip'', ''era'', ''erase'', ''erode'',
     ''erosion'', ''error'', ''erupt'', ''escape'', ''essay'', ''essence'', ''estate'', ''eternal'',
     ''ethics'', ''evidence'', ''evoke'', ''evolve'', ''exact'', ''example'', ''excess'', ''exchange'',
     ''excite'', ''exclude'', ''excuse'', ''execute'', ''exercise'', ''exhaust'', ''exhibit'', ''exile'',
     ''exist'', ''exit'', ''exotic'', ''expand'', ''expect'', ''expire'', ''explain'', ''expose'',
     ''express'', ''extend'', ''extra'', ''eye'', ''eyebrow'', ''fabric'', ''face'', ''faculty'', ''fade'',
     ''faint'', ''faith'', ''falcon'', ''fall'', ''false'', ''fame'', ''family'', ''famous'', ''fan'',
     ''fancy'', ''fantasy'', ''farm'', ''fashion'', ''father'', ''fatigue'', ''fault'', ''favorite'',
     ''feature'', ''february'', ''federal'', ''fee'', ''feed'', ''feel'', ''female'', ''fence'', ''fern'',
     ''festival'', ''fetch'', ''few'', ''fiber'', ''fiction'', ''field'', ''figure'', ''file'', ''film'',
     ''filter'', ''final'', ''find'', ''fine'', ''finger'', ''finish'', ''fire'', ''firm'', ''first'',
     ''fiscal'', ''fish'', ''fit'', ''fitness'', ''fix'', ''flag'', ''flame'', ''flash'', ''flat'',
     ''flavor'', ''flee'', ''flight'', ''flip'', ''float'', ''flock'', ''floor'', ''flower'', ''fluid'',
     ''flush'', ''fly'', ''foam'', ''focus'', ''fog'', ''foil'', ''fold'', ''follow'', ''food'', ''foot'',
     ''force'', ''forest'', ''forget'', ''fork'', ''fortune'', ''forum'', ''forward'', ''fossil'', ''foster'']"

definition WORDS_6 :: "string list" where
  "WORDS_6 =
    [''found'', ''fox'', ''fragile'', ''frame'', ''frequent'', ''fresh'', ''friend'', ''fringe'', ''frog'',
     ''front'', ''frost'', ''frown'', ''frozen'', ''fruit'', ''fuel'', ''fun'', ''funny'', ''furnace'',
     ''future'', ''gadget'', ''gain'', ''galaxy'', ''gallery'', ''game'', ''gap'', ''garage'', ''garbage'',
     ''garden'', ''garlic'', ''garment'', ''garnet'', ''gas'', ''gasp'', ''gate'', ''gather'', ''gauge'',
     ''gaze'', ''general'', ''genius'', ''genre'', ''gentle'', ''genuine'', ''gesture'', ''ghost'', ''giant'',
     ''gift'', ''giggle'', ''ginger'', ''giraffe'', ''girl'', ''give'', ''glacier'', ''glad'', ''glance'',
     ''glare'', ''glass'', ''glide'', ''glimpse'', ''globe'', ''gloom'', ''glory'', ''glove'', ''glow'',
     ''glue'', ''goat'', ''goddess'', ''gold'', ''good'', ''goose'', ''gorilla'', ''gospel'', ''gossip'',
     ''govern'', ''gown'', ''grab'', ''grace'', ''grain'', ''granite'', ''grant'', ''grape'', ''grass'',
     ''gravity'', ''great'', ''green'', ''grid'', ''grit'', ''grocery'', ''group'', ''grove'', ''grow'',
     ''grunt'', ''guard'', ''guess'', ''guide'', ''guitar'', ''gym'', ''habit'', ''hair'', ''half'',
     ''hammer'', ''hamster'', ''hand'', ''happy'', ''harbor'', ''hard'', ''harsh'', ''harvest'', ''hat'',
     ''have'', ''hawk'', ''hazel'', ''head'', ''health'', ''heart'', ''heavy'', ''hedgehog'', ''height'',
     ''hello'', ''helmet'', ''help'', ''hen'', ''hero'', ''heron'', ''hidden'', ''high'', ''hill'', ''hint'',
     ''hip'', ''hire'', ''history'', ''hobby'', ''hockey'', ''hold'', ''hole'', ''holiday'', ''hollow'',
     ''home'', ''honey'', ''hood'', ''hope'', ''horizon'', ''horn'', ''horse'', ''hospital'', ''host'',
     ''hotel'', ''hour'']"

definition WORDS_7 :: "string list" where
  "WORDS_7 =
    [''hover'', ''hub'', ''huge'', ''human'', ''humble'', ''humor'', ''hundred'', ''hungry'', ''hunt'',
     ''hurdle'', ''hurry'', ''husband'', ''hybrid'', ''ice'', ''icon'', ''idea'', ''identify'', ''idle'',
     ''ignore'', ''illegal'', ''illness'', ''image'', ''imitate'', ''immense'', ''immune'', ''impact'',
     ''impose'', ''improve'', ''impulse'', ''inch'', ''include'', ''income'', ''increase'', ''index'',
     ''indicate'', ''indigo'', ''indoor'', ''industry'', ''infant'', ''inflict'', ''inform'', ''inhale'',
     ''inherit'', ''initial'', ''inject'', ''inmate'', ''inner'', ''innocent'', ''input'', ''inquiry'',
     ''insect'', ''inside'', ''inspire'', ''install'', ''intact'', ''interest'', ''into'', ''invest'',
     ''invite'', ''involve'', ''iris'', ''iron'', ''island'', ''isolate'', ''issue'', ''item'', ''ivory'',
     ''jacket'', ''jade'', ''jaguar'', ''jar'', ''jasper'', ''jazz'', ''jealous'', ''jeans'', ''jelly'',
     ''jewel'', ''job'', ''join'', ''joke'', ''journey'', ''joy'', ''judge'', ''juice'', ''jump'', ''jungle'',
     ''junior'', ''juniper'', ''junk'', ''just'', ''kangaroo'', ''keen'', ''keep'', ''kelp'', ''ketchup'',
     ''key'', ''kick'', ''kid'', ''kidney'', ''kind'', ''kingdom'', ''kit'', ''kitchen'', ''kite'',
     ''kitten'', ''kiwi'', ''knee'', ''knock'', ''know'', ''lab'', ''label'', ''labor'', ''ladder'', ''lady'',
     ''lagoon'', ''lake'', ''lamp'', ''language'', ''lantern'', ''laptop'', ''large'', ''lark'', ''later'',
     ''latin'', ''laugh'', ''laundry'', ''lava'', ''law'', ''lawn'', ''lawsuit'', ''layer'', ''leader'',
     ''leaf'', ''learn'', ''leave'', ''lecture'', ''left'', ''leg'', ''legal'', ''legend'', ''leisure'',
     ''lemon'', ''lend'', ''length'', ''lens'', ''leopard'', ''lesson'']"

definition WORDS_8 :: "string list" where
  "WORDS_8 =
    [''letter'', ''level'', ''liberty'', ''library'', ''license'', ''life'', ''lift'', ''light'', ''like'',
     ''lilac'', ''limb'', ''limit'', ''link'', ''lion'', ''liquid'', ''list'', ''little'', ''live'',
     ''lizard'', ''load'', ''loan'', ''lobster'', ''local'', ''lock'', ''logic'', ''long'', ''loop'',
     ''lottery'', ''lotus'', ''loud'', ''lounge'', ''love'', ''loyal'', ''lucky'', ''luggage'', ''lumber'',
     ''lunar'', ''lunch'', ''luxury'', ''lyrics'', ''machine'', ''magic'', ''magnet'', ''maid'', ''mail'',
     ''main'', ''major'', ''make'', ''mammal'', ''man'', ''manage'', ''mandate'', ''mango'', ''mansion'',
     ''manual'', ''maple'', ''marble'', ''march'', ''margin'', ''marigold'', ''marine'', ''market'',
     ''marriage'', ''mask'', ''mass'', ''master'', ''match'', ''material'', ''math'', ''matrix'', ''matter'',
     ''maximum'', ''maze'', ''meadow'', ''mean'', ''measure'', ''meat'', ''mechanic'', ''medal'', ''media'',
     ''melody'', ''melt'', ''member'', ''memory'', ''mention'', ''menu'', ''mercy'', ''merge'', ''merit'',
     ''merry'', ''mesh'', ''message'', ''metal'', ''meteor'', ''method'', ''middle'', ''midnight'', ''milk'',
     ''million'', ''mimic'', ''mind'', ''minimum'', ''minor'', ''mint'', ''minute'', ''miracle'', ''mirror'',
     ''misery'', ''miss'', ''mistake'', ''mix'', ''mixed'', ''mixture'', ''mobile'', ''model'', ''modify'',
     ''mom'', ''moment'', ''monitor'', ''monkey'', ''monster'', ''month'', ''moon'', ''moral'', ''more'',
     ''morning'', ''mosquito'', ''mother'', ''motion'', ''motor'', ''mountain'', ''mouse'', ''move'',
     ''movie'', ''much'', ''muffin'', ''mule'', ''multiply'', ''muscle'', ''museum'', ''mushroom'', ''music'',
     ''must'', ''mutual'', ''myself'', ''mystery'', ''myth'']"

definition WORDS_9 :: "string list" where
  "WORDS_9 =
    [''name'', ''napkin'', ''narrow'', ''nation'', ''nature'', ''near'', ''neck'', ''nectar'', ''need'',
     ''negative'', ''neglect'', ''neither'', ''nephew'', ''nerve'', ''nest'', ''net'', ''network'',
     ''neutral'', ''never'', ''news'', ''next'', ''nice'', ''night'', ''noble'', ''noise'', ''nominee'',
     ''noodle'', ''normal'', ''north'', ''nose'', ''notable'', ''note'', ''nothing'', ''notice'', ''nova'',
     ''novel'', ''now'', ''nuclear'', ''number'', ''nurse'', ''nut'', ''oak'', ''oasis'', ''obey'',
     ''object'', ''oblige'', ''obscure'', ''observe'', ''obtain'', ''obvious'', ''occur'', ''ocean'',
     ''october'', ''odor'', ''off'', ''offer'', ''office'', ''often'', ''oil'', ''okay'', ''old'', ''olive'',
     ''olympic'', ''omit'', ''once'', ''one'', ''onion'', ''online'', ''only'', ''opal'', ''open'', ''opera'',
     ''opinion'', ''oppose'', ''option'', ''orange'', ''orbit'', ''orchard'', ''order'', ''ordinary'',
     ''organ'', ''orient'', ''original'', ''ostrich'', ''other'', ''otter'', ''outdoor'', ''outer'',
     ''output'', ''outside'', ''oval'', ''oven'', ''over'', ''own'', ''owner'', ''oxygen'', ''oyster'',
     ''ozone'', ''pact'', ''paddle'', ''page'', ''pair'', ''palace'', ''palm'', ''panda'', ''panel'',
     ''panther'', ''paper'', ''parade'', ''parent'', ''park'', ''parrot'', ''party'', ''pass'', ''patch'',
     ''path'', ''patient'', ''patrol'', ''pattern'', ''pause'', ''pave'', ''payment'', ''peace'', ''peanut'',
     ''pear'', ''peasant'', ''pebble'', ''pelican'', ''pen'', ''penalty'', ''pencil'', ''people'', ''pepper'',
     ''perfect'', ''permit'', ''person'', ''pet'', ''phone'', ''photo'', ''phrase'', ''physical'', ''piano'',
     ''picnic'', ''picture'', ''piece'', ''pig'', ''pigeon'']"

definition WORDS_10 :: "string list" where
  "WORDS_10 =
    [''pill'', ''pilot'', ''pine'', ''pink'', ''pioneer'', ''pipe'', ''pitch'', ''pizza'', ''place'',
     ''planet'', ''plastic'', ''plate'', ''play'', ''please'', ''pledge'', ''pluck'', ''plug'', ''plum'',
     ''plunge'', ''poem'', ''poet'', ''point'', ''polar'', ''pole'', ''police'', ''pond'', ''pony'', ''pool'',
     ''poppy'', ''popular'', ''portion'', ''position'', ''possible'', ''post'', ''potato'', ''pottery'',
     ''powder'', ''power'', ''practice'', ''prairie'', ''praise'', ''predict'', ''prefer'', ''prepare'',
     ''present'', ''pretty'', ''prevent'', ''price'', ''pride'', ''primary'', ''print'', ''priority'',
     ''private'', ''prize'', ''problem'', ''process'', ''produce'', ''profit'', ''program'', ''project'',
     ''promote'', ''proof'', ''property'', ''prosper'', ''protect'', ''proud'', ''provide'', ''public'',
     ''pudding'', ''pull'', ''pulp'', ''pulse'', ''pumpkin'', ''pupil'', ''puppy'', ''purchase'', ''purity'',
     ''purpose'', ''purse'', ''push'', ''put'', ''puzzle'', ''pyramid'', ''quality'', ''quantum'',
     ''quarter'', ''quartz'', ''question'', ''quick'', ''quill'', ''quit'', ''quiz'', ''quote'', ''rabbit'',
     ''raccoon'', ''race'', ''rack'', ''radar'', ''radio'', ''rail'', ''rain'', ''raise'', ''rally'',
     ''ramp'', ''ranch'', ''random'', ''range'', ''rapid'', ''rare'', ''rate'', ''rather'', ''raven'',
     ''raw'', ''razor'', ''ready'', ''real'', ''reason'', ''rebel'', ''rebuild'', ''recall'', ''receive'',
     ''recipe'', ''record'', ''recycle'', ''reduce'', ''reef'', ''reflect'', ''reform'', ''refuse'',
     ''region'', ''regret'', ''regular'', ''reject'', ''relax'', ''release'', ''relief'', ''rely'',
     ''remain'', ''remember'', ''remind'', ''remove'', ''render'', ''renew'', ''rent'', ''reopen'',
     ''repair'', ''repeat'']"

definition WORDS_11 :: "string list" where
  "WORDS_11 =
    [''replace'', ''report'', ''require'', ''rescue'', ''resemble'', ''resist'', ''resource'', ''response'',
     ''result'', ''retire'', ''retreat'', ''return'', ''reunion'', ''reveal'', ''review'', ''reward'',
     ''rhythm'', ''rib'', ''ribbon'', ''rice'', ''rich'', ''ride'', ''ridge'', ''right'', ''rigid'', ''ring'',
     ''ripple'', ''risk'', ''ritual'', ''rival'', ''river'', ''road'', ''roast'', ''robin'', ''robot'',
     ''robust'', ''rocket'', ''romance'', ''roof'', ''rookie'', ''room'', ''rose'', ''rotate'', ''rough'',
     ''round'', ''route'', ''royal'', ''rubber'', ''rug'', ''rule'', ''run'', ''runway'', ''rural'',
     ''saddle'', ''sadness'', ''safe'', ''saffron'', ''sage'', ''sail'', ''salad'', ''salmon'', ''salon'',
     ''salt'', ''salute'', ''same'', ''sample'', ''sand'', ''sapphire'', ''satisfy'', ''satoshi'', ''sauce'',
     ''sausage'', ''save'', ''say'', ''scale'', ''scan'', ''scatter'', ''scene'', ''scheme'', ''school'',
     ''science'', ''scissors'', ''scorpion'', ''scout'', ''scrap'', ''screen'', ''script'', ''scrub'',
     ''sea'', ''search'', ''season'', ''seat'', ''second'', ''secret'', ''section'', ''security'', ''seed'',
     ''seek'', ''segment'', ''select'', ''sell'', ''seminar'', ''senior'', ''sense'', ''sentence'',
     ''sequoia'', ''series'', ''service'', ''session'', ''settle'', ''setup'', ''seven'', ''shadow'',
     ''shaft'', ''shallow'', ''share'', ''shed'', ''shell'', ''sheriff'', ''shield'', ''shift'', ''shine'',
     ''ship'', ''shiver'', ''shoe'', ''shop'', ''short'', ''shoulder'', ''shove'', ''shrimp'', ''shrug'',
     ''shuffle'', ''shy'', ''sibling'', ''side'', ''siege'', ''sierra'', ''sight'', ''sign'', ''silent'',
     ''silk'', ''silly'', ''silver'', ''similar'', ''simple'', ''since'', ''sing'']"

definition WORDS_12 :: "string list" where
  "WORDS_12 =
    [''siren'', ''sister'', ''situate'', ''six'', ''size'', ''skate'', ''sketch'', ''ski'', ''skill'',
     ''skin'', ''skirt'', ''slab'', ''slam'', ''sleep'', ''slender'', ''slice'', ''slide'', ''slight'',
     ''slim'', ''slogan'', ''slot'', ''slow'', ''slush'', ''small'', ''smart'', ''smile'', ''smooth'',
     ''snack'', ''snake'', ''snap'', ''sniff'', ''snow'', ''soap'', ''soccer'', ''social'', ''sock'',
     ''soda'', ''soft'', ''solar'', ''solid'', ''solution'', ''solve'', ''someone'', ''song'', ''soon'',
     ''sorry'', ''sort'', ''soul'', ''sound'', ''soup'', ''source'', ''south'', ''space'', ''spare'',
     ''spatial'', ''spawn'', ''speak'', ''special'', ''speed'', ''spell'', ''spend'', ''sphere'', ''spice'',
     ''spider'', ''spike'', ''spin'', ''spirit'', ''split'', ''spoil'', ''sponsor'', ''spoon'', ''sport'',
     ''spot'', ''spray'', ''spread'', ''spring'', ''spruce'', ''square'', ''squeeze'', ''squirrel'',
     ''stable'', ''stadium'', ''staff'', ''stage'', ''stairs'', ''stamp'', ''stand'', ''starling'', ''start'',
     ''state'', ''stay'', ''steak'', ''steel'', ''stem'', ''step'', ''stereo'', ''stick'', ''still'',
     ''sting'', ''stock'', ''stomach'', ''stone'', ''stool'', ''story'', ''stove'', ''strategy'', ''street'',
     ''strike'', ''strong'', ''struggle'', ''student'', ''stuff'', ''stumble'', ''style'', ''subject'',
     ''submit'', ''subway'', ''success'', ''such'', ''sudden'', ''sugar'', ''suggest'', ''suit'', ''summer'',
     ''summit'', ''sun'', ''sunny'', ''sunset'', ''super'', ''supply'', ''supreme'', ''sure'', ''surface'',
     ''surge'', ''surprise'', ''surround'', ''survey'', ''suspect'', ''sustain'', ''swallow'', ''swap'',
     ''swarm'', ''swear'', ''sweet'', ''swift'', ''swim'', ''swing'']"

definition WORDS_13 :: "string list" where
  "WORDS_13 =
    [''switch'', ''symbol'', ''symptom'', ''syrup'', ''system'', ''table'', ''tackle'', ''tag'', ''tail'',
     ''talent'', ''talk'', ''tank'', ''tape'', ''target'', ''task'', ''taste'', ''tattoo'', ''taxi'',
     ''teach'', ''team'', ''tell'', ''ten'', ''tenant'', ''tennis'', ''tent'', ''term'', ''test'', ''text'',
     ''thank'', ''that'', ''theme'', ''then'', ''theory'', ''there'', ''they'', ''thing'', ''this'',
     ''thistle'', ''thought'', ''three'', ''thrive'', ''throw'', ''thumb'', ''thunder'', ''ticket'', ''tide'',
     ''tiger'', ''tilt'', ''timber'', ''time'', ''tiny'', ''tip'', ''tired'', ''tissue'', ''title'',
     ''toast'', ''today'', ''toddler'', ''toe'', ''together'', ''token'', ''tomato'', ''tomorrow'', ''tone'',
     ''tongue'', ''tonight'', ''tool'', ''tooth'', ''top'', ''topaz'', ''topic'', ''topple'', ''torch'',
     ''tornado'', ''tortoise'', ''toss'', ''total'', ''tourist'', ''toward'', ''tower'', ''town'', ''toy'',
     ''track'', ''trade'', ''traffic'', ''train'', ''transfer'', ''trash'', ''travel'', ''tray'', ''treat'',
     ''tree'', ''trellis'', ''trend'', ''trial'', ''tribe'', ''trick'', ''trigger'', ''trim'', ''trip'',
     ''trophy'', ''truck'', ''true'', ''truly'', ''trumpet'', ''trust'', ''truth'', ''try'', ''tube'',
     ''tuition'', ''tulip'', ''tumble'', ''tuna'', ''tundra'', ''tunnel'', ''turkey'', ''turn'', ''turtle'',
     ''twelve'', ''twenty'', ''twice'', ''twin'', ''twist'', ''two'', ''type'', ''typical'', ''umbrella'',
     ''unable'', ''unaware'', ''uncle'', ''uncover'', ''under'', ''undo'', ''unfair'', ''unfold'',
     ''unhappy'', ''uniform'', ''unique'', ''unit'', ''universe'', ''unknown'', ''unlock'', ''until'',
     ''unusual'', ''unveil'', ''update'', ''upgrade'']"

definition WORDS_14 :: "string list" where
  "WORDS_14 =
    [''uphold'', ''upon'', ''upper'', ''upset'', ''urban'', ''urge'', ''usage'', ''use'', ''used'',
     ''useful'', ''useless'', ''usual'', ''utility'', ''vacant'', ''vacuum'', ''vague'', ''valid'',
     ''valley'', ''valve'', ''van'', ''vanish'', ''vapor'', ''various'', ''vast'', ''vault'', ''vehicle'',
     ''velvet'', ''vendor'', ''venture'', ''venue'', ''verb'', ''verify'', ''version'', ''very'', ''vessel'',
     ''veteran'', ''viable'', ''vibrant'', ''victory'', ''video'', ''view'', ''village'', ''vintage'',
     ''violet'', ''violin'', ''virtual'', ''visa'', ''visit'', ''visual'', ''vital'', ''vivid'', ''vocal'',
     ''voice'', ''void'', ''volcano'', ''volume'', ''vote'', ''voyage'', ''wage'', ''wagon'', ''wait'',
     ''walk'', ''wall'', ''walnut'', ''want'', ''warfare'', ''warm'', ''warrior'', ''wash'', ''wasp'',
     ''waste'', ''water'', ''wave'', ''way'', ''wealth'', ''wear'', ''weasel'', ''weather'', ''web'',
     ''wedding'', ''weekend'', ''welcome'', ''west'', ''wet'', ''whale'', ''what'', ''wheat'', ''wheel'',
     ''when'', ''where'', ''whip'', ''whisper'', ''wide'', ''width'', ''wife'', ''wild'', ''will'',
     ''willow'', ''win'', ''window'', ''wing'', ''wink'', ''winner'', ''winter'', ''wire'', ''wisdom'',
     ''wise'', ''wish'', ''witness'', ''wolf'', ''woman'', ''wonder'', ''wood'', ''wool'', ''word'', ''work'',
     ''world'', ''worth'', ''wrap'', ''wren'', ''wrestle'', ''wrist'', ''write'', ''wrong'', ''yard'',
     ''yarrow'', ''year'', ''yellow'', ''you'', ''young'', ''youth'', ''zebra'', ''zephyr'', ''zero'',
     ''zinnia'', ''zone'', ''zoo'']"

definition SIGNOUT_WORDS :: "string list" where
  "SIGNOUT_WORDS = concat [WORDS_1, WORDS_2, WORDS_3, WORDS_4, WORDS_5, WORDS_6, WORDS_7, WORDS_8, WORDS_9, WORDS_10, WORDS_11, WORDS_12, WORDS_13, WORDS_14]"

section \<open>What they are\<close>

lemma words_1: "scan_words '''' 0 WORDS_1 = Some (147, ''bar'')"
  by (simp add: WORDS_1_def plain_word_def lower_letter_def)

lemma words_2: "scan_words ''bar'' 147 WORDS_2 = Some (294, ''caution'')"
  by (simp add: WORDS_2_def plain_word_def lower_letter_def)

lemma words_3: "scan_words ''caution'' 294 WORDS_3 = Some (441, ''dad'')"
  by (simp add: WORDS_3_def plain_word_def lower_letter_def)

lemma words_4: "scan_words ''dad'' 441 WORDS_4 = Some (588, ''enable'')"
  by (simp add: WORDS_4_def plain_word_def lower_letter_def)

lemma words_5: "scan_words ''enable'' 588 WORDS_5 = Some (735, ''foster'')"
  by (simp add: WORDS_5_def plain_word_def lower_letter_def)

lemma words_6: "scan_words ''foster'' 735 WORDS_6 = Some (882, ''hour'')"
  by (simp add: WORDS_6_def plain_word_def lower_letter_def)

lemma words_7: "scan_words ''hour'' 882 WORDS_7 = Some (1029, ''lesson'')"
  by (simp add: WORDS_7_def plain_word_def lower_letter_def)

lemma words_8: "scan_words ''lesson'' 1029 WORDS_8 = Some (1176, ''myth'')"
  by (simp add: WORDS_8_def plain_word_def lower_letter_def)

lemma words_9: "scan_words ''myth'' 1176 WORDS_9 = Some (1323, ''pigeon'')"
  by (simp add: WORDS_9_def plain_word_def lower_letter_def)

lemma words_10: "scan_words ''pigeon'' 1323 WORDS_10 = Some (1470, ''repeat'')"
  by (simp add: WORDS_10_def plain_word_def lower_letter_def)

lemma words_11: "scan_words ''repeat'' 1470 WORDS_11 = Some (1617, ''sing'')"
  by (simp add: WORDS_11_def plain_word_def lower_letter_def)

lemma words_12: "scan_words ''sing'' 1617 WORDS_12 = Some (1764, ''swing'')"
  by (simp add: WORDS_12_def plain_word_def lower_letter_def)

lemma words_13: "scan_words ''swing'' 1764 WORDS_13 = Some (1911, ''upgrade'')"
  by (simp add: WORDS_13_def plain_word_def lower_letter_def)

lemma words_14: "scan_words ''upgrade'' 1911 WORDS_14 = Some (2048, ''zoo'')"
  by (simp add: WORDS_14_def plain_word_def lower_letter_def)

lemmas word_blocks =
  words_1 words_2 words_3 words_4 words_5 words_6 words_7 words_8 words_9 words_10 words_11 words_12 words_13 words_14

lemma signout_words_scanned: "scan_words [] 0 SIGNOUT_WORDS = Some (2048, ''zoo'')"
  by (simp add: SIGNOUT_WORDS_def scan_append word_blocks)

lemma length_signout_words: "length SIGNOUT_WORDS = 2048"
  using scan_length [OF signout_words_scanned] by simp

lemma signout_words_plain: "w \<in> set SIGNOUT_WORDS \<Longrightarrow> plain_word w"
  using scan_above [OF signout_words_scanned] by blast

lemma signout_words_distinct: "distinct SIGNOUT_WORDS"
  by (rule scan_distinct [OF signout_words_scanned])

end
