(* ===== verification/Signout_Keys.thy ===== *)
theory Signout_Keys
  imports Sign_In Wordlist
begin

text \<open>
  Sign-out keys: the rules of \<open>src/src/modules/signout-keys/domain/signout-key.rules.ts\<close> (phrases, their
  hashes, whom a key covers) and the service of \<open>application/signout-keys.service.ts\<close> (issuing,
  listing and revoking keys, signing an agent out with one, an administrator's agent quitting). SHA-256
  is the parameter \<open>sha\<close>; the random numbers and the salt are arguments of the issue. Identifiers of
  people and departments are well formed; one that names nobody models a malformed one.
\<close>

section \<open>Phrases\<close>

definition KEY_TTL_MS :: int where
  "KEY_TTL_MS = 24 * 60 * 60 * 1000"

definition PHRASE_WORDS :: nat where
  "PHRASE_WORDS = 5"

text \<open>\<open>/^[a-z]{3,8}( [a-z]{3,8}){4} [1-9]\d$/\<close>.\<close>

definition PHRASE_PATTERN :: "string \<Rightarrow> bool" where
  "PHRASE_PATTERN s =
     (case split_on CHR '' '' s of
        [a, b, c, d, e, n] \<Rightarrow>
          list_all plain_word [a, b, c, d, e]
          \<and> length n = 2 \<and> list_all is_digit n \<and> hd n \<noteq> CHR ''0''
      | _ \<Rightarrow> False)"

fun join_words :: "string list \<Rightarrow> string" where
  "join_words [] = []"
| "join_words [w] = w"
| "join_words (w # ws) = w @ '' '' @ join_words ws"

text \<open>\<open>rand i lo hi\<close> is the answer to the i-th draw from \<open>lo .. hi - 1\<close>.\<close>

definition generatePhrase :: "(nat \<Rightarrow> nat \<Rightarrow> nat \<Rightarrow> nat) \<Rightarrow> string" where
  "generatePhrase rand =
     join_words (map (\<lambda>i. SIGNOUT_WORDS ! rand i 0 (length SIGNOUT_WORDS)) [0..<PHRASE_WORDS])
     @ '' '' @ show_nat (rand PHRASE_WORDS 10 100)"

definition normalisePhrase :: "string option \<Rightarrow> string" where
  "normalisePhrase raw = collapse_spaces (trim (to_lower (coalesce raw [])))"

definition hashPhrase :: "(string \<Rightarrow> string) \<Rightarrow> string \<Rightarrow> string option \<Rightarrow> string" where
  "hashPhrase sha salt phrase = sha (salt @ normalisePhrase phrase)"

section \<open>Keys\<close>

record key_row =
  k_id :: uid
  k_companyId :: uid
  k_phraseHash :: string
  k_salt :: string
  k_scope :: string
  k_userIds :: "uid list"
  k_departmentIds :: "uid list"
  k_createdById :: uid
  k_createdAt :: int
  k_expiresAt :: int
  k_revokedAt :: "int option"
  k_uses :: int

record key_holder =
  h_id :: uid
  h_role :: role
  h_departmentId :: "uid option"
  h_managed :: "uid list"

definition phraseMatches :: "(string \<Rightarrow> string) \<Rightarrow> key_row \<Rightarrow> string option \<Rightarrow> bool" where
  "phraseMatches sha k phrase = (hashPhrase sha (k_salt k) phrase = k_phraseHash k)"

definition keyCovers :: "key_row \<Rightarrow> key_holder \<Rightarrow> bool" where
  "keyCovers k who =
     (if k_scope k = ''USERS'' then h_id who \<in> set (k_userIds k)
      else if k_scope k = ''DEPARTMENTS''
      then (case h_departmentId who of Some d \<Rightarrow> d \<in> set (k_departmentIds k) | None \<Rightarrow> False)
           \<or> (h_role who = MANAGER \<and> list_ex (\<lambda>d. d \<in> set (k_departmentIds k)) (h_managed who))
      else k_scope k = ''ORG'')"

definition isKeyActive :: "key_row \<Rightarrow> int \<Rightarrow> bool" where
  "isKeyActive k now = (k_revokedAt k = None \<and> k_expiresAt k > now)"

section \<open>The administrator's side\<close>

datatype key_audit = KeyCreated uid uid | KeyRevoked uid uid | KeyUsed uid uid | QuitUsed uid uid | KeyFailed uid

record key_department =
  d_id :: uid
  d_companyId :: uid
  d_name :: string
  d_deleted :: bool

text \<open>\<open>ks_names\<close> are the people's names (\<open>nameOf\<close>), deleted people's included.\<close>

record key_state =
  ks_auth :: auth_state
  ks_names :: "(uid \<times> string) list"
  ks_departments :: "key_department list"
  ks_keys :: "key_row list"
  ks_attempts :: key_attempts
  ks_audit :: "key_audit list"
  ks_signedOut :: "(uid \<times> uid \<times> uid) list"
  ks_next :: uid

definition LIST_DAYS :: int where "LIST_DAYS = 30"
definition LIST_LIMIT :: nat where "LIST_LIMIT = 200"
definition MAX_USERS :: nat where "MAX_USERS = 500"
definition MAX_DEPARTMENTS :: nat where "MAX_DEPARTMENTS = 100"

definition adminOrg :: "auth_user \<Rightarrow> uid result" where
  "adminOrg me =
     and_then (requireOrg me) (\<lambda>org. if \<not> isAdminLike me then throw (ForbiddenError ''FORBIDDEN'') else return org)"

definition newest_key :: "key_row \<Rightarrow> key_row \<Rightarrow> int" where
  "newest_key a b = k_createdAt b - k_createdAt a"

definition listed_key :: "key_row \<Rightarrow> key_row \<Rightarrow> int" where
  "listed_key a b = (if k_createdAt a \<noteq> k_createdAt b then newest_key a b else int (k_id a) - int (k_id b))"

text \<open>A key as the list shows it: the names are looked up, the activity judged at \<open>now\<close>.\<close>

record key_view =
  kv_id :: uid
  kv_scope :: string
  kv_users :: "(uid \<times> string) list"
  kv_departments :: "(uid \<times> string) list"
  kv_createdBy :: "(uid \<times> string) option"
  kv_createdAt :: int
  kv_expiresAt :: int
  kv_revokedAt :: "int option"
  kv_uses :: int
  kv_active :: bool

definition key_view_of :: "key_state \<Rightarrow> uid \<Rightarrow> int \<Rightarrow> key_row \<Rightarrow> key_view" where
  "key_view_of s org now k =
     \<lparr>kv_id = k_id k, kv_scope = k_scope k,
      kv_users = map (\<lambda>i. (i, coalesce (map_of (ks_names s) i) ''Removed person'')) (k_userIds k),
      kv_departments = map (\<lambda>i. (i, case find (\<lambda>d. d_id d = i \<and> d_companyId d = org) (ks_departments s) of
                                     Some d \<Rightarrow> d_name d | None \<Rightarrow> ''Removed department'')) (k_departmentIds k),
      kv_createdBy = map_option (\<lambda>n. (k_createdById k, n)) (map_of (ks_names s) (k_createdById k)),
      kv_createdAt = k_createdAt k, kv_expiresAt = k_expiresAt k, kv_revokedAt = k_revokedAt k,
      kv_uses = k_uses k, kv_active = isKeyActive k now\<rparr>"

definition listKeys :: "auth_user \<Rightarrow> int \<Rightarrow> key_state \<Rightarrow> key_view list result" where
  "listKeys me now s =
     and_then (adminOrg me) (\<lambda>org.
       return (map (key_view_of s org now)
         (take LIST_LIMIT (js_sort listed_key
           (filter (\<lambda>k. k_companyId k = org \<and> k_createdAt k \<ge> now - LIST_DAYS * 86400000) (ks_keys s))))))"

definition mixed :: app_exception where
  "mixed = ValidationError ''VALIDATION_ERROR''"

definition usersFound :: "key_state \<Rightarrow> uid \<Rightarrow> uid list \<Rightarrow> nat" where
  "usersFound s org ids =
     length (filter (\<lambda>a. ac_id a \<in> set ids \<and> ac_companyId a = Some org \<and> \<not> ac_deleted a \<and> ac_role a \<noteq> SUPER_ADMIN)
       (as_users (ks_auth s)))"

definition departmentsFound :: "key_state \<Rightarrow> uid \<Rightarrow> uid list \<Rightarrow> nat" where
  "departmentsFound s org ids =
     length (filter (\<lambda>d. d_id d \<in> set ids \<and> d_companyId d = org \<and> \<not> d_deleted d) (ks_departments s))"

text \<open>The checks of a new key's scope, before anything is drawn or written.\<close>

definition scope_checked :: "key_state \<Rightarrow> uid \<Rightarrow> string \<Rightarrow> uid list \<Rightarrow> uid list \<Rightarrow> unit result" where
  "scope_checked s org scope userIds departmentIds =
     (if scope = ''USERS'' then
        (if departmentIds \<noteq> [] then throw mixed
         else if userIds = [] \<or> length userIds > MAX_USERS then throw (ValidationError ''VALIDATION_ERROR'')
         else if usersFound s org userIds \<noteq> length userIds then throw (NotFoundError ''PERSON_NOT_FOUND'')
         else return ())
      else if scope = ''DEPARTMENTS'' then
        (if userIds \<noteq> [] then throw mixed
         else if departmentIds = [] \<or> length departmentIds > MAX_DEPARTMENTS then throw (ValidationError ''VALIDATION_ERROR'')
         else if departmentsFound s org departmentIds \<noteq> length departmentIds then throw (NotFoundError ''DEPARTMENT_NOT_FOUND'')
         else return ())
      else if scope = ''ORG'' then
        (if userIds \<noteq> [] \<or> departmentIds \<noteq> [] then throw mixed else return ())
      else throw (ValidationError ''VALIDATION_ERROR''))"

definition createKey ::
  "(string \<Rightarrow> string) \<Rightarrow> (nat \<Rightarrow> nat \<Rightarrow> nat \<Rightarrow> nat) \<Rightarrow> string \<Rightarrow> auth_user \<Rightarrow> string \<Rightarrow> uid list option \<Rightarrow> uid list option
     \<Rightarrow> int \<Rightarrow> key_state \<Rightarrow> (uid \<times> string \<times> int) result \<times> key_state" where
  "createKey sha rand salt me scope userIds departmentIds now s =
     (case adminOrg me of
        Inl e \<Rightarrow> (throw e, s)
      | Inr org \<Rightarrow>
          (let us = js_unique (coalesce userIds []); ds = js_unique (coalesce departmentIds [])
           in case scope_checked s org scope us ds of
                Inl e \<Rightarrow> (throw e, s)
              | Inr _ \<Rightarrow>
                  (let phrase = generatePhrase rand; expiresAt = now + KEY_TTL_MS;
                       k = \<lparr>k_id = ks_next s, k_companyId = org, k_phraseHash = hashPhrase sha salt (Some phrase),
                            k_salt = salt, k_scope = scope,
                            k_userIds = (if scope = ''USERS'' then us else []),
                            k_departmentIds = (if scope = ''DEPARTMENTS'' then ds else []),
                            k_createdById = u_id me, k_createdAt = now, k_expiresAt = expiresAt,
                            k_revokedAt = None, k_uses = 0\<rparr>
                   in (return (k_id k, phrase, expiresAt),
                       s\<lparr>ks_keys := ks_keys s @ [k], ks_next := ks_next s + 1,
                         ks_audit := ks_audit s @ [KeyCreated (u_id me) (k_id k)]\<rparr>))))"

definition revokeKey :: "auth_user \<Rightarrow> uid \<Rightarrow> int \<Rightarrow> key_state \<Rightarrow> key_view result \<times> key_state" where
  "revokeKey me i now s =
     (case adminOrg me of
        Inl e \<Rightarrow> (throw e, s)
      | Inr org \<Rightarrow>
          (case find (\<lambda>k. k_id k = i \<and> k_companyId k = org) (ks_keys s) of
             None \<Rightarrow> (throw (NotFoundError ''SIGNOUT_KEY_NOT_FOUND''), s)
           | Some k \<Rightarrow>
               if k_revokedAt k \<noteq> None then (return (key_view_of s org now k), s)
               else (let k' = k\<lparr>k_revokedAt := Some now\<rparr>;
                         s' = s\<lparr>ks_keys := map (\<lambda>q. if k_id q = i then k' else q) (ks_keys s),
                                ks_audit := ks_audit s @ [KeyRevoked (u_id me) i]\<rparr>
                     in (return (key_view_of s' org now k'), s'))))"

section \<open>The agent's side\<close>

datatype key_purpose = ForSignOut | ForQuit

definition holder_of :: "auth_user \<Rightarrow> key_holder" where
  "holder_of me = \<lparr>h_id = u_id me, h_role = u_role me, h_departmentId = u_departmentId me, h_managed = u_managedDepartmentIds me\<rparr>"

text \<open>The keys the caller could use now, newest first, at most 500.\<close>

definition candidates :: "auth_user \<Rightarrow> int \<Rightarrow> key_row list \<Rightarrow> key_row list" where
  "candidates me now keys =
     (let org = orgOf me; superAdmin = (u_role me = SUPER_ADMIN)
      in if org = None \<and> \<not> superAdmin then []
         else take 500 (js_sort newest_key
                (filter (\<lambda>k. isKeyActive k now
                   \<and> (if superAdmin then k_scope k = ''ORG'' else Some (k_companyId k) = org)) keys)))"

definition matching_key :: "(string \<Rightarrow> string) \<Rightarrow> auth_user \<Rightarrow> string option \<Rightarrow> int \<Rightarrow> key_row list \<Rightarrow> key_row option" where
  "matching_key sha me phrase now keys =
     find (\<lambda>k. keyCovers k (holder_of me) \<and> phraseMatches sha k phrase) (candidates me now keys)"

text \<open>The conditional update: counts a use if the key is still active, and says whether it was.\<close>

definition claim_key :: "uid \<Rightarrow> int \<Rightarrow> key_row list \<Rightarrow> key_row list \<times> nat" where
  "claim_key i now keys =
     (let hit = (\<lambda>k. k_id k = i \<and> isKeyActive k now)
      in (map (\<lambda>k. if hit k then k\<lparr>k_uses := k_uses k + 1\<rparr> else k) keys, length (filter hit keys)))"

text \<open>
  \<open>meanwhile\<close> is what other requests do to the keys between this request's read and its claim
  (nothing, or a revocation).
\<close>

definition useKey ::
  "(string \<Rightarrow> string) \<Rightarrow> (key_row list \<Rightarrow> key_row list) \<Rightarrow> auth_user \<Rightarrow> string option \<Rightarrow> key_purpose \<Rightarrow> int \<Rightarrow> key_state
     \<Rightarrow> key_row result \<times> key_state" where
  "useKey sha meanwhile me phrase purpose now s =
     (let wait = retryAfterSec (ks_attempts s) (u_id me) now;
          s0 = s\<lparr>ks_attempts := askedRetry (ks_attempts s) (u_id me) now\<rparr>
      in if wait > 0 then (throw (TooManyAttemptsError ''TOO_MANY_ATTEMPTS''), s0)
         else (let found = matching_key sha me phrase now (ks_keys s0);
                   s1 = s0\<lparr>ks_keys := meanwhile (ks_keys s0)\<rparr>;
                   (keys, count) = (case found of None \<Rightarrow> (ks_keys s1, 0) | Some k \<Rightarrow> claim_key (k_id k) now (ks_keys s1));
                   s2 = s1\<lparr>ks_keys := keys\<rparr>
               in case found of
                    Some k \<Rightarrow>
                      if count = 0
                      then (throw (ForbiddenError ''SIGNOUT_KEY_INVALID''),
                            s2\<lparr>ks_attempts := recordKeyFailure (ks_attempts s2) (u_id me) now,
                               ks_audit := ks_audit s2 @ [KeyFailed (u_id me)]\<rparr>)
                      else (return k, s2\<lparr>ks_attempts := resetAttempts (ks_attempts s2) (u_id me)\<rparr>)
                  | None \<Rightarrow>
                      (throw (ForbiddenError ''SIGNOUT_KEY_INVALID''),
                       s2\<lparr>ks_attempts := recordKeyFailure (ks_attempts s2) (u_id me) now,
                          ks_audit := ks_audit s2 @ [KeyFailed (u_id me)]\<rparr>)))"

definition signOut ::
  "(string \<Rightarrow> string) \<Rightarrow> (key_row list \<Rightarrow> key_row list) \<Rightarrow> auth_user \<Rightarrow> string option \<Rightarrow> int \<Rightarrow> key_state
     \<Rightarrow> unit result \<times> key_state" where
  "signOut sha meanwhile me phrase now s =
     (case useKey sha meanwhile me phrase ForSignOut now s of
        (Inl e, s1) \<Rightarrow> (throw e, s1)
      | (Inr k, s1) \<Rightarrow>
          (let a = ks_auth s1;
               a' = bumpEnrollVersion (u_id me) (a\<lparr>as_tokens := revokeAgentSessions (u_id me) now (as_tokens a)\<rparr>)
           in (return (), s1\<lparr>ks_auth := a', ks_audit := ks_audit s1 @ [KeyUsed (u_id me) (k_id k)],
                             ks_signedOut := ks_signedOut s1 @ [(u_id me, k_companyId k, k_id k)]\<rparr>)))"

definition quitCheck ::
  "(string \<Rightarrow> string) \<Rightarrow> (key_row list \<Rightarrow> key_row list) \<Rightarrow> auth_user \<Rightarrow> string option \<Rightarrow> int \<Rightarrow> key_state
     \<Rightarrow> unit result \<times> key_state" where
  "quitCheck sha meanwhile me phrase now s =
     (if \<not> isAdminLike me then (throw (ForbiddenError ''QUIT_NOT_ALLOWED''), s)
      else (case useKey sha meanwhile me phrase ForQuit now s of
              (Inl e, s1) \<Rightarrow> (throw e, s1)
            | (Inr k, s1) \<Rightarrow> (return (), s1\<lparr>ks_audit := ks_audit s1 @ [QuitUsed (u_id me) (k_id k)]\<rparr>)))"

section \<open>Phrases are typeable\<close>

definition drawn_words :: "(nat \<Rightarrow> nat \<Rightarrow> nat \<Rightarrow> nat) \<Rightarrow> string list" where
  "drawn_words rand = map (\<lambda>i. SIGNOUT_WORDS ! rand i 0 (length SIGNOUT_WORDS)) [0..<PHRASE_WORDS]"

definition draws_in_range :: "(nat \<Rightarrow> nat \<Rightarrow> nat \<Rightarrow> nat) \<Rightarrow> bool" where
  "draws_in_range rand \<longleftrightarrow> (\<forall>i lo hi. lo < hi \<longrightarrow> lo \<le> rand i lo hi \<and> rand i lo hi < hi)"

definition plain_part :: "string \<Rightarrow> bool" where
  "plain_part w \<longleftrightarrow> w \<noteq> [] \<and> list_all (\<lambda>c. lower_letter c \<or> is_digit c) w"

lemma plain_char:
  assumes "lower_letter c \<or> is_digit c"
  shows "\<not> is_space c" "lower_char c = c" "c \<noteq> CHR '' ''"
proof -
  have "48 \<le> (of_char c :: nat) \<and> (of_char c :: nat) \<le> 57 \<or> 97 \<le> (of_char c :: nat) \<and> (of_char c :: nat) \<le> 122"
    using assms by (auto simp: lower_letter_def is_digit_def Let_def)
  then show "\<not> is_space c" "lower_char c = c" "c \<noteq> CHR '' ''"
    by (auto simp: is_space_def lower_char_def Let_def)
qed

lemma plain_part_chars:
  assumes "plain_part w"
  shows "w \<noteq> []" "\<forall>c \<in> set w. \<not> is_space c \<and> lower_char c = c \<and> c \<noteq> CHR '' ''"
  using assms plain_char by (auto simp: plain_part_def list_all_iff)

lemma plain_word_part: "plain_word w \<Longrightarrow> plain_part w"
  by (auto simp: plain_word_def plain_part_def list_all_iff)

lemma join_words_Cons: "ws \<noteq> [] \<Longrightarrow> join_words (w # ws) = w @ '' '' @ join_words ws"
  by (cases ws) simp_all

lemma join_words_snoc: "ws \<noteq> [] \<Longrightarrow> join_words (ws @ [v]) = join_words ws @ '' '' @ v"
  by (induction ws rule: join_words.induct) simp_all

lemma split_joined: "ws \<noteq> [] \<Longrightarrow> \<forall>w \<in> set ws. plain_part w \<Longrightarrow> split_on CHR '' '' (join_words ws) = ws"
proof (induction ws rule: join_words.induct)
  case (2 w)
  then show ?case using plain_part_chars [of w] by (auto intro: split_on_no_sep)
next
  case (3 w v ws)
  have "CHR '' '' \<notin> set w" using plain_part_chars [of w] 3 by auto
  then show ?case using 3 split_on_append_sep [of "CHR '' ''" w "join_words (v # ws)"] by simp
qed simp

lemma join_words_inj:
  assumes "ws \<noteq> []" "vs \<noteq> []" "\<forall>w \<in> set ws. plain_part w" "\<forall>w \<in> set vs. plain_part w"
  shows "join_words ws = join_words vs \<longleftrightarrow> ws = vs"
  using split_joined [OF assms(1,3)] split_joined [OF assms(2,4)] by metis

lemma to_lower_id: "\<forall>c \<in> set s. lower_char c = c \<Longrightarrow> to_lower s = s"
  by (simp add: to_lower_def map_idI)

lemma joined_lower: "\<forall>w \<in> set ws. plain_part w \<Longrightarrow> \<forall>c \<in> set (join_words ws). lower_char c = c"
proof (induction ws rule: join_words.induct)
  case (2 w)
  then show ?case using plain_part_chars(2) [of w] by simp
next
  case (3 w v ws)
  have "lower_char CHR '' '' = CHR '' ''" by (simp add: lower_char_def)
  then show ?case using 3 plain_part_chars(2) [of w] by auto
qed simp

lemma collapse_word: "\<forall>c \<in> set w. \<not> is_space c \<Longrightarrow> w \<noteq> [] \<Longrightarrow> collapse_from b (w @ s) = w @ collapse_from False s"
proof (induction w arbitrary: b)
  case (Cons c w)
  then show ?case by (cases "w = []") simp_all
qed simp

lemma collapse_joined: "\<forall>w \<in> set ws. plain_part w \<Longrightarrow> collapse_from b (join_words ws) = join_words ws"
proof (induction ws arbitrary: b rule: join_words.induct)
  case (2 w)
  then show ?case using collapse_word [of w b "[]"] plain_part_chars [of w] by auto
next
  case (3 w v ws)
  have w: "\<forall>c \<in> set w. \<not> is_space c" "w \<noteq> []" using plain_part_chars [of w] 3(2) by auto
  have space: "is_space CHR '' ''" by (simp add: is_space_def)
  have "collapse_from b (join_words (w # v # ws)) = w @ collapse_from False (CHR '' '' # join_words (v # ws))"
    using collapse_word [OF w, of b "CHR '' '' # join_words (v # ws)"] by simp
  also have "collapse_from False (CHR '' '' # join_words (v # ws)) = CHR '' '' # join_words (v # ws)"
    using 3 space by (simp only: collapse_from.simps if_True if_False) simp
  finally show ?case by simp
qed simp

lemma trim_id: "s \<noteq> [] \<Longrightarrow> \<not> is_space (hd s) \<Longrightarrow> \<not> is_space (last s) \<Longrightarrow> trim s = s"
  by (simp add: trim_def dropWhile_eq_self_iff [THEN iffD2] hd_rev)

lemma joined_ends:
  "ws \<noteq> [] \<Longrightarrow> \<forall>w \<in> set ws. plain_part w \<Longrightarrow> join_words ws \<noteq> [] \<and> \<not> is_space (hd (join_words ws)) \<and> \<not> is_space (last (join_words ws))"
proof (induction ws rule: join_words.induct)
  case (2 w)
  then show ?case using plain_part_chars [of w] by auto
next
  case (3 w v ws)
  then show ?case using plain_part_chars [of w] by auto
qed simp

text \<open>Joined words survive normalisation.\<close>

lemma normalise_joined:
  assumes "ws \<noteq> []" "\<forall>w \<in> set ws. plain_part w"
  shows "normalisePhrase (Some (join_words ws)) = join_words ws"
proof -
  have "to_lower (join_words ws) = join_words ws" by (rule to_lower_id [OF joined_lower [OF assms(2)]])
  moreover have "trim (join_words ws) = join_words ws" using joined_ends [OF assms] by (intro trim_id) auto
  ultimately show ?thesis
    using collapse_joined [OF assms(2)] by (simp add: normalisePhrase_def collapse_spaces_def)
qed

lemma phrase_joined: "generatePhrase rand = join_words (drawn_words rand @ [show_nat (rand PHRASE_WORDS 10 100)])"
  by (simp add: generatePhrase_def drawn_words_def PHRASE_WORDS_def join_words_snoc)

lemma drawn_word:
  assumes "draws_in_range rand" "w \<in> set (drawn_words rand)"
  shows "plain_word w"
proof -
  obtain i where i: "w = SIGNOUT_WORDS ! rand i 0 (length SIGNOUT_WORDS)"
    using assms(2) by (auto simp: drawn_words_def)
  have "rand i 0 (length SIGNOUT_WORDS) < length SIGNOUT_WORDS"
    using assms(1) length_signout_words by (simp add: draws_in_range_def)
  then have "w \<in> set SIGNOUT_WORDS" unfolding i by (rule nth_mem)
  then show ?thesis by (rule signout_words_plain)
qed

lemma drawn_number:
  assumes "draws_in_range rand"
  shows "10 \<le> rand PHRASE_WORDS 10 100" "rand PHRASE_WORDS 10 100 < 100"
  using assms by (simp_all add: draws_in_range_def)

lemma phrase_parts:
  assumes "draws_in_range rand"
  shows "\<forall>w \<in> set (drawn_words rand @ [show_nat (rand PHRASE_WORDS 10 100)]). plain_part w"
  using drawn_word [OF assms] plain_word_part digits_show_nat [of "rand PHRASE_WORDS 10 100"]
  by (auto simp: plain_part_def list_all_iff)

lemma length_drawn [simp]: "length (drawn_words rand) = 5"
  by (simp add: drawn_words_def PHRASE_WORDS_def)

lemma five: "length xs = 5 \<Longrightarrow> \<exists>a b c d e. xs = [a, b, c, d, e]"
  by (auto simp: numeral_eq_Suc length_Suc_conv)

lemma phrase_matches_pattern:
  assumes "draws_in_range rand"
  shows "PHRASE_PATTERN (generatePhrase rand)"
proof -
  let ?n = "rand PHRASE_WORDS 10 100"
  note n = drawn_number [OF assms]
  have split: "split_on CHR '' '' (generatePhrase rand) = drawn_words rand @ [show_nat ?n]"
    unfolding phrase_joined by (rule split_joined [OF _ phrase_parts [OF assms]]) simp
  have number: "show_nat ?n = [digit_char (?n div 10), digit_char (?n mod 10)]" by (rule show_nat_lt100 [OF n])
  have small: "?n div 10 < 10" "?n div 10 \<noteq> 0" "?n mod 10 < 10" using n by simp_all
  have "digit_char (?n div 10) \<noteq> CHR ''0''"
    using digit_char_inj [OF small(1), of 0] small(2) by (auto simp: digit_char_0)
  then have "length (show_nat ?n) = 2 \<and> list_all is_digit (show_nat ?n) \<and> hd (show_nat ?n) \<noteq> CHR ''0''"
    using number small by simp
  moreover obtain a b c d e where w: "drawn_words rand = [a, b, c, d, e]" using five [OF length_drawn] by blast
  moreover have "list_all plain_word [a, b, c, d, e]"
    using drawn_word [OF assms] unfolding w by (simp add: list_all_iff)
  ultimately show ?thesis unfolding PHRASE_PATTERN_def split by simp
qed

text \<open>C40: Key phrases can be read out and typed. Whatever the random draws, a phrase is five list words of
  three to eight lowercase letters and a two-digit number without a leading zero, it is its own normal
  form, and two phrases are equal only when every draw was.\<close>

theorem phrases_are_typeable:
  assumes "draws_in_range rand" "draws_in_range rand'"
  shows "PHRASE_PATTERN (generatePhrase rand)
    \<and> normalisePhrase (Some (generatePhrase rand)) = generatePhrase rand
    \<and> (generatePhrase rand = generatePhrase rand'
        \<longleftrightarrow> list_all (\<lambda>i. rand i 0 2048 = rand' i 0 2048) [0..<PHRASE_WORDS]
            \<and> rand PHRASE_WORDS 10 100 = rand' PHRASE_WORDS 10 100)"
proof -
  have "generatePhrase rand = generatePhrase rand' \<longleftrightarrow>
      drawn_words rand @ [show_nat (rand PHRASE_WORDS 10 100)] = drawn_words rand' @ [show_nat (rand' PHRASE_WORDS 10 100)]"
    unfolding phrase_joined by (rule join_words_inj [OF _ _ phrase_parts [OF assms(1)] phrase_parts [OF assms(2)]]) simp_all
  also have "\<dots> \<longleftrightarrow> drawn_words rand = drawn_words rand' \<and> rand PHRASE_WORDS 10 100 = rand' PHRASE_WORDS 10 100"
    by (simp add: show_nat_inj)
  also have "drawn_words rand = drawn_words rand' \<longleftrightarrow> list_all (\<lambda>i. rand i 0 2048 = rand' i 0 2048) [0..<PHRASE_WORDS]"
  proof -
    have "rand i 0 2048 < length SIGNOUT_WORDS" "rand' i 0 2048 < length SIGNOUT_WORDS" for i
      using assms by (simp_all add: draws_in_range_def length_signout_words)
    then show ?thesis
      using signout_words_distinct
      by (simp add: drawn_words_def length_signout_words nth_eq_iff_index_eq list_all_iff)
  qed
  finally show ?thesis
    using phrase_matches_pattern [OF assms(1)] normalise_joined [OF _ phrase_parts [OF assms(1)]]
    by (simp add: phrase_joined)
qed

theorem phrases_are_typeable_witness:
  "PHRASE_PATTERN (generatePhrase (\<lambda>i lo hi. lo))
   \<and> generatePhrase (\<lambda>i lo hi. lo) \<noteq> generatePhrase (\<lambda>i lo hi. hi - 1)"
proof -
  have "draws_in_range (\<lambda>i lo hi. lo)" "draws_in_range (\<lambda>i lo hi. hi - 1)"
    by (auto simp: draws_in_range_def)
  from phrases_are_typeable [OF this] show ?thesis by simp
qed

section \<open>What a key is good for\<close>

lemma candidates_set:
  "k \<in> set (candidates me now keys) \<Longrightarrow>
     k \<in> set keys \<and> isKeyActive k now
     \<and> (if u_role me = SUPER_ADMIN then k_scope k = ''ORG'' else orgOf me = Some (k_companyId k))"
  by (auto simp: candidates_def Let_def split: if_splits dest!: in_set_takeD)

lemma matching_key_Some:
  "matching_key sha me phrase now keys = Some k \<Longrightarrow>
     k \<in> set (candidates me now keys) \<and> keyCovers k (holder_of me) \<and> phraseMatches sha k phrase"
  by (auto simp: matching_key_def find_Some_iff)

definition counted :: "uid \<Rightarrow> int \<Rightarrow> key_row \<Rightarrow> key_row" where
  "counted i now k = (if k_id k = i \<and> isKeyActive k now then k\<lparr>k_uses := k_uses k + 1\<rparr> else k)"

lemma claim_key_counted: "fst (claim_key i now keys) = map (counted i now) keys"
  "snd (claim_key i now keys) = 0 \<longleftrightarrow> \<not> (\<exists>k \<in> set keys. k_id k = i \<and> isKeyActive k now)"
  by (auto simp: claim_key_def counted_def Let_def filter_empty_conv)

text \<open>The ways a use ends.\<close>

lemma useKey_cases:
  obtains (waits) "retryAfterSec (ks_attempts s) (u_id me) now > 0"
      "useKey sha meanwhile me phrase purpose now s
         = (throw (TooManyAttemptsError ''TOO_MANY_ATTEMPTS''), s\<lparr>ks_attempts := askedRetry (ks_attempts s) (u_id me) now\<rparr>)"
  | (wrong) keys where "retryAfterSec (ks_attempts s) (u_id me) now = 0"
      "useKey sha meanwhile me phrase purpose now s = (throw (ForbiddenError ''SIGNOUT_KEY_INVALID''),
         s\<lparr>ks_keys := keys, ks_attempts := recordKeyFailure (askedRetry (ks_attempts s) (u_id me) now) (u_id me) now,
           ks_audit := ks_audit s @ [KeyFailed (u_id me)]\<rparr>)"
  | (right) k where "retryAfterSec (ks_attempts s) (u_id me) now = 0" "matching_key sha me phrase now (ks_keys s) = Some k"
      "\<exists>q \<in> set (meanwhile (ks_keys s)). k_id q = k_id k \<and> isKeyActive q now"
      "useKey sha meanwhile me phrase purpose now s = (return k,
         s\<lparr>ks_keys := map (counted (k_id k) now) (meanwhile (ks_keys s)),
           ks_attempts := resetAttempts (askedRetry (ks_attempts s) (u_id me) now) (u_id me)\<rparr>)"
proof (cases "retryAfterSec (ks_attempts s) (u_id me) now > 0")
  case True
  then show thesis using waits by (simp add: useKey_def Let_def)
next
  case False
  then have zero: "retryAfterSec (ks_attempts s) (u_id me) now = 0"
    using by_person.wait_nonneg [of "ks_attempts s" "u_id me" now] by simp
  show thesis
  proof (cases "matching_key sha me phrase now (ks_keys s)")
    case None
    then show thesis using wrong [OF zero, of "meanwhile (ks_keys s)"] zero by (simp add: useKey_def Let_def)
  next
    case (Some k)
    obtain keys n where c: "claim_key (k_id k) now (meanwhile (ks_keys s)) = (keys, n)" by (rule prod.exhaust)
    note counted = claim_key_counted [of "k_id k" now "meanwhile (ks_keys s)", unfolded c, simplified]
    show thesis
    proof (cases "n = 0")
      case True
      then show thesis using wrong [OF zero, of keys] zero Some c by (simp add: useKey_def Let_def)
    next
      case False
      then show thesis using right [OF zero Some] zero Some c counted by (simp add: useKey_def Let_def)
    qed
  qed
qed

text \<open>C32: Only a valid key signs out. Whatever else happens to the keys during the request, a key is
  accepted only if it is a stored key of the caller's organisation (for a Super Admin, an
  organisation-wide key), covers the caller, matches the phrase, and is neither revoked nor expired,
  at the read and at the claim; its use is counted, and no other key changes.\<close>

theorem only_a_valid_key_is_accepted:
  assumes "useKey sha meanwhile me phrase purpose now s = (return k, s')"
  shows "k \<in> set (ks_keys s) \<and> isKeyActive k now \<and> keyCovers k (holder_of me) \<and> phraseMatches sha k phrase
    \<and> (if u_role me = SUPER_ADMIN then k_scope k = ''ORG'' else orgOf me = Some (k_companyId k))
    \<and> list_ex (\<lambda>q. k_id q = k_id k \<and> isKeyActive q now) (meanwhile (ks_keys s))
    \<and> ks_keys s' = map (counted (k_id k) now) (meanwhile (ks_keys s))"
proof (cases rule: useKey_cases [of s me now sha meanwhile phrase purpose])
  case (right j)
  then have "j = k" "ks_keys s' = map (counted (k_id k) now) (meanwhile (ks_keys s))" using assms by auto
  then show ?thesis
    using right(2,3) matching_key_Some [of sha me phrase now "ks_keys s" k] candidates_set [of k me now "ks_keys s"]
    by (simp add: list_ex_iff)
qed (use assms in simp_all)

section \<open>Guessing keys\<close>

text \<open>
  Requests with a key, one after another: the wrong keys of a person since their last accepted one are
  logged. \<open>attempts_room\<close>: at most 10000 people failed in the last 10 minutes, beyond which the
  limiter forgets.
\<close>

inductive key_guessing :: "(string \<Rightarrow> string) \<Rightarrow> key_state \<Rightarrow> (uid \<Rightarrow> int list) \<Rightarrow> int \<Rightarrow> bool"
  for sha :: "string \<Rightarrow> string" where
  keys_start: "ks_attempts s = [] \<Longrightarrow> key_guessing sha s (\<lambda>_. []) now"
| keys_used:
    "key_guessing sha s G c \<Longrightarrow> c \<le> now \<Longrightarrow> attempts_room G (u_id me) now
     \<Longrightarrow> useKey sha meanwhile me phrase purpose now s = (r, s')
     \<Longrightarrow> key_guessing sha s'
           (case r of
              Inr k \<Rightarrow> G(u_id me := [])
            | Inl e \<Rightarrow> if e = ForbiddenError ''SIGNOUT_KEY_INVALID'' then G(u_id me := G (u_id me) @ [now]) else G) now"
| keys_else:
    "key_guessing sha s G c \<Longrightarrow> ks_attempts s' = ks_attempts s \<Longrightarrow> key_guessing sha s' G c"

definition keys_ok :: "(uid \<Rightarrow> int list) \<Rightarrow> int \<Rightarrow> key_attempts \<Rightarrow> bool" where
  "keys_ok G c a \<longleftrightarrow> attempts_tracks G c a \<and> (\<forall>k. spaced ATTEMPT_MAX_FAILURES ATTEMPT_WINDOW_MS (G k))"

lemma keys_missed:
  assumes "keys_ok G c a" "c \<le> now" "attempts_room G i now" "retryAfterSec a i now = 0"
  shows "keys_ok (G(i := G i @ [now])) now (recordKeyFailure (askedRetry a i now) i now)"
proof -
  have t: "attempts_tracks G c a" using assms(1) by (simp add: keys_ok_def)
  note asked = by_person.tracks_look [OF t assms(2), of i]
  have "attempts_tracks (G(i := G i @ [now])) now (recordKeyFailure (askedRetry a i now) i now)"
    by (rule by_person.tracks_miss [OF asked order_refl assms(3)])
  moreover have "spaced ATTEMPT_MAX_FAILURES ATTEMPT_WINDOW_MS (G i @ [now])"
    by (rule by_person.admitted_spaced [OF t assms(2,4)]) (use assms(1) in \<open>simp_all add: keys_ok_def\<close>)
  ultimately show ?thesis using assms(1) by (simp add: keys_ok_def)
qed

lemma keys_accepted:
  assumes "keys_ok G c a" "c \<le> now"
  shows "keys_ok (G(i := [])) now (resetAttempts (askedRetry a i now) i)" "keys_ok G now (askedRetry a i now)"
proof -
  have t: "attempts_tracks G c a" using assms(1) by (simp add: keys_ok_def)
  note asked = by_person.tracks_look [OF t assms(2), of i]
  show "keys_ok (G(i := [])) now (resetAttempts (askedRetry a i now) i)" "keys_ok G now (askedRetry a i now)"
    using asked reset_tracks [OF asked, of i] assms(1) by (simp_all add: keys_ok_def)
qed

lemma key_guessing_ok: "key_guessing sha s G c \<Longrightarrow> keys_ok G c (ks_attempts s)"
proof (induction rule: key_guessing.induct)
  case (keys_start s now)
  then show ?case using by_person.tracks_start by (simp add: keys_ok_def)
next
  case (keys_used s G c now me meanwhile phrase purpose r s')
  note IH = keys_used.IH and step = keys_used.hyps(2-4)
  show ?case
  proof (cases rule: useKey_cases [of s me now sha meanwhile phrase purpose])
    case waits
    then show ?thesis using step(3) keys_accepted(2) [OF IH step(1)] by auto
  next
    case (wrong keys)
    then show ?thesis using step(3) keys_missed [OF IH step(1,2) wrong(1)] by (auto simp: fun_upd_def)
  next
    case (right k)
    then show ?thesis using step(3) keys_accepted(1) [OF IH step(1), of "u_id me"] by (auto simp: fun_upd_def)
  qed
next
  case (keys_else s G c s')
  then show ?case by simp
qed

text \<open>Guessing keys is slow. Over any history of key requests, one after another, the wrong keys a
  person gave since their last accepted one number at most five in any ten minutes; and a person who
  is told to wait so many seconds and gives no wrong key meanwhile is let through after them.\<close>

theorem guessing_keys_is_slow:
  assumes "key_guessing sha s G c" "c \<le> now"
    and "now + retryAfterSec (ks_attempts s) i now * 1000 \<le> later"
  shows "length (filter (\<lambda>t. T - ATTEMPT_WINDOW_MS < t \<and> t \<le> T) (G i)) \<le> 5
    \<and> retryAfterSec (ks_attempts s) i later = 0"
proof -
  note ok = key_guessing_ok [OF assms(1)]
  then have t: "attempts_tracks G c (ks_attempts s)"
    and sp: "spaced ATTEMPT_MAX_FAILURES ATTEMPT_WINDOW_MS (G i)" by (simp_all add: keys_ok_def)
  have "retryAfterSec (ks_attempts s) i later = 0"
  proof (cases "0 < retryAfterSec (ks_attempts s) i now")
    case True
    from by_person.waited [OF t assms(2) True assms(3)] show ?thesis .
  next
    case False
    then have zero: "retryAfterSec (ks_attempts s) i now = 0"
      using by_person.wait_nonneg [of "ks_attempts s" i now] by simp
    then have le: "now \<le> later" using assms(3) by simp
    have "length (recent ATTEMPT_WINDOW_MS (G i) later) < ATTEMPT_MAX_FAILURES"
      using by_person.admitted [OF t assms(2) zero] length_recent_later [OF le, of ATTEMPT_WINDOW_MS "G i"] by linarith
    then have "\<not> 0 < retryAfterSec (ks_attempts s) i later"
      using by_person.wait_iff [OF t, of later i] assms(2) le by simp
    then show ?thesis using by_person.wait_nonneg [of "ks_attempts s" i later] by simp
  qed
  then show ?thesis using sp by (simp add: spaced_def ATTEMPT_MAX_FAILURES_def)
qed

section \<open>Signing the agent out\<close>

lemma find_account_updated:
  assumes "findAccount s i = Some a" "\<And>b. ac_id (f b) = ac_id b" "\<And>b. ac_deleted (f b) = ac_deleted b"
  shows "findAccount (update_account i f s) i = Some (f a)"
proof -
  have "find (\<lambda>a. ac_id a = i \<and> \<not> ac_deleted a) (map (\<lambda>a. if ac_id a = i then f a else a) us)
      = map_option f (find (\<lambda>a. ac_id a = i \<and> \<not> ac_deleted a) us)" for us
    by (induction us) (simp_all add: assms(2,3))
  then show ?thesis using assms(1) by (simp add: findAccount_def update_account_def)
qed

text \<open>Signing out with a key ends the agent and nothing else. It ends exactly the caller's agent
  sessions that were still live, leaves their portal sessions and everyone else's sessions as they
  were, and makes every installer and setup code issued for their account so far worthless.\<close>

theorem key_sign_out_ends_the_agent_only:
  assumes "signOut sha meanwhile me phrase now s = (return (), s')"
    and "findAccount (ks_auth s) (u_id me) = Some a"
    and "verifyEnrollmentToken sv token = Some (u_id me, ac_enrollVersion a)"
  shows "st_tokens (as_tokens (ks_auth s')) =
      map (\<lambda>r. if rt_userId r = u_id me \<and> agent_row r \<and> rt_revokedAt r = None
               then r\<lparr>rt_revokedAt := Some now\<rparr> else r) (st_tokens (as_tokens (ks_auth s)))
    \<and> enrollAgent sv token meta fresh later (ks_auth s') = (Refused InvalidCredentialsError, ks_auth s')"
proof (cases rule: useKey_cases [of s me now sha meanwhile phrase ForSignOut])
  case (right k)
  let ?z = "ks_auth s"
  have auth: "ks_auth s' = bumpEnrollVersion (u_id me) (?z\<lparr>as_tokens := revokeAgentSessions (u_id me) now (as_tokens ?z)\<rparr>)"
    using assms(1) right(4) by (auto simp: signOut_def Let_def)
  have tokens: "as_tokens (ks_auth s') = revokeAgentSessions (u_id me) now (as_tokens ?z)" unfolding auth by simp
  have "findAccount (?z\<lparr>as_tokens := revokeAgentSessions (u_id me) now (as_tokens ?z)\<rparr>) (u_id me) = Some a"
    using assms(2) by (simp add: findAccount_def)
  then have "findAccount (ks_auth s') (u_id me) = Some (a\<lparr>ac_enrollVersion := ac_enrollVersion a + 1\<rparr>)"
    unfolding auth bumpEnrollVersion_def by (rule find_account_updated) simp_all
  then have "enrollAgent sv token meta fresh later (ks_auth s') = (Refused InvalidCredentialsError, ks_auth s')"
    using assms(3) by (simp add: enrollAgent_def)
  then show ?thesis unfolding tokens by (simp add: revokeAgentSessions_def revoke_where_def)
qed (use assms(1) in \<open>simp_all add: signOut_def\<close>)

section \<open>An issued key works\<close>

lemma candidates_all:
  assumes "length (filter (\<lambda>k. isKeyActive k now \<and> Some (k_companyId k) = orgOf me) keys) \<le> 500"
    "u_role me \<noteq> SUPER_ADMIN" "orgOf me \<noteq> None"
  shows "set (candidates me now keys) = set (filter (\<lambda>k. isKeyActive k now \<and> Some (k_companyId k) = orgOf me) keys)"
  using assms by (simp add: candidates_def Let_def length_js_sort set_js_sort del: filter_filter)

lemma createKey_created:
  assumes "createKey sha rand salt me scope us ds now s = (return (i, phrase, e), s')"
  shows "\<exists>k. k \<in> set (ks_keys s') \<and> k_id k = i \<and> phrase = generatePhrase rand \<and> e = now + KEY_TTL_MS
    \<and> k_phraseHash k = hashPhrase sha salt (Some phrase) \<and> k_salt k = salt \<and> k_scope k = scope
    \<and> k_revokedAt k = None \<and> k_expiresAt k = e
    \<and> adminOrg me = return (k_companyId k)
    \<and> k_userIds k = (if scope = ''USERS'' then js_unique (coalesce us []) else [])
    \<and> k_departmentIds k = (if scope = ''DEPARTMENTS'' then js_unique (coalesce ds []) else [])"
  using assms by (auto simp: createKey_def Let_def split: sum.splits)

text \<open>A key works for whom it was issued. A key an administrator issues is stored without its phrase
  and for 24 hours accepts anybody of the organisation it covers who types the phrase in any case and
  spacing, unless it was revoked, they are over the limit of wrong keys, or the organisation has more
  than 500 active keys.\<close>

theorem an_issued_key_works:
  assumes "createKey sha rand salt admin scope us ds now s = (return (i, phrase, e), s1)"
    and "k \<in> set (ks_keys s1)" "k_id k = i" "\<forall>q \<in> set (ks_keys s1). k_id q = i \<longrightarrow> q = k"
    and "k \<in> set (ks_keys s2)" "t < now + 24 * 60 * 60 * 1000"
    and "normalisePhrase typed = normalisePhrase (Some phrase)" "keyCovers k (holder_of me)"
    and "orgOf me = Some (k_companyId k)" "u_role me \<noteq> SUPER_ADMIN"
    and "retryAfterSec (ks_attempts s2) (u_id me) t = 0"
    and "length (filter (\<lambda>q. isKeyActive q t \<and> Some (k_companyId q) = orgOf me) (ks_keys s2)) \<le> 500"
  shows "\<exists>j s3. useKey sha id me typed purpose t s2 = (return j, s3)"
proof -
  obtain k' where k': "k' \<in> set (ks_keys s1)" "k_id k' = i" "e = now + KEY_TTL_MS"
    "k_phraseHash k' = hashPhrase sha salt (Some phrase)" "k_salt k' = salt" "k_revokedAt k' = None" "k_expiresAt k' = e"
    using createKey_created [OF assms(1)] by blast
  then have k: "k' = k" using assms(4) by blast
  have active: "isKeyActive k t" using k' k assms(6) by (simp add: isKeyActive_def KEY_TTL_MS_def)
  have matches: "phraseMatches sha k typed" using k' k assms(7) by (simp add: phraseMatches_def hashPhrase_def)
  have "k \<in> set (candidates me t (ks_keys s2))"
    using candidates_all [OF assms(12,10)] assms(5,9) active by simp
  then have "matching_key sha me typed t (ks_keys s2) \<noteq> None"
    using assms(8) matches by (auto simp: matching_key_def find_None_iff)
  then obtain j where j: "matching_key sha me typed t (ks_keys s2) = Some j" by blast
  then have "j \<in> set (ks_keys s2)" "isKeyActive j t"
    using matching_key_Some [OF j] candidates_set by blast+
  then have "snd (claim_key (k_id j) t (ks_keys s2)) \<noteq> 0"
    using claim_key_counted(2) by blast
  then show ?thesis
    using j assms(11) by (auto simp: useKey_def Let_def split: prod.splits)
qed

section \<open>Witnesses\<close>

definition sample_draws :: "nat \<Rightarrow> nat \<Rightarrow> nat \<Rightarrow> nat" where
  "sample_draws i lo hi = lo"

definition no_keys :: key_state where
  "no_keys = \<lparr>ks_auth = signed_in_state, ks_names = [], ks_departments = [], ks_keys = [], ks_attempts = [],
     ks_audit = [], ks_signedOut = [], ks_next = 0\<rparr>"

definition sample_phrase :: string where
  "sample_phrase = generatePhrase sample_draws"

definition org_key :: key_row where
  "org_key = \<lparr>k_id = 0, k_companyId = 1, k_phraseHash = hashPhrase id ''x'' (Some sample_phrase), k_salt = ''x'',
     k_scope = ''ORG'', k_userIds = [], k_departmentIds = [], k_createdById = 2, k_createdAt = 0,
     k_expiresAt = KEY_TTL_MS, k_revokedAt = None, k_uses = 0\<rparr>"

definition one_key :: key_state where
  "one_key = no_keys\<lparr>ks_keys := [org_key], ks_next := 1, ks_audit := [KeyCreated 2 0]\<rparr>"

definition staff_user :: auth_user where
  "staff_user = org_admin\<lparr>u_id := 7, u_role := USER\<rparr>"

lemma key_issued:
  "createKey id sample_draws ''x'' org_admin ''ORG'' None None 0 no_keys = (return (0, sample_phrase, KEY_TTL_MS), one_key)"
  by (simp add: createKey_def adminOrg_def requireOrg_def org_admin_def orgOf_def seesEveryOrg_def isAdminLike_def
      scope_checked_def no_keys_def one_key_def org_key_def sample_phrase_def Let_def)

lemma staff_org: "orgOf staff_user = Some 1" "u_role staff_user = USER" "u_id staff_user = 7"
  by (simp_all add: staff_user_def org_admin_def orgOf_def seesEveryOrg_def)

lemma org_key_active: "isKeyActive org_key 1000" "keyCovers org_key (holder_of staff_user)"
  "phraseMatches id org_key (Some sample_phrase)"
  by (simp_all add: isKeyActive_def org_key_def KEY_TTL_MS_def keyCovers_def phraseMatches_def)

lemma no_wait: "retryAfterSec [] i now = 0"
  by (simp add: retryAfterSec_def recentAttempts_def failures_of_def ATTEMPT_MAX_FAILURES_def)

theorem an_issued_key_works_witness:
  "\<exists>j s3. useKey id id staff_user (Some sample_phrase) ForSignOut 1000 one_key = (return j, s3)"
  by (rule an_issued_key_works [OF key_issued, of org_key])
     (simp_all add: one_key_def no_keys_def org_key_active staff_org no_wait, simp_all add: org_key_def)

lemma key_used:
  "useKey id id staff_user (Some sample_phrase) ForSignOut 1000 one_key
     = (return org_key, one_key\<lparr>ks_keys := [org_key\<lparr>k_uses := 1\<rparr>]\<rparr>)"
proof -
  have "candidates staff_user 1000 [org_key] = [org_key]"
    using org_key_active(1) staff_org by (simp add: candidates_def Let_def org_key_def)
  then have "matching_key id staff_user (Some sample_phrase) 1000 [org_key] = Some org_key"
    using org_key_active by (simp add: matching_key_def)
  then show ?thesis
    using org_key_active(1)
    by (simp add: useKey_def one_key_def no_keys_def no_wait askedRetry_def recentAttempts_def failures_of_def
        claim_key_def resetAttempts_def Let_def org_key_def)
qed

theorem only_a_valid_key_is_accepted_witness:
  "org_key \<in> set (ks_keys one_key) \<and> isKeyActive org_key 1000 \<and> keyCovers org_key (holder_of staff_user)"
  using only_a_valid_key_is_accepted [OF key_used] by blast

theorem key_sign_out_ends_the_agent_only_witness:
  "enrollAgent (plain_services\<lparr>sv_verify := (\<lambda>t. Some \<lparr>cl_sub = Some 7, cl_typ = ''enroll'', cl_ev = Some 1\<rparr>)\<rparr>) ''t'' browser ''b'' 2000
     (ks_auth (snd (signOut id id staff_user (Some sample_phrase) 1000 one_key)))
   = (Refused InvalidCredentialsError, ks_auth (snd (signOut id id staff_user (Some sample_phrase) 1000 one_key)))"
proof -
  let ?s = "snd (signOut id id staff_user (Some sample_phrase) 1000 one_key)"
  have out: "signOut id id staff_user (Some sample_phrase) 1000 one_key = (return (), ?s)"
    by (simp add: signOut_def key_used Let_def)
  have account: "findAccount (ks_auth one_key) (u_id staff_user) = Some (hd (as_users one_account))"
    by (simp add: one_key_def no_keys_def findAccount_def signed_in_rows staff_org one_account_def)
  show ?thesis
    by (rule key_sign_out_ends_the_agent_only [OF out account, THEN conjunct2])
       (simp add: verifyEnrollmentToken_def staff_org one_account_def plain_services_def)
qed

lemma one_wrong_key:
  "key_guessing id (snd (useKey id id staff_user None ForSignOut 5 no_keys)) ((\<lambda>_. []) (7 := [5])) 5"
proof -
  have start: "key_guessing id no_keys (\<lambda>_. []) 0" by (rule keys_start) (simp add: no_keys_def)
  have room: "attempts_room (\<lambda>_. []) (u_id staff_user) 5"
    by (simp add: attempts_room_def ATTEMPT_MAX_PEOPLE_def)
  have "fst (useKey id id staff_user None ForSignOut 5 no_keys) = throw (ForbiddenError ''SIGNOUT_KEY_INVALID'')"
    by (simp add: useKey_def no_keys_def no_wait matching_key_def candidates_def Let_def)
  then have used: "useKey id id staff_user None ForSignOut 5 no_keys
      = (throw (ForbiddenError ''SIGNOUT_KEY_INVALID''), snd (useKey id id staff_user None ForSignOut 5 no_keys))"
    by (metis prod.collapse)
  from keys_used [OF start _ room used] show ?thesis by (simp add: staff_org)
qed

theorem guessing_keys_is_slow_witness:
  "length (filter (\<lambda>t. 5 - ATTEMPT_WINDOW_MS < t \<and> t \<le> 5) [5]) \<le> 5
   \<and> retryAfterSec (ks_attempts (snd (useKey id id staff_user None ForSignOut 5 no_keys))) 7 5000000 = 0"
proof -
  let ?a = "ks_attempts (snd (useKey id id staff_user None ForSignOut 5 no_keys))"
  have "attempts_tracks ((\<lambda>_. []) (7 := [5])) 5 ?a" using key_guessing_ok [OF one_wrong_key] by (simp add: keys_ok_def)
  then have "5 + retryAfterSec ?a 7 5 * 1000 \<le> 5000000"
    by (simp add: retryAfterSec_value ATTEMPT_MAX_FAILURES_def ATTEMPT_WINDOW_MS_def)
  from guessing_keys_is_slow [OF one_wrong_key _ this, of 5] show ?thesis by simp
qed

end
