(* ===== verification/Spec2Isabelle.thy ===== *)
theory Spec2Isabelle
  imports Calendar Reminders Focus_Adjustments People Idle_Settings Worktime_Rules Attendance Hourly Break_Schedule
    Shift_Resolution Break_Approvals Work_Day Legacy_Breaks Meeting_Guarantees Replay_Guarantees Signout_Keys
    Approval_Guarantees
begin

text \<open>
  A verification library for the RX Vision time-tracking backend (the NestJS server under
  \<open>src/src\<close>). People start and end their working day, take the breaks of their shift, hold meetings and
  explain time away from the keyboard; managers and admins decide what needs approval; payroll months
  are locked; focus time is computed from all of it. The library models the rules and the
  transactions behind that and proves what makes them correct. C1 to C40 in the theories mark the
  properties, in order of importance.

  \<^bold>\<open>How the parts fit together.\<close> One table of presence sessions and one of break records
  (\<open>break_db\<close>) lies inside the table of work sessions (\<open>work_db\<close>), which lies inside the meeting
  records (\<open>meet_db\<close>) and the away rows (\<open>away_db\<close>): each layer's operations act on its own rows and, through
  the layer below, on the shared ones, as the repositories do in one database. A repository transaction is a function
  from a state to a result and a state; a thrown error is an \<open>Inl\<close> and keeps the state it was
  raised in, or the old one where the code rolls back. Services compose these functions in the code's order. Each table
  has an invariant that every operation keeps, and an inductive step relation whose reachable
  states are the histories the properties speak of.

  \<^bold>\<open>The theories and what they model\<close> (paths under \<open>src/src\<close>).

  Foundations. \<open>Prelude\<close>: exceptions (\<open>shared/exceptions\<close>), list and option helpers, a stable JavaScript sort, and
  the interface of a bounded memo. \<open>Intervals\<close>: \<open>modules/worktime/domain/intervals.ts\<close>, every operation as a
  set operation on milliseconds (C38), with the interface \<open>measured_union\<close>. \<open>Time_Zone\<close>, \<open>Day_Keys\<close>:
  \<open>shared/utils/timezone.ts\<close> and the date keys, with the calendar arithmetic proved from day numbers (C39).

  Time computed. \<open>Focus\<close>: \<open>domain/focus.ts\<close>, each field of the breakdown (C21). \<open>Hourly\<close>: \<open>domain/hourly.ts\<close> (C37).
  \<open>Attendance\<close> and \<open>Worktime_Rules\<close>: \<open>attendance.ts\<close>, \<open>owed.ts\<close>, \<open>sla.ts\<close>, \<open>auto-close.ts\<close>, \<open>agent-generation.ts\<close>,
  \<open>meetings.ts\<close>, \<open>focus-adjustment.ts\<close>. \<open>Focus_Adjustments\<close>: the Super Manager's manual adjustments (C15, C16).

  Who may do what. \<open>Tenancy\<close>: roles and scopes of \<open>shared/rbac\<close> and \<open>shared/tenancy\<close> (C18). \<open>People\<close>, \<open>Shift_People\<close>: the
  readers behind the team views and the coverage query of the input samples (C19, C22).

  Breaks. \<open>Break_Schedule\<close>: shifts, slots, windows (C33); \<open>Shift_Resolution\<close>: which shift holds. \<open>Break_Store\<close>, \<open>Break_Records\<close>:
  \<open>modules/shifts/infrastructure/prisma-break-record.repository.ts\<close>; \<open>Break_Invariant\<close>: its invariant and that
  every operation keeps it; \<open>Break_Guarantees\<close>: one break at a time (C1), locked months (C17), exact accounting of pauses.
  \<open>Break_Approvals\<close>, \<open>My_Breaks\<close>: the two use cases (C2, C30). \<open>Skips\<close>, \<open>Legacy_Breaks\<close>: skipped breaks, and breaks of older
  agents (C27).

  The working day. \<open>Work_Sessions\<close>: \<open>prisma-work-session.repository.ts\<close> and its service; \<open>Work_Day\<close>: sessions never overlap
  (C3), the refinement of a two-state machine (C25), the auto-close job (C31). \<open>Presence\<close>: statuses. \<open>Meetings\<close>,
  \<open>Meeting_Guarantees\<close>: live and earlier meetings (C7, C29). \<open>Idle_Settings\<close>, \<open>Away\<close>, \<open>Away_Guarantees\<close>: input tracking settings and
  away time (C9, C10, C36).

  Approvals. \<open>Approval_Items\<close>: the reader that sees breaks, meetings and away time as one kind of item; \<open>Approvals\<close>: the inbox
  service; \<open>Approval_Guarantees\<close>: authorised decisions (C4), the flag that says who may decide (C8), who an item waits for (C11, C34).
  \<open>Notices\<close>, \<open>Jobs\<close>: the texts, the reminder and escalation pass (C13) and the digest (C20). \<open>Reminders\<close>: what passes keep over every
  history of all the tables (C12).

  Settings and calendar. \<open>Settings\<close>: the stored organisation settings and their cache; \<open>Calendar\<close>: week patterns, day
  overrides and month locks through the stored JSON (C14, C23, C35).

  Getting in. \<open>Limiters\<close>: the three limiters on guessing, over the interface \<open>window_limiter\<close>. \<open>Refresh_Tokens\<close>: rotation and its
  races (C26). \<open>Sign_In\<close>: sign-in, refresh, enrolment, shutting people out (C6, C24, C28). \<open>Signout_Keys\<close>,
  \<open>Wordlist\<close>: sign-out keys (C32, C40). \<open>Replay\<close>, \<open>Replay_Guarantees\<close>: the interceptor that replays an offline agent's journal (C5).

  \<^bold>\<open>Interleaving.\<close> Where the code relies on a transaction with locks, an operation is one step. Where it relies on single statements
  (\<open>refresh_race\<close> of the token rotation, \<open>copy_step\<close> of the replay interceptor) the steps are the statements. A sign-in is one step in
  the histories; its two halves are \<open>login_check\<close> and \<open>login_finish\<close>. Several break operations take no lock on the
  person (\<open>Break_Store\<close> names them); each is still one step here.

  \<^bold>\<open>What the histories leave out.\<close> Work sessions are opened by a clock past the person's last end (C3); months are locked and not
  unlocked, and people do not move between organisations, in the histories of the calendar and of the adjustments; no
  caller decides a waiting item and leaves it waiting (C12). Each such premise is part of the step relation it restricts
  and stated with the property; where it is needed a lemma shows what fails without it.

  \<^bold>\<open>Numbers, time and fuel.\<close> Instants and durations are unbounded integers of milliseconds or seconds: the code's numbers stay far below
  2 to the 53rd, where JavaScript's are exact; its roundings are written out. A zone is a parameter, a function from an instant to its
  offset. The loops are structural or have a measure: no function runs on fuel, and the loops that look for a free
  key and list a month are proved to end (C36, C35). Ids are numbers the tables hand out.

  \<^bold>\<open>Parameters.\<close> Password hashing and token signing, the event bus's success, the instants rows were created at, and the random draws of
  a phrase are arguments of the definitions that use them.

  \<^bold>\<open>Not modelled.\<close> Controllers, guards' wiring, web sockets, prisma's SQL generation, logging, mail and file storage (input and
  output); record keeping of users, departments, organisations and shifts (their rows are data of the models); the reports,
  activity, analytics, screenshots and chat modules (storage and presentation).
\<close>

end
